(* ===== verification/Prelude.thy ===== *)
theory Prelude
  imports Main "HOL-Library.Word" "HOL-Library.Monad_Syntax"
begin

text \<open>
  The shared vocabulary of the development: the machine types of the Rust code, panics as
  values, the integer intrinsics of \<^verbatim>\<open>u64\<close> the sources call, and the generic lemmas on
  lists, words and finite sets that every component uses.

  A Rust computation that can panic (index out of range, \<^verbatim>\<open>unwrap\<close> of \<^verbatim>\<open>None\<close>, integer
  overflow, division by zero) is a value of type \<open>'a option\<close> whose \<open>None\<close> is the panic; a
  recoverable \<^verbatim>\<open>Result\<close> is a sum, \<open>Inl\<close> the error.
\<close>

unbundle bit_operations_syntax

named_theorems bit_facts \<open>characterisations of the bitset operations by membership\<close>
named_theorems wf_intros \<open>preservation of a component's well-formedness by its operations\<close>
named_theorems frame \<open>fields an operation leaves unchanged\<close>

section \<open>Types of the model\<close>

type_synonym u8 = "8 word"
type_synonym u32 = "32 word"
type_synonym u64 = "64 word"
type_synonym bytes = "u8 list"
type_synonym 'a panics = "'a option"

text \<open>
  \<^verbatim>\<open>std::time::Instant\<close> is a point on the monotonic clock, in nanoseconds from an unspecified
  origin; \<^verbatim>\<open>std::time::Duration\<close> is a number of nanoseconds.
\<close>

type_synonym instant = int
type_synonym duration = nat

definition usize_max :: nat where
  "usize_max = 2 ^ 64 - 1"

definition from_millis :: "nat \<Rightarrow> duration" where
  "from_millis n = n * 1000000"

definition from_secs :: "nat \<Rightarrow> duration" where
  "from_secs n = n * 1000000000"

definition saturating_duration_since :: "instant \<Rightarrow> instant \<Rightarrow> duration" where
  "saturating_duration_since later earlier = nat (later - earlier)"

definition inst_add :: "instant \<Rightarrow> duration \<Rightarrow> instant" where
  "inst_add t d = t + int d"

definition inst_sub :: "instant \<Rightarrow> duration \<Rightarrow> instant" where
  "inst_sub t d = t - int d"

text \<open>\<^verbatim>\<open>a - b\<close> on \<^verbatim>\<open>usize\<close>: the overflow check panics when \<open>b\<close> is the larger one.\<close>

definition checked_sub :: "nat \<Rightarrow> nat \<Rightarrow> nat panics" where
  "checked_sub a b = (if b \<le> a then Some (a - b) else None)"

text \<open>\<^verbatim>\<open>xs[i]\<close>: the bounds check panics.\<close>

definition index_at :: "'a list \<Rightarrow> nat \<Rightarrow> 'a panics" where
  "index_at xs i = (if i < length xs then Some (xs ! i) else None)"

definition div_ceil :: "nat \<Rightarrow> nat \<Rightarrow> nat" where
  "div_ceil a b = (a + b - 1) div b"

text \<open>\<^verbatim>\<open>Duration::abs_diff\<close> and \<^verbatim>\<open>usize::abs_diff\<close>.\<close>

definition abs_diff :: "nat \<Rightarrow> nat \<Rightarrow> nat" where
  "abs_diff a b = (if a \<le> b then b - a else a - b)"

section \<open>Panics\<close>

lemma checked_sub_Some [simp]: "b \<le> a \<Longrightarrow> checked_sub a b = Some (a - b)"
  by (simp add: checked_sub_def)

lemma checked_sub_eq_Some_iff: "checked_sub a b = Some c \<longleftrightarrow> b \<le> a \<and> c = a - b"
  by (auto simp: checked_sub_def)

lemma index_at_Some [simp]: "i < length xs \<Longrightarrow> index_at xs i = Some (xs ! i)"
  by (simp add: index_at_def)

lemma index_at_eq_Some_iff: "index_at xs i = Some x \<longleftrightarrow> i < length xs \<and> x = xs ! i"
  by (auto simp: index_at_def)

lemma div_ceil_bounds:
  assumes "0 < b"
  shows "a \<le> div_ceil a b * b" and "0 < a \<Longrightarrow> (div_ceil a b - 1) * b < a"
proof -
  show "a \<le> div_ceil a b * b"
    using assms mod_less_divisor [OF assms, of "a + b - 1"]
      div_mult_mod_eq [of "a + b - 1" b]
    unfolding div_ceil_def by linarith
  show "(div_ceil a b - 1) * b < a" if "0 < a"
  proof -
    have eq: "div_ceil a b = (a - 1) div b + 1"
      using assms that div_add_self2 [of b "a - 1"] unfolding div_ceil_def by simp
    have "(a - 1) div b * b \<le> a - 1" by (rule div_times_less_eq_dividend)
    also have "\<dots> < a" using that by simp
    finally show ?thesis by (simp add: eq)
  qed
qed

lemma div_ceil_le_iff:
  assumes "0 < b"
  shows "div_ceil a b \<le> k \<longleftrightarrow> a \<le> k * b"
proof
  assume "div_ceil a b \<le> k"
  then have "div_ceil a b * b \<le> k * b" by simp
  with div_ceil_bounds(1) [OF assms] show "a \<le> k * b" by (rule le_trans)
next
  assume "a \<le> k * b"
  then have "a + b - 1 < (k + 1) * b" using assms by (simp add: algebra_simps)
  then show "div_ceil a b \<le> k"
    unfolding div_ceil_def by (metis Suc_eq_plus1 less_Suc_eq_le less_mult_imp_div_less)
qed

section \<open>Searching an interval\<close>

text \<open>The first index of \<open>[0, n)\<close> with a property, and \<open>n\<close> when there is none.\<close>

definition first_idx :: "(nat \<Rightarrow> bool) \<Rightarrow> nat \<Rightarrow> nat" where
  "first_idx P n = length (takeWhile (\<lambda>i. \<not> P i) [0..<n])"

lemma first_idx_le: "first_idx P n \<le> n"
  using length_takeWhile_le [of "\<lambda>i. \<not> P i" "[0..<n]"] by (simp add: first_idx_def)

lemma first_idx_before: "i < first_idx P n \<Longrightarrow> \<not> P i"
proof -
  assume i: "i < first_idx P n"
  then have "[0..<n] ! i = takeWhile (\<lambda>i. \<not> P i) [0..<n] ! i"
    by (simp add: first_idx_def takeWhile_nth)
  moreover have "takeWhile (\<lambda>i. \<not> P i) [0..<n] ! i \<in> set (takeWhile (\<lambda>i. \<not> P i) [0..<n])"
    using i by (simp add: first_idx_def)
  ultimately show "\<not> P i"
    using i first_idx_le [of P n] by (auto dest: set_takeWhileD)
qed

lemma first_idx_at: "first_idx P n < n \<Longrightarrow> P (first_idx P n)"
  using nth_length_takeWhile [of "\<lambda>i. \<not> P i" "[0..<n]"] by (simp add: first_idx_def)

lemma first_idx_less: "i < n \<Longrightarrow> P i \<Longrightarrow> first_idx P n \<le> i"
  using first_idx_before by (meson not_le)

lemma first_idx_eqI:
  "k \<le> n \<Longrightarrow> (\<And>i. i < k \<Longrightarrow> \<not> P i) \<Longrightarrow> k < n \<longrightarrow> P k \<Longrightarrow> first_idx P n = k"
  by (metis first_idx_at first_idx_before first_idx_le linorder_neqE_nat
      order_less_le order_less_le_trans)

text \<open>The reference reading of a forward search: \<open>find\<close> over the interval.\<close>

lemma find_upt_eq_Some_iff:
  "find P [a..<b] = Some k \<longleftrightarrow> a \<le> k \<and> k < b \<and> P k \<and> (\<forall>j. a \<le> j \<and> j < k \<longrightarrow> \<not> P j)"
proof
  assume "find P [a..<b] = Some k"
  then obtain i where i: "i < b - a" "P (a + i)" "k = a + i" "\<forall>j < i. \<not> P (a + j)"
    by (auto simp: find_Some_iff)
  have "\<not> P j" if "a \<le> j" "j < k" for j
    using i(3) spec [OF i(4), of "j - a"] that by auto
  with i show "a \<le> k \<and> k < b \<and> P k \<and> (\<forall>j. a \<le> j \<and> j < k \<longrightarrow> \<not> P j)" by auto
next
  assume "a \<le> k \<and> k < b \<and> P k \<and> (\<forall>j. a \<le> j \<and> j < k \<longrightarrow> \<not> P j)"
  then show "find P [a..<b] = Some k"
    by (auto simp: find_Some_iff intro!: exI [of _ "k - a"])
qed

lemma find_upt_eq_None_iff: "find P [a..<b] = None \<longleftrightarrow> (\<forall>j. a \<le> j \<and> j < b \<longrightarrow> \<not> P j)"
  by (auto simp: find_None_iff)

lemma find_upt_skip:
  assumes "\<And>j. a \<le> j \<Longrightarrow> j < c \<Longrightarrow> \<not> P j" and "a \<le> c"
  shows "find P [a..<b] = find P [c..<b]"
proof (cases "find P [c..<b]")
  case None
  then have "\<forall>j. a \<le> j \<and> j < b \<longrightarrow> \<not> P j"
    using assms(1) by (metis find_upt_eq_None_iff not_le)
  with None show ?thesis by (simp add: find_upt_eq_None_iff [THEN iffD2])
next
  case (Some k)
  then have "a \<le> k \<and> k < b \<and> P k \<and> (\<forall>j. a \<le> j \<and> j < k \<longrightarrow> \<not> P j)"
    using assms unfolding find_upt_eq_Some_iff by (meson le_trans not_le)
  with Some show ?thesis by (simp add: find_upt_eq_Some_iff [THEN iffD2])
qed

text \<open>And of a backward search.\<close>

lemma find_rev_upt_eq_Some_iff:
  "find P (rev [0..<n]) = Some k \<longleftrightarrow> k < n \<and> P k \<and> (\<forall>j. k < j \<and> j < n \<longrightarrow> \<not> P j)"
  by (induction n) (auto simp: less_Suc_eq)

lemma find_rev_upt_eq_None_iff: "find P (rev [0..<n]) = None \<longleftrightarrow> (\<forall>j < n. \<not> P j)"
  by (auto simp: find_None_iff)

lemma find_rev_upt_skip:
  "(\<And>j. c \<le> j \<Longrightarrow> j < n \<Longrightarrow> \<not> P j) \<Longrightarrow> c \<le> n \<Longrightarrow> find P (rev [0..<n]) = find P (rev [0..<c])"
proof (induction n)
  case (Suc n)
  then show ?case by (cases "c = Suc n") auto
qed simp

section \<open>Intrinsics of \<^verbatim>\<open>u64\<close>\<close>

definition trailing_zeros :: "u64 \<Rightarrow> nat" where
  "trailing_zeros w = first_idx (bit w) 64"

definition trailing_ones :: "u64 \<Rightarrow> nat" where
  "trailing_ones w = first_idx (\<lambda>i. \<not> bit w i) 64"

definition leading_zeros :: "u64 \<Rightarrow> nat" where
  "leading_zeros w = first_idx (\<lambda>i. bit w (63 - i)) 64"

definition count_ones :: "u64 \<Rightarrow> nat" where
  "count_ones w = length (filter (bit w) [0..<64])"

lemma word64_eq_0_iff: "(w :: u64) = 0 \<longleftrightarrow> (\<forall>i < 64. \<not> bit w i)"
  by (auto intro!: bit_word_eqI)

lemma word64_eq_ones_iff: "(w :: u64) = NOT 0 \<longleftrightarrow> (\<forall>i < 64. bit w i)"
  by (auto simp: bit_simps intro!: bit_word_eqI simp del: bit.compl_zero)

lemma and_single_bit_iff: "b < 64 \<Longrightarrow> (w :: u64) AND push_bit b 1 \<noteq> 0 \<longleftrightarrow> bit w b"
  by (auto simp: word64_eq_0_iff bit_simps)

lemmas word_bit_test [bit_facts] = and_exp_eq_0_iff_not_bit

lemma trailing_zeros_before: "i < trailing_zeros w \<Longrightarrow> \<not> bit w i"
  by (auto simp: trailing_zeros_def dest: first_idx_before)

lemma trailing_zeros_at: "w \<noteq> 0 \<Longrightarrow> trailing_zeros w < 64 \<and> bit w (trailing_zeros w)"
proof -
  assume "w \<noteq> 0"
  then obtain i where "i < 64" "bit w i" by (auto simp: word64_eq_0_iff)
  then have "trailing_zeros w \<le> i"
    by (simp add: trailing_zeros_def first_idx_less)
  with \<open>i < 64\<close> show ?thesis
    using first_idx_at [of "bit w" 64] by (simp add: trailing_zeros_def)
qed

lemma trailing_ones_before: "i < trailing_ones w \<Longrightarrow> bit w i"
  by (auto simp: trailing_ones_def dest: first_idx_before)

lemma trailing_ones_at: "w \<noteq> NOT 0 \<Longrightarrow> trailing_ones w < 64 \<and> \<not> bit w (trailing_ones w)"
proof -
  assume "w \<noteq> NOT 0"
  then obtain i where "i < 64" "\<not> bit w i" using word64_eq_ones_iff by blast
  then have "trailing_ones w \<le> i"
    by (simp add: trailing_ones_def first_idx_less)
  with \<open>i < 64\<close> show ?thesis
    using first_idx_at [of "\<lambda>i. \<not> bit w i" 64] by (simp add: trailing_ones_def)
qed

lemma leading_zeros_at:
  assumes "w \<noteq> 0"
  shows "leading_zeros w < 64" and "bit w (63 - leading_zeros w)"
    and "\<And>i. 63 - leading_zeros w < i \<Longrightarrow> i < 64 \<Longrightarrow> \<not> bit w i"
proof -
  obtain i where i: "i < 64" "bit w i" using assms by (auto simp: word64_eq_0_iff)
  then have "leading_zeros w \<le> 63 - i"
    by (auto simp: leading_zeros_def intro!: first_idx_less)
  with i show l: "leading_zeros w < 64" by simp
  then show "bit w (63 - leading_zeros w)"
    using first_idx_at [of "\<lambda>i. bit w (63 - i)" 64] by (simp add: leading_zeros_def)
  show "\<not> bit w j" if "63 - leading_zeros w < j" "j < 64" for j
    using first_idx_before [of "63 - j" "\<lambda>i. bit w (63 - i)" 64] that l
    by (simp add: leading_zeros_def)
qed

lemma count_ones_card: "count_ones w = card {i. i < 64 \<and> bit w i}"
  unfolding count_ones_def by (subst length_filter_conv_card) (auto intro!: arg_cong [of _ _ card])

lemma split_word_index: "i div 64 * 64 + i mod 64 = (i :: nat)" "i mod 64 < 64"
  by simp_all

lemma word_index_div_mod:
  "j < 64 \<Longrightarrow> i = w * 64 + j \<Longrightarrow> i div 64 = w" "j < 64 \<Longrightarrow> i = w * 64 + j \<Longrightarrow> i mod 64 = (j :: nat)"
  by simp_all

section \<open>Counting in intervals\<close>

lemma card_Int_ivl_split:
  assumes "a \<le> b" and "b \<le> (c :: nat)"
  shows "card (S \<inter> {a..<c}) = card (S \<inter> {a..<b}) + card (S \<inter> {b..<c})"
proof -
  have "S \<inter> {a..<c} = (S \<inter> {a..<b}) \<union> (S \<inter> {b..<c})" using assms by auto
  then show ?thesis by (simp add: card_Un_disjoint disjoint_iff)
qed

section \<open>Lists\<close>

lemma sum_list_map_remove1:
  "x \<in> set xs \<Longrightarrow> sum_list (map f xs) = f x + sum_list (map (f :: _ \<Rightarrow> nat) (remove1 x xs))"
  by (induction xs) auto

lemma sum_list_update_nat:
  "i < length xs \<Longrightarrow> sum_list (xs[i := v]) + xs ! i = sum_list xs + (v :: nat)"
  using sum_list_update [of i xs v] elem_le_sum_list [of i xs] by linarith

lemma nth_in_set: "i < length xs \<Longrightarrow> xs ! i \<in> set xs"
  by (rule nth_mem)

end
