(* ===== verification/Rmp.thy ===== *)
theory Rmp
  imports Prelude
begin

unbundle bit_operations_syntax

text \<open>
  What \<^verbatim>\<open>tox-proto\<close> is built on: the readers and writers of the standard library, integers as
  bytes, and the crate \<^verbatim>\<open>rmp\<close>, which reads and writes single MessagePack items.

  A reader is a function of the bytes that are left; it returns a value or an error, and what is
  left afterwards (also after an error). The crate \<^verbatim>\<open>rmp\<close> is a parameter of the model, the record
  \<open>rmp\<close> of the functions \<^verbatim>\<open>tox-proto\<close> calls; the locale \<open>rmp_lib\<close> states what they document:
  that they write the formats of the MessagePack specification, and read back what they wrote. The
  specification itself is the interpretation \<open>msgpack\<close>.
\<close>

section \<open>Integers as bytes\<close>

fun be_bytes :: "nat \<Rightarrow> nat \<Rightarrow> bytes" where
  "be_bytes 0 n = []"
| "be_bytes (Suc k) n = of_nat (n div 256 ^ k) # be_bytes k n"

definition of_be_bytes :: "bytes \<Rightarrow> nat" where
  "of_be_bytes bs = foldl (\<lambda>acc b. acc * 256 + unat b) 0 bs"

definition le_bytes :: "nat \<Rightarrow> nat \<Rightarrow> bytes" where
  "le_bytes k n = rev (be_bytes k n)"

definition of_le_bytes :: "bytes \<Rightarrow> nat" where
  "of_le_bytes bs = of_be_bytes (rev bs)"

text \<open>A signed integer of \<open>k\<close> bytes and its two's complement.\<close>

definition sint_min :: "nat \<Rightarrow> int" where "sint_min k = - (2 ^ (8 * k - 1))"
definition sint_max :: "nat \<Rightarrow> int" where "sint_max k = 2 ^ (8 * k - 1) - 1"

definition of_signed :: "nat \<Rightarrow> int \<Rightarrow> nat" where
  "of_signed k i = nat (i mod 2 ^ (8 * k))"

definition to_signed :: "nat \<Rightarrow> nat \<Rightarrow> int" where
  "to_signed k n = (if n < 2 ^ (8 * k - 1) then int n else int n - 2 ^ (8 * k))"

lemma length_be_bytes [simp]: "length (be_bytes k n) = k"
  by (induction k) simp_all

lemma length_le_bytes [simp]: "length (le_bytes k n) = k"
  by (simp add: le_bytes_def)

lemma foldl_be_bytes:
  "foldl (\<lambda>acc b. acc * 256 + unat b) a (be_bytes k n) = a * 256 ^ k + n mod 256 ^ k"
proof (induction k arbitrary: a)
  case (Suc k)
  have "n mod 256 ^ Suc k = n div 256 ^ k mod 256 * 256 ^ k + n mod 256 ^ k"
    by (metis mod_mult2_eq mult.commute power_Suc2)
  then show ?case by (simp add: Suc.IH unat_of_nat add_mult_distrib)
qed simp

lemma of_be_be_bytes [simp]: "n < 256 ^ k \<Longrightarrow> of_be_bytes (be_bytes k n) = n"
  by (simp add: of_be_bytes_def foldl_be_bytes)

lemma of_le_le_bytes [simp]: "n < 256 ^ k \<Longrightarrow> of_le_bytes (le_bytes k n) = n"
  by (simp add: of_le_bytes_def le_bytes_def)

lemma pow256: "(256 :: nat) ^ k = 2 ^ (8 * k)"
  by (simp add: power_mult)

lemma of_signed_less: "of_signed k i < 256 ^ k"
  by (simp add: of_signed_def pow256 nat_less_iff)

lemma to_signed_of_signed:
  assumes "0 < k" and "sint_min k \<le> i" and "i \<le> sint_max k"
  shows "to_signed k (of_signed k i) = i"
proof -
  obtain j where j: "8 * k = Suc j" using assms(1) by (cases "8 * k") auto
  have b: "- (2 ^ j) \<le> i" "i < 2 ^ j" "8 * k - 1 = j"
    using assms(2,3) j by (simp_all add: sint_min_def sint_max_def)
  show ?thesis
  proof (cases "0 \<le> i")
    case True
    then have "i mod 2 ^ Suc j = i" using b by (intro mod_pos_pos_trivial) auto
    then show ?thesis using True b by (simp add: to_signed_def of_signed_def j nat_less_iff)
  next
    case False
    have "(i + 2 ^ Suc j) mod 2 ^ Suc j = i + 2 ^ Suc j"
      using False b by (intro mod_pos_pos_trivial) auto
    then have "i mod 2 ^ Suc j = i + 2 ^ Suc j" by simp
    then show ?thesis using False b by (simp add: to_signed_def of_signed_def j nat_less_iff)
  qed
qed

section \<open>Readers and writers\<close>

text \<open>\<^verbatim>\<open>tox_proto::Error\<close>; the texts of the messages are left out.\<close>

datatype proto_error = Io | Deserialize | Serialize

type_synonym 'a read = "((proto_error + 'a) \<times> bytes) panics"
type_synonym 'a reader = "bytes \<Rightarrow> 'a read"
type_synonym written = "(proto_error + bytes) panics"

definition r_ok :: "'a \<Rightarrow> 'a reader" where
  "r_ok x bs = Some (Inr x, bs)"

definition r_err :: "proto_error \<Rightarrow> 'a reader" where
  "r_err e bs = Some (Inl e, bs)"

text \<open>The \<^verbatim>\<open>?\<close> operator.\<close>

definition r_bind :: "'a reader \<Rightarrow> ('a \<Rightarrow> 'b reader) \<Rightarrow> 'b reader" where
  "r_bind m f bs =
     (case m bs of
        None \<Rightarrow> None
      | Some (Inl e, rest) \<Rightarrow> Some (Inl e, rest)
      | Some (Inr x, rest) \<Rightarrow> f x rest)"

text \<open>\<^verbatim>\<open>read_exact\<close> fails at the end of the input, with nothing left.\<close>

definition read_exact :: "nat \<Rightarrow> bytes reader" where
  "read_exact n bs = (if n \<le> length bs then Some (Inr (take n bs), drop n bs) else Some (Inl Io, []))"

definition read_to_end :: "bytes reader" where
  "read_to_end bs = Some (Inr bs, [])"

text \<open>\<^verbatim>\<open>write_all\<close> into a vector, and what two writes in a row leave there.\<close>

definition w_ok :: "bytes \<Rightarrow> written" where
  "w_ok bs = Some (Inr bs)"

definition w_seq :: "written \<Rightarrow> written \<Rightarrow> written" where
  "w_seq a b =
     (case a of
        Some (Inr xs) \<Rightarrow> (case b of Some (Inr ys) \<Rightarrow> Some (Inr (xs @ ys)) | other \<Rightarrow> other)
      | other \<Rightarrow> other)"

definition w_all :: "('a \<Rightarrow> written) \<Rightarrow> 'a list \<Rightarrow> written" where
  "w_all w xs = foldr (\<lambda>x acc. w_seq (w x) acc) xs (w_ok [])"

named_theorems reading \<open>one step of a reader or writer\<close>

lemma r_steps [reading]:
  "r_ok x bs = Some (Inr x, bs)" "r_err e bs = Some (Inl e, bs)"
  "m bs = Some (Inr x, rest) \<Longrightarrow> r_bind m f bs = f x rest"
  "m bs = Some (Inl e, rest) \<Longrightarrow> r_bind m f bs = Some (Inl e, rest)"
  "m bs = None \<Longrightarrow> r_bind m f bs = None"
  "w_seq (Some (Inr xs)) (Some (Inr ys)) = Some (Inr (xs @ ys))"
  "w_ok xs = Some (Inr xs)"
  by (simp_all add: r_ok_def r_err_def r_bind_def w_seq_def w_ok_def)

lemma read_exact_append [reading]: "length xs = n \<Longrightarrow> read_exact n (xs @ rest) = Some (Inr xs, rest)"
  by (simp add: read_exact_def)

lemma read_exact_0 [reading]: "read_exact 0 bs = Some (Inr [], bs)"
  by (simp add: read_exact_def)

lemma r_bind_split:
  "P (r_bind m f bs) \<longleftrightarrow>
     (m bs = None \<longrightarrow> P None)
     \<and> (\<forall>e rest. m bs = Some (Inl e, rest) \<longrightarrow> P (Some (Inl e, rest)))
     \<and> (\<forall>x rest. m bs = Some (Inr x, rest) \<longrightarrow> P (f x rest))"
  by (auto simp: r_bind_def split: option.split prod.split sum.split)

section \<open>Markers\<close>

text \<open>\<^verbatim>\<open>rmp::Marker\<close>, the first byte of a MessagePack item.\<close>

datatype marker =
    FixPos nat | FixNeg int | Null | MTrue | MFalse
  | U8 | U16 | U32 | U64 | I8 | I16 | I32 | I64 | F32 | F64
  | FixStr nat | Str8 | Str16 | Str32 | Bin8 | Bin16 | Bin32
  | FixArray nat | Array16 | Array32 | FixMap nat | Map16 | Map32
  | FixExt1 | FixExt2 | FixExt4 | FixExt8 | FixExt16 | Ext8 | Ext16 | Ext32 | Reserved

text \<open>
  The functions of \<^verbatim>\<open>rmp\<close>. A reading function returns \<open>None\<close> when the item is not of the kind it
  reads, or the value does not fit (\<^verbatim>\<open>read_int\<close> is told the range of the type it reads).
\<close>

record rmp =
  rp_marker :: "u8 \<Rightarrow> marker"
  rp_write_uint :: "nat \<Rightarrow> bytes"
  rp_write_sint :: "int \<Rightarrow> bytes"
  rp_write_f32 :: "u32 \<Rightarrow> bytes"
  rp_write_f64 :: "u64 \<Rightarrow> bytes"
  rp_write_bool :: "bool \<Rightarrow> bytes"
  rp_write_str_len :: "nat \<Rightarrow> bytes"
  rp_write_bin_len :: "nat \<Rightarrow> bytes"
  rp_write_array_len :: "nat \<Rightarrow> bytes"
  rp_write_map_len :: "nat \<Rightarrow> bytes"
  rp_read_int :: "int \<Rightarrow> int \<Rightarrow> bytes \<Rightarrow> int option \<times> bytes"
  rp_read_f32 :: "bytes \<Rightarrow> u32 option \<times> bytes"
  rp_read_f64 :: "bytes \<Rightarrow> u64 option \<times> bytes"
  rp_read_bool :: "bytes \<Rightarrow> bool option \<times> bytes"
  rp_read_str_len :: "bytes \<Rightarrow> nat option \<times> bytes"
  rp_read_bin_len :: "bytes \<Rightarrow> nat option \<times> bytes"
  rp_read_array_len :: "bytes \<Rightarrow> nat option \<times> bytes"
  rp_read_map_len :: "bytes \<Rightarrow> nat option \<times> bytes"

text \<open>\<^verbatim>\<open>.map_err(|e| Error::Deserialize(e.to_string()))\<close>.\<close>

definition r_rmp :: "(bytes \<Rightarrow> 'a option \<times> bytes) \<Rightarrow> 'a reader" where
  "r_rmp f bs =
     (case f bs of (None, rest) \<Rightarrow> Some (Inl Deserialize, rest) | (Some x, rest) \<Rightarrow> Some (Inr x, rest))"

text \<open>\<^verbatim>\<open>rmp::decode::read_marker\<close> reads one byte; at the end of the input it fails.\<close>

definition read_marker :: "rmp \<Rightarrow> marker reader" where
  "read_marker r bs = (case bs of [] \<Rightarrow> Some (Inl Deserialize, []) | b # rest \<Rightarrow> Some (Inr (rp_marker r b), rest))"

lemma r_rmp_step [reading]: "f bs = (Some x, rest) \<Longrightarrow> r_rmp f bs = Some (Inr x, rest)"
  by (simp add: r_rmp_def)

lemma read_marker_Cons [reading]: "read_marker r (b # rest) = Some (Inr (rp_marker r b), rest)"
  by (simp add: read_marker_def)

section \<open>The documented formats\<close>

text \<open>How many bytes follow the marker of a number, truth value or nothing.\<close>

fun scalar_len :: "marker \<Rightarrow> nat option" where
  "scalar_len (FixPos _) = Some 0" | "scalar_len (FixNeg _) = Some 0"
| "scalar_len Null = Some 0" | "scalar_len MTrue = Some 0" | "scalar_len MFalse = Some 0"
| "scalar_len U8 = Some 1" | "scalar_len I8 = Some 1"
| "scalar_len U16 = Some 2" | "scalar_len I16 = Some 2"
| "scalar_len U32 = Some 4" | "scalar_len I32 = Some 4" | "scalar_len F32 = Some 4"
| "scalar_len U64 = Some 8" | "scalar_len I64 = Some 8" | "scalar_len F64 = Some 8"
| "scalar_len _ = None"

definition scalar_format :: "rmp \<Rightarrow> bytes \<Rightarrow> bool" where
  "scalar_format r bs \<longleftrightarrow> (\<exists>b t. bs = b # t \<and> scalar_len (rp_marker r b) = Some (length t))"

text \<open>A length: in the marker itself, or in the bytes after it, most significant first.\<close>

definition len_format :: "rmp \<Rightarrow> (nat \<Rightarrow> marker) \<Rightarrow> nat \<Rightarrow> marker option \<Rightarrow> marker \<Rightarrow> marker \<Rightarrow> nat \<Rightarrow> bytes \<Rightarrow> bool" where
  "len_format r fix lim m8 m16 m32 n bs \<longleftrightarrow>
     (\<exists>b. bs = [b] \<and> rp_marker r b = fix n \<and> n < lim)
     \<or> (\<exists>b. bs = b # be_bytes 1 n \<and> m8 = Some (rp_marker r b) \<and> n < 2 ^ 8)
     \<or> (\<exists>b. bs = b # be_bytes 2 n \<and> rp_marker r b = m16 \<and> n < 2 ^ 16)
     \<or> (\<exists>b. bs = b # be_bytes 4 n \<and> rp_marker r b = m32 \<and> n < 2 ^ 32)"

definition bin_format :: "rmp \<Rightarrow> nat \<Rightarrow> bytes \<Rightarrow> bool" where
  "bin_format r n bs \<longleftrightarrow>
     (\<exists>b. bs = b # be_bytes 1 n \<and> rp_marker r b = Bin8 \<and> n < 2 ^ 8)
     \<or> (\<exists>b. bs = b # be_bytes 2 n \<and> rp_marker r b = Bin16 \<and> n < 2 ^ 16)
     \<or> (\<exists>b. bs = b # be_bytes 4 n \<and> rp_marker r b = Bin32 \<and> n < 2 ^ 32)"

text \<open>The number of a variant: one byte when it is small, two otherwise.\<close>

definition tag_format :: "rmp \<Rightarrow> nat \<Rightarrow> bytes \<Rightarrow> bool" where
  "tag_format r n bs \<longleftrightarrow>
     (\<exists>b. bs = [b] \<and> rp_marker r b = FixPos n) \<or> (\<exists>b. bs = [b, of_nat n] \<and> rp_marker r b = U8)"

locale rmp_lib =
  fixes r :: rmp
  assumes uint_format: "n < 2 ^ 64 \<Longrightarrow> scalar_format r (rp_write_uint r n)"
    and tag_uint: "n < 256 \<Longrightarrow> tag_format r n (rp_write_uint r n)"
    and sint_format: "sint_min 8 \<le> i \<Longrightarrow> i \<le> sint_max 8 \<Longrightarrow> scalar_format r (rp_write_sint r i)"
    and f32_format: "scalar_format r (rp_write_f32 r w)"
    and f64_format: "scalar_format r (rp_write_f64 r v)"
    and bool_format: "scalar_format r (rp_write_bool r t)"
    and str_len_format: "n < 2 ^ 32 \<Longrightarrow> len_format r FixStr 32 (Some Str8) Str16 Str32 n (rp_write_str_len r n)"
    and bin_len_format: "n < 2 ^ 32 \<Longrightarrow> bin_format r n (rp_write_bin_len r n)"
    and array_len_format: "n < 2 ^ 32 \<Longrightarrow> len_format r FixArray 16 None Array16 Array32 n (rp_write_array_len r n)"
    and map_len_format: "n < 2 ^ 32 \<Longrightarrow> len_format r FixMap 16 None Map16 Map32 n (rp_write_map_len r n)"
    and read_uint: "n < 2 ^ 64 \<Longrightarrow> lo \<le> int n \<Longrightarrow> int n \<le> hi \<Longrightarrow>
        rp_read_int r lo hi (rp_write_uint r n @ rest) = (Some (int n), rest)"
    and read_sint: "sint_min 8 \<le> i \<Longrightarrow> i \<le> sint_max 8 \<Longrightarrow> lo \<le> i \<Longrightarrow> i \<le> hi \<Longrightarrow>
        rp_read_int r lo hi (rp_write_sint r i @ rest) = (Some i, rest)"
    and read_f32: "rp_read_f32 r (rp_write_f32 r w @ rest) = (Some w, rest)"
    and read_f64: "rp_read_f64 r (rp_write_f64 r v @ rest) = (Some v, rest)"
    and read_bool: "rp_read_bool r (rp_write_bool r t @ rest) = (Some t, rest)"
    and read_str_len: "n < 2 ^ 32 \<Longrightarrow> rp_read_str_len r (rp_write_str_len r n @ rest) = (Some n, rest)"
    and read_bin_len: "n < 2 ^ 32 \<Longrightarrow> rp_read_bin_len r (rp_write_bin_len r n @ rest) = (Some n, rest)"
    and read_array_len: "n < 2 ^ 32 \<Longrightarrow> rp_read_array_len r (rp_write_array_len r n @ rest) = (Some n, rest)"
    and read_map_len: "n < 2 ^ 32 \<Longrightarrow> rp_read_map_len r (rp_write_map_len r n @ rest) = (Some n, rest)"

section \<open>The MessagePack specification\<close>

text \<open>
  The formats of the specification, as an instance of the parameter: every number in its shortest
  form, lengths in the shortest header that holds them.
\<close>

definition mp_marker :: "u8 \<Rightarrow> marker" where
  "mp_marker b = (let n = unat b in
     if n < 0x80 then FixPos n
     else if n < 0x90 then FixMap (n - 0x80)
     else if n < 0xa0 then FixArray (n - 0x90)
     else if n < 0xc0 then FixStr (n - 0xa0)
     else if 0xe0 \<le> n then FixNeg (int n - 256)
     else [Null, Reserved, MFalse, MTrue, Bin8, Bin16, Bin32, Ext8, Ext16, Ext32, F32, F64,
           U8, U16, U32, U64, I8, I16, I32, I64, FixExt1, FixExt2, FixExt4, FixExt8, FixExt16,
           Str8, Str16, Str32, Array16, Array32, Map16, Map32] ! (n - 0xc0))"

definition mp_uint :: "nat \<Rightarrow> bytes" where
  "mp_uint n =
     (if n < 2 ^ 7 then [of_nat n] else if n < 2 ^ 8 then 0xcc # be_bytes 1 n
      else if n < 2 ^ 16 then 0xcd # be_bytes 2 n else if n < 2 ^ 32 then 0xce # be_bytes 4 n
      else 0xcf # be_bytes 8 n)"

definition mp_sint :: "int \<Rightarrow> bytes" where
  "mp_sint i =
     (if 0 \<le> i then mp_uint (nat i)
      else if - 32 \<le> i then [of_int i] else if sint_min 1 \<le> i then 0xd0 # be_bytes 1 (of_signed 1 i)
      else if sint_min 2 \<le> i then 0xd1 # be_bytes 2 (of_signed 2 i)
      else if sint_min 4 \<le> i then 0xd2 # be_bytes 4 (of_signed 4 i)
      else 0xd3 # be_bytes 8 (of_signed 8 i))"

definition mp_len :: "u8 \<Rightarrow> nat \<Rightarrow> u8 option \<Rightarrow> u8 \<Rightarrow> u8 \<Rightarrow> nat \<Rightarrow> bytes" where
  "mp_len fix lim m8 m16 m32 n =
     (if n < lim then [fix + of_nat n]
      else if n < 2 ^ 8 \<and> m8 \<noteq> None then the m8 # be_bytes 1 n
      else if n < 2 ^ 16 then m16 # be_bytes 2 n else m32 # be_bytes 4 n)"

definition mp_take :: "nat \<Rightarrow> (nat \<Rightarrow> 'a option) \<Rightarrow> bytes \<Rightarrow> 'a option \<times> bytes" where
  "mp_take k f bs = (if k \<le> length bs then (f (of_be_bytes (take k bs)), drop k bs) else (None, []))"

definition mp_in :: "int \<Rightarrow> int \<Rightarrow> int \<Rightarrow> int option" where
  "mp_in lo hi i = (if lo \<le> i \<and> i \<le> hi then Some i else None)"

fun mp_number :: "int \<Rightarrow> int \<Rightarrow> marker \<Rightarrow> bytes \<Rightarrow> int option \<times> bytes" where
  "mp_number lo hi (FixPos n) bs = (mp_in lo hi (int n), bs)"
| "mp_number lo hi (FixNeg i) bs = (mp_in lo hi i, bs)"
| "mp_number lo hi U8 bs = mp_take 1 (\<lambda>n. mp_in lo hi (int n)) bs"
| "mp_number lo hi U16 bs = mp_take 2 (\<lambda>n. mp_in lo hi (int n)) bs"
| "mp_number lo hi U32 bs = mp_take 4 (\<lambda>n. mp_in lo hi (int n)) bs"
| "mp_number lo hi U64 bs = mp_take 8 (\<lambda>n. mp_in lo hi (int n)) bs"
| "mp_number lo hi I8 bs = mp_take 1 (\<lambda>n. mp_in lo hi (to_signed 1 n)) bs"
| "mp_number lo hi I16 bs = mp_take 2 (\<lambda>n. mp_in lo hi (to_signed 2 n)) bs"
| "mp_number lo hi I32 bs = mp_take 4 (\<lambda>n. mp_in lo hi (to_signed 4 n)) bs"
| "mp_number lo hi I64 bs = mp_take 8 (\<lambda>n. mp_in lo hi (to_signed 8 n)) bs"
| "mp_number lo hi _ bs = (None, bs)"

fun mp_array :: "marker \<Rightarrow> bytes \<Rightarrow> nat option \<times> bytes" where
  "mp_array (FixArray n) bs = (Some n, bs)"
| "mp_array Array16 bs = mp_take 2 Some bs" | "mp_array Array32 bs = mp_take 4 Some bs"
| "mp_array _ bs = (None, bs)"

fun mp_map :: "marker \<Rightarrow> bytes \<Rightarrow> nat option \<times> bytes" where
  "mp_map (FixMap n) bs = (Some n, bs)"
| "mp_map Map16 bs = mp_take 2 Some bs" | "mp_map Map32 bs = mp_take 4 Some bs"
| "mp_map _ bs = (None, bs)"

fun mp_str :: "marker \<Rightarrow> bytes \<Rightarrow> nat option \<times> bytes" where
  "mp_str (FixStr n) bs = (Some n, bs)" | "mp_str Str8 bs = mp_take 1 Some bs"
| "mp_str Str16 bs = mp_take 2 Some bs" | "mp_str Str32 bs = mp_take 4 Some bs"
| "mp_str _ bs = (None, bs)"

fun mp_bin :: "marker \<Rightarrow> bytes \<Rightarrow> nat option \<times> bytes" where
  "mp_bin Bin8 bs = mp_take 1 Some bs"
| "mp_bin Bin16 bs = mp_take 2 Some bs" | "mp_bin Bin32 bs = mp_take 4 Some bs"
| "mp_bin _ bs = (None, bs)"

fun mp_bool :: "marker \<Rightarrow> bytes \<Rightarrow> bool option \<times> bytes" where
  "mp_bool MTrue bs = (Some True, bs)" | "mp_bool MFalse bs = (Some False, bs)"
| "mp_bool _ bs = (None, bs)"

fun mp_f32 :: "marker \<Rightarrow> bytes \<Rightarrow> u32 option \<times> bytes" where
  "mp_f32 F32 bs = mp_take 4 (\<lambda>n. Some (of_nat n)) bs" | "mp_f32 _ bs = (None, bs)"

fun mp_f64 :: "marker \<Rightarrow> bytes \<Rightarrow> u64 option \<times> bytes" where
  "mp_f64 F64 bs = mp_take 8 (\<lambda>n. Some (of_nat n)) bs" | "mp_f64 _ bs = (None, bs)"

definition mp_read :: "(marker \<Rightarrow> bytes \<Rightarrow> 'a option \<times> bytes) \<Rightarrow> bytes \<Rightarrow> 'a option \<times> bytes" where
  "mp_read f bs = (case bs of [] \<Rightarrow> (None, []) | b # rest \<Rightarrow> f (mp_marker b) rest)"

definition msgpack :: rmp where
  "msgpack =
     \<lparr>rp_marker = mp_marker, rp_write_uint = mp_uint, rp_write_sint = mp_sint,
      rp_write_f32 = (\<lambda>w. 0xca # be_bytes 4 (unat w)), rp_write_f64 = (\<lambda>w. 0xcb # be_bytes 8 (unat w)),
      rp_write_bool = (\<lambda>b. [if b then 0xc3 else 0xc2]),
      rp_write_str_len = mp_len 0xa0 32 (Some 0xd9) 0xda 0xdb,
      rp_write_bin_len = mp_len 0 0 (Some 0xc4) 0xc5 0xc6,
      rp_write_array_len = mp_len 0x90 16 None 0xdc 0xdd,
      rp_write_map_len = mp_len 0x80 16 None 0xde 0xdf,
      rp_read_int = (\<lambda>lo hi. mp_read (mp_number lo hi)),
      rp_read_f32 = mp_read mp_f32, rp_read_f64 = mp_read mp_f64, rp_read_bool = mp_read mp_bool,
      rp_read_str_len = mp_read mp_str, rp_read_bin_len = mp_read mp_bin,
      rp_read_array_len = mp_read mp_array, rp_read_map_len = mp_read mp_map\<rparr>"

lemma mp_markers [simp]:
  "mp_marker 0xc2 = MFalse" "mp_marker 0xc3 = MTrue"
  "mp_marker 0xc4 = Bin8" "mp_marker 0xc5 = Bin16" "mp_marker 0xc6 = Bin32"
  "mp_marker 0xca = F32" "mp_marker 0xcb = F64"
  "mp_marker 0xcc = U8" "mp_marker 0xcd = U16" "mp_marker 0xce = U32" "mp_marker 0xcf = U64"
  "mp_marker 0xd0 = I8" "mp_marker 0xd1 = I16" "mp_marker 0xd2 = I32" "mp_marker 0xd3 = I64"
  "mp_marker 0xd9 = Str8" "mp_marker 0xda = Str16" "mp_marker 0xdb = Str32"
  "mp_marker 0xdc = Array16" "mp_marker 0xdd = Array32" "mp_marker 0xde = Map16" "mp_marker 0xdf = Map32"
  by (simp_all add: mp_marker_def)

lemma mp_marker_fix [simp]:
  "n < 128 \<Longrightarrow> mp_marker (of_nat n) = FixPos n"
  "n < 16 \<Longrightarrow> mp_marker (0x80 + of_nat n) = FixMap n"
  "n < 16 \<Longrightarrow> mp_marker (0x90 + of_nat n) = FixArray n"
  "n < 32 \<Longrightarrow> mp_marker (0xa0 + of_nat n) = FixStr n"
  "- 32 \<le> i \<Longrightarrow> i < 0 \<Longrightarrow> mp_marker (of_int i) = FixNeg i"
proof -
  have u: "unat (w + of_nat n :: u8) = unat w + n" if "unat w + n < 256" for w :: u8 and n
    using that by (simp add: unat_word_ariths unat_of_nat mod_add_right_eq)
  show "n < 128 \<Longrightarrow> mp_marker (of_nat n) = FixPos n" by (simp add: mp_marker_def unat_of_nat)
  show "n < 16 \<Longrightarrow> mp_marker (0x80 + of_nat n) = FixMap n" by (simp add: mp_marker_def u)
  show "n < 16 \<Longrightarrow> mp_marker (0x90 + of_nat n) = FixArray n" by (simp add: mp_marker_def u)
  show "n < 32 \<Longrightarrow> mp_marker (0xa0 + of_nat n) = FixStr n" by (simp add: mp_marker_def u)
  assume i: "- 32 \<le> i" "i < 0"
  have "i mod 256 = i + 256"
    using i mod_pos_pos_trivial [of "i + 256" 256] by simp
  then have "unat (of_int i :: u8) = nat (i + 256)" by (simp add: unat_eq_nat_uint uint_word_of_int)
  with i show "mp_marker (of_int i) = FixNeg i" by (simp add: mp_marker_def Let_def)
qed

lemma unat_lt_pow256: "unat (w :: u32) < 256 ^ 4" "unat (v :: u64) < 256 ^ 8"
  using unsigned_less [of w, where ?'a = nat] unsigned_less [of v, where ?'a = nat] by simp_all

lemma mp_take_be: "n < 256 ^ k \<Longrightarrow> mp_take k f (be_bytes k n @ rest) = (f n, rest)"
  by (simp add: mp_take_def)

lemma mp_take_signed:
  "0 < k \<Longrightarrow> sint_min k \<le> i \<Longrightarrow> i \<le> sint_max k \<Longrightarrow>
   mp_take k (\<lambda>n. f (to_signed k n)) (be_bytes k (of_signed k i) @ rest) = (f i, rest)"
  by (simp add: mp_take_be of_signed_less to_signed_of_signed)

lemma mp_read_uint:
  "n < 2 ^ 64 \<Longrightarrow> mp_read (mp_number lo hi) (mp_uint n @ rest) = (mp_in lo hi (int n), rest)"
  by (simp add: mp_read_def mp_uint_def mp_take_be del: be_bytes.simps)

lemma mp_read_sint:
  assumes "sint_min 8 \<le> i" "i \<le> sint_max 8"
  shows "mp_read (mp_number lo hi) (mp_sint i @ rest) = (mp_in lo hi i, rest)"
proof (cases "0 \<le> i")
  case True
  with assms show ?thesis by (simp add: mp_sint_def mp_read_uint sint_max_def)
next
  case False
  have "i \<le> sint_max k" for k
  proof -
    have "(0 :: int) < 2 ^ (8 * k - 1)" by simp
    with False show ?thesis unfolding sint_max_def by linarith
  qed
  then show ?thesis
    using False assms
      mp_take_signed [of 1 i] mp_take_signed [of 2 i] mp_take_signed [of 4 i] mp_take_signed [of 8 i]
    by (auto simp: mp_sint_def mp_read_def simp del: be_bytes.simps)
qed

lemma mp_len_format:
  assumes "\<And>n. n < lim \<Longrightarrow> mp_marker (fix + of_nat n) = f n"
    and "map_option mp_marker m8 = k8" "mp_marker m16 = k16" "mp_marker m32 = k32" "n < 2 ^ 32"
  shows "len_format msgpack f lim k8 k16 k32 n (mp_len fix lim m8 m16 m32 n)"
  using assms unfolding len_format_def by (auto simp: mp_len_def msgpack_def simp del: be_bytes.simps)

lemma mp_scalar_formats:
  "scalar_format msgpack (mp_uint n)" "scalar_format msgpack (mp_sint i)"
proof -
  show u: "scalar_format msgpack (mp_uint n)" for n
    by (simp add: scalar_format_def mp_uint_def msgpack_def del: be_bytes.simps)
  then show "scalar_format msgpack (mp_sint i)"
    by (auto simp: mp_sint_def) (auto simp: scalar_format_def msgpack_def simp del: be_bytes.simps)
qed

lemma mp_tag_format: "n < 256 \<Longrightarrow> tag_format msgpack n (mp_uint n)"
  by (auto simp: tag_format_def mp_uint_def msgpack_def)

lemma mp_bin_format: "n < 2 ^ 32 \<Longrightarrow> bin_format msgpack n (mp_len 0 0 (Some 0xc4) 0xc5 0xc6 n)"
  by (auto simp: bin_format_def mp_len_def msgpack_def simp del: be_bytes.simps)

lemma mp_read_lens:
  assumes "n < 2 ^ 32"
  shows "mp_read mp_str (mp_len 0xa0 32 (Some 0xd9) 0xda 0xdb n @ rest) = (Some n, rest)"
    and "mp_read mp_bin (mp_len 0 0 (Some 0xc4) 0xc5 0xc6 n @ rest) = (Some n, rest)"
    and "mp_read mp_array (mp_len 0x90 16 None 0xdc 0xdd n @ rest) = (Some n, rest)"
    and "mp_read mp_map (mp_len 0x80 16 None 0xde 0xdf n @ rest) = (Some n, rest)"
  using assms by (simp_all add: mp_read_def mp_len_def mp_take_be del: be_bytes.simps)

lemma msgpack_sel [simp]:
  "rp_marker msgpack = mp_marker" "rp_write_uint msgpack = mp_uint" "rp_write_sint msgpack = mp_sint"
  "rp_write_str_len msgpack = mp_len 0xa0 32 (Some 0xd9) 0xda 0xdb"
  "rp_write_bin_len msgpack = mp_len 0 0 (Some 0xc4) 0xc5 0xc6"
  "rp_write_array_len msgpack = mp_len 0x90 16 None 0xdc 0xdd"
  "rp_write_map_len msgpack = mp_len 0x80 16 None 0xde 0xdf"
  by (simp_all add: msgpack_def)

interpretation mp: rmp_lib msgpack
proof
  show "scalar_format msgpack (rp_write_f32 msgpack w)" for w
    by (simp add: scalar_format_def msgpack_def del: be_bytes.simps)
  show "scalar_format msgpack (rp_write_f64 msgpack v)" for v
    by (simp add: scalar_format_def msgpack_def del: be_bytes.simps)
  show "scalar_format msgpack (rp_write_bool msgpack t)" for t
    by (simp add: scalar_format_def msgpack_def)
  show "rp_read_bool msgpack (rp_write_bool msgpack t @ rest) = (Some t, rest)" for t rest
    by (simp add: msgpack_def mp_read_def)
  show "rp_read_f32 msgpack (rp_write_f32 msgpack w @ rest) = (Some w, rest)" for w rest
    by (simp add: msgpack_def mp_read_def mp_take_be [OF unat_lt_pow256(1)] mp_take_be [OF unat_lt_pow256(2)] del: be_bytes.simps)
  show "rp_read_f64 msgpack (rp_write_f64 msgpack v @ rest) = (Some v, rest)" for v rest
    by (simp add: msgpack_def mp_read_def mp_take_be [OF unat_lt_pow256(1)] mp_take_be [OF unat_lt_pow256(2)] del: be_bytes.simps)
qed (auto simp: mp_scalar_formats mp_tag_format mp_bin_format mp_len_format mp_read_lens
      mp_read_uint mp_read_sint mp_in_def msgpack_def [THEN arg_cong, of rp_read_int]
      msgpack_def [THEN arg_cong, of rp_read_str_len] msgpack_def [THEN arg_cong, of rp_read_bin_len]
      msgpack_def [THEN arg_cong, of rp_read_array_len] msgpack_def [THEN arg_cong, of rp_read_map_len])

end
