(* ===== verification/Tox_Proto.thy ===== *)
theory Tox_Proto
  imports Rmp
begin

text \<open>
  \<^verbatim>\<open>tox-proto/src/lib.rs\<close>: the codec of every type that goes over the wire.

  The traits \<^verbatim>\<open>ToxSize\<close>, \<^verbatim>\<open>ToxSerialize\<close> and \<^verbatim>\<open>ToxDeserialize\<close> of a type are one record \<open>codec\<close>, the
  dictionary the compiler passes; an implementation for a generic type is a function from the
  dictionaries of its parameters. References, boxes, shared pointers and locks pass everything on
  to the type inside them and have its dictionary (a poisoned lock is not modelled).
\<close>

section \<open>Skipping a value\<close>

definition skip_bytes :: "nat \<Rightarrow> nat reader" where
  "skip_bytes n = r_bind (read_exact n) (\<lambda>_. r_ok 0)"

definition read_be :: "nat \<Rightarrow> nat reader" where
  "read_be k = r_bind (read_exact k) (\<lambda>buf. r_ok (of_be_bytes buf))"

text \<open>\<^verbatim>\<open>0..len * 2\<close> at the width of \<^verbatim>\<open>len\<close>: the product panics when it overflows.\<close>

definition twice :: "nat \<Rightarrow> nat \<Rightarrow> nat reader" where
  "twice k len bs = (if len * 2 < 256 ^ k then Some (Inr (len * 2), bs) else None)"

text \<open>
  The arms of \<^verbatim>\<open>skip_value\<close>: what each reads after the marker, and how many values it then skips
  in a loop.
\<close>

fun after_marker :: "marker \<Rightarrow> nat reader" where
  "after_marker (FixPos _) = r_ok 0"
| "after_marker (FixNeg _) = r_ok 0"
| "after_marker Null = r_ok 0"
| "after_marker MTrue = r_ok 0"
| "after_marker MFalse = r_ok 0"
| "after_marker U8 = skip_bytes 1"
| "after_marker I8 = skip_bytes 1"
| "after_marker U16 = skip_bytes 2"
| "after_marker I16 = skip_bytes 2"
| "after_marker U32 = skip_bytes 4"
| "after_marker I32 = skip_bytes 4"
| "after_marker F32 = skip_bytes 4"
| "after_marker U64 = skip_bytes 8"
| "after_marker I64 = skip_bytes 8"
| "after_marker F64 = skip_bytes 8"
| "after_marker (FixStr len) = skip_bytes len"
| "after_marker Str8 = r_bind (read_be 1) skip_bytes"
| "after_marker Bin8 = r_bind (read_be 1) skip_bytes"
| "after_marker Str16 = r_bind (read_be 2) skip_bytes"
| "after_marker Bin16 = r_bind (read_be 2) skip_bytes"
| "after_marker Str32 = r_bind (read_be 4) skip_bytes"
| "after_marker Bin32 = r_bind (read_be 4) skip_bytes"
| "after_marker (FixArray len) = r_ok len"
| "after_marker Array16 = read_be 2"
| "after_marker Array32 = read_be 4"
| "after_marker (FixMap len) = twice 1 len"
| "after_marker Map16 = r_bind (read_be 2) (twice 2)"
| "after_marker Map32 = r_bind (read_be 4) (twice 4)"
| "after_marker FixExt1 = skip_bytes (1 + 1)"
| "after_marker FixExt2 = skip_bytes (1 + 2)"
| "after_marker FixExt4 = skip_bytes (1 + 4)"
| "after_marker FixExt8 = skip_bytes (1 + 8)"
| "after_marker FixExt16 = skip_bytes (1 + 16)"
| "after_marker Ext8 = r_bind (read_be 1) (\<lambda>len. skip_bytes (1 + len))"
| "after_marker Ext16 = r_bind (read_be 2) (\<lambda>len. skip_bytes (1 + len))"
| "after_marker Ext32 = r_bind (read_be 4) (\<lambda>len. skip_bytes (1 + len))"
| "after_marker Reserved = r_err Deserialize"

definition read_item :: "rmp \<Rightarrow> nat reader" where
  "read_item r = r_bind (read_marker r) after_marker"

text \<open>A reader only takes bytes off the front.\<close>

definition consumes :: "'a reader \<Rightarrow> bool" where
  "consumes m \<longleftrightarrow> (\<forall>bs x rest. m bs = Some (x, rest) \<longrightarrow> (\<exists>pre. bs = pre @ rest))"

named_theorems consuming \<open>readers that only take bytes off the front\<close>

lemma consumes_bind [consuming]: "consumes m \<Longrightarrow> (\<And>x. consumes (f x)) \<Longrightarrow> consumes (r_bind m f)"
  unfolding consumes_def r_bind_def
  by (auto split: option.splits prod.splits sum.splits) (metis append_assoc)+

lemma consumes_basic [consuming]:
  "consumes (r_ok x)" "consumes (r_err e)" "consumes (read_exact n)" "consumes (twice k len)"
  "consumes (read_marker r)"
  by (auto simp: consumes_def r_ok_def r_err_def read_exact_def twice_def read_marker_def
      split: if_splits list.splits intro: exI [of _ "[_]"]) (metis append_take_drop_id)

lemma consumes_read_be [consuming]: "consumes (read_be k)" "consumes (skip_bytes n)"
  by (simp_all add: read_be_def skip_bytes_def consuming)

lemma consumes_after_marker [consuming]: "consumes (after_marker m)"
  by (cases m) (auto intro: consuming)

lemma consumes_length: "consumes m \<Longrightarrow> m bs = Some (x, rest) \<Longrightarrow> length rest \<le> length bs"
  unfolding consumes_def by (metis le_add2 length_append)

lemma read_item_shrinks: "read_item r bs = Some (Inr n, rest) \<Longrightarrow> length rest < length bs"
  by (cases bs) (auto simp: read_item_def read_marker_def r_bind_def dest: consumes_length [OF consumes_after_marker])

lemma read_item_consumes: "consumes (read_item r)"
  by (simp add: read_item_def consuming)

text \<open>\<^verbatim>\<open>skip_value\<close>, and the loops \<^verbatim>\<open>for _ in 0..n { skip_value(reader)?; }\<close>.\<close>

function skip_value :: "rmp \<Rightarrow> unit reader" and skip_values :: "rmp \<Rightarrow> nat \<Rightarrow> unit reader" where
  "skip_value r bs =
     (case read_item r bs of
        None \<Rightarrow> None
      | Some (Inl e, rest) \<Rightarrow> Some (Inl e, rest)
      | Some (Inr n, rest) \<Rightarrow> skip_values r n rest)"
| "skip_values r 0 bs = Some (Inr (), bs)"
| "skip_values r (Suc n) bs =
     (case skip_value r bs of
        None \<Rightarrow> None
      | Some (Inl e, rest) \<Rightarrow> Some (Inl e, rest)
      | Some (Inr u, rest) \<Rightarrow> skip_values r n rest)"
  by pat_completeness auto

termination
proof -
  have shrinks: "skip_value_skip_values_dom (Inl (r, bs)) \<Longrightarrow> skip_value r bs = Some (x, rest) \<Longrightarrow> length rest \<le> length bs"
    "skip_value_skip_values_dom (Inr (r, n, bs)) \<Longrightarrow> skip_values r n bs = Some (x, rest) \<Longrightarrow> length rest \<le> length bs"
    for r bs n x rest
  proof (induction r bs and r n bs arbitrary: x rest and x rest rule: skip_value_skip_values.pinduct)
    case (1 r bs)
    show ?case
    proof (cases "read_item r bs")
      case (Some p)
      then show ?thesis
        using 1 consumes_length [OF read_item_consumes, of r bs]
        by (cases p; cases "fst p") (force simp: skip_value.psimps)+
    qed (use 1 in \<open>simp add: skip_value.psimps\<close>)
  next
    case (3 r n bs)
    show ?case
    proof (cases "skip_value r bs")
      case (Some p)
      then show ?thesis
        using 3 by (cases p; cases "fst p") (force simp: skip_values.psimps)+
    qed (use 3 in \<open>simp add: skip_values.psimps\<close>)
  qed (simp add: skip_values.psimps)
  show ?thesis
  proof (relation "measures [\<lambda>x. case x of Inl (r, bs) \<Rightarrow> length bs | Inr (r, n, bs) \<Rightarrow> length bs,
      \<lambda>x. case x of Inl (r, bs) \<Rightarrow> 0 | Inr (r, n, bs) \<Rightarrow> Suc n]")
  qed (auto dest: read_item_shrinks shrinks(1))
qed

declare skip_value.simps [simp del] skip_values.simps(2) [simp del]

definition capture_value :: "rmp \<Rightarrow> bytes reader" where
  "capture_value r bs =
     (case skip_value r bs of
        None \<Rightarrow> None
      | Some (Inl e, rest) \<Rightarrow> Some (Inl e, rest)
      | Some (Inr u, rest) \<Rightarrow> Some (Inr (take (length bs - length rest) bs), rest))"

section \<open>The dictionary of a type\<close>

text \<open>
  The context of a call holds the clocks, when it holds anything: the two readings a call makes, and
  the earliest instant the platform represents (\<^verbatim>\<open>Instant::checked_sub\<close> fails below it).
\<close>

record time_provider =
  tp_now_instant :: instant
  tp_now_system_ms :: int
  tp_earliest :: instant

type_synonym tox_context = "time_provider option"

text \<open>
  \<open>cd_mem\<close> and \<open>cd_of_mem\<close> are the byte in memory of a value of a type of one byte; \<^verbatim>\<open>Vec\<close> and arrays
  copy the memory of such items. A byte that is no value of the type has no defined result.
\<close>

record 'a codec =
  cd_size :: "nat option"
  cd_byte_like :: bool
  cd_flat_len :: "'a \<Rightarrow> nat panics"
  cd_ser :: "tox_context \<Rightarrow> 'a \<Rightarrow> written"
  cd_ser_flat :: "tox_context \<Rightarrow> 'a \<Rightarrow> written"
  cd_de :: "tox_context \<Rightarrow> 'a reader"
  cd_de_flat :: "tox_context \<Rightarrow> 'a reader"
  cd_mem :: "'a \<Rightarrow> u8"
  cd_of_mem :: "u8 \<Rightarrow> 'a option"

text \<open>The default methods of the traits.\<close>

definition default_flat_len :: "nat option \<Rightarrow> 'a \<Rightarrow> nat panics" where
  "default_flat_len sz v = sz"

definition no_ser_flat :: "tox_context \<Rightarrow> 'a \<Rightarrow> written" where
  "no_ser_flat ctx v = Some (Inl Serialize)"

definition no_de_flat :: "tox_context \<Rightarrow> 'a reader" where
  "no_de_flat ctx = r_err Deserialize"

definition no_mem :: "'a \<Rightarrow> u8" where "no_mem v = 0"
definition no_of_mem :: "u8 \<Rightarrow> 'a option" where "no_of_mem b = None"

section \<open>Numbers\<close>

definition read_in :: "rmp \<Rightarrow> int \<Rightarrow> int \<Rightarrow> int reader" where
  "read_in r lo hi = r_rmp (rp_read_int r lo hi)"

text \<open>\<^verbatim>\<open>impl_rmp_int!\<close> for unsigned and signed integers of \<open>k\<close> bytes.\<close>

definition uint_codec :: "rmp \<Rightarrow> nat \<Rightarrow> nat codec" where
  "uint_codec r k =
     \<lparr>cd_size = Some k, cd_byte_like = False, cd_flat_len = default_flat_len (Some k),
      cd_ser = (\<lambda>ctx v. w_ok (rp_write_uint r v)),
      cd_ser_flat = (\<lambda>ctx v. w_ok (be_bytes k v)),
      cd_de = (\<lambda>ctx. r_bind (read_in r 0 (2 ^ (8 * k) - 1)) (\<lambda>i. r_ok (nat i))),
      cd_de_flat = (\<lambda>ctx. read_be k),
      cd_mem = of_nat, cd_of_mem = (\<lambda>b. Some (unat b))\<rparr>"

definition sint_codec :: "rmp \<Rightarrow> nat \<Rightarrow> int codec" where
  "sint_codec r k =
     \<lparr>cd_size = Some k, cd_byte_like = False, cd_flat_len = default_flat_len (Some k),
      cd_ser = (\<lambda>ctx v. w_ok (rp_write_sint r v)),
      cd_ser_flat = (\<lambda>ctx v. w_ok (be_bytes k (of_signed k v))),
      cd_de = (\<lambda>ctx. read_in r (sint_min k) (sint_max k)),
      cd_de_flat = (\<lambda>ctx. r_bind (read_be k) (\<lambda>n. r_ok (to_signed k n))),
      cd_mem = of_int, cd_of_mem = (\<lambda>b. Some (to_signed 1 (unat b)))\<rparr>"

definition u8_codec :: "rmp \<Rightarrow> u8 codec" where
  "u8_codec r =
     \<lparr>cd_size = Some 1, cd_byte_like = True, cd_flat_len = default_flat_len (Some 1),
      cd_ser = (\<lambda>ctx v. w_ok (rp_write_uint r (unat v))),
      cd_ser_flat = (\<lambda>ctx v. w_ok [v]),
      cd_de = (\<lambda>ctx. r_bind (read_in r 0 255) (\<lambda>i. r_ok (of_int i))),
      cd_de_flat = (\<lambda>ctx. r_bind (read_exact 1) (\<lambda>buf. r_ok (hd buf))),
      cd_mem = (\<lambda>v. v), cd_of_mem = Some\<rparr>"

text \<open>Floating-point numbers are their bits.\<close>

definition f32_codec :: "rmp \<Rightarrow> u32 codec" where
  "f32_codec r =
     \<lparr>cd_size = Some 4, cd_byte_like = False, cd_flat_len = default_flat_len (Some 4),
      cd_ser = (\<lambda>ctx v. w_ok (rp_write_f32 r v)),
      cd_ser_flat = (\<lambda>ctx v. w_ok (be_bytes 4 (unat v))),
      cd_de = (\<lambda>ctx. r_rmp (rp_read_f32 r)),
      cd_de_flat = (\<lambda>ctx. r_bind (read_be 4) (\<lambda>n. r_ok (of_nat n))),
      cd_mem = no_mem, cd_of_mem = no_of_mem\<rparr>"

definition f64_codec :: "rmp \<Rightarrow> u64 codec" where
  "f64_codec r =
     \<lparr>cd_size = Some 8, cd_byte_like = False, cd_flat_len = default_flat_len (Some 8),
      cd_ser = (\<lambda>ctx v. w_ok (rp_write_f64 r v)),
      cd_ser_flat = (\<lambda>ctx v. w_ok (be_bytes 8 (unat v))),
      cd_de = (\<lambda>ctx. r_rmp (rp_read_f64 r)),
      cd_de_flat = (\<lambda>ctx. r_bind (read_be 8) (\<lambda>n. r_ok (of_nat n))),
      cd_mem = no_mem, cd_of_mem = no_of_mem\<rparr>"

text \<open>A \<^verbatim>\<open>char\<close> is a Unicode scalar value: a code point that is not a surrogate.\<close>

definition is_scalar :: "nat \<Rightarrow> bool" where
  "is_scalar n \<longleftrightarrow> n < 0xD800 \<or> (0xE000 \<le> n \<and> n \<le> 0x10FFFF)"

definition from_u32 :: "nat \<Rightarrow> nat reader" where
  "from_u32 u = (if is_scalar u then r_ok u else r_err Deserialize)"

definition char_codec :: "rmp \<Rightarrow> nat codec" where
  "char_codec r =
     \<lparr>cd_size = Some 4, cd_byte_like = False, cd_flat_len = default_flat_len (Some 4),
      cd_ser = (\<lambda>ctx v. w_ok (rp_write_uint r v)),
      cd_ser_flat = (\<lambda>ctx v. w_ok (be_bytes 4 v)),
      cd_de = (\<lambda>ctx. r_bind (read_in r 0 (2 ^ 32 - 1)) (\<lambda>u. from_u32 (nat u))),
      cd_de_flat = (\<lambda>ctx. r_bind (read_be 4) from_u32),
      cd_mem = no_mem, cd_of_mem = no_of_mem\<rparr>"

definition bool_codec :: "rmp \<Rightarrow> bool codec" where
  "bool_codec r =
     \<lparr>cd_size = Some 1, cd_byte_like = False, cd_flat_len = default_flat_len (Some 1),
      cd_ser = (\<lambda>ctx v. w_ok (rp_write_bool r v)),
      cd_ser_flat = (\<lambda>ctx v. w_ok [if v then 1 else 0]),
      cd_de = (\<lambda>ctx. r_rmp (rp_read_bool r)),
      cd_de_flat = (\<lambda>ctx. r_bind (read_exact 1) (\<lambda>buf. r_ok (hd buf \<noteq> 0))),
      cd_mem = (\<lambda>v. if v then 1 else 0),
      cd_of_mem = (\<lambda>b. if b = 0 then Some False else if b = 1 then Some True else None)\<rparr>"

text \<open>\<^verbatim>\<open>rmp::encode::write_bin\<close> and \<^verbatim>\<open>write_str\<close>: the length as \<^verbatim>\<open>u32\<close>, then the bytes.\<close>

definition write_bin :: "rmp \<Rightarrow> bytes \<Rightarrow> written" where
  "write_bin r bs = w_ok (rp_write_bin_len r (length bs mod 2 ^ 32) @ bs)"

definition write_str :: "rmp \<Rightarrow> bytes \<Rightarrow> written" where
  "write_str r bs = w_ok (rp_write_str_len r (length bs mod 2 ^ 32) @ bs)"

definition read_bin_of :: "rmp \<Rightarrow> nat \<Rightarrow> bytes reader" where
  "read_bin_of r n =
     r_bind (r_rmp (rp_read_bin_len r)) (\<lambda>len. if len \<noteq> n then r_err Deserialize else read_exact n)"

definition u128_codec :: "rmp \<Rightarrow> nat codec" where
  "u128_codec r =
     \<lparr>cd_size = Some 16, cd_byte_like = False, cd_flat_len = default_flat_len (Some 16),
      cd_ser = (\<lambda>ctx v. write_bin r (le_bytes 16 v)),
      cd_ser_flat = (\<lambda>ctx v. w_ok (le_bytes 16 v)),
      cd_de = (\<lambda>ctx. r_bind (read_bin_of r 16) (\<lambda>buf. r_ok (of_le_bytes buf))),
      cd_de_flat = (\<lambda>ctx. r_bind (read_exact 16) (\<lambda>buf. r_ok (of_le_bytes buf))),
      cd_mem = no_mem, cd_of_mem = no_of_mem\<rparr>"

definition i128_codec :: "rmp \<Rightarrow> int codec" where
  "i128_codec r =
     \<lparr>cd_size = Some 16, cd_byte_like = False, cd_flat_len = default_flat_len (Some 16),
      cd_ser = (\<lambda>ctx v. write_bin r (le_bytes 16 (of_signed 16 v))),
      cd_ser_flat = (\<lambda>ctx v. w_ok (le_bytes 16 (of_signed 16 v))),
      cd_de = (\<lambda>ctx. r_bind (read_bin_of r 16) (\<lambda>buf. r_ok (to_signed 16 (of_le_bytes buf)))),
      cd_de_flat = (\<lambda>ctx. r_bind (read_exact 16) (\<lambda>buf. r_ok (to_signed 16 (of_le_bytes buf)))),
      cd_mem = no_mem, cd_of_mem = no_of_mem\<rparr>"

section \<open>Strings\<close>

text \<open>A \<^verbatim>\<open>String\<close> is its UTF-8 bytes, a list of characters of eight bits.\<close>

definition string_bytes :: "string \<Rightarrow> bytes" where
  "string_bytes s = map of_char s"

definition bytes_string :: "bytes \<Rightarrow> string" where
  "bytes_string bs = map (\<lambda>b. char_of (unat b)) bs"

text \<open>Well-formed UTF-8: how many bytes follow a first byte, and the range of the second byte.\<close>

definition utf8_following :: "nat \<Rightarrow> nat option" where
  "utf8_following b =
     (if b < 0x80 then Some 0 else if 0xC2 \<le> b \<and> b \<le> 0xDF then Some 1
      else if 0xE0 \<le> b \<and> b \<le> 0xEF then Some 2 else if 0xF0 \<le> b \<and> b \<le> 0xF4 then Some 3 else None)"

definition utf8_second :: "nat \<Rightarrow> nat \<Rightarrow> bool" where
  "utf8_second b c \<longleftrightarrow>
     (if b = 0xE0 then 0xA0 else if b = 0xF0 then 0x90 else 0x80) \<le> c
     \<and> c \<le> (if b = 0xED then 0x9F else if b = 0xF4 then 0x8F else 0xBF)"

function utf8_ok :: "bytes \<Rightarrow> bool" where
  "utf8_ok [] = True"
| "utf8_ok (b # bs) =
     (case utf8_following (unat b) of
        None \<Rightarrow> False
      | Some k \<Rightarrow>
          k \<le> length bs
          \<and> (0 < k \<longrightarrow> utf8_second (unat b) (unat (hd bs)))
          \<and> (\<forall>c \<in> set (take k bs). 0x80 \<le> c \<and> c \<le> 0xBF)
          \<and> utf8_ok (drop k bs))"
  by pat_completeness auto
termination by (relation "measure length") auto

definition from_utf8 :: "bytes \<Rightarrow> string reader" where
  "from_utf8 buf = (if utf8_ok buf then r_ok (bytes_string buf) else r_err Deserialize)"

definition string_codec :: "rmp \<Rightarrow> string codec" where
  "string_codec r =
     \<lparr>cd_size = None, cd_byte_like = True, cd_flat_len = (\<lambda>s. Some (length s)),
      cd_ser = (\<lambda>ctx s. write_str r (string_bytes s)),
      cd_ser_flat = (\<lambda>ctx s. w_ok (string_bytes s)),
      cd_de = (\<lambda>ctx. r_bind (r_rmp (rp_read_str_len r)) (\<lambda>len. r_bind (read_exact len) from_utf8)),
      cd_de_flat = (\<lambda>ctx. r_bind read_to_end from_utf8),
      cd_mem = no_mem, cd_of_mem = no_of_mem\<rparr>"

section \<open>Sequences\<close>

fun r_repeat :: "nat \<Rightarrow> 'a reader \<Rightarrow> 'a list reader" where
  "r_repeat 0 m = r_ok []"
| "r_repeat (Suc n) m = r_bind m (\<lambda>x. r_bind (r_repeat n m) (\<lambda>xs. r_ok (x # xs)))"

definition from_memory :: "'a codec \<Rightarrow> bytes \<Rightarrow> 'a list reader" where
  "from_memory c buf bs =
     (case those (map (cd_of_mem c) buf) of None \<Rightarrow> None | Some xs \<Rightarrow> Some (Inr xs, bs))"

definition ser_items :: "rmp \<Rightarrow> 'a codec \<Rightarrow> tox_context \<Rightarrow> 'a list \<Rightarrow> written" where
  "ser_items r c ctx xs =
     w_seq (w_ok (rp_write_array_len r (length xs mod 2 ^ 32))) (w_all (cd_ser c ctx) xs)"

definition de_items :: "rmp \<Rightarrow> 'a codec \<Rightarrow> tox_context \<Rightarrow> 'a list reader" where
  "de_items r c ctx = r_bind (r_rmp (rp_read_array_len r)) (\<lambda>len. r_repeat len (cd_de c ctx))"

text \<open>\<^verbatim>\<open>while let Ok(item) = T::deserialize_flat(reader, ctx)\<close>; with items of no bytes it never ends.\<close>

partial_function (option) flat_loop :: "'a reader \<Rightarrow> bytes \<Rightarrow> ('a list \<times> bytes) option" where
  "flat_loop m bs =
     (case m bs of
        None \<Rightarrow> None
      | Some (Inl e, rest) \<Rightarrow> Some ([], rest)
      | Some (Inr x, rest) \<Rightarrow> Option.bind (flat_loop m rest) (\<lambda>(xs, rest'). Some (x # xs, rest')))"

definition vec_de_flat :: "'a codec \<Rightarrow> tox_context \<Rightarrow> 'a list reader" where
  "vec_de_flat c ctx bs =
     (if cd_size c = Some 1 then r_bind read_to_end (from_memory c) bs
      else if cd_size c \<noteq> None then map_option (\<lambda>(xs, rest). (Inr xs, rest)) (flat_loop (cd_de_flat c ctx) bs)
      else Some (Inl Deserialize, bs))"

definition vec_codec :: "rmp \<Rightarrow> 'a codec \<Rightarrow> 'a list codec" where
  "vec_codec r c =
     \<lparr>cd_size = None, cd_byte_like = cd_byte_like c,
      cd_flat_len = (\<lambda>xs. map_option (\<lambda>item_size. length xs * item_size) (cd_size c)),
      cd_ser = (\<lambda>ctx xs. if cd_size c = Some 1 then write_bin r (map (cd_mem c) xs) else ser_items r c ctx xs),
      cd_ser_flat = (\<lambda>ctx xs. if cd_size c \<noteq> None then w_all (cd_ser_flat c ctx) xs else Some (Inl Serialize)),
      cd_de = (\<lambda>ctx. if cd_size c = Some 1
                 then r_bind (r_rmp (rp_read_bin_len r)) (\<lambda>len. r_bind (read_exact len) (from_memory c))
                 else de_items r c ctx),
      cd_de_flat = vec_de_flat c,
      cd_mem = no_mem, cd_of_mem = no_of_mem\<rparr>"

text \<open>\<^verbatim>\<open>Vec<u8>\<close>.\<close>

definition byte_vec_codec :: "rmp \<Rightarrow> bytes codec" where
  "byte_vec_codec r = vec_codec r (u8_codec r)"

text \<open>\<^verbatim>\<open>SmallVec\<close> and \<^verbatim>\<open>VecDeque\<close>: always an array.\<close>

definition seq_codec :: "rmp \<Rightarrow> 'a codec \<Rightarrow> 'a list codec" where
  "seq_codec r c =
     \<lparr>cd_size = None, cd_byte_like = False, cd_flat_len = default_flat_len None,
      cd_ser = ser_items r c, cd_ser_flat = no_ser_flat, cd_de = de_items r c, cd_de_flat = no_de_flat,
      cd_mem = no_mem, cd_of_mem = no_of_mem\<rparr>"

text \<open>\<^verbatim>\<open>[u8]\<close>, which is only written.\<close>

definition slice_ser :: "rmp \<Rightarrow> bytes \<Rightarrow> written" where
  "slice_ser r bs = write_bin r bs"

text \<open>\<^verbatim>\<open>[T; N]\<close>, a list of exactly \<open>n\<close> items.\<close>

definition array_codec :: "rmp \<Rightarrow> nat \<Rightarrow> 'a codec \<Rightarrow> 'a list codec" where
  "array_codec r n c =
     \<lparr>cd_size = map_option (\<lambda>s. s * n) (cd_size c), cd_byte_like = cd_byte_like c,
      cd_flat_len = default_flat_len (map_option (\<lambda>s. s * n) (cd_size c)),
      cd_ser = (\<lambda>ctx xs. if cd_size c = Some 1 then write_bin r (map (cd_mem c) xs) else ser_items r c ctx xs),
      cd_ser_flat = (\<lambda>ctx xs. w_all (cd_ser_flat c ctx) xs),
      cd_de = (\<lambda>ctx. if cd_size c = Some 1 then r_bind (read_bin_of r n) (from_memory c)
                 else r_bind (r_rmp (rp_read_array_len r))
                        (\<lambda>len. if len \<noteq> n then r_err Deserialize else r_repeat n (cd_de c ctx))),
      cd_de_flat = (\<lambda>ctx. r_repeat n (cd_de_flat c ctx)),
      cd_mem = (\<lambda>xs. cd_mem c (hd xs)), cd_of_mem = (\<lambda>b. map_option (\<lambda>x. [x]) (cd_of_mem c b))\<rparr>"

section \<open>Fields in a row\<close>

text \<open>
  The components of a tuple or struct are nested pairs, and their dictionaries one record of what
  the macros expand over the list of components: how many there are, the sum of their sizes, and
  each of the four methods called on one after the other. A component the attribute \<^verbatim>\<open>tox(skip)\<close>
  marks is not counted and gets its default value.
\<close>

record 'a fields =
  fl_count :: nat
  fl_size :: "nat option"
  fl_byte_like :: bool
  fl_flat_len :: "'a \<Rightarrow> nat panics"
  fl_ser :: "tox_context \<Rightarrow> 'a \<Rightarrow> written"
  fl_ser_flat :: "tox_context \<Rightarrow> 'a \<Rightarrow> written"
  fl_de :: "tox_context \<Rightarrow> 'a reader"
  fl_de_flat :: "tox_context \<Rightarrow> 'a reader"

definition sum_sizes :: "nat option \<Rightarrow> nat option \<Rightarrow> nat option" where
  "sum_sizes a b = (case (a, b) of (Some s1, Some s2) \<Rightarrow> Some (s1 + s2) | _ \<Rightarrow> None)"

definition no_fields :: "unit fields" where
  "no_fields =
     \<lparr>fl_count = 0, fl_size = Some 0, fl_byte_like = True, fl_flat_len = (\<lambda>_. Some 0),
      fl_ser = (\<lambda>ctx _. w_ok []), fl_ser_flat = (\<lambda>ctx _. w_ok []),
      fl_de = (\<lambda>ctx. r_ok ()), fl_de_flat = (\<lambda>ctx. r_ok ())\<rparr>"

text \<open>
  The length of a row of fields written flat: the sizes of all but the last, which have to be fixed
  (\<^verbatim>\<open>expect\<close> panics), and the \<^verbatim>\<open>flat_len\<close> of the last.
\<close>

definition field :: "'a codec \<Rightarrow> 'b fields \<Rightarrow> ('a \<times> 'b) fields" where
  "field c fs =
     \<lparr>fl_count = Suc (fl_count fs),
      fl_size = sum_sizes (cd_size c) (fl_size fs),
      fl_byte_like = (cd_byte_like c \<and> fl_byte_like fs),
      fl_flat_len = (\<lambda>(v, vs). if fl_count fs = 0 then cd_flat_len c v else sum_sizes (cd_size c) (fl_flat_len fs vs)),
      fl_ser = (\<lambda>ctx (v, vs). w_seq (cd_ser c ctx v) (fl_ser fs ctx vs)),
      fl_ser_flat = (\<lambda>ctx (v, vs). w_seq (cd_ser_flat c ctx v) (fl_ser_flat fs ctx vs)),
      fl_de = (\<lambda>ctx. r_bind (cd_de c ctx) (\<lambda>v. r_bind (fl_de fs ctx) (\<lambda>vs. r_ok (v, vs)))),
      fl_de_flat = (\<lambda>ctx. r_bind (cd_de_flat c ctx) (\<lambda>v. r_bind (fl_de_flat fs ctx) (\<lambda>vs. r_ok (v, vs))))\<rparr>"

definition skipped_field :: "'a \<Rightarrow> 'b fields \<Rightarrow> ('a \<times> 'b) fields" where
  "skipped_field dflt fs =
     \<lparr>fl_count = fl_count fs, fl_size = fl_size fs, fl_byte_like = fl_byte_like fs,
      fl_flat_len = (\<lambda>(v, vs). fl_flat_len fs vs),
      fl_ser = (\<lambda>ctx (v, vs). fl_ser fs ctx vs), fl_ser_flat = (\<lambda>ctx (v, vs). fl_ser_flat fs ctx vs),
      fl_de = (\<lambda>ctx. r_bind (fl_de fs ctx) (\<lambda>vs. r_ok (dflt, vs))),
      fl_de_flat = (\<lambda>ctx. r_bind (fl_de_flat fs ctx) (\<lambda>vs. r_ok (dflt, vs)))\<rparr>"

text \<open>\<^verbatim>\<open>impl_tox_tuple!\<close>: an array of exactly as many items.\<close>

definition tuple_codec :: "rmp \<Rightarrow> 'a fields \<Rightarrow> 'a codec" where
  "tuple_codec r fs =
     \<lparr>cd_size = fl_size fs, cd_byte_like = fl_byte_like fs, cd_flat_len = default_flat_len (fl_size fs),
      cd_ser = (\<lambda>ctx v. w_seq (w_ok (rp_write_array_len r (fl_count fs))) (fl_ser fs ctx v)),
      cd_ser_flat = fl_ser_flat fs,
      cd_de = (\<lambda>ctx. r_bind (r_rmp (rp_read_array_len r))
                 (\<lambda>len. if len \<noteq> fl_count fs then r_err Deserialize else fl_de fs ctx)),
      cd_de_flat = fl_de_flat fs,
      cd_mem = no_mem, cd_of_mem = no_of_mem\<rparr>"

definition pair_codec :: "rmp \<Rightarrow> 'a codec \<Rightarrow> 'b codec \<Rightarrow> ('a \<times> 'b \<times> unit) codec" where
  "pair_codec r a b = tuple_codec r (field a (field b no_fields))"

section \<open>Maps and sets\<close>

text \<open>
  A map is the list of its entries, a set the list of its members, in the order of iteration. A
  \<^verbatim>\<open>BTreeMap\<close> iterates by key; the order of a \<^verbatim>\<open>HashMap\<close> is not specified, here a new entry comes
  last.
\<close>

definition hash_insert :: "'k \<Rightarrow> 'v \<Rightarrow> ('k \<times> 'v) list \<Rightarrow> ('k \<times> 'v) list" where
  "hash_insert k v m = (if k \<in> fst ` set m then map (\<lambda>(k', v'). if k' = k then (k, v) else (k', v')) m else m @ [(k, v)])"

definition btree_insert :: "'k :: linorder \<Rightarrow> 'v \<Rightarrow> ('k \<times> 'v) list \<Rightarrow> ('k \<times> 'v) list" where
  "btree_insert k v m =
     takeWhile (\<lambda>e. fst e < k) m @ (k, v) # dropWhile (\<lambda>e. fst e \<le> k) m"

definition hash_set_insert :: "'a \<Rightarrow> 'a list \<Rightarrow> 'a list" where
  "hash_set_insert x xs = (if x \<in> set xs then xs else xs @ [x])"

definition btree_set_insert :: "'a :: linorder \<Rightarrow> 'a list \<Rightarrow> 'a list" where
  "btree_set_insert x xs = takeWhile (\<lambda>y. y < x) xs @ x # dropWhile (\<lambda>y. y \<le> x) xs"

fun de_entries :: "('k \<Rightarrow> 'v \<Rightarrow> ('k \<times> 'v) list \<Rightarrow> ('k \<times> 'v) list) \<Rightarrow> nat \<Rightarrow> 'k reader \<Rightarrow> 'v reader
    \<Rightarrow> ('k \<times> 'v) list \<Rightarrow> ('k \<times> 'v) list reader" where
  "de_entries ins 0 rk rv m = r_ok m"
| "de_entries ins (Suc n) rk rv m = r_bind rk (\<lambda>k. r_bind rv (\<lambda>v. de_entries ins n rk rv (ins k v m)))"

definition map_codec :: "('k \<Rightarrow> 'v \<Rightarrow> ('k \<times> 'v) list \<Rightarrow> ('k \<times> 'v) list) \<Rightarrow> rmp \<Rightarrow> 'k codec \<Rightarrow> 'v codec \<Rightarrow> ('k \<times> 'v) list codec" where
  "map_codec ins r kc vc =
     \<lparr>cd_size = None, cd_byte_like = False, cd_flat_len = default_flat_len None,
      cd_ser = (\<lambda>ctx m. w_seq (w_ok (rp_write_map_len r (length m mod 2 ^ 32)))
                  (w_all (\<lambda>(k, v). w_seq (cd_ser kc ctx k) (cd_ser vc ctx v)) m)),
      cd_ser_flat = no_ser_flat,
      cd_de = (\<lambda>ctx. r_bind (r_rmp (rp_read_map_len r)) (\<lambda>len. de_entries ins len (cd_de kc ctx) (cd_de vc ctx) [])),
      cd_de_flat = no_de_flat, cd_mem = no_mem, cd_of_mem = no_of_mem\<rparr>"

fun de_members :: "('a \<Rightarrow> 'a list \<Rightarrow> 'a list) \<Rightarrow> nat \<Rightarrow> 'a reader \<Rightarrow> 'a list \<Rightarrow> 'a list reader" where
  "de_members ins 0 m xs = r_ok xs"
| "de_members ins (Suc n) m xs = r_bind m (\<lambda>x. de_members ins n m (ins x xs))"

definition set_codec :: "('a \<Rightarrow> 'a list \<Rightarrow> 'a list) \<Rightarrow> rmp \<Rightarrow> 'a codec \<Rightarrow> 'a list codec" where
  "set_codec ins r c =
     \<lparr>cd_size = None, cd_byte_like = False, cd_flat_len = default_flat_len None,
      cd_ser = ser_items r c, cd_ser_flat = no_ser_flat,
      cd_de = (\<lambda>ctx. r_bind (r_rmp (rp_read_array_len r)) (\<lambda>len. de_members ins len (cd_de c ctx) [])),
      cd_de_flat = no_de_flat, cd_mem = no_mem, cd_of_mem = no_of_mem\<rparr>"

section \<open>Results and options\<close>

definition result_codec :: "rmp \<Rightarrow> 'a codec \<Rightarrow> 'e codec \<Rightarrow> ('e + 'a) codec" where
  "result_codec r c e =
     \<lparr>cd_size = None, cd_byte_like = False, cd_flat_len = default_flat_len None,
      cd_ser = (\<lambda>ctx v. w_seq (w_ok (rp_write_array_len r 2))
                  (case v of
                     Inr x \<Rightarrow> w_seq (cd_ser (u8_codec r) ctx 1) (cd_ser c ctx x)
                   | Inl y \<Rightarrow> w_seq (cd_ser (u8_codec r) ctx 0) (cd_ser e ctx y))),
      cd_ser_flat = no_ser_flat,
      cd_de = (\<lambda>ctx. r_bind (r_rmp (rp_read_array_len r)) (\<lambda>len.
                 if len \<noteq> 2 then r_err Deserialize
                 else r_bind (cd_de (u8_codec r) ctx) (\<lambda>variant.
                   if variant = 1 then r_bind (cd_de c ctx) (\<lambda>x. r_ok (Inr x))
                   else if variant = 0 then r_bind (cd_de e ctx) (\<lambda>y. r_ok (Inl y))
                   else r_err Deserialize))),
      cd_de_flat = no_de_flat, cd_mem = no_mem, cd_of_mem = no_of_mem\<rparr>"

definition option_codec :: "rmp \<Rightarrow> 'a codec \<Rightarrow> 'a option codec" where
  "option_codec r c =
     \<lparr>cd_size = None, cd_byte_like = False, cd_flat_len = default_flat_len None,
      cd_ser = (\<lambda>ctx v. case v of
                  Some x \<Rightarrow> w_seq (w_ok (rp_write_array_len r 1)) (cd_ser c ctx x)
                | None \<Rightarrow> w_ok (rp_write_array_len r 0)),
      cd_ser_flat = no_ser_flat,
      cd_de = (\<lambda>ctx. r_bind (r_rmp (rp_read_array_len r)) (\<lambda>len.
                 if len = 0 then r_ok None
                 else if len = 1 then r_bind (cd_de c ctx) (\<lambda>x. r_ok (Some x))
                 else r_bind (skip_values r len) (\<lambda>_. r_ok None))),
      cd_de_flat = no_de_flat, cd_mem = no_mem, cd_of_mem = no_of_mem\<rparr>"

section \<open>Times\<close>

text \<open>\<^verbatim>\<open>nanos as u64\<close> drops the upper half of the 128 bits.\<close>

definition from_nanos_u128 :: "nat \<Rightarrow> duration" where
  "from_nanos_u128 nanos = nanos mod 2 ^ 64"

definition duration_codec :: "rmp \<Rightarrow> duration codec" where
  "duration_codec r = (let c = u128_codec r in
     \<lparr>cd_size = Some 16, cd_byte_like = False, cd_flat_len = default_flat_len (Some 16),
      cd_ser = cd_ser c, cd_ser_flat = cd_ser_flat c,
      cd_de = (\<lambda>ctx. r_bind (cd_de c ctx) (\<lambda>nanos. r_ok (from_nanos_u128 nanos))),
      cd_de_flat = (\<lambda>ctx. r_bind (cd_de_flat c ctx) (\<lambda>nanos. r_ok (from_nanos_u128 nanos))),
      cd_mem = no_mem, cd_of_mem = no_of_mem\<rparr>)"

text \<open>The age of an instant in microseconds, negative for the past.\<close>

definition age_micros :: "time_provider \<Rightarrow> instant \<Rightarrow> int" where
  "age_micros tp t =
     (if t \<le> tp_now_instant tp then - ((tp_now_instant tp - t) div 1000) else (t - tp_now_instant tp) div 1000)"

definition i64_saturating_sub :: "int \<Rightarrow> int \<Rightarrow> int" where
  "i64_saturating_sub a b = max (sint_min 8) (min (sint_max 8) (a - b))"

text \<open>
  The instant meant by an age that was sent at a system time. The difference is one of \<^verbatim>\<open>i128\<close> and
  panics when it overflows; \<^verbatim>\<open>as u64\<close> wraps around.
\<close>

definition instant_of_age :: "time_provider \<Rightarrow> int \<Rightarrow> int \<Rightarrow> instant panics" where
  "instant_of_age tp age sent_ms =
     (let passed = i64_saturating_sub (tp_now_system_ms tp) sent_ms;
          adjusted = age - passed * 1000
      in if adjusted < sint_min 16 \<or> sint_max 16 < adjusted then None
         else if 0 \<le> adjusted then Some (tp_now_instant tp)
         else let t = tp_now_instant tp - (- adjusted) mod 2 ^ 64 * 1000
              in Some (if t < tp_earliest tp then tp_now_instant tp else t))"

definition instant_codec :: "rmp \<Rightarrow> instant codec" where
  "instant_codec r =
     \<lparr>cd_size = None, cd_byte_like = False, cd_flat_len = default_flat_len None,
      cd_ser = (\<lambda>ctx t. case ctx of
                  None \<Rightarrow> Some (Inl Serialize)
                | Some tp \<Rightarrow>
                    w_seq (w_ok (rp_write_array_len r 2))
                      (w_seq (cd_ser (i128_codec r) ctx (age_micros tp t))
                        (cd_ser (sint_codec r 8) ctx (tp_now_system_ms tp)))),
      cd_ser_flat = no_ser_flat,
      cd_de = (\<lambda>ctx. case ctx of
                  None \<Rightarrow> r_err Deserialize
                | Some tp \<Rightarrow>
                    r_bind (r_rmp (rp_read_array_len r)) (\<lambda>len.
                      if len \<noteq> 2 then r_err Deserialize
                      else r_bind (cd_de (i128_codec r) ctx) (\<lambda>age.
                        r_bind (cd_de (sint_codec r 8) ctx) (\<lambda>sent bs.
                          map_option (\<lambda>t. (Inr t, bs)) (instant_of_age tp age sent))))),
      cd_de_flat = no_de_flat, cd_mem = no_mem, cd_of_mem = no_of_mem\<rparr>"

text \<open>
  \<^verbatim>\<open>Arc<dyn TimeProvider>\<close> and \<^verbatim>\<open>StdRng\<close> write nothing. Reading the first takes the clock of the
  context, reading the second a generator with a fixed seed.
\<close>

definition time_provider_codec :: "time_provider codec" where
  "time_provider_codec =
     \<lparr>cd_size = None, cd_byte_like = False, cd_flat_len = default_flat_len None,
      cd_ser = (\<lambda>ctx v. w_ok []), cd_ser_flat = no_ser_flat,
      cd_de = (\<lambda>ctx. case ctx of None \<Rightarrow> r_err Deserialize | Some tp \<Rightarrow> r_ok tp),
      cd_de_flat = no_de_flat, cd_mem = no_mem, cd_of_mem = no_of_mem\<rparr>"

definition rng_codec :: "'g \<Rightarrow> 'g codec" where
  "rng_codec seeded =
     \<lparr>cd_size = None, cd_byte_like = False, cd_flat_len = default_flat_len None,
      cd_ser = (\<lambda>ctx v. w_ok []), cd_ser_flat = no_ser_flat,
      cd_de = (\<lambda>ctx. r_ok seeded), cd_de_flat = no_de_flat, cd_mem = no_mem, cd_of_mem = no_of_mem\<rparr>"

section \<open>Entry points\<close>

definition serialize_with_ctx :: "'a codec \<Rightarrow> tox_context \<Rightarrow> 'a \<Rightarrow> written" where
  "serialize_with_ctx c ctx v = cd_ser c ctx v"

definition deserialize_with_ctx :: "'a codec \<Rightarrow> tox_context \<Rightarrow> bytes \<Rightarrow> (proto_error + 'a) panics" where
  "deserialize_with_ctx c ctx bs = map_option fst (cd_de c ctx bs)"

definition tox_serialize :: "'a codec \<Rightarrow> 'a \<Rightarrow> written" where
  "tox_serialize c v = serialize_with_ctx c None v"

definition tox_deserialize :: "'a codec \<Rightarrow> bytes \<Rightarrow> (proto_error + 'a) panics" where
  "tox_deserialize c bs = deserialize_with_ctx c None bs"

section \<open>The header of an enum\<close>

definition read_enum_header :: "rmp \<Rightarrow> tox_context \<Rightarrow> (nat \<times> nat) reader" where
  "read_enum_header r ctx =
     r_bind (read_marker r) (\<lambda>m.
       case m of
         FixPos idx \<Rightarrow> r_ok (idx, 1)
       | U8 \<Rightarrow> r_bind (read_exact 1) (\<lambda>buf. r_ok (unat (hd buf), 1))
       | FixArray len \<Rightarrow> r_bind (cd_de (u8_codec r) ctx) (\<lambda>idx. r_ok (unat idx, len))
       | Array16 \<Rightarrow> r_bind (read_be 2) (\<lambda>len. r_bind (cd_de (u8_codec r) ctx) (\<lambda>idx. r_ok (unat idx, len)))
       | Array32 \<Rightarrow> r_bind (read_be 4) (\<lambda>len. r_bind (cd_de (u8_codec r) ctx) (\<lambda>idx. r_ok (unat idx, len)))
       | _ \<Rightarrow> r_err Deserialize)"

end
