(* ===== verification/Tox_Derive.thy ===== *)
theory Tox_Derive
  imports Tox_Proto
begin

text \<open>
  \<^verbatim>\<open>tox-proto-derive\<close>: the implementations the macro \<^verbatim>\<open>ToxProto\<close> derives for structs and enums, as
  functions of the fields and variants it expands over.

  A struct is built from the row of its fields by \<open>mk\<close> and taken apart by \<open>unmk\<close>. The macro has
  three forms: a plain struct is an array; \<^verbatim>\<open>tox(flat)\<close> writes a single field as it is, and several
  fields as one binary item when all are made of bytes; \<^verbatim>\<open>tox(bits)\<close> writes the bits of a set of
  flags. An enum is a list of arms, each with the number of its variant.
\<close>

section \<open>Structs\<close>

definition conv_codec :: "('a \<Rightarrow> 'b) \<Rightarrow> ('b \<Rightarrow> 'a) \<Rightarrow> 'a codec \<Rightarrow> 'b codec" where
  "conv_codec mk unmk c =
     \<lparr>cd_size = cd_size c, cd_byte_like = cd_byte_like c, cd_flat_len = (\<lambda>v. cd_flat_len c (unmk v)),
      cd_ser = (\<lambda>ctx v. cd_ser c ctx (unmk v)), cd_ser_flat = (\<lambda>ctx v. cd_ser_flat c ctx (unmk v)),
      cd_de = (\<lambda>ctx. r_bind (cd_de c ctx) (\<lambda>x. r_ok (mk x))),
      cd_de_flat = (\<lambda>ctx. r_bind (cd_de_flat c ctx) (\<lambda>x. r_ok (mk x))),
      cd_mem = (\<lambda>v. cd_mem c (unmk v)), cd_of_mem = (\<lambda>b. map_option mk (cd_of_mem c b))\<rparr>"

text \<open>An array of the fields; a reader accepts more items than it knows and skips them.\<close>

definition ser_array_of :: "rmp \<Rightarrow> 'a fields \<Rightarrow> tox_context \<Rightarrow> 'a \<Rightarrow> written" where
  "ser_array_of r fs ctx v = w_seq (w_ok (rp_write_array_len r (fl_count fs))) (fl_ser fs ctx v)"

definition de_array_of :: "rmp \<Rightarrow> 'a fields \<Rightarrow> tox_context \<Rightarrow> 'a reader" where
  "de_array_of r fs ctx =
     r_bind (r_rmp (rp_read_array_len r)) (\<lambda>len.
       if len < fl_count fs then r_err Deserialize
       else r_bind (fl_de fs ctx) (\<lambda>v. r_bind (skip_values r (len - fl_count fs)) (\<lambda>_. r_ok v)))"

definition struct_fields :: "rmp \<Rightarrow> 'a fields \<Rightarrow> 'a codec" where
  "struct_fields r fs =
     \<lparr>cd_size = None, cd_byte_like = False, cd_flat_len = default_flat_len None,
      cd_ser = ser_array_of r fs, cd_ser_flat = fl_ser_flat fs,
      cd_de = de_array_of r fs, cd_de_flat = fl_de_flat fs,
      cd_mem = no_mem, cd_of_mem = no_of_mem\<rparr>"

definition struct_codec :: "rmp \<Rightarrow> ('a \<Rightarrow> 'b) \<Rightarrow> ('b \<Rightarrow> 'a) \<Rightarrow> 'a fields \<Rightarrow> 'b codec" where
  "struct_codec r mk unmk fs = conv_codec mk unmk (struct_fields r fs)"

text \<open>
  Rule 1 of \<^verbatim>\<open>tox(flat)\<close>, transparent wrapping of a single field. The derived \<^verbatim>\<open>ToxSize\<close> has the size
  of the field and keeps the default \<^verbatim>\<open>flat_len\<close>.
\<close>

definition wrapper_codec :: "('a \<Rightarrow> 'b) \<Rightarrow> ('b \<Rightarrow> 'a) \<Rightarrow> 'a codec \<Rightarrow> 'b codec" where
  "wrapper_codec mk unmk c = (conv_codec mk unmk c)\<lparr>cd_flat_len := default_flat_len (cd_size c)\<rparr>"

text \<open>
  Rules 2 and 4: one binary item when all fields are made of bytes, an array otherwise. The binary
  item is read through a reader limited to its length, and what the fields leave of it is dropped.
\<close>

definition de_limited :: "nat \<Rightarrow> 'a reader \<Rightarrow> 'a reader" where
  "de_limited n m bs =
     (case m (take n bs) of
        None \<Rightarrow> None
      | Some (Inl e, rest) \<Rightarrow> Some (Inl e, rest @ drop n bs)
      | Some (Inr x, rest) \<Rightarrow> Some (Inr x, drop n bs))"

definition flat_fields :: "rmp \<Rightarrow> 'a fields \<Rightarrow> 'a codec" where
  "flat_fields r fs =
     \<lparr>cd_size = fl_size fs, cd_byte_like = fl_byte_like fs, cd_flat_len = default_flat_len (fl_size fs),
      cd_ser = (\<lambda>ctx v.
         if fl_byte_like fs
         then case fl_flat_len fs v of
                None \<Rightarrow> None
              | Some n \<Rightarrow> w_seq (w_ok (rp_write_bin_len r (n mod 2 ^ 32))) (fl_ser_flat fs ctx v)
         else ser_array_of r fs ctx v),
      cd_ser_flat = fl_ser_flat fs,
      cd_de = (\<lambda>ctx.
         if fl_byte_like fs
         then r_bind (r_rmp (rp_read_bin_len r)) (\<lambda>bin_len. de_limited bin_len (fl_de_flat fs ctx))
         else de_array_of r fs ctx),
      cd_de_flat = fl_de_flat fs,
      cd_mem = no_mem, cd_of_mem = no_of_mem\<rparr>"

definition flat_struct_codec :: "rmp \<Rightarrow> ('a \<Rightarrow> 'b) \<Rightarrow> ('b \<Rightarrow> 'a) \<Rightarrow> 'a fields \<Rightarrow> 'b codec" where
  "flat_struct_codec r mk unmk fs = conv_codec mk unmk (flat_fields r fs)"

text \<open>\<^verbatim>\<open>tox(bits = "u32")\<close>: \<^verbatim>\<open>self.bits()\<close> and \<^verbatim>\<open>from_bits_retain\<close>.\<close>

definition bits_codec :: "rmp \<Rightarrow> u32 codec" where
  "bits_codec r = conv_codec of_nat unat (uint_codec r 4)"

section \<open>Enums\<close>

text \<open>
  An arm: the number of the variant, the payload it writes for a value of this variant (\<open>None\<close> for
  values of the others; the empty payload is that of a unit variant), and how the payload is read.
\<close>

record 'a arm =
  am_idx :: nat
  am_unit :: bool
  am_ser :: "tox_context \<Rightarrow> 'a \<Rightarrow> written option"
  am_de :: "tox_context \<Rightarrow> 'a reader"

definition unit_arm :: "nat \<Rightarrow> 'a \<Rightarrow> 'a arm" where
  "unit_arm idx v =
     \<lparr>am_idx = idx, am_unit = True, am_ser = (\<lambda>ctx x. if x = v then Some (w_ok []) else None),
      am_de = (\<lambda>ctx. r_ok v)\<rparr>"

text \<open>A variant with one field, and one with several, which are an array of their own.\<close>

definition single_arm :: "nat \<Rightarrow> ('b \<Rightarrow> 'a) \<Rightarrow> ('a \<Rightarrow> 'b option) \<Rightarrow> 'b codec \<Rightarrow> 'a arm" where
  "single_arm idx mk unmk c =
     \<lparr>am_idx = idx, am_unit = False, am_ser = (\<lambda>ctx x. map_option (cd_ser c ctx) (unmk x)),
      am_de = (\<lambda>ctx. r_bind (cd_de c ctx) (\<lambda>v. r_ok (mk v)))\<rparr>"

definition multi_arm :: "rmp \<Rightarrow> nat \<Rightarrow> ('b \<Rightarrow> 'a) \<Rightarrow> ('a \<Rightarrow> 'b option) \<Rightarrow> 'b fields \<Rightarrow> 'a arm" where
  "multi_arm r idx mk unmk fs =
     \<lparr>am_idx = idx, am_unit = False, am_ser = (\<lambda>ctx x. map_option (ser_array_of r fs ctx) (unmk x)),
      am_de = (\<lambda>ctx. r_bind (de_array_of r fs ctx) (\<lambda>v. r_ok (mk v)))\<rparr>"

text \<open>The variant \<^verbatim>\<open>tox(catch_all)\<close>: the number and the raw bytes of a variant this version does not know.\<close>

record 'a catch_all =
  ca_mk :: "nat \<Rightarrow> bytes \<Rightarrow> 'a"
  ca_unmk :: "'a \<Rightarrow> (nat \<times> bytes) option"

definition ser_catch_all :: "rmp \<Rightarrow> tox_context \<Rightarrow> nat \<Rightarrow> bytes \<Rightarrow> written" where
  "ser_catch_all r ctx disc data =
     (if data = [] then cd_ser (u8_codec r) ctx (of_nat disc)
      else w_seq (w_ok (rp_write_array_len r 2)) (w_seq (cd_ser (u8_codec r) ctx (of_nat disc)) (w_ok data)))"

definition ser_arm :: "rmp \<Rightarrow> tox_context \<Rightarrow> 'a arm \<Rightarrow> written \<Rightarrow> written" where
  "ser_arm r ctx a payload =
     (if am_unit a then cd_ser (u8_codec r) ctx (of_nat (am_idx a))
      else w_seq (w_ok (rp_write_array_len r 2))
             (w_seq (cd_ser (u8_codec r) ctx (of_nat (am_idx a))) payload))"

text \<open>The \<^verbatim>\<open>match\<close> over the variants of the value; a value of no variant does not exist.\<close>

fun ser_arms :: "rmp \<Rightarrow> 'a catch_all option \<Rightarrow> tox_context \<Rightarrow> 'a arm list \<Rightarrow> 'a \<Rightarrow> written" where
  "ser_arms r ca ctx [] v =
     (case ca of
        None \<Rightarrow> None
      | Some c \<Rightarrow> (case ca_unmk c v of None \<Rightarrow> None | Some (disc, data) \<Rightarrow> ser_catch_all r ctx disc data))"
| "ser_arms r ca ctx (a # arms) v =
     (case am_ser a ctx v of None \<Rightarrow> ser_arms r ca ctx arms v | Some payload \<Rightarrow> ser_arm r ctx a payload)"

text \<open>\<^verbatim>\<open>for _ in 1..len { data.extend(capture_value(reader)?) }\<close>.\<close>

fun capture_values :: "rmp \<Rightarrow> nat \<Rightarrow> bytes reader" where
  "capture_values r 0 = r_ok []"
| "capture_values r (Suc n) =
     r_bind (capture_value r) (\<lambda>d. r_bind (capture_values r n) (\<lambda>ds. r_ok (d @ ds)))"

fun de_arms :: "rmp \<Rightarrow> 'a catch_all option \<Rightarrow> tox_context \<Rightarrow> 'a arm list \<Rightarrow> nat \<Rightarrow> nat \<Rightarrow> 'a reader" where
  "de_arms r ca ctx [] idx len =
     (case ca of
        None \<Rightarrow> r_err Deserialize
      | Some c \<Rightarrow> r_bind (capture_values r (len - 1)) (\<lambda>data. r_ok (ca_mk c idx data)))"
| "de_arms r ca ctx (a # arms) idx len =
     (if am_idx a = idx
      then if len \<noteq> (if am_unit a then 1 else 2) then r_err Deserialize else am_de a ctx
      else de_arms r ca ctx arms idx len)"

definition enum_codec :: "rmp \<Rightarrow> 'a arm list \<Rightarrow> 'a catch_all option \<Rightarrow> 'a codec" where
  "enum_codec r arms ca =
     \<lparr>cd_size = None, cd_byte_like = False, cd_flat_len = default_flat_len None,
      cd_ser = (\<lambda>ctx v. ser_arms r ca ctx arms v),
      cd_ser_flat = no_ser_flat,
      cd_de = (\<lambda>ctx. r_bind (read_enum_header r ctx) (\<lambda>(idx, len). de_arms r ca ctx arms idx len)),
      cd_de_flat = no_de_flat, cd_mem = no_mem, cd_of_mem = no_of_mem\<rparr>"

end
