(* ===== verification/Tox_Proto_Laws.thy ===== *)
theory Tox_Proto_Laws
  imports Tox_Proto
begin

text \<open>
  What every codec promises, and that each implementation keeps the promise when the codecs of its
  components do. \<open>codec_ok r c P\<close>: a value that satisfies \<open>P\<close> (the values the type has, of a size the
  format can express) is written without an error, as exactly one MessagePack value, and read back
  from the front of any input. The locale \<open>tox_codec\<close> draws the consequences once.
\<close>

section \<open>Values that can be skipped\<close>

definition one_value :: "rmp \<Rightarrow> bytes \<Rightarrow> bool" where
  "one_value r bs \<longleftrightarrow> (\<forall>rest. skip_value r (bs @ rest) = Some (Inr (), rest))"

definition n_values :: "rmp \<Rightarrow> nat \<Rightarrow> bytes \<Rightarrow> bool" where
  "n_values r n bs \<longleftrightarrow> (\<forall>rest. skip_values r n (bs @ rest) = Some (Inr (), rest))"

named_theorems values_intros \<open>byte strings that are a number of MessagePack values\<close>

lemma values_Nil [values_intros, simp]: "n_values r 0 []"
  by (simp add: n_values_def)

lemma values_Cons [values_intros]: "one_value r x \<Longrightarrow> n_values r n y \<Longrightarrow> n_values r (Suc n) (x @ y)"
  by (simp add: n_values_def one_value_def skip_values.simps)

lemma values_append: "n_values r m x \<Longrightarrow> n_values r n y \<Longrightarrow> n_values r (m + n) (x @ y)"
proof -
  assume x: "n_values r m x" and y: "n_values r n y"
  have "skip_values r (m + n) bs = Some (Inr (), rest)"
    if "skip_values r m bs = Some (Inr (), mid)" "skip_values r n mid = Some (Inr (), rest)" for bs mid rest
    using that
  proof (induction m arbitrary: bs)
    case (Suc m)
    then show ?case by (auto simp: skip_values.simps split: option.splits prod.splits sum.splits)
  qed simp
  with x y show ?thesis unfolding n_values_def by (metis append_assoc)
qed

lemma values_single: "one_value r x \<Longrightarrow> n_values r 1 x"
  using values_Cons [of r x 0 "[]"] by simp

lemma one_value_nonempty: "one_value r x \<Longrightarrow> x \<noteq> []"
proof
  assume "one_value r x" "x = []"
  then have "skip_value r [] = Some (Inr (), [])" by (metis append_Nil one_value_def)
  then show False by (simp add: skip_value.simps read_item_def read_marker_def r_bind_def)
qed

lemma skip_value_item: "read_item r bs = Some (Inr n, rest) \<Longrightarrow> skip_value r bs = skip_values r n rest"
  by (simp add: skip_value.simps)

lemma read_item_Cons: "read_item r (b # bs) = after_marker (rp_marker r b) bs"
  by (simp add: read_item_def r_bind_def read_marker_def)

lemma read_be_append [reading]: "n < 256 ^ k \<Longrightarrow> read_be k (be_bytes k n @ rest) = Some (Inr n, rest)"
  by (simp add: read_be_def r_bind_def read_exact_def r_ok_def)

lemma skip_bytes_append [reading]: "length xs = n \<Longrightarrow> skip_bytes n (xs @ rest) = Some (Inr 0, rest)"
  by (simp add: skip_bytes_def r_bind_def read_exact_def r_ok_def)

lemma scalar_one_value [values_intros]:
  assumes "scalar_format r bs"
  shows "one_value r bs"
proof -
  obtain b t where bs: "bs = b # t" "scalar_len (rp_marker r b) = Some (length t)"
    using assms by (auto simp: scalar_format_def)
  have "after_marker (rp_marker r b) (t @ rest) = Some (Inr 0, rest)" for rest
    using bs(2) by (cases "rp_marker r b") (auto simp: reading)
  then show ?thesis
    by (simp add: one_value_def bs(1) skip_value_item read_item_Cons)
qed

lemma array_one_value [values_intros]:
  assumes "len_format r FixArray 16 None Array16 Array32 n h" "n_values r n bs"
  shows "one_value r (h @ bs)"
proof -
  have "read_item r (h @ rest) = Some (Inr n, rest)" for rest
    using assms(1) unfolding len_format_def
    by (auto simp: read_item_Cons reading simp del: be_bytes.simps)
  then have "skip_value r (h @ bs @ rest) = skip_values r n (bs @ rest)" for rest
    by (simp add: skip_value_item)
  with assms(2) show ?thesis by (simp add: one_value_def n_values_def)
qed

text \<open>Doubling the number of entries of a map overflows for half of the lengths its header can have.\<close>

definition doubling_overflows :: "nat \<Rightarrow> bool" where
  "doubling_overflows n \<longleftrightarrow> 2 ^ 15 \<le> n \<and> n < 2 ^ 16 \<or> 2 ^ 31 \<le> n"

lemma read_map_header:
  assumes "n < 2 ^ 32"
  shows "read_item msgpack (rp_write_map_len msgpack n @ rest) = (if doubling_overflows n then None else Some (Inr (n * 2), rest))"
proof -
  consider "n < 16" | "16 \<le> n" "n < 2 ^ 16" | "2 ^ 16 \<le> n" by linarith
  then show ?thesis
  proof cases
    case 1
    then have "mp_marker (0x80 + of_nat n) = FixMap n" using mp.map_len_format [of n] by (auto simp: len_format_def mp_len_def)
    with 1 show ?thesis by (simp add: mp_len_def read_item_Cons twice_def doubling_overflows_def)
  next
    case 2
    have "mp_marker 0xde = Map16" by (simp add: mp_marker_def)
    with 2 show ?thesis
      by (simp add: mp_len_def read_item_Cons r_bind_def read_be_append twice_def doubling_overflows_def del: be_bytes.simps)
  next
    case 3
    have "mp_marker 0xdf = Map32" by (simp add: mp_marker_def)
    with 3 assms show ?thesis
      by (simp add: mp_len_def read_item_Cons r_bind_def read_be_append twice_def doubling_overflows_def del: be_bytes.simps)
  qed
qed

lemma skip_long_map_panics:
  assumes "n < 2 ^ 32" "doubling_overflows n"
  shows "skip_value msgpack (rp_write_map_len msgpack n @ rest) = None"
  using read_map_header [OF assms(1), of rest] assms(2) by (simp add: skip_value.simps r_bind_def)

lemma map_one_value [values_intros]:
  assumes "len_format r FixMap 16 None Map16 Map32 n h" "n_values r (n * 2) bs" "n < 2 ^ 15"
  shows "one_value r (h @ bs)"
proof -
  have "read_item r (h @ rest) = Some (Inr (n * 2), rest)" for rest
    using assms(1,3) unfolding len_format_def
    by (auto simp: read_item_Cons twice_def reading simp del: be_bytes.simps)
  then have "skip_value r (h @ bs @ rest) = skip_values r (n * 2) (bs @ rest)" for rest
    by (simp add: skip_value_item)
  with assms(2) show ?thesis by (simp add: one_value_def n_values_def)
qed

lemma str_one_value [values_intros]:
  assumes "len_format r FixStr 32 (Some Str8) Str16 Str32 (length bs) h"
  shows "one_value r (h @ bs)"
proof -
  have "read_item r (h @ bs @ rest) = Some (Inr 0, rest)" for rest
    using assms unfolding len_format_def
    by (auto simp: read_item_Cons reading simp del: be_bytes.simps)
  then show ?thesis by (simp add: one_value_def skip_value_item)
qed

lemma bin_one_value [values_intros]:
  assumes "bin_format r (length bs) h"
  shows "one_value r (h @ bs)"
proof -
  have "read_item r (h @ bs @ rest) = Some (Inr 0, rest)" for rest
    using assms unfolding bin_format_def
    by (auto simp: read_item_Cons reading simp del: be_bytes.simps)
  then show ?thesis by (simp add: one_value_def skip_value_item)
qed

section \<open>The contract of a codec\<close>

definition codec_ok :: "rmp \<Rightarrow> 'a codec \<Rightarrow> ('a \<Rightarrow> bool) \<Rightarrow> bool" where
  "codec_ok r c P \<longleftrightarrow>
     (\<forall>ctx v. P v \<longrightarrow>
        (\<exists>bs. cd_ser c ctx v = Some (Inr bs) \<and> one_value r bs
              \<and> (\<forall>rest. cd_de c ctx (bs @ rest) = Some (Inr v, rest))))
     \<and> (cd_size c = Some 1 \<longrightarrow> (\<forall>v. P v \<longrightarrow> cd_of_mem c (cd_mem c v) = Some v))"

lemma codec_okE:
  assumes "codec_ok r c P" "P v"
  obtains bs where "cd_ser c ctx v = Some (Inr bs)" "one_value r bs"
    "\<And>rest. cd_de c ctx (bs @ rest) = Some (Inr v, rest)"
  using assms unfolding codec_ok_def by meson

lemma codec_okI:
  assumes "\<And>ctx v. P v \<Longrightarrow> \<exists>bs. cd_ser c ctx v = Some (Inr bs) \<and> one_value r bs
      \<and> (\<forall>rest. cd_de c ctx (bs @ rest) = Some (Inr v, rest))"
    and "\<And>v. cd_size c = Some 1 \<Longrightarrow> P v \<Longrightarrow> cd_of_mem c (cd_mem c v) = Some v"
  shows "codec_ok r c P"
  using assms by (auto simp: codec_ok_def)

lemma codec_ok_mem: "codec_ok r c P \<Longrightarrow> cd_size c = Some 1 \<Longrightarrow> P v \<Longrightarrow> cd_of_mem c (cd_mem c v) = Some v"
  by (simp add: codec_ok_def)

lemma codec_ok_mono: "codec_ok r c P \<Longrightarrow> (\<And>v. Q v \<Longrightarrow> P v) \<Longrightarrow> codec_ok r c Q"
  unfolding codec_ok_def by meson

text \<open>A row of fields is as many values as it counts.\<close>

definition fields_ok :: "rmp \<Rightarrow> 'a fields \<Rightarrow> ('a \<Rightarrow> bool) \<Rightarrow> bool" where
  "fields_ok r fs P \<longleftrightarrow>
     (\<forall>ctx v. P v \<longrightarrow>
        (\<exists>bs. fl_ser fs ctx v = Some (Inr bs) \<and> n_values r (fl_count fs) bs
              \<and> (\<forall>rest. fl_de fs ctx (bs @ rest) = Some (Inr v, rest))))"

lemma fields_okE:
  assumes "fields_ok r fs P" "P v"
  obtains bs where "fl_ser fs ctx v = Some (Inr bs)" "n_values r (fl_count fs) bs"
    "\<And>rest. fl_de fs ctx (bs @ rest) = Some (Inr v, rest)"
  using assms unfolding fields_ok_def by meson

lemma fields_ok_mono: "fields_ok r fs P \<Longrightarrow> (\<And>v. Q v \<Longrightarrow> P v) \<Longrightarrow> fields_ok r fs Q"
  unfolding fields_ok_def by blast

named_theorems codecs \<open>codecs that keep the contract\<close>

lemma fl_count_simps [simp]: "fl_count (field c fs) = Suc (fl_count fs)" "fl_count no_fields = 0"
  "fl_count (skipped_field d fs) = fl_count fs"
  by (simp_all add: field_def no_fields_def skipped_field_def)

lemma no_fields_ok [codecs]: "fields_ok r no_fields (\<lambda>_. True)"
  by (simp add: fields_ok_def no_fields_def reading)

lemma field_ok [codecs]:
  assumes "codec_ok r c P" "fields_ok r fs Q"
  shows "fields_ok r (field c fs) (\<lambda>(v, vs). P v \<and> Q vs)"
proof (unfold fields_ok_def, clarify)
  fix ctx v vs
  assume "P v" "Q vs"
  obtain x where x: "cd_ser c ctx v = Some (Inr x)" "one_value r x" "\<And>rest. cd_de c ctx (x @ rest) = Some (Inr v, rest)"
    using codec_okE [OF assms(1) \<open>P v\<close>] by blast
  obtain y where y: "fl_ser fs ctx vs = Some (Inr y)" "n_values r (fl_count fs) y"
      "\<And>rest. fl_de fs ctx (y @ rest) = Some (Inr vs, rest)"
    using fields_okE [OF assms(2) \<open>Q vs\<close>] by blast
  show "\<exists>bs. fl_ser (field c fs) ctx (v, vs) = Some (Inr bs) \<and> n_values r (fl_count (field c fs)) bs
      \<and> (\<forall>rest. fl_de (field c fs) ctx (bs @ rest) = Some (Inr (v, vs), rest))"
    using x y by (auto simp: field_def reading intro: values_Cons)
qed

lemma skipped_field_ok [codecs]:
  assumes "fields_ok r fs Q"
  shows "fields_ok r (skipped_field d fs) (\<lambda>(v, vs). v = d \<and> Q vs)"
  using assms unfolding fields_ok_def
  by (force simp: skipped_field_def reading r_bind_def r_ok_def)

section \<open>Numbers, strings and flags\<close>

lemma bytes_string_inverse [simp]: "bytes_string (string_bytes s) = s"
proof -
  have "char_of (unat (of_char c :: u8)) = c" for c
  proof -
    have "unat (of_char c :: u8) = (of_char c :: nat)"
      by (cases c) (simp add: of_char_def unat_word_ariths unat_of_nat horner_sum_simps)
    then show ?thesis by simp
  qed
  then show ?thesis by (induction s) (simp_all add: string_bytes_def bytes_string_def)
qed

lemma length_string_bytes [simp]: "length (string_bytes s) = length s"
  by (simp add: string_bytes_def)

definition str_ok :: "string \<Rightarrow> bool" where
  "str_ok s \<longleftrightarrow> utf8_ok (string_bytes s) \<and> length s < 2 ^ 32"

definition uint_ok :: "nat \<Rightarrow> nat \<Rightarrow> bool" where
  "uint_ok k n \<longleftrightarrow> n < 2 ^ (8 * k)"

definition sint_ok :: "nat \<Rightarrow> int \<Rightarrow> bool" where
  "sint_ok k i \<longleftrightarrow> sint_min k \<le> i \<and> i \<le> sint_max k"

lemma sint_ok_mono: "sint_ok k i \<Longrightarrow> k \<le> 8 \<Longrightarrow> sint_min 8 \<le> i \<and> i \<le> sint_max 8"
proof -
  assume i: "sint_ok k i" and k: "k \<le> 8"
  have "(2 :: int) ^ (8 * k - 1) \<le> 2 ^ 63" using k by (intro power_increasing) auto
  then show ?thesis using i by (simp add: sint_ok_def sint_min_def sint_max_def)
qed

context rmp_lib
begin

lemma r_rmp_reads [reading]:
  "n < 2 ^ 32 \<Longrightarrow> r_rmp (rp_read_array_len r) (rp_write_array_len r n @ rest) = Some (Inr n, rest)"
  "n < 2 ^ 32 \<Longrightarrow> r_rmp (rp_read_map_len r) (rp_write_map_len r n @ rest) = Some (Inr n, rest)"
  "n < 2 ^ 32 \<Longrightarrow> r_rmp (rp_read_bin_len r) (rp_write_bin_len r n @ rest) = Some (Inr n, rest)"
  "n < 2 ^ 32 \<Longrightarrow> r_rmp (rp_read_str_len r) (rp_write_str_len r n @ rest) = Some (Inr n, rest)"
  "r_rmp (rp_read_f32 r) (rp_write_f32 r w @ rest) = Some (Inr w, rest)"
  "r_rmp (rp_read_f64 r) (rp_write_f64 r v @ rest) = Some (Inr v, rest)"
  "r_rmp (rp_read_bool r) (rp_write_bool r t @ rest) = Some (Inr t, rest)"
  by (simp_all add: r_rmp_def read_array_len read_map_len read_bin_len read_str_len read_f32 read_f64 read_bool)

lemma read_in_uint [reading]:
  "n < 2 ^ 64 \<Longrightarrow> lo \<le> int n \<Longrightarrow> int n \<le> hi \<Longrightarrow> read_in r lo hi (rp_write_uint r n @ rest) = Some (Inr (int n), rest)"
  by (simp add: read_in_def r_rmp_def read_uint)

lemma read_in_sint [reading]:
  "sint_min 8 \<le> i \<Longrightarrow> i \<le> sint_max 8 \<Longrightarrow> lo \<le> i \<Longrightarrow> i \<le> hi \<Longrightarrow>
   read_in r lo hi (rp_write_sint r i @ rest) = Some (Inr i, rest)"
  by (simp add: read_in_def r_rmp_def read_sint)

lemma uint_codec_ok: "0 < k \<Longrightarrow> k \<le> 8 \<Longrightarrow> codec_ok r (uint_codec r k) (uint_ok k)"
proof (rule codec_okI)
  fix ctx v assume k: "0 < k" "k \<le> 8" and v: "uint_ok k v"
  have "(2 :: nat) ^ (8 * k) \<le> 2 ^ 64" using k by (intro power_increasing) auto
  with v have v64: "v < 2 ^ 64" by (simp add: uint_ok_def)
  moreover have "int v \<le> 2 ^ (8 * k) - 1"
    using v unfolding uint_ok_def by (metis of_nat_less_iff of_nat_numeral of_nat_power zle_diff1_eq)
  ultimately show "\<exists>bs. cd_ser (uint_codec r k) ctx v = Some (Inr bs) \<and> one_value r bs
      \<and> (\<forall>rest. cd_de (uint_codec r k) ctx (bs @ rest) = Some (Inr v, rest))"
    using uint_format by (auto simp: uint_codec_def reading intro!: values_intros)
next
  fix v assume "cd_size (uint_codec r k) = Some 1" "uint_ok k v"
  then show "cd_of_mem (uint_codec r k) (cd_mem (uint_codec r k) v) = Some v"
    by (simp add: uint_codec_def uint_ok_def unat_of_nat)
qed

lemma sint_codec_ok: "0 < k \<Longrightarrow> k \<le> 8 \<Longrightarrow> codec_ok r (sint_codec r k) (sint_ok k)"
proof (rule codec_okI)
  fix ctx v assume k: "0 < k" "k \<le> 8" and v: "sint_ok k v"
  from sint_ok_mono [OF v k(2)] show "\<exists>bs. cd_ser (sint_codec r k) ctx v = Some (Inr bs) \<and> one_value r bs
      \<and> (\<forall>rest. cd_de (sint_codec r k) ctx (bs @ rest) = Some (Inr v, rest))"
    using v sint_format by (auto simp: sint_codec_def sint_ok_def reading intro!: values_intros)
next
  fix v assume "cd_size (sint_codec r k) = Some 1" and v: "sint_ok k v"
  then have k: "k = 1" by (simp add: sint_codec_def)
  have "unat (of_int v :: u8) = of_signed 1 v"
    by (simp add: of_signed_def unat_eq_nat_uint uint_word_of_int)
  with v k show "cd_of_mem (sint_codec r k) (cd_mem (sint_codec r k) v) = Some v"
    using to_signed_of_signed [of 1 v] by (simp add: sint_codec_def sint_ok_def)
qed

lemma u8_codec_ok [codecs]: "codec_ok r (u8_codec r) (\<lambda>_. True)"
proof (rule codec_okI)
  fix ctx and v :: u8
  have "unat v < 256" "uint v \<le> 255"
    using unsigned_less [of v, where ?'a = nat] uint_lt2p [of v] by simp_all
  then show "\<exists>bs. cd_ser (u8_codec r) ctx v = Some (Inr bs) \<and> one_value r bs
      \<and> (\<forall>rest. cd_de (u8_codec r) ctx (bs @ rest) = Some (Inr v, rest))"
    using uint_format [of "unat v"] read_in_uint [of "unat v" 0 255]
    by (auto simp: u8_codec_def r_bind_def r_ok_def w_ok_def intro!: values_intros)
qed (simp add: u8_codec_def)

lemma float_codecs_ok [codecs]: "codec_ok r (f32_codec r) (\<lambda>_. True)" "codec_ok r (f64_codec r) (\<lambda>_. True)"
  using f32_format f64_format
  by (auto simp: codec_ok_def f32_codec_def f64_codec_def reading intro!: values_intros)

lemma bool_codec_ok [codecs]: "codec_ok r (bool_codec r) (\<lambda>_. True)"
  using bool_format by (auto simp: codec_ok_def bool_codec_def reading intro!: values_intros)

lemma char_codec_ok [codecs]: "codec_ok r (char_codec r) is_scalar"
proof (rule codec_okI)
  fix ctx v assume v: "is_scalar v"
  then have "v < 2 ^ 32" by (auto simp: is_scalar_def)
  with v show "\<exists>bs. cd_ser (char_codec r) ctx v = Some (Inr bs) \<and> one_value r bs
      \<and> (\<forall>rest. cd_de (char_codec r) ctx (bs @ rest) = Some (Inr v, rest))"
    using uint_format [of v] read_in_uint [of v 0 "2 ^ 32 - 1"]
    by (auto simp: char_codec_def from_u32_def r_bind_def r_ok_def w_ok_def intro!: values_intros)
qed (simp add: char_codec_def)

lemma write_bin_one_value: "length bs < 2 ^ 32 \<Longrightarrow> one_value r (rp_write_bin_len r (length bs) @ bs)"
  by (intro values_intros bin_len_format)

lemma read_bin_of_written [reading]:
  "length bs = n \<Longrightarrow> n < 2 ^ 32 \<Longrightarrow> read_bin_of r n (rp_write_bin_len r n @ bs @ rest) = Some (Inr bs, rest)"
  by (simp add: read_bin_of_def reading)

lemma wide_codecs_ok [codecs]:
  "codec_ok r (u128_codec r) (uint_ok 16)" "codec_ok r (i128_codec r) (sint_ok 16)"
proof -
  have w: "one_value r (rp_write_bin_len r 16 @ le_bytes 16 n)" for n
    using write_bin_one_value [of "le_bytes 16 n"] by simp
  have *: "read_bin_of r 16 (rp_write_bin_len r 16 @ le_bytes 16 n @ rest) = Some (Inr (le_bytes 16 n), rest)" for n rest
    by (rule read_bin_of_written) auto
  have s: "to_signed 16 (of_signed 16 v) = v" if "sint_ok 16 v" for v
    using that to_signed_of_signed [of 16 v] by (simp add: sint_ok_def)
  show "codec_ok r (u128_codec r) (uint_ok 16)"
    using w * by (auto simp: codec_ok_def u128_codec_def write_bin_def uint_ok_def reading)
  show "codec_ok r (i128_codec r) (sint_ok 16)"
    using w * s of_signed_less [of 16]
    by (auto simp: codec_ok_def i128_codec_def write_bin_def reading simp del: of_le_le_bytes simp add: of_le_le_bytes [OF of_signed_less])
qed

lemma string_codec_ok [codecs]: "codec_ok r (string_codec r) str_ok"
proof (rule codec_okI)
  fix ctx v assume v: "str_ok v"
  then have "r_rmp (rp_read_str_len r) (rp_write_str_len r (length v) @ string_bytes v @ rest)
      = Some (Inr (length v), string_bytes v @ rest)" for rest
    by (simp add: str_ok_def reading)
  with v show "\<exists>bs. cd_ser (string_codec r) ctx v = Some (Inr bs) \<and> one_value r bs
      \<and> (\<forall>rest. cd_de (string_codec r) ctx (bs @ rest) = Some (Inr v, rest))"
    using str_one_value [of r "string_bytes v"] str_len_format [of "length v"]
    by (auto simp: string_codec_def str_ok_def write_str_def from_utf8_def reading)
qed (simp add: string_codec_def)

end

section \<open>Compound values\<close>

definition list_ok :: "('a \<Rightarrow> bool) \<Rightarrow> 'a list \<Rightarrow> bool" where
  "list_ok P xs \<longleftrightarrow> length xs < 2 ^ 32 \<and> list_all P xs"

definition array_ok :: "nat \<Rightarrow> ('a \<Rightarrow> bool) \<Rightarrow> 'a list \<Rightarrow> bool" where
  "array_ok n P xs \<longleftrightarrow> length xs = n \<and> list_all P xs"

text \<open>Inserting the entries of a map one by one, in its own order, gives the map again.\<close>

definition rebuilds :: "('k \<Rightarrow> 'v \<Rightarrow> ('k \<times> 'v) list \<Rightarrow> ('k \<times> 'v) list) \<Rightarrow> ('k \<times> 'v) list \<Rightarrow> bool" where
  "rebuilds ins m \<longleftrightarrow> foldl (\<lambda>acc (k, v). ins k v acc) [] m = m"

definition map_ok :: "('k \<Rightarrow> bool) \<Rightarrow> ('v \<Rightarrow> bool) \<Rightarrow> ('k \<times> 'v) list \<Rightarrow> bool" where
  "map_ok P Q m \<longleftrightarrow> length m < 2 ^ 15 \<and> list_all (\<lambda>(k, v). P k \<and> Q v) m"

lemma rebuilds_hash: "distinct (map fst m) \<Longrightarrow> rebuilds hash_insert m"
  unfolding rebuilds_def
  by (induction m rule: rev_induct) (auto simp: hash_insert_def)

lemma rebuilds_btree: "sorted_wrt (<) (map fst m) \<Longrightarrow> rebuilds btree_insert m"
  unfolding rebuilds_def
proof (induction m rule: rev_induct)
  case (snoc e m)
  then have "\<forall>x \<in> set m. fst x < fst e" by (auto simp: sorted_wrt_append)
  then have "takeWhile (\<lambda>x. fst x < fst e) m = m" "dropWhile (\<lambda>x. fst x \<le> fst e) m = []"
    by (simp_all add: order_less_imp_le)
  with snoc show ?case by (cases e) (simp add: btree_insert_def sorted_wrt_append)
qed simp

lemma w_all_Cons [reading]: "w_all w (x # xs) = w_seq (w x) (w_all w xs)"
  by (simp add: w_all_def)

lemma w_all_Nil [reading]: "w_all w [] = Some (Inr [])"
  by (simp add: w_all_def w_ok_def)

lemma items_written:
  assumes c: "codec_ok r c P" and xs: "list_all P xs"
  obtains bs where "w_all (cd_ser c ctx) xs = Some (Inr bs)" "n_values r (length xs) bs"
    "\<And>rest. r_repeat (length xs) (cd_de c ctx) (bs @ rest) = Some (Inr xs, rest)"
proof -
  from xs have "\<exists>bs. w_all (cd_ser c ctx) xs = Some (Inr bs) \<and> n_values r (length xs) bs
      \<and> (\<forall>rest. r_repeat (length xs) (cd_de c ctx) (bs @ rest) = Some (Inr xs, rest))"
  proof (induction xs)
    case (Cons x xs)
    obtain b where b: "cd_ser c ctx x = Some (Inr b)" "one_value r b" "\<And>rest. cd_de c ctx (b @ rest) = Some (Inr x, rest)"
      using codec_okE [OF c, of x] Cons.prems by auto
    from Cons obtain bs where "w_all (cd_ser c ctx) xs = Some (Inr bs)" "n_values r (length xs) bs"
      "\<forall>rest. r_repeat (length xs) (cd_de c ctx) (bs @ rest) = Some (Inr xs, rest)" by auto
    with b show ?case by (auto simp: reading intro: values_Cons)
  qed (simp add: reading)
  with that show thesis by blast
qed

lemma those_from_memory [reading]:
  assumes "codec_ok r c P" "cd_size c = Some 1" "list_all P xs"
  shows "from_memory c (map (cd_mem c) xs) bs = Some (Inr xs, bs)"
proof -
  have "those (map (cd_of_mem c \<circ> cd_mem c) xs) = Some xs"
    using assms(3) by (induction xs) (auto simp: codec_ok_mem [OF assms(1,2)])
  then show ?thesis by (simp add: from_memory_def)
qed

context rmp_lib
begin

lemma bin_items:
  assumes "codec_ok r c P" "cd_size c = Some 1" "list_ok P xs"
  shows "one_value r (rp_write_bin_len r (length xs) @ map (cd_mem c) xs)"
    and "r_bind (r_rmp (rp_read_bin_len r)) (\<lambda>len. r_bind (read_exact len) (from_memory c))
          (rp_write_bin_len r (length xs) @ map (cd_mem c) xs @ rest) = Some (Inr xs, rest)"
    and "r_bind (read_bin_of r (length xs)) (from_memory c)
          (rp_write_bin_len r (length xs) @ map (cd_mem c) xs @ rest) = Some (Inr xs, rest)"
proof -
  note xs = assms(3) [unfolded list_ok_def]
  show "one_value r (rp_write_bin_len r (length xs) @ map (cd_mem c) xs)"
    using write_bin_one_value [of "map (cd_mem c) xs"] xs by simp
  have "r_rmp (rp_read_bin_len r) (rp_write_bin_len r (length xs) @ map (cd_mem c) xs @ rest)
      = Some (Inr (length xs), map (cd_mem c) xs @ rest)" using xs by (intro r_rmp_reads) simp
  then show "r_bind (r_rmp (rp_read_bin_len r)) (\<lambda>len. r_bind (read_exact len) (from_memory c))
          (rp_write_bin_len r (length xs) @ map (cd_mem c) xs @ rest) = Some (Inr xs, rest)"
    using xs those_from_memory [OF assms(1,2)] by (simp add: reading)
  have "read_bin_of r (length xs) (rp_write_bin_len r (length xs) @ map (cd_mem c) xs @ rest) = Some (Inr (map (cd_mem c) xs), rest)"
    using xs by (intro read_bin_of_written) simp_all
  then show "r_bind (read_bin_of r (length xs)) (from_memory c)
          (rp_write_bin_len r (length xs) @ map (cd_mem c) xs @ rest) = Some (Inr xs, rest)"
    using xs those_from_memory [OF assms(1,2)] by (simp add: reading)
qed

lemma array_items:
  assumes "codec_ok r c P" "list_ok P xs"
  obtains bs where "ser_items r c ctx xs = Some (Inr (rp_write_array_len r (length xs) @ bs))"
    "one_value r (rp_write_array_len r (length xs) @ bs)"
    "\<And>rest. r_rmp (rp_read_array_len r) (rp_write_array_len r (length xs) @ bs @ rest) = Some (Inr (length xs), bs @ rest)"
    "\<And>rest. r_repeat (length xs) (cd_de c ctx) (bs @ rest) = Some (Inr xs, rest)"
proof -
  note xs = assms(2) [unfolded list_ok_def]
  obtain bs where bs: "w_all (cd_ser c ctx) xs = Some (Inr bs)" "n_values r (length xs) bs"
    "\<And>rest. r_repeat (length xs) (cd_de c ctx) (bs @ rest) = Some (Inr xs, rest)"
    using items_written [OF assms(1)] xs by metis
  have len: "length xs < 2 ^ 32" using xs by simp
  show thesis
  proof (rule that)
    show "ser_items r c ctx xs = Some (Inr (rp_write_array_len r (length xs) @ bs))"
      using bs(1) len by (simp add: ser_items_def reading)
    show "one_value r (rp_write_array_len r (length xs) @ bs)"
      by (rule array_one_value [OF array_len_format [OF len] bs(2)])
  qed (use bs len in \<open>auto intro: r_rmp_reads\<close>)
qed

lemma vec_codec_ok [codecs]:
  assumes c: "codec_ok r c P"
  shows "codec_ok r (vec_codec r c) (list_ok P)"
proof (rule codec_okI)
  fix ctx xs assume xs: "list_ok P xs"
  show "\<exists>bs. cd_ser (vec_codec r c) ctx xs = Some (Inr bs) \<and> one_value r bs
      \<and> (\<forall>rest. cd_de (vec_codec r c) ctx (bs @ rest) = Some (Inr xs, rest))"
  proof (cases "cd_size c = Some 1")
    case True
    then show ?thesis
      using bin_items [OF c True xs] xs by (auto simp: vec_codec_def write_bin_def reading list_ok_def)
  next
    case False
    obtain bs where "ser_items r c ctx xs = Some (Inr (rp_write_array_len r (length xs) @ bs))"
      "one_value r (rp_write_array_len r (length xs) @ bs)"
      "\<And>rest. r_rmp (rp_read_array_len r) (rp_write_array_len r (length xs) @ bs @ rest) = Some (Inr (length xs), bs @ rest)"
      "\<And>rest. r_repeat (length xs) (cd_de c ctx) (bs @ rest) = Some (Inr xs, rest)"
      using array_items [OF c xs] by blast
    with False show ?thesis by (auto simp: vec_codec_def de_items_def reading)
  qed
qed (simp add: vec_codec_def)

lemma seq_codec_ok [codecs]:
  assumes c: "codec_ok r c P"
  shows "codec_ok r (seq_codec r c) (list_ok P)"
proof (rule codec_okI)
  fix ctx xs assume xs: "list_ok P xs"
  obtain bs where "ser_items r c ctx xs = Some (Inr (rp_write_array_len r (length xs) @ bs))"
    "one_value r (rp_write_array_len r (length xs) @ bs)"
    "\<And>rest. r_rmp (rp_read_array_len r) (rp_write_array_len r (length xs) @ bs @ rest) = Some (Inr (length xs), bs @ rest)"
    "\<And>rest. r_repeat (length xs) (cd_de c ctx) (bs @ rest) = Some (Inr xs, rest)"
    using array_items [OF c xs] by blast
  then show "\<exists>bs. cd_ser (seq_codec r c) ctx xs = Some (Inr bs) \<and> one_value r bs
      \<and> (\<forall>rest. cd_de (seq_codec r c) ctx (bs @ rest) = Some (Inr xs, rest))"
    by (auto simp: seq_codec_def de_items_def reading)
qed (simp add: seq_codec_def)

lemma array_codec_ok:
  assumes c: "codec_ok r c P" and n: "n < 2 ^ 32"
  shows "codec_ok r (array_codec r n c) (array_ok n P)"
proof (rule codec_okI)
  fix ctx xs assume "array_ok n P xs"
  then have xs: "list_ok P xs" "length xs = n" using n by (auto simp: array_ok_def list_ok_def)
  show "\<exists>bs. cd_ser (array_codec r n c) ctx xs = Some (Inr bs) \<and> one_value r bs
      \<and> (\<forall>rest. cd_de (array_codec r n c) ctx (bs @ rest) = Some (Inr xs, rest))"
  proof (cases "cd_size c = Some 1")
    case True
    then show ?thesis
      using bin_items [OF c True xs(1)] xs n by (auto simp: array_codec_def write_bin_def reading list_ok_def)
  next
    case False
    obtain bs where "ser_items r c ctx xs = Some (Inr (rp_write_array_len r (length xs) @ bs))"
      "one_value r (rp_write_array_len r (length xs) @ bs)"
      "\<And>rest. r_rmp (rp_read_array_len r) (rp_write_array_len r (length xs) @ bs @ rest) = Some (Inr (length xs), bs @ rest)"
      "\<And>rest. r_repeat (length xs) (cd_de c ctx) (bs @ rest) = Some (Inr xs, rest)"
      using array_items [OF c xs(1)] by blast
    with False xs show ?thesis by (auto simp: array_codec_def reading)
  qed
next
  fix xs assume a: "cd_size (array_codec r n c) = Some 1" "array_ok n P xs"
  then have "cd_size c = Some 1" "n = 1" by (auto simp: array_codec_def)
  with a(2) show "cd_of_mem (array_codec r n c) (cd_mem (array_codec r n c) xs) = Some xs"
    using codec_ok_mem [OF c] by (cases xs) (auto simp: array_codec_def array_ok_def)
qed

text \<open>A string of bytes: \<^verbatim>\<open>Vec<u8>\<close> and \<^verbatim>\<open>[u8; N]\<close>.\<close>

lemma bytes_codec_ok: "codec_ok r (vec_codec r (u8_codec r)) (\<lambda>bs. length bs < 2 ^ 32)"
  by (rule codec_ok_mono [OF vec_codec_ok [OF u8_codec_ok]]) (simp add: list_ok_def list_all_iff)

lemma byte_vec_codec_ok [codecs]: "codec_ok r (byte_vec_codec r) (\<lambda>bs. length bs < 2 ^ 32)"
  unfolding byte_vec_codec_def by (rule bytes_codec_ok)

lemma byte_array_codec_ok: "n < 2 ^ 32 \<Longrightarrow> codec_ok r (array_codec r n (u8_codec r)) (\<lambda>bs. length bs = n)"
  by (rule codec_ok_mono [OF array_codec_ok [OF u8_codec_ok]]) (simp_all add: array_ok_def list_all_iff)

lemma option_codec_ok [codecs]:
  assumes c: "codec_ok r c P"
  shows "codec_ok r (option_codec r c) (pred_option P)"
proof (rule codec_okI)
  fix ctx v assume v: "pred_option P v"
  have h: "r_rmp (rp_read_array_len r) (rp_write_array_len r n @ rest) = Some (Inr n, rest)" if "n < 2" for n rest
    using that by (intro r_rmp_reads) simp
  show "\<exists>bs. cd_ser (option_codec r c) ctx v = Some (Inr bs) \<and> one_value r bs
      \<and> (\<forall>rest. cd_de (option_codec r c) ctx (bs @ rest) = Some (Inr v, rest))"
  proof (cases v)
    case None
    have "one_value r (rp_write_array_len r 0 @ [])" by (rule array_one_value [OF array_len_format values_Nil]) simp
    with None h [of 0] show ?thesis by (auto simp: option_codec_def reading)
  next
    case (Some x)
    then obtain bs where bs: "cd_ser c ctx x = Some (Inr bs)" "one_value r bs" "\<And>rest. cd_de c ctx (bs @ rest) = Some (Inr x, rest)"
      using codec_okE [OF c, of x ctx] v by auto
    have "one_value r (rp_write_array_len r 1 @ bs)" by (rule array_one_value [OF array_len_format values_single [OF bs(2)]]) simp
    with Some bs h [of 1] show ?thesis by (auto simp: option_codec_def reading)
  qed
qed (simp add: option_codec_def)

lemma result_codec_ok [codecs]:
  assumes c: "codec_ok r c P" and e: "codec_ok r e Q"
  shows "codec_ok r (result_codec r c e) (pred_sum Q P)"
proof (rule codec_okI)
  fix ctx v assume v: "pred_sum Q P v"
  have h: "r_rmp (rp_read_array_len r) (rp_write_array_len r 2 @ rest) = Some (Inr 2, rest)" for rest
    by (intro r_rmp_reads) simp
  obtain t where t: "\<And>n. cd_ser (u8_codec r) ctx n = Some (Inr (t n))" "\<And>n. one_value r (t n)"
      "\<And>n rest. cd_de (u8_codec r) ctx (t n @ rest) = Some (Inr n, rest)"
    using u8_codec_ok unfolding codec_ok_def by metis
  have w: "one_value r (rp_write_array_len r 2 @ t n @ bs)" if "one_value r bs" for n bs
  proof (rule array_one_value)
    show "n_values r 2 (t n @ bs)" using values_Cons [OF t(2) values_single [OF that]] by (simp add: numeral_2_eq_2)
  qed (rule array_len_format, simp)
  show "\<exists>bs. cd_ser (result_codec r c e) ctx v = Some (Inr bs) \<and> one_value r bs
      \<and> (\<forall>rest. cd_de (result_codec r c e) ctx (bs @ rest) = Some (Inr v, rest))"
  proof (cases v)
    case (Inl y)
    then obtain bs where "cd_ser e ctx y = Some (Inr bs)" "one_value r bs" "\<And>rest. cd_de e ctx (bs @ rest) = Some (Inr y, rest)"
      using codec_okE [OF e, of y ctx] v by auto
    with Inl w [of bs 0] h t show ?thesis by (auto simp: result_codec_def reading)
  next
    case (Inr x)
    then obtain bs where "cd_ser c ctx x = Some (Inr bs)" "one_value r bs" "\<And>rest. cd_de c ctx (bs @ rest) = Some (Inr x, rest)"
      using codec_okE [OF c, of x ctx] v by auto
    with Inr w [of bs 1] h t show ?thesis by (auto simp: result_codec_def reading)
  qed
qed (simp add: result_codec_def)

lemma entries_written:
  assumes k: "codec_ok r kc P" and v: "codec_ok r vc Q" and m: "list_all (\<lambda>(k, v). P k \<and> Q v) m"
  shows "\<exists>bs. w_all (\<lambda>(x, y). w_seq (cd_ser kc ctx x) (cd_ser vc ctx y)) m = Some (Inr bs) \<and> n_values r (length m * 2) bs
    \<and> (\<forall>rest acc. de_entries ins (length m) (cd_de kc ctx) (cd_de vc ctx) acc (bs @ rest)
        = Some (Inr (foldl (\<lambda>acc (k, v). ins k v acc) acc m), rest))"
  using m
proof (induction m)
  case (Cons e m)
  obtain x y where e: "e = (x, y)" "P x" "Q y" using Cons.prems by (cases e) auto
  obtain bx where bx: "cd_ser kc ctx x = Some (Inr bx)" "one_value r bx" "\<And>rest. cd_de kc ctx (bx @ rest) = Some (Inr x, rest)"
    using codec_okE [OF k e(2)] by blast
  obtain b where b: "cd_ser vc ctx y = Some (Inr b)" "one_value r b" "\<And>rest. cd_de vc ctx (b @ rest) = Some (Inr y, rest)"
    using codec_okE [OF v e(3)] by blast
  from Cons obtain bs where "w_all (\<lambda>(x, y). w_seq (cd_ser kc ctx x) (cd_ser vc ctx y)) m = Some (Inr bs)"
    "n_values r (length m * 2) bs"
    "\<forall>rest acc. de_entries ins (length m) (cd_de kc ctx) (cd_de vc ctx) acc (bs @ rest)
        = Some (Inr (foldl (\<lambda>acc (k, v). ins k v acc) acc m), rest)" by auto
  with e bx b values_Cons [OF bx(2) values_Cons [OF b(2)]] show ?case by (auto simp: reading)
qed (simp add: reading)

lemma map_codec_ok:
  assumes k: "codec_ok r kc P" and v: "codec_ok r vc Q"
  shows "codec_ok r (map_codec ins r kc vc) (\<lambda>m. map_ok P Q m \<and> rebuilds ins m)"
proof (rule codec_okI)
  fix ctx m assume m: "map_ok P Q m \<and> rebuilds ins m"
  then obtain bs where bs: "w_all (\<lambda>(x, y). w_seq (cd_ser kc ctx x) (cd_ser vc ctx y)) m = Some (Inr bs)"
    "n_values r (length m * 2) bs"
    "\<And>rest. de_entries ins (length m) (cd_de kc ctx) (cd_de vc ctx) [] (bs @ rest) = Some (Inr m, rest)"
    using entries_written [OF k v, of m ctx ins] by (auto simp: map_ok_def rebuilds_def)
  have len: "length m < 2 ^ 15" "length m < 2 ^ 32" using m by (auto simp: map_ok_def)
  have "one_value r (rp_write_map_len r (length m) @ bs)"
    by (rule map_one_value [OF map_len_format [OF len(2)] bs(2) len(1)])
  with bs(1,3) r_rmp_reads(2) [OF len(2)] len(2)
  show "\<exists>bs. cd_ser (map_codec ins r kc vc) ctx m = Some (Inr bs) \<and> one_value r bs
      \<and> (\<forall>rest. cd_de (map_codec ins r kc vc) ctx (bs @ rest) = Some (Inr m, rest))"
    by (simp add: map_codec_def reading)
qed (simp add: map_codec_def)

lemma members_read:
  assumes "\<And>rest. r_repeat n m (bs @ rest) = Some (Inr xs, rest)"
  shows "de_members ins n m acc (bs @ rest) = Some (Inr (foldl (\<lambda>acc x. ins x acc) acc xs), rest)"
proof -
  have "de_members ins n m acc cs = Some (Inr (foldl (\<lambda>acc x. ins x acc) acc xs), rest)"
    if "r_repeat n m cs = Some (Inr xs, rest)" for cs xs acc rest
    using that
  proof (induction n arbitrary: cs xs acc)
    case (Suc n)
    then show ?case
      by (auto simp: r_bind_def r_ok_def split: option.splits prod.splits sum.splits)
  qed (auto simp: r_ok_def)
  with assms show ?thesis by blast
qed

lemma set_codec_ok:
  assumes c: "codec_ok r c P"
  shows "codec_ok r (set_codec ins r c) (\<lambda>xs. list_ok P xs \<and> foldl (\<lambda>acc x. ins x acc) [] xs = xs)"
proof (rule codec_okI)
  fix ctx xs assume xs: "list_ok P xs \<and> foldl (\<lambda>acc x. ins x acc) [] xs = xs"
  obtain bs where bs: "ser_items r c ctx xs = Some (Inr (rp_write_array_len r (length xs) @ bs))"
    "one_value r (rp_write_array_len r (length xs) @ bs)"
    "\<And>rest. r_rmp (rp_read_array_len r) (rp_write_array_len r (length xs) @ bs @ rest) = Some (Inr (length xs), bs @ rest)"
    "\<And>rest. r_repeat (length xs) (cd_de c ctx) (bs @ rest) = Some (Inr xs, rest)"
    using array_items [OF c] xs by blast
  with xs members_read [OF bs(4)]
  show "\<exists>bs. cd_ser (set_codec ins r c) ctx xs = Some (Inr bs) \<and> one_value r bs
      \<and> (\<forall>rest. cd_de (set_codec ins r c) ctx (bs @ rest) = Some (Inr xs, rest))"
    by (auto simp: set_codec_def reading)
qed (simp add: set_codec_def)

lemma header_fields:
  assumes "fields_ok r fs P" "P v" "fl_count fs < 2 ^ 32"
  obtains bs where "fl_ser fs ctx v = Some (Inr bs)"
    "one_value r (rp_write_array_len r (fl_count fs) @ bs)"
    "\<And>rest. r_rmp (rp_read_array_len r) (rp_write_array_len r (fl_count fs) @ bs @ rest) = Some (Inr (fl_count fs), bs @ rest)"
    "\<And>rest. fl_de fs ctx (bs @ rest) = Some (Inr v, rest)"
proof -
  obtain bs where bs: "fl_ser fs ctx v = Some (Inr bs)" "n_values r (fl_count fs) bs"
    "\<And>rest. fl_de fs ctx (bs @ rest) = Some (Inr v, rest)"
    using fields_okE [OF assms(1,2)] by blast
  show thesis
    by (rule that [OF bs(1) array_one_value [OF array_len_format [OF assms(3)] bs(2)] r_rmp_reads(1) [OF assms(3)] bs(3)])
qed

lemma tuple_codec_ok:
  assumes "fields_ok r fs P" "fl_count fs < 2 ^ 32" "fl_size fs \<noteq> Some 1"
  shows "codec_ok r (tuple_codec r fs) P"
proof (rule codec_okI)
  fix ctx v assume "P v"
  then obtain bs where "fl_ser fs ctx v = Some (Inr bs)"
    "one_value r (rp_write_array_len r (fl_count fs) @ bs)"
    "\<And>rest. r_rmp (rp_read_array_len r) (rp_write_array_len r (fl_count fs) @ bs @ rest) = Some (Inr (fl_count fs), bs @ rest)"
    "\<And>rest. fl_de fs ctx (bs @ rest) = Some (Inr v, rest)"
    using header_fields [OF assms(1) _ assms(2)] by metis
  then show "\<exists>bs. cd_ser (tuple_codec r fs) ctx v = Some (Inr bs) \<and> one_value r bs
      \<and> (\<forall>rest. cd_de (tuple_codec r fs) ctx (bs @ rest) = Some (Inr v, rest))"
    by (auto simp: tuple_codec_def reading)
qed (use assms(3) in \<open>simp add: tuple_codec_def\<close>)

text \<open>A duration of more than 584 years does not survive.\<close>

lemma duration_codec_ok [codecs]: "codec_ok r (duration_codec r) (\<lambda>d. d < 2 ^ 64)"
proof (rule codec_okI)
  fix ctx and d :: duration assume d: "d < 2 ^ 64"
  then have "uint_ok 16 d" by (simp add: uint_ok_def)
  then obtain bs where "cd_ser (u128_codec r) ctx d = Some (Inr bs)" "one_value r bs"
    "\<And>rest. cd_de (u128_codec r) ctx (bs @ rest) = Some (Inr d, rest)"
    using codec_okE [OF wide_codecs_ok(1)] by blast
  with d show "\<exists>bs. cd_ser (duration_codec r) ctx d = Some (Inr bs) \<and> one_value r bs
      \<and> (\<forall>rest. cd_de (duration_codec r) ctx (bs @ rest) = Some (Inr d, rest))"
    by (auto simp: duration_codec_def from_nanos_u128_def Let_def reading)
qed (simp add: duration_codec_def Let_def)

lemma duration_truncated:
  assumes "d < 2 ^ 128"
  shows "\<exists>bs. cd_ser (duration_codec r) ctx d = Some (Inr bs)
    \<and> (\<forall>rest. cd_de (duration_codec r) ctx (bs @ rest) = Some (Inr (d mod 2 ^ 64), rest))"
proof -
  have "uint_ok 16 d" using assms by (simp add: uint_ok_def)
  then obtain bs where "cd_ser (u128_codec r) ctx d = Some (Inr bs)"
    "\<And>rest. cd_de (u128_codec r) ctx (bs @ rest) = Some (Inr d, rest)"
    using codec_okE [OF wide_codecs_ok(1)] by blast
  then show ?thesis
    by (auto simp: duration_codec_def from_nanos_u128_def Let_def reading)
qed

end

end
