(* ===== verification/Tox_Derive_Laws.thy ===== *)
theory Tox_Derive_Laws
  imports Tox_Derive Tox_Proto_Laws
begin

text \<open>
  The derived codecs keep the contract of \<open>Tox_Proto_Laws\<close>: structs of every form, enums with and
  without a variant that catches unknown ones. Structs and enums read what a later version wrote
  with more fields; the catch-all variant gives an unknown variant back byte for byte when it has one
  payload, and only then.
\<close>

section \<open>Structs\<close>

lemma conv_codec_ok:
  assumes "codec_ok r c P" "\<And>v. Q v \<Longrightarrow> P (unmk v) \<and> mk (unmk v) = v"
  shows "codec_ok r (conv_codec mk unmk c) Q"
proof (rule codec_okI)
  fix ctx v assume "Q v"
  with assms(2) obtain bs where "cd_ser c ctx (unmk v) = Some (Inr bs)" "one_value r bs"
    "\<And>rest. cd_de c ctx (bs @ rest) = Some (Inr (unmk v), rest)" using codec_okE [OF assms(1)] by metis
  with assms(2) \<open>Q v\<close> show "\<exists>bs. cd_ser (conv_codec mk unmk c) ctx v = Some (Inr bs) \<and> one_value r bs
      \<and> (\<forall>rest. cd_de (conv_codec mk unmk c) ctx (bs @ rest) = Some (Inr v, rest))"
    by (auto simp: conv_codec_def reading)
qed (use assms(2) codec_ok_mem [OF assms(1)] in \<open>simp add: conv_codec_def\<close>)

lemma wrapper_codec_ok:
  assumes "codec_ok r c P" "\<And>v. Q v \<Longrightarrow> P (unmk v) \<and> mk (unmk v) = v"
  shows "codec_ok r (wrapper_codec mk unmk c) Q"
  using conv_codec_ok [OF assms] unfolding codec_ok_def by (simp add: wrapper_codec_def)

lemma values_fields_app: "fields_ok r fs P \<Longrightarrow> P v \<Longrightarrow> \<exists>bs. fl_ser fs ctx v = Some (Inr bs) \<and> n_values r (fl_count fs) bs"
  using fields_okE by metis

context rmp_lib
begin

text \<open>A reader takes what it knows of a longer array and skips the rest.\<close>

lemma de_array_of_longer:
  assumes "fields_ok r fs P" "P v" "n_values r k extra" "fl_count fs + k < 2 ^ 32"
    and "fl_ser fs ctx v = Some (Inr bs)"
  shows "de_array_of r fs ctx (rp_write_array_len r (fl_count fs + k) @ bs @ extra @ rest) = Some (Inr v, rest)"
proof -
  have "fl_de fs ctx (bs @ extra @ rest) = Some (Inr v, extra @ rest)"
    using fields_okE [OF assms(1,2), of ctx] assms(5) by (metis old.sum.inject(2) option.inject)
  moreover have "skip_values r k (extra @ rest) = Some (Inr (), rest)" using assms(3) by (simp add: n_values_def)
  moreover have "r_rmp (rp_read_array_len r) (rp_write_array_len r (fl_count fs + k) @ bs @ extra @ rest)
      = Some (Inr (fl_count fs + k), bs @ extra @ rest)" by (rule r_rmp_reads(1) [OF assms(4)])
  ultimately show ?thesis by (simp add: de_array_of_def reading)
qed

text \<open>When stepping over an item panics, so does reading an array with this item at the end.\<close>

lemma de_array_of_panics:
  assumes "fields_ok r fs P" "P v" "fl_ser fs ctx v = Some (Inr bs)" "skip_value r extra = None" "Suc (fl_count fs) < 2 ^ 32"
  shows "de_array_of r fs ctx (rp_write_array_len r (Suc (fl_count fs)) @ bs @ extra) = None"
proof -
  have "fl_de fs ctx (bs @ extra) = Some (Inr v, extra)"
    using fields_okE [OF assms(1,2), of ctx] assms(3) by (metis old.sum.inject(2) option.inject)
  moreover have "skip_values r 1 extra = None" using assms(4) by (simp add: skip_values.simps r_bind_def)
  moreover have "r_rmp (rp_read_array_len r) (rp_write_array_len r (Suc (fl_count fs)) @ bs @ extra)
      = Some (Inr (Suc (fl_count fs)), bs @ extra)" by (rule r_rmp_reads(1) [OF assms(5)])
  ultimately show ?thesis by (simp add: de_array_of_def r_bind_def)
qed

lemma array_of_ok:
  assumes "fields_ok r fs P" "P v" "fl_count fs < 2 ^ 32"
  obtains bs where "ser_array_of r fs ctx v = Some (Inr bs)" "one_value r bs"
    "\<And>rest. de_array_of r fs ctx (bs @ rest) = Some (Inr v, rest)"
proof -
  obtain bs where bs: "fl_ser fs ctx v = Some (Inr bs)"
    "one_value r (rp_write_array_len r (fl_count fs) @ bs)"
    using header_fields [OF assms] by metis
  show thesis
    using de_array_of_longer [OF assms(1,2) values_Nil _ bs(1)] assms(3) bs
    by (intro that [of "rp_write_array_len r (fl_count fs) @ bs"]) (simp_all add: ser_array_of_def reading)
qed

lemma struct_fields_ok:
  assumes "fields_ok r fs P" "fl_count fs < 2 ^ 32"
  shows "codec_ok r (struct_fields r fs) P"
proof (rule codec_okI)
  fix ctx v assume "P v"
  then obtain bs where "ser_array_of r fs ctx v = Some (Inr bs)" "one_value r bs"
    "\<And>rest. de_array_of r fs ctx (bs @ rest) = Some (Inr v, rest)"
    using array_of_ok [OF assms(1) _ assms(2)] by metis
  then show "\<exists>bs. cd_ser (struct_fields r fs) ctx v = Some (Inr bs) \<and> one_value r bs
      \<and> (\<forall>rest. cd_de (struct_fields r fs) ctx (bs @ rest) = Some (Inr v, rest))"
    by (auto simp: struct_fields_def)
qed (simp add: struct_fields_def)

lemma struct_codec_ok:
  assumes "fields_ok r fs P" "fl_count fs < 2 ^ 32" "\<And>v. Q v \<Longrightarrow> P (unmk v) \<and> mk (unmk v) = v"
  shows "codec_ok r (struct_codec r mk unmk fs) Q"
  unfolding struct_codec_def by (rule conv_codec_ok [OF struct_fields_ok [OF assms(1,2)]]) (rule assms(3))

lemma bits_codec_ok [codecs]: "codec_ok r (bits_codec r) (\<lambda>_. True)"
  unfolding bits_codec_def
proof (rule conv_codec_ok [OF uint_codec_ok])
  fix w :: u32
  show "uint_ok 4 (unat w) \<and> of_nat (unat w) = w"
    using unsigned_less [of w, where ?'a = nat] by (simp add: uint_ok_def)
qed simp_all

end

section \<open>Flat structs\<close>

text \<open>
  Written flat, a field of a fixed size takes exactly its size, and the last field may take whatever
  is left. \<open>flat_ok\<close> is the first, \<open>flat_tail_ok\<close> the second.
\<close>

definition flat_ok :: "'a codec \<Rightarrow> ('a \<Rightarrow> bool) \<Rightarrow> bool" where
  "flat_ok c P \<longleftrightarrow>
     (\<exists>n. cd_size c = Some n \<and> (\<forall>ctx v. P v \<longrightarrow>
        (\<exists>bs. cd_ser_flat c ctx v = Some (Inr bs) \<and> length bs = n
              \<and> (\<forall>rest. cd_de_flat c ctx (bs @ rest) = Some (Inr v, rest)))))"

definition flat_tail_ok :: "'a fields \<Rightarrow> ('a \<Rightarrow> bool) \<Rightarrow> bool" where
  "flat_tail_ok fs P \<longleftrightarrow>
     (\<forall>ctx v. P v \<longrightarrow>
        (\<exists>bs. fl_ser_flat fs ctx v = Some (Inr bs) \<and> fl_flat_len fs v = Some (length bs)
              \<and> fl_de_flat fs ctx bs = Some (Inr v, [])))"

definition flat_last_ok :: "'a codec \<Rightarrow> ('a \<Rightarrow> bool) \<Rightarrow> bool" where
  "flat_last_ok c P \<longleftrightarrow>
     (\<forall>ctx v. P v \<longrightarrow>
        (\<exists>bs. cd_ser_flat c ctx v = Some (Inr bs) \<and> cd_flat_len c v = Some (length bs)
              \<and> cd_de_flat c ctx bs = Some (Inr v, [])))"

lemma flat_last_field:
  assumes "flat_last_ok c P"
  shows "flat_tail_ok (field c no_fields) (\<lambda>(v, _). P v)"
proof (unfold flat_tail_ok_def, clarify)
  fix ctx v u assume "P v"
  then obtain bs where "cd_ser_flat c ctx v = Some (Inr bs)" "cd_flat_len c v = Some (length bs)"
    "cd_de_flat c ctx bs = Some (Inr v, [])" using assms by (auto simp: flat_last_ok_def)
  then show "\<exists>bs. fl_ser_flat (field c no_fields) ctx (v, u) = Some (Inr bs)
      \<and> fl_flat_len (field c no_fields) (v, u) = Some (length bs)
      \<and> fl_de_flat (field c no_fields) ctx bs = Some (Inr (v, u), [])"
    by (auto simp: field_def no_fields_def reading)
qed

lemma flat_more_fields:
  assumes c: "flat_ok c P" and fs: "flat_tail_ok fs Q" "fl_count fs \<noteq> 0"
  shows "flat_tail_ok (field c fs) (\<lambda>(v, vs). P v \<and> Q vs)"
proof (unfold flat_tail_ok_def, clarify)
  fix ctx v vs assume "P v" "Q vs"
  obtain n x where x: "cd_size c = Some n" "cd_ser_flat c ctx v = Some (Inr x)" "length x = n"
    "\<And>rest. cd_de_flat c ctx (x @ rest) = Some (Inr v, rest)"
    using c \<open>P v\<close> unfolding flat_ok_def by blast
  obtain y where y: "fl_ser_flat fs ctx vs = Some (Inr y)" "fl_flat_len fs vs = Some (length y)"
    "fl_de_flat fs ctx y = Some (Inr vs, [])"
    using fs(1) \<open>Q vs\<close> unfolding flat_tail_ok_def by blast
  show "\<exists>bs. fl_ser_flat (field c fs) ctx (v, vs) = Some (Inr bs)
      \<and> fl_flat_len (field c fs) (v, vs) = Some (length bs)
      \<and> fl_de_flat (field c fs) ctx bs = Some (Inr (v, vs), [])"
    using x y fs(2) by (auto simp: field_def sum_sizes_def reading)
qed

lemma u8_flat: "flat_ok (u8_codec r) (\<lambda>_. True)" "flat_last_ok (u8_codec r) (\<lambda>_. True)"
  by (auto simp: flat_ok_def flat_last_ok_def u8_codec_def default_flat_len_def r_bind_def read_exact_def r_ok_def w_ok_def)

lemma flat_items:
  assumes c: "flat_ok c P" "cd_size c = Some n" and xs: "list_all P xs"
  shows "\<exists>bs. w_all (cd_ser_flat c ctx) xs = Some (Inr bs) \<and> length bs = length xs * n
    \<and> (\<forall>rest. r_repeat (length xs) (cd_de_flat c ctx) (bs @ rest) = Some (Inr xs, rest))"
  using xs
proof (induction xs)
  case (Cons x xs)
  obtain b where b: "cd_ser_flat c ctx x = Some (Inr b)" "length b = n"
    "\<And>rest. cd_de_flat c ctx (b @ rest) = Some (Inr x, rest)"
    using c Cons.prems by (auto simp: flat_ok_def)
  from Cons obtain bs where "w_all (cd_ser_flat c ctx) xs = Some (Inr bs)" "length bs = length xs * n"
    "\<forall>rest. r_repeat (length xs) (cd_de_flat c ctx) (bs @ rest) = Some (Inr xs, rest)" by auto
  with b show ?case by (auto simp: reading)
qed (simp add: reading)

lemma array_flat:
  assumes "flat_ok c P"
  shows "flat_ok (array_codec r n c) (array_ok n P)"
proof -
  obtain k where k: "cd_size c = Some k" using assms by (auto simp: flat_ok_def)
  have "\<exists>bs. cd_ser_flat (array_codec r n c) ctx v = Some (Inr bs) \<and> length bs = k * n
      \<and> (\<forall>rest. cd_de_flat (array_codec r n c) ctx (bs @ rest) = Some (Inr v, rest))"
    if "array_ok n P v" for ctx v
    using flat_items [OF assms k, of v ctx] that by (auto simp: array_codec_def array_ok_def mult.commute)
  with k show ?thesis unfolding flat_ok_def by (simp add: array_codec_def)
qed

lemma bytes_flat_last: "flat_last_ok (vec_codec r (u8_codec r)) (\<lambda>_. True)"
proof -
  have "w_all (cd_ser_flat (u8_codec r) ctx) xs = Some (Inr xs)" for ctx xs
    by (induction xs) (simp_all add: reading u8_codec_def)
  moreover have "those (map Some xs) = Some xs" for xs :: bytes by (induction xs) simp_all
  ultimately show ?thesis
    by (auto simp: flat_last_ok_def vec_codec_def vec_de_flat_def read_to_end_def from_memory_def r_bind_def u8_codec_def)
qed

lemma string_flat_last: "flat_last_ok (string_codec r) str_ok"
  by (auto simp: flat_last_ok_def string_codec_def read_to_end_def from_utf8_def str_ok_def r_bind_def r_ok_def w_ok_def)

text \<open>The loop over the items of a flat vector returns when an item takes at least one byte.\<close>

lemma flat_loop_returns:
  assumes "\<And>bs. m bs \<noteq> None" and "\<And>bs x rest. m bs = Some (Inr x, rest) \<Longrightarrow> length rest < length bs"
  shows "\<exists>xs rest. flat_loop m bs = Some (xs, rest)"
proof (induction bs rule: length_induct)
  case (1 bs)
  obtain z rest where z: "m bs = Some (z, rest)" using assms(1) by (metis not_None_eq surj_pair)
  show ?case
  proof (cases z)
    case (Inr x)
    with z assms(2) have "length rest < length bs" by simp
    with 1 obtain xs rest' where "flat_loop m rest = Some (xs, rest')" by blast
    with z Inr show ?thesis by (subst flat_loop.simps) simp
  qed (use z in \<open>subst flat_loop.simps, simp\<close>)
qed

context rmp_lib
begin

text \<open>Rule 2, binary concatenation: one item, read back exactly.\<close>

lemma flat_fields_ok:
  assumes fs: "flat_tail_ok fs P" "fl_byte_like fs" "fl_size fs \<noteq> Some 1"
    and short: "\<And>v n. P v \<Longrightarrow> fl_flat_len fs v = Some n \<Longrightarrow> n < 2 ^ 32"
  shows "codec_ok r (flat_fields r fs) P"
proof (rule codec_okI)
  fix ctx v assume v: "P v"
  obtain bs where bs: "fl_ser_flat fs ctx v = Some (Inr bs)" "fl_flat_len fs v = Some (length bs)"
    "fl_de_flat fs ctx bs = Some (Inr v, [])"
    using fs(1) v by (auto simp: flat_tail_ok_def)
  have len: "length bs < 2 ^ 32" using short [OF v bs(2)] .
  have "cd_ser (flat_fields r fs) ctx v = Some (Inr (rp_write_bin_len r (length bs) @ bs))"
    using bs len fs(2) by (simp add: flat_fields_def reading)
  moreover have "cd_de (flat_fields r fs) ctx (rp_write_bin_len r (length bs) @ bs @ rest) = Some (Inr v, rest)" for rest
    using bs r_rmp_reads(3) [OF len, of "bs @ rest"] fs(2) by (simp add: flat_fields_def de_limited_def reading)
  ultimately show "\<exists>bs. cd_ser (flat_fields r fs) ctx v = Some (Inr bs) \<and> one_value r bs
      \<and> (\<forall>rest. cd_de (flat_fields r fs) ctx (bs @ rest) = Some (Inr v, rest))"
    using write_bin_one_value [OF len] by auto
qed (use fs(3) in \<open>simp add: flat_fields_def\<close>)

end

text \<open>
  The derived \<^verbatim>\<open>ToxSize\<close> does not define \<^verbatim>\<open>flat_len\<close>: a flat struct that ends in a vector panics when
  it is itself the last field of a flat struct.
\<close>

lemma nested_flat_panics:
  assumes "fl_byte_like fs" "fl_size fs = None" "cd_byte_like a" "cd_size a = Some n"
  shows "cd_ser (flat_fields r (field a (field (flat_fields r fs) no_fields))) ctx (x, v, ()) = None"
  using assms by (simp add: flat_fields_def field_def no_fields_def default_flat_len_def sum_sizes_def)

section \<open>Enums\<close>

definition arm_ok :: "rmp \<Rightarrow> 'a arm \<Rightarrow> ('a \<Rightarrow> bool) \<Rightarrow> bool" where
  "arm_ok r a P \<longleftrightarrow>
     am_idx a < 256
     \<and> (\<forall>ctx v w. P v \<longrightarrow> am_ser a ctx v = Some w \<longrightarrow>
          (\<exists>bs. w = Some (Inr bs) \<and> (if am_unit a then bs = [] else one_value r bs)
                \<and> (\<forall>rest. am_de a ctx (bs @ rest) = Some (Inr v, rest))))"

text \<open>The values of an enum: each belongs to an arm, or is an unknown variant with one payload or none.\<close>

definition covered :: "rmp \<Rightarrow> 'a arm list \<Rightarrow> 'a catch_all option \<Rightarrow> 'a \<Rightarrow> bool" where
  "covered r arms ca v \<longleftrightarrow>
     (\<forall>ctx. \<exists>a \<in> set arms. am_ser a ctx v \<noteq> None)
     \<or> ((\<forall>ctx. \<forall>a \<in> set arms. am_ser a ctx v = None)
        \<and> (\<exists>c disc data. ca = Some c \<and> ca_unmk c v = Some (disc, data) \<and> ca_mk c disc data = v
              \<and> disc < 256 \<and> disc \<notin> am_idx ` set arms \<and> (data = [] \<or> one_value r data)))"

text \<open>The arms of an enum one by one.\<close>

lemma arms_intros: "list_all P []" "P x \<Longrightarrow> list_all P xs \<Longrightarrow> list_all P (x # xs)"
  by simp_all

lemma unit_arm_ok: "idx < 256 \<Longrightarrow> arm_ok r (unit_arm idx x) P"
  by (auto simp: arm_ok_def unit_arm_def reading split: if_splits)

lemma single_arm_ok:
  assumes "codec_ok r c P" "idx < 256" "\<And>v x. Q v \<Longrightarrow> unmk v = Some x \<Longrightarrow> P x \<and> mk x = v"
  shows "arm_ok r (single_arm idx mk unmk c) Q"
proof -
  have "\<exists>bs. cd_ser c ctx x = Some (Inr bs) \<and> one_value r bs
      \<and> (\<forall>rest. r_bind (cd_de c ctx) (\<lambda>y. r_ok (mk y)) (bs @ rest) = Some (Inr v, rest))"
    if "Q v" "unmk v = Some x" for ctx v x
    using codec_okE [OF assms(1), of x ctx] assms(3) [OF that] by (metis r_steps(1,3))
  with assms(2) show ?thesis by (auto simp: arm_ok_def single_arm_def)
qed

lemma de_arms_find:
  assumes "distinct (map am_idx arms)" "a \<in> set arms" "len = (if am_unit a then 1 else 2)"
  shows "de_arms r ca ctx arms (am_idx a) len = am_de a ctx"
  using assms by (induction arms) (auto simp: image_iff)

lemma de_arms_unknown:
  assumes "idx \<notin> am_idx ` set arms"
  shows "de_arms r ca ctx arms idx len
    = (case ca of None \<Rightarrow> r_err Deserialize
       | Some c \<Rightarrow> r_bind (capture_values r (len - 1)) (\<lambda>data. r_ok (ca_mk c idx data)))"
  using assms by (induction arms) auto

lemma ser_arms_find:
  assumes "\<exists>a \<in> set arms. am_ser a ctx v \<noteq> None"
  obtains a w where "a \<in> set arms" "am_ser a ctx v = Some w" "ser_arms r ca ctx arms v = ser_arm r ctx a w"
  using assms
proof (induction arms)
  case (Cons a arms)
  then show ?case by (cases "am_ser a ctx v") auto
qed simp

lemma ser_arms_unknown:
  assumes "\<forall>a \<in> set arms. am_ser a ctx v = None"
  shows "ser_arms r ca ctx arms v
    = (case ca of None \<Rightarrow> None
       | Some c \<Rightarrow> (case ca_unmk c v of None \<Rightarrow> None | Some (disc, data) \<Rightarrow> ser_catch_all r ctx disc data))"
  using assms by (induction arms) auto

lemma capture_one: "one_value r d \<Longrightarrow> capture_value r (d @ rest) = Some (Inr d, rest)"
  by (simp add: capture_value_def one_value_def)

lemma capture_single: "one_value r d \<Longrightarrow> capture_values r 1 (d @ rest) = Some (Inr d, rest)"
  by (simp add: r_bind_def capture_one r_ok_def)

context rmp_lib
begin

lemma multi_arm_ok:
  assumes "fields_ok r fs P" "fl_count fs < 2 ^ 32" "idx < 256" "\<And>v x. Q v \<Longrightarrow> unmk v = Some x \<Longrightarrow> P x \<and> mk x = v"
  shows "arm_ok r (multi_arm r idx mk unmk fs) Q"
proof -
  have "\<exists>bs. ser_array_of r fs ctx x = Some (Inr bs) \<and> one_value r bs
      \<and> (\<forall>rest. r_bind (de_array_of r fs ctx) (\<lambda>y. r_ok (mk y)) (bs @ rest) = Some (Inr v, rest))"
    if "Q v" "unmk v = Some x" for ctx v x
    using array_of_ok [OF assms(1) _ assms(2), of x ctx] assms(4) [OF that] by (metis r_steps(1,3))
  with assms(3) show ?thesis by (auto simp: arm_ok_def multi_arm_def)
qed

lemma tag_written: "idx < 256 \<Longrightarrow> cd_ser (u8_codec r) ctx (of_nat idx) = Some (Inr (rp_write_uint r idx))"
  by (simp add: u8_codec_def w_ok_def unat_of_nat)

lemma tag_read:
  assumes "idx < 256"
  shows "cd_de (u8_codec r) ctx (rp_write_uint r idx @ rest) = Some (Inr (of_nat idx), rest)"
  using read_in_uint [of idx 0 255 rest] assms
  by (simp add: u8_codec_def r_bind_def r_ok_def)

lemma header_naked:
  assumes "idx < 256"
  shows "read_enum_header r ctx (rp_write_uint r idx @ rest) = Some (Inr (idx, 1), rest)"
  using tag_uint [OF assms] assms unfolding tag_format_def
  by (auto simp: read_enum_header_def r_bind_def read_marker_def read_exact_def r_ok_def unat_of_nat)

lemma header_array:
  assumes "idx < 256" "n < 2 ^ 32"
  shows "read_enum_header r ctx (rp_write_array_len r n @ rp_write_uint r idx @ rest) = Some (Inr (idx, n), rest)"
  using array_len_format [OF assms(2)] assms tag_read [OF assms(1), of ctx rest] unfolding len_format_def
  by (auto simp: read_enum_header_def reading unat_of_nat simp del: be_bytes.simps)

lemma ser_arm_ok:
  assumes a: "arm_ok r a P" and arms: "a \<in> set arms" "distinct (map am_idx arms)"
    and v: "P v" "am_ser a ctx v = Some w"
  obtains bs where "ser_arm r ctx a w = Some (Inr bs)" "one_value r bs"
    "\<And>rest. cd_de (enum_codec r arms ca) ctx (bs @ rest) = Some (Inr v, rest)"
proof -
  note idx = a [unfolded arm_ok_def, THEN conjunct1]
  obtain bs where bs: "w = Some (Inr bs)" "if am_unit a then bs = [] else one_value r bs"
    "\<And>rest. am_de a ctx (bs @ rest) = Some (Inr v, rest)"
    using a v unfolding arm_ok_def by blast
  have tag: "one_value r (rp_write_uint r (am_idx a))" using idx by (intro scalar_one_value uint_format) simp
  show thesis
  proof (cases "am_unit a")
    case True
    show ?thesis
    proof (rule that)
      show "ser_arm r ctx a w = Some (Inr (rp_write_uint r (am_idx a)))"
        using True tag_written [OF idx] by (simp add: ser_arm_def)
      show "cd_de (enum_codec r arms ca) ctx (rp_write_uint r (am_idx a) @ rest) = Some (Inr v, rest)" for rest
        using header_naked [OF idx, of ctx rest] de_arms_find [OF arms(2,1), of 1] True bs
        by (simp add: enum_codec_def reading)
    qed (rule tag)
  next
    case False
    have "n_values r 2 (rp_write_uint r (am_idx a) @ bs)"
      using values_Cons [OF tag values_single] bs(2) False by (simp add: numeral_2_eq_2)
    then have one: "one_value r (rp_write_array_len r 2 @ rp_write_uint r (am_idx a) @ bs)"
      by (rule array_one_value [OF array_len_format, rotated]) simp
    show ?thesis
    proof (rule that [OF _ one])
      show "ser_arm r ctx a w = Some (Inr (rp_write_array_len r 2 @ rp_write_uint r (am_idx a) @ bs))"
        using False tag_written [OF idx] bs(1) by (simp add: ser_arm_def reading)
      show "cd_de (enum_codec r arms ca) ctx ((rp_write_array_len r 2 @ rp_write_uint r (am_idx a) @ bs) @ rest) = Some (Inr v, rest)" for rest
        using header_array [OF idx, of 2 ctx "bs @ rest"] de_arms_find [OF arms(2,1), of 2] False bs(3)
        by (simp add: enum_codec_def reading)
    qed
  qed
qed

text \<open>An unknown variant with one payload, or none, is written again as it was read.\<close>

lemma catch_all_ok:
  assumes d: "disc < 256" "disc \<notin> am_idx ` set arms" and data: "data = [] \<or> one_value r data"
  obtains bs where "ser_catch_all r ctx disc data = Some (Inr bs)" "one_value r bs"
    "\<And>rest. cd_de (enum_codec r arms (Some c)) ctx (bs @ rest) = Some (Inr (ca_mk c disc data), rest)"
proof -
  have tag: "one_value r (rp_write_uint r disc)" using d(1) by (intro scalar_one_value uint_format) simp
  note unknown = de_arms_unknown [OF d(2)]
  show thesis
  proof (cases "data = []")
    case True
    show ?thesis
    proof (rule that [OF _ tag])
      show "ser_catch_all r ctx disc data = Some (Inr (rp_write_uint r disc))"
        using True tag_written [OF d(1)] by (simp add: ser_catch_all_def)
      show "cd_de (enum_codec r arms (Some c)) ctx (rp_write_uint r disc @ rest) = Some (Inr (ca_mk c disc data), rest)" for rest
        using header_naked [OF d(1), of ctx rest] True by (simp add: enum_codec_def unknown reading)
    qed
  next
    case False
    then have one: "one_value r data" using data by simp
    have "n_values r 2 (rp_write_uint r disc @ data)"
      using values_Cons [OF tag values_single [OF one]] by (simp add: numeral_2_eq_2)
    then have v: "one_value r (rp_write_array_len r 2 @ rp_write_uint r disc @ data)"
      by (rule array_one_value [OF array_len_format, rotated]) simp
    show ?thesis
    proof (rule that [OF _ v])
      show "ser_catch_all r ctx disc data = Some (Inr (rp_write_array_len r 2 @ rp_write_uint r disc @ data))"
        using False tag_written [OF d(1)] by (simp add: ser_catch_all_def reading)
      show "cd_de (enum_codec r arms (Some c)) ctx ((rp_write_array_len r 2 @ rp_write_uint r disc @ data) @ rest)
          = Some (Inr (ca_mk c disc data), rest)" for rest
        using header_array [OF d(1), of 2 ctx "data @ rest"] capture_single [OF one, of rest]
        by (simp add: enum_codec_def unknown reading del: capture_values.simps)
    qed
  qed
qed

text \<open>
  With two payloads it is not: they are kept in a row, and written after a header that counts one.
  What is read back from there has lost the second.
\<close>

lemma catch_all_loses:
  assumes d: "disc < 256" "disc \<notin> am_idx ` set arms" and x: "one_value r x" and y: "one_value r y"
  shows "cd_de (enum_codec r arms (Some c)) ctx (rp_write_array_len r 3 @ rp_write_uint r disc @ x @ y @ rest)
      = Some (Inr (ca_mk c disc (x @ y)), rest)"
    and "ser_catch_all r ctx disc (x @ y) = Some (Inr (rp_write_array_len r 2 @ rp_write_uint r disc @ x @ y))"
    and "cd_de (enum_codec r arms (Some c)) ctx (rp_write_array_len r 2 @ rp_write_uint r disc @ x @ y @ rest)
      = Some (Inr (ca_mk c disc x), y @ rest)"
proof -
  have "x \<noteq> []" by (rule one_value_nonempty [OF x])
  then show "ser_catch_all r ctx disc (x @ y) = Some (Inr (rp_write_array_len r 2 @ rp_write_uint r disc @ x @ y))"
    using tag_written [OF d(1)] by (simp add: ser_catch_all_def reading)
  have "capture_values r 2 (x @ y @ rest) = Some (Inr (x @ y), rest)"
    by (simp add: numeral_2_eq_2 r_bind_def r_ok_def capture_one [OF x] capture_one [OF y])
  then show "cd_de (enum_codec r arms (Some c)) ctx (rp_write_array_len r 3 @ rp_write_uint r disc @ x @ y @ rest)
      = Some (Inr (ca_mk c disc (x @ y)), rest)"
    using header_array [OF d(1), of 3 ctx "x @ y @ rest"]
    by (simp add: enum_codec_def de_arms_unknown [OF d(2)] reading del: capture_values.simps)
  show "cd_de (enum_codec r arms (Some c)) ctx (rp_write_array_len r 2 @ rp_write_uint r disc @ x @ y @ rest)
      = Some (Inr (ca_mk c disc x), y @ rest)"
    using header_array [OF d(1), of 2 ctx "x @ y @ rest"] capture_single [OF x, of "y @ rest"]
    by (simp add: enum_codec_def de_arms_unknown [OF d(2)] reading del: capture_values.simps)
qed

lemma enum_codec_ok:
  assumes arms: "list_all (\<lambda>a. arm_ok r a P) arms" "distinct (map am_idx arms)"
    and cov: "\<And>v. P v \<Longrightarrow> covered r arms ca v"
  shows "codec_ok r (enum_codec r arms ca) P"
proof (rule codec_okI)
  fix ctx v assume v: "P v"
  consider (arm) "\<exists>a \<in> set arms. am_ser a ctx v \<noteq> None"
    | (unknown) c disc data where "\<forall>a \<in> set arms. am_ser a ctx v = None" "ca = Some c" "ca_unmk c v = Some (disc, data)"
        "ca_mk c disc data = v" "disc < 256" "disc \<notin> am_idx ` set arms" "data = [] \<or> one_value r data"
    using cov [OF v] unfolding covered_def by blast
  then show "\<exists>bs. cd_ser (enum_codec r arms ca) ctx v = Some (Inr bs) \<and> one_value r bs
      \<and> (\<forall>rest. cd_de (enum_codec r arms ca) ctx (bs @ rest) = Some (Inr v, rest))"
  proof cases
    case arm
    then obtain a w where a: "a \<in> set arms" "am_ser a ctx v = Some w" "ser_arms r ca ctx arms v = ser_arm r ctx a w"
      by (rule ser_arms_find)
    have a_ok: "arm_ok r a P" using arms(1) a(1) by (simp add: list_all_iff)
    obtain bs where "ser_arm r ctx a w = Some (Inr bs)" "one_value r bs"
      "\<And>rest. cd_de (enum_codec r arms ca) ctx (bs @ rest) = Some (Inr v, rest)"
      using ser_arm_ok [OF a_ok a(1) arms(2) v a(2)] by blast
    with a(3) show ?thesis by (auto simp: enum_codec_def)
  next
    case unknown
    obtain bs where "ser_catch_all r ctx disc data = Some (Inr bs)" "one_value r bs"
      "\<And>rest. cd_de (enum_codec r arms (Some c)) ctx (bs @ rest) = Some (Inr (ca_mk c disc data), rest)"
      using catch_all_ok [OF unknown(5-7)] by blast
    with unknown(1-4) show ?thesis by (auto simp: enum_codec_def ser_arms_unknown)
  qed
qed (simp add: enum_codec_def)

end

section \<open>What a codec gives its users\<close>

locale tox_codec = rmp_lib +
  fixes c :: "'a codec" and P :: "'a \<Rightarrow> bool"
  assumes ok: "codec_ok r c P"
begin

lemma writes: "P v \<Longrightarrow> \<exists>bs. serialize_with_ctx c ctx v = Some (Inr bs)"
  unfolding serialize_with_ctx_def by (rule codec_okE [OF ok]) auto

lemma reads_back:
  assumes "P v" "serialize_with_ctx c ctx v = Some (Inr bs)"
  shows "cd_de c ctx (bs @ rest) = Some (Inr v, rest)" and "one_value r bs"
  using codec_okE [OF ok assms(1), of ctx] assms(2) unfolding serialize_with_ctx_def
  by (metis old.sum.inject(2) option.inject)+

lemma round_trip:
  "P v \<Longrightarrow> serialize_with_ctx c ctx v = Some (Inr bs) \<Longrightarrow> deserialize_with_ctx c ctx (bs @ rest) = Some (Inr v)"
  by (simp add: deserialize_with_ctx_def reads_back(1))

text \<open>No encoding is a prefix of the encoding of another value.\<close>

lemma prefix_free:
  assumes "P v" "P w" "serialize_with_ctx c ctx v = Some (Inr bs)" "serialize_with_ctx c ctx w = Some (Inr (bs @ suffix))"
  shows "v = w"
  using reads_back(1) [OF assms(1,3), of suffix] reads_back(1) [OF assms(2,4), of "[]"] by simp

lemma skippable: "P v \<Longrightarrow> serialize_with_ctx c ctx v = Some (Inr bs) \<Longrightarrow> skip_value r (bs @ rest) = Some (Inr (), rest)"
  using reads_back(2) by (auto simp: one_value_def)

end

end
