(* ===== verification/Flat_Map.thy ===== *)
theory Flat_Map
  imports Prelude
begin

text \<open>
  \<^verbatim>\<open>tox-sequenced/src/flat_map.rs\<close>: the associative map kept as a vector of pairs, scanned
  linearly. The order of the vector is insertion order and is observable (\<^verbatim>\<open>keys().next()\<close> is
  the oldest entry), so the model is the list itself. A write through \<^verbatim>\<open>get_mut\<close> replaces the
  value of the first matching pair, which is what \<^verbatim>\<open>insert\<close> does on a present key; the clients
  therefore write it as \<open>fm_set\<close>.

  The locale \<open>finite_map\<close> states the contract the session relies on; \<open>FlatMap\<close> is an
  interpretation of it.
\<close>

section \<open>The methods\<close>

type_synonym ('k, 'v) flat_map = "('k \<times> 'v) list"

definition fm_new :: "('k, 'v) flat_map" where
  "fm_new = []"

definition fm_len :: "('k, 'v) flat_map \<Rightarrow> nat" where
  "fm_len m = length m"

definition fm_is_empty :: "('k, 'v) flat_map \<Rightarrow> bool" where
  "fm_is_empty m = (m = [])"

definition fm_clear :: "('k, 'v) flat_map \<Rightarrow> ('k, 'v) flat_map" where
  "fm_clear m = []"

definition fm_values :: "('k, 'v) flat_map \<Rightarrow> 'v list" where
  "fm_values m = map snd m"

definition fm_keys :: "('k, 'v) flat_map \<Rightarrow> 'k list" where
  "fm_keys m = map fst m"

definition fm_get :: "('k, 'v) flat_map \<Rightarrow> 'k \<Rightarrow> 'v option" where
  "fm_get m key = map_option snd (find (\<lambda>(k, _). k = key) m)"

definition fm_contains_key :: "('k, 'v) flat_map \<Rightarrow> 'k \<Rightarrow> bool" where
  "fm_contains_key m key = list_ex (\<lambda>(k, _). k = key) m"

text \<open>\<^verbatim>\<open>insert\<close>: replace the value of the first match and return the old one, else push.\<close>

fun fm_insert :: "('k, 'v) flat_map \<Rightarrow> 'k \<Rightarrow> 'v \<Rightarrow> 'v option \<times> ('k, 'v) flat_map" where
  "fm_insert [] key value = (None, [(key, value)])"
| "fm_insert ((k, v) # m) key value =
     (if k = key then (Some v, (k, value) # m)
      else (case fm_insert m key value of (old, m') \<Rightarrow> (old, (k, v) # m')))"

fun fm_remove :: "('k, 'v) flat_map \<Rightarrow> 'k \<Rightarrow> 'v option \<times> ('k, 'v) flat_map" where
  "fm_remove [] key = (None, [])"
| "fm_remove ((k, v) # m) key =
     (if k = key then (Some v, m)
      else (case fm_remove m key of (old, m') \<Rightarrow> (old, (k, v) # m')))"

text \<open>
  \<^verbatim>\<open>retain\<close>: the closure sees each pair in order, may change the value, and carries the state
  it captured by mutable reference (\<open>'s\<close>).
\<close>

fun fm_retain :: "('k \<Rightarrow> 'v \<Rightarrow> 's \<Rightarrow> (bool \<times> 'v) \<times> 's) \<Rightarrow> ('k, 'v) flat_map \<Rightarrow> 's
    \<Rightarrow> ('k, 'v) flat_map \<times> 's" where
  "fm_retain f [] s = ([], s)"
| "fm_retain f ((k, v) # m) s =
     (case f k v s of ((keep, v'), s') \<Rightarrow>
        (case fm_retain f m s' of (m', s'') \<Rightarrow> (if keep then (k, v') # m' else m', s'')))"

text \<open>\<^verbatim>\<open>entry(key).or_insert(default)\<close>: the map afterwards and the value the reference points to.\<close>

definition fm_or_insert :: "('k, 'v) flat_map \<Rightarrow> 'k \<Rightarrow> 'v \<Rightarrow> 'v \<times> ('k, 'v) flat_map" where
  "fm_or_insert m key dflt =
     (case fm_get m key of Some v \<Rightarrow> (v, m) | None \<Rightarrow> (dflt, m @ [(key, dflt)]))"

definition fm_from_iter :: "('k \<times> 'v) list \<Rightarrow> ('k, 'v) flat_map" where
  "fm_from_iter xs = fold (\<lambda>(k, v) m. snd (fm_insert m k v)) xs fm_new"

text \<open>A write through the reference \<^verbatim>\<open>get_mut\<close> returned.\<close>

definition fm_set :: "('k, 'v) flat_map \<Rightarrow> 'k \<Rightarrow> 'v \<Rightarrow> ('k, 'v) flat_map" where
  "fm_set m key value = snd (fm_insert m key value)"

definition fm_del :: "('k, 'v) flat_map \<Rightarrow> 'k \<Rightarrow> ('k, 'v) flat_map" where
  "fm_del m key = snd (fm_remove m key)"

section \<open>The contract\<close>

locale finite_map =
  fixes empty :: 'm
    and lookup :: "'m \<Rightarrow> 'k \<Rightarrow> 'v option"
    and update :: "'m \<Rightarrow> 'k \<Rightarrow> 'v \<Rightarrow> 'm"
    and delete :: "'m \<Rightarrow> 'k \<Rightarrow> 'm"
    and invar :: "'m \<Rightarrow> bool"
  assumes lookup_empty: "lookup empty k = None"
    and lookup_update: "lookup (update m k v) k' = (if k' = k then Some v else lookup m k')"
    and lookup_delete: "invar m \<Longrightarrow> lookup (delete m k) k' = (if k' = k then None else lookup m k')"
    and invar_empty: "invar empty"
    and invar_update: "invar m \<Longrightarrow> invar (update m k v)"
    and invar_delete: "invar m \<Longrightarrow> invar (delete m k)"
begin

lemma invar_fold_update: "invar m \<Longrightarrow> invar (fold (\<lambda>(k, v) m. update m k v) xs m)"
  by (induction xs arbitrary: m) (auto simp: invar_update)

lemma lookup_fold_update:
  "lookup (fold (\<lambda>(k, v) m. update m k v) xs m) k =
     (case map_of (rev xs) k of Some v \<Rightarrow> Some v | None \<Rightarrow> lookup m k)"
  by (induction xs arbitrary: m)
    (auto simp: lookup_update map_add_def split: option.splits)

end

section \<open>FlatMap meets the contract\<close>

abbreviation fm_wf :: "('k, 'v) flat_map \<Rightarrow> bool" where
  "fm_wf m \<equiv> distinct (map fst m)"

lemma fm_get_eq_map_of: "fm_get m = map_of m"
proof
  fix k show "fm_get m k = map_of m k"
    unfolding fm_get_def by (induction m) auto
qed

lemma fm_get_Nil [simp]: "fm_get [] k = None"
  and fm_get_Cons [simp]: "fm_get ((k', v) # m) k = (if k' = k then Some v else fm_get m k)"
  by (simp_all add: fm_get_def)

lemma fm_set_Nil [simp]: "fm_set [] k v = [(k, v)]"
  and fm_set_Cons [simp]:
    "fm_set ((k', v') # m) k v = (if k' = k then (k', v) # m else (k', v') # fm_set m k v)"
  by (simp_all add: fm_set_def split: prod.splits)

lemma fm_del_Nil [simp]: "fm_del [] k = []"
  and fm_del_Cons [simp]:
    "fm_del ((k', v') # m) k = (if k' = k then m else (k', v') # fm_del m k)"
  by (simp_all add: fm_del_def split: prod.splits)

lemma fm_contains_key_iff [simp]: "fm_contains_key m k \<longleftrightarrow> fm_get m k \<noteq> None"
  by (induction m) (auto simp: fm_contains_key_def fm_get_def)

lemma fm_get_None_iff: "fm_get m k = None \<longleftrightarrow> k \<notin> fst ` set m"
  by (simp add: fm_get_eq_map_of map_of_eq_None_iff)

lemma fm_get_in_set: "fm_get m k = Some v \<Longrightarrow> (k, v) \<in> set m"
  by (simp add: fm_get_eq_map_of map_of_SomeD)

lemma fm_get_set [simp]: "fm_get (fm_set m k v) k' = (if k' = k then Some v else fm_get m k')"
  by (induction m) auto

lemma fm_insert_old: "fst (fm_insert m k v) = fm_get m k"
  by (induction m) (auto simp: case_prod_beta)

lemma fm_remove_old: "fst (fm_remove m k) = fm_get m k"
  by (induction m) (auto simp: case_prod_beta)

lemma fst_set_fm_set: "fst ` set (fm_set m k v) = insert k (fst ` set m)"
proof (induction m)
  case (Cons p m)
  then show ?case by (cases p) (simp add: insert_commute)
qed simp

lemma set_fm_del: "set (fm_del m k) \<subseteq> set m"
  by (induction m) (auto split: if_splits)

lemma fm_wf_set [wf_intros]: "fm_wf m \<Longrightarrow> fm_wf (fm_set m k v)"
proof (induction m)
  case (Cons p m)
  then show ?case
    using fst_set_fm_set [of m k v] by (cases p) auto
qed simp

lemma fm_wf_del [wf_intros]: "fm_wf m \<Longrightarrow> fm_wf (fm_del m k)"
proof (induction m)
  case (Cons p m)
  then show ?case
    using set_fm_del [of m k] by (cases p) auto
qed simp

lemma fm_get_del_same: "fm_wf m \<Longrightarrow> fm_get (fm_del m k) k = None"
proof (induction m)
  case (Cons p m)
  then show ?case by (cases p) (auto simp flip: fm_get_None_iff)
qed simp

lemma fm_get_del_other: "k' \<noteq> k \<Longrightarrow> fm_get (fm_del m k) k' = fm_get m k'"
  by (induction m) auto

lemma fm_get_del [simp]:
  "fm_wf m \<Longrightarrow> fm_get (fm_del m k) k' = (if k' = k then None else fm_get m k')"
  by (simp add: fm_get_del_same fm_get_del_other)

interpretation fm: finite_map fm_new fm_get fm_set fm_del fm_wf
  by unfold_locales (auto simp: fm_new_def fm_wf_set fm_wf_del)

section \<open>Sums and predicates over the values\<close>

definition fm_sum :: "('v \<Rightarrow> nat) \<Rightarrow> ('k, 'v) flat_map \<Rightarrow> nat" where
  "fm_sum f m = sum_list (map (\<lambda>(_, v). f v) m)"

definition fm_all :: "('k \<Rightarrow> 'v \<Rightarrow> bool) \<Rightarrow> ('k, 'v) flat_map \<Rightarrow> bool" where
  "fm_all P m \<longleftrightarrow> (\<forall>(k, v) \<in> set m. P k v)"

lemma fm_sum_Nil [simp]: "fm_sum f [] = 0"
  and fm_sum_Cons [simp]: "fm_sum f ((k, v) # m) = f v + fm_sum f m"
  and fm_all_Nil [simp]: "fm_all P []"
  and fm_all_Cons [simp]: "fm_all P ((k, v) # m) \<longleftrightarrow> P k v \<and> fm_all P m"
  by (simp_all add: fm_sum_def fm_all_def)

lemma fm_all_get: "fm_all P m \<Longrightarrow> fm_get m k = Some v \<Longrightarrow> P k v"
  by (auto simp: fm_all_def dest: fm_get_in_set)

lemma fm_all_set [wf_intros]: "fm_all P m \<Longrightarrow> P k v \<Longrightarrow> fm_all P (fm_set m k v)"
proof (induction m)
  case (Cons p m)
  then show ?case by (cases p) auto
qed simp

lemma fm_all_del [wf_intros]: "fm_all P m \<Longrightarrow> fm_all P (fm_del m k)"
  using set_fm_del [of m k] by (auto simp: fm_all_def)

lemma fm_all_append [simp]: "fm_all P (m @ m') \<longleftrightarrow> fm_all P m \<and> fm_all P m'"
  by (auto simp: fm_all_def)

lemma fm_all_mono: "fm_all P m \<Longrightarrow> (\<And>k v. P k v \<Longrightarrow> Q k v) \<Longrightarrow> fm_all Q m"
  by (auto simp: fm_all_def)

lemma fm_sum_set:
  "fm_sum f (fm_set m k v) + (case fm_get m k of None \<Rightarrow> 0 | Some v0 \<Rightarrow> f v0) = fm_sum f m + f v"
proof (induction m)
  case (Cons p m)
  then show ?case by (cases p) auto
qed simp

lemma fm_sum_del:
  "fm_sum f (fm_del m k) + (case fm_get m k of None \<Rightarrow> 0 | Some v0 \<Rightarrow> f v0) = fm_sum f m"
proof (induction m)
  case (Cons p m)
  then show ?case by (cases p) auto
qed simp

lemma fm_sum_get_le: "fm_get m k = Some v \<Longrightarrow> f v \<le> fm_sum f m"
  using fm_sum_del [of f m k] by simp

lemma fm_set_fresh: "fm_get m k = None \<Longrightarrow> fm_set m k v = m @ [(k, v)]"
proof (induction m)
  case (Cons p m)
  then show ?case by (cases p) auto
qed simp

lemma length_fm_set: "length (fm_set m k v) = (if fm_get m k = None then length m + 1 else length m)"
proof (induction m)
  case (Cons p m)
  then show ?case by (cases p) auto
qed simp

lemma length_fm_del: "length (fm_del m k) \<le> length m"
proof (induction m)
  case (Cons p m)
  then show ?case by (cases p) auto
qed simp

lemma length_fm_del_present: "fm_get m k \<noteq> None \<Longrightarrow> length (fm_del m k) + 1 = length m"
proof (induction m)
  case (Cons p m)
  then show ?case by (cases p) auto
qed simp

lemma fm_or_insert_eq:
  "fm_or_insert m k d =
     (case fm_get m k of Some v \<Rightarrow> (v, m) | None \<Rightarrow> (d, fm_set m k d))"
  by (simp add: fm_or_insert_def fm_set_fresh split: option.splits)

end
