(* ===== verification/Identity.thy ===== *)
theory Identity
  imports Flat_Map "HOL-Library.List_Lexorder" "HOL-Library.Product_Lexorder"
begin

unbundle bit_operations_syntax

text \<open>
  \<^verbatim>\<open>merkle-tox-core/src/identity.rs\<close>: which devices may act for which identity in a conversation.
  Devices are authorized by certificates signed by the identity's master key or by an authorized
  device with administrator rights, and revoked by administrators. The manager answers whether a
  device is authorized, and with which permissions, at a rank and within a causal history.

  Keys and hashes are byte strings, compared lexicographically; \<^verbatim>\<open>to_physical\<close> and \<^verbatim>\<open>to_logical\<close> keep
  the bytes. A \<^verbatim>\<open>HashMap\<close> is a list of entries with distinct keys; its iteration order is
  unspecified, so the runs below may reorder the entries at any time. The signature scheme, the
  encoding of certificates and the cache of the crate \<^verbatim>\<open>lru\<close> are parameters.
\<close>

section \<open>Data\<close>

type_synonym conversation_id = bytes
type_synonym node_hash = bytes
type_synonym public_key = bytes
type_synonym permissions = u32

definition zero_hash :: node_hash where
  "zero_hash = replicate 32 0"

definition i64_max :: int where "i64_max = 2 ^ 63 - 1"
definition u64_max :: nat where "u64_max = 2 ^ 64 - 1"

definition MAX_AUTH_DEPTH :: nat where "MAX_AUTH_DEPTH = 16"
definition MAX_DEVICES_PER_IDENTITY :: nat where "MAX_DEVICES_PER_IDENTITY = 32"
definition MAX_GROUP_DEVICES :: nat where "MAX_GROUP_DEVICES = 4096"

definition PERM_NONE :: permissions where "PERM_NONE = 0"
definition PERM_ADMIN :: permissions where "PERM_ADMIN = 1"
definition PERM_MESSAGE :: permissions where "PERM_MESSAGE = 2"
definition PERM_SYNC :: permissions where "PERM_SYNC = 4"
definition PERM_ALL :: permissions where "PERM_ALL = PERM_ADMIN OR PERM_MESSAGE OR PERM_SYNC"

definition perms_contain :: "permissions \<Rightarrow> permissions \<Rightarrow> bool" where
  "perms_contain p q = (p AND q = q)"

datatype identity_error =
    InvalidSignature
  | Expired int int
  | NoTrustPath
  | ChainTooDeep
  | PermissionEscalation
  | TooManyDevices nat
  | TooManyGroupDevices nat
  | ConversationIdMismatch

record delegation_sign_data =
  sd_version :: nat
  sd_conversation_id :: conversation_id
  sd_device_pk :: public_key
  sd_permissions :: permissions
  sd_expires_at :: int

record delegation_certificate = delegation_sign_data +
  cert_signature :: bytes

definition DELEGATION_VERSION :: nat where "DELEGATION_VERSION = 1"

text \<open>The signature scheme (\<^verbatim>\<open>ed25519_dalek\<close>) and the encoding of what is signed (\<^verbatim>\<open>tox_proto\<close>).\<close>

record crypto =
  cr_serialize :: "delegation_sign_data \<Rightarrow> bytes option"
  cr_sign :: "bytes \<Rightarrow> bytes \<Rightarrow> bytes"
  cr_key_valid :: "public_key \<Rightarrow> bool"
  cr_verify :: "public_key \<Rightarrow> bytes \<Rightarrow> bytes \<Rightarrow> bool"

record auth_record =
  ar_logical_pk :: public_key
  ar_issuer_pk :: public_key
  ar_permissions :: permissions
  ar_expires_at :: int
  ar_auth_rank :: nat
  ar_auth_hash :: node_hash

record revocation_record =
  rv_rank :: nat
  rv_revoker_seniority :: "nat \<times> node_hash"
  rv_revocation_hash :: node_hash

record causal_context =
  ctx_evaluating_node_hash :: node_hash
  ctx_admin_ancestor_hashes :: "node_hash set"

definition ctx_global :: causal_context where
  "ctx_global = \<lparr>ctx_evaluating_node_hash = zero_hash, ctx_admin_ancestor_hashes = {zero_hash}\<rparr>"

type_synonym path_key = "conversation_id \<times> public_key \<times> public_key \<times> node_hash"

text \<open>The operations of \<^verbatim>\<open>lru::LruCache\<close> the manager calls; a lookup may reorder the cache.\<close>

record 'p lru_ops =
  lru_new :: "nat \<Rightarrow> 'p"
  lru_get :: "'p \<Rightarrow> path_key \<Rightarrow> int option \<times> 'p"
  lru_push :: "'p \<Rightarrow> path_key \<Rightarrow> int \<Rightarrow> 'p"
  lru_clear :: "'p \<Rightarrow> 'p"

record 'p identity_manager =
  authorized_devices :: "(conversation_id \<times> public_key, auth_record list) flat_map"
  logical_members :: "(conversation_id \<times> public_key, u8 \<times> int) flat_map"
  revoked_devices :: "(conversation_id \<times> public_key, revocation_record list) flat_map"
  path_cache :: 'p

definition im_new :: "'p lru_ops \<Rightarrow> 'p identity_manager" where
  "im_new lru =
     \<lparr>authorized_devices = fm_new, logical_members = fm_new, revoked_devices = fm_new,
      path_cache = lru_new lru 1000\<rparr>"

section \<open>Certificates\<close>

text \<open>A certificate is made for the current version; a failing encoder panics.\<close>

definition sign_delegation ::
    "crypto \<Rightarrow> bytes \<Rightarrow> public_key \<Rightarrow> permissions \<Rightarrow> int \<Rightarrow> conversation_id \<Rightarrow> delegation_certificate panics" where
  "sign_delegation cr signing_key device_pk perms expires_at cid =
     do {
       let sign_data = \<lparr>sd_version = DELEGATION_VERSION, sd_conversation_id = cid, sd_device_pk = device_pk,
                        sd_permissions = perms, sd_expires_at = expires_at\<rparr>;
       signed_data \<leftarrow> cr_serialize cr sign_data;
       Some (delegation_sign_data.extend sign_data
               (delegation_certificate.fields (cr_sign cr signing_key signed_data)))
     }"

definition verify_delegation ::
    "crypto \<Rightarrow> delegation_certificate \<Rightarrow> public_key \<Rightarrow> int \<Rightarrow> identity_error + unit" where
  "verify_delegation cr cert issuer_pk now_ms =
     (if sd_expires_at cert < now_ms then Inl (Expired (sd_expires_at cert) now_ms)
      else if \<not> cr_key_valid cr issuer_pk then Inl InvalidSignature
      else (case cr_serialize cr (delegation_sign_data.truncate cert) of
              None \<Rightarrow> Inl InvalidSignature
            | Some signed_data \<Rightarrow>
                if cr_verify cr issuer_pk signed_data (cert_signature cert) then Inr ()
                else Inl InvalidSignature))"

section \<open>Queries\<close>

text \<open>
  Two devices have revoked each other: the device that owns the revoker's authorization has in turn
  been revoked under the target's authorization. The zero hash stands for the master key.
\<close>

definition is_mutual_revocation ::
    "'p identity_manager \<Rightarrow> conversation_id \<Rightarrow> node_hash \<Rightarrow> node_hash \<Rightarrow> bool" where
  "is_mutual_revocation im cid revoker_auth_hash target_auth_hash =
     (if revoker_auth_hash = zero_hash \<or> target_auth_hash = zero_hash then False
      else (case find (\<lambda>((c, _), records). c = cid \<and> list_ex (\<lambda>r. ar_auth_hash r = revoker_auth_hash) records)
                   (authorized_devices im) of
              None \<Rightarrow> False
            | Some ((_, rk), _) \<Rightarrow>
                (case fm_get (revoked_devices im) (cid, rk) of
                   None \<Rightarrow> False
                 | Some revs \<Rightarrow> list_ex (\<lambda>r. snd (rv_revoker_seniority r) = target_auth_hash) revs)))"

text \<open>Whether one revocation record applies to an authorization record.\<close>

definition revocation_applies ::
    "'p identity_manager \<Rightarrow> causal_context \<Rightarrow> conversation_id \<Rightarrow> nat \<Rightarrow> auth_record \<Rightarrow> revocation_record \<Rightarrow> bool" where
  "revocation_applies im ctx cid rank r rv =
     (let my_seniority = (ar_auth_rank r, ar_auth_hash r);
          in_history = rv_revocation_hash rv = zero_hash \<or> ctx_evaluating_node_hash ctx = zero_hash
                         \<or> rv_revocation_hash rv \<in> ctx_admin_ancestor_hashes ctx
      in if in_history \<and> rv_rank rv \<le> rank then
           (if is_mutual_revocation im cid (snd (rv_revoker_seniority rv)) (ar_auth_hash r)
            then rv_revoker_seniority rv \<le> my_seniority
            else fst (rv_revoker_seniority rv) \<le> fst my_seniority)
         else False)"

definition is_revoked ::
    "'p identity_manager \<Rightarrow> causal_context \<Rightarrow> conversation_id \<Rightarrow> public_key \<Rightarrow> nat \<Rightarrow> auth_record \<Rightarrow> bool" where
  "is_revoked im ctx cid device_pk rank r =
     (case fm_get (revoked_devices im) (cid, device_pk) of
        None \<Rightarrow> False
      | Some revs \<Rightarrow> list_ex (revocation_applies im ctx cid rank r) revs)"

text \<open>The records of a device the two recursive searches below do not skip.\<close>

definition record_usable ::
    "'p identity_manager \<Rightarrow> causal_context \<Rightarrow> conversation_id \<Rightarrow> public_key \<Rightarrow> public_key \<Rightarrow> int \<Rightarrow> nat
       \<Rightarrow> auth_record \<Rightarrow> bool" where
  "record_usable im ctx cid device_pk logical_pk now_ms rank r =
     (if ar_logical_pk r \<noteq> logical_pk \<or> ar_expires_at r \<le> now_ms \<or> ar_auth_rank r > rank then False
      else if ctx_evaluating_node_hash ctx \<noteq> zero_hash \<and> ar_auth_hash r \<noteq> zero_hash
                \<and> ar_auth_hash r \<notin> ctx_admin_ancestor_hashes ctx then False
      else \<not> is_revoked im ctx cid device_pk rank r)"

text \<open>The best of two results: \<^verbatim>\<open>map_or(x, |old| combine(old, x))\<close>.\<close>

definition join_opt :: "('a \<Rightarrow> 'a \<Rightarrow> 'a) \<Rightarrow> 'a \<Rightarrow> 'a option \<Rightarrow> 'a option" where
  "join_opt f x acc = Some (case acc of None \<Rightarrow> x | Some old \<Rightarrow> f old x)"

text \<open>
  The search for a valid path to the master key, up to \<^const>\<open>MAX_AUTH_DEPTH\<close>; the result is the time
  at which the best path expires.
\<close>

function is_authorized_recursive ::
    "'p identity_manager \<Rightarrow> causal_context \<Rightarrow> conversation_id \<Rightarrow> public_key \<Rightarrow> public_key \<Rightarrow> int \<Rightarrow> nat \<Rightarrow> nat
       \<Rightarrow> int option" where
  "is_authorized_recursive im ctx cid device_pk logical_pk now_ms rank depth =
     (if depth > MAX_AUTH_DEPTH then None
      else if device_pk = logical_pk then Some i64_max
      else (case fm_get (authorized_devices im) (cid, device_pk) of
              None \<Rightarrow> None
            | Some records \<Rightarrow>
                fold (\<lambda>r max_expires.
                        if \<not> record_usable im ctx cid device_pk logical_pk now_ms rank r then max_expires
                        else if ar_issuer_pk r = logical_pk then join_opt max (ar_expires_at r) max_expires
                        else (case is_authorized_recursive im ctx cid (ar_issuer_pk r) logical_pk now_ms rank (depth + 1) of
                                None \<Rightarrow> max_expires
                              | Some issuer_expires \<Rightarrow> join_opt max (min (ar_expires_at r) issuer_expires) max_expires))
                     records None))"
  by pat_completeness auto
termination by (relation "measure (\<lambda>(im, ctx, cid, d, l, now, rank, depth). Suc MAX_AUTH_DEPTH - depth)") auto

declare is_authorized_recursive.simps [simp del]

text \<open>The same search for permissions: the union over all paths of the intersection along a path.\<close>

function get_permissions_recursive ::
    "'p identity_manager \<Rightarrow> causal_context \<Rightarrow> conversation_id \<Rightarrow> public_key \<Rightarrow> public_key \<Rightarrow> int \<Rightarrow> nat \<Rightarrow> nat
       \<Rightarrow> permissions option" where
  "get_permissions_recursive im ctx cid device_pk logical_pk now_ms rank depth =
     (if depth > MAX_AUTH_DEPTH then None
      else if device_pk = logical_pk then Some PERM_ALL
      else (case fm_get (authorized_devices im) (cid, device_pk) of
              None \<Rightarrow> None
            | Some records \<Rightarrow>
                fold (\<lambda>r effective_perms.
                        if \<not> record_usable im ctx cid device_pk logical_pk now_ms rank r then effective_perms
                        else if ar_issuer_pk r = logical_pk then join_opt (OR) (ar_permissions r) effective_perms
                        else (case get_permissions_recursive im ctx cid (ar_issuer_pk r) logical_pk now_ms rank (depth + 1) of
                                None \<Rightarrow> effective_perms
                              | Some issuer_perms \<Rightarrow> join_opt (OR) (ar_permissions r AND issuer_perms) effective_perms))
                     records None))"
  by pat_completeness auto
termination by (relation "measure (\<lambda>(im, ctx, cid, d, l, now, rank, depth). Suc MAX_AUTH_DEPTH - depth)") auto

declare get_permissions_recursive.simps [simp del]

definition get_permissions ::
    "'p identity_manager \<Rightarrow> causal_context \<Rightarrow> conversation_id \<Rightarrow> public_key \<Rightarrow> public_key \<Rightarrow> int \<Rightarrow> nat
       \<Rightarrow> permissions option" where
  "get_permissions im ctx cid device_pk logical_pk now_ms rank =
     get_permissions_recursive im ctx cid device_pk logical_pk now_ms rank 0"

definition is_admin ::
    "'p identity_manager \<Rightarrow> causal_context \<Rightarrow> conversation_id \<Rightarrow> public_key \<Rightarrow> public_key \<Rightarrow> int \<Rightarrow> nat \<Rightarrow> bool" where
  "is_admin im ctx cid device_pk logical_pk now_ms rank =
     (case get_permissions im ctx cid device_pk logical_pk now_ms rank of
        None \<Rightarrow> False
      | Some p \<Rightarrow> perms_contain p PERM_ADMIN)"

text \<open>The length of the shortest chain of records, whether or not they are still valid.\<close>

function get_auth_depth_recursive ::
    "'p identity_manager \<Rightarrow> conversation_id \<Rightarrow> public_key \<Rightarrow> public_key \<Rightarrow> nat \<Rightarrow> nat \<Rightarrow> nat option" where
  "get_auth_depth_recursive im cid device_pk logical_pk rank depth =
     (if depth > MAX_AUTH_DEPTH then None
      else if device_pk = logical_pk then Some 0
      else (case fm_get (authorized_devices im) (cid, device_pk) of
              None \<Rightarrow> None
            | Some records \<Rightarrow>
                fold (\<lambda>r min_depth.
                        if ar_logical_pk r = logical_pk \<and> ar_auth_rank r \<le> rank then
                          (case get_auth_depth_recursive im cid (ar_issuer_pk r) logical_pk rank (depth + 1) of
                             None \<Rightarrow> min_depth
                           | Some d \<Rightarrow> join_opt min (d + 1) min_depth)
                        else min_depth)
                     records None))"
  by pat_completeness auto
termination by (relation "measure (\<lambda>(im, cid, d, l, rank, depth). Suc MAX_AUTH_DEPTH - depth)") auto

declare get_auth_depth_recursive.simps [simp del]

definition get_auth_depth :: "'p identity_manager \<Rightarrow> conversation_id \<Rightarrow> public_key \<Rightarrow> public_key \<Rightarrow> nat \<Rightarrow> nat option" where
  "get_auth_depth im cid device_pk logical_pk rank = get_auth_depth_recursive im cid device_pk logical_pk rank 0"

text \<open>\<^verbatim>\<open>is_authorized\<close> asks the cache first and remembers a positive answer; it returns the cache too.\<close>

definition is_authorized ::
    "'p lru_ops \<Rightarrow> 'p identity_manager \<Rightarrow> causal_context \<Rightarrow> conversation_id \<Rightarrow> public_key \<Rightarrow> public_key \<Rightarrow> int \<Rightarrow> nat
       \<Rightarrow> bool \<times> 'p identity_manager" where
  "is_authorized lru im ctx cid device_pk logical_pk now_ms rank =
     (if device_pk = logical_pk then (True, im)
      else
        (let key = (cid, device_pk, logical_pk, ctx_evaluating_node_hash ctx);
             (hit, cache) = lru_get lru (path_cache im) key;
             im' = im\<lparr>path_cache := cache\<rparr>
         in if (case hit of None \<Rightarrow> False | Some expires_at \<Rightarrow> expires_at > now_ms) then (True, im')
            else (case is_authorized_recursive im ctx cid device_pk logical_pk now_ms rank 0 of
                    None \<Rightarrow> (False, im')
                  | Some expires_at \<Rightarrow> (True, im'\<lparr>path_cache := lru_push lru cache key expires_at\<rparr>))))"

definition has_authorization_record :: "'p identity_manager \<Rightarrow> conversation_id \<Rightarrow> public_key \<Rightarrow> bool" where
  "has_authorization_record im cid device_pk = fm_contains_key (authorized_devices im) (cid, device_pk)"

definition list_members :: "'p identity_manager \<Rightarrow> conversation_id \<Rightarrow> (public_key \<times> u8 \<times> int) list" where
  "list_members im cid =
     sort_key fst (map (\<lambda>((_, pk), role, joined). (pk, role, joined))
       (filter (\<lambda>((c, _), _). c = cid) (logical_members im)))"

definition get_founder :: "'p identity_manager \<Rightarrow> conversation_id \<Rightarrow> public_key option" where
  "get_founder im cid =
     map_option (\<lambda>((_, pk), _). pk) (find (\<lambda>((c, _), role, _). c = cid \<and> role = 0) (logical_members im))"

definition list_authorized_devices :: "'p identity_manager \<Rightarrow> conversation_id \<Rightarrow> public_key list" where
  "list_authorized_devices im cid =
     sort (map (\<lambda>((_, pk), _). pk) (filter (\<lambda>((c, _), _). c = cid) (authorized_devices im)))"

definition resolve_logical_pk :: "'p identity_manager \<Rightarrow> conversation_id \<Rightarrow> public_key \<Rightarrow> public_key option" where
  "resolve_logical_pk im cid device_pk =
     (case fm_get (logical_members im) (cid, device_pk) of
        Some _ \<Rightarrow> Some device_pk
      | None \<Rightarrow>
          (case fm_get (authorized_devices im) (cid, device_pk) of
             None \<Rightarrow> None
           | Some [] \<Rightarrow> None
           | Some (r # _) \<Rightarrow> Some (ar_logical_pk r)))"

text \<open>The devices found for each member, then the member's own key when it has none.\<close>

fun active_for ::
    "'p lru_ops \<Rightarrow> causal_context \<Rightarrow> conversation_id \<Rightarrow> public_key \<Rightarrow> int \<Rightarrow> nat \<Rightarrow> public_key list
       \<Rightarrow> 'p identity_manager \<Rightarrow> public_key list \<times> 'p identity_manager" where
  "active_for lru ctx cid logical_pk now_ms rank [] im = ([], im)"
| "active_for lru ctx cid logical_pk now_ms rank (d # ds) im =
     (let (ok, im1) = is_authorized lru im ctx cid d logical_pk now_ms rank;
          (rest, im2) = active_for lru ctx cid logical_pk now_ms rank ds im1
      in (if ok then d # rest else rest, im2))"

fun active_members ::
    "'p lru_ops \<Rightarrow> causal_context \<Rightarrow> conversation_id \<Rightarrow> int \<Rightarrow> nat \<Rightarrow> public_key list \<Rightarrow> (public_key \<times> u8 \<times> int) list
       \<Rightarrow> 'p identity_manager \<Rightarrow> public_key list \<times> 'p identity_manager" where
  "active_members lru ctx cid now_ms rank candidates [] im = ([], im)"
| "active_members lru ctx cid now_ms rank candidates ((logical_pk, _, _) # ms) im =
     (let (found, im1) = active_for lru ctx cid logical_pk now_ms rank candidates im;
          (rest, im2) = active_members lru ctx cid now_ms rank candidates ms im1
      in ((if found = [] then [logical_pk] else found) @ rest, im2))"

definition list_active_authorized_devices ::
    "'p lru_ops \<Rightarrow> 'p identity_manager \<Rightarrow> causal_context \<Rightarrow> conversation_id \<Rightarrow> int \<Rightarrow> nat
       \<Rightarrow> public_key list \<times> 'p identity_manager" where
  "list_active_authorized_devices lru im ctx cid now_ms rank =
     (let candidates = map snd (filter (\<lambda>(c, _). c = cid) (fm_keys (authorized_devices im)));
          (devices, im') = active_members lru ctx cid now_ms rank candidates (list_members im cid) im
      in (remdups_adj (sort devices), im'))"

definition list_all_authorized_sender_pairs ::
    "'p identity_manager \<Rightarrow> conversation_id \<Rightarrow> (public_key \<times> public_key) list" where
  "list_all_authorized_sender_pairs im cid =
     (let pairs = concat (map (\<lambda>((c, device_pk), records).
                    if c = cid then map (\<lambda>r. (device_pk, ar_logical_pk r)) records else [])
                    (authorized_devices im));
          all_pairs = fold (\<lambda>(c, logical_pk) ps.
                    if c = cid \<and> (logical_pk, logical_pk) \<notin> set ps then ps @ [(logical_pk, logical_pk)] else ps)
                    (fm_keys (logical_members im)) pairs
      in remdups_adj (sort all_pairs))"

definition get_admin_seniority :: "'p identity_manager \<Rightarrow> conversation_id \<Rightarrow> public_key \<Rightarrow> (nat \<times> node_hash) option" where
  "get_admin_seniority im cid device_pk =
     (case fm_get (authorized_devices im) (cid, device_pk) of
        None \<Rightarrow> None
      | Some records \<Rightarrow>
          fold (\<lambda>r acc. join_opt min (ar_auth_rank r, ar_auth_hash r) acc)
            (filter (\<lambda>r. perms_contain (ar_permissions r) PERM_ADMIN) records) None)"

definition list_authorized_devices_for_author ::
    "'p identity_manager \<Rightarrow> conversation_id \<Rightarrow> public_key \<Rightarrow> public_key list" where
  "list_authorized_devices_for_author im cid logical_pk =
     (let pks = map (\<lambda>((_, pk), _). pk)
                  (filter (\<lambda>((c, _), records). c = cid \<and> list_ex (\<lambda>r. ar_logical_pk r = logical_pk) records)
                     (authorized_devices im))
      in sort (if logical_pk \<in> set pks then pks else pks @ [logical_pk]))"

section \<open>Updates\<close>

definition add_member ::
    "'p identity_manager \<Rightarrow> conversation_id \<Rightarrow> public_key \<Rightarrow> u8 \<Rightarrow> int \<Rightarrow> 'p identity_manager" where
  "add_member im cid logical_pk role joined_at =
     im\<lparr>logical_members := fm_set (logical_members im) (cid, logical_pk) (role, joined_at)\<rparr>"

text \<open>The seniority of a revoker: the master key is the most senior, a stranger the least.\<close>

definition revoker_seniority_of ::
    "'p identity_manager \<Rightarrow> conversation_id \<Rightarrow> public_key \<Rightarrow> public_key \<Rightarrow> nat \<Rightarrow> int \<Rightarrow> nat \<times> node_hash" where
  "revoker_seniority_of im cid revoker_pk revoker_logical_pk rank now_ms =
     (let lowest = (u64_max, replicate 32 0xFF) in
      if revoker_pk = revoker_logical_pk then (0, zero_hash)
      else (case fm_get (authorized_devices im) (cid, revoker_pk) of
              None \<Rightarrow> lowest
            | Some records \<Rightarrow>
                fold (\<lambda>r best.
                        if ar_logical_pk r = revoker_logical_pk \<and> ar_expires_at r > now_ms
                             \<and> ar_auth_rank r \<le> rank \<and> perms_contain (ar_permissions r) PERM_ADMIN
                        then (let seniority = (ar_auth_rank r, ar_auth_hash r) in
                              if seniority < best then seniority else best)
                        else best)
                     records lowest))"

definition revoke_device ::
    "'p lru_ops \<Rightarrow> 'p identity_manager \<Rightarrow> conversation_id \<Rightarrow> public_key \<Rightarrow> public_key \<Rightarrow> public_key \<Rightarrow> nat \<Rightarrow> int
       \<Rightarrow> node_hash \<Rightarrow> 'p identity_manager" where
  "revoke_device lru im cid revoker_pk revoker_logical_pk target_device_pk rank now_ms revocation_hash =
     (let new_rec = \<lparr>rv_rank = rank,
                     rv_revoker_seniority = revoker_seniority_of im cid revoker_pk revoker_logical_pk rank now_ms,
                     rv_revocation_hash = revocation_hash\<rparr>;
          list = (case fm_get (revoked_devices im) (cid, target_device_pk) of
                    Some revs \<Rightarrow> revs @ [new_rec] | None \<Rightarrow> [new_rec])
      in im\<lparr>revoked_devices := fm_set (revoked_devices im) (cid, target_device_pk) list,
            path_cache := lru_clear lru (path_cache im)\<rparr>)"

definition remove_member ::
    "'p lru_ops \<Rightarrow> 'p identity_manager \<Rightarrow> conversation_id \<Rightarrow> public_key \<Rightarrow> public_key \<Rightarrow> public_key \<Rightarrow> nat \<Rightarrow> int
       \<Rightarrow> node_hash \<Rightarrow> 'p identity_manager" where
  "remove_member lru im cid revoker_pk revoker_logical_pk logical_pk rank now_ms revocation_hash =
     (let im1 = im\<lparr>logical_members := fm_del (logical_members im) (cid, logical_pk)\<rparr>;
          devices_to_remove = map (\<lambda>((_, d), _). d)
            (filter (\<lambda>((c, _), records). c = cid \<and> list_ex (\<lambda>r. ar_logical_pk r = logical_pk) records)
               (authorized_devices im1))
      in fold (\<lambda>d m. revoke_device lru m cid revoker_pk revoker_logical_pk d rank now_ms revocation_hash)
           devices_to_remove im1)"

text \<open>A record is added to the device's list unless it is already there.\<close>

definition add_record :: "'p identity_manager \<Rightarrow> conversation_id \<Rightarrow> public_key \<Rightarrow> auth_record \<Rightarrow> 'p identity_manager" where
  "add_record im cid device_pk r =
     (let records = (case fm_get (authorized_devices im) (cid, device_pk) of None \<Rightarrow> [] | Some rs \<Rightarrow> rs)
      in im\<lparr>authorized_devices := fm_set (authorized_devices im) (cid, device_pk)
              (if r \<in> set records then records else records @ [r])\<rparr>)"

text \<open>
  The search for the issuer: the first record of the conversation whose device claims administrator
  rights, signed the certificate and effectively has the rights.
\<close>

definition issuer_candidate ::
    "crypto \<Rightarrow> 'p identity_manager \<Rightarrow> causal_context \<Rightarrow> conversation_id \<Rightarrow> public_key \<Rightarrow> delegation_certificate \<Rightarrow> int
       \<Rightarrow> nat \<Rightarrow> public_key \<Rightarrow> auth_record \<Rightarrow> permissions option" where
  "issuer_candidate cr im ctx cid logical_pk cert now_ms rank dev_pk r =
     (if ar_logical_pk r = logical_pk \<and> ar_expires_at r > now_ms \<and> ar_auth_rank r \<le> rank then
        if \<not> perms_contain (ar_permissions r) PERM_ADMIN then None
        else if verify_delegation cr cert dev_pk now_ms = Inr () then
          (case get_permissions_recursive im ctx cid dev_pk logical_pk now_ms rank 0 of
             None \<Rightarrow> None
           | Some effective \<Rightarrow> if perms_contain effective PERM_ADMIN then Some effective else None)
        else None
      else None)"

fun first_some :: "('a \<Rightarrow> 'b option) \<Rightarrow> 'a list \<Rightarrow> 'b option" where
  "first_some f [] = None"
| "first_some f (x # xs) = (case f x of None \<Rightarrow> first_some f xs | Some y \<Rightarrow> Some y)"

definition find_issuer ::
    "crypto \<Rightarrow> 'p identity_manager \<Rightarrow> causal_context \<Rightarrow> conversation_id \<Rightarrow> public_key \<Rightarrow> delegation_certificate \<Rightarrow> int
       \<Rightarrow> nat \<Rightarrow> (public_key \<times> permissions) option" where
  "find_issuer cr im ctx cid logical_pk cert now_ms rank =
     first_some (\<lambda>((c, dev_pk), records).
         if c \<noteq> cid then None
         else map_option (\<lambda>effective. (dev_pk, effective))
                (first_some (issuer_candidate cr im ctx cid logical_pk cert now_ms rank dev_pk) records))
       (authorized_devices im)"

definition authorize_device ::
    "crypto \<Rightarrow> 'p lru_ops \<Rightarrow> 'p identity_manager \<Rightarrow> causal_context \<Rightarrow> conversation_id \<Rightarrow> public_key \<Rightarrow> delegation_certificate
       \<Rightarrow> int \<Rightarrow> nat \<Rightarrow> node_hash \<Rightarrow> (identity_error + unit) \<times> 'p identity_manager" where
  "authorize_device cr lru im0 ctx cid logical_pk cert now_ms rank auth_hash =
     (let im = im0\<lparr>path_cache := lru_clear lru (path_cache im0)\<rparr>;
          record_by = (\<lambda>issuer. \<lparr>ar_logical_pk = logical_pk, ar_issuer_pk = issuer,
                         ar_permissions = sd_permissions cert, ar_expires_at = sd_expires_at cert,
                         ar_auth_rank = rank, ar_auth_hash = auth_hash\<rparr>)
      in if sd_conversation_id cert \<noteq> cid then (Inl ConversationIdMismatch, im)
         else if verify_delegation cr cert logical_pk now_ms = Inr () then
           (Inr (), add_record im cid (sd_device_pk cert) (record_by logical_pk))
         else (case find_issuer cr im ctx cid logical_pk cert now_ms rank of
                 None \<Rightarrow> (Inl NoTrustPath, im)
               | Some (issuer, issuer_perms) \<Rightarrow>
                   if \<not> perms_contain issuer_perms (sd_permissions cert) then (Inl PermissionEscalation, im)
                   else if (case get_auth_depth im cid issuer logical_pk rank of None \<Rightarrow> 0 | Some d \<Rightarrow> d) + 1
                             > MAX_AUTH_DEPTH then (Inl ChainTooDeep, im)
                   else if length (filter (\<lambda>((c, _), records). c = cid \<and>
                               list_ex (\<lambda>r. ar_logical_pk r = logical_pk) records) (authorized_devices im))
                             \<ge> MAX_DEVICES_PER_IDENTITY then (Inl (TooManyDevices MAX_DEVICES_PER_IDENTITY), im)
                   else if length (filter (\<lambda>((c, _), _). c = cid) (authorized_devices im))
                             \<ge> MAX_GROUP_DEVICES then (Inl (TooManyGroupDevices MAX_GROUP_DEVICES), im)
                   else (Inr (), add_record im cid (sd_device_pk cert) (record_by issuer))))"

end
