(* ===== verification/Dag.thy ===== *)
theory Dag
  imports Identity
begin

unbundle bit_operations_syntax

text \<open>
  \<^verbatim>\<open>merkle-tox-core/src/dag.rs\<close>: the nodes of a conversation's history, how they are hashed and
  authenticated, and the rules a node has to satisfy to extend the history. The wire format is in
  the theory \<open>Dag_Wire\<close>, the stores the rules look parents up in are in \<open>Node_Store\<close>.

  Ranks and sequence numbers are \<^verbatim>\<open>u64\<close> values kept as natural numbers, timestamps \<^verbatim>\<open>i64\<close> values kept as
  integers; a sum that leaves the type's range panics. The encoding derived by \<^verbatim>\<open>tox_proto\<close>, \<^verbatim>\<open>blake3\<close>
  and \<^verbatim>\<open>ed25519_dalek\<close> are parameters.
\<close>

section \<open>Data\<close>

datatype node_auth = EphemeralSignature bytes | Signature bytes

datatype emoji_source = Unicode string | CustomEmoji bytes string

record member_info =
  mi_public_key :: public_key
  mi_role :: u8
  mi_joined_at :: int

record signed_pre_key =
  sp_public_key :: public_key
  sp_signature :: bytes
  sp_expires_at :: int

record wrapped_key =
  wk_recipient_pk :: public_key
  wk_opk_id :: node_hash
  wk_ciphertext :: bytes

record snapshot_data =
  sn_basis_hash :: node_hash
  sn_members :: "member_info list"
  sn_last_seq_numbers :: "(public_key \<times> nat) list"

datatype control_action =
    Genesis string public_key permissions nat int nat
  | SetTitle string
  | SetTopic string
  | Invite public_key u8
  | Leave public_key
  | AuthorizeDevice delegation_certificate
  | RevokeDevice public_key string
  | Announcement "signed_pre_key list" signed_pre_key
  | HandshakePulse
  | Snapshot snapshot_data
  | AnchorSnapshot snapshot_data delegation_certificate
  | SoftAnchor node_hash delegation_certificate

text \<open>A \<^verbatim>\<open>f64\<close> coordinate is kept as its 64 bits.\<close>

datatype content =
    Custom u32 bytes
  | KeyWrap nat node_hash public_key "wrapped_key list"
  | SenderKeyDistribution public_key "wrapped_key list" public_key "bytes list"
  | HistoryExport node_hash nat "bytes option" public_key "wrapped_key list"
  | Control control_action
  | Text string
  | Blob node_hash string string nat bytes
  | Location u64 u64 "string option"
  | Edit node_hash string
  | Reaction node_hash emoji_source
  | Redaction node_hash string
  | LegacyBridge public_key string u8 node_hash
  | Unknown u32 bytes

datatype node_type = Admin | Content

fun content_node_type :: "content \<Rightarrow> node_type" where
  "content_node_type (KeyWrap _ _ _ _) = Admin"
| "content_node_type (Control (Genesis _ _ _ _ _ _)) = Admin"
| "content_node_type (Control (AuthorizeDevice _)) = Admin"
| "content_node_type (Control (RevokeDevice _ _)) = Admin"
| "content_node_type (Control (Snapshot _)) = Admin"
| "content_node_type (Control (AnchorSnapshot _ _)) = Admin"
| "content_node_type (Control (SoftAnchor _ _)) = Admin"
| "content_node_type _ = Content"

text \<open>The field \<^verbatim>\<open>pow_nonce\<close> is not encoded, so the encoded fields are a record of their own.\<close>

record node_data =
  nd_parents :: "node_hash list"
  nd_author_pk :: public_key
  nd_sender_pk :: public_key
  nd_sequence_number :: nat
  nd_topological_rank :: nat
  nd_network_timestamp :: int
  nd_content :: content
  nd_metadata :: bytes
  nd_authentication :: node_auth

record merkle_node = node_data +
  mn_pow_nonce :: nat

type_synonym wire_flags = u32

definition FLAGS_NONE :: wire_flags where "FLAGS_NONE = 0"
definition COMPRESSED :: wire_flags where "COMPRESSED = 1"
definition ENCRYPTED :: wire_flags where "ENCRYPTED = 2"

definition flags_contain :: "wire_flags \<Rightarrow> wire_flags \<Rightarrow> bool" where
  "flags_contain f g = (f AND g = g)"

text \<open>The fields of a wire node that are signed, and the wire node.\<close>

record wire_auth_data =
  wn_parents :: "node_hash list"
  wn_sender_hint :: bytes
  wn_encrypted_routing :: bytes
  wn_payload_data :: bytes
  wn_topological_rank :: nat
  wn_flags :: wire_flags

record wire_node = wire_auth_data +
  wn_authentication :: node_auth

definition POW_DIFFICULTY :: nat where "POW_DIFFICULTY = 20"
definition MAX_SOFT_ANCHOR_CHAIN :: nat where "MAX_SOFT_ANCHOR_CHAIN = 3"
definition MAX_PARENTS :: nat where "MAX_PARENTS = 16"
definition MAX_ANCESTRY_HOPS :: nat where "MAX_ANCESTRY_HOPS = 500"
definition MAX_METADATA_SIZE :: nat where "MAX_METADATA_SIZE = 32 * 1024"
definition MAX_MESSAGE_SIZE :: nat where "MAX_MESSAGE_SIZE = 1048576"
definition MIN_PADDING_BIN :: nat where "MIN_PADDING_BIN = 128"

datatype validation_error =
    MaxParentsExceeded nat nat
  | MaxMetadataExceeded nat nat
  | TooManySpeculativeNodes
  | TooManyVerifiedNodes
  | PoWInvalid
  | EmptyDag
  | InvalidWirePayloadSize nat nat
  | AncestryCapExceeded nat nat
  | TopologicalRankViolation nat nat
  | MissingParents "node_hash list"
  | InvalidAdminSignature
  | GenesisMacWithParents
  | AdminCannotHaveContentParent
  | ContentNodeShouldUseMac
  | AdminNodeShouldUseSignature
  | DuplicateParent node_hash
  | InvalidSequenceNumber nat nat
  | InvalidPadding string
  | DecompressionFailed string
  | MacMismatch
  | MaxMessageSizeExceeded nat nat
  | SoftAnchorInvalidParent
  | SoftAnchorChainingCapExceeded nat nat
  | InvalidEditTarget
  | EditAuthorMismatch
  | RedactionPermissionDenied
  | InvalidReactionTarget
  | InvalidLegacyBridgeDedup

text \<open>The errors of the crate; a foreign error is kept as its message.\<close>

datatype merkle_tox_error =
    IoError string
  | SerializationError string
  | DeserializationError string
  | ProtocolError string
  | IdentityErr identity_error
  | ValidationErr validation_error
  | CryptoError string
  | PermissionDenied public_key u32 u32
  | NodeNotFound node_hash
  | KeyNotFound conversation_id nat
  | BlobNotFound node_hash
  | RatchetError string
  | ReconciliationError string
  | Quarantined node_hash
  | StorageError string
  | NotAuthorized
  | OtherError string

type_synonym 'a merkle_result = "merkle_tox_error + 'a"

text \<open>
  The encoders of \<^verbatim>\<open>tox_proto\<close> for the types of this module, and the hash of \<^verbatim>\<open>blake3\<close>; the signature
  scheme comes with the record of the identities.
\<close>

record dag_env = crypto +
  de_ser_content :: "content \<Rightarrow> bytes option"
  de_ser_action :: "control_action \<Rightarrow> bytes option"
  de_ser_node :: "node_data \<Rightarrow> bytes option"
  de_ser_wire_auth :: "wire_auth_data \<Rightarrow> bytes option"
  de_blake3 :: "bytes \<Rightarrow> bytes"

section \<open>Integers as bytes\<close>

definition to_be_bytes :: "u64 \<Rightarrow> bytes" where
  "to_be_bytes w = map (\<lambda>i. ucast (drop_bit (8 * i) w)) [7, 6, 5, 4, 3, 2, 1, 0]"

definition to_le_bytes :: "u64 \<Rightarrow> bytes" where
  "to_le_bytes w = rev (to_be_bytes w)"

definition from_be_bytes :: "bytes \<Rightarrow> u64" where
  "from_be_bytes bs = foldl (\<lambda>acc b. push_bit 8 acc OR ucast b) 0 bs"

definition u64_be :: "nat \<Rightarrow> bytes" where "u64_be n = to_be_bytes (of_nat n)"
definition i64_be :: "int \<Rightarrow> bytes" where "i64_be t = to_be_bytes (word_of_int t)"
definition u64_of_be :: "bytes \<Rightarrow> nat" where "u64_of_be bs = unat (from_be_bytes bs)"
definition i64_of_be :: "bytes \<Rightarrow> int" where "i64_of_be bs = sint (from_be_bytes bs)"

text \<open>\<^verbatim>\<open>a + b\<close> on \<^verbatim>\<open>u64\<close>: the overflow check panics.\<close>

definition add_u64 :: "nat \<Rightarrow> nat \<Rightarrow> nat panics" where
  "add_u64 a b = (if a + b \<le> u64_max then Some (a + b) else None)"

section \<open>Padding\<close>

text \<open>\<^verbatim>\<open>usize::next_power_of_two\<close>\<close>

function next_pow2_from :: "nat \<Rightarrow> nat \<Rightarrow> nat" where
  "next_pow2_from p n = (if p = 0 \<or> n \<le> p then p else next_pow2_from (2 * p) n)"
  by pat_completeness auto
termination by (relation "measure (\<lambda>(p, n). n - p)") auto

declare next_pow2_from.simps [simp del]

definition next_power_of_two :: "nat \<Rightarrow> nat" where
  "next_power_of_two n = next_pow2_from 1 n"

text \<open>A marker byte, then zeros up to the next power of two and at least the smallest bin.\<close>

definition apply_padding :: "bytes \<Rightarrow> bytes" where
  "apply_padding d =
     (let marked = d @ [0x80];
          target_len = max (next_power_of_two (length marked)) MIN_PADDING_BIN
      in take target_len marked @ replicate (target_len - length marked) 0)"

text \<open>\<^verbatim>\<open>rposition(|x| x != 0)\<close>: the position of the last byte that is not zero.\<close>

definition last_nonzero :: "bytes \<Rightarrow> nat option" where
  "last_nonzero d = find (\<lambda>i. d ! i \<noteq> 0) (rev [0..<length d])"

definition remove_padding :: "bytes \<Rightarrow> string + bytes" where
  "remove_padding d =
     (case last_nonzero d of
        None \<Rightarrow> Inl ''No non-zero bytes found (invalid padding)''
      | Some pos \<Rightarrow>
          if d ! pos = 0x80 then Inr (take pos d)
          else Inl ''Last non-zero byte is not 0x80'')"

section \<open>Hashes and proof of work\<close>

text \<open>\<^verbatim>\<open>u8::leading_zeros\<close>\<close>

definition byte_leading_zeros :: "u8 \<Rightarrow> nat" where
  "byte_leading_zeros b = length (takeWhile (\<lambda>i. \<not> bit b i) [7, 6, 5, 4, 3, 2, 1, 0])"

fun count_leading_zeros :: "bytes \<Rightarrow> nat" where
  "count_leading_zeros [] = 0"
| "count_leading_zeros (b # bs) =
     (if b = 0 then 8 + count_leading_zeros bs else byte_leading_zeros b)"

definition validate_pow_v1 :: "('e) dag_env_scheme \<Rightarrow> public_key \<Rightarrow> node_hash \<Rightarrow> nat \<Rightarrow> bool" where
  "validate_pow_v1 env creator_pk h nonce =
     (count_leading_zeros (de_blake3 env (creator_pk @ h @ to_le_bytes (of_nat nonce))) \<ge> POW_DIFFICULTY)"

definition validate_pow_v2 :: "('e) dag_env_scheme \<Rightarrow> public_key \<Rightarrow> control_action \<Rightarrow> bool panics" where
  "validate_pow_v2 env creator_pk genesis_action =
     do {
       action_bytes \<leftarrow> de_ser_action env genesis_action;
       Some (count_leading_zeros (de_blake3 env (creator_pk @ action_bytes)) \<ge> POW_DIFFICULTY)
     }"

definition mn_hash :: "('e) dag_env_scheme \<Rightarrow> merkle_node \<Rightarrow> node_hash panics" where
  "mn_hash env n = do { data \<leftarrow> de_ser_node env (node_data.truncate n); Some (de_blake3 env data) }"

definition is_ephemeral :: "node_auth \<Rightarrow> bool" where
  "is_ephemeral a = (case a of EphemeralSignature _ \<Rightarrow> True | Signature _ \<Rightarrow> False)"

text \<open>The method \<^verbatim>\<open>validate_pow\<close>: the nonce inside the action first, then the external one.\<close>

definition mn_validate_pow :: "('e) dag_env_scheme \<Rightarrow> merkle_node \<Rightarrow> bool panics" where
  "mn_validate_pow env n =
     (case nd_content n of
        Control (Genesis title creator_pk perms flags created_at pow_nonce) \<Rightarrow>
          if is_ephemeral (nd_authentication n) then Some True
          else do {
            v2 \<leftarrow> (if pow_nonce \<noteq> 0
                   then validate_pow_v2 env creator_pk (Genesis title creator_pk perms flags created_at pow_nonce)
                   else Some False);
            if v2 then Some True
            else do { h \<leftarrow> mn_hash env n; Some (validate_pow_v1 env creator_pk h (mn_pow_nonce n)) }
          }
      | _ \<Rightarrow> Some True)"

section \<open>Authentication\<close>

definition ADMIN_SIG :: string where "ADMIN_SIG = ''merkle-tox v1 admin-sig''"
definition CONTENT_SIG :: string where "CONTENT_SIG = ''merkle-tox v1 content-sig''"

definition str_bytes :: "string \<Rightarrow> bytes" where
  "str_bytes s = map of_char s"

definition node_type_of :: "('z) node_data_scheme \<Rightarrow> node_type" where
  "node_type_of n = content_node_type (nd_content n)"

fun is_control :: "content \<Rightarrow> bool" where
  "is_control (Control _) = True"
| "is_control _ = False"

fun is_skd :: "content \<Rightarrow> bool" where
  "is_skd (SenderKeyDistribution _ _ _ _) = True"
| "is_skd _ = False"

fun is_history_export :: "content \<Rightarrow> bool" where
  "is_history_export (HistoryExport _ _ _ _ _) = True"
| "is_history_export _ = False"

fun is_genesis :: "content \<Rightarrow> bool" where
  "is_genesis (Control (Genesis _ _ _ _ _ _)) = True"
| "is_genesis _ = False"

fun is_soft_anchor :: "content \<Rightarrow> bool" where
  "is_soft_anchor (Control (SoftAnchor _ _)) = True"
| "is_soft_anchor _ = False"

definition is_exception_node :: "merkle_node \<Rightarrow> bool" where
  "is_exception_node n \<longleftrightarrow> node_type_of n = Admin \<or> is_control (nd_content n) \<or> is_skd (nd_content n)"

definition skips_ratchet :: "merkle_node \<Rightarrow> bool" where
  "skips_ratchet n \<longleftrightarrow> is_exception_node n \<or> is_history_export (nd_content n)"

text \<open>What is signed of a wire node.\<close>

definition wire_serialize_for_auth :: "('e) dag_env_scheme \<Rightarrow> wire_node \<Rightarrow> bytes panics" where
  "wire_serialize_for_auth env w =
     do {
       serialized \<leftarrow> de_ser_wire_auth env (wire_auth_data.truncate w);
       Some (str_bytes (if flags_contain (wn_flags w) ENCRYPTED then CONTENT_SIG else ADMIN_SIG) @ serialized)
     }"

text \<open>What is signed of a node that is sent in clear: the fields its wire node will have.\<close>

definition serialize_for_auth :: "('e) dag_env_scheme \<Rightarrow> merkle_node \<Rightarrow> bytes panics" where
  "serialize_for_auth env n =
     do {
       content_data \<leftarrow> de_ser_content env (nd_content n);
       let payload_data = apply_padding (i64_be (nd_network_timestamp n) @ content_data @ nd_metadata n);
       let routing = nd_sender_pk n @ u64_be (nd_sequence_number n);
       serialized \<leftarrow> de_ser_wire_auth env
         \<lparr>wn_parents = nd_parents n, wn_sender_hint = [0, 0, 0, 0], wn_encrypted_routing = routing,
          wn_payload_data = payload_data, wn_topological_rank = nd_topological_rank n, wn_flags = FLAGS_NONE\<rparr>;
       Some (str_bytes (case node_type_of n of Admin \<Rightarrow> ADMIN_SIG | Content \<Rightarrow> CONTENT_SIG) @ serialized)
     }"

definition verify_admin_signature :: "('e) dag_env_scheme \<Rightarrow> merkle_node \<Rightarrow> bool panics" where
  "verify_admin_signature env n =
     (case nd_authentication n of
        Signature sig \<Rightarrow>
          if \<not> cr_key_valid env (nd_sender_pk n) then Some False
          else do {
            auth_data \<leftarrow> serialize_for_auth env n;
            Some (cr_verify env (nd_sender_pk n) auth_data sig)
          }
      | EphemeralSignature _ \<Rightarrow> Some (is_genesis (nd_content n) \<and> nd_parents n = []))"

section \<open>Validation\<close>

text \<open>
  What the rules ask of the nodes already stored (\<^verbatim>\<open>NodeLookup\<close>). The distance to the nearest
  administrative node is memoised, so this query also changes the store; both recursive queries
  may fail to return.
\<close>

record 's node_lookup =
  lk_node_type :: "'s \<Rightarrow> node_hash \<Rightarrow> node_type option"
  lk_rank :: "'s \<Rightarrow> node_hash \<Rightarrow> nat option"
  lk_admin_distance :: "'s \<Rightarrow> node_hash \<Rightarrow> (nat option \<times> 's) panics"
  lk_contains_node :: "'s \<Rightarrow> node_hash \<Rightarrow> bool"
  lk_has_children :: "'s \<Rightarrow> node_hash \<Rightarrow> bool"
  lk_soft_anchor_chain :: "'s \<Rightarrow> node_hash \<Rightarrow> nat option panics"

text \<open>An early return: the rest runs only after a success.\<close>

definition and_then :: "('e + unit) panics \<Rightarrow> ('e + 'b) panics \<Rightarrow> ('e + 'b) panics" where
  "and_then r k = do { x \<leftarrow> r; (case x of Inl e \<Rightarrow> Some (Inl e) | Inr _ \<Rightarrow> k) }"

fun first_duplicate :: "'a set \<Rightarrow> 'a list \<Rightarrow> 'a option" where
  "first_duplicate seen [] = None"
| "first_duplicate seen (p # ps) = (if p \<in> seen then Some p else first_duplicate (insert p seen) ps)"

definition check_limits :: "('e) dag_env_scheme \<Rightarrow> merkle_node \<Rightarrow> validation_error + unit" where
  "check_limits env n =
     (if length (nd_parents n) > MAX_PARENTS then Inl (MaxParentsExceeded (length (nd_parents n)) MAX_PARENTS)
      else (case first_duplicate {} (nd_parents n) of
        Some p \<Rightarrow> Inl (DuplicateParent p)
      | None \<Rightarrow>
          if length (nd_metadata n) > MAX_METADATA_SIZE
          then Inl (MaxMetadataExceeded (length (nd_metadata n)) MAX_METADATA_SIZE)
          else
            (let content_size = (case de_ser_content env (nd_content n) of None \<Rightarrow> 0 | Some v \<Rightarrow> length v);
                 total_size = length (nd_metadata n) + content_size
             in if total_size > MAX_MESSAGE_SIZE then Inl (MaxMessageSizeExceeded total_size MAX_MESSAGE_SIZE)
                else Inr ())))"

definition allows_device_sig :: "merkle_node \<Rightarrow> bool" where
  "allows_device_sig n \<longleftrightarrow>
     is_skd (nd_content n) \<or> (is_control (nd_content n) \<and> node_type_of n = Content)"

definition check_auth_rule :: "merkle_node \<Rightarrow> validation_error + unit" where
  "check_auth_rule n =
     (case (is_ephemeral (nd_authentication n), node_type_of n) of
        (False, Admin) \<Rightarrow> Inr ()
      | (True, Content) \<Rightarrow> Inr ()
      | (False, Content) \<Rightarrow> if allows_device_sig n then Inr () else Inl ContentNodeShouldUseMac
      | (True, Admin) \<Rightarrow>
          if is_genesis (nd_content n) then
            (if nd_parents n \<noteq> [] then Inl GenesisMacWithParents else Inr ())
          else Inl AdminNodeShouldUseSignature)"

definition check_authenticity :: "('e) dag_env_scheme \<Rightarrow> merkle_node \<Rightarrow> (validation_error + unit) panics" where
  "check_authenticity env n =
     (if node_type_of n = Admin \<or> (allows_device_sig n \<and> \<not> is_ephemeral (nd_authentication n)) then
        do {
          pow \<leftarrow> mn_validate_pow env n;
          if \<not> pow then Some (Inl PoWInvalid)
          else do {
            sig \<leftarrow> verify_admin_signature env n;
            Some (if \<not> sig then Inl InvalidAdminSignature else Inr ())
          }
        }
      else Some (Inr ()))"

text \<open>The loop over the parents: the highest rank, and the parents that are not stored.\<close>

definition parent_ranks :: "(node_hash \<Rightarrow> nat option) \<Rightarrow> node_hash list \<Rightarrow> nat \<times> node_hash list" where
  "parent_ranks rank_of ps =
     fold (\<lambda>p (max_parent_rank, missing).
             case rank_of p of
               Some r \<Rightarrow> (if r \<ge> max_parent_rank then r else max_parent_rank, missing)
             | None \<Rightarrow> (max_parent_rank, missing @ [p]))
       ps (0, [])"

definition check_rank :: "(node_hash \<Rightarrow> nat option) \<Rightarrow> merkle_node \<Rightarrow> (validation_error + unit) panics" where
  "check_rank rank_of n =
     (let (max_parent_rank, missing) = parent_ranks rank_of (nd_parents n) in
      if missing \<noteq> [] then Some (Inl (MissingParents missing))
      else do {
        expected_rank \<leftarrow> (if nd_parents n = [] then Some 0 else add_u64 max_parent_rank 1);
        Some (if nd_topological_rank n \<noteq> expected_rank
              then Inl (TopologicalRankViolation (nd_topological_rank n) expected_rank) else Inr ())
      })"

fun check_admin_parents :: "(node_hash \<Rightarrow> node_type option) \<Rightarrow> node_hash list \<Rightarrow> validation_error + unit" where
  "check_admin_parents type_of [] = Inr ()"
| "check_admin_parents type_of (p # ps) =
     (case type_of p of
        Some Admin \<Rightarrow> check_admin_parents type_of ps
      | Some Content \<Rightarrow> Inl AdminCannotHaveContentParent
      | None \<Rightarrow> Inl (MissingParents [p]))"

definition check_isolation :: "(node_hash \<Rightarrow> node_type option) \<Rightarrow> merkle_node \<Rightarrow> validation_error + unit" where
  "check_isolation type_of n =
     (if node_type_of n = Admin \<and> \<not> is_soft_anchor (nd_content n)
      then check_admin_parents type_of (nd_parents n) else Inr ())"

definition check_soft_anchor ::
    "(node_hash \<Rightarrow> nat option panics) \<Rightarrow> merkle_node \<Rightarrow> (validation_error + unit) panics" where
  "check_soft_anchor chain_of n =
     (case nd_content n of
        Control (SoftAnchor basis_hash _) \<Rightarrow>
          if nd_parents n \<noteq> [basis_hash] then Some (Inl SoftAnchorInvalidParent)
          else do {
            chain \<leftarrow> chain_of basis_hash;
            (case chain of
               None \<Rightarrow> Some (Inr ())
             | Some chain_len \<Rightarrow> do {
                 new_chain_len \<leftarrow> add_u64 chain_len 1;
                 Some (if new_chain_len > MAX_SOFT_ANCHOR_CHAIN
                       then Inl (SoftAnchorChainingCapExceeded new_chain_len MAX_SOFT_ANCHOR_CHAIN)
                       else Inr ())
               })
          }
      | _ \<Rightarrow> Some (Inr ()))"

text \<open>The smallest distance over the parents; a parent without one ends the loop.\<close>

fun min_parent_distance ::
    "('s \<Rightarrow> node_hash \<Rightarrow> (nat option \<times> 's) panics) \<Rightarrow> 's \<Rightarrow> node_hash list \<Rightarrow> nat
       \<Rightarrow> ((validation_error + nat) \<times> 's) panics" where
  "min_parent_distance dist_of s [] min_distance = Some (Inr min_distance, s)"
| "min_parent_distance dist_of s (p # ps) min_distance =
     do {
       (d, s') \<leftarrow> dist_of s p;
       (case d of
          Some dist \<Rightarrow> min_parent_distance dist_of s' ps (min min_distance dist)
        | None \<Rightarrow> Some (Inl (MissingParents [p]), s'))
     }"

definition check_ancestry ::
    "('s \<Rightarrow> node_hash \<Rightarrow> (nat option \<times> 's) panics) \<Rightarrow> 's \<Rightarrow> merkle_node
       \<Rightarrow> ((validation_error + unit) \<times> 's) panics" where
  "check_ancestry dist_of s n =
     (if node_type_of n = Content \<and> nd_parents n \<noteq> [] then
        do {
          (m, s') \<leftarrow> min_parent_distance dist_of s (nd_parents n) u64_max;
          (case m of
             Inl e \<Rightarrow> Some (Inl e, s')
           | Inr min_distance \<Rightarrow>
               if min_distance \<ge> MAX_ANCESTRY_HOPS then
                 do {
                   actual \<leftarrow> add_u64 min_distance 1;
                   Some (Inl (AncestryCapExceeded actual MAX_ANCESTRY_HOPS), s')
                 }
               else Some (Inr (), s'))
        }
      else Some (Inr (), s))"

definition validate ::
    "('e) dag_env_scheme \<Rightarrow> ('s, 'l) node_lookup_scheme \<Rightarrow> 's \<Rightarrow> merkle_node \<Rightarrow> ((validation_error + unit) \<times> 's) panics" where
  "validate env lk s n =
     do {
       r \<leftarrow> and_then (Some (check_limits env n))
            (and_then (Some (check_auth_rule n))
            (and_then (check_authenticity env n)
            (and_then (check_rank (lk_rank lk s) n)
            (and_then (Some (check_isolation (lk_node_type lk s) n))
                      (check_soft_anchor (lk_soft_anchor_chain lk s) n)))));
       (case r of
          Inl e \<Rightarrow> Some (Inl e, s)
        | Inr _ \<Rightarrow> check_ancestry (lk_admin_distance lk) s n)
     }"

section \<open>Round trips of the byte encodings\<close>

lemma length_to_be_bytes [simp]: "length (to_be_bytes w) = 8"
  by (simp add: to_be_bytes_def)

lemma length_u64_be [simp]: "length (u64_be n) = 8"
  by (simp add: u64_be_def)

lemma length_i64_be [simp]: "length (i64_be t) = 8"
  by (simp add: i64_be_def)

lemma byte_step: "push_bit 8 (drop_bit (m + 8) w) OR ucast (ucast (drop_bit m w) :: u8) = drop_bit m (w :: u64)"
proof (rule bit_word_eqI)
  fix n :: nat
  assume "n < LENGTH(64)"
  then show "bit (push_bit 8 (drop_bit (m + 8) w) OR ucast (ucast (drop_bit m w) :: u8)) n = bit (drop_bit m w) n"
    by (cases "n < 8") (simp_all add: bit_simps)
qed

lemma from_to_be_bytes [simp]: "from_be_bytes (to_be_bytes w) = w"
proof -
  have "drop_bit 64 w = 0" by (rule bit_word_eqI) (auto simp: bit_simps)
  then have "push_bit 8 0 OR ucast (ucast (drop_bit 56 w) :: u8) = drop_bit 56 w"
    using byte_step [of 56 w] by simp
  then show ?thesis
    using byte_step [of 48 w] byte_step [of 40 w] byte_step [of 32 w] byte_step [of 24 w]
      byte_step [of 16 w] byte_step [of 8 w] byte_step [of 0 w]
    by (simp add: from_be_bytes_def to_be_bytes_def)
qed

lemma u64_of_be_be [simp]: "n \<le> u64_max \<Longrightarrow> u64_of_be (u64_be n) = n"
  by (simp add: u64_of_be_def u64_be_def u64_max_def unat_of_nat)

definition i64_ok :: "int \<Rightarrow> bool" where
  "i64_ok t \<longleftrightarrow> - (2 ^ 63) \<le> t \<and> t < 2 ^ 63"

lemma i64_of_be_be [simp]: "i64_ok t \<Longrightarrow> i64_of_be (i64_be t) = t"
  by (simp add: i64_of_be_def i64_be_def i64_ok_def sint_sbintrunc' signed_take_bit_int_eq_self)

section \<open>Padding: round trip and sizes\<close>

lemma next_pow2_from_spec:
  "p = 2 ^ k \<Longrightarrow> \<exists>j. next_pow2_from p n = 2 ^ j \<and> n \<le> 2 ^ j \<and> (2 ^ j = p \<or> 2 ^ j < 2 * n)"
proof (induction p n arbitrary: k rule: next_pow2_from.induct)
  case (1 p n)
  show ?case
  proof (cases "n \<le> p")
    case True
    then show ?thesis using 1(2) next_pow2_from.simps [of p n] by (intro exI [of _ k]) simp
  next
    case False
    moreover have "p \<noteq> 0" using 1(2) by simp
    moreover have "2 * p = 2 ^ Suc k" using 1(2) by simp
    ultimately obtain j where j: "next_pow2_from (2 * p) n = 2 ^ j" "n \<le> 2 ^ j" "2 ^ j = 2 * p \<or> 2 ^ j < 2 * n"
      using "1.IH" by blast
    with False have "2 ^ j < 2 * n" by auto
    with j False \<open>p \<noteq> 0\<close> show ?thesis by (auto simp: next_pow2_from.simps [of p n])
  qed
qed

lemma next_power_of_two_spec:
  assumes "0 < n"
  shows "\<exists>j. next_power_of_two n = 2 ^ j \<and> n \<le> 2 ^ j \<and> 2 ^ j < 2 * n"
proof -
  obtain j where "next_pow2_from 1 n = 2 ^ j" "n \<le> 2 ^ j" "2 ^ j = (1::nat) \<or> 2 ^ j < 2 * n"
    using next_pow2_from_spec [of 1 0 n] by auto
  with assms show ?thesis unfolding next_power_of_two_def by force
qed

lemma length_apply_padding:
  "\<exists>j\<ge>7. length (apply_padding d) = 2 ^ j \<and> length d < 2 ^ j \<and> (2 ^ j = MIN_PADDING_BIN \<or> 2 ^ j < 2 * (length d + 1))"
proof -
  obtain j where j: "next_power_of_two (length d + 1) = 2 ^ j" "length d + 1 \<le> 2 ^ j" "2 ^ j < 2 * (length d + 1)"
    using next_power_of_two_spec [of "length d + 1"] by auto
  have len: "length (apply_padding d) = max (2 ^ j) MIN_PADDING_BIN"
    using j by (simp add: apply_padding_def Let_def)
  show ?thesis
  proof (cases "j \<ge> 7")
    case True
    then have "(2::nat) ^ 7 \<le> 2 ^ j" by (rule power_increasing) simp
    then have "max (2 ^ j) MIN_PADDING_BIN = 2 ^ j" by (simp add: MIN_PADDING_BIN_def)
    with True j len show ?thesis by auto
  next
    case False
    then have "(2::nat) ^ j \<le> 2 ^ 7" by (intro power_increasing) auto
    then have "max (2 ^ j) MIN_PADDING_BIN = 2 ^ 7" by (simp add: MIN_PADDING_BIN_def)
    with j len \<open>2 ^ j \<le> 2 ^ 7\<close> show ?thesis
      by (intro exI [of _ 7]) (auto simp: MIN_PADDING_BIN_def)
  qed
qed

lemma apply_padding_split: "\<exists>k. apply_padding d = d @ 0x80 # replicate k 0"
proof -
  have "length d + 1 \<le> next_power_of_two (length d + 1)"
    using next_power_of_two_spec [of "length d + 1"] by auto
  then show ?thesis
    by (auto simp: apply_padding_def Let_def max_def)
qed

lemma find_rev_last:
  assumes "P (length xs)" and "\<And>i. length xs < i \<Longrightarrow> i < m \<Longrightarrow> \<not> P i" and "length xs < m"
  shows "find P (rev [0..<m]) = Some (length xs)"
  using assms(2,3)
proof (induction m)
  case (Suc m)
  with assms(1) show ?case by (cases "length xs = m") auto
qed simp

lemma remove_apply_padding: "remove_padding (apply_padding d) = Inr d"
proof -
  obtain k where k: "apply_padding d = d @ 0x80 # replicate k 0"
    using apply_padding_split by blast
  have "last_nonzero (apply_padding d) = Some (length d)"
    unfolding last_nonzero_def by (rule find_rev_last) (auto simp: k nth_append nth_Cons')
  then show ?thesis by (simp add: remove_padding_def k)
qed

end
