(* ===== verification/Crypto.thy ===== *)
theory Crypto
  imports Dag
begin

unbundle bit_operations_syntax

text \<open>
  \<^verbatim>\<open>merkle-tox-core/src/crypto.rs\<close>: the derivation of keys, the routing header's authenticated
  encryption, key wrapping for a recipient (ECIES) and the X3DH handshake secret. The primitives of
  the crates \<^verbatim>\<open>blake3\<close>, \<^verbatim>\<open>chacha20\<close>, \<^verbatim>\<open>chacha20poly1305\<close>, \<^verbatim>\<open>x25519_dalek\<close>, \<^verbatim>\<open>curve25519_dalek\<close>,
  \<^verbatim>\<open>ed25519_dalek\<close> and \<^verbatim>\<open>sha2\<close> are parameters; the predicate \<open>crypto_laws\<close> states what they document:
  a stream cipher is its own inverse, decryption undoes encryption, Diffie-Hellman is symmetric,
  and an Ed25519 key pair maps to an X25519 key pair. Wiping key material has no effect here.
\<close>

section \<open>Primitives\<close>

record wire_env = dag_env +
  we_de_content :: "bytes \<Rightarrow> (string + content \<times> nat) panics"
  we_zstd_encode :: "bytes \<Rightarrow> bytes option"
  we_zstd_decode :: "bytes \<Rightarrow> string + bytes"
  we_chacha20 :: "bytes \<Rightarrow> bytes \<Rightarrow> bytes \<Rightarrow> bytes"
  we_aead_encrypt :: "bytes \<Rightarrow> bytes \<Rightarrow> bytes \<Rightarrow> bytes \<Rightarrow> bytes \<times> bytes"
  we_aead_decrypt :: "bytes \<Rightarrow> bytes \<Rightarrow> bytes \<Rightarrow> bytes \<Rightarrow> bytes \<Rightarrow> bytes option"
  we_derive_key :: "string \<Rightarrow> bytes \<Rightarrow> bytes"
  we_keyed_hash :: "bytes \<Rightarrow> bytes \<Rightarrow> bytes"
  we_dh :: "bytes \<Rightarrow> bytes \<Rightarrow> bytes"
  we_x_public :: "bytes \<Rightarrow> bytes"
  we_ed_public :: "bytes \<Rightarrow> bytes"
  we_ed_to_x :: "bytes \<Rightarrow> bytes option"
  we_sha512 :: "bytes \<Rightarrow> bytes"

section \<open>Key derivation\<close>

definition derive_k_header_epoch :: "'e wire_env_scheme \<Rightarrow> bytes \<Rightarrow> bytes \<Rightarrow> bytes" where
  "derive_k_header_epoch env k_conv sender_key_n =
     we_derive_key env ''merkle-tox v1 header-key'' (k_conv @ sender_key_n)"

definition compute_sender_hint :: "'e wire_env_scheme \<Rightarrow> bytes \<Rightarrow> bytes" where
  "compute_sender_hint env k_msg = take 4 (we_derive_key env ''merkle-tox v1 hint'' k_msg)"

definition ratchet_init_sender :: "'e wire_env_scheme \<Rightarrow> bytes \<Rightarrow> public_key \<Rightarrow> bytes" where
  "ratchet_init_sender env k_conv sender_pk =
     we_derive_key env ''merkle-tox v1 sender-seed'' (k_conv @ sender_pk)"

definition ratchet_step :: "'e wire_env_scheme \<Rightarrow> bytes \<Rightarrow> bytes" where
  "ratchet_step env chain_key = we_derive_key env ''merkle-tox v1 ratchet-step'' chain_key"

definition ratchet_message_key :: "'e wire_env_scheme \<Rightarrow> bytes \<Rightarrow> bytes" where
  "ratchet_message_key env chain_key = we_derive_key env ''merkle-tox v1 message-key'' chain_key"

definition derive_k_iblt :: "'e wire_env_scheme \<Rightarrow> bytes \<Rightarrow> conversation_id \<Rightarrow> bytes" where
  "derive_k_iblt env k_conv cid = we_derive_key env ''merkle-tox v1 iblt-conv-key'' (k_conv @ cid)"

definition derive_k_header_export :: "'e wire_env_scheme \<Rightarrow> bytes \<Rightarrow> bytes" where
  "derive_k_header_export env k_conv = we_derive_key env ''merkle-tox v1 header-export'' k_conv"

definition derive_k_payload_export :: "'e wire_env_scheme \<Rightarrow> bytes \<Rightarrow> bytes" where
  "derive_k_payload_export env k_conv = we_derive_key env ''merkle-tox v1 payload-export'' k_conv"

definition u32_be :: "nat \<Rightarrow> bytes" where
  "u32_be n = map (\<lambda>i. of_nat (n div 256 ^ i)) [3, 2, 1, 0]"

definition derive_legacy_bridge_dedup_id ::
    "'e wire_env_scheme \<Rightarrow> conversation_id \<Rightarrow> public_key \<Rightarrow> string \<Rightarrow> u8 \<Rightarrow> node_hash" where
  "derive_legacy_bridge_dedup_id env cid source_pk text message_type =
     de_blake3 env (cid @ source_pk @ u32_be (length text) @ str_bytes text @ [message_type])"

section \<open>The routing header\<close>

record pack_content_keys =
  pk_k_msg :: bytes
  pk_k_header :: bytes
  pk_routing_nonce :: bytes
  pk_payload_nonce :: bytes

datatype pack_keys = PackContent pack_content_keys | PackException

definition encrypt_routing_aead :: "'e wire_env_scheme \<Rightarrow> bytes \<Rightarrow> bytes \<Rightarrow> nat \<Rightarrow> bytes \<Rightarrow> bytes" where
  "encrypt_routing_aead env k_header nonce seq aad =
     (let (buffer, tag) = we_aead_encrypt env k_header nonce aad (u64_be seq) in buffer @ tag)"

definition decrypt_routing_aead :: "'e wire_env_scheme \<Rightarrow> bytes \<Rightarrow> bytes \<Rightarrow> bytes \<Rightarrow> bytes \<Rightarrow> nat option" where
  "decrypt_routing_aead env k_header nonce ciphertext aad =
     (if length ciphertext \<noteq> 24 then None
      else do {
        buffer \<leftarrow> we_aead_decrypt env k_header nonce aad (take 8 ciphertext) (drop 8 ciphertext);
        if length buffer = 8 then Some (u64_of_be buffer) else None
      })"

section \<open>Keys of a conversation\<close>

record conversation_keys =
  ck_k_conv :: bytes
  ck_k_enc :: bytes
  ck_k_mac :: bytes

definition ck_derive :: "'e wire_env_scheme \<Rightarrow> bytes \<Rightarrow> conversation_keys" where
  "ck_derive env k_conv =
     \<lparr>ck_k_conv = k_conv, ck_k_enc = we_derive_key env ''merkle-tox v1 enc'' k_conv,
      ck_k_mac = we_derive_key env ''merkle-tox v1 mac'' k_conv\<rparr>"

definition calculate_mac :: "'e wire_env_scheme \<Rightarrow> conversation_keys \<Rightarrow> bytes \<Rightarrow> bytes" where
  "calculate_mac env ck data = we_keyed_hash env (ck_k_mac ck) data"

definition verify_mac :: "'e wire_env_scheme \<Rightarrow> conversation_keys \<Rightarrow> bytes \<Rightarrow> bytes \<Rightarrow> bool" where
  "verify_mac env ck data mac \<longleftrightarrow> calculate_mac env ck data = mac"

definition ck_encrypt :: "'e wire_env_scheme \<Rightarrow> conversation_keys \<Rightarrow> bytes \<Rightarrow> bytes \<Rightarrow> bytes" where
  "ck_encrypt env ck nonce data = we_chacha20 env (ck_k_enc ck) nonce data"

definition ck_decrypt :: "'e wire_env_scheme \<Rightarrow> conversation_keys \<Rightarrow> bytes \<Rightarrow> bytes \<Rightarrow> bytes" where
  "ck_decrypt env ck nonce data = ck_encrypt env ck nonce data"

definition encrypt_payload_with_mac :: "'e wire_env_scheme \<Rightarrow> conversation_keys \<Rightarrow> bytes \<Rightarrow> bytes \<Rightarrow> bytes" where
  "encrypt_payload_with_mac env ck mac data = ck_encrypt env ck (take 12 mac) data"

definition decrypt_payload_with_mac :: "'e wire_env_scheme \<Rightarrow> conversation_keys \<Rightarrow> bytes \<Rightarrow> bytes \<Rightarrow> bytes" where
  "decrypt_payload_with_mac env ck mac data = ck_decrypt env ck (take 12 mac) data"

section \<open>Device keys\<close>

definition device_pk_to_x25519 :: "'e wire_env_scheme \<Rightarrow> public_key \<Rightarrow> bytes" where
  "device_pk_to_x25519 env pk = (case we_ed_to_x env pk of Some x \<Rightarrow> x | None \<Rightarrow> pk)"

definition ed25519_sk_to_x25519 :: "'e wire_env_scheme \<Rightarrow> bytes \<Rightarrow> bytes" where
  "ed25519_sk_to_x25519 env ed_sk =
     (let x_sk = take 32 (we_sha512 env ed_sk);
          x_sk = x_sk[0 := x_sk ! 0 AND 248];
          x_sk = x_sk[31 := x_sk ! 31 AND 127]
      in x_sk[31 := x_sk ! 31 OR 64])"

section \<open>Key wrapping\<close>

text \<open>The crate appends the 16-byte tag to the ciphertext and splits it off again.\<close>

definition aead_seal :: "'e wire_env_scheme \<Rightarrow> bytes \<Rightarrow> bytes \<Rightarrow> bytes \<Rightarrow> bytes" where
  "aead_seal env key nonce plaintext =
     (let (c, tag) = we_aead_encrypt env key nonce [] plaintext in c @ tag)"

definition aead_open :: "'e wire_env_scheme \<Rightarrow> bytes \<Rightarrow> bytes \<Rightarrow> bytes \<Rightarrow> bytes option" where
  "aead_open env key nonce sealed =
     (let n = length sealed - 16 in we_aead_decrypt env key nonce [] (take n sealed) (drop n sealed))"

definition zero_nonce :: bytes where "zero_nonce = replicate 12 0"

definition opt_bytes :: "bytes option \<Rightarrow> bytes" where
  "opt_bytes x = (case x of None \<Rightarrow> [] | Some b \<Rightarrow> b)"

definition ecies_wrap ::
    "'e wire_env_scheme \<Rightarrow> bytes \<Rightarrow> bytes \<Rightarrow> bytes option \<Rightarrow> bytes option \<Rightarrow> bytes \<Rightarrow> bytes" where
  "ecies_wrap env ephemeral_sk recipient_spk recipient_opk auth_secret plaintext =
     (let material = we_dh env ephemeral_sk recipient_spk
                       @ opt_bytes (map_option (we_dh env ephemeral_sk) recipient_opk) @ opt_bytes auth_secret;
          k_wrap = we_derive_key env ''merkle-tox v1 keywrap'' material
      in aead_seal env k_wrap zero_nonce plaintext)"

definition ecies_unwrap ::
    "'e wire_env_scheme \<Rightarrow> bytes \<Rightarrow> bytes \<Rightarrow> bytes option \<Rightarrow> bytes option \<Rightarrow> bytes \<Rightarrow> bytes option" where
  "ecies_unwrap env self_spk_sk ephemeral_pk self_opk_sk auth_secret ciphertext =
     (if length ciphertext < 16 then None
      else
        (let material = we_dh env self_spk_sk ephemeral_pk
                          @ opt_bytes (map_option (\<lambda>sk. we_dh env sk ephemeral_pk) self_opk_sk) @ opt_bytes auth_secret;
             k_wrap = we_derive_key env ''merkle-tox v1 keywrap'' material
         in aead_open env k_wrap zero_nonce ciphertext))"

definition ecies_unwrap_32 ::
    "'e wire_env_scheme \<Rightarrow> bytes \<Rightarrow> bytes \<Rightarrow> bytes option \<Rightarrow> bytes option \<Rightarrow> bytes \<Rightarrow> bytes option" where
  "ecies_unwrap_32 env self_spk_sk ephemeral_pk self_opk_sk auth_secret ciphertext =
     do {
       pt \<leftarrow> ecies_unwrap env self_spk_sk ephemeral_pk self_opk_sk auth_secret ciphertext;
       if length pt \<noteq> 32 then None else Some pt
     }"

section \<open>X3DH\<close>

definition x3dh_derive_secret_initiator ::
    "'e wire_env_scheme \<Rightarrow> bytes \<Rightarrow> bytes \<Rightarrow> public_key \<Rightarrow> bytes \<Rightarrow> bytes option \<Rightarrow> bytes option" where
  "x3dh_derive_secret_initiator env self_device_sk self_ephemeral_sk peer_device_pk peer_signed_pre_pk peer_one_time_pk =
     (let i_a = ed25519_sk_to_x25519 env self_device_sk; e_a = self_ephemeral_sk
      in do {
        i_b \<leftarrow> we_ed_to_x env peer_device_pk;
        let dh1 = we_dh env i_a peer_signed_pre_pk;
        let dh2 = we_dh env e_a i_b;
        let dh3 = we_dh env e_a peer_signed_pre_pk;
        let material = dh1 @ dh2 @ dh3 @ opt_bytes (map_option (we_dh env e_a) peer_one_time_pk);
        Some (we_derive_key env ''merkle-tox v1 x3dh-shared'' material)
      })"

definition x3dh_derive_secret_recipient ::
    "'e wire_env_scheme \<Rightarrow> bytes \<Rightarrow> bytes \<Rightarrow> public_key \<Rightarrow> bytes \<Rightarrow> bytes option \<Rightarrow> bytes option" where
  "x3dh_derive_secret_recipient env self_device_sk self_signed_pre_sk peer_device_pk peer_ephemeral_pk self_one_time_sk =
     (let i_b = ed25519_sk_to_x25519 env self_device_sk; spk_b = self_signed_pre_sk
      in do {
        i_a \<leftarrow> we_ed_to_x env peer_device_pk;
        let dh1 = we_dh env spk_b i_a;
        let dh2 = we_dh env i_b peer_ephemeral_pk;
        let dh3 = we_dh env spk_b peer_ephemeral_pk;
        let material = dh1 @ dh2 @ dh3 @ opt_bytes (map_option (\<lambda>sk. we_dh env sk peer_ephemeral_pk) self_one_time_sk);
        Some (we_derive_key env ''merkle-tox v1 x3dh-shared'' material)
      })"

section \<open>What the primitives promise\<close>

definition crypto_laws :: "'e wire_env_scheme \<Rightarrow> bool" where
  "crypto_laws env \<longleftrightarrow>
     (\<forall>k n d. we_chacha20 env k n (we_chacha20 env k n d) = d)
     \<and> (\<forall>k n d. length (we_chacha20 env k n d) = length d)
     \<and> (\<forall>k n a p. length (fst (we_aead_encrypt env k n a p)) = length p
                   \<and> length (snd (we_aead_encrypt env k n a p)) = 16)
     \<and> (\<forall>k n a p. we_aead_decrypt env k n a (fst (we_aead_encrypt env k n a p)) (snd (we_aead_encrypt env k n a p)) = Some p)
     \<and> (\<forall>l m. length (we_derive_key env l m) = 32)
     \<and> (\<forall>m. length (de_blake3 env m) = 32)
     \<and> (\<forall>d c. we_zstd_encode env d = Some c \<longrightarrow> we_zstd_decode env c = Inr d)
     \<and> (\<forall>a b. we_dh env a (we_x_public env b) = we_dh env b (we_x_public env a))
     \<and> (\<forall>sk. we_ed_to_x env (we_ed_public env sk) = Some (we_x_public env (ed25519_sk_to_x25519 env sk)))"

lemma crypto_lawsD:
  assumes "crypto_laws env"
  shows chacha_inverse: "we_chacha20 env k n (we_chacha20 env k n d) = d"
    and chacha_length: "length (we_chacha20 env k n d) = length d"
    and aead_lengths: "length (fst (we_aead_encrypt env k n a p)) = length p"
      "length (snd (we_aead_encrypt env k n a p)) = 16"
    and aead_correct: "we_aead_decrypt env k n a (fst (we_aead_encrypt env k n a p)) (snd (we_aead_encrypt env k n a p)) = Some p"
    and derive_length: "length (we_derive_key env l m) = 32"
    and blake3_length: "length (de_blake3 env m) = 32"
    and zstd_inverse: "we_zstd_encode env d = Some c \<Longrightarrow> we_zstd_decode env c = Inr d"
    and dh_comm: "we_dh env b1 (we_x_public env b2) = we_dh env b2 (we_x_public env b1)"
    and ed_to_x_public: "we_ed_to_x env (we_ed_public env sk) = Some (we_x_public env (ed25519_sk_to_x25519 env sk))"
  using assms unfolding crypto_laws_def by simp_all

section \<open>Agreement\<close>

lemma decrypt_encrypt_routing:
  assumes "crypto_laws env" "seq \<le> u64_max"
  shows "decrypt_routing_aead env k n (encrypt_routing_aead env k n seq a) a = Some seq"
    and "length (encrypt_routing_aead env k n seq a) = 24"
  using aead_lengths [OF assms(1), of k n a "u64_be seq"] aead_correct [OF assms(1), of k n a "u64_be seq"] assms(2)
  by (auto simp: decrypt_routing_aead_def encrypt_routing_aead_def case_prod_beta)

lemma aead_open_seal:
  assumes "crypto_laws env"
  shows "aead_open env k n (aead_seal env k n p) = Some p"
    and "length (aead_seal env k n p) = length p + 16"
  using aead_lengths [OF assms(1), of k n "[]" p] aead_correct [OF assms(1), of k n "[]" p]
  by (auto simp: aead_open_def aead_seal_def case_prod_beta Let_def)

lemma ecies_round_trip:
  assumes "crypto_laws env"
  shows "ecies_unwrap env spk_sk (we_x_public env e_sk) opk_sk auth
           (ecies_wrap env e_sk (we_x_public env spk_sk) (map_option (we_x_public env) opk_sk) auth p) = Some p"
  using aead_open_seal [OF assms] dh_comm [OF assms]
  by (cases opk_sk) (auto simp: ecies_unwrap_def ecies_wrap_def Let_def opt_bytes_def)

lemma x3dh_agreement_secret:
  assumes "crypto_laws env"
  shows "x3dh_derive_secret_initiator env a_sk e_sk (we_ed_public env b_sk) (we_x_public env spk_sk)
             (map_option (we_x_public env) opk_sk)
           = x3dh_derive_secret_recipient env b_sk spk_sk (we_ed_public env a_sk) (we_x_public env e_sk) opk_sk"
    and "x3dh_derive_secret_recipient env b_sk spk_sk (we_ed_public env a_sk) (we_x_public env e_sk) opk_sk \<noteq> None"
  using dh_comm [OF assms]
  by (cases opk_sk; simp add: x3dh_derive_secret_initiator_def x3dh_derive_secret_recipient_def
        ed_to_x_public [OF assms] Let_def opt_bytes_def)+

end
