(* ===== verification/Dag_Spec.thy ===== *)
theory Dag_Spec
  imports Dag
begin

text \<open>
  What validation promises, stated over the stored history as a map from hashes to nodes. A history
  is well formed when every node in it satisfies the structural rules with respect to that
  history; then it is acyclic, and every node lies within the ancestry cap. The locale
  \<open>history_lookup\<close> is the contract of a store's queries: they answer exactly about the history. Under
  this contract \<^const>\<open>validate\<close> accepts exactly the nodes that keep the history well formed.
\<close>

section \<open>Histories\<close>

type_synonym history = "node_hash \<rightharpoonup> node_data"

text \<open>
  A way to an administrative node (at distance 0) or to a content node without parents (counted as
  distance 10), with the number of steps taken.
\<close>

inductive anchored :: "history \<Rightarrow> node_hash \<Rightarrow> nat \<Rightarrow> bool" for V where
  admin: "V h = Some n \<Longrightarrow> node_type_of n = Admin \<Longrightarrow> anchored V h 0"
| rootless: "V h = Some n \<Longrightarrow> node_type_of n = Content \<Longrightarrow> nd_parents n = [] \<Longrightarrow> anchored V h 10"
| hop: "V h = Some n \<Longrightarrow> node_type_of n = Content \<Longrightarrow> p \<in> set (nd_parents n) \<Longrightarrow> anchored V p d
          \<Longrightarrow> anchored V h (Suc d)"

inductive_cases anchoredE: "anchored V h d"

definition nearest :: "history \<Rightarrow> node_hash \<Rightarrow> nat" where
  "nearest V h = (LEAST d. anchored V h d)"

definition distance :: "history \<Rightarrow> node_hash \<Rightarrow> nat option" where
  "distance V h = (if h \<in> dom V then Some (nearest V h) else None)"

text \<open>The number of consecutive soft anchors that end in a node.\<close>

inductive soft_chain :: "history \<Rightarrow> node_hash \<Rightarrow> nat \<Rightarrow> bool" for V where
  other: "V h = Some n \<Longrightarrow> \<not> is_soft_anchor (nd_content n) \<Longrightarrow> soft_chain V h 0"
| soft: "V h = Some n \<Longrightarrow> nd_content n = Control (SoftAnchor b c) \<Longrightarrow> soft_chain V b k
          \<Longrightarrow> soft_chain V h (Suc k)"

inductive_cases soft_chainE: "soft_chain V h k"

definition rank_in :: "history \<Rightarrow> node_hash \<Rightarrow> nat" where
  "rank_in V h = (case V h of None \<Rightarrow> 0 | Some n \<Rightarrow> nd_topological_rank n)"

definition expected_rank :: "history \<Rightarrow> node_hash list \<Rightarrow> nat" where
  "expected_rank V ps = (if ps = [] then 0 else Suc (Max (rank_in V ` set ps)))"

text \<open>The structural rules.\<close>

definition node_ok :: "history \<Rightarrow> ('z) node_data_scheme \<Rightarrow> bool" where
  "node_ok V n \<longleftrightarrow>
     length (nd_parents n) \<le> MAX_PARENTS \<and> distinct (nd_parents n)
     \<and> set (nd_parents n) \<subseteq> dom V
     \<and> nd_topological_rank n = expected_rank V (nd_parents n)
     \<and> (node_type_of n = Admin \<and> \<not> is_soft_anchor (nd_content n)
          \<longrightarrow> (\<forall>p \<in> set (nd_parents n). \<exists>m. V p = Some m \<and> node_type_of m = Admin))
     \<and> (\<forall>b c. nd_content n = Control (SoftAnchor b c)
          \<longrightarrow> nd_parents n = [b] \<and> (\<exists>k. soft_chain V b k \<and> k < MAX_SOFT_ANCHOR_CHAIN))
     \<and> (node_type_of n = Content \<and> nd_parents n \<noteq> []
          \<longrightarrow> (\<exists>p \<in> set (nd_parents n). \<exists>d < MAX_ANCESTRY_HOPS. anchored V p d))"

definition well_formed :: "history \<Rightarrow> bool" where
  "well_formed V \<longleftrightarrow> (\<forall>h n. V h = Some n \<longrightarrow> node_ok V n)"

definition parent_rel :: "history \<Rightarrow> (node_hash \<times> node_hash) set" where
  "parent_rel V = {(p, h). \<exists>n. V h = Some n \<and> p \<in> set (nd_parents n)}"

lemma node_type_of_truncate [simp]: "node_type_of (node_data.truncate n) = node_type_of n"
  by (simp add: node_type_of_def node_data.truncate_def)

lemma node_ok_truncate [simp]: "node_ok V (node_data.truncate n) = node_ok V n"
  by (simp add: node_ok_def node_type_of_def node_data.truncate_def)

section \<open>Well-formed histories\<close>

lemma well_formedD: "well_formed V \<Longrightarrow> V h = Some n \<Longrightarrow> node_ok V n"
  by (simp add: well_formed_def)

lemma rank_in_parent:
  assumes "node_ok V n" "p \<in> set (nd_parents n)"
  shows "rank_in V p < nd_topological_rank n"
proof -
  from assms have "nd_topological_rank n = Suc (Max (rank_in V ` set (nd_parents n)))"
    by (auto simp: node_ok_def expected_rank_def)
  moreover have "rank_in V p \<le> Max (rank_in V ` set (nd_parents n))"
    using assms(2) by (intro Max_ge) auto
  ultimately show ?thesis by simp
qed

lemma parent_rank_less: "well_formed V \<Longrightarrow> (p, h) \<in> parent_rel V \<Longrightarrow> rank_in V p < rank_in V h"
  by (auto simp: parent_rel_def rank_in_def [of V h] dest!: well_formedD intro: rank_in_parent)

lemma wf_parent_rel: "well_formed V \<Longrightarrow> wf (parent_rel V)"
  by (rule wf_subset [OF wf_measure [of "rank_in V"]]) (auto dest: parent_rank_less)

lemma acyclic_parent_rel: "well_formed V \<Longrightarrow> acyclic (parent_rel V)"
  by (intro wf_acyclic wf_parent_rel)

lemma parent_stored: "well_formed V \<Longrightarrow> (p, h) \<in> parent_rel V \<Longrightarrow> p \<in> dom V"
  by (auto simp: parent_rel_def node_ok_def dest!: well_formedD)

lemma ancestor_stored:
  assumes "well_formed V" "(a, h) \<in> (parent_rel V)\<^sup>+"
  shows "a \<in> dom V \<and> rank_in V a < rank_in V h"
  using assms(2)
proof (induction rule: converse_trancl_induct)
  case (base y)
  with assms(1) show ?case by (simp add: parent_stored parent_rank_less)
next
  case (step y z)
  with assms(1) show ?case by (meson parent_stored parent_rank_less less_trans)
qed

section \<open>Distances\<close>

lemma anchored_dom: "anchored V h d \<Longrightarrow> h \<in> dom V"
  by (auto elim: anchored.cases)

lemma anchored_bounded:
  assumes "well_formed V" "h \<in> dom V"
  shows "\<exists>d \<le> MAX_ANCESTRY_HOPS. anchored V h d"
proof -
  from assms(2) obtain n where n: "V h = Some n" by auto
  with assms(1) have ok: "node_ok V n" by (rule well_formedD)
  show ?thesis
  proof (cases "node_type_of n")
    case Admin
    with n show ?thesis by (auto intro: anchored.admin)
  next
    case Content
    show ?thesis
    proof (cases "nd_parents n = []")
      case True
      with n Content have "anchored V h 10" by (intro anchored.rootless)
      then show ?thesis by (intro exI [of _ 10]) (simp add: MAX_ANCESTRY_HOPS_def)
    next
      case False
      with ok Content obtain p d where "p \<in> set (nd_parents n)" "d < MAX_ANCESTRY_HOPS" "anchored V p d"
        by (auto simp: node_ok_def)
      with n Content show ?thesis by (intro exI [of _ "Suc d"]) (auto intro: anchored.hop)
    qed
  qed
qed

lemma nearest_anchored: "well_formed V \<Longrightarrow> h \<in> dom V \<Longrightarrow> anchored V h (nearest V h)"
  unfolding nearest_def using anchored_bounded by (blast intro: LeastI)

lemma nearest_le: "anchored V h d \<Longrightarrow> nearest V h \<le> d"
  unfolding nearest_def by (rule Least_le)

lemma nearest_bounded: "well_formed V \<Longrightarrow> h \<in> dom V \<Longrightarrow> nearest V h \<le> MAX_ANCESTRY_HOPS"
  using anchored_bounded nearest_le le_trans by metis

lemma nearest_admin:
  assumes "V h = Some n" "node_type_of n = Admin" shows "nearest V h = 0"
  using nearest_le [of V h 0] assms by (auto intro: anchored.admin)

lemma nearest_rootless:
  assumes "V h = Some n" "node_type_of n = Content" "nd_parents n = []"
  shows "nearest V h = 10"
  unfolding nearest_def
  by (rule Least_equality) (use assms in \<open>auto intro: anchored.rootless elim: anchored.cases\<close>)

lemma nearest_hop:
  assumes "well_formed V" "V h = Some n" "node_type_of n = Content" "nd_parents n \<noteq> []"
  shows "nearest V h = Suc (Min (nearest V ` set (nd_parents n)))"
proof (rule antisym)
  have dom: "p \<in> dom V" if "p \<in> set (nd_parents n)" for p
    using assms that by (auto dest!: well_formedD simp: node_ok_def)
  have "Min (nearest V ` set (nd_parents n)) \<in> nearest V ` set (nd_parents n)"
    using assms(4) by (intro Min_in) auto
  then obtain p where p: "p \<in> set (nd_parents n)" "Min (nearest V ` set (nd_parents n)) = nearest V p"
    by auto
  with dom assms(1) have "anchored V p (nearest V p)" by (intro nearest_anchored) auto
  with assms p show "nearest V h \<le> Suc (Min (nearest V ` set (nd_parents n)))"
    by (auto intro!: nearest_le anchored.hop)
  have "anchored V h (nearest V h)" using assms by (intro nearest_anchored) auto
  then obtain p d where "p \<in> set (nd_parents n)" "nearest V h = Suc d" "anchored V p d"
    using assms by (auto elim: anchored.cases)
  moreover from this(1) have "Min (nearest V ` set (nd_parents n)) \<le> nearest V p" by (intro Min_le) auto
  ultimately show "Suc (Min (nearest V ` set (nd_parents n))) \<le> nearest V h"
    using nearest_le [of V p d] by linarith
qed

lemma soft_chain_fun: "soft_chain V h k \<Longrightarrow> soft_chain V h l \<Longrightarrow> k = l"
proof (induction arbitrary: l rule: soft_chain.induct)
  case (other h n)
  from other(3) other(1,2) show ?case by (cases rule: soft_chain.cases) auto
next
  case (soft h n b c k)
  from soft.prems show ?case
  proof (cases rule: soft_chain.cases)
    case (soft n' b' c' k')
    with \<open>V h = Some n\<close> \<open>nd_content n = _\<close> have "b' = b" by simp
    with soft soft.IH show ?thesis by simp
  qed (use soft.hyps in simp)
qed

lemma soft_chain_exists:
  assumes "well_formed V" "h \<in> dom V"
  shows "\<exists>k \<le> MAX_SOFT_ANCHOR_CHAIN. soft_chain V h k"
proof -
  from assms obtain n where n: "V h = Some n" "node_ok V n" by (auto dest: well_formedD)
  show ?thesis
  proof (cases "is_soft_anchor (nd_content n)")
    case False
    with n show ?thesis by (auto intro: soft_chain.other)
  next
    case True
    then obtain b c where c: "nd_content n = Control (SoftAnchor b c)" by (auto elim: is_soft_anchor.elims)
    with n obtain k where "soft_chain V b k" "k < MAX_SOFT_ANCHOR_CHAIN" by (auto simp: node_ok_def)
    with n c show ?thesis by (intro exI [of _ "Suc k"]) (auto intro: soft_chain.soft)
  qed
qed

section \<open>Growth\<close>

lemma anchored_mono: "anchored V h d \<Longrightarrow> V \<subseteq>\<^sub>m V' \<Longrightarrow> anchored V' h d"
proof (induction rule: anchored.induct)
  case (admin h n)
  then show ?case by (auto intro!: anchored.admin simp: map_le_def dom_def)
next
  case (rootless h n)
  then show ?case by (auto intro!: anchored.rootless simp: map_le_def dom_def)
next
  case (hop h n p d)
  from hop have "V' h = Some n" by (auto simp: map_le_def dom_def)
  with hop show ?case by (intro anchored.hop) auto
qed

lemma soft_chain_mono: "soft_chain V h k \<Longrightarrow> V \<subseteq>\<^sub>m V' \<Longrightarrow> soft_chain V' h k"
proof (induction rule: soft_chain.induct)
  case (other h n)
  then show ?case by (auto intro!: soft_chain.other simp: map_le_def dom_def)
next
  case (soft h n b c k)
  from soft have "V' h = Some n" by (auto simp: map_le_def dom_def)
  with soft show ?case by (intro soft_chain.soft) auto
qed

lemma rank_in_mono: "V \<subseteq>\<^sub>m V' \<Longrightarrow> h \<in> dom V \<Longrightarrow> rank_in V' h = rank_in V h"
  by (simp add: rank_in_def map_le_def)

lemma expected_rank_mono: "V \<subseteq>\<^sub>m V' \<Longrightarrow> set ps \<subseteq> dom V \<Longrightarrow> expected_rank V' ps = expected_rank V ps"
  by (auto simp: expected_rank_def rank_in_mono subset_iff intro!: arg_cong [of _ _ Max] image_cong)

lemma map_leD: "V \<subseteq>\<^sub>m V' \<Longrightarrow> V h = Some n \<Longrightarrow> V' h = Some n"
  by (auto simp: map_le_def dom_def)

lemma node_ok_mono:
  assumes "node_ok V n" "V \<subseteq>\<^sub>m V'"
  shows "node_ok V' n"
proof -
  from assms(1) have dom: "set (nd_parents n) \<subseteq> dom V" by (simp add: node_ok_def)
  then have "set (nd_parents n) \<subseteq> dom V'" using map_le_implies_dom_le [OF assms(2)] by blast
  moreover have "expected_rank V' (nd_parents n) = expected_rank V (nd_parents n)"
    using assms(2) dom by (rule expected_rank_mono)
  moreover have "\<exists>m. V' p = Some m \<and> node_type_of m = Admin"
    if "\<exists>m. V p = Some m \<and> node_type_of m = Admin" for p
    using that map_leD [OF assms(2)] by blast
  moreover have "\<exists>k. soft_chain V' b k \<and> k < MAX_SOFT_ANCHOR_CHAIN"
    if "\<exists>k. soft_chain V b k \<and> k < MAX_SOFT_ANCHOR_CHAIN" for b
    using that soft_chain_mono [OF _ assms(2)] by blast
  moreover have "\<exists>d < MAX_ANCESTRY_HOPS. anchored V' p d" if "\<exists>d < MAX_ANCESTRY_HOPS. anchored V p d" for p
    using that anchored_mono [OF _ assms(2)] by blast
  ultimately show ?thesis using assms(1) unfolding node_ok_def by simp metis
qed

lemma well_formed_extend:
  assumes "well_formed V" "node_ok V n" "V h = None \<or> V h = Some n"
  shows "well_formed (V(h \<mapsto> n))" "V \<subseteq>\<^sub>m V(h \<mapsto> n)"
proof -
  show le: "V \<subseteq>\<^sub>m V(h \<mapsto> n)" using assms(3) by (auto simp: map_le_def dom_def)
  show "well_formed (V(h \<mapsto> n))"
    unfolding well_formed_def
    using assms(1,2) le by (auto split: if_splits intro: node_ok_mono dest: well_formedD)
qed

lemma anchored_closed:
  assumes "well_formed V" "V \<subseteq>\<^sub>m V'" "anchored V' h d" "h \<in> dom V"
  shows "anchored V h d"
  using assms(3,4)
proof (induction rule: anchored.induct)
  case (admin h n)
  with assms(2) show ?case by (auto intro!: anchored.admin dest: map_leD)
next
  case (rootless h n)
  with assms(2) show ?case by (auto intro!: anchored.rootless dest: map_leD)
next
  case (hop h n p d)
  then obtain n' where n': "V h = Some n'" by auto
  with hop assms(2) have [simp]: "n' = n" by (auto dest: map_leD)
  with n' hop.hyps(3) assms(1) have "p \<in> dom V" by (auto dest!: well_formedD simp: node_ok_def)
  with hop n' show ?case by (auto intro: anchored.hop)
qed

lemma nearest_stable:
  assumes "well_formed V" "V \<subseteq>\<^sub>m V'" "h \<in> dom V"
  shows "nearest V' h = nearest V h"
proof -
  have "anchored V' h d \<longleftrightarrow> anchored V h d" for d
    using assms anchored_closed anchored_mono by blast
  then show ?thesis by (simp add: nearest_def)
qed

section \<open>The checks, one by one\<close>

lemma first_duplicate_None: "first_duplicate S ps = None \<longleftrightarrow> distinct ps \<and> set ps \<inter> S = {}"
  by (induction ps arbitrary: S) auto

lemma check_limits_ok:
  "check_limits env n = Inr () \<Longrightarrow> length (nd_parents n) \<le> MAX_PARENTS \<and> distinct (nd_parents n)"
  by (auto simp: check_limits_def first_duplicate_None split: if_splits option.splits)

lemma parent_ranks_fold:
  fixes rank_of :: "node_hash \<Rightarrow> nat option"
  shows "fold (\<lambda>p (m, missing). case rank_of p of Some r \<Rightarrow> (if r \<ge> m then r else m, missing)
           | None \<Rightarrow> (m, missing @ [p])) ps (m0, ms) =
     (fold max (List.map_filter rank_of ps) m0, ms @ filter (\<lambda>p. rank_of p = None) ps)"
  by (induction ps arbitrary: m0 ms) (auto simp: max_def map_filter_simps split: option.splits)

lemma parent_ranks_eq:
  "parent_ranks rank_of ps = (fold max (List.map_filter rank_of ps) 0, filter (\<lambda>p. rank_of p = None) ps)"
  unfolding parent_ranks_def parent_ranks_fold by simp

lemma fold_max_ranks:
  fixes f :: "node_hash \<Rightarrow> nat"
  assumes "\<forall>p \<in> set ps. rank_of p = Some (f p)" "ps \<noteq> []"
  shows "fold max (List.map_filter rank_of ps) 0 = Max (f ` set ps)"
proof -
  have "List.map_filter rank_of ps = map f ps"
    using assms(1) by (induction ps) (auto simp: map_filter_simps)
  then have "fold max (List.map_filter rank_of ps) 0 = Max (set (0 # map f ps))"
    by (simp only: Max.set_eq_fold)
  also have "\<dots> = Max (f ` set ps)" using assms(2) by (simp add: Max_insert)
  finally show ?thesis .
qed

lemma check_admin_parents_ok:
  "check_admin_parents type_of ps = Inr () \<longleftrightarrow> (\<forall>p \<in> set ps. type_of p = Some Admin)"
  by (induction ps) (auto split: option.splits node_type.splits)

section \<open>The contract of a store's queries\<close>

locale history_lookup =
  fixes lk :: "('s, 'l) node_lookup_scheme"
    and inv :: "'s \<Rightarrow> bool"
    and view :: "'s \<Rightarrow> history"
  assumes wf_view: "inv s \<Longrightarrow> well_formed (view s)"
    and rank_bound: "inv s \<Longrightarrow> view s h = Some n \<Longrightarrow> nd_topological_rank n < u64_max"
    and type_exact: "inv s \<Longrightarrow> lk_node_type lk s h = map_option node_type_of (view s h)"
    and rank_exact: "inv s \<Longrightarrow> lk_rank lk s h = map_option nd_topological_rank (view s h)"
    and contains_exact: "inv s \<Longrightarrow> lk_contains_node lk s h \<longleftrightarrow> h \<in> dom (view s)"
    and distance_exact: "inv s \<Longrightarrow>
          \<exists>s'. lk_admin_distance lk s h = Some (distance (view s) h, s') \<and> inv s' \<and> view s' = view s"
    and chain_exact: "inv s \<Longrightarrow> h \<in> dom (view s) \<Longrightarrow>
          \<exists>k. lk_soft_anchor_chain lk s h = Some (Some k) \<and> soft_chain (view s) h k"
begin

lemma check_rank_exact:
  assumes "inv s"
  shows "\<exists>r. check_rank (lk_rank lk s) n = Some r
           \<and> (r = Inr () \<longleftrightarrow> set (nd_parents n) \<subseteq> dom (view s)
                \<and> nd_topological_rank n = expected_rank (view s) (nd_parents n))"
proof (cases "set (nd_parents n) \<subseteq> dom (view s)")
  case True
  then have ranks: "\<forall>p \<in> set (nd_parents n). lk_rank lk s p = Some (rank_in (view s) p)"
    using assms by (auto simp: rank_exact rank_in_def)
  then have none: "filter (\<lambda>p. lk_rank lk s p = None) (nd_parents n) = []" by (simp add: filter_empty_conv)
  show ?thesis
  proof (cases "nd_parents n = []")
    case False
    have "Max (rank_in (view s) ` set (nd_parents n)) \<in> rank_in (view s) ` set (nd_parents n)"
      using False by (intro Max_in) auto
    then obtain p where "p \<in> set (nd_parents n)" "Max (rank_in (view s) ` set (nd_parents n)) = rank_in (view s) p"
      by auto
    then have "Max (rank_in (view s) ` set (nd_parents n)) < u64_max"
      using True rank_bound [OF assms, of p] by (auto simp: rank_in_def)
    with False True none fold_max_ranks [OF ranks False] show ?thesis
      by (simp add: check_rank_def parent_ranks_eq add_u64_def expected_rank_def Suc_le_eq)
  qed (simp add: check_rank_def parent_ranks_eq expected_rank_def List.map_filter_simps)
next
  case False
  then have "filter (\<lambda>p. lk_rank lk s p = None) (nd_parents n) \<noteq> []"
    using assms by (auto simp: rank_exact filter_empty_conv)
  with False show ?thesis by (simp add: check_rank_def parent_ranks_eq)
qed

lemma check_isolation_exact:
  assumes "inv s"
  shows "check_isolation (lk_node_type lk s) n = Inr () \<longleftrightarrow>
           (node_type_of n = Admin \<and> \<not> is_soft_anchor (nd_content n)
             \<longrightarrow> (\<forall>p \<in> set (nd_parents n). \<exists>m. view s p = Some m \<and> node_type_of m = Admin))"
  using assms by (auto simp: check_isolation_def check_admin_parents_ok type_exact)

lemma check_soft_anchor_exact:
  assumes "inv s" "set (nd_parents n) \<subseteq> dom (view s)"
  shows "\<exists>r. check_soft_anchor (lk_soft_anchor_chain lk s) n = Some r
           \<and> (r = Inr () \<longleftrightarrow> (\<forall>b c. nd_content n = Control (SoftAnchor b c)
                \<longrightarrow> nd_parents n = [b] \<and> (\<exists>k. soft_chain (view s) b k \<and> k < MAX_SOFT_ANCHOR_CHAIN)))"
proof (cases "\<exists>b c. nd_content n = Control (SoftAnchor b c) \<and> nd_parents n = [b]")
  case True
  then obtain b c where b: "nd_content n = Control (SoftAnchor b c)" "nd_parents n = [b]" by blast
  with assms obtain k where k: "lk_soft_anchor_chain lk s b = Some (Some k)" "soft_chain (view s) b k"
    using chain_exact [of s b] by auto
  from assms b obtain k' where "k' \<le> MAX_SOFT_ANCHOR_CHAIN" "soft_chain (view s) b k'"
    using soft_chain_exists [OF wf_view] by fastforce
  with k(2) have "k \<le> MAX_SOFT_ANCHOR_CHAIN" using soft_chain_fun by blast
  then have "add_u64 k 1 = Some (Suc k)" by (simp add: add_u64_def MAX_SOFT_ANCHOR_CHAIN_def u64_max_def)
  with b k show ?thesis
    by (auto simp: check_soft_anchor_def dest: soft_chain_fun)
next
  case False
  then show ?thesis
    by (cases "nd_content n" rule: is_soft_anchor.cases) (auto simp: check_soft_anchor_def)
qed

lemma min_parent_distance_exact:
  "inv s \<Longrightarrow> set ps \<subseteq> dom (view s) \<Longrightarrow>
     \<exists>s'. min_parent_distance (lk_admin_distance lk) s ps m
            = Some (Inr (fold min (map (nearest (view s)) ps) m), s') \<and> inv s' \<and> view s' = view s"
proof (induction ps arbitrary: s m)
  case (Cons p ps)
  then obtain s1 where "lk_admin_distance lk s p = Some (distance (view s) p, s1)" "inv s1" "view s1 = view s"
    using distance_exact by blast
  with Cons show ?case
    using Cons.IH [of s1 "min m (nearest (view s) p)"] by (auto simp: distance_def min.commute)
qed simp

lemma check_ancestry_exact:
  assumes "inv s" "set (nd_parents n) \<subseteq> dom (view s)"
  shows "\<exists>r s'. check_ancestry (lk_admin_distance lk) s n = Some (r, s') \<and> inv s' \<and> view s' = view s
           \<and> (r = Inr () \<longleftrightarrow> (node_type_of n = Content \<and> nd_parents n \<noteq> []
                \<longrightarrow> (\<exists>p \<in> set (nd_parents n). \<exists>d < MAX_ANCESTRY_HOPS. anchored (view s) p d)))"
proof (cases "node_type_of n = Content \<and> nd_parents n \<noteq> []")
  case True
  let ?V = "view s" and ?ps = "nd_parents n"
  let ?m = "Min (nearest ?V ` set ?ps)"
  obtain s' where s': "min_parent_distance (lk_admin_distance lk) s ?ps u64_max
      = Some (Inr (fold min (map (nearest ?V) ?ps) u64_max), s')" "inv s'" "view s' = ?V"
    using min_parent_distance_exact [OF assms] by blast
  have bound: "nearest ?V p \<le> MAX_ANCESTRY_HOPS" if "p \<in> set ?ps" for p
    using that assms nearest_bounded [OF wf_view] by blast
  have "?m \<in> nearest ?V ` set ?ps" using True by (intro Min_in) auto
  then obtain p where p: "p \<in> set ?ps" "?m = nearest ?V p" by auto
  have fold: "fold min (map (nearest ?V) ?ps) u64_max = ?m"
  proof -
    have "fold min (map (nearest ?V) ?ps) u64_max = Min (set (u64_max # map (nearest ?V) ?ps))"
      by (simp only: Min.set_eq_fold)
    also have "\<dots> = min u64_max ?m" using True by (simp add: Min_insert)
    also have "\<dots> = ?m" using bound [OF p(1)] p(2) by (simp add: u64_max_def MAX_ANCESTRY_HOPS_def)
    finally show ?thesis .
  qed
  have iff: "?m < MAX_ANCESTRY_HOPS \<longleftrightarrow> (\<exists>q \<in> set ?ps. \<exists>d < MAX_ANCESTRY_HOPS. anchored ?V q d)"
  proof
    assume "?m < MAX_ANCESTRY_HOPS"
    moreover have "anchored ?V p (nearest ?V p)"
      using p(1) assms by (intro nearest_anchored wf_view) auto
    ultimately show "\<exists>q \<in> set ?ps. \<exists>d < MAX_ANCESTRY_HOPS. anchored ?V q d" using p by auto
  next
    assume "\<exists>q \<in> set ?ps. \<exists>d < MAX_ANCESTRY_HOPS. anchored ?V q d"
    then obtain q d where q: "q \<in> set ?ps" "d < MAX_ANCESTRY_HOPS" "anchored ?V q d" by blast
    then have "?m \<le> nearest ?V q" by (intro Min_le) auto
    with nearest_le [OF q(3)] q(2) show "?m < MAX_ANCESTRY_HOPS" by linarith
  qed
  have "add_u64 ?m 1 = Some (?m + 1)"
    using bound [OF p(1)] p(2) by (simp add: add_u64_def u64_max_def MAX_ANCESTRY_HOPS_def)
  moreover obtain m where m: "?m = m" by simp
  ultimately show ?thesis
    using True s' fold iff unfolding m by (cases "m < MAX_ANCESTRY_HOPS") (auto simp: check_ancestry_def)
qed (use assms in \<open>auto simp: check_ancestry_def\<close>)

text \<open>Validation accepts exactly the nodes that satisfy the rules, and leaves the history as it is.\<close>

lemma validate_exact:
  assumes "inv s" "check_authenticity env n \<noteq> None"
  shows "\<exists>r s'. validate env lk s n = Some (r, s') \<and> inv s' \<and> view s' = view s
           \<and> (r = Inr () \<longleftrightarrow> check_limits env n = Inr () \<and> check_auth_rule n = Inr ()
                \<and> check_authenticity env n = Some (Inr ()) \<and> node_ok (view s) n)"
proof (cases "check_limits env n = Inr () \<and> check_auth_rule n = Inr () \<and> check_authenticity env n = Some (Inr ())")
  case False
  with assms show ?thesis
    by (cases "check_limits env n"; cases "check_auth_rule n"; cases "check_authenticity env n")
      (auto simp: validate_def and_then_def split: sum.splits)
next
  case True
  note limits = check_limits_ok [of env n]
  obtain r1 where r1: "check_rank (lk_rank lk s) n = Some r1"
      "r1 = Inr () \<longleftrightarrow> set (nd_parents n) \<subseteq> dom (view s)
                \<and> nd_topological_rank n = expected_rank (view s) (nd_parents n)"
    using check_rank_exact [OF assms(1)] by blast
  show ?thesis
  proof (cases "r1 = Inr ()")
    case False
    with True r1 assms(1) show ?thesis
      by (cases r1) (auto simp: validate_def and_then_def node_ok_def)
  next
    case ranks: True
    with r1 have dom: "set (nd_parents n) \<subseteq> dom (view s)" by simp
    obtain r2 where r2: "check_soft_anchor (lk_soft_anchor_chain lk s) n = Some r2"
      "r2 = Inr () \<longleftrightarrow> (\<forall>b c. nd_content n = Control (SoftAnchor b c)
                \<longrightarrow> nd_parents n = [b] \<and> (\<exists>k. soft_chain (view s) b k \<and> k < MAX_SOFT_ANCHOR_CHAIN))"
      using check_soft_anchor_exact [OF assms(1) dom] by blast
    obtain r3 s' where r3: "check_ancestry (lk_admin_distance lk) s n = Some (r3, s')" "inv s'" "view s' = view s"
      "r3 = Inr () \<longleftrightarrow> (node_type_of n = Content \<and> nd_parents n \<noteq> []
                \<longrightarrow> (\<exists>p \<in> set (nd_parents n). \<exists>d < MAX_ANCESTRY_HOPS. anchored (view s) p d))"
      using check_ancestry_exact [OF assms(1) dom] by blast
    note iso = check_isolation_exact [OF assms(1), of n]
    have ok: "node_ok (view s) n \<longleftrightarrow> check_isolation (lk_node_type lk s) n = Inr () \<and> r2 = Inr () \<and> r3 = Inr ()"
      using limits True ranks r1(2) iso r2(2) r3(4) unfolding node_ok_def by blast
    show ?thesis
      using True ranks r1(1) r2(1) r3(1-3) ok assms(1)
      by (cases "check_isolation (lk_node_type lk s) n"; cases r2)
        (auto simp: validate_def and_then_def)
  qed
qed

end

end
