(* ===== verification/Dag_Wire.thy ===== *)
theory Dag_Wire
  imports Crypto Dag_Spec
begin

unbundle bit_operations_syntax

text \<open>
  The wire form of a node (\<^verbatim>\<open>merkle-tox-core/src/dag.rs\<close>, \<^verbatim>\<open>pack_wire\<close> to \<^verbatim>\<open>decode_payload\<close>): the payload
  is the timestamp, the content and the metadata, compressed when that helps and padded. Exception
  nodes travel in clear; content nodes are encrypted under a message key and carry an encrypted
  sequence number bound to the payload. Unpacking recovers the node that was packed. Also here: the
  effective timestamp of a node, the latest of its own and its ancestors' timestamps.
\<close>

section \<open>Packing\<close>

text \<open>The compressed payload when compression is wanted, works and makes the payload shorter.\<close>

definition compress_payload :: "'e wire_env_scheme \<Rightarrow> bool \<Rightarrow> bytes \<Rightarrow> bytes \<times> wire_flags" where
  "compress_payload env use_compression plain =
     (case (if use_compression then we_zstd_encode env plain else None) of
        Some compressed \<Rightarrow>
          if length compressed < length plain then (compressed, FLAGS_NONE OR COMPRESSED)
          else (plain, FLAGS_NONE)
      | None \<Rightarrow> (plain, FLAGS_NONE))"

definition pack_wire :: "'e wire_env_scheme \<Rightarrow> merkle_node \<Rightarrow> pack_keys \<Rightarrow> bool \<Rightarrow> wire_node merkle_result" where
  "pack_wire env n keys use_compression =
     (case de_ser_content env (nd_content n) of
        None \<Rightarrow> Inl (ProtocolError ''serialize'')
      | Some content_data \<Rightarrow>
          (let plain = i64_be (nd_network_timestamp n) @ content_data @ nd_metadata n;
               (payload, flags) = compress_payload env use_compression plain;
               payload_data = apply_padding payload
           in case keys of
                PackException \<Rightarrow>
                  Inr \<lparr>wn_parents = nd_parents n, wn_sender_hint = [0, 0, 0, 0],
                       wn_encrypted_routing = nd_sender_pk n @ u64_be (nd_sequence_number n),
                       wn_payload_data = payload_data, wn_topological_rank = nd_topological_rank n,
                       wn_flags = flags, wn_authentication = nd_authentication n\<rparr>
              | PackContent ck \<Rightarrow>
                  (let encrypted_payload =
                         pk_payload_nonce ck @ we_chacha20 env (pk_k_msg ck) (pk_payload_nonce ck) payload_data;
                       payload_hash = de_blake3 env encrypted_payload;
                       aead_ct = encrypt_routing_aead env (pk_k_header ck) (pk_routing_nonce ck)
                                   (nd_sequence_number n) payload_hash
                   in Inr \<lparr>wn_parents = nd_parents n, wn_sender_hint = compute_sender_hint env (pk_k_msg ck),
                           wn_encrypted_routing = pk_routing_nonce ck @ aead_ct,
                           wn_payload_data = encrypted_payload, wn_topological_rank = nd_topological_rank n,
                           wn_flags = flags OR ENCRYPTED, wn_authentication = nd_authentication n\<rparr>)))"

section \<open>Unpacking\<close>

definition try_decrypt_routing :: "'e wire_env_scheme \<Rightarrow> wire_node \<Rightarrow> bytes \<Rightarrow> nat option" where
  "try_decrypt_routing env w k_header =
     (if length (wn_encrypted_routing w) \<noteq> 36 then None
      else decrypt_routing_aead env k_header (take 12 (wn_encrypted_routing w)) (drop 12 (wn_encrypted_routing w))
             (de_blake3 env (wn_payload_data w)))"

text \<open>The decoder of the content may panic, and \<^verbatim>\<open>payload_data[8 + consumed..]\<close> panics past the end of the payload.\<close>

definition decode_payload ::
    "'e wire_env_scheme \<Rightarrow> wire_node \<Rightarrow> public_key \<Rightarrow> public_key \<Rightarrow> nat \<Rightarrow> bytes \<Rightarrow> merkle_node merkle_result panics" where
  "decode_payload env w sender_pk author_pk sequence_number payload_data =
     (case remove_padding payload_data of
        Inl e \<Rightarrow> Some (Inl (ValidationErr (InvalidPadding (''Invalid padding: '' @ e))))
      | Inr unpadded \<Rightarrow>
          (case (if flags_contain (wn_flags w) COMPRESSED then we_zstd_decode env unpadded else Inr unpadded) of
             Inl e \<Rightarrow> Some (Inl (ValidationErr (DecompressionFailed (''Decompression failed: '' @ e))))
           | Inr payload \<Rightarrow>
               if length payload < 8 then Some (Inl (ValidationErr (InvalidWirePayloadSize (length payload) 8)))
               else
                 (case we_de_content env (drop 8 payload) of
                    None \<Rightarrow> None
                  | Some (Inl e) \<Rightarrow> Some (Inl (ProtocolError e))
                  | Some (Inr (content, consumed)) \<Rightarrow>
                      if length payload < 8 + consumed then None
                      else
                        Some (Inr \<lparr>nd_parents = wn_parents w, nd_author_pk = author_pk, nd_sender_pk = sender_pk,
                             nd_sequence_number = sequence_number, nd_topological_rank = wn_topological_rank w,
                             nd_network_timestamp = i64_of_be (take 8 payload), nd_content = content,
                             nd_metadata = drop (8 + consumed) payload,
                             nd_authentication = wn_authentication w, mn_pow_nonce = 0\<rparr>))))"

definition unpack_wire_content ::
    "'e wire_env_scheme \<Rightarrow> wire_node \<Rightarrow> public_key \<Rightarrow> public_key \<Rightarrow> nat \<Rightarrow> bytes \<Rightarrow> merkle_node merkle_result panics" where
  "unpack_wire_content env w sender_pk author_pk sequence_number k_msg =
     (if length (wn_payload_data w) < 12
      then Some (Inl (ValidationErr (InvalidWirePayloadSize (length (wn_payload_data w)) 12)))
      else decode_payload env w sender_pk author_pk sequence_number
             (we_chacha20 env k_msg (take 12 (wn_payload_data w)) (drop 12 (wn_payload_data w))))"

definition unpack_wire_exception :: "'e wire_env_scheme \<Rightarrow> wire_node \<Rightarrow> merkle_node merkle_result panics" where
  "unpack_wire_exception env w =
     (let routing = wn_encrypted_routing w in
      if length routing < 40 then Some (Inl (ValidationErr (InvalidWirePayloadSize (length routing) 40)))
      else
        (let sender_pk = take 32 routing; sequence_number = u64_of_be (take 8 (drop 32 routing))
         in decode_payload env w sender_pk sender_pk sequence_number (wn_payload_data w)))"

section \<open>Effective timestamps\<close>

text \<open>
  The maximum over a node and its stored ancestors; the fuel bounds the depth of the recursion and
  running out of it stands for not returning.
\<close>

fun effective_timestamp :: "(node_hash \<Rightarrow> merkle_node option) \<Rightarrow> nat \<Rightarrow> merkle_node \<Rightarrow> int option"
  and parents_timestamp :: "(node_hash \<Rightarrow> merkle_node option) \<Rightarrow> nat \<Rightarrow> node_hash list \<Rightarrow> int \<Rightarrow> int option" where
  "effective_timestamp get_node 0 n = None"
| "effective_timestamp get_node (Suc fuel) n =
     parents_timestamp get_node fuel (nd_parents n) (nd_network_timestamp n)"
| "parents_timestamp get_node fuel [] t_eff = Some t_eff"
| "parents_timestamp get_node fuel (p # ps) t_eff =
     (case get_node p of
        None \<Rightarrow> parents_timestamp get_node fuel ps t_eff
      | Some parent \<Rightarrow>
          do {
            t \<leftarrow> effective_timestamp get_node fuel parent;
            parents_timestamp get_node fuel ps (max t_eff t)
          })"

section \<open>Round trips\<close>

text \<open>The ranges of the three fields that packing writes in a fixed width: the sender, the sequence number and the timestamp.\<close>

definition node_typed :: "merkle_node \<Rightarrow> bool" where
  "node_typed n \<longleftrightarrow> length (nd_sender_pk n) = 32 \<and> nd_sequence_number n \<le> u64_max \<and> i64_ok (nd_network_timestamp n)"

text \<open>\<^verbatim>\<open>tox_proto\<close> decodes an encoded content, whatever follows it.\<close>

definition content_codec :: "'e wire_env_scheme \<Rightarrow> content \<Rightarrow> bytes \<Rightarrow> bool" where
  "content_codec env c rest \<longleftrightarrow>
     (\<exists>bs. de_ser_content env c = Some bs \<and> we_de_content env (bs @ rest) = Some (Inr (c, length bs)))"

definition received :: "merkle_node \<Rightarrow> public_key \<Rightarrow> merkle_node" where
  "received n author_pk = n\<lparr>nd_author_pk := author_pk, mn_pow_nonce := 0\<rparr>"

lemma flag_facts [simp]:
  "flags_contain (FLAGS_NONE OR COMPRESSED) COMPRESSED" "\<not> flags_contain FLAGS_NONE COMPRESSED"
  "flags_contain ((FLAGS_NONE OR COMPRESSED) OR ENCRYPTED) COMPRESSED" "\<not> flags_contain (FLAGS_NONE OR ENCRYPTED) COMPRESSED"
  "\<not> flags_contain (FLAGS_NONE OR COMPRESSED) ENCRYPTED" "\<not> flags_contain FLAGS_NONE ENCRYPTED"
  "flags_contain (f OR ENCRYPTED) ENCRYPTED"
proof -
  show "flags_contain (f OR ENCRYPTED) ENCRYPTED"
    unfolding flags_contain_def by (rule bit_word_eqI) (auto simp: bit_simps)
qed (simp_all add: flags_contain_def FLAGS_NONE_def COMPRESSED_def ENCRYPTED_def)

text \<open>What every wire form keeps of the node, and what its flags say about the payload.\<close>

lemma decode_packed:
  assumes laws: "crypto_laws env" and typed: "node_typed n" and codec: "content_codec env (nd_content n) (nd_metadata n)"
    and bs: "de_ser_content env (nd_content n) = Some bs"
    and plain: "plain = i64_be (nd_network_timestamp n) @ bs @ nd_metadata n"
    and payload: "(payload, flags_contain (wn_flags w) COMPRESSED) = (plain, False)
                    \<or> we_zstd_encode env plain = Some payload \<and> flags_contain (wn_flags w) COMPRESSED"
    and w: "wn_parents w = nd_parents n" "wn_topological_rank w = nd_topological_rank n"
      "wn_authentication w = nd_authentication n"
  shows "decode_payload env w (nd_sender_pk n) author (nd_sequence_number n) (apply_padding payload)
           = Some (Inr (received n author))"
proof -
  have "(if flags_contain (wn_flags w) COMPRESSED then we_zstd_decode env payload else Inr payload) = Inr plain"
    using payload zstd_inverse [OF laws] by auto
  moreover have "we_de_content env (bs @ nd_metadata n) = Some (Inr (nd_content n, length bs))"
    using codec bs by (auto simp: content_codec_def)
  moreover have "take 8 plain = i64_be (nd_network_timestamp n)" "drop 8 plain = bs @ nd_metadata n"
    "length plain = 8 + length bs + length (nd_metadata n)" "drop (8 + length bs) plain = nd_metadata n"
    by (simp_all add: plain)
  ultimately show ?thesis
    using typed w by (simp add: decode_payload_def remove_apply_padding node_typed_def received_def)
qed

lemma compress_payload_cases:
  "compress_payload env c plain = (payload, flags) \<Longrightarrow>
     payload = plain \<and> flags = FLAGS_NONE
     \<or> we_zstd_encode env plain = Some payload \<and> flags = FLAGS_NONE OR COMPRESSED"
  by (auto simp: compress_payload_def split: option.splits if_splits)

lemma pack_unpack_exception:
  assumes laws: "crypto_laws env" and typed: "node_typed n"
    and codec: "content_codec env (nd_content n) (nd_metadata n)"
    and pack: "pack_wire env n PackException compress = Inr w"
  shows "unpack_wire_exception env w = Some (Inr (received n (nd_sender_pk n)))"
    and "\<not> flags_contain (wn_flags w) ENCRYPTED"
proof -
  obtain bs where bs: "de_ser_content env (nd_content n) = Some bs" using codec by (auto simp: content_codec_def)
  define plain where "plain = i64_be (nd_network_timestamp n) @ bs @ nd_metadata n"
  obtain payload flags where pf: "compress_payload env compress plain = (payload, flags)" by (metis surj_pair)
  have w: "w = \<lparr>wn_parents = nd_parents n, wn_sender_hint = [0, 0, 0, 0],
                wn_encrypted_routing = nd_sender_pk n @ u64_be (nd_sequence_number n),
                wn_payload_data = apply_padding payload, wn_topological_rank = nd_topological_rank n,
                wn_flags = flags, wn_authentication = nd_authentication n\<rparr>"
    using pack bs pf by (simp add: pack_wire_def Let_def plain_def [symmetric])
  have payload: "payload = plain \<and> flags = FLAGS_NONE
           \<or> we_zstd_encode env plain = Some payload \<and> flags = FLAGS_NONE OR COMPRESSED"
    using pf by (rule compress_payload_cases)
  have "decode_payload env w (nd_sender_pk n) (nd_sender_pk n) (nd_sequence_number n) (apply_padding payload)
      = Some (Inr (received n (nd_sender_pk n)))"
    by (rule decode_packed [OF laws typed codec bs plain_def]) (use payload w in auto)
  with typed w show "unpack_wire_exception env w = Some (Inr (received n (nd_sender_pk n)))"
    by (simp add: unpack_wire_exception_def node_typed_def)
  show "\<not> flags_contain (wn_flags w) ENCRYPTED" using payload w by auto
qed

lemma pack_unpack_content:
  assumes laws: "crypto_laws env" and typed: "node_typed n"
    and codec: "content_codec env (nd_content n) (nd_metadata n)"
    and nonces: "length (pk_routing_nonce ck) = 12" "length (pk_payload_nonce ck) = 12"
    and pack: "pack_wire env n (PackContent ck) compress = Inr w"
  shows "try_decrypt_routing env w (pk_k_header ck) = Some (nd_sequence_number n)"
    and "unpack_wire_content env w (nd_sender_pk n) author (nd_sequence_number n) (pk_k_msg ck)
           = Some (Inr (received n author))"
    and "flags_contain (wn_flags w) ENCRYPTED"
    and "wn_sender_hint w = compute_sender_hint env (pk_k_msg ck)"
proof -
  obtain bs where bs: "de_ser_content env (nd_content n) = Some bs" using codec by (auto simp: content_codec_def)
  define plain where "plain = i64_be (nd_network_timestamp n) @ bs @ nd_metadata n"
  obtain payload flags where pf: "compress_payload env compress plain = (payload, flags)" by (metis surj_pair)
  define enc where "enc = pk_payload_nonce ck @ we_chacha20 env (pk_k_msg ck) (pk_payload_nonce ck) (apply_padding payload)"
  have w: "w = \<lparr>wn_parents = nd_parents n, wn_sender_hint = compute_sender_hint env (pk_k_msg ck),
                wn_encrypted_routing = pk_routing_nonce ck @ encrypt_routing_aead env (pk_k_header ck)
                  (pk_routing_nonce ck) (nd_sequence_number n) (de_blake3 env enc),
                wn_payload_data = enc, wn_topological_rank = nd_topological_rank n,
                wn_flags = flags OR ENCRYPTED, wn_authentication = nd_authentication n\<rparr>"
    using pack bs pf by (simp add: pack_wire_def Let_def plain_def [symmetric] enc_def)
  have payload: "payload = plain \<and> flags = FLAGS_NONE
           \<or> we_zstd_encode env plain = Some payload \<and> flags = FLAGS_NONE OR COMPRESSED"
    using pf by (rule compress_payload_cases)
  show "try_decrypt_routing env w (pk_k_header ck) = Some (nd_sequence_number n)"
    using decrypt_encrypt_routing [OF laws, of "nd_sequence_number n"] typed nonces w
    by (simp add: try_decrypt_routing_def node_typed_def)
  have "decode_payload env w (nd_sender_pk n) author (nd_sequence_number n) (apply_padding payload)
      = Some (Inr (received n author))"
    by (rule decode_packed [OF laws typed codec bs plain_def]) (use payload w in auto)
  with nonces w show "unpack_wire_content env w (nd_sender_pk n) author (nd_sequence_number n) (pk_k_msg ck)
           = Some (Inr (received n author))"
    by (simp add: unpack_wire_content_def enc_def chacha_inverse [OF laws])
  show "flags_contain (wn_flags w) ENCRYPTED" "wn_sender_hint w = compute_sender_hint env (pk_k_msg ck)"
    using w by auto
qed

section \<open>Signed bytes\<close>

lemma sig_separators: "length (str_bytes ADMIN_SIG) \<noteq> length (str_bytes CONTENT_SIG)"
  by (simp add: str_bytes_def ADMIN_SIG_def CONTENT_SIG_def)

text \<open>The bytes signed of an uncompressed exception node are those signed of its wire form only for administrative nodes.\<close>

lemma exception_auth:
  assumes "pack_wire env n PackException False = Inr w" "serialize_for_auth env n = Some auth"
  shows "wire_serialize_for_auth env w = Some auth \<longleftrightarrow> node_type_of n = Admin"
proof -
  obtain bs where bs: "de_ser_content env (nd_content n) = Some bs"
    using assms(1) by (auto simp: pack_wire_def split: option.splits)
  define d where "d = wire_auth_data.truncate w"
  have w: "wn_flags w = FLAGS_NONE" using assms(1) bs by (auto simp: pack_wire_def compress_payload_def)
  have "d = \<lparr>wn_parents = nd_parents n, wn_sender_hint = [0, 0, 0, 0],
      wn_encrypted_routing = nd_sender_pk n @ u64_be (nd_sequence_number n),
      wn_payload_data = apply_padding (i64_be (nd_network_timestamp n) @ bs @ nd_metadata n),
      wn_topological_rank = nd_topological_rank n, wn_flags = FLAGS_NONE\<rparr>"
    using assms(1) bs by (auto simp: d_def pack_wire_def compress_payload_def wire_auth_data.truncate_def)
  with assms(2) bs obtain ser where ser: "de_ser_wire_auth env d = Some ser"
      "auth = str_bytes (case node_type_of n of Admin \<Rightarrow> ADMIN_SIG | Content \<Rightarrow> CONTENT_SIG) @ ser"
    by (cases "de_ser_wire_auth env d") (auto simp: serialize_for_auth_def)
  have "wire_serialize_for_auth env w = Some (str_bytes ADMIN_SIG @ ser)"
    using ser w by (simp add: wire_serialize_for_auth_def d_def)
  with ser sig_separators show ?thesis by (cases "node_type_of n") auto
qed

section \<open>Effective timestamps are the latest of the ancestry\<close>

definition ancestors :: "history \<Rightarrow> ('z) node_data_scheme \<Rightarrow> node_hash set" where
  "ancestors V n = {a. \<exists>p \<in> set (nd_parents n). (a, p) \<in> (parent_rel V)\<^sup>*}"

definition latest :: "history \<Rightarrow> merkle_node \<Rightarrow> int \<Rightarrow> bool" where
  "latest V n t \<longleftrightarrow>
     nd_network_timestamp n \<le> t \<and> (\<forall>a m. a \<in> ancestors V n \<and> V a = Some m \<longrightarrow> nd_network_timestamp m \<le> t)
     \<and> (t = nd_network_timestamp n \<or> (\<exists>a m. a \<in> ancestors V n \<and> V a = Some m \<and> nd_network_timestamp m = t))"

definition serves :: "(node_hash \<Rightarrow> merkle_node option) \<Rightarrow> history \<Rightarrow> bool" where
  "serves get_node V \<longleftrightarrow> (\<forall>h. map_option node_data.truncate (get_node h) = V h)"

lemma servesD: "serves get_node V \<Longrightarrow> h \<in> dom V \<Longrightarrow> \<exists>m. get_node h = Some m \<and> V h = Some (node_data.truncate m)"
  by (auto simp: serves_def dom_def) (metis (no_types, lifting) map_option_eq_Some)

lemma parents_timestamp_fold:
  assumes "\<And>p. p \<in> set ps \<Longrightarrow> \<exists>m. get_node p = Some m \<and> effective_timestamp get_node fuel m = Some (E p)"
  shows "parents_timestamp get_node fuel ps t = Some (fold max (map E ps) t)"
  using assms
proof (induction ps arbitrary: t)
  case (Cons p ps)
  obtain m where "get_node p = Some m" "effective_timestamp get_node fuel m = Some (E p)"
    using Cons.prems [of p] by auto
  moreover have "parents_timestamp get_node fuel ps (max t (E p)) = Some (fold max (map E ps) (max t (E p)))"
    using Cons.prems by (intro Cons.IH) simp
  ultimately show ?case by (simp add: max.commute)
qed simp

lemma ancestors_parent:
  assumes "p \<in> set (nd_parents n)" "V p = Some m"
  shows "insert p (ancestors V m) \<subseteq> ancestors V n"
proof -
  have "(a, p) \<in> (parent_rel V)\<^sup>*" if "a \<in> ancestors V m" for a
  proof -
    from that obtain q where "q \<in> set (nd_parents m)" "(a, q) \<in> (parent_rel V)\<^sup>*" by (auto simp: ancestors_def)
    moreover from this assms have "(q, p) \<in> parent_rel V" by (auto simp: parent_rel_def)
    ultimately show ?thesis by (meson rtrancl.rtrancl_into_rtrancl)
  qed
  with assms show ?thesis by (auto simp: ancestors_def)
qed

lemma ancestors_cases:
  assumes "a \<in> ancestors V n"
  shows "\<exists>p \<in> set (nd_parents n). a = p \<or> (\<exists>m. V p = Some m \<and> a \<in> ancestors V m)"
proof -
  from assms obtain p where p: "p \<in> set (nd_parents n)" "(a, p) \<in> (parent_rel V)\<^sup>*" by (auto simp: ancestors_def)
  from p(2) show ?thesis
  proof (cases rule: rtranclE)
    case (step q)
    then show ?thesis using p(1) by (auto simp: parent_rel_def ancestors_def)
  qed (use p(1) in auto)
qed

lemma fold_max_set: "fold max xs (t :: int) = Max (insert t (set xs))"
  by (metis Max.set_eq_fold list.simps(15))

lemma effective_timestamp_latest:
  assumes V: "well_formed V" and get: "serves get_node V"
  shows "node_ok V n \<Longrightarrow> nd_topological_rank n < fuel \<Longrightarrow>
           \<exists>t. effective_timestamp get_node fuel n = Some t \<and> latest V n t"
proof (induction fuel arbitrary: n)
  case (Suc fuel)
  have ex: "\<exists>m t. get_node p = Some m \<and> V p = Some (node_data.truncate m)
      \<and> effective_timestamp get_node fuel m = Some t \<and> latest V m t" if p: "p \<in> set (nd_parents n)" for p
  proof -
    have "p \<in> dom V" using p Suc.prems(1) by (auto simp: node_ok_def)
    then obtain m where m: "get_node p = Some m" "V p = Some (node_data.truncate m)"
      using servesD [OF get] by blast
    have "node_ok V m" using well_formedD [OF V m(2)] by simp
    moreover have "nd_topological_rank m < fuel"
      using rank_in_parent [OF Suc.prems(1) p] Suc.prems(2) m(2) by (simp add: rank_in_def node_data.truncate_def)
    ultimately show ?thesis using Suc.IH m by blast
  qed
  then obtain M E where ME: "\<And>p. p \<in> set (nd_parents n) \<Longrightarrow> get_node p = Some (M p)
      \<and> V p = Some (node_data.truncate (M p)) \<and> effective_timestamp get_node fuel (M p) = Some (E p)
      \<and> latest V (M p) (E p)"
    by metis
  let ?S = "insert (nd_network_timestamp n) (E ` set (nd_parents n))"
  let ?t = "Max ?S"
  have "parents_timestamp get_node fuel (nd_parents n) (nd_network_timestamp n) = Some ?t"
    using ME by (subst parents_timestamp_fold [of _ _ _ E]) (auto simp: fold_max_set)
  then have eff: "effective_timestamp get_node (Suc fuel) n = Some ?t" by simp
  have anc: "ancestors V (node_data.truncate m) = ancestors V m" for m :: merkle_node
    by (simp add: ancestors_def node_data.truncate_def)
  have ts: "nd_network_timestamp (node_data.truncate m) = nd_network_timestamp m" for m :: merkle_node
    by (simp add: node_data.truncate_def)
  have "nd_network_timestamp m \<le> ?t" if a: "a \<in> ancestors V n" "V a = Some m" for a m
  proof -
    obtain p where p: "p \<in> set (nd_parents n)" "a = p \<or> a \<in> ancestors V (M p)"
      using ancestors_cases [OF a(1)] ME anc by fastforce
    have "nd_network_timestamp m \<le> E p" using ME [OF p(1)] p(2) a(2) ts by (auto simp: latest_def)
    also have "\<dots> \<le> ?t" using p(1) by (intro Max_ge) auto
    finally show ?thesis .
  qed
  moreover have "?t = nd_network_timestamp n
      \<or> (\<exists>a m. a \<in> ancestors V n \<and> V a = Some m \<and> nd_network_timestamp m = ?t)"
  proof -
    have "?t \<in> ?S" by (intro Max_in) auto
    then consider "?t = nd_network_timestamp n" | p where "p \<in> set (nd_parents n)" "?t = E p" by blast
    then show ?thesis
    proof cases
      case 2
      have sub: "insert p (ancestors V (M p)) \<subseteq> ancestors V n"
        using ancestors_parent [of p n V "node_data.truncate (M p)"] ME [OF 2(1)] 2(1) anc by simp
      from ME [OF 2(1)] have "E p = nd_network_timestamp (M p)
          \<or> (\<exists>a m. a \<in> ancestors V (M p) \<and> V a = Some m \<and> nd_network_timestamp m = E p)"
        by (auto simp: latest_def)
      then show ?thesis using sub 2(2) ME [OF 2(1)] ts by (metis insert_subset subsetD)
    qed simp
  qed
  ultimately have "latest V n ?t" unfolding latest_def by (auto intro: Max_ge)
  with eff show ?case by blast
qed simp

end
