(* ===== verification/Dag_Codecs.thy ===== *)
theory Dag_Codecs
  imports Tox_Derive_Laws Dag_Wire
begin

text \<open>
  The derived codecs of the types of \<^verbatim>\<open>merkle-tox-core\<close> that are hashed, signed or sent: keys and
  hashes, certificates, contents, nodes and wire nodes. They keep the codec contract, so the encoding
  that the theories of the history take as a parameter satisfies what those theories assume of it.
\<close>

section \<open>Codecs\<close>

text \<open>\<^verbatim>\<open>merkle_tox_newtype!\<close> declares a struct with one field that is not flat: an array of one item.\<close>

definition newtype_cd :: "rmp \<Rightarrow> nat \<Rightarrow> bytes codec" where
  "newtype_cd r n = struct_codec r (\<lambda>(b, _). b) (\<lambda>b. (b, ())) (field (array_codec r n (u8_codec r)) no_fields)"

abbreviation hash_cd :: "rmp \<Rightarrow> bytes codec" where "hash_cd r \<equiv> newtype_cd r 32"
abbreviation sig_cd :: "rmp \<Rightarrow> bytes codec" where "sig_cd r \<equiv> newtype_cd r 64"
abbreviation raw_hash_cd :: "rmp \<Rightarrow> bytes codec" where "raw_hash_cd r \<equiv> array_codec r 32 (u8_codec r)"
abbreviation u64_cd :: "rmp \<Rightarrow> nat codec" where "u64_cd r \<equiv> uint_codec r 8"
abbreviation i64_cd :: "rmp \<Rightarrow> int codec" where "i64_cd r \<equiv> sint_codec r 8"

definition node_auth_cd :: "rmp \<Rightarrow> node_auth codec" where
  "node_auth_cd r =
     enum_codec r
       [single_arm 0 EphemeralSignature (\<lambda>a. case a of EphemeralSignature s \<Rightarrow> Some s | _ \<Rightarrow> None) (sig_cd r),
        single_arm 1 Signature (\<lambda>a. case a of Signature s \<Rightarrow> Some s | _ \<Rightarrow> None) (sig_cd r)] None"

definition emoji_source_cd :: "rmp \<Rightarrow> emoji_source codec" where
  "emoji_source_cd r =
     enum_codec r
       [single_arm 0 Unicode (\<lambda>e. case e of Unicode s \<Rightarrow> Some s | _ \<Rightarrow> None) (string_codec r),
        multi_arm r 1 (\<lambda>(h, s, _). CustomEmoji h s) (\<lambda>e. case e of CustomEmoji h s \<Rightarrow> Some (h, s, ()) | _ \<Rightarrow> None)
          (field (raw_hash_cd r) (field (string_codec r) no_fields))] None"

definition member_info_cd :: "rmp \<Rightarrow> member_info codec" where
  "member_info_cd r =
     struct_codec r (\<lambda>(pk, role, joined, _). \<lparr>mi_public_key = pk, mi_role = role, mi_joined_at = joined\<rparr>)
       (\<lambda>m. (mi_public_key m, mi_role m, mi_joined_at m, ()))
       (field (hash_cd r) (field (u8_codec r) (field (i64_cd r) no_fields)))"

definition sign_data_cd :: "rmp \<Rightarrow> delegation_sign_data codec" where
  "sign_data_cd r =
     struct_codec r
       (\<lambda>(v, cid, pk, perms, expires, _). \<lparr>sd_version = v, sd_conversation_id = cid, sd_device_pk = pk,
          sd_permissions = perms, sd_expires_at = expires\<rparr>)
       (\<lambda>d. (sd_version d, sd_conversation_id d, sd_device_pk d, sd_permissions d, sd_expires_at d, ()))
       (field (uint_codec r 4) (field (hash_cd r) (field (hash_cd r) (field (bits_codec r) (field (i64_cd r) no_fields)))))"

definition certificate_cd :: "rmp \<Rightarrow> delegation_certificate codec" where
  "certificate_cd r =
     struct_codec r
       (\<lambda>(v, cid, pk, perms, expires, sig, _). \<lparr>sd_version = v, sd_conversation_id = cid, sd_device_pk = pk,
          sd_permissions = perms, sd_expires_at = expires, cert_signature = sig\<rparr>)
       (\<lambda>d. (sd_version d, sd_conversation_id d, sd_device_pk d, sd_permissions d, sd_expires_at d, cert_signature d, ()))
       (field (uint_codec r 4) (field (hash_cd r) (field (hash_cd r) (field (bits_codec r)
         (field (i64_cd r) (field (sig_cd r) no_fields))))))"

definition invite_action_cd :: "rmp \<Rightarrow> (public_key \<times> u8 \<times> unit) codec" where
  "invite_action_cd r = struct_codec r (\<lambda>x. x) (\<lambda>x. x) (field (hash_cd r) (field (u8_codec r) no_fields))"

definition signed_pre_key_cd :: "rmp \<Rightarrow> signed_pre_key codec" where
  "signed_pre_key_cd r =
     struct_codec r (\<lambda>(pk, sig, expires, _). \<lparr>sp_public_key = pk, sp_signature = sig, sp_expires_at = expires\<rparr>)
       (\<lambda>k. (sp_public_key k, sp_signature k, sp_expires_at k, ()))
       (field (hash_cd r) (field (sig_cd r) (field (i64_cd r) no_fields)))"

definition wrapped_key_cd :: "rmp \<Rightarrow> wrapped_key codec" where
  "wrapped_key_cd r =
     struct_codec r (\<lambda>(pk, opk, c, _). \<lparr>wk_recipient_pk = pk, wk_opk_id = opk, wk_ciphertext = c\<rparr>)
       (\<lambda>k. (wk_recipient_pk k, wk_opk_id k, wk_ciphertext k, ()))
       (field (hash_cd r) (field (hash_cd r) (field (byte_vec_codec r) no_fields)))"

definition seq_number_cd :: "rmp \<Rightarrow> (public_key \<times> nat) codec" where
  "seq_number_cd r = conv_codec (\<lambda>(pk, n, _). (pk, n)) (\<lambda>(pk, n). (pk, n, ())) (pair_codec r (hash_cd r) (u64_cd r))"

definition snapshot_data_cd :: "rmp \<Rightarrow> snapshot_data codec" where
  "snapshot_data_cd r =
     struct_codec r (\<lambda>(basis, ms, seqs, _). \<lparr>sn_basis_hash = basis, sn_members = ms, sn_last_seq_numbers = seqs\<rparr>)
       (\<lambda>s. (sn_basis_hash s, sn_members s, sn_last_seq_numbers s, ()))
       (field (hash_cd r) (field (vec_codec r (member_info_cd r)) (field (vec_codec r (seq_number_cd r)) no_fields)))"

definition control_action_arms :: "rmp \<Rightarrow> control_action arm list" where
  "control_action_arms r =
     [multi_arm r 0 (\<lambda>(title, pk, perms, flags, created, pow, _). Genesis title pk perms flags created pow)
        (\<lambda>a. case a of Genesis title pk perms flags created pow \<Rightarrow> Some (title, pk, perms, flags, created, pow, ()) | _ \<Rightarrow> None)
        (field (string_codec r) (field (hash_cd r) (field (bits_codec r) (field (u64_cd r) (field (i64_cd r)
          (field (u64_cd r) no_fields)))))),
      single_arm 1 SetTitle (\<lambda>a. case a of SetTitle t \<Rightarrow> Some t | _ \<Rightarrow> None) (string_codec r),
      single_arm 2 SetTopic (\<lambda>a. case a of SetTopic t \<Rightarrow> Some t | _ \<Rightarrow> None) (string_codec r),
      single_arm 3 (\<lambda>(pk, role, _). Invite pk role) (\<lambda>a. case a of Invite pk role \<Rightarrow> Some (pk, role, ()) | _ \<Rightarrow> None)
        (invite_action_cd r),
      single_arm 4 Leave (\<lambda>a. case a of Leave pk \<Rightarrow> Some pk | _ \<Rightarrow> None) (hash_cd r),
      single_arm 5 AuthorizeDevice (\<lambda>a. case a of AuthorizeDevice c \<Rightarrow> Some c | _ \<Rightarrow> None) (certificate_cd r),
      multi_arm r 6 (\<lambda>(pk, reason, _). RevokeDevice pk reason)
        (\<lambda>a. case a of RevokeDevice pk reason \<Rightarrow> Some (pk, reason, ()) | _ \<Rightarrow> None)
        (field (hash_cd r) (field (string_codec r) no_fields)),
      multi_arm r 7 (\<lambda>(keys, last_key, _). Announcement keys last_key)
        (\<lambda>a. case a of Announcement keys last_key \<Rightarrow> Some (keys, last_key, ()) | _ \<Rightarrow> None)
        (field (vec_codec r (signed_pre_key_cd r)) (field (signed_pre_key_cd r) no_fields)),
      unit_arm 8 HandshakePulse,
      single_arm 9 Snapshot (\<lambda>a. case a of Snapshot s \<Rightarrow> Some s | _ \<Rightarrow> None) (snapshot_data_cd r),
      multi_arm r 10 (\<lambda>(s, c, _). AnchorSnapshot s c)
        (\<lambda>a. case a of AnchorSnapshot s c \<Rightarrow> Some (s, c, ()) | _ \<Rightarrow> None)
        (field (snapshot_data_cd r) (field (certificate_cd r) no_fields)),
      multi_arm r 11 (\<lambda>(h, c, _). SoftAnchor h c)
        (\<lambda>a. case a of SoftAnchor h c \<Rightarrow> Some (h, c, ()) | _ \<Rightarrow> None)
        (field (hash_cd r) (field (certificate_cd r) no_fields))]"

definition control_action_cd :: "rmp \<Rightarrow> control_action codec" where
  "control_action_cd r = enum_codec r (control_action_arms r) None"

definition content_arms :: "rmp \<Rightarrow> content arm list" where
  "content_arms r =
     [multi_arm r 0 (\<lambda>(tag, data, _). Custom (of_nat tag) data)
        (\<lambda>c. case c of Custom tag data \<Rightarrow> Some (unat tag, data, ()) | _ \<Rightarrow> None)
        (field (uint_codec r 4) (field (byte_vec_codec r) no_fields)),
      multi_arm r 1 (\<lambda>(gen, anchor, epk, keys, _). KeyWrap gen anchor epk keys)
        (\<lambda>c. case c of KeyWrap gen anchor epk keys \<Rightarrow> Some (gen, anchor, epk, keys, ()) | _ \<Rightarrow> None)
        (field (u64_cd r) (field (hash_cd r) (field (hash_cd r) (field (vec_codec r (wrapped_key_cd r)) no_fields)))),
      multi_arm r 2 (\<lambda>(epk, keys, spk, disclosed, _). SenderKeyDistribution epk keys spk disclosed)
        (\<lambda>c. case c of SenderKeyDistribution epk keys spk disclosed \<Rightarrow> Some (epk, keys, spk, disclosed, ()) | _ \<Rightarrow> None)
        (field (hash_cd r) (field (vec_codec r (wrapped_key_cd r)) (field (hash_cd r)
          (field (vec_codec r (hash_cd r)) no_fields)))),
      multi_arm r 3 (\<lambda>(h, sz, bao, epk, keys, _). HistoryExport h sz bao epk keys)
        (\<lambda>c. case c of HistoryExport h sz bao epk keys \<Rightarrow> Some (h, sz, bao, epk, keys, ()) | _ \<Rightarrow> None)
        (field (hash_cd r) (field (u64_cd r) (field (option_codec r (raw_hash_cd r)) (field (hash_cd r)
          (field (vec_codec r (wrapped_key_cd r)) no_fields))))),
      single_arm 4 Control (\<lambda>c. case c of Control a \<Rightarrow> Some a | _ \<Rightarrow> None) (control_action_cd r),
      single_arm 5 Text (\<lambda>c. case c of Text t \<Rightarrow> Some t | _ \<Rightarrow> None) (string_codec r),
      multi_arm r 6 (\<lambda>(h, name, mime, sz, meta, _). Blob h name mime sz meta)
        (\<lambda>c. case c of Blob h name mime sz meta \<Rightarrow> Some (h, name, mime, sz, meta, ()) | _ \<Rightarrow> None)
        (field (hash_cd r) (field (string_codec r) (field (string_codec r) (field (u64_cd r)
          (field (byte_vec_codec r) no_fields))))),
      multi_arm r 7 (\<lambda>(lat, long, title, _). Location lat long title)
        (\<lambda>c. case c of Location lat long title \<Rightarrow> Some (lat, long, title, ()) | _ \<Rightarrow> None)
        (field (f64_codec r) (field (f64_codec r) (field (option_codec r (string_codec r)) no_fields))),
      multi_arm r 8 (\<lambda>(h, t, _). Edit h t) (\<lambda>c. case c of Edit h t \<Rightarrow> Some (h, t, ()) | _ \<Rightarrow> None)
        (field (hash_cd r) (field (string_codec r) no_fields)),
      multi_arm r 9 (\<lambda>(h, e, _). Reaction h e) (\<lambda>c. case c of Reaction h e \<Rightarrow> Some (h, e, ()) | _ \<Rightarrow> None)
        (field (hash_cd r) (field (emoji_source_cd r) no_fields)),
      multi_arm r 10 (\<lambda>(h, t, _). Redaction h t) (\<lambda>c. case c of Redaction h t \<Rightarrow> Some (h, t, ()) | _ \<Rightarrow> None)
        (field (hash_cd r) (field (string_codec r) no_fields)),
      multi_arm r 11 (\<lambda>(pk, t, mt, h, _). LegacyBridge pk t mt h)
        (\<lambda>c. case c of LegacyBridge pk t mt h \<Rightarrow> Some (pk, t, mt, h, ()) | _ \<Rightarrow> None)
        (field (hash_cd r) (field (string_codec r) (field (u8_codec r) (field (hash_cd r) no_fields))))]"

definition content_catch_all :: "content catch_all" where
  "content_catch_all =
     \<lparr>ca_mk = (\<lambda>disc data. Unknown (of_nat disc) data),
      ca_unmk = (\<lambda>c. case c of Unknown disc data \<Rightarrow> Some (unat disc, data) | _ \<Rightarrow> None)\<rparr>"

definition content_cd :: "rmp \<Rightarrow> content codec" where
  "content_cd r = enum_codec r (content_arms r) (Some content_catch_all)"

definition merkle_node_cd :: "rmp \<Rightarrow> merkle_node codec" where
  "merkle_node_cd r =
     struct_codec r
       (\<lambda>(ps, author, sender, seq, rank, ts, c, meta, auth, pow, _).
          \<lparr>nd_parents = ps, nd_author_pk = author, nd_sender_pk = sender, nd_sequence_number = seq,
           nd_topological_rank = rank, nd_network_timestamp = ts, nd_content = c, nd_metadata = meta,
           nd_authentication = auth, mn_pow_nonce = pow\<rparr>)
       (\<lambda>n. (nd_parents n, nd_author_pk n, nd_sender_pk n, nd_sequence_number n, nd_topological_rank n,
          nd_network_timestamp n, nd_content n, nd_metadata n, nd_authentication n, mn_pow_nonce n, ()))
       (field (vec_codec r (hash_cd r)) (field (hash_cd r) (field (hash_cd r) (field (u64_cd r) (field (u64_cd r)
         (field (i64_cd r) (field (content_cd r) (field (byte_vec_codec r) (field (node_auth_cd r)
           (skipped_field 0 no_fields))))))))))"

definition wire_node_cd :: "rmp \<Rightarrow> wire_node codec" where
  "wire_node_cd r =
     struct_codec r
       (\<lambda>(ps, hint, routing, payload, rank, flags, auth, _).
          \<lparr>wn_parents = ps, wn_sender_hint = hint, wn_encrypted_routing = routing, wn_payload_data = payload,
           wn_topological_rank = rank, wn_flags = flags, wn_authentication = auth\<rparr>)
       (\<lambda>w. (wn_parents w, wn_sender_hint w, wn_encrypted_routing w, wn_payload_data w, wn_topological_rank w,
          wn_flags w, wn_authentication w, ()))
       (field (vec_codec r (hash_cd r)) (field (array_codec r 4 (u8_codec r)) (field (byte_vec_codec r)
         (field (byte_vec_codec r) (field (u64_cd r) (field (bits_codec r) (field (node_auth_cd r) no_fields)))))))"

definition wire_auth_cd :: "rmp \<Rightarrow> wire_auth_data codec" where
  "wire_auth_cd r =
     struct_codec r
       (\<lambda>(ps, hint, routing, payload, rank, flags, _).
          \<lparr>wn_parents = ps, wn_sender_hint = hint, wn_encrypted_routing = routing, wn_payload_data = payload,
           wn_topological_rank = rank, wn_flags = flags\<rparr>)
       (\<lambda>w. (wn_parents w, wn_sender_hint w, wn_encrypted_routing w, wn_payload_data w, wn_topological_rank w, wn_flags w, ()))
       (field (vec_codec r (hash_cd r)) (field (array_codec r 4 (u8_codec r)) (field (byte_vec_codec r)
         (field (byte_vec_codec r) (field (u64_cd r) (field (bits_codec r) no_fields))))))"

section \<open>The values the types have\<close>

abbreviation key32 :: "bytes \<Rightarrow> bool" where "key32 b \<equiv> length b = 32"
abbreviation short :: "bytes \<Rightarrow> bool" where "short b \<equiv> length b < 2 ^ 32"

fun node_auth_ok :: "node_auth \<Rightarrow> bool" where
  "node_auth_ok (EphemeralSignature s) = (length s = 64)"
| "node_auth_ok (Signature s) = (length s = 64)"

fun emoji_source_ok :: "emoji_source \<Rightarrow> bool" where
  "emoji_source_ok (Unicode s) = str_ok s"
| "emoji_source_ok (CustomEmoji h s) = (key32 h \<and> str_ok s)"

definition member_info_ok :: "member_info \<Rightarrow> bool" where
  "member_info_ok m \<longleftrightarrow> key32 (mi_public_key m) \<and> sint_ok 8 (mi_joined_at m)"

definition sign_data_ok :: "'a delegation_sign_data_scheme \<Rightarrow> bool" where
  "sign_data_ok d \<longleftrightarrow>
     uint_ok 4 (sd_version d) \<and> key32 (sd_conversation_id d) \<and> key32 (sd_device_pk d) \<and> sint_ok 8 (sd_expires_at d)"

definition certificate_ok :: "delegation_certificate \<Rightarrow> bool" where
  "certificate_ok d \<longleftrightarrow> sign_data_ok d \<and> length (cert_signature d) = 64"

definition signed_pre_key_ok :: "signed_pre_key \<Rightarrow> bool" where
  "signed_pre_key_ok k \<longleftrightarrow> key32 (sp_public_key k) \<and> length (sp_signature k) = 64 \<and> sint_ok 8 (sp_expires_at k)"

definition wrapped_key_ok :: "wrapped_key \<Rightarrow> bool" where
  "wrapped_key_ok k \<longleftrightarrow> key32 (wk_recipient_pk k) \<and> key32 (wk_opk_id k) \<and> short (wk_ciphertext k)"

definition snapshot_data_ok :: "snapshot_data \<Rightarrow> bool" where
  "snapshot_data_ok s \<longleftrightarrow>
     key32 (sn_basis_hash s) \<and> list_ok member_info_ok (sn_members s)
     \<and> list_ok (\<lambda>(pk, n). key32 pk \<and> uint_ok 8 n) (sn_last_seq_numbers s)"

fun control_action_ok :: "control_action \<Rightarrow> bool" where
  "control_action_ok (Genesis title pk perms flags created pow) =
     (str_ok title \<and> key32 pk \<and> uint_ok 8 flags \<and> sint_ok 8 created \<and> uint_ok 8 pow)"
| "control_action_ok (SetTitle t) = str_ok t"
| "control_action_ok (SetTopic t) = str_ok t"
| "control_action_ok (Invite pk role) = key32 pk"
| "control_action_ok (Leave pk) = key32 pk"
| "control_action_ok (AuthorizeDevice c) = certificate_ok c"
| "control_action_ok (RevokeDevice pk reason) = (key32 pk \<and> str_ok reason)"
| "control_action_ok (Announcement keys last_key) = (list_ok signed_pre_key_ok keys \<and> signed_pre_key_ok last_key)"
| "control_action_ok HandshakePulse = True"
| "control_action_ok (Snapshot s) = snapshot_data_ok s"
| "control_action_ok (AnchorSnapshot s c) = (snapshot_data_ok s \<and> certificate_ok c)"
| "control_action_ok (SoftAnchor h c) = (key32 h \<and> certificate_ok c)"

text \<open>An unknown content carries the number of no known variant, and one value or nothing.\<close>

fun content_ok :: "rmp \<Rightarrow> content \<Rightarrow> bool" where
  "content_ok r (Custom tag data) = short data"
| "content_ok r (KeyWrap gen anchor epk keys) = (uint_ok 8 gen \<and> key32 anchor \<and> key32 epk \<and> list_ok wrapped_key_ok keys)"
| "content_ok r (SenderKeyDistribution epk keys spk disclosed) =
     (key32 epk \<and> list_ok wrapped_key_ok keys \<and> key32 spk \<and> list_ok key32 disclosed)"
| "content_ok r (HistoryExport h sz bao epk keys) =
     (key32 h \<and> uint_ok 8 sz \<and> pred_option key32 bao \<and> key32 epk \<and> list_ok wrapped_key_ok keys)"
| "content_ok r (Control a) = control_action_ok a"
| "content_ok r (Text t) = str_ok t"
| "content_ok r (Blob h name mime sz meta) = (key32 h \<and> str_ok name \<and> str_ok mime \<and> uint_ok 8 sz \<and> short meta)"
| "content_ok r (Location lat long title) = pred_option str_ok title"
| "content_ok r (Edit h t) = (key32 h \<and> str_ok t)"
| "content_ok r (Reaction h e) = (key32 h \<and> emoji_source_ok e)"
| "content_ok r (Redaction h t) = (key32 h \<and> str_ok t)"
| "content_ok r (LegacyBridge pk t mt h) = (key32 pk \<and> str_ok t \<and> key32 h)"
| "content_ok r (Unknown disc data) = (12 \<le> unat disc \<and> unat disc < 256 \<and> (data = [] \<or> one_value r data))"

definition node_ok_fields :: "rmp \<Rightarrow> 'a node_data_scheme \<Rightarrow> bool" where
  "node_ok_fields r n \<longleftrightarrow>
     list_ok key32 (nd_parents n) \<and> key32 (nd_author_pk n) \<and> key32 (nd_sender_pk n)
     \<and> uint_ok 8 (nd_sequence_number n) \<and> uint_ok 8 (nd_topological_rank n) \<and> sint_ok 8 (nd_network_timestamp n)
     \<and> content_ok r (nd_content n) \<and> short (nd_metadata n) \<and> node_auth_ok (nd_authentication n)"

definition wire_auth_ok :: "'a wire_auth_data_scheme \<Rightarrow> bool" where
  "wire_auth_ok w \<longleftrightarrow>
     list_ok key32 (wn_parents w) \<and> length (wn_sender_hint w) = 4 \<and> short (wn_encrypted_routing w)
     \<and> short (wn_payload_data w) \<and> uint_ok 8 (wn_topological_rank w)"

section \<open>The contract\<close>

context rmp_lib
begin

lemma uint_sint_codecs [codecs]:
  "codec_ok r (uint_codec r 4) (uint_ok 4)" "codec_ok r (u64_cd r) (uint_ok 8)" "codec_ok r (i64_cd r) (sint_ok 8)"
  by (simp_all add: uint_codec_ok sint_codec_ok)

lemma newtype_ok: "n < 2 ^ 32 \<Longrightarrow> codec_ok r (newtype_cd r n) (\<lambda>b. length b = n)"
  unfolding newtype_cd_def
  by (rule struct_codec_ok [OF field_ok [OF byte_array_codec_ok no_fields_ok]]) simp_all

lemma key_codecs [codecs]:
  "codec_ok r (hash_cd r) key32" "codec_ok r (sig_cd r) (\<lambda>b. length b = 64)"
  "codec_ok r (raw_hash_cd r) key32" "codec_ok r (array_codec r 4 (u8_codec r)) (\<lambda>b. length b = 4)"
  by (simp_all add: newtype_ok byte_array_codec_ok)

lemma node_auth_cd_ok [codecs]: "codec_ok r (node_auth_cd r) node_auth_ok"
  unfolding node_auth_cd_def
proof (rule enum_codec_ok, goal_cases)
  case 1
  show ?case by (intro arms_intros; rule single_arm_ok, (rule codecs)+, auto split: node_auth.splits)
next
  case (3 v)
  show ?case by (cases v) (simp_all add: covered_def single_arm_def)
qed (simp add: single_arm_def)

lemma emoji_source_cd_ok [codecs]: "codec_ok r (emoji_source_cd r) emoji_source_ok"
  unfolding emoji_source_cd_def
proof (rule enum_codec_ok, goal_cases)
  case 1
  show ?case by (intro arms_intros; rule single_arm_ok multi_arm_ok, (rule codecs)+, auto split: emoji_source.splits)
next
  case (3 v)
  show ?case by (cases v) (simp_all add: covered_def single_arm_def multi_arm_def)
qed (simp add: single_arm_def multi_arm_def)

lemma struct_codecs [codecs]:
  "codec_ok r (member_info_cd r) member_info_ok"
  "codec_ok r (sign_data_cd r) sign_data_ok"
  "codec_ok r (certificate_cd r) certificate_ok"
  "codec_ok r (invite_action_cd r) (\<lambda>(pk, _). key32 pk)"
  "codec_ok r (signed_pre_key_cd r) signed_pre_key_ok"
  "codec_ok r (wrapped_key_cd r) wrapped_key_ok"
  unfolding member_info_cd_def sign_data_cd_def certificate_cd_def invite_action_cd_def signed_pre_key_cd_def wrapped_key_cd_def
  by (rule struct_codec_ok, (rule codecs)+, simp,
      auto simp: member_info_ok_def sign_data_ok_def certificate_ok_def signed_pre_key_ok_def wrapped_key_ok_def)+

lemma seq_number_cd_ok [codecs]: "codec_ok r (seq_number_cd r) (\<lambda>(pk, n). key32 pk \<and> uint_ok 8 n)"
  unfolding seq_number_cd_def pair_codec_def
proof (rule conv_codec_ok)
  show "codec_ok r (tuple_codec r (field (hash_cd r) (field (u64_cd r) no_fields)))
      (\<lambda>(v, w, _). key32 v \<and> uint_ok 8 w)"
    by (rule codec_ok_mono [OF tuple_codec_ok [OF field_ok [OF key_codecs(1) field_ok [OF uint_sint_codecs(2) no_fields_ok]]]])
      (auto simp: field_def no_fields_def sum_sizes_def newtype_cd_def struct_codec_def conv_codec_def struct_fields_def)
qed auto

lemma snapshot_data_cd_ok [codecs]: "codec_ok r (snapshot_data_cd r) snapshot_data_ok"
  unfolding snapshot_data_cd_def
  by (rule struct_codec_ok, (rule codecs)+, simp, simp add: snapshot_data_ok_def)

lemma control_action_cd_ok [codecs]: "codec_ok r (control_action_cd r) control_action_ok"
  unfolding control_action_cd_def
proof (rule enum_codec_ok, goal_cases)
  case 1
  show ?case unfolding control_action_arms_def
    by (intro arms_intros; rule unit_arm_ok single_arm_ok multi_arm_ok, ((rule codecs)+)?,
        auto split: control_action.splits)
next
  case (3 v)
  show ?case by (cases v) (simp_all add: covered_def control_action_arms_def single_arm_def multi_arm_def unit_arm_def)
qed (simp add: control_action_arms_def single_arm_def multi_arm_def unit_arm_def)

lemma content_cd_ok [codecs]: "codec_ok r (content_cd r) (content_ok r)"
  unfolding content_cd_def
proof (rule enum_codec_ok, goal_cases)
  case 1
  have u32: "uint_ok 4 (unat w)" for w :: u32
    using unsigned_less [of w, where ?'a = nat] by (simp add: uint_ok_def)
  show ?case unfolding content_arms_def
    by (intro arms_intros; rule single_arm_ok multi_arm_ok, (rule codecs)+, auto simp: u32 split: content.splits option.splits)
next
  case (3 v)
  then show ?case
    by (cases v) (auto simp: covered_def content_arms_def single_arm_def multi_arm_def content_catch_all_def)
qed (simp add: content_arms_def single_arm_def multi_arm_def)

lemma merkle_node_cd_ok: "codec_ok r (merkle_node_cd r) (\<lambda>n. node_ok_fields r n \<and> mn_pow_nonce n = 0)"
  unfolding merkle_node_cd_def
  by (rule struct_codec_ok, (rule codecs)+, simp, simp add: node_ok_fields_def)

lemma wire_node_cd_ok: "codec_ok r (wire_node_cd r) (\<lambda>w. wire_auth_ok w \<and> node_auth_ok (wn_authentication w))"
  unfolding wire_node_cd_def
  by (rule struct_codec_ok, (rule codecs)+, simp, simp add: wire_auth_ok_def)

lemma wire_auth_cd_ok: "codec_ok r (wire_auth_cd r) wire_auth_ok"
  unfolding wire_auth_cd_def
  by (rule struct_codec_ok, (rule codecs)+, simp, simp add: wire_auth_ok_def)

end

interpretation contents: tox_codec msgpack "content_cd msgpack" "content_ok msgpack"
  by unfold_locales (rule mp.content_cd_ok)

interpretation wire_nodes: tox_codec msgpack "wire_node_cd msgpack" "\<lambda>w. wire_auth_ok w \<and> node_auth_ok (wn_authentication w)"
  by unfold_locales (rule mp.wire_node_cd_ok)

section \<open>The encoding the history uses\<close>

text \<open>
  \<^verbatim>\<open>tox_proto::serialize\<close>, whose errors its callers turn into a panic or an error, and a decoder run on a cursor, with the
  position it stops at; it panics on a long map in an unknown field.
\<close>

definition derived_ser :: "'a codec \<Rightarrow> 'a \<Rightarrow> bytes option" where
  "derived_ser c v = (case tox_serialize c v of Some (Inr bs) \<Rightarrow> Some bs | _ \<Rightarrow> None)"

definition derived_de :: "'a codec \<Rightarrow> bytes \<Rightarrow> (string + 'a \<times> nat) panics" where
  "derived_de c bs =
     (case cd_de c None bs of
        None \<Rightarrow> None
      | Some (Inr v, rest) \<Rightarrow> Some (Inr (v, length bs - length rest))
      | Some (Inl _, _) \<Rightarrow> Some (Inl ''Deserialize error''))"

definition with_nonce :: "node_data \<Rightarrow> nat \<Rightarrow> merkle_node" where
  "with_nonce d pow = node_data.extend d (merkle_node.fields pow)"

definition with_codecs :: "rmp \<Rightarrow> 'e wire_env_scheme \<Rightarrow> 'e wire_env_scheme" where
  "with_codecs r env = env
     \<lparr>cr_serialize := derived_ser (sign_data_cd r),
      de_ser_content := derived_ser (content_cd r),
      de_ser_action := derived_ser (control_action_cd r),
      de_ser_node := (\<lambda>d. derived_ser (merkle_node_cd r) (with_nonce d 0)),
      de_ser_wire_auth := derived_ser (wire_auth_cd r),
      we_de_content := derived_de (content_cd r)\<rparr>"

lemma with_codecs_sel [simp]:
  "cr_serialize (with_codecs r env) = derived_ser (sign_data_cd r)"
  "de_ser_content (with_codecs r env) = derived_ser (content_cd r)"
  "de_ser_action (with_codecs r env) = derived_ser (control_action_cd r)"
  "de_ser_node (with_codecs r env) = (\<lambda>d. derived_ser (merkle_node_cd r) (with_nonce d 0))"
  "de_ser_wire_auth (with_codecs r env) = derived_ser (wire_auth_cd r)"
  "we_de_content (with_codecs r env) = derived_de (content_cd r)"
  "de_blake3 (with_codecs r env) = de_blake3 env"
  by (simp_all add: with_codecs_def)

lemma with_codecs_laws [simp]: "crypto_laws (with_codecs r env) = crypto_laws env"
  by (simp add: crypto_laws_def with_codecs_def ed25519_sk_to_x25519_def)

lemma derived_ser_ok:
  assumes "codec_ok r c P" "P v"
  obtains bs where "derived_ser c v = Some bs" "\<And>rest. derived_de c (bs @ rest) = Some (Inr (v, length bs))"
proof -
  obtain bs where "cd_ser c None v = Some (Inr bs)" "\<And>rest. cd_de c None (bs @ rest) = Some (Inr v, rest)"
    using codec_okE [OF assms] by metis
  then show thesis
    by (intro that [of bs]) (simp_all add: derived_ser_def derived_de_def tox_serialize_def serialize_with_ctx_def)
qed

lemma derived_ser_inj:
  assumes "codec_ok r c P" "P v" "P w" "derived_ser c v = derived_ser c w"
  shows "v = w"
proof -
  obtain x where x: "derived_ser c v = Some x" "\<And>rest. derived_de c (x @ rest) = Some (Inr (v, length x))"
    using derived_ser_ok [OF assms(1,2)] by metis
  obtain y where y: "derived_ser c w = Some y" "\<And>rest. derived_de c (y @ rest) = Some (Inr (w, length y))"
    using derived_ser_ok [OF assms(1,3)] by metis
  from x(1) y(1) assms(4) have "x = y" by simp
  with x(2) [of "[]"] y(2) [of "[]"] show ?thesis by simp
qed

lemma node_fields_with_nonce:
  "node_ok_fields r (with_nonce (node_data.truncate n) 0) = node_ok_fields r n"
  "mn_pow_nonce (with_nonce d pow) = pow" "node_data.truncate (with_nonce d pow) = d"
  by (simp_all add: with_nonce_def node_ok_fields_def node_data.defs merkle_node.defs)

context rmp_lib
begin

text \<open>The decoder undoes the encoder, as the wire format assumes.\<close>

lemma derived_content_codec: "content_ok r c \<Longrightarrow> content_codec (with_codecs r env) c rest"
  unfolding content_codec_def with_codecs_sel by (rule derived_ser_ok [OF content_cd_ok]) auto

lemma encoded_node_inj:
  assumes "node_ok_fields r n" "node_ok_fields r m"
    and "de_ser_node (with_codecs r env) (node_data.truncate n) = de_ser_node (with_codecs r env) (node_data.truncate m)"
  shows "node_data.truncate n = node_data.truncate m"
proof -
  have "with_nonce (node_data.truncate n) 0 = with_nonce (node_data.truncate m) 0"
    using assms by (intro derived_ser_inj [OF merkle_node_cd_ok]) (simp_all add: node_fields_with_nonce)
  then show ?thesis by (metis node_fields_with_nonce(3))
qed

lemma encoded_node_Some:
  assumes "node_ok_fields r n"
  obtains bs where "de_ser_node (with_codecs r env) (node_data.truncate n) = Some bs"
  using derived_ser_ok [OF merkle_node_cd_ok, of "with_nonce (node_data.truncate n) 0"] assms
  by (metis node_fields_with_nonce(1,2) with_codecs_sel(4))

lemma encoded_wire_auth_inj:
  "wire_auth_ok v \<Longrightarrow> wire_auth_ok w \<Longrightarrow> derived_ser (wire_auth_cd r) v = derived_ser (wire_auth_cd r) w \<Longrightarrow> v = w"
  by (rule derived_ser_inj [OF wire_auth_cd_ok])

end

section \<open>What a signature covers\<close>

text \<open>Everything that is sent of a node but its author, which the receiver looks up by the sender.\<close>

definition same_signed :: "merkle_node \<Rightarrow> merkle_node \<Rightarrow> bool" where
  "same_signed n m \<longleftrightarrow>
     nd_parents n = nd_parents m \<and> nd_sender_pk n = nd_sender_pk m \<and> nd_sequence_number n = nd_sequence_number m
     \<and> nd_topological_rank n = nd_topological_rank m \<and> nd_network_timestamp n = nd_network_timestamp m
     \<and> nd_content n = nd_content m \<and> nd_metadata n = nd_metadata m"

definition signed_data :: "bytes \<Rightarrow> merkle_node \<Rightarrow> wire_auth_data" where
  "signed_data content_data n =
     \<lparr>wn_parents = nd_parents n, wn_sender_hint = [0, 0, 0, 0],
      wn_encrypted_routing = nd_sender_pk n @ u64_be (nd_sequence_number n),
      wn_payload_data = apply_padding (i64_be (nd_network_timestamp n) @ content_data @ nd_metadata n),
      wn_topological_rank = nd_topological_rank n, wn_flags = FLAGS_NONE\<rparr>"

text \<open>A node whose signed form stays below the 4 GiB an item may have.\<close>

definition signable :: "rmp \<Rightarrow> merkle_node \<Rightarrow> bool" where
  "signable r n \<longleftrightarrow>
     node_ok_fields r n \<and> (\<forall>bs. derived_ser (content_cd r) (nd_content n) = Some bs \<longrightarrow> length bs + length (nd_metadata n) < 2 ^ 30)"

lemma apply_padding_inj: "apply_padding x = apply_padding y \<Longrightarrow> x = y"
  by (metis remove_apply_padding old.sum.inject(2))

lemma in_range: "uint_ok 8 n \<Longrightarrow> n \<le> u64_max" "sint_ok 8 t \<Longrightarrow> i64_ok t"
  by (simp_all add: uint_ok_def u64_max_def sint_ok_def sint_min_def sint_max_def i64_ok_def)

lemma be_inj:
  "uint_ok 8 m \<Longrightarrow> uint_ok 8 n \<Longrightarrow> u64_be m = u64_be n \<Longrightarrow> m = n"
  "sint_ok 8 s \<Longrightarrow> sint_ok 8 t \<Longrightarrow> i64_be s = i64_be t \<Longrightarrow> s = t"
  by (metis in_range(1) u64_of_be_be, metis in_range(2) i64_of_be_be)

lemma signed_data_ok:
  assumes "signable r n" "derived_ser (content_cd r) (nd_content n) = Some bs"
  shows "wire_auth_ok (signed_data bs n)"
proof -
  let ?d = "i64_be (nd_network_timestamp n) @ bs @ nd_metadata n"
  have "length ?d < 2 ^ 30 + 8" using assms by (simp add: signable_def)
  moreover obtain j where "length (apply_padding ?d) = 2 ^ j" "2 ^ j = MIN_PADDING_BIN \<or> 2 ^ j < 2 * (length ?d + 1)"
    using length_apply_padding [of ?d] by blast
  ultimately have "length (apply_padding ?d) < 2 ^ 32" by (auto simp: MIN_PADDING_BIN_def)
  then show ?thesis
    using assms(1) by (simp add: wire_auth_ok_def signed_data_def signable_def node_ok_fields_def)
qed

lemma separators_differ:
  "str_bytes ADMIN_SIG @ x \<noteq> str_bytes CONTENT_SIG @ y" "str_bytes CONTENT_SIG @ x \<noteq> str_bytes ADMIN_SIG @ y"
  by (simp_all add: str_bytes_def ADMIN_SIG_def CONTENT_SIG_def)

context rmp_lib
begin

lemma content_read_one:
  "content_ok r c \<Longrightarrow> derived_ser (content_cd r) c = Some bs \<Longrightarrow> derived_de (content_cd r) (bs @ x) = Some (Inr (c, length bs))"
  by (rule derived_ser_ok [OF content_cd_ok, of c]) simp_all

lemma content_read:
  assumes "content_ok r c" "content_ok r c'" "derived_ser (content_cd r) c = Some bs" "derived_ser (content_cd r) c' = Some bs'"
    and "bs @ x = bs' @ y"
  shows "c = c' \<and> x = y"
proof -
  have "c = c'"
    using content_read_one [OF assms(1,3), of x] content_read_one [OF assms(2,4), of y] assms(5) by simp
  then show ?thesis using assms(3-5) by simp
qed

lemma signed_data_inj:
  assumes n: "node_ok_fields r n" and m: "node_ok_fields r m"
    and ser: "derived_ser (content_cd r) (nd_content n) = Some bs" "derived_ser (content_cd r) (nd_content m) = Some bs'"
    and eq: "signed_data bs n = signed_data bs' m"
  shows "same_signed n m"
proof -
  have routing: "nd_sender_pk n @ u64_be (nd_sequence_number n) = nd_sender_pk m @ u64_be (nd_sequence_number m)"
    and pad: "i64_be (nd_network_timestamp n) @ bs @ nd_metadata n = i64_be (nd_network_timestamp m) @ bs' @ nd_metadata m"
    using eq by (auto simp: signed_data_def dest: apply_padding_inj)
  from routing have "nd_sender_pk n = nd_sender_pk m" "u64_be (nd_sequence_number n) = u64_be (nd_sequence_number m)"
    using n m by (simp_all add: node_ok_fields_def)
  moreover from pad have "i64_be (nd_network_timestamp n) = i64_be (nd_network_timestamp m)"
    and rest: "bs @ nd_metadata n = bs' @ nd_metadata m" by simp_all
  moreover have "nd_content n = nd_content m \<and> nd_metadata n = nd_metadata m"
    using n m by (intro content_read [OF _ _ ser rest]) (simp_all add: node_ok_fields_def)
  ultimately show ?thesis
    using n m eq by (auto simp: same_signed_def signed_data_def node_ok_fields_def dest: be_inj)
qed

lemma serialize_for_auth_eq:
  assumes "node_ok_fields r n"
  obtains bs where "derived_ser (content_cd r) (nd_content n) = Some bs"
    "serialize_for_auth (with_codecs r env) n =
       map_option (\<lambda>ser. str_bytes (case node_type_of n of Admin \<Rightarrow> ADMIN_SIG | Content \<Rightarrow> CONTENT_SIG) @ ser)
         (derived_ser (wire_auth_cd r) (signed_data bs n))"
proof -
  have "content_ok r (nd_content n)" using assms by (simp add: node_ok_fields_def)
  then obtain bs where "derived_ser (content_cd r) (nd_content n) = Some bs"
    using derived_ser_ok [OF content_cd_ok] by metis
  then show thesis
    by (intro that [of bs]) (simp_all add: serialize_for_auth_def signed_data_def map_option_case Let_def split: option.split)
qed

lemma same_signed_type: "same_signed n m \<Longrightarrow> node_type_of n = node_type_of m"
  by (simp add: same_signed_def node_type_of_def)

lemma signature_covers:
  assumes "signable r n" "signable r m"
  shows "serialize_for_auth (with_codecs r env) n = serialize_for_auth (with_codecs r env) m \<longleftrightarrow> same_signed n m"
proof -
  have ok: "node_ok_fields r n" "node_ok_fields r m" using assms by (simp_all add: signable_def)
  obtain bs where bs: "derived_ser (content_cd r) (nd_content n) = Some bs"
    "serialize_for_auth (with_codecs r env) n =
       map_option (\<lambda>ser. str_bytes (case node_type_of n of Admin \<Rightarrow> ADMIN_SIG | Content \<Rightarrow> CONTENT_SIG) @ ser)
         (derived_ser (wire_auth_cd r) (signed_data bs n))"
    by (rule serialize_for_auth_eq [OF ok(1)])
  obtain bs' where bs': "derived_ser (content_cd r) (nd_content m) = Some bs'"
    "serialize_for_auth (with_codecs r env) m =
       map_option (\<lambda>ser. str_bytes (case node_type_of m of Admin \<Rightarrow> ADMIN_SIG | Content \<Rightarrow> CONTENT_SIG) @ ser)
         (derived_ser (wire_auth_cd r) (signed_data bs' m))"
    by (rule serialize_for_auth_eq [OF ok(2)])
  have d: "wire_auth_ok (signed_data bs n)" "wire_auth_ok (signed_data bs' m)"
    by (rule signed_data_ok [OF assms(1) bs(1)], rule signed_data_ok [OF assms(2) bs'(1)])
  obtain x where x: "derived_ser (wire_auth_cd r) (signed_data bs n) = Some x" using derived_ser_ok [OF wire_auth_cd_ok d(1)] by metis
  obtain y where y: "derived_ser (wire_auth_cd r) (signed_data bs' m) = Some y" using derived_ser_ok [OF wire_auth_cd_ok d(2)] by metis
  show ?thesis
  proof
    assume "serialize_for_auth (with_codecs r env) n = serialize_for_auth (with_codecs r env) m"
    then have "x = y" unfolding bs(2) bs'(2) x y by (auto simp: separators_differ split: node_type.splits)
    then have "signed_data bs n = signed_data bs' m" using encoded_wire_auth_inj [OF d] x y by simp
    then show "same_signed n m" by (rule signed_data_inj [OF ok bs(1) bs'(1)])
  next
    assume s: "same_signed n m"
    then have "bs = bs'" using bs(1) bs'(1) by (simp add: same_signed_def)
    then have "signed_data bs n = signed_data bs' m" using s by (simp add: same_signed_def signed_data_def)
    then show "serialize_for_auth (with_codecs r env) n = serialize_for_auth (with_codecs r env) m"
      unfolding bs(2) bs'(2) by (simp add: same_signed_type [OF s])
  qed
qed

lemma wire_signature_covers:
  assumes "wire_auth_ok v" "wire_auth_ok w"
    and "wire_serialize_for_auth (with_codecs r env) v = wire_serialize_for_auth (with_codecs r env) w"
  shows "wire_auth_data.truncate v = wire_auth_data.truncate w"
proof -
  have t: "wire_auth_ok (wire_auth_data.truncate v)" "wire_auth_ok (wire_auth_data.truncate w)"
    using assms(1,2) by (simp_all add: wire_auth_ok_def wire_auth_data.truncate_def)
  obtain x where x: "derived_ser (wire_auth_cd r) (wire_auth_data.truncate v) = Some x" using derived_ser_ok [OF wire_auth_cd_ok t(1)] by metis
  obtain y where y: "derived_ser (wire_auth_cd r) (wire_auth_data.truncate w) = Some y" using derived_ser_ok [OF wire_auth_cd_ok t(2)] by metis
  have "x = y" using assms(3) x y by (auto simp: wire_serialize_for_auth_def separators_differ split: if_splits)
  then show ?thesis using encoded_wire_auth_inj [OF t] x y by simp
qed

lemma hash_identifies:
  assumes "signable r n" "signable r m"
  shows "\<exists>x y. derived_ser (merkle_node_cd r) (with_nonce (node_data.truncate n) 0) = Some x
    \<and> derived_ser (merkle_node_cd r) (with_nonce (node_data.truncate m) 0) = Some y
    \<and> mn_hash (with_codecs r env) n = Some (de_blake3 env x) \<and> mn_hash (with_codecs r env) m = Some (de_blake3 env y)
    \<and> (x = y \<longleftrightarrow> node_data.truncate n = node_data.truncate m)"
proof -
  have ok: "node_ok_fields r n" "node_ok_fields r m" using assms by (simp_all add: signable_def)
  obtain x where x: "de_ser_node (with_codecs r env) (node_data.truncate n) = Some x" by (rule encoded_node_Some [OF ok(1)])
  obtain y where y: "de_ser_node (with_codecs r env) (node_data.truncate m) = Some y" by (rule encoded_node_Some [OF ok(2)])
  have "x = y \<longleftrightarrow> node_data.truncate n = node_data.truncate m" using encoded_node_inj [OF ok, of env] x y by auto
  then show ?thesis using x y by (simp add: mn_hash_def)
qed

lemma wire_node_bytes:
  assumes "wire_auth_ok w" "node_auth_ok (wn_authentication w)"
  obtains bs where "tox_serialize (wire_node_cd r) w = Some (Inr bs)" "tox_deserialize (wire_node_cd r) bs = Some (Inr w)"
proof -
  obtain bs where "cd_ser (wire_node_cd r) None w = Some (Inr bs)"
    "\<And>rest. cd_de (wire_node_cd r) None (bs @ rest) = Some (Inr w, rest)"
    using codec_okE [OF wire_node_cd_ok, of w None] assms by auto
  from this(1) this(2) [of "[]"] show thesis
    by (intro that [of bs])
      (simp_all add: tox_serialize_def serialize_with_ctx_def tox_deserialize_def deserialize_with_ctx_def)
qed

text \<open>Contents of a variant this version does not know.\<close>

lemma content_idx: "12 \<le> disc \<Longrightarrow> disc \<notin> am_idx ` set (content_arms r)"
  by (auto simp: content_arms_def single_arm_def multi_arm_def)

lemma unat_disc: "disc < 256 \<Longrightarrow> unat (of_nat disc :: u32) = disc"
  by (simp add: unat_of_nat)

lemma ser_unknown:
  assumes "disc < 256"
  shows "cd_ser (content_cd r) ctx (Unknown (of_nat disc) data) = ser_catch_all r ctx disc data"
  by (simp add: content_cd_def enum_codec_def content_arms_def single_arm_def multi_arm_def content_catch_all_def unat_disc [OF assms])

lemma unknown_kept:
  assumes "12 \<le> disc" "disc < 256" "one_value r x"
  shows "\<exists>bs. derived_ser (content_cd r) (Unknown (of_nat disc) x) = Some bs
    \<and> (\<forall>rest. derived_de (content_cd r) (bs @ rest) = Some (Inr (Unknown (of_nat disc) x, length bs)))"
proof -
  have "content_ok r (Unknown (of_nat disc) x)" using assms by (simp add: unat_disc)
  from derived_ser_ok [OF content_cd_ok this] show ?thesis by metis
qed

lemma unknown_loses:
  assumes "12 \<le> disc" "disc < 256" "one_value r x" "one_value r y"
  shows "let received = rp_write_array_len r 3 @ rp_write_uint r disc @ x @ y;
             forwarded = rp_write_array_len r 2 @ rp_write_uint r disc @ x @ y
         in derived_de (content_cd r) received = Some (Inr (Unknown (of_nat disc) (x @ y), length received))
          \<and> derived_ser (content_cd r) (Unknown (of_nat disc) (x @ y)) = Some forwarded
          \<and> derived_de (content_cd r) forwarded = Some (Inr (Unknown (of_nat disc) x, length forwarded - length y))"
proof -
  note lost = catch_all_loses [OF assms(2) content_idx [OF assms(1)] assms(3,4), where ctx = None]
  let ?received = "rp_write_array_len r 3 @ rp_write_uint r disc @ x @ y"
  let ?forwarded = "rp_write_array_len r 2 @ rp_write_uint r disc @ x @ y"
  have "cd_de (content_cd r) None ?received = Some (Inr (Unknown (of_nat disc) (x @ y)), [])"
    using lost(1) [of content_catch_all "[]"] by (simp add: content_cd_def content_catch_all_def)
  moreover have "cd_de (content_cd r) None ?forwarded = Some (Inr (Unknown (of_nat disc) x), y)"
    using lost(3) [of content_catch_all "[]"] by (simp add: content_cd_def content_catch_all_def)
  moreover have "derived_ser (content_cd r) (Unknown (of_nat disc) (x @ y)) = Some ?forwarded"
    using lost(2) by (simp add: derived_ser_def tox_serialize_def serialize_with_ctx_def ser_unknown [OF assms(2)])
  ultimately show ?thesis by (simp add: Let_def derived_de_def)
qed

end

end
