(* ===== verification/Float32.thy ===== *)
theory Float32
  imports Prelude "HOL-Library.Log_Nat"
begin

text \<open>
  The single-precision arithmetic the transport uses (\<^verbatim>\<open>f32\<close>), as exact IEEE 754 binary32 with
  rounding to nearest, ties to even: every operation is the rational result rounded once. The two
  zeros are one value here, since no code path of the sources divides by a zero or reads the sign of one.
  The conversions of \<^verbatim>\<open>std::time::Duration\<close> follow the standard library.
\<close>

section \<open>Rounding\<close>

datatype f32 = Fin rat | PInf | NInf | NaN

definition rne :: "rat \<Rightarrow> int" where
  "rne y = (let f = \<lfloor>y\<rfloor>; r = y - of_int f in
            if r < 1/2 then f else if r > 1/2 then f + 1 else if even f then f else f + 1)"

text \<open>The binade of a positive rational: the \<open>e\<close> with \<open>2^e \<le> x < 2^(e+1)\<close>.\<close>

definition ilog2 :: "rat \<Rightarrow> int" where
  "ilog2 x = (let (n, d) = quotient_of x; k = int (floorlog 2 (nat n)) - int (floorlog 2 (nat d))
              in if x < 2 powi k then k - 1 else k)"

text \<open>The exponent of the unit in the last place: 24 significant bits, subnormals below.\<close>

definition ulp_exp :: "rat \<Rightarrow> int" where
  "ulp_exp x = max (ilog2 x - 23) (- 149)"

definition round_pos :: "rat \<Rightarrow> rat" where
  "round_pos x = of_int (rne (x / 2 powi ulp_exp x)) * 2 powi ulp_exp x"

definition round32 :: "rat \<Rightarrow> f32" where
  "round32 x =
     (if x = 0 then Fin 0
      else if 0 < x then (if round_pos x < 2 ^ 128 then Fin (round_pos x) else PInf)
      else (if round_pos (- x) < 2 ^ 128 then Fin (- round_pos (- x)) else NInf))"

section \<open>Operations\<close>

fun f32_is_finite :: "f32 \<Rightarrow> bool" where
  "f32_is_finite (Fin _) = True"
| "f32_is_finite _ = False"

fun f32_neg :: "f32 \<Rightarrow> f32" where
  "f32_neg (Fin a) = Fin (- a)"
| "f32_neg PInf = NInf"
| "f32_neg NInf = PInf"
| "f32_neg NaN = NaN"

fun f32_add :: "f32 \<Rightarrow> f32 \<Rightarrow> f32" where
  "f32_add (Fin a) (Fin b) = round32 (a + b)"
| "f32_add NaN _ = NaN"
| "f32_add _ NaN = NaN"
| "f32_add PInf NInf = NaN"
| "f32_add NInf PInf = NaN"
| "f32_add PInf _ = PInf"
| "f32_add NInf _ = NInf"
| "f32_add _ PInf = PInf"
| "f32_add _ NInf = NInf"

definition f32_sub :: "f32 \<Rightarrow> f32 \<Rightarrow> f32" where
  "f32_sub a b = f32_add a (f32_neg b)"

definition signed_inf :: "bool \<Rightarrow> f32" where
  "signed_inf neg = (if neg then NInf else PInf)"

fun f32_mul :: "f32 \<Rightarrow> f32 \<Rightarrow> f32" where
  "f32_mul (Fin a) (Fin b) = round32 (a * b)"
| "f32_mul NaN _ = NaN"
| "f32_mul _ NaN = NaN"
| "f32_mul (Fin a) PInf = (if a = 0 then NaN else signed_inf (a < 0))"
| "f32_mul (Fin a) NInf = (if a = 0 then NaN else signed_inf (0 < a))"
| "f32_mul PInf (Fin a) = (if a = 0 then NaN else signed_inf (a < 0))"
| "f32_mul NInf (Fin a) = (if a = 0 then NaN else signed_inf (0 < a))"
| "f32_mul PInf PInf = PInf"
| "f32_mul NInf NInf = PInf"
| "f32_mul PInf NInf = NInf"
| "f32_mul NInf PInf = NInf"

fun f32_div :: "f32 \<Rightarrow> f32 \<Rightarrow> f32" where
  "f32_div (Fin a) (Fin b) =
     (if b = 0 then (if a = 0 then NaN else signed_inf (a < 0)) else round32 (a / b))"
| "f32_div NaN _ = NaN"
| "f32_div _ NaN = NaN"
| "f32_div (Fin a) PInf = Fin 0"
| "f32_div (Fin a) NInf = Fin 0"
| "f32_div PInf (Fin a) = signed_inf (a < 0)"
| "f32_div NInf (Fin a) = signed_inf (\<not> a < 0)"
| "f32_div _ _ = NaN"

fun f32_less :: "f32 \<Rightarrow> f32 \<Rightarrow> bool" where
  "f32_less (Fin a) (Fin b) = (a < b)"
| "f32_less NInf (Fin _) = True"
| "f32_less NInf PInf = True"
| "f32_less (Fin _) PInf = True"
| "f32_less _ _ = False"

text \<open>\<^verbatim>\<open>f32::max\<close> and \<^verbatim>\<open>f32::min\<close> ignore a NaN operand.\<close>

definition f32_max :: "f32 \<Rightarrow> f32 \<Rightarrow> f32" where
  "f32_max a b = (if a = NaN then b else if b = NaN then a else if f32_less a b then b else a)"

definition f32_min :: "f32 \<Rightarrow> f32 \<Rightarrow> f32" where
  "f32_min a b = (if a = NaN then b else if b = NaN then a else if f32_less b a then b else a)"

definition f32_clamp :: "f32 \<Rightarrow> f32 \<Rightarrow> f32 \<Rightarrow> f32" where
  "f32_clamp x lo hi = (if f32_less x lo then lo else if f32_less hi x then hi else x)"

text \<open>\<^verbatim>\<open>n as f32\<close> and the saturating \<^verbatim>\<open>x as usize\<close>.\<close>

definition f32_of_nat :: "nat \<Rightarrow> f32" where
  "f32_of_nat n = round32 (of_nat n)"

fun f32_to_usize :: "f32 \<Rightarrow> nat" where
  "f32_to_usize (Fin a) = min (nat \<lfloor>a\<rfloor>) usize_max"
| "f32_to_usize PInf = usize_max"
| "f32_to_usize NInf = 0"
| "f32_to_usize NaN = 0"

section \<open>Durations\<close>

definition nanos_per_sec :: nat where
  "nanos_per_sec = 1000000000"

text \<open>The largest \<^verbatim>\<open>Duration\<close> is \<open>2^64\<close> seconds less a nanosecond.\<close>

definition duration_limit :: nat where
  "duration_limit = 2 ^ 64 * nanos_per_sec"

definition as_secs_f32 :: "duration \<Rightarrow> f32" where
  "as_secs_f32 d = f32_add (f32_of_nat (d div nanos_per_sec))
     (f32_div (f32_of_nat (d mod nanos_per_sec)) (Fin 1000000000))"

fun from_secs_f32 :: "f32 \<Rightarrow> duration panics" where
  "from_secs_f32 (Fin a) =
     (if 0 \<le> a \<and> a < 2 ^ 64 then Some (nat (rne (a * 1000000000))) else None)"
| "from_secs_f32 _ = None"

definition mul_f32 :: "duration \<Rightarrow> f32 \<Rightarrow> duration panics" where
  "mul_f32 d k = from_secs_f32 (f32_mul k (as_secs_f32 d))"

definition dur_add :: "duration \<Rightarrow> duration \<Rightarrow> duration panics" where
  "dur_add a b = (if a + b < duration_limit then Some (a + b) else None)"

definition dur_mul :: "duration \<Rightarrow> nat \<Rightarrow> duration panics" where
  "dur_mul a k = (if a * k < duration_limit then Some (a * k) else None)"

section \<open>Rounding is monotone and fixes the integers of a binade\<close>

lemma rne_of_int [simp]: "rne (of_int k) = k"
  by (simp add: rne_def)

lemma rne_bounds: "\<lfloor>y\<rfloor> \<le> rne y" "rne y \<le> \<lfloor>y\<rfloor> + 1"
  by (simp_all add: rne_def Let_def)

lemma rne_mono: "x \<le> y \<Longrightarrow> rne x \<le> rne y"
proof -
  assume xy: "x \<le> y"
  then have "\<lfloor>x\<rfloor> \<le> \<lfloor>y\<rfloor>" by (rule floor_mono)
  then consider "\<lfloor>x\<rfloor> = \<lfloor>y\<rfloor>" | "\<lfloor>x\<rfloor> + 1 \<le> \<lfloor>y\<rfloor>" by linarith
  then show ?thesis
  proof cases
    case 1
    with xy show ?thesis by (auto simp: rne_def Let_def)
  next
    case 2
    with rne_bounds(2) [of x] rne_bounds(1) [of y] show ?thesis by linarith
  qed
qed

lemma rne_eqI: "of_int k \<le> y \<Longrightarrow> y < of_int k + 1/2 \<Longrightarrow> rne y = k"
proof -
  assume y: "of_int k \<le> y" "y < of_int k + 1/2"
  then have "\<lfloor>y\<rfloor> = k" by (intro floor_unique) auto
  with y show ?thesis by (simp add: rne_def)
qed

lemma rne_le_iff_int: "x \<le> of_int k \<Longrightarrow> rne x \<le> k"
  using rne_mono [of x "of_int k"] by simp

lemma rne_ge_iff_int: "of_int k \<le> x \<Longrightarrow> k \<le> rne x"
  using rne_mono [of "of_int k" x] by simp

lemma floorlog_quotient:
  assumes "0 < n" and "0 < d"
  defines "k \<equiv> int (floorlog 2 n) - int (floorlog 2 d)"
  shows "2 powi (k - 1) \<le> (of_nat n / of_nat d :: rat)" "(of_nat n / of_nat d :: rat) < 2 powi (k + 1)"
proof -
  define a b where "a = floorlog 2 n" and "b = floorlog 2 d"
  have n: "2 ^ (a - 1) \<le> n" "n < 2 ^ a" "0 < a" and d: "2 ^ (b - 1) \<le> d" "d < 2 ^ b" "0 < b"
    using assms floorlog_bounds [of n 2] floorlog_bounds [of d 2]
    by (auto simp: a_def b_def floorlog_def)
  have "(2::rat) ^ (a - 1) \<le> of_nat n" "(of_nat n :: rat) < 2 ^ a"
    "(2::rat) ^ (b - 1) \<le> of_nat d" "(of_nat d :: rat) < 2 ^ b"
    using n d by (metis of_nat_le_iff of_nat_less_iff of_nat_numeral of_nat_power)+
  note r = this
  have pk: "(2::rat) powi (k - 1) = 2 ^ (a - 1) / 2 ^ b" "(2::rat) powi (k + 1) = 2 ^ a / 2 ^ (b - 1)"
  proof -
    have k: "k - 1 = int (a - 1) - int b" "k + 1 = int a - int (b - 1)"
      using n(3) d(3) by (auto simp: k_def a_def b_def of_nat_diff)
    have "(2::rat) powi (int i - int j) = 2 ^ i / 2 ^ j" for i j by (simp add: power_int_diff)
    then show "(2::rat) powi (k - 1) = 2 ^ (a - 1) / 2 ^ b" "(2::rat) powi (k + 1) = 2 ^ a / 2 ^ (b - 1)"
      unfolding k by blast+
  qed
  have d0: "(0::rat) < of_nat d" using assms by simp
  show "2 powi (k - 1) \<le> (of_nat n / of_nat d :: rat)"
    unfolding pk using r d0 by (intro frac_le) auto
  show "(of_nat n / of_nat d :: rat) < 2 powi (k + 1)"
    unfolding pk using r d0 by (intro frac_less) auto
qed

lemma ilog2_bounds:
  assumes "0 < x"
  shows "2 powi ilog2 x \<le> x" "x < 2 powi (ilog2 x + 1)"
proof -
  obtain n d where q: "quotient_of x = (n, d)" by fastforce
  have d: "0 < d" using quotient_of_denom_pos [OF q] .
  have x: "x = of_int n / of_int d" using quotient_of_div [OF q] .
  have n: "0 < n" using assms d unfolding x by (simp add: zero_less_divide_iff)
  define k where "k = int (floorlog 2 (nat n)) - int (floorlog 2 (nat d))"
  have b: "2 powi (k - 1) \<le> x" "x < 2 powi (k + 1)"
    using floorlog_quotient [of "nat n" "nat d"] n d by (auto simp: x k_def)
  have "ilog2 x = (if x < 2 powi k then k - 1 else k)"
    by (simp add: ilog2_def q k_def)
  with b show "2 powi ilog2 x \<le> x" "x < 2 powi (ilog2 x + 1)" by auto
qed

lemma powi_le_iff: "(2::rat) powi a \<le> 2 powi b \<longleftrightarrow> a \<le> b"
  by (metis linorder_not_le order_less_le power_int_increasing power_int_strict_increasing one_le_numeral one_less_numeral_iff semiring_norm(76))

lemma powi_less_iff: "(2::rat) powi a < 2 powi b \<longleftrightarrow> a < b"
  using powi_le_iff [of b a] by (simp add: not_le [symmetric])

lemma ilog2_mono: "0 < x \<Longrightarrow> x \<le> y \<Longrightarrow> ilog2 x \<le> ilog2 y"
proof -
  assume "0 < x" "x \<le> y"
  then have "2 powi ilog2 x < (2::rat) powi (ilog2 y + 1)"
    using ilog2_bounds [of x] ilog2_bounds [of y] by linarith
  then show ?thesis by (simp add: powi_less_iff)
qed

lemma ilog2_eqI: "2 powi e \<le> x \<Longrightarrow> x < 2 powi (e + 1) \<Longrightarrow> ilog2 x = e"
proof -
  assume x: "2 powi e \<le> x" "x < 2 powi (e + 1)"
  have "0 < x" by (rule less_le_trans [OF _ x(1)]) simp
  with x ilog2_bounds [of x] have "(2::rat) powi ilog2 x < 2 powi (e + 1)" "(2::rat) powi e < 2 powi (ilog2 x + 1)"
    by linarith+
  then show ?thesis unfolding powi_less_iff by linarith
qed

lemma ulp_exp_mono: "0 < x \<Longrightarrow> x \<le> y \<Longrightarrow> ulp_exp x \<le> ulp_exp y"
  using ilog2_mono [of x y] by (simp add: ulp_exp_def)

text \<open>The values of the format below overflow, without their sign.\<close>

definition representable :: "rat \<Rightarrow> bool" where
  "representable r \<longleftrightarrow> (\<exists>m u. r = of_int m * 2 powi u \<and> 0 < m \<and> m \<le> 2 ^ 24 \<and> - 149 \<le> u)"

lemma scaled_int: "u \<le> v \<Longrightarrow> \<exists>k. of_int m * 2 powi v / 2 powi u = (of_int k :: rat)"
proof -
  assume "u \<le> v"
  have "(2::rat) powi v / 2 powi u = 2 powi (v - u)" by (simp add: power_int_diff)
  also have "\<dots> = of_int (2 ^ nat (v - u))" using \<open>u \<le> v\<close> by (simp add: power_int_def)
  finally have "(2::rat) powi v / 2 powi u = of_int (2 ^ nat (v - u))" .
  then have "of_int m * 2 powi v / 2 powi u = (of_int (m * 2 ^ nat (v - u)) :: rat)"
    by (metis of_int_mult times_divide_eq_right)
  then show ?thesis ..
qed

lemma round_pos_multiple:
  assumes "ulp_exp x \<le> u"
  shows "x \<le> of_int m * 2 powi u \<Longrightarrow> round_pos x \<le> of_int m * 2 powi u"
    and "of_int m * 2 powi u \<le> x \<Longrightarrow> of_int m * 2 powi u \<le> round_pos x"
proof -
  let ?p = "(2::rat) powi ulp_exp x"
  have p: "0 < ?p" by simp
  obtain k where k: "of_int m * 2 powi u / ?p = of_int k"
    using scaled_int [OF assms] by blast
  then have eq: "of_int m * 2 powi u = of_int k * ?p"
    using p by (simp add: field_simps)
  show "round_pos x \<le> of_int m * 2 powi u" if "x \<le> of_int m * 2 powi u"
  proof -
    have "x / ?p \<le> of_int k" using that p unfolding eq by (simp add: divide_le_eq)
    then have "(of_int (rne (x / ?p)) :: rat) \<le> of_int k" by (simp add: rne_le_iff_int)
    then show ?thesis unfolding eq round_pos_def using p by simp
  qed
  show "of_int m * 2 powi u \<le> round_pos x" if "of_int m * 2 powi u \<le> x"
  proof -
    have "of_int k \<le> x / ?p" using that p unfolding eq by (simp add: le_divide_eq)
    then have "(of_int k :: rat) \<le> of_int (rne (x / ?p))" by (simp add: rne_ge_iff_int)
    then show ?thesis unfolding eq round_pos_def using p by simp
  qed
qed

lemma pow24: "of_int m * (2::rat) powi u \<le> 2 powi (u + 24)" if "m \<le> 2 ^ 24"
proof -
  have "of_int m * (2::rat) powi u \<le> of_int (2 ^ 24) * 2 powi u"
    using that by (intro mult_right_mono) (auto simp del: of_int_power simp: of_int_le_iff)
  then show ?thesis by (simp add: power_int_add mult.commute)
qed

lemma ulp_above:
  assumes "u < ulp_exp x" and "- 149 \<le> u"
  shows "ulp_exp x = ilog2 x - 23" "u + 24 \<le> ilog2 x"
  using assms by (auto simp: ulp_exp_def max_def split: if_splits)

lemma round_pos_ge_binade:
  assumes "0 < x" and "ulp_exp x = ilog2 x - 23"
  shows "2 powi ilog2 x \<le> round_pos x"
proof -
  have eq: "(2::rat) powi ilog2 x = of_int (2 ^ 23) * 2 powi ulp_exp x"
    unfolding assms(2) by (simp add: power_int_diff)
  show ?thesis
    unfolding eq by (rule round_pos_multiple(2)) (use ilog2_bounds [OF assms(1)] eq in auto)
qed

lemma round_pos_le:
  assumes "0 < x" and "x \<le> r" and "representable r"
  shows "round_pos x \<le> r"
proof -
  obtain m u where r: "r = of_int m * 2 powi u" "0 < m" "m \<le> 2 ^ 24" "- 149 \<le> u"
    using assms(3) by (auto simp: representable_def)
  show ?thesis
  proof (cases "ulp_exp x \<le> u")
    case True
    then show ?thesis using round_pos_multiple(1) [OF True] assms(2) r(1) by simp
  next
    case False
    then have u: "ulp_exp x = ilog2 x - 23" "u + 24 \<le> ilog2 x" using ulp_above [of u x] r(4) by auto
    have "(2::rat) powi (u + 24) \<le> 2 powi ilog2 x" using u(2) by (simp add: powi_le_iff)
    then have x: "x = 2 powi ilog2 x" "r = x"
      using ilog2_bounds(1) [OF assms(1)] assms(2) pow24 [OF r(3), of u] r(1) by linarith+
    have "x = of_int (2 ^ 23) * 2 powi ulp_exp x"
      by (subst x(1)) (simp add: u(1) power_int_diff)
    then have "round_pos x \<le> x" using round_pos_multiple(1) [of x "ulp_exp x" "2 ^ 23"] by simp
    with x(2) show ?thesis by simp
  qed
qed

lemma round_pos_ge:
  assumes "r \<le> x" and "representable r"
  shows "r \<le> round_pos x"
proof -
  obtain m u where r: "r = of_int m * 2 powi u" "0 < m" "m \<le> 2 ^ 24" "- 149 \<le> u"
    using assms(2) by (auto simp: representable_def)
  have x: "0 < x" using assms(1) r by (intro less_le_trans [OF _ assms(1)]) simp
  show ?thesis
  proof (cases "ulp_exp x \<le> u")
    case True
    then show ?thesis using round_pos_multiple(2) [OF True] assms(1) r(1) by simp
  next
    case False
    then have u: "ulp_exp x = ilog2 x - 23" "u + 24 \<le> ilog2 x" using ulp_above [of u x] r(4) by auto
    have "r \<le> 2 powi (u + 24)" using pow24 r by simp
    also have "\<dots> \<le> 2 powi ilog2 x" using u(2) by (simp add: powi_le_iff)
    also have "\<dots> \<le> round_pos x" by (rule round_pos_ge_binade [OF x u(1)])
    finally show ?thesis .
  qed
qed

lemma round_pos_representable: "representable r \<Longrightarrow> round_pos r = r"
proof -
  assume r: "representable r"
  then have "0 < r" by (auto simp: representable_def)
  with r show ?thesis by (intro antisym round_pos_le round_pos_ge) auto
qed

lemma round_pos_nonneg: "0 < x \<Longrightarrow> 0 \<le> round_pos x"
  by (simp add: round_pos_def rne_ge_iff_int)

lemma round_pos_mono:
  assumes "0 < x" and "x \<le> y"
  shows "round_pos x \<le> round_pos y"
proof (cases "ulp_exp x = ulp_exp y")
  case True
  then show ?thesis
    using assms unfolding round_pos_def by (simp add: rne_mono divide_right_mono)
next
  case False
  then have lt: "ulp_exp x < ulp_exp y" using ulp_exp_mono [OF assms] by simp
  then have u: "ulp_exp y = ilog2 y - 23" "ilog2 x < ilog2 y"
    by (auto simp: ulp_exp_def max_def split: if_splits)
  have "0 < y" using assms by simp
  have "x < 2 powi (ilog2 x + 1)" by (rule ilog2_bounds(2) [OF assms(1)])
  also have "\<dots> \<le> 2 powi ilog2 y" using u(2) by (simp add: powi_le_iff)
  finally have "x \<le> of_int (2 ^ 23) * 2 powi ulp_exp y" by (simp add: u(1) power_int_diff)
  from round_pos_multiple(1) [OF less_imp_le [OF lt] this]
  have "round_pos x \<le> 2 powi ilog2 y" by (simp add: u(1) power_int_diff)
  with round_pos_ge_binade [OF \<open>0 < y\<close> u(1)] show ?thesis by linarith
qed

text \<open>Less than half a unit above a power of two rounds down to it.\<close>

lemma round_pos_down:
  assumes x: "2 powi e \<le> x" "x < 2 powi e + 2 powi (e - 24)" and "- 126 \<le> e"
  shows "round_pos x = 2 powi e"
proof -
  have half: "(2::rat) powi (e - 24) = 2 powi (e - 23) / 2"
    using power_int_add_1 [of "2::rat" "e - 24"] by simp
  have pow: "(2::rat) powi e = of_int (2 ^ 23) * 2 powi (e - 23)" by (simp add: power_int_diff)
  have "(2::rat) powi (e - 24) \<le> 2 powi e" by (simp only: powi_le_iff)
  then have "x < 2 powi (e + 1)" using x(2) power_int_add_1 [of "2::rat" e] by simp
  with x(1) have "ilog2 x = e" by (rule ilog2_eqI)
  with assms(3) have u: "ulp_exp x = e - 23" by (simp add: ulp_exp_def)
  have "rne (x / 2 powi (e - 23)) = 2 ^ 23"
  proof (rule rne_eqI)
    show "of_int (2 ^ 23) \<le> x / 2 powi (e - 23)" using x(1) unfolding pow by (simp add: le_divide_eq)
    show "x / 2 powi (e - 23) < of_int (2 ^ 23) + 1 / 2"
      using x(2) unfolding pow half by (simp add: divide_less_eq algebra_simps)
  qed
  then show ?thesis unfolding round_pos_def u pow by simp
qed

text \<open>The two bounds clients use.\<close>

lemma round32_bounded:
  assumes "0 \<le> x" and "x \<le> r" and "representable r" and "r < 2 ^ 128"
  obtains y where "round32 x = Fin y" "0 \<le> y" "y \<le> r"
proof (cases "x = 0")
  case True
  then show ?thesis using assms that [of 0] by (simp add: round32_def)
next
  case False
  with assms round_pos_le [of x r] round_pos_nonneg [of x] show ?thesis
    by (intro that [of "round_pos x"]) (auto simp: round32_def)
qed

lemma round32_representable: "representable r \<Longrightarrow> r < 2 ^ 128 \<Longrightarrow> round32 r = Fin r"
  by (auto simp: round32_def round_pos_representable) (auto simp: representable_def)

lemma representable_int: "0 < m \<Longrightarrow> m \<le> 2 ^ 24 \<Longrightarrow> representable (of_int m)"
  unfolding representable_def by (intro exI [of _ m] exI [of _ 0]) simp

lemma representable_nat: "0 < m \<Longrightarrow> m \<le> 2 ^ 24 \<Longrightarrow> representable (of_nat m)"
  using representable_int [of "int m"] by simp

lemma representable_scaled:
  "0 < m \<Longrightarrow> m \<le> 2 ^ 24 \<Longrightarrow> - 149 \<le> u \<Longrightarrow> representable (of_int m * 2 powi u)"
  unfolding representable_def by blast

end
