(* ===== verification/Rtt.thy ===== *)
theory Rtt
  imports Float32
begin

text \<open>
  \<^verbatim>\<open>tox-sequenced/src/rtt.rs\<close>: the smoothed round-trip time and the retransmission timeout of
  RFC 6298, on \<^verbatim>\<open>Duration\<close> values scaled in single precision. The arithmetic of \<^verbatim>\<open>Duration\<close>
  panics on overflow; the development shows that no measurable sample makes it panic, and that
  the timeout always stays within its configured range.
\<close>

section \<open>The estimator\<close>

definition INITIAL_SRTT :: duration where "INITIAL_SRTT = from_millis 200"
definition INITIAL_RTTVAR :: duration where "INITIAL_RTTVAR = from_millis 100"
definition INITIAL_RTO :: duration where "INITIAL_RTO = from_millis 1000"
definition MIN_RTO :: duration where "MIN_RTO = from_millis 200"
definition MAX_RTO :: duration where "MAX_RTO = from_millis 5000"
definition RTT_ALPHA :: f32 where "RTT_ALPHA = Fin (1/8)"
definition RTT_BETA :: f32 where "RTT_BETA = Fin (1/4)"
definition RTT_K :: nat where "RTT_K = 4"
definition MAX_BACKOFF_EXPONENT :: nat where "MAX_BACKOFF_EXPONENT = 6"

record rtt_estimator =
  srtt :: duration
  rttvar :: duration
  rto :: duration

definition rtt_new :: rtt_estimator where
  "rtt_new = \<lparr>srtt = INITIAL_SRTT, rttvar = INITIAL_RTTVAR, rto = INITIAL_RTO\<rparr>"

definition dur_clamp :: "duration \<Rightarrow> duration \<Rightarrow> duration \<Rightarrow> duration" where
  "dur_clamp d lo hi = (if d < lo then lo else if hi < d then hi else d)"

definition rtt_update :: "rtt_estimator \<Rightarrow> duration \<Rightarrow> rtt_estimator panics" where
  "rtt_update est sample =
     do {
       let diff = abs_diff sample (srtt est);
       v1 \<leftarrow> mul_f32 (rttvar est) (f32_sub (Fin 1) RTT_BETA);
       v2 \<leftarrow> mul_f32 diff RTT_BETA;
       v \<leftarrow> dur_add v1 v2;
       s1 \<leftarrow> mul_f32 (srtt est) (f32_sub (Fin 1) RTT_ALPHA);
       s2 \<leftarrow> mul_f32 sample RTT_ALPHA;
       s \<leftarrow> dur_add s1 s2;
       var_part \<leftarrow> dur_mul v RTT_K;
       sum \<leftarrow> dur_add s var_part;
       Some \<lparr>srtt = s, rttvar = v, rto = dur_clamp sum MIN_RTO MAX_RTO\<rparr>
     }"

definition rto_with_backoff :: "rtt_estimator \<Rightarrow> nat \<Rightarrow> duration panics" where
  "rto_with_backoff est retries = dur_mul (rto est) (2 ^ min retries MAX_BACKOFF_EXPONENT)"

lemmas rtt_consts =
  INITIAL_SRTT_def INITIAL_RTTVAR_def INITIAL_RTO_def MIN_RTO_def MAX_RTO_def RTT_ALPHA_def
  RTT_BETA_def RTT_K_def MAX_BACKOFF_EXPONENT_def from_millis_def

section \<open>Bounds\<close>

text \<open>
  The longest interval the bounds cover: \<open>2^30\<close> seconds, 34 years of uptime.
\<close>

definition rtt_horizon :: duration where
  "rtt_horizon = 2 ^ 30 * nanos_per_sec"

definition rtt_ok :: "rtt_estimator \<Rightarrow> bool" where
  "rtt_ok est \<longleftrightarrow> srtt est \<le> rtt_horizon \<and> rttvar est \<le> rtt_horizon \<and>
     MIN_RTO \<le> rto est \<and> rto est \<le> MAX_RTO"

lemma representable_pow2: "n \<le> 200 \<Longrightarrow> representable (2 ^ n)"
  using representable_scaled [of 1 "int n"] by (simp add: power_int_def)

lemma of_nat_le_pow2: "n \<le> 2 ^ e \<Longrightarrow> (of_nat n :: rat) \<le> 2 ^ e"
  by (metis of_nat_le_iff of_nat_numeral of_nat_power)

text \<open>A sum that passes a power of two by at most one is rounded back to it.\<close>

lemma round32_saturates:
  assumes "25 \<le> e" "e \<le> 100" "0 \<le> x" "x \<le> 2 ^ e" "0 \<le> a" "a < 2 ^ (e - 24)"
  obtains y where "round32 (x + a) = Fin y" "0 \<le> y" "y \<le> 2 ^ e"
proof -
  have e: "(2 :: rat) ^ e < 2 ^ 128" using assms(2) by (intro power_strict_increasing) auto
  show ?thesis
  proof (cases "x + a \<le> 2 ^ e")
    case True
    show ?thesis by (rule round32_bounded [OF _ True representable_pow2]) (use assms e that in auto)
  next
    case False
    have "(2 :: rat) powi (int e - 24) = 2 ^ (e - 24)" using assms(1) by (simp add: power_int_def nat_diff_distrib)
    then have "round_pos (x + a) = 2 ^ e"
      using round_pos_down [of "int e" "x + a"] False assms by (simp add: power_int_def)
    then have "round32 (x + a) = Fin (2 ^ e)" using False assms e by (auto simp: round32_def)
    then show ?thesis using that [of "2 ^ e"] by simp
  qed
qed

lemma as_secs_f32_pow:
  assumes "d \<le> 2 ^ e * nanos_per_sec" "25 \<le> e" "e \<le> 100"
  obtains y where "as_secs_f32 d = Fin y" "0 \<le> y" "y \<le> 2 ^ e"
proof -
  have e: "(2 :: rat) ^ e < 2 ^ 128" using assms(3) by (intro power_strict_increasing) auto
  have "d div nanos_per_sec \<le> 2 ^ e"
    using div_le_mono [OF assms(1), of nanos_per_sec] by (simp add: nanos_per_sec_def)
  then obtain a where a: "f32_of_nat (d div nanos_per_sec) = Fin a" "0 \<le> a" "a \<le> 2 ^ e"
    by (rule round32_bounded [OF _ of_nat_le_pow2 representable_pow2, rotated]) (use assms(3) e in \<open>auto simp: f32_of_nat_def\<close>)
  have "d mod nanos_per_sec \<le> 1000000000" by (simp add: nanos_per_sec_def)
  then have n: "(of_nat (d mod nanos_per_sec) :: rat) \<le> 1000000000" by (metis of_nat_le_iff of_nat_numeral)
  have rep9: "representable 1000000000"
    using representable_scaled [of 1953125 9] by (simp add: power_int_def)
  obtain b where b: "f32_of_nat (d mod nanos_per_sec) = Fin b" "0 \<le> b" "b \<le> 1000000000"
    by (rule round32_bounded [OF _ n rep9]) (auto simp: f32_of_nat_def)
  obtain c where c: "f32_div (Fin b) (Fin 1000000000) = Fin c" "0 \<le> c" "c \<le> 1"
    by (rule round32_bounded [of "b / 1000000000" 1])
      (use b representable_nat [of 1] in \<open>auto simp: divide_le_eq\<close>)
  have "(1 :: rat) < 2 ^ (e - 24)" using assms(2) by (intro one_less_power) auto
  then show ?thesis
    by (rule round32_saturates [OF assms(2,3) a(2,3) c(2) le_less_trans [OF c(3)]])
      (use a b c that in \<open>auto simp: as_secs_f32_def\<close>)
qed

lemma as_secs_f32_bounded:
  assumes "d \<le> rtt_horizon"
  obtains y where "as_secs_f32 d = Fin y" "0 \<le> y" "y \<le> 2 ^ 30"
  by (rule as_secs_f32_pow [of d 30]) (use assms that in \<open>auto simp: rtt_horizon_def\<close>)

text \<open>Scaling by a factor with at most 24 bits never panics and scales the bound.\<close>

lemma mul_f32_bounded:
  assumes "d \<le> rtt_horizon" and "0 \<le> k" and "k \<le> 2" and "representable (k * 2 ^ 30)"
    and "k * 2 ^ 30 * 1000000000 = of_nat n"
  obtains v where "mul_f32 d (Fin k) = Some v" "v \<le> n"
proof -
  obtain y where y: "as_secs_f32 d = Fin y" "0 \<le> y" "y \<le> 2 ^ 30"
    using as_secs_f32_bounded [OF assms(1)] by blast
  have ky: "k * y \<le> k * 2 ^ 30" using y(3) assms(2) by (rule mult_left_mono)
  have lt: "k * 2 ^ 30 \<le> 2 ^ 31" using assms(3) by simp
  obtain r where r: "round32 (k * y) = Fin r" "0 \<le> r" "r \<le> k * 2 ^ 30"
    by (rule round32_bounded [OF _ ky assms(4)]) (use y assms lt in \<open>auto\<close>)
  have "rne (r * 1000000000) \<le> int n"
  proof (rule rne_le_iff_int)
    have "r * 1000000000 \<le> k * 2 ^ 30 * 1000000000" using r(3) by (rule mult_right_mono) simp
    then show "r * 1000000000 \<le> of_int (int n)" using assms(5) by simp
  qed
  then show ?thesis
    using y r lt by (intro that [of "nat (rne (r * 1000000000))"]) (auto simp: mul_f32_def)
qed

lemma rtt_update_ok:
  assumes "rtt_ok est" and "sample \<le> rtt_horizon"
  obtains est' where "rtt_update est sample = Some est'" "rtt_ok est'"
proof -
  have sub: "f32_sub (Fin 1) RTT_BETA = Fin (3/4)" "f32_sub (Fin 1) RTT_ALPHA = Fin (7/8)"
    using round32_representable [of "3/4"] round32_representable [of "7/8"]
      representable_scaled [of 3 "- 2"] representable_scaled [of 7 "- 3"]
    by (simp_all add: f32_sub_def RTT_BETA_def RTT_ALPHA_def power_int_def power_divide)
  have rep: "representable (3/4 * 2 ^ 30)" "representable (1/4 * 2 ^ 30)"
    "representable (7/8 * 2 ^ 30)" "representable (1/8 * 2 ^ 30)"
    using representable_scaled [of 3 28] representable_scaled [of 1 28]
      representable_scaled [of 7 27] representable_scaled [of 1 27]
    by (simp_all add: power_int_def)
  let ?n = "\<lambda>k. k * 2 ^ 27 * 1000000000 :: nat"
  have diff: "abs_diff sample (srtt est) \<le> rtt_horizon"
    using assms by (auto simp: abs_diff_def rtt_ok_def)
  obtain v1 where v1: "mul_f32 (rttvar est) (Fin (3/4)) = Some v1" "v1 \<le> ?n 6"
    by (rule mul_f32_bounded [of "rttvar est", OF _ _ _ rep(1)])
      (use assms(1) in \<open>auto simp: rtt_ok_def\<close>)
  obtain v2 where v2: "mul_f32 (abs_diff sample (srtt est)) (Fin (1/4)) = Some v2" "v2 \<le> ?n 2"
    by (rule mul_f32_bounded [OF diff _ _ rep(2)]) auto
  obtain s1 where s1: "mul_f32 (srtt est) (Fin (7/8)) = Some s1" "s1 \<le> ?n 7"
    by (rule mul_f32_bounded [of "srtt est", OF _ _ _ rep(3)])
      (use assms(1) in \<open>auto simp: rtt_ok_def\<close>)
  obtain s2 where s2: "mul_f32 sample (Fin (1/8)) = Some s2" "s2 \<le> ?n 1"
    by (rule mul_f32_bounded [OF assms(2) _ _ rep(4)]) auto
  let ?est = "\<lparr>srtt = s1 + s2, rttvar = v1 + v2,
    rto = dur_clamp (s1 + s2 + (v1 + v2) * 4) MIN_RTO MAX_RTO\<rparr>"
  have "rtt_update est sample = Some ?est"
    using v1 v2 s1 s2 sub
    by (simp add: rtt_update_def RTT_BETA_def RTT_ALPHA_def RTT_K_def dur_add_def dur_mul_def
        duration_limit_def nanos_per_sec_def Let_def)
  moreover have "rtt_ok ?est"
    using v1 v2 s1 s2
    by (simp add: rtt_ok_def rtt_horizon_def nanos_per_sec_def dur_clamp_def MIN_RTO_def MAX_RTO_def
        from_millis_def)
  ultimately show ?thesis using that by blast
qed

lemma rtt_new_ok [wf_intros]: "rtt_ok rtt_new"
  by (simp add: rtt_ok_def rtt_new_def rtt_consts rtt_horizon_def nanos_per_sec_def)

text \<open>Backed off, the timeout is at most 64 times the largest one and never overflows.\<close>

lemma rto_with_backoff_ok:
  assumes "rtt_ok est"
  shows "rto_with_backoff est retries = Some (rto est * 2 ^ min retries 6)"
    and "rto est * 2 ^ min retries 6 \<le> from_secs 320"
proof -
  have "rto est * 2 ^ min retries 6 \<le> MAX_RTO * 2 ^ 6"
    using assms by (intro mult_le_mono power_increasing) (auto simp: rtt_ok_def)
  then show le: "rto est * 2 ^ min retries 6 \<le> from_secs 320"
    by (simp add: rtt_consts from_secs_def)
  then show "rto_with_backoff est retries = Some (rto est * 2 ^ min retries 6)"
    by (simp add: rto_with_backoff_def dur_mul_def duration_limit_def nanos_per_sec_def
        from_secs_def MAX_BACKOFF_EXPONENT_def)
qed

text \<open>A sequence of samples.\<close>

fun rtt_run :: "rtt_estimator \<Rightarrow> duration list \<Rightarrow> rtt_estimator panics" where
  "rtt_run est [] = Some est"
| "rtt_run est (x # xs) = do { est' \<leftarrow> rtt_update est x; rtt_run est' xs }"

lemma rtt_run_ok:
  "rtt_ok est \<Longrightarrow> \<forall>x \<in> set xs. x \<le> rtt_horizon \<Longrightarrow> \<exists>est'. rtt_run est xs = Some est' \<and> rtt_ok est'"
proof (induction xs arbitrary: est)
  case (Cons x xs)
  obtain est1 where "rtt_update est x = Some est1" "rtt_ok est1"
    using rtt_update_ok [of est x] Cons.prems by auto
  with Cons show ?case by auto
qed simp

end
