(* ===== verification/Protocol.thy ===== *)
theory Protocol
  imports Prelude
begin

text \<open>
  \<^verbatim>\<open>tox-sequenced/src/protocol.rs\<close> and \<^verbatim>\<open>error.rs\<close>: identifiers, packets, limits and message
  types of the transport, and \<^verbatim>\<open>peek_message_type\<close> of \<^verbatim>\<open>session.rs\<close>, which reads the type from
  the first bytes of a message. \<^verbatim>\<open>MessageId\<close> is a \<^verbatim>\<open>u32\<close> that wraps around and is kept as a
  32-bit word; \<^verbatim>\<open>FragmentIndex\<close> and \<^verbatim>\<open>FragmentCount\<close> are \<^verbatim>\<open>u16\<close> values read as naturals, with the
  wrap-around written out where the code wraps.
\<close>

section \<open>Identifiers and limits\<close>

type_synonym message_id = u32
type_synonym fragment_index = nat
type_synonym fragment_count = nat
type_synonym timestamp_ms = int

definition mid_wrapping_add :: "message_id \<Rightarrow> u32 \<Rightarrow> message_id" where
  "mid_wrapping_add i v = i + v"

definition mid_wrapping_sub :: "message_id \<Rightarrow> message_id \<Rightarrow> u32" where
  "mid_wrapping_sub i j = i - j"

definition u16_wrapping_add :: "nat \<Rightarrow> nat \<Rightarrow> nat" where
  "u16_wrapping_add a b = (a + b) mod 65536"

definition MAX_TOX_PACKET_SIZE :: nat where "MAX_TOX_PACKET_SIZE = 1373"
definition MIN_TRANSPORT_SLOTS :: nat where "MIN_TRANSPORT_SLOTS = 32"
definition MAX_TOTAL_REASSEMBLY_BUFFER :: nat where
  "MAX_TOTAL_REASSEMBLY_BUFFER = 8 * 32 * 64 * 1024"
definition ESTIMATED_PAYLOAD_SIZE :: nat where "ESTIMATED_PAYLOAD_SIZE = 1300"
definition MAX_MESSAGE_SIZE :: nat where "MAX_MESSAGE_SIZE = 1024 * 1024"
definition MAX_FRAGMENTS_PER_MESSAGE :: nat where "MAX_FRAGMENTS_PER_MESSAGE = 1024"
definition BITSET_WORDS :: nat where "BITSET_WORDS = div_ceil MAX_FRAGMENTS_PER_MESSAGE 64"
definition MAX_CONCURRENT_OUTGOING :: nat where "MAX_CONCURRENT_OUTGOING = MIN_TRANSPORT_SLOTS"
definition MAX_CONCURRENT_INCOMING :: nat where "MAX_CONCURRENT_INCOMING = MIN_TRANSPORT_SLOTS"
definition MAX_COMPLETED_INCOMING :: nat where "MAX_COMPLETED_INCOMING = 1024"
definition MAX_DATAGRAM_QUEUE :: nat where "MAX_DATAGRAM_QUEUE = 128"
definition REASSEMBLY_TIMEOUT_SECS :: nat where "REASSEMBLY_TIMEOUT_SECS = 30"
definition PACKET_OVERHEAD :: nat where "PACKET_OVERHEAD = 20"
definition DELAYED_ACK_TIMEOUT :: duration where "DELAYED_ACK_TIMEOUT = from_millis 40"

lemmas limits =
  MAX_TOX_PACKET_SIZE_def MIN_TRANSPORT_SLOTS_def MAX_TOTAL_REASSEMBLY_BUFFER_def
  ESTIMATED_PAYLOAD_SIZE_def MAX_MESSAGE_SIZE_def MAX_FRAGMENTS_PER_MESSAGE_def
  MAX_CONCURRENT_OUTGOING_def MAX_CONCURRENT_INCOMING_def MAX_COMPLETED_INCOMING_def
  MAX_DATAGRAM_QUEUE_def PACKET_OVERHEAD_def

lemma BITSET_WORDS_eq [simp]: "BITSET_WORDS = 16"
  by (simp add: BITSET_WORDS_def MAX_FRAGMENTS_PER_MESSAGE_def div_ceil_def)

section \<open>Errors, packets and events\<close>

datatype sequenced_error =
    MessageTooLarge
  | SerializationError string
  | QueueFull
  | InvalidFragmentIndex
  | InvalidMtu
  | InvalidTotalFragments

text \<open>\<^verbatim>\<open>Priority\<close>, declared from the highest (0) to the lowest (4).\<close>

datatype priority = Critical | High | Standard | Low | Bulk

fun priority_level :: "priority \<Rightarrow> nat" where
  "priority_level Critical = 0"
| "priority_level High = 1"
| "priority_level Standard = 2"
| "priority_level Low = 3"
| "priority_level Bulk = 4"

datatype message_type =
    CapsAnnounce | CapsAck | SyncHeads | FetchBatchReq | MerkleNode | BlobQuery | BlobAvail
  | BlobReq | BlobData | SyncSketch | SyncReconFail | SyncShardChecksums | HandshakeError
  | SyncRateLimited | KeywrapAck | ReinclusionRequest | ReinclusionResponse
  | ReconPowChallenge | ReconPowSolution | AdminGossip

text \<open>The \<^verbatim>\<open>#[repr(u8)]\<close> discriminants.\<close>

fun message_type_tag :: "message_type \<Rightarrow> u8" where
  "message_type_tag CapsAnnounce = 0x01"
| "message_type_tag CapsAck = 0x02"
| "message_type_tag SyncHeads = 0x03"
| "message_type_tag FetchBatchReq = 0x04"
| "message_type_tag MerkleNode = 0x05"
| "message_type_tag BlobQuery = 0x06"
| "message_type_tag BlobAvail = 0x07"
| "message_type_tag BlobReq = 0x08"
| "message_type_tag BlobData = 0x09"
| "message_type_tag SyncSketch = 0x0A"
| "message_type_tag SyncReconFail = 0x0B"
| "message_type_tag SyncShardChecksums = 0x0C"
| "message_type_tag HandshakeError = 0x0D"
| "message_type_tag SyncRateLimited = 0x0E"
| "message_type_tag KeywrapAck = 0x0F"
| "message_type_tag ReinclusionRequest = 0x10"
| "message_type_tag ReinclusionResponse = 0x11"
| "message_type_tag ReconPowChallenge = 0x12"
| "message_type_tag ReconPowSolution = 0x13"
| "message_type_tag AdminGossip = 0x14"

fun message_priority :: "message_type \<Rightarrow> priority" where
  "message_priority CapsAnnounce = Critical"
| "message_priority CapsAck = Critical"
| "message_priority SyncHeads = High"
| "message_priority FetchBatchReq = High"
| "message_priority SyncSketch = High"
| "message_priority SyncReconFail = High"
| "message_priority SyncShardChecksums = High"
| "message_priority SyncRateLimited = High"
| "message_priority ReconPowChallenge = High"
| "message_priority ReconPowSolution = High"
| "message_priority HandshakeError = High"
| "message_priority KeywrapAck = High"
| "message_priority MerkleNode = Standard"
| "message_priority BlobQuery = Low"
| "message_priority BlobAvail = Low"
| "message_priority BlobReq = Low"
| "message_priority BlobData = Bulk"
| "message_priority ReinclusionRequest = High"
| "message_priority ReinclusionResponse = High"
| "message_priority AdminGossip = High"

record selective_ack =
  ack_message_id :: message_id
  ack_base_index :: fragment_index
  ack_bitmask :: u64
  ack_rwnd :: fragment_count

record nack =
  nack_message_id :: message_id
  nack_missing_indices :: "fragment_index list"

datatype packet =
    Data message_id fragment_index fragment_count bytes
  | Ack selective_ack
  | Nack nack
  | Ping timestamp_ms
  | Pong timestamp_ms timestamp_ms timestamp_ms
  | Datagram message_type bytes

datatype session_event =
    MessageCompleted message_id message_type bytes
  | MessageFailed message_id string
  | MessageAcked message_id
  | ReadyToSend
  | CongestionWindowChanged nat

section \<open>Reading the type of a message from its first fragment\<close>

text \<open>
  An envelope is a MessagePack array of two elements (\<^verbatim>\<open>0x92\<close>) whose first element is the type
  as a positive fixint.
\<close>

definition all_message_types :: "message_type list" where
  "all_message_types =
     [CapsAnnounce, CapsAck, SyncHeads, FetchBatchReq, MerkleNode, BlobQuery, BlobAvail, BlobReq,
      BlobData, SyncSketch, SyncReconFail, SyncShardChecksums, HandshakeError, SyncRateLimited,
      KeywrapAck, ReinclusionRequest, ReinclusionResponse, ReconPowChallenge, ReconPowSolution,
      AdminGossip]"

definition message_type_of_tag :: "u8 \<Rightarrow> message_type option" where
  "message_type_of_tag b = find (\<lambda>mt. message_type_tag mt = b) all_message_types"

definition peek_message_type :: "bytes \<Rightarrow> message_type option" where
  "peek_message_type data =
     (if length data < 2 then None
      else if data ! 0 \<noteq> 0x92 then None
      else message_type_of_tag (data ! 1))"

lemma message_type_of_tag_tag: "message_type_of_tag (message_type_tag mt) = Some mt"
  by (cases mt) (simp_all add: message_type_of_tag_def all_message_types_def)

lemma message_type_of_tag_Some: "message_type_of_tag b = Some mt \<Longrightarrow> message_type_tag mt = b"
  by (auto simp: message_type_of_tag_def find_Some_iff)

lemma message_type_tag_inj: "message_type_tag a = message_type_tag b \<longleftrightarrow> a = b"
  by (metis message_type_of_tag_tag option.inject)

text \<open>Peeking is exact: it reports a type precisely on the bytes that start with that envelope.\<close>

lemma peek_message_type_eq_Some_iff:
  "peek_message_type data = Some mt \<longleftrightarrow> (\<exists>rest. data = 0x92 # message_type_tag mt # rest)"
proof
  assume "peek_message_type data = Some mt"
  then have "2 \<le> length data" "data ! 0 = 0x92" "message_type_tag mt = data ! 1"
    by (auto simp: peek_message_type_def dest: message_type_of_tag_Some split: if_splits)
  then have "data = 0x92 # message_type_tag mt # drop 2 data"
    by (cases data; cases "tl data") auto
  then show "\<exists>rest. data = 0x92 # message_type_tag mt # rest" ..
next
  assume "\<exists>rest. data = 0x92 # message_type_tag mt # rest"
  then show "peek_message_type data = Some mt"
    by (auto simp: peek_message_type_def message_type_of_tag_tag)
qed

end
