(* ===== verification/Congestion.thy ===== *)
theory Congestion
  imports Rtt Protocol
begin

text \<open>
  \<^verbatim>\<open>tox-sequenced/src/congestion/mod.rs\<close> and \<^verbatim>\<open>congestion/aimd.rs\<close>. The trait \<^verbatim>\<open>CongestionControl\<close>
  is a dictionary of functions over the controller's state, so that the session is generic in the
  controller the way the Rust code is. The locale \<open>congestion_control\<close> states what a
  controller promises: whatever it is told, its window admits a fragment and its pacing rate
  is a positive finite number. AIMD, the default controller, is an interpretation of it.
\<close>

section \<open>The trait\<close>

record cc_sample =
  ds_bytes_delivered :: nat
  ds_duration :: duration
  ds_now :: instant
  ds_app_limited :: bool

record 'c cc_ops =
  cc_on_ack :: "'c \<Rightarrow> duration \<Rightarrow> cc_sample option \<Rightarrow> nat \<Rightarrow> nat \<Rightarrow> instant \<Rightarrow> 'c"
  cc_on_nack :: "'c \<Rightarrow> instant \<Rightarrow> 'c"
  cc_on_timeout :: "'c \<Rightarrow> instant \<Rightarrow> 'c"
  cc_cwnd :: "'c \<Rightarrow> nat"
  cc_pacing_rate :: "'c \<Rightarrow> f32"
  cc_min_rtt :: "'c \<Rightarrow> duration"
  cc_on_fragment_sent :: "'c \<Rightarrow> nat \<Rightarrow> instant \<Rightarrow> 'c"

section \<open>AIMD\<close>

definition INITIAL_CWND :: f32 where "INITIAL_CWND = Fin 10"
definition INITIAL_SSTHRESH :: f32 where "INITIAL_SSTHRESH = Fin 64"
definition MIN_SSTHRESH :: f32 where "MIN_SSTHRESH = Fin 2"
definition PACING_GAIN :: f32 where "PACING_GAIN = Fin 2"

record aimd =
  aimd_cwnd :: f32
  aimd_ssthresh :: f32
  aimd_last_rtt :: duration

definition aimd_with_cwnd :: "f32 \<Rightarrow> aimd" where
  "aimd_with_cwnd initial =
     \<lparr>aimd_cwnd = initial, aimd_ssthresh = INITIAL_SSTHRESH, aimd_last_rtt = from_millis 200\<rparr>"

definition aimd_new :: aimd where
  "aimd_new = aimd_with_cwnd INITIAL_CWND"

definition aimd_on_ack ::
    "aimd \<Rightarrow> duration \<Rightarrow> cc_sample option \<Rightarrow> nat \<Rightarrow> nat \<Rightarrow> instant \<Rightarrow> aimd" where
  "aimd_on_ack a rtt sample bytes_acked in_flight now =
     (let fragments_acked = f32_div (f32_of_nat bytes_acked) (f32_of_nat ESTIMATED_PAYLOAD_SIZE);
          a1 = (if f32_less (aimd_cwnd a) (aimd_ssthresh a)
                then a\<lparr>aimd_cwnd := f32_add (aimd_cwnd a) fragments_acked\<rparr>
                else a\<lparr>aimd_cwnd := f32_add (aimd_cwnd a) (f32_div fragments_acked (aimd_cwnd a))\<rparr>)
      in a1\<lparr>aimd_last_rtt := rtt\<rparr>)"

definition aimd_on_nack :: "aimd \<Rightarrow> instant \<Rightarrow> aimd" where
  "aimd_on_nack a now =
     (let s = f32_max (f32_div (aimd_cwnd a) (Fin 2)) MIN_SSTHRESH
      in a\<lparr>aimd_ssthresh := s, aimd_cwnd := s\<rparr>)"

definition aimd_on_timeout :: "aimd \<Rightarrow> instant \<Rightarrow> aimd" where
  "aimd_on_timeout a now =
     a\<lparr>aimd_ssthresh := f32_max (f32_div (aimd_cwnd a) (Fin 2)) MIN_SSTHRESH, aimd_cwnd := Fin 1\<rparr>"

definition aimd_pacing_rate :: "aimd \<Rightarrow> f32" where
  "aimd_pacing_rate a =
     (let mtu = f32_of_nat ESTIMATED_PAYLOAD_SIZE;
          rtt_secs = f32_clamp (as_secs_f32 (aimd_last_rtt a)) (round32 (1/100)) (Fin 1)
      in f32_div (f32_mul (f32_mul (aimd_cwnd a) mtu) PACING_GAIN) rtt_secs)"

definition aimd_ops :: "aimd cc_ops" where
  "aimd_ops =
     \<lparr>cc_on_ack = aimd_on_ack, cc_on_nack = aimd_on_nack, cc_on_timeout = aimd_on_timeout,
      cc_cwnd = (\<lambda>a. f32_to_usize (aimd_cwnd a)), cc_pacing_rate = aimd_pacing_rate,
      cc_min_rtt = aimd_last_rtt, cc_on_fragment_sent = (\<lambda>a bytes now. a)\<rparr>"

section \<open>The contract\<close>

datatype cc_event =
    CcAck duration "cc_sample option" nat nat instant
  | CcNack instant
  | CcTimeout instant
  | CcSent nat instant

fun cc_apply :: "'c cc_ops \<Rightarrow> cc_event \<Rightarrow> 'c \<Rightarrow> 'c" where
  "cc_apply ops (CcAck rtt sample bytes in_flight now) c = cc_on_ack ops c rtt sample bytes in_flight now"
| "cc_apply ops (CcNack now) c = cc_on_nack ops c now"
| "cc_apply ops (CcTimeout now) c = cc_on_timeout ops c now"
| "cc_apply ops (CcSent bytes now) c = cc_on_fragment_sent ops c bytes now"

text \<open>
  Byte counts are \<^verbatim>\<open>usize\<close> values, durations those of the platform, and a session runs for at most a year: the
  instants lie within \<open>2 ^ 25\<close> seconds of the origin of the clock.
\<close>

definition in_year :: "instant \<Rightarrow> bool" where
  "in_year now \<longleftrightarrow> 0 \<le> now \<and> now \<le> int (from_secs (2 ^ 25))"

fun cc_event_ok :: "cc_event \<Rightarrow> bool" where
  "cc_event_ok (CcAck rtt sample bytes in_flight now) =
     (rtt < duration_limit \<and> bytes \<le> usize_max \<and> in_flight \<le> usize_max \<and> in_year now
      \<and> pred_option (\<lambda>d. ds_bytes_delivered d \<le> usize_max \<and> ds_duration d < duration_limit) sample)"
| "cc_event_ok (CcNack now) = in_year now"
| "cc_event_ok (CcTimeout now) = in_year now"
| "cc_event_ok (CcSent bytes now) = in_year now"

locale congestion_control =
  fixes ops :: "'c cc_ops" and invar :: "'c \<Rightarrow> bool"
  assumes invar_apply: "invar c \<Longrightarrow> cc_event_ok ev \<Longrightarrow> invar (cc_apply ops ev c)"
    and cwnd_pos: "invar c \<Longrightarrow> 1 \<le> cc_cwnd ops c"
    and rate_pos: "invar c \<Longrightarrow> \<exists>r. cc_pacing_rate ops c = Fin r \<and> 0 < r"
begin

lemma invar_run: "invar c \<Longrightarrow> list_all cc_event_ok evs \<Longrightarrow> invar (fold (cc_apply ops) evs c)"
  by (induction evs arbitrary: c) (auto intro: invar_apply)

lemma window_open:
  "invar c \<Longrightarrow> list_all cc_event_ok evs \<Longrightarrow>
     1 \<le> cc_cwnd ops (fold (cc_apply ops) evs c) \<and>
     (\<exists>r. cc_pacing_rate ops (fold (cc_apply ops) evs c) = Fin r \<and> 0 < r)"
  using invar_run cwnd_pos rate_pos by blast

end

section \<open>AIMD meets the contract\<close>

definition aimd_ok :: "aimd \<Rightarrow> bool" where
  "aimd_ok a \<longleftrightarrow> (\<exists>x y. aimd_cwnd a = Fin x \<and> 1 \<le> x \<and> x \<le> 2 ^ 100 \<and>
     aimd_ssthresh a = Fin y \<and> 2 \<le> y \<and> y \<le> 2 ^ 100)"

lemma round32_between:
  assumes "lo \<le> x" and "representable lo" and "x \<le> hi" and "representable hi" and "hi < 2 ^ 128"
  obtains y where "round32 x = Fin y" "lo \<le> y" "y \<le> hi"
proof -
  have "0 < lo" using assms(2) by (auto simp: representable_def)
  then have "0 < x" using assms(1) by linarith
  with assms show ?thesis
    using round_pos_le [of x hi] round_pos_ge [of lo x]
    by (intro that [of "round_pos x"]) (auto simp: round32_def)
qed

lemma f32_of_nat_usize:
  assumes "n \<le> usize_max"
  obtains y where "f32_of_nat n = Fin y" "0 \<le> y" "y \<le> 2 ^ 64"
proof (rule round32_bounded [OF _ _ representable_pow2 [of 64]])
  have "n \<le> 2 ^ 64" using assms by (simp add: usize_max_def)
  then show "(of_nat n :: rat) \<le> 2 ^ 64" by (metis of_nat_le_iff of_nat_numeral of_nat_power)
qed (use that in \<open>auto simp: f32_of_nat_def\<close>)

lemma payload_f32: "f32_of_nat ESTIMATED_PAYLOAD_SIZE = Fin 1300"
  using round32_representable [of 1300] representable_nat [of 1300]
  by (simp add: f32_of_nat_def ESTIMATED_PAYLOAD_SIZE_def)

lemma f32_div_small:
  assumes "0 \<le> a" and "a \<le> 2 ^ 64" and "1 \<le> b"
  obtains y where "f32_div (Fin a) (Fin b) = Fin y" "0 \<le> y" "y \<le> 2 ^ 64"
proof (rule round32_bounded [OF _ _ representable_pow2 [of 64]])
  have "a * 1 \<le> a * b" using assms by (intro mult_left_mono) auto
  then have "a / b \<le> a" using assms by (simp add: divide_le_eq)
  then show "a / b \<le> 2 ^ 64" using assms by linarith
qed (use that assms in auto)

text \<open>The window saturates far below overflow: an increment cannot leave the top binade.\<close>

lemma cwnd_add:
  assumes "1 \<le> x" and "x \<le> 2 ^ 100" and "0 \<le> a" and "a \<le> 2 ^ 64"
  obtains y where "f32_add (Fin x) (Fin a) = Fin y" "1 \<le> y" "y \<le> 2 ^ 100"
proof -
  have "a < 2 ^ (100 - 24)" using assms(4) by simp
  then obtain y where y: "round32 (x + a) = Fin y" "y \<le> 2 ^ 100"
    using round32_saturates [of 100 x a] assms by auto
  moreover have "1 \<le> round_pos (x + a)" using assms representable_nat [of 1] by (intro round_pos_ge) auto
  ultimately show ?thesis using assms that [of y] by (auto simp: round32_def split: if_splits)
qed

lemma cwnd_halve:
  assumes "1 \<le> x" and "x \<le> 2 ^ 100"
  obtains y where "f32_max (f32_div (Fin x) (Fin 2)) MIN_SSTHRESH = Fin y" "2 \<le> y" "y \<le> 2 ^ 100"
proof -
  have "x / 2 \<le> 2 ^ 100" using assms by simp
  then obtain h where h: "f32_div (Fin x) (Fin 2) = Fin h" "0 \<le> h" "h \<le> 2 ^ 100"
    by (rule round32_bounded [OF _ _ representable_pow2 [of 100], rotated]) (use assms in auto)
  show ?thesis
    by (rule that [of "if h < 2 then 2 else h"])
      (use h in \<open>auto simp: f32_max_def MIN_SSTHRESH_def\<close>)
qed

lemma aimd_on_ack_ok:
  assumes "aimd_ok a" and "bytes \<le> usize_max"
  shows "aimd_ok (aimd_on_ack a rtt sample bytes fl now)"
proof -
  obtain x y where a: "aimd_cwnd a = Fin x" "1 \<le> x" "x \<le> 2 ^ 100"
    "aimd_ssthresh a = Fin y" "2 \<le> y" "y \<le> 2 ^ 100"
    using assms(1) by (auto simp: aimd_ok_def)
  obtain b where b: "f32_of_nat bytes = Fin b" "0 \<le> b" "b \<le> 2 ^ 64"
    using f32_of_nat_usize [OF assms(2)] .
  obtain f where f: "f32_div (f32_of_nat bytes) (f32_of_nat ESTIMATED_PAYLOAD_SIZE) = Fin f"
    "0 \<le> f" "f \<le> 2 ^ 64"
    using f32_div_small [OF b(2,3), of 1300] b(1) payload_f32 by auto
  obtain g where g: "f32_div (Fin f) (Fin x) = Fin g" "0 \<le> g" "g \<le> 2 ^ 64"
    using f32_div_small [OF f(2,3) a(2)] .
  show ?thesis
  proof (cases "x < y")
    case True
    then show ?thesis using cwnd_add [OF a(2,3) f(2,3)] a f(1)
      by (auto simp: aimd_on_ack_def aimd_ok_def Let_def)
  next
    case False
    then show ?thesis using cwnd_add [OF a(2,3) g(2,3)] a f(1) g(1)
      by (auto simp: aimd_on_ack_def aimd_ok_def Let_def)
  qed
qed

lemma aimd_nack_timeout_ok:
  assumes "aimd_ok a"
  shows "aimd_ok (aimd_on_nack a now)" "aimd_ok (aimd_on_timeout a now)"
proof -
  obtain x y where a: "aimd_cwnd a = Fin x" "1 \<le> x" "x \<le> 2 ^ 100"
    using assms(1) by (auto simp: aimd_ok_def)
  obtain h where h: "f32_max (f32_div (Fin x) (Fin 2)) MIN_SSTHRESH = Fin h" "2 \<le> h" "h \<le> 2 ^ 100"
    using cwnd_halve [OF a(2,3)] .
  show "aimd_ok (aimd_on_nack a now)" "aimd_ok (aimd_on_timeout a now)"
    using a h by (simp_all add: aimd_on_nack_def aimd_on_timeout_def aimd_ok_def Let_def del: f32_div.simps)
qed

lemma aimd_new_ok: "aimd_ok aimd_new"
  by (simp add: aimd_ok_def aimd_new_def aimd_with_cwnd_def INITIAL_CWND_def INITIAL_SSTHRESH_def)

text \<open>Values that are neither negative nor NaN.\<close>

fun f32_nonneg :: "f32 \<Rightarrow> bool" where
  "f32_nonneg (Fin a) = (0 \<le> a)"
| "f32_nonneg PInf = True"
| "f32_nonneg _ = False"

lemma round32_nonneg [simp]: "0 \<le> x \<Longrightarrow> f32_nonneg (round32 x)"
  using round_pos_nonneg [of x] by (auto simp: round32_def)

lemma f32_of_nat_nonneg [simp]: "f32_nonneg (f32_of_nat n)"
  by (simp add: f32_of_nat_def)

lemma f32_add_nonneg [simp]: "f32_nonneg a \<Longrightarrow> f32_nonneg b \<Longrightarrow> f32_nonneg (f32_add a b)"
  by (cases a; cases b) simp_all

lemma f32_div_nonneg [simp]: "f32_nonneg a \<Longrightarrow> 0 < r \<Longrightarrow> f32_nonneg (f32_div a (Fin r))"
  by (cases a) (simp_all add: signed_inf_def)

lemma as_secs_f32_nonneg [simp]: "f32_nonneg (as_secs_f32 d)"
  by (simp add: as_secs_f32_def)

lemma f32_clamp_range:
  assumes "f32_nonneg x" and "lo \<le> hi"
  obtains y where "f32_clamp x (Fin lo) (Fin hi) = Fin y" "lo \<le> y" "y \<le> hi"
proof -
  have "\<exists>y. f32_clamp x (Fin lo) (Fin hi) = Fin y \<and> lo \<le> y \<and> y \<le> hi"
    using assms by (cases x) (auto simp: f32_clamp_def)
  then show ?thesis using that by blast
qed

text \<open>The pacing rate is at least twice a payload per second and never overflows.\<close>

lemma window_rate_pos:
  assumes "1 \<le> x" "x \<le> 2 ^ 100"
  obtains r where
    "f32_div (f32_mul (f32_mul (Fin x) (f32_of_nat ESTIMATED_PAYLOAD_SIZE)) PACING_GAIN)
       (f32_clamp (as_secs_f32 rtt) (round32 (1/100)) (Fin 1)) = Fin r" "2600 \<le> r"
proof -
  have rep: "representable 1300" "representable 2600"
    using representable_nat [of 1300] representable_nat [of 2600] by simp_all
  obtain p where p: "f32_mul (Fin x) (Fin 1300) = Fin p" "1300 \<le> p" "p \<le> 2 ^ 111"
    by (rule round32_between [OF _ rep(1) _ representable_pow2 [of 111], of "x * 1300"]) (use assms in auto)
  obtain q where q: "f32_mul (Fin p) PACING_GAIN = Fin q" "2600 \<le> q" "q \<le> 2 ^ 112"
    by (rule round32_between [OF _ rep(2) _ representable_pow2 [of 112], of "p * 2"])
      (use p in \<open>auto simp: PACING_GAIN_def\<close>)
  have rep7: "representable (1/128)" using representable_scaled [of 1 "- 7"] by (simp add: power_int_def power_divide)
  obtain c where c: "round32 (1/100) = Fin c" "1/128 \<le> c" "c \<le> 1"
    by (rule round32_between [OF _ rep7 _ representable_nat [of 1], of "1/100"]) auto
  obtain t where t: "f32_clamp (as_secs_f32 rtt) (round32 (1/100)) (Fin 1) = Fin t"
    "1/128 \<le> t" "t \<le> 1"
    using f32_clamp_range [OF as_secs_f32_nonneg c(3), of rtt] c by (metis order_trans)
  have "q * 1 \<le> q / t" "q / t \<le> q * 128" using q t by (auto simp: le_divide_eq divide_le_eq mult_left_le)
  then obtain r where r: "f32_div (Fin q) (Fin t) = Fin r" "2600 \<le> r"
    using round32_between [OF _ rep(2) _ representable_pow2 [of 119], of "q / t"] q t by auto
  show ?thesis
    by (rule that [OF _ r(2)]) (simp add: payload_f32 p q t r del: f32_mul.simps f32_div.simps)
qed

lemma aimd_pacing_rate_pos:
  assumes "aimd_ok a"
  obtains r where "aimd_pacing_rate a = Fin r" "2600 \<le> r"
proof -
  obtain x where x: "aimd_cwnd a = Fin x" "1 \<le> x" "x \<le> 2 ^ 100"
    using assms by (auto simp: aimd_ok_def)
  from window_rate_pos [OF x(2,3), of "aimd_last_rtt a"] show ?thesis
    using that by (auto simp: aimd_pacing_rate_def Let_def x(1) simp del: f32_mul.simps f32_div.simps)
qed

lemma aimd_cwnd_pos:
  assumes "aimd_ok a"
  shows "1 \<le> f32_to_usize (aimd_cwnd a)"
proof -
  obtain x where "aimd_cwnd a = Fin x" "1 \<le> x" using assms by (auto simp: aimd_ok_def)
  moreover from this have "1 \<le> nat \<lfloor>x\<rfloor>" by (simp add: nat_le_iff le_nat_iff le_floor_iff)
  ultimately show ?thesis by (simp add: usize_max_def)
qed

interpretation aimd: congestion_control aimd_ops aimd_ok
proof
  show "aimd_ok (cc_apply aimd_ops ev a)" if "aimd_ok a" "cc_event_ok ev" for a ev
    using that aimd_on_ack_ok aimd_nack_timeout_ok by (cases ev) (simp_all add: aimd_ops_def)
  show "1 \<le> cc_cwnd aimd_ops a" if "aimd_ok a" for a
    using aimd_cwnd_pos [OF that] by (simp add: aimd_ops_def)
  show "\<exists>r. cc_pacing_rate aimd_ops a = Fin r \<and> 0 < r" if "aimd_ok a" for a
    using aimd_pacing_rate_pos [OF that] by (force simp: aimd_ops_def)
qed

section \<open>The pacing gap\<close>

text \<open>
  The computation \<^verbatim>\<open>flush_packets\<close> and \<^verbatim>\<open>try_send_fragment\<close> share: the time until the next packet,
  at most a second, whatever the controller answers.
\<close>

definition pacing_gap :: "nat \<Rightarrow> f32 \<Rightarrow> duration panics" where
  "pacing_gap len rate =
     from_secs_f32
       (if f32_less (Fin 0) rate \<and> f32_is_finite rate
        then f32_min (f32_div (f32_of_nat len) rate) (Fin 1) else Fin 0)"

lemma pacing_gap_ok: "\<exists>d. pacing_gap len rate = Some d \<and> d \<le> from_secs 1"
proof -
  have "\<exists>y. (if f32_less (Fin 0) rate \<and> f32_is_finite rate
        then f32_min (f32_div (f32_of_nat len) rate) (Fin 1) else Fin 0) = Fin y \<and> 0 \<le> y \<and> y \<le> 1"
  proof (cases "f32_less (Fin 0) rate \<and> f32_is_finite rate")
    case True
    then obtain r where r: "rate = Fin r" "0 < r" by (cases rate) auto
    then have "f32_nonneg (f32_div (f32_of_nat len) rate)" by simp
    then show ?thesis using True
      by (cases "f32_div (f32_of_nat len) rate") (auto simp: f32_min_def)
  qed auto
  then obtain y where y: "pacing_gap len rate = from_secs_f32 (Fin y)" "0 \<le> y" "y \<le> 1"
    unfolding pacing_gap_def by (elim exE conjE) simp
  have "rne (y * 1000000000) \<le> 1000000000" using y by (intro rne_le_iff_int) simp
  with y show ?thesis by (simp add: from_secs_def)
qed

end
