(* ===== verification/Max_Filter.thy ===== *)
theory Max_Filter
  imports Congestion
begin

text \<open>
  The windowed maximum both BBR controllers keep of their bandwidth samples (\<^verbatim>\<open>MaxFilter\<close> in
  \<^verbatim>\<open>congestion/bbrv1.rs\<close> and \<^verbatim>\<open>congestion/bbrv2.rs\<close>): a queue from which samples that are too old leave at the
  front and samples that a newer one covers leave at the back. It is shown to answer with the maximum of
  the samples of the window.
\<close>

section \<open>The filter\<close>

definition f32_le :: "f32 \<Rightarrow> f32 \<Rightarrow> bool" where
  "f32_le a b \<longleftrightarrow> f32_less a b \<or> (a = b \<and> a \<noteq> NaN)"

lemma f32_le_Fin [simp]: "f32_le (Fin a) (Fin b) \<longleftrightarrow> a \<le> b"
  by (auto simp: f32_le_def)

record max_filter =
  mf_samples :: "(instant \<times> f32) list"
  mf_window :: duration

definition mf_new :: "duration \<Rightarrow> max_filter" where
  "mf_new window = \<lparr>mf_samples = [], mf_window = window\<rparr>"

definition mf_expire_old :: "instant \<Rightarrow> max_filter \<Rightarrow> max_filter" where
  "mf_expire_old now mf = mf\<lparr>mf_samples := dropWhile (\<lambda>(t, _). mf_window mf < saturating_duration_since now t) (mf_samples mf)\<rparr>"

definition pop_covered :: "f32 \<Rightarrow> (instant \<times> f32) list \<Rightarrow> (instant \<times> f32) list" where
  "pop_covered sample xs = rev (dropWhile (\<lambda>(_, s). f32_le s sample) (rev xs))"

definition mf_add :: "instant \<Rightarrow> f32 \<Rightarrow> max_filter \<Rightarrow> max_filter" where
  "mf_add now sample mf =
     (let mf1 = mf_expire_old now mf
      in mf1\<lparr>mf_samples := pop_covered sample (mf_samples mf1) @ [(now, sample)]\<rparr>)"

definition mf_get :: "max_filter \<Rightarrow> f32" where
  "mf_get mf = (case mf_samples mf of [] \<Rightarrow> Fin 0 | (_, s) # _ \<Rightarrow> s)"

section \<open>The filter answers with the maximum of the window\<close>

text \<open>A history of finite samples, oldest first, and the samples in it that no later one covers.\<close>

fun peaks :: "(instant \<times> rat) list \<Rightarrow> (instant \<times> rat) list" where
  "peaks [] = []"
| "peaks (x # xs) = (if \<exists>y \<in> set xs. snd x \<le> snd y then peaks xs else x # peaks xs)"

definition recent_sample :: "duration \<Rightarrow> instant \<Rightarrow> (instant \<times> rat) \<Rightarrow> bool" where
  "recent_sample w now x \<longleftrightarrow> saturating_duration_since now (fst x) \<le> w"

definition mf_run :: "duration \<Rightarrow> (instant \<times> rat) list \<Rightarrow> max_filter" where
  "mf_run w hist = foldl (\<lambda>mf (t, r). mf_add t (Fin r) mf) (mf_new w) hist"

abbreviation as_samples :: "(instant \<times> rat) list \<Rightarrow> (instant \<times> f32) list" where
  "as_samples xs \<equiv> map (\<lambda>(t, r). (t, Fin r)) xs"

lemma peaks_subset: "set (peaks xs) \<subseteq> set xs"
  by (induction xs) auto

lemma peaks_snoc: "peaks (xs @ [x]) = filter (\<lambda>y. snd x < snd y) (peaks xs) @ [x]"
proof (induction xs)
  case (Cons a xs)
  show ?case using Cons.IH by (cases "\<exists>y \<in> set xs. snd a \<le> snd y"; cases "snd a \<le> snd x") auto
qed simp

lemma peaks_decreasing: "sorted_wrt (\<lambda>x y. snd y < snd x) (peaks xs)"
  by (induction xs) (auto simp: not_le dest: subsetD [OF peaks_subset])

lemma peaks_sorted: "sorted (map fst xs) \<Longrightarrow> sorted (map fst (peaks xs))"
  by (induction xs) (auto dest: subsetD [OF peaks_subset])

lemma dropWhile_filter:
  assumes "sorted_wrt (\<lambda>x y. P y \<longrightarrow> P x) xs"
  shows "dropWhile P xs = filter (\<lambda>x. \<not> P x) xs"
  using assms by (induction xs) (auto simp: filter_id_conv)

lemma expired_samples:
  assumes "sorted (map fst xs)"
  shows "dropWhile (\<lambda>(t, _). w < saturating_duration_since now t) (as_samples xs) = as_samples (filter (recent_sample w now) xs)"
proof -
  have "sorted_wrt (\<lambda>x y. fst x \<le> fst y) xs" using assms by (simp add: sorted_wrt_map)
  then have "sorted_wrt (\<lambda>x y. w < saturating_duration_since now (fst y) \<longrightarrow> w < saturating_duration_since now (fst x)) xs"
    by (rule sorted_wrt_mono_rel [rotated]) (auto simp: saturating_duration_since_def)
  from dropWhile_filter [OF this] show ?thesis
    by (simp add: dropWhile_map o_def case_prod_unfold recent_sample_def [abs_def] not_less)
qed

lemma covered_samples:
  assumes "sorted_wrt (\<lambda>x y. snd y < snd x) xs"
  shows "pop_covered (Fin r) (as_samples xs) = as_samples (filter (\<lambda>y. r < snd y) xs)"
proof -
  have "sorted_wrt (\<lambda>x y. snd y \<le> r \<longrightarrow> snd x \<le> r) (rev xs)"
    unfolding sorted_wrt_rev by (rule sorted_wrt_mono_rel [OF _ assms]) auto
  from dropWhile_filter [OF this] show ?thesis
    by (auto simp: pop_covered_def rev_map dropWhile_map o_def case_prod_unfold rev_filter not_le)
qed

lemma filter_window_older:
  "t \<le> now \<Longrightarrow> filter (\<lambda>x. recent_sample w t x \<and> recent_sample w now x) xs = filter (recent_sample w now) xs"
  by (rule filter_cong) (auto simp: recent_sample_def saturating_duration_since_def)

lemma mf_run_snoc: "mf_run w (hist @ [x]) = mf_add (fst x) (Fin (snd x)) (mf_run w hist)"
  by (simp add: mf_run_def case_prod_unfold)

text \<open>The queue holds the uncovered samples of the window.\<close>

lemma mf_run_samples:
  assumes "sorted (map fst hist)" "hist \<noteq> []"
  shows "mf_window (mf_run w hist) = w
    \<and> mf_samples (mf_run w hist) = as_samples (filter (recent_sample w (fst (last hist))) (peaks hist))"
  using assms
proof (induction hist rule: rev_induct)
  case (snoc x xs)
  let ?now = "fst x"
  have s: "sorted (map fst xs)" "\<forall>y \<in> set xs. fst y \<le> ?now" using snoc.prems by (auto simp: sorted_append)
  have old: "mf_window (mf_run w xs) = w
    \<and> dropWhile (\<lambda>(t, _). w < saturating_duration_since ?now t) (mf_samples (mf_run w xs)) = as_samples (filter (recent_sample w ?now) (peaks xs))"
  proof (cases "xs = []")
    case False
    let ?q = "filter (recent_sample w (fst (last xs))) (peaks xs)"
    have "sorted (map fst ?q)" using peaks_sorted [OF s(1)] by (simp add: sorted_filter)
    then show ?thesis
      using snoc.IH [OF s(1) False] expired_samples [of ?q w ?now] s(2) False by (simp add: filter_window_older)
  qed (simp add: mf_run_def mf_new_def)
  have "sorted_wrt (\<lambda>x y. snd y < snd x) (filter (recent_sample w ?now) (peaks xs))"
    by (rule sorted_wrt_filter [OF peaks_decreasing])
  from covered_samples [OF this, of "snd x"] old show ?case
    by (simp add: mf_run_snoc mf_add_def mf_expire_old_def Let_def peaks_snoc case_prod_unfold recent_sample_def saturating_duration_since_def conj_commute)
qed simp

lemma peak_above: "x \<in> set xs \<Longrightarrow> sorted (map fst xs) \<Longrightarrow> \<exists>y \<in> set (peaks xs). snd x \<le> snd y \<and> fst x \<le> fst y"
proof (induction xs arbitrary: x)
  case (Cons a xs)
  show ?case
  proof (cases "x \<in> set xs")
    case True
    have "\<exists>y \<in> set (peaks xs). snd x \<le> snd y \<and> fst x \<le> fst y"
      by (rule Cons.IH [OF True]) (use Cons.prems(2) in simp)
    then show ?thesis by auto
  next
    case False
    then have [simp]: "x = a" using Cons.prems by simp
    show ?thesis
    proof (cases "\<exists>y \<in> set xs. snd a \<le> snd y")
      case True
      then obtain y where y: "y \<in> set xs" "snd a \<le> snd y" by blast
      have "\<exists>z \<in> set (peaks xs). snd y \<le> snd z \<and> fst y \<le> fst z"
        by (rule Cons.IH [OF y(1)]) (use Cons.prems(2) in simp)
      then obtain z where z: "z \<in> set (peaks xs)" "snd y \<le> snd z" "fst y \<le> fst z" by blast
      have "fst a \<le> fst y" using Cons.prems(2) y(1) by auto
      then show ?thesis using y(2) z True by (intro bexI [of _ z]) auto
    qed simp
  qed
qed simp

lemma mf_get_run:
  assumes "sorted (map fst hist)" "hist \<noteq> []"
  shows "mf_get (mf_run w hist) = Fin (Max (snd ` {x \<in> set hist. recent_sample w (fst (last hist)) x}))"
proof -
  let ?now = "fst (last hist)" and ?q = "filter (recent_sample w (fst (last hist))) (peaks hist)"
  let ?W = "{x \<in> set hist. recent_sample w ?now x}"
  have last_in: "last hist \<in> set (peaks hist)"
    by (subst append_butlast_last_id [OF assms(2), symmetric]) (simp only: peaks_snoc, simp)
  then have "last hist \<in> set ?q" by (simp add: recent_sample_def saturating_duration_since_def)
  then obtain x rest where q: "?q = x # rest" by (cases ?q) auto
  have dec: "\<forall>y \<in> set rest. snd y < snd x"
    using sorted_wrt_filter [OF peaks_decreasing, of "recent_sample w ?now" hist] by (simp add: q)
  have "x \<in> set ?q" by (simp add: q)
  then have x: "x \<in> ?W" using peaks_subset [of hist] by auto
  have "snd y \<le> snd x" if "y \<in> ?W" for y
  proof -
    have "y \<in> set hist" using that by simp
    from peak_above [OF this assms(1)]
    obtain z where z: "z \<in> set (peaks hist)" "snd y \<le> snd z" "fst y \<le> fst z" by blast
    then have "z \<in> set ?q" using that by (auto simp: recent_sample_def saturating_duration_since_def)
    then show ?thesis using z(2) dec unfolding q by auto
  qed
  then have "Max (snd ` ?W) = snd x" using x by (intro Max_eqI) auto
  then show ?thesis
    using mf_run_samples [OF assms, of w] by (simp add: mf_get_def q case_prod_unfold)
qed

text \<open>What the controllers use of it: every sample kept was added.\<close>

lemma mf_add_samples: "set (mf_samples (mf_add now s mf)) \<subseteq> insert (now, s) (set (mf_samples mf))"
  by (auto simp: mf_add_def Let_def mf_expire_old_def pop_covered_def dest!: set_dropWhileD)

lemma mf_get_cases: "mf_get mf = Fin 0 \<or> mf_get mf \<in> snd ` set (mf_samples mf)"
  by (auto simp: mf_get_def split: list.splits)

text \<open>A smaller sample does not displace the maximum while that is in the window.\<close>

lemma mf_add_keeps_best:
  assumes "mf_samples mf = (t, Fin r) # rest" "q < r" "saturating_duration_since now t \<le> mf_window mf"
  shows "mf_get (mf_add now (Fin q) mf) = Fin r"
proof -
  have "dropWhile P (xs @ [x]) = dropWhile P xs @ [x]" if "\<not> P x" for P and xs :: "(instant \<times> f32) list" and x
    using that by (induction xs) auto
  from this [of "\<lambda>(_, s). f32_le s (Fin q)" "(t, Fin r)" "rev rest"] assms show ?thesis
    by (simp add: mf_add_def mf_expire_old_def pop_covered_def mf_get_def Let_def not_less)
qed

end
