(* ===== verification/Bbrv1.thy ===== *)
theory Bbrv1
  imports Max_Filter
begin

text \<open>
  \<^verbatim>\<open>tox-sequenced/src/congestion/bbrv1.rs\<close>: the first BBR controller. The random generator is a state of its own type
  with the two draws the controllers make as parameters.
\<close>

section \<open>The generator\<close>

record 'g rng_ops =
  rg_usize :: "'g \<Rightarrow> nat \<times> 'g"
  rg_range :: "'g \<Rightarrow> nat \<Rightarrow> nat \<Rightarrow> nat \<times> 'g"

section \<open>State\<close>

definition RT_PROP_FILTER_LEN :: duration where "RT_PROP_FILTER_LEN = from_secs 10"
definition PROBE_RTT_INTERVAL :: duration where "PROBE_RTT_INTERVAL = from_secs 10"
definition STARTUP_PACING_GAIN :: f32 where "STARTUP_PACING_GAIN = round32 (2885/1000)"
definition DRAIN_PACING_GAIN :: f32 where "DRAIN_PACING_GAIN = f32_div (Fin 1) (round32 (2885/1000))"
definition PROBE_BW_CWND_GAIN :: f32 where "PROBE_BW_CWND_GAIN = Fin 2"
definition PROBE_RTT_CWND_GAIN :: f32 where "PROBE_RTT_CWND_GAIN = Fin 1"
definition PROBE_RTT_PACING_GAIN :: f32 where "PROBE_RTT_PACING_GAIN = Fin 1"
definition PROBE_RTT_DURATION :: duration where "PROBE_RTT_DURATION = from_millis 200"
definition IDLE_RESTART_THRESHOLD :: duration where "IDLE_RESTART_THRESHOLD = from_secs 1"
definition FULL_BW_THRESH_FACTOR :: f32 where "FULL_BW_THRESH_FACTOR = Fin (5/4)"
definition FULL_BW_COUNT_REQ :: nat where "FULL_BW_COUNT_REQ = 3"
definition STARTUP_MIN_PACING_RATE :: f32 where "STARTUP_MIN_PACING_RATE = Fin 200000"
definition MIN_PACING_RATE :: f32 where "MIN_PACING_RATE = Fin 10000"
definition MIN_CWND :: nat where "MIN_CWND = 4"
definition MIN_CWND_GAIN :: f32 where "MIN_CWND_GAIN = round32 (11/10)"
definition LOSS_REDUCTION_FACTOR :: f32 where "LOSS_REDUCTION_FACTOR = round32 (9/10)"
definition LOSS_EVENT_THRESHOLD :: nat where "LOSS_EVENT_THRESHOLD = 8"
definition INITIAL_RTT :: duration where "INITIAL_RTT = from_secs 10"
definition PACING_GAINS :: "f32 list" where
  "PACING_GAINS = [Fin (5/4), Fin (3/4), Fin 1, Fin 1, Fin 1, Fin 1, Fin 1, Fin 1]"

datatype bbrv1_state = Startup | Drain | ProbeBw | ProbeRtt

record 'g bbrv1 =
  b1_state :: bbrv1_state
  b1_max_bw :: max_filter
  b1_min_rtt :: duration
  b1_min_rtt_stamp :: "instant option"
  b1_pacing_gain :: f32
  b1_cwnd_gain :: f32
  b1_filled_pipe :: bool
  b1_full_bw :: f32
  b1_full_bw_count :: nat
  b1_cycle_index :: nat
  b1_cycle_stamp :: "instant option"
  b1_last_ack_time :: "instant option"
  b1_loss_count_in_round :: nat
  b1_in_flight_at_round_start :: nat
  b1_round_start :: "instant option"
  b1_app_limited :: bool
  b1_has_non_app_limited_sample_in_round :: bool
  b1_rng :: 'g

text \<open>\<^verbatim>\<open>stamp.is_some_and(..)\<close> and \<^verbatim>\<open>stamp.is_none_or(..)\<close> on the time since a stamp.\<close>

definition stamp_past :: "instant option \<Rightarrow> instant \<Rightarrow> duration \<Rightarrow> bool" where
  "stamp_past stamp now d = (case stamp of None \<Rightarrow> False | Some t \<Rightarrow> d < saturating_duration_since now t)"

definition stamp_expired :: "instant option \<Rightarrow> instant \<Rightarrow> duration \<Rightarrow> bool" where
  "stamp_expired stamp now d = (case stamp of None \<Rightarrow> True | Some t \<Rightarrow> d < saturating_duration_since now t)"

section \<open>Steps\<close>

definition b1_enter_startup :: "'g bbrv1 \<Rightarrow> 'g bbrv1" where
  "b1_enter_startup b =
     b\<lparr>b1_state := Startup, b1_pacing_gain := STARTUP_PACING_GAIN, b1_cwnd_gain := STARTUP_PACING_GAIN,
       b1_filled_pipe := False, b1_full_bw := Fin 0, b1_full_bw_count := 0\<rparr>"

definition b1_enter_drain :: "'g bbrv1 \<Rightarrow> 'g bbrv1" where
  "b1_enter_drain b =
     b\<lparr>b1_state := Drain, b1_pacing_gain := DRAIN_PACING_GAIN, b1_cwnd_gain := STARTUP_PACING_GAIN\<rparr>"

definition b1_enter_probe_bw :: "'g rng_ops \<Rightarrow> instant \<Rightarrow> 'g bbrv1 \<Rightarrow> 'g bbrv1" where
  "b1_enter_probe_bw rg now b =
     (let (n, g) = rg_usize rg (b1_rng b);
          i = n mod length PACING_GAINS
      in b\<lparr>b1_state := ProbeBw, b1_cycle_index := i, b1_pacing_gain := PACING_GAINS ! i, b1_cycle_stamp := Some now,
           b1_rng := g\<rparr>)"

definition b1_enter_probe_rtt :: "instant \<Rightarrow> 'g bbrv1 \<Rightarrow> 'g bbrv1" where
  "b1_enter_probe_rtt now b =
     b\<lparr>b1_state := ProbeRtt, b1_pacing_gain := PROBE_RTT_PACING_GAIN, b1_cwnd_gain := PROBE_RTT_CWND_GAIN,
       b1_cycle_stamp := Some now\<rparr>"

definition b1_new :: "'g \<Rightarrow> 'g bbrv1" where
  "b1_new g =
     b1_enter_startup
       \<lparr>b1_state = Startup, b1_max_bw = mf_new RT_PROP_FILTER_LEN, b1_min_rtt = INITIAL_RTT, b1_min_rtt_stamp = None,
        b1_pacing_gain = STARTUP_PACING_GAIN, b1_cwnd_gain = STARTUP_PACING_GAIN, b1_filled_pipe = False,
        b1_full_bw = Fin 0, b1_full_bw_count = 0, b1_cycle_index = 0, b1_cycle_stamp = None, b1_last_ack_time = None,
        b1_loss_count_in_round = 0, b1_in_flight_at_round_start = 0, b1_round_start = None, b1_app_limited = False,
        b1_has_non_app_limited_sample_in_round = False, b1_rng = g\<rparr>"

text \<open>The bandwidth of a sample, with a floor of one millisecond for its duration.\<close>

definition sample_bw :: "cc_sample \<Rightarrow> f32" where
  "sample_bw s = f32_div (f32_of_nat (ds_bytes_delivered s)) (as_secs_f32 (max (ds_duration s) (from_millis 1)))"

definition takes_sample :: "f32 \<Rightarrow> cc_sample \<Rightarrow> bool" where
  "takes_sample best s =
     (let bw = sample_bw s
      in f32_is_finite bw \<and> f32_less (Fin 0) bw \<and> (\<not> ds_app_limited s \<or> f32_less best bw))"

definition b1_update_bandwidth :: "instant \<Rightarrow> cc_sample \<Rightarrow> 'g bbrv1 \<Rightarrow> 'g bbrv1" where
  "b1_update_bandwidth now s b =
     (if takes_sample (mf_get (b1_max_bw b)) s then b\<lparr>b1_max_bw := mf_add now (sample_bw s) (b1_max_bw b)\<rparr> else b)"

definition b1_update_min_rtt :: "instant \<Rightarrow> duration \<Rightarrow> 'g bbrv1 \<Rightarrow> 'g bbrv1" where
  "b1_update_min_rtt now rtt b =
     (let expired = stamp_past (b1_min_rtt_stamp b) now PROBE_RTT_INTERVAL;
          b1 = (if rtt < b1_min_rtt b \<or> b1_min_rtt_stamp b = None \<or> expired
                then b\<lparr>b1_min_rtt := rtt, b1_min_rtt_stamp := Some now\<rparr> else b)
      in if expired \<and> b1_state b1 \<noteq> ProbeRtt then b1_enter_probe_rtt now b1 else b1)"

definition b1_check_filled_pipe :: "bool \<Rightarrow> 'g bbrv1 \<Rightarrow> 'g bbrv1" where
  "b1_check_filled_pipe round_expired b =
     (if b1_filled_pipe b \<or> \<not> round_expired \<or> b1_app_limited b then b
      else
        (let bw = mf_get (b1_max_bw b)
         in if bw = Fin 0 then b
            else if f32_less (f32_mul (b1_full_bw b) FULL_BW_THRESH_FACTOR) bw
            then b\<lparr>b1_full_bw := bw, b1_full_bw_count := 0\<rparr>
            else
              (let b1 = b\<lparr>b1_full_bw_count := b1_full_bw_count b + 1\<rparr>
               in if b1_full_bw_count b1 \<ge> FULL_BW_COUNT_REQ then b1\<lparr>b1_filled_pipe := True\<rparr> else b1)))"

definition b1_bdp :: "'g bbrv1 \<Rightarrow> f32" where
  "b1_bdp b = f32_mul (mf_get (b1_max_bw b)) (as_secs_f32 (b1_min_rtt b))"

definition b1_start_round :: "nat \<Rightarrow> instant \<Rightarrow> 'g bbrv1 \<Rightarrow> 'g bbrv1" where
  "b1_start_round in_flight now b =
     (let b1 = (if b1_state b = Startup \<and> b1_has_non_app_limited_sample_in_round b then b1_check_filled_pipe True b else b);
          b2 = b1\<lparr>b1_round_start := Some now, b1_loss_count_in_round := 0, b1_in_flight_at_round_start := in_flight,
                  b1_app_limited := False, b1_has_non_app_limited_sample_in_round := False\<rparr>
      in b2\<lparr>b1_cwnd_gain := (case b1_state b2 of
              Startup \<Rightarrow> STARTUP_PACING_GAIN | Drain \<Rightarrow> STARTUP_PACING_GAIN
            | ProbeBw \<Rightarrow> PROBE_BW_CWND_GAIN | ProbeRtt \<Rightarrow> PROBE_RTT_CWND_GAIN)\<rparr>)"

definition b1_take_sample :: "instant \<Rightarrow> cc_sample option \<Rightarrow> 'g bbrv1 \<Rightarrow> 'g bbrv1" where
  "b1_take_sample now sample b =
     (case sample of
        None \<Rightarrow> b
      | Some s \<Rightarrow>
          (let b1 = b1_update_bandwidth now s b
           in if ds_app_limited s then b1\<lparr>b1_app_limited := True\<rparr>
              else b1\<lparr>b1_has_non_app_limited_sample_in_round := True\<rparr>))"

definition b1_step_state :: "'g rng_ops \<Rightarrow> nat \<Rightarrow> instant \<Rightarrow> 'g bbrv1 \<Rightarrow> 'g bbrv1" where
  "b1_step_state rg in_flight now b =
     (case b1_state b of
        Startup \<Rightarrow> if b1_filled_pipe b then b1_enter_drain b else b
      | Drain \<Rightarrow> if f32_le (f32_of_nat in_flight) (b1_bdp b) then b1_enter_probe_bw rg now b else b
      | ProbeBw \<Rightarrow>
          if stamp_expired (b1_cycle_stamp b) now (b1_min_rtt b) then
            (let i = (b1_cycle_index b + 1) mod length PACING_GAINS
             in b\<lparr>b1_cycle_index := i, b1_pacing_gain := PACING_GAINS ! i, b1_cycle_stamp := Some now\<rparr>)
          else b
      | ProbeRtt \<Rightarrow>
          if stamp_expired (b1_cycle_stamp b) now PROBE_RTT_DURATION then b1_enter_probe_bw rg now b else b)"

section \<open>The trait\<close>

definition b1_on_ack ::
    "'g rng_ops \<Rightarrow> 'g bbrv1 \<Rightarrow> duration \<Rightarrow> cc_sample option \<Rightarrow> nat \<Rightarrow> nat \<Rightarrow> instant \<Rightarrow> 'g bbrv1" where
  "b1_on_ack rg b rtt sample bytes_acked in_flight now =
     (let b1 = (if stamp_expired (b1_round_start b) now (b1_min_rtt b) then b1_start_round in_flight now b else b);
          b2 = (if stamp_past (b1_last_ack_time b1) now IDLE_RESTART_THRESHOLD then b1_enter_startup b1 else b1);
          b3 = b1_update_min_rtt now rtt (b2\<lparr>b1_last_ack_time := Some now\<rparr>)
      in b1_step_state rg in_flight now (b1_take_sample now sample b3))"

definition b1_reduce_gain :: "'g bbrv1 \<Rightarrow> 'g bbrv1" where
  "b1_reduce_gain b = b\<lparr>b1_cwnd_gain := f32_max (f32_mul (b1_cwnd_gain b) LOSS_REDUCTION_FACTOR) MIN_CWND_GAIN\<rparr>"

definition b1_on_nack :: "'g bbrv1 \<Rightarrow> instant \<Rightarrow> 'g bbrv1" where
  "b1_on_nack b now =
     (let b1 = b\<lparr>b1_loss_count_in_round := b1_loss_count_in_round b + 1\<rparr>
      in if b1_loss_count_in_round b1 > LOSS_EVENT_THRESHOLD then b1_reduce_gain b1 else b1)"

definition b1_on_timeout :: "'g bbrv1 \<Rightarrow> instant \<Rightarrow> 'g bbrv1" where
  "b1_on_timeout b now =
     (let b1 = b\<lparr>b1_loss_count_in_round := b1_loss_count_in_round b + 1\<rparr>
      in if b1_loss_count_in_round b1 > LOSS_EVENT_THRESHOLD
         then (let b2 = b1_enter_startup (b1_reduce_gain b1)
               in b2\<lparr>b1_max_bw := mf_add now (Fin 10000) (b1_max_bw b2)\<rparr>)
         else b1)"

definition b1_cwnd :: "'g bbrv1 \<Rightarrow> nat" where
  "b1_cwnd b =
     (if b1_state b = ProbeRtt then MIN_CWND
      else max (f32_to_usize (f32_div (f32_mul (b1_bdp b) (b1_cwnd_gain b)) (f32_of_nat ESTIMATED_PAYLOAD_SIZE))) MIN_CWND)"

definition b1_pacing_rate :: "'g bbrv1 \<Rightarrow> f32" where
  "b1_pacing_rate b =
     (if b1_state b = ProbeRtt then f32_max (f32_mul (mf_get (b1_max_bw b)) (Fin (1/2))) MIN_PACING_RATE
      else
        (let rate = f32_mul (mf_get (b1_max_bw b)) (b1_pacing_gain b)
         in if b1_state b = Startup then f32_max rate STARTUP_MIN_PACING_RATE else f32_max rate MIN_PACING_RATE))"

definition b1_ops :: "'g rng_ops \<Rightarrow> 'g bbrv1 cc_ops" where
  "b1_ops rg =
     \<lparr>cc_on_ack = b1_on_ack rg, cc_on_nack = b1_on_nack, cc_on_timeout = b1_on_timeout, cc_cwnd = b1_cwnd,
      cc_pacing_rate = b1_pacing_rate, cc_min_rtt = b1_min_rtt, cc_on_fragment_sent = (\<lambda>b bytes now. b)\<rparr>"

section \<open>The contract\<close>

text \<open>The samples the filter holds are positive and bounded.\<close>

definition bw_ok :: "max_filter \<Rightarrow> bool" where
  "bw_ok mf \<longleftrightarrow> (\<forall>(t, s) \<in> set (mf_samples mf). \<exists>r. s = Fin r \<and> 0 < r \<and> r \<le> 2 ^ 80)"

definition gain_ok :: "f32 \<Rightarrow> bool" where
  "gain_ok g \<longleftrightarrow> (\<exists>r. g = Fin r \<and> 0 \<le> r \<and> r \<le> 4)"

definition b1_ok :: "'g bbrv1 \<Rightarrow> bool" where
  "b1_ok b \<longleftrightarrow> bw_ok (b1_max_bw b) \<and> gain_ok (b1_pacing_gain b)"

lemma bw_ok_new [simp]: "bw_ok (mf_new w)"
  by (simp add: bw_ok_def mf_new_def)

lemma bw_ok_add: "bw_ok mf \<Longrightarrow> 0 < r \<Longrightarrow> r \<le> 2 ^ 80 \<Longrightarrow> bw_ok (mf_add now (Fin r) mf)"
  using mf_add_samples [of now "Fin r" mf] unfolding bw_ok_def by fast

lemma bw_ok_get: "bw_ok mf \<Longrightarrow> \<exists>r. mf_get mf = Fin r \<and> 0 \<le> r \<and> r \<le> 2 ^ 80"
  using mf_get_cases [of mf] unfolding bw_ok_def by fastforce

lemma gain_ok_simps [simp]:
  "gain_ok (Fin r) \<longleftrightarrow> 0 \<le> r \<and> r \<le> 4"
  by (simp add: gain_ok_def)

lemma gain_ok_constants: "gain_ok STARTUP_PACING_GAIN" "gain_ok DRAIN_PACING_GAIN" "gain_ok PROBE_RTT_PACING_GAIN"
proof -
  obtain g where g: "round32 (2885/1000) = Fin g" "1 \<le> g" "g \<le> 4"
    by (rule round32_between [OF _ representable_nat [of 1] _ representable_nat [of 4], of "2885/1000"]) auto
  then show "gain_ok STARTUP_PACING_GAIN" by (simp add: STARTUP_PACING_GAIN_def)
  obtain d where "round32 (1 / g) = Fin d" "0 \<le> d" "d \<le> 1"
    by (rule round32_bounded [OF _ _ representable_nat [of 1], of "1 / g"]) (use g in auto)
  with g show "gain_ok DRAIN_PACING_GAIN" by (simp add: DRAIN_PACING_GAIN_def)
qed (simp add: PROBE_RTT_PACING_GAIN_def)

lemma gain_ok_cycle: "gain_ok (PACING_GAINS ! (n mod length PACING_GAINS))"
proof -
  have "n mod length PACING_GAINS < length PACING_GAINS" by (simp add: PACING_GAINS_def)
  then have "PACING_GAINS ! (n mod length PACING_GAINS) \<in> set PACING_GAINS" by (rule nth_mem)
  moreover have "\<forall>g \<in> set PACING_GAINS. gain_ok g" by (simp add: PACING_GAINS_def)
  ultimately show ?thesis by blast
qed

text \<open>A duration in seconds is finite; a sample over at least a millisecond is below \<open>2 ^ 80\<close> bytes per second.\<close>

lemma as_secs_finite:
  assumes "d < duration_limit"
  obtains t where "as_secs_f32 d = Fin t" "0 \<le> t" "t \<le> 2 ^ 65" "from_millis 1 \<le> d \<Longrightarrow> 1/1024 \<le> t"
proof -
  let ?s = "d div nanos_per_sec" and ?n = "d mod nanos_per_sec"
  have "?s \<le> usize_max"
    using assms less_mult_imp_div_less [of d "2 ^ 64" nanos_per_sec] by (simp add: duration_limit_def usize_max_def)
  then obtain a where a: "f32_of_nat ?s = Fin a" "0 \<le> a" "a \<le> 2 ^ 64" by (rule f32_of_nat_usize)
  have rep: "representable 1000000000" "representable (1000000 :: rat)" "representable (1/1024)" "representable 1"
    using representable_scaled [of 1953125 9] representable_scaled [of 1000000 0] representable_scaled [of 1 "- 10"]
      representable_nat [of 1]
    by (simp_all add: power_int_def power_divide)
  have "?n \<le> 1000000000" by (simp add: nanos_per_sec_def)
  then have n: "(of_nat ?n :: rat) \<le> 1000000000" by (metis of_nat_le_iff of_nat_numeral)
  obtain b where b: "f32_of_nat ?n = Fin b" "0 \<le> b" "b \<le> 1000000000"
    by (rule round32_bounded [OF _ n rep(1)]) (auto simp: f32_of_nat_def)
  obtain c where c: "f32_div (Fin b) (Fin 1000000000) = Fin c" "0 \<le> c" "c \<le> 1"
    by (rule round32_bounded [of "b / 1000000000" 1]) (use b rep in \<open>auto simp: divide_le_eq\<close>)
  have sum: "1/1024 \<le> a + c" if "from_millis 1 \<le> d"
  proof (cases "?s = 0")
    case True
    then have "d = ?n" by (metis mod_div_decomp mult_0 add_0)
    with that have "1000000 \<le> ?n" by (simp add: from_millis_def)
    then have "(1000000 :: rat) \<le> of_nat ?n" by (metis of_nat_le_iff of_nat_numeral)
    then have "1000000 \<le> b" using round_pos_ge [OF _ rep(2)] b(1) by (auto simp: f32_of_nat_def round32_def split: if_splits)
    then have "1/1024 \<le> b / 1000000000" by (simp add: le_divide_eq)
    then have "1/1024 \<le> c" using round_pos_ge [OF _ rep(3)] c(1) b by (auto simp: round32_def split: if_splits)
    then show ?thesis using a by simp
  next
    case False
    then have "(1 :: rat) \<le> of_nat ?s" by (metis One_nat_def Suc_leI neq0_conv of_nat_1 of_nat_le_iff)
    then have "1 \<le> a" using round_pos_ge [OF _ rep(4)] a(1) by (auto simp: f32_of_nat_def round32_def split: if_splits)
    then show ?thesis using c by simp
  qed
  obtain t where t: "round32 (a + c) = Fin t" "0 \<le> t" "t \<le> 2 ^ 65"
    by (rule round32_bounded [OF _ _ representable_pow2 [of 65], of "a + c"]) (use a c in auto)
  have "1/1024 \<le> t" if "from_millis 1 \<le> d"
    using round_pos_ge [OF sum [OF that] rep(3)] t(1) sum [OF that] by (auto simp: round32_def split: if_splits)
  with a b c t show ?thesis by (intro that [of t]) (simp_all add: as_secs_f32_def del: f32_div.simps)
qed

lemma sample_bw_ok:
  assumes "takes_sample best s" "ds_bytes_delivered s \<le> usize_max" "ds_duration s < duration_limit"
  obtains r where "sample_bw s = Fin r" "0 < r" "r \<le> 2 ^ 80"
proof -
  have "max (ds_duration s) (from_millis 1) < duration_limit"
    using assms(3) by (simp add: duration_limit_def nanos_per_sec_def from_millis_def)
  then obtain t where t: "as_secs_f32 (max (ds_duration s) (from_millis 1)) = Fin t" "1/1024 \<le> t"
    by (rule as_secs_finite) simp
  obtain b where b: "f32_of_nat (ds_bytes_delivered s) = Fin b" "0 \<le> b" "b \<le> 2 ^ 64"
    using f32_of_nat_usize [OF assms(2)] .
  have "b * 1 \<le> b * (1024 * t)" using t b by (intro mult_left_mono) auto
  then have "b / t \<le> b * 1024" using t by (simp add: divide_le_eq mult.assoc)
  then have "b / t \<le> 2 ^ 80" using b by simp
  then obtain r where "round32 (b / t) = Fin r" "r \<le> 2 ^ 80"
    by (rule round32_bounded [OF _ _ representable_pow2 [of 80], rotated]) (use b t in auto)
  moreover from this have "sample_bw s = Fin r" using t b by (simp add: sample_bw_def)
  ultimately show ?thesis using assms(1) that by (simp add: takes_sample_def Let_def)
qed

lemmas b1_steps = b1_enter_startup_def b1_enter_drain_def b1_enter_probe_bw_def b1_enter_probe_rtt_def b1_reduce_gain_def
  b1_check_filled_pipe_def b1_update_min_rtt_def b1_start_round_def

lemma b1_transitions:
  assumes "b1_ok b"
  shows "b1_ok (b1_enter_startup b)" "b1_ok (b1_enter_drain b)" "b1_ok (b1_enter_probe_bw rg now b)"
    "b1_ok (b1_enter_probe_rtt now b)" "b1_ok (b1_reduce_gain b)" "b1_ok (b1_check_filled_pipe e b)"
    "b1_ok (b1_update_min_rtt now rtt b)" "b1_ok (b1_start_round k now b)"
  using assms gain_ok_constants gain_ok_cycle by (simp_all add: b1_ok_def b1_steps Let_def split: prod.split)

lemma b1_step_state_ok: "b1_ok b \<Longrightarrow> b1_ok (b1_step_state rg in_flight now b)"
  using b1_transitions [of b] gain_ok_cycle by (auto simp: b1_step_state_def b1_ok_def Let_def split: bbrv1_state.split)

lemma b1_take_sample_ok:
  assumes "b1_ok b" "pred_option (\<lambda>d. ds_bytes_delivered d \<le> usize_max \<and> ds_duration d < duration_limit) sample"
  shows "b1_ok (b1_take_sample now sample b)"
proof (cases sample)
  case (Some s)
  have "bw_ok (mf_add now (sample_bw s) (b1_max_bw b))" if "takes_sample (mf_get (b1_max_bw b)) s"
    using sample_bw_ok [OF that] bw_ok_add assms Some by (metis b1_ok_def option.pred_inject(2))
  with assms Some show ?thesis by (auto simp: b1_take_sample_def b1_update_bandwidth_def b1_ok_def Let_def)
qed (use assms in \<open>simp add: b1_take_sample_def\<close>)

lemma b1_ok_ack_time [simp]: "b1_ok (b\<lparr>b1_last_ack_time := t\<rparr>) = b1_ok b"
  by (simp add: b1_ok_def)

lemma b1_on_ack_ok:
  assumes "b1_ok b" "pred_option (\<lambda>d. ds_bytes_delivered d \<le> usize_max \<and> ds_duration d < duration_limit) sample"
  shows "b1_ok (b1_on_ack rg b rtt sample bytes in_flight now)"
  using assms unfolding b1_on_ack_def Let_def
  by (intro b1_step_state_ok b1_take_sample_ok b1_transitions) (auto intro: b1_transitions)

lemma b1_loss_ok:
  assumes "b1_ok b"
  shows "b1_ok (b1_on_nack b now)" "b1_ok (b1_on_timeout b now)"
proof -
  have "bw_ok (mf_add now (Fin 10000) (b1_max_bw b))" using assms by (intro bw_ok_add) (auto simp: b1_ok_def)
  with assms show "b1_ok (b1_on_nack b now)" "b1_ok (b1_on_timeout b now)"
    using gain_ok_constants by (auto simp: b1_on_nack_def b1_on_timeout_def b1_ok_def Let_def b1_steps)
qed

lemma b1_new_ok: "b1_ok (b1_new g)"
  using gain_ok_constants by (simp add: b1_new_def b1_ok_def b1_steps)

text \<open>A bandwidth scaled by a gain and bounded below by a floor.\<close>

lemma floored_rate:
  assumes "bw_ok mf" "gain_ok g" "0 < lb"
  obtains r where "f32_max (f32_mul (mf_get mf) g) (Fin lb) = Fin r" "lb \<le> r"
proof -
  obtain x where x: "mf_get mf = Fin x" "0 \<le> x" "x \<le> 2 ^ 80" using bw_ok_get [OF assms(1)] by blast
  obtain k where k: "g = Fin k" "0 \<le> k" "k \<le> 4" using assms(2) by (auto simp: gain_ok_def)
  have "x * k \<le> 2 ^ 80 * 4" using x k by (intro mult_mono) auto
  then have "x * k \<le> 2 ^ 82" by simp
  then obtain y where "round32 (x * k) = Fin y"
    by (rule round32_bounded [OF _ _ representable_pow2 [of 82], rotated]) (use x k in auto)
  with x k show ?thesis by (intro that [of "max y lb"]) (auto simp: f32_max_def max_def)
qed

lemma b1_pacing_rate_floor:
  assumes "b1_ok b"
  obtains r where "b1_pacing_rate b = Fin r" "10000 \<le> r"
proof -
  have g: "gain_ok (Fin (1/2))" "gain_ok (b1_pacing_gain b)" and b: "bw_ok (b1_max_bw b)"
    using assms by (auto simp: b1_ok_def)
  obtain p q r where "f32_max (f32_mul (mf_get (b1_max_bw b)) (Fin (1/2))) (Fin 10000) = Fin p" "10000 \<le> p"
    "f32_max (f32_mul (mf_get (b1_max_bw b)) (b1_pacing_gain b)) (Fin 10000) = Fin q" "10000 \<le> q"
    "f32_max (f32_mul (mf_get (b1_max_bw b)) (b1_pacing_gain b)) (Fin 200000) = Fin r" "200000 \<le> r"
    using floored_rate [OF b g(1), of 10000] floored_rate [OF b g(2), of 10000] floored_rate [OF b g(2), of 200000]
    by (metis zero_less_numeral)
  then show ?thesis
    by (intro that [of "if b1_state b = ProbeRtt then p else if b1_state b = Startup then r else q"])
      (auto simp: b1_pacing_rate_def Let_def MIN_PACING_RATE_def STARTUP_MIN_PACING_RATE_def)
qed

interpretation bbr1: congestion_control "b1_ops rg" b1_ok
proof
  show "b1_ok (cc_apply (b1_ops rg) ev b)" if "b1_ok b" "cc_event_ok ev" for b ev
    using that by (cases ev) (auto simp: b1_ops_def intro!: b1_on_ack_ok b1_loss_ok)
  show "1 \<le> cc_cwnd (b1_ops rg) b" if "b1_ok b" for b
    by (simp add: b1_ops_def b1_cwnd_def MIN_CWND_def le_max_iff_disj)
  show "\<exists>r. cc_pacing_rate (b1_ops rg) b = Fin r \<and> 0 < r" if "b1_ok b" for b
    using b1_pacing_rate_floor [OF that] by (force simp: b1_ops_def)
qed

section \<open>What a timeout leaves\<close>

text \<open>
  A persistent timeout adds a sample of ten kilobytes per second to the filter. The filter answers with the
  maximum of the window, so a larger sample that has not left the window is still the bandwidth afterwards; and
  entering Startup sets the window gain the lines before have reduced.
\<close>

lemma b1_timeout_keeps_bandwidth:
  assumes "b1_loss_count_in_round b \<ge> LOSS_EVENT_THRESHOLD" "mf_samples (b1_max_bw b) = (t, Fin r) # rest" "10000 < r"
    "saturating_duration_since now t \<le> mf_window (b1_max_bw b)"
  shows "mf_get (b1_max_bw (b1_on_timeout b now)) = Fin r"
    "b1_cwnd_gain (b1_on_timeout b now) = STARTUP_PACING_GAIN" "b1_state (b1_on_timeout b now) = Startup"
    "b1_min_rtt (b1_on_timeout b now) = b1_min_rtt b"
  using assms mf_add_keeps_best [OF assms(2), of 10000 now]
  by (simp_all add: b1_on_timeout_def b1_steps Let_def)

end
