(* ===== verification/Bbrv2.thy ===== *)
theory Bbrv2
  imports Bbrv1
begin

text \<open>
  \<^verbatim>\<open>tox-sequenced/src/congestion/bbrv2.rs\<close>: the second BBR controller, with upper bounds on the data in
  flight and on the bandwidth that grow round by round and are cut on loss. The constants it has in
  common with the first controller, with the same value, are those of \<open>Bbrv1\<close>.
\<close>

section \<open>State\<close>

definition STARTUP_MIN_PACING_RATE_2 :: f32 where "STARTUP_MIN_PACING_RATE_2 = Fin 100000"
definition LOSS_THRESH :: f32 where "LOSS_THRESH = round32 (2/100)"
definition BW_PROBE_UP_GAIN :: f32 where "BW_PROBE_UP_GAIN = Fin (5/4)"
definition BW_PROBE_DOWN_GAIN :: f32 where "BW_PROBE_DOWN_GAIN = round32 (9/10)"
definition PROBE_RTT_CWND_GAIN_2 :: f32 where "PROBE_RTT_CWND_GAIN_2 = Fin (1/2)"

datatype bbrv2_state = Startup2 | Drain2 | ProbeBwDown | ProbeBwCruise | ProbeBwRefill | ProbeBwUp | ProbeRtt2

record 'g bbrv2 =
  b2_state :: bbrv2_state
  b2_max_bw :: max_filter
  b2_min_rtt :: duration
  b2_min_rtt_stamp :: "instant option"
  b2_pacing_gain :: f32
  b2_cwnd_gain :: f32
  b2_filled_pipe :: bool
  b2_full_bw :: f32
  b2_full_bw_count :: nat
  b2_inflight_hi :: f32
  b2_bw_hi :: f32
  b2_inflight_lo :: f32
  b2_bw_lo :: f32
  b2_cycle_stamp :: "instant option"
  b2_last_ack_time :: "instant option"
  b2_last_now :: "instant option"
  b2_delivered :: nat
  b2_next_round_delivered :: nat
  b2_round_count :: nat
  b2_round_start_time :: "instant option"
  b2_bytes_lost_in_round :: nat
  b2_bytes_delivered_in_round :: nat
  b2_loss_in_round :: bool
  b2_cruise_rounds :: nat
  b2_app_limited :: bool
  b2_rng :: 'g

section \<open>Transitions\<close>

definition b2_enter_startup :: "'g bbrv2 \<Rightarrow> 'g bbrv2" where
  "b2_enter_startup b =
     b\<lparr>b2_state := Startup2, b2_pacing_gain := STARTUP_PACING_GAIN, b2_cwnd_gain := STARTUP_PACING_GAIN,
       b2_filled_pipe := False, b2_full_bw := Fin 0, b2_full_bw_count := 0\<rparr>"

definition b2_enter_drain :: "'g bbrv2 \<Rightarrow> 'g bbrv2" where
  "b2_enter_drain b =
     b\<lparr>b2_state := Drain2, b2_pacing_gain := DRAIN_PACING_GAIN, b2_cwnd_gain := STARTUP_PACING_GAIN\<rparr>"

definition b2_enter_probe_bw_down :: "instant \<Rightarrow> 'g bbrv2 \<Rightarrow> 'g bbrv2" where
  "b2_enter_probe_bw_down now b =
     b\<lparr>b2_state := ProbeBwDown, b2_pacing_gain := BW_PROBE_DOWN_GAIN, b2_cwnd_gain := PROBE_BW_CWND_GAIN,
       b2_cycle_stamp := Some now\<rparr>"

definition b2_enter_probe_bw_cruise :: "'g rng_ops \<Rightarrow> instant \<Rightarrow> 'g bbrv2 \<Rightarrow> 'g bbrv2" where
  "b2_enter_probe_bw_cruise rg now b =
     (let (n, g) = rg_range rg (b2_rng b) 4 8
      in b\<lparr>b2_state := ProbeBwCruise, b2_pacing_gain := Fin 1, b2_cwnd_gain := PROBE_BW_CWND_GAIN,
           b2_cycle_stamp := Some now, b2_cruise_rounds := n, b2_rng := g\<rparr>)"

definition b2_enter_probe_bw_refill :: "instant \<Rightarrow> 'g bbrv2 \<Rightarrow> 'g bbrv2" where
  "b2_enter_probe_bw_refill now b =
     b\<lparr>b2_state := ProbeBwRefill, b2_pacing_gain := Fin 1, b2_cwnd_gain := PROBE_BW_CWND_GAIN,
       b2_cycle_stamp := Some now\<rparr>"

definition b2_enter_probe_bw_up :: "instant \<Rightarrow> 'g bbrv2 \<Rightarrow> 'g bbrv2" where
  "b2_enter_probe_bw_up now b =
     b\<lparr>b2_state := ProbeBwUp, b2_pacing_gain := BW_PROBE_UP_GAIN, b2_cwnd_gain := PROBE_BW_CWND_GAIN,
       b2_cycle_stamp := Some now\<rparr>"

definition b2_enter_probe_rtt :: "instant \<Rightarrow> 'g bbrv2 \<Rightarrow> 'g bbrv2" where
  "b2_enter_probe_rtt now b =
     b\<lparr>b2_state := ProbeRtt2, b2_pacing_gain := Fin 1, b2_cwnd_gain := PROBE_RTT_CWND_GAIN_2,
       b2_cycle_stamp := Some now\<rparr>"

definition b2_new :: "'g \<Rightarrow> 'g bbrv2" where
  "b2_new g =
     b2_enter_startup
       \<lparr>b2_state = Startup2, b2_max_bw = mf_new RT_PROP_FILTER_LEN, b2_min_rtt = INITIAL_RTT, b2_min_rtt_stamp = None,
        b2_pacing_gain = STARTUP_PACING_GAIN, b2_cwnd_gain = STARTUP_PACING_GAIN, b2_filled_pipe = False,
        b2_full_bw = Fin 0, b2_full_bw_count = 0, b2_inflight_hi = PInf, b2_bw_hi = PInf, b2_inflight_lo = PInf,
        b2_bw_lo = PInf, b2_cycle_stamp = None, b2_last_ack_time = None, b2_last_now = None, b2_delivered = 0,
        b2_next_round_delivered = 0, b2_round_count = 0, b2_round_start_time = None, b2_bytes_lost_in_round = 0,
        b2_bytes_delivered_in_round = 0, b2_loss_in_round = False, b2_cruise_rounds = 0, b2_app_limited = False,
        b2_rng = g\<rparr>"

definition b2_update_bandwidth :: "instant \<Rightarrow> cc_sample \<Rightarrow> 'g bbrv2 \<Rightarrow> 'g bbrv2" where
  "b2_update_bandwidth now s b =
     (if takes_sample (mf_get (b2_max_bw b)) s then b\<lparr>b2_max_bw := mf_add now (sample_bw s) (b2_max_bw b)\<rparr> else b)"

definition b2_update_min_rtt :: "instant \<Rightarrow> duration \<Rightarrow> 'g bbrv2 \<Rightarrow> 'g bbrv2" where
  "b2_update_min_rtt now rtt b =
     (let expired = stamp_past (b2_min_rtt_stamp b) now PROBE_RTT_INTERVAL;
          b1 = (if rtt < b2_min_rtt b \<or> b2_min_rtt_stamp b = None \<or> expired
                then b\<lparr>b2_min_rtt := rtt, b2_min_rtt_stamp := Some now\<rparr> else b)
      in if expired \<and> b2_state b1 \<noteq> ProbeRtt2 then b2_enter_probe_rtt now b1 else b1)"

definition b2_check_filled_pipe :: "'g bbrv2 \<Rightarrow> 'g bbrv2" where
  "b2_check_filled_pipe b =
     (if b2_filled_pipe b \<or> b2_app_limited b then b
      else
        (let bw = mf_get (b2_max_bw b)
         in if f32_less (f32_mul (b2_full_bw b) FULL_BW_THRESH_FACTOR) bw
            then b\<lparr>b2_full_bw := bw, b2_full_bw_count := 0\<rparr>
            else
              (let b1 = b\<lparr>b2_full_bw_count := b2_full_bw_count b + 1\<rparr>
               in if b2_full_bw_count b1 \<ge> FULL_BW_COUNT_REQ then b1\<lparr>b2_filled_pipe := True\<rparr> else b1)))"

definition b2_bdp :: "'g bbrv2 \<Rightarrow> f32" where
  "b2_bdp b = f32_mul (mf_get (b2_max_bw b)) (as_secs_f32 (b2_min_rtt b))"

definition b2_inflight_with_headroom :: "'g bbrv2 \<Rightarrow> f32" where
  "b2_inflight_with_headroom b =
     (if b2_inflight_hi b = PInf then PInf
      else
        (let headroom = f32_max (f32_mul (b2_inflight_hi b) (round32 (15/100))) (Fin 1)
         in f32_max (f32_sub (b2_inflight_hi b) headroom)
              (f32_mul (f32_of_nat MIN_CWND) (f32_of_nat ESTIMATED_PAYLOAD_SIZE))))"

text \<open>The loss rate of a round, the time it took and the two branches of \<^verbatim>\<open>handle_loss_in_round\<close>.\<close>

definition b2_loss_rate :: "'g bbrv2 \<Rightarrow> f32" where
  "b2_loss_rate b =
     f32_div (f32_of_nat (b2_bytes_lost_in_round b))
       (f32_of_nat (b2_bytes_delivered_in_round b + b2_bytes_lost_in_round b))"

definition b2_round_duration :: "instant \<Rightarrow> 'g bbrv2 \<Rightarrow> f32" where
  "b2_round_duration now b =
     f32_max (as_secs_f32 (saturating_duration_since now (case b2_round_start_time b of None \<Rightarrow> now | Some t \<Rightarrow> t)))
       (round32 (1/1000))"

definition b2_cut_limits :: "nat \<Rightarrow> instant \<Rightarrow> 'g bbrv2 \<Rightarrow> 'g bbrv2" where
  "b2_cut_limits in_flight now b =
     (let limit = f32_max (f32_of_nat in_flight) (b2_bdp b);
          current_bw = f32_div (f32_of_nat (b2_bytes_delivered_in_round b)) (b2_round_duration now b);
          b1 = b\<lparr>b2_inflight_hi := f32_mul limit (round32 (95/100)), b2_bw_hi := f32_mul current_bw (round32 (95/100))\<rparr>
      in case b2_state b1 of
           Startup2 \<Rightarrow> b2_enter_drain (b1\<lparr>b2_filled_pipe := True\<rparr>)
         | ProbeBwUp \<Rightarrow> b2_enter_probe_bw_down now b1
         | _ \<Rightarrow> b1)"

definition b2_grow_limits :: "'g bbrv2 \<Rightarrow> 'g bbrv2" where
  "b2_grow_limits b =
     b\<lparr>b2_inflight_hi := (if b2_inflight_hi b \<noteq> PInf
          then f32_add (b2_inflight_hi b) (f32_mul (Fin 10) (f32_of_nat ESTIMATED_PAYLOAD_SIZE)) else b2_inflight_hi b),
       b2_bw_hi := (if b2_bw_hi b \<noteq> PInf then f32_mul (b2_bw_hi b) (round32 (105/100)) else b2_bw_hi b)\<rparr>"

definition b2_handle_loss_in_round :: "nat \<Rightarrow> instant \<Rightarrow> 'g bbrv2 \<Rightarrow> 'g bbrv2" where
  "b2_handle_loss_in_round in_flight now b =
     (if b2_bytes_delivered_in_round b = 0 then b
      else if f32_less LOSS_THRESH (b2_loss_rate b) then b2_cut_limits in_flight now b else b2_grow_limits b)"

section \<open>The trait\<close>

text \<open>An acknowledgement, in the order of the code: the round, its losses, the samples, the state.\<close>

definition b2_round :: "nat \<Rightarrow> instant \<Rightarrow> 'g bbrv2 \<Rightarrow> bool \<times> 'g bbrv2" where
  "b2_round in_flight now b =
     (let start_time = (case b2_round_start_time b of None \<Rightarrow> now | Some t \<Rightarrow> t)
      in if b2_delivered b \<ge> b2_next_round_delivered b
            \<and> (saturating_duration_since now start_time \<ge> b2_min_rtt b \<or> b2_round_start_time b = None)
         then (True, b\<lparr>b2_next_round_delivered := b2_delivered b + max in_flight ESTIMATED_PAYLOAD_SIZE,
                       b2_round_count := b2_round_count b + 1, b2_round_start_time := Some now\<rparr>)
         else (False, b))"

definition b2_end_round :: "nat \<Rightarrow> instant \<Rightarrow> 'g bbrv2 \<Rightarrow> 'g bbrv2" where
  "b2_end_round in_flight now b =
     (let b1 = (if b2_state b = Startup2 then b2_check_filled_pipe b else b)
      in (b2_handle_loss_in_round in_flight now b1)
           \<lparr>b2_loss_in_round := False, b2_bytes_lost_in_round := 0, b2_bytes_delivered_in_round := 0\<rparr>)"

definition b2_take_sample :: "instant \<Rightarrow> cc_sample option \<Rightarrow> 'g bbrv2 \<Rightarrow> 'g bbrv2" where
  "b2_take_sample now sample b =
     (case sample of
        None \<Rightarrow> b
      | Some s \<Rightarrow> (b2_update_bandwidth now s b)\<lparr>b2_app_limited := ds_app_limited s\<rparr>)"

definition b2_step_state :: "'g rng_ops \<Rightarrow> bool \<Rightarrow> nat \<Rightarrow> instant \<Rightarrow> 'g bbrv2 \<Rightarrow> 'g bbrv2" where
  "b2_step_state rg round_expired in_flight now b =
     (case b2_state b of
        Startup2 \<Rightarrow> if b2_filled_pipe b then b2_enter_drain b else b
      | Drain2 \<Rightarrow> if f32_le (f32_of_nat in_flight) (b2_bdp b) then b2_enter_probe_bw_down now b else b
      | ProbeBwDown \<Rightarrow> if f32_le (f32_of_nat in_flight) (b2_bdp b) then b2_enter_probe_bw_cruise rg now b else b
      | ProbeBwCruise \<Rightarrow>
          if round_expired
          then (let b1 = b\<lparr>b2_cruise_rounds := b2_cruise_rounds b - 1\<rparr>
                in if b2_cruise_rounds b1 = 0 then b2_enter_probe_bw_refill now b1 else b1)
          else b
      | ProbeBwRefill \<Rightarrow> if round_expired then b2_enter_probe_bw_up now b else b
      | ProbeBwUp \<Rightarrow>
          if f32_le (b2_inflight_with_headroom b) (f32_of_nat in_flight) \<or> round_expired \<or> b2_loss_in_round b
          then b2_enter_probe_bw_down now b else b
      | ProbeRtt2 \<Rightarrow>
          if stamp_expired (b2_cycle_stamp b) now PROBE_RTT_DURATION
          then (if b2_filled_pipe b then b2_enter_probe_bw_down now b else b2_enter_startup b) else b)"

definition b2_on_ack ::
    "'g rng_ops \<Rightarrow> 'g bbrv2 \<Rightarrow> duration \<Rightarrow> cc_sample option \<Rightarrow> nat \<Rightarrow> nat \<Rightarrow> instant \<Rightarrow> 'g bbrv2" where
  "b2_on_ack rg b rtt sample bytes_acked in_flight now =
     (let b1 = b\<lparr>b2_last_now := Some now, b2_delivered := b2_delivered b + bytes_acked,
                 b2_bytes_delivered_in_round := b2_bytes_delivered_in_round b + bytes_acked\<rparr>;
          (round_expired, b2) = b2_round in_flight now b1;
          b3 = (if round_expired then b2_end_round in_flight now b2 else b2);
          b4 = (if stamp_past (b2_last_ack_time b3) now IDLE_RESTART_THRESHOLD \<and> in_flight = 0 then b2_enter_startup b3 else b3);
          b5 = b2_update_min_rtt now rtt (b4\<lparr>b2_last_ack_time := Some now\<rparr>)
      in b2_step_state rg round_expired in_flight now (b2_take_sample now sample b5))"

definition b2_on_nack :: "'g bbrv2 \<Rightarrow> instant \<Rightarrow> 'g bbrv2" where
  "b2_on_nack b now =
     (let b1 = b\<lparr>b2_last_now := Some now, b2_bytes_lost_in_round := b2_bytes_lost_in_round b + ESTIMATED_PAYLOAD_SIZE\<rparr>
      in if b2_loss_in_round b1 then b1
         else
           (let bdp = b2_bdp b1;
                current = (if b2_inflight_hi b1 = PInf then f32_mul bdp (b2_cwnd_gain b1) else b2_inflight_hi b1)
            in b1\<lparr>b2_loss_in_round := True, b2_inflight_hi := f32_max (f32_mul current (round32 (95/100))) bdp\<rparr>))"

definition b2_on_timeout :: "'g bbrv2 \<Rightarrow> instant \<Rightarrow> 'g bbrv2" where
  "b2_on_timeout b now =
     (b2_enter_startup
        (b\<lparr>b2_last_now := Some now, b2_bytes_lost_in_round := b2_bytes_lost_in_round b + ESTIMATED_PAYLOAD_SIZE\<rparr>))
       \<lparr>b2_max_bw := mf_add now (Fin 10000) (mf_new RT_PROP_FILTER_LEN), b2_inflight_hi := PInf, b2_bw_hi := PInf,
        b2_inflight_lo := PInf, b2_bw_lo := PInf\<rparr>"

definition b2_cwnd :: "'g bbrv2 \<Rightarrow> nat" where
  "b2_cwnd b =
     (if b2_state b = ProbeRtt2 then MIN_CWND
      else
        (let mtu = f32_of_nat ESTIMATED_PAYLOAD_SIZE;
             target = f32_to_usize (f32_div (f32_mul (b2_bdp b) (b2_cwnd_gain b)) mtu);
             limit = f32_to_usize (f32_div (b2_inflight_with_headroom b) mtu)
         in max (min target limit) MIN_CWND))"

definition b2_pacing_rate :: "'g bbrv2 \<Rightarrow> f32" where
  "b2_pacing_rate b =
     (if b2_state b = ProbeRtt2 then f32_max (f32_mul (mf_get (b2_max_bw b)) (Fin (1/2))) MIN_PACING_RATE
      else
        (let rate = f32_mul (mf_get (b2_max_bw b)) (b2_pacing_gain b);
             floored = (if b2_state b = Startup2 then f32_max rate STARTUP_MIN_PACING_RATE_2 else f32_max rate MIN_PACING_RATE)
         in if b2_bw_hi b \<noteq> PInf then f32_min floored (f32_mul (b2_bw_hi b) (round32 (95/100))) else floored))"

definition b2_on_fragment_sent :: "'g bbrv2 \<Rightarrow> nat \<Rightarrow> instant \<Rightarrow> 'g bbrv2" where
  "b2_on_fragment_sent b bytes now = b\<lparr>b2_last_now := Some now\<rparr>"

definition b2_ops :: "'g rng_ops \<Rightarrow> 'g bbrv2 cc_ops" where
  "b2_ops rg =
     \<lparr>cc_on_ack = b2_on_ack rg, cc_on_nack = b2_on_nack, cc_on_timeout = b2_on_timeout, cc_cwnd = b2_cwnd,
      cc_pacing_rate = b2_pacing_rate, cc_min_rtt = b2_min_rtt, cc_on_fragment_sent = b2_on_fragment_sent\<rparr>"

section \<open>The contract\<close>

text \<open>A value that is not below a bound, infinity included.\<close>

fun f32_at_least :: "rat \<Rightarrow> f32 \<Rightarrow> bool" where
  "f32_at_least lo (Fin r) = (lo \<le> r)"
| "f32_at_least lo PInf = True"
| "f32_at_least lo _ = False"

lemma round32_at_least: "representable lo \<Longrightarrow> lo \<le> x \<Longrightarrow> f32_at_least lo (round32 x)"
proof -
  assume lo: "representable lo" "lo \<le> x"
  then have "0 < lo" by (auto simp: representable_def)
  with lo(2) have "0 < x" by linarith
  with round_pos_ge [OF lo(2,1)] show ?thesis by (simp add: round32_def)
qed

lemma f32_of_nat_at_least: "1 \<le> n \<Longrightarrow> f32_at_least 1 (f32_of_nat n)"
  using representable_nat [of 1] by (auto simp: f32_of_nat_def intro!: round32_at_least)

lemma f32_mul_at_least:
  assumes "f32_at_least lo x" "0 < k" "0 < lo" "representable lo'" "lo' \<le> lo * k"
  shows "f32_at_least lo' (f32_mul x (Fin k))"
proof (cases x)
  case (Fin r)
  then have "lo * k \<le> r * k" using assms by (intro mult_right_mono) auto
  then have "lo' \<le> r * k" using assms by linarith
  then show ?thesis using Fin assms by (auto intro!: round32_at_least)
qed (use assms in \<open>auto simp: signed_inf_def\<close>)

lemma f32_div_at_least:
  assumes "f32_at_least 1 x" "0 < k" "representable lo'" "lo' \<le> 1 / k"
  shows "f32_at_least lo' (f32_div x (Fin k))"
proof (cases x)
  case (Fin r)
  then have "1 / k \<le> r / k" using assms by (intro divide_right_mono) auto
  then have "lo' \<le> r / k" using assms by linarith
  then show ?thesis using Fin assms by (auto intro!: round32_at_least)
qed (use assms in \<open>auto simp: signed_inf_def\<close>)

lemma factor_between:
  assumes "1/2 \<le> x" "x \<le> 2"
  obtains k where "round32 x = Fin k" "1/2 \<le> k" "k \<le> 2"
proof -
  have "representable (1/2)" using representable_scaled [of 1 "- 1"] by (simp add: power_int_def)
  then show ?thesis
    by (rule round32_between [OF assms(1) _ assms(2) representable_nat [of 2, simplified]]) (use that in auto)
qed

lemma millisecond_f32:
  obtains k where "round32 (1/1000) = Fin k" "0 < k" "k \<le> 1/512"
proof -
  have "representable (1/1024)" "representable (1/512)"
    using representable_scaled [of 1 "- 10"] representable_scaled [of 1 "- 9"] by (simp_all add: power_int_def power_divide)
  then obtain k where "round32 (1/1000) = Fin k" "1/1024 \<le> k" "k \<le> 1/512"
    using round32_between [of "1/1024" "1/1000" "1/512"] by auto
  then show ?thesis by (intro that [of k]) auto
qed

text \<open>
  An expired round has been given its new start before its losses are looked at, so the duration of the
  round is the floor of one millisecond, however long it took.
\<close>

lemma b2_round_duration_floor:
  assumes "b2_round_start_time b = Some now"
  shows "b2_round_duration now b = round32 (1/1000)"
  by (rule millisecond_f32)
    (use assms in \<open>simp add: b2_round_duration_def saturating_duration_since_def as_secs_f32_def f32_of_nat_def f32_max_def round32_def\<close>)

definition b2_ok :: "'g bbrv2 \<Rightarrow> bool" where
  "b2_ok b \<longleftrightarrow> bw_ok (b2_max_bw b) \<and> gain_ok (b2_pacing_gain b) \<and> f32_at_least 256 (b2_bw_hi b)"

lemmas b2_steps = b2_enter_startup_def b2_enter_drain_def b2_enter_probe_bw_down_def b2_enter_probe_bw_cruise_def
  b2_enter_probe_bw_refill_def b2_enter_probe_bw_up_def b2_enter_probe_rtt_def b2_check_filled_pipe_def b2_update_min_rtt_def

lemma gain_ok_probe: "gain_ok BW_PROBE_UP_GAIN" "gain_ok BW_PROBE_DOWN_GAIN"
proof -
  show "gain_ok BW_PROBE_DOWN_GAIN"
    by (rule factor_between [of "9/10"]) (auto simp: BW_PROBE_DOWN_GAIN_def)
qed (simp add: BW_PROBE_UP_GAIN_def)

lemma b2_transitions:
  assumes "b2_ok b"
  shows "b2_ok (b2_enter_startup b)" "b2_ok (b2_enter_drain b)" "b2_ok (b2_enter_probe_bw_down now b)"
    "b2_ok (b2_enter_probe_bw_cruise rg now b)" "b2_ok (b2_enter_probe_bw_refill now b)" "b2_ok (b2_enter_probe_bw_up now b)"
    "b2_ok (b2_enter_probe_rtt now b)" "b2_ok (b2_check_filled_pipe b)" "b2_ok (b2_update_min_rtt now rtt b)"
  using assms gain_ok_constants gain_ok_probe by (simp_all add: b2_ok_def b2_steps Let_def split: prod.split)

lemma b2_cut_limits_ok:
  assumes "b2_ok b" "b2_round_start_time b = Some now" "b2_bytes_delivered_in_round b \<noteq> 0"
  shows "b2_ok (b2_cut_limits in_flight now b)"
proof -
  obtain k where k: "round32 (1/1000) = Fin k" "0 < k" "k \<le> 1/512" by (rule millisecond_f32)
  obtain c where c: "round32 (95/100) = Fin c" "1/2 \<le> c" by (rule factor_between [of "95/100"]) auto
  have "f32_at_least 512 (f32_div (f32_of_nat (b2_bytes_delivered_in_round b)) (Fin k))"
    using f32_of_nat_at_least [of "b2_bytes_delivered_in_round b"] assms(3) k representable_nat [of 512]
    by (intro f32_div_at_least) (auto simp: le_divide_eq)
  then have "f32_at_least 256 (f32_mul (f32_div (f32_of_nat (b2_bytes_delivered_in_round b)) (Fin k)) (Fin c))"
    by (rule f32_mul_at_least) (use c representable_nat [of 256] in auto)
  with assms k c show ?thesis
    using gain_ok_constants gain_ok_probe
    by (auto simp: b2_cut_limits_def Let_def b2_round_duration_floor b2_ok_def b2_steps split: bbrv2_state.split)
qed

lemma b2_grow_limits_ok: "b2_ok b \<Longrightarrow> b2_ok (b2_grow_limits b)"
proof -
  assume b: "b2_ok b"
  obtain c where c: "round32 (105/100) = Fin c" "1 \<le> c" "c \<le> 2"
    by (rule round32_between [of 1 "105/100" 2]) (use representable_nat [of 1] representable_nat [of 2] in auto)
  have "f32_at_least 256 (f32_mul (b2_bw_hi b) (Fin c))"
    using b c representable_nat [of 256] by (intro f32_mul_at_least) (auto simp: b2_ok_def)
  then show ?thesis using b c by (auto simp: b2_grow_limits_def b2_ok_def)
qed

lemma b2_end_round_ok:
  assumes "b2_ok b" "b2_round_start_time b = Some now"
  shows "b2_ok (b2_end_round in_flight now b)"
proof -
  let ?b = "if b2_state b = Startup2 then b2_check_filled_pipe b else b"
  have "b2_ok ?b" "b2_round_start_time ?b = Some now"
    using assms b2_transitions(8) [OF assms(1)] by (simp, simp add: b2_check_filled_pipe_def Let_def)
  then have "b2_ok (b2_handle_loss_in_round in_flight now ?b)"
    using b2_cut_limits_ok b2_grow_limits_ok by (auto simp: b2_handle_loss_in_round_def)
  then show ?thesis by (simp add: b2_end_round_def Let_def b2_ok_def)
qed

lemma b2_step_state_ok: "b2_ok b \<Longrightarrow> b2_ok (b2_step_state rg e in_flight now b)"
proof -
  assume b: "b2_ok b"
  then have "b2_ok (b\<lparr>b2_cruise_rounds := n\<rparr>)" for n by (simp add: b2_ok_def)
  with b show ?thesis
    by (auto simp: b2_step_state_def Let_def intro!: b2_transitions split: bbrv2_state.split)
qed

lemma b2_take_sample_ok:
  assumes "b2_ok b" "pred_option (\<lambda>d. ds_bytes_delivered d \<le> usize_max \<and> ds_duration d < duration_limit) sample"
  shows "b2_ok (b2_take_sample now sample b)"
proof (cases sample)
  case (Some s)
  have "bw_ok (mf_add now (sample_bw s) (b2_max_bw b))" if "takes_sample (mf_get (b2_max_bw b)) s"
    using sample_bw_ok [OF that] bw_ok_add assms Some by (metis b2_ok_def option.pred_inject(2))
  with assms Some show ?thesis by (auto simp: b2_take_sample_def b2_update_bandwidth_def b2_ok_def)
qed (use assms in \<open>simp add: b2_take_sample_def\<close>)

lemma b2_ok_ack_time [simp]: "b2_ok (b\<lparr>b2_last_ack_time := t\<rparr>) = b2_ok b"
  by (simp add: b2_ok_def)

lemma b2_on_ack_ok:
  assumes "b2_ok b" "pred_option (\<lambda>d. ds_bytes_delivered d \<le> usize_max \<and> ds_duration d < duration_limit) sample"
  shows "b2_ok (b2_on_ack rg b rtt sample bytes in_flight now)"
proof -
  let ?b1 = "b\<lparr>b2_last_now := Some now, b2_delivered := b2_delivered b + bytes,
               b2_bytes_delivered_in_round := b2_bytes_delivered_in_round b + bytes\<rparr>"
  obtain e b2 where e: "b2_round in_flight now ?b1 = (e, b2)" by fastforce
  then have "b2_ok b2" "e \<Longrightarrow> b2_round_start_time b2 = Some now"
    using assms(1) by (auto simp: b2_round_def Let_def b2_ok_def split: if_splits)
  then have "b2_ok (if e then b2_end_round in_flight now b2 else b2)" by (simp add: b2_end_round_ok)
  then show ?thesis
    using assms(2) unfolding b2_on_ack_def Let_def e prod.case
    by (intro b2_step_state_ok b2_take_sample_ok b2_transitions) (auto intro: b2_transitions)
qed

lemma b2_loss_ok:
  assumes "b2_ok b"
  shows "b2_ok (b2_on_nack b now)" "b2_ok (b2_on_timeout b now)"
proof -
  have "bw_ok (mf_add now (Fin 10000) (mf_new RT_PROP_FILTER_LEN))" by (intro bw_ok_add) auto
  with assms show "b2_ok (b2_on_nack b now)" "b2_ok (b2_on_timeout b now)"
    using gain_ok_constants by (auto simp: b2_on_nack_def b2_on_timeout_def b2_ok_def Let_def b2_steps)
qed

lemma b2_sent_ok: "b2_ok b \<Longrightarrow> b2_ok (b2_on_fragment_sent b bytes now)"
  by (simp add: b2_on_fragment_sent_def b2_ok_def)

lemma b2_new_ok: "b2_ok (b2_new g)"
  using gain_ok_constants by (simp add: b2_new_def b2_ok_def b2_steps)

text \<open>The rate is capped after it has been given its floor, so the bound that is left is that of the cap.\<close>

lemma b2_pacing_rate_pos:
  assumes "b2_ok b"
  obtains r where "b2_pacing_rate b = Fin r" "128 \<le> r"
proof -
  have g: "gain_ok (Fin (1/2))" "gain_ok (b2_pacing_gain b)" and b: "bw_ok (b2_max_bw b)" "f32_at_least 256 (b2_bw_hi b)"
    using assms by (auto simp: b2_ok_def)
  obtain c where c: "round32 (95/100) = Fin c" "1/2 \<le> c" by (rule factor_between [of "95/100"]) auto
  have cap: "f32_at_least 128 (f32_mul (b2_bw_hi b) (Fin c))"
    by (rule f32_mul_at_least [OF b(2)]) (use c representable_nat [of 128] in auto)
  obtain p q r where "f32_max (f32_mul (mf_get (b2_max_bw b)) (Fin (1/2))) (Fin 10000) = Fin p" "10000 \<le> p"
    "f32_max (f32_mul (mf_get (b2_max_bw b)) (b2_pacing_gain b)) (Fin 10000) = Fin q" "10000 \<le> q"
    "f32_max (f32_mul (mf_get (b2_max_bw b)) (b2_pacing_gain b)) (Fin 100000) = Fin r" "100000 \<le> r"
    using floored_rate [OF b(1) g(1), of 10000] floored_rate [OF b(1) g(2), of 10000] floored_rate [OF b(1) g(2), of 100000]
    by (metis zero_less_numeral)
  then have "\<exists>r. b2_pacing_rate b = Fin r \<and> 128 \<le> r"
    using cap c(1)
    by (cases "f32_mul (b2_bw_hi b) (Fin c)")
      (auto simp: b2_pacing_rate_def Let_def MIN_PACING_RATE_def STARTUP_MIN_PACING_RATE_2_def f32_min_def)
  then show ?thesis using that by blast
qed

interpretation bbr2: congestion_control "b2_ops rg" b2_ok
proof
  show "b2_ok (cc_apply (b2_ops rg) ev b)" if "b2_ok b" "cc_event_ok ev" for b ev
    using that by (cases ev) (auto simp: b2_ops_def intro!: b2_on_ack_ok b2_loss_ok b2_sent_ok)
  show "1 \<le> cc_cwnd (b2_ops rg) b" if "b2_ok b" for b
    by (simp add: b2_ops_def b2_cwnd_def MIN_CWND_def Let_def le_max_iff_disj)
  show "\<exists>r. cc_pacing_rate (b2_ops rg) b = Fin r \<and> 0 < r" if "b2_ok b" for b
    using b2_pacing_rate_pos [OF that] by (force simp: b2_ops_def)
qed

section \<open>The cap of the bandwidth\<close>

text \<open>After the end of a round nothing in an acknowledgement changes the cap.\<close>

lemma b2_keeps_cap [simp]:
  "b2_bw_hi (b2_step_state rg e in_flight now b) = b2_bw_hi b" "b2_bw_hi (b2_take_sample now sample b) = b2_bw_hi b"
  "b2_bw_hi (b2_update_min_rtt now rtt b) = b2_bw_hi b" "b2_bw_hi (b2_enter_startup b) = b2_bw_hi b"
  by (auto simp: b2_step_state_def b2_take_sample_def b2_update_bandwidth_def b2_steps Let_def split: bbrv2_state.split option.split prod.split)

lemma b2_end_round_cap:
  assumes "b2_round_start_time b = Some now" "b2_bytes_delivered_in_round b \<noteq> 0" "f32_less LOSS_THRESH (b2_loss_rate b)"
  shows "b2_bw_hi (b2_end_round in_flight now b) =
    f32_mul (f32_div (f32_of_nat (b2_bytes_delivered_in_round b)) (round32 (1/1000))) (round32 (95/100))"
proof -
  let ?b = "if b2_state b = Startup2 then b2_check_filled_pipe b else b"
  have same: "b2_round_start_time ?b = Some now" "b2_bytes_delivered_in_round ?b = b2_bytes_delivered_in_round b"
    "b2_loss_rate ?b = b2_loss_rate b"
    using assms(1) by (auto simp: b2_check_filled_pipe_def b2_loss_rate_def Let_def)
  have "b2_bw_hi (b2_cut_limits in_flight now ?b) =
      f32_mul (f32_div (f32_of_nat (b2_bytes_delivered_in_round b)) (round32 (1/1000))) (round32 (95/100))"
    using same(2) b2_round_duration_floor [OF same(1)]
    by (auto simp: b2_cut_limits_def Let_def b2_enter_drain_def b2_enter_probe_bw_down_def split: bbrv2_state.split)
  moreover have "b2_handle_loss_in_round in_flight now ?b = b2_cut_limits in_flight now ?b"
    using same(2,3) assms(2,3) by (simp add: b2_handle_loss_in_round_def)
  ultimately show ?thesis by (simp add: b2_end_round_def Let_def)
qed

end
