(* ===== verification/Cubic.thy ===== *)
theory Cubic
  imports Congestion
begin

text \<open>
  \<^verbatim>\<open>tox-sequenced/src/congestion/cubic.rs\<close>: the CUBIC controller. The two power functions of \<^verbatim>\<open>f32\<close>, whose precision the
  language leaves open, are parameters; the contract of the controllers rests on bounds of their results.
\<close>

section \<open>State and operations\<close>

record pow_ops =
  pw_powi :: "f32 \<Rightarrow> int \<Rightarrow> f32"
  pw_powf :: "f32 \<Rightarrow> f32 \<Rightarrow> f32"

definition CUBIC_MIN_CWND :: f32 where "CUBIC_MIN_CWND = Fin 2"
definition CUBIC_C :: f32 where "CUBIC_C = round32 (4/10)"
definition BETA :: f32 where "BETA = round32 (7/10)"

record cubic =
  cu_cwnd :: f32
  cu_ssthresh :: f32
  cu_w_max :: f32
  cu_k :: f32
  cu_epoch_start :: "instant option"
  cu_origin_cwnd :: f32
  cu_tcp_cwnd :: f32
  cu_last_rtt :: duration

definition cubic_new :: cubic where
  "cubic_new =
     \<lparr>cu_cwnd = INITIAL_CWND, cu_ssthresh = INITIAL_SSTHRESH, cu_w_max = Fin 0, cu_k = Fin 0, cu_epoch_start = None,
      cu_origin_cwnd = Fin 0, cu_tcp_cwnd = INITIAL_CWND, cu_last_rtt = from_millis 200\<rparr>"

definition third :: f32 where "third = f32_div (Fin 1) (Fin 3)"

definition cubic_target :: "pow_ops \<Rightarrow> f32 \<Rightarrow> cubic \<Rightarrow> f32" where
  "cubic_target pw t c = f32_add (f32_mul CUBIC_C (pw_powi pw (f32_sub t (cu_k c)) 3)) (cu_w_max c)"

definition cubic_update_cwnd :: "pow_ops \<Rightarrow> instant \<Rightarrow> cubic \<Rightarrow> cubic" where
  "cubic_update_cwnd pw now c =
     (case cu_epoch_start c of
        None \<Rightarrow> c
      | Some epoch_start \<Rightarrow>
          (let target = cubic_target pw (as_secs_f32 (saturating_duration_since now epoch_start)) c
           in if f32_less target (cu_tcp_cwnd c) then c\<lparr>cu_cwnd := cu_tcp_cwnd c\<rparr> else c\<lparr>cu_cwnd := target\<rparr>))"

definition cubic_start_epoch :: "pow_ops \<Rightarrow> instant \<Rightarrow> cubic \<Rightarrow> cubic" where
  "cubic_start_epoch pw now c =
     (let c1 = c\<lparr>cu_epoch_start := Some now\<rparr>;
          c2 = (if f32_less (cu_cwnd c1) (cu_w_max c1)
                then c1\<lparr>cu_k := pw_powf pw (f32_div (f32_sub (cu_w_max c1) (cu_cwnd c1)) CUBIC_C) third,
                        cu_origin_cwnd := cu_cwnd c1\<rparr>
                else c1\<lparr>cu_k := Fin 0, cu_origin_cwnd := cu_cwnd c1\<rparr>)
      in c2\<lparr>cu_tcp_cwnd := cu_cwnd c2\<rparr>)"

definition cubic_on_ack ::
    "pow_ops \<Rightarrow> cubic \<Rightarrow> duration \<Rightarrow> cc_sample option \<Rightarrow> nat \<Rightarrow> nat \<Rightarrow> instant \<Rightarrow> cubic" where
  "cubic_on_ack pw c rtt sample bytes_acked in_flight now =
     (let c1 = c\<lparr>cu_last_rtt := rtt\<rparr>;
          fragments_acked = f32_div (f32_of_nat bytes_acked) (f32_of_nat ESTIMATED_PAYLOAD_SIZE)
      in if f32_less (cu_cwnd c1) (cu_ssthresh c1)
         then (let w = f32_add (cu_cwnd c1) fragments_acked in c1\<lparr>cu_cwnd := w, cu_tcp_cwnd := w\<rparr>)
         else
           (let c2 = (if cu_epoch_start c1 = None then cubic_start_epoch pw now c1 else c1);
                c3 = c2\<lparr>cu_tcp_cwnd := f32_add (cu_tcp_cwnd c2) (f32_div fragments_acked (cu_tcp_cwnd c2))\<rparr>
            in cubic_update_cwnd pw now c3))"

definition cubic_on_nack :: "pow_ops \<Rightarrow> cubic \<Rightarrow> instant \<Rightarrow> cubic" where
  "cubic_on_nack pw c now =
     (let w_max = (if f32_less (cu_cwnd c) (cu_w_max c)
                   then f32_div (f32_mul (cu_cwnd c) (f32_add (Fin 1) BETA)) (Fin 2) else cu_cwnd c);
          cwnd = f32_max (f32_mul (cu_cwnd c) BETA) CUBIC_MIN_CWND
      in c\<lparr>cu_epoch_start := None, cu_w_max := w_max, cu_cwnd := cwnd, cu_ssthresh := cwnd, cu_tcp_cwnd := cwnd,
           cu_k := pw_powf pw (f32_div (f32_mul w_max (f32_sub (Fin 1) BETA)) CUBIC_C) third\<rparr>)"

definition cubic_on_timeout :: "cubic \<Rightarrow> instant \<Rightarrow> cubic" where
  "cubic_on_timeout c now =
     c\<lparr>cu_epoch_start := None, cu_w_max := cu_cwnd c, cu_ssthresh := f32_max (f32_mul (cu_cwnd c) BETA) CUBIC_MIN_CWND,
       cu_cwnd := Fin 1, cu_tcp_cwnd := Fin 1\<rparr>"

definition cubic_cwnd :: "cubic \<Rightarrow> nat" where
  "cubic_cwnd c = f32_to_usize (f32_max (cu_cwnd c) CUBIC_MIN_CWND)"

definition cubic_pacing_rate :: "cubic \<Rightarrow> f32" where
  "cubic_pacing_rate c =
     (let mtu = f32_of_nat ESTIMATED_PAYLOAD_SIZE;
          rtt_secs = f32_clamp (as_secs_f32 (cu_last_rtt c)) (round32 (1/100)) (Fin 1)
      in f32_div (f32_mul (f32_mul (cu_cwnd c) mtu) PACING_GAIN) rtt_secs)"

definition cubic_ops :: "pow_ops \<Rightarrow> cubic cc_ops" where
  "cubic_ops pw =
     \<lparr>cc_on_ack = cubic_on_ack pw, cc_on_nack = cubic_on_nack pw, cc_on_timeout = cubic_on_timeout,
      cc_cwnd = cubic_cwnd, cc_pacing_rate = cubic_pacing_rate, cc_min_rtt = cu_last_rtt,
      cc_on_fragment_sent = (\<lambda>c bytes now. c)\<rparr>"

section \<open>The power functions\<close>

text \<open>
  A cube has the sign of its argument and at most twice its magnitude, and a cube root is not negative and its cube at
  most twice the argument, where the results are far from overflow.
\<close>

definition pow_laws :: "pow_ops \<Rightarrow> bool" where
  "pow_laws pw \<longleftrightarrow>
     (\<forall>x. 0 \<le> x \<longrightarrow> x \<le> 2 ^ 40 \<longrightarrow> (\<exists>y. pw_powi pw (Fin x) 3 = Fin y \<and> 0 \<le> y \<and> y \<le> 2 * x ^ 3)) \<and>
     (\<forall>x. 0 \<le> x \<longrightarrow> x \<le> 2 ^ 40 \<longrightarrow> (\<exists>y. pw_powi pw (Fin (- x)) 3 = Fin (- y) \<and> 0 \<le> y \<and> y \<le> 2 * x ^ 3)) \<and>
     (\<forall>x. 0 \<le> x \<longrightarrow> x \<le> 2 ^ 110 \<longrightarrow> (\<exists>y. pw_powf pw (Fin x) third = Fin y \<and> 0 \<le> y \<and> y ^ 3 \<le> 2 * x))"

section \<open>The contract\<close>

definition finite_in :: "rat \<Rightarrow> rat \<Rightarrow> f32 \<Rightarrow> bool" where
  "finite_in lo hi x \<longleftrightarrow> (\<exists>r. x = Fin r \<and> lo \<le> r \<and> r \<le> hi)"

lemma finite_in_Fin [simp]: "finite_in lo hi (Fin r) \<longleftrightarrow> lo \<le> r \<and> r \<le> hi"
  by (simp add: finite_in_def)

lemma finite_inE: "finite_in lo hi x \<Longrightarrow> (\<And>r. x = Fin r \<Longrightarrow> lo \<le> r \<Longrightarrow> r \<le> hi \<Longrightarrow> thesis) \<Longrightarrow> thesis"
  by (auto simp: finite_in_def)

definition cubic_ok :: "cubic \<Rightarrow> bool" where
  "cubic_ok c \<longleftrightarrow>
     finite_in 1 (2 ^ 100) (cu_cwnd c) \<and> finite_in 1 (2 ^ 100) (cu_tcp_cwnd c) \<and> finite_in 0 (2 ^ 100) (cu_w_max c) \<and>
     finite_in 0 (2 ^ 35) (cu_k c) \<and> pred_option (\<lambda>t. 0 \<le> t) (cu_epoch_start c)"

lemma round32_signed:
  assumes "- r \<le> x" "x \<le> s" "representable r" "representable s" "r < 2 ^ 128" "s < 2 ^ 128"
  shows "finite_in (- r) s (round32 x)"
proof -
  have "0 < r" "0 < s" using assms(3,4) by (auto simp: representable_def)
  consider "0 \<le> x" | "x < 0" by linarith
  then show ?thesis
  proof cases
    case 1
    obtain y where "round32 x = Fin y" "0 \<le> y" "y \<le> s" by (rule round32_bounded [OF 1 assms(2,4,6)])
    with \<open>0 < r\<close> show ?thesis by simp
  next
    case 2
    have "round_pos (- x) \<le> r" using assms 2 by (intro round_pos_le) auto
    with 2 round_pos_nonneg [of "- x"] \<open>0 < s\<close> assms(5) show ?thesis by (simp add: round32_def)
  qed
qed

text \<open>The argument of the cube and the target window.\<close>

lemma cube_root_bound:
  assumes "pow_laws pw" "0 \<le> x" "x \<le> 2 ^ 103"
  shows "finite_in 0 (2 ^ 35) (pw_powf pw (Fin x) third)"
proof -
  have "x \<le> 2 ^ 110" using assms(3) by simp
  then obtain y where y: "pw_powf pw (Fin x) third = Fin y" "0 \<le> y" "y ^ 3 \<le> 2 * x"
    using assms(1,2) unfolding pow_laws_def by blast
  have "y ^ 3 \<le> (2 ^ 35) ^ 3" using y(3) assms(3) by simp
  then have "y \<le> 2 ^ 35" using power_mono_iff [of y "2 ^ 35" 3] y(2) by simp
  with y show ?thesis by simp
qed

lemma cube_bound:
  assumes "pow_laws pw" "finite_in (- (2 ^ 35)) (2 ^ 25) x"
  shows "finite_in (- (2 ^ 106)) (2 ^ 76) (pw_powi pw x 3)"
proof -
  obtain r where r: "x = Fin r" "- (2 ^ 35) \<le> r" "r \<le> 2 ^ 25" using assms(2) by (rule finite_inE)
  consider "0 \<le> r" | "r < 0" by linarith
  then show ?thesis
  proof cases
    case 1
    moreover have "r \<le> 2 ^ 40" using r by simp
    ultimately obtain y where y: "pw_powi pw (Fin r) 3 = Fin y" "0 \<le> y" "y \<le> 2 * r ^ 3"
      using assms(1) unfolding pow_laws_def by blast
    have "r ^ 3 \<le> (2 ^ 25) ^ 3" using r 1 by (intro power_mono) auto
    with y r show ?thesis by simp
  next
    case 2
    then have "0 \<le> - r" "- r \<le> 2 ^ 40" using r by auto
    then obtain y where y: "pw_powi pw (Fin (- (- r))) 3 = Fin (- y)" "0 \<le> y" "y \<le> 2 * (- r) ^ 3"
      using assms(1) unfolding pow_laws_def by blast
    have "(- r) ^ 3 \<le> (2 ^ 35) ^ 3" using r 2 by (intro power_mono) auto
    with y r show ?thesis by simp
  qed
qed

lemma cubic_c_f32:
  obtains a where "CUBIC_C = Fin a" "1/4 \<le> a" "a \<le> 1/2"
proof -
  have "representable (1/4)" "representable (1/2)"
    using representable_scaled [of 1 "- 2"] representable_scaled [of 1 "- 1"] by (simp_all add: power_int_def power_divide)
  then obtain a where "round32 (4/10) = Fin a" "1/4 \<le> a" "a \<le> 1/2"
    using round32_between [of "1/4" "4/10" "1/2"] by auto
  then show ?thesis by (intro that [of a]) (auto simp: CUBIC_C_def)
qed

lemma cubic_target_bound:
  assumes "pow_laws pw" "finite_in 0 (2 ^ 25) t" "finite_in 0 (2 ^ 35) (cu_k c)" "finite_in 0 (2 ^ 100) (cu_w_max c)"
  shows "finite_in (- (2 ^ 106)) (2 ^ 100) (cubic_target pw t c)"
proof -
  obtain x k w where x: "t = Fin x" "0 \<le> x" "x \<le> 2 ^ 25" and k: "cu_k c = Fin k" "0 \<le> k" "k \<le> 2 ^ 35"
    and w: "cu_w_max c = Fin w" "0 \<le> w" "w \<le> 2 ^ 100"
    using assms(2-4) by (auto simp: finite_in_def)
  obtain a where a: "CUBIC_C = Fin a" "1/4 \<le> a" "a \<le> 1/2" by (rule cubic_c_f32)
  have "finite_in (- (2 ^ 35)) (2 ^ 25) (f32_sub t (cu_k c))"
    using x k representable_pow2 [of 35] representable_pow2 [of 25] round32_signed [of "2 ^ 35" "x - k" "2 ^ 25"]
    by (simp add: f32_sub_def)
  from cube_bound [OF assms(1) this] obtain p where p: "pw_powi pw (f32_sub t (cu_k c)) 3 = Fin p"
    "- (2 ^ 106) \<le> p" "p \<le> 2 ^ 76" by (rule finite_inE)
  have "- (2 ^ 106) * (1/2) \<le> a * p" "a * p \<le> 2 ^ 75"
  proof -
    show "a * p \<le> 2 ^ 75"
    proof (cases "0 \<le> p")
      case True
      then have "a * p \<le> 1/2 * 2 ^ 76" using a p by (intro mult_mono) auto
      then show ?thesis by simp
    next
      case False
      then have "a * p \<le> 0" using a by (simp add: mult_le_0_iff)
      then show ?thesis by (rule order_trans) simp
    qed
    have "a * - p \<le> 1/2 * 2 ^ 106"
    proof (cases "0 \<le> - p")
      case True
      then show ?thesis using a p by (intro mult_mono) auto
    next
      case False
      then have "a * - p \<le> 0" using a by (simp add: mult_le_0_iff)
      then show ?thesis by (rule order_trans) simp
    qed
    then show "- (2 ^ 106) * (1/2) \<le> a * p" by simp
  qed
  then have "finite_in (- (2 ^ 105)) (2 ^ 75) (round32 (a * p))"
    by (intro round32_signed) (use representable_pow2 [of 105] representable_pow2 [of 75] in auto)
  then obtain q where q: "round32 (a * p) = Fin q" "- (2 ^ 105) \<le> q" "q \<le> 2 ^ 75" by (rule finite_inE)
  have "finite_in (- (2 ^ 106)) (2 ^ 100) (round32 (w + q))"
  proof (cases "0 \<le> q")
    case True
    then show ?thesis using round32_saturates [of 100 w q] w q by (fastforce simp: finite_in_def)
  next
    case False
    then show ?thesis
      by (intro round32_signed) (use w q representable_pow2 [of 106] representable_pow2 [of 100] in auto)
  qed
  then show ?thesis using a p q w by (simp add: cubic_target_def a(1) add.commute)
qed

text \<open>The steps of the operations keep the bounds.\<close>

lemma scaled_bound:
  assumes "finite_in 0 (2 ^ e) x" "0 \<le> k" "k \<le> 2 ^ j" "e + j \<le> 120"
  shows "finite_in 0 (2 ^ (e + j)) (f32_mul x (Fin k))"
proof -
  obtain r where r: "x = Fin r" "0 \<le> r" "r \<le> 2 ^ e" using assms(1) by (rule finite_inE)
  have "r * k \<le> 2 ^ e * 2 ^ j" using r assms by (intro mult_mono) auto
  then have "r * k \<le> 2 ^ (e + j)" by (simp add: power_add)
  moreover have "(2 :: rat) ^ (e + j) < 2 ^ 128" using assms(4) by (intro power_strict_increasing) auto
  ultimately obtain y where "round32 (r * k) = Fin y" "0 \<le> y" "y \<le> 2 ^ (e + j)"
    using round32_bounded [OF _ _ representable_pow2 [of "e + j"], of "r * k"] r assms by auto
  then show ?thesis using r by simp
qed

lemma div_c_bound:
  assumes "finite_in 0 (2 ^ 100) x"
  shows "finite_in 0 (2 ^ 103) (f32_div x CUBIC_C)"
proof -
  obtain r where r: "x = Fin r" "0 \<le> r" "r \<le> 2 ^ 100" using assms by (rule finite_inE)
  obtain a where a: "CUBIC_C = Fin a" "1/4 \<le> a" "a \<le> 1/2" by (rule cubic_c_f32)
  have "r * 1 \<le> r * (4 * a)" using r a by (intro mult_left_mono) auto
  then have "r / a \<le> r * 4" using a by (simp add: divide_le_eq mult.assoc)
  then have "r / a \<le> 2 ^ 103" using r by simp
  then obtain y where "round32 (r / a) = Fin y" "0 \<le> y" "y \<le> 2 ^ 103"
    by (rule round32_bounded [OF _ _ representable_pow2 [of 103], rotated]) (use r a in auto)
  then show ?thesis using r a(2) by (simp add: a(1))
qed

lemma beta_f32:
  obtains b where "BETA = Fin b" "1/2 \<le> b" "b \<le> 1" "finite_in 0 2 (f32_add (Fin 1) BETA)" "finite_in 0 1 (f32_sub (Fin 1) BETA)"
proof -
  have rep: "representable (1/2)" "representable 1" "representable 2"
    using representable_scaled [of 1 "- 1"] representable_nat [of 1] representable_nat [of 2] by (simp_all add: power_int_def)
  obtain b where b: "round32 (7/10) = Fin b" "1/2 \<le> b" "b \<le> 1" using round32_between [of "1/2" "7/10" 1] rep by auto
  obtain p where "round32 (1 + b) = Fin p" "0 \<le> p" "p \<le> 2"
    by (rule round32_bounded [OF _ _ rep(3), of "1 + b"]) (use b in auto)
  moreover obtain q where "round32 (1 - b) = Fin q" "0 \<le> q" "q \<le> 1"
    by (rule round32_bounded [OF _ _ rep(2), of "1 - b"]) (use b in auto)
  ultimately show ?thesis using b by (intro that [of b]) (simp_all add: BETA_def f32_sub_def)
qed

lemma max_bound: "finite_in 0 (2 ^ 100) x \<Longrightarrow> finite_in 2 (2 ^ 100) (f32_max x CUBIC_MIN_CWND)"
  by (auto simp: finite_in_def f32_max_def CUBIC_MIN_CWND_def)

lemma halved_sum_bound:
  assumes "finite_in 0 (2 ^ 100) x"
  shows "finite_in 0 (2 ^ 100) (f32_div (f32_mul x (f32_add (Fin 1) BETA)) (Fin 2))"
proof -
  obtain b p where p: "f32_add (Fin 1) BETA = Fin p" "0 \<le> p" "p \<le> 2" by (rule beta_f32) (auto elim: finite_inE)
  have "finite_in 0 (2 ^ (100 + 1)) (f32_mul x (Fin p))" by (rule scaled_bound [OF assms]) (use p in auto)
  then obtain q where q: "f32_mul x (Fin p) = Fin q" "0 \<le> q" "q \<le> 2 ^ 101" by (auto elim: finite_inE)
  then have "q / 2 \<le> 2 ^ 100" by simp
  then obtain y where "round32 (q / 2) = Fin y" "0 \<le> y" "y \<le> 2 ^ 100"
    by (rule round32_bounded [OF _ _ representable_pow2 [of 100], rotated]) (use q in auto)
  with p q show ?thesis by (simp del: f32_add.simps f32_mul.simps)
qed

lemma cubic_on_nack_ok:
  assumes "pow_laws pw" "cubic_ok c"
  shows "cubic_ok (cubic_on_nack pw c now)"
proof -
  have cw: "finite_in 0 (2 ^ 100) (cu_cwnd c)" using assms(2) by (auto simp: cubic_ok_def finite_in_def)
  define w where "w = (if f32_less (cu_cwnd c) (cu_w_max c)
                   then f32_div (f32_mul (cu_cwnd c) (f32_add (Fin 1) BETA)) (Fin 2) else cu_cwnd c)"
  have w: "finite_in 0 (2 ^ 100) w" using halved_sum_bound [OF cw] cw by (simp add: w_def)
  obtain b q where b: "BETA = Fin b" "1/2 \<le> b" "b \<le> 1" and q: "f32_sub (Fin 1) BETA = Fin q" "0 \<le> q" "q \<le> 1"
    by (rule beta_f32) (auto elim: finite_inE)
  have "finite_in 0 (2 ^ 103) (f32_div (f32_mul w (Fin q)) CUBIC_C)"
    using scaled_bound [OF w, of q 0] q by (intro div_c_bound) simp
  then have "finite_in 0 (2 ^ 35) (pw_powf pw (f32_div (f32_mul w (Fin q)) CUBIC_C) third)"
    using cube_root_bound [OF assms(1)] by (auto elim!: finite_inE)
  moreover have "finite_in 2 (2 ^ 100) (f32_max (f32_mul (cu_cwnd c) (Fin b)) CUBIC_MIN_CWND)"
    using scaled_bound [OF cw, of b 0] b by (intro max_bound) simp
  ultimately show ?thesis
    using w q(1) b(1) by (auto simp: cubic_on_nack_def Let_def w_def [symmetric] cubic_ok_def finite_in_def)
qed

lemma cubic_on_timeout_ok: "cubic_ok c \<Longrightarrow> cubic_ok (cubic_on_timeout c now)"
  by (auto simp: cubic_on_timeout_def cubic_ok_def finite_in_def)

lemma cubic_start_epoch_ok:
  assumes "pow_laws pw" "cubic_ok c" "0 \<le> now"
  shows "cubic_ok (cubic_start_epoch pw now c)"
proof -
  obtain x w where x: "cu_cwnd c = Fin x" "1 \<le> x" "x \<le> 2 ^ 100" and w: "cu_w_max c = Fin w" "0 \<le> w" "w \<le> 2 ^ 100"
    using assms(2) by (auto simp: cubic_ok_def finite_in_def)
  have "finite_in 0 (2 ^ 35) (pw_powf pw (f32_div (f32_sub (Fin w) (Fin x)) CUBIC_C) third)" if "x < w"
  proof -
    have "w - x \<le> 2 ^ 100" using w x by simp
    then obtain d where "round32 (w - x) = Fin d" "0 \<le> d" "d \<le> 2 ^ 100"
      by (rule round32_bounded [OF _ _ representable_pow2 [of 100], rotated]) (use \<open>x < w\<close> in auto)
    then have "finite_in 0 (2 ^ 103) (f32_div (f32_sub (Fin w) (Fin x)) CUBIC_C)"
      by (intro div_c_bound) (simp add: f32_sub_def)
    then show ?thesis using cube_root_bound [OF assms(1)] by (auto elim!: finite_inE)
  qed
  with assms x w show ?thesis by (auto simp: cubic_start_epoch_def cubic_ok_def Let_def)
qed

lemma cubic_update_ok:
  assumes "pow_laws pw" "cubic_ok c" "in_year now"
  shows "cubic_ok (cubic_update_cwnd pw now c)"
proof (cases "cu_epoch_start c")
  case (Some e)
  let ?t = "as_secs_f32 (saturating_duration_since now e)"
  have "saturating_duration_since now e \<le> 2 ^ 25 * nanos_per_sec"
    using assms(2,3) Some by (auto simp: cubic_ok_def in_year_def saturating_duration_since_def from_secs_def nanos_per_sec_def)
  then have "finite_in 0 (2 ^ 25) ?t" by (rule as_secs_f32_pow) (auto simp: finite_in_def)
  then have "finite_in (- (2 ^ 106)) (2 ^ 100) (cubic_target pw ?t c)"
    using assms(1,2) by (intro cubic_target_bound) (auto simp: cubic_ok_def)
  then obtain y where y: "cubic_target pw ?t c = Fin y" "y \<le> 2 ^ 100" by (rule finite_inE)
  obtain z where z: "cu_tcp_cwnd c = Fin z" "1 \<le> z" using assms(2) by (auto simp: cubic_ok_def finite_in_def)
  show ?thesis
    using assms(2) y z Some by (auto simp: cubic_update_cwnd_def Let_def cubic_ok_def)
qed (use assms in \<open>simp add: cubic_update_cwnd_def\<close>)

lemma cubic_on_ack_ok:
  assumes "pow_laws pw" "cubic_ok c" "bytes \<le> usize_max" "in_year now"
  shows "cubic_ok (cubic_on_ack pw c rtt sample bytes fl now)"
proof -
  obtain f where f: "f32_div (f32_of_nat bytes) (f32_of_nat ESTIMATED_PAYLOAD_SIZE) = Fin f" "0 \<le> f" "f \<le> 2 ^ 64"
    using f32_of_nat_usize [OF assms(3)] f32_div_small [of _ 1300] payload_f32 by (metis one_le_numeral)
  let ?c = "c\<lparr>cu_last_rtt := rtt\<rparr>"
  have c: "cubic_ok ?c" using assms(2) by (simp add: cubic_ok_def)
  have "0 \<le> now" using assms(4) by (simp add: in_year_def)
  then have "cubic_ok (if cu_epoch_start ?c = None then cubic_start_epoch pw now ?c else ?c)"
    using cubic_start_epoch_ok [OF assms(1) c] c by simp
  then obtain c2 where c2: "c2 = (if cu_epoch_start ?c = None then cubic_start_epoch pw now ?c else ?c)" "cubic_ok c2" by simp
  obtain z where z: "cu_tcp_cwnd c2 = Fin z" "1 \<le> z" "z \<le> 2 ^ 100" using c2(2) by (auto simp: cubic_ok_def finite_in_def)
  obtain g where g: "f32_div (Fin f) (Fin z) = Fin g" "0 \<le> g" "g \<le> 2 ^ 64" using f32_div_small [OF f(2,3) z(2)] .
  obtain v where v: "f32_add (Fin z) (Fin g) = Fin v" "1 \<le> v" "v \<le> 2 ^ 100" using cwnd_add [OF z(2,3) g(2,3)] .
  have avoid: "cubic_ok (c2\<lparr>cu_tcp_cwnd := f32_add (cu_tcp_cwnd c2) (f32_div (Fin f) (cu_tcp_cwnd c2))\<rparr>)"
    using c2(2) z(1) g(1) v by (simp add: cubic_ok_def del: f32_div.simps f32_add.simps)
  obtain x where x: "cu_cwnd c = Fin x" "1 \<le> x" "x \<le> 2 ^ 100" using assms(2) by (auto simp: cubic_ok_def finite_in_def)
  obtain u where u: "f32_add (Fin x) (Fin f) = Fin u" "1 \<le> u" "u \<le> 2 ^ 100" using cwnd_add [OF x(2,3) f(2,3)] .
  have slow: "cubic_ok (?c\<lparr>cu_cwnd := Fin u, cu_tcp_cwnd := Fin u\<rparr>)" using c u by (simp add: cubic_ok_def)
  show ?thesis
    unfolding cubic_on_ack_def Let_def f(1) c2(1) [symmetric]
    using slow x(1) u(1) cubic_update_ok [OF assms(1) avoid assms(4)] by (simp del: f32_div.simps f32_add.simps)
qed

lemma cubic_new_ok: "cubic_ok cubic_new"
  by (simp add: cubic_ok_def cubic_new_def INITIAL_CWND_def)

lemma cubic_contract:
  assumes "pow_laws pw"
  shows "congestion_control (cubic_ops pw) cubic_ok"
proof
  show "cubic_ok (cc_apply (cubic_ops pw) ev c)" if "cubic_ok c" "cc_event_ok ev" for c ev
    using that assms by (cases ev) (auto simp: cubic_ops_def intro!: cubic_on_ack_ok cubic_on_nack_ok cubic_on_timeout_ok)
  fix c assume "cubic_ok c"
  then obtain x where x: "cu_cwnd c = Fin x" "1 \<le> x" "x \<le> 2 ^ 100" by (auto simp: cubic_ok_def finite_in_def)
  have "1 \<le> nat \<lfloor>x\<rfloor>" using x by (simp add: le_nat_iff le_floor_iff)
  with x show "1 \<le> cc_cwnd (cubic_ops pw) c"
    by (simp add: cubic_ops_def cubic_cwnd_def f32_max_def CUBIC_MIN_CWND_def usize_max_def)
  show "\<exists>r. cc_pacing_rate (cubic_ops pw) c = Fin r \<and> 0 < r"
    using window_rate_pos [OF x(2,3), of "cu_last_rtt c"]
    by (force simp: cubic_ops_def cubic_pacing_rate_def Let_def x(1) simp del: f32_mul.simps f32_div.simps)
qed

section \<open>Power functions that meet the laws\<close>

definition integer_root :: "nat \<Rightarrow> nat" where
  "integer_root n = Max (set (filter (\<lambda>i. i ^ 3 \<le> n) [0..<Suc n]))"

fun exact_powi :: "f32 \<Rightarrow> int \<Rightarrow> f32" where
  "exact_powi (Fin x) n = Fin (x powi n)"
| "exact_powi x n = x"

fun floor_root :: "f32 \<Rightarrow> f32 \<Rightarrow> f32" where
  "floor_root (Fin x) e = Fin (of_nat (integer_root (nat \<lfloor>x\<rfloor>)))"
| "floor_root x e = x"

lemma integer_root_cube: "integer_root n ^ 3 \<le> n"
proof -
  have "0 \<in> set (filter (\<lambda>i. i ^ 3 \<le> n) [0..<Suc n])" by (auto simp del: upt_Suc)
  then have "integer_root n \<in> set (filter (\<lambda>i. i ^ 3 \<le> n) [0..<Suc n])"
    unfolding integer_root_def by (intro Max_in) (auto simp del: upt_Suc)
  then show ?thesis by (simp del: upt_Suc)
qed

lemma pow_laws_met: "pow_laws \<lparr>pw_powi = exact_powi, pw_powf = floor_root\<rparr>"
proof -
  have "rat_of_nat (integer_root (nat \<lfloor>x\<rfloor>)) ^ 3 \<le> 2 * x" if "0 \<le> x" for x :: rat
  proof -
    have "rat_of_nat (integer_root (nat \<lfloor>x\<rfloor>)) ^ 3 \<le> of_nat (nat \<lfloor>x\<rfloor>)"
      using integer_root_cube [of "nat \<lfloor>x\<rfloor>"] by (metis of_nat_le_iff of_nat_power)
    also have "\<dots> \<le> x" using that by simp
    finally show ?thesis using that by simp
  qed
  then show ?thesis by (simp add: pow_laws_def power_int_def)
qed

end
