(* ===== verification/Algorithm.thy ===== *)
theory Algorithm
  imports Bbrv2 Cubic
begin

text \<open>
  \<^verbatim>\<open>tox-sequenced/src/congestion/mod.rs\<close>: the enumeration of the controllers and its dispatch. Each arm meets the contract,
  so the enumeration does, and it never changes the arm.
\<close>

datatype algorithm_type = AtAimd | AtCubic | AtBbrv1 | AtBbrv2

definition ALL_TYPES :: "algorithm_type list" where
  "ALL_TYPES = [AtAimd, AtCubic, AtBbrv1, AtBbrv2]"

fun algorithm_type_name :: "algorithm_type \<Rightarrow> string" where
  "algorithm_type_name AtAimd = ''AIMD''"
| "algorithm_type_name AtBbrv1 = ''BBRv1''"
| "algorithm_type_name AtBbrv2 = ''BBRv2''"
| "algorithm_type_name AtCubic = ''CUBIC''"

datatype 'g algorithm = AlAimd aimd | AlCubic cubic | AlBbrv1 "'g bbrv1" | AlBbrv2 "'g bbrv2"

fun algorithm_new :: "algorithm_type \<Rightarrow> 'g \<Rightarrow> 'g algorithm" where
  "algorithm_new AtAimd rng = AlAimd aimd_new"
| "algorithm_new AtBbrv1 rng = AlBbrv1 (b1_new rng)"
| "algorithm_new AtBbrv2 rng = AlBbrv2 (b2_new rng)"
| "algorithm_new AtCubic rng = AlCubic cubic_new"

fun algo_type :: "'g algorithm \<Rightarrow> algorithm_type" where
  "algo_type (AlAimd _) = AtAimd"
| "algo_type (AlBbrv1 _) = AtBbrv1"
| "algo_type (AlBbrv2 _) = AtBbrv2"
| "algo_type (AlCubic _) = AtCubic"

text \<open>The macro \<^verbatim>\<open>dispatch!\<close> for the methods that update the controller and for those that read it.\<close>

fun dispatch_update ::
    "(aimd cc_ops \<Rightarrow> aimd \<Rightarrow> aimd) \<Rightarrow> (cubic cc_ops \<Rightarrow> cubic \<Rightarrow> cubic) \<Rightarrow> ('g bbrv1 cc_ops \<Rightarrow> 'g bbrv1 \<Rightarrow> 'g bbrv1) \<Rightarrow>
     ('g bbrv2 cc_ops \<Rightarrow> 'g bbrv2 \<Rightarrow> 'g bbrv2) \<Rightarrow> 'g rng_ops \<Rightarrow> pow_ops \<Rightarrow> 'g algorithm \<Rightarrow> 'g algorithm" where
  "dispatch_update f1 f2 f3 f4 rg pw (AlAimd a) = AlAimd (f1 aimd_ops a)"
| "dispatch_update f1 f2 f3 f4 rg pw (AlCubic a) = AlCubic (f2 (cubic_ops pw) a)"
| "dispatch_update f1 f2 f3 f4 rg pw (AlBbrv1 a) = AlBbrv1 (f3 (b1_ops rg) a)"
| "dispatch_update f1 f2 f3 f4 rg pw (AlBbrv2 a) = AlBbrv2 (f4 (b2_ops rg) a)"

fun dispatch_read ::
    "(aimd cc_ops \<Rightarrow> aimd \<Rightarrow> 'r) \<Rightarrow> (cubic cc_ops \<Rightarrow> cubic \<Rightarrow> 'r) \<Rightarrow> ('g bbrv1 cc_ops \<Rightarrow> 'g bbrv1 \<Rightarrow> 'r) \<Rightarrow>
     ('g bbrv2 cc_ops \<Rightarrow> 'g bbrv2 \<Rightarrow> 'r) \<Rightarrow> 'g rng_ops \<Rightarrow> pow_ops \<Rightarrow> 'g algorithm \<Rightarrow> 'r" where
  "dispatch_read f1 f2 f3 f4 rg pw (AlAimd a) = f1 aimd_ops a"
| "dispatch_read f1 f2 f3 f4 rg pw (AlCubic a) = f2 (cubic_ops pw) a"
| "dispatch_read f1 f2 f3 f4 rg pw (AlBbrv1 a) = f3 (b1_ops rg) a"
| "dispatch_read f1 f2 f3 f4 rg pw (AlBbrv2 a) = f4 (b2_ops rg) a"

definition algorithm_ops :: "'g rng_ops \<Rightarrow> pow_ops \<Rightarrow> 'g algorithm cc_ops" where
  "algorithm_ops rg pw =
     \<lparr>cc_on_ack = (\<lambda>s rtt sample bytes fl now.
        dispatch_update (\<lambda>p a. cc_on_ack p a rtt sample bytes fl now) (\<lambda>p a. cc_on_ack p a rtt sample bytes fl now)
          (\<lambda>p a. cc_on_ack p a rtt sample bytes fl now) (\<lambda>p a. cc_on_ack p a rtt sample bytes fl now) rg pw s),
      cc_on_nack = (\<lambda>s now.
        dispatch_update (\<lambda>p a. cc_on_nack p a now) (\<lambda>p a. cc_on_nack p a now)
          (\<lambda>p a. cc_on_nack p a now) (\<lambda>p a. cc_on_nack p a now) rg pw s),
      cc_on_timeout = (\<lambda>s now.
        dispatch_update (\<lambda>p a. cc_on_timeout p a now) (\<lambda>p a. cc_on_timeout p a now)
          (\<lambda>p a. cc_on_timeout p a now) (\<lambda>p a. cc_on_timeout p a now) rg pw s),
      cc_cwnd = dispatch_read cc_cwnd cc_cwnd cc_cwnd cc_cwnd rg pw,
      cc_pacing_rate = dispatch_read cc_pacing_rate cc_pacing_rate cc_pacing_rate cc_pacing_rate rg pw,
      cc_min_rtt = dispatch_read cc_min_rtt cc_min_rtt cc_min_rtt cc_min_rtt rg pw,
      cc_on_fragment_sent = (\<lambda>s bytes now.
        dispatch_update (\<lambda>p a. cc_on_fragment_sent p a bytes now) (\<lambda>p a. cc_on_fragment_sent p a bytes now)
          (\<lambda>p a. cc_on_fragment_sent p a bytes now) (\<lambda>p a. cc_on_fragment_sent p a bytes now) rg pw s)\<rparr>"

section \<open>The enumeration behaves as its arm\<close>

lemma algorithm_apply [simp]:
  "cc_apply (algorithm_ops rg pw) ev (AlAimd a) = AlAimd (cc_apply aimd_ops ev a)"
  "cc_apply (algorithm_ops rg pw) ev (AlCubic c) = AlCubic (cc_apply (cubic_ops pw) ev c)"
  "cc_apply (algorithm_ops rg pw) ev (AlBbrv1 b) = AlBbrv1 (cc_apply (b1_ops rg) ev b)"
  "cc_apply (algorithm_ops rg pw) ev (AlBbrv2 d) = AlBbrv2 (cc_apply (b2_ops rg) ev d)"
  by (cases ev; simp add: algorithm_ops_def)+

lemma algorithm_run:
  "fold (cc_apply (algorithm_ops rg pw)) evs (AlAimd a) = AlAimd (fold (cc_apply aimd_ops) evs a)"
  "fold (cc_apply (algorithm_ops rg pw)) evs (AlCubic c) = AlCubic (fold (cc_apply (cubic_ops pw)) evs c)"
  "fold (cc_apply (algorithm_ops rg pw)) evs (AlBbrv1 b) = AlBbrv1 (fold (cc_apply (b1_ops rg)) evs b)"
  "fold (cc_apply (algorithm_ops rg pw)) evs (AlBbrv2 d) = AlBbrv2 (fold (cc_apply (b2_ops rg)) evs d)"
  by (induction evs arbitrary: a b c d) simp_all

lemma algo_type_new [simp]: "algo_type (algorithm_new ty g) = ty"
  by (cases ty) simp_all

lemma algo_type_run: "algo_type (fold (cc_apply (algorithm_ops rg pw)) evs a) = algo_type a"
  by (cases a) (simp_all add: algorithm_run)

fun algorithm_ok :: "'g algorithm \<Rightarrow> bool" where
  "algorithm_ok (AlAimd a) = aimd_ok a"
| "algorithm_ok (AlCubic c) = cubic_ok c"
| "algorithm_ok (AlBbrv1 b) = b1_ok b"
| "algorithm_ok (AlBbrv2 d) = b2_ok d"

lemma algorithm_new_ok: "algorithm_ok (algorithm_new ty g)"
  by (cases ty) (simp_all add: aimd_new_ok cubic_new_ok b1_new_ok b2_new_ok)

lemma algorithm_contract:
  assumes "pow_laws pw"
  shows "congestion_control (algorithm_ops rg pw) algorithm_ok"
proof -
  note cubic = congestion_control.invar_apply [OF cubic_contract [OF assms]]
    congestion_control.cwnd_pos [OF cubic_contract [OF assms]] congestion_control.rate_pos [OF cubic_contract [OF assms]]
  show ?thesis
  proof
    show "algorithm_ok (cc_apply (algorithm_ops rg pw) ev a)" if "algorithm_ok a" "cc_event_ok ev" for a ev
      using that cubic(1) aimd.invar_apply bbr1.invar_apply bbr2.invar_apply by (cases a) simp_all
    show "1 \<le> cc_cwnd (algorithm_ops rg pw) a" if "algorithm_ok a" for a
      using that cubic(2) aimd.cwnd_pos bbr1.cwnd_pos bbr2.cwnd_pos by (cases a) (simp_all add: algorithm_ops_def)
    show "\<exists>r. cc_pacing_rate (algorithm_ops rg pw) a = Fin r \<and> 0 < r" if "algorithm_ok a" for a
      using that cubic(3) aimd.rate_pos bbr1.rate_pos bbr2.rate_pos by (cases a) (simp_all add: algorithm_ops_def)
  qed
qed

end
