(* ===== verification/Cas.thy ===== *)
theory Cas
  imports Flat_Map "HOL-Library.List_Lexorder" "HOL-Library.Product_Lexorder"
begin

unbundle bit_operations_syntax

text \<open>
  \<^verbatim>\<open>merkle-tox-core/src/cas.rs\<close>: which chunks of a large blob have arrived, and the distribution of
  chunk requests over the peers that have the blob. The hash sets and maps are lists with distinct
  keys; no operation depends on their order. The decoder of the crate \<^verbatim>\<open>bao\<close> is a parameter.
\<close>

section \<open>Data\<close>

datatype blob_status = Pending | Downloading | Available | Error

record blob_info =
  bi_hash :: bytes
  bi_size :: nat
  bi_bao_root :: "bytes option"
  bi_status :: blob_status
  bi_received_mask :: "u8 list option"
  bi_decryption_key :: "bytes option"

record blob_req =
  br_hash :: bytes
  br_offset :: nat
  br_length :: nat

record blob_data =
  bd_hash :: bytes
  bd_offset :: nat
  bd_data :: bytes
  bd_proof :: bytes

text \<open>
  \<^verbatim>\<open>bao::decode::SliceDecoder\<close> over a proof, a root, an offset and a length: the decoded bytes, or
  \<open>None\<close> for an error.
\<close>

type_synonym bao_decoder = "bytes \<Rightarrow> bytes \<Rightarrow> nat \<Rightarrow> nat \<Rightarrow> bytes option"

definition blob_verify :: "bao_decoder \<Rightarrow> blob_data \<Rightarrow> bytes \<Rightarrow> bool" where
  "blob_verify bao d bao_root =
     (case bao (bd_proof d) bao_root (bd_offset d) (length (bd_data d)) of
        None \<Rightarrow> False
      | Some decoded_data \<Rightarrow> decoded_data = bd_data d)"

definition CHUNK_SIZE :: nat where "CHUNK_SIZE = 64 * 1024"
definition FETCH_TIMEOUT :: duration where "FETCH_TIMEOUT = from_secs 15"

section \<open>ChunkTracker\<close>

record chunk_tracker =
  ct_hash :: bytes
  ct_total_size :: nat
  ct_received_mask :: "u8 list"

definition ct_num_chunks :: "chunk_tracker \<Rightarrow> nat" where
  "ct_num_chunks t = div_ceil (ct_total_size t) CHUNK_SIZE"

definition ct_new :: "bytes \<Rightarrow> nat \<Rightarrow> chunk_tracker" where
  "ct_new h total_size =
     \<lparr>ct_hash = h, ct_total_size = total_size,
      ct_received_mask = replicate (div_ceil (div_ceil total_size CHUNK_SIZE) 8) 0\<rparr>"

definition mark_received :: "chunk_tracker \<Rightarrow> nat \<Rightarrow> chunk_tracker" where
  "mark_received t chunk_index =
     (let byte_idx = chunk_index div 8; bit_idx = chunk_index mod 8 in
      if byte_idx < length (ct_received_mask t) then
        t\<lparr>ct_received_mask := (ct_received_mask t)[byte_idx := (ct_received_mask t ! byte_idx) OR push_bit bit_idx 1]\<rparr>
      else t)"

definition is_received :: "chunk_tracker \<Rightarrow> nat \<Rightarrow> bool" where
  "is_received t chunk_index =
     (let byte_idx = chunk_index div 8; bit_idx = chunk_index mod 8 in
      if byte_idx < length (ct_received_mask t) then (ct_received_mask t ! byte_idx) AND push_bit bit_idx 1 \<noteq> 0
      else False)"

definition is_complete :: "chunk_tracker \<Rightarrow> bool" where
  "is_complete t = list_all (is_received t) [0..<ct_num_chunks t]"

text \<open>The first missing chunk from the hint on, else the first one before the hint.\<close>

definition next_missing :: "chunk_tracker \<Rightarrow> nat \<Rightarrow> nat option" where
  "next_missing t hint =
     (case find (\<lambda>i. \<not> is_received t i) [hint..<ct_num_chunks t] of
        Some i \<Rightarrow> Some i
      | None \<Rightarrow> find (\<lambda>i. \<not> is_received t i) [0..<hint])"

section \<open>SwarmSync\<close>

record swarm_sync =
  sw_info :: blob_info
  sw_tracker :: chunk_tracker
  sw_seeders :: "bytes list"
  sw_active_fetches :: "(nat, bytes \<times> instant) flat_map"

definition sw_new :: "blob_info \<Rightarrow> swarm_sync" where
  "sw_new info =
     \<lparr>sw_info = info, sw_tracker = ct_new (bi_hash info) (bi_size info), sw_seeders = [], sw_active_fetches = fm_new\<rparr>"

definition add_seeder :: "swarm_sync \<Rightarrow> bytes \<Rightarrow> swarm_sync" where
  "add_seeder s peer = s\<lparr>sw_seeders := (if peer \<in> set (sw_seeders s) then sw_seeders s else sw_seeders s @ [peer])\<rparr>"

definition remove_seeder :: "swarm_sync \<Rightarrow> bytes \<Rightarrow> swarm_sync" where
  "remove_seeder s peer =
     s\<lparr>sw_seeders := filter (\<lambda>p. p \<noteq> peer) (sw_seeders s),
       sw_active_fetches := filter (\<lambda>(_, p, _). p \<noteq> peer) (sw_active_fetches s)\<rparr>"

definition clear_stalled_fetches :: "swarm_sync \<Rightarrow> instant \<Rightarrow> swarm_sync" where
  "clear_stalled_fetches s now =
     s\<lparr>sw_active_fetches :=
         filter (\<lambda>(_, _, start). saturating_duration_since now start < FETCH_TIMEOUT) (sw_active_fetches s)\<rparr>"

text \<open>\<^verbatim>\<open>*in_flight_per_peer.entry(peer).or_default() += 1\<close>\<close>

definition peer_load :: "(bytes, nat) flat_map \<Rightarrow> bytes \<Rightarrow> nat" where
  "peer_load loads p = (case fm_get loads p of None \<Rightarrow> 0 | Some n \<Rightarrow> n)"

definition count_request :: "bytes \<Rightarrow> (bytes, nat) flat_map \<Rightarrow> (bytes, nat) flat_map" where
  "count_request p loads = fm_set loads p (peer_load loads p + 1)"

definition initial_loads :: "swarm_sync \<Rightarrow> (bytes, nat) flat_map" where
  "initial_loads s = fold (\<lambda>(peer, _) loads. count_request peer loads) (fm_values (sw_active_fetches s)) fm_new"

text \<open>The seeder with the least load below four, the smaller key first.\<close>

definition pick_seeder :: "bytes list \<Rightarrow> (bytes, nat) flat_map \<Rightarrow> bytes option" where
  "pick_seeder seeders loads =
     (case filter (\<lambda>p. peer_load loads p < 4) seeders of
        [] \<Rightarrow> None
      | p # ps \<Rightarrow> Some (snd (fold min (map (\<lambda>p. (peer_load loads p, p)) ps) (peer_load loads p, p))))"

fun request_loop ::
    "nat \<Rightarrow> nat \<Rightarrow> instant \<Rightarrow> nat \<Rightarrow> (bytes, nat) flat_map \<Rightarrow> (bytes \<times> blob_req) list \<Rightarrow> swarm_sync
       \<Rightarrow> (bytes \<times> blob_req) list \<times> swarm_sync" where
  "request_loop 0 max_total now hint loads reqs s = (reqs, s)"
| "request_loop (Suc n) max_total now hint loads reqs s =
     (if length reqs \<ge> max_total then (reqs, s)
      else (case next_missing (sw_tracker s) hint of
              None \<Rightarrow> (reqs, s)
            | Some chunk_idx \<Rightarrow>
                if fm_contains_key (sw_active_fetches s) chunk_idx then
                  request_loop n max_total now (chunk_idx + 1) loads reqs s
                else (case pick_seeder (sw_seeders s) loads of
                        None \<Rightarrow> request_loop n max_total now (chunk_idx + 1) loads reqs s
                      | Some seeder \<Rightarrow>
                          request_loop n max_total now (chunk_idx + 1) (count_request seeder loads)
                            (reqs @ [(seeder, \<lparr>br_hash = bi_hash (sw_info s), br_offset = chunk_idx * CHUNK_SIZE,
                                               br_length = CHUNK_SIZE\<rparr>)])
                            (s\<lparr>sw_active_fetches := fm_set (sw_active_fetches s) chunk_idx (seeder, now)\<rparr>))))"

definition next_requests :: "swarm_sync \<Rightarrow> nat \<Rightarrow> instant \<Rightarrow> (bytes \<times> blob_req) list \<times> swarm_sync" where
  "next_requests s max_total now =
     request_loop (div_ceil (bi_size (sw_info s)) CHUNK_SIZE) max_total now 0 (initial_loads s) [] s"

definition on_chunk_received :: "bao_decoder \<Rightarrow> swarm_sync \<Rightarrow> blob_data \<Rightarrow> bool \<times> swarm_sync" where
  "on_chunk_received bao s d =
     (let chunk_idx = bd_offset d div CHUNK_SIZE;
          s1 = s\<lparr>sw_active_fetches := fm_del (sw_active_fetches s) chunk_idx\<rparr>
      in if (case bi_bao_root (sw_info s1) of None \<Rightarrow> False | Some bao_root \<Rightarrow> \<not> blob_verify bao d bao_root)
         then (False, s1)
         else (True, s1\<lparr>sw_tracker := mark_received (sw_tracker s1) chunk_idx\<rparr>))"

definition sw_next_wakeup :: "swarm_sync \<Rightarrow> instant \<Rightarrow> instant" where
  "sw_next_wakeup s now =
     (let next = fold (\<lambda>(_, start) t. min t (inst_add start FETCH_TIMEOUT)) (fm_values (sw_active_fetches s))
                   (inst_add now (from_secs 3600));
          busy_peers = map fst (fm_values (sw_active_fetches s));
          has_available_seeder = list_ex (\<lambda>p. p \<notin> set busy_peers) (sw_seeders s)
      in if has_available_seeder \<and>
            list_ex (\<lambda>i. \<not> is_received (sw_tracker s) i \<and> \<not> fm_contains_key (sw_active_fetches s) i)
              [0..<ct_num_chunks (sw_tracker s)]
         then now else next)"

section \<open>The set of received chunks\<close>

definition received_chunks :: "chunk_tracker \<Rightarrow> nat set" where
  "received_chunks t = {i. is_received t i}"

lemma is_received_bit:
  "is_received t i \<longleftrightarrow> i div 8 < length (ct_received_mask t) \<and> bit (ct_received_mask t ! (i div 8)) (i mod 8)"
proof -
  have "w AND push_bit (i mod 8) 1 \<noteq> 0 \<longleftrightarrow> bit w (i mod 8)" for w :: u8
    by (simp add: bit_iff_and_push_bit_not_eq_0)
  then show ?thesis by (simp add: is_received_def Let_def)
qed

lemma received_new: "received_chunks (ct_new h n) = {}"
  by (auto simp: received_chunks_def is_received_bit ct_new_def)

lemma received_mark:
  "received_chunks (mark_received t i) = (if i < 8 * length (ct_received_mask t) then insert i (received_chunks t) else received_chunks t)"
proof (cases "i div 8 < length (ct_received_mask t)")
  case True
  have "is_received (mark_received t i) j \<longleftrightarrow> is_received t j \<or> j = i" for j
  proof (cases "j div 8 = i div 8")
    case same: True
    have "j = i \<longleftrightarrow> j mod 8 = i mod 8" using same by (metis div_mult_mod_eq)
    moreover have "bit (w OR push_bit (i mod 8) 1) (j mod 8) \<longleftrightarrow> bit w (j mod 8) \<or> j mod 8 = i mod 8" for w :: u8
      by (auto simp: bit_simps)
    ultimately show ?thesis using True same by (simp add: is_received_bit mark_received_def Let_def)
  next
    case False
    then show ?thesis using True by (auto simp: is_received_bit mark_received_def Let_def)
  qed
  then show ?thesis using True by (auto simp: received_chunks_def)
next
  case False
  then have "\<not> i < 8 * length (ct_received_mask t)" by (simp add: less_mult_imp_div_less mult.commute not_less [symmetric] div_less_iff_less_mult)
  then show ?thesis using False by (simp add: mark_received_def Let_def received_chunks_def)
qed

lemma is_complete_iff: "is_complete t \<longleftrightarrow> {..<ct_num_chunks t} \<subseteq> received_chunks t"
  by (auto simp: is_complete_def list_all_iff received_chunks_def)

text \<open>\<open>missing_chunks t\<close>: what is still to be fetched.\<close>

definition missing_chunks :: "chunk_tracker \<Rightarrow> nat set" where
  "missing_chunks t = {..<ct_num_chunks t} - received_chunks t"

lemma find_upt_Some:
  "find P [a..<b] = Some i \<Longrightarrow> a \<le> i \<and> i < b \<and> P i \<and> (\<forall>j. a \<le> j \<longrightarrow> j < i \<longrightarrow> \<not> P j)"
  unfolding find_Some_iff by (auto simp: nth_append) (metis add_diff_inverse_nat add_less_cancel_left not_le)

lemma find_upt_None: "find P [a..<b] = None \<longleftrightarrow> (\<forall>i. a \<le> i \<longrightarrow> i < b \<longrightarrow> \<not> P i)"
  by (auto simp: find_None_iff)

text \<open>The search returns the first missing chunk at or after the hint, or wraps around.\<close>

lemma next_missing_Some:
  assumes "next_missing t hint = Some i" and "hint \<le> ct_num_chunks t"
  shows "i \<in> missing_chunks t \<and> ((hint \<le> i \<and> (\<forall>j \<in> missing_chunks t. hint \<le> j \<longrightarrow> i \<le> j)) \<or> (\<forall>j \<in> missing_chunks t. j < hint))"
proof (cases "find (\<lambda>i. \<not> is_received t i) [hint..<ct_num_chunks t]")
  case None
  then have "find (\<lambda>i. \<not> is_received t i) [0..<hint] = Some i" using assms(1) by (simp add: next_missing_def)
  from find_upt_Some [OF this] None assms(2) show ?thesis
    by (auto simp: find_upt_None missing_chunks_def received_chunks_def not_less)
next
  case (Some k)
  then have "k = i" using assms(1) by (simp add: next_missing_def)
  from find_upt_Some [OF Some] this show ?thesis by (auto simp: missing_chunks_def received_chunks_def)
qed

lemma next_missing_None:
  assumes "hint \<le> ct_num_chunks t"
  shows "next_missing t hint = None \<longleftrightarrow> missing_chunks t = {}"
proof (cases "next_missing t hint")
  case None
  then have "find (\<lambda>i. \<not> is_received t i) [hint..<ct_num_chunks t] = None" "find (\<lambda>i. \<not> is_received t i) [0..<hint] = None"
    by (simp_all add: next_missing_def split: option.splits)
  then have "is_received t i" if "i < ct_num_chunks t" for i
    using that by (cases "hint \<le> i") (auto simp: find_upt_None)
  then show ?thesis using None by (auto simp: missing_chunks_def received_chunks_def)
next
  case (Some i)
  then show ?thesis using next_missing_Some [OF Some assms] by auto
qed

section \<open>The requests\<close>

definition peer_fetches :: "swarm_sync \<Rightarrow> bytes \<Rightarrow> nat" where
  "peer_fetches s p = length (filter (\<lambda>(_, q, _). q = p) (sw_active_fetches s))"

definition chunk_request :: "swarm_sync \<Rightarrow> nat \<Rightarrow> blob_req" where
  "chunk_request s c = \<lparr>br_hash = bi_hash (sw_info s), br_offset = c * CHUNK_SIZE, br_length = CHUNK_SIZE\<rparr>"

lemma fm_set_absent: "fm_get m k = None \<Longrightarrow> fm_set m k v = m @ [(k, v)]"
  by (induction m) (auto split: if_splits)

lemma peer_load_count: "peer_load (count_request q loads) p = peer_load loads p + (if p = q then 1 else 0)"
  by (simp add: peer_load_def count_request_def)

lemma peer_load_initial: "peer_load (initial_loads s) p = peer_fetches s p"
proof -
  have "peer_load (fold (\<lambda>(peer, _) loads. count_request peer loads) (fm_values m) loads) p =
      peer_load loads p + length (filter (\<lambda>(_, q, _). q = p) m)" for m :: "(nat, bytes \<times> instant) flat_map" and loads
    by (induction m arbitrary: loads) (auto simp: fm_values_def peer_load_count split: prod.splits)
  then show ?thesis by (simp add: initial_loads_def peer_fetches_def) (simp add: peer_load_def fm_new_def)
qed

lemma pick_seeder_eq:
  "pick_seeder seeders loads =
     (let ps = filter (\<lambda>p. peer_load loads p < 4) seeders
      in if ps = [] then None else Some (snd (Min ((\<lambda>p. (peer_load loads p, p)) ` set ps))))"
proof (cases "filter (\<lambda>p. peer_load loads p < 4) seeders")
  case (Cons p ps)
  then have "set (map (\<lambda>p. (peer_load loads p, p)) (p # ps)) =
      (\<lambda>p. (peer_load loads p, p)) ` set (filter (\<lambda>p. peer_load loads p < 4) seeders)" by simp
  then show ?thesis
    using Cons Min.set_eq_fold [of "(peer_load loads p, p)" "map (\<lambda>p. (peer_load loads p, p)) ps"]
    by (simp add: pick_seeder_def Let_def del: set_filter)
qed (simp add: pick_seeder_def)

lemma pick_seeder_Some:
  assumes "pick_seeder seeders loads = Some p"
  shows "p \<in> set seeders \<and> peer_load loads p < 4 \<and> (\<forall>q \<in> set seeders. peer_load loads p \<le> peer_load loads q)"
proof -
  let ?ps = "filter (\<lambda>p. peer_load loads p < 4) seeders" and ?f = "\<lambda>p. (peer_load loads p, p)"
  have ne: "?ps \<noteq> []" and p: "p = snd (Min (?f ` set ?ps))"
    using assms by (auto simp: pick_seeder_eq Let_def simp del: filter_empty_conv split: if_splits)
  have "Min (?f ` set ?ps) \<in> ?f ` set ?ps" by (rule Min_in) (use ne in \<open>simp_all del: filter_empty_conv set_filter\<close>)
  then have min: "?f p = Min (?f ` set ?ps)" "p \<in> set ?ps" unfolding p by auto
  have "peer_load loads p \<le> peer_load loads q" if "q \<in> set seeders" for q
  proof (cases "peer_load loads q < 4")
    case True
    then have "?f p \<le> ?f q" unfolding min(1) by (intro Min_le) (use that in auto)
    then show ?thesis by (auto simp: less_eq_prod_def)
  qed (use min(2) in simp)
  then show ?thesis using min(2) by simp
qed

lemma pick_seeder_None: "pick_seeder seeders loads = None \<longleftrightarrow> (\<forall>p \<in> set seeders. 4 \<le> peer_load loads p)"
  by (auto simp: pick_seeder_eq Let_def filter_empty_conv not_less)

text \<open>A rule for invariants of the loop: only the requesting step changes the state.\<close>

lemma request_loop_rule:
  assumes "request_loop n max_total now hint loads reqs s = (reqs', s')" and "I reqs s loads"
    and "hint \<le> ct_num_chunks (sw_tracker s)"
    and "\<And>reqs s loads c p. I reqs s loads \<Longrightarrow> length reqs < max_total \<Longrightarrow> c \<in> missing_chunks (sw_tracker s) \<Longrightarrow>
      fm_get (sw_active_fetches s) c = None \<Longrightarrow> pick_seeder (sw_seeders s) loads = Some p \<Longrightarrow>
      I (reqs @ [(p, chunk_request s c)]) (s\<lparr>sw_active_fetches := sw_active_fetches s @ [(c, p, now)]\<rparr>) (count_request p loads)"
  shows "\<exists>loads'. I reqs' s' loads'"
  using assms(1,2,3)
proof (induction n arbitrary: hint loads reqs s)
  case (Suc n)
  show ?case
  proof (cases "length reqs < max_total \<and> missing_chunks (sw_tracker s) \<noteq> {}")
    case False
    then show ?thesis using Suc.prems next_missing_None [OF Suc.prems(3)] by (auto split: option.splits)
  next
    case True
    then obtain c where c: "next_missing (sw_tracker s) hint = Some c" "c \<in> missing_chunks (sw_tracker s)"
      using next_missing_None [OF Suc.prems(3)] next_missing_Some [OF _ Suc.prems(3)] by fastforce
    then have bound: "c + 1 \<le> ct_num_chunks (sw_tracker s)" by (auto simp: missing_chunks_def)
    show ?thesis
    proof (cases "fm_get (sw_active_fetches s) c = None \<and> pick_seeder (sw_seeders s) loads \<noteq> None")
      case req: True
      then obtain p where p: "pick_seeder (sw_seeders s) loads = Some p" by blast
      have run: "request_loop n max_total now (c + 1) (count_request p loads) (reqs @ [(p, chunk_request s c)])
          (s\<lparr>sw_active_fetches := sw_active_fetches s @ [(c, p, now)]\<rparr>) = (reqs', s')"
        using Suc.prems(1) True c(1) p req by (simp add: fm_set_absent chunk_request_def)
      show ?thesis
        by (rule Suc.IH [OF run assms(4)]) (use Suc.prems(2) True c(2) req p bound in simp_all)
    next
      case False
      then have "request_loop n max_total now (c + 1) loads reqs s = (reqs', s')"
        using Suc.prems(1) True c(1) by (auto split: option.splits if_splits)
      then show ?thesis using Suc.IH [of "c + 1" loads reqs s] Suc.prems(2) bound by simp
    qed
  qed
qed (use assms in auto)

definition sw_ok :: "swarm_sync \<Rightarrow> bool" where
  "sw_ok s \<longleftrightarrow> fm_wf (sw_active_fetches s) \<and> distinct (sw_seeders s) \<and> ct_total_size (sw_tracker s) = bi_size (sw_info s)"

lemma sw_new_ok: "sw_ok (sw_new info)"
  by (simp add: sw_ok_def sw_new_def fm_new_def ct_new_def)

lemma add_seeder_ok: "sw_ok s \<Longrightarrow> sw_ok (add_seeder s p)"
  by (simp add: sw_ok_def add_seeder_def)

lemma remove_seeder_ok: "sw_ok s \<Longrightarrow> sw_ok (remove_seeder s p)"
  by (auto simp: sw_ok_def remove_seeder_def distinct_map intro: inj_on_subset)

lemma clear_stalled_ok: "sw_ok s \<Longrightarrow> sw_ok (clear_stalled_fetches s now)"
  by (auto simp: sw_ok_def clear_stalled_fetches_def distinct_map intro: inj_on_subset)

lemma mark_received_size [simp]: "ct_total_size (mark_received t i) = ct_total_size t"
  by (simp add: mark_received_def Let_def)

lemma on_chunk_received_ok: "sw_ok s \<Longrightarrow> sw_ok (snd (on_chunk_received bao s d))"
  by (simp add: sw_ok_def on_chunk_received_def Let_def fm_wf_del)

text \<open>What is added: one fetch per request, each for a different missing chunk that nobody fetches yet.\<close>

definition with_fetches :: "swarm_sync \<Rightarrow> instant \<Rightarrow> (nat \<times> bytes) list \<Rightarrow> swarm_sync" where
  "with_fetches s now cs = s\<lparr>sw_active_fetches := sw_active_fetches s @ map (\<lambda>(c, p). (c, p, now)) cs\<rparr>"

lemma with_fetches_simps [simp]:
  "sw_tracker (with_fetches s now cs) = sw_tracker s" "sw_seeders (with_fetches s now cs) = sw_seeders s"
  "sw_info (with_fetches s now cs) = sw_info s" "with_fetches s now [] = s"
  "chunk_request (with_fetches s now cs) c = chunk_request s c"
  by (simp_all add: with_fetches_def chunk_request_def)

lemma with_fetches_snoc:
  "(with_fetches s now cs)\<lparr>sw_active_fetches := sw_active_fetches (with_fetches s now cs) @ [(c, p, now)]\<rparr> =
     with_fetches s now (cs @ [(c, p)])"
  by (simp add: with_fetches_def)

lemma fm_get_append: "fm_get (m @ m') k = (case fm_get m k of None \<Rightarrow> fm_get m' k | Some v \<Rightarrow> Some v)"
  by (induction m) auto

lemma with_fetches_get:
  "fm_get (sw_active_fetches (with_fetches s now cs)) c = None \<longleftrightarrow>
     fm_get (sw_active_fetches s) c = None \<and> c \<notin> fst ` set cs"
proof -
  have "fst ` set (map (\<lambda>(c, p). (c, p, now)) cs) = fst ` set cs" by force
  then show ?thesis by (simp add: with_fetches_def fm_get_None_iff image_Un)
qed

lemma with_fetches_peer:
  "peer_fetches (with_fetches s now (cs @ [(c, q)])) p = peer_fetches (with_fetches s now cs) p + (if p = q then 1 else 0)"
  by (auto simp: peer_fetches_def with_fetches_def)

definition good_requests :: "swarm_sync \<Rightarrow> instant \<Rightarrow> nat \<Rightarrow> (nat \<times> bytes) list \<Rightarrow> bool" where
  "good_requests s now max_total cs \<longleftrightarrow>
     length cs \<le> max_total \<and> distinct (map fst cs) \<and>
     (\<forall>(c, p) \<in> set cs. c \<in> missing_chunks (sw_tracker s) \<and> fm_get (sw_active_fetches s) c = None \<and> p \<in> set (sw_seeders s) \<and>
        peer_fetches (with_fetches s now cs) p \<le> 4)"

lemma good_requests_snoc:
  assumes "good_requests s now max_total cs" and "length cs < max_total" and "c \<in> missing_chunks (sw_tracker s)"
    and "fm_get (sw_active_fetches (with_fetches s now cs)) c = None" and "p \<in> set (sw_seeders s)"
    and "peer_fetches (with_fetches s now cs) p < 4"
  shows "good_requests s now max_total (cs @ [(c, p)])"
  using assms by (auto simp: good_requests_def with_fetches_get with_fetches_peer split: if_splits)

lemma request_loop_good:
  assumes "request_loop n max_total now hint loads [] s = (reqs, s')" and "hint \<le> ct_num_chunks (sw_tracker s)"
    and "\<And>p. peer_load loads p = peer_fetches s p"
  shows "\<exists>cs. reqs = map (\<lambda>(c, p). (p, chunk_request s c)) cs \<and> s' = with_fetches s now cs \<and> good_requests s now max_total cs"
proof -
  let ?I = "\<lambda>reqs s' loads. \<exists>cs. reqs = map (\<lambda>(c, p). (p, chunk_request s c)) cs \<and> s' = with_fetches s now cs \<and>
      good_requests s now max_total cs \<and> (\<forall>p. peer_load loads p = peer_fetches s' p)"
  have "\<exists>loads'. ?I reqs s' loads'"
  proof (rule request_loop_rule [where I = ?I, OF assms(1) _ assms(2)], goal_cases)
    case 1
    show ?case using assms(3) by (intro exI [of _ "[]"]) (simp add: good_requests_def)
  next
    case (2 reqs1 s1 loads1 c p)
    then obtain cs where cs: "reqs1 = map (\<lambda>(c, p). (p, chunk_request s c)) cs" "s1 = with_fetches s now cs"
      "good_requests s now max_total cs" "\<And>p. peer_load loads1 p = peer_fetches s1 p" by blast
    have p: "p \<in> set (sw_seeders s)" "peer_load loads1 p < 4" using pick_seeder_Some [OF 2(5)] cs(2) by auto
    have "good_requests s now max_total (cs @ [(c, p)])"
      by (rule good_requests_snoc [OF cs(3)]) (use 2 cs p in simp_all)
    then show ?case
      using cs by (intro exI [of _ "cs @ [(c, p)]"]) (simp add: with_fetches_snoc with_fetches_peer peer_load_count)
  qed
  then show ?thesis by blast
qed

text \<open>Nothing that could be requested is left out.\<close>

definition blocked :: "swarm_sync \<Rightarrow> nat \<Rightarrow> bool" where
  "blocked s c \<longleftrightarrow> fm_get (sw_active_fetches s) c \<noteq> None \<or> (\<forall>p \<in> set (sw_seeders s). 4 \<le> peer_fetches s p)"

lemma blocked_mono:
  "blocked s c \<Longrightarrow> blocked (s\<lparr>sw_active_fetches := sw_active_fetches s @ m\<rparr>) c"
  by (auto simp: blocked_def fm_get_append peer_fetches_def trans_le_add1)

lemma request_loop_blocked:
  assumes "request_loop n max_total now hint loads reqs s = (reqs', s')" and "hint \<le> ct_num_chunks (sw_tracker s)"
    and "\<forall>c \<in> missing_chunks (sw_tracker s). blocked s c"
  shows "\<forall>c \<in> missing_chunks (sw_tracker s). blocked s' c"
proof -
  let ?I = "\<lambda>reqs s' (loads :: (bytes, nat) flat_map). sw_tracker s' = sw_tracker s \<and> (\<forall>c \<in> missing_chunks (sw_tracker s). blocked s' c)"
  have "\<exists>loads' :: (bytes, nat) flat_map. ?I reqs' s' loads'"
    by (rule request_loop_rule [where I = ?I, OF assms(1) _ assms(2)]) (use assms(3) blocked_mono in auto)
  then show ?thesis by blast
qed

lemma request_loop_maximal:
  assumes "request_loop n max_total now hint loads reqs s = (reqs', s')" and "hint \<le> ct_num_chunks (sw_tracker s)"
    and "\<And>p. peer_load loads p = peer_fetches s p" and "card {c \<in> missing_chunks (sw_tracker s). hint \<le> c} \<le> n"
    and "\<forall>c \<in> missing_chunks (sw_tracker s). c < hint \<longrightarrow> blocked s c"
  shows "max_total \<le> length reqs' \<or> (\<forall>c \<in> missing_chunks (sw_tracker s). blocked s' c)"
  using assms
proof (induction n arbitrary: hint loads reqs s)
  case 0
  have "finite {c \<in> missing_chunks (sw_tracker s). hint \<le> c}" by (simp add: missing_chunks_def)
  then have "{c \<in> missing_chunks (sw_tracker s). hint \<le> c} = {}" using 0(4) by simp
  then show ?case using 0 by (auto simp: not_le)
next
  case (Suc n)
  let ?M = "missing_chunks (sw_tracker s)"
  have fin: "finite {c \<in> ?M. hint \<le> c}" by (simp add: missing_chunks_def)
  show ?case
  proof (cases "{c \<in> ?M. hint \<le> c} = {}")
    case True
    then have "\<forall>c \<in> ?M. blocked s c" using Suc.prems(5) by (auto simp: not_le)
    then show ?thesis using request_loop_blocked [OF Suc.prems(1,2)] by blast
  next
    case False
    then obtain c where c: "next_missing (sw_tracker s) hint = Some c" "c \<in> ?M"
      using next_missing_None [OF Suc.prems(2)] next_missing_Some [OF _ Suc.prems(2)] by fastforce
    have least: "hint \<le> c" "\<forall>j \<in> ?M. hint \<le> j \<longrightarrow> c \<le> j"
      using next_missing_Some [OF c(1) Suc.prems(2)] False by fastforce+
    have bound: "c + 1 \<le> ct_num_chunks (sw_tracker s)" using c(2) by (auto simp: missing_chunks_def)
    have "{j \<in> ?M. c + 1 \<le> j} \<subseteq> {j \<in> ?M. hint \<le> j} - {c}" using least(1) by auto
    then have "card {j \<in> ?M. c + 1 \<le> j} \<le> card ({j \<in> ?M. hint \<le> j} - {c})" by (rule card_mono [rotated]) (use fin in simp)
    then have card: "card {j \<in> ?M. c + 1 \<le> j} \<le> n" using Suc.prems(4) c(2) least(1) fin by simp
    have below: "j < hint \<or> j = c" if "j \<in> ?M" "j < c + 1" for j using least(2) that by fastforce
    show ?thesis
    proof (cases "length reqs < max_total")
      case False
      then show ?thesis using Suc.prems(1) by auto
    next
      case room: True
      show ?thesis
      proof (cases "fm_get (sw_active_fetches s) c = None \<and> pick_seeder (sw_seeders s) loads \<noteq> None")
        case req: True
        then obtain p where p: "pick_seeder (sw_seeders s) loads = Some p" by blast
        let ?s = "s\<lparr>sw_active_fetches := sw_active_fetches s @ [(c, p, now)]\<rparr>"
        have run: "request_loop n max_total now (c + 1) (count_request p loads) (reqs @ [(p, chunk_request s c)]) ?s = (reqs', s')"
          using Suc.prems(1) room c(1) p req by (simp add: fm_set_absent chunk_request_def)
        have loads: "peer_load (count_request p loads) q = peer_fetches ?s q" for q
          using Suc.prems(3) [of q] by (simp add: peer_load_count peer_fetches_def)
        have "blocked ?s c" by (auto simp: blocked_def fm_get_append split: option.split)
        then have "\<forall>j \<in> missing_chunks (sw_tracker ?s). j < c + 1 \<longrightarrow> blocked ?s j"
          using below Suc.prems(5) blocked_mono by fastforce
        from Suc.IH [OF run _ loads _ this] bound card show ?thesis by simp
      next
        case False
        then have run: "request_loop n max_total now (c + 1) loads reqs s = (reqs', s')"
          using Suc.prems(1) room c(1) by (auto split: option.splits if_splits)
        have "blocked s c" using False Suc.prems(3) by (auto simp: blocked_def pick_seeder_None)
        then have "\<forall>j \<in> ?M. j < c + 1 \<longrightarrow> blocked s j" using below Suc.prems(5) by blast
        from Suc.IH [OF run bound Suc.prems(3) card this] show ?thesis .
      qed
    qed
  qed
qed

text \<open>The whole call.\<close>

lemma next_requests_ok:
  assumes "sw_ok s" and "next_requests s max_total now = (reqs, s')"
  obtains cs where "reqs = map (\<lambda>(c, p). (p, chunk_request s c)) cs" "s' = with_fetches s now cs"
    "good_requests s now max_total cs" "sw_ok s'"
    "length cs = max_total \<or> (\<forall>c \<in> missing_chunks (sw_tracker s). fm_get (sw_active_fetches s') c \<noteq> None) \<or>
       (\<forall>p \<in> set (sw_seeders s). 4 \<le> peer_fetches s' p)"
proof -
  let ?n = "ct_num_chunks (sw_tracker s)"
  have run: "request_loop ?n max_total now 0 (initial_loads s) [] s = (reqs, s')"
    using assms by (simp add: next_requests_def sw_ok_def ct_num_chunks_def)
  obtain cs where cs: "reqs = map (\<lambda>(c, p). (p, chunk_request s c)) cs" "s' = with_fetches s now cs" "good_requests s now max_total cs"
    using request_loop_good [OF run _ peer_load_initial] by auto
  have sub: "{c \<in> missing_chunks (sw_tracker s). 0 \<le> c} \<subseteq> {..<?n}" by (auto simp: missing_chunks_def)
  have "card {c \<in> missing_chunks (sw_tracker s). 0 \<le> c} \<le> ?n" using card_mono [OF _ sub] by simp
  then have "max_total \<le> length reqs \<or> (\<forall>c \<in> missing_chunks (sw_tracker s). blocked s' c)"
    using request_loop_maximal [OF run _ peer_load_initial] by simp
  then have full: "length cs = max_total \<or> (\<forall>c \<in> missing_chunks (sw_tracker s). fm_get (sw_active_fetches s') c \<noteq> None) \<or>
       (\<forall>p \<in> set (sw_seeders s). 4 \<le> peer_fetches s' p)"
    using cs by (auto simp: blocked_def good_requests_def)
  have keys: "map fst (sw_active_fetches s') = map fst (sw_active_fetches s) @ map fst cs"
    by (simp add: cs(2) with_fetches_def case_prod_beta comp_def)
  have "set (map fst (sw_active_fetches s)) \<inter> set (map fst cs) = {}"
    using cs(3) by (force simp: good_requests_def fm_get_None_iff)
  then have "distinct (map fst (sw_active_fetches s'))"
    using assms(1) cs(3) unfolding keys distinct_append by (simp add: sw_ok_def good_requests_def)
  then have "sw_ok s'" using assms(1) cs(2) by (simp add: sw_ok_def)
  show ?thesis by (rule that [OF cs \<open>sw_ok s'\<close> full])
qed

end
