(* ===== verification/Node_Store.thy ===== *)
theory Node_Store
  imports Dag_Spec Cas
begin

unbundle bit_operations_syntax

text \<open>
  The stores nodes are looked up in: the in-memory store of \<^verbatim>\<open>merkle-tox-core/src/testing/store.rs\<close> and
  the engine's \<^verbatim>\<open>EngineStore\<close> (\<^verbatim>\<open>engine/mod.rs\<close>), a cache of pending nodes in front of any other store.
  Both implement the trait \<^verbatim>\<open>NodeStore\<close> of \<^verbatim>\<open>sync/mod.rs\<close>, here a record of operations.

  A hash map is a list of entries with distinct keys and a hash set a list without duplicates;
  their order stands for the unspecified iteration order. Locks are never held across a call that
  takes them again, so they are left out; a poisoned lock cannot arise without a panic.
\<close>

section \<open>Hash sets\<close>

definition hs_insert :: "'a \<Rightarrow> 'a list \<Rightarrow> 'a list" where
  "hs_insert x xs = (if x \<in> set xs then xs else xs @ [x])"

definition hs_remove :: "'a \<Rightarrow> 'a list \<Rightarrow> 'a list" where
  "hs_remove x xs = filter (\<lambda>y. y \<noteq> x) xs"

section \<open>The trait\<close>

record sync_range =
  sr_min_rank :: nat
  sr_max_rank :: nat

record 's node_store = "'s node_lookup" +
  ns_get_heads :: "'s \<Rightarrow> conversation_id \<Rightarrow> node_hash list"
  ns_get_admin_heads :: "'s \<Rightarrow> conversation_id \<Rightarrow> node_hash list"
  ns_has_node :: "'s \<Rightarrow> node_hash \<Rightarrow> bool"
  ns_is_verified :: "'s \<Rightarrow> node_hash \<Rightarrow> bool"
  ns_get_node :: "'s \<Rightarrow> node_hash \<Rightarrow> merkle_node option"
  ns_get_wire_node :: "'s \<Rightarrow> node_hash \<Rightarrow> wire_node option"
  ns_remove_wire_node :: "'s \<Rightarrow> conversation_id \<Rightarrow> node_hash \<Rightarrow> unit merkle_result \<times> 's"
  ns_get_opaque_node_hashes :: "'s \<Rightarrow> conversation_id \<Rightarrow> node_hash list merkle_result"
  ns_get_speculative_nodes :: "'s \<Rightarrow> conversation_id \<Rightarrow> merkle_node list"
  ns_get_last_sequence_number :: "'s \<Rightarrow> conversation_id \<Rightarrow> public_key \<Rightarrow> nat"
  ns_get_node_counts :: "'s \<Rightarrow> conversation_id \<Rightarrow> nat \<times> nat"
  ns_get_verified_nodes_by_type :: "'s \<Rightarrow> conversation_id \<Rightarrow> node_type \<Rightarrow> merkle_node list merkle_result"
  ns_get_node_hashes_in_range :: "'s \<Rightarrow> conversation_id \<Rightarrow> sync_range \<Rightarrow> node_hash list merkle_result panics"
  ns_size_bytes :: "'s \<Rightarrow> nat"
  ns_get_conversation_keys :: "'s \<Rightarrow> conversation_id \<Rightarrow> (nat \<times> bytes) list merkle_result"
  ns_get_epoch_metadata :: "'s \<Rightarrow> conversation_id \<Rightarrow> (u32 \<times> int) option merkle_result"
  ns_get_ratchet_key :: "'s \<Rightarrow> conversation_id \<Rightarrow> node_hash \<Rightarrow> (bytes \<times> nat) option merkle_result"

section \<open>The memoised distance and the length of a soft-anchor chain\<close>

text \<open>
  Both stores compute the distance with the same text: the memo, then the node itself (the smallest
  distance of its parents plus one, written to the memo), then, for a node they do not have, another
  answer. The fuel bounds the depth of the recursion; running out of it stands for not returning.
\<close>

record 's memo_ops =
  mo_get :: "'s \<Rightarrow> node_hash \<Rightarrow> nat option"
  mo_set :: "'s \<Rightarrow> node_hash \<Rightarrow> nat \<Rightarrow> 's"
  mo_node :: "'s \<Rightarrow> node_hash \<Rightarrow> merkle_node option"
  mo_else :: "'s \<Rightarrow> node_hash \<Rightarrow> (nat option \<times> 's) panics"

definition distance_from :: "nat \<Rightarrow> nat panics" where
  "distance_from min_dist = (if min_dist = u64_max then Some 10 else add_u64 min_dist 1)"

function (sequential) admin_distance :: "'s memo_ops \<Rightarrow> nat \<Rightarrow> 's \<Rightarrow> node_hash \<Rightarrow> (nat option \<times> 's) panics"
  and parents_distance :: "'s memo_ops \<Rightarrow> nat \<Rightarrow> 's \<Rightarrow> node_hash list \<Rightarrow> nat \<Rightarrow> (nat \<times> 's) panics" where
  "admin_distance ops 0 s h = None"
| "admin_distance ops (Suc fuel) s h =
     (case mo_get ops s h of
        Some dist \<Rightarrow> Some (Some dist, s)
      | None \<Rightarrow>
          (case mo_node ops s h of
             None \<Rightarrow> mo_else ops s h
           | Some node \<Rightarrow>
               if node_type_of node = Admin then Some (Some 0, mo_set ops s h 0)
               else do {
                 (min_dist, s') \<leftarrow> parents_distance ops fuel s (nd_parents node) u64_max;
                 d \<leftarrow> distance_from min_dist;
                 Some (Some d, mo_set ops s' h d)
               }))"
| "parents_distance ops fuel s [] min_dist = Some (min_dist, s)"
| "parents_distance ops fuel s (p # ps) min_dist =
     do {
       (d, s') \<leftarrow> admin_distance ops fuel s p;
       parents_distance ops fuel s' ps (case d of Some dist \<Rightarrow> min min_dist dist | None \<Rightarrow> min_dist)
     }"
  by pat_completeness auto
termination
  by (relation "measures [case_sum (\<lambda>(ops, fuel, s, h). fuel) (\<lambda>(ops, fuel, s, ps, m). fuel),
                          case_sum (\<lambda>_. 0) (\<lambda>(ops, fuel, s, ps, m). Suc (length ps))]") auto

fun soft_anchor_chain_length ::
    "(node_hash \<Rightarrow> merkle_node option) \<Rightarrow> (node_hash \<Rightarrow> nat option panics) \<Rightarrow> nat \<Rightarrow> node_hash \<Rightarrow> nat option panics" where
  "soft_anchor_chain_length get_node other 0 h = None"
| "soft_anchor_chain_length get_node other (Suc fuel) h =
     (case get_node h of
        None \<Rightarrow> other h
      | Some node \<Rightarrow>
          (case nd_content node of
             Control (SoftAnchor basis_hash _) \<Rightarrow>
               do {
                 parent_count \<leftarrow> soft_anchor_chain_length get_node other fuel basis_hash;
                 k \<leftarrow> add_u64 1 (case parent_count of None \<Rightarrow> 0 | Some c \<Rightarrow> c);
                 Some (Some k)
               }
           | _ \<Rightarrow> Some (Some 0)))"

section \<open>InMemoryStore\<close>

record in_memory_store =
  ims_nodes :: "(node_hash, merkle_node \<times> bool) flat_map"
  ims_speculative_nodes :: "node_hash list"
  ims_opaque_nodes :: "node_hash list"
  ims_wire_nodes :: "(node_hash, conversation_id \<times> wire_node) flat_map"
  ims_children :: "(node_hash, node_hash list) flat_map"
  ims_admin_distance_cache :: "(node_hash, nat) flat_map"
  ims_last_sequence_numbers :: "(public_key, nat) flat_map"
  ims_heads :: "(conversation_id, node_hash list) flat_map"
  ims_admin_heads :: "(conversation_id, node_hash list) flat_map"
  ims_blobs :: "(node_hash, blob_info \<times> bytes) flat_map"
  ims_keys :: "(conversation_id \<times> nat, bytes) flat_map"
  ims_ratchet_keys :: "(conversation_id \<times> node_hash, bytes \<times> nat) flat_map"
  ims_meta :: "(conversation_id, u32 \<times> int) flat_map"
  ims_sketches :: "(conversation_id \<times> sync_range, bytes) flat_map"
  ims_global_offset :: "int option"

definition ims_new :: in_memory_store where
  "ims_new =
     \<lparr>ims_nodes = fm_new, ims_speculative_nodes = [], ims_opaque_nodes = [], ims_wire_nodes = fm_new,
      ims_children = fm_new, ims_admin_distance_cache = fm_new, ims_last_sequence_numbers = fm_new,
      ims_heads = fm_new, ims_admin_heads = fm_new, ims_blobs = fm_new, ims_keys = fm_new,
      ims_ratchet_keys = fm_new, ims_meta = fm_new, ims_sketches = fm_new, ims_global_offset = None\<rparr>"

definition ims_get_node :: "in_memory_store \<Rightarrow> node_hash \<Rightarrow> merkle_node option" where
  "ims_get_node s h = map_option fst (fm_get (ims_nodes s) h)"

definition ims_memo :: "in_memory_store memo_ops" where
  "ims_memo =
     \<lparr>mo_get = (\<lambda>s h. fm_get (ims_admin_distance_cache s) h),
      mo_set = (\<lambda>s h d. s\<lparr>ims_admin_distance_cache := fm_set (ims_admin_distance_cache s) h d\<rparr>),
      mo_node = ims_get_node,
      mo_else = (\<lambda>s h. Some (None, s))\<rparr>"

definition ims_get_node_type :: "in_memory_store \<Rightarrow> node_hash \<Rightarrow> node_type option" where
  "ims_get_node_type s h = map_option (\<lambda>(n, _). node_type_of n) (fm_get (ims_nodes s) h)"

definition ims_get_rank :: "in_memory_store \<Rightarrow> node_hash \<Rightarrow> nat option" where
  "ims_get_rank s h = map_option (\<lambda>(n, _). nd_topological_rank n) (fm_get (ims_nodes s) h)"

definition ims_contains_node :: "in_memory_store \<Rightarrow> node_hash \<Rightarrow> bool" where
  "ims_contains_node s h = fm_contains_key (ims_nodes s) h"

definition ims_has_children :: "in_memory_store \<Rightarrow> node_hash \<Rightarrow> bool" where
  "ims_has_children s h = (case fm_get (ims_children s) h of None \<Rightarrow> False | Some c \<Rightarrow> c \<noteq> [])"

definition ims_soft_anchor_chain :: "nat \<Rightarrow> in_memory_store \<Rightarrow> node_hash \<Rightarrow> nat option panics" where
  "ims_soft_anchor_chain fuel s h = soft_anchor_chain_length (ims_get_node s) (\<lambda>_. Some None) fuel h"

definition ims_get_heads :: "in_memory_store \<Rightarrow> conversation_id \<Rightarrow> node_hash list" where
  "ims_get_heads s cid = (case fm_get (ims_heads s) cid of None \<Rightarrow> [] | Some hs \<Rightarrow> hs)"

definition ims_set_heads :: "in_memory_store \<Rightarrow> conversation_id \<Rightarrow> node_hash list \<Rightarrow> in_memory_store" where
  "ims_set_heads s cid hs = s\<lparr>ims_heads := fm_set (ims_heads s) cid hs\<rparr>"

definition ims_get_admin_heads :: "in_memory_store \<Rightarrow> conversation_id \<Rightarrow> node_hash list" where
  "ims_get_admin_heads s cid = (case fm_get (ims_admin_heads s) cid of None \<Rightarrow> [] | Some hs \<Rightarrow> hs)"

definition ims_set_admin_heads :: "in_memory_store \<Rightarrow> conversation_id \<Rightarrow> node_hash list \<Rightarrow> in_memory_store" where
  "ims_set_admin_heads s cid hs = s\<lparr>ims_admin_heads := fm_set (ims_admin_heads s) cid hs\<rparr>"

definition ims_has_node :: "in_memory_store \<Rightarrow> node_hash \<Rightarrow> bool" where
  "ims_has_node s h = fm_contains_key (ims_nodes s) h"

definition ims_is_verified :: "in_memory_store \<Rightarrow> node_hash \<Rightarrow> bool" where
  "ims_is_verified s h = (case fm_get (ims_nodes s) h of None \<Rightarrow> False | Some (_, v) \<Rightarrow> v)"

definition ims_get_wire_node :: "in_memory_store \<Rightarrow> node_hash \<Rightarrow> wire_node option" where
  "ims_get_wire_node s h = map_option snd (fm_get (ims_wire_nodes s) h)"

text \<open>\<^verbatim>\<open>lsn.entry(sender).or_insert(0)\<close>, then raised to the sequence number.\<close>

definition raise_seq :: "(public_key, nat) flat_map \<Rightarrow> public_key \<Rightarrow> nat \<Rightarrow> (public_key, nat) flat_map" where
  "raise_seq lsn sender_pk seq =
     (let (current, lsn') = fm_or_insert lsn sender_pk 0
      in if seq > current then fm_set lsn' sender_pk seq else lsn')"

definition ims_put_distance :: "in_memory_store \<Rightarrow> merkle_node \<Rightarrow> nat" where
  "ims_put_distance s node =
     (if node_type_of node = Admin then 0
      else
        (let min_dist = fold (\<lambda>p m. case fm_get (ims_admin_distance_cache s) p of Some d \<Rightarrow> min m d | None \<Rightarrow> m)
                          (nd_parents node) u64_max
         in if min_dist = u64_max then 10 else min_dist + 1))"

definition push_child :: "node_hash \<Rightarrow> node_hash \<Rightarrow> (node_hash, node_hash list) flat_map
    \<Rightarrow> (node_hash, node_hash list) flat_map" where
  "push_child h p children =
     (let (cs, children') = fm_or_insert children p [] in fm_set children' p (cs @ [h]))"

text \<open>\<^verbatim>\<open>put_node\<close> once the hash of the node is known.\<close>

definition ims_put_hashed :: "in_memory_store \<Rightarrow> node_hash \<Rightarrow> merkle_node \<Rightarrow> bool \<Rightarrow> in_memory_store" where
  "ims_put_hashed s h node verified =
     s\<lparr>ims_admin_distance_cache := fm_set (ims_admin_distance_cache s) h (ims_put_distance s node),
       ims_children := fold (push_child h) (nd_parents node) (ims_children s),
       ims_speculative_nodes :=
         (if verified then hs_remove h (ims_speculative_nodes s) else hs_insert h (ims_speculative_nodes s)),
       ims_last_sequence_numbers :=
         (if verified then raise_seq (ims_last_sequence_numbers s) (nd_sender_pk node) (nd_sequence_number node)
          else ims_last_sequence_numbers s),
       ims_opaque_nodes := hs_remove h (ims_opaque_nodes s),
       ims_nodes := fm_set (ims_nodes s) h (node, verified)\<rparr>"

definition ims_put_node ::
    "('e) dag_env_scheme \<Rightarrow> in_memory_store \<Rightarrow> merkle_node \<Rightarrow> bool \<Rightarrow> in_memory_store panics" where
  "ims_put_node env s node verified = do { h \<leftarrow> mn_hash env node; Some (ims_put_hashed s h node verified) }"

definition ims_put_wire_node ::
    "in_memory_store \<Rightarrow> conversation_id \<Rightarrow> node_hash \<Rightarrow> wire_node \<Rightarrow> in_memory_store" where
  "ims_put_wire_node s cid h w =
     s\<lparr>ims_wire_nodes := fm_set (ims_wire_nodes s) h (cid, w),
       ims_opaque_nodes :=
         (if \<not> fm_contains_key (ims_nodes s) h then hs_insert h (ims_opaque_nodes s) else ims_opaque_nodes s)\<rparr>"

definition ims_remove_wire_node ::
    "in_memory_store \<Rightarrow> conversation_id \<Rightarrow> node_hash \<Rightarrow> unit merkle_result \<times> in_memory_store" where
  "ims_remove_wire_node s cid h =
     (Inr (), s\<lparr>ims_wire_nodes := fm_del (ims_wire_nodes s) h, ims_opaque_nodes := hs_remove h (ims_opaque_nodes s)\<rparr>)"

definition ims_get_opaque_node_hashes :: "in_memory_store \<Rightarrow> conversation_id \<Rightarrow> node_hash list merkle_result" where
  "ims_get_opaque_node_hashes s cid = Inr (ims_opaque_nodes s)"

definition ims_get_speculative_nodes :: "in_memory_store \<Rightarrow> conversation_id \<Rightarrow> merkle_node list" where
  "ims_get_speculative_nodes s cid = List.map_filter (ims_get_node s) (ims_speculative_nodes s)"

definition ims_mark_verified :: "in_memory_store \<Rightarrow> node_hash \<Rightarrow> in_memory_store" where
  "ims_mark_verified s h =
     (let s' = (case fm_get (ims_nodes s) h of
                  None \<Rightarrow> s
                | Some (node, _) \<Rightarrow>
                    s\<lparr>ims_nodes := fm_set (ims_nodes s) h (node, True),
                      ims_last_sequence_numbers :=
                        raise_seq (ims_last_sequence_numbers s) (nd_sender_pk node) (nd_sequence_number node)\<rparr>)
      in s'\<lparr>ims_speculative_nodes := hs_remove h (ims_speculative_nodes s)\<rparr>)"

definition ims_get_last_sequence_number :: "in_memory_store \<Rightarrow> conversation_id \<Rightarrow> public_key \<Rightarrow> nat" where
  "ims_get_last_sequence_number s cid pk = (case fm_get (ims_last_sequence_numbers s) pk of None \<Rightarrow> 0 | Some n \<Rightarrow> n)"

definition ims_get_node_counts :: "in_memory_store \<Rightarrow> conversation_id \<Rightarrow> nat \<times> nat" where
  "ims_get_node_counts s cid =
     (length (filter (\<lambda>(_, v). v) (fm_values (ims_nodes s))),
      length (filter (\<lambda>(_, v). \<not> v) (fm_values (ims_nodes s))))"

definition ims_get_verified_nodes_by_type ::
    "in_memory_store \<Rightarrow> conversation_id \<Rightarrow> node_type \<Rightarrow> merkle_node list merkle_result" where
  "ims_get_verified_nodes_by_type s cid ty =
     Inr (sort_key nd_topological_rank
            (map fst (filter (\<lambda>(n, v). v \<and> node_type_of n = ty) (fm_values (ims_nodes s)))))"

text \<open>\<^verbatim>\<open>iter().map(f).collect()\<close> for an \<open>f\<close> that may panic.\<close>

fun map_panics :: "('a \<Rightarrow> 'b panics) \<Rightarrow> 'a list \<Rightarrow> 'b list panics" where
  "map_panics f [] = Some []"
| "map_panics f (x # xs) = do { y \<leftarrow> f x; ys \<leftarrow> map_panics f xs; Some (y # ys) }"

definition ims_get_node_hashes_in_range ::
    "('e) dag_env_scheme \<Rightarrow> in_memory_store \<Rightarrow> conversation_id \<Rightarrow> sync_range \<Rightarrow> node_hash list merkle_result panics" where
  "ims_get_node_hashes_in_range env s cid rg =
     map_option Inr (map_panics (\<lambda>(n, _). mn_hash env n)
       (filter (\<lambda>(n, v). v \<and> nd_topological_rank n \<ge> sr_min_rank rg \<and> nd_topological_rank n \<le> sr_max_rank rg)
          (fm_values (ims_nodes s))))"

definition ims_size_bytes :: "in_memory_store \<Rightarrow> nat" where
  "ims_size_bytes s =
     length (ims_nodes s) * 512 + sum_list (map (\<lambda>(_, b). length b) (fm_values (ims_blobs s)))"

definition ims_put_conversation_key :: "in_memory_store \<Rightarrow> conversation_id \<Rightarrow> nat \<Rightarrow> bytes \<Rightarrow> in_memory_store" where
  "ims_put_conversation_key s cid epoch k = s\<lparr>ims_keys := fm_set (ims_keys s) (cid, epoch) k\<rparr>"

definition ims_get_conversation_keys :: "in_memory_store \<Rightarrow> conversation_id \<Rightarrow> (nat \<times> bytes) list merkle_result" where
  "ims_get_conversation_keys s cid =
     Inr (sort_key fst (map (\<lambda>((_, e), k). (e, k)) (filter (\<lambda>((c, _), _). c = cid) (ims_keys s))))"

definition ims_update_epoch_metadata :: "in_memory_store \<Rightarrow> conversation_id \<Rightarrow> u32 \<Rightarrow> int \<Rightarrow> in_memory_store" where
  "ims_update_epoch_metadata s cid cnt time = s\<lparr>ims_meta := fm_set (ims_meta s) cid (cnt, time)\<rparr>"

definition ims_get_epoch_metadata :: "in_memory_store \<Rightarrow> conversation_id \<Rightarrow> (u32 \<times> int) option merkle_result" where
  "ims_get_epoch_metadata s cid = Inr (fm_get (ims_meta s) cid)"

definition ims_put_ratchet_key ::
    "in_memory_store \<Rightarrow> conversation_id \<Rightarrow> node_hash \<Rightarrow> bytes \<Rightarrow> nat \<Rightarrow> in_memory_store" where
  "ims_put_ratchet_key s cid h chain_key epoch_id =
     s\<lparr>ims_ratchet_keys := fm_set (ims_ratchet_keys s) (cid, h) (chain_key, epoch_id)\<rparr>"

definition ims_get_ratchet_key :: "in_memory_store \<Rightarrow> conversation_id \<Rightarrow> node_hash \<Rightarrow> (bytes \<times> nat) option merkle_result" where
  "ims_get_ratchet_key s cid h = Inr (fm_get (ims_ratchet_keys s) (cid, h))"

definition ims_remove_ratchet_key :: "in_memory_store \<Rightarrow> conversation_id \<Rightarrow> node_hash \<Rightarrow> in_memory_store" where
  "ims_remove_ratchet_key s cid h = s\<lparr>ims_ratchet_keys := fm_del (ims_ratchet_keys s) (cid, h)\<rparr>"

text \<open>The store as an object of the trait.\<close>

definition ims_store :: "('e) dag_env_scheme \<Rightarrow> nat \<Rightarrow> in_memory_store node_store" where
  "ims_store env fuel =
     \<lparr>lk_node_type = ims_get_node_type, lk_rank = ims_get_rank, lk_admin_distance = admin_distance ims_memo fuel,
      lk_contains_node = ims_contains_node, lk_has_children = ims_has_children,
      lk_soft_anchor_chain = ims_soft_anchor_chain fuel,
      ns_get_heads = ims_get_heads, ns_get_admin_heads = ims_get_admin_heads, ns_has_node = ims_has_node,
      ns_is_verified = ims_is_verified, ns_get_node = ims_get_node, ns_get_wire_node = ims_get_wire_node,
      ns_remove_wire_node = ims_remove_wire_node, ns_get_opaque_node_hashes = ims_get_opaque_node_hashes,
      ns_get_speculative_nodes = ims_get_speculative_nodes,
      ns_get_last_sequence_number = ims_get_last_sequence_number, ns_get_node_counts = ims_get_node_counts,
      ns_get_verified_nodes_by_type = ims_get_verified_nodes_by_type,
      ns_get_node_hashes_in_range = ims_get_node_hashes_in_range env, ns_size_bytes = ims_size_bytes,
      ns_get_conversation_keys = ims_get_conversation_keys, ns_get_epoch_metadata = ims_get_epoch_metadata,
      ns_get_ratchet_key = ims_get_ratchet_key\<rparr>"

section \<open>Blobs, sketches and the clock offset of the in-memory store\<close>

definition ims_has_blob :: "in_memory_store \<Rightarrow> node_hash \<Rightarrow> bool" where
  "ims_has_blob s h = (case fm_get (ims_blobs s) h of None \<Rightarrow> False | Some (i, _) \<Rightarrow> bi_status i = Available)"

definition ims_get_blob_info :: "in_memory_store \<Rightarrow> node_hash \<Rightarrow> blob_info option" where
  "ims_get_blob_info s h = map_option fst (fm_get (ims_blobs s) h)"

definition ims_put_blob_info :: "in_memory_store \<Rightarrow> blob_info \<Rightarrow> in_memory_store" where
  "ims_put_blob_info s info =
     (let buffer = (case fm_get (ims_blobs s) (bi_hash info) of Some (_, b) \<Rightarrow> b | None \<Rightarrow> [])
      in s\<lparr>ims_blobs := fm_set (ims_blobs s) (bi_hash info) (info, buffer)\<rparr>)"

definition mark_chunk :: "u8 list \<Rightarrow> nat \<Rightarrow> u8 list" where
  "mark_chunk bits i =
     (if i div 8 < length bits then bits[i div 8 := (bits ! (i div 8)) OR push_bit (i mod 8) 1] else bits)"

text \<open>The loop over all chunks; \<^verbatim>\<open>mask[b_idx]\<close> panics past the end of the mask.\<close>

fun mask_complete :: "u8 list \<Rightarrow> nat list \<Rightarrow> bool panics" where
  "mask_complete bits [] = Some True"
| "mask_complete bits (i # is) =
     do {
       b \<leftarrow> index_at bits (i div 8);
       if b AND push_bit (i mod 8) 1 = 0 then Some False else mask_complete bits is
     }"

text \<open>\<^verbatim>\<open>buffer[start..end]\<close>: panics when the range is reversed or leaves the buffer.\<close>

definition slice_panics :: "bytes \<Rightarrow> nat \<Rightarrow> nat \<Rightarrow> bytes panics" where
  "slice_panics b start end = (if start \<le> end \<and> end \<le> length b then Some (take (end - start) (drop start b)) else None)"

definition ims_put_chunk :: "in_memory_store \<Rightarrow> node_hash \<Rightarrow> nat \<Rightarrow> bytes \<Rightarrow> in_memory_store panics" where
  "ims_put_chunk s h offset data =
     (case fm_get (ims_blobs s) h of
        None \<Rightarrow> Some s
      | Some (info, buffer0) \<Rightarrow>
          (let buffer = (if buffer0 = [] then replicate (bi_size info) 0 else buffer0);
               end_pos = min (offset + length data) (length buffer);
               num_chunks = div_ceil (bi_size info) CHUNK_SIZE
           in do {
             _ \<leftarrow> slice_panics buffer offset end_pos;
             let buffer' = take offset buffer @ take (end_pos - offset) data @ drop end_pos buffer;
             let mask0 = (case bi_received_mask info of None \<Rightarrow> replicate (div_ceil num_chunks 8) 0 | Some m \<Rightarrow> m);
             let bits = mark_chunk mask0 (offset div CHUNK_SIZE);
             complete \<leftarrow> mask_complete bits [0..<num_chunks];
             Some (s\<lparr>ims_blobs := fm_set (ims_blobs s) h
                       (info\<lparr>bi_status := (if complete then Available else Downloading),
                             bi_received_mask := Some bits\<rparr>, buffer')\<rparr>)
           }))"

definition ims_get_chunk :: "in_memory_store \<Rightarrow> node_hash \<Rightarrow> nat \<Rightarrow> nat \<Rightarrow> bytes merkle_result panics" where
  "ims_get_chunk s h offset len =
     (case fm_get (ims_blobs s) h of
        None \<Rightarrow> Some (Inl (BlobNotFound h))
      | Some (_, buffer) \<Rightarrow> map_option Inr (slice_panics buffer offset (min (offset + len) (length buffer))))"

definition ims_get_chunk_with_proof ::
    "in_memory_store \<Rightarrow> node_hash \<Rightarrow> nat \<Rightarrow> nat \<Rightarrow> (bytes \<times> bytes) merkle_result panics" where
  "ims_get_chunk_with_proof s h offset len =
     map_option (\<lambda>r. case r of Inl e \<Rightarrow> Inl e | Inr d \<Rightarrow> Inr (d, [])) (ims_get_chunk s h offset len)"

definition ims_set_global_offset :: "in_memory_store \<Rightarrow> int \<Rightarrow> in_memory_store" where
  "ims_set_global_offset s offset = s\<lparr>ims_global_offset := Some offset\<rparr>"

definition ims_put_sketch :: "in_memory_store \<Rightarrow> conversation_id \<Rightarrow> sync_range \<Rightarrow> bytes \<Rightarrow> in_memory_store" where
  "ims_put_sketch s cid rg sketch = s\<lparr>ims_sketches := fm_set (ims_sketches s) (cid, rg) sketch\<rparr>"

definition ims_get_sketch :: "in_memory_store \<Rightarrow> conversation_id \<Rightarrow> sync_range \<Rightarrow> bytes option merkle_result" where
  "ims_get_sketch s cid rg = Inr (fm_get (ims_sketches s) (cid, rg))"

section \<open>EngineStore\<close>

record pending_cache =
  pc_nodes :: "(node_hash, merkle_node) flat_map"
  pc_wire_nodes :: "(node_hash, conversation_id \<times> wire_node) flat_map"
  pc_verified :: "node_hash list"
  pc_heads :: "(conversation_id, node_hash list) flat_map"
  pc_admin_heads :: "(conversation_id, node_hash list) flat_map"
  pc_last_verified_sequences :: "(conversation_id \<times> public_key, nat) flat_map"
  pc_admin_distances :: "(node_hash, nat) flat_map"

definition pc_new :: pending_cache where
  "pc_new =
     \<lparr>pc_nodes = fm_new, pc_wire_nodes = fm_new, pc_verified = [], pc_heads = fm_new, pc_admin_heads = fm_new,
      pc_last_verified_sequences = fm_new, pc_admin_distances = fm_new\<rparr>"

definition pc_clear :: "pending_cache \<Rightarrow> pending_cache" where
  "pc_clear c =
     c\<lparr>pc_nodes := fm_clear (pc_nodes c), pc_wire_nodes := fm_clear (pc_wire_nodes c), pc_verified := [],
       pc_heads := fm_clear (pc_heads c), pc_admin_heads := fm_clear (pc_admin_heads c),
       pc_last_verified_sequences := fm_clear (pc_last_verified_sequences c),
       pc_admin_distances := fm_clear (pc_admin_distances c)\<rparr>"

record 'b engine_store =
  es_store :: 'b
  es_cache :: pending_cache

text \<open>\<^verbatim>\<open>or_else\<close>\<close>

definition or_else :: "'a option \<Rightarrow> 'a option \<Rightarrow> 'a option" where
  "or_else x y = (case x of None \<Rightarrow> y | Some _ \<Rightarrow> x)"

definition es_get_node_type :: "('b, 'm) node_lookup_scheme \<Rightarrow> 'b engine_store \<Rightarrow> node_hash \<Rightarrow> node_type option" where
  "es_get_node_type ns s h =
     or_else (map_option node_type_of (fm_get (pc_nodes (es_cache s)) h)) (lk_node_type ns (es_store s) h)"

definition es_get_rank :: "('b, 'm) node_lookup_scheme \<Rightarrow> 'b engine_store \<Rightarrow> node_hash \<Rightarrow> nat option" where
  "es_get_rank ns s h =
     or_else (map_option nd_topological_rank (fm_get (pc_nodes (es_cache s)) h)) (lk_rank ns (es_store s) h)"

definition es_memo :: "('b, 'm) node_lookup_scheme \<Rightarrow> 'b engine_store memo_ops" where
  "es_memo ns =
     \<lparr>mo_get = (\<lambda>s h. fm_get (pc_admin_distances (es_cache s)) h),
      mo_set = (\<lambda>s h d. s\<lparr>es_cache := (es_cache s)\<lparr>pc_admin_distances := fm_set (pc_admin_distances (es_cache s)) h d\<rparr>\<rparr>),
      mo_node = (\<lambda>s h. fm_get (pc_nodes (es_cache s)) h),
      mo_else = (\<lambda>s h. do { (d, b) \<leftarrow> lk_admin_distance ns (es_store s) h; Some (d, s\<lparr>es_store := b\<rparr>) })\<rparr>"

definition es_contains_node :: "('b, 'm) node_lookup_scheme \<Rightarrow> 'b engine_store \<Rightarrow> node_hash \<Rightarrow> bool" where
  "es_contains_node ns s h \<longleftrightarrow> fm_contains_key (pc_nodes (es_cache s)) h \<or> lk_contains_node ns (es_store s) h"

definition es_has_children :: "('b, 'm) node_lookup_scheme \<Rightarrow> 'b engine_store \<Rightarrow> node_hash \<Rightarrow> bool" where
  "es_has_children ns s h = lk_has_children ns (es_store s) h"

definition es_soft_anchor_chain ::
    "('b, 'm) node_lookup_scheme \<Rightarrow> nat \<Rightarrow> 'b engine_store \<Rightarrow> node_hash \<Rightarrow> nat option panics" where
  "es_soft_anchor_chain ns fuel s h =
     soft_anchor_chain_length (fm_get (pc_nodes (es_cache s))) (lk_soft_anchor_chain ns (es_store s)) fuel h"

definition es_get_heads :: "('b, 'm) node_store_scheme \<Rightarrow> 'b engine_store \<Rightarrow> conversation_id \<Rightarrow> node_hash list" where
  "es_get_heads ns s cid =
     (case fm_get (pc_heads (es_cache s)) cid of Some hs \<Rightarrow> hs | None \<Rightarrow> ns_get_heads ns (es_store s) cid)"

definition es_set_heads :: "'b engine_store \<Rightarrow> conversation_id \<Rightarrow> node_hash list \<Rightarrow> 'b engine_store" where
  "es_set_heads s cid hs = s\<lparr>es_cache := (es_cache s)\<lparr>pc_heads := fm_set (pc_heads (es_cache s)) cid hs\<rparr>\<rparr>"

definition es_get_admin_heads :: "('b, 'm) node_store_scheme \<Rightarrow> 'b engine_store \<Rightarrow> conversation_id \<Rightarrow> node_hash list" where
  "es_get_admin_heads ns s cid =
     (case fm_get (pc_admin_heads (es_cache s)) cid of Some hs \<Rightarrow> hs | None \<Rightarrow> ns_get_admin_heads ns (es_store s) cid)"

definition es_set_admin_heads :: "'b engine_store \<Rightarrow> conversation_id \<Rightarrow> node_hash list \<Rightarrow> 'b engine_store" where
  "es_set_admin_heads s cid hs =
     s\<lparr>es_cache := (es_cache s)\<lparr>pc_admin_heads := fm_set (pc_admin_heads (es_cache s)) cid hs\<rparr>\<rparr>"

definition es_has_node :: "('b, 'm) node_store_scheme \<Rightarrow> 'b engine_store \<Rightarrow> node_hash \<Rightarrow> bool" where
  "es_has_node ns s h \<longleftrightarrow> fm_contains_key (pc_nodes (es_cache s)) h \<or> ns_has_node ns (es_store s) h"

definition es_is_verified :: "('b, 'm) node_store_scheme \<Rightarrow> 'b engine_store \<Rightarrow> node_hash \<Rightarrow> bool" where
  "es_is_verified ns s h \<longleftrightarrow> h \<in> set (pc_verified (es_cache s)) \<or> ns_is_verified ns (es_store s) h"

definition es_get_node :: "('b, 'm) node_store_scheme \<Rightarrow> 'b engine_store \<Rightarrow> node_hash \<Rightarrow> merkle_node option" where
  "es_get_node ns s h = or_else (fm_get (pc_nodes (es_cache s)) h) (ns_get_node ns (es_store s) h)"

definition es_get_wire_node :: "('b, 'm) node_store_scheme \<Rightarrow> 'b engine_store \<Rightarrow> node_hash \<Rightarrow> wire_node option" where
  "es_get_wire_node ns s h =
     or_else (map_option snd (fm_get (pc_wire_nodes (es_cache s)) h)) (ns_get_wire_node ns (es_store s) h)"

text \<open>\<^verbatim>\<open>put_node\<close> once the hash of the node is known.\<close>

definition es_put_hashed ::
    "'b engine_store \<Rightarrow> conversation_id \<Rightarrow> node_hash \<Rightarrow> merkle_node \<Rightarrow> bool \<Rightarrow> 'b engine_store" where
  "es_put_hashed s cid h node verified =
     (let c = es_cache s;
          c1 = (if verified then
                  c\<lparr>pc_last_verified_sequences :=
                      fm_set (pc_last_verified_sequences c) (cid, nd_sender_pk node) (nd_sequence_number node),
                    pc_verified := hs_insert h (pc_verified c)\<rparr>
                else c)
      in s\<lparr>es_cache := c1\<lparr>pc_nodes := fm_set (pc_nodes c) h node\<rparr>\<rparr>)"

definition es_put_node ::
    "('e) dag_env_scheme \<Rightarrow> 'b engine_store \<Rightarrow> conversation_id \<Rightarrow> merkle_node \<Rightarrow> bool \<Rightarrow> 'b engine_store panics" where
  "es_put_node env s cid node verified = do { h \<leftarrow> mn_hash env node; Some (es_put_hashed s cid h node verified) }"

definition es_put_wire_node :: "'b engine_store \<Rightarrow> conversation_id \<Rightarrow> node_hash \<Rightarrow> wire_node \<Rightarrow> 'b engine_store" where
  "es_put_wire_node s cid h w =
     s\<lparr>es_cache := (es_cache s)\<lparr>pc_wire_nodes := fm_set (pc_wire_nodes (es_cache s)) h (cid, w)\<rparr>\<rparr>"

definition es_remove_wire_node ::
    "('b, 'm) node_store_scheme \<Rightarrow> 'b engine_store \<Rightarrow> conversation_id \<Rightarrow> node_hash \<Rightarrow> unit merkle_result \<times> 'b engine_store" where
  "es_remove_wire_node ns s cid h =
     (let (r, b) = ns_remove_wire_node ns (es_store s) cid h
      in (r, \<lparr>es_store = b, es_cache = (es_cache s)\<lparr>pc_wire_nodes := fm_del (pc_wire_nodes (es_cache s)) h\<rparr>\<rparr>))"

definition es_get_opaque_node_hashes ::
    "('b, 'm) node_store_scheme \<Rightarrow> 'b engine_store \<Rightarrow> conversation_id \<Rightarrow> node_hash list merkle_result" where
  "es_get_opaque_node_hashes ns s cid =
     (case ns_get_opaque_node_hashes ns (es_store s) cid of
        Inl e \<Rightarrow> Inl e
      | Inr hashes \<Rightarrow>
          (let c = es_cache s
           in Inr (fold (\<lambda>(h, wcid, _) hs.
                      if wcid = cid \<and> \<not> fm_contains_key (pc_nodes c) h \<and> h \<notin> set hs then hs @ [h] else hs)
                (pc_wire_nodes c) (filter (\<lambda>h. \<not> fm_contains_key (pc_nodes c) h) hashes))))"

text \<open>\<^verbatim>\<open>retain\<close> and the set of hashes call \<^verbatim>\<open>hash\<close> on every node.\<close>

definition es_get_speculative_nodes ::
    "('e) dag_env_scheme \<Rightarrow> ('b, 'm) node_store_scheme \<Rightarrow> 'b engine_store \<Rightarrow> conversation_id \<Rightarrow> merkle_node list panics" where
  "es_get_speculative_nodes env ns s cid =
     (let c = es_cache s
      in do {
        hashed \<leftarrow> map_panics (\<lambda>n. do { h \<leftarrow> mn_hash env n; Some (h, n) }) (ns_get_speculative_nodes ns (es_store s) cid);
        let kept = filter (\<lambda>(h, _). h \<notin> set (pc_verified c)) hashed;
        Some (map snd (fold (\<lambda>(h, n) acc.
          if h \<notin> set (pc_verified c) \<and> h \<notin> fst ` set acc then acc @ [(h, n)] else acc) (pc_nodes c) kept))
      })"

definition es_mark_verified :: "'b engine_store \<Rightarrow> conversation_id \<Rightarrow> node_hash \<Rightarrow> 'b engine_store" where
  "es_mark_verified s cid h =
     (let c = (es_cache s)\<lparr>pc_verified := hs_insert h (pc_verified (es_cache s))\<rparr>
      in s\<lparr>es_cache :=
             (case fm_get (pc_nodes c) h of
                None \<Rightarrow> c
              | Some node \<Rightarrow>
                  c\<lparr>pc_last_verified_sequences :=
                      fm_set (pc_last_verified_sequences c) (cid, nd_sender_pk node) (nd_sequence_number node)\<rparr>)\<rparr>)"

definition es_get_last_sequence_number ::
    "('b, 'm) node_store_scheme \<Rightarrow> 'b engine_store \<Rightarrow> conversation_id \<Rightarrow> public_key \<Rightarrow> nat" where
  "es_get_last_sequence_number ns s cid pk =
     (case fm_get (pc_last_verified_sequences (es_cache s)) (cid, pk) of
        Some n \<Rightarrow> n
      | None \<Rightarrow> ns_get_last_sequence_number ns (es_store s) cid pk)"

definition es_get_node_counts :: "('b, 'm) node_store_scheme \<Rightarrow> 'b engine_store \<Rightarrow> conversation_id \<Rightarrow> nat \<times> nat" where
  "es_get_node_counts ns s cid =
     fold (\<lambda>h (ver, spec).
             if \<not> ns_has_node ns (es_store s) h then
               (if h \<in> set (pc_verified (es_cache s)) then (ver + 1, spec) else (ver, spec + 1))
             else (ver, spec))
       (fm_keys (pc_nodes (es_cache s))) (ns_get_node_counts ns (es_store s) cid)"

text \<open>\<^verbatim>\<open>nodes.iter().any(|n| n.hash() == hash)\<close>, which stops at the first match.\<close>

fun any_hash :: "('e) dag_env_scheme \<Rightarrow> node_hash \<Rightarrow> merkle_node list \<Rightarrow> bool panics" where
  "any_hash env h [] = Some False"
| "any_hash env h (n # ns) = do { k \<leftarrow> mn_hash env n; if k = h then Some True else any_hash env h ns }"

fun es_add_verified ::
    "('e) dag_env_scheme \<Rightarrow> node_hash list \<Rightarrow> node_type \<Rightarrow> (node_hash, merkle_node) flat_map \<Rightarrow> merkle_node list
       \<Rightarrow> merkle_node list panics" where
  "es_add_verified env verified ty [] acc = Some acc"
| "es_add_verified env verified ty ((h, node) # rest) acc =
     (if h \<in> set verified \<and> node_type_of node = ty then
        do {
          present \<leftarrow> any_hash env h acc;
          es_add_verified env verified ty rest (if present then acc else acc @ [node])
        }
      else es_add_verified env verified ty rest acc)"

definition es_get_verified_nodes_by_type ::
    "('e) dag_env_scheme \<Rightarrow> ('b, 'm) node_store_scheme \<Rightarrow> 'b engine_store \<Rightarrow> conversation_id \<Rightarrow> node_type
       \<Rightarrow> merkle_node list merkle_result panics" where
  "es_get_verified_nodes_by_type env ns s cid ty =
     (case ns_get_verified_nodes_by_type ns (es_store s) cid ty of
        Inl e \<Rightarrow> Some (Inl e)
      | Inr nodes \<Rightarrow>
          do {
            all_nodes \<leftarrow> es_add_verified env (pc_verified (es_cache s)) ty (pc_nodes (es_cache s)) nodes;
            Some (Inr (sort_key nd_topological_rank all_nodes))
          })"

definition es_get_node_hashes_in_range ::
    "('b, 'm) node_store_scheme \<Rightarrow> 'b engine_store \<Rightarrow> conversation_id \<Rightarrow> sync_range \<Rightarrow> node_hash list merkle_result panics" where
  "es_get_node_hashes_in_range ns s cid rg =
     do {
       r \<leftarrow> ns_get_node_hashes_in_range ns (es_store s) cid rg;
       Some (case r of
         Inl e \<Rightarrow> Inl e
       | Inr hashes \<Rightarrow>
           Inr (fold (\<lambda>(h, node) hs.
                  if nd_topological_rank node \<ge> sr_min_rank rg \<and> nd_topological_rank node \<le> sr_max_rank rg
                       \<and> h \<notin> set hs then hs @ [h] else hs)
             (pc_nodes (es_cache s)) hashes))
     }"

text \<open>The keys are read from the store; the cache keeps no writes of them.\<close>

definition es_size_bytes :: "('b, 'm) node_store_scheme \<Rightarrow> 'b engine_store \<Rightarrow> nat" where
  "es_size_bytes ns s = ns_size_bytes ns (es_store s)"

definition es_put_conversation_key :: "'b engine_store \<Rightarrow> conversation_id \<Rightarrow> nat \<Rightarrow> bytes \<Rightarrow> 'b engine_store" where
  "es_put_conversation_key s cid epoch k = s"

definition es_get_conversation_keys ::
    "('b, 'm) node_store_scheme \<Rightarrow> 'b engine_store \<Rightarrow> conversation_id \<Rightarrow> (nat \<times> bytes) list merkle_result" where
  "es_get_conversation_keys ns s cid = ns_get_conversation_keys ns (es_store s) cid"

definition es_update_epoch_metadata :: "'b engine_store \<Rightarrow> conversation_id \<Rightarrow> u32 \<Rightarrow> int \<Rightarrow> 'b engine_store" where
  "es_update_epoch_metadata s cid c t = s"

definition es_get_epoch_metadata ::
    "('b, 'm) node_store_scheme \<Rightarrow> 'b engine_store \<Rightarrow> conversation_id \<Rightarrow> (u32 \<times> int) option merkle_result" where
  "es_get_epoch_metadata ns s cid = ns_get_epoch_metadata ns (es_store s) cid"

definition es_put_ratchet_key ::
    "'b engine_store \<Rightarrow> conversation_id \<Rightarrow> node_hash \<Rightarrow> bytes \<Rightarrow> nat \<Rightarrow> 'b engine_store" where
  "es_put_ratchet_key s cid h k epoch = s"

definition es_get_ratchet_key ::
    "('b, 'm) node_store_scheme \<Rightarrow> 'b engine_store \<Rightarrow> conversation_id \<Rightarrow> node_hash \<Rightarrow> (bytes \<times> nat) option merkle_result" where
  "es_get_ratchet_key ns s cid h = ns_get_ratchet_key ns (es_store s) cid h"

definition es_remove_ratchet_key :: "'b engine_store \<Rightarrow> conversation_id \<Rightarrow> node_hash \<Rightarrow> 'b engine_store" where
  "es_remove_ratchet_key s cid h = s"

text \<open>The queries of validation, over a store and a cache.\<close>

definition es_lookup :: "('b, 'm) node_lookup_scheme \<Rightarrow> nat \<Rightarrow> 'b engine_store node_lookup" where
  "es_lookup ns fuel =
     \<lparr>lk_node_type = es_get_node_type ns, lk_rank = es_get_rank ns,
      lk_admin_distance = admin_distance (es_memo ns) fuel,
      lk_contains_node = es_contains_node ns, lk_has_children = es_has_children ns,
      lk_soft_anchor_chain = es_soft_anchor_chain ns fuel\<rparr>"

end
