(* ===== verification/Dag_Run.thy ===== *)
theory Dag_Run
  imports Node_Store
begin

text \<open>
  The two stores answer validation exactly about the history they hold, through their memos and
  overlays, and a conversation's history stays well formed under the engine's admission of nodes
  (\<^verbatim>\<open>engine/processor/verification.rs\<close>) and the writes that follow it.
\<close>

section \<open>The memoised distance is the distance\<close>

lemma distance_of_parents:
  assumes wf_V: "well_formed V" and h: "V h = Some n" "node_type_of n = Content"
  shows "distance_from (fold min (map (nearest V) (nd_parents n)) u64_max) = Some (nearest V h)"
proof (cases "nd_parents n = []")
  case True
  with h show ?thesis by (simp add: distance_from_def nearest_rootless)
next
  case False
  let ?m = "Min (nearest V ` set (nd_parents n))"
  have hop: "nearest V h = Suc ?m" using wf_V h False by (rule nearest_hop)
  moreover have "nearest V h \<le> MAX_ANCESTRY_HOPS" using wf_V h by (intro nearest_bounded) auto
  ultimately have small: "?m < u64_max" by (simp add: u64_max_def MAX_ANCESTRY_HOPS_def)
  have "fold min (map (nearest V) (nd_parents n)) u64_max = Min (set (u64_max # map (nearest V) (nd_parents n)))"
    by (simp only: Min.set_eq_fold)
  also have "\<dots> = min u64_max ?m" using False by (simp add: Min_insert)
  also have "\<dots> = ?m" using small by simp
  finally show ?thesis using small hop by (simp add: distance_from_def add_u64_def)
qed

locale memoised =
  fixes ops :: "'s memo_ops"
    and V :: history
    and P :: "'s \<Rightarrow> bool"
  assumes wf_V: "P s \<Longrightarrow> well_formed V"
    and get_exact: "P s \<Longrightarrow> mo_get ops s h = Some d \<Longrightarrow> distance V h = Some d"
    and set_exact: "P s \<Longrightarrow> distance V h = Some d \<Longrightarrow> P (mo_set ops s h d)"
    and node_stored: "P s \<Longrightarrow> mo_node ops s h = Some n \<Longrightarrow> V h = Some (node_data.truncate n)"
    and else_exact: "P s \<Longrightarrow> mo_node ops s h = None \<Longrightarrow>
          \<exists>s'. mo_else ops s h = Some (distance V h, s') \<and> P s'"
begin

lemma parents_distance_exact:
  assumes step: "\<And>s p. P s \<Longrightarrow> p \<in> set ps \<Longrightarrow> \<exists>s'. admin_distance ops fuel s p = Some (distance V p, s') \<and> P s'"
    and "P s" "set ps \<subseteq> dom V"
  shows "\<exists>s'. parents_distance ops fuel s ps m = Some (fold min (map (nearest V) ps) m, s') \<and> P s'"
  using assms
proof (induction ps arbitrary: s m)
  case (Cons p ps)
  obtain s1 where s1: "admin_distance ops fuel s p = Some (distance V p, s1)" "P s1"
    using Cons.prems(1) [OF Cons.prems(2), of p] by auto
  have "distance V p = Some (nearest V p)" using Cons.prems(3) by (auto simp: distance_def)
  with s1 show ?case
    using Cons.IH [of s1 "min m (nearest V p)"] Cons.prems by (auto simp: min.commute)
qed simp

lemma admin_distance_exact:
  "P s \<Longrightarrow> rank_in V h < fuel \<Longrightarrow>
     \<exists>s'. admin_distance ops fuel s h = Some (distance V h, s') \<and> P s'"
proof (induction fuel arbitrary: s h)
  case (Suc fuel)
  show ?case
  proof (cases "mo_get ops s h")
    case (Some d)
    with Suc.prems get_exact show ?thesis by auto
  next
    case memo: None
    show ?thesis
    proof (cases "mo_node ops s h")
      case None
      with Suc.prems(1) memo else_exact show ?thesis by auto
    next
      case (Some node)
      with Suc.prems(1) have h: "V h = Some (node_data.truncate node)" by (rule node_stored)
      then have dist: "distance V h = Some (nearest V h)" by (auto simp: distance_def)
      note wf = wf_V [OF Suc.prems(1)]
      show ?thesis
      proof (cases "node_type_of node")
        case Admin
        with h have "nearest V h = 0" by (intro nearest_admin) auto
        with Admin memo Some dist set_exact [OF Suc.prems(1)] show ?thesis by auto
      next
        case Content
        let ?ps = "nd_parents (node_data.truncate node)"
        have ok: "node_ok V (node_data.truncate node)" using wf h by (rule well_formedD)
        have ps: "nd_parents node = ?ps" by (simp add: node_data.truncate_def)
        have "rank_in V p < fuel" if "p \<in> set ?ps" for p
          using rank_in_parent [OF ok that] Suc.prems(2) h by (simp add: rank_in_def [of V h])
        then have step: "\<exists>s'. admin_distance ops fuel t p = Some (distance V p, s') \<and> P s'"
          if "P t" "p \<in> set ?ps" for t p
          using that Suc.IH by blast
        have "set ?ps \<subseteq> dom V" using ok by (simp add: node_ok_def)
        then obtain s' where s': "parents_distance ops fuel s ?ps u64_max
            = Some (fold min (map (nearest V) ?ps) u64_max, s')" "P s'"
          using parents_distance_exact [OF step Suc.prems(1)] by blast
        moreover have "distance_from (fold min (map (nearest V) ?ps) u64_max) = Some (nearest V h)"
          using wf h Content by (intro distance_of_parents) auto
        ultimately show ?thesis
          using memo Some Content dist ps set_exact [of s' h] by auto
      qed
    qed
  qed
qed simp

end

text \<open>The length of a chain of soft anchors, when nodes that are not at hand are answered exactly.\<close>

lemma soft_anchor_chain_exact:
  assumes V: "well_formed V"
    and node: "\<And>h n. get_node h = Some n \<Longrightarrow> V h = Some (node_data.truncate n)"
    and other: "\<And>h. get_node h = None \<Longrightarrow> h \<in> dom V \<Longrightarrow> \<exists>k. other h = Some (Some k) \<and> soft_chain V h k"
  shows "h \<in> dom V \<Longrightarrow> rank_in V h < fuel \<Longrightarrow>
           \<exists>k. soft_anchor_chain_length get_node other fuel h = Some (Some k) \<and> soft_chain V h k"
proof (induction fuel arbitrary: h)
  case (Suc fuel)
  show ?case
  proof (cases "get_node h")
    case None
    with Suc.prems other show ?thesis by auto
  next
    case (Some n)
    then have h: "V h = Some (node_data.truncate n)" by (rule node)
    have ok: "node_ok V (node_data.truncate n)" using V h by (rule well_formedD)
    show ?thesis
    proof (cases "is_soft_anchor (nd_content n)")
      case False
      with h have "soft_chain V h 0" by (intro soft_chain.other) (auto simp: node_data.truncate_def)
      with False Some show ?thesis by (cases "nd_content n" rule: is_soft_anchor.cases) auto
    next
      case True
      then obtain b c where c: "nd_content n = Control (SoftAnchor b c)" by (auto elim: is_soft_anchor.elims)
      with ok have b: "nd_parents n = [b]" and dom: "b \<in> dom V"
        by (auto simp: node_ok_def node_data.truncate_def)
      have "rank_in V b < fuel"
        using rank_in_parent [OF ok, of b] b h Suc.prems(2) by (simp add: node_data.truncate_def rank_in_def [of V h])
      with Suc.IH [OF dom] obtain k where k: "soft_anchor_chain_length get_node other fuel b = Some (Some k)"
          "soft_chain V b k" by blast
      obtain k' where "k' \<le> MAX_SOFT_ANCHOR_CHAIN" "soft_chain V b k'"
        using soft_chain_exists [OF V dom] by blast
      with k(2) have "k \<le> MAX_SOFT_ANCHOR_CHAIN" using soft_chain_fun by blast
      then have "add_u64 1 k = Some (Suc k)" by (simp add: add_u64_def u64_max_def MAX_SOFT_ANCHOR_CHAIN_def)
      moreover have "soft_chain V h (Suc k)"
        using h c k(2) by (intro soft_chain.soft) (auto simp: node_data.truncate_def)
      ultimately show ?thesis using Some c k(1) by auto
    qed
  qed
qed simp

section \<open>Stores of histories\<close>

locale history_store = history_lookup lk inv view
  for lk :: "('s, 'l) node_lookup_scheme" and inv :: "'s \<Rightarrow> bool" and view :: "'s \<Rightarrow> history" +
  fixes put :: "'s \<Rightarrow> node_hash \<Rightarrow> merkle_node \<Rightarrow> bool \<Rightarrow> 's"
    and fuel :: nat
  assumes put_exact: "inv s \<Longrightarrow> node_ok (view s) n \<Longrightarrow>
            view s h = None \<or> view s h = Some (node_data.truncate n) \<Longrightarrow> nd_topological_rank n < fuel \<Longrightarrow>
            inv (put s h n v) \<and> view (put s h n v) = (view s)(h \<mapsto> node_data.truncate n)"

subsection \<open>The in-memory store\<close>

definition ims_view :: "in_memory_store \<Rightarrow> history" where
  "ims_view s h = map_option (\<lambda>(n, _). node_data.truncate n) (fm_get (ims_nodes s) h)"

definition ranks_below :: "nat \<Rightarrow> history \<Rightarrow> bool" where
  "ranks_below fuel V \<longleftrightarrow> fuel \<le> u64_max \<and> (\<forall>h. rank_in V h < fuel)"

definition ims_inv :: "nat \<Rightarrow> in_memory_store \<Rightarrow> bool" where
  "ims_inv fuel s \<longleftrightarrow> well_formed (ims_view s) \<and> ranks_below fuel (ims_view s)
     \<and> (\<forall>h. fm_get (ims_admin_distance_cache s) h = distance (ims_view s) h)"

lemma ranks_below_extend:
  "ranks_below fuel V \<Longrightarrow> nd_topological_rank n < fuel \<Longrightarrow> ranks_below fuel (V(h \<mapsto> n))"
  by (auto simp: ranks_below_def rank_in_def)

lemma truncate_simps [simp]:
  "nd_topological_rank (node_data.truncate n) = nd_topological_rank n"
  "nd_parents (node_data.truncate n) = nd_parents n"
  "nd_content (node_data.truncate n) = nd_content n"
  by (simp_all add: node_data.truncate_def)

lemma distance_extend:
  assumes "well_formed V" "node_ok V n" "V h = None \<or> V h = Some (node_data.truncate n)" "k \<noteq> h"
  shows "distance (V(h \<mapsto> node_data.truncate n)) k = distance V k"
  using assms well_formed_extend [of V "node_data.truncate n" h]
  by (auto simp: distance_def intro: nearest_stable)

lemma ims_put_distance_exact:
  assumes inv: "ims_inv fuel s" and ok: "node_ok (ims_view s) n"
    and fresh: "ims_view s h = None \<or> ims_view s h = Some (node_data.truncate n)"
  shows "distance ((ims_view s)(h \<mapsto> node_data.truncate n)) h = Some (ims_put_distance s n)"
proof -
  let ?V = "ims_view s" and ?V' = "(ims_view s)(h \<mapsto> node_data.truncate n)"
  have wf: "well_formed ?V" and cache: "fm_get (ims_admin_distance_cache s) k = distance ?V k" for k
    using inv by (auto simp: ims_inv_def)
  have wf': "well_formed ?V'" and le: "?V \<subseteq>\<^sub>m ?V'"
    using well_formed_extend [OF wf _ fresh] ok by auto
  show ?thesis
  proof (cases "node_type_of n")
    case Admin
    then have "nearest ?V' h = 0" by (intro nearest_admin [of _ _ "node_data.truncate n"]) simp_all
    with Admin show ?thesis by (simp add: distance_def ims_put_distance_def)
  next
    case Content
    let ?m = "fold min (map (nearest ?V) (nd_parents n)) u64_max"
    have dom: "set (nd_parents n) \<subseteq> dom ?V" using ok by (simp add: node_ok_def)
    then have same: "map (nearest ?V') (nd_parents n) = map (nearest ?V) (nd_parents n)"
      using nearest_stable [OF wf le] by auto
    have "distance_from (fold min (map (nearest ?V') (nd_parents n)) u64_max) = Some (nearest ?V' h)"
      using distance_of_parents [OF wf', of h "node_data.truncate n"] Content by simp
    then have "distance_from ?m = Some (nearest ?V' h)" unfolding same .
    moreover have "fold (\<lambda>p m. case fm_get (ims_admin_distance_cache s) p of Some d \<Rightarrow> min m d | None \<Rightarrow> m)
        (nd_parents n) u64_max = ?m"
      unfolding fold_map comp_def using dom
      by (intro fold_cong) (auto simp: cache distance_def fun_eq_iff min.commute)
    ultimately show ?thesis
      using Content by (auto simp: distance_def ims_put_distance_def distance_from_def add_u64_def split: if_splits)
  qed
qed

lemma ims_view_cache [simp]: "ims_view (s\<lparr>ims_admin_distance_cache := c\<rparr>) = ims_view s"
  by (simp add: ims_view_def fun_eq_iff)

interpretation ims_memo: memoised ims_memo V "\<lambda>s. ims_inv fuel s \<and> ims_view s = V" for V fuel
proof unfold_locales
  fix s h d
  assume s: "ims_inv fuel s \<and> ims_view s = V"
  then show "distance V h = Some d \<Longrightarrow>
      ims_inv fuel (mo_set ims_memo s h d) \<and> ims_view (mo_set ims_memo s h d) = V"
    by (auto simp: ims_inv_def ims_memo_def)
next
  fix s h
  assume "ims_inv fuel s \<and> ims_view s = V" "mo_node ims_memo s h = None"
  then show "\<exists>s'. mo_else ims_memo s h = Some (distance V h, s') \<and> ims_inv fuel s' \<and> ims_view s' = V"
    by (auto simp: ims_memo_def ims_get_node_def ims_view_def distance_def)
next
  fix s h n
  assume "ims_inv fuel s \<and> ims_view s = V" "mo_node ims_memo s h = Some n"
  then show "V h = Some (node_data.truncate n)" by (auto simp: ims_memo_def ims_get_node_def ims_view_def)
qed (auto simp: ims_inv_def ims_memo_def)

lemma ims_distance_exact:
  assumes "ims_inv fuel s"
  shows "\<exists>s'. admin_distance ims_memo fuel s h = Some (distance (ims_view s) h, s') \<and> ims_inv fuel s' \<and> ims_view s' = ims_view s"
  using ims_memo.admin_distance_exact [of fuel s "ims_view s" h fuel] assms
  by (simp add: ims_inv_def ranks_below_def)

lemma ims_chain_exact:
  assumes "ims_inv fuel s" "h \<in> dom (ims_view s)"
  shows "\<exists>k. ims_soft_anchor_chain fuel s h = Some (Some k) \<and> soft_chain (ims_view s) h k"
  unfolding ims_soft_anchor_chain_def
  by (rule soft_anchor_chain_exact [of "ims_view s"])
    (use assms in \<open>auto simp: ims_inv_def ranks_below_def ims_get_node_def ims_view_def split: prod.splits\<close>)

lemma ims_answers:
  "lk_node_type (ims_store env fuel) s h = map_option node_type_of (ims_view s h)"
  "lk_rank (ims_store env fuel) s h = map_option nd_topological_rank (ims_view s h)"
  "lk_contains_node (ims_store env fuel) s h \<longleftrightarrow> h \<in> dom (ims_view s)"
  by (cases "fm_get (ims_nodes s) h"; force simp: ims_store_def ims_get_node_type_def ims_get_rank_def
        ims_contains_node_def ims_view_def)+

lemma ranks_belowD: "ranks_below fuel V \<Longrightarrow> V h = Some n \<Longrightarrow> nd_topological_rank n < fuel"
  by (auto simp: ranks_below_def rank_in_def split: option.splits)

lemma ims_history_lookup: "history_lookup (ims_store env fuel) (ims_inv fuel) ims_view"
proof unfold_locales
  fix s h n
  assume "ims_inv fuel s" "ims_view s h = Some n"
  then show "nd_topological_rank n < u64_max"
    by (auto simp: ims_inv_def ranks_below_def dest!: ranks_belowD [rotated])
next
  fix s h
  assume "ims_inv fuel s"
  then show "\<exists>s'. lk_admin_distance (ims_store env fuel) s h = Some (distance (ims_view s) h, s')
      \<and> ims_inv fuel s' \<and> ims_view s' = ims_view s"
    using ims_distance_exact by (simp add: ims_store_def)
next
  fix s h
  assume "ims_inv fuel s" "h \<in> dom (ims_view s)"
  then show "\<exists>k. lk_soft_anchor_chain (ims_store env fuel) s h = Some (Some k) \<and> soft_chain (ims_view s) h k"
    using ims_chain_exact by (simp add: ims_store_def)
qed (simp_all add: ims_answers ims_inv_def)

lemma ims_history_store:
  "history_store (ims_store env fuel) (ims_inv fuel) ims_view ims_put_hashed fuel"
proof (intro history_store.intro ims_history_lookup history_store_axioms.intro)
  fix s h v and n :: merkle_node
  assume inv: "ims_inv fuel s" and ok: "node_ok (ims_view s) n" and rank: "nd_topological_rank n < fuel"
    and fresh: "ims_view s h = None \<or> ims_view s h = Some (node_data.truncate n)"
  have view: "ims_view (ims_put_hashed s h n v) = (ims_view s)(h \<mapsto> node_data.truncate n)"
    by (auto simp: ims_view_def ims_put_hashed_def fun_eq_iff)
  have "well_formed ((ims_view s)(h \<mapsto> node_data.truncate n))"
    using inv ok fresh by (intro well_formed_extend) (auto simp: ims_inv_def)
  moreover have "ranks_below fuel ((ims_view s)(h \<mapsto> node_data.truncate n))"
    using inv rank by (intro ranks_below_extend) (auto simp: ims_inv_def)
  moreover have "fm_get (ims_admin_distance_cache (ims_put_hashed s h n v)) k
      = distance ((ims_view s)(h \<mapsto> node_data.truncate n)) k" for k
    using inv ok fresh ims_put_distance_exact [OF inv ok fresh] distance_extend [of "ims_view s" n h k]
    by (auto simp: ims_put_hashed_def ims_inv_def)
  ultimately show "ims_inv fuel (ims_put_hashed s h n v)
      \<and> ims_view (ims_put_hashed s h n v) = (ims_view s)(h \<mapsto> node_data.truncate n)"
    unfolding ims_inv_def view by blast
qed

subsection \<open>The engine's store over any other\<close>

definition es_view :: "('b \<Rightarrow> history) \<Rightarrow> 'b engine_store \<Rightarrow> history" where
  "es_view view s = view (es_store s) ++ (\<lambda>h. map_option node_data.truncate (fm_get (pc_nodes (es_cache s)) h))"

definition es_inv :: "nat \<Rightarrow> ('b \<Rightarrow> bool) \<Rightarrow> ('b \<Rightarrow> history) \<Rightarrow> 'b engine_store \<Rightarrow> bool" where
  "es_inv fuel base_ok view s \<longleftrightarrow>
     base_ok (es_store s) \<and> well_formed (es_view view s) \<and> ranks_below fuel (es_view view s)
     \<and> view (es_store s) \<subseteq>\<^sub>m es_view view s
     \<and> (\<forall>h d. fm_get (pc_admin_distances (es_cache s)) h = Some d \<longrightarrow> distance (es_view view s) h = Some d)"

lemma es_view_cached: "fm_get (pc_nodes (es_cache s)) h = Some n \<Longrightarrow> es_view view s h = Some (node_data.truncate n)"
  by (simp add: es_view_def map_add_def)

lemma es_view_stored: "fm_get (pc_nodes (es_cache s)) h = None \<Longrightarrow> es_view view s h = view (es_store s) h"
  by (simp add: es_view_def map_add_def)

lemma es_view_put:
  "es_view view (es_put_hashed s cid h n v) = (es_view view s)(h \<mapsto> node_data.truncate n)"
  by (auto simp: es_view_def es_put_hashed_def Let_def map_add_def fun_eq_iff)

context history_lookup
begin

lemma es_answers:
  assumes "es_inv fuel inv view s"
  shows "lk_node_type (es_lookup lk fuel) s h = map_option node_type_of (es_view view s h)"
    and "lk_rank (es_lookup lk fuel) s h = map_option nd_topological_rank (es_view view s h)"
    and "lk_contains_node (es_lookup lk fuel) s h \<longleftrightarrow> h \<in> dom (es_view view s)"
  using assms
  by (cases "fm_get (pc_nodes (es_cache s)) h";
      force simp: es_lookup_def es_get_node_type_def es_get_rank_def es_contains_node_def or_else_def
        es_view_cached es_view_stored es_inv_def type_exact rank_exact contains_exact)+

lemma es_memoised: "memoised (es_memo lk) V (\<lambda>t. es_inv fuel inv view t \<and> es_view view t = V)"
proof unfold_locales
  fix t
  assume "es_inv fuel inv view t \<and> es_view view t = V"
  then show "well_formed V" by (auto simp: es_inv_def)
next
  fix t h d
  assume t: "es_inv fuel inv view t \<and> es_view view t = V"
  then show "mo_get (es_memo lk) t h = Some d \<Longrightarrow> distance V h = Some d"
    by (auto simp: es_inv_def es_memo_def)
  show "distance V h = Some d \<Longrightarrow>
      es_inv fuel inv view (mo_set (es_memo lk) t h d) \<and> es_view view (mo_set (es_memo lk) t h d) = V"
    using t by (auto simp: es_inv_def es_memo_def es_view_def)
next
  fix t h n
  assume "es_inv fuel inv view t \<and> es_view view t = V" "mo_node (es_memo lk) t h = Some n"
  then show "V h = Some (node_data.truncate n)"
    using es_view_cached [of t h n view] by (auto simp: es_memo_def)
next
  fix t h
  assume t: "es_inv fuel inv view t \<and> es_view view t = V"
    and none: "mo_node (es_memo lk) t h = None"
  then obtain b where b: "lk_admin_distance lk (es_store t) h = Some (distance (view (es_store t)) h, b)"
      "inv b" "view b = view (es_store t)"
    using distance_exact [of "es_store t" h] by (auto simp: es_inv_def)
  have "distance V h = distance (view (es_store t)) h"
  proof (cases "h \<in> dom (view (es_store t))")
    case True
    then have "nearest (es_view view t) h = nearest (view (es_store t)) h"
      using t by (intro nearest_stable wf_view) (auto simp: es_inv_def)
    with True t none es_view_stored [of t h view] show ?thesis by (auto simp: distance_def es_memo_def)
  next
    case False
    with t none es_view_stored [of t h view] show ?thesis by (auto simp: distance_def es_memo_def)
  qed
  moreover have "es_view view (t\<lparr>es_store := b\<rparr>) = es_view view t" using b by (simp add: es_view_def)
  ultimately show "\<exists>s'. mo_else (es_memo lk) t h = Some (distance V h, s')
      \<and> es_inv fuel inv view s' \<and> es_view view s' = V"
    using b t by (auto simp: es_memo_def es_inv_def)
qed

lemma es_distance_exact:
  assumes "es_inv fuel inv view s"
  shows "\<exists>s'. admin_distance (es_memo lk) fuel s h = Some (distance (es_view view s) h, s')
           \<and> es_inv fuel inv view s' \<and> es_view view s' = es_view view s"
proof -
  have "rank_in (es_view view s) h < fuel" using assms by (simp add: es_inv_def ranks_below_def)
  with memoised.admin_distance_exact [OF es_memoised] assms show ?thesis by blast
qed

lemma es_chain_exact:
  assumes inv: "es_inv fuel inv view s" and h: "h \<in> dom (es_view view s)"
  shows "\<exists>k. es_soft_anchor_chain lk fuel s h = Some (Some k) \<and> soft_chain (es_view view s) h k"
  unfolding es_soft_anchor_chain_def
proof (rule soft_anchor_chain_exact)
  show "well_formed (es_view view s)" "rank_in (es_view view s) h < fuel"
    using inv by (auto simp: es_inv_def ranks_below_def)
next
  fix k
  assume "fm_get (pc_nodes (es_cache s)) k = None" "k \<in> dom (es_view view s)"
  then have "k \<in> dom (view (es_store s))" by (auto simp: es_view_stored)
  then obtain c where "lk_soft_anchor_chain lk (es_store s) k = Some (Some c)" "soft_chain (view (es_store s)) k c"
    using inv chain_exact [of "es_store s" k] by (auto simp: es_inv_def)
  with inv show "\<exists>c. lk_soft_anchor_chain lk (es_store s) k = Some (Some c) \<and> soft_chain (es_view view s) k c"
    by (auto simp: es_inv_def intro: soft_chain_mono)
qed (use h es_view_cached in auto)

lemma es_history_lookup: "history_lookup (es_lookup lk fuel) (es_inv fuel inv view) (es_view view)"
proof unfold_locales
  fix s h n
  assume "es_inv fuel inv view s" "es_view view s h = Some n"
  then show "nd_topological_rank n < u64_max"
    by (auto simp: es_inv_def ranks_below_def dest!: ranks_belowD [rotated])
next
  fix s h
  assume "es_inv fuel inv view s"
  then show "\<exists>s'. lk_admin_distance (es_lookup lk fuel) s h = Some (distance (es_view view s) h, s')
      \<and> es_inv fuel inv view s' \<and> es_view view s' = es_view view s"
    using es_distance_exact by (simp add: es_lookup_def)
next
  fix s h
  assume "es_inv fuel inv view s" "h \<in> dom (es_view view s)"
  then show "\<exists>k. lk_soft_anchor_chain (es_lookup lk fuel) s h = Some (Some k) \<and> soft_chain (es_view view s) h k"
    using es_chain_exact by (simp add: es_lookup_def)
qed (simp_all add: es_answers, simp add: es_inv_def)

lemma es_history_store:
  "history_store (es_lookup lk fuel) (es_inv fuel inv view) (es_view view) (\<lambda>s. es_put_hashed s cid) fuel"
proof (intro history_store.intro es_history_lookup history_store_axioms.intro)
  fix s h v and n :: merkle_node
  assume inv: "es_inv fuel inv view s" and ok: "node_ok (es_view view s) n" and rank: "nd_topological_rank n < fuel"
    and fresh: "es_view view s h = None \<or> es_view view s h = Some (node_data.truncate n)"
  let ?V' = "(es_view view s)(h \<mapsto> node_data.truncate n)"
  have wf: "well_formed (es_view view s)" using inv by (simp add: es_inv_def)
  have wf': "well_formed ?V'" and le: "es_view view s \<subseteq>\<^sub>m ?V'"
    using well_formed_extend [OF wf _ fresh] ok by auto
  have "distance ?V' k = Some d" if "distance (es_view view s) k = Some d" for k d
    using that nearest_stable [OF wf le, of k] by (auto simp: distance_def split: if_splits)
  moreover have "es_store (es_put_hashed s cid h n v) = es_store s"
    "pc_admin_distances (es_cache (es_put_hashed s cid h n v)) = pc_admin_distances (es_cache s)"
    by (simp_all add: es_put_hashed_def Let_def)
  ultimately show "es_inv fuel inv view (es_put_hashed s cid h n v) \<and> es_view view (es_put_hashed s cid h n v) = ?V'"
    using inv wf' le rank ranks_below_extend [of fuel "es_view view s" "node_data.truncate n" h]
    unfolding es_inv_def es_view_put by (auto intro: map_le_trans)
qed

end

interpretation ims: history_store "ims_store env fuel" "ims_inv fuel" ims_view ims_put_hashed fuel
  for env :: "'e dag_env_scheme" and fuel
  by (rule ims_history_store)

abbreviation engine_view :: "in_memory_store engine_store \<Rightarrow> history" where
  "engine_view \<equiv> es_view ims_view"

abbreviation engine_inv :: "nat \<Rightarrow> in_memory_store engine_store \<Rightarrow> bool" where
  "engine_inv fuel \<equiv> es_inv fuel (ims_inv fuel) ims_view"

interpretation es_memo: memoised "es_memo (ims_store env fuel)" V "\<lambda>s. engine_inv fuel s \<and> engine_view s = V"
  for env :: "'e dag_env_scheme" and fuel V
  by (rule ims.es_memoised)

interpretation es: history_store "es_lookup (ims_store env fuel) fuel" "engine_inv fuel" engine_view
    "\<lambda>s. es_put_hashed s cid" fuel
  for env :: "'e dag_env_scheme" and fuel cid
  by (rule ims.es_history_store)

end
