(* ===== verification/Iblt.thy ===== *)
theory Iblt
  imports Prelude "HOL-Library.Multiset"
begin

text \<open>
  \<^verbatim>\<open>tox-reconcile/src/iblt.rs\<close>: invertible Bloom lookup tables for set reconciliation.

  The hash functions of the crate \<^verbatim>\<open>blake3\<close> are a parameter, the record \<open>blake3\<close>. The loop that draws
  the indices of an id from the output stream has no bound in the source, so it is a partial
  function: \<open>None\<close> is a panic or a loop that never ends. Additions to the \<^verbatim>\<open>i32\<close> counters are checked.

  The abstract reading of a table is \<open>encode\<close>: the cells that a list of signed ids adds up to.
  Subtraction of tables is shown to be subtraction of these lists, and what \<^verbatim>\<open>decode\<close> returns is
  shown to add up to the table it was given.
\<close>

section \<open>Model\<close>

record blake3 =
  b3_derive_key :: "string \<Rightarrow> bytes \<Rightarrow> bytes"
  b3_keyed_hash :: "bytes \<Rightarrow> bytes \<Rightarrow> bytes"
  b3_keyed_xof :: "bytes \<Rightarrow> bytes \<Rightarrow> nat \<Rightarrow> u8"

record decoding_stats =
  cells_peeled :: nat
  iterations :: nat

datatype reconciliation_error = DecodingFailed decoding_stats | InvalidSketch

record iblt_cell =
  cell_count :: int
  cell_id_sum :: bytes
  cell_hash_sum :: u64

definition cell_default :: iblt_cell where
  "cell_default = \<lparr>cell_count = 0, cell_id_sum = replicate 32 0, cell_hash_sum = 0\<rparr>"

datatype tier = Tiny | Small | Medium | Large

fun tier_cell_count :: "tier \<Rightarrow> nat" where
  "tier_cell_count Tiny = 16"
| "tier_cell_count Small = 64"
| "tier_cell_count Medium = 256"
| "tier_cell_count Large = 1024"

definition from_cell_count :: "nat \<Rightarrow> tier" where
  "from_cell_count n = (if n \<le> 16 then Tiny else if n \<le> 64 then Small else if n \<le> 256 then Medium else Large)"

fun d_max :: "tier \<Rightarrow> nat" where
  "d_max Tiny = 10"
| "d_max Small = 40"
| "d_max Medium = 170"
| "d_max Large = 680"

record iblt_sketch =
  sk_cells :: "iblt_cell list"
  sk_k :: nat
  sk_k_iblt :: "bytes option"

definition iblt_K :: nat where "iblt_K = 4"

definition from_cells_keyed :: "iblt_cell list \<Rightarrow> bytes option \<Rightarrow> iblt_sketch" where
  "from_cells_keyed cells key = \<lparr>sk_cells = cells, sk_k = iblt_K, sk_k_iblt = key\<rparr>"

definition from_cells :: "iblt_cell list \<Rightarrow> iblt_sketch" where
  "from_cells cells = \<lparr>sk_cells = cells, sk_k = iblt_K, sk_k_iblt = None\<rparr>"

definition sketch_new_keyed :: "nat \<Rightarrow> bytes option \<Rightarrow> iblt_sketch" where
  "sketch_new_keyed n key = \<lparr>sk_cells = replicate n cell_default, sk_k = iblt_K, sk_k_iblt = key\<rparr>"

definition sketch_new :: "nat \<Rightarrow> iblt_sketch" where
  "sketch_new n = \<lparr>sk_cells = replicate n cell_default, sk_k = iblt_K, sk_k_iblt = None\<rparr>"

definition into_cells :: "iblt_sketch \<Rightarrow> iblt_cell list" where
  "into_cells sk = sk_cells sk"

text \<open>\<^verbatim>\<open>*s ^= id_byte\<close> over the zip of the two arrays.\<close>

definition xor_bytes :: "bytes \<Rightarrow> bytes \<Rightarrow> bytes" where
  "xor_bytes a b = map2 (XOR) a b"

definition i32 :: "int \<Rightarrow> int panics" where
  "i32 n = (if - (2 ^ 31) \<le> n \<and> n < 2 ^ 31 then Some n else None)"

definition i32_abs :: "int \<Rightarrow> int panics" where
  "i32_abs n = i32 (if n < 0 then - n else n)"

fun from_le :: "bytes \<Rightarrow> nat" where
  "from_le [] = 0"
| "from_le (b # bs) = unat b + 256 * from_le bs"

definition HASH_CONTEXT_CHECKSUM :: string where "HASH_CONTEXT_CHECKSUM = ''merkle-tox v1 iblt checksum''"
definition HASH_CONTEXT_INDICES :: string where "HASH_CONTEXT_INDICES = ''merkle-tox v1 iblt indices''"

definition blake3_key :: "blake3 \<Rightarrow> string \<Rightarrow> bytes" where
  "blake3_key b ctxt = b3_derive_key b ctxt []"

definition context_key :: "blake3 \<Rightarrow> bytes option \<Rightarrow> string \<Rightarrow> bytes" where
  "context_key b key ctxt = (case key of Some k \<Rightarrow> b3_derive_key b ctxt k | None \<Rightarrow> blake3_key b ctxt)"

text \<open>The draw at position \<open>pos\<close> of the stream: four bytes, little-endian.\<close>

definition draw :: "(nat \<Rightarrow> u8) \<Rightarrow> nat \<Rightarrow> nat \<Rightarrow> nat" where
  "draw xof num_cells pos = from_le (map xof [4 * pos ..< 4 * pos + 4]) mod num_cells"

partial_function (option) index_loop ::
    "(nat \<Rightarrow> u8) \<Rightarrow> nat \<Rightarrow> nat \<Rightarrow> nat \<Rightarrow> nat list \<Rightarrow> nat list option" where
  "index_loop xof k num_cells pos indices =
     (if length indices < k \<and> length indices < num_cells then
        (let idx = draw xof num_cells pos
         in index_loop xof k num_cells (pos + 1) (if idx \<in> set indices then indices else indices @ [idx]))
      else Some indices)"

declare index_loop.simps [code]

definition get_indices :: "blake3 \<Rightarrow> iblt_sketch \<Rightarrow> bytes \<Rightarrow> nat list panics" where
  "get_indices b sk nid =
     map_option sort
       (index_loop (b3_keyed_xof b (context_key b (sk_k_iblt sk) HASH_CONTEXT_INDICES) nid)
          (sk_k sk) (length (sk_cells sk)) 0 [])"

definition get_checksum :: "blake3 \<Rightarrow> iblt_sketch \<Rightarrow> bytes \<Rightarrow> u64" where
  "get_checksum b sk nid =
     of_nat (from_le (take 8 (b3_keyed_hash b (context_key b (sk_k_iblt sk) HASH_CONTEXT_CHECKSUM) nid)))"

definition cell_update :: "bytes \<Rightarrow> u64 \<Rightarrow> int \<Rightarrow> iblt_cell \<Rightarrow> iblt_cell panics" where
  "cell_update nid checksum delta c =
     do {
       n \<leftarrow> i32 (cell_count c + delta);
       Some \<lparr>cell_count = n, cell_id_sum = xor_bytes (cell_id_sum c) nid,
             cell_hash_sum = cell_hash_sum c XOR checksum\<rparr>
     }"

fun update_cells :: "nat list \<Rightarrow> bytes \<Rightarrow> u64 \<Rightarrow> int \<Rightarrow> iblt_cell list \<Rightarrow> iblt_cell list panics" where
  "update_cells [] nid checksum delta cells = Some cells"
| "update_cells (i # is) nid checksum delta cells =
     do {
       c \<leftarrow> index_at cells i;
       c' \<leftarrow> cell_update nid checksum delta c;
       update_cells is nid checksum delta (cells[i := c'])
     }"

definition sketch_update :: "blake3 \<Rightarrow> iblt_sketch \<Rightarrow> bytes \<Rightarrow> int \<Rightarrow> iblt_sketch panics" where
  "sketch_update b sk nid delta =
     do {
       indices \<leftarrow> get_indices b sk nid;
       cells \<leftarrow> update_cells indices nid (get_checksum b sk nid) delta (sk_cells sk);
       Some (sk\<lparr>sk_cells := cells\<rparr>)
     }"

definition sketch_insert :: "blake3 \<Rightarrow> iblt_sketch \<Rightarrow> bytes \<Rightarrow> iblt_sketch panics" where
  "sketch_insert b sk nid = sketch_update b sk nid 1"

definition sketch_remove :: "blake3 \<Rightarrow> iblt_sketch \<Rightarrow> bytes \<Rightarrow> iblt_sketch panics" where
  "sketch_remove b sk nid = sketch_update b sk nid (- 1)"

fun subtract_cells :: "iblt_cell list \<Rightarrow> iblt_cell list \<Rightarrow> iblt_cell list panics" where
  "subtract_cells (c # cs) (d # ds) =
     do {
       n \<leftarrow> i32 (cell_count c - cell_count d);
       rest \<leftarrow> subtract_cells cs ds;
       Some (\<lparr>cell_count = n, cell_id_sum = xor_bytes (cell_id_sum c) (cell_id_sum d),
              cell_hash_sum = cell_hash_sum c XOR cell_hash_sum d\<rparr> # rest)
     }"
| "subtract_cells cs ds = Some []"

definition subtract :: "iblt_sketch \<Rightarrow> iblt_sketch \<Rightarrow> (reconciliation_error + iblt_sketch) panics" where
  "subtract sk other =
     (if length (sk_cells sk) \<noteq> length (sk_cells other) then Some (Inl InvalidSketch)
      else do { cells \<leftarrow> subtract_cells (sk_cells sk) (sk_cells other);
                Some (Inr (sk\<lparr>sk_cells := cells\<rparr>)) })"

definition is_pure :: "blake3 \<Rightarrow> iblt_sketch \<Rightarrow> nat \<Rightarrow> bool panics" where
  "is_pure b sk idx =
     do {
       c \<leftarrow> index_at (sk_cells sk) idx;
       a \<leftarrow> i32_abs (cell_count c);
       Some (if a \<noteq> 1 then False else get_checksum b sk (cell_id_sum c) = cell_hash_sum c)
     }"

subsection \<open>Decoding\<close>

text \<open>The local variables of \<^verbatim>\<open>decode\<close>; \<open>ds_pure\<close> is the stack, its top first.\<close>

record decode_state =
  ds_sketch :: iblt_sketch
  ds_pure :: "nat list"
  ds_self :: "bytes list"
  ds_other :: "bytes list"
  ds_stats :: decoding_stats

fun collect_pure :: "blake3 \<Rightarrow> iblt_sketch \<Rightarrow> nat list \<Rightarrow> nat list \<Rightarrow> nat list panics" where
  "collect_pure b sk [] stack = Some stack"
| "collect_pure b sk (i # is) stack =
     do { p \<leftarrow> is_pure b sk i; collect_pure b sk is (if p then i # stack else stack) }"

text \<open>Removing the peeled id from its cells, pushing those that become pure.\<close>

fun peel_cells ::
    "blake3 \<Rightarrow> nat list \<Rightarrow> bytes \<Rightarrow> u64 \<Rightarrow> int \<Rightarrow> iblt_sketch \<Rightarrow> nat list \<Rightarrow> (iblt_sketch \<times> nat list) panics" where
  "peel_cells b [] nid h cnt sk stack = Some (sk, stack)"
| "peel_cells b (i # is) nid h cnt sk stack =
     do {
       c \<leftarrow> index_at (sk_cells sk) i;
       c' \<leftarrow> cell_update nid h (- cnt) c;
       let sk' = sk\<lparr>sk_cells := (sk_cells sk)[i := c']\<rparr>;
       p \<leftarrow> is_pure b sk' i;
       peel_cells b is nid h cnt sk' (if p then i # stack else stack)
     }"

definition decode_cap :: "decode_state \<Rightarrow> nat" where
  "decode_cap st = d_max (from_cell_count (length (sk_cells (ds_sketch st))))"

text \<open>\<open>False\<close> with the state when the cap is exceeded, \<open>True\<close> when the id was peeled.\<close>

definition peel_one :: "blake3 \<Rightarrow> nat \<Rightarrow> decode_state \<Rightarrow> (bool \<times> decode_state) panics" where
  "peel_one b idx st =
     do {
       cell \<leftarrow> index_at (sk_cells (ds_sketch st)) idx;
       let nid = cell_id_sum cell;
       let cnt = cell_count cell;
       let st1 = (if cnt = 1 then st\<lparr>ds_self := ds_self st @ [nid]\<rparr> else st\<lparr>ds_other := ds_other st @ [nid]\<rparr>);
       let st2 = st1\<lparr>ds_stats := (ds_stats st1)\<lparr>cells_peeled := cells_peeled (ds_stats st1) + 1\<rparr>\<rparr>;
       if length (ds_self st2) + length (ds_other st2) > decode_cap st2 then Some (False, st2)
       else do {
         indices \<leftarrow> get_indices b (ds_sketch st2) nid;
         (sk, stack) \<leftarrow> peel_cells b indices nid (cell_hash_sum cell) cnt (ds_sketch st2) (ds_pure st2);
         Some (True, st2\<lparr>ds_sketch := sk, ds_pure := stack\<rparr>)
       }
     }"

definition tick :: "nat \<Rightarrow> decoding_stats \<Rightarrow> decoding_stats" where
  "tick n stats = stats\<lparr>iterations := iterations stats + n\<rparr>"

lemma length_peel_cells:
  "peel_cells b is nid h cnt sk stack = Some (sk', stack') \<Longrightarrow> length (sk_cells sk') = length (sk_cells sk)"
proof (induction "is" arbitrary: sk stack)
  case (Cons i "is")
  then show ?case by (fastforce simp: bind_eq_Some_conv Let_def)
qed simp

definition decode_left :: "decode_state \<Rightarrow> nat" where
  "decode_left st = Suc (decode_cap st) - (length (ds_self st) + length (ds_other st))"

lemma peel_one_decreases:
  assumes "peel_one b idx st = Some (True, st')"
  shows "decode_left st' < decode_left st"
proof -
  have "length (sk_cells (ds_sketch st')) = length (sk_cells (ds_sketch st)) \<and>
      length (ds_self st') + length (ds_other st') = Suc (length (ds_self st) + length (ds_other st)) \<and>
      length (ds_self st') + length (ds_other st') \<le> decode_cap st"
    using assms
    by (auto simp: peel_one_def Let_def bind_eq_Some_conv decode_cap_def dest!: length_peel_cells split: if_splits)
  then show ?thesis by (simp add: decode_left_def decode_cap_def) linarith
qed

function peel_loop :: "blake3 \<Rightarrow> decode_state \<Rightarrow> (bool \<times> decode_state) panics" where
  "peel_loop b st =
     (case ds_pure st of
        [] \<Rightarrow> Some (True, st)
      | idx # rest \<Rightarrow>
          (let st1 = st\<lparr>ds_pure := rest, ds_stats := tick 1 (ds_stats st)\<rparr>
           in case is_pure b (ds_sketch st1) idx of
                None \<Rightarrow> None
              | Some p \<Rightarrow>
                  if \<not> p then peel_loop b st1
                  else (case peel_one b idx st1 of
                          None \<Rightarrow> None
                        | Some (ok, st2) \<Rightarrow> if ok then peel_loop b st2 else Some (False, st2))))"
  by pat_completeness auto
termination
  by (relation "inv_image (less_than <*lex*> less_than) (\<lambda>(b, st). (decode_left st, length (ds_pure st)))")
    (auto simp: decode_left_def decode_cap_def dest!: peel_one_decreases)

declare peel_loop.simps [simp del]

definition cell_is_empty :: "iblt_cell \<Rightarrow> bool" where
  "cell_is_empty c \<longleftrightarrow> \<not> (cell_count c \<noteq> 0 \<or> cell_hash_sum c \<noteq> 0 \<or> cell_id_sum c \<noteq> replicate 32 0)"

text \<open>The final scan: whether all cells are empty, and how many it looked at.\<close>

fun scan_empty :: "iblt_cell list \<Rightarrow> bool \<times> nat" where
  "scan_empty [] = (True, 0)"
| "scan_empty (c # cs) =
     (if \<not> cell_is_empty c then (False, 1) else (case scan_empty cs of (ok, n) \<Rightarrow> (ok, n + 1)))"

definition decode ::
    "blake3 \<Rightarrow> iblt_sketch
       \<Rightarrow> ((reconciliation_error + (bytes list \<times> bytes list \<times> decoding_stats)) \<times> iblt_sketch) panics" where
  "decode b sk =
     do {
       let n = length (sk_cells sk);
       stack \<leftarrow> collect_pure b sk [0..<n] [];
       (ok, st) \<leftarrow> peel_loop b
         \<lparr>ds_sketch = sk, ds_pure = stack, ds_self = [], ds_other = [],
          ds_stats = \<lparr>cells_peeled = 0, iterations = n\<rparr>\<rparr>;
       if \<not> ok then Some (Inl (DecodingFailed (ds_stats st)), ds_sketch st)
       else
         (case scan_empty (sk_cells (ds_sketch st)) of (vacant, looked) \<Rightarrow>
            (let stats = tick looked (ds_stats st)
             in Some (if vacant then Inr (ds_self st, ds_other st, stats) else Inl (DecodingFailed stats),
                      ds_sketch st)))
     }"

section \<open>Indices\<close>

lemma index_loop_sound:
  assumes "index_loop xof k n pos is = Some r" and "distinct is" and "set is \<subseteq> {..<n}" and "length is \<le> min k n"
  shows "distinct r \<and> set r \<subseteq> {..<n} \<and> length r = min k n"
proof -
  have "distinct is \<and> set is \<subseteq> {..<n} \<and> length is \<le> min k n \<longrightarrow>
      distinct r \<and> set r \<subseteq> {..<n} \<and> length r = min k n"
  proof (rule index_loop.raw_induct [OF _ assms(1)])
    fix loop xof k n pos "is" r
    assume IH: "\<And>xof k n pos is r. loop xof k n pos is = Some r \<Longrightarrow>
        distinct is \<and> set is \<subseteq> {..<n} \<and> length is \<le> min k n \<longrightarrow>
        distinct r \<and> set r \<subseteq> {..<n} \<and> length r = min k n"
      and step: "(if length is < k \<and> length is < n then
        (let idx = draw xof n pos in loop xof k n (pos + 1) (if idx \<in> set is then is else is @ [idx]))
        else Some is) = Some r"
    show "distinct is \<and> set is \<subseteq> {..<n} \<and> length is \<le> min k n \<longrightarrow>
        distinct r \<and> set r \<subseteq> {..<n} \<and> length r = min k n"
    proof (cases "length is < k \<and> length is < n")
      case True
      then have "draw xof n pos < n" by (auto simp: draw_def)
      then show ?thesis
        using step True IH [of xof k n "pos + 1" "if draw xof n pos \<in> set is then is else is @ [draw xof n pos]" r]
        by (auto simp: Let_def split: if_splits)
    next
      case False
      then show ?thesis using step by (auto simp: min_def)
    qed
  qed
  with assms show ?thesis by blast
qed

text \<open>The loop ends as soon as the stream has produced enough different indices.\<close>

lemma index_loop_total:
  "distinct is \<Longrightarrow> min k n \<le> card (set is \<union> draw xof n ` {pos..<pos + m}) \<Longrightarrow>
     \<exists>r. index_loop xof k n pos is = Some r"
proof (induction m arbitrary: pos "is")
  case 0
  then have "\<not> (length is < k \<and> length is < n)" by (auto simp: distinct_card min_def split: if_splits)
  then show ?case by (subst index_loop.simps) auto
next
  case (Suc m)
  let ?is = "if draw xof n pos \<in> set is then is else is @ [draw xof n pos]"
  have "{pos..<pos + Suc m} = insert pos {pos + 1..<pos + 1 + m}" by auto
  then have "set ?is \<union> draw xof n ` {pos + 1..<pos + 1 + m} = set is \<union> draw xof n ` {pos..<pos + Suc m}" by auto
  then have "\<exists>r. index_loop xof k n (pos + 1) ?is = Some r"
    using Suc.prems by (intro Suc.IH) auto
  then show ?case by (subst index_loop.simps) (simp add: Let_def)
qed

lemma get_indices_sound:
  assumes "get_indices b sk nid = Some is"
  shows "sorted is" "distinct is" "set is \<subseteq> {..<length (sk_cells sk)}"
    "length is = min (sk_k sk) (length (sk_cells sk))"
proof -
  obtain r where r: "index_loop (b3_keyed_xof b (context_key b (sk_k_iblt sk) HASH_CONTEXT_INDICES) nid)
      (sk_k sk) (length (sk_cells sk)) 0 [] = Some r" "is = sort r"
    using assms by (auto simp: get_indices_def)
  then show "sorted is" "distinct is" "set is \<subseteq> {..<length (sk_cells sk)}"
    "length is = min (sk_k sk) (length (sk_cells sk))"
    using index_loop_sound [OF r(1)] by simp_all
qed

section \<open>Cells as sums of signed ids\<close>

definition cell_add :: "bytes \<Rightarrow> u64 \<Rightarrow> int \<Rightarrow> iblt_cell \<Rightarrow> iblt_cell" where
  "cell_add nid checksum d c =
     \<lparr>cell_count = cell_count c + d, cell_id_sum = xor_bytes (cell_id_sum c) nid,
      cell_hash_sum = cell_hash_sum c XOR checksum\<rparr>"

definition add_at :: "nat set \<Rightarrow> (iblt_cell \<Rightarrow> iblt_cell) \<Rightarrow> iblt_cell list \<Rightarrow> iblt_cell list" where
  "add_at ix f cells = map (\<lambda>i. if i \<in> ix then f (cells ! i) else cells ! i) [0..<length cells]"

lemma length_add_at [simp]: "length (add_at ix f cells) = length cells"
  by (simp add: add_at_def)

lemma nth_add_at [simp]:
  "i < length cells \<Longrightarrow> add_at ix f cells ! i = (if i \<in> ix then f (cells ! i) else cells ! i)"
  by (simp add: add_at_def)

text \<open>The indices and the checksum depend on the table's shape only, not on what it holds.\<close>

definition same_shape_sk :: "iblt_sketch \<Rightarrow> iblt_sketch \<Rightarrow> bool" where
  "same_shape_sk sk sk' \<longleftrightarrow>
     length (sk_cells sk') = length (sk_cells sk) \<and> sk_k sk' = sk_k sk \<and> sk_k_iblt sk' = sk_k_iblt sk"

lemma same_shape_get:
  "same_shape_sk sk sk' \<Longrightarrow> get_indices b sk' = get_indices b sk"
  "same_shape_sk sk sk' \<Longrightarrow> get_checksum b sk' = get_checksum b sk"
  by (auto simp: same_shape_sk_def get_indices_def get_checksum_def fun_eq_iff)

lemma same_shape_set [simp]: "length cs = length (sk_cells sk) \<Longrightarrow> same_shape_sk sk (sk\<lparr>sk_cells := cs\<rparr>)"
  by (simp add: same_shape_sk_def)

definition add_entry :: "blake3 \<Rightarrow> iblt_sketch \<Rightarrow> bytes \<times> int \<Rightarrow> iblt_cell list \<Rightarrow> iblt_cell list" where
  "add_entry b sk e =
     add_at (set (the (get_indices b sk (fst e)))) (cell_add (fst e) (get_checksum b sk (fst e)) (snd e))"

definition encode :: "blake3 \<Rightarrow> iblt_sketch \<Rightarrow> (bytes \<times> int) list \<Rightarrow> iblt_cell list \<Rightarrow> iblt_cell list" where
  "encode b sk es cells = fold (add_entry b sk) es cells"

lemma same_shape_add_entry: "same_shape_sk sk sk' \<Longrightarrow> add_entry b sk' = add_entry b sk"
  by (simp add: add_entry_def same_shape_get fun_eq_iff)

lemma update_cells_eq:
  assumes "update_cells is nid h d cells = Some cells'" and "distinct is" and "set is \<subseteq> {..<length cells}"
  shows "cells' = add_at (set is) (cell_add nid h d) cells"
  using assms
proof (induction "is" arbitrary: cells)
  case Nil
  then show ?case by (simp add: add_at_def map_nth)
next
  case (Cons i "is")
  obtain c' where c': "cell_update nid h d (cells ! i) = Some c'" "update_cells is nid h d (cells[i := c']) = Some cells'"
    using Cons.prems by (auto simp: bind_eq_Some_conv index_at_def split: if_splits)
  then have "c' = cell_add nid h d (cells ! i)"
    by (auto simp: cell_update_def cell_add_def bind_eq_Some_conv i32_def split: if_splits)
  moreover have "cells' = add_at (set is) (cell_add nid h d) (cells[i := c'])"
    using Cons.prems c' by (intro Cons.IH) auto
  ultimately show ?case
    using Cons.prems by (auto simp: list_eq_iff_nth_eq nth_list_update)
qed

lemma sketch_update_eq:
  assumes "sketch_update b sk nid d = Some sk'"
  shows "sk' = sk\<lparr>sk_cells := add_entry b sk (nid, d) (sk_cells sk)\<rparr>"
proof -
  obtain "is" cells where c: "get_indices b sk nid = Some is" "sk' = sk\<lparr>sk_cells := cells\<rparr>"
    "update_cells is nid (get_checksum b sk nid) d (sk_cells sk) = Some cells"
    using assms by (auto simp: sketch_update_def bind_eq_Some_conv)
  then show ?thesis
    using update_cells_eq [OF c(3) get_indices_sound(2,3) [OF c(1)]] by (simp add: add_entry_def)
qed

section \<open>Cancellation\<close>

definition cells_wf :: "iblt_cell list \<Rightarrow> bool" where
  "cells_wf cells \<longleftrightarrow> (\<forall>c \<in> set cells. length (cell_id_sum c) = 32)"

lemma length_xor_bytes [simp]: "length (xor_bytes a b) = min (length a) (length b)"
  by (simp add: xor_bytes_def)

lemma nth_xor_bytes [simp]: "i < length a \<Longrightarrow> i < length b \<Longrightarrow> xor_bytes a b ! i = a ! i XOR b ! i"
  by (simp add: xor_bytes_def)

lemma xor_bytes_cancel: "length a = length b \<Longrightarrow> xor_bytes (xor_bytes a b) b = a"
  by (simp add: list_eq_iff_nth_eq xor.assoc)

lemma xor_bytes_swap: "xor_bytes (xor_bytes a b) c = xor_bytes (xor_bytes a c) b"
  by (auto simp: list_eq_iff_nth_eq ac_simps)

lemma cell_add_swap:
  "cell_add n h d (cell_add n' h' d' c) = cell_add n' h' d' (cell_add n h d c)"
  by (simp add: cell_add_def xor_bytes_swap ac_simps)

lemma cell_add_cancel:
  "length (cell_id_sum c) = length n \<Longrightarrow> cell_add n h (- d) (cell_add n h d c) = c"
  by (simp add: cell_add_def xor_bytes_cancel xor.assoc)

lemma length_add_entry [simp]: "length (add_entry b sk e cells) = length cells"
  by (simp add: add_entry_def)

lemma length_encode [simp]: "length (encode b sk es cells) = length cells"
  unfolding encode_def by (induction es arbitrary: cells) simp_all

lemma add_entry_wf: "cells_wf cells \<Longrightarrow> length (fst e) = 32 \<Longrightarrow> cells_wf (add_entry b sk e cells)"
  by (auto simp: cells_wf_def add_entry_def add_at_def cell_add_def)

lemma add_entry_cancel:
  assumes "cells_wf cells" and "length nid = 32"
  shows "add_entry b sk (nid, - d) (add_entry b sk (nid, d) cells) = cells"
    and "add_entry b sk (nid, d) (add_entry b sk (nid, - d) cells) = cells"
  using assms cell_add_cancel [of _ nid _ d] cell_add_cancel [of _ nid _ "- d"]
  by (auto simp: list_eq_iff_nth_eq add_entry_def cells_wf_def)

lemma add_entry_swap: "add_entry b sk e (add_entry b sk e' cells) = add_entry b sk e' (add_entry b sk e cells)"
  by (auto simp: list_eq_iff_nth_eq add_entry_def cell_add_swap)

lemma encode_perm:
  assumes "mset es = mset es'"
  shows "encode b sk es = encode b sk es'"
proof -
  have "fold (add_entry b sk) es = fold (add_entry b sk) es'"
    by (rule fold_multiset_equiv [OF _ assms]) (simp add: fun_eq_iff add_entry_swap)
  then show ?thesis by (simp add: encode_def fun_eq_iff)
qed

section \<open>Subtraction\<close>

definition cell_minus :: "iblt_cell \<Rightarrow> iblt_cell \<Rightarrow> iblt_cell" where
  "cell_minus c d =
     \<lparr>cell_count = cell_count c - cell_count d, cell_id_sum = xor_bytes (cell_id_sum c) (cell_id_sum d),
      cell_hash_sum = cell_hash_sum c XOR cell_hash_sum d\<rparr>"

lemma subtract_cells_eq:
  "subtract_cells cs ds = Some rs \<Longrightarrow> rs = map2 cell_minus cs ds"
proof (induction cs ds arbitrary: rs rule: subtract_cells.induct)
  case (1 c cs d ds)
  then show ?case by (auto simp: bind_eq_Some_conv i32_def cell_minus_def split: if_splits)
qed simp_all

lemma subtract_cells_defined:
  "\<forall>c \<in> set cs. \<bar>cell_count c\<bar> \<le> 2 ^ 30 \<Longrightarrow> \<forall>d \<in> set ds. \<bar>cell_count d\<bar> < 2 ^ 30 \<Longrightarrow>
     \<exists>rs. subtract_cells cs ds = Some rs"
proof (induction cs ds rule: subtract_cells.induct)
  case (1 c cs d ds)
  have "\<bar>cell_count c\<bar> \<le> 2 ^ 30" "\<bar>cell_count d\<bar> < 2 ^ 30" using "1.prems" by simp_all
  then have "i32 (cell_count c - cell_count d) = Some (cell_count c - cell_count d)" by (auto simp: i32_def)
  with 1 show ?case by auto
qed simp_all

lemma xor_zero_right: "length a = 32 \<Longrightarrow> xor_bytes a (replicate 32 0) = a"
  by (simp add: list_eq_iff_nth_eq)

lemma map2_minus_default:
  assumes "cells_wf cells"
  shows "map2 cell_minus cells (replicate (length cells) cell_default) = cells"
  using assms by (auto simp: list_eq_iff_nth_eq cell_minus_def cell_default_def cells_wf_def xor_zero_right)

lemma cell_minus_add: "cell_minus c (cell_add n h d c') = cell_add n h (- d) (cell_minus c c')"
  by (auto simp: cell_minus_def cell_add_def ac_simps list_eq_iff_nth_eq)

definition negate :: "bytes \<times> int \<Rightarrow> bytes \<times> int" where
  "negate e = (fst e, - snd e)"

lemma map2_minus_add_entry:
  "length xs = length ys \<Longrightarrow>
     map2 cell_minus xs (add_entry b sk e ys) = add_entry b sk (negate e) (map2 cell_minus xs ys)"
  by (auto simp: list_eq_iff_nth_eq add_entry_def negate_def cell_minus_add)

lemma map2_minus_encode:
  assumes "length xs = length ys"
  shows "map2 cell_minus xs (encode b sk es ys) = encode b sk (map negate es) (map2 cell_minus xs ys)"
  using assms
proof (induction es rule: rev_induct)
  case (snoc e es)
  then show ?case by (simp add: encode_def map2_minus_add_entry length_encode [unfolded encode_def])
qed (simp add: encode_def)

lemma encode_wf: "cells_wf cells \<Longrightarrow> \<forall>e \<in> set es. length (fst e) = 32 \<Longrightarrow> cells_wf (encode b sk es cells)"
  unfolding encode_def by (induction es arbitrary: cells) (simp_all add: add_entry_wf)

lemma zero_wf [simp]: "cells_wf (replicate n cell_default)"
  by (simp add: cells_wf_def cell_default_def)

section \<open>Decoding is sound\<close>

lemma peel_cells_eq:
  assumes "peel_cells b is nid h cnt sk stack = Some (sk', stack')" and "distinct is" and "set is \<subseteq> {..<length (sk_cells sk)}"
  shows "sk' = sk\<lparr>sk_cells := add_at (set is) (cell_add nid h (- cnt)) (sk_cells sk)\<rparr>"
  using assms
proof (induction "is" arbitrary: sk stack)
  case Nil
  then show ?case by (simp add: add_at_def map_nth)
next
  case (Cons i "is")
  obtain c' stack1 where c': "cell_update nid h (- cnt) (sk_cells sk ! i) = Some c'"
      "peel_cells b is nid h cnt (sk\<lparr>sk_cells := (sk_cells sk)[i := c']\<rparr>) stack1 = Some (sk', stack')"
    using Cons.prems by (auto simp: bind_eq_Some_conv index_at_def Let_def split: if_splits)
  then have "c' = cell_add nid h (- cnt) (sk_cells sk ! i)"
    by (auto simp: cell_update_def cell_add_def bind_eq_Some_conv i32_def split: if_splits)
  moreover have "sk' = sk\<lparr>sk_cells := add_at (set is) (cell_add nid h (- cnt)) ((sk_cells sk)[i := c'])\<rparr>"
    using Cons.IH [OF c'(2)] Cons.prems by simp
  moreover have "add_at (set is) f ((sk_cells sk)[i := f (sk_cells sk ! i)]) = add_at (set (i # is)) f (sk_cells sk)" for f
    using Cons.prems by (auto simp: list_eq_iff_nth_eq nth_list_update)
  ultimately show ?case by simp
qed

text \<open>What has been decoded so far, as signed ids.\<close>

definition decoded :: "decode_state \<Rightarrow> (bytes \<times> int) list" where
  "decoded st = map (\<lambda>i. (i, 1)) (ds_self st) @ map (\<lambda>i. (i, - 1)) (ds_other st)"

definition decode_inv :: "blake3 \<Rightarrow> iblt_sketch \<Rightarrow> decode_state \<Rightarrow> bool" where
  "decode_inv b sk st \<longleftrightarrow>
     same_shape_sk sk (ds_sketch st) \<and> cells_wf (sk_cells (ds_sketch st)) \<and>
     encode b sk (decoded st) (sk_cells (ds_sketch st)) = sk_cells sk \<and>
     length (ds_self st) + length (ds_other st) \<le> decode_cap st \<and>
     (\<forall>e \<in> set (decoded st). length (fst e) = 32)"

lemma encode_cons: "encode b sk (e # es) cells = encode b sk es (add_entry b sk e cells)"
  by (simp add: encode_def)

lemma same_shape_trans: "same_shape_sk a b \<Longrightarrow> same_shape_sk b c \<Longrightarrow> same_shape_sk a c"
  by (simp add: same_shape_sk_def)

lemma is_pure_True:
  "is_pure b sk idx = Some True \<Longrightarrow>
     idx < length (sk_cells sk) \<and> \<bar>cell_count (sk_cells sk ! idx)\<bar> = 1 \<and>
     get_checksum b sk (cell_id_sum (sk_cells sk ! idx)) = cell_hash_sum (sk_cells sk ! idx)"
  by (auto simp: is_pure_def bind_eq_Some_conv index_at_def i32_abs_def i32_def split: if_splits)

lemma peel_one_inv:
  assumes inv: "decode_inv b sk st" and pure: "is_pure b (ds_sketch st) idx = Some True"
    and peel: "peel_one b idx st = Some (True, st')"
  shows "decode_inv b sk st'"
proof -
  define sk0 where "sk0 = ds_sketch st"
  define c where "c = sk_cells sk0 ! idx"
  have sh: "same_shape_sk sk sk0" and wf: "cells_wf (sk_cells sk0)"
    and enc: "encode b sk (decoded st) (sk_cells sk0) = sk_cells sk"
    and ids: "\<forall>e \<in> set (decoded st). length (fst e) = 32"
    using inv by (simp_all add: decode_inv_def sk0_def)
  have idx: "idx < length (sk_cells sk0)" and cnt: "\<bar>cell_count c\<bar> = 1"
    and chk: "get_checksum b sk0 (cell_id_sum c) = cell_hash_sum c"
    using is_pure_True [OF pure] by (simp_all add: sk0_def c_def)
  have len: "length (cell_id_sum c) = 32" using wf idx by (simp add: cells_wf_def c_def)
  obtain "is" sk1 stack where g: "get_indices b sk0 (cell_id_sum c) = Some is"
    and p: "peel_cells b is (cell_id_sum c) (cell_hash_sum c) (cell_count c) sk0 (ds_pure st) = Some (sk1, stack)"
    and st': "ds_sketch st' = sk1" "ds_self st' = (if cell_count c = 1 then ds_self st @ [cell_id_sum c] else ds_self st)"
      "ds_other st' = (if cell_count c = 1 then ds_other st else ds_other st @ [cell_id_sum c])"
    and cap: "length (ds_self st') + length (ds_other st') \<le> decode_cap st"
    using peel idx by (auto simp: peel_one_def Let_def bind_eq_Some_conv index_at_def sk0_def [symmetric] c_def [symmetric]
        decode_cap_def split: if_splits)
  have sk1: "sk1 = sk0\<lparr>sk_cells := add_entry b sk0 (cell_id_sum c, - cell_count c) (sk_cells sk0)\<rparr>"
    using peel_cells_eq [OF p get_indices_sound(2,3) [OF g]] by (simp add: add_entry_def g chk)
  have sh1: "same_shape_sk sk sk1" by (rule same_shape_trans [OF sh]) (simp add: sk1)
  have cells1: "sk_cells sk1 = add_entry b sk (cell_id_sum c, - cell_count c) (sk_cells sk0)"
    by (simp add: sk1 same_shape_add_entry [OF sh])
  have perm: "mset (decoded st') = mset ((cell_id_sum c, cell_count c) # decoded st)"
    using cnt by (auto simp: decoded_def st')
  have "encode b sk (decoded st') (sk_cells sk1) = sk_cells sk"
    unfolding encode_perm [OF perm] encode_cons cells1 add_entry_cancel(2) [OF wf len] by (rule enc)
  moreover have "cells_wf (sk_cells sk1)" unfolding cells1 by (rule add_entry_wf [OF wf]) (simp add: len)
  moreover have "\<forall>e \<in> set (decoded st'). length (fst e) = 32"
    using ids len mset_eq_setD [OF perm] by simp
  moreover have "decode_cap st' = decode_cap st"
    using sh sh1 by (simp add: decode_cap_def st' same_shape_sk_def sk0_def)
  ultimately show ?thesis using sh1 cap by (simp add: decode_inv_def st')
qed

lemma peel_loop_inv:
  "peel_loop b st = Some (True, st') \<Longrightarrow> decode_inv b sk st \<Longrightarrow> decode_inv b sk st'"
proof (induction b st rule: peel_loop.induct)
  case (1 b st)
  show ?case
  proof (cases "ds_pure st")
    case Nil
    then show ?thesis using "1.prems" by (simp add: peel_loop.simps [of b st])
  next
    case (Cons idx rest)
    let ?st = "st\<lparr>ds_pure := rest, ds_stats := tick 1 (ds_stats st)\<rparr>"
    have inv: "decode_inv b sk ?st" using "1.prems"(2) by (simp add: decode_inv_def decoded_def decode_cap_def)
    obtain p where p: "is_pure b (ds_sketch st) idx = Some p"
      using "1.prems"(1) Cons by (auto simp: peel_loop.simps [of b st] Let_def split: option.splits)
    show ?thesis
    proof (cases p)
      case False
      then show ?thesis
        using "1.IH"(1) [OF Cons refl _ _ _ inv] "1.prems"(1) Cons p by (simp add: peel_loop.simps [of b st])
    next
      case True
      then obtain st2 where st2: "peel_one b idx ?st = Some (True, st2)" "peel_loop b st2 = Some (True, st')"
        using "1.prems"(1) Cons p by (auto simp: peel_loop.simps [of b st] Let_def split: option.splits if_splits)
      have "decode_inv b sk st2" by (rule peel_one_inv [OF inv _ st2(1)]) (use p True in simp)
      then show ?thesis using "1.IH"(2) [OF Cons refl _ _ st2(1) refl] st2(2) p True by simp
    qed
  qed
qed

lemma scan_empty_iff: "fst (scan_empty cells) \<longleftrightarrow> (\<forall>c \<in> set cells. c = cell_default)"
proof (induction cells)
  case (Cons c cells)
  have "cell_is_empty c \<longleftrightarrow> c = cell_default" by (cases c) (auto simp: cell_is_empty_def cell_default_def)
  with Cons show ?case by (auto split: prod.splits)
qed simp

lemma decode_sound:
  assumes dec: "decode b sk = Some (Inr (in_self, in_other, stats), sk')" and wf: "cells_wf (sk_cells sk)"
  shows "sk_cells sk = encode b sk (map (\<lambda>i. (i, 1)) in_self @ map (\<lambda>i. (i, - 1)) in_other)
      (replicate (length (sk_cells sk)) cell_default)"
    and "length in_self + length in_other \<le> d_max (from_cell_count (length (sk_cells sk)))"
    and "sk_cells sk' = replicate (length (sk_cells sk)) cell_default"
proof -
  let ?n = "length (sk_cells sk)"
  obtain stack st where st: "peel_loop b \<lparr>ds_sketch = sk, ds_pure = stack, ds_self = [], ds_other = [],
        ds_stats = \<lparr>cells_peeled = 0, iterations = ?n\<rparr>\<rparr> = Some (True, st)"
      "fst (scan_empty (sk_cells (ds_sketch st)))" "in_self = ds_self st" "in_other = ds_other st" "sk' = ds_sketch st"
    using dec by (auto simp: decode_def Let_def bind_eq_Some_conv split: if_splits prod.splits)
  have "decode_inv b sk st"
    by (rule peel_loop_inv [OF st(1)])
      (use wf in \<open>simp add: decode_inv_def same_shape_sk_def decoded_def encode_def\<close>)
  then have inv: "encode b sk (decoded st) (sk_cells (ds_sketch st)) = sk_cells sk" "same_shape_sk sk (ds_sketch st)"
      "length (ds_self st) + length (ds_other st) \<le> decode_cap st"
    by (simp_all add: decode_inv_def)
  have zero: "sk_cells (ds_sketch st) = replicate ?n cell_default"
    using st(2) inv(2) by (auto simp: scan_empty_iff same_shape_sk_def list_eq_iff_nth_eq)
  show "sk_cells sk = encode b sk (map (\<lambda>i. (i, 1)) in_self @ map (\<lambda>i. (i, - 1)) in_other) (replicate ?n cell_default)"
    using inv(1) zero st(3,4) by (simp add: decoded_def)
  show "length in_self + length in_other \<le> d_max (from_cell_count ?n)"
    using inv(2,3) st(3,4) by (simp add: decode_cap_def same_shape_sk_def)
  show "sk_cells sk' = replicate ?n cell_default" using zero st(5) by simp
qed

section \<open>Decoding returns\<close>

definition cells_small :: "nat \<Rightarrow> iblt_cell list \<Rightarrow> bool" where
  "cells_small n cells \<longleftrightarrow> (\<forall>i < length cells. \<bar>cell_count (cells ! i)\<bar> \<le> int n)"

lemma is_pure_defined:
  assumes "cells_small n (sk_cells sk)" and "n < 2 ^ 31" and "idx < length (sk_cells sk)"
  obtains p where "is_pure b sk idx = Some p"
proof -
  have "\<bar>cell_count (sk_cells sk ! idx)\<bar> < 2 ^ 31"
    using assms by (force simp: cells_small_def)
  then have "i32_abs (cell_count (sk_cells sk ! idx)) = Some \<bar>cell_count (sk_cells sk ! idx)\<bar>"
    by (auto simp: i32_abs_def i32_def)
  then show ?thesis using that assms(3) by (auto simp: is_pure_def)
qed

lemma collect_pure_defined:
  assumes "cells_small n (sk_cells sk)" and "n < 2 ^ 31" and "set is \<subseteq> {..<length (sk_cells sk)}"
    and "set stack \<subseteq> {..<length (sk_cells sk)}"
  shows "\<exists>stack'. collect_pure b sk is stack = Some stack' \<and> set stack' \<subseteq> {..<length (sk_cells sk)}"
  using assms(3,4)
proof (induction "is" arbitrary: stack)
  case (Cons i "is")
  have "i < length (sk_cells sk)" using Cons.prems by simp
  then obtain p where "is_pure b sk i = Some p" by (rule is_pure_defined [OF assms(1,2)])
  then show ?case using Cons by auto
qed simp

lemma peel_cells_defined:
  assumes "distinct is" and "set is \<subseteq> {..<length (sk_cells sk)}" and "set stack \<subseteq> {..<length (sk_cells sk)}"
    and "cells_small (Suc n) (sk_cells sk)" and "\<forall>i \<in> set is. \<bar>cell_count (sk_cells sk ! i)\<bar> \<le> int n"
    and "Suc n < 2 ^ 31" and "\<bar>cnt\<bar> \<le> 1"
  shows "\<exists>sk' stack'. peel_cells b is nid h cnt sk stack = Some (sk', stack') \<and> same_shape_sk sk sk' \<and>
    cells_small (Suc n) (sk_cells sk') \<and> set stack' \<subseteq> {..<length (sk_cells sk)}"
  using assms(1-5)
proof (induction "is" arbitrary: sk stack)
  case (Cons i "is")
  let ?c = "sk_cells sk ! i"
  have i: "i < length (sk_cells sk)" using Cons.prems by simp
  have bound: "\<bar>cell_count ?c + - cnt\<bar> \<le> int (Suc n)" using Cons.prems(5) assms(7) by auto
  then have "i32 (cell_count ?c + - cnt) = Some (cell_count ?c + - cnt)" using assms(6) by (auto simp: i32_def)
  then obtain c' where c': "cell_update nid h (- cnt) ?c = Some c'" "cell_count c' = cell_count ?c + - cnt"
    by (simp add: cell_update_def)
  let ?sk = "sk\<lparr>sk_cells := (sk_cells sk)[i := c']\<rparr>"
  have small: "cells_small (Suc n) (sk_cells ?sk)"
    unfolding cells_small_def
  proof (intro allI impI)
    fix j assume "j < length (sk_cells ?sk)"
    then show "\<bar>cell_count (sk_cells ?sk ! j)\<bar> \<le> int (Suc n)"
      using Cons.prems(4) bound c'(2) i by (cases "j = i") (auto simp: cells_small_def)
  qed
  obtain p where p: "is_pure b ?sk i = Some p" by (rule is_pure_defined [OF small assms(6)]) (use i in simp)
  have sh: "same_shape_sk sk ?sk" by simp
  have "\<exists>sk' stack'. peel_cells b is nid h cnt ?sk (if p then i # stack else stack) = Some (sk', stack') \<and>
      same_shape_sk ?sk sk' \<and> cells_small (Suc n) (sk_cells sk') \<and> set stack' \<subseteq> {..<length (sk_cells ?sk)}"
  proof (rule Cons.IH)
    show "\<forall>j \<in> set is. \<bar>cell_count (sk_cells ?sk ! j)\<bar> \<le> int n"
    proof
      fix j assume j: "j \<in> set is"
      then have "i \<noteq> j" using Cons.prems(1) by auto
      then show "\<bar>cell_count (sk_cells ?sk ! j)\<bar> \<le> int n" using Cons.prems(5) j by simp
    qed
  qed (use Cons.prems small i in auto)
  then show ?case using i c'(1) p same_shape_trans [OF sh] by (auto simp: Let_def)
qed (auto simp: same_shape_sk_def)

definition decode_live :: "blake3 \<Rightarrow> iblt_sketch \<Rightarrow> nat \<Rightarrow> decode_state \<Rightarrow> bool" where
  "decode_live b sk n st \<longleftrightarrow>
     same_shape_sk sk (ds_sketch st) \<and>
     cells_small (n + length (ds_self st) + length (ds_other st)) (sk_cells (ds_sketch st)) \<and>
     set (ds_pure st) \<subseteq> {..<length (sk_cells sk)} \<and>
     length (ds_self st) + length (ds_other st) \<le> decode_cap st"

lemma d_max_le: "d_max t \<le> 680"
  by (cases t) simp_all

lemma peel_one_defined:
  assumes live: "decode_live b sk n st" and idx: "idx < length (sk_cells sk)"
    and pure: "is_pure b (ds_sketch st) idx = Some True"
    and inv: "decode_inv b sk st"
    and total: "\<forall>nid. length nid = 32 \<longrightarrow> get_indices b sk nid \<noteq> None" and n: "n + 681 < 2 ^ 31"
  obtains ok st' where "peel_one b idx st = Some (ok, st')" "ok \<longrightarrow> decode_live b sk n st'"
proof -
  define sk0 where "sk0 = ds_sketch st"
  define c where "c = sk_cells sk0 ! idx"
  have sh: "same_shape_sk sk sk0" and len: "length (sk_cells sk0) = length (sk_cells sk)"
    using live by (simp_all add: decode_live_def sk0_def same_shape_sk_def)
  have at_idx: "index_at (sk_cells sk0) idx = Some c" using idx len by (simp add: c_def)
  have cnt: "\<bar>cell_count c\<bar> \<le> 1" using is_pure_True [OF pure] by (simp add: sk0_def c_def)
  define st2 where "st2 = (let st1 = (if cell_count c = 1 then st\<lparr>ds_self := ds_self st @ [cell_id_sum c]\<rparr>
      else st\<lparr>ds_other := ds_other st @ [cell_id_sum c]\<rparr>)
    in st1\<lparr>ds_stats := (ds_stats st1)\<lparr>cells_peeled := cells_peeled (ds_stats st1) + 1\<rparr>\<rparr>)"
  have st2: "ds_sketch st2 = sk0" "ds_pure st2 = ds_pure st" "decode_cap st2 = decode_cap st"
    "length (ds_self st2) + length (ds_other st2) = Suc (length (ds_self st) + length (ds_other st))"
    by (simp_all add: st2_def Let_def sk0_def decode_cap_def)
  have "length (cell_id_sum c) = 32" using inv idx len by (simp add: decode_inv_def cells_wf_def sk0_def c_def)
  then obtain "is" where g: "get_indices b sk0 (cell_id_sum c) = Some is"
    using total same_shape_get(1) [OF sh, of b] by fastforce
  let ?m = "n + length (ds_self st) + length (ds_other st)"
  have small: "cells_small ?m (sk_cells sk0)" using live by (simp add: decode_live_def sk0_def)
  have m: "Suc ?m < 2 ^ 31"
    using live n d_max_le [of "from_cell_count (length (sk_cells (ds_sketch st)))"]
    by (simp add: decode_live_def decode_cap_def)
  have "\<exists>sk' stack'. peel_cells b is (cell_id_sum c) (cell_hash_sum c) (cell_count c) sk0 (ds_pure st) = Some (sk', stack') \<and>
      same_shape_sk sk0 sk' \<and> cells_small (Suc ?m) (sk_cells sk') \<and> set stack' \<subseteq> {..<length (sk_cells sk0)}"
    using get_indices_sound(2,3) [OF g] small m cnt live len
    by (intro peel_cells_defined) (force simp: cells_small_def decode_live_def)+
  then obtain sk' stack' where p: "peel_cells b is (cell_id_sum c) (cell_hash_sum c) (cell_count c) sk0 (ds_pure st) = Some (sk', stack')"
      "same_shape_sk sk0 sk'" "cells_small (Suc ?m) (sk_cells sk')" "set stack' \<subseteq> {..<length (sk_cells sk0)}" by blast
  have res: "peel_one b idx st = (if length (ds_self st2) + length (ds_other st2) > decode_cap st2 then Some (False, st2)
      else Some (True, st2\<lparr>ds_sketch := sk', ds_pure := stack'\<rparr>))"
    using at_idx g p(1)
    by (cases "cell_count c = 1") (simp_all add: peel_one_def sk0_def [symmetric] st2_def Let_def decode_cap_def)
  show ?thesis
  proof (cases "length (ds_self st2) + length (ds_other st2) > decode_cap st2")
    case True
    then show ?thesis using res that [of False st2] by simp
  next
    case False
    have "decode_live b sk n (st2\<lparr>ds_sketch := sk', ds_pure := stack'\<rparr>)"
      using p sh len st2 False same_shape_trans [OF sh p(2)]
      by (simp add: decode_live_def decode_cap_def same_shape_sk_def add.assoc)
    then show ?thesis using res False that [of True] by simp
  qed
qed

lemma peel_loop_defined:
  assumes "decode_live b sk n st" and "decode_inv b sk st"
    and "\<forall>nid. length nid = 32 \<longrightarrow> get_indices b sk nid \<noteq> None" and "n + 681 < 2 ^ 31"
  shows "\<exists>ok st'. peel_loop b st = Some (ok, st')"
  using assms
proof (induction b st rule: peel_loop.induct)
  case (1 b st)
  show ?case
  proof (cases "ds_pure st")
    case Nil
    then show ?thesis by (auto simp: peel_loop.simps [of b st])
  next
    case (Cons idx rest)
    let ?st = "st\<lparr>ds_pure := rest, ds_stats := tick 1 (ds_stats st)\<rparr>"
    have live: "decode_live b sk n ?st" and idx: "idx < length (sk_cells sk)"
      using "1.prems"(1) Cons by (simp_all add: decode_live_def decode_cap_def)
    have inv: "decode_inv b sk ?st" using "1.prems"(2) by (simp add: decode_inv_def decoded_def decode_cap_def)
    have "n + length (ds_self st) + length (ds_other st) < 2 ^ 31"
      using "1.prems"(1,4) d_max_le [of "from_cell_count (length (sk_cells (ds_sketch st)))"]
      by (simp add: decode_live_def decode_cap_def)
    then obtain p where p: "is_pure b (ds_sketch st) idx = Some p"
      using is_pure_defined [of _ "ds_sketch st" idx] "1.prems"(1) idx by (auto simp: decode_live_def same_shape_sk_def)
    show ?thesis
    proof (cases p)
      case False
      then have "\<exists>ok st'. peel_loop b ?st = Some (ok, st')"
        using "1.IH"(1) [OF Cons refl _ _ live inv "1.prems"(3,4)] p by simp
      then show ?thesis using Cons p False by (simp add: peel_loop.simps [of b st])
    next
      case True
      then have pure: "is_pure b (ds_sketch ?st) idx = Some True" using p by simp
      obtain ok st2 where st2: "peel_one b idx ?st = Some (ok, st2)" "ok \<longrightarrow> decode_live b sk n st2"
        by (rule peel_one_defined [OF live idx pure inv "1.prems"(3,4)])
      have "\<exists>ok st'. peel_loop b st2 = Some (ok, st')" if ok
        using "1.IH"(2) [OF Cons refl pure _ st2(1) refl that _ _ "1.prems"(3,4)] st2 that
          peel_one_inv [OF inv pure, of st2] by simp
      then show ?thesis using Cons p True st2(1) by (cases ok) (auto simp: peel_loop.simps [of b st])
    qed
  qed
qed

lemma decode_defined:
  assumes small: "cells_small n (sk_cells sk)" and n: "n + 681 < 2 ^ 31"
    and wf: "cells_wf (sk_cells sk)" and total: "\<forall>nid. length nid = 32 \<longrightarrow> get_indices b sk nid \<noteq> None"
  obtains r where "decode b sk = Some r"
proof -
  let ?l = "length (sk_cells sk)"
  have n': "n < 2 ^ 31" using n by simp
  obtain stack where stack: "collect_pure b sk [0..<?l] [] = Some stack" "set stack \<subseteq> {..<?l}"
    using collect_pure_defined [OF small n', of "[0..<?l]" "[]" b] by (auto simp: lessThan_atLeast0)
  let ?st = "\<lparr>ds_sketch = sk, ds_pure = stack, ds_self = [], ds_other = [],
      ds_stats = \<lparr>cells_peeled = 0, iterations = ?l\<rparr>\<rparr>"
  have "decode_live b sk n ?st" using small stack(2) by (simp add: decode_live_def same_shape_sk_def)
  moreover have "decode_inv b sk ?st" using wf by (simp add: decode_inv_def same_shape_sk_def decoded_def encode_def)
  ultimately obtain ok st where "peel_loop b ?st = Some (ok, st)" using peel_loop_defined [OF _ _ total n] by blast
  then show ?thesis
    using that stack(1) by (cases ok; cases "scan_empty (sk_cells (ds_sketch st))") (simp_all add: decode_def Let_def)
qed

section \<open>A single difference is always recovered\<close>

lemma is_pure_default: "idx < length (sk_cells sk) \<Longrightarrow> sk_cells sk ! idx = cell_default \<Longrightarrow> is_pure b sk idx = Some False"
  by (simp add: is_pure_def cell_default_def i32_abs_def i32_def)

lemma peel_loop_zero:
  assumes "\<forall>c \<in> set (sk_cells (ds_sketch st)). c = cell_default" and "set (ds_pure st) \<subseteq> {..<length (sk_cells (ds_sketch st))}"
  shows "\<exists>st'. peel_loop b st = Some (True, st') \<and> ds_self st' = ds_self st \<and> ds_other st' = ds_other st \<and>
    ds_sketch st' = ds_sketch st"
  using assms
proof (induction "ds_pure st" arbitrary: st)
  case Nil
  then show ?case by (simp add: peel_loop.simps [of b st])
next
  case (Cons idx rest)
  let ?st = "st\<lparr>ds_pure := rest, ds_stats := tick 1 (ds_stats st)\<rparr>"
  have idx: "idx < length (sk_cells (ds_sketch st))" using Cons.prems(2) Cons.hyps(2) [symmetric] by simp
  then have "is_pure b (ds_sketch st) idx = Some False" using Cons.prems(1) by (intro is_pure_default) simp_all
  moreover have "\<exists>st'. peel_loop b ?st = Some (True, st') \<and> ds_self st' = ds_self ?st \<and> ds_other st' = ds_other ?st \<and>
      ds_sketch st' = ds_sketch ?st"
    using Cons.prems Cons.hyps(2) [symmetric] by (intro Cons.hyps(1)) auto
  ultimately show ?case using Cons.hyps(2) [symmetric] by (simp add: peel_loop.simps [of b st])
qed

lemma peel_cells_zero:
  assumes "distinct is" and "set is \<subseteq> {..<length (sk_cells sk)}"
    and "\<forall>i \<in> set is. cell_update nid h (- cnt) (sk_cells sk ! i) = Some cell_default"
  shows "\<exists>cells. peel_cells b is nid h cnt sk stack = Some (sk\<lparr>sk_cells := cells\<rparr>, stack) \<and>
    length cells = length (sk_cells sk) \<and>
    (\<forall>i < length cells. cells ! i = (if i \<in> set is then cell_default else sk_cells sk ! i))"
  using assms
proof (induction "is" arbitrary: sk)
  case Nil
  then show ?case by (intro exI [of _ "sk_cells sk"]) simp
next
  case (Cons i "is")
  let ?sk = "sk\<lparr>sk_cells := (sk_cells sk)[i := cell_default]\<rparr>"
  have i: "i < length (sk_cells sk)" using Cons.prems by simp
  have pure: "is_pure b ?sk i = Some False" using i by (intro is_pure_default) simp_all
  have "\<forall>j \<in> set is. cell_update nid h (- cnt) (sk_cells ?sk ! j) = Some cell_default"
  proof
    fix j assume "j \<in> set is"
    then show "cell_update nid h (- cnt) (sk_cells ?sk ! j) = Some cell_default"
      using Cons.prems(1,3) by (cases "i = j") auto
  qed
  then obtain cells where cells: "peel_cells b is nid h cnt ?sk stack = Some (?sk\<lparr>sk_cells := cells\<rparr>, stack)"
      "length cells = length (sk_cells sk)"
      "\<forall>j < length cells. cells ! j = (if j \<in> set is then cell_default else sk_cells ?sk ! j)"
    using Cons.IH [of ?sk] Cons.prems(1,2) by auto
  have "\<forall>j < length cells. cells ! j = (if j \<in> set (i # is) then cell_default else sk_cells sk ! j)"
    using cells(2,3) i by (auto simp: nth_list_update)
  then show ?case using cells(1,2) i Cons.prems(3) pure by (auto simp: Let_def)
qed

text \<open>The cells of a table that holds one signed id.\<close>

lemma encode_single_nth:
  assumes "get_indices b sk x = Some is" and "length x = 32" and "i < n"
  shows "encode b sk [(x, d)] (replicate n cell_default) ! i =
    (if i \<in> set is then \<lparr>cell_count = d, cell_id_sum = x, cell_hash_sum = get_checksum b sk x\<rparr> else cell_default)"
proof -
  have "xor_bytes (replicate 32 0) x = x" using assms(2) by (simp add: list_eq_iff_nth_eq)
  then show ?thesis using assms(1,3) by (simp add: encode_def add_entry_def cell_add_def cell_default_def)
qed

lemma collect_pure_eq:
  assumes "\<forall>i \<in> set is. is_pure b sk i = Some (i \<in> P)"
  shows "collect_pure b sk is stack = Some (rev (filter (\<lambda>i. i \<in> P) is) @ stack)"
  using assms by (induction "is" arbitrary: stack) auto

lemma cell_update_cancel:
  assumes "length x = 32" and "\<bar>d\<bar> = 1"
  shows "cell_update x h (- d) \<lparr>cell_count = d, cell_id_sum = x, cell_hash_sum = h\<rparr> = Some cell_default"
proof -
  have "xor_bytes x x = replicate 32 0" using assms(1) by (simp add: list_eq_iff_nth_eq)
  then show ?thesis by (simp add: cell_update_def i32_def cell_default_def)
qed

lemma d_max_ge: "10 \<le> d_max t"
  by (cases t) simp_all

lemma peel_one_single:
  assumes cells: "\<forall>i < length (sk_cells sk). sk_cells sk ! i =
      (if i \<in> set is then \<lparr>cell_count = d, cell_id_sum = x, cell_hash_sum = get_checksum b sk x\<rparr> else cell_default)"
    and g: "get_indices b sk x = Some is" and x: "length x = 32" and d: "\<bar>d\<bar> = 1" and idx: "idx \<in> set is"
    and st: "ds_sketch st = sk" "ds_self st = []" "ds_other st = []"
  obtains st' where "peel_one b idx st = Some (True, st')" "ds_pure st' = ds_pure st"
    "ds_self st' = (if d = 1 then [x] else [])" "ds_other st' = (if d = 1 then [] else [x])"
    "length (sk_cells (ds_sketch st')) = length (sk_cells sk)"
    "\<forall>c \<in> set (sk_cells (ds_sketch st')). c = cell_default"
proof -
  note is_ok = get_indices_sound(2,3) [OF g]
  have lt: "idx < length (sk_cells sk)" using idx is_ok(2) by auto
  let ?c = "\<lparr>cell_count = d, cell_id_sum = x, cell_hash_sum = get_checksum b sk x\<rparr>"
  have at_idx: "sk_cells sk ! idx = ?c" using cells lt idx by simp
  have upd: "\<forall>i \<in> set is. cell_update x (get_checksum b sk x) (- d) (sk_cells sk ! i) = Some cell_default"
  proof
    fix i assume i: "i \<in> set is"
    then have "sk_cells sk ! i = ?c" using cells is_ok(2) by auto
    then show "cell_update x (get_checksum b sk x) (- d) (sk_cells sk ! i) = Some cell_default"
      using cell_update_cancel [OF x d] by simp
  qed
  obtain cs where cs: "peel_cells b is x (get_checksum b sk x) d sk (ds_pure st) = Some (sk\<lparr>sk_cells := cs\<rparr>, ds_pure st)"
    "length cs = length (sk_cells sk)" "\<forall>i < length cs. cs ! i = (if i \<in> set is then cell_default else sk_cells sk ! i)"
    using peel_cells_zero [OF is_ok upd] by blast
  have "cs ! i = cell_default" if "i < length cs" for i using cs(2,3) cells that by (cases "i \<in> set is") auto
  then have zero: "\<forall>c \<in> set cs. c = cell_default" by (metis in_set_conv_nth)
  define st' where "st' = (let st1 = (if d = 1 then st\<lparr>ds_self := [x]\<rparr> else st\<lparr>ds_other := [x]\<rparr>)
    in st1\<lparr>ds_stats := (ds_stats st1)\<lparr>cells_peeled := cells_peeled (ds_stats st1) + 1\<rparr>,
           ds_sketch := sk\<lparr>sk_cells := cs\<rparr>, ds_pure := ds_pure st\<rparr>)"
  have cap: "\<not> d_max (from_cell_count (length (sk_cells sk))) < Suc 0"
    using d_max_ge [of "from_cell_count (length (sk_cells sk))"] by simp
  have call: "peel_one b idx st = Some (True, st')"
    using lt at_idx st g cs(1) cap
    by (cases "d = 1") (simp_all add: peel_one_def Let_def decode_cap_def st'_def)
  show ?thesis
    by (rule that [OF call]) (use st cs(2) zero in \<open>simp_all add: st'_def Let_def\<close>)
qed

lemma decode_single:
  assumes g: "get_indices b sk x = Some is" and ne: "is \<noteq> []" and x: "length x = 32" and d: "\<bar>d\<bar> = 1"
    and sk: "sk_cells sk = encode b sk [(x, d)] (replicate (length (sk_cells sk)) cell_default)"
  shows "\<exists>stats sk'. decode b sk =
    Some (Inr (if d = 1 then [x] else [], if d = 1 then [] else [x], stats), sk')"
proof -
  let ?n = "length (sk_cells sk)"
  note is_ok = get_indices_sound(2,3) [OF g]
  have cells: "\<forall>i < ?n. sk_cells sk ! i =
      (if i \<in> set is then \<lparr>cell_count = d, cell_id_sum = x, cell_hash_sum = get_checksum b sk x\<rparr> else cell_default)"
    using encode_single_nth [OF g x, of _ ?n d] sk by metis
  have pure: "is_pure b sk i = Some (i \<in> set is)" if "i < ?n" for i
  proof (cases "i \<in> set is")
    case True
    then show ?thesis using cells that d by (auto simp: is_pure_def i32_abs_def i32_def)
  next
    case False
    then show ?thesis using cells that by (simp add: is_pure_default)
  qed
  define stack where "stack = rev (filter (\<lambda>i. i \<in> set is) [0..<?n])"
  have collect: "collect_pure b sk [0..<?n] [] = Some stack"
    using collect_pure_eq [of "[0..<?n]" b sk "set is" "[]"] pure by (simp add: stack_def)
  have "set stack = set is" using is_ok(2) by (auto simp: stack_def)
  then obtain idx rest where stack: "stack = idx # rest" "idx \<in> set is" "set rest \<subseteq> {..<?n}"
    using ne is_ok(2) by (cases stack) auto
  let ?st = "\<lparr>ds_sketch = sk, ds_pure = stack, ds_self = [], ds_other = [], ds_stats = \<lparr>cells_peeled = 0, iterations = ?n\<rparr>\<rparr>"
  let ?st1 = "?st\<lparr>ds_pure := rest, ds_stats := tick 1 (ds_stats ?st)\<rparr>"
  obtain st' where st': "peel_one b idx ?st1 = Some (True, st')" "ds_pure st' = rest"
    "ds_self st' = (if d = 1 then [x] else [])" "ds_other st' = (if d = 1 then [] else [x])"
    "length (sk_cells (ds_sketch st')) = ?n" "\<forall>c \<in> set (sk_cells (ds_sketch st')). c = cell_default"
    by (rule peel_one_single [OF cells g x d stack(2), of ?st1]) auto
  obtain st2 where st2: "peel_loop b st' = Some (True, st2)" "ds_self st2 = ds_self st'" "ds_other st2 = ds_other st'"
    "ds_sketch st2 = ds_sketch st'"
    using peel_loop_zero [OF st'(6), of b] st'(2,5) stack(3) by auto
  have "is_pure b sk idx = Some True" using pure [of idx] stack(2) is_ok(2) by auto
  then have loop: "peel_loop b ?st = Some (True, st2)"
    unfolding peel_loop.simps [of b ?st] using stack(1) st'(1) st2(1) by simp
  have "fst (scan_empty (sk_cells (ds_sketch st2)))" using st2(4) st'(6) by (simp add: scan_empty_iff)
  then show ?thesis
    using collect loop st2(2,3) st'(3,4)
    by (cases "scan_empty (sk_cells (ds_sketch st2))") (simp add: decode_def Let_def)
qed

section \<open>Tiers\<close>

lemma tier_round_trip: "from_cell_count (tier_cell_count t) = t"
  by (cases t) (simp_all add: from_cell_count_def)

lemma d_max_below_cells: "d_max t < tier_cell_count t"
  by (cases t) simp_all

section \<open>Tables of sets\<close>

text \<open>The stream of the hash yields enough different indices for the id.\<close>

definition draws_enough :: "blake3 \<Rightarrow> iblt_sketch \<Rightarrow> bytes \<Rightarrow> bool" where
  "draws_enough b sk nid \<longleftrightarrow>
     (\<exists>m. min (sk_k sk) (length (sk_cells sk)) \<le>
        card (draw (b3_keyed_xof b (context_key b (sk_k_iblt sk) HASH_CONTEXT_INDICES) nid)
                (length (sk_cells sk)) ` {..<m}))"

lemma get_indices_total: "draws_enough b sk nid \<Longrightarrow> \<exists>is. get_indices b sk nid = Some is"
  using index_loop_total [of "[]" "sk_k sk" "length (sk_cells sk)"
      "b3_keyed_xof b (context_key b (sk_k_iblt sk) HASH_CONTEXT_INDICES) nid" 0]
  by (auto simp: draws_enough_def get_indices_def lessThan_atLeast0)

text \<open>The draw loop ends only with enough different draws.\<close>

lemma index_loop_draws:
  assumes "index_loop xof k n pos is = Some r"
  shows "\<exists>m. set r \<subseteq> set is \<union> draw xof n ` {pos..<m}"
proof (rule index_loop.raw_induct [OF _ assms])
  fix loop xof k n pos "is" r
  assume IH: "\<And>xof k n pos is r. loop xof k n pos is = Some r \<Longrightarrow> \<exists>m. set r \<subseteq> set is \<union> draw xof n ` {pos..<m}"
    and step: "(if length is < k \<and> length is < n then
      (let idx = draw xof n pos in loop xof k n (pos + 1) (if idx \<in> set is then is else is @ [idx]))
      else Some is) = Some r"
  show "\<exists>m. set r \<subseteq> set is \<union> draw xof n ` {pos..<m}"
  proof (cases "length is < k \<and> length is < n")
    case True
    let ?is = "if draw xof n pos \<in> set is then is else is @ [draw xof n pos]"
    obtain m where "set r \<subseteq> set ?is \<union> draw xof n ` {pos + 1..<m}"
      using step True IH [of xof k n "pos + 1" ?is r] by (auto simp: Let_def)
    moreover have "{pos + 1..<m} \<subseteq> {pos..<Suc (pos + m)}" "pos \<in> {pos..<Suc (pos + m)}" by auto
    ultimately have "set r \<subseteq> set is \<union> draw xof n ` {pos..<Suc (pos + m)}" by (fastforce split: if_splits)
    then show ?thesis by blast
  next
    case False
    then show ?thesis using step by auto
  qed
qed

lemma get_indices_None: "get_indices b sk nid = None \<longleftrightarrow> \<not> draws_enough b sk nid"
proof -
  let ?xof = "b3_keyed_xof b (context_key b (sk_k_iblt sk) HASH_CONTEXT_INDICES) nid" and ?n = "length (sk_cells sk)"
  have "draws_enough b sk nid" if run: "index_loop ?xof (sk_k sk) ?n 0 [] = Some r" for r
  proof -
    obtain m where m: "set r \<subseteq> draw ?xof ?n ` {0..<m}" using index_loop_draws [OF run] by auto
    have "min (sk_k sk) ?n = card (set r)" using index_loop_sound [OF run] by (simp add: distinct_card)
    also have "\<dots> \<le> card (draw ?xof ?n ` {0..<m})" by (rule card_mono) (use m in auto)
    finally show ?thesis unfolding draws_enough_def lessThan_atLeast0 by blast
  qed
  then show ?thesis using get_indices_total [of b sk nid] by (fastforce simp: get_indices_def)
qed

section \<open>The work of a decoding\<close>

text \<open>Each step of the loop pops a cell, and each peeled id pushes at most as many as it has indices.\<close>

definition work_bounded :: "iblt_sketch \<Rightarrow> decode_state \<Rightarrow> bool" where
  "work_bounded sk st \<longleftrightarrow>
     same_shape_sk sk (ds_sketch st) \<and> length (ds_self st) + length (ds_other st) \<le> decode_cap st \<and>
     iterations (ds_stats st) + length (ds_pure st) \<le>
       2 * length (sk_cells sk) + min (sk_k sk) (length (sk_cells sk)) * (length (ds_self st) + length (ds_other st))"

lemma peel_cells_work:
  "peel_cells b is nid h cnt sk stack = Some (sk', stack') \<Longrightarrow>
     same_shape_sk sk sk' \<and> length stack' \<le> length stack + length is"
proof (induction "is" arbitrary: sk stack)
  case (Cons i "is")
  then obtain c' p where c': "peel_cells b is nid h cnt (sk\<lparr>sk_cells := (sk_cells sk)[i := c']\<rparr>)
      (if p then i # stack else stack) = Some (sk', stack')"
    by (auto simp: bind_eq_Some_conv Let_def)
  show ?case using Cons.IH [OF c'] by (auto simp: same_shape_sk_def split: if_splits)
qed (simp add: same_shape_sk_def)

lemma peel_one_work:
  assumes work: "work_bounded sk st" and peel: "peel_one b idx st = Some (ok, st')"
  shows "if ok then work_bounded sk st'
    else iterations (ds_stats st') \<le> 2 * length (sk_cells sk) + min (sk_k sk) (length (sk_cells sk)) * decode_cap st"
proof -
  let ?k = "min (sk_k sk) (length (sk_cells sk))" and ?n = "length (ds_self st) + length (ds_other st)"
  have sh: "same_shape_sk sk (ds_sketch st)" and cap: "?n \<le> decode_cap st"
    and it: "iterations (ds_stats st) + length (ds_pure st) \<le> 2 * length (sk_cells sk) + ?k * ?n"
    using work by (simp_all add: work_bounded_def)
  show ?thesis
  proof (cases ok)
    case False
    then have "iterations (ds_stats st') = iterations (ds_stats st)"
      using peel by (auto simp: peel_one_def Let_def bind_eq_Some_conv split: if_splits)
    moreover have "?k * ?n \<le> ?k * decode_cap st" using cap by (rule mult_le_mono2)
    ultimately have "iterations (ds_stats st') \<le> 2 * length (sk_cells sk) + ?k * decode_cap st" using it by linarith
    then show ?thesis using False by simp
  next
    case True
    then obtain nid "is" h cnt where p: "get_indices b (ds_sketch st) nid = Some is"
        "peel_cells b is nid h cnt (ds_sketch st) (ds_pure st) = Some (ds_sketch st', ds_pure st')"
        "length (ds_self st') + length (ds_other st') = Suc ?n" "Suc ?n \<le> decode_cap st"
        "iterations (ds_stats st') = iterations (ds_stats st)"
      using peel by (auto simp: peel_one_def Let_def bind_eq_Some_conv decode_cap_def split: if_splits)
    have "length is = ?k" using get_indices_sound(4) [OF p(1)] sh by (simp add: same_shape_sk_def)
    moreover have "?k * Suc ?n = ?k + ?k * ?n" by simp
    ultimately show ?thesis
      using peel_cells_work [OF p(2)] p(3-5) it sh True
      by (auto simp: work_bounded_def decode_cap_def same_shape_sk_def)
  qed
qed

lemma work_bounded_end:
  assumes "work_bounded sk st"
  shows "iterations (ds_stats st) \<le> 2 * length (sk_cells sk) +
      min (sk_k sk) (length (sk_cells sk)) * d_max (from_cell_count (length (sk_cells sk)))"
    and "length (sk_cells (ds_sketch st)) = length (sk_cells sk)"
    and "decode_cap st = d_max (from_cell_count (length (sk_cells sk)))"
proof -
  show len: "length (sk_cells (ds_sketch st)) = length (sk_cells sk)"
    using assms by (simp add: work_bounded_def same_shape_sk_def)
  then show cap: "decode_cap st = d_max (from_cell_count (length (sk_cells sk)))" by (simp add: decode_cap_def)
  let ?k = "min (sk_k sk) (length (sk_cells sk))"
  have "?k * (length (ds_self st) + length (ds_other st)) \<le> ?k * d_max (from_cell_count (length (sk_cells sk)))"
    using assms unfolding cap [symmetric] work_bounded_def by (intro mult_le_mono2) blast
  then show "iterations (ds_stats st) \<le> 2 * length (sk_cells sk) + ?k * d_max (from_cell_count (length (sk_cells sk)))"
    using assms unfolding work_bounded_def by linarith
qed

lemma peel_loop_work:
  "peel_loop b st = Some (ok, st') \<Longrightarrow> work_bounded sk st \<Longrightarrow>
     iterations (ds_stats st') \<le> 2 * length (sk_cells sk) +
       min (sk_k sk) (length (sk_cells sk)) * d_max (from_cell_count (length (sk_cells sk))) \<and>
     (ok \<longrightarrow> length (sk_cells (ds_sketch st')) = length (sk_cells sk))"
proof (induction b st rule: peel_loop.induct)
  case (1 b st)
  show ?case
  proof (cases "ds_pure st")
    case Nil
    then show ?thesis using "1.prems"(1) work_bounded_end [OF "1.prems"(2)] by (simp add: peel_loop.simps [of b st])
  next
    case (Cons idx rest)
    let ?st = "st\<lparr>ds_pure := rest, ds_stats := tick 1 (ds_stats st)\<rparr>"
    have work: "work_bounded sk ?st" using "1.prems"(2) Cons by (simp add: work_bounded_def decode_cap_def tick_def)
    obtain p where p: "is_pure b (ds_sketch st) idx = Some p"
      using "1.prems"(1) Cons by (auto simp: peel_loop.simps [of b st] Let_def split: option.splits)
    show ?thesis
    proof (cases p)
      case False
      then show ?thesis
        using "1.IH"(1) [OF Cons refl _ _ _ work] "1.prems"(1) Cons p by (simp add: peel_loop.simps [of b st])
    next
      case True
      then obtain ok2 st2 where st2: "peel_one b idx ?st = Some (ok2, st2)"
          "if ok2 then peel_loop b st2 = Some (ok, st') else (ok, st') = (False, st2)"
        using "1.prems"(1) Cons p by (auto simp: peel_loop.simps [of b st] Let_def split: option.splits if_splits)
      show ?thesis
      proof (cases ok2)
        case ok2: True
        have "work_bounded sk st2" using peel_one_work [OF work st2(1)] ok2 by simp
        then show ?thesis using "1.IH"(2) [OF Cons refl _ _ st2(1) refl ok2] st2(2) ok2 p True by simp
      next
        case False
        then show ?thesis
          using peel_one_work [OF work st2(1)] st2(2) work_bounded_end(3) [OF work] by simp
      qed
    qed
  qed
qed

lemma collect_pure_length: "collect_pure b sk is stack = Some stack' \<Longrightarrow> length stack' \<le> length is + length stack"
proof (induction "is" arbitrary: stack)
  case (Cons i "is")
  then obtain p where p: "collect_pure b sk is (if p then i # stack else stack) = Some stack'"
    by (auto simp: bind_eq_Some_conv)
  show ?case using Cons.IH [OF p] by (cases p) simp_all
qed simp

lemma scan_empty_looks: "snd (scan_empty cells) \<le> length cells"
  by (induction cells) (auto split: prod.splits)

lemma decode_work:
  assumes "decode b sk = Some (r, sk')"
  shows "\<exists>stats. (r = Inl (DecodingFailed stats) \<or> (\<exists>in_self in_other. r = Inr (in_self, in_other, stats))) \<and>
    iterations stats \<le> 3 * length (sk_cells sk) +
      min (sk_k sk) (length (sk_cells sk)) * d_max (from_cell_count (length (sk_cells sk)))"
proof -
  let ?n = "length (sk_cells sk)"
  obtain stack ok st where st: "collect_pure b sk [0..<?n] [] = Some stack"
      "peel_loop b \<lparr>ds_sketch = sk, ds_pure = stack, ds_self = [], ds_other = [],
        ds_stats = \<lparr>cells_peeled = 0, iterations = ?n\<rparr>\<rparr> = Some (ok, st)"
    using assms by (auto simp: decode_def Let_def bind_eq_Some_conv)
  have ret: "(if \<not> ok then Some (Inl (DecodingFailed (ds_stats st)), ds_sketch st)
        else (case scan_empty (sk_cells (ds_sketch st)) of (vacant, looked) \<Rightarrow>
           Some (if vacant then Inr (ds_self st, ds_other st, tick looked (ds_stats st))
                 else Inl (DecodingFailed (tick looked (ds_stats st))), ds_sketch st))) = Some (r, sk')"
    using assms st by (cases ok) (simp_all add: decode_def Let_def)
  have "work_bounded sk \<lparr>ds_sketch = sk, ds_pure = stack, ds_self = [], ds_other = [],
        ds_stats = \<lparr>cells_peeled = 0, iterations = ?n\<rparr>\<rparr>"
    using collect_pure_length [OF st(1)] by (simp add: work_bounded_def same_shape_sk_def)
  note it = peel_loop_work [OF st(2) this]
  show ?thesis
  proof (cases ok)
    case True
    obtain vacant looked where scan: "scan_empty (sk_cells (ds_sketch st)) = (vacant, looked)" by (cases "scan_empty (sk_cells (ds_sketch st))")
    have v: "scan_empty (sk_cells (ds_sketch st)) = (vacant, looked)"
        "r = (if vacant then Inr (ds_self st, ds_other st, tick looked (ds_stats st))
              else Inl (DecodingFailed (tick looked (ds_stats st))))"
      using ret True scan by auto
    have "looked \<le> ?n" using scan_empty_looks [of "sk_cells (ds_sketch st)"] v(1) it True by simp
    then show ?thesis
      using it v(2) by (intro exI [of _ "tick looked (ds_stats st)"]) (auto simp: tick_def)
  next
    case False
    then show ?thesis using it ret by (intro exI [of _ "ds_stats st"]) auto
  qed
qed

lemma decode_stuck:
  assumes "cells_small n (sk_cells sk)" and "n + 681 < 2 ^ 31" and "cells_wf (sk_cells sk)" and "decode b sk = None"
  shows "\<exists>nid. length nid = 32 \<and> \<not> draws_enough b sk nid"
proof (rule ccontr)
  assume "\<not> ?thesis"
  then have "\<forall>nid. length nid = 32 \<longrightarrow> get_indices b sk nid \<noteq> None" by (simp add: get_indices_None)
  then obtain r where "decode b sk = Some r" by (rule decode_defined [OF assms(1-3)])
  then show False using assms(4) by simp
qed

text \<open>All ids of a list, inserted one after the other.\<close>

fun insert_all :: "blake3 \<Rightarrow> iblt_sketch \<Rightarrow> bytes list \<Rightarrow> iblt_sketch panics" where
  "insert_all b sk [] = Some sk"
| "insert_all b sk (x # xs) = do { sk1 \<leftarrow> sketch_insert b sk x; insert_all b sk1 xs }"

definition present :: "bytes list \<Rightarrow> (bytes \<times> int) list" where
  "present xs = map (\<lambda>x. (x, 1)) xs"

lemma encode_Nil [simp]: "encode b sk [] cells = cells"
  by (simp add: encode_def)

lemma encode_append: "encode b sk (es @ es') cells = encode b sk es' (encode b sk es cells)"
  by (simp add: encode_def)

lemma same_shape_encode: "same_shape_sk sk sk' \<Longrightarrow> encode b sk' = encode b sk"
  by (simp add: encode_def fun_eq_iff same_shape_add_entry)

lemma insert_all_eq:
  "insert_all b sk xs = Some sk' \<Longrightarrow> sk' = sk\<lparr>sk_cells := encode b sk (present xs) (sk_cells sk)\<rparr>"
proof (induction xs arbitrary: sk)
  case (Cons x xs)
  then obtain sk1 where sk1: "sketch_insert b sk x = Some sk1" "insert_all b sk1 xs = Some sk'"
    by (auto simp: bind_eq_Some_conv)
  then have eq: "sk1 = sk\<lparr>sk_cells := add_entry b sk (x, 1) (sk_cells sk)\<rparr>"
    by (simp add: sketch_insert_def sketch_update_eq)
  have enc: "encode b sk1 = encode b sk" by (rule same_shape_encode) (simp add: eq)
  show ?case
    using Cons.IH [OF sk1(2)] unfolding enc by (simp add: eq present_def encode_cons)
qed (simp add: present_def)

lemma encode_negate:
  assumes "cells_wf cells" and "\<forall>e \<in> set es. length (fst e) = 32"
  shows "encode b sk (es @ map negate es) cells = cells"
  using assms(2)
proof (induction es rule: rev_induct)
  case (snoc e es)
  have "encode b sk ((es @ [e]) @ map negate (es @ [e])) cells = encode b sk ((es @ map negate es) @ [e, negate e]) cells"
    by (rule fun_cong [OF encode_perm]) simp
  also have "\<dots> = encode b sk [e, negate e] cells"
    unfolding encode_append [of b sk "es @ map negate es"] using snoc by simp
  also have "\<dots> = cells"
    using add_entry_cancel(1) [OF assms(1), of "fst e" b sk "snd e"] snoc.prems by (simp add: encode_def negate_def)
  finally show ?case .
qed simp

lemma subtract_eq:
  assumes "subtract sk other = Some (Inr d)"
  shows "d = sk\<lparr>sk_cells := map2 cell_minus (sk_cells sk) (sk_cells other)\<rparr>" "length (sk_cells other) = length (sk_cells sk)"
  using assms by (auto simp: subtract_def bind_eq_Some_conv dest!: subtract_cells_eq split: if_splits)

text \<open>Subtracting two tables of the same shape subtracts the lists they hold.\<close>

lemma subtract_encodes:
  assumes sub: "subtract (sk\<lparr>sk_cells := encode b sk es z\<rparr>) (sk\<lparr>sk_cells := encode b sk es' z\<rparr>) = Some (Inr d)"
    and z: "z = replicate (length (sk_cells sk)) cell_default" and ids: "\<forall>e \<in> set es. length (fst e) = 32"
  shows "d = sk\<lparr>sk_cells := encode b sk (es @ map negate es') z\<rparr>"
proof -
  let ?A = "encode b sk es z"
  have wf: "cells_wf ?A" using ids by (intro encode_wf) (simp_all add: z)
  have "map2 cell_minus ?A (encode b sk es' z) = encode b sk (map negate es') (map2 cell_minus ?A z)"
    by (rule map2_minus_encode) simp
  also have "map2 cell_minus ?A z = ?A" using map2_minus_default [OF wf] by (simp add: z)
  finally have "map2 cell_minus ?A (encode b sk es' z) = encode b sk (es @ map negate es') z"
    by (simp add: encode_append)
  then show ?thesis using subtract_eq(1) [OF sub] by simp
qed

lemma sketch_new_keyed_cells:
  "sk_cells (sketch_new_keyed n key) = replicate n cell_default" "sk_k (sketch_new_keyed n key) = 4"
  "sk_k_iblt (sketch_new_keyed n key) = key"
  by (simp_all add: sketch_new_keyed_def iblt_K_def)

text \<open>
  The tables of two lists of ids of which one has one id more, in whatever order the two lists
  name the common ids.
\<close>

lemma reconcile_single_difference:
  assumes A: "insert_all b (sketch_new_keyed n key) ys = Some skA"
    and B: "insert_all b (sketch_new_keyed n key) xs = Some skB"
    and more: "mset ys = mset xs + {#x#}"
    and sub: "subtract skA skB = Some (Inr d)" and n: "0 < n" and ids: "\<forall>y \<in> set ys. length y = 32"
    and draws: "draws_enough b (sketch_new_keyed n key) x"
  shows "\<exists>stats sk'. decode b d = Some (Inr ([x], [], stats), sk')"
proof -
  let ?sk = "sketch_new_keyed n key" and ?z = "replicate n cell_default"
  have sets: "set ys = insert x (set xs)" using arg_cong [OF more, of set_mset] by simp
  then have lens: "\<forall>e \<in> set (present ys). length (fst e) = 32" "\<forall>e \<in> set (present xs). length (fst e) = 32"
    using ids by (auto simp: present_def)
  have d: "d = ?sk\<lparr>sk_cells := encode b ?sk (present ys @ map negate (present xs)) ?z\<rparr>"
    using sub insert_all_eq [OF A] insert_all_eq [OF B]
    by (intro subtract_encodes [OF _ _ lens(1)]) (simp_all add: sketch_new_keyed_cells)
  have "mset (present ys @ map negate (present xs)) = mset ((present xs @ map negate (present xs)) @ [(x, 1)])"
    by (simp add: present_def more)
  then have "encode b ?sk (present ys @ map negate (present xs)) ?z =
      encode b ?sk ((present xs @ map negate (present xs)) @ [(x, 1)]) ?z"
    by (rule fun_cong [OF encode_perm])
  also have "\<dots> = encode b ?sk [(x, 1)] ?z"
    unfolding encode_append [of b ?sk "present xs @ map negate (present xs)"] by (simp add: encode_negate lens(2))
  finally have cells: "sk_cells d = encode b ?sk [(x, 1)] ?z" by (simp add: d)
  have sh: "same_shape_sk ?sk d" by (simp add: d sketch_new_keyed_cells)
  obtain "is" where g: "get_indices b ?sk x = Some is" using get_indices_total [OF draws] by blast
  then have ne: "is \<noteq> []" using get_indices_sound(4) [OF g] n by (auto simp: sketch_new_keyed_cells)
  have "sk_cells d = encode b d [(x, 1)] (replicate (length (sk_cells d)) cell_default)"
    unfolding cells by (simp add: same_shape_encode [OF sh] cells)
  from decode_single [OF _ ne _ _ this] show ?thesis
    using g ids sets by (simp add: same_shape_get(1) [OF sh])
qed

end
