(* ===== verification/Sync_Session.thy ===== *)
theory Sync_Session
  imports Node_Store Iblt
begin

text \<open>
  \<^verbatim>\<open>merkle-tox-core/src/engine/session/\<close>: what this device knows of a peer while the two bring a
  conversation's history into step. A session advertises heads, finds differences by sketches and checksums
  of shards, queues the nodes it lacks and asks for them in batches, and makes a peer that wants a large sketch decoded
  solve a puzzle. The store is an object of the trait \<open>node_store\<close>, only read.
\<close>

section \<open>State\<close>

definition SHARD_SIZE :: nat where "SHARD_SIZE = 1000"
definition POW_CHALLENGE_TIMEOUT :: duration where "POW_CHALLENGE_TIMEOUT = from_secs 60"
definition RECONCILIATION_INTERVAL :: duration where "RECONCILIATION_INTERVAL = from_secs 60"
definition DEFAULT_RECON_DIFFICULTY :: nat where "DEFAULT_RECON_DIFFICULTY = 12"
definition HOT_WINDOW_RANKS :: nat where "HOT_WINDOW_RANKS = 1000"
definition MAX_HEADS_SYNC :: nat where "MAX_HEADS_SYNC = 64"
definition MAX_BATCH_SIZE :: nat where "MAX_BATCH_SIZE = MAX_HEADS_SYNC"

record sync_heads =
  sh_conversation_id :: conversation_id
  sh_heads :: "node_hash list"
  sh_flags :: nat
  sh_anchor_hash :: "node_hash option"

record fetch_batch_req =
  fb_conversation_id :: conversation_id
  fb_hashes :: "node_hash list"

record sync_sketch =
  sk_conversation_id :: conversation_id
  sk_sketch_cells :: "iblt_cell list"
  sk_range :: sync_range

datatype decoding_result = DecodeSuccess "node_hash list" "node_hash list" | DecodeFailed

record session_common =
  sc_reachable :: bool
  sc_shallow :: bool
  sc_min_rank :: nat
  sc_min_timestamp :: int
  sc_local_heads :: "node_hash list"
  sc_remote_heads :: "node_hash list"
  sc_missing_admin_nodes :: "node_hash list"
  sc_missing_nodes_hot :: "node_hash list"
  sc_missing_nodes_cold :: "node_hash list"
  sc_in_flight_fetches :: "node_hash list"
  sc_missing_blobs :: "node_hash list"
  sc_peer_features :: nat
  sc_time_samples :: "int list"
  sc_vouchers :: "(node_hash, public_key list) flat_map"
  sc_iblt_tiers :: "(sync_range, tier) flat_map"
  sc_exhausted_iblt_ranges :: "sync_range list"
  sc_heads_dirty :: bool
  sc_recon_dirty :: bool
  sc_last_recon_time :: instant
  sc_effective_difficulty :: nat
  sc_difficulty_votes :: "(public_key, nat) flat_map"
  sc_pending_challenges :: "(bytes, instant) flat_map"
  sc_pending_sketches :: "(bytes, sync_sketch) flat_map"
  sc_rate_limited_until :: "instant option"
  sc_max_backfill_nodes :: nat
  sc_backfill_count :: nat
  sc_remote_anchor_hash :: "node_hash option"

text \<open>The type parameter of \<^verbatim>\<open>SyncSession\<close> carries no data; the two states are the constructors of \<^verbatim>\<open>PeerSession\<close>.\<close>

record sync_session =
  ss_conversation_id :: conversation_id
  ss_common :: session_common

datatype peer_session = Handshake sync_session | Active sync_session

abbreviation on_common :: "(session_common \<Rightarrow> session_common) \<Rightarrow> sync_session \<Rightarrow> sync_session" where
  "on_common f ss \<equiv> ss\<lparr>ss_common := f (ss_common ss)\<rparr>"

definition with_limits :: "nat \<Rightarrow> int \<Rightarrow> sync_session \<Rightarrow> sync_session" where
  "with_limits min_rank min_timestamp = on_common (\<lambda>c. c\<lparr>sc_min_rank := min_rank, sc_min_timestamp := min_timestamp\<rparr>)"

section \<open>The handshake\<close>

definition hs_new :: "('s, 'm) node_store_scheme \<Rightarrow> 's \<Rightarrow> conversation_id \<Rightarrow> bool \<Rightarrow> instant \<Rightarrow> sync_session" where
  "hs_new ns s cid shallow now =
     \<lparr>ss_conversation_id = cid,
      ss_common =
        \<lparr>sc_reachable = True, sc_shallow = shallow, sc_min_rank = 0, sc_min_timestamp = 0,
         sc_local_heads = remdups (ns_get_heads ns s cid), sc_remote_heads = [], sc_missing_admin_nodes = [],
         sc_missing_nodes_hot = [], sc_missing_nodes_cold = [], sc_in_flight_fetches = [], sc_missing_blobs = [],
         sc_peer_features = 0, sc_time_samples = [], sc_vouchers = fm_new, sc_iblt_tiers = fm_new,
         sc_exhausted_iblt_ranges = [], sc_heads_dirty = True, sc_recon_dirty = True, sc_last_recon_time = now,
         sc_effective_difficulty = DEFAULT_RECON_DIFFICULTY, sc_difficulty_votes = fm_new,
         sc_pending_challenges = fm_new, sc_pending_sketches = fm_new, sc_rate_limited_until = None,
         sc_max_backfill_nodes = 0, sc_backfill_count = 0, sc_remote_anchor_hash = None\<rparr>\<rparr>"

text \<open>The test that guards every insertion into the two queues of missing nodes.\<close>

definition untracked :: "('s, 'm) node_store_scheme \<Rightarrow> 's \<Rightarrow> session_common \<Rightarrow> node_hash \<Rightarrow> bool" where
  "untracked ns s c h \<longleftrightarrow>
     \<not> ns_has_node ns s h \<and> h \<notin> set (sc_missing_nodes_hot c) \<and> h \<notin> set (sc_missing_nodes_cold c)
     \<and> h \<notin> set (sc_in_flight_fetches c)"

definition push_hot_back :: "node_hash \<Rightarrow> session_common \<Rightarrow> session_common" where
  "push_hot_back h c = c\<lparr>sc_missing_nodes_hot := sc_missing_nodes_hot c @ [h]\<rparr>"

definition push_hot_front :: "node_hash \<Rightarrow> session_common \<Rightarrow> session_common" where
  "push_hot_front h c = c\<lparr>sc_missing_nodes_hot := h # sc_missing_nodes_hot c\<rparr>"

definition queue_hot :: "('s, 'm) node_store_scheme \<Rightarrow> 's \<Rightarrow> node_hash list \<Rightarrow> session_common \<Rightarrow> session_common" where
  "queue_hot ns s = fold (\<lambda>h c. if untracked ns s c h then push_hot_back h c else c)"

text \<open>What both states do with the hash and the parents of a node before anything else.\<close>

definition note_node :: "('s, 'm) node_store_scheme \<Rightarrow> 's \<Rightarrow> node_hash \<Rightarrow> merkle_node \<Rightarrow> session_common \<Rightarrow> session_common" where
  "note_node ns s h n c =
     (let heads = fold hs_remove (nd_parents n) (sc_local_heads c)
      in c\<lparr>sc_in_flight_fetches := hs_remove h (sc_in_flight_fetches c),
           sc_local_heads := (if lk_has_children ns s h then heads else hs_insert h heads), sc_heads_dirty := True\<rparr>)"

definition hs_on_node_received ::
    "'e dag_env_scheme \<Rightarrow> ('s, 'm) node_store_scheme \<Rightarrow> 's \<Rightarrow> merkle_node \<Rightarrow> sync_session \<Rightarrow> sync_session panics" where
  "hs_on_node_received env ns s n ss =
     do {
       h \<leftarrow> mn_hash env n;
       Some (on_common (\<lambda>c. fold (\<lambda>p c. if untracked ns s c p
           then (if node_type_of n = Admin then push_hot_front p c else push_hot_back p c) else c)
         (nd_parents n) (note_node ns s h n c)) ss)
     }"

definition record_vouch :: "node_hash \<Rightarrow> public_key \<Rightarrow> sync_session \<Rightarrow> sync_session" where
  "record_vouch h peer = on_common (\<lambda>c.
     let (vs, m) = fm_or_insert (sc_vouchers c) h [] in c\<lparr>sc_vouchers := fm_set m h (hs_insert peer vs)\<rparr>)"

definition hs_next_wakeup :: "sync_session \<Rightarrow> instant \<Rightarrow> instant" where
  "hs_next_wakeup ss now = inst_add now (from_secs 3600)"

definition hs_make_sync_heads :: "sync_session \<Rightarrow> nat \<Rightarrow> sync_heads" where
  "hs_make_sync_heads ss flags =
     \<lparr>sh_conversation_id = ss_conversation_id ss, sh_heads = take MAX_HEADS_SYNC (sc_local_heads (ss_common ss)),
      sh_flags = flags, sh_anchor_hash = None\<rparr>"

definition activate :: "nat \<Rightarrow> sync_session \<Rightarrow> sync_session" where
  "activate features = on_common (\<lambda>c. c\<lparr>sc_peer_features := features\<rparr>)"

section \<open>Sketch sizes\<close>

definition get_iblt_tier :: "session_common \<Rightarrow> sync_range \<Rightarrow> tier option" where
  "get_iblt_tier c rg =
     (if rg \<in> set (sc_exhausted_iblt_ranges c) then None
      else Some (case fm_get (sc_iblt_tiers c) rg of Some t \<Rightarrow> t | None \<Rightarrow> Small))"

fun next_tier :: "tier \<Rightarrow> tier option" where
  "next_tier Tiny = Some Small"
| "next_tier Small = Some Medium"
| "next_tier Medium = Some Large"
| "next_tier Large = None"

definition promote_iblt_tier :: "sync_range \<Rightarrow> session_common \<Rightarrow> session_common" where
  "promote_iblt_tier rg c =
     (if rg \<in> set (sc_exhausted_iblt_ranges c) then c
      else
        (case next_tier (case get_iblt_tier c rg of Some t \<Rightarrow> t | None \<Rightarrow> Small) of
           Some n \<Rightarrow> c\<lparr>sc_iblt_tiers := fm_set (sc_iblt_tiers c) rg n\<rparr>
         | None \<Rightarrow> c\<lparr>sc_exhausted_iblt_ranges := hs_insert rg (sc_exhausted_iblt_ranges c),
                    sc_iblt_tiers := fm_del (sc_iblt_tiers c) rg\<rparr>))"

section \<open>Missing nodes\<close>

definition on_wire_node_received ::
    "('s, 'm) node_store_scheme \<Rightarrow> 's \<Rightarrow> node_hash \<Rightarrow> wire_node \<Rightarrow> sync_session \<Rightarrow> sync_session" where
  "on_wire_node_received ns s h w = on_common (\<lambda>c.
     queue_hot ns s (wn_parents w) (c\<lparr>sc_in_flight_fetches := hs_remove h (sc_in_flight_fetches c)\<rparr>))"

definition max_rank_of :: "('s, 'm) node_lookup_scheme \<Rightarrow> 's \<Rightarrow> node_hash list \<Rightarrow> nat" where
  "max_rank_of ns s hs = fold max (List.map_filter (lk_rank ns s) hs) 0"

definition enqueue_missing ::
    "('s, 'm) node_store_scheme \<Rightarrow> 's \<Rightarrow> node_hash \<Rightarrow> nat option \<Rightarrow> session_common \<Rightarrow> session_common panics" where
  "enqueue_missing ns s h hint_rank c =
     (if h \<in> set (sc_in_flight_fetches c) then Some c
      else if h \<in> set (sc_missing_nodes_hot c) \<or> h \<in> set (sc_missing_nodes_cold c) then Some c
      else
        (let max_head_rank = max_rank_of ns s (sc_local_heads c @ sc_remote_heads c)
         in do {
           is_hot \<leftarrow> (case hint_rank of
                        None \<Rightarrow> Some True
                      | Some r \<Rightarrow> do { r' \<leftarrow> add_u64 r HOT_WINDOW_RANKS; Some (r' \<ge> max_head_rank) });
           Some (if is_hot then push_hot_back h c else c\<lparr>sc_missing_nodes_cold := sc_missing_nodes_cold c @ [h]\<rparr>)
         }))"

definition handle_sync_heads :: "('s, 'm) node_store_scheme \<Rightarrow> 's \<Rightarrow> sync_heads \<Rightarrow> sync_session \<Rightarrow> sync_session" where
  "handle_sync_heads ns s heads ss =
     (if sh_conversation_id heads \<noteq> ss_conversation_id ss then ss
      else on_common (\<lambda>c.
        let c1 = (case sh_anchor_hash heads of Some a \<Rightarrow> c\<lparr>sc_remote_anchor_hash := Some a\<rparr> | None \<Rightarrow> c)
        in fold (\<lambda>h c.
             let c2 = c\<lparr>sc_remote_heads := hs_insert h (sc_remote_heads c)\<rparr>
             in if untracked ns s c2 h then push_hot_back h c2 else c2) (sh_heads heads) c1) ss)"

text \<open>The parents of a node, once the limits of a shallow session have been passed.\<close>

fun enqueue_parents ::
    "('s, 'm) node_store_scheme \<Rightarrow> 's \<Rightarrow> merkle_node \<Rightarrow> node_hash list \<Rightarrow> session_common \<Rightarrow> session_common panics" where
  "enqueue_parents ns s n [] c = Some c"
| "enqueue_parents ns s n (p # ps) c =
     do {
       c1 \<leftarrow> (if untracked ns s c p
              then (if node_type_of n = Admin then Some (push_hot_front p c)
                    else enqueue_missing ns s p (Some (nd_topological_rank n - 1)) c)
              else Some c);
       enqueue_parents ns s n ps c1
     }"

definition is_snapshot :: "content \<Rightarrow> bool" where
  "is_snapshot ct = (case ct of Control (Snapshot _) \<Rightarrow> True | Control (AnchorSnapshot _ _) \<Rightarrow> True | _ \<Rightarrow> False)"

definition note_blob :: "(node_hash \<Rightarrow> bool) option \<Rightarrow> merkle_node \<Rightarrow> session_common \<Rightarrow> session_common" where
  "note_blob has_blob n c =
     (case (nd_content n, has_blob) of
        (Blob h _ _ _ _, Some has) \<Rightarrow> if \<not> has h then c\<lparr>sc_missing_blobs := hs_insert h (sc_missing_blobs c)\<rparr> else c
      | _ \<Rightarrow> c)"

text \<open>\<open>Inl\<close> for the early returns of a shallow session, \<open>Inr\<close> when the parents are to be looked at.\<close>

definition shallow_gate :: "merkle_node \<Rightarrow> session_common \<Rightarrow> (session_common + session_common) panics" where
  "shallow_gate n c =
     (if is_snapshot (nd_content n) \<and> sc_shallow c then Some (Inl c)
      else if sc_shallow c \<and> (nd_topological_rank n \<le> sc_min_rank c \<or> nd_network_timestamp n \<le> sc_min_timestamp c)
      then Some (Inl c)
      else if sc_shallow c \<and> sc_max_backfill_nodes c > 0 then
        do {
          cnt \<leftarrow> (if node_type_of n \<noteq> Admin then add_u64 (sc_backfill_count c) 1 else Some (sc_backfill_count c));
          let c1 = c\<lparr>sc_backfill_count := cnt\<rparr>;
          Some (if cnt \<ge> sc_max_backfill_nodes c1 then Inl c1 else Inr c1)
        }
      else Some (Inr c))"

definition ac_on_node_received ::
    "'e dag_env_scheme \<Rightarrow> ('s, 'm) node_store_scheme \<Rightarrow> 's \<Rightarrow> (node_hash \<Rightarrow> bool) option \<Rightarrow> merkle_node \<Rightarrow> sync_session
       \<Rightarrow> sync_session panics" where
  "ac_on_node_received env ns s has_blob n ss =
     do {
       h \<leftarrow> mn_hash env n;
       gate \<leftarrow> shallow_gate n (note_blob has_blob n (note_node ns s h n (ss_common ss)));
       c \<leftarrow> (case gate of Inl c \<Rightarrow> Some c | Inr c \<Rightarrow> enqueue_parents ns s n (nd_parents n) c);
       Some (ss\<lparr>ss_common := c\<rparr>)
     }"

section \<open>Fetching\<close>

text \<open>One of the three loops: the queue is popped until the batch is full or the queue is empty.\<close>

fun drain_queue :: "nat \<Rightarrow> node_hash list \<Rightarrow> node_hash list \<Rightarrow> node_hash list \<Rightarrow> node_hash list \<times> node_hash list \<times> node_hash list" where
  "drain_queue n [] fl hs = ([], fl, hs)"
| "drain_queue n (q # qs) fl hs =
     (if length hs < n
      then (if q \<notin> set fl then drain_queue n qs (hs_insert q fl) (hs @ [q]) else drain_queue n qs fl hs)
      else (q # qs, fl, hs))"

definition next_fetch_batch :: "nat \<Rightarrow> sync_session \<Rightarrow> fetch_batch_req option \<times> sync_session" where
  "next_fetch_batch n ss =
     (let c = ss_common ss;
          (admin, fl1, hs1) = drain_queue n (sc_missing_admin_nodes c) (sc_in_flight_fetches c) [];
          (hot, fl2, hs2) = drain_queue n (sc_missing_nodes_hot c) fl1 hs1;
          (cold, fl3, hs3) = drain_queue n (sc_missing_nodes_cold c) fl2 hs2;
          ss' = ss\<lparr>ss_common := c\<lparr>sc_missing_admin_nodes := admin, sc_missing_nodes_hot := hot, sc_missing_nodes_cold := cold,
                                 sc_in_flight_fetches := fl3\<rparr>\<rparr>
      in (if hs3 = [] then None else Some \<lparr>fb_conversation_id = ss_conversation_id ss, fb_hashes = hs3\<rparr>, ss'))"

section \<open>Sketches\<close>

definition reconciliation_text :: "reconciliation_error \<Rightarrow> string" where
  "reconciliation_text e = (case e of
     DecodingFailed _ \<Rightarrow> ''Decoding failed: sketch is not peelable (too many differences)''
   | InvalidSketch \<Rightarrow> ''Invalid sketch: cell count mismatch'')"

definition handle_sync_sketch_keyed ::
    "blake3 \<Rightarrow> ('s, 'm) node_store_scheme \<Rightarrow> 's \<Rightarrow> sync_sketch \<Rightarrow> bytes option \<Rightarrow> sync_session
       \<Rightarrow> (decoding_result merkle_result \<times> sync_session) panics" where
  "handle_sync_sketch_keyed b ns s sketch k_iblt ss =
     (if sk_conversation_id sketch \<noteq> ss_conversation_id ss then Some (Inr DecodeFailed, ss)
      else do {
        local_hashes \<leftarrow> ns_get_node_hashes_in_range ns s (ss_conversation_id ss) (sk_range sketch);
        (case local_hashes of
           Inl e \<Rightarrow> Some (Inl e, ss)
         | Inr hashes \<Rightarrow>
             do {
               local_iblt \<leftarrow> insert_all b (sketch_new_keyed (length (sk_sketch_cells sketch)) k_iblt) hashes;
               sub \<leftarrow> subtract (from_cells_keyed (sk_sketch_cells sketch) k_iblt) local_iblt;
               (case sub of
                  Inl e \<Rightarrow> Some (Inl (ReconciliationError (''Sketch subtraction failed: '' @ reconciliation_text e)), ss)
                | Inr remote_iblt \<Rightarrow>
                    do {
                      (decoded, _) \<leftarrow> decode b remote_iblt;
                      (case decoded of
                         Inr (missing_locally, missing_remotely, _) \<Rightarrow>
                           Some (Inr (DecodeSuccess missing_locally missing_remotely),
                                 on_common (queue_hot ns s missing_locally) ss)
                       | Inl _ \<Rightarrow> Some (Inr DecodeFailed, on_common (promote_iblt_tier (sk_range sketch)) ss))
                    })
             })
      })"

definition handle_sync_sketch ::
    "blake3 \<Rightarrow> ('s, 'm) node_store_scheme \<Rightarrow> 's \<Rightarrow> sync_sketch \<Rightarrow> sync_session
       \<Rightarrow> (decoding_result merkle_result \<times> sync_session) panics" where
  "handle_sync_sketch b ns s sketch ss = handle_sync_sketch_keyed b ns s sketch None ss"

definition handle_sync_recon_fail :: "sync_range \<Rightarrow> sync_session \<Rightarrow> sync_session" where
  "handle_sync_recon_fail rg = on_common (promote_iblt_tier rg)"

text \<open>Of the optional store the method \<^verbatim>\<open>get_admin_heads\<close> is used.\<close>

definition make_sync_heads_with_store :: "nat \<Rightarrow> (conversation_id \<Rightarrow> node_hash list) option \<Rightarrow> sync_session \<Rightarrow> sync_heads" where
  "make_sync_heads_with_store flags admin_heads ss =
     \<lparr>sh_conversation_id = ss_conversation_id ss, sh_heads = take MAX_HEADS_SYNC (sc_local_heads (ss_common ss)),
      sh_flags = flags,
      sh_anchor_hash = (case admin_heads of
          None \<Rightarrow> None
        | Some get \<Rightarrow> (case get (ss_conversation_id ss) of [] \<Rightarrow> None | h # _ \<Rightarrow> Some h))\<rparr>"

definition make_sync_heads :: "nat \<Rightarrow> sync_session \<Rightarrow> sync_heads" where
  "make_sync_heads flags ss = make_sync_heads_with_store flags None ss"

definition make_sync_sketch_keyed ::
    "blake3 \<Rightarrow> ('s, 'm) node_store_scheme \<Rightarrow> 's \<Rightarrow> sync_range \<Rightarrow> tier \<Rightarrow> bytes option \<Rightarrow> sync_session
       \<Rightarrow> sync_sketch merkle_result panics" where
  "make_sync_sketch_keyed b ns s rg t k_iblt ss =
     do {
       hashes \<leftarrow> ns_get_node_hashes_in_range ns s (ss_conversation_id ss) rg;
       (case hashes of
          Inl e \<Rightarrow> Some (Inl e)
        | Inr hs \<Rightarrow>
            do {
              iblt \<leftarrow> insert_all b (sketch_new_keyed (tier_cell_count t) k_iblt) hs;
              Some (Inr \<lparr>sk_conversation_id = ss_conversation_id ss, sk_sketch_cells = into_cells iblt, sk_range = rg\<rparr>)
            })
     }"

definition make_sync_sketch ::
    "blake3 \<Rightarrow> ('s, 'm) node_store_scheme \<Rightarrow> 's \<Rightarrow> sync_range \<Rightarrow> tier \<Rightarrow> sync_session \<Rightarrow> sync_sketch merkle_result panics" where
  "make_sync_sketch b ns s rg t ss = make_sync_sketch_keyed b ns s rg t None ss"

section \<open>Shards\<close>

definition shard_range :: "nat \<Rightarrow> sync_range" where
  "shard_range start = \<lparr>sr_min_rank = start, sr_max_rank = start + SHARD_SIZE - 1\<rparr>"

definition shard_starts :: "nat \<Rightarrow> nat list" where
  "shard_starts max_rank = map (\<lambda>i. SHARD_SIZE * i) [0..<Suc (max_rank div SHARD_SIZE)]"

fun shard_checksums ::
    "'e dag_env_scheme \<Rightarrow> ('s, 'm) node_store_scheme \<Rightarrow> 's \<Rightarrow> conversation_id \<Rightarrow> nat list
       \<Rightarrow> (sync_range \<times> bytes) list merkle_result panics" where
  "shard_checksums env ns s cid [] = Some (Inr [])"
| "shard_checksums env ns s cid (start # starts) =
     do {
       _ \<leftarrow> add_u64 start SHARD_SIZE;
       hashes \<leftarrow> ns_get_node_hashes_in_range ns s cid (shard_range start);
       (case hashes of
          Inl e \<Rightarrow> Some (Inl e)
        | Inr hs \<Rightarrow>
            do {
              rest \<leftarrow> shard_checksums env ns s cid starts;
              Some (case rest of
                      Inl e \<Rightarrow> Inl e
                    | Inr shards \<Rightarrow> Inr ((shard_range start, de_blake3 env (concat (sort hs))) # shards))
            })
     }"

definition make_sync_shard_checksums ::
    "'e dag_env_scheme \<Rightarrow> ('s, 'm) node_store_scheme \<Rightarrow> 's \<Rightarrow> sync_session \<Rightarrow> (sync_range \<times> bytes) list merkle_result panics" where
  "make_sync_shard_checksums env ns s ss =
     shard_checksums env ns s (ss_conversation_id ss)
       (shard_starts (max_rank_of ns s (ns_get_heads ns s (ss_conversation_id ss))))"

definition handle_sync_shard_checksums ::
    "'e dag_env_scheme \<Rightarrow> ('s, 'm) node_store_scheme \<Rightarrow> 's \<Rightarrow> (sync_range \<times> bytes) list \<Rightarrow> sync_session
       \<Rightarrow> sync_range list merkle_result panics" where
  "handle_sync_shard_checksums env ns s remote_shards ss =
     do {
       local_shards \<leftarrow> make_sync_shard_checksums env ns s ss;
       Some (case local_shards of
               Inl e \<Rightarrow> Inl e
             | Inr shards \<Rightarrow>
                 Inr (map fst (filter (\<lambda>(rg, checksum). fm_get (fm_from_iter shards) rg \<noteq> Some checksum) remote_shards)))
     }"

section \<open>Scheduling\<close>

definition has_fetchable_missing :: "session_common \<Rightarrow> bool" where
  "has_fetchable_missing c \<longleftrightarrow>
     list_ex (\<lambda>h. h \<notin> set (sc_in_flight_fetches c))
       (sc_missing_admin_nodes c @ sc_missing_nodes_hot c @ sc_missing_nodes_cold c)"

definition ac_next_wakeup :: "session_common \<Rightarrow> instant \<Rightarrow> instant" where
  "ac_next_wakeup c now =
     (let w1 = (if sc_heads_dirty c \<or> sc_recon_dirty c \<or> has_fetchable_missing c then now
                else inst_add now (from_secs 3600));
          w2 = fold (\<lambda>expiry w. min w (max expiry now)) (fm_values (sc_pending_challenges c)) w1;
          next_recon = inst_add (sc_last_recon_time c) RECONCILIATION_INTERVAL;
          w3 = (if next_recon > now then min w2 next_recon else w2)
      in case sc_rate_limited_until c of
           Some until \<Rightarrow> if until > now then min w3 until else w3
         | None \<Rightarrow> w3)"

section \<open>Puzzles\<close>

text \<open>The generator of the engine draws 32 bytes.\<close>

definition generate_challenge ::
    "('g \<Rightarrow> bytes \<times> 'g) \<Rightarrow> sync_sketch \<Rightarrow> instant \<Rightarrow> 'g \<Rightarrow> session_common \<Rightarrow> bytes \<times> 'g \<times> session_common" where
  "generate_challenge draw32 sketch now g c =
     (let (nonce, g') = draw32 g
      in (nonce, g',
          c\<lparr>sc_pending_challenges := fm_set (sc_pending_challenges c) nonce (inst_add now POW_CHALLENGE_TIMEOUT),
            sc_pending_sketches := fm_set (sc_pending_sketches c) nonce sketch\<rparr>))"

definition take_pending_sketch :: "bytes \<Rightarrow> session_common \<Rightarrow> sync_sketch option \<times> session_common" where
  "take_pending_sketch nonce c =
     (fm_get (sc_pending_sketches c) nonce, c\<lparr>sc_pending_sketches := fm_del (sc_pending_sketches c) nonce\<rparr>)"

definition solution_zeros :: "'e dag_env_scheme \<Rightarrow> bytes \<Rightarrow> nat \<Rightarrow> nat" where
  "solution_zeros env nonce solution = count_leading_zeros (de_blake3 env (nonce @ to_le_bytes (of_nat solution)))"

definition verify_solution ::
    "'e dag_env_scheme \<Rightarrow> bytes \<Rightarrow> nat \<Rightarrow> instant \<Rightarrow> session_common \<Rightarrow> bool \<times> session_common" where
  "verify_solution env nonce solution now c =
     (case fm_get (sc_pending_challenges c) nonce of
        None \<Rightarrow> (False, c)
      | Some expiry \<Rightarrow>
          if expiry < now then (False, c\<lparr>sc_pending_challenges := fm_del (sc_pending_challenges c) nonce\<rparr>)
          else if solution_zeros env nonce solution \<ge> sc_effective_difficulty c
          then (True, c\<lparr>sc_pending_challenges := fm_del (sc_pending_challenges c) nonce\<rparr>)
          else (False, c))"

definition update_difficulty_consensus :: "public_key \<Rightarrow> nat \<Rightarrow> session_common \<Rightarrow> session_common" where
  "update_difficulty_consensus voter difficulty c =
     (let c1 = c\<lparr>sc_difficulty_votes := fm_set (sc_difficulty_votes c) voter difficulty\<rparr>;
          votes = sort (fm_values (sc_difficulty_votes c1))
      in if votes = [] then c1\<lparr>sc_effective_difficulty := DEFAULT_RECON_DIFFICULTY\<rparr>
         else c1\<lparr>sc_effective_difficulty := votes ! (length votes div 2)\<rparr>)"

text \<open>The search for a solution: \<open>None\<close> when the counter overflows.\<close>

function solve_from :: "'e dag_env_scheme \<Rightarrow> bytes \<Rightarrow> nat \<Rightarrow> nat \<Rightarrow> nat panics" where
  "solve_from env nonce difficulty solution =
     (if solution_zeros env nonce solution \<ge> difficulty then Some solution
      else if solution < u64_max then solve_from env nonce difficulty (solution + 1) else None)"
  by pat_completeness auto
termination
  by (relation "measure (\<lambda>(_, _, _, solution). u64_max - solution)") auto

declare solve_from.simps [simp del]

definition solve_challenge :: "'e dag_env_scheme \<Rightarrow> bytes \<Rightarrow> nat \<Rightarrow> nat panics" where
  "solve_challenge env nonce difficulty = solve_from env nonce difficulty 0"

section \<open>New nodes\<close>

definition create_node ::
    "('s, 'm) node_lookup_scheme \<Rightarrow> 's \<Rightarrow> public_key \<Rightarrow> public_key \<Rightarrow> content \<Rightarrow> bytes \<Rightarrow> int \<Rightarrow> nat \<Rightarrow> sync_session
       \<Rightarrow> merkle_node panics" where
  "create_node ns s author_pk sender_pk ct metadata timestamp sequence_number ss =
     (let parents = sc_local_heads (ss_common ss)
      in do {
        rank \<leftarrow> (if parents = [] then Some 0 else add_u64 (max_rank_of ns s parents) 1);
        Some \<lparr>nd_parents = parents, nd_author_pk = author_pk, nd_sender_pk = sender_pk,
              nd_sequence_number = sequence_number, nd_topological_rank = rank, nd_network_timestamp = timestamp,
              nd_content = ct, nd_metadata = metadata, nd_authentication = EphemeralSignature (replicate 64 0),
              mn_pow_nonce = 0\<rparr>
      })"

section \<open>Either state\<close>

fun ps_conversation_id :: "peer_session \<Rightarrow> conversation_id" where
  "ps_conversation_id (Handshake ss) = ss_conversation_id ss"
| "ps_conversation_id (Active ss) = ss_conversation_id ss"

fun ps_common :: "peer_session \<Rightarrow> session_common" where
  "ps_common (Handshake ss) = ss_common ss"
| "ps_common (Active ss) = ss_common ss"

fun ps_common_mut :: "(session_common \<Rightarrow> session_common) \<Rightarrow> peer_session \<Rightarrow> peer_session" where
  "ps_common_mut f (Handshake ss) = Handshake (on_common f ss)"
| "ps_common_mut f (Active ss) = Active (on_common f ss)"

fun ps_on_node_received ::
    "'e dag_env_scheme \<Rightarrow> ('s, 'm) node_store_scheme \<Rightarrow> 's \<Rightarrow> (node_hash \<Rightarrow> bool) option \<Rightarrow> merkle_node \<Rightarrow> peer_session
       \<Rightarrow> peer_session panics" where
  "ps_on_node_received env ns s has_blob n (Handshake ss) = map_option Handshake (hs_on_node_received env ns s n ss)"
| "ps_on_node_received env ns s has_blob n (Active ss) = map_option Active (ac_on_node_received env ns s has_blob n ss)"

fun ps_on_wire_node_received ::
    "('s, 'm) node_store_scheme \<Rightarrow> 's \<Rightarrow> node_hash \<Rightarrow> wire_node \<Rightarrow> peer_session \<Rightarrow> peer_session" where
  "ps_on_wire_node_received ns s h w (Handshake ss) = Handshake ss"
| "ps_on_wire_node_received ns s h w (Active ss) = Active (on_wire_node_received ns s h w ss)"

fun ps_record_vouch :: "node_hash \<Rightarrow> public_key \<Rightarrow> peer_session \<Rightarrow> peer_session" where
  "ps_record_vouch h peer (Handshake ss) = Handshake (record_vouch h peer ss)"
| "ps_record_vouch h peer (Active ss) = Active (record_vouch h peer ss)"

fun ps_make_sync_heads :: "nat \<Rightarrow> peer_session \<Rightarrow> sync_heads" where
  "ps_make_sync_heads flags (Handshake ss) = hs_make_sync_heads ss flags"
| "ps_make_sync_heads flags (Active ss) = make_sync_heads flags ss"

section \<open>Batches\<close>

text \<open>The hashes of a queue that are still to be asked for, each once, in the order of the queue.\<close>

fun wanted :: "node_hash set \<Rightarrow> node_hash list \<Rightarrow> node_hash list" where
  "wanted fl [] = []"
| "wanted fl (q # qs) = (if q \<in> fl then wanted fl qs else q # wanted (insert q fl) qs)"

definition fetch_queue :: "session_common \<Rightarrow> node_hash list" where
  "fetch_queue c = sc_missing_admin_nodes c @ sc_missing_nodes_hot c @ sc_missing_nodes_cold c"

definition session_wants :: "sync_session \<Rightarrow> node_hash list" where
  "session_wants ss = wanted (set (sc_in_flight_fetches (ss_common ss))) (fetch_queue (ss_common ss))"

lemma wanted_append: "wanted fl (a @ b) = wanted fl a @ wanted (fl \<union> set a) b"
  by (induction a arbitrary: fl) (auto simp: insert_absorb)

lemma set_wanted: "set (wanted fl q) = set q - fl"
  by (induction q arbitrary: fl) auto

lemma distinct_wanted: "distinct (wanted fl q)"
  by (induction q arbitrary: fl) (auto simp: set_wanted)

lemma set_hs_insert [simp]: "set (hs_insert x xs) = insert x (set xs)"
  by (auto simp: hs_insert_def)

lemma drain_queue_wanted:
  assumes "length hs \<le> n"
  shows "case drain_queue n q fl hs of (q', fl', hs') \<Rightarrow>
    hs' = hs @ take (n - length hs) (wanted (set fl) q) \<and> set fl' = set fl \<union> set (take (n - length hs) (wanted (set fl) q)) \<and>
    wanted (set fl') q' = drop (n - length hs) (wanted (set fl) q) \<and> set fl' \<union> set q' = set fl \<union> set q"
  using assms
proof (induction q arbitrary: fl hs)
  case (Cons q qs)
  show ?case
  proof (cases "length hs < n \<and> q \<notin> set fl")
    case True
    then obtain m where m: "n - length hs = Suc m" "n - length (hs @ [q]) = m" by (cases "n - length hs") auto
    have "length (hs @ [q]) \<le> n" using True by simp
    from Cons.IH [OF this, of "hs_insert q fl"] show ?thesis
      using True unfolding m by (auto split: prod.splits)
  next
    case False
    then show ?thesis using Cons.IH [OF Cons.prems, of fl] Cons.prems by (auto split: prod.splits)
  qed
qed simp

text \<open>The three loops are one pass over the three queues in a row.\<close>

lemma drain_queue_full: "n \<le> length hs \<Longrightarrow> drain_queue n q fl hs = (q, fl, hs)"
  by (cases q) auto

lemma drain_queue_append:
  "drain_queue n (a @ b) fl hs =
     (case drain_queue n a fl hs of (q1, f1, h1) \<Rightarrow> case drain_queue n b f1 h1 of (q2, f2, h2) \<Rightarrow> (q1 @ q2, f2, h2))"
  by (induction a arbitrary: fl hs) (auto simp: drain_queue_full)

lemma next_fetch_batch_drain:
  assumes "next_fetch_batch n ss = (req, ss')"
  shows "drain_queue n (fetch_queue (ss_common ss)) (sc_in_flight_fetches (ss_common ss)) []
      = (fetch_queue (ss_common ss'), sc_in_flight_fetches (ss_common ss'), case req of None \<Rightarrow> [] | Some r \<Rightarrow> fb_hashes r)"
    "req \<noteq> None \<longleftrightarrow> (case req of None \<Rightarrow> [] | Some r \<Rightarrow> fb_hashes r) \<noteq> []"
    "pred_option (\<lambda>r. fb_conversation_id r = ss_conversation_id ss) req" "ss_conversation_id ss' = ss_conversation_id ss"
  using assms by (auto simp: next_fetch_batch_def fetch_queue_def drain_queue_append Let_def split: prod.splits if_splits)

lemma next_fetch_batch_wanted:
  assumes "next_fetch_batch n ss = (req, ss')"
  shows "(case req of None \<Rightarrow> [] | Some r \<Rightarrow> fb_hashes r) = take n (session_wants ss)"
    "session_wants ss' = drop n (session_wants ss)"
    "set (sc_in_flight_fetches (ss_common ss')) = set (sc_in_flight_fetches (ss_common ss)) \<union> set (take n (session_wants ss))"
  using drain_queue_wanted [where hs = "[]" and n = n and q = "fetch_queue (ss_common ss)" and fl = "sc_in_flight_fetches (ss_common ss)"]
    next_fetch_batch_drain(1) [OF assms]
  by (auto simp: session_wants_def)

text \<open>A session polled again and again.\<close>

fun fetch_run :: "nat \<Rightarrow> nat \<Rightarrow> sync_session \<Rightarrow> fetch_batch_req list \<times> sync_session" where
  "fetch_run n 0 ss = ([], ss)"
| "fetch_run n (Suc k) ss =
     (let (req, ss1) = next_fetch_batch n ss; (reqs, ss2) = fetch_run n k ss1
      in ((case req of None \<Rightarrow> [] | Some r \<Rightarrow> [r]) @ reqs, ss2))"

lemma fetch_run_wanted:
  assumes "fetch_run n k ss = (reqs, ss')"
  shows "concat (map fb_hashes reqs) = take (k * n) (session_wants ss) \<and> session_wants ss' = drop (k * n) (session_wants ss)"
  using assms
proof (induction k arbitrary: ss reqs ss')
  case (Suc k)
  obtain req ss1 where 1: "next_fetch_batch n ss = (req, ss1)" by (metis surj_pair)
  obtain rs ss2 where 2: "fetch_run n k ss1 = (rs, ss2)" by (metis surj_pair)
  have "concat (map fb_hashes reqs) = (case req of None \<Rightarrow> [] | Some r \<Rightarrow> fb_hashes r) @ concat (map fb_hashes rs)" "ss' = ss2"
    using Suc.prems 1 2 by (auto split: option.splits)
  then show ?case
    using Suc.IH [of ss1 rs] 2 next_fetch_batch_wanted [OF 1] by (simp add: take_add add.commute)
qed simp

section \<open>Puzzles\<close>

lemma solve_from_solves: "solve_from env nonce d m = Some k \<Longrightarrow> solution_zeros env nonce k \<ge> d \<and> m \<le> k \<and> (k \<le> u64_max \<or> k = m)"
proof (induction env nonce d m rule: solve_from.induct)
  case (1 env nonce d m)
  show ?case using 1 by (subst (asm) solve_from.simps) (auto split: if_splits)
qed

lemma solve_from_first: "solve_from env nonce d m = Some k \<Longrightarrow> m \<le> j \<Longrightarrow> j < k \<Longrightarrow> solution_zeros env nonce j < d"
proof (induction env nonce d m rule: solve_from.induct)
  case (1 env nonce d m)
  show ?case
    using "1.prems" "1.IH" by (cases "m = j"; subst (asm) solve_from.simps) (auto split: if_splits)
qed

lemma solve_from_finds:
  "m \<le> k \<Longrightarrow> k \<le> u64_max \<Longrightarrow> solution_zeros env nonce k \<ge> d \<Longrightarrow> solve_from env nonce d m \<noteq> None"
proof (induction env nonce d m rule: solve_from.induct)
  case (1 env nonce d m)
  show ?case using 1 by (subst solve_from.simps) (cases "m = k"; auto)
qed

lemma count_leading_zeros_le: "count_leading_zeros bs \<le> 8 * length bs"
proof (induction bs)
  case (Cons b bs)
  have "byte_leading_zeros b \<le> 8"
    using length_takeWhile_le [of "\<lambda>i. \<not> bit b i" "[7, 6, 5, 4, 3, 2, 1, 0]"] by (simp add: byte_leading_zeros_def)
  with Cons show ?case by simp
qed simp

lemma solve_challenge_first:
  "solve_challenge env nonce d = Some k \<longleftrightarrow>
     k \<le> u64_max \<and> d \<le> solution_zeros env nonce k \<and> (\<forall>j < k. solution_zeros env nonce j < d)"
proof
  assume "solve_challenge env nonce d = Some k"
  then show "k \<le> u64_max \<and> d \<le> solution_zeros env nonce k \<and> (\<forall>j < k. solution_zeros env nonce j < d)"
    using solve_from_solves [of env nonce d 0 k] solve_from_first [of env nonce d 0 k] by (auto simp: solve_challenge_def)
next
  assume k: "k \<le> u64_max \<and> d \<le> solution_zeros env nonce k \<and> (\<forall>j < k. solution_zeros env nonce j < d)"
  then obtain k' where k': "solve_from env nonce d 0 = Some k'" using solve_from_finds [where m = 0 and k = k and env = env and nonce = nonce and d = d] by auto
  have "d \<le> solution_zeros env nonce k'" "\<And>j. j < k' \<Longrightarrow> solution_zeros env nonce j < d"
    using solve_from_solves [OF k'] solve_from_first [OF k'] by auto
  then have "k' = k" using k by (metis leD linorder_neqE_nat)
  then show "solve_challenge env nonce d = Some k" using k' by (simp add: solve_challenge_def)
qed

lemma solve_challenge_None: "solve_challenge env nonce d = None \<longleftrightarrow> (\<forall>k \<le> u64_max. solution_zeros env nonce k < d)"
proof -
  have "solution_zeros env nonce k < d" if "solve_challenge env nonce d = None" "k \<le> u64_max" for k
    using solve_from_finds [where m = 0 and k = k and env = env and nonce = nonce and d = d] that
    by (auto simp: solve_challenge_def simp flip: not_le)
  moreover have "solve_challenge env nonce d = None" if "\<forall>k \<le> u64_max. solution_zeros env nonce k < d"
  proof (rule ccontr)
    assume "solve_challenge env nonce d \<noteq> None"
    then obtain k where "solve_challenge env nonce d = Some k" by blast
    then show False using that by (auto simp: solve_challenge_first simp flip: not_le)
  qed
  ultimately show ?thesis by blast
qed

text \<open>An accepted solution leaves the challenge, so it is accepted once.\<close>

lemma verify_solution_true:
  assumes "verify_solution env nonce solution now c = (True, c')" "fm_wf (sc_pending_challenges c)"
  shows "(\<exists>expiry. fm_get (sc_pending_challenges c) nonce = Some expiry \<and> now \<le> expiry)
    \<and> solution_zeros env nonce solution \<ge> sc_effective_difficulty c \<and> fm_get (sc_pending_challenges c') nonce = None"
  using assms by (auto simp: verify_solution_def not_less split: option.splits if_splits)

section \<open>The difficulty is the median of the votes\<close>

lemma sorted_middle_le:
  assumes "sorted xs" "xs \<noteq> []" "2 * length (filter (\<lambda>x. P x) xs) > length xs" "\<And>x y. x \<le> y \<Longrightarrow> P y \<Longrightarrow> P x"
  shows "P (xs ! (length xs div 2))"
proof (rule ccontr)
  let ?m = "length xs div 2"
  assume n: "\<not> P (xs ! ?m)"
  have "\<not> P (xs ! i)" if "?m \<le> i" "i < length xs" for i
    using assms(4) [OF sorted_nth_mono [OF assms(1) that]] n by blast
  then have "filter P xs = filter P (take ?m xs)"
    by (subst append_take_drop_id [of ?m xs, symmetric], subst filter_append)
      (auto simp: filter_empty_conv in_set_conv_nth)
  then have "length (filter P xs) \<le> ?m" using length_filter_le [of P "take ?m xs"] by simp
  then show False using assms(3) by linarith
qed


lemma sorted_middle_ge:
  assumes "sorted xs" "xs \<noteq> []" "2 * length (filter (\<lambda>x. P x) xs) > length xs" "\<And>x y. x \<le> y \<Longrightarrow> P x \<Longrightarrow> P y"
  shows "P (xs ! (length xs div 2))"
proof (rule ccontr)
  let ?m = "length xs div 2"
  assume n: "\<not> P (xs ! ?m)"
  have m: "?m < length xs" using assms(2) by (simp add: length_greater_0_conv [symmetric] del: length_greater_0_conv)
  have "\<not> P (xs ! i)" if "i \<le> ?m" for i
    using assms(4) [OF sorted_nth_mono [OF assms(1) that m]] n by blast
  then have "filter P (take (Suc ?m) xs) = []" by (auto simp: filter_empty_conv in_set_conv_nth)
  then have "filter P xs = filter P (drop (Suc ?m) xs)"
    by (subst append_take_drop_id [of "Suc ?m" xs, symmetric], subst filter_append) simp
  then have "length (filter P xs) \<le> length xs - Suc ?m" using length_filter_le [of P "drop (Suc ?m) xs"] by simp
  then show False using assms(3) by linarith
qed

text \<open>What more than half of the votes say, the difficulty says.\<close>

lemma length_filter_le_filter: "(\<And>x. P x \<Longrightarrow> Q x) \<Longrightarrow> length (filter P xs) \<le> length (filter Q xs)"
  by (induction xs) (auto simp: le_SucI)

lemma difficulty_median:
  assumes "votes = fm_values (fm_set (sc_difficulty_votes c) v d)"
    "2 * length (filter (\<lambda>x. lo \<le> x \<and> x \<le> hi) votes) > length votes"
  shows "lo \<le> sc_effective_difficulty (update_difficulty_consensus v d c)"
    "sc_effective_difficulty (update_difficulty_consensus v d c) \<le> hi"
proof -
  have ne: "sort votes \<noteq> []" using assms(2) by (metis filter.simps(1) gr_implies_not0 length_0_conv mult_0_right set_empty set_sort)
  have many: "2 * length (filter P (sort votes)) > length (sort votes)" if "\<And>x. lo \<le> x \<and> x \<le> hi \<Longrightarrow> P x" for P
  proof -
    have "length (filter P (sort votes)) = length (filter P votes)" by (metis mset_filter mset_sort size_mset)
    then show ?thesis using length_filter_le_filter [of "\<lambda>x. lo \<le> x \<and> x \<le> hi" P votes] that assms(2) by simp
  qed
  have eq: "sc_effective_difficulty (update_difficulty_consensus v d c) = sort votes ! (length (sort votes) div 2)"
    using ne assms(1) by (simp add: update_difficulty_consensus_def Let_def)
  show "lo \<le> sc_effective_difficulty (update_difficulty_consensus v d c)"
    unfolding eq by (rule sorted_middle_ge [OF sorted_sort ne many]) auto
  show "sc_effective_difficulty (update_difficulty_consensus v d c) \<le> hi"
    unfolding eq by (rule sorted_middle_le [OF sorted_sort ne many]) auto
qed

section \<open>Wakeups\<close>

lemma fold_min_bounds:
  "fold (\<lambda>e w. min w (max e now)) es w \<le> w \<and> (now \<le> w \<longrightarrow> now \<le> fold (\<lambda>e w. min w (max e now)) es w)" for now :: int
proof (induction es arbitrary: w)
  case (Cons e es)
  from Cons.IH [of "min w (max e now)"] show ?case by auto
qed simp

lemma ac_next_wakeup_bounds: "now \<le> ac_next_wakeup c now \<and> ac_next_wakeup c now \<le> inst_add now (from_secs 3600)"
proof -
  let ?w = "if sc_heads_dirty c \<or> sc_recon_dirty c \<or> has_fetchable_missing c then now else inst_add now (from_secs 3600)"
  have "now \<le> ?w" "?w \<le> inst_add now (from_secs 3600)" by (auto simp: inst_add_def)
  with fold_min_bounds [of now "fm_values (sc_pending_challenges c)" ?w] show ?thesis
    unfolding ac_next_wakeup_def Let_def by (auto split: option.splits)
qed

lemma ac_next_wakeup_now:
  "sc_heads_dirty c \<or> sc_recon_dirty c \<or> session_wants \<lparr>ss_conversation_id = cid, ss_common = c\<rparr> \<noteq> [] \<Longrightarrow> ac_next_wakeup c now = now"
proof -
  have wants: "has_fetchable_missing c \<longleftrightarrow> set (fetch_queue c) - set (sc_in_flight_fetches c) \<noteq> {}"
    by (auto simp: has_fetchable_missing_def fetch_queue_def list_ex_iff)
  assume "sc_heads_dirty c \<or> sc_recon_dirty c \<or> session_wants \<lparr>ss_conversation_id = cid, ss_common = c\<rparr> \<noteq> []"
  moreover have "session_wants \<lparr>ss_conversation_id = cid, ss_common = c\<rparr> \<noteq> [] \<Longrightarrow> has_fetchable_missing c"
    unfolding wants by (metis select_convs(1) session_wants_def set_empty set_wanted sync_session.select_convs(2))
  ultimately have "sc_heads_dirty c \<or> sc_recon_dirty c \<or> has_fetchable_missing c" by blast
  then have "ac_next_wakeup c now \<le> now"
    using fold_min_bounds [of now "fm_values (sc_pending_challenges c)" now]
    unfolding ac_next_wakeup_def Let_def by (auto split: option.splits)
  with ac_next_wakeup_bounds [of now c] show ?thesis by simp
qed

section \<open>Shards\<close>

text \<open>Node hashes have 32 bytes, so the concatenation of sorted hashes determines them.\<close>

lemma concat_blocks: "\<forall>x \<in> set xs. length x = n \<Longrightarrow> \<forall>y \<in> set ys. length y = n \<Longrightarrow> 0 < n \<Longrightarrow> concat xs = concat ys \<Longrightarrow> xs = ys"
proof (induction xs arbitrary: ys)
  case Nil
  then show ?case by (cases ys) auto
next
  case (Cons x xs)
  have "x \<noteq> []" using Cons.prems(1,3) by auto
  then obtain y zs where ys: "ys = y # zs" using Cons.prems(4) by (cases ys) simp_all
  have "length x = length y" using Cons.prems(1,2) ys by simp
  then have "x = y" "concat xs = concat zs" using Cons.prems(4) ys by simp_all
  then show ?case using Cons.IH [of zs] Cons.prems ys by simp
qed

lemma shard_checksums_map:
  assumes "shard_checksums env ns s cid starts = Some (Inr shards)"
  shows "shards = map (\<lambda>st. (shard_range st, de_blake3 env (concat (sort
      (case ns_get_node_hashes_in_range ns s cid (shard_range st) of Some (Inr hs) \<Rightarrow> hs | _ \<Rightarrow> []))))) starts"
    "\<forall>st \<in> set starts. \<exists>hs. ns_get_node_hashes_in_range ns s cid (shard_range st) = Some (Inr hs)"
proof -
  have "shards = map (\<lambda>st. (shard_range st, de_blake3 env (concat (sort
      (case ns_get_node_hashes_in_range ns s cid (shard_range st) of Some (Inr hs) \<Rightarrow> hs | _ \<Rightarrow> []))))) starts \<and>
    (\<forall>st \<in> set starts. \<exists>hs. ns_get_node_hashes_in_range ns s cid (shard_range st) = Some (Inr hs))"
    using assms
  proof (induction starts arbitrary: shards)
    case (Cons st starts)
    obtain r q where r: "ns_get_node_hashes_in_range ns s cid (shard_range st) = Some r"
      and q: "\<not> isl r \<longrightarrow> shard_checksums env ns s cid starts = Some q"
      using Cons.prems by (cases "ns_get_node_hashes_in_range ns s cid (shard_range st)"; cases "shard_checksums env ns s cid starts")
        (auto simp: bind_eq_Some_conv split: sum.splits)
    obtain hs where hs: "r = Inr hs" using Cons.prems r by (cases r) (auto simp: bind_eq_Some_conv)
    obtain rest where rest: "q = Inr rest" using Cons.prems r q hs by (cases q) (auto simp: bind_eq_Some_conv)
    have "shards = (shard_range st, de_blake3 env (concat (sort hs))) # rest"
      using Cons.prems r q hs rest by (auto simp: bind_eq_Some_conv)
    with Cons.IH [of rest] r q hs rest show ?case by simp
  qed simp
  then show "shards = map (\<lambda>st. (shard_range st, de_blake3 env (concat (sort
      (case ns_get_node_hashes_in_range ns s cid (shard_range st) of Some (Inr hs) \<Rightarrow> hs | _ \<Rightarrow> []))))) starts"
    "\<forall>st \<in> set starts. \<exists>hs. ns_get_node_hashes_in_range ns s cid (shard_range st) = Some (Inr hs)" by blast+
qed

lemma inj_shard_range: "shard_range a = shard_range b \<longleftrightarrow> a = b"
  by (auto simp: shard_range_def)

lemma set_shard_starts: "st \<in> set (shard_starts m) \<longleftrightarrow> SHARD_SIZE dvd st \<and> st \<le> m"
proof
  assume "st \<in> set (shard_starts m)"
  then show "SHARD_SIZE dvd st \<and> st \<le> m" by (auto simp: shard_starts_def SHARD_SIZE_def less_Suc_eq_le)
next
  assume a: "SHARD_SIZE dvd st \<and> st \<le> m"
  then have "st = SHARD_SIZE * (st div SHARD_SIZE)" "st div SHARD_SIZE \<le> m div SHARD_SIZE" by (auto intro: div_le_mono)
  then show "st \<in> set (shard_starts m)" unfolding shard_starts_def by (auto simp: less_Suc_eq_le simp del: upt_Suc)
qed

lemma distinct_shard_starts: "distinct (shard_starts m)"
  by (auto simp: shard_starts_def distinct_map inj_on_def SHARD_SIZE_def simp del: upt_Suc)

definition range_hashes :: "('s, 'm) node_store_scheme \<Rightarrow> 's \<Rightarrow> conversation_id \<Rightarrow> sync_range \<Rightarrow> node_hash list" where
  "range_hashes ns s cid rg = (case ns_get_node_hashes_in_range ns s cid rg of Some (Inr hs) \<Rightarrow> hs | _ \<Rightarrow> [])"

definition shard_data :: "('s, 'm) node_store_scheme \<Rightarrow> 's \<Rightarrow> conversation_id \<Rightarrow> sync_range \<Rightarrow> bytes" where
  "shard_data ns s cid rg = concat (sort (range_hashes ns s cid rg))"

lemma make_shards:
  assumes "make_sync_shard_checksums env ns s ss = Some (Inr shards)"
  obtains starts where "distinct starts" "shards = map (\<lambda>st. (shard_range st,
      de_blake3 env (shard_data ns s (ss_conversation_id ss) (shard_range st)))) starts"
  using shard_checksums_map [OF assms [unfolded make_sync_shard_checksums_def]] distinct_shard_starts
  by (intro that) (auto simp: shard_data_def range_hashes_def)

lemma fm_from_iter_distinct: "distinct (map fst xs) \<Longrightarrow> fm_from_iter xs = xs"
proof (induction xs rule: rev_induct)
  case (snoc x xs)
  then have "fm_get xs (fst x) = None" by (auto simp: fm_get_None_iff)
  with snoc show ?case by (cases x) (simp add: fm_from_iter_def fm_set_def [symmetric] fm_set_fresh)
qed (simp add: fm_from_iter_def fm_new_def)

text \<open>Two lists of node hashes with the same data are the same but for their order.\<close>

lemma same_shard_data:
  assumes "\<forall>h \<in> set xs \<union> set ys. length h = 32"
  shows "concat (sort xs) = concat (sort ys) \<longleftrightarrow> mset xs = mset ys"
proof
  assume "concat (sort xs) = concat (sort ys)"
  then have "sort xs = sort ys" by (rule concat_blocks [where n = 32, rotated 3]) (use assms in auto)
  then show "mset xs = mset ys" by (metis mset_sort)
next
  assume "mset xs = mset ys"
  then have "sort xs = sort ys" by (metis mset_sort properties_for_sort sorted_sort)
  then show "concat (sort xs) = concat (sort ys)" by simp
qed

lemma shards_differ:
  assumes "make_sync_shard_checksums env ns s ss = Some (Inr shards)"
    "make_sync_shard_checksums env ns' s' ss' = Some (Inr remote)" "ss_conversation_id ss' = ss_conversation_id ss"
    "\<forall>rg. \<forall>h \<in> set (range_hashes ns s (ss_conversation_id ss) rg) \<union> set (range_hashes ns' s' (ss_conversation_id ss) rg). length h = 32"
    "\<forall>rg. de_blake3 env (shard_data ns s (ss_conversation_id ss) rg) = de_blake3 env (shard_data ns' s' (ss_conversation_id ss) rg)
       \<longrightarrow> shard_data ns s (ss_conversation_id ss) rg = shard_data ns' s' (ss_conversation_id ss) rg"
  shows "handle_sync_shard_checksums env ns s remote ss = Some (Inr (filter (\<lambda>rg. rg \<notin> fst ` set shards
      \<or> mset (range_hashes ns s (ss_conversation_id ss) rg) \<noteq> mset (range_hashes ns' s' (ss_conversation_id ss) rg)) (map fst remote)))"
proof -
  let ?cid = "ss_conversation_id ss"
  obtain sl where sl: "distinct sl" "shards = map (\<lambda>st. (shard_range st, de_blake3 env (shard_data ns s ?cid (shard_range st)))) sl"
    using make_shards [OF assms(1)] .
  obtain sr where sr: "remote = map (\<lambda>st. (shard_range st, de_blake3 env (shard_data ns' s' ?cid (shard_range st)))) sr"
    using make_shards [OF assms(2)] assms(3) by metis
  have "distinct (map fst shards)" using sl by (simp add: distinct_map o_def inj_on_def inj_shard_range)
  then have m: "fm_get (fm_from_iter shards) = map_of shards" by (simp add: fm_from_iter_distinct fm_get_eq_map_of)
  have get: "map_of shards (shard_range st) = (if st \<in> set sl then Some (de_blake3 env (shard_data ns s ?cid (shard_range st))) else None)" for st
    unfolding sl(2) by (induction sl) (auto simp: inj_shard_range)
  have key: "map_of shards (shard_range st) \<noteq> Some (de_blake3 env (shard_data ns' s' ?cid (shard_range st))) \<longleftrightarrow>
      shard_range st \<notin> fst ` set shards \<or> mset (range_hashes ns s ?cid (shard_range st)) \<noteq> mset (range_hashes ns' s' ?cid (shard_range st))" for st
  proof -
    have "shard_range st \<in> fst ` set shards \<longleftrightarrow> st \<in> set sl" unfolding sl(2) by (force simp: inj_shard_range)
    moreover have "de_blake3 env (shard_data ns s ?cid (shard_range st)) = de_blake3 env (shard_data ns' s' ?cid (shard_range st))
        \<longleftrightarrow> mset (range_hashes ns s ?cid (shard_range st)) = mset (range_hashes ns' s' ?cid (shard_range st))"
      using assms(5) same_shard_data [OF spec [OF assms(4), of "shard_range st"]] by (metis shard_data_def)
    ultimately show ?thesis unfolding get by auto
  qed
  show ?thesis
    using assms(1) key by (simp add: handle_sync_shard_checksums_def m sr filter_map o_def)
qed

section \<open>One node apart\<close>

lemma queue_hot_single:
  assumes "untracked ns s c x"
  shows "x \<in> set (sc_missing_nodes_hot (queue_hot ns s [x] c))" "x \<notin> set (sc_in_flight_fetches (queue_hot ns s [x] c))"
  using assms by (auto simp: queue_hot_def push_hot_back_def untracked_def)

text \<open>Inserting ids into a table whose counters are far from the ends of \<^verbatim>\<open>i32\<close> does not panic.\<close>

lemma update_cells_defined:
  assumes "distinct is" "set is \<subseteq> {..<length cells}" "\<forall>i \<in> set is. \<bar>cell_count (cells ! i)\<bar> \<le> 2 ^ 30"
  shows "\<exists>cells'. update_cells is nid h 1 cells = Some cells'"
  using assms
proof (induction "is" arbitrary: cells)
  case (Cons i "is")
  have "\<bar>cell_count (cells ! i)\<bar> \<le> 2 ^ 30" using Cons.prems(3) by simp
  then have "i32 (cell_count (cells ! i) + 1) = Some (cell_count (cells ! i) + 1)" by (auto simp: i32_def)
  then obtain c' where c': "cell_update nid h 1 (cells ! i) = Some c'" by (simp add: cell_update_def)
  have "\<exists>cells'. update_cells is nid h 1 (cells[i := c']) = Some cells'"
    using Cons.prems by (intro Cons.IH) (auto simp: nth_list_update)
  with c' Cons.prems(2) show ?case by (simp add: index_at_def)
qed simp

lemma sketch_insert_small:
  assumes "cells_small n (sk_cells sk)" "n \<le> 2 ^ 30" "draws_enough b sk y"
  obtains sk' where "sketch_insert b sk y = Some sk'" "cells_small (Suc n) (sk_cells sk')" "same_shape_sk sk sk'"
proof -
  obtain "is" where "is": "get_indices b sk y = Some is" using get_indices_total [OF assms(3)] by blast
  have "\<forall>i \<in> set is. \<bar>cell_count (sk_cells sk ! i)\<bar> \<le> 2 ^ 30"
    using assms(1,2) get_indices_sound(3) [OF "is"] by (fastforce simp: cells_small_def)
  from update_cells_defined [OF get_indices_sound(2,3) [OF "is"] this, of y "get_checksum b sk y"]
  obtain sk' where sk': "sketch_update b sk y 1 = Some sk'" by (auto simp: sketch_update_def "is")
  have eq: "sk' = sk\<lparr>sk_cells := add_entry b sk (y, 1) (sk_cells sk)\<rparr>" by (rule sketch_update_eq [OF sk'])
  have "cells_small (Suc n) (sk_cells sk')"
    using assms(1) by (fastforce simp: cells_small_def eq add_entry_def add_at_def cell_add_def)
  then show ?thesis using that [of sk'] sk' by (simp add: sketch_insert_def eq)
qed

lemma same_shape_draws: "same_shape_sk sk sk' \<Longrightarrow> draws_enough b sk' y = draws_enough b sk y"
  by (simp add: draws_enough_def same_shape_sk_def)

lemma insert_all_defined:
  assumes "cells_small n (sk_cells sk)" "n + length xs \<le> 2 ^ 30" "\<forall>y \<in> set xs. draws_enough b sk y"
  shows "\<exists>sk'. insert_all b sk xs = Some sk' \<and> cells_small (n + length xs) (sk_cells sk')"
  using assms
proof (induction xs arbitrary: n sk)
  case (Cons y xs)
  obtain sk1 where sk1: "sketch_insert b sk y = Some sk1" "cells_small (Suc n) (sk_cells sk1)" "same_shape_sk sk sk1"
    by (rule sketch_insert_small [of n sk b y]) (use Cons.prems in auto)
  have "\<exists>sk'. insert_all b sk1 xs = Some sk' \<and> cells_small (Suc n + length xs) (sk_cells sk')"
    using Cons.prems sk1 by (intro Cons.IH) (auto simp: same_shape_draws [OF sk1(3)])
  with sk1(1) show ?case by simp
qed simp

lemma one_apart:
  assumes "ss_conversation_id ss' = ss_conversation_id ss"
    "ns_get_node_hashes_in_range ns' s' (ss_conversation_id ss) rg = Some (Inr ys)"
    "ns_get_node_hashes_in_range ns s (ss_conversation_id ss) rg = Some (Inr xs)" "mset ys = mset xs + {#x#}"
    "\<forall>y \<in> set ys. length y = 32 \<and> draws_enough b (sketch_new_keyed (tier_cell_count t) key) y" "length xs < 2 ^ 29"
  shows "\<exists>sketch. make_sync_sketch_keyed b ns' s' rg t key ss' = Some (Inr sketch) \<and>
    handle_sync_sketch_keyed b ns s sketch key ss = Some (Inr (DecodeSuccess [x] []), on_common (queue_hot ns s [x]) ss)"
proof -
  let ?n = "tier_cell_count t" and ?z = "sketch_new_keyed (tier_cell_count t) key"
  have z: "cells_small 0 (sk_cells ?z)" by (simp add: cells_small_def sketch_new_keyed_def cell_default_def)
  have len: "length ys = Suc (length xs)" using arg_cong [OF assms(4), of size] by simp
  have sub: "set xs \<subseteq> set ys" using arg_cong [OF assms(4), of set_mset] by auto
  obtain skA where A: "insert_all b ?z ys = Some skA" "cells_small (length ys) (sk_cells skA)"
    using insert_all_defined [OF z, of ys b] assms(5,6) len by auto
  obtain skB where B: "insert_all b ?z xs = Some skB" "cells_small (length xs) (sk_cells skB)"
    using insert_all_defined [OF z, of xs b] assms(5,6) sub by auto
  have skA: "skA = from_cells_keyed (sk_cells skA) key" and lenA: "length (sk_cells skA) = ?n"
    using insert_all_eq [OF A(1)] by (simp_all add: sketch_new_keyed_def from_cells_keyed_def)
  have lenB: "length (sk_cells skB) = ?n" using insert_all_eq [OF B(1)] by (simp add: sketch_new_keyed_def)
  have "\<exists>cs. subtract_cells (sk_cells skA) (sk_cells skB) = Some cs"
    using A(2) B(2) assms(6) len by (intro subtract_cells_defined) (fastforce simp: cells_small_def in_set_conv_nth)+
  then obtain d where S: "subtract skA skB = Some (Inr d)" using lenA lenB by (auto simp: subtract_def)
  have "0 < ?n" by (cases t) simp_all
  with reconcile_single_difference [OF A(1) B(1) assms(4) S] assms(5) arg_cong [OF assms(4), of set_mset]
  obtain stats sk' where d: "decode b d = Some (Inr ([x], [], stats), sk')" by auto
  let ?sk = "\<lparr>sk_conversation_id = ss_conversation_id ss, sk_sketch_cells = sk_cells skA, sk_range = rg\<rparr>"
  have "make_sync_sketch_keyed b ns' s' rg t key ss' = Some (Inr ?sk)"
    using assms(1,2) A(1) by (simp add: make_sync_sketch_keyed_def into_cells_def)
  moreover have "handle_sync_sketch_keyed b ns s ?sk key ss = Some (Inr (DecodeSuccess [x] []), on_common (queue_hot ns s [x]) ss)"
    using assms(3) B(1) S skA [symmetric] d by (simp add: handle_sync_sketch_keyed_def lenA)
  ultimately show ?thesis by blast
qed

section \<open>Sketch sizes grow three times\<close>

lemma promote_tiers:
  assumes "fm_wf (sc_iblt_tiers c)"
  shows "get_iblt_tier (promote_iblt_tier rg c) rg =
    (case get_iblt_tier c rg of None \<Rightarrow> None | Some t \<Rightarrow> next_tier t)" "fm_wf (sc_iblt_tiers (promote_iblt_tier rg c))"
  using assms
  by (auto simp: get_iblt_tier_def promote_iblt_tier_def fm_wf_set fm_wf_del hs_insert_def split: option.splits)

end
