(* ===== verification/Conversation.thy ===== *)
theory Conversation
  imports Dag_Wire Flat_Map
begin

text \<open>
  \<^verbatim>\<open>merkle-tox-core/src/engine/conversation.rs\<close>: the key state of a conversation. Every sender has a
  chain of keys per epoch; a message key is derived from the chain key, which then moves one step.
  The upper half of a sequence number is the epoch, the lower half counts the sender's nodes from 1.
  Keys of messages that were skipped are kept for a day, so that messages may arrive in any order.
\<close>

definition sub_i64 :: "int \<Rightarrow> int \<Rightarrow> int panics" where
  "sub_i64 a b = (if i64_ok (a - b) then Some (a - b) else None)"

definition FLAG_ADMIN_ONLY_INVITE :: nat where "FLAG_ADMIN_ONLY_INVITE = 1"
definition FLAG_MEMBER_INVITE :: nat where "FLAG_MEMBER_INVITE = 2"

section \<open>State\<close>

type_synonym voucher_map = "(node_hash, (public_key, int) flat_map) flat_map"

record pending_state =
  pd_speculative_nodes :: "node_hash list"
  pd_vouchers :: voucher_map
  pd_genesis_flags :: nat

record established =
  ed_epochs :: "(nat, conversation_keys) flat_map"
  ed_sender_ratchets :: "(public_key, nat \<times> bytes \<times> node_hash option \<times> nat) flat_map"
  ed_skipped_keys :: "(public_key \<times> nat, bytes \<times> int) flat_map"
  ed_current_epoch :: nat
  ed_message_count :: nat
  ed_last_rotation_time_ms :: int
  ed_vouchers :: voucher_map
  ed_sender_keys :: "(public_key \<times> nat, bytes) flat_map"
  ed_shared_keys_sent_to :: "public_key list"
  ed_jit_headers :: "(public_key \<times> nat, bytes) flat_map"
  ed_identity_pending :: bool
  ed_genesis_flags :: nat
  ed_self_message_count :: nat
  ed_self_last_rekey_time_ms :: int

datatype conversation = ConvPending conversation_id pending_state | ConvEstablished conversation_id established

fun conv_id :: "conversation \<Rightarrow> conversation_id" where
  "conv_id (ConvPending cid _) = cid"
| "conv_id (ConvEstablished cid _) = cid"

fun is_established :: "conversation \<Rightarrow> bool" where
  "is_established (ConvPending _ _) = False"
| "is_established (ConvEstablished _ _) = True"

fun conv_genesis_flags :: "conversation \<Rightarrow> nat" where
  "conv_genesis_flags (ConvPending _ p) = pd_genesis_flags p"
| "conv_genesis_flags (ConvEstablished _ e) = ed_genesis_flags e"

fun set_genesis_flags :: "conversation \<Rightarrow> nat \<Rightarrow> conversation" where
  "set_genesis_flags (ConvPending cid p) flags = ConvPending cid (p\<lparr>pd_genesis_flags := flags\<rparr>)"
| "set_genesis_flags (ConvEstablished cid e) flags = ConvEstablished cid (e\<lparr>ed_genesis_flags := flags\<rparr>)"

fun conv_vouchers :: "conversation \<Rightarrow> voucher_map" where
  "conv_vouchers (ConvPending _ p) = pd_vouchers p"
| "conv_vouchers (ConvEstablished _ e) = ed_vouchers e"

fun conv_set_vouchers :: "conversation \<Rightarrow> voucher_map \<Rightarrow> conversation" where
  "conv_set_vouchers (ConvPending cid p) v = ConvPending cid (p\<lparr>pd_vouchers := v\<rparr>)"
| "conv_set_vouchers (ConvEstablished cid e) v = ConvEstablished cid (e\<lparr>ed_vouchers := v\<rparr>)"

definition pending_new :: pending_state where
  "pending_new = \<lparr>pd_speculative_nodes = [], pd_vouchers = fm_new, pd_genesis_flags = 0\<rparr>"

definition establish :: "'e wire_env_scheme \<Rightarrow> pending_state \<Rightarrow> bytes \<Rightarrow> int \<Rightarrow> nat \<Rightarrow> established" where
  "establish env p initial_k_conv now_ms epoch =
     \<lparr>ed_epochs = fm_set fm_new epoch (ck_derive env initial_k_conv), ed_sender_ratchets = fm_new,
      ed_skipped_keys = fm_new, ed_current_epoch = epoch, ed_message_count = 0, ed_last_rotation_time_ms = now_ms,
      ed_vouchers = pd_vouchers p, ed_sender_keys = fm_new, ed_shared_keys_sent_to = [], ed_jit_headers = fm_new,
      ed_identity_pending = False, ed_genesis_flags = pd_genesis_flags p, ed_self_message_count = 0,
      ed_self_last_rekey_time_ms = now_ms\<rparr>"

definition record_speculative :: "pending_state \<Rightarrow> node_hash \<Rightarrow> pending_state" where
  "record_speculative p h =
     p\<lparr>pd_speculative_nodes := (if h \<in> set (pd_speculative_nodes p) then pd_speculative_nodes p
                               else pd_speculative_nodes p @ [h])\<rparr>"

definition established_new :: "'e wire_env_scheme \<Rightarrow> bytes \<Rightarrow> int \<Rightarrow> established" where
  "established_new env initial_k_conv now_ms = establish env pending_new initial_k_conv now_ms 0"

definition get_keys :: "established \<Rightarrow> nat \<Rightarrow> conversation_keys option" where
  "get_keys c epoch = fm_get (ed_epochs c) epoch"

section \<open>Epochs\<close>

definition rotate_epoch :: "'e wire_env_scheme \<Rightarrow> established \<Rightarrow> bytes \<Rightarrow> int \<Rightarrow> (nat \<times> established) panics" where
  "rotate_epoch env c new_k_conv now_ms =
     do {
       epoch \<leftarrow> add_u64 (ed_current_epoch c) 1;
       Some (epoch,
         c\<lparr>ed_current_epoch := epoch, ed_epochs := fm_set (ed_epochs c) epoch (ck_derive env new_k_conv),
           ed_sender_ratchets := fm_clear (ed_sender_ratchets c), ed_message_count := 0,
           ed_last_rotation_time_ms := now_ms, ed_shared_keys_sent_to := [],
           ed_jit_headers := fm_clear (ed_jit_headers c), ed_self_message_count := 0,
           ed_self_last_rekey_time_ms := now_ms\<rparr>)
     }"

definition add_epoch :: "'e wire_env_scheme \<Rightarrow> established \<Rightarrow> nat \<Rightarrow> bytes \<Rightarrow> established" where
  "add_epoch env c epoch k_conv =
     (let c1 = c\<lparr>ed_epochs := fm_set (ed_epochs c) epoch (ck_derive env k_conv)\<rparr>
      in if epoch > ed_current_epoch c
         then c1\<lparr>ed_current_epoch := epoch, ed_sender_ratchets := fm_clear (ed_sender_ratchets c), ed_message_count := 0\<rparr>
         else c1)"

section \<open>The ratchet\<close>

definition SKIPPED_KEY_TTL :: int where "SKIPPED_KEY_TTL = 86400000"
definition MAX_SKIP :: nat where "MAX_SKIP = 2000"

definition seq_epoch :: "nat \<Rightarrow> nat" where "seq_epoch seq = seq div 2 ^ 32"
definition seq_counter :: "nat \<Rightarrow> nat" where "seq_counter seq = seq mod 2 ^ 32"

text \<open>\<^verbatim>\<open>retain\<close> the keys that are not older than a day; the difference may overflow.\<close>

fun expire_skipped ::
    "int \<Rightarrow> (public_key \<times> nat, bytes \<times> int) flat_map \<Rightarrow> (public_key \<times> nat, bytes \<times> int) flat_map panics" where
  "expire_skipped now_ms [] = Some []"
| "expire_skipped now_ms ((k, key, t) # rest) =
     do {
       age \<leftarrow> sub_i64 now_ms t;
       rest' \<leftarrow> expire_skipped now_ms rest;
       Some (if age \<le> SKIPPED_KEY_TTL then (k, key, t) # rest' else rest')
     }"

text \<open>The loop over skipped positions: the key of each is stored and the chain moves on.\<close>

fun skip_keys ::
    "'e wire_env_scheme \<Rightarrow> public_key \<Rightarrow> int \<Rightarrow> nat list \<Rightarrow> bytes \<Rightarrow> (public_key \<times> nat, bytes \<times> int) flat_map
       \<Rightarrow> bytes \<times> (public_key \<times> nat, bytes \<times> int) flat_map" where
  "skip_keys env sender_pk now_ms [] chain_key skipped = (chain_key, skipped)"
| "skip_keys env sender_pk now_ms (s # ss) chain_key skipped =
     skip_keys env sender_pk now_ms ss (ratchet_step env chain_key)
       (fm_set skipped (sender_pk, s) (ratchet_message_key env chain_key, now_ms))"

definition key_pair :: "'e wire_env_scheme \<Rightarrow> bytes \<Rightarrow> bytes \<times> bytes" where
  "key_pair env chain_key = (ratchet_message_key env chain_key, ratchet_step env chain_key)"

text \<open>The start of a sender's chain: the key it distributed, else one derived from the conversation's.\<close>

definition chain_seed :: "'e wire_env_scheme \<Rightarrow> established \<Rightarrow> public_key \<Rightarrow> nat \<Rightarrow> bytes \<Rightarrow> bytes" where
  "chain_seed env c sender_pk epoch k_conv =
     (case fm_get (ed_sender_keys c) (sender_pk, epoch) of
        Some sender_key \<Rightarrow> sender_key
      | None \<Rightarrow> ratchet_init_sender env k_conv sender_pk)"

definition peek_keys ::
    "'e wire_env_scheme \<Rightarrow> established \<Rightarrow> public_key \<Rightarrow> nat \<Rightarrow> int \<Rightarrow> ((bytes \<times> bytes) option \<times> established) panics" where
  "peek_keys env c0 sender_pk seq now_ms =
     (let epoch = seq_epoch seq; counter = seq_counter seq
      in do {
        skipped \<leftarrow> expire_skipped now_ms (ed_skipped_keys c0);
        let c = c0\<lparr>ed_skipped_keys := skipped\<rparr>;
        (case (case fm_get (ed_sender_ratchets c) sender_pk of
                 None \<Rightarrow> None
               | Some (last_seq, next_key, _, last_epoch) \<Rightarrow>
                   if last_epoch = epoch then Some (last_seq, next_key) else None) of
           Some (last_seq, next_key) \<Rightarrow>
             do {
               next_seq \<leftarrow> add_u64 last_seq 1;
               if seq = next_seq then Some (Some (key_pair env next_key), c)
               else if seq \<le> last_seq then
                 Some (map_option (\<lambda>(k_msg, _). (k_msg, replicate 32 0)) (fm_get skipped (sender_pk, seq)), c)
               else if seq - next_seq > MAX_SKIP then Some (None, c)
               else
                 (let (chain_key, skipped') = skip_keys env sender_pk now_ms [next_seq..<seq] next_key skipped
                  in Some (Some (key_pair env chain_key), c\<lparr>ed_skipped_keys := skipped'\<rparr>))
             }
         | None \<Rightarrow>
             (case get_keys c epoch of
                None \<Rightarrow> Some (None, c)
              | Some keys \<Rightarrow>
                  if counter > MAX_SKIP then Some (None, c)
                  else
                    (let (chain_key, skipped') =
                           skip_keys env sender_pk now_ms (map (\<lambda>s. epoch * 2 ^ 32 + s) [1..<counter])
                             (chain_seed env c sender_pk epoch (ck_k_conv keys)) skipped
                     in Some (Some (key_pair env chain_key), c\<lparr>ed_skipped_keys := skipped'\<rparr>))))
      })"

definition commit_node_key ::
    "established \<Rightarrow> public_key \<Rightarrow> nat \<Rightarrow> bytes \<Rightarrow> node_hash \<Rightarrow> nat \<Rightarrow> node_hash option \<times> established" where
  "commit_node_key c0 sender_pk seq next_chain_key h epoch_id =
     (let c = c0\<lparr>ed_skipped_keys := fm_del (ed_skipped_keys c0) (sender_pk, seq)\<rparr>;
          old = fm_get (ed_sender_ratchets c) sender_pk;
          advance = c\<lparr>ed_sender_ratchets :=
                        fm_set (ed_sender_ratchets c) sender_pk (seq, next_chain_key, Some h, epoch_id)\<rparr>
      in case old of
           None \<Rightarrow> (None, advance)
         | Some (last_seq, _, last_hash, last_epoch) \<Rightarrow>
             if last_epoch > epoch_id then (None, c)
             else if last_epoch = epoch_id \<and> seq \<le> last_seq then (None, c)
             else (last_hash, advance))"

definition track_sender_seq :: "established \<Rightarrow> public_key \<Rightarrow> nat \<Rightarrow> nat \<Rightarrow> established" where
  "track_sender_seq c sender_pk seq epoch_id =
     (case fm_get (ed_sender_ratchets c) sender_pk of
        None \<Rightarrow> c
      | Some (s, k, h, e) \<Rightarrow>
          if epoch_id > e \<or> (epoch_id = e \<and> seq > s)
          then c\<lparr>ed_sender_ratchets := fm_set (ed_sender_ratchets c) sender_pk (seq, k, h, epoch_id)\<rparr>
          else c)"

definition get_sender_last_seq :: "established \<Rightarrow> public_key \<Rightarrow> nat" where
  "get_sender_last_seq c sender_pk =
     (case fm_get (ed_sender_ratchets c) sender_pk of
        None \<Rightarrow> 0
      | Some (seq, _, _, epoch) \<Rightarrow> if epoch = ed_current_epoch c then seq else 0)"

text \<open>A signature made with the epoch's ephemeral key over the node in clear.\<close>

definition verify_node_ephemeral_sig ::
    "'e wire_env_scheme \<Rightarrow> merkle_node \<Rightarrow> (public_key \<times> nat, bytes) flat_map \<Rightarrow> bool panics" where
  "verify_node_ephemeral_sig env n peer_eph_keys =
     (case nd_authentication n of
        Signature _ \<Rightarrow> Some True
      | EphemeralSignature sig \<Rightarrow>
          (case fm_get peer_eph_keys (nd_sender_pk n, seq_epoch (nd_sequence_number n)) of
             None \<Rightarrow> Some False
           | Some vk \<Rightarrow>
               if \<not> cr_key_valid env vk then Some False
               else do { auth_data \<leftarrow> serialize_for_auth env n; Some (cr_verify env vk auth_data sig) }))"

section \<open>Finding the sender of a wire node\<close>

definition MAX_RATCHET_SKIP :: nat where "MAX_RATCHET_SKIP = 2000"

text \<open>The positions of a chain are tried in turn; an error of the payload counts as a miss.\<close>

fun try_positions ::
    "'e wire_env_scheme \<Rightarrow> wire_node \<Rightarrow> public_key \<Rightarrow> public_key \<Rightarrow> bytes \<Rightarrow> nat \<Rightarrow> bytes \<Rightarrow> merkle_node option panics" where
  "try_positions env w sender_pk logical_pk k_header 0 chain_key = Some None"
| "try_positions env w sender_pk logical_pk k_header (Suc n) chain_key =
     (let k_msg = ratchet_message_key env chain_key;
          rest = try_positions env w sender_pk logical_pk k_header n (ratchet_step env chain_key)
      in if compute_sender_hint env k_msg \<noteq> wn_sender_hint w then rest
         else (case try_decrypt_routing env w k_header of
                 None \<Rightarrow> rest
               | Some seq \<Rightarrow>
                   do {
                     r \<leftarrow> unpack_wire_content env w sender_pk logical_pk seq k_msg;
                     (case r of Inr node \<Rightarrow> Some (Some node) | Inl _ \<Rightarrow> rest)
                   }))"

definition start_key :: "'e wire_env_scheme \<Rightarrow> established \<Rightarrow> public_key \<Rightarrow> nat \<Rightarrow> bytes \<Rightarrow> bytes" where
  "start_key env c sender_pk epoch k_conv =
     (case fm_get (ed_sender_ratchets c) sender_pk of
        Some (_, next_key, _, epoch_id) \<Rightarrow>
          if epoch_id = epoch then next_key else chain_seed env c sender_pk epoch k_conv
      | None \<Rightarrow> chain_seed env c sender_pk epoch k_conv)"

definition header_key :: "'e wire_env_scheme \<Rightarrow> established \<Rightarrow> public_key \<Rightarrow> nat \<Rightarrow> bytes \<Rightarrow> bytes" where
  "header_key env c sender_pk epoch k_conv =
     (case fm_get (ed_jit_headers c) (sender_pk, epoch) of
        Some h \<Rightarrow> h
      | None \<Rightarrow> derive_k_header_epoch env k_conv (chain_seed env c sender_pk epoch k_conv))"

fun try_sender_for_wire ::
    "'e wire_env_scheme \<Rightarrow> established \<Rightarrow> wire_node \<Rightarrow> public_key \<Rightarrow> public_key \<Rightarrow> nat list \<Rightarrow> merkle_node option panics" where
  "try_sender_for_wire env c w sender_pk logical_pk [] = Some None"
| "try_sender_for_wire env c w sender_pk logical_pk (epoch # epochs) =
     (case get_keys c epoch of
        None \<Rightarrow> Some None
      | Some keys \<Rightarrow>
          do {
            r \<leftarrow> try_positions env w sender_pk logical_pk (header_key env c sender_pk epoch (ck_k_conv keys))
                   MAX_RATCHET_SKIP (start_key env c sender_pk epoch (ck_k_conv keys));
            (case r of Some node \<Rightarrow> Some (Some node) | None \<Rightarrow> try_sender_for_wire env c w sender_pk logical_pk epochs)
          })"

fun first_some :: "('a \<Rightarrow> 'b option panics) \<Rightarrow> 'a list \<Rightarrow> 'b option panics" where
  "first_some f [] = Some None"
| "first_some f (x # xs) = do { r \<leftarrow> f x; (case r of Some y \<Rightarrow> Some (Some y) | None \<Rightarrow> first_some f xs) }"

definition identify_sender_and_unpack ::
    "'e wire_env_scheme \<Rightarrow> established \<Rightarrow> wire_node \<Rightarrow> (public_key \<times> public_key) list \<Rightarrow> merkle_node option panics" where
  "identify_sender_and_unpack env c w all_senders =
     (if \<not> flags_contain (wn_flags w) ENCRYPTED then
        do { r \<leftarrow> unpack_wire_exception env w; Some (case r of Inr node \<Rightarrow> Some node | Inl _ \<Rightarrow> None) }
      else
        (let epochs = rev (sort (fm_keys (ed_epochs c)))
         in do {
           r \<leftarrow> first_some (\<lambda>(s, l). try_sender_for_wire env c w s l epochs) all_senders;
           (case r of
              Some node \<Rightarrow> Some (Some node)
            | None \<Rightarrow>
                first_some (\<lambda>s. try_sender_for_wire env c w s s epochs)
                  (filter (\<lambda>s. s \<notin> fst ` set all_senders) (fm_keys (ed_sender_ratchets c))))
         }))"

text \<open>History exports are encrypted under keys of the whole conversation.\<close>

definition try_unpack_history_export ::
    "'e wire_env_scheme \<Rightarrow> established \<Rightarrow> wire_node \<Rightarrow> (public_key \<times> public_key) list \<Rightarrow> merkle_node option panics" where
  "try_unpack_history_export env c w all_senders =
     (if \<not> flags_contain (wn_flags w) ENCRYPTED then Some None
      else first_some (\<lambda>keys.
        (let k_header_export = derive_k_header_export env (ck_k_conv keys);
             k_msg = derive_k_payload_export env (ck_k_conv keys)
         in if compute_sender_hint env k_msg \<noteq> wn_sender_hint w then Some None
            else (case try_decrypt_routing env w k_header_export of
                    None \<Rightarrow> Some None
                  | Some seq \<Rightarrow>
                      first_some (\<lambda>(s, l). do {
                        r \<leftarrow> unpack_wire_content env w s l seq k_msg;
                        Some (case r of
                                Inr node \<Rightarrow> if is_history_export (nd_content node) then Some node else None
                              | Inl _ \<Rightarrow> None)
                      }) all_senders)))
        (fm_values (ed_epochs c)))"

end
