(* ===== verification/Key_Intake.thy ===== *)
theory Key_Intake
  imports Sync_Session Conversation
begin

text \<open>
  The state of the engine (\<^verbatim>\<open>merkle-tox-core/src/engine/mod.rs\<close>) that the processing of nodes uses, the
  effects it returns, and what a node may bring this device: the conversation's key, a sender's key
  or the key of an exported history, each wrapped for the device's pre-keys
  (\<^verbatim>\<open>engine/processor/verification.rs\<close>).
\<close>

section \<open>State and effects\<close>

text \<open>\<^verbatim>\<open>verify_strict\<close> of the crate \<^verbatim>\<open>ed25519_dalek\<close>.\<close>

record adm_env = wire_env +
  ae_verify_strict :: "public_key \<Rightarrow> bytes \<Rightarrow> bytes \<Rightarrow> bool"

text \<open>The cache of the crate \<^verbatim>\<open>lru\<close> for the administrative ancestors of a node.\<close>

record 'q anc_ops =
  ac_get :: "'q \<Rightarrow> node_hash \<Rightarrow> node_hash set option \<times> 'q"
  ac_put :: "'q \<Rightarrow> node_hash \<Rightarrow> node_hash set \<Rightarrow> 'q"

text \<open>Of the peers' sessions only the active ones are looked at here, to address messages to them.\<close>

record ('p, 'q) engine =
  en_self_pk :: public_key
  en_self_logical_pk :: public_key
  en_self_dh_sk :: "bytes option"
  en_identity :: "'p identity_manager"
  en_active_sessions :: "(public_key \<times> conversation_id) list"
  en_conversations :: "(conversation_id, conversation) flat_map"
  en_blob_syncs :: "(node_hash, swarm_sync) flat_map"
  en_ephemeral_keys :: "(public_key, bytes) flat_map"
  en_peer_announcements :: "(public_key, control_action) flat_map"
  en_highest_handled_pulse :: "(conversation_id \<times> public_key, nat) flat_map"
  en_latest_anchor_hashes :: "(conversation_id, node_hash) flat_map"
  en_peer_ephemeral_signing_keys :: "(public_key \<times> nat, bytes) flat_map"
  en_disclosed_signing_keys :: "(public_key \<times> nat, bytes) flat_map"
  en_admin_ancestors :: 'q
  en_handshake_count_since_announcement :: "(conversation_id, nat) flat_map"
  en_trust_restored_devices :: "(conversation_id \<times> public_key, int) flat_map"
  en_consumed_opk_ids :: "(node_hash, node_hash \<times> public_key \<times> nat) flat_map"
  en_soft_anchor_dedup :: "(conversation_id, (public_key \<times> node_hash) list) flat_map"
  en_verified_node_seqs :: "(conversation_id \<times> public_key \<times> nat, node_hash) flat_map"
  en_equivocations :: "(conversation_id \<times> public_key \<times> nat \<times> node_hash \<times> node_hash) list"
  en_opaque_store_usage :: "(conversation_id, nat \<times> (node_hash \<times> nat \<times> int \<times> public_key) list) flat_map"
  en_promotion_locked :: "node_hash list"
  en_self_certs :: "(conversation_id, delegation_certificate) flat_map"

text \<open>The messages between engines (\<^verbatim>\<open>lib.rs\<close>).\<close>

datatype protocol_message =
    CapsAnnounce u32 nat
  | CapsAck u32 nat
  | SyncHeads sync_heads
  | SyncSketch sync_sketch
  | SyncShardChecksums conversation_id "(sync_range \<times> bytes) list"
  | SyncReconFail conversation_id sync_range
  | SyncRateLimited conversation_id nat
  | KeywrapAck node_hash public_key
  | ReconPowChallenge conversation_id bytes nat
  | ReconPowSolution conversation_id bytes nat
  | FetchBatchReq fetch_batch_req
  | MerkleNode conversation_id node_hash wire_node
  | BlobQuery node_hash
  | BlobAvail blob_info
  | BlobReq blob_req
  | BlobData blob_data
  | ReinclusionRequest conversation_id public_key node_hash
  | ReinclusionResponse conversation_id bool
  | HandshakeError conversation_id string
  | AdminGossip conversation_id node_hash

datatype node_event =
    NodeVerified conversation_id node_hash merkle_node
  | NodeSpeculative conversation_id node_hash merkle_node
  | NodeIdentityPending conversation_id node_hash merkle_node
  | NodeInvalidated conversation_id node_hash
  | PeerHandshakeComplete public_key
  | BlobAvailable node_hash

datatype task =
    RotationCheck conversation_id
  | Reconciliation public_key conversation_id
  | FetchMissing public_key conversation_id
  | SwarmSync node_hash
  | SessionPoll public_key conversation_id

datatype effect =
    SendPacket public_key protocol_message
  | WriteStore conversation_id merkle_node bool
  | WriteWireNode conversation_id node_hash wire_node
  | DeleteWireNode conversation_id node_hash
  | WriteRatchetKey conversation_id node_hash bytes nat
  | DeleteRatchetKey conversation_id node_hash
  | UpdateHeads conversation_id "node_hash list" bool
  | WriteConversationKey conversation_id nat bytes
  | WriteEpochMetadata conversation_id u32 int
  | WriteBlobInfo blob_info
  | WriteChunk conversation_id node_hash nat bytes "bytes option"
  | EmitEvent node_event
  | ScheduleWakeup task instant
  | NodeEquivocation conversation_id public_key nat node_hash node_hash
  | HistorySnapshotNeeded conversation_id

section \<open>One-time pre-keys\<close>

definition find_opk :: "'e dag_env_scheme \<Rightarrow> ('p, 'q) engine \<Rightarrow> node_hash \<Rightarrow> (public_key \<times> bytes) option" where
  "find_opk env en opk_id =
     (if opk_id = zero_hash then None else find (\<lambda>(pk, _). de_blake3 env pk = opk_id) (en_ephemeral_keys en))"

definition find_opk_sk :: "'e dag_env_scheme \<Rightarrow> ('p, 'q) engine \<Rightarrow> node_hash \<Rightarrow> bytes option" where
  "find_opk_sk env en opk_id = map_option snd (find_opk env en opk_id)"

definition consume_opk_sk :: "'e dag_env_scheme \<Rightarrow> node_hash \<Rightarrow> ('p, 'q) engine \<Rightarrow> ('p, 'q) engine" where
  "consume_opk_sk env opk_id en =
     (case find_opk env en opk_id of
        None \<Rightarrow> en
      | Some (pk, _) \<Rightarrow> en\<lparr>en_ephemeral_keys := fm_del (en_ephemeral_keys en) pk\<rparr>)"

text \<open>The pre-keys are tried in turn, then the key of the device.\<close>

definition try_secrets :: "('p, 'q) engine \<Rightarrow> (bytes \<Rightarrow> bytes option) \<Rightarrow> bytes option" where
  "try_secrets en f =
     or_else (Identity.first_some f (fm_values (en_ephemeral_keys en)))
       (case en_self_dh_sk en of None \<Rightarrow> None | Some sk \<Rightarrow> f sk)"

section \<open>The key of a conversation\<close>

text \<open>
  When two senders used the same one-time key, the smaller device key wins between two members and
  the senior administrator in a group.
\<close>

definition seniority_or_last :: "'p identity_manager \<Rightarrow> conversation_id \<Rightarrow> public_key \<Rightarrow> nat \<times> node_hash" where
  "seniority_or_last im cid pk = (case get_admin_seniority im cid pk of Some s \<Rightarrow> s | None \<Rightarrow> (u64_max, replicate 32 0xFF))"

definition wins_opk :: "('p, 'q) engine \<Rightarrow> conversation_id \<Rightarrow> public_key \<Rightarrow> node_hash \<Rightarrow> bool" where
  "wins_opk en cid sender_pk opk_id =
     (case fm_get (en_consumed_opk_ids en) opk_id of
        None \<Rightarrow> True
      | Some (_, prev_sender, _) \<Rightarrow>
          if length (list_members (en_identity en) cid) \<le> 2 then sender_pk < prev_sender
          else seniority_or_last (en_identity en) cid sender_pk < seniority_or_last (en_identity en) cid prev_sender)"

fun unwrap_k_conv ::
    "'e wire_env_scheme \<Rightarrow> conversation_id \<Rightarrow> merkle_node \<Rightarrow> node_hash \<Rightarrow> public_key \<Rightarrow> wrapped_key list \<Rightarrow> ('p, 'q) engine
       \<Rightarrow> (bytes \<times> node_hash) option \<times> ('p, 'q) engine" where
  "unwrap_k_conv env cid n h ephemeral_pk [] en = (None, en)"
| "unwrap_k_conv env cid n h ephemeral_pk (w # ws) en =
     (if wk_recipient_pk w \<noteq> en_self_pk en then unwrap_k_conv env cid n h ephemeral_pk ws en
      else if wk_opk_id w \<noteq> zero_hash \<and> \<not> wins_opk en cid (nd_sender_pk n) (wk_opk_id w)
      then unwrap_k_conv env cid n h ephemeral_pk ws en
      else
        (let en1 = (if wk_opk_id w \<noteq> zero_hash
                    then en\<lparr>en_consumed_opk_ids :=
                              fm_set (en_consumed_opk_ids en) (wk_opk_id w) (h, nd_sender_pk n, nd_topological_rank n)\<rparr>
                    else en)
         in case try_secrets en1 (\<lambda>sk. ecies_unwrap_32 env sk ephemeral_pk (find_opk_sk env en1 (wk_opk_id w)) None
                                           (wk_ciphertext w)) of
              Some k \<Rightarrow> (Some (k, wk_opk_id w), en1)
            | None \<Rightarrow> unwrap_k_conv env cid n h ephemeral_pk ws en1))"

text \<open>\<^verbatim>\<open>+= 1\<close> on a \<^verbatim>\<open>u32\<close>.\<close>

definition add_u32 :: "nat \<Rightarrow> nat \<Rightarrow> nat panics" where
  "add_u32 a b = (if a + b < 2 ^ 32 then Some (a + b) else None)"

definition accept_k_conv ::
    "'e wire_env_scheme \<Rightarrow> conversation_id \<Rightarrow> merkle_node \<Rightarrow> node_hash \<Rightarrow> nat \<Rightarrow> bytes \<Rightarrow> ('p, 'q) engine
       \<Rightarrow> (effect list \<times> ('p, 'q) engine) panics" where
  "accept_k_conv env cid n h generation k_conv en =
     (let conv = (case fm_get (en_conversations en) cid of None \<Rightarrow> ConvPending cid pending_new | Some c \<Rightarrow> c);
          em = (case conv of
                  ConvPending _ p \<Rightarrow>
                    (establish env p k_conv (nd_network_timestamp n) generation)
                      \<lparr>ed_identity_pending := get_founder (en_identity en) cid = None\<rparr>
                | ConvEstablished _ e \<Rightarrow> add_epoch env e generation k_conv);
          (handshakes, counts) = fm_or_insert (en_handshake_count_since_announcement en) cid 0
      in do {
        handshakes' \<leftarrow> add_u32 handshakes 1;
        Some ([SendPacket (nd_sender_pk n) (KeywrapAck h (en_self_pk en)), WriteConversationKey cid generation k_conv],
              en\<lparr>en_conversations :=
                   fm_set (fm_del (en_conversations en) cid) cid (ConvEstablished (conv_id conv) em),
                 en_handshake_count_since_announcement := fm_set counts cid handshakes',
                 en_trust_restored_devices := fm_del (en_trust_restored_devices en) (cid, en_self_pk en)\<rparr>)
      })"

section \<open>The key of a sender\<close>

fun unwrap_sender_key ::
    "'e wire_env_scheme \<Rightarrow> public_key \<Rightarrow> public_key \<Rightarrow> wrapped_key list \<Rightarrow> ('p, 'q) engine \<Rightarrow> (bytes \<times> node_hash) option" where
  "unwrap_sender_key env sender_pk ephemeral_pk [] en = None"
| "unwrap_sender_key env sender_pk ephemeral_pk (w # ws) en =
     (if wk_recipient_pk w \<noteq> en_self_pk en then unwrap_sender_key env sender_pk ephemeral_pk ws en
      else (case try_secrets en (\<lambda>sk.
                   let auth_secret = we_dh env sk (device_pk_to_x25519 env sender_pk)
                   in ecies_unwrap env sk ephemeral_pk (find_opk_sk env en (wk_opk_id w)) (Some auth_secret)
                        (wk_ciphertext w)) of
              Some payload \<Rightarrow> Some (payload, wk_opk_id w)
            | None \<Rightarrow> unwrap_sender_key env sender_pk ephemeral_pk ws en))"

text \<open>A payload of 72 bytes is a chain key, its position and a header key; one of 32 bytes a sender key.\<close>

definition accept_sender_key :: "public_key \<Rightarrow> nat \<Rightarrow> bytes \<Rightarrow> established \<Rightarrow> established" where
  "accept_sender_key sender_pk epoch payload em =
     (if length payload = 72 then
        (let chain_key = take 32 payload; last_seq = u64_of_be (take 8 (drop 32 payload)); k_header = drop 40 payload
         in em\<lparr>ed_sender_keys := fm_set (ed_sender_keys em) (sender_pk, epoch) chain_key,
               ed_sender_ratchets := fm_set (ed_sender_ratchets em) sender_pk (last_seq, chain_key, None, epoch),
               ed_jit_headers := fm_set (ed_jit_headers em) (sender_pk, epoch) k_header\<rparr>)
      else if length payload = 32 then em\<lparr>ed_sender_keys := fm_set (ed_sender_keys em) (sender_pk, epoch) payload\<rparr>
      else em)"

text \<open>\<^verbatim>\<open>get_mut\<close> of an established conversation.\<close>

definition on_established :: "conversation_id \<Rightarrow> (established \<Rightarrow> established) \<Rightarrow> ('p, 'q) engine \<Rightarrow> ('p, 'q) engine" where
  "on_established cid f en =
     (case fm_get (en_conversations en) cid of
        Some (ConvEstablished i em) \<Rightarrow>
          en\<lparr>en_conversations := fm_set (en_conversations en) cid (ConvEstablished i (f em))\<rparr>
      | _ \<Rightarrow> en)"

section \<open>The key of an exported history\<close>

text \<open>Only the first entry for this device is tried.\<close>

definition unwrap_export_key ::
    "'e wire_env_scheme \<Rightarrow> public_key \<Rightarrow> wrapped_key list \<Rightarrow> ('p, 'q) engine \<Rightarrow> (bytes \<times> node_hash) option" where
  "unwrap_export_key env ephemeral_pk ws en =
     (case find (\<lambda>w. wk_recipient_pk w = en_self_pk en) ws of
        None \<Rightarrow> None
      | Some w \<Rightarrow>
          map_option (\<lambda>k. (k, wk_opk_id w))
            (try_secrets en (\<lambda>sk. ecies_unwrap_32 env sk ephemeral_pk (find_opk_sk env en (wk_opk_id w)) None
                                      (wk_ciphertext w))))"

definition export_blob :: "node_hash \<Rightarrow> nat \<Rightarrow> bytes option \<Rightarrow> bytes \<Rightarrow> swarm_sync" where
  "export_blob blob_hash blob_size bao_root k_export =
     sw_new \<lparr>bi_hash = blob_hash, bi_size = blob_size, bi_bao_root = bao_root, bi_status = Pending,
             bi_received_mask = None, bi_decryption_key = Some k_export\<rparr>"

definition active_peers :: "('p, 'q) engine \<Rightarrow> conversation_id \<Rightarrow> public_key list" where
  "active_peers en cid = map fst (filter (\<lambda>(_, c). c = cid) (en_active_sessions en))"

section \<open>The keys a node brings\<close>

text \<open>The result lists the one-time keys to erase; they are erased once the node is stored.\<close>

definition take_keys ::
    "'e wire_env_scheme \<Rightarrow> conversation_id \<Rightarrow> merkle_node \<Rightarrow> node_hash \<Rightarrow> ('p, 'q) engine
       \<Rightarrow> (effect list \<times> node_hash list \<times> ('p, 'q) engine) panics" where
  "take_keys env cid n h en =
     (case nd_content n of
        KeyWrap generation _ ephemeral_pk wrapped_keys \<Rightarrow>
          (case unwrap_k_conv env cid n h ephemeral_pk wrapped_keys en of
             (None, en1) \<Rightarrow> Some ([], [], en1)
           | (Some (k_conv, opk_id), en1) \<Rightarrow>
               do {
                 (effects, en2) \<leftarrow> accept_k_conv env cid n h generation k_conv en1;
                 Some (effects, [opk_id], en2)
               })
      | SenderKeyDistribution ephemeral_pk wrapped_keys _ _ \<Rightarrow>
          (case unwrap_sender_key env (nd_sender_pk n) ephemeral_pk wrapped_keys en of
             None \<Rightarrow> Some ([], [], en)
           | Some (payload, opk_id) \<Rightarrow>
               Some ([], [opk_id],
                     on_established cid (accept_sender_key (nd_sender_pk n) (seq_epoch (nd_sequence_number n)) payload) en))
      | HistoryExport blob_hash blob_size bao_root ephemeral_pk wrapped_keys \<Rightarrow>
          (case unwrap_export_key env ephemeral_pk wrapped_keys en of
             None \<Rightarrow> Some ([], [], en)
           | Some (k_export, opk_id) \<Rightarrow>
               Some (map (\<lambda>pk. SendPacket pk (BlobQuery blob_hash)) (active_peers en cid), [opk_id],
                     en\<lparr>en_blob_syncs :=
                          fm_set (en_blob_syncs en) blob_hash (export_blob blob_hash blob_size bao_root k_export)\<rparr>))
      | _ \<Rightarrow> Some ([], [], en))"

end
