(* ===== verification/Ratchet.thy ===== *)
theory Ratchet
  imports Conversation
begin

text \<open>
  The ratchet of a sender gives every message of an epoch the key at its position of the chain,
  whatever the order of delivery, and gives each key out once. The receiver's search for the sender
  of a wire node finds a node packed at a later position of the chain.
\<close>

section \<open>Accepting a node\<close>

text \<open>The step of \<^verbatim>\<open>apply_side_effects\<close> that uses up a message key: peek, then commit.\<close>

definition advance_ratchet ::
    "'e wire_env_scheme \<Rightarrow> established \<Rightarrow> public_key \<Rightarrow> nat \<Rightarrow> int \<Rightarrow> node_hash \<Rightarrow> (bytes option \<times> established) panics" where
  "advance_ratchet env c sender_pk seq now_ms h =
     do {
       (r, c') \<leftarrow> peek_keys env c sender_pk seq now_ms;
       Some (case r of
               None \<Rightarrow> (None, c')
             | Some (k_msg, k_next) \<Rightarrow>
                 (Some k_msg, snd (commit_node_key c' sender_pk seq k_next h (seq_epoch seq))))
     }"

fun advance_all ::
    "'e wire_env_scheme \<Rightarrow> established \<Rightarrow> public_key \<Rightarrow> (nat \<times> int \<times> node_hash) list \<Rightarrow> (bytes option list \<times> established) panics" where
  "advance_all env c sender_pk [] = Some ([], c)"
| "advance_all env c sender_pk ((seq, now_ms, h) # ds) =
     do {
       (r, c') \<leftarrow> advance_ratchet env c sender_pk seq now_ms h;
       (rs, c'') \<leftarrow> advance_all env c' sender_pk ds;
       Some (r # rs, c'')
     }"

section \<open>The chain\<close>

definition chain_at :: "'e wire_env_scheme \<Rightarrow> bytes \<Rightarrow> nat \<Rightarrow> bytes" where
  "chain_at env seed k = (ratchet_step env ^^ k) seed"

text \<open>The key of the message with a sequence number: the counter is its position, from 1.\<close>

definition message_key_at :: "'e wire_env_scheme \<Rightarrow> bytes \<Rightarrow> nat \<Rightarrow> bytes" where
  "message_key_at env seed seq = ratchet_message_key env (chain_at env seed (seq_counter seq - 1))"

lemma chain_at_0 [simp]: "chain_at env seed 0 = seed"
  by (simp add: chain_at_def)

lemma chain_at_Suc: "chain_at env seed (Suc k) = ratchet_step env (chain_at env seed k)"
  by (simp add: chain_at_def)

lemma chain_at_step: "chain_at env (ratchet_step env seed) k = chain_at env seed (Suc k)"
  by (simp add: chain_at_def funpow_swap1)

lemma chain_at_add: "chain_at env (chain_at env seed j) k = chain_at env seed (j + k)"
  by (simp add: chain_at_def) (metis add.commute comp_apply funpow_add)

section \<open>Skipped keys\<close>

definition times_ok :: "int \<Rightarrow> (public_key \<times> nat, bytes \<times> int) flat_map \<Rightarrow> bool" where
  "times_ok T skipped \<longleftrightarrow> fm_all (\<lambda>_ (_, t). T \<le> t \<and> t \<le> T + SKIPPED_KEY_TTL) skipped"

definition time_ok :: "int \<Rightarrow> int \<Rightarrow> bool" where
  "time_ok T now_ms \<longleftrightarrow> T \<le> now_ms \<and> now_ms \<le> T + SKIPPED_KEY_TTL"

lemma expire_skipped_id: "times_ok T skipped \<Longrightarrow> time_ok T now_ms \<Longrightarrow> expire_skipped now_ms skipped = Some skipped"
  by (induction now_ms skipped rule: expire_skipped.induct)
    (auto simp: times_ok_def time_ok_def sub_i64_def i64_ok_def SKIPPED_KEY_TTL_def)

lemma skip_keys_range:
  "skip_keys env pk now_ms [m..<m + n] key skipped = (key', skipped') \<Longrightarrow>
     key' = chain_at env key n
     \<and> (\<forall>q s. fm_get skipped' (q, s) =
          (if q = pk \<and> m \<le> s \<and> s < m + n then Some (ratchet_message_key env (chain_at env key (s - m)), now_ms)
           else fm_get skipped (q, s)))
     \<and> (fm_wf skipped \<longrightarrow> fm_wf skipped')
     \<and> (times_ok T skipped \<and> time_ok T now_ms \<longrightarrow> times_ok T skipped')"
proof (induction n arbitrary: m key skipped)
  case (Suc n)
  have "[m..<m + Suc n] = m # [Suc m..<Suc m + n]" by (simp add: upt_conv_Cons)
  with Suc.prems have "skip_keys env pk now_ms [Suc m..<Suc m + n] (ratchet_step env key)
      (fm_set skipped (pk, m) (ratchet_message_key env key, now_ms)) = (key', skipped')" by simp
  note IH = Suc.IH [OF this]
  have get: "fm_get skipped' (q, s) =
      (if q = pk \<and> m \<le> s \<and> s < m + Suc n then Some (ratchet_message_key env (chain_at env key (s - m)), now_ms)
       else fm_get skipped (q, s))" for q s
  proof (cases "q = pk \<and> Suc m \<le> s \<and> s < Suc m + n")
    case True
    then have "Suc (s - Suc m) = s - m" by linarith
    with True IH show ?thesis by (auto simp: chain_at_step)
  next
    case False
    with IH show ?thesis by auto
  qed
  have "fm_wf skipped \<longrightarrow> fm_wf skipped'" using IH by (auto intro: fm_wf_set)
  moreover have "times_ok T skipped \<and> time_ok T now_ms \<longrightarrow> times_ok T skipped'"
    using IH fm_all_set [of _ skipped "(pk, m)" "(ratchet_message_key env key, now_ms)"]
    by (auto simp: times_ok_def time_ok_def)
  ultimately show ?case using IH get by (auto simp: chain_at_step)
qed auto

section \<open>Positions within an epoch\<close>

lemma seq_split: "seq = seq_epoch seq * 2 ^ 32 + seq_counter seq"
  by (simp add: seq_epoch_def seq_counter_def)

lemma epoch_bounds:
  assumes "seq_epoch s = e"
  shows "e * 2 ^ 32 \<le> s" "s < Suc e * 2 ^ 32" "seq_counter s = s - e * 2 ^ 32"
  using assms seq_split [of s] by (auto simp: seq_epoch_def seq_counter_def)

text \<open>The start of an epoch, or the last sequence number accepted in it.\<close>

definition ratchet_at :: "'e wire_env_scheme \<Rightarrow> established \<Rightarrow> public_key \<Rightarrow> nat \<Rightarrow> bytes \<Rightarrow> nat \<Rightarrow> bool" where
  "ratchet_at env c pk e seed lo \<longleftrightarrow>
     (lo = e * 2 ^ 32 \<and> fm_get (ed_sender_ratchets c) pk = None)
     \<or> (seq_epoch lo = e \<and> (\<exists>h. fm_get (ed_sender_ratchets c) pk = Some (lo, chain_at env seed (seq_counter lo), h, e)))"

definition seeded :: "'e wire_env_scheme \<Rightarrow> established \<Rightarrow> public_key \<Rightarrow> nat \<Rightarrow> bytes \<Rightarrow> bool" where
  "seeded env c pk e seed \<longleftrightarrow> (\<exists>keys. get_keys c e = Some keys \<and> chain_seed env c pk e (ck_k_conv keys) = seed)"

lemma ratchet_at_epoch: "ratchet_at env c pk e seed lo \<Longrightarrow> seq_epoch lo = e"
  by (auto simp: ratchet_at_def seq_epoch_def)

lemma map_add_upt_from: "map (\<lambda>s. b + s) [1..<k] = [Suc b..<b + k]"
  by (rule nth_equalityI) auto

lemma peek_forward:
  assumes at: "ratchet_at env c pk e seed lo" and seeded: "seeded env c pk e seed"
    and times: "times_ok T (ed_skipped_keys c)" "time_ok T now_ms"
    and seq: "seq_epoch seq = e" "lo < seq" "seq \<le> lo + MAX_SKIP" "seq \<le> u64_max"
  shows "\<exists>skipped'. peek_keys env c pk seq now_ms
            = Some (Some (key_pair env (chain_at env seed (seq_counter seq - 1))), c\<lparr>ed_skipped_keys := skipped'\<rparr>)
          \<and> skip_keys env pk now_ms [Suc lo..<seq] (chain_at env seed (seq_counter lo)) (ed_skipped_keys c)
              = (chain_at env seed (seq_counter seq - 1), skipped')"
proof -
  have expire: "expire_skipped now_ms (ed_skipped_keys c) = Some (ed_skipped_keys c)"
    using times by (rule expire_skipped_id)
  have lo: "seq_epoch lo = e" using at by (rule ratchet_at_epoch)
  define n where "n = seq - Suc lo"
  have n: "seq = Suc lo + n" "seq_counter lo + n = seq_counter seq - 1"
    using seq epoch_bounds [OF lo] epoch_bounds [OF seq(1)] by (auto simp: n_def)
  obtain k' skipped' where run: "skip_keys env pk now_ms [Suc lo..<seq] (chain_at env seed (seq_counter lo))
      (ed_skipped_keys c) = (k', skipped')" by (metis surj_pair)
  have k': "k' = chain_at env seed (seq_counter seq - 1)"
    using skip_keys_range [of env pk now_ms "Suc lo" n] run n by (fastforce simp: chain_at_add)
  show ?thesis
  proof (cases "fm_get (ed_sender_ratchets c) pk")
    case None
    with at have lo0: "lo = e * 2 ^ 32" "seq_counter lo = 0" by (auto simp: ratchet_at_def seq_counter_def)
    have "map (\<lambda>s. e * 2 ^ 32 + s) [1..<seq_counter seq] = [Suc lo..<seq]"
      using map_add_upt_from [of "e * 2 ^ 32" "seq_counter seq"] lo0(1) seq_split [of seq] seq(1) by simp
    moreover have "seq_counter seq \<le> MAX_SKIP" using lo0 seq(3) epoch_bounds [OF seq(1)] by simp
    ultimately show ?thesis
      using None seeded expire run k' lo0 seq(1)
      by (auto simp: peek_keys_def Let_def seeded_def get_keys_def chain_seed_def)
  next
    case (Some r)
    with at obtain h where r: "r = (lo, chain_at env seed (seq_counter lo), h, e)" by (auto simp: ratchet_at_def)
    have add: "add_u64 lo 1 = Some (Suc lo)" using seq by (simp add: add_u64_def)
    show ?thesis
    proof (cases "seq = Suc lo")
      case True
      with Some r add expire run k' seq(1) show ?thesis by (simp add: peek_keys_def Let_def)
    next
      case False
      then have "\<not> seq \<le> lo" "seq \<noteq> Suc lo" "\<not> seq - Suc lo > MAX_SKIP" using seq by auto
      with Some r add expire run k' seq(1) show ?thesis by (simp add: peek_keys_def Let_def)
    qed
  qed
qed

section \<open>Delivery in any order\<close>

text \<open>The state after the messages of an epoch with sequence numbers \<open>D\<close> have been accepted.\<close>

definition after_delivery ::
    "'e wire_env_scheme \<Rightarrow> established \<Rightarrow> public_key \<Rightarrow> nat \<Rightarrow> bytes \<Rightarrow> int \<Rightarrow> nat set \<Rightarrow> nat \<Rightarrow> bool" where
  "after_delivery env c pk e seed T D lo \<longleftrightarrow>
     fm_wf (ed_skipped_keys c) \<and> times_ok T (ed_skipped_keys c) \<and> seeded env c pk e seed
     \<and> ratchet_at env c pk e seed lo \<and> (\<forall>s \<in> D. s \<le> lo)
     \<and> (\<forall>s. seq_epoch s = e \<longrightarrow> map_option fst (fm_get (ed_skipped_keys c) (pk, s)) =
          (if s \<le> lo \<and> 0 < seq_counter s \<and> s \<notin> D then Some (message_key_at env seed s) else None))
     \<and> (lo \<in> D \<or> lo = e * 2 ^ 32)"

lemma seeded_frame [simp]:
  "seeded env (c\<lparr>ed_skipped_keys := x\<rparr>) pk e seed = seeded env c pk e seed"
  "seeded env (c\<lparr>ed_sender_ratchets := y\<rparr>) pk e seed = seeded env c pk e seed"
  by (simp_all add: seeded_def get_keys_def chain_seed_def)

lemma ratchet_at_frame [simp]:
  "ratchet_at env (c\<lparr>ed_skipped_keys := x\<rparr>) pk e seed lo = ratchet_at env c pk e seed lo"
  by (simp add: ratchet_at_def)

lemma advance_forward:
  assumes inv: "after_delivery env c pk e seed T D lo"
    and seq: "seq_epoch seq = e" "lo < seq" "seq \<le> lo + MAX_SKIP" "seq \<le> u64_max" and time: "time_ok T now_ms"
  shows "\<exists>c'. advance_ratchet env c pk seq now_ms h = Some (Some (message_key_at env seed seq), c')
           \<and> after_delivery env c' pk e seed T (insert seq D) seq"
proof -
  have c: "fm_wf (ed_skipped_keys c)" "times_ok T (ed_skipped_keys c)" "seeded env c pk e seed"
      "ratchet_at env c pk e seed lo"
    and skipped: "\<And>s. seq_epoch s = e \<Longrightarrow> map_option fst (fm_get (ed_skipped_keys c) (pk, s)) =
          (if s \<le> lo \<and> 0 < seq_counter s \<and> s \<notin> D then Some (message_key_at env seed s) else None)"
    and D: "\<forall>s \<in> D. s \<le> lo"
    using inv by (auto simp: after_delivery_def)
  obtain skipped' where peek: "peek_keys env c pk seq now_ms
        = Some (Some (key_pair env (chain_at env seed (seq_counter seq - 1))), c\<lparr>ed_skipped_keys := skipped'\<rparr>)"
      and run: "skip_keys env pk now_ms [Suc lo..<seq] (chain_at env seed (seq_counter lo)) (ed_skipped_keys c)
        = (chain_at env seed (seq_counter seq - 1), skipped')"
    using peek_forward [OF c(4,3,2) time seq] by blast
  have lo: "seq_epoch lo = e" using c(4) by (rule ratchet_at_epoch)
  have pos: "0 < seq_counter seq" using epoch_bounds [OF lo] epoch_bounds [OF seq(1)] seq(2) by simp
  have "Suc lo + (seq - Suc lo) = seq" using seq(2) by simp
  with run have run': "skip_keys env pk now_ms [Suc lo..<Suc lo + (seq - Suc lo)] (chain_at env seed (seq_counter lo))
      (ed_skipped_keys c) = (chain_at env seed (seq_counter seq - 1), skipped')" by simp
  note range = skip_keys_range [OF run', of T]
  have props: "\<And>q s. fm_get skipped' (q, s) =
        (if q = pk \<and> Suc lo \<le> s \<and> s < seq
         then Some (ratchet_message_key env (chain_at env (chain_at env seed (seq_counter lo)) (s - Suc lo)), now_ms)
         else fm_get (ed_skipped_keys c) (q, s))"
      "fm_wf skipped'" "times_ok T skipped'"
    using range c(1,2) time \<open>Suc lo + (seq - Suc lo) = seq\<close> by simp_all
  have keys: "map_option fst (fm_get skipped' (pk, s)) =
      (if s < seq \<and> 0 < seq_counter s \<and> s \<notin> D then Some (message_key_at env seed s) else None)"
    if s: "seq_epoch s = e" for s
  proof (cases "Suc lo \<le> s \<and> s < seq")
    case True
    then have "seq_counter lo + (s - Suc lo) = seq_counter s - 1" "0 < seq_counter s"
      using epoch_bounds [OF s] epoch_bounds [OF lo] by auto
    with True props(1) [of pk s] D show ?thesis by (auto simp: chain_at_add message_key_at_def)
  next
    case False
    with props(1) [of pk s] skipped [OF s] seq(2) show ?thesis by auto
  qed
  define c' where "c' = c\<lparr>ed_skipped_keys := fm_del skipped' (pk, seq),
      ed_sender_ratchets := fm_set (ed_sender_ratchets c) pk (seq, chain_at env seed (seq_counter seq), Some h, e)\<rparr>"
  have "chain_at env seed (seq_counter seq) = ratchet_step env (chain_at env seed (seq_counter seq - 1))"
    using pos chain_at_Suc [of env seed "seq_counter seq - 1"] by simp
  then have adv: "advance_ratchet env c pk seq now_ms h = Some (Some (message_key_at env seed seq), c')"
    using peek c(4) seq(1,2) lo
    by (auto simp: advance_ratchet_def commit_node_key_def key_pair_def message_key_at_def c'_def ratchet_at_def Let_def)
  have "map_option fst (fm_get (ed_skipped_keys c') (pk, s)) =
      (if s \<le> seq \<and> 0 < seq_counter s \<and> s \<notin> insert seq D then Some (message_key_at env seed s) else None)"
    if "seq_epoch s = e" for s
    using keys [OF that] props(2) by (auto simp: c'_def)
  moreover have "ratchet_at env c' pk e seed seq" using seq(1) by (auto simp: ratchet_at_def c'_def)
  moreover have "fm_wf (ed_skipped_keys c')" "times_ok T (ed_skipped_keys c')"
    using props(2,3) by (auto simp: c'_def times_ok_def intro: fm_wf_del fm_all_del)
  moreover have "seeded env c' pk e seed" using c(3) by (simp add: c'_def seeded_def get_keys_def chain_seed_def)
  ultimately have "after_delivery env c' pk e seed T (insert seq D) seq"
    using D seq(2) by (auto simp: after_delivery_def)
  with adv show ?thesis by blast
qed

lemma advance_back:
  assumes inv: "after_delivery env c pk e seed T D lo"
    and seq: "seq_epoch seq = e" "seq \<le> lo" "0 < seq_counter seq" "lo < u64_max" and time: "time_ok T now_ms"
  shows "\<exists>c'. advance_ratchet env c pk seq now_ms h
                = Some (if seq \<in> D then None else Some (message_key_at env seed seq), c')
           \<and> after_delivery env c' pk e seed T (insert seq D) lo"
proof -
  have c: "fm_wf (ed_skipped_keys c)" "times_ok T (ed_skipped_keys c)" "seeded env c pk e seed"
      "ratchet_at env c pk e seed lo"
    and skipped: "\<And>s. seq_epoch s = e \<Longrightarrow> map_option fst (fm_get (ed_skipped_keys c) (pk, s)) =
          (if s \<le> lo \<and> 0 < seq_counter s \<and> s \<notin> D then Some (message_key_at env seed s) else None)"
    and D: "\<forall>s \<in> D. s \<le> lo" "lo \<in> D \<or> lo = e * 2 ^ 32"
    using inv by (auto simp: after_delivery_def)
  have "e * 2 ^ 32 < lo" using seq epoch_bounds [OF seq(1)] by simp
  with c(4) obtain g where entry: "fm_get (ed_sender_ratchets c) pk
      = Some (lo, chain_at env seed (seq_counter lo), g, e)" by (auto simp: ratchet_at_def)
  have expire: "expire_skipped now_ms (ed_skipped_keys c) = Some (ed_skipped_keys c)"
    using c(2) time by (rule expire_skipped_id)
  have "add_u64 lo 1 = Some (Suc lo)" using seq(4) by (simp add: add_u64_def)
  then have peek: "peek_keys env c pk seq now_ms
      = Some (map_option (\<lambda>(k_msg, _). (k_msg, replicate 32 0)) (fm_get (ed_skipped_keys c) (pk, seq)), c)"
    using entry expire seq(1,2) by (simp add: peek_keys_def Let_def)
  show ?thesis
  proof (cases "seq \<in> D")
    case True
    then have "fm_get (ed_skipped_keys c) (pk, seq) = None" using skipped [OF seq(1)] by simp
    with True peek inv show ?thesis by (simp add: advance_ratchet_def insert_absorb)
  next
    case False
    then obtain t where key: "fm_get (ed_skipped_keys c) (pk, seq) = Some (message_key_at env seed seq, t)"
      using skipped [OF seq(1)] seq by (auto split: if_splits)
    define c' where "c' = c\<lparr>ed_skipped_keys := fm_del (ed_skipped_keys c) (pk, seq)\<rparr>"
    have adv: "advance_ratchet env c pk seq now_ms h = Some (Some (message_key_at env seed seq), c')"
      using peek key entry seq by (simp add: advance_ratchet_def commit_node_key_def c'_def Let_def)
    have "map_option fst (fm_get (ed_skipped_keys c') (pk, s)) =
        (if s \<le> lo \<and> 0 < seq_counter s \<and> s \<notin> insert seq D then Some (message_key_at env seed s) else None)"
      if "seq_epoch s = e" for s
      using skipped [OF that] c(1) by (auto simp: c'_def)
    moreover have "fm_wf (ed_skipped_keys c')" "times_ok T (ed_skipped_keys c')"
      using c(1,2) by (auto simp: c'_def times_ok_def intro: fm_wf_del fm_all_del)
    moreover have "seeded env c' pk e seed" "ratchet_at env c' pk e seed lo" using c(3,4) by (simp_all add: c'_def)
    ultimately have "after_delivery env c' pk e seed T (insert seq D) lo"
      using D seq(2) by (auto simp: after_delivery_def)
    with adv False show ?thesis by auto
  qed
qed

text \<open>Sequence numbers of one epoch, none of them more than the window ahead of all before it.\<close>

fun in_window :: "nat \<Rightarrow> nat \<Rightarrow> nat list \<Rightarrow> bool" where
  "in_window e lo [] = True"
| "in_window e lo (s # ss) \<longleftrightarrow>
     seq_epoch s = e \<and> 0 < seq_counter s \<and> s < u64_max \<and> s \<le> lo + MAX_SKIP \<and> in_window e (max lo s) ss"

fun keys_once :: "'e wire_env_scheme \<Rightarrow> bytes \<Rightarrow> nat set \<Rightarrow> nat list \<Rightarrow> bytes option list" where
  "keys_once env seed D [] = []"
| "keys_once env seed D (s # ss) =
     (if s \<in> D then None else Some (message_key_at env seed s)) # keys_once env seed (insert s D) ss"

lemma advance_all_keys:
  assumes "after_delivery env c pk e seed T D lo" "in_window e lo (map fst ds)" "lo < u64_max"
    and "\<forall>(_, now_ms, _) \<in> set ds. time_ok T now_ms"
  shows "\<exists>c'. advance_all env c pk ds = Some (keys_once env seed D (map fst ds), c')"
  using assms
proof (induction ds arbitrary: c D lo)
  case (Cons d ds)
  obtain s now_ms h where d [simp]: "d = (s, now_ms, h)" by (cases d) auto
  have s: "seq_epoch s = e" "0 < seq_counter s" "s < u64_max" "s \<le> lo + MAX_SKIP"
    and rest: "in_window e (max lo s) (map fst ds)" and time: "time_ok T now_ms"
    using Cons.prems by auto
  have "\<exists>c1. advance_ratchet env c pk s now_ms h = Some (if s \<in> D then None else Some (message_key_at env seed s), c1)
      \<and> after_delivery env c1 pk e seed T (insert s D) (max lo s)"
  proof (cases "s \<le> lo")
    case True
    then show ?thesis using advance_back [OF Cons.prems(1) s(1) True s(2) Cons.prems(3) time] by (simp add: max_def)
  next
    case False
    moreover have "s \<notin> D" using False Cons.prems(1) by (auto simp: after_delivery_def)
    moreover have "max lo s = s" using False by simp
    ultimately show ?thesis using advance_forward [OF Cons.prems(1) s(1) _ s(4) _ time] s(3) by auto
  qed
  then obtain c1 where c1: "advance_ratchet env c pk s now_ms h
        = Some (if s \<in> D then None else Some (message_key_at env seed s), c1)"
      "after_delivery env c1 pk e seed T (insert s D) (max lo s)" by blast
  have "max lo s < u64_max" using s(3) Cons.prems(3) by simp
  then obtain c' where "advance_all env c1 pk ds = Some (keys_once env seed (insert s D) (map fst ds), c')"
    using Cons.IH [OF c1(2) rest] Cons.prems(4) by auto
  with c1(1) show ?case by simp
qed simp

lemma after_delivery_fresh:
  assumes "fm_wf (ed_skipped_keys c)" "times_ok T (ed_skipped_keys c)" "seeded env c pk e seed"
    and "fm_get (ed_sender_ratchets c) pk = None"
    and "\<forall>s. seq_epoch s = e \<longrightarrow> fm_get (ed_skipped_keys c) (pk, s) = None"
  shows "after_delivery env c pk e seed T {} (e * 2 ^ 32)"
proof -
  have "seq_counter s = 0" if "seq_epoch s = e" "s \<le> e * 2 ^ 32" for s
    using that epoch_bounds [OF that(1)] by simp
  with assms show ?thesis by (auto simp: after_delivery_def ratchet_at_def)
qed

section \<open>A node without a key\<close>

text \<open>
  An exception node takes a sequence number and no position of the chain. The key of the node after
  it depends on whether the exception node has been seen.
\<close>

lemma peek_after_exception:
  assumes "fm_get (ed_sender_ratchets c) pk = Some (lo, key, h, e)" "ed_skipped_keys c = []"
    and "seq_epoch lo = e" "seq_epoch (lo + 2) = e" "lo + 2 \<le> u64_max"
  shows "peek_keys env (track_sender_seq c pk (lo + 1) e) pk (lo + 2) now_ms
           = Some (Some (key_pair env key), track_sender_seq c pk (lo + 1) e)"
    and "\<exists>c'. peek_keys env c pk (lo + 2) now_ms = Some (Some (key_pair env (ratchet_step env key)), c')"
  using assms
  by (simp_all add: peek_keys_def track_sender_seq_def add_u64_def Let_def MAX_SKIP_def upt_conv_Cons)

section \<open>Finding the sender\<close>

lemma try_positions_found:
  assumes "k < n" "\<forall>j < k. compute_sender_hint env (ratchet_message_key env (chain_at env key j)) \<noteq> wn_sender_hint w"
    and "compute_sender_hint env (ratchet_message_key env (chain_at env key k)) = wn_sender_hint w"
    and "try_decrypt_routing env w k_header = Some seq"
    and "unpack_wire_content env w pk l seq (ratchet_message_key env (chain_at env key k)) = Some (Inr node)"
  shows "try_positions env w pk l k_header n key = Some (Some node)"
  using assms
proof (induction n arbitrary: key k)
  case (Suc n)
  show ?case
  proof (cases k)
    case 0
    with Suc.prems show ?thesis by (simp add: Let_def)
  next
    case (Suc k')
    then have "compute_sender_hint env (ratchet_message_key env key) \<noteq> wn_sender_hint w"
      using Suc.prems(2) by force
    moreover have "try_positions env w pk l k_header n (ratchet_step env key) = Some (Some node)"
      using Suc Suc.prems by (intro Suc.IH [of k']) (auto simp: chain_at_step)
    ultimately show ?thesis by (simp add: Let_def)
  qed
qed simp

lemma try_positions_missed:
  assumes "\<forall>j < n. compute_sender_hint env (ratchet_message_key env (chain_at env key j)) \<noteq> wn_sender_hint w"
  shows "try_positions env w pk l k_header n key = Some None"
  using assms
proof (induction n arbitrary: key)
  case (Suc n)
  then have "compute_sender_hint env (ratchet_message_key env key) \<noteq> wn_sender_hint w" by force
  moreover have "try_positions env w pk l k_header n (ratchet_step env key) = Some None"
    using Suc.prems by (intro Suc.IH) (auto simp: chain_at_step)
  ultimately show ?case by (simp add: Let_def)
qed simp

lemma start_key_at:
  assumes "after_delivery env c pk e seed T D lo" "get_keys c e = Some keys"
  shows "start_key env c pk e (ck_k_conv keys) = chain_at env seed (seq_counter lo)"
  using assms by (auto simp: after_delivery_def ratchet_at_def seeded_def start_key_def seq_counter_def split: option.splits)

lemma first_some_append:
  "\<forall>x \<in> set xs. f x = Some None \<Longrightarrow> first_some f (xs @ ys) = first_some f ys"
  by (induction xs) auto

lemma message_key_ahead:
  assumes "seq_epoch lo = e" "seq_epoch (lo + Suc j) = e"
  shows "ratchet_message_key env (chain_at env (chain_at env seed (seq_counter lo)) j) = message_key_at env seed (lo + Suc j)"
proof -
  have "seq_counter (lo + Suc j) - 1 = seq_counter lo + j"
    using epoch_bounds [OF assms(1)] epoch_bounds [OF assms(2)] by simp
  then show ?thesis by (simp add: message_key_at_def chain_at_add)
qed

lemma identify_packed:
  assumes laws: "crypto_laws env" and typed: "node_typed n"
    and codec: "content_codec env (nd_content n) (nd_metadata n)"
    and nonces: "length (pk_routing_nonce ck) = 12" "length (pk_payload_nonce ck) = 12"
    and pack: "pack_wire env n (PackContent ck) compress = Inr w"
    and state: "after_delivery env c (nd_sender_pk n) e seed T D lo" "get_keys c e = Some keys"
    and newest: "rev (sort (fm_keys (ed_epochs c))) = e # older"
    and seq: "seq_epoch (nd_sequence_number n) = e" "lo < nd_sequence_number n" "nd_sequence_number n \<le> lo + MAX_RATCHET_SKIP"
    and keys: "pk_k_msg ck = message_key_at env seed (nd_sequence_number n)"
      "pk_k_header ck = header_key env c (nd_sender_pk n) e (ck_k_conv keys)"
    and hints: "\<forall>s. lo < s \<and> s < nd_sequence_number n \<longrightarrow>
        compute_sender_hint env (message_key_at env seed s) \<noteq> compute_sender_hint env (pk_k_msg ck)"
    and senders: "all_senders = before @ (nd_sender_pk n, author) # after"
      "\<forall>(s, l) \<in> set before. try_sender_for_wire env c w s l (e # older) = Some None"
  shows "identify_sender_and_unpack env c w all_senders = Some (Some (received n author))"
proof -
  let ?seq = "nd_sequence_number n" and ?pk = "nd_sender_pk n"
  note packed = pack_unpack_content [OF laws typed codec nonces pack]
  have lo: "seq_epoch lo = e" using state(1) by (auto simp: after_delivery_def intro: ratchet_at_epoch)
  define k where "k = ?seq - Suc lo"
  have k: "?seq = lo + Suc k" "k < MAX_RATCHET_SKIP" using seq by (auto simp: k_def)
  have within: "seq_epoch (lo + Suc j) = e" if "j \<le> k" for j
  proof -
    have "e * 2 ^ 32 \<le> lo + Suc j" "lo + Suc j < Suc e * 2 ^ 32"
      using epoch_bounds [OF lo] epoch_bounds [OF seq(1)] that k(1) by auto
    then show ?thesis by (auto simp: seq_epoch_def intro: div_nat_eqI)
  qed
  have ahead: "ratchet_message_key env (chain_at env (start_key env c ?pk e (ck_k_conv keys)) j)
      = message_key_at env seed (lo + Suc j)" if "j \<le> k" for j
    using message_key_ahead [OF lo within [OF that]] start_key_at [OF state] by simp
  have "try_positions env w ?pk author (header_key env c ?pk e (ck_k_conv keys)) MAX_RATCHET_SKIP
      (start_key env c ?pk e (ck_k_conv keys)) = Some (Some (received n author))"
  proof (rule try_positions_found [OF k(2)])
    show "\<forall>j < k. compute_sender_hint env (ratchet_message_key env
        (chain_at env (start_key env c ?pk e (ck_k_conv keys)) j)) \<noteq> wn_sender_hint w"
      using ahead hints k(1) packed(4) by auto
    show "try_decrypt_routing env w (header_key env c ?pk e (ck_k_conv keys)) = Some ?seq"
      using packed(1) keys(2) by simp
  qed (use ahead [of k] k(1) keys(1) packed(2,4) in auto)
  then have "try_sender_for_wire env c w ?pk author (e # older) = Some (Some (received n author))"
    using state(2) by simp
  then have "first_some (\<lambda>(s, l). try_sender_for_wire env c w s l (e # older)) all_senders
      = Some (Some (received n author))"
    unfolding senders(1) using senders(2) by (subst first_some_append) auto
  then show ?thesis using packed(3) newest by (simp add: identify_sender_and_unpack_def Let_def)
qed

text \<open>A node that arrives after a later one of the same sender: its key is kept, but the search never uses it.\<close>

lemma identify_late:
  assumes state: "after_delivery env c pk e seed T D lo" "get_keys c e = Some keys"
    and epochs: "fm_keys (ed_epochs c) = [e]" and ratchets: "fm_keys (ed_sender_ratchets c) = [pk]"
    and enc: "flags_contain (wn_flags w) ENCRYPTED"
    and hint: "wn_sender_hint w = compute_sender_hint env (message_key_at env seed seq)"
    and hints: "\<forall>j < MAX_RATCHET_SKIP. compute_sender_hint env (ratchet_message_key env (chain_at env seed (seq_counter lo + j)))
        \<noteq> compute_sender_hint env (message_key_at env seed seq)"
    and seq: "seq_epoch seq = e" "seq \<le> lo" "0 < seq_counter seq" "seq \<notin> D"
  shows "identify_sender_and_unpack env c w [(pk, l)] = Some None"
    and "map_option fst (fm_get (ed_skipped_keys c) (pk, seq)) = Some (message_key_at env seed seq)"
proof -
  have "try_positions env w pk l' (header_key env c pk e (ck_k_conv keys)) MAX_RATCHET_SKIP
      (start_key env c pk e (ck_k_conv keys)) = Some None" for l'
    using hints by (intro try_positions_missed) (simp add: start_key_at [OF state] chain_at_add hint)
  then show "identify_sender_and_unpack env c w [(pk, l)] = Some None"
    using state(2) enc epochs ratchets by (simp add: identify_sender_and_unpack_def)
  show "map_option fst (fm_get (ed_skipped_keys c) (pk, seq)) = Some (message_key_at env seed seq)"
    using state(1) seq by (auto simp: after_delivery_def)
qed

end
