(* ===== verification/Side_Effects.thy ===== *)
theory Side_Effects
  imports Key_Intake Ratchet
begin

text \<open>
  \<^verbatim>\<open>merkle-tox-core/src/engine/processor/side_effects.rs\<close>: what an accepted node changes in the engine,
  its members and devices, the keys of its senders and the heads of the graph.

  A change of the members may make this device author new keys (\<^verbatim>\<open>rotate_conversation_key\<close> of
  \<^verbatim>\<open>engine/authoring.rs\<close>). The authoring of nodes is the parameter \<open>rot_key\<close>, with a flag that says
  whether it follows a revocation.
\<close>

section \<open>The causal context\<close>

text \<open>
  The walk over the ancestors with a stack; a cached answer replaces the walk above a node. The
  fuel bounds the number of steps and running out of it stands for not returning.
\<close>

fun collect_admin_ancestors ::
    "'q anc_ops \<Rightarrow> (node_hash \<Rightarrow> merkle_node option) \<Rightarrow> nat \<Rightarrow> node_hash list \<Rightarrow> node_hash set \<Rightarrow> node_hash set \<Rightarrow> 'q
       \<Rightarrow> (node_hash set \<times> 'q) panics" where
  "collect_admin_ancestors ac get_node 0 stack visited acc q = None"
| "collect_admin_ancestors ac get_node (Suc fuel) stack visited acc q =
     (if stack = [] then Some (acc, q)
      else
        (let p = last stack; rest = butlast stack in
         if p \<in> visited then collect_admin_ancestors ac get_node fuel rest visited acc q
         else (case get_node p of
                 None \<Rightarrow> collect_admin_ancestors ac get_node fuel rest (insert p visited) acc q
               | Some parent \<Rightarrow>
                   (let acc' = (if node_type_of parent = Admin then insert p acc else acc) in
                    case ac_get ac q p of
                      (Some cached, q') \<Rightarrow> collect_admin_ancestors ac get_node fuel rest (insert p visited) (acc' \<union> cached) q'
                    | (None, q') \<Rightarrow>
                        collect_admin_ancestors ac get_node fuel (rest @ nd_parents parent) (insert p visited) acc' q'))))"

definition causal_context_of ::
    "('e) dag_env_scheme \<Rightarrow> 'q anc_ops \<Rightarrow> (node_hash \<Rightarrow> merkle_node option) \<Rightarrow> nat \<Rightarrow> 'q \<Rightarrow> merkle_node
       \<Rightarrow> (causal_context \<times> 'q) panics" where
  "causal_context_of env ac get_node fuel q n =
     do {
       (admins, q') \<leftarrow> collect_admin_ancestors ac get_node fuel (nd_parents n) {} {} q;
       h \<leftarrow> mn_hash env n;
       Some (\<lparr>ctx_evaluating_node_hash = h, ctx_admin_ancestor_hashes = admins\<rparr>, ac_put ac q' h admins)
     }"

section \<open>What a node changes\<close>

definition purge_vouches :: "conversation_id \<Rightarrow> public_key \<Rightarrow> ('p, 'q) engine \<Rightarrow> ('p, 'q) engine" where
  "purge_vouches cid pk en =
     (case fm_get (en_conversations en) cid of
        None \<Rightarrow> en
      | Some c \<Rightarrow>
          en\<lparr>en_conversations := fm_set (en_conversations en) cid
               (conv_set_vouchers c (map (\<lambda>(h, v). (h, fm_del v pk)) (conv_vouchers c)))\<rparr>)"

text \<open>Whether this device is an administrator as seen from a node.\<close>

definition self_is_admin :: "('p, 'q) engine \<Rightarrow> causal_context \<Rightarrow> conversation_id \<Rightarrow> int \<Rightarrow> nat \<Rightarrow> bool" where
  "self_is_admin en ctx cid now_ms rank =
     perms_contain
       (case get_permissions (en_identity en) ctx cid (en_self_pk en) (en_self_logical_pk en) now_ms rank of
          None \<Rightarrow> PERM_NONE | Some p \<Rightarrow> p)
       PERM_ADMIN"

text \<open>Only pre-keys signed by the announcing device are kept.\<close>

definition valid_pre_keys :: "('e) dag_env_scheme \<Rightarrow> public_key \<Rightarrow> signed_pre_key list \<Rightarrow> signed_pre_key list" where
  "valid_pre_keys env pk pre_keys =
     (if cr_key_valid env pk then filter (\<lambda>spk. cr_verify env pk (sp_public_key spk) (sp_signature spk)) pre_keys else [])"

text \<open>\<^verbatim>\<open>epoch - 1 - i\<close> on \<^verbatim>\<open>u64\<close>.\<close>

definition sub_u64 :: "nat \<Rightarrow> nat \<Rightarrow> nat panics" where
  "sub_u64 a b = (if b \<le> a then Some (a - b) else None)"

fun store_disclosed ::
    "public_key \<Rightarrow> nat \<Rightarrow> nat \<Rightarrow> bytes list \<Rightarrow> (public_key \<times> nat, bytes) flat_map \<Rightarrow> (public_key \<times> nat, bytes) flat_map panics" where
  "store_disclosed pk epoch i [] m = Some m"
| "store_disclosed pk epoch i (key # keys) m =
     do {
       e1 \<leftarrow> sub_u64 epoch 1;
       e \<leftarrow> sub_u64 e1 i;
       store_disclosed pk epoch (Suc i) keys (fm_set m (pk, e) key)
     }"

definition has_epoch_key :: "('p, 'q) engine \<Rightarrow> conversation_id \<Rightarrow> nat \<Rightarrow> bool" where
  "has_epoch_key en cid epoch =
     (case fm_get (en_conversations en) cid of
        Some (ConvEstablished _ em) \<Rightarrow> get_keys em epoch \<noteq> None
      | _ \<Rightarrow> False)"

definition learn_signing_key ::
    "conversation_id \<Rightarrow> merkle_node \<Rightarrow> public_key \<Rightarrow> bytes list \<Rightarrow> ('p, 'q) engine \<Rightarrow> ('p, 'q) engine panics" where
  "learn_signing_key cid n ephemeral_signing_pk disclosed_keys en =
     (let epoch = seq_epoch (nd_sequence_number n); pk = nd_sender_pk n in
      do {
        en1 \<leftarrow> (if has_epoch_key en cid epoch \<or> \<not> is_ephemeral (nd_authentication n)
                 then do {
                   disclosed \<leftarrow> (if epoch > 0 then store_disclosed pk epoch 0 disclosed_keys (en_disclosed_signing_keys en)
                                 else Some (en_disclosed_signing_keys en));
                   Some (en\<lparr>en_peer_ephemeral_signing_keys :=
                              fm_set (en_peer_ephemeral_signing_keys en) (pk, epoch) ephemeral_signing_pk,
                            en_disclosed_signing_keys := disclosed\<rparr>)
                 }
                 else Some en);
        Some (on_established cid (\<lambda>em. if epoch = ed_current_epoch em
                then em\<lparr>ed_sender_ratchets := fm_del (ed_sender_ratchets em) pk\<rparr> else em) en1)
      })"

definition should_rotate :: "('p, 'q) engine \<Rightarrow> conversation_id \<Rightarrow> int \<Rightarrow> bool panics" where
  "should_rotate en cid now_ms =
     (case fm_get (en_conversations en) cid of
        Some (ConvEstablished _ em) \<Rightarrow> do { d \<leftarrow> sub_i64 now_ms (ed_last_rotation_time_ms em); Some (d \<ge> 300000) }
      | _ \<Rightarrow> Some True)"

type_synonym ('p, 'q, 'b) rotation =
  "bool \<Rightarrow> conversation_id \<Rightarrow> int \<Rightarrow> ('p, 'q) engine \<Rightarrow> 'b engine_store
     \<Rightarrow> (effect list merkle_result \<times> ('p, 'q) engine \<times> 'b engine_store) panics"

text \<open>A failed rotation is ignored.\<close>

definition rotate_quietly ::
    "('p, 'q, 'b) rotation \<Rightarrow> bool \<Rightarrow> conversation_id \<Rightarrow> int \<Rightarrow> ('p, 'q) engine \<Rightarrow> 'b engine_store
       \<Rightarrow> (effect list \<times> ('p, 'q) engine \<times> 'b engine_store) panics" where
  "rotate_quietly rot_key revoked cid now_ms en s =
     do {
       (r, en', s') \<leftarrow> rot_key revoked cid now_ms en s;
       Some (case r of Inr effects \<Rightarrow> effects | Inl _ \<Rightarrow> [], en', s')
     }"

definition handle_pulse ::
    "('p, 'q, 'b) rotation \<Rightarrow> causal_context \<Rightarrow> conversation_id \<Rightarrow> int \<Rightarrow> merkle_node \<Rightarrow> ('p, 'q) engine \<Rightarrow> 'b engine_store
       \<Rightarrow> (effect list \<times> ('p, 'q) engine \<times> 'b engine_store) panics" where
  "handle_pulse rot_key ctx cid now_ms n en s =
     (let (max_rank, pulses) = fm_or_insert (en_highest_handled_pulse en) (cid, nd_sender_pk n) 0 in
      if nd_topological_rank n \<le> max_rank then Some ([], en\<lparr>en_highest_handled_pulse := pulses\<rparr>, s)
      else
        (let en1 = en\<lparr>en_highest_handled_pulse := fm_set pulses (cid, nd_sender_pk n) (nd_topological_rank n)\<rparr> in
         if \<not> self_is_admin en1 ctx cid now_ms (nd_topological_rank n) then Some ([], en1, s)
         else do {
           due \<leftarrow> should_rotate en1 cid now_ms;
           if due then rotate_quietly rot_key False cid now_ms en1 s else Some ([], en1, s)
         }))"

definition set_anchor :: "conversation_id \<Rightarrow> node_hash \<Rightarrow> ('p, 'q) engine \<Rightarrow> ('p, 'q) engine" where
  "set_anchor cid h en = en\<lparr>en_latest_anchor_hashes := fm_set (en_latest_anchor_hashes en) cid h\<rparr>"

definition apply_genesis ::
    "conversation_id \<Rightarrow> node_hash \<Rightarrow> public_key \<Rightarrow> int \<Rightarrow> nat \<Rightarrow> ('p, 'q) engine \<Rightarrow> ('p, 'q) engine" where
  "apply_genesis cid h creator_pk created_at flags en =
     (let en1 = set_anchor cid h (en\<lparr>en_identity := add_member (en_identity en) cid creator_pk 0 created_at\<rparr>);
          en2 = (case fm_get (en_conversations en1) cid of
                   None \<Rightarrow> en1
                 | Some c \<Rightarrow> en1\<lparr>en_conversations := fm_set (en_conversations en1) cid (set_genesis_flags c flags)\<rparr>)
      in on_established cid (\<lambda>em. em\<lparr>ed_identity_pending := False\<rparr>) en2)"

definition apply_anchor_snapshot ::
    "conversation_id \<Rightarrow> node_hash \<Rightarrow> int \<Rightarrow> snapshot_data \<Rightarrow> ('p, 'q) engine \<Rightarrow> ('p, 'q) engine" where
  "apply_anchor_snapshot cid h now_ms data en =
     (let en1 = (set_anchor cid h en)
                  \<lparr>en_identity := fold (\<lambda>m im. add_member im cid (mi_public_key m) (mi_role m) (mi_joined_at m))
                                    (sn_members data) (en_identity en)\<rparr>
      in if list_ex (\<lambda>m. mi_public_key m = en_self_logical_pk en) (sn_members data)
         then en1\<lparr>en_trust_restored_devices :=
                    fm_set (en_trust_restored_devices en1) (cid, en_self_pk en1) now_ms\<rparr>
         else en1)"

definition apply_content ::
    "('e) dag_env_scheme \<Rightarrow> 'p lru_ops \<Rightarrow> ('p, 'q, 'b) rotation \<Rightarrow> causal_context \<Rightarrow> conversation_id \<Rightarrow> int \<Rightarrow> merkle_node
       \<Rightarrow> node_hash \<Rightarrow> ('p, 'q) engine \<Rightarrow> 'b engine_store
       \<Rightarrow> (effect list merkle_result \<times> ('p, 'q) engine \<times> 'b engine_store) panics" where
  "apply_content env lru rot_key ctx cid now_ms n h en s =
     (case nd_content n of
        Control (Genesis _ creator_pk _ flags created_at _) \<Rightarrow>
          Some (Inr [], apply_genesis cid h creator_pk created_at flags en, s)
      | Control (AuthorizeDevice cert) \<Rightarrow>
          (let (r, im) = authorize_device (crypto.truncate env) lru (en_identity en) ctx cid (nd_author_pk n) cert
                           (nd_network_timestamp n) (nd_topological_rank n) h;
               en1 = en\<lparr>en_identity := im\<rparr>
           in case r of
                Inl e \<Rightarrow> Some (Inl (IdentityErr e), en1, s)
              | Inr _ \<Rightarrow>
                  Some (Inr [], (if sd_device_pk cert = en_self_pk en
                                 then en1\<lparr>en_self_certs := fm_set (en_self_certs en1) cid cert\<rparr> else en1), s))
      | Control (RevokeDevice target_device_pk _) \<Rightarrow>
          (let im = revoke_device lru (en_identity en) cid (nd_sender_pk n) (nd_author_pk n) target_device_pk
                      (nd_topological_rank n) (nd_network_timestamp n) h;
               en1 = purge_vouches cid target_device_pk (en\<lparr>en_identity := im\<rparr>)
           in if nd_sender_pk n = en_self_pk en1 \<and> self_is_admin en1 ctx cid now_ms (nd_topological_rank n)
              then do {
                (effects, en2, s2) \<leftarrow> rotate_quietly rot_key True cid now_ms en1 s;
                Some (Inr effects, en2, s2)
              }
              else Some (Inr [], en1, s))
      | Control (Invite invitee_pk role) \<Rightarrow>
          Some (Inr [], en\<lparr>en_identity := add_member (en_identity en) cid invitee_pk role (nd_network_timestamp n)\<rparr>, s)
      | Control (Leave logical_pk) \<Rightarrow>
          Some (Inr [], en\<lparr>en_identity := remove_member lru (en_identity en) cid (nd_sender_pk n) (nd_author_pk n) logical_pk
                             (nd_topological_rank n) (nd_network_timestamp n) h\<rparr>, s)
      | Control (Announcement pre_keys last_resort_key) \<Rightarrow>
          Some (Inr [], en\<lparr>en_peer_announcements := fm_set (en_peer_announcements en) (nd_sender_pk n)
                             (Announcement (valid_pre_keys env (nd_sender_pk n) pre_keys) last_resort_key)\<rparr>, s)
      | Control (Snapshot _) \<Rightarrow> Some (Inr [], set_anchor cid h en, s)
      | Control (AnchorSnapshot data _) \<Rightarrow> Some (Inr [], apply_anchor_snapshot cid h now_ms data en, s)
      | Control (SoftAnchor _ _) \<Rightarrow> Some (Inr [], set_anchor cid h en, s)
      | Control HandshakePulse \<Rightarrow>
          do { (effects, en1, s1) \<leftarrow> handle_pulse rot_key ctx cid now_ms n en s; Some (Inr effects, en1, s1) }
      | SenderKeyDistribution _ _ ephemeral_signing_pk disclosed_keys \<Rightarrow>
          do { en1 \<leftarrow> learn_signing_key cid n ephemeral_signing_pk disclosed_keys en; Some (Inr [], en1, s) }
      | _ \<Rightarrow> Some (Inr [], en, s))"

section \<open>The sender's ratchet\<close>

text \<open>The key of the node is used up and the one of the sender's previous node erased.\<close>

definition use_key ::
    "'e wire_env_scheme \<Rightarrow> conversation_id \<Rightarrow> merkle_node \<Rightarrow> node_hash \<Rightarrow> int \<Rightarrow> established
       \<Rightarrow> (effect list \<times> established) panics" where
  "use_key env cid n h now_ms em =
     do {
       (r, em1) \<leftarrow> peek_keys env em (nd_sender_pk n) (nd_sequence_number n) now_ms;
       Some (case r of
               None \<Rightarrow> ([], em1)
             | Some (_, k_next) \<Rightarrow>
                 (let node_epoch = seq_epoch (nd_sequence_number n);
                      (prev_hash, em2) = commit_node_key em1 (nd_sender_pk n) (nd_sequence_number n) k_next h node_epoch
                  in (WriteRatchetKey cid h k_next node_epoch
                        # (case prev_hash of None \<Rightarrow> [] | Some p \<Rightarrow> [DeleteRatchetKey cid p]), em2)))
     }"

lemma use_key_advances:
  "map_option snd (use_key env cid n h now_ms em)
     = map_option snd (advance_ratchet env em (nd_sender_pk n) (nd_sequence_number n) now_ms h)"
  by (auto simp: use_key_def advance_ratchet_def Let_def case_prod_unfold split: bind_splits option.splits)

definition advance_sender ::
    "'e wire_env_scheme \<Rightarrow> conversation_id \<Rightarrow> merkle_node \<Rightarrow> node_hash \<Rightarrow> int \<Rightarrow> ('p, 'q) engine
       \<Rightarrow> (effect list \<times> ('p, 'q) engine) panics" where
  "advance_sender env cid n h now_ms en =
     (if skips_ratchet n then
        Some ([], on_established cid (\<lambda>em. track_sender_seq em (nd_sender_pk n) (nd_sequence_number n)
                                              (seq_epoch (nd_sequence_number n))) en)
      else (case fm_get (en_conversations en) cid of
              Some (ConvEstablished i em) \<Rightarrow>
                do {
                  (effects, em') \<leftarrow> use_key env cid n h now_ms em;
                  Some (effects, en\<lparr>en_conversations := fm_set (en_conversations en) cid (ConvEstablished i em')\<rparr>)
                }
            | _ \<Rightarrow> Some ([], en)))"

section \<open>The heads\<close>

definition next_heads :: "merkle_node \<Rightarrow> node_hash \<Rightarrow> node_hash list \<Rightarrow> node_hash list" where
  "next_heads n h heads =
     (let kept = filter (\<lambda>k. k \<notin> set (nd_parents n)) heads in if h \<in> set kept then kept else kept @ [h])"

definition update_heads ::
    "('b, 'm) node_store_scheme \<Rightarrow> conversation_id \<Rightarrow> merkle_node \<Rightarrow> node_hash \<Rightarrow> 'b engine_store
       \<Rightarrow> effect list \<times> 'b engine_store" where
  "update_heads ns cid n h s =
     (if node_type_of n = Admin then
        (let heads = next_heads n h (es_get_admin_heads ns s cid) in ([UpdateHeads cid heads True], es_set_admin_heads s cid heads))
      else
        (let heads = next_heads n h (es_get_heads ns s cid) in ([UpdateHeads cid heads False], es_set_heads s cid heads)))"

section \<open>All of it\<close>

definition apply_side_effects ::
    "('e) wire_env_scheme \<Rightarrow> 'p lru_ops \<Rightarrow> 'q anc_ops \<Rightarrow> ('b, 'm) node_store_scheme \<Rightarrow> nat \<Rightarrow> ('p, 'q, 'b) rotation
       \<Rightarrow> conversation_id \<Rightarrow> int \<Rightarrow> merkle_node \<Rightarrow> ('p, 'q) engine \<Rightarrow> 'b engine_store
       \<Rightarrow> (effect list merkle_result \<times> ('p, 'q) engine \<times> 'b engine_store) panics" where
  "apply_side_effects env lru ac ns fuel rot_key cid now_ms n en s =
     do {
       (ctx, q) \<leftarrow> causal_context_of env ac (es_get_node ns s) fuel (en_admin_ancestors en) n;
       h \<leftarrow> mn_hash env n;
       (r, en1, s1) \<leftarrow> apply_content env lru rot_key ctx cid now_ms n h (en\<lparr>en_admin_ancestors := q\<rparr>) s;
       (case r of
          Inl e \<Rightarrow> Some (Inl e, en1, s1)
        | Inr effects1 \<Rightarrow>
            do {
              (effects2, en2) \<leftarrow> advance_sender env cid n h now_ms en1;
              let (effects3, s2) = update_heads ns cid n h s1;
              Some (Inr (effects1 @ effects2 @ effects3), en2, s2)
            })
     }"

end
