(* ===== verification/Admission.thy ===== *)
theory Admission
  imports Dag_Run Side_Effects
begin

unbundle bit_operations_syntax

text \<open>
  \<^verbatim>\<open>merkle-tox-core/src/engine/processor/verification.rs\<close>: whether the engine accepts a node as
  verified, keeps it as speculative or rejects it. The decision uses the structural rules
  (\<open>Dag\<close>), the identity manager (\<open>Identity\<close>), the store with its cache (\<open>Node_Store\<close>) and the
  conversation's keys (\<open>Conversation\<close>).

  A node that is let in is stored in the cache, its keys are taken (\<open>Key_Intake\<close>), its effects applied
  (\<open>Side_Effects\<close>), and nodes that were waiting are tried again. The peers' sessions, which record
  the nodes they saw, are left out.
\<close>

section \<open>Limits\<close>

definition VOUCH_THRESHOLD :: nat where "VOUCH_THRESHOLD = 1"
definition MAX_VOUCHERS_PER_HASH :: nat where "MAX_VOUCHERS_PER_HASH = 3"
definition MAX_SPECULATIVE_NODES_PER_CONVERSATION :: nat where "MAX_SPECULATIVE_NODES_PER_CONVERSATION = 1000"
definition MAX_VERIFIED_NODES_PER_DEVICE :: nat where "MAX_VERIFIED_NODES_PER_DEVICE = 1000"
definition TEN_MINUTES_MS :: int where "TEN_MINUTES_MS = 600000"

fun is_bootstrap :: "content \<Rightarrow> bool" where
  "is_bootstrap (KeyWrap _ _ _ _) = True"
| "is_bootstrap (HistoryExport _ _ _ _ _) = True"
| "is_bootstrap (SenderKeyDistribution _ _ _ _) = True"
| "is_bootstrap (Control (Genesis _ _ _ _ _ _)) = True"
| "is_bootstrap (Control (AuthorizeDevice _)) = True"
| "is_bootstrap (Control (AnchorSnapshot _ _)) = True"
| "is_bootstrap _ = False"

section \<open>The checks\<close>

text \<open>\<^verbatim>\<open>node.validate\<close>: missing parents and a wrong rank leave the node speculative.\<close>

definition structure_of :: "validation_error + unit \<Rightarrow> validation_error + bool" where
  "structure_of r =
     (case r of
        Inr _ \<Rightarrow> Inr True
      | Inl (MissingParents _) \<Rightarrow> Inr False
      | Inl (TopologicalRankViolation _ _) \<Rightarrow> Inr False
      | Inl e \<Rightarrow> Inl e)"

definition min_parent_timestamp :: "(node_hash \<Rightarrow> merkle_node option) \<Rightarrow> node_hash list \<Rightarrow> int" where
  "min_parent_timestamp get_node ps =
     fold (\<lambda>p m. case get_node p of Some parent \<Rightarrow> min m (nd_network_timestamp parent) | None \<Rightarrow> m) ps i64_max"

definition vouch_count :: "('p, 'q) engine \<Rightarrow> conversation_id \<Rightarrow> node_hash \<Rightarrow> nat" where
  "vouch_count en cid h =
     (case fm_get (en_conversations en) cid of
        None \<Rightarrow> 0
      | Some c \<Rightarrow> (case fm_get (conv_vouchers c) h of None \<Rightarrow> 0 | Some v \<Rightarrow> fm_len v))"

text \<open>\<^verbatim>\<open>min_parent_ts - 600_000\<close> and \<^verbatim>\<open>now + 600_000\<close> are \<^verbatim>\<open>i64\<close> arithmetic.\<close>

definition timestamps_quarantine :: "int \<Rightarrow> int \<Rightarrow> int \<Rightarrow> bool panics" where
  "timestamps_quarantine min_parent_ts ts now_ms =
     do {
       too_old \<leftarrow> (if min_parent_ts \<noteq> i64_max
                   then do { low \<leftarrow> sub_i64 min_parent_ts TEN_MINUTES_MS; Some (ts < low) } else Some False);
       high \<leftarrow> sub_i64 now_ms (- TEN_MINUTES_MS);
       Some (too_old \<or> ts > high)
     }"

definition quarantined ::
    "('p, 'q) engine \<Rightarrow> (node_hash \<Rightarrow> merkle_node option) \<Rightarrow> (node_hash \<Rightarrow> bool) \<Rightarrow> conversation_id \<Rightarrow> merkle_node
       \<Rightarrow> node_hash \<Rightarrow> bool \<Rightarrow> int \<Rightarrow> bool panics" where
  "quarantined en get_node is_verified cid n h authorized now_ms =
     (let bootstrap = is_bootstrap (nd_content n);
          q1 = (\<not> bootstrap \<and> list_ex (\<lambda>p. \<not> is_verified p) (nd_parents n));
          q2 = (\<not> authorized \<and> \<not> bootstrap \<and> \<not> q1 \<and> vouch_count en cid h < VOUCH_THRESHOLD)
      in do {
        q3 \<leftarrow> timestamps_quarantine (min_parent_timestamp get_node (nd_parents n)) (nd_network_timestamp n) now_ms;
        Some (q1 \<or> q2 \<or> q3)
      })"

fun required_permissions :: "nat \<Rightarrow> public_key \<Rightarrow> content \<Rightarrow> permissions" where
  "required_permissions flags author (Control (AuthorizeDevice _)) = PERM_ADMIN"
| "required_permissions flags author (Control (RevokeDevice _ _)) = PERM_ADMIN"
| "required_permissions flags author (Control (SetTitle _)) = PERM_ADMIN"
| "required_permissions flags author (Control (SetTopic _)) = PERM_ADMIN"
| "required_permissions flags author (Control (Snapshot _)) = PERM_ADMIN"
| "required_permissions flags author (Control (AnchorSnapshot _ _)) = PERM_ADMIN"
| "required_permissions flags author (Control (Genesis _ _ _ _ _ _)) = PERM_ADMIN"
| "required_permissions flags author (Control (SoftAnchor _ _)) = PERM_MESSAGE"
| "required_permissions flags author (Control (Invite _ _)) =
     (if (flags div FLAG_MEMBER_INVITE) mod 2 \<noteq> 0 then PERM_MESSAGE else PERM_ADMIN)"
| "required_permissions flags author (Control (Leave target)) = (if author = target then PERM_NONE else PERM_ADMIN)"
| "required_permissions flags author (Control (Announcement _ _)) = PERM_NONE"
| "required_permissions flags author (Control HandshakePulse) = PERM_NONE"
| "required_permissions flags author (KeyWrap _ _ _ _) = PERM_ADMIN"
| "required_permissions flags author _ = PERM_MESSAGE"

definition check_permissions ::
    "('p, 'q) engine \<Rightarrow> causal_context \<Rightarrow> conversation_id \<Rightarrow> merkle_node \<Rightarrow> int \<Rightarrow> unit merkle_result" where
  "check_permissions en ctx cid n now_ms =
     (let actual = (case get_permissions (en_identity en) ctx cid (nd_sender_pk n) (nd_author_pk n) now_ms
                           (nd_topological_rank n) of None \<Rightarrow> PERM_NONE | Some p \<Rightarrow> p);
          flags = (case fm_get (en_conversations en) cid of None \<Rightarrow> 0 | Some c \<Rightarrow> conv_genesis_flags c);
          required = required_permissions flags (nd_author_pk n) (nd_content n)
      in if \<not> perms_contain actual required then Inl (PermissionDenied (nd_sender_pk n) required actual) else Inr ())"

text \<open>The rules on the node an edit, a redaction or a reaction refers to, and on bridged messages.\<close>

definition check_target ::
    "'e wire_env_scheme \<Rightarrow> ('p, 'q) engine \<Rightarrow> causal_context \<Rightarrow> conversation_id \<Rightarrow> (node_hash \<Rightarrow> merkle_node option)
       \<Rightarrow> merkle_node \<Rightarrow> validation_error + unit" where
  "check_target env en ctx cid get_node n =
     (case nd_content n of
        Edit target_hash _ \<Rightarrow>
          (case get_node target_hash of
             None \<Rightarrow> Inr ()
           | Some target \<Rightarrow>
               if (case nd_content target of Text _ \<Rightarrow> False | _ \<Rightarrow> True) then Inl InvalidEditTarget
               else if nd_author_pk target \<noteq> nd_author_pk n then Inl EditAuthorMismatch else Inr ())
      | Redaction target_hash _ \<Rightarrow>
          (case get_node target_hash of
             None \<Rightarrow> Inr ()
           | Some target \<Rightarrow>
               if nd_author_pk target = nd_author_pk n then Inr ()
               else
                 (let perms = (case get_permissions (en_identity en) ctx cid (nd_sender_pk n) (nd_author_pk n)
                                 (nd_network_timestamp n) (nd_topological_rank n) of None \<Rightarrow> PERM_NONE | Some p \<Rightarrow> p)
                  in if \<not> perms_contain perms PERM_ADMIN then Inl RedactionPermissionDenied else Inr ()))
      | Reaction target_hash _ \<Rightarrow>
          (case get_node target_hash of
             None \<Rightarrow> Inr ()
           | Some target \<Rightarrow> if node_type_of target = Admin then Inl InvalidReactionTarget else Inr ())
      | LegacyBridge source_pk text message_type dedup_id \<Rightarrow>
          if dedup_id \<noteq> derive_legacy_bridge_dedup_id env cid source_pk text message_type
          then Inl InvalidLegacyBridgeDedup else Inr ()
      | _ \<Rightarrow> Inr ())"

definition is_replay :: "('p, 'q) engine \<Rightarrow> conversation_id \<Rightarrow> merkle_node \<Rightarrow> bool" where
  "is_replay en cid n =
     (case fm_get (en_conversations en) cid of
        Some (ConvEstablished _ em) \<Rightarrow>
          (case fm_get (ed_sender_ratchets em) (nd_sender_pk n) of
             Some (last_seq, _, _, last_epoch) \<Rightarrow>
               last_epoch = seq_epoch (nd_sequence_number n) \<and> nd_sequence_number n \<le> last_seq
               \<and> \<not> fm_contains_key (ed_skipped_keys em) (nd_sender_pk n, nd_sequence_number n)
           | None \<Rightarrow> False)
      | _ \<Rightarrow> False)"

text \<open>The sequence number of an authorized sender: equivocation, replay and the quota per device.\<close>

definition check_sequence ::
    "('p, 'q) engine \<Rightarrow> conversation_id \<Rightarrow> merkle_node \<Rightarrow> node_hash \<Rightarrow> nat
       \<Rightarrow> ((validation_error + unit) \<times> ('p, 'q) engine) panics" where
  "check_sequence en cid n h last_verified_seq =
     (let seq = nd_sequence_number n;
          en1 = (case fm_get (en_verified_node_seqs en) (cid, nd_sender_pk n, seq) of
                   Some existing \<Rightarrow>
                     if existing \<noteq> h
                     then en\<lparr>en_equivocations := en_equivocations en @ [(cid, nd_sender_pk n, seq, existing, h)]\<rparr> else en
                 | None \<Rightarrow> en)
      in if seq \<le> last_verified_seq \<and> is_replay en1 cid n
         then Some (Inl (InvalidSequenceNumber seq last_verified_seq), en1)
         else do {
           _ \<leftarrow> add_u64 last_verified_seq 1;
           Some (if last_verified_seq mod 2 ^ 32 \<ge> MAX_VERIFIED_NODES_PER_DEVICE then Inl TooManyVerifiedNodes
                 else Inr (), en1)
         })"

section \<open>Authenticity\<close>

definition signed_by :: "('e) adm_env_scheme \<Rightarrow> bytes \<Rightarrow> merkle_node \<Rightarrow> wire_node option \<Rightarrow> bytes \<Rightarrow> bool panics" where
  "signed_by env vk n wire sig =
     (if \<not> cr_key_valid env vk then Some False
      else do {
        by_wire \<leftarrow> (if is_exception_node n then Some False
                     else (case wire of
                             None \<Rightarrow> Some False
                           | Some w \<Rightarrow> do { a \<leftarrow> wire_serialize_for_auth env w; Some (ae_verify_strict env vk a sig) }));
        if by_wire then Some True
        else do { a \<leftarrow> serialize_for_auth env n; Some (ae_verify_strict env vk a sig) }
      })"

text \<open>A key for the next epoch is announced under the key of the epoch before.\<close>

definition signing_epoch :: "merkle_node \<Rightarrow> nat" where
  "signing_epoch n =
     (let epoch = seq_epoch (nd_sequence_number n) in if is_skd (nd_content n) then epoch - 1 else epoch)"

definition ephemeral_authentic ::
    "('e) adm_env_scheme \<Rightarrow> ('p, 'q) engine \<Rightarrow> merkle_node \<Rightarrow> wire_node option \<Rightarrow> bytes \<Rightarrow> bool panics" where
  "ephemeral_authentic env en n wire sig =
     (case fm_get (en_peer_ephemeral_signing_keys en) (nd_sender_pk n, signing_epoch n) of
        None \<Rightarrow> Some False
      | Some epk \<Rightarrow> signed_by env epk n wire sig)"

definition genesis_authentic ::
    "('e) wire_env_scheme \<Rightarrow> ('p, 'q) engine \<Rightarrow> conversation_id \<Rightarrow> merkle_node \<Rightarrow> bytes \<Rightarrow> bool panics" where
  "genesis_authentic env en cid n sig =
     (case fm_get (en_conversations en) cid of
        Some (ConvEstablished _ em) \<Rightarrow>
          (case get_keys em 0 of
             None \<Rightarrow> Some False
           | Some keys \<Rightarrow>
               do { auth_data \<leftarrow> serialize_for_auth env n; Some (take 32 sig = calculate_mac env keys auth_data) })
      | _ \<Rightarrow> Some False)"

definition authentic_of ::
    "('e) adm_env_scheme \<Rightarrow> ('p, 'q) engine \<Rightarrow> conversation_id \<Rightarrow> merkle_node \<Rightarrow> wire_node option \<Rightarrow> bool panics" where
  "authentic_of env en cid n wire =
     (case nd_authentication n of
        Signature _ \<Rightarrow> Some True
      | EphemeralSignature sig \<Rightarrow>
          if is_genesis (nd_content n) then genesis_authentic env en cid n sig
          else ephemeral_authentic env en n wire sig)"

section \<open>The decision\<close>

text \<open>A certificate of an anchor: signed by the founder, for this device and this conversation.\<close>

definition founder_certified ::
    "('e) dag_env_scheme \<Rightarrow> ('p, 'q) engine \<Rightarrow> conversation_id \<Rightarrow> merkle_node \<Rightarrow> delegation_certificate \<Rightarrow> permissions \<Rightarrow> bool" where
  "founder_certified env en cid n cert perm =
     (case get_founder (en_identity en) cid of
        None \<Rightarrow> False
      | Some founder_pk \<Rightarrow>
          verify_delegation (crypto.truncate env) cert founder_pk (nd_network_timestamp n) = Inr ()
          \<and> perms_contain (sd_permissions cert) perm \<and> sd_device_pk cert = nd_sender_pk n
          \<and> sd_conversation_id cert = cid)"

text \<open>
  The chain of branches that sets \<^verbatim>\<open>verified\<close>. In the third branch \<^verbatim>\<open>authorize_device\<close> is called before
  \<^verbatim>\<open>structurally_valid\<close> is looked at, so it changes the identity manager either way.
\<close>

definition decide ::
    "('e) dag_env_scheme \<Rightarrow> 'p lru_ops \<Rightarrow> ('p, 'q) engine \<Rightarrow> causal_context \<Rightarrow> conversation_id \<Rightarrow> merkle_node \<Rightarrow> node_hash
       \<Rightarrow> bool \<Rightarrow> bool \<Rightarrow> bool \<Rightarrow> bool \<Rightarrow> bool \<times> ('p, 'q) engine" where
  "decide env lru en ctx cid n h authorized authentic valid quarantine =
     (let skip_generic_path =
            (\<not> authorized \<and> (case nd_content n of Control (AnchorSnapshot _ _) \<Rightarrow> True
                              | Control (SoftAnchor _ _) \<Rightarrow> True | _ \<Rightarrow> False))
      in if authentic \<and> valid \<and> \<not> quarantine \<and> \<not> skip_generic_path then (True, en)
         else if \<not> authorized \<and> \<not> quarantine \<and> valid \<and> \<not> skip_generic_path then (True, en)
         else if authorized \<or> quarantine then (False, en)
         else (case nd_content n of
                 Control (AuthorizeDevice cert) \<Rightarrow>
                   (let (r, im) = authorize_device (crypto.truncate env) lru (en_identity en) ctx cid (nd_author_pk n)
                                    cert (nd_network_timestamp n) (nd_topological_rank n) h
                    in (r = Inr () \<and> valid, en\<lparr>en_identity := im\<rparr>))
               | Control (AnchorSnapshot _ cert) \<Rightarrow> (valid \<and> founder_certified env en cid n cert PERM_ADMIN, en)
               | Control (SoftAnchor _ cert) \<Rightarrow> (valid \<and> founder_certified env en cid n cert PERM_MESSAGE, en)
               | _ \<Rightarrow> (False, en)))"

text \<open>At most one soft anchor per device and basis.\<close>

definition dedup_soft_anchor ::
    "('p, 'q) engine \<Rightarrow> conversation_id \<Rightarrow> merkle_node \<Rightarrow> bool \<Rightarrow> bool \<times> ('p, 'q) engine" where
  "dedup_soft_anchor en cid n verified =
     (case nd_content n of
        Control (SoftAnchor basis_hash _) \<Rightarrow>
          if \<not> verified then (verified, en)
          else
            (let (seen, dedup) = fm_or_insert (en_soft_anchor_dedup en) cid [];
                 key = (nd_sender_pk n, basis_hash)
             in (key \<notin> set seen, en\<lparr>en_soft_anchor_dedup := fm_set dedup cid (hs_insert key seen)\<rparr>))
      | _ \<Rightarrow> (verified, en))"

text \<open>The parents of an authentic node gain its sender as a voucher.\<close>

definition add_voucher :: "public_key \<Rightarrow> int \<Rightarrow> node_hash \<Rightarrow> voucher_map \<Rightarrow> voucher_map" where
  "add_voucher sender_pk now_ms p vouchers =
     (let (v, vouchers') = fm_or_insert vouchers p []
      in fm_set vouchers' p (if fm_len v < MAX_VOUCHERS_PER_HASH then fm_set v sender_pk now_ms else v))"

definition record_node ::
    "('p, 'q) engine \<Rightarrow> conversation_id \<Rightarrow> merkle_node \<Rightarrow> node_hash \<Rightarrow> int \<Rightarrow> bool \<Rightarrow> bool \<Rightarrow> ('p, 'q) engine" where
  "record_node en cid n h now_ms authentic verified =
     (let (conv, conversations) = fm_or_insert (en_conversations en) cid (ConvPending cid pending_new);
          conv' = (if authentic
                   then conv_set_vouchers conv (fold (add_voucher (nd_sender_pk n) now_ms) (nd_parents n) (conv_vouchers conv))
                   else conv)
      in en\<lparr>en_conversations := fm_set conversations cid conv',
            en_verified_node_seqs :=
              (if verified then fm_set (en_verified_node_seqs en) (cid, nd_sender_pk n, nd_sequence_number n) h
               else en_verified_node_seqs en)\<rparr>)"

section \<open>Handling a node\<close>

text \<open>
  What is checked of a node that \<^verbatim>\<open>validate\<close> let through: authorization, quarantine, permissions, the
  node it refers to and its sequence number.
\<close>

definition examine_node ::
    "('e) adm_env_scheme \<Rightarrow> 'p lru_ops \<Rightarrow> 'q anc_ops \<Rightarrow> ('b, 'm) node_store_scheme \<Rightarrow> nat \<Rightarrow> conversation_id \<Rightarrow> int
       \<Rightarrow> merkle_node \<Rightarrow> node_hash \<Rightarrow> ('p, 'q) engine \<Rightarrow> 'b engine_store
       \<Rightarrow> ((causal_context \<times> bool \<times> bool) merkle_result \<times> ('p, 'q) engine) panics" where
  "examine_node env lru ac ns fuel cid now_ms n h en s =
     do {
       (ctx, q) \<leftarrow> causal_context_of env ac (es_get_node ns s) fuel (en_admin_ancestors en) n;
       let (authorized, im) = is_authorized lru (en_identity en) ctx cid (nd_sender_pk n) (nd_author_pk n)
                                (nd_network_timestamp n) (nd_topological_rank n);
       let en1 = en\<lparr>en_admin_ancestors := q, en_identity := im\<rparr>;
       quarantine \<leftarrow> quarantined en1 (es_get_node ns s) (es_is_verified ns s) cid n h authorized now_ms;
       (case (if authorized \<or> has_authorization_record im cid (nd_sender_pk n)
              then check_permissions en1 ctx cid n (nd_network_timestamp n) else Inr ()) of
          Inl e \<Rightarrow> Some (Inl e, en1)
        | Inr _ \<Rightarrow>
            (case check_target env en1 ctx cid (es_get_node ns s) n of
               Inl e \<Rightarrow> Some (Inl (ValidationErr e), en1)
             | Inr _ \<Rightarrow>
                 if authorized
                 then do {
                   (sr, en2) \<leftarrow> check_sequence en1 cid n h (es_get_last_sequence_number ns s cid (nd_sender_pk n));
                   Some (case sr of Inl e \<Rightarrow> Inl (ValidationErr e) | Inr _ \<Rightarrow> Inr (ctx, True, quarantine), en2)
                 }
                 else Some (Inr (ctx, False, quarantine), en1)))
     }"

text \<open>
  The decision on a node whose checks have passed, and its entry into the cache. The keys are taken
  before authenticity is decided.
\<close>

definition settle_node ::
    "('e) adm_env_scheme \<Rightarrow> 'p lru_ops \<Rightarrow> ('b, 'm) node_store_scheme \<Rightarrow> conversation_id \<Rightarrow> causal_context \<Rightarrow> merkle_node
       \<Rightarrow> node_hash \<Rightarrow> bool \<Rightarrow> bool \<Rightarrow> bool \<Rightarrow> ('p, 'q) engine \<Rightarrow> 'b engine_store
       \<Rightarrow> ((validation_error + bool \<times> bool) \<times> ('p, 'q) engine \<times> 'b engine_store) panics" where
  "settle_node env lru ns cid ctx n h authorized valid quarantine en s =
     do {
       authentic \<leftarrow> authentic_of env en cid n (es_get_wire_node ns s h);
       let (v0, en1) = decide env lru en ctx cid n h authorized authentic valid quarantine;
       let (verified, en2) = dedup_soft_anchor en1 cid n v0;
       if \<not> verified \<and> snd (es_get_node_counts ns s cid) \<ge> MAX_SPECULATIVE_NODES_PER_CONVERSATION
       then Some (Inl TooManySpeculativeNodes, en2, s)
       else Some (Inr (verified, authentic), en2, es_put_hashed s cid h n verified)
     }"

section \<open>Verifying again\<close>

text \<open>\<^verbatim>\<open>verify_node\<close>: a speculative node that is authorized, authentic and valid becomes verified.\<close>

definition verify_node ::
    "('e) adm_env_scheme \<Rightarrow> 'p lru_ops \<Rightarrow> 'q anc_ops \<Rightarrow> ('b, 'm) node_store_scheme \<Rightarrow> nat \<Rightarrow> conversation_id \<Rightarrow> int
       \<Rightarrow> merkle_node \<Rightarrow> ('p, 'q) engine \<Rightarrow> 'b engine_store \<Rightarrow> (bool \<times> ('p, 'q) engine \<times> 'b engine_store) panics" where
  "verify_node env lru ac ns fuel cid now_ms n en s =
     do {
       (r, s1) \<leftarrow> validate env (es_lookup ns fuel) s n;
       (case structure_of r of
          Inl _ \<Rightarrow> Some (False, en, s1)
        | Inr valid \<Rightarrow>
            do {
              quarantine \<leftarrow> timestamps_quarantine (min_parent_timestamp (es_get_node ns s1) (nd_parents n))
                               (nd_network_timestamp n) now_ms;
              (ctx, q) \<leftarrow> causal_context_of env ac (es_get_node ns s1) fuel (en_admin_ancestors en) n;
              let (authorized, im) = is_authorized lru (en_identity en) ctx cid (nd_sender_pk n) (nd_author_pk n)
                                       (nd_network_timestamp n) (nd_topological_rank n);
              let en1 = en\<lparr>en_admin_ancestors := q, en_identity := im\<rparr>;
              h \<leftarrow> mn_hash env n;
              if \<not> (authorized \<and> \<not> quarantine) then Some (False, en1, s1)
              else do {
                authentic \<leftarrow> (case nd_authentication n of
                                Signature _ \<Rightarrow> Some True
                              | EphemeralSignature sig \<Rightarrow>
                                  if es_is_verified ns s1 h then Some True
                                  else ephemeral_authentic env en1 n (es_get_wire_node ns s1 h) sig);
                Some (if authentic \<and> valid then (True, en1, es_mark_verified s1 cid h) else (False, en1, s1))
              }
            })
     }"

text \<open>\<^verbatim>\<open>revalidate_all_verified_nodes\<close>: a change of the devices may take verified nodes back.\<close>

fun revalidate_nodes ::
    "('e) adm_env_scheme \<Rightarrow> 'p lru_ops \<Rightarrow> 'q anc_ops \<Rightarrow> ('b, 'm) node_store_scheme \<Rightarrow> nat \<Rightarrow> conversation_id \<Rightarrow> int
       \<Rightarrow> merkle_node list \<Rightarrow> ('p, 'q) engine \<Rightarrow> 'b engine_store \<Rightarrow> (effect list \<times> ('p, 'q) engine \<times> 'b engine_store) panics" where
  "revalidate_nodes env lru ac ns fuel cid now_ms [] en s = Some ([], en, s)"
| "revalidate_nodes env lru ac ns fuel cid now_ms (n # nodes) en s =
     do {
       (ok, en1, s1) \<leftarrow> verify_node env lru ac ns fuel cid now_ms n en s;
       h \<leftarrow> mn_hash env n;
       (effects, en2, s2) \<leftarrow> revalidate_nodes env lru ac ns fuel cid now_ms nodes en1 s1;
       Some ((if ok then [] else [WriteStore cid n False, EmitEvent (NodeInvalidated cid h)]) @ effects, en2, s2)
     }"

definition revalidate_all_verified_nodes ::
    "('e) adm_env_scheme \<Rightarrow> 'p lru_ops \<Rightarrow> 'q anc_ops \<Rightarrow> ('b, 'm) node_store_scheme \<Rightarrow> nat \<Rightarrow> conversation_id \<Rightarrow> int
       \<Rightarrow> ('p, 'q) engine \<Rightarrow> 'b engine_store \<Rightarrow> (effect list \<times> ('p, 'q) engine \<times> 'b engine_store) panics" where
  "revalidate_all_verified_nodes env lru ac ns fuel cid now_ms en s =
     (let of_type = (\<lambda>ty. case ns_get_verified_nodes_by_type ns (es_store s) cid ty of Inr nodes \<Rightarrow> nodes | Inl _ \<Rightarrow> [])
      in revalidate_nodes env lru ac ns fuel cid now_ms
           (sort_key nd_topological_rank (of_type Content @ of_type Admin)) en s)"

section \<open>Handling a node, with its effects\<close>

fun changes_devices :: "content \<Rightarrow> bool" where
  "changes_devices (Control (AuthorizeDevice _)) = True"
| "changes_devices (Control (RevokeDevice _ _)) = True"
| "changes_devices (Control (Leave _)) = True"
| "changes_devices _ = False"

text \<open>What follows once the node is in the cache; an error of the side effects is returned.\<close>

definition conclude_node ::
    "('e) adm_env_scheme \<Rightarrow> 'p lru_ops \<Rightarrow> 'q anc_ops \<Rightarrow> ('b, 'm) node_store_scheme \<Rightarrow> nat \<Rightarrow> ('p, 'q, 'b) rotation
       \<Rightarrow> conversation_id \<Rightarrow> int \<Rightarrow> merkle_node \<Rightarrow> node_hash \<Rightarrow> effect list \<Rightarrow> node_hash list \<Rightarrow> bool \<Rightarrow> bool
       \<Rightarrow> ('p, 'q) engine \<Rightarrow> 'b engine_store
       \<Rightarrow> ((effect list \<times> bool \<times> bool) option merkle_result \<times> ('p, 'q) engine \<times> 'b engine_store) panics" where
  "conclude_node env lru ac ns fuel rot_key cid now_ms n h effects1 used verified authentic en s =
     do {
       let en1 = record_node (fold (consume_opk_sk env) used en) cid n h now_ms authentic verified;
       (r, en2, s1) \<leftarrow>
         (if verified \<or> (authentic \<and> is_bootstrap (nd_content n))
          then apply_side_effects env lru ac ns fuel rot_key cid now_ms n en1 s
          else Some (Inr [], en1, s));
       (case r of
          Inl e \<Rightarrow> Some (Inl e, en2, s1)
        | Inr effects2 \<Rightarrow>
            do {
              (effects3, en3, s2) \<leftarrow>
                (if verified \<and> changes_devices (nd_content n)
                 then revalidate_all_verified_nodes env lru ac ns fuel cid now_ms en2 s1
                 else Some ([], en2, s1));
              Some (Inr (Some (effects1 @ [WriteStore cid n verified] @ effects2 @ effects3, verified, authentic)), en3, s2)
            })
     }"

text \<open>A node that passed the checks: its keys, the decision and what follows.\<close>

definition admit_node ::
    "('e) adm_env_scheme \<Rightarrow> 'p lru_ops \<Rightarrow> 'q anc_ops \<Rightarrow> ('b, 'm) node_store_scheme \<Rightarrow> nat \<Rightarrow> ('p, 'q, 'b) rotation
       \<Rightarrow> conversation_id \<Rightarrow> int \<Rightarrow> merkle_node \<Rightarrow> node_hash \<Rightarrow> bool \<Rightarrow> causal_context \<times> bool \<times> bool
       \<Rightarrow> ('p, 'q) engine \<Rightarrow> 'b engine_store
       \<Rightarrow> ((effect list \<times> bool \<times> bool) option merkle_result \<times> ('p, 'q) engine \<times> 'b engine_store) panics" where
  "admit_node env lru ac ns fuel rot_key cid now_ms n h valid found en s =
     (case found of (ctx, authorized, quarantine) \<Rightarrow>
        do {
          (effects1, used, en1) \<leftarrow> (if authorized then take_keys env cid n h en else Some ([], [], en));
          (sr, en2, s1) \<leftarrow> settle_node env lru ns cid ctx n h authorized valid quarantine en1 s;
          (case sr of
             Inl e \<Rightarrow> Some (Inl (ValidationErr e), en2, s1)
           | Inr (verified, authentic) \<Rightarrow>
               conclude_node env lru ac ns fuel rot_key cid now_ms n h effects1 used verified authentic en2 s1)
        })"

text \<open>Up to the point where waiting nodes are tried again; \<open>None\<close> is a node that was known.\<close>

definition process_node ::
    "('e) adm_env_scheme \<Rightarrow> 'p lru_ops \<Rightarrow> 'q anc_ops \<Rightarrow> ('b, 'm) node_store_scheme \<Rightarrow> nat \<Rightarrow> ('p, 'q, 'b) rotation
       \<Rightarrow> conversation_id \<Rightarrow> bool \<Rightarrow> int \<Rightarrow> merkle_node \<Rightarrow> ('p, 'q) engine \<Rightarrow> 'b engine_store
       \<Rightarrow> ((effect list \<times> bool \<times> bool) option merkle_result \<times> ('p, 'q) engine \<times> 'b engine_store) panics" where
  "process_node env lru ac ns fuel rot_key cid reverify now_ms n en s =
     do {
       h \<leftarrow> mn_hash env n;
       if es_is_verified ns s h \<or> (reverify \<and> es_has_node ns s h) then Some (Inr None, en, s)
       else do {
         (r, s1) \<leftarrow> validate env (es_lookup ns fuel) s n;
         (case structure_of r of
            Inl e \<Rightarrow> Some (Inl (ValidationErr e), en, s1)
          | Inr valid \<Rightarrow>
              do {
                (er, en1) \<leftarrow> examine_node env lru ac ns fuel cid now_ms n h en s1;
                (case er of
                   Inl e \<Rightarrow> Some (Inl e, en1, s1)
                 | Inr found \<Rightarrow> admit_node env lru ac ns fuel rot_key cid now_ms n h valid found en1 s1)
              })
       }
     }"

text \<open>The last effects: administrative nodes are announced to the peers, and the outcome is an event.\<close>

definition announce_node ::
    "('p, 'q) engine \<Rightarrow> conversation_id \<Rightarrow> merkle_node \<Rightarrow> node_hash \<Rightarrow> bool \<Rightarrow> effect list" where
  "announce_node en cid n h verified =
     (let gossip = (if verified \<and> node_type_of n = Admin
                    then map (\<lambda>pk. SendPacket pk (AdminGossip cid h)) (active_peers en cid) else []);
          pending = (case fm_get (en_conversations en) cid of
                       Some (ConvEstablished _ em) \<Rightarrow> ed_identity_pending em | _ \<Rightarrow> False)
      in gossip @ [EmitEvent (if \<not> verified then NodeSpeculative cid h n
                              else if pending then NodeIdentityPending cid h n else NodeVerified cid h n)])"

text \<open>\<^verbatim>\<open>handle_node_internal_ext\<close> with \<^verbatim>\<open>reverify = false\<close>, as it is called for waiting nodes.\<close>

definition handle_again ::
    "('e) adm_env_scheme \<Rightarrow> 'p lru_ops \<Rightarrow> 'q anc_ops \<Rightarrow> ('b, 'm) node_store_scheme \<Rightarrow> nat \<Rightarrow> ('p, 'q, 'b) rotation
       \<Rightarrow> conversation_id \<Rightarrow> int \<Rightarrow> merkle_node \<Rightarrow> ('p, 'q) engine \<Rightarrow> 'b engine_store
       \<Rightarrow> (effect list merkle_result \<times> ('p, 'q) engine \<times> 'b engine_store) panics" where
  "handle_again env lru ac ns fuel rot_key cid now_ms n en s =
     do {
       (r, en1, s1) \<leftarrow> process_node env lru ac ns fuel rot_key cid False now_ms n en s;
       h \<leftarrow> mn_hash env n;
       Some (case r of
               Inl e \<Rightarrow> Inl e
             | Inr None \<Rightarrow> Inr []
             | Inr (Some (effects, verified, _)) \<Rightarrow> Inr (effects @ announce_node en1 cid n h verified), en1, s1)
     }"

section \<open>Speculative nodes again\<close>

text \<open>What a round writes to the cache after a node became verified.\<close>

fun cache_verified :: "('e) dag_env_scheme \<Rightarrow> effect list \<Rightarrow> 'b engine_store \<Rightarrow> 'b engine_store panics" where
  "cache_verified env [] s = Some s"
| "cache_verified env (WriteStore cid n True # effects) s =
     do {
       h \<leftarrow> mn_hash env n;
       let c = es_cache s;
       let (seq, seqs) = fm_or_insert (pc_last_verified_sequences c) (cid, nd_sender_pk n) 0;
       cache_verified env effects
         (s\<lparr>es_cache := c\<lparr>pc_nodes := fm_set (pc_nodes c) h n, pc_verified := hs_insert h (pc_verified c),
              pc_last_verified_sequences :=
                (if nd_sequence_number n > seq then fm_set seqs (cid, nd_sender_pk n) (nd_sequence_number n) else seqs)\<rparr>\<rparr>)
     }"
| "cache_verified env (_ # effects) s = cache_verified env effects s"

definition writes_verified :: "effect list \<Rightarrow> bool" where
  "writes_verified effects = list_ex (\<lambda>e. case e of WriteStore _ _ v \<Rightarrow> v | _ \<Rightarrow> False) effects"

text \<open>One round over the speculative nodes; the flag says whether one became verified.\<close>

fun speculative_round ::
    "('e) adm_env_scheme \<Rightarrow> 'p lru_ops \<Rightarrow> 'q anc_ops \<Rightarrow> ('b, 'm) node_store_scheme \<Rightarrow> nat \<Rightarrow> ('p, 'q, 'b) rotation
       \<Rightarrow> conversation_id \<Rightarrow> int \<Rightarrow> merkle_node list \<Rightarrow> ('p, 'q) engine \<Rightarrow> 'b engine_store
       \<Rightarrow> (bool \<times> effect list \<times> ('p, 'q) engine \<times> 'b engine_store) panics" where
  "speculative_round env lru ac ns fuel rot_key cid now_ms [] en s = Some (False, [], en, s)"
| "speculative_round env lru ac ns fuel rot_key cid now_ms (n # nodes) en s =
     do {
       h \<leftarrow> mn_hash env n;
       authentic \<leftarrow> authentic_of env en cid n (es_get_wire_node ns s h);
       if \<not> authentic \<and> vouch_count en cid h < VOUCH_THRESHOLD
       then speculative_round env lru ac ns fuel rot_key cid now_ms nodes en s
       else do {
         (r, en1, s1) \<leftarrow> handle_again env lru ac ns fuel rot_key cid now_ms n en s;
         (case r of
            Inl _ \<Rightarrow> speculative_round env lru ac ns fuel rot_key cid now_ms nodes en1 s1
          | Inr effects \<Rightarrow>
              if \<not> writes_verified effects then speculative_round env lru ac ns fuel rot_key cid now_ms nodes en1 s1
              else do {
                s2 \<leftarrow> cache_verified env effects s1;
                (_, more, en3, s3) \<leftarrow> speculative_round env lru ac ns fuel rot_key cid now_ms nodes en1 s2;
                Some (True, effects @ more, en3, s3)
              })
       }
     }"

fun reverify_speculative ::
    "('e) adm_env_scheme \<Rightarrow> 'p lru_ops \<Rightarrow> 'q anc_ops \<Rightarrow> ('b, 'm) node_store_scheme \<Rightarrow> nat \<Rightarrow> ('p, 'q, 'b) rotation \<Rightarrow> nat
       \<Rightarrow> conversation_id \<Rightarrow> int \<Rightarrow> ('p, 'q) engine \<Rightarrow> 'b engine_store
       \<Rightarrow> (effect list \<times> ('p, 'q) engine \<times> 'b engine_store) panics" where
  "reverify_speculative env lru ac ns fuel rot_key 0 cid now_ms en s = None"
| "reverify_speculative env lru ac ns fuel rot_key (Suc rounds) cid now_ms en s =
     do {
       speculative \<leftarrow> es_get_speculative_nodes env ns s cid;
       if speculative = [] then Some ([], en, s)
       else do {
         (verified_any, effects, en1, s1) \<leftarrow>
           speculative_round env lru ac ns fuel rot_key cid now_ms speculative en s;
         if \<not> verified_any then Some (effects, en1, s1)
         else do {
           (more, en2, s2) \<leftarrow> reverify_speculative env lru ac ns fuel rot_key rounds cid now_ms en1 s1;
           Some (effects @ more, en2, s2)
         }
       }
     }"

text \<open>\<^verbatim>\<open>reverify_speculative_for_author\<close>; \<open>mark\<close> is the store's \<^verbatim>\<open>mark_verified\<close>, which cannot fail here.\<close>

fun reverify_for_author ::
    "('e) adm_env_scheme \<Rightarrow> 'p lru_ops \<Rightarrow> 'q anc_ops \<Rightarrow> ('b, 'm) node_store_scheme \<Rightarrow> ('b \<Rightarrow> node_hash \<Rightarrow> 'b) \<Rightarrow> nat
       \<Rightarrow> conversation_id \<Rightarrow> public_key \<Rightarrow> int \<Rightarrow> merkle_node list \<Rightarrow> ('p, 'q) engine \<Rightarrow> 'b engine_store
       \<Rightarrow> (effect list \<times> ('p, 'q) engine \<times> 'b engine_store) panics" where
  "reverify_for_author env lru ac ns mark fuel cid author_pk now_ms [] en s = Some ([], en, s)"
| "reverify_for_author env lru ac ns mark fuel cid author_pk now_ms (n # nodes) en s =
     (if nd_author_pk n \<noteq> author_pk then reverify_for_author env lru ac ns mark fuel cid author_pk now_ms nodes en s
      else do {
        (verified, en1, s1) \<leftarrow> verify_node env lru ac ns fuel cid now_ms n en s;
        if \<not> verified then reverify_for_author env lru ac ns mark fuel cid author_pk now_ms nodes en1 s1
        else do {
          h \<leftarrow> mn_hash env n;
          let pending = (case fm_get (en_conversations en1) cid of
                           Some (ConvEstablished _ em) \<Rightarrow> ed_identity_pending em | _ \<Rightarrow> False);
          (more, en2, s2) \<leftarrow> reverify_for_author env lru ac ns mark fuel cid author_pk now_ms nodes en1
                               (s1\<lparr>es_store := mark (es_store s1) h\<rparr>);
          Some ([WriteStore cid n True, EmitEvent (if pending then NodeIdentityPending cid h n else NodeVerified cid h n)]
                  @ more, en2, s2)
        }
      })"

definition reverify_speculative_for_author ::
    "('e) adm_env_scheme \<Rightarrow> 'p lru_ops \<Rightarrow> 'q anc_ops \<Rightarrow> ('b, 'm) node_store_scheme \<Rightarrow> ('b \<Rightarrow> node_hash \<Rightarrow> 'b) \<Rightarrow> nat
       \<Rightarrow> conversation_id \<Rightarrow> public_key \<Rightarrow> int \<Rightarrow> ('p, 'q) engine \<Rightarrow> 'b engine_store
       \<Rightarrow> (effect list \<times> ('p, 'q) engine \<times> 'b engine_store) panics" where
  "reverify_speculative_for_author env lru ac ns mark fuel cid author_pk now_ms en s =
     reverify_for_author env lru ac ns mark fuel cid author_pk now_ms
       (ns_get_speculative_nodes ns (es_store s) cid) en s"

section \<open>Opaque nodes again\<close>

text \<open>\<^verbatim>\<open>swap_remove\<close> of the entry of a hash; the usage is a \<^verbatim>\<open>usize\<close>.\<close>

definition untrack_opaque :: "conversation_id \<Rightarrow> node_hash \<Rightarrow> ('p, 'q) engine \<Rightarrow> ('p, 'q) engine panics" where
  "untrack_opaque cid h en =
     (case fm_get (en_opaque_store_usage en) cid of
        None \<Rightarrow> Some en
      | Some (usage, entries) \<Rightarrow>
          (case find (\<lambda>i. fst (entries ! i) = h) [0..<length entries] of
             None \<Rightarrow> Some en
           | Some pos \<Rightarrow>
               do {
                 usage' \<leftarrow> sub_u64 usage (fst (snd (entries ! pos)));
                 Some (en\<lparr>en_opaque_store_usage := fm_set (en_opaque_store_usage en) cid
                           (usage', butlast (entries[pos := last entries]))\<rparr>)
               }))"

definition unpack_opaque ::
    "('e) wire_env_scheme \<Rightarrow> established \<Rightarrow> wire_node \<Rightarrow> (public_key \<times> public_key) list \<Rightarrow> merkle_node option panics" where
  "unpack_opaque env em w all_senders =
     do {
       r \<leftarrow> identify_sender_and_unpack env em w all_senders;
       (case r of Some n \<Rightarrow> Some (Some n) | None \<Rightarrow> try_unpack_history_export env em w all_senders)
     }"

text \<open>A node that unpacks leaves the store; it stays in the cache while it is handled.\<close>

definition promote_opaque ::
    "('e) adm_env_scheme \<Rightarrow> 'p lru_ops \<Rightarrow> 'q anc_ops \<Rightarrow> ('b, 'm) node_store_scheme \<Rightarrow> nat \<Rightarrow> ('p, 'q, 'b) rotation
       \<Rightarrow> conversation_id \<Rightarrow> int \<Rightarrow> node_hash \<Rightarrow> wire_node \<Rightarrow> merkle_node \<Rightarrow> ('p, 'q) engine \<Rightarrow> 'b engine_store
       \<Rightarrow> (bool \<times> effect list \<times> ('p, 'q) engine \<times> 'b engine_store) panics" where
  "promote_opaque env lru ac ns fuel rot_key cid now_ms h w n en s =
     do {
       en1 \<leftarrow> untrack_opaque cid h en;
       let (_, b) = ns_remove_wire_node ns (es_store s) cid h;
       let s1 = es_put_wire_node (s\<lparr>es_store := b\<rparr>) cid h w;
       (r, en2, s2) \<leftarrow> handle_again env lru ac ns fuel rot_key cid now_ms n en1 s1;
       let s3 = s2\<lparr>es_cache := (es_cache s2)\<lparr>pc_wire_nodes := fm_del (pc_wire_nodes (es_cache s2)) h\<rparr>\<rparr>;
       Some (case r of
               Inr effects \<Rightarrow> (True, DeleteWireNode cid h # effects, en2, s3)
             | Inl _ \<Rightarrow> (False, [DeleteWireNode cid h], en2, s3))
     }"

fun opaque_round ::
    "('e) adm_env_scheme \<Rightarrow> 'p lru_ops \<Rightarrow> 'q anc_ops \<Rightarrow> ('b, 'm) node_store_scheme \<Rightarrow> nat \<Rightarrow> ('p, 'q, 'b) rotation
       \<Rightarrow> conversation_id \<Rightarrow> int \<Rightarrow> established \<Rightarrow> node_hash list \<Rightarrow> ('p, 'q) engine \<Rightarrow> 'b engine_store
       \<Rightarrow> (bool \<times> effect list \<times> ('p, 'q) engine \<times> 'b engine_store) panics" where
  "opaque_round env lru ac ns fuel rot_key cid now_ms em [] en s = Some (False, [], en, s)"
| "opaque_round env lru ac ns fuel rot_key cid now_ms em (h # hs) en s =
     (if h \<in> set (en_promotion_locked en) then opaque_round env lru ac ns fuel rot_key cid now_ms em hs en s
      else (case es_get_wire_node ns s h of
              None \<Rightarrow> opaque_round env lru ac ns fuel rot_key cid now_ms em hs en s
            | Some w \<Rightarrow>
                do {
                  let locked = en\<lparr>en_promotion_locked := hs_insert h (en_promotion_locked en)\<rparr>;
                  unpacked \<leftarrow> unpack_opaque env em w (list_all_authorized_sender_pairs (en_identity locked) cid);
                  (progress, effects, en1, s1) \<leftarrow>
                    (case unpacked of
                       None \<Rightarrow> Some (False, [], locked, s)
                     | Some n \<Rightarrow> promote_opaque env lru ac ns fuel rot_key cid now_ms h w n locked s);
                  (more_progress, more, en2, s2) \<leftarrow>
                    opaque_round env lru ac ns fuel rot_key cid now_ms em hs
                      (en1\<lparr>en_promotion_locked := hs_remove h (en_promotion_locked en1)\<rparr>) s1;
                  Some (progress \<or> more_progress, effects @ more, en2, s2)
                }))"

fun reverify_opaque_nodes ::
    "('e) adm_env_scheme \<Rightarrow> 'p lru_ops \<Rightarrow> 'q anc_ops \<Rightarrow> ('b, 'm) node_store_scheme \<Rightarrow> nat \<Rightarrow> ('p, 'q, 'b) rotation \<Rightarrow> nat
       \<Rightarrow> conversation_id \<Rightarrow> int \<Rightarrow> ('p, 'q) engine \<Rightarrow> 'b engine_store
       \<Rightarrow> (effect list \<times> ('p, 'q) engine \<times> 'b engine_store) panics" where
  "reverify_opaque_nodes env lru ac ns fuel rot_key 0 cid now_ms en s = None"
| "reverify_opaque_nodes env lru ac ns fuel rot_key (Suc rounds) cid now_ms en s =
     (case fm_get (en_conversations en) cid of
        Some (ConvEstablished _ em) \<Rightarrow>
          do {
            (progress, effects, en1, s1) \<leftarrow>
              opaque_round env lru ac ns fuel rot_key cid now_ms em
                (case es_get_opaque_node_hashes ns s cid of Inr hs \<Rightarrow> hs | Inl _ \<Rightarrow> []) en s;
            if \<not> progress then Some (effects, en1, s1)
            else do {
              (more, en2, s2) \<leftarrow> reverify_opaque_nodes env lru ac ns fuel rot_key rounds cid now_ms en1 s1;
              Some (effects @ more, en2, s2)
            }
          }
      | _ \<Rightarrow> Some ([], en, s))"

section \<open>All of it\<close>

text \<open>\<^verbatim>\<open>handle_node_internal_ext\<close> with \<^verbatim>\<open>reverify = true\<close>, as it is called for a node that arrives.\<close>

definition handle_node_internal_ext ::
    "('e) adm_env_scheme \<Rightarrow> 'p lru_ops \<Rightarrow> 'q anc_ops \<Rightarrow> ('b, 'm) node_store_scheme \<Rightarrow> nat \<Rightarrow> ('p, 'q, 'b) rotation \<Rightarrow> nat
       \<Rightarrow> conversation_id \<Rightarrow> int \<Rightarrow> merkle_node \<Rightarrow> ('p, 'q) engine \<Rightarrow> 'b engine_store
       \<Rightarrow> (effect list merkle_result \<times> ('p, 'q) engine \<times> 'b engine_store) panics" where
  "handle_node_internal_ext env lru ac ns fuel rot_key rounds cid now_ms n en s =
     do {
       (r, en1, s1) \<leftarrow> process_node env lru ac ns fuel rot_key cid True now_ms n en s;
       (case r of
          Inl e \<Rightarrow> Some (Inl e, en1, s1)
        | Inr None \<Rightarrow> Some (Inr [], en1, s1)
        | Inr (Some (effects, verified, authentic)) \<Rightarrow>
            do {
              h \<leftarrow> mn_hash env n;
              (more, en2, s2) \<leftarrow>
                (if authentic \<or> verified
                 then do {
                   (e1, en2, s2) \<leftarrow> reverify_opaque_nodes env lru ac ns fuel rot_key rounds cid now_ms en1 s1;
                   (e2, en3, s3) \<leftarrow> reverify_speculative env lru ac ns fuel rot_key rounds cid now_ms en2 s2;
                   Some (e1 @ e2, en3, s3)
                 }
                 else Some ([], en1, s1));
              Some (Inr (effects @ more @ announce_node en2 cid n h verified), en2, s2)
            })
     }"

definition handle_node ::
    "('e) adm_env_scheme \<Rightarrow> 'p lru_ops \<Rightarrow> 'q anc_ops \<Rightarrow> ('b, 'm) node_store_scheme \<Rightarrow> nat \<Rightarrow> ('p, 'q, 'b) rotation \<Rightarrow> nat
       \<Rightarrow> conversation_id \<Rightarrow> int \<Rightarrow> merkle_node \<Rightarrow> ('p, 'q) engine \<Rightarrow> 'b engine_store
       \<Rightarrow> (effect list merkle_result \<times> ('p, 'q) engine \<times> 'b engine_store) panics" where
  "handle_node env lru ac ns fuel rot_key rounds cid now_ms n en s =
     handle_node_internal_ext env lru ac ns fuel rot_key rounds cid now_ms n en (s\<lparr>es_cache := pc_clear (es_cache s)\<rparr>)"

end
