(* ===== verification/Admission_Run.thy ===== *)
theory Admission_Run
  imports Admission
begin

text \<open>
  What the admission of nodes guarantees: the structure of the verified history, whatever else the
  store holds, and what a node must have passed to be verified.
\<close>

section \<open>The walk over distances leaves the nodes alone\<close>

locale quiet_memo =
  fixes ops :: "'s memo_ops"
    and P :: "'s \<Rightarrow> bool"
  assumes set_keeps: "P s \<Longrightarrow> P (mo_set ops s h d)"
    and else_keeps: "P s \<Longrightarrow> mo_else ops s h = Some (r, s') \<Longrightarrow> P s'"
begin

lemma distance_keeps_aux:
  "ops' = ops \<Longrightarrow> P s \<Longrightarrow> admin_distance ops' fuel s h = Some (d, s') \<Longrightarrow> P s'"
  "ops' = ops \<Longrightarrow> P s \<Longrightarrow> parents_distance ops' fuel s ps m = Some (k, s') \<Longrightarrow> P s'"
proof (induction ops' fuel s h and ops' fuel s ps m arbitrary: d s' and k s'
    rule: admin_distance_parents_distance.induct)
  case (2 ops' fuel s h)
  note IH = 2(1) [OF _ _ _ 2(2,3)]
  from 2(2-4) show ?case
    by (auto split: option.splits if_splits bind_splits intro: else_keeps intro!: set_keeps intro: IH [unfolded 2(2)])
next
  case (4 ops' fuel s p ps m)
  from 4(3-5) show ?case by (auto split: bind_splits intro: 4(1,2))
qed auto

lemmas distance_keeps = distance_keeps_aux [OF refl]

end

text \<open>Two states that differ in the memos only.\<close>

definition same_base :: "in_memory_store \<Rightarrow> in_memory_store \<Rightarrow> bool" where
  "same_base b b' \<longleftrightarrow> (\<exists>c. b' = b\<lparr>ims_admin_distance_cache := c\<rparr>)"

definition same_nodes :: "in_memory_store engine_store \<Rightarrow> in_memory_store engine_store \<Rightarrow> bool" where
  "same_nodes s s' \<longleftrightarrow> same_base (es_store s) (es_store s')
     \<and> (\<exists>d. es_cache s' = (es_cache s)\<lparr>pc_admin_distances := d\<rparr>)"

lemma same_base_refl [simp]: "same_base b b"
  unfolding same_base_def by (rule exI [of _ "ims_admin_distance_cache b"]) simp

lemma same_base_trans: "same_base a b \<Longrightarrow> same_base b c \<Longrightarrow> same_base a c"
  by (auto simp: same_base_def)

lemma same_nodes_refl [simp]: "same_nodes s s"
  unfolding same_nodes_def by (intro conjI same_base_refl exI [of _ "pc_admin_distances (es_cache s)"]) simp

interpretation ims_quiet: quiet_memo ims_memo "same_base b" for b
  by unfold_locales (auto simp: ims_memo_def same_base_def)

interpretation es_quiet: quiet_memo "es_memo (ims_store env fuel)" "same_nodes s" for env :: "'e dag_env_scheme" and fuel s
proof unfold_locales
  fix t t' h r
  assume t: "same_nodes s t" and r: "mo_else (es_memo (ims_store env fuel)) t h = Some (r, t')"
  then obtain b where b: "admin_distance ims_memo fuel (es_store t) h = Some (r, b)" "t' = t\<lparr>es_store := b\<rparr>"
    by (auto simp: es_memo_def ims_store_def split: bind_splits)
  have "same_base (es_store s) b"
    using same_base_trans [OF _ ims_quiet.distance_keeps(1) [OF same_base_refl b(1)]] t by (auto simp: same_nodes_def)
  with t b show "same_nodes s t'" by (auto simp: same_nodes_def)
qed (auto simp: es_memo_def same_nodes_def)

lemma min_parent_distance_keeps:
  "same_nodes s t \<Longrightarrow>
     min_parent_distance (admin_distance (es_memo (ims_store env fuel)) f) t ps m = Some (r, t') \<Longrightarrow> same_nodes s t'"
proof (induction ps arbitrary: t m)
  case (Cons p ps)
  then show ?case
    by (auto split: bind_splits option.splits dest: es_quiet.distance_keeps(1))
qed simp

lemma validate_keeps:
  assumes "validate env (es_lookup (ims_store env' fuel) f) s n = Some (r, s')"
  shows "same_nodes s s'"
proof -
  from assms have "s' = s \<or> check_ancestry (admin_distance (es_memo (ims_store env' fuel)) f) s n = Some (r, s')"
    by (auto simp: validate_def es_lookup_def split: bind_splits sum.splits)
  then show ?thesis
    by (auto simp: check_ancestry_def split: bind_splits if_splits sum.splits intro: min_parent_distance_keeps [OF same_nodes_refl])
qed

lemma same_nodes_answers:
  assumes "same_nodes s s'"
  shows "es_get_node (ims_store env fuel) s' = es_get_node (ims_store env fuel) s"
    and "es_is_verified (ims_store env fuel) s' = es_is_verified (ims_store env fuel) s"
    and "engine_view s' = engine_view s"
  using assms
  by (auto simp: same_nodes_def same_base_def es_get_node_def es_is_verified_def ims_store_def es_view_def ims_get_node_def
      ims_is_verified_def fun_eq_iff)

section \<open>The structure of verified nodes\<close>

text \<open>What validation checks of the links of a node, as a rule on the history.\<close>

definition linked :: "history \<Rightarrow> ('z) node_data_scheme \<Rightarrow> bool" where
  "linked V n \<longleftrightarrow>
     length (nd_parents n) \<le> MAX_PARENTS \<and> distinct (nd_parents n)
     \<and> set (nd_parents n) \<subseteq> dom V
     \<and> nd_topological_rank n = expected_rank V (nd_parents n)
     \<and> (node_type_of n = Admin \<and> \<not> is_soft_anchor (nd_content n)
          \<longrightarrow> (\<forall>p \<in> set (nd_parents n). \<exists>m. V p = Some m \<and> node_type_of m = Admin))
     \<and> (\<forall>b c. nd_content n = Control (SoftAnchor b c) \<longrightarrow> nd_parents n = [b])"

text \<open>Hashes of the nodes at hand do not collide; the nonce of the first work format is not hashed.\<close>

definition collision_free :: "('e) dag_env_scheme \<Rightarrow> bool" where
  "collision_free env \<longleftrightarrow>
     (\<forall>m n h. mn_hash env m = Some h \<longrightarrow> mn_hash env n = Some h \<longrightarrow> node_data.truncate m = node_data.truncate n)"

definition keyed :: "('e) dag_env_scheme \<Rightarrow> in_memory_store engine_store \<Rightarrow> bool" where
  "keyed env s \<longleftrightarrow> fm_all (\<lambda>h n. mn_hash env n = Some h) (pc_nodes (es_cache s))
     \<and> fm_all (\<lambda>h (n, _). mn_hash env n = Some h) (ims_nodes (es_store s))"

definition verified_linked :: "history \<Rightarrow> (node_hash \<Rightarrow> bool) \<Rightarrow> bool" where
  "verified_linked V verified \<longleftrightarrow> (\<forall>h. verified h \<longrightarrow> (\<exists>n. V h = Some n \<and> linked V n))"

definition sound_store :: "('e) dag_env_scheme \<Rightarrow> in_memory_store engine_store \<Rightarrow> bool" where
  "sound_store env s \<longleftrightarrow>
     keyed env s \<and> verified_linked (engine_view s) (es_is_verified (ims_store env 0) s)"

text \<open>The answers do not depend on the parameters of the store; all are read with the same ones.\<close>

lemma store_answers:
  "es_get_node (ims_store env fuel) = es_get_node (ims_store env 0)"
  "es_is_verified (ims_store env fuel) = es_is_verified (ims_store env 0)"
  by (simp_all add: es_get_node_def es_is_verified_def ims_store_def fun_eq_iff)

lemma engine_view_get: "engine_view s h = map_option node_data.truncate (es_get_node (ims_store env fuel) s h)"
  by (auto simp: es_view_def es_get_node_def ims_view_def ims_store_def ims_get_node_def or_else_def map_add_def
      option.map_comp comp_def case_prod_unfold split: option.splits)

lemma linked_truncate [simp]: "linked V (node_data.truncate n) = linked V n"
  by (simp add: linked_def)

lemma linked_mono:
  assumes "linked V n" "V \<subseteq>\<^sub>m V'"
  shows "linked V' n"
proof -
  from assms(1) have dom: "set (nd_parents n) \<subseteq> dom V" by (simp add: linked_def)
  then have "set (nd_parents n) \<subseteq> dom V'" using map_le_implies_dom_le [OF assms(2)] by blast
  moreover have "expected_rank V' (nd_parents n) = expected_rank V (nd_parents n)"
    using assms(2) dom by (rule expected_rank_mono)
  moreover have "\<exists>m. V' p = Some m \<and> node_type_of m = Admin" if "\<exists>m. V p = Some m \<and> node_type_of m = Admin" for p
    using that map_leD [OF assms(2)] by blast
  ultimately show ?thesis using assms(1) unfolding linked_def by auto
qed

lemma linked_parent_rank: "linked V n \<Longrightarrow> p \<in> set (nd_parents n) \<Longrightarrow> rank_in V p < nd_topological_rank n"
  by (auto simp: linked_def expected_rank_def less_Suc_eq_le intro!: Max_ge split: if_splits)

lemma verified_linked_mono:
  "verified_linked V ver \<Longrightarrow> V \<subseteq>\<^sub>m V' \<Longrightarrow> (\<And>h. ver' h \<Longrightarrow> ver h \<or> (\<exists>n. V' h = Some n \<and> linked V' n)) \<Longrightarrow>
     verified_linked V' ver'"
  unfolding verified_linked_def by (meson linked_mono map_leD)

lemma validate_linked:
  assumes "validate env (es_lookup (ims_store env' fuel) f) s n = Some (Inr (), s')"
  shows "linked (engine_view s) n"
proof -
  let ?lk = "es_lookup (ims_store env' fuel) f"
  have ranks: "lk_rank ?lk s = (\<lambda>h. map_option nd_topological_rank (engine_view s h))"
    and types: "lk_node_type ?lk s = (\<lambda>h. map_option node_type_of (engine_view s h))"
    by (auto simp: fun_eq_iff es_lookup_def es_get_rank_def es_get_node_type_def es_view_def ims_store_def ims_get_rank_def
        ims_get_node_type_def ims_view_def or_else_def map_add_def
        option.map_comp comp_def case_prod_unfold split: option.splits)
  from assms have limits: "check_limits env n = Inr ()"
    and rank: "check_rank (lk_rank ?lk s) n = Some (Inr ())"
    and iso: "check_isolation (lk_node_type ?lk s) n = Inr ()"
    and soft: "check_soft_anchor (lk_soft_anchor_chain ?lk s) n = Some (Inr ())"
    by (auto simp: validate_def and_then_def split: bind_splits sum.splits)
  from rank have miss: "filter (\<lambda>p. lk_rank ?lk s p = None) (nd_parents n) = []"
    by (auto simp: check_rank_def parent_ranks_eq split: if_splits)
  then have dom: "set (nd_parents n) \<subseteq> dom (engine_view s)" by (auto simp: ranks filter_empty_conv)
  then have "\<forall>p \<in> set (nd_parents n). lk_rank ?lk s p = Some (rank_in (engine_view s) p)"
    by (auto simp: ranks rank_in_def)
  from fold_max_ranks [OF this] rank miss have "nd_topological_rank n = expected_rank (engine_view s) (nd_parents n)"
    by (auto simp: check_rank_def parent_ranks_eq expected_rank_def add_u64_def split: if_splits bind_splits)
  moreover have "nd_parents n = [b]" if "nd_content n = Control (SoftAnchor b c)" for b c
    using soft that by (auto simp: check_soft_anchor_def split: if_splits)
  moreover have "node_type_of n = Admin \<and> \<not> is_soft_anchor (nd_content n)
      \<longrightarrow> (\<forall>p \<in> set (nd_parents n). \<exists>m. engine_view s p = Some m \<and> node_type_of m = Admin)"
    using iso by (auto simp: check_isolation_def check_admin_parents_ok types)
  ultimately show ?thesis using dom check_limits_ok [OF limits] by (simp add: linked_def)
qed

section \<open>Writes to the store\<close>

lemma collision_freeD:
  "collision_free env \<Longrightarrow> mn_hash env m = Some h \<Longrightarrow> mn_hash env n = Some h \<Longrightarrow> node_data.truncate m = node_data.truncate n"
  unfolding collision_free_def by blast

lemma keyed_view:
  assumes "collision_free env" "keyed env s" "mn_hash env n = Some h" "h \<in> dom (engine_view s)"
  shows "engine_view s h = Some (node_data.truncate n)"
proof (cases "fm_get (pc_nodes (es_cache s)) h")
  case (Some m)
  with assms(2) have "mn_hash env m = Some h" by (auto simp: keyed_def dest: fm_all_get)
  from collision_freeD [OF assms(1) this assms(3)] Some show ?thesis by (simp add: es_view_cached)
next
  case None
  then have v: "engine_view s h = ims_view (es_store s) h" by (rule es_view_stored)
  with assms(4) obtain m b where m: "fm_get (ims_nodes (es_store s)) h = Some (m, b)"
    by (cases "fm_get (ims_nodes (es_store s)) h") (auto simp: ims_view_def)
  with assms(2) have "mn_hash env m = Some h" by (auto simp: keyed_def dest: fm_all_get)
  from collision_freeD [OF assms(1) this assms(3)] m v show ?thesis by (simp add: ims_view_def)
qed

lemma sound_same_nodes: "same_nodes s s' \<Longrightarrow> sound_store env s' \<longleftrightarrow> sound_store env s"
  using same_nodes_answers(2) [of s s' env 0] same_nodes_answers(3) [of s s']
  by (auto simp: sound_store_def keyed_def same_nodes_def same_base_def)

lemma es_put_verified:
  "es_is_verified ns (es_put_hashed s cid h n v) k \<longleftrightarrow> es_is_verified ns s k \<or> (v \<and> k = h)"
  by (auto simp: es_is_verified_def es_put_hashed_def Let_def hs_insert_def)

lemma sound_put:
  assumes "collision_free env" "sound_store env s" "mn_hash env n = Some h" "v \<Longrightarrow> linked (engine_view s) n"
  shows "sound_store env (es_put_hashed s cid h n v)"
    and "engine_view s \<subseteq>\<^sub>m engine_view (es_put_hashed s cid h n v)"
proof -
  have fresh: "engine_view s h = None \<or> engine_view s h = Some (node_data.truncate n)"
    using keyed_view [OF assms(1) _ assms(3)] assms(2) by (auto simp: sound_store_def)
  then show le: "engine_view s \<subseteq>\<^sub>m engine_view (es_put_hashed s cid h n v)"
    by (auto simp: es_view_put map_le_def)
  have "keyed env (es_put_hashed s cid h n v)"
    using assms(2,3) by (auto simp: sound_store_def keyed_def es_put_hashed_def Let_def intro!: fm_all_set)
  moreover have "verified_linked (engine_view (es_put_hashed s cid h n v))
      (es_is_verified (ims_store env 0) (es_put_hashed s cid h n v))"
    using assms(2,4) le
    by (intro verified_linked_mono [OF _ le]) (auto simp: sound_store_def es_put_verified es_view_put intro: linked_mono)
  ultimately show "sound_store env (es_put_hashed s cid h n v)" by (simp add: sound_store_def)
qed

lemma es_mark_frame:
  "engine_view (es_mark_verified s cid h) = engine_view s"
  "keyed env (es_mark_verified s cid h) = keyed env s"
  by (auto simp: es_mark_verified_def Let_def es_view_def keyed_def split: option.splits)

lemma es_mark_verified_iff:
  "es_is_verified ns (es_mark_verified s cid h) k \<longleftrightarrow> es_is_verified ns s k \<or> k = h"
  by (auto simp: es_mark_verified_def Let_def es_is_verified_def hs_insert_def split: option.splits)

lemma sound_mark:
  assumes "sound_store env s" "engine_view s h = Some n" "linked (engine_view s) n"
  shows "sound_store env (es_mark_verified s cid h)"
  using assms by (auto simp: sound_store_def es_mark_frame es_mark_verified_iff verified_linked_def)

text \<open>A write of the application, of a node the engine has.\<close>

definition write_node :: "in_memory_store engine_store \<Rightarrow> node_hash \<Rightarrow> merkle_node \<Rightarrow> bool \<Rightarrow> in_memory_store engine_store" where
  "write_node s h n v = s\<lparr>es_store := ims_put_hashed (es_store s) h n v\<rparr>"

lemma sound_write:
  assumes "collision_free env" "sound_store env s" "mn_hash env n = Some h" "h \<in> dom (engine_view s)"
    and "v \<Longrightarrow> es_is_verified (ims_store env 0) s h"
  shows "sound_store env (write_node s h n v)" and "engine_view (write_node s h n v) = engine_view s"
proof -
  have h: "engine_view s h = Some (node_data.truncate n)"
    using assms by (intro keyed_view) (auto simp: sound_store_def)
  then show view: "engine_view (write_node s h n v) = engine_view s"
    by (auto simp: fun_eq_iff write_node_def es_view_def ims_view_def ims_put_hashed_def map_add_def split: option.splits)
  have "keyed env (write_node s h n v)"
    using assms(2,3) by (auto simp: sound_store_def keyed_def write_node_def ims_put_hashed_def intro!: fm_all_set)
  moreover have "es_is_verified (ims_store env 0) s k" if "es_is_verified (ims_store env 0) (write_node s h n v) k" for k
    using that assms(5)
    by (auto simp: es_is_verified_def ims_store_def ims_is_verified_def write_node_def ims_put_hashed_def
        split: option.splits if_splits)
  ultimately show "sound_store env (write_node s h n v)"
    using assms(2) by (auto simp: sound_store_def view verified_linked_def)
qed

section \<open>Handling keeps the structure\<close>

text \<open>The relation between the store before and after a step.\<close>

definition grows :: "('e) dag_env_scheme \<Rightarrow> in_memory_store engine_store \<Rightarrow> in_memory_store engine_store \<Rightarrow> bool" where
  "grows env s s' \<longleftrightarrow>
     (sound_store env s \<longrightarrow> sound_store env s' \<and> engine_view s \<subseteq>\<^sub>m engine_view s'
        \<and> (\<forall>h. es_is_verified (ims_store env 0) s h \<longrightarrow> es_is_verified (ims_store env 0) s' h))"

text \<open>The nodes that effects write as verified are verified.\<close>

definition writes_ok :: "('e) dag_env_scheme \<Rightarrow> effect list \<Rightarrow> in_memory_store engine_store \<Rightarrow> bool" where
  "writes_ok env effects s \<longleftrightarrow>
     (\<forall>cid n. WriteStore cid n True \<in> set effects
        \<longrightarrow> (\<exists>h. mn_hash env n = Some h \<and> es_is_verified (ims_store env 0) s h))"

text \<open>
  A rotation of keys authors nodes, and \<^verbatim>\<open>authoring.rs\<close> is not modelled. The lemmas hold for every rotation that keeps the
  structure; they are used for runs in which no rotation takes place: \<open>no_rotation\<close> returns nothing, so
  a step that calls it is not a step of the run.
\<close>

definition keeps_sound :: "('e) dag_env_scheme \<Rightarrow> ('p, 'q, in_memory_store) rotation \<Rightarrow> bool" where
  "keeps_sound env rot_key \<longleftrightarrow>
     (\<forall>revoked cid now_ms en s r en' s'. sound_store env s \<longrightarrow> rot_key revoked cid now_ms en s = Some (r, en', s')
        \<longrightarrow> grows env s s' \<and> (\<forall>effects. r = Inr effects \<longrightarrow> writes_ok env effects s'))"

definition no_rotation :: "('p, 'q, 'b) rotation" where
  "no_rotation = (\<lambda>_ _ _ _ _. None)"

lemma no_rotation_sound: "keeps_sound env no_rotation"
  by (simp add: keeps_sound_def no_rotation_def)

lemma grows_refl [simp]: "grows env s s"
  by (simp add: grows_def)

lemma grows_trans [trans]: "grows env s t \<Longrightarrow> grows env t u \<Longrightarrow> grows env s u"
  by (auto simp: grows_def intro: map_le_trans)

lemma grows_same: "same_nodes s s' \<Longrightarrow> grows env s s'"
  using same_nodes_answers(2) [of s s' env 0] same_nodes_answers(3) [of s s'] by (auto simp: grows_def sound_same_nodes)

text \<open>A step that leaves the nodes and their status alone.\<close>

lemma grows_frame:
  assumes "ims_nodes (es_store s') = ims_nodes (es_store s)" "pc_nodes (es_cache s') = pc_nodes (es_cache s)"
    and "pc_verified (es_cache s') = pc_verified (es_cache s)"
  shows "grows env s s'"
proof -
  have "ims_view (es_store s') = ims_view (es_store s)" using assms by (simp add: ims_view_def fun_eq_iff)
  then have "engine_view s' = engine_view s" using assms by (simp add: es_view_def)
  moreover have "es_is_verified (ims_store env 0) s' = es_is_verified (ims_store env 0) s"
    using assms by (simp add: es_is_verified_def ims_store_def ims_is_verified_def fun_eq_iff)
  ultimately show ?thesis using assms by (simp add: grows_def sound_store_def keyed_def)
qed

lemma update_heads_grows: "update_heads ns cid n h s = (e, s') \<Longrightarrow> grows env s s'"
  by (rule grows_frame) (auto simp: update_heads_def Let_def es_set_heads_def es_set_admin_heads_def split: if_splits)

lemma rotate_quietly_grows:
  "keeps_sound env rot_key \<Longrightarrow> rotate_quietly rot_key revoked cid now_ms en s = Some (e, en', s') \<Longrightarrow> grows env s s'"
  by (auto simp: rotate_quietly_def keeps_sound_def grows_def split: bind_splits)

lemma handle_pulse_grows:
  "keeps_sound env rot_key \<Longrightarrow> handle_pulse rot_key ctx cid now_ms n en s = Some (e, en', s') \<Longrightarrow> grows env s s'"
  by (auto simp: handle_pulse_def Let_def case_prod_unfold split: bind_splits if_splits intro: rotate_quietly_grows)

lemma apply_content_grows:
  assumes "keeps_sound env rot_key" "apply_content env' lru rot_key ctx cid now_ms n h en s = Some (r, en', s')"
  shows "grows env s s'"
  using assms(2) unfolding apply_content_def
  by (auto simp: Let_def split: content.splits control_action.splits prod.splits sum.splits if_splits bind_splits
      intro: rotate_quietly_grows [OF assms(1)] handle_pulse_grows [OF assms(1)])

lemma apply_side_effects_grows:
  assumes "keeps_sound env rot_key"
    and "apply_side_effects env' lru ac ns fuel rot_key cid now_ms n en s = Some (r, en', s')"
  shows "grows env s s'"
proof -
  from assms(2) obtain ctx h en0 r1 en1 s1
    where 1: "apply_content env' lru rot_key ctx cid now_ms n h en0 s = Some (r1, en1, s1)"
      and 2: "s' = s1 \<or> (\<exists>e. update_heads ns cid n h s1 = (e, s'))"
    by (auto simp: apply_side_effects_def case_prod_unfold Let_def prod_eq_iff split: bind_splits sum.splits)
  from 2 have "grows env s1 s'" by (auto intro: update_heads_grows)
  with apply_content_grows [OF assms(1) 1] show ?thesis by (rule grows_trans)
qed

lemma verify_node_grows:
  assumes "collision_free env" "mn_hash env n = Some h" "h \<in> dom (engine_view s)"
    and "verify_node env lru ac (ims_store env' f) fuel cid now_ms n en s = Some (v, en', s')"
  shows "grows env s s'" and "engine_view s' = engine_view s"
proof -
  from assms(4,2) obtain r s1 where val: "validate env (es_lookup (ims_store env' f) fuel) s n = Some (r, s1)"
    and s': "s' = s1 \<or> (structure_of r = Inr True \<and> s' = es_mark_verified s1 cid h)"
    by (auto simp: verify_node_def Let_def case_prod_unfold prod_eq_iff split: bind_splits sum.splits if_splits)
  have same: "same_nodes s s1" by (rule validate_keeps [OF val])
  note view = same_nodes_answers(3) [OF same]
  from s' view show "engine_view s' = engine_view s" by (auto simp: es_mark_frame)
  show "grows env s s'"
  proof (cases "s' = s1")
    case True
    with same show ?thesis by (simp add: grows_same)
  next
    case False
    with s' have "r = Inr ()" by (auto simp: structure_of_def split: sum.splits validation_error.splits)
    with val have "linked (engine_view s) n" by (auto intro: validate_linked)
    then have "sound_store env (es_mark_verified s1 cid h)" if "sound_store env s"
      using that assms(1-3) keyed_view [of env s n h] view sound_same_nodes [OF same, of env]
      by (intro sound_mark [of _ _ _ "node_data.truncate n"]) (auto simp: sound_store_def)
    with False s' view same_nodes_answers(2) [OF same, of env 0] show ?thesis by (auto simp: grows_def es_mark_frame es_mark_verified_iff)
  qed
qed

lemma revalidate_nodes_grows:
  assumes "collision_free env"
    and "revalidate_nodes env lru ac (ims_store env' f) fuel cid now_ms nodes en s = Some (e, en', s')"
    and "\<forall>n \<in> set nodes. \<exists>h. mn_hash env n = Some h \<and> h \<in> dom (engine_view s)"
  shows "grows env s s'"
  using assms(2,3)
proof (induction nodes arbitrary: en s e)
  case (Cons n nodes)
  then obtain h where h: "mn_hash env n = Some h" "h \<in> dom (engine_view s)" by auto
  from Cons.prems(1) obtain v en1 s1 e2 where
    v: "verify_node env lru ac (ims_store env' f) fuel cid now_ms n en s = Some (v, en1, s1)"
    and rest: "revalidate_nodes env lru ac (ims_store env' f) fuel cid now_ms nodes en1 s1 = Some (e2, en', s')"
    by (auto split: bind_splits)
  note step = verify_node_grows [OF assms(1) h v]
  from step(1) have "grows env s s1" .
  also from rest Cons.prems(2) step(2) have "grows env s1 s'" by (intro Cons.IH) auto
  finally show ?case .
qed simp

lemma verified_nodes_stored:
  assumes "keyed env s" "ns_get_verified_nodes_by_type (ims_store env' f) (es_store s) cid ty = Inr nodes" "n \<in> set nodes"
  shows "\<exists>h. mn_hash env n = Some h \<and> h \<in> dom (engine_view s)"
proof -
  from assms(2,3) obtain h v where nv: "(h, (n, v)) \<in> set (ims_nodes (es_store s))"
    by (auto simp: ims_store_def ims_get_verified_nodes_by_type_def fm_values_def)
  with assms(1) have "mn_hash env n = Some h" by (auto simp: keyed_def fm_all_def)
  moreover from nv have "fm_get (ims_nodes (es_store s)) h \<noteq> None"
    unfolding fm_get_None_iff by force
  then have "h \<in> dom (engine_view s)" by (auto simp: es_view_def ims_view_def)
  ultimately show ?thesis by blast
qed

lemma revalidate_all_grows:
  assumes "collision_free env"
    and "revalidate_all_verified_nodes env lru ac (ims_store env' f) fuel cid now_ms en s = Some (e, en', s')"
  shows "grows env s s'"
proof (cases "sound_store env s")
  case True
  then have "keyed env s" by (simp add: sound_store_def)
  with assms show ?thesis
    unfolding revalidate_all_verified_nodes_def Let_def
    by (elim revalidate_nodes_grows [rotated]) (auto split: sum.splits intro: verified_nodes_stored [OF _ sym])
qed (simp add: grows_def)

lemma settle_node_cases:
  assumes "settle_node env lru ns cid ctx n h authorized valid quarantine en s = Some (r, en', s')"
  obtains (full) "r = Inl TooManySpeculativeNodes" "s' = s"
    | (stored) verified authentic v0 en1 where "r = Inr (verified, authentic)" "s' = es_put_hashed s cid h n verified"
      "authentic_of env en cid n (es_get_wire_node ns s h) = Some authentic"
      "decide env lru en ctx cid n h authorized authentic valid quarantine = (v0, en1)"
      "dedup_soft_anchor en1 cid n v0 = (verified, en')"
  using assms unfolding settle_node_def
  by (auto simp: Let_def split: bind_splits if_splits prod.splits)

lemma decide_verified:
  assumes "decide env lru en ctx cid n h authorized authentic valid quarantine = (True, en')"
  shows "valid" "\<not> quarantine" "authorized \<Longrightarrow> authentic"
  using assms
  by (auto simp: decide_def Let_def case_prod_unfold split: if_splits content.splits control_action.splits)

lemma dedup_verified: "dedup_soft_anchor en cid n v = (True, en') \<Longrightarrow> v"
  by (auto simp: dedup_soft_anchor_def Let_def case_prod_unfold split: if_splits content.splits control_action.splits)

lemma process_node_cases:
  assumes "process_node env lru ac ns fuel rot_key cid reverify now_ms n en s = Some (r, en', s')"
  obtains (known) "r = Inr None" "en' = en" "s' = s"
    | (rejected) vr s1 e where "validate env (es_lookup ns fuel) s n = Some (vr, s1)" "r = Inl e" "s' = s1"
    | (admitted) h vr s1 valid en1 found
      where "mn_hash env n = Some h" "\<not> es_is_verified ns s h"
        "validate env (es_lookup ns fuel) s n = Some (vr, s1)" "structure_of vr = Inr valid"
        "examine_node env lru ac ns fuel cid now_ms n h en s1 = Some (Inr found, en1)"
        "admit_node env lru ac ns fuel rot_key cid now_ms n h valid found en1 s1 = Some (r, en', s')"
proof (cases "mn_hash env n")
  case None
  with assms show thesis by (simp add: process_node_def)
next
  case h: (Some h)
  show thesis
  proof (cases "es_is_verified ns s h \<or> (reverify \<and> es_has_node ns s h)")
    case True
    with assms h known show thesis by (simp add: process_node_def)
  next
    case new: False
    show thesis
    proof (cases "validate env (es_lookup ns fuel) s n")
      case None
      with assms h new show thesis by (simp add: process_node_def)
    next
      case (Some v)
      then obtain vr s1 where v: "validate env (es_lookup ns fuel) s n = Some (vr, s1)" by (cases v) auto
      show thesis
      proof (cases "structure_of vr")
        case (Inl e)
        with assms h new v show thesis by (auto simp: process_node_def intro: rejected)
      next
        case valid: (Inr valid)
        from assms h new v valid obtain er en1 where
          er: "examine_node env lru ac ns fuel cid now_ms n h en s1 = Some (er, en1)"
            "(case er of Inl e \<Rightarrow> Some (Inl e, en1, s1)
               | Inr found \<Rightarrow> admit_node env lru ac ns fuel rot_key cid now_ms n h valid found en1 s1) = Some (r, en', s')"
          by (auto simp: process_node_def bind_eq_Some_conv)
        with h new v valid show thesis by (cases er) (auto intro: rejected admitted)
      qed
    qed
  qed
qed

lemma admit_node_cases:
  assumes "admit_node env lru ac ns fuel rot_key cid now_ms n h valid (ctx, authorized, quarantine) en s = Some (r, en', s')"
  obtains effects used en1 sr en2 s1
    where "(if authorized then take_keys env cid n h en else Some ([], [], en)) = Some (effects, used, en1)"
      "settle_node env lru ns cid ctx n h authorized valid quarantine en1 s = Some (sr, en2, s1)"
      "(case sr of
          Inl e \<Rightarrow> Some (Inl (ValidationErr e), en2, s1)
        | Inr (verified, authentic) \<Rightarrow>
            conclude_node env lru ac ns fuel rot_key cid now_ms n h effects used verified authentic en2 s1) = Some (r, en', s')"
  using assms by (auto simp: admit_node_def bind_eq_Some_conv simp del: split_paired_Ex)

lemma conclude_node_cases:
  assumes "conclude_node env lru ac ns fuel rot_key cid now_ms n h effects1 used verified authentic en s = Some (r, en', s')"
  obtains en1 r1 en2 s1
    where "en1 = record_node (fold (consume_opk_sk env) used en) cid n h now_ms authentic verified"
      "(if verified \<or> (authentic \<and> is_bootstrap (nd_content n))
        then apply_side_effects env lru ac ns fuel rot_key cid now_ms n en1 s else Some (Inr [], en1, s)) = Some (r1, en2, s1)"
      "(case r1 of Inl e \<Rightarrow> r = Inl e \<and> en' = en2 \<and> s' = s1
        | Inr effects2 \<Rightarrow> (\<exists>effects3.
            (if verified \<and> changes_devices (nd_content n)
             then revalidate_all_verified_nodes env lru ac ns fuel cid now_ms en2 s1 else Some ([], en2, s1))
               = Some (effects3, en', s')
            \<and> r = Inr (Some (effects1 @ [WriteStore cid n verified] @ effects2 @ effects3, verified, authentic))))"
  using assms unfolding conclude_node_def Let_def
  by (fastforce simp: bind_eq_Some_conv simp del: append.simps split: sum.splits)

lemma conclude_node_grows:
  assumes "collision_free env" "keeps_sound env rot_key"
    and "conclude_node env lru ac (ims_store env' f) fuel rot_key cid now_ms n h effects used verified authentic en s
           = Some (r, en', s')"
  shows "grows env s s'"
  using assms(3)
proof (cases rule: conclude_node_cases)
  case (1 en1 r1 en2 s1)
  from 1(2) have "grows env s s1" by (auto split: if_splits intro: apply_side_effects_grows [OF assms(2)])
  also from 1(3) have "grows env s1 s'" by (auto split: sum.splits if_splits intro: revalidate_all_grows [OF assms(1)])
  finally show ?thesis .
qed

lemma settle_node_grows:
  assumes "collision_free env" "mn_hash env n = Some h" "valid \<Longrightarrow> linked (engine_view s) n"
    and "settle_node env lru ns cid ctx n h authorized valid quarantine en s = Some (r, en', s')"
  shows "grows env s s'"
  using assms(4)
proof (cases rule: settle_node_cases)
  case (stored verified authentic v0 en1)
  have "valid" if verified
    using that stored(4,5) by (cases v0) (auto dest: dedup_verified decide_verified)
  then show ?thesis
    unfolding stored(2) using sound_put [OF assms(1) _ assms(2)] assms(3) by (auto simp: grows_def es_put_verified)
qed simp

lemma process_node_grows:
  assumes "collision_free env" "keeps_sound env rot_key"
    and "process_node env lru ac (ims_store env' f) fuel rot_key cid reverify now_ms n en s = Some (r, en', s')"
  shows "grows env s s'"
  using assms(3)
proof (cases rule: process_node_cases)
  case (rejected vr s1 e)
  then show ?thesis by (auto intro: grows_same validate_keeps)
next
  case (admitted h vr s1 valid en1 found)
  have same: "same_nodes s s1" by (rule validate_keeps [OF admitted(3)])
  have "linked (engine_view s1) n" if valid
  proof -
    from admitted(4) that have "vr = Inr ()"
      by (auto simp: structure_of_def split: sum.splits validation_error.splits)
    with admitted(3) show ?thesis unfolding same_nodes_answers(3) [OF same] by (auto intro: validate_linked)
  qed
  moreover obtain ctx authorized quarantine where found: "found = (ctx, authorized, quarantine)" by (cases found)
  ultimately have "grows env s1 s'"
    using admitted(6) [unfolded found]
  proof (elim admit_node_cases)
    fix effects used en1' sr en2 s2
    assume link: "valid \<Longrightarrow> linked (engine_view s1) n"
      and settle: "settle_node env lru (ims_store env' f) cid ctx n h authorized valid quarantine en1' s1 = Some (sr, en2, s2)"
      and rest: "(case sr of Inl e \<Rightarrow> Some (Inl (ValidationErr e), en2, s2)
        | Inr (verified, authentic) \<Rightarrow> conclude_node env lru ac (ims_store env' f) fuel rot_key cid now_ms n h effects used
            verified authentic en2 s2) = Some (r, en', s')"
    have "grows env s1 s2" by (rule settle_node_grows [OF assms(1) admitted(1) link settle])
    also from rest have "grows env s2 s'"
      by (auto split: sum.splits prod.splits intro: conclude_node_grows [OF assms(1,2)])
    finally show ?thesis .
  qed
  with grows_same [OF same] show ?thesis by (rule grows_trans)
qed simp

section \<open>The effects agree with the store\<close>

lemma writes_ok_simps [simp]:
  "writes_ok env [] s"
  "writes_ok env (e @ e') s \<longleftrightarrow> writes_ok env e s \<and> writes_ok env e' s"
  by (auto simp: writes_ok_def)

lemma writes_ok_other: "(\<And>cid n. WriteStore cid n True \<notin> set effects) \<Longrightarrow> writes_ok env effects s"
  by (auto simp: writes_ok_def)

lemma writes_ok_mono: "writes_ok env e s \<Longrightarrow> sound_store env s \<Longrightarrow> grows env s s' \<Longrightarrow> writes_ok env e s'"
  unfolding writes_ok_def grows_def by blast

lemma growsD: "grows env s s' \<Longrightarrow> sound_store env s \<Longrightarrow> sound_store env s'"
  by (simp add: grows_def)

lemma rotate_quietly_writes:
  "keeps_sound env rot_key \<Longrightarrow> sound_store env s \<Longrightarrow> rotate_quietly rot_key revoked cid now_ms en s = Some (e, en', s')
     \<Longrightarrow> writes_ok env e s'"
  by (auto simp: rotate_quietly_def keeps_sound_def split: bind_splits sum.splits)

lemma handle_pulse_writes:
  "keeps_sound env rot_key \<Longrightarrow> sound_store env s \<Longrightarrow> handle_pulse rot_key ctx cid now_ms n en s = Some (e, en', s')
     \<Longrightarrow> writes_ok env e s'"
  by (auto simp: handle_pulse_def Let_def case_prod_unfold split: bind_splits if_splits intro: rotate_quietly_writes)

lemma apply_content_writes:
  assumes "keeps_sound env rot_key" "sound_store env s"
    and "apply_content env' lru rot_key ctx cid now_ms n h en s = Some (Inr e, en', s')"
  shows "writes_ok env e s'"
  using assms(3) unfolding apply_content_def
  by (auto simp: Let_def split: content.splits control_action.splits prod.splits sum.splits if_splits bind_splits
      intro: rotate_quietly_writes [OF assms(1,2)] handle_pulse_writes [OF assms(1,2)])

lemma advance_sender_writes:
  "advance_sender env cid n h now_ms en = Some (e, en') \<Longrightarrow> WriteStore cid' m v \<notin> set e"
  by (auto simp: advance_sender_def use_key_def Let_def split: if_splits option.splits conversation.splits bind_splits prod.splits)

lemma apply_side_effects_writes:
  assumes "keeps_sound env rot_key" "sound_store env s"
    and "apply_side_effects env' lru ac ns fuel rot_key cid now_ms n en s = Some (Inr e, en', s')"
  shows "writes_ok env e s'"
proof -
  from assms(3) obtain ctx h en0 e1 en1 s1 e2 e3
    where 1: "apply_content env' lru rot_key ctx cid now_ms n h en0 s = Some (Inr e1, en1, s1)"
      and 2: "advance_sender env' cid n h now_ms en1 = Some (e2, en')"
      and 3: "update_heads ns cid n h s1 = (e3, s')" and e: "e = e1 @ e2 @ e3"
    by (auto simp: apply_side_effects_def Let_def split: bind_splits sum.splits prod.splits)
  have "writes_ok env e1 s'"
    using apply_content_writes [OF assms(1,2) 1] growsD [OF apply_content_grows [OF assms(1) 1] assms(2)]
      update_heads_grows [OF 3] by (rule writes_ok_mono)
  moreover have "writes_ok env e2 s'" using advance_sender_writes [OF 2] by (auto intro: writes_ok_other)
  moreover have "writes_ok env e3 s'"
    using 3 by (intro writes_ok_other) (auto simp: update_heads_def Let_def split: if_splits)
  ultimately show ?thesis by (simp add: e)
qed

lemma revalidate_nodes_writes:
  "revalidate_nodes env lru ac ns fuel cid now_ms nodes en s = Some (e, en', s') \<Longrightarrow> WriteStore c m True \<notin> set e"
  by (induction nodes arbitrary: en s e) (auto split: bind_splits if_splits)

lemma revalidate_all_writes:
  "revalidate_all_verified_nodes env lru ac ns fuel cid now_ms en s = Some (e, en', s') \<Longrightarrow> writes_ok env' e t"
  unfolding revalidate_all_verified_nodes_def Let_def by (intro writes_ok_other) (rule revalidate_nodes_writes)

lemma take_keys_writes: "take_keys env cid n h en = Some (e, used, en') \<Longrightarrow> WriteStore c m v \<notin> set e"
  by (auto simp: take_keys_def accept_k_conv_def Let_def split: content.splits option.splits prod.splits bind_splits)

lemma conclude_node_writes:
  assumes "collision_free env" "keeps_sound env rot_key" "sound_store env s"
    and "mn_hash env n = Some h" "verified \<Longrightarrow> es_is_verified (ims_store env 0) s h" "writes_ok env effects s"
    and c: "conclude_node env lru ac (ims_store env' f) fuel rot_key cid now_ms n h effects used verified authentic en s
           = Some (Inr (Some (e, v, a)), en', s')"
  shows "writes_ok env e s'"
  using c
proof (cases rule: conclude_node_cases)
  case (1 en1 r1 en2 s1)
  then obtain e2 e3 where r1: "r1 = Inr e2"
    and e3: "(if verified \<and> changes_devices (nd_content n)
             then revalidate_all_verified_nodes env lru ac (ims_store env' f) fuel cid now_ms en2 s1 else Some ([], en2, s1))
               = Some (e3, en', s')"
    and e: "e = effects @ [WriteStore cid n verified] @ e2 @ e3"
    by (cases r1) auto
  have s1: "writes_ok env e2 s1" "grows env s s1"
    using 1(2) assms(3) unfolding r1
    by (auto split: if_splits intro: apply_side_effects_writes [OF assms(2,3)] apply_side_effects_grows [OF assms(2)])
  have s': "grows env s1 s'" "writes_ok env e3 s'"
    using e3 by (auto split: if_splits intro: revalidate_all_grows [OF assms(1)] revalidate_all_writes)
  have "writes_ok env [WriteStore cid n verified] s" using assms(4,5) by (auto simp: writes_ok_def)
  with assms(6) have "writes_ok env (effects @ [WriteStore cid n verified]) s" by (simp only: writes_ok_simps)
  then have "writes_ok env (effects @ [WriteStore cid n verified]) s'"
    using assms(3) grows_trans [OF s1(2) s'(1)] by (rule writes_ok_mono)
  moreover have "writes_ok env e2 s'" using writes_ok_mono [OF s1(1) growsD s'(1)] s1(2) assms(3) by blast
  ultimately show ?thesis using s'(2) unfolding e by (simp only: writes_ok_simps)
qed

lemma process_node_writes:
  assumes "collision_free env" "keeps_sound env rot_key" "sound_store env s"
    and "process_node env lru ac (ims_store env' f) fuel rot_key cid reverify now_ms n en s
           = Some (Inr (Some (e, v, a)), en', s')"
  shows "writes_ok env e s'"
  using assms(4)
proof (cases rule: process_node_cases)
  case (admitted h vr s1 valid en1 found)
  have same: "same_nodes s s1" by (rule validate_keeps [OF admitted(3)])
  then have sound1: "sound_store env s1" using assms(3) sound_same_nodes by blast
  have link: "linked (engine_view s1) n" if valid
  proof -
    from admitted(4) that have "vr = Inr ()"
      by (auto simp: structure_of_def split: sum.splits validation_error.splits)
    with admitted(3) show ?thesis unfolding same_nodes_answers(3) [OF same] by (auto intro: validate_linked)
  qed
  obtain ctx authorized quarantine where found: "found = (ctx, authorized, quarantine)" by (cases found)
  from admitted(6) [unfolded found] show ?thesis
  proof (cases rule: admit_node_cases)
    case (1 effects used en1' sr en2 s2)
    then obtain verified authentic where sr: "sr = Inr (verified, authentic)" by (cases sr) auto
    have sound2: "sound_store env s2"
      using settle_node_grows [OF assms(1) admitted(1) link 1(2)] sound1 by (rule growsD)
    have "es_is_verified (ims_store env 0) s2 h" if verified
      using 1(2) that by (cases rule: settle_node_cases) (auto simp: sr es_put_verified)
    moreover have "writes_ok env effects s2"
      using 1(1) by (auto split: if_splits intro!: writes_ok_other dest: take_keys_writes)
    ultimately show ?thesis
      using 1(3) unfolding sr by (auto intro: conclude_node_writes [OF assms(1,2) sound2 admitted(1)])
  qed
qed simp_all

section \<open>Waiting nodes\<close>

lemma announce_writes [simp]: "writes_ok env (announce_node en cid n h verified) s"
  by (auto simp: announce_node_def Let_def intro!: writes_ok_other)

lemma handle_again_ok:
  assumes "collision_free env" "keeps_sound env rot_key"
    and "handle_again env lru ac (ims_store env' f) fuel rot_key cid now_ms n en s = Some (r, en', s')"
  shows "grows env s s'" and "sound_store env s \<Longrightarrow> r = Inr e \<Longrightarrow> writes_ok env e s'"
proof -
  from assms(3) obtain r1 h where
    p: "process_node env lru ac (ims_store env' f) fuel rot_key cid False now_ms n en s = Some (r1, en', s')"
    and r: "r = (case r1 of Inl e \<Rightarrow> Inl e | Inr None \<Rightarrow> Inr []
                 | Inr (Some (effects, verified, _)) \<Rightarrow> Inr (effects @ announce_node en' cid n h verified))"
    by (auto simp: handle_again_def split: bind_splits)
  from p show "grows env s s'" by (rule process_node_grows [OF assms(1,2)])
  assume "sound_store env s" "r = Inr e"
  with p r show "writes_ok env e s'"
    by (auto split: sum.splits option.splits prod.splits intro: process_node_writes [OF assms(1,2)])
qed

lemma cache_verified_grows:
  assumes "collision_free env" "sound_store env s" "writes_ok env effects s" "cache_verified env effects s = Some s'"
  shows "grows env s s'"
  using assms(2-4)
proof (induction effects arbitrary: s)
  case (Cons e effects)
  show ?case
  proof (cases "\<exists>cid n. e = WriteStore cid n True")
    case False
    then have "cache_verified env (e # effects) s = cache_verified env effects s"
      by (cases e) (auto split: bool.splits elim: cache_verified.elims)
    with Cons show ?thesis by (auto simp: writes_ok_def)
  next
    case True
    then obtain cid n where e: "e = WriteStore cid n True" by blast
    with Cons.prems(2) obtain h where h: "mn_hash env n = Some h" "es_is_verified (ims_store env 0) s h"
      by (auto simp: writes_ok_def)
    define t where "t = es_put_hashed s cid h n True"
    have link: "linked (engine_view s) n"
    proof -
      from h(2) Cons.prems(1) obtain m where "engine_view s h = Some m" "linked (engine_view s) m"
        by (auto simp: sound_store_def verified_linked_def)
      moreover have "engine_view s h = Some (node_data.truncate n)"
        using assms(1) Cons.prems(1) h(1) \<open>engine_view s h = Some m\<close> by (intro keyed_view) (auto simp: sound_store_def)
      ultimately have "linked (engine_view s) (node_data.truncate n)" by simp
      then show ?thesis by (simp only: linked_truncate)
    qed
    have gt: "grows env s t"
      unfolding t_def using sound_put [OF assms(1) _ h(1)] link by (auto simp: grows_def es_put_verified)
    obtain u where u: "cache_verified env effects u = Some s'" "es_store u = es_store t"
      "pc_nodes (es_cache u) = pc_nodes (es_cache t)" "pc_verified (es_cache u) = pc_verified (es_cache t)"
      using Cons.prems(3) h(1)
      by (auto simp: e t_def es_put_hashed_def Let_def case_prod_unfold)
    have "grows env t u"
      using u(2-4) by (intro grows_frame) simp_all
    with gt have gu: "grows env s u" by (rule grows_trans)
    moreover have "grows env u s'"
      using Cons.IH [of u] growsD [OF gu Cons.prems(1)] u(1) writes_ok_mono [OF _ Cons.prems(1) gu, of effects] Cons.prems(2)
      by (auto simp: writes_ok_def)
    ultimately show ?thesis by (rule grows_trans)
  qed
qed simp

lemma speculative_round_grows:
  assumes "collision_free env" "keeps_sound env rot_key"
  shows "sound_store env s \<Longrightarrow>
     speculative_round env lru ac (ims_store env' f) fuel rot_key cid now_ms nodes en s = Some (v, e, en', s') \<Longrightarrow> grows env s s'"
proof (induction nodes arbitrary: en s v e)
  case (Cons n nodes)
  from Cons.prems(2) consider
      "speculative_round env lru ac (ims_store env' f) fuel rot_key cid now_ms nodes en s = Some (v, e, en', s')"
    | r en1 s1 where "handle_again env lru ac (ims_store env' f) fuel rot_key cid now_ms n en s = Some (r, en1, s1)"
        "speculative_round env lru ac (ims_store env' f) fuel rot_key cid now_ms nodes en1 s1 = Some (v, e, en', s')"
    | effects en1 s1 s2 v' e' where
        "handle_again env lru ac (ims_store env' f) fuel rot_key cid now_ms n en s = Some (Inr effects, en1, s1)"
        "cache_verified env effects s1 = Some s2"
        "speculative_round env lru ac (ims_store env' f) fuel rot_key cid now_ms nodes en1 s2 = Some (v', e', en', s')"
    by (auto split: bind_splits if_splits sum.splits)
  then show ?case
  proof cases
    case 1
    with Cons show ?thesis by blast
  next
    case (2 r en1 s1)
    have "grows env s s1" by (rule handle_again_ok(1) [OF assms 2(1)])
    moreover from this Cons.prems(1) have "grows env s1 s'" by (intro Cons.IH [OF _ 2(2)]) (rule growsD)
    ultimately show ?thesis by (rule grows_trans)
  next
    case (3 effects en1 s1 s2 v' e')
    have s1: "grows env s s1" by (rule handle_again_ok(1) [OF assms 3(1)])
    moreover have s2: "grows env s1 s2"
      using handle_again_ok(2) [OF assms 3(1) Cons.prems(1) refl] growsD [OF s1 Cons.prems(1)] 3(2)
      by (intro cache_verified_grows [OF assms(1)])
    ultimately have "grows env s s2" by (rule grows_trans)
    moreover from this Cons.prems(1) have "grows env s2 s'" by (intro Cons.IH [OF _ 3(3)]) (rule growsD)
    ultimately show ?thesis by (rule grows_trans)
  qed
qed simp

lemma reverify_speculative_grows:
  assumes "collision_free env" "keeps_sound env rot_key"
  shows "sound_store env s \<Longrightarrow>
     reverify_speculative env lru ac (ims_store env' f) fuel rot_key rounds cid now_ms en s = Some (e, en', s') \<Longrightarrow> grows env s s'"
proof (induction rounds arbitrary: en s e)
  case (Suc rounds)
  from Suc.prems(2) consider "s' = s"
    | nodes v e1 en1 s1 where
        "speculative_round env lru ac (ims_store env' f) fuel rot_key cid now_ms nodes en s = Some (v, e1, en1, s1)"
        "s' = s1 \<or> (\<exists>e2. reverify_speculative env lru ac (ims_store env' f) fuel rot_key rounds cid now_ms en1 s1
                        = Some (e2, en', s'))"
    by (auto split: bind_splits if_splits)
  then show ?case
  proof cases
    case (2 nodes v e1 en1 s1)
    have s1: "grows env s s1" by (rule speculative_round_grows [OF assms Suc.prems(1) 2(1)])
    with 2(2) Suc.IH [OF growsD [OF s1 Suc.prems(1)]] show ?thesis by (auto intro: grows_trans)
  qed simp
qed simp

lemma verify_node_marks:
  assumes "mn_hash env n = Some h"
    and "verify_node env lru ac ns fuel cid now_ms n en s = Some (True, en', s')"
  shows "es_is_verified ns s' h"
  using assms
  by (auto simp: verify_node_def Let_def es_mark_verified_iff split: bind_splits sum.splits if_splits prod.splits)

lemma mark_base_grows:
  assumes "es_is_verified (ims_store env 0) s h"
  shows "grows env s (s\<lparr>es_store := ims_mark_verified (es_store s) h\<rparr>)"
    and "engine_view (s\<lparr>es_store := ims_mark_verified (es_store s) h\<rparr>) = engine_view s"
proof -
  let ?t = "s\<lparr>es_store := ims_mark_verified (es_store s) h\<rparr>"
  have nodes: "ims_nodes (ims_mark_verified b h) = (case fm_get (ims_nodes b) h of None \<Rightarrow> ims_nodes b
      | Some (n, _) \<Rightarrow> fm_set (ims_nodes b) h (n, True))" for b
    by (simp add: ims_mark_verified_def Let_def split: option.splits prod.splits)
  have "ims_view (ims_mark_verified (es_store s) h) = ims_view (es_store s)"
    by (auto simp: ims_view_def fun_eq_iff nodes split: option.splits)
  then show view: "engine_view ?t = engine_view s" by (simp add: es_view_def)
  have "es_is_verified (ims_store env 0) ?t k \<longleftrightarrow> es_is_verified (ims_store env 0) s k" for k
    using assms by (auto simp: es_is_verified_def ims_store_def ims_is_verified_def nodes split: option.splits)
  moreover have "keyed env ?t" if "keyed env s"
    using that by (auto simp: keyed_def nodes split: option.splits intro!: fm_all_set dest: fm_all_get)
  ultimately show "grows env s ?t"
    unfolding grows_def sound_store_def view verified_linked_def by auto
qed

lemma reverify_for_author_grows:
  assumes "collision_free env"
  shows "sound_store env s \<Longrightarrow> \<forall>n \<in> set nodes. \<exists>h. mn_hash env n = Some h \<and> h \<in> dom (engine_view s) \<Longrightarrow>
     reverify_for_author env lru ac (ims_store env f) ims_mark_verified fuel cid author_pk now_ms nodes en s = Some (e, en', s')
       \<Longrightarrow> grows env s s'"
proof (induction nodes arbitrary: en s e)
  case (Cons n nodes)
  then obtain h where h: "mn_hash env n = Some h" "h \<in> dom (engine_view s)" by auto
  show ?case
  proof (cases "nd_author_pk n = author_pk")
    case True
    with Cons.prems(3) have "verify_node env lru ac (ims_store env f) fuel cid now_ms n en s \<noteq> None" by (intro notI) simp
    then obtain v en1 s1 where
      v: "verify_node env lru ac (ims_store env f) fuel cid now_ms n en s = Some (v, en1, s1)"
      by auto
    define t where "t = (if v then s1\<lparr>es_store := ims_mark_verified (es_store s1) h\<rparr> else s1)"
    note t = t_def
    obtain e1 where rest: "reverify_for_author env lru ac (ims_store env f) ims_mark_verified fuel cid author_pk now_ms
        nodes en1 t = Some (e1, en', s')"
      using Cons.prems(3) True v h(1) by (cases v) (auto simp: t_def Let_def split: bind_splits)
    note step = verify_node_grows [OF assms h v]
    have "es_is_verified (ims_store env 0) s1 h" if v
      using verify_node_marks [OF h(1), of lru ac "ims_store env f" fuel cid now_ms en s en1 s1] v that
      by (simp add: store_answers(2) [of env f])
    then have t': "grows env s1 t" "engine_view t = engine_view s1"
      using mark_base_grows [of env s1 h] by (auto simp: t)
    have st: "grows env s t" using step(1) t'(1) by (rule grows_trans)
    moreover have "grows env t s'"
      using growsD [OF st Cons.prems(1)] _ rest
    proof (rule Cons.IH)
      show "\<forall>n \<in> set nodes. \<exists>h. mn_hash env n = Some h \<and> h \<in> dom (engine_view t)"
        using Cons.prems(2) t'(2) step(2) by simp
    qed
    ultimately show ?thesis by (rule grows_trans)
  qed (use Cons in auto)
qed simp

lemma speculative_nodes_stored:
  assumes "keyed env s" "n \<in> set (ns_get_speculative_nodes (ims_store env' f) (es_store s) cid)"
  shows "\<exists>h. mn_hash env n = Some h \<and> h \<in> dom (engine_view s)"
proof -
  from assms(2) obtain h v where nv: "fm_get (ims_nodes (es_store s)) h = Some (n, v)"
    by (auto simp: ims_store_def ims_get_speculative_nodes_def ims_get_node_def map_filter_def)
  with assms(1) have "mn_hash env n = Some h" by (auto simp: keyed_def dest: fm_all_get)
  moreover from nv have "h \<in> dom (engine_view s)" by (auto simp: es_view_def ims_view_def)
  ultimately show ?thesis by blast
qed

lemma reverify_author_grows:
  assumes "collision_free env" "sound_store env s"
    and "reverify_speculative_for_author env lru ac (ims_store env f) ims_mark_verified fuel cid author_pk now_ms en s
           = Some (e, en', s')"
  shows "grows env s s'"
  using assms(3) unfolding reverify_speculative_for_author_def
  by (rule reverify_for_author_grows [OF assms(1,2), rotated])
    (use assms(2) speculative_nodes_stored in \<open>auto simp: sound_store_def\<close>)

section \<open>Opaque nodes\<close>

lemma promote_opaque_grows:
  assumes "collision_free env" "keeps_sound env rot_key"
    and "promote_opaque env lru ac (ims_store env' f) fuel rot_key cid now_ms h w n en s = Some (p, e, en', s')"
  shows "grows env s s'"
proof -
  from assms(3) obtain en1 b s1 r en2 s2 where
    b: "ns_remove_wire_node (ims_store env' f) (es_store s) cid h = (Inr (), b)"
      "s1 = es_put_wire_node (s\<lparr>es_store := b\<rparr>) cid h w"
    and again: "handle_again env lru ac (ims_store env' f) fuel rot_key cid now_ms n en1 s1 = Some (r, en2, s2)"
    and s': "s' = s2\<lparr>es_cache := (es_cache s2)\<lparr>pc_wire_nodes := fm_del (pc_wire_nodes (es_cache s2)) h\<rparr>\<rparr>"
    by (auto simp: promote_opaque_def Let_def ims_store_def ims_remove_wire_node_def
        split: bind_splits sum.splits prod.splits)
  have "grows env s s1"
    using b by (intro grows_frame) (auto simp: es_put_wire_node_def ims_store_def ims_remove_wire_node_def)
  also have "grows env s1 s2" by (rule handle_again_ok(1) [OF assms(1,2) again])
  also have "grows env s2 s'" by (rule grows_frame) (simp_all add: s')
  finally show ?thesis .
qed

lemma opaque_round_grows:
  assumes "collision_free env" "keeps_sound env rot_key"
  shows "opaque_round env lru ac (ims_store env' f) fuel rot_key cid now_ms em hs en s = Some (p, e, en', s') \<Longrightarrow> grows env s s'"
proof (induction hs arbitrary: en s p e)
  case (Cons h hs)
  from Cons.prems consider
      "opaque_round env lru ac (ims_store env' f) fuel rot_key cid now_ms em hs en s = Some (p, e, en', s')"
    | p1 e1 en1 s1 en2 p2 e2 where
        "s1 = s \<or> (\<exists>w n en0. promote_opaque env lru ac (ims_store env' f) fuel rot_key cid now_ms h w n en0 s = Some (p1, e1, en1, s1))"
        "opaque_round env lru ac (ims_store env' f) fuel rot_key cid now_ms em hs en2 s1 = Some (p2, e2, en', s')"
    by (simp add: Let_def split: if_splits option.splits bind_splits prod.splits) blast+
  then show ?case
  proof cases
    case (2 p1 e1 en1 s1 en2 p2 e2)
    from 2(1) have "grows env s s1" by (auto intro: promote_opaque_grows [OF assms])
    also from 2(2) have "grows env s1 s'" by (rule Cons.IH)
    finally show ?thesis .
  qed (rule Cons.IH)
qed simp

lemma reverify_opaque_grows:
  assumes "collision_free env" "keeps_sound env rot_key"
  shows "reverify_opaque_nodes env lru ac (ims_store env' f) fuel rot_key rounds cid now_ms en s = Some (e, en', s')
     \<Longrightarrow> grows env s s'"
proof (induction rounds arbitrary: en s e)
  case (Suc rounds)
  from Suc.prems consider "s' = s"
    | em hs p e1 en1 s1 where
        "opaque_round env lru ac (ims_store env' f) fuel rot_key cid now_ms em hs en s = Some (p, e1, en1, s1)"
        "s' = s1 \<or> (\<exists>e2. reverify_opaque_nodes env lru ac (ims_store env' f) fuel rot_key rounds cid now_ms en1 s1
                        = Some (e2, en', s'))"
    by (auto split: bind_splits if_splits option.splits conversation.splits)
  then show ?case
  proof cases
    case (2 em hs p e1 en1 s1)
    with Suc.IH [of en1 s1] opaque_round_grows [OF assms 2(1)] show ?thesis by (auto intro: grows_trans)
  qed simp
qed simp

lemma handle_grows:
  assumes "collision_free env" "keeps_sound env rot_key" "sound_store env s"
    and "handle_node_internal_ext env lru ac (ims_store env' f) fuel rot_key rounds cid now_ms n en s = Some (r, en', s')"
  shows "grows env s s'"
proof -
  from assms(4) obtain r1 en1 s1 where
    p: "process_node env lru ac (ims_store env' f) fuel rot_key cid True now_ms n en s = Some (r1, en1, s1)"
    by (auto simp: handle_node_internal_ext_def split: bind_splits)
  have s1: "grows env s s1" by (rule process_node_grows [OF assms(1,2) p])
  from assms(4) p consider "s' = s1"
    | e1 en2 s2 e2 where
        "reverify_opaque_nodes env lru ac (ims_store env' f) fuel rot_key rounds cid now_ms en1 s1 = Some (e1, en2, s2)"
        "reverify_speculative env lru ac (ims_store env' f) fuel rot_key rounds cid now_ms en2 s2 = Some (e2, en', s')"
    by (auto simp: handle_node_internal_ext_def split: bind_splits sum.splits option.splits if_splits)
  then show ?thesis
  proof cases
    case (2 e1 en2 s2 e2)
    have s2: "grows env s s2" using s1 reverify_opaque_grows [OF assms(1,2) 2(1)] by (rule grows_trans)
    then show ?thesis
      using reverify_speculative_grows [OF assms(1,2) growsD [OF s2 assms(3)] 2(2)] by (rule grows_trans)
  qed (use s1 in simp)
qed

section \<open>Runs\<close>

text \<open>
  An engine over the in-memory store: nodes arrive, an author's nodes are tried again, the application
  writes nodes the engine asked for, and the cache is dropped once its nodes have been written.
\<close>

definition written :: "in_memory_store engine_store \<Rightarrow> bool" where
  "written s \<longleftrightarrow> (\<forall>h. fm_get (pc_nodes (es_cache s)) h \<noteq> None \<longrightarrow> fm_get (ims_nodes (es_store s)) h \<noteq> None)"

inductive engine_run ::
    "('e) adm_env_scheme \<Rightarrow> 'p lru_ops \<Rightarrow> 'q anc_ops \<Rightarrow> nat \<Rightarrow> ('p, 'q, in_memory_store) rotation \<Rightarrow> nat
       \<Rightarrow> ('p, 'q) engine \<Rightarrow> in_memory_store engine_store \<Rightarrow> bool"
  for env lru ac fuel rot_key rounds where
  start: "engine_run env lru ac fuel rot_key rounds en \<lparr>es_store = ims_new, es_cache = pc_new\<rparr>"
| arrive: "engine_run env lru ac fuel rot_key rounds en s \<Longrightarrow>
    handle_node_internal_ext env lru ac (ims_store env fuel) fuel rot_key rounds cid now_ms n en s = Some (r, en', s') \<Longrightarrow>
    engine_run env lru ac fuel rot_key rounds en' s'"
| retry: "engine_run env lru ac fuel rot_key rounds en s \<Longrightarrow>
    reverify_speculative_for_author env lru ac (ims_store env fuel) ims_mark_verified fuel cid pk now_ms en s
      = Some (effects, en', s') \<Longrightarrow>
    engine_run env lru ac fuel rot_key rounds en' s'"
| store: "engine_run env lru ac fuel rot_key rounds en s \<Longrightarrow> mn_hash env n = Some h \<Longrightarrow> h \<in> dom (engine_view s) \<Longrightarrow>
    (v \<longrightarrow> es_is_verified (ims_store env fuel) s h) \<Longrightarrow>
    engine_run env lru ac fuel rot_key rounds en (write_node s h n v)"
| forget: "engine_run env lru ac fuel rot_key rounds en s \<Longrightarrow> written s \<Longrightarrow>
    engine_run env lru ac fuel rot_key rounds en (s\<lparr>es_cache := pc_clear (es_cache s)\<rparr>)"

lemma sound_start: "sound_store env \<lparr>es_store = ims_new, es_cache = pc_new\<rparr>"
  by (simp add: sound_store_def keyed_def verified_linked_def es_is_verified_def ims_store_def ims_is_verified_def
      ims_new_def pc_new_def fm_new_def fm_all_def)

lemma sound_forget:
  assumes "collision_free env" "sound_store env s" "written s"
  shows "sound_store env (s\<lparr>es_cache := pc_clear (es_cache s)\<rparr>)"
    and "engine_view (s\<lparr>es_cache := pc_clear (es_cache s)\<rparr>) = engine_view s"
proof -
  let ?t = "s\<lparr>es_cache := pc_clear (es_cache s)\<rparr>"
  have base: "engine_view ?t = ims_view (es_store s)"
    by (simp add: es_view_def pc_clear_def fm_clear_def map_add_def fun_eq_iff)
  have keyed: "keyed env ?t"
    using assms(2) by (simp add: sound_store_def keyed_def pc_clear_def fm_clear_def fm_all_def)
  show view: "engine_view ?t = engine_view s"
  proof
    fix h
    show "engine_view ?t h = engine_view s h"
    proof (cases "fm_get (pc_nodes (es_cache s)) h")
      case None
      then show ?thesis by (simp add: base es_view_stored)
    next
      case (Some n)
      with assms(2) have "mn_hash env n = Some h" by (auto simp: sound_store_def keyed_def dest: fm_all_get)
      moreover from Some assms(3) have "h \<in> dom (engine_view ?t)" by (auto simp: written_def base ims_view_def)
      ultimately have "engine_view ?t h = Some (node_data.truncate n)" using assms(1) keyed by (intro keyed_view)
      with Some show ?thesis by (simp add: es_view_cached)
    qed
  qed
  have "es_is_verified (ims_store env 0) s h" if "es_is_verified (ims_store env 0) ?t h" for h
    using that by (auto simp: es_is_verified_def pc_clear_def)
  with assms(2) keyed show "sound_store env ?t" by (auto simp: sound_store_def view verified_linked_def)
qed

lemma engine_run_sound:
  assumes "collision_free env" "keeps_sound env rot_key"
  shows "engine_run env lru ac fuel rot_key rounds en s \<Longrightarrow> sound_store env s"
proof (induction rule: engine_run.induct)
  case (start en)
  show ?case by (rule sound_start)
next
  case (arrive en s cid now_ms n r en' s')
  show ?case using handle_grows [OF assms arrive.IH arrive.hyps(2)] arrive.IH by (rule growsD)
next
  case (retry en s cid pk now_ms effects en' s')
  show ?case using reverify_author_grows [OF assms(1) retry.IH retry.hyps(2)] retry.IH by (rule growsD)
next
  case (store en s n h v)
  then show ?case by (intro sound_write [OF assms(1)]) (auto simp: store_answers(2) [of env fuel])
next
  case (forget en s)
  then show ?case by (intro sound_forget [OF assms(1)])
qed

text \<open>Along verified nodes the parents have smaller ranks, so there is no cycle.\<close>

lemma verified_acyclic:
  assumes "verified_linked V verified"
  shows "acyclic {(p, h). verified h \<and> (p, h) \<in> parent_rel V}"
proof (rule wf_acyclic [OF wf_subset [OF wf_measure [of "rank_in V"]]], safe)
  fix p h
  assume "verified h" "(p, h) \<in> parent_rel V"
  with assms obtain n where "V h = Some n" "linked V n" "p \<in> set (nd_parents n)"
    unfolding verified_linked_def parent_rel_def by fastforce
  then show "(p, h) \<in> measure (rank_in V)" by (simp add: linked_parent_rank rank_in_def [of V h])
qed

end
