(* ===== verification/Identity_Trust.thy ===== *)
theory Identity_Trust
  imports Identity
begin

text \<open>
  What the identity manager's answers mean. A trust chain leads from a device through usable
  authorization records to the master key; the two recursive searches are instances of one search
  over all chains of bounded length, analysed once in the locale \<open>path_search\<close>.
\<close>

section \<open>Trust chains\<close>

inductive trust_chain ::
    "'p identity_manager \<Rightarrow> causal_context \<Rightarrow> conversation_id \<Rightarrow> public_key \<Rightarrow> int \<Rightarrow> nat \<Rightarrow> public_key
       \<Rightarrow> auth_record list \<Rightarrow> bool"
  for im ctx cid logical_pk now_ms rank where
  master: "trust_chain im ctx cid logical_pk now_ms rank logical_pk []"
| link: "trust_chain im ctx cid logical_pk now_ms rank device_pk (r # rs)"
    if "device_pk \<noteq> logical_pk" and "fm_get (authorized_devices im) (cid, device_pk) = Some records"
      and "r \<in> set records" and "record_usable im ctx cid device_pk logical_pk now_ms rank r"
      and "trust_chain im ctx cid logical_pk now_ms rank (ar_issuer_pk r) rs"

inductive_simps chain_Nil: "trust_chain im ctx cid l now rank d []"
inductive_simps chain_Cons: "trust_chain im ctx cid l now rank d (r # rs)"

lemma chain_of_master: "trust_chain im ctx cid l now rank l rs \<longleftrightarrow> rs = []"
  by (cases rs) (auto simp: chain_Nil chain_Cons)

text \<open>A record that is usable at one time is usable at every time before it expires.\<close>

lemma record_usable_time:
  "record_usable im ctx cid d l now rank r \<Longrightarrow> t < ar_expires_at r \<Longrightarrow> record_usable im ctx cid d l t rank r"
  by (auto simp: record_usable_def split: if_splits)

lemma record_usable_unexpired: "record_usable im ctx cid d l now rank r \<Longrightarrow> now < ar_expires_at r"
  by (auto simp: record_usable_def split: if_splits)

lemma chain_time:
  "trust_chain im ctx cid l now rank d rs \<Longrightarrow> \<forall>r \<in> set rs. t < ar_expires_at r \<Longrightarrow> trust_chain im ctx cid l t rank d rs"
  by (induction rs arbitrary: d) (auto simp: chain_Nil chain_Cons intro: record_usable_time)

lemma chain_unexpired: "trust_chain im ctx cid l now rank d rs \<Longrightarrow> \<forall>r \<in> set rs. now < ar_expires_at r"
  by (induction rs arbitrary: d) (auto simp: chain_Nil chain_Cons intro: record_usable_unexpired)

section \<open>The search over chains\<close>

text \<open>
  The common shape of the two searches: \<open>val\<close> of a record, \<open>tp\<close> for the master key, \<open>meet\<close> along a
  chain, \<open>jn\<close> over the alternatives.
\<close>

function search ::
    "(auth_record \<Rightarrow> 'a) \<Rightarrow> 'a \<Rightarrow> ('a \<Rightarrow> 'a \<Rightarrow> 'a) \<Rightarrow> ('a \<Rightarrow> 'a \<Rightarrow> 'a) \<Rightarrow> 'p identity_manager \<Rightarrow> causal_context
       \<Rightarrow> conversation_id \<Rightarrow> public_key \<Rightarrow> public_key \<Rightarrow> int \<Rightarrow> nat \<Rightarrow> nat \<Rightarrow> 'a option" where
  "search val tp meet jn im ctx cid d l now rank depth =
     (if depth > MAX_AUTH_DEPTH then None
      else if d = l then Some tp
      else (case fm_get (authorized_devices im) (cid, d) of
              None \<Rightarrow> None
            | Some records \<Rightarrow>
                fold (\<lambda>r best.
                        if \<not> record_usable im ctx cid d l now rank r then best
                        else if ar_issuer_pk r = l then join_opt jn (val r) best
                        else (case search val tp meet jn im ctx cid (ar_issuer_pk r) l now rank (depth + 1) of
                                None \<Rightarrow> best
                              | Some x \<Rightarrow> join_opt jn (meet (val r) x) best))
                     records None))"
  by pat_completeness auto
termination
  by (relation "measure (\<lambda>(val, tp, meet, jn, im, ctx, cid, d, l, now, rank, depth). Suc MAX_AUTH_DEPTH - depth)") auto

declare search.simps [simp del]

lemma is_authorized_recursive_search:
  "is_authorized_recursive im ctx cid d l now rank depth =
     search ar_expires_at i64_max min max im ctx cid d l now rank depth"
proof (induction "Suc MAX_AUTH_DEPTH - depth" arbitrary: d depth)
  case 0
  then show ?case by (subst is_authorized_recursive.simps, subst search.simps) simp
next
  case (Suc n)
  have "is_authorized_recursive im ctx cid d' l now rank (depth + 1) =
      search ar_expires_at i64_max min max im ctx cid d' l now rank (depth + 1)" for d'
    using Suc by simp
  note rec = this
  show ?case
    unfolding is_authorized_recursive.simps [of im ctx cid d l now rank depth]
      search.simps [of ar_expires_at i64_max min max im ctx cid d l now rank depth] rec ..
qed

lemma get_permissions_recursive_search:
  "get_permissions_recursive im ctx cid d l now rank depth =
     search ar_permissions PERM_ALL (AND) (OR) im ctx cid d l now rank depth"
proof (induction "Suc MAX_AUTH_DEPTH - depth" arbitrary: d depth)
  case 0
  then show ?case by (subst get_permissions_recursive.simps, subst search.simps) simp
next
  case (Suc n)
  have "get_permissions_recursive im ctx cid d' l now rank (depth + 1) =
      search ar_permissions PERM_ALL (AND) (OR) im ctx cid d' l now rank (depth + 1)" for d'
    using Suc by simp
  note rec = this
  show ?case
    unfolding get_permissions_recursive.simps [of im ctx cid d l now rank depth]
      search.simps [of ar_permissions PERM_ALL "(AND)" "(OR)" im ctx cid d l now rank depth] rec ..
qed

text \<open>What a fold of \<^const>\<open>join_opt\<close> over optional contributions satisfies, for a test that \<open>jn\<close> turns into \<open>\<or>\<close>.\<close>

lemma fold_join:
  assumes "\<And>x y. T (jn x y) \<longleftrightarrow> T x \<or> T y"
  shows "(\<exists>e. fold (\<lambda>r best. case g r of None \<Rightarrow> best | Some x \<Rightarrow> join_opt jn x best) rs acc = Some e \<and> T e) \<longleftrightarrow>
    (\<exists>e. acc = Some e \<and> T e) \<or> (\<exists>r \<in> set rs. \<exists>x. g r = Some x \<and> T x)"
proof (induction rs arbitrary: acc)
  case (Cons r rs)
  show ?case
  proof (cases "g r")
    case None then show ?thesis using Cons by simp
  next
    case (Some x)
    have "(\<exists>e. join_opt jn x acc = Some e \<and> T e) \<longleftrightarrow> (\<exists>e. acc = Some e \<and> T e) \<or> T x"
      using assms by (auto simp: join_opt_def split: option.splits)
    then show ?thesis using Cons Some by auto
  qed
qed simp

locale path_search =
  fixes val :: "auth_record \<Rightarrow> 'a" and tp :: 'a and meet :: "'a \<Rightarrow> 'a \<Rightarrow> 'a" and jn :: "'a \<Rightarrow> 'a \<Rightarrow> 'a"
    and holds :: "'a \<Rightarrow> bool"
  assumes holds_jn: "holds (jn x y) \<longleftrightarrow> holds x \<or> holds y"
    and holds_meet: "holds (meet x y) \<longleftrightarrow> holds x \<and> holds y"
begin

definition chain_holds :: "auth_record list \<Rightarrow> bool" where
  "chain_holds rs = (if rs = [] then holds tp else \<forall>r \<in> set rs. holds (val r))"

lemma search_step:
  assumes "depth \<le> MAX_AUTH_DEPTH" and "d \<noteq> l" and "fm_get (authorized_devices im) (cid, d) = Some records"
  shows "(\<exists>e. search val tp meet jn im ctx cid d l now rank depth = Some e \<and> holds e) \<longleftrightarrow>
    (\<exists>r \<in> set records. record_usable im ctx cid d l now rank r \<and> holds (val r) \<and>
       (ar_issuer_pk r = l \<or>
        (\<exists>e. search val tp meet jn im ctx cid (ar_issuer_pk r) l now rank (depth + 1) = Some e \<and> holds e)))"
proof -
  let ?s = "\<lambda>r. search val tp meet jn im ctx cid (ar_issuer_pk r) l now rank (depth + 1)"
  define g where "g r = (if \<not> record_usable im ctx cid d l now rank r then None
      else if ar_issuer_pk r = l then Some (val r) else map_option (meet (val r)) (?s r))" for r
  have "search val tp meet jn im ctx cid d l now rank depth =
      fold (\<lambda>r best. case g r of None \<Rightarrow> best | Some x \<Rightarrow> join_opt jn x best) records None"
  proof -
    have "(\<lambda>best. case g r of None \<Rightarrow> best | Some x \<Rightarrow> join_opt jn x best) =
        (\<lambda>best. if \<not> record_usable im ctx cid d l now rank r then best
           else if ar_issuer_pk r = l then join_opt jn (val r) best
           else (case ?s r of None \<Rightarrow> best | Some x \<Rightarrow> join_opt jn (meet (val r) x) best))" for r
      by (rule ext) (simp add: g_def split: option.split)
    note g = this
    show ?thesis
      unfolding search.simps [of val tp meet jn im ctx cid d l now rank depth] g using assms by simp
  qed
  then have "(\<exists>e. search val tp meet jn im ctx cid d l now rank depth = Some e \<and> holds e) \<longleftrightarrow>
      (\<exists>r \<in> set records. \<exists>x. g r = Some x \<and> holds x)"
    using fold_join [of holds jn g records None] holds_jn by simp
  moreover have "(\<exists>x. g r = Some x \<and> holds x) \<longleftrightarrow> record_usable im ctx cid d l now rank r \<and> holds (val r) \<and>
       (ar_issuer_pk r = l \<or> (\<exists>e. ?s r = Some e \<and> holds e))" for r
    by (cases "?s r") (auto simp: g_def holds_meet)
  ultimately show ?thesis by simp
qed

lemma search_iff_chain:
  "(\<exists>e. search val tp meet jn im ctx cid d l now rank depth = Some e \<and> holds e) \<longleftrightarrow>
   depth \<le> MAX_AUTH_DEPTH \<and>
   (\<exists>rs. trust_chain im ctx cid l now rank d rs \<and> length rs \<le> Suc MAX_AUTH_DEPTH - depth \<and> chain_holds rs)"
proof (induction "Suc MAX_AUTH_DEPTH - depth" arbitrary: d depth)
  case 0
  then show ?case by (subst search.simps) simp
next
  case (Suc n)
  then have depth: "depth \<le> MAX_AUTH_DEPTH" and n: "n = Suc MAX_AUTH_DEPTH - Suc depth" by simp_all
  show ?case
  proof (cases "d = l")
    case True
    then show ?thesis using depth by (subst search.simps) (auto simp: chain_of_master chain_holds_def)
  next
    case False
    show ?thesis
    proof (cases "fm_get (authorized_devices im) (cid, d)")
      case None
      then have "\<not> trust_chain im ctx cid l now rank d rs" for rs
        using False by (cases rs) (auto simp: chain_Nil chain_Cons)
      then show ?thesis using None False by (subst search.simps) simp
    next
      case (Some records)
      have next_hop: "(ar_issuer_pk r = l \<or>
            (\<exists>e. search val tp meet jn im ctx cid (ar_issuer_pk r) l now rank (depth + 1) = Some e \<and> holds e)) \<and> holds (val r) \<longleftrightarrow>
          (\<exists>rs. trust_chain im ctx cid l now rank (ar_issuer_pk r) rs \<and> length rs \<le> n \<and> chain_holds (r # rs))" for r
      proof (cases "ar_issuer_pk r = l")
        case True
        then show ?thesis by (auto simp: chain_of_master chain_holds_def)
      next
        case False
        then have "rs \<noteq> []" if "trust_chain im ctx cid l now rank (ar_issuer_pk r) rs" for rs
          using that by (auto simp: chain_Nil)
        then show ?thesis
          using False Suc.hyps(1) [of "depth + 1" "ar_issuer_pk r"] n
          by (cases "Suc depth \<le> MAX_AUTH_DEPTH") (auto simp: chain_holds_def)
      qed
      have "(\<exists>e. search val tp meet jn im ctx cid d l now rank depth = Some e \<and> holds e) \<longleftrightarrow>
          (\<exists>r \<in> set records. record_usable im ctx cid d l now rank r \<and>
             (\<exists>rs. trust_chain im ctx cid l now rank (ar_issuer_pk r) rs \<and> length rs \<le> n \<and> chain_holds (r # rs)))"
        unfolding search_step [OF depth False Some] next_hop [symmetric] by blast
      also have "\<dots> \<longleftrightarrow> (\<exists>rs. trust_chain im ctx cid l now rank d rs \<and> length rs \<le> Suc MAX_AUTH_DEPTH - depth \<and> chain_holds rs)"
      proof
        assume "\<exists>rs. trust_chain im ctx cid l now rank d rs \<and> length rs \<le> Suc MAX_AUTH_DEPTH - depth \<and> chain_holds rs"
        then obtain rs where rs: "trust_chain im ctx cid l now rank d rs" "length rs \<le> Suc n" "chain_holds rs"
          using Suc.hyps(2) by auto
        then show "\<exists>r \<in> set records. record_usable im ctx cid d l now rank r \<and>
             (\<exists>rs. trust_chain im ctx cid l now rank (ar_issuer_pk r) rs \<and> length rs \<le> n \<and> chain_holds (r # rs))"
          using False Some by (cases rs) (auto simp: chain_Nil chain_Cons)
      next
        assume "\<exists>r \<in> set records. record_usable im ctx cid d l now rank r \<and>
             (\<exists>rs. trust_chain im ctx cid l now rank (ar_issuer_pk r) rs \<and> length rs \<le> n \<and> chain_holds (r # rs))"
        then obtain r rs where "trust_chain im ctx cid l now rank d (r # rs)" "length rs \<le> n" "chain_holds (r # rs)"
          using False Some by (auto simp: chain_Cons)
        then show "\<exists>rs. trust_chain im ctx cid l now rank d rs \<and> length rs \<le> Suc MAX_AUTH_DEPTH - depth \<and> chain_holds rs"
          using Suc.hyps(2) by (intro exI [of _ "r # rs"]) auto
      qed
      finally show ?thesis using depth by blast
    qed
  qed
qed

end

interpretation expiry: path_search ar_expires_at i64_max min max "\<lambda>e. t < e" for t
  by unfold_locales auto

interpretation permission: path_search ar_permissions PERM_ALL "(AND)" "(OR)" "\<lambda>p. bit p i" for i
  by unfold_locales (auto simp: bit_or_iff bit_and_iff)

interpretation found: path_search val tp meet jn "\<lambda>_. True" for val tp meet jn
  by unfold_locales auto

text \<open>The permissions of a device, bit by bit; and the two searches succeed on the same devices.\<close>

lemma get_permissions_bit_iff:
  "(\<exists>p. get_permissions im ctx cid d l now rank = Some p \<and> bit p i) \<longleftrightarrow>
   (\<exists>rs. trust_chain im ctx cid l now rank d rs \<and> length rs \<le> Suc MAX_AUTH_DEPTH \<and>
      (if rs = [] then bit PERM_ALL i else \<forall>r \<in> set rs. bit (ar_permissions r) i))"
  using permission.search_iff_chain [of im ctx cid d l now rank 0 i]
  by (simp add: get_permissions_def get_permissions_recursive_search permission.chain_holds_def)

lemma search_found_iff:
  "search val tp meet jn im ctx cid d l now rank depth \<noteq> None \<longleftrightarrow>
   depth \<le> MAX_AUTH_DEPTH \<and> (\<exists>rs. trust_chain im ctx cid l now rank d rs \<and> length rs \<le> Suc MAX_AUTH_DEPTH - depth)"
proof -
  have "(if rs = [] then True else \<forall>r \<in> set rs. True) = True" for rs :: "auth_record list" by simp
  note triv = this
  show ?thesis
    using found.search_iff_chain [of val tp meet jn im ctx cid d l now rank depth]
    unfolding found.chain_holds_def triv not_None_eq simp_thms .
qed

lemma authorized_iff_chain:
  "is_authorized_recursive im ctx cid d l now rank 0 \<noteq> None \<longleftrightarrow>
   (\<exists>rs. trust_chain im ctx cid l now rank d rs \<and> length rs \<le> Suc MAX_AUTH_DEPTH)"
  by (simp add: is_authorized_recursive_search search_found_iff del: not_None_eq)

lemma authorized_iff_permissions:
  "is_authorized_recursive im ctx cid d l now rank depth \<noteq> None \<longleftrightarrow>
   get_permissions_recursive im ctx cid d l now rank depth \<noteq> None"
  unfolding is_authorized_recursive_search get_permissions_recursive_search search_found_iff ..

text \<open>An answer holds until the time it names, at least.\<close>

lemma authorized_until:
  assumes "is_authorized_recursive im ctx cid d l now rank 0 = Some e" and "t < e"
  shows "is_authorized_recursive im ctx cid d l t rank 0 \<noteq> None"
proof -
  obtain rs where rs: "trust_chain im ctx cid l now rank d rs" "length rs \<le> Suc MAX_AUTH_DEPTH" "expiry.chain_holds t rs"
    using expiry.search_iff_chain [of im ctx cid d l now rank 0 t] assms
    by (auto simp: is_authorized_recursive_search)
  then have "\<forall>r \<in> set rs. t < ar_expires_at r" by (auto simp: expiry.chain_holds_def split: if_splits)
  then show ?thesis using chain_time [OF rs(1)] rs(2) by (auto simp: authorized_iff_chain simp del: not_None_eq)
qed

section \<open>The cache\<close>

text \<open>
  What the manager relies on of the cache: \<open>contents\<close> is what a lookup would return now. A lookup does
  not change the contents, an insertion may evict entries but adds only the inserted one.
\<close>

locale lru_cache =
  fixes lru :: "'p lru_ops" and contents :: "'p \<Rightarrow> path_key \<Rightarrow> int option"
  assumes get_result: "fst (lru_get lru c k) = contents c k"
    and get_contents: "contents (snd (lru_get lru c k)) k' = Some v \<Longrightarrow> contents c k' = Some v"
    and push_contents: "contents (lru_push lru c k v) k' = Some w \<Longrightarrow> (k' = k \<and> w = v) \<or> contents c k' = Some w"
    and clear_contents: "contents (lru_clear lru c) k = None"
    and new_contents: "contents (lru_new lru n) k = None"
begin

text \<open>
  Every cached answer is right: for the context and rank that belong to the evaluated node, the
  device is authorized at every time before the cached one.
\<close>

definition cache_ok :: "(node_hash \<Rightarrow> causal_context) \<Rightarrow> (node_hash \<Rightarrow> nat) \<Rightarrow> 'p identity_manager \<Rightarrow> bool" where
  "cache_ok ctx_of rank_of im \<longleftrightarrow>
     (\<forall>cid d l h e t. contents (path_cache im) (cid, d, l, h) = Some e \<longrightarrow> t < e \<longrightarrow>
        is_authorized_recursive im (ctx_of h) cid d l t (rank_of h) 0 \<noteq> None)"

lemma cache_ok_empty: "(\<And>k. contents (path_cache im) k = None) \<Longrightarrow> cache_ok ctx_of rank_of im"
  by (simp add: cache_ok_def)

lemma cache_ok_subset:
  assumes "cache_ok ctx_of rank_of im" and "\<And>k e. contents c k = Some e \<Longrightarrow> contents (path_cache im) k = Some e"
    and "\<And>ctx cid d l t r. is_authorized_recursive (im\<lparr>path_cache := c\<rparr>) ctx cid d l t r 0 = is_authorized_recursive im ctx cid d l t r 0"
  shows "cache_ok ctx_of rank_of (im\<lparr>path_cache := c\<rparr>)"
  unfolding cache_ok_def
proof (intro allI impI)
  fix cid d l h e t
  assume "contents (path_cache (im\<lparr>path_cache := c\<rparr>)) (cid, d, l, h) = Some e" "t < e"
  then have "is_authorized_recursive im (ctx_of h) cid d l t (rank_of h) 0 \<noteq> None"
    using assms(1,2) by (auto simp: cache_ok_def)
  then show "is_authorized_recursive (im\<lparr>path_cache := c\<rparr>) (ctx_of h) cid d l t (rank_of h) 0 \<noteq> None"
    by (simp add: assms(3))
qed

end

text \<open>The answers do not depend on the cache.\<close>

lemma is_mutual_revocation_cong:
  assumes "authorized_devices im' = authorized_devices im" and "revoked_devices im' = revoked_devices im"
  shows "is_mutual_revocation im' = is_mutual_revocation im"
  by (intro ext) (unfold is_mutual_revocation_def assms, rule refl)

lemma record_usable_cong:
  assumes "authorized_devices im' = authorized_devices im" and "revoked_devices im' = revoked_devices im"
  shows "record_usable im' = record_usable im"
proof -
  have applies: "revocation_applies im' = revocation_applies im"
    by (intro ext) (simp add: revocation_applies_def is_mutual_revocation_cong [OF assms])
  have "is_revoked im' = is_revoked im" by (intro ext) (unfold is_revoked_def assms applies, rule refl)
  then show ?thesis by (intro ext) (simp add: record_usable_def)
qed

lemma search_cong:
  assumes "authorized_devices im' = authorized_devices im" and "revoked_devices im' = revoked_devices im"
  shows "search val tp meet jn im' ctx cid d l now rank depth = search val tp meet jn im ctx cid d l now rank depth"
proof (induction "Suc MAX_AUTH_DEPTH - depth" arbitrary: d depth)
  case 0
  then show ?case by (subst (1 2) search.simps) simp
next
  case (Suc n)
  have rec: "search val tp meet jn im' ctx cid d' l now rank (depth + 1) =
      search val tp meet jn im ctx cid d' l now rank (depth + 1)" for d'
    using Suc by simp
  show ?case
    unfolding search.simps [of val tp meet jn im' ctx cid d l now rank depth]
      search.simps [of val tp meet jn im ctx cid d l now rank depth] rec record_usable_cong [OF assms] assms(1) ..
qed

lemma authorized_cong:
  assumes "authorized_devices im' = authorized_devices im" and "revoked_devices im' = revoked_devices im"
  shows "is_authorized_recursive im' ctx cid d l now rank depth = is_authorized_recursive im ctx cid d l now rank depth"
  by (simp add: is_authorized_recursive_search search_cong [OF assms])

lemma permissions_cong:
  assumes "authorized_devices im' = authorized_devices im" and "revoked_devices im' = revoked_devices im"
  shows "get_permissions_recursive im' ctx cid d l now rank depth = get_permissions_recursive im ctx cid d l now rank depth"
  by (simp add: get_permissions_recursive_search search_cong [OF assms])

lemma is_authorized_frame:
  "im' = snd (is_authorized lru im ctx cid d l now rank) \<Longrightarrow>
     authorized_devices im' = authorized_devices im \<and> revoked_devices im' = revoked_devices im \<and>
     logical_members im' = logical_members im"
  by (auto simp: is_authorized_def Let_def split: prod.splits if_splits option.splits)

context lru_cache
begin

text \<open>With a right cache the cached answer is the searched one, and the cache stays right.\<close>

lemma is_authorized_transparent:
  assumes "cache_ok ctx_of rank_of im" and "\<And>h. ctx_evaluating_node_hash (ctx_of h) = h"
  shows "fst (is_authorized lru im (ctx_of h) cid d l now (rank_of h)) \<longleftrightarrow>
      is_authorized_recursive im (ctx_of h) cid d l now (rank_of h) 0 \<noteq> None" (is "?A \<longleftrightarrow> ?B")
    and "cache_ok ctx_of rank_of (snd (is_authorized lru im (ctx_of h) cid d l now (rank_of h)))" (is ?C)
proof -
  let ?key = "(cid, d, l, h)" and ?r = "is_authorized_recursive im (ctx_of h) cid d l now (rank_of h) 0"
  define c where "c = snd (lru_get lru (path_cache im) ?key)"
  have same: "is_authorized_recursive (im\<lparr>path_cache := c'\<rparr>) ctx cid' d' l' t r 0 = is_authorized_recursive im ctx cid' d' l' t r 0"
    for c' ctx cid' d' l' t r by (rule authorized_cong) simp_all
  have got: "cache_ok ctx_of rank_of (im\<lparr>path_cache := c\<rparr>)"
    by (rule cache_ok_subset [OF assms(1)]) (unfold c_def, erule get_contents, rule same)
  have pushed: "cache_ok ctx_of rank_of (im\<lparr>path_cache := lru_push lru c ?key e\<rparr>)" if "?r = Some e" for e
    unfolding cache_ok_def same
  proof (intro allI impI)
    fix cid' d' l' h' e' t
    assume e': "contents (path_cache (im\<lparr>path_cache := lru_push lru c ?key e\<rparr>)) (cid', d', l', h') = Some e'" "t < e'"
    then consider "(cid', d', l', h') = ?key" "e' = e" | "contents c (cid', d', l', h') = Some e'"
      using push_contents [of c ?key e "(cid', d', l', h')" e'] by auto
    then show "is_authorized_recursive im (ctx_of h') cid' d' l' t (rank_of h') 0 \<noteq> None"
    proof cases
      case 1
      then show ?thesis using authorized_until [OF that, of t] e'(2) by simp
    next
      case 2
      then show ?thesis using got e'(2) unfolding cache_ok_def same by simp
    qed
  qed
  have hit: "?B" if "contents (path_cache im) ?key = Some e" "now < e" for e
    using assms(1) that by (auto simp: cache_ok_def simp del: not_None_eq)
  have master: "?B" if "d = l" using that by (subst is_authorized_recursive.simps) simp
  have g: "lru_get lru (path_cache im) ?key = (contents (path_cache im) ?key, c)"
    by (simp add: prod_eq_iff get_result c_def)
  let ?hit = "case contents (path_cache im) ?key of None \<Rightarrow> False | Some e \<Rightarrow> now < e"
  have hitB: "?B" if ?hit using that hit by (cases "contents (path_cache im) ?key") simp_all
  have eq: "is_authorized lru im (ctx_of h) cid d l now (rank_of h) =
      (if d = l then (True, im) else if ?hit then (True, im\<lparr>path_cache := c\<rparr>)
       else case ?r of None \<Rightarrow> (False, im\<lparr>path_cache := c\<rparr>)
         | Some e \<Rightarrow> (True, im\<lparr>path_cache := lru_push lru c ?key e\<rparr>))"
    by (simp add: is_authorized_def Let_def assms(2) g split: option.split)
  show "?A \<longleftrightarrow> ?B" unfolding eq using hitB master by (cases ?hit; cases "d = l"; cases ?r) simp_all
  show ?C unfolding eq using assms(1) got pushed by (cases ?r) simp_all
qed

end

end
