(* ===== verification/Identity_Run.thy ===== *)
theory Identity_Run
  imports Identity_Trust "HOL-Library.Multiset"
begin

text \<open>
  The identity manager over its lifetime: the updates, the runs, and what holds in every run. The
  entries of the table of authorizations may be reordered whenever an authorization is added, as a
  hash table may.
\<close>

section \<open>Runs\<close>

inductive im_step ::
    "'p lru_ops \<Rightarrow> crypto \<Rightarrow> (node_hash \<Rightarrow> causal_context) \<Rightarrow> (node_hash \<Rightarrow> nat)
       \<Rightarrow> 'p identity_manager \<Rightarrow> 'p identity_manager \<Rightarrow> bool"
  for lru cr ctx_of rank_of where
  member: "im_step lru cr ctx_of rank_of im (add_member im cid l role joined)"
| remove: "im_step lru cr ctx_of rank_of im (remove_member lru im cid rpk rl l rank now h)"
| revoke: "im_step lru cr ctx_of rank_of im (revoke_device lru im cid rpk rl d rank now h)"
| authorize: "im_step lru cr ctx_of rank_of im (im'\<lparr>authorized_devices := auth\<rparr>)"
    if "authorize_device cr lru im ctx cid l cert now rank h = (res, im')"
      and "mset auth = mset (authorized_devices im')"
| ask: "im_step lru cr ctx_of rank_of im (snd (is_authorized lru im (ctx_of h) cid d l now (rank_of h)))"
| list_active: "im_step lru cr ctx_of rank_of im
    (snd (list_active_authorized_devices lru im (ctx_of h) cid now (rank_of h)))"

inductive im_steps ::
    "'p lru_ops \<Rightarrow> crypto \<Rightarrow> (node_hash \<Rightarrow> causal_context) \<Rightarrow> (node_hash \<Rightarrow> nat)
       \<Rightarrow> 'p identity_manager \<Rightarrow> 'p identity_manager \<Rightarrow> bool"
  for lru cr ctx_of rank_of where
  refl: "im_steps lru cr ctx_of rank_of im im"
| step: "im_steps lru cr ctx_of rank_of im im'' " if "im_steps lru cr ctx_of rank_of im im'" and "im_step lru cr ctx_of rank_of im' im''"

section \<open>The cache in a run\<close>

lemma revoke_device_simps [simp]:
  "authorized_devices (revoke_device lru im cid rpk rl d rank now h) = authorized_devices im"
  "path_cache (revoke_device lru im cid rpk rl d rank now h) = lru_clear lru (path_cache im)"
  "logical_members (revoke_device lru im cid rpk rl d rank now h) = logical_members im"
  by (simp_all add: revoke_device_def Let_def)

lemma authorize_device_cache:
  "authorize_device cr lru im ctx cid l cert now rank h = (res, im') \<Longrightarrow> path_cache im' = lru_clear lru (path_cache im)"
  by (auto simp: authorize_device_def Let_def add_record_def split: if_splits option.splits prod.splits)

lemma authorize_device_revoked:
  "authorize_device cr lru im ctx cid l cert now rank h = (res, im') \<Longrightarrow> revoked_devices im' = revoked_devices im"
  by (auto simp: authorize_device_def Let_def add_record_def split: if_splits option.splits prod.splits)

context lru_cache
begin

lemma cache_ok_same:
  assumes "cache_ok ctx_of rank_of im" and "authorized_devices im' = authorized_devices im"
    and "revoked_devices im' = revoked_devices im" and "path_cache im' = path_cache im"
  shows "cache_ok ctx_of rank_of im'"
  using assms(1) unfolding cache_ok_def assms(4) authorized_cong [OF assms(2,3)] .

lemma cache_ok_revoke: "cache_ok ctx_of rank_of (revoke_device lru im cid rpk rl d rank now h)"
  by (rule cache_ok_empty) (simp add: clear_contents)

lemma cache_ok_remove:
  assumes "cache_ok ctx_of rank_of im"
  shows "cache_ok ctx_of rank_of (remove_member lru im cid rpk rl l rank now h)"
proof -
  have "cache_ok ctx_of rank_of (fold (\<lambda>d m. revoke_device lru m cid rpk rl d rank now h) ds m)"
    if "cache_ok ctx_of rank_of m" for ds m
    using that by (induction ds arbitrary: m) (simp_all add: cache_ok_revoke)
  moreover have "cache_ok ctx_of rank_of (im\<lparr>logical_members := ms\<rparr>)" for ms
    by (rule cache_ok_same [OF assms]) simp_all
  ultimately show ?thesis by (simp add: remove_member_def Let_def)
qed

lemma active_for_ok:
  assumes "\<And>h. ctx_evaluating_node_hash (ctx_of h) = h" and "cache_ok ctx_of rank_of im"
    and "active_for lru (ctx_of h) cid l now (rank_of h) ds im = (found, im')"
  shows "found = filter (\<lambda>d. is_authorized_recursive im (ctx_of h) cid d l now (rank_of h) 0 \<noteq> None) ds \<and>
    cache_ok ctx_of rank_of im' \<and> authorized_devices im' = authorized_devices im \<and> revoked_devices im' = revoked_devices im"
  using assms(2,3)
proof (induction ds arbitrary: im im' found)
  case (Cons d ds)
  obtain ok im1 where ask: "is_authorized lru im (ctx_of h) cid d l now (rank_of h) = (ok, im1)" by fastforce
  obtain rest im2 where rest: "active_for lru (ctx_of h) cid l now (rank_of h) ds im1 = (rest, im2)" by fastforce
  have ok: "ok \<longleftrightarrow> is_authorized_recursive im (ctx_of h) cid d l now (rank_of h) 0 \<noteq> None" "cache_ok ctx_of rank_of im1"
    using is_authorized_transparent [OF Cons.prems(1) assms(1), of h cid d l now] by (simp_all add: ask)
  have same: "authorized_devices im1 = authorized_devices im" "revoked_devices im1 = revoked_devices im"
    using is_authorized_frame [of im1 lru im "ctx_of h" cid d l now "rank_of h"] ask by simp_all
  show ?case
    using Cons.IH [OF ok(2) rest] Cons.prems(2) ok(1)
    unfolding authorized_cong [OF same] same by (auto simp: ask rest)
qed simp

lemma active_members_ok:
  assumes "\<And>h. ctx_evaluating_node_hash (ctx_of h) = h" and "cache_ok ctx_of rank_of im"
    and "active_members lru (ctx_of h) cid now (rank_of h) ds ms im = (found, im')"
  shows "found = concat (map (\<lambda>(l, _). let fs = filter (\<lambda>d. is_authorized_recursive im (ctx_of h) cid d l now (rank_of h) 0 \<noteq> None) ds
      in if fs = [] then [l] else fs) ms) \<and>
    cache_ok ctx_of rank_of im' \<and> authorized_devices im' = authorized_devices im \<and> revoked_devices im' = revoked_devices im"
  using assms(2,3)
proof (induction ms arbitrary: im im' found)
  case (Cons m ms)
  obtain l role joined where m: "m = (l, role, joined)" by (cases m)
  obtain fs im1 where fs: "active_for lru (ctx_of h) cid l now (rank_of h) ds im = (fs, im1)" by fastforce
  obtain rest im2 where rest: "active_members lru (ctx_of h) cid now (rank_of h) ds ms im1 = (rest, im2)" by fastforce
  note one = active_for_ok [OF assms(1) Cons.prems(1) fs]
  then have same: "authorized_devices im1 = authorized_devices im" "revoked_devices im1 = revoked_devices im"
    and ok: "cache_ok ctx_of rank_of im1" by simp_all
  show ?case
    using Cons.IH [OF ok rest] Cons.prems(2) one
    unfolding authorized_cong [OF same] same by (auto simp: m fs rest Let_def)
qed simp

lemma list_active_ok:
  assumes "\<And>h. ctx_evaluating_node_hash (ctx_of h) = h" and "cache_ok ctx_of rank_of im"
  shows "cache_ok ctx_of rank_of (snd (list_active_authorized_devices lru im (ctx_of h) cid now (rank_of h)))"
  using active_members_ok [OF assms]
  by (auto simp: list_active_authorized_devices_def Let_def split: prod.splits)

lemma list_active_exact:
  assumes "\<And>h. ctx_evaluating_node_hash (ctx_of h) = h" and "cache_ok ctx_of rank_of im"
  shows "sorted (fst (list_active_authorized_devices lru im (ctx_of h) cid now (rank_of h)))"
    and "set (fst (list_active_authorized_devices lru im (ctx_of h) cid now (rank_of h))) =
      (\<Union>l \<in> fst ` set (list_members im cid).
         let ds = {d. (cid, d) \<in> set (fm_keys (authorized_devices im)) \<and>
                      is_authorized_recursive im (ctx_of h) cid d l now (rank_of h) 0 \<noteq> None}
         in if ds = {} then {l} else ds)"
proof -
  let ?cs = "map snd (filter (\<lambda>(c, _). c = cid) (fm_keys (authorized_devices im)))"
  let ?ok = "\<lambda>l d. is_authorized_recursive im (ctx_of h) cid d l now (rank_of h) 0 \<noteq> None"
  obtain devs im' where devs: "active_members lru (ctx_of h) cid now (rank_of h) ?cs (list_members im cid) im = (devs, im')"
    by fastforce
  note found = conjunct1 [OF active_members_ok [OF assms devs]]
  have res: "fst (list_active_authorized_devices lru im (ctx_of h) cid now (rank_of h)) = remdups_adj (sort devs)"
    by (simp add: list_active_authorized_devices_def devs)
  show "sorted (fst (list_active_authorized_devices lru im (ctx_of h) cid now (rank_of h)))"
    by (simp add: res)
  have cs: "set ?cs = {d. (cid, d) \<in> set (fm_keys (authorized_devices im))}" by force
  have one: "set (if filter (?ok l) ?cs = [] then [l] else filter (?ok l) ?cs) =
      (let ds = {d. (cid, d) \<in> set (fm_keys (authorized_devices im)) \<and> ?ok l d} in if ds = {} then {l} else ds)" for l
  proof -
    have F: "set (filter (?ok l) ?cs) = {d. (cid, d) \<in> set (fm_keys (authorized_devices im)) \<and> ?ok l d}"
      unfolding set_filter cs by blast
    have "set (if xs = [] then [l] else xs) = (if set xs = {} then {l} else set xs)" for xs by simp
    then show ?thesis unfolding Let_def F [symmetric] .
  qed
  have "set devs = (\<Union>l \<in> fst ` set (list_members im cid). set (if filter (?ok l) ?cs = [] then [l] else filter (?ok l) ?cs))"
    by (simp only: found set_concat set_map image_image Let_def case_prod_beta)
  then show "set (fst (list_active_authorized_devices lru im (ctx_of h) cid now (rank_of h))) =
      (\<Union>l \<in> fst ` set (list_members im cid).
         let ds = {d. (cid, d) \<in> set (fm_keys (authorized_devices im)) \<and> ?ok l d} in if ds = {} then {l} else ds)"
    unfolding res remdups_adj_set set_sort one .
qed

lemma im_step_cache_ok:
  assumes "im_step lru cr ctx_of rank_of im im'" and "cache_ok ctx_of rank_of im"
    and "\<And>h. ctx_evaluating_node_hash (ctx_of h) = h"
  shows "cache_ok ctx_of rank_of im'"
  using assms(1)
proof cases
  case (member cid l role joined)
  then show ?thesis by (auto simp: add_member_def intro: cache_ok_same [OF assms(2)])
next
  case (authorize ctx cid l cert now rank h res m auth)
  then show ?thesis by (auto simp: authorize_device_cache clear_contents intro: cache_ok_empty)
qed (use assms(2,3) in \<open>auto intro: cache_ok_remove cache_ok_revoke is_authorized_transparent(2) list_active_ok\<close>)

lemma im_steps_cache_ok:
  assumes "im_steps lru cr ctx_of rank_of (im_new lru) im" and "\<And>h. ctx_evaluating_node_hash (ctx_of h) = h"
  shows "cache_ok ctx_of rank_of im"
  using assms(1)
proof (induction "im_new lru" im rule: im_steps.induct)
  case refl
  show ?case by (rule cache_ok_empty) (simp add: im_new_def new_contents)
next
  case (step im' im'')
  then show ?case using im_step_cache_ok assms(2) by blast
qed

end

section \<open>A cache\<close>

text \<open>Most recently used first, cut to the capacity.\<close>

definition lru_list :: "(nat \<times> (path_key \<times> int) list) lru_ops" where
  "lru_list =
     \<lparr>lru_new = (\<lambda>n. (n, [])),
      lru_get = (\<lambda>(n, xs) k. case map_of xs k of
         None \<Rightarrow> (None, (n, xs)) | Some v \<Rightarrow> (Some v, (n, (k, v) # filter (\<lambda>(k', _). k' \<noteq> k) xs))),
      lru_push = (\<lambda>(n, xs) k v. (n, take n ((k, v) # filter (\<lambda>(k', _). k' \<noteq> k) xs))),
      lru_clear = (\<lambda>(n, _). (n, []))\<rparr>"

definition lru_list_contents :: "nat \<times> (path_key \<times> int) list \<Rightarrow> path_key \<Rightarrow> int option" where
  "lru_list_contents c = map_of (snd c)"

lemma map_of_filter_other: "map_of (filter (\<lambda>(k', _). k' \<noteq> k) xs) k'' = (if k'' = k then None else map_of xs k'')"
  by (induction xs) auto

lemma map_of_take: "map_of (take n xs) k = Some v \<Longrightarrow> map_of xs k = Some v"
  by (induction xs arbitrary: n) (auto simp: take_Cons split: nat.splits if_splits)

interpretation lru_list: lru_cache lru_list lru_list_contents
proof
  fix c :: "nat \<times> (path_key \<times> int) list" and k k' :: path_key and v w :: int and n :: nat
  obtain m xs where c: "c = (m, xs)" by (cases c)
  show "fst (lru_get lru_list c k) = lru_list_contents c k"
    by (simp add: c lru_list_def lru_list_contents_def split: option.split)
  show "lru_list_contents c k' = Some v" if "lru_list_contents (snd (lru_get lru_list c k)) k' = Some v"
    using that by (auto simp: c lru_list_def lru_list_contents_def map_of_filter_other split: option.splits if_splits)
  show "(k' = k \<and> w = v) \<or> lru_list_contents c k' = Some w" if "lru_list_contents (lru_push lru_list c k v) k' = Some w"
    using that map_of_take [of m "(k, v) # filter (\<lambda>(k', _). k' \<noteq> k) xs" k' w]
    by (auto simp: c lru_list_def lru_list_contents_def map_of_filter_other split: if_splits)
qed (simp_all add: lru_list_def lru_list_contents_def split: prod.split)

section \<open>Revocations stay\<close>

definition revoked_by :: "'p identity_manager \<Rightarrow> conversation_id \<Rightarrow> public_key \<Rightarrow> revocation_record \<Rightarrow> bool" where
  "revoked_by im cid d rv \<longleftrightarrow> (\<exists>revs. fm_get (revoked_devices im) (cid, d) = Some revs \<and> rv \<in> set revs)"

lemma revoked_by_cong: "revoked_devices im' = revoked_devices im \<Longrightarrow> revoked_by im' = revoked_by im"
  by (intro ext) (simp add: revoked_by_def)

lemma revoke_device_revoked_by:
  "revoked_by im cid d rv \<Longrightarrow> revoked_by (revoke_device lru im cid' rpk rl d' rank now h) cid d rv"
  by (auto simp: revoked_by_def revoke_device_def Let_def)

lemma revoke_device_adds:
  "revoked_by (revoke_device lru im cid rpk rl d rank now h) cid d
     \<lparr>rv_rank = rank, rv_revoker_seniority = revoker_seniority_of im cid rpk rl rank now, rv_revocation_hash = h\<rparr>"
  by (simp add: revoked_by_def revoke_device_def Let_def split: option.split)

lemma remove_member_revoked_by:
  assumes "revoked_by im cid d rv"
  shows "revoked_by (remove_member lru im cid' rpk rl l rank now h) cid d rv"
proof -
  have "revoked_by (fold (\<lambda>d m. revoke_device lru m cid' rpk rl d rank now h) ds m) cid d rv" if "revoked_by m cid d rv" for ds m
    using that by (induction ds arbitrary: m) (simp_all add: revoke_device_revoked_by)
  moreover have "revoked_by (im\<lparr>logical_members := ms\<rparr>) cid d rv" for ms
    using assms by (simp add: revoked_by_def)
  ultimately show ?thesis by (simp add: remove_member_def Let_def)
qed

lemma active_for_frame:
  "active_for lru ctx cid l now rank ds im = (found, im') \<Longrightarrow> revoked_devices im' = revoked_devices im"
proof (induction ds arbitrary: im found im')
  case (Cons d ds)
  then show ?case
    using is_authorized_frame [OF HOL.refl, of lru im ctx cid d l now rank]
    by (fastforce simp: Let_def split: prod.splits)
qed simp

lemma active_members_frame:
  "active_members lru ctx cid now rank ds ms im = (found, im') \<Longrightarrow> revoked_devices im' = revoked_devices im"
proof (induction ms arbitrary: im found im')
  case (Cons m ms)
  then show ?case by (cases m) (fastforce simp: Let_def dest: active_for_frame split: prod.splits)
qed simp

lemma list_active_frame: "revoked_devices (snd (list_active_authorized_devices lru im ctx cid now rank)) = revoked_devices im"
  by (auto simp: list_active_authorized_devices_def Let_def dest: active_members_frame split: prod.splits)

lemma im_step_revoked_by:
  assumes "im_step lru cr ctx_of rank_of im im'" and "revoked_by im cid d rv"
  shows "revoked_by im' cid d rv"
  using assms(1)
proof cases
  case (authorize ctx cid l cert now rank h res m auth)
  then have "revoked_devices im' = revoked_devices im" by (simp add: authorize_device_revoked)
  then show ?thesis using assms(2) revoked_by_cong by metis
next
  case (ask h cid d l now)
  then show ?thesis using is_authorized_frame [OF ask] assms(2) revoked_by_cong by metis
next
  case (list_active h cid now)
  then show ?thesis using list_active_frame assms(2) revoked_by_cong by metis
next
  case (member cid l role joined)
  then show ?thesis using assms(2) by (simp add: revoked_by_def add_member_def)
qed (use assms(2) in \<open>simp_all add: remove_member_revoked_by revoke_device_revoked_by\<close>)

lemma im_steps_revoked_by:
  "im_steps lru cr ctx_of rank_of im im' \<Longrightarrow> revoked_by im cid d rv \<Longrightarrow> revoked_by im' cid d rv"
  by (induction rule: im_steps.induct) (auto dest: im_step_revoked_by)

text \<open>A revocation by a master key applies to every record, at every later rank.\<close>

lemma master_revocation_applies:
  assumes "rv_revoker_seniority rv = (0, zero_hash)" and "rv_rank rv \<le> rank"
    and "rv_revocation_hash rv = zero_hash \<or> ctx_evaluating_node_hash ctx = zero_hash
           \<or> rv_revocation_hash rv \<in> ctx_admin_ancestor_hashes ctx"
  shows "revocation_applies im ctx cid rank r rv"
  using assms by (simp add: revocation_applies_def is_mutual_revocation_def)

lemma revoked_no_chain:
  assumes "revoked_by im cid d rv" and "\<And>r. revocation_applies im ctx cid rank r rv" and "d \<noteq> l"
  shows "is_authorized_recursive im ctx cid d l now rank 0 = None"
proof -
  have "is_revoked im ctx cid d rank r" for r
    using assms(1) assms(2) [of r] by (auto simp: revoked_by_def is_revoked_def list_ex_iff)
  then have "\<not> record_usable im ctx cid d l now rank r" for r by (simp add: record_usable_def)
  then have "\<not> trust_chain im ctx cid l now rank d rs" for rs
    using assms(3) by (cases rs) (auto simp: chain_Nil chain_Cons)
  then show ?thesis using authorized_iff_chain [of im ctx cid d l now rank] by blast
qed

lemma master_revocation_stays:
  assumes "im_steps lru cr ctx_of rank_of (revoke_device lru im cid rpk rpk d rank now h) im'" and "d \<noteq> l" and "rank \<le> rank'"
    and "h = zero_hash \<or> ctx_evaluating_node_hash ctx = zero_hash \<or> h \<in> ctx_admin_ancestor_hashes ctx"
  shows "is_authorized_recursive im' ctx cid d l now' rank' 0 = None"
proof -
  have "revoked_by im' cid d \<lparr>rv_rank = rank, rv_revoker_seniority = (0, zero_hash), rv_revocation_hash = h\<rparr>"
    using im_steps_revoked_by [OF assms(1) revoke_device_adds] by (simp add: revoker_seniority_of_def Let_def)
  then show ?thesis
    by (rule revoked_no_chain [OF _ master_revocation_applies assms(2)]) (use assms(3,4) in simp_all)
qed

section \<open>Authorizations do not escalate\<close>

lemma find_key_set:
  assumes "\<And>v. fm_get m k = Some v \<Longrightarrow> P (k, v') = P (k, v)" and "fm_get m k = None \<Longrightarrow> \<not> P (k, v')"
  shows "map_option fst (find P (fm_set m k v')) = map_option fst (find P m)"
  using assms
proof (induction m)
  case (Cons e m)
  then show ?case by (cases e) (auto split: if_splits)
qed simp

lemma is_mutual_revocation_key:
  "is_mutual_revocation im cid rh th =
     (if rh = zero_hash \<or> th = zero_hash then False
      else (case map_option fst (find (\<lambda>((c, _), records). c = cid \<and> list_ex (\<lambda>r. ar_auth_hash r = rh) records)
                   (authorized_devices im)) of
              None \<Rightarrow> False
            | Some (_, rk) \<Rightarrow>
                (case fm_get (revoked_devices im) (cid, rk) of
                   None \<Rightarrow> False
                 | Some revs \<Rightarrow> list_ex (\<lambda>r. snd (rv_revoker_seniority r) = th) revs)))"
  by (auto simp: is_mutual_revocation_def split: option.splits prod.splits)

lemma add_record_get:
  "fm_get (authorized_devices (add_record im cid d r)) k =
     (if k = (cid, d)
      then Some (let rs = (case fm_get (authorized_devices im) (cid, d) of None \<Rightarrow> [] | Some rs \<Rightarrow> rs)
                 in if r \<in> set rs then rs else rs @ [r])
      else fm_get (authorized_devices im) k)"
  by (simp add: add_record_def Let_def)

lemma add_record_authorized:
  "authorized_devices (add_record im cid d r) =
     fm_set (authorized_devices im) (cid, d)
       (let rs = (case fm_get (authorized_devices im) (cid, d) of None \<Rightarrow> [] | Some rs \<Rightarrow> rs)
        in if r \<in> set rs then rs else rs @ [r])"
  and add_record_revoked: "revoked_devices (add_record im cid d r) = revoked_devices im"
  by (simp_all add: add_record_def Let_def)

lemma add_record_mutual:
  assumes "ar_auth_hash r \<noteq> rh"
  shows "is_mutual_revocation (add_record im cid d r) c rh th = is_mutual_revocation im c rh th"
proof -
  let ?P = "\<lambda>((c', _), records). c' = c \<and> list_ex (\<lambda>r. ar_auth_hash r = rh) records"
  have "map_option fst (find ?P (authorized_devices (add_record im cid d r))) = map_option fst (find ?P (authorized_devices im))"
    unfolding add_record_authorized
    by (rule find_key_set) (use assms in \<open>auto simp: Let_def\<close>)
  note keys = this
  show ?thesis unfolding is_mutual_revocation_key keys add_record_revoked ..
qed

text \<open>A new record under a hash no revoker has does not change which other records are usable.\<close>

definition fresh_hash :: "'p identity_manager \<Rightarrow> node_hash \<Rightarrow> bool" where
  "fresh_hash im h \<longleftrightarrow> (\<forall>cid d rv. revoked_by im cid d rv \<longrightarrow> snd (rv_revoker_seniority rv) \<noteq> h)"

lemma add_record_usable:
  assumes "fresh_hash im (ar_auth_hash r)"
  shows "record_usable (add_record im cid d r) ctx c d' l now rank r' = record_usable im ctx c d' l now rank r'"
proof -
  have "is_revoked (add_record im cid d r) ctx c d' rank r' = is_revoked im ctx c d' rank r'"
  proof (cases "fm_get (revoked_devices im) (c, d')")
    case None
    then show ?thesis by (simp add: is_revoked_def add_record_revoked)
  next
    case (Some revs)
    have "revocation_applies (add_record im cid d r) ctx c rank r' rv = revocation_applies im ctx c rank r' rv"
      if "rv \<in> set revs" for rv
    proof -
      have "revoked_by im c d' rv" using Some that by (simp add: revoked_by_def)
      then have "ar_auth_hash r \<noteq> snd (rv_revoker_seniority rv)" using assms by (fastforce simp: fresh_hash_def)
      then show ?thesis by (simp add: revocation_applies_def add_record_mutual)
    qed
    then show ?thesis using Some by (simp add: is_revoked_def add_record_revoked list_ex_iff)
  qed
  then show ?thesis by (simp add: record_usable_def)
qed

lemma add_record_chain:
  assumes "trust_chain (add_record im cid d r) ctx c l now rank d' rs" and "fresh_hash im (ar_auth_hash r)"
  shows "trust_chain im ctx c l now rank d' rs \<or> r \<in> set rs"
  using assms(1)
proof (induction rs arbitrary: d' rule: list.induct)
  case Nil
  then show ?case by (simp add: chain_Nil)
next
  case (Cons r' rs)
  show ?case
  proof (cases "r \<in> set (r' # rs)")
    case False
    obtain records where rec: "d' \<noteq> l" "fm_get (authorized_devices (add_record im cid d r)) (c, d') = Some records"
      "r' \<in> set records" "record_usable im ctx c d' l now rank r'" "trust_chain im ctx c l now rank (ar_issuer_pk r') rs"
      using Cons.IH Cons.prems False by (auto simp: chain_Cons add_record_usable [OF assms(2)])
    have "\<exists>records. fm_get (authorized_devices im) (c, d') = Some records \<and> r' \<in> set records"
      using rec(2,3) False by (auto simp: add_record_get Let_def split: if_splits option.splits)
    then show ?thesis using rec by (auto simp: chain_Cons)
  qed simp
qed

text \<open>What a successful authorization has checked.\<close>

lemma first_some_eq_Some: "first_some f xs = Some y \<Longrightarrow> \<exists>x \<in> set xs. f x = Some y"
  by (induction xs) (auto split: option.splits)

lemma find_issuer_sound:
  assumes "find_issuer cr im ctx cid l cert now rank = Some (issuer, q)"
  shows "verify_delegation cr cert issuer now = Inr () \<and>
    get_permissions_recursive im ctx cid issuer l now rank 0 = Some q \<and> perms_contain q PERM_ADMIN"
  using assms
  by (auto simp: find_issuer_def issuer_candidate_def dest!: first_some_eq_Some split: if_splits option.splits)

lemma authorize_device_ok:
  assumes "authorize_device cr lru im ctx cid l cert now rank h = (Inr (), im')"
  obtains (master) "verify_delegation cr cert l now = Inr ()"
      "im' = add_record (im\<lparr>path_cache := lru_clear lru (path_cache im)\<rparr>) cid (sd_device_pk cert)
         \<lparr>ar_logical_pk = l, ar_issuer_pk = l, ar_permissions = sd_permissions cert, ar_expires_at = sd_expires_at cert,
          ar_auth_rank = rank, ar_auth_hash = h\<rparr>"
  | (device) issuer q where "verify_delegation cr cert issuer now = Inr ()"
      "get_permissions im ctx cid issuer l now rank = Some q" "perms_contain q PERM_ADMIN" "perms_contain q (sd_permissions cert)"
      "im' = add_record (im\<lparr>path_cache := lru_clear lru (path_cache im)\<rparr>) cid (sd_device_pk cert)
         \<lparr>ar_logical_pk = l, ar_issuer_pk = issuer, ar_permissions = sd_permissions cert, ar_expires_at = sd_expires_at cert,
          ar_auth_rank = rank, ar_auth_hash = h\<rparr>"
proof -
  let ?im = "im\<lparr>path_cache := lru_clear lru (path_cache im)\<rparr>"
  have same: "get_permissions_recursive ?im ctx cid d l now rank 0 = get_permissions im ctx cid d l now rank" for d
    unfolding get_permissions_def by (rule permissions_cong) simp_all
  show ?thesis
    using assms find_issuer_sound [of cr ?im ctx cid l cert now rank] master device
    by (auto simp: authorize_device_def Let_def same split: if_splits option.splits prod.splits)
qed

lemma perms_contain_bit: "perms_contain q p \<Longrightarrow> bit p i \<Longrightarrow> bit q i"
  unfolding perms_contain_def by (metis bit_and_iff)

lemma no_escalation_aux:
  assumes "authorize_device cr lru im ctx cid l cert now rank h = (Inr (), im')" and "fresh_hash im h"
    and "get_permissions im' ctx' cid' d l' now' rank' = Some p'" and "bit p' i"
  shows "(\<exists>p. get_permissions im ctx' cid' d l' now' rank' = Some p \<and> bit p i) \<or>
    bit (sd_permissions cert) i \<and>
    (verify_delegation cr cert l now = Inr () \<or>
     (\<exists>issuer q. verify_delegation cr cert issuer now = Inr () \<and>
        get_permissions im ctx cid issuer l now rank = Some q \<and> bit q i \<and> perms_contain q PERM_ADMIN))"
proof -
  let ?im = "im\<lparr>path_cache := lru_clear lru (path_cache im)\<rparr>"
  obtain r where im': "im' = add_record ?im cid (sd_device_pk cert) r" and r: "ar_auth_hash r = h" "ar_permissions r = sd_permissions cert"
    by (rule authorize_device_ok [OF assms(1)]) auto
  have fresh: "fresh_hash ?im (ar_auth_hash r)" using assms(2) r by (simp add: fresh_hash_def revoked_by_def)
  obtain rs where rs: "trust_chain im' ctx' cid' l' now' rank' d rs" "length rs \<le> Suc MAX_AUTH_DEPTH"
    "if rs = [] then bit PERM_ALL i else \<forall>r \<in> set rs. bit (ar_permissions r) i"
    using get_permissions_bit_iff [of im' ctx' cid' d l' now' rank' i] assms(3,4) by auto
  from add_record_chain [OF rs(1) [unfolded im'] fresh] show ?thesis
  proof
    assume "trust_chain ?im ctx' cid' l' now' rank' d rs"
    then have "\<exists>p. get_permissions ?im ctx' cid' d l' now' rank' = Some p \<and> bit p i"
      using rs(2,3) unfolding get_permissions_bit_iff by (intro exI [of _ rs] conjI)
    moreover have "get_permissions ?im ctx' cid' d l' now' rank' = get_permissions im ctx' cid' d l' now' rank'"
      unfolding get_permissions_def by (rule permissions_cong) simp_all
    ultimately show ?thesis by simp
  next
    assume "r \<in> set rs"
    then have b: "bit (sd_permissions cert) i" using rs(3) r by (auto split: if_splits)
    show ?thesis
      by (rule authorize_device_ok [OF assms(1)]) (use b perms_contain_bit in blast)+
  qed
qed

section \<open>Certificates\<close>

lemma sign_verify:
  assumes "sign_delegation cr sk d perms expires cid = Some cert" and "now \<le> expires"
    and "cr_key_valid cr pk" and "\<And>m. cr_verify cr pk m (cr_sign cr sk m)"
  shows "verify_delegation cr cert pk now = Inr ()"
  using assms
  by (auto simp: sign_delegation_def verify_delegation_def delegation_sign_data.defs delegation_certificate.defs
      bind_eq_Some_conv Let_def)

end
