(* ===== verification/Admission_Checks.thy ===== *)
theory Admission_Checks
  imports Admission_Run Identity_Run
begin

text \<open>
  What a node must have passed to become verified, and what a node of a stranger passes.
\<close>

section \<open>What a verified node has passed\<close>

lemma examine_node_cases:
  assumes "examine_node env lru ac ns fuel cid now_ms n h en s = Some (Inr (ctx, authorized, quarantine), en')"
  obtains q im where
    "causal_context_of env ac (es_get_node ns s) fuel (en_admin_ancestors en) n = Some (ctx, q)"
    "is_authorized lru (en_identity en) ctx cid (nd_sender_pk n) (nd_author_pk n) (nd_network_timestamp n)
       (nd_topological_rank n) = (authorized, im)"
    "quarantined (en\<lparr>en_admin_ancestors := q, en_identity := im\<rparr>) (es_get_node ns s) (es_is_verified ns s) cid n h
       authorized now_ms = Some quarantine"
    "authorized \<Longrightarrow> check_permissions (en\<lparr>en_admin_ancestors := q, en_identity := im\<rparr>) ctx cid n (nd_network_timestamp n)
       = Inr ()"
    "check_target env (en\<lparr>en_admin_ancestors := q, en_identity := im\<rparr>) ctx cid (es_get_node ns s) n = Inr ()"
    "if authorized
     then check_sequence (en\<lparr>en_admin_ancestors := q, en_identity := im\<rparr>) cid n h
            (es_get_last_sequence_number ns s cid (nd_sender_pk n)) = Some (Inr (), en')
     else en' = en\<lparr>en_admin_ancestors := q, en_identity := im\<rparr>"
proof -
  from assms have "causal_context_of env ac (es_get_node ns s) fuel (en_admin_ancestors en) n \<noteq> None"
    unfolding examine_node_def by (intro notI) simp
  then obtain c q where 1: "causal_context_of env ac (es_get_node ns s) fuel (en_admin_ancestors en) n = Some (c, q)" by auto
  obtain a im where 2: "is_authorized lru (en_identity en) c cid (nd_sender_pk n) (nd_author_pk n) (nd_network_timestamp n)
       (nd_topological_rank n) = (a, im)" by (cases "is_authorized lru (en_identity en) c cid (nd_sender_pk n)
       (nd_author_pk n) (nd_network_timestamp n) (nd_topological_rank n)")
  let ?en1 = "en\<lparr>en_admin_ancestors := q, en_identity := im\<rparr>"
  from assms 1 2 have "quarantined ?en1 (es_get_node ns s) (es_is_verified ns s) cid n h a now_ms \<noteq> None"
    unfolding examine_node_def Let_def by (intro notI) simp
  then obtain b where 3: "quarantined ?en1 (es_get_node ns s) (es_is_verified ns s) cid n h a now_ms = Some b" by auto
  let ?perms = "if a \<or> has_authorization_record im cid (nd_sender_pk n)
                then check_permissions ?en1 c cid n (nd_network_timestamp n) else Inr ()"
  from assms 1 2 3 obtain u where 4: "?perms = Inr u" unfolding examine_node_def Let_def by (cases ?perms) simp_all
  from assms 1 2 3 4 obtain w where 5: "check_target env ?en1 c cid (es_get_node ns s) n = Inr w"
    unfolding examine_node_def Let_def by (cases "check_target env ?en1 c cid (es_get_node ns s) n") simp_all
  show thesis
  proof (cases a)
    case True
    with assms 1 2 3 4 5 have "check_sequence ?en1 cid n h (es_get_last_sequence_number ns s cid (nd_sender_pk n))
        = Some (Inr (), en') \<and> ctx = c \<and> authorized \<and> quarantine = b"
      unfolding examine_node_def Let_def by (auto split: bind_splits sum.splits)
    with True 1 2 3 4 5 show thesis by (intro that) auto
  next
    case False
    with assms 1 2 3 4 5 have "en' = ?en1 \<and> ctx = c \<and> \<not> authorized \<and> quarantine = b"
      unfolding examine_node_def Let_def by auto
    with False 1 2 3 5 show thesis by (intro that) auto
  qed
qed

lemma not_quarantined:
  assumes "quarantined en get_node verified cid n h authorized now_ms = Some False"
  shows "is_bootstrap (nd_content n) \<or> (\<forall>p \<in> set (nd_parents n). verified p)"
    and "authorized \<or> is_bootstrap (nd_content n) \<or> VOUCH_THRESHOLD \<le> vouch_count en cid h"
    and "timestamps_quarantine (min_parent_timestamp get_node (nd_parents n)) (nd_network_timestamp n) now_ms = Some False"
  using assms by (auto simp: quarantined_def Let_def list_ex_iff split: bind_splits)

definition anchor_cert :: "content \<Rightarrow> (delegation_certificate \<times> permissions) option" where
  "anchor_cert c =
     (case c of Control (AnchorSnapshot _ cert) \<Rightarrow> Some (cert, PERM_ADMIN)
      | Control (SoftAnchor _ cert) \<Rightarrow> Some (cert, PERM_MESSAGE) | _ \<Rightarrow> None)"

lemma decide_anchor:
  assumes "decide env lru en ctx cid n h False authentic valid quarantine = (True, en')"
    and "anchor_cert (nd_content n) = Some (cert, perm)"
  shows "founder_certified env en cid n cert perm"
  using assms
  by (auto simp: decide_def anchor_cert_def Let_def split: content.splits control_action.splits if_splits)

text \<open>The keys a signature is checked against are those known before the node.\<close>

lemma unwrap_k_conv_frame:
  "unwrap_k_conv env cid n h epk ws en = (r, en') \<Longrightarrow>
     en_peer_ephemeral_signing_keys en' = en_peer_ephemeral_signing_keys en \<and> en_identity en' = en_identity en"
proof (induction ws arbitrary: en)
  case (Cons w ws)
  from Cons.prems show ?case by (auto simp: Let_def split: if_splits option.splits dest!: Cons.IH)
qed simp

lemma take_keys_frame:
  "take_keys env cid n h en = Some (e, used, en') \<Longrightarrow>
     en_peer_ephemeral_signing_keys en' = en_peer_ephemeral_signing_keys en \<and> en_identity en' = en_identity en"
  by (auto simp: take_keys_def accept_k_conv_def on_established_def Let_def
      split: content.splits option.splits prod.splits bind_splits conversation.splits dest!: unwrap_k_conv_frame)

lemma check_sequence_frame:
  assumes "check_sequence en cid n h k = Some (r, en')"
  shows "\<exists>es. en' = en\<lparr>en_equivocations := es\<rparr>"
proof -
  from assms have "en' = en \<or> (\<exists>es. en' = en\<lparr>en_equivocations := es\<rparr>)"
    by (simp add: check_sequence_def Let_def split: option.splits if_splits bind_splits) blast+
  then show ?thesis
  proof
    assume "en' = en"
    then show ?thesis by (intro exI [of _ "en_equivocations en"]) simp
  qed auto
qed

lemma ephemeral_authentic_cong:
  "en_peer_ephemeral_signing_keys en' = en_peer_ephemeral_signing_keys en \<Longrightarrow>
     ephemeral_authentic env en' n w sig = ephemeral_authentic env en n w sig"
  by (simp add: ephemeral_authentic_def)

lemma founder_certified_cong:
  "logical_members (en_identity en') = logical_members (en_identity en) \<Longrightarrow>
     founder_certified env en' cid n cert perm = founder_certified env en cid n cert perm"
  by (simp add: founder_certified_def get_founder_def)

text \<open>An ephemeral signature, other than the one of a genesis, was verified under the sender's key.\<close>

definition signature_checked :: "('e) adm_env_scheme \<Rightarrow> ('p, 'q) engine \<Rightarrow> merkle_node \<Rightarrow> wire_node option \<Rightarrow> bool" where
  "signature_checked env en n wire \<longleftrightarrow>
     (case nd_authentication n of
        Signature _ \<Rightarrow> True
      | EphemeralSignature sig \<Rightarrow> is_genesis (nd_content n) \<or> ephemeral_authentic env en n wire sig = Some True)"

lemma authentic_signature: "authentic_of env en cid n wire = Some True \<Longrightarrow> signature_checked env en n wire"
  by (simp add: authentic_of_def signature_checked_def split: node_auth.splits if_splits)

lemma verified_checks:
  assumes "process_node env lru ac ns fuel rot_key cid reverify now_ms n en s
             = Some (Inr (Some (effects, True, authentic)), en', s')"
  obtains h s1 ctx q authorized im where
    "mn_hash env n = Some h" "validate env (es_lookup ns fuel) s n = Some (Inr (), s1)"
    "causal_context_of env ac (es_get_node ns s1) fuel (en_admin_ancestors en) n = Some (ctx, q)"
    "is_authorized lru (en_identity en) ctx cid (nd_sender_pk n) (nd_author_pk n) (nd_network_timestamp n)
       (nd_topological_rank n) = (authorized, im)"
    "is_bootstrap (nd_content n) \<or> (\<forall>p \<in> set (nd_parents n). es_is_verified ns s1 p)"
    "timestamps_quarantine (min_parent_timestamp (es_get_node ns s1) (nd_parents n)) (nd_network_timestamp n) now_ms
       = Some False"
    "authorized \<Longrightarrow> check_permissions (en\<lparr>en_admin_ancestors := q, en_identity := im\<rparr>) ctx cid n (nd_network_timestamp n)
       = Inr ()"
    "authorized \<Longrightarrow> signature_checked env en n (es_get_wire_node ns s1 h)"
    "\<not> authorized \<Longrightarrow> is_bootstrap (nd_content n) \<or> VOUCH_THRESHOLD \<le> vouch_count en cid h"
    "\<And>cert perm. \<not> authorized \<Longrightarrow> anchor_cert (nd_content n) = Some (cert, perm) \<Longrightarrow> founder_certified env en cid n cert perm"
  using assms
proof (cases rule: process_node_cases)
  case (admitted h vr s1 valid en1 found)
  obtain ctx authorized quarantine where found: "found = (ctx, authorized, quarantine)" by (cases found)
  note examine = admitted(5) [unfolded found]
  from admitted(6) [unfolded found] show thesis
  proof (cases rule: admit_node_cases)
    case (1 used_effects used en2 sr en3 s2)
    then obtain verified a where sr: "sr = Inr (verified, a)" by (cases sr) auto
    with 1(3) have "conclude_node env lru ac ns fuel rot_key cid now_ms n h used_effects used verified a en3 s2
        = Some (Inr (Some (effects, True, authentic)), en', s')" by simp
    then have v: verified by (cases rule: conclude_node_cases) (auto split: sum.splits)
    from 1(2) obtain v0 en4 where auth: "authentic_of env en2 cid n (es_get_wire_node ns s1 h) = Some a"
      and decide: "decide env lru en2 ctx cid n h authorized a valid quarantine = (v0, en4)"
      and dedup: "dedup_soft_anchor en4 cid n v0 = (verified, en3)"
      by (cases rule: settle_node_cases) (auto simp: sr)
    from dedup v have v0: v0 by (auto dest: dedup_verified)
    note decided = decide_verified [OF decide [unfolded v0 eq_True [THEN iffD2, OF v0]]]
    from admitted(4) decided(1) have "vr = Inr ()"
      by (auto simp: structure_of_def split: sum.splits validation_error.splits)
    with admitted(3) have val: "validate env (es_lookup ns fuel) s n = Some (Inr (), s1)" by simp
    from examine show thesis
    proof (cases rule: examine_node_cases)
      case ex: (1 q im)
      have frame: "en_peer_ephemeral_signing_keys en2 = en_peer_ephemeral_signing_keys en" "en_identity en2 = im"
        using ex(6) 1(1) by (auto split: if_splits dest!: check_sequence_frame take_keys_frame)
      have nq: "quarantined (en\<lparr>en_admin_ancestors := q, en_identity := im\<rparr>) (es_get_node ns s1) (es_is_verified ns s1) cid n h
          authorized now_ms = Some False" using ex(3) decided(2) by simp
      show thesis
      proof (rule that [OF admitted(1) val ex(1,2) not_quarantined(1) [OF nq] not_quarantined(3) [OF nq] ex(4)])
        assume a: authorized
        with decided(3) auth have "signature_checked env en2 n (es_get_wire_node ns s1 h)"
          by (auto intro: authentic_signature)
        then show "signature_checked env en n (es_get_wire_node ns s1 h)"
          by (simp add: signature_checked_def ephemeral_authentic_cong [OF frame(1)] split: node_auth.splits)
      next
        assume "\<not> authorized"
        with not_quarantined(2) [OF nq] show "is_bootstrap (nd_content n) \<or> VOUCH_THRESHOLD \<le> vouch_count en cid h"
          by (simp add: vouch_count_def)
      next
        fix cert perm
        assume u: "\<not> authorized" "anchor_cert (nd_content n) = Some (cert, perm)"
        with decide v0 have "decide env lru en2 ctx cid n h False a valid quarantine = (True, en4)" by simp
        then have "founder_certified env en2 cid n cert perm" using u(2) by (rule decide_anchor)
        moreover have "logical_members (en_identity en2) = logical_members (en_identity en)"
          using is_authorized_frame [of im lru "en_identity en"] ex(2) frame(2) by (metis snd_conv)
        ultimately show "founder_certified env en cid n cert perm" by (simp only: founder_certified_cong [of en2 en])
      qed
    qed
  qed
qed simp_all

section \<open>What a stranger passes\<close>

lemma required_permissions_cases: "required_permissions flags author c \<in> {PERM_NONE, PERM_ADMIN, PERM_MESSAGE}"
  by (induction flags author c rule: required_permissions.induct) auto

lemma own_key_all: "get_permissions im ctx cid pk pk now rank = Some PERM_ALL"
  unfolding get_permissions_def by (subst get_permissions_recursive.simps) simp

lemma own_key_permissions:
  assumes "nd_sender_pk n = nd_author_pk n"
  shows "check_permissions en ctx cid n t = Inr ()"
proof -
  have "perms_contain PERM_ALL (required_permissions flags author c)" for flags author c
    using required_permissions_cases [of flags author c]
    by (auto simp: perms_contain_def PERM_ALL_def PERM_NONE_def PERM_ADMIN_def PERM_MESSAGE_def PERM_SYNC_def)
  then show ?thesis by (simp add: check_permissions_def Let_def assms own_key_all)
qed

lemma own_key_examined:
  assumes "nd_sender_pk n = nd_author_pk n"
    and "causal_context_of env ac (es_get_node ns s) fuel (en_admin_ancestors en) n = Some (ctx, q)"
    and "\<forall>p \<in> set (nd_parents n). es_is_verified ns s p"
    and "timestamps_quarantine (min_parent_timestamp (es_get_node ns s) (nd_parents n)) (nd_network_timestamp n) now_ms
           = Some False"
    and "check_target env (en\<lparr>en_admin_ancestors := q\<rparr>) ctx cid (es_get_node ns s) n = Inr ()"
    and "check_sequence (en\<lparr>en_admin_ancestors := q\<rparr>) cid n h (es_get_last_sequence_number ns s cid (nd_sender_pk n))
           = Some (Inr (), en')"
  shows "examine_node env lru ac ns fuel cid now_ms n h en s = Some (Inr (ctx, True, False), en')"
proof -
  have "is_authorized lru (en_identity en) ctx cid (nd_sender_pk n) (nd_author_pk n) (nd_network_timestamp n)
      (nd_topological_rank n) = (True, en_identity en)"
    by (simp add: is_authorized_def assms(1))
  moreover have "quarantined (en\<lparr>en_admin_ancestors := q\<rparr>) (es_get_node ns s) (es_is_verified ns s) cid n h True now_ms = Some False"
    using assms(3,4) by (simp add: quarantined_def Let_def list_ex_iff)
  moreover have same: "en\<lparr>en_admin_ancestors := q, en_identity := en_identity en\<rparr> = en\<lparr>en_admin_ancestors := q\<rparr>" by simp
  ultimately show ?thesis
    using assms(2,5,6) by (simp add: examine_node_def Let_def same own_key_permissions [OF assms(1)])
qed

lemma process_node_admits:
  assumes "mn_hash env n = Some h" "\<not> es_is_verified ns s h" "\<not> es_has_node ns s h"
    and "validate env (es_lookup ns fuel) s n = Some (Inr (), s1)"
    and "examine_node env lru ac ns fuel cid now_ms n h en s1 = Some (Inr found, en1)"
  shows "process_node env lru ac ns fuel rot_key cid reverify now_ms n en s
           = admit_node env lru ac ns fuel rot_key cid now_ms n h True found en1 s1"
  using assms by (simp add: process_node_def structure_of_def)

text \<open>Revalidation asks about devices but does not change who is revoked.\<close>

lemma verify_node_revoked:
  assumes "verify_node env lru ac ns fuel cid now_ms n en s = Some (v, en', s')"
  shows "revoked_devices (en_identity en') = revoked_devices (en_identity en)"
proof -
  from assms have "en' = en \<or> (\<exists>ctx q. en' = en\<lparr>en_admin_ancestors := q, en_identity :=
      snd (is_authorized lru (en_identity en) ctx cid (nd_sender_pk n) (nd_author_pk n) (nd_network_timestamp n)
        (nd_topological_rank n))\<rparr>)"
    by (auto simp: verify_node_def Let_def case_prod_unfold split: bind_splits sum.splits if_splits)
  then show ?thesis using is_authorized_frame [OF HOL.refl, of lru "en_identity en"] by auto
qed

lemma revalidate_nodes_revoked:
  "revalidate_nodes env lru ac ns fuel cid now_ms nodes en s = Some (e, en', s') \<Longrightarrow>
     revoked_devices (en_identity en') = revoked_devices (en_identity en)"
proof (induction nodes arbitrary: en s e)
  case (Cons n nodes)
  then obtain v en1 s1 e2 where "verify_node env lru ac ns fuel cid now_ms n en s = Some (v, en1, s1)"
    "revalidate_nodes env lru ac ns fuel cid now_ms nodes en1 s1 = Some (e2, en', s')"
    by (auto split: bind_splits)
  with verify_node_revoked Cons.IH show ?case by metis
qed simp

lemma on_established_identity [simp]: "en_identity (on_established cid f en) = en_identity en"
  by (simp add: on_established_def split: option.splits conversation.splits)

lemma purge_vouches_frame [simp]:
  "en_identity (purge_vouches cid pk en) = en_identity en" "en_self_pk (purge_vouches cid pk en) = en_self_pk en"
  by (simp_all add: purge_vouches_def split: option.splits)

lemma record_node_frame [simp]:
  "en_identity (record_node en cid n h now_ms authentic verified) = en_identity en"
  "en_self_pk (record_node en cid n h now_ms authentic verified) = en_self_pk en"
  by (simp_all add: record_node_def Let_def case_prod_unfold)

lemma side_effects_of_control:
  assumes "nd_content n = Control action"
    and "apply_side_effects env lru ac ns fuel rot_key cid now_ms n en s = Some (r, en', s')"
    and "mn_hash env n = Some h"
  obtains ctx q r1 en1 s1 where
    "apply_content env lru rot_key ctx cid now_ms n h (en\<lparr>en_admin_ancestors := q\<rparr>) s = Some (r1, en1, s1)"
    "en_identity en' = en_identity en1" "\<And>e. r1 = Inl e \<Longrightarrow> r = Inl e" "\<And>e. r1 = Inr e \<Longrightarrow> \<exists>e'. r = Inr e'"
proof -
  have "skips_ratchet n" using assms(1) by (simp add: skips_ratchet_def is_exception_node_def)
  then show thesis
    using assms(2,3)
    by (auto simp: apply_side_effects_def advance_sender_def Let_def split: bind_splits sum.splits prod.splits intro: that)
qed

lemma consume_opk_frame [simp]:
  "en_identity (fold (consume_opk_sk env) used en) = en_identity en"
  by (induction used arbitrary: en) (simp_all add: consume_opk_sk_def split: option.splits)

lemma settle_authentic:
  assumes "nd_authentication n = Signature sig" "nd_content n = Control (RevokeDevice d r)"
  shows "settle_node env lru ns cid ctx n h True True False en s
           = Some (Inr (True, True), en, es_put_hashed s cid h n True)"
  by (simp add: settle_node_def authentic_of_def decide_def dedup_soft_anchor_def Let_def assms)

lemma stranger_revokes_aux:
  assumes own: "nd_sender_pk n = nd_author_pk n" and content: "nd_content n = Control (RevokeDevice target reason)"
    and sig: "nd_authentication n = Signature sig"
    and new: "mn_hash env n = Some h" "\<not> es_is_verified ns s h" "\<not> es_has_node ns s h"
    and valid: "validate env (es_lookup ns fuel) s n = Some (Inr (), s1)"
    and ctx: "causal_context_of env ac (es_get_node ns s1) fuel (en_admin_ancestors en) n = Some (ctx, q)"
    and parents: "\<forall>p \<in> set (nd_parents n). es_is_verified ns s1 p"
    and time: "timestamps_quarantine (min_parent_timestamp (es_get_node ns s1) (nd_parents n)) (nd_network_timestamp n) now_ms
           = Some False"
    and seq: "check_sequence (en\<lparr>en_admin_ancestors := q\<rparr>) cid n h (es_get_last_sequence_number ns s1 cid (nd_sender_pk n))
           = Some (Inr (), en1)"
    and other: "nd_sender_pk n \<noteq> en_self_pk en"
    and ret: "process_node env lru ac ns fuel rot_key cid reverify now_ms n en s = Some (r, en', s')"
  shows "\<exists>effects. r = Inr (Some (effects, True, True))
           \<and> revoked_by (en_identity en') cid target
               \<lparr>rv_rank = nd_topological_rank n, rv_revoker_seniority = (0, zero_hash), rv_revocation_hash = h\<rparr>"
proof -
  have "check_target env (en\<lparr>en_admin_ancestors := q\<rparr>) ctx cid (es_get_node ns s1) n = Inr ()"
    by (simp add: check_target_def content)
  from own_key_examined [OF own ctx parents time this seq]
  have "process_node env lru ac ns fuel rot_key cid reverify now_ms n en s
      = admit_node env lru ac ns fuel rot_key cid now_ms n h True (ctx, True, False) en1 s1"
    by (intro process_node_admits [OF new valid])
  also have "\<dots> = conclude_node env lru ac ns fuel rot_key cid now_ms n h [] [] True True en1 (es_put_hashed s1 cid h n True)"
    by (simp add: admit_node_def take_keys_def content settle_authentic [OF sig content])
  finally have "conclude_node env lru ac ns fuel rot_key cid now_ms n h [] [] True True en1 (es_put_hashed s1 cid h n True)
      = Some (r, en', s')" using ret by simp
  then show ?thesis
  proof (cases rule: conclude_node_cases)
    case (1 en2 r1 en3 s2)
    from 1(2) have side: "apply_side_effects env lru ac ns fuel rot_key cid now_ms n en2 (es_put_hashed s1 cid h n True)
        = Some (r1, en3, s2)" by simp
    have self: "en_self_pk en2 = en_self_pk en" and id: "en_identity en2 = en_identity en"
      using check_sequence_frame [OF seq] by (auto simp: 1(1))
    from side_effects_of_control [OF content side new(1)] show ?thesis
    proof cases
      case side': (1 ctx' q' r1' en4 s3)
      have rev: "r1' = Inr [] \<and> en_identity en4
          = revoke_device lru (en_identity en) cid (nd_sender_pk n) (nd_author_pk n) target (nd_topological_rank n)
              (nd_network_timestamp n) h"
        using side'(1) other by (auto simp: apply_content_def content Let_def self id)
      with side'(4) 1(3) obtain e2 e3 where
        rr: "r = Inr (Some ([] @ [WriteStore cid n True] @ e2 @ e3, True, True))"
        and re: "revalidate_all_verified_nodes env lru ac ns fuel cid now_ms en3 s2 = Some (e3, en', s')"
        by (auto simp: content)
      have "revoked_devices (en_identity en') = revoked_devices (en_identity en3)"
        using re unfolding revalidate_all_verified_nodes_def Let_def by (rule revalidate_nodes_revoked)
      then have "revoked_by (en_identity en') = revoked_by (en_identity en4)"
        using side'(2) by (intro revoked_by_cong) simp
      moreover have "revoked_by (en_identity en4) cid target \<lparr>rv_rank = nd_topological_rank n,
          rv_revoker_seniority = (0, zero_hash), rv_revocation_hash = h\<rparr>"
        using revoke_device_adds [of lru "en_identity en" cid "nd_sender_pk n" "nd_author_pk n" target] rev
        by (simp add: revoker_seniority_of_def own)
      ultimately show ?thesis using rr by simp
    qed
  qed
qed

lemma settle_forged:
  assumes "nd_content n = Control (Genesis title creator perms flags created_at nonce)"
    and "settle_node env lru ns cid ctx n h False True False en s = Some (r, en', s')"
  shows "\<exists>authentic. r = Inr (True, authentic) \<and> en' = en \<and> s' = es_put_hashed s cid h n True"
proof -
  have "decide env lru en ctx cid n h False a True False = (True, en)" for a
    by (cases a) (simp_all add: decide_def Let_def assms(1))
  with assms(2) show ?thesis by (auto simp: settle_node_def dedup_soft_anchor_def assms(1) split: bind_splits)
qed

lemma apply_genesis_members:
  "fm_get (logical_members (en_identity (apply_genesis cid h creator created_at flags en))) (cid, creator) = Some (0, created_at)"
  by (simp add: apply_genesis_def Let_def set_anchor_def add_member_def split: option.splits)

lemma forged_genesis_aux:
  assumes content: "nd_content n = Control (Genesis title creator perms flags created_at nonce)"
    and new: "mn_hash env n = Some h" "\<not> es_is_verified ns s h" "\<not> es_has_node ns s h"
    and valid: "validate env (es_lookup ns fuel) s n = Some (Inr (), s1)"
    and ctx: "causal_context_of env ac (es_get_node ns s1) fuel (en_admin_ancestors en) n = Some (ctx, q)"
    and unauthorized: "is_authorized lru (en_identity en) ctx cid (nd_sender_pk n) (nd_author_pk n) (nd_network_timestamp n)
           (nd_topological_rank n) = (False, im)"
    and unknown: "\<not> has_authorization_record (en_identity en) cid (nd_sender_pk n)"
    and time: "timestamps_quarantine (min_parent_timestamp (es_get_node ns s1) (nd_parents n)) (nd_network_timestamp n) now_ms
           = Some False"
    and ret: "process_node env lru ac ns fuel rot_key cid reverify now_ms n en s = Some (r, en', s')"
  shows "\<exists>effects authentic. r = Inr (Some (effects, True, authentic))
           \<and> fm_get (logical_members (en_identity en')) (cid, creator) = Some (0, created_at)"
proof -
  let ?en1 = "en\<lparr>en_admin_ancestors := q, en_identity := im\<rparr>"
  have "\<not> has_authorization_record im cid (nd_sender_pk n)"
    using is_authorized_frame [of im lru "en_identity en" ctx cid] unauthorized unknown
    by (metis has_authorization_record_def snd_conv)
  moreover have "quarantined ?en1 (es_get_node ns s1) (es_is_verified ns s1) cid n h False now_ms = Some False"
    using time by (simp add: quarantined_def Let_def content)
  ultimately have "examine_node env lru ac ns fuel cid now_ms n h en s1 = Some (Inr (ctx, False, False), ?en1)"
    using ctx unauthorized by (simp add: examine_node_def Let_def check_target_def content)
  then have "process_node env lru ac ns fuel rot_key cid reverify now_ms n en s
      = admit_node env lru ac ns fuel rot_key cid now_ms n h True (ctx, False, False) ?en1 s1"
    by (intro process_node_admits [OF new valid])
  with ret have "admit_node env lru ac ns fuel rot_key cid now_ms n h True (ctx, False, False) ?en1 s1 = Some (r, en', s')"
    by simp
  then show ?thesis
  proof (cases rule: admit_node_cases)
    case (1 e used en1 sr en2 s2)
    then obtain a where sr: "sr = Inr (True, a)" "en2 = ?en1" "s2 = es_put_hashed s1 cid h n True" "e = []" "used = []"
      using settle_forged [OF content 1(2)] by auto
    with 1(3) have "conclude_node env lru ac ns fuel rot_key cid now_ms n h [] [] True a ?en1 s2 = Some (r, en', s')" by simp
    then show ?thesis
    proof (cases rule: conclude_node_cases)
      case (1 en3 r1 en4 s3)
      from 1(2) have side: "apply_side_effects env lru ac ns fuel rot_key cid now_ms n en3 s2 = Some (r1, en4, s3)" by simp
      from side_effects_of_control [OF content side new(1)] show ?thesis
      proof cases
        case side': (1 ctx' q' r1' en5 s4)
        have "r1' = Inr [] \<and> en5 = apply_genesis cid h creator created_at flags (en3\<lparr>en_admin_ancestors := q'\<rparr>)"
          using side'(1) by (auto simp: apply_content_def content)
        with side'(2,4) 1(3) show ?thesis
          using apply_genesis_members [of cid h creator created_at flags "en3\<lparr>en_admin_ancestors := q'\<rparr>"]
          by (auto simp: content)
      qed
    qed
  qed
qed

section \<open>Disclosed keys\<close>

lemma store_disclosed_panics:
  "0 < epoch \<Longrightarrow> store_disclosed pk epoch i keys m = None \<longleftrightarrow> keys \<noteq> [] \<and> epoch < i + length keys"
proof (induction keys arbitrary: i m)
  case (Cons key keys)
  then show ?case by (cases keys) (auto simp: sub_u64_def split: bind_splits)
qed simp

lemma learn_signing_key_panics:
  "learn_signing_key cid n pk keys en = None \<longleftrightarrow>
     (has_epoch_key en cid (seq_epoch (nd_sequence_number n)) \<or> \<not> is_ephemeral (nd_authentication n))
     \<and> 0 < seq_epoch (nd_sequence_number n) \<and> seq_epoch (nd_sequence_number n) < length keys"
proof -
  let ?e = "seq_epoch (nd_sequence_number n)"
  let ?d = "store_disclosed (nd_sender_pk n) ?e 0 keys (en_disclosed_signing_keys en)"
  have "0 < ?e \<Longrightarrow> ?d = None \<longleftrightarrow> ?e < length keys" by (auto simp: store_disclosed_panics simp del: not_None_eq)
  then show ?thesis by (cases ?d) (auto simp: learn_signing_key_def Let_def split: bind_splits if_splits)
qed

end
