(* ===== verification/Samples.thy ===== *)
theory Samples
  imports Admission_Checks
begin

unbundle bit_operations_syntax

text \<open>
  Concrete instances of the parameters, for the witnesses of the properties about nodes: a cipher that
  changes nothing, hashes and keys that keep or overwrite their input, an encoder that knows a few
  nodes, an engine with empty tables.
\<close>

section \<open>Nodes\<close>

definition sample_node :: "public_key \<Rightarrow> nat \<Rightarrow> content \<Rightarrow> node_auth \<Rightarrow> merkle_node" where
  "sample_node pk seq c auth =
     \<lparr>nd_parents = [], nd_author_pk = pk, nd_sender_pk = pk, nd_sequence_number = seq, nd_topological_rank = 0,
      nd_network_timestamp = 0, nd_content = c, nd_metadata = [], nd_authentication = auth, mn_pow_nonce = 0\<rparr>"

definition key_a :: public_key where "key_a = replicate 32 1"
definition key_b :: public_key where "key_b = replicate 32 2"

definition revoke_node :: merkle_node where
  "revoke_node = sample_node key_a 1 (Control (RevokeDevice key_b [])) (Signature [])"

definition genesis_node :: merkle_node where
  "genesis_node = (sample_node key_a 1 (Control (Genesis [] key_a PERM_ALL 0 5 0)) (EphemeralSignature []))\<lparr>nd_author_pk := key_b\<rparr>"

definition text_node :: merkle_node where
  "text_node = sample_node key_a 1 (Text []) (EphemeralSignature [])"

section \<open>Primitives\<close>

definition pad32 :: "bytes \<Rightarrow> bytes" where
  "pad32 d = take 32 (d @ replicate 32 0)"

definition sample_x :: bytes where
  "sample_x = (replicate 32 0)[31 := 64]"

definition sample_env :: adm_env where
  "sample_env =
     \<lparr>cr_serialize = (\<lambda>_. Some []), cr_sign = (\<lambda>_ _. []), cr_key_valid = (\<lambda>_. True), cr_verify = (\<lambda>_ _ _. True),
      de_ser_content = (\<lambda>_. Some []), de_ser_action = (\<lambda>_. Some []),
      de_ser_node = (\<lambda>n. if n = node_data.truncate revoke_node then Some [1]
                         else if n = node_data.truncate genesis_node then Some [2]
                         else if n = node_data.truncate text_node then Some [3] else None),
      de_ser_wire_auth = (\<lambda>_. Some []), de_blake3 = pad32,
      we_de_content = (\<lambda>_. Some (Inr (Text [], 0))), we_zstd_encode = (\<lambda>_. None), we_zstd_decode = (\<lambda>_. Inl []),
      we_chacha20 = (\<lambda>_ _ d. d), we_aead_encrypt = (\<lambda>_ _ _ p. (p, replicate 16 0)), we_aead_decrypt = (\<lambda>_ _ _ c _. Some c),
      we_derive_key = (\<lambda>label m. if label = ''merkle-tox v1 ratchet-step'' then replicate 32 1 else pad32 m),
      we_keyed_hash = (\<lambda>_ _. replicate 32 0), we_dh = (\<lambda>_ _. []), we_x_public = (\<lambda>sk. sk), we_ed_public = (\<lambda>sk. sk),
      we_ed_to_x = (\<lambda>_. Some sample_x), we_sha512 = (\<lambda>_. replicate 64 0), ae_verify_strict = (\<lambda>_ _ _. False)\<rparr>"

lemma sample_fields:
  "cr_key_valid sample_env = (\<lambda>_. True)" "cr_verify sample_env = (\<lambda>_ _ _. True)"
  "de_ser_content sample_env = (\<lambda>_. Some [])" "de_ser_wire_auth sample_env = (\<lambda>_. Some [])" "de_blake3 sample_env = pad32"
  "we_de_content sample_env = (\<lambda>_. Some (Inr (Text [], 0)))" "we_zstd_encode sample_env = (\<lambda>_. None)"
  "we_chacha20 sample_env = (\<lambda>_ _ d. d)" "we_aead_encrypt sample_env = (\<lambda>_ _ _ p. (p, replicate 16 0))"
  "we_aead_decrypt sample_env = (\<lambda>_ _ _ c _. Some c)"
  "we_derive_key sample_env = (\<lambda>label m. if label = ''merkle-tox v1 ratchet-step'' then replicate 32 1 else pad32 m)"
  "we_dh sample_env = (\<lambda>_ _. [])" "we_x_public sample_env = (\<lambda>sk. sk)" "we_ed_to_x sample_env = (\<lambda>_. Some sample_x)"
  "we_sha512 sample_env = (\<lambda>_. replicate 64 0)"
  by (simp_all add: sample_env_def)

lemma length_pad32 [simp]: "length (pad32 d) = 32"
  by (simp add: pad32_def min_def)

lemma sample_x_private: "ed25519_sk_to_x25519 sample_env sk = sample_x"
proof -
  have "(replicate 32 (0 :: u8))[0 := 0] = replicate 32 0" by (simp add: list_update_same_conv)
  then show ?thesis by (simp add: ed25519_sk_to_x25519_def sample_fields sample_x_def Let_def take_replicate)
qed

lemma sample_laws: "crypto_laws sample_env"
  by (simp add: crypto_laws_def sample_x_private sample_fields)

lemma sample_codec: "content_codec sample_env (Text []) rest"
  by (simp add: content_codec_def sample_fields)

lemma sample_distinct:
  "node_data.truncate genesis_node \<noteq> node_data.truncate revoke_node"
  "node_data.truncate text_node \<noteq> node_data.truncate revoke_node"
  "node_data.truncate text_node \<noteq> node_data.truncate genesis_node"
  by (simp_all add: revoke_node_def genesis_node_def text_node_def sample_node_def node_data.truncate_def)

definition sample_hash :: "nat \<Rightarrow> node_hash" where
  "sample_hash k = of_nat k # replicate 31 0"

lemma sample_hashes:
  "mn_hash sample_env revoke_node = Some (sample_hash 1)" "mn_hash sample_env genesis_node = Some (sample_hash 2)"
  "mn_hash sample_env text_node = Some (sample_hash 3)"
  using sample_distinct by (simp_all add: mn_hash_def sample_env_def pad32_def sample_hash_def)

lemma sample_collision_free: "collision_free sample_env"
  unfolding collision_free_def mn_hash_def
  by (auto simp: sample_env_def pad32_def split: if_splits)

section \<open>An engine\<close>

text \<open>A cache that keeps nothing.\<close>

definition sample_anc :: "unit anc_ops" where
  "sample_anc = \<lparr>ac_get = (\<lambda>_ _. (None, ())), ac_put = (\<lambda>_ _ _. ())\<rparr>"

definition sample_engine :: "(nat \<times> (path_key \<times> int) list, unit) engine" where
  "sample_engine =
     \<lparr>en_self_pk = [], en_self_logical_pk = [], en_self_dh_sk = None, en_identity = im_new lru_list,
      en_active_sessions = [], en_conversations = [], en_blob_syncs = [], en_ephemeral_keys = [],
      en_peer_announcements = [], en_highest_handled_pulse = [], en_latest_anchor_hashes = [],
      en_peer_ephemeral_signing_keys = [], en_disclosed_signing_keys = [], en_admin_ancestors = (),
      en_handshake_count_since_announcement = [], en_trust_restored_devices = [], en_consumed_opk_ids = [],
      en_soft_anchor_dedup = [], en_verified_node_seqs = [], en_equivocations = [], en_opaque_store_usage = [],
      en_promotion_locked = [], en_self_certs = []\<rparr>"

definition empty_store :: "in_memory_store engine_store" where
  "empty_store = \<lparr>es_store = ims_new, es_cache = pc_new\<rparr>"

abbreviation sample_store :: "in_memory_store node_store" where
  "sample_store \<equiv> ims_store sample_env 5"

lemma empty_store_answers:
  "es_get_node ns empty_store h = ns_get_node ns ims_new h" "es_get_node sample_store empty_store h = None"
  "\<not> es_is_verified sample_store empty_store h" "\<not> es_has_node sample_store empty_store h"
  "es_get_last_sequence_number sample_store empty_store cid pk = 0"
  "es_get_wire_node sample_store empty_store h = None"
  by (simp_all add: empty_store_def es_get_node_def es_is_verified_def es_has_node_def es_get_last_sequence_number_def
      es_get_wire_node_def ims_store_def ims_new_def pc_new_def fm_new_def ims_get_node_def ims_is_verified_def
      ims_has_node_def ims_get_last_sequence_number_def ims_get_wire_node_def or_else_def fm_contains_key_def fm_get_def)

lemma sample_auth_bytes: "\<exists>a. serialize_for_auth sample_env n = Some a"
  by (simp add: serialize_for_auth_def sample_fields)

lemma sample_node_fields:
  "nd_parents revoke_node = []" "nd_parents genesis_node = []"
  "nd_authentication revoke_node = Signature []" "nd_authentication genesis_node = EphemeralSignature []"
  "nd_content revoke_node = Control (RevokeDevice key_b [])"
  "nd_content genesis_node = Control (Genesis [] key_a PERM_ALL 0 5 0)"
  "nd_metadata revoke_node = []" "nd_metadata genesis_node = []"
  "nd_topological_rank revoke_node = 0" "nd_topological_rank genesis_node = 0"
  "nd_network_timestamp revoke_node = 0" "nd_network_timestamp genesis_node = 0"
  "nd_sequence_number revoke_node = 1" "nd_sequence_number genesis_node = 1"
  "nd_sender_pk revoke_node = key_a" "nd_sender_pk genesis_node = key_a"
  "nd_author_pk revoke_node = key_a" "nd_author_pk genesis_node = key_b"
  by (simp_all add: revoke_node_def genesis_node_def sample_node_def)

lemma sample_signature:
  "verify_admin_signature sample_env revoke_node = Some True" "verify_admin_signature sample_env genesis_node = Some True"
  using sample_auth_bytes [of revoke_node] by (auto simp: verify_admin_signature_def sample_node_fields sample_fields)

lemma sample_valid:
  "validate sample_env lk s revoke_node = Some (Inr (), s)" "validate sample_env lk s genesis_node = Some (Inr (), s)"
  by (simp_all add: validate_def and_then_def check_limits_def check_auth_rule_def check_authenticity_def check_rank_def
      check_isolation_def check_soft_anchor_def check_ancestry_def parent_ranks_def mn_validate_pow_def is_ephemeral_def
      node_type_of_def sample_node_fields sample_fields sample_signature MAX_METADATA_SIZE_def MAX_MESSAGE_SIZE_def)

lemma sample_context:
  assumes "nd_parents n = []" "mn_hash sample_env n = Some h"
  shows "causal_context_of sample_env sample_anc get_node 5 () n
           = Some (\<lparr>ctx_evaluating_node_hash = h, ctx_admin_ancestor_hashes = {}\<rparr>, ())"
proof -
  have "collect_admin_ancestors sample_anc get_node 5 [] {} {} () = Some ({}, ())"
    by (simp add: eval_nat_numeral)
  with assms show ?thesis by (simp add: causal_context_of_def sample_anc_def)
qed

lemma sample_time: "timestamps_quarantine (min_parent_timestamp get_node []) 0 0 = Some False"
  by (simp add: timestamps_quarantine_def min_parent_timestamp_def sub_i64_def i64_ok_def TEN_MINUTES_MS_def)

section \<open>Two nodes of a stranger\<close>

lemma sample_sequence:
  "check_sequence (sample_engine\<lparr>en_admin_ancestors := ()\<rparr>) cid n h 0 = Some (Inr (), sample_engine)"
  by (simp add: check_sequence_def sample_engine_def is_replay_def fm_get_def add_u64_def u64_max_def
      MAX_VERIFIED_NODES_PER_DEVICE_def Let_def)

lemma sample_revoke_examined:
  "examine_node sample_env lru_list sample_anc sample_store 5 cid 0 revoke_node (sample_hash 1) sample_engine empty_store
     = Some (Inr (\<lparr>ctx_evaluating_node_hash = sample_hash 1, ctx_admin_ancestor_hashes = {}\<rparr>, True, False), sample_engine)"
  by (rule own_key_examined [where q = "()"])
    (simp_all add: sample_node_fields sample_context sample_hashes sample_time check_target_def empty_store_answers
      sample_sequence)

definition pending_in :: "conversation_id \<Rightarrow> ('p, 'q) engine \<Rightarrow> bool" where
  "pending_in cid en \<longleftrightarrow> (\<exists>i p. fm_get (en_conversations en) cid = Some (ConvPending i p))"

definition same_entries :: "in_memory_store engine_store \<Rightarrow> in_memory_store engine_store \<Rightarrow> bool" where
  "same_entries s s' \<longleftrightarrow> es_store s' = es_store s \<and> pc_nodes (es_cache s') = pc_nodes (es_cache s)
     \<and> pc_verified (es_cache s') = pc_verified (es_cache s)"

lemma sample_side_effects:
  assumes "n \<in> {revoke_node, genesis_node}" "mn_hash sample_env n = Some h" "en_self_pk en = []" "pending_in cid en"
  shows "\<exists>e en' s'. apply_side_effects sample_env lru_list sample_anc sample_store 5 no_rotation cid 0 n en s
             = Some (Inr e, en', s') \<and> same_entries s s' \<and> pending_in cid en'"
proof -
  have parents: "nd_parents n = []" and key: "nd_sender_pk n \<noteq> []"
    using assms(1) by (auto simp: sample_node_fields key_a_def)
  let ?en = "en\<lparr>en_admin_ancestors := ()\<rparr>"
  have "\<exists>en1. apply_content sample_env lru_list no_rotation ctx cid 0 n h ?en s = Some (Inr [], en1, s) \<and> pending_in cid en1" for ctx
    using assms(1,3,4) key
    by (auto simp: apply_content_def sample_node_fields Let_def pending_in_def purge_vouches_def apply_genesis_def
        set_anchor_def on_established_def split: option.splits)
  then obtain en1 where en1: "apply_content sample_env lru_list no_rotation
      \<lparr>ctx_evaluating_node_hash = h, ctx_admin_ancestor_hashes = {}\<rparr> cid 0 n h ?en s = Some (Inr [], en1, s)"
    "pending_in cid en1" by blast
  have skip: "skips_ratchet n"
    using assms(1) by (auto simp: skips_ratchet_def is_exception_node_def sample_node_fields)
  obtain e3 s2 where heads: "update_heads sample_store cid n h s = (e3, s2)" by (metis surj_pair)
  have "same_entries s s2"
    using heads by (auto simp: same_entries_def update_heads_def Let_def es_set_heads_def es_set_admin_heads_def split: if_splits)
  moreover have "\<exists>en2. advance_sender sample_env cid n h 0 en1 = Some ([], en2) \<and> pending_in cid en2"
    using en1(2) skip by (auto simp: advance_sender_def pending_in_def on_established_def)
  ultimately show ?thesis
    using en1 parents assms(2) heads by (auto simp: apply_side_effects_def sample_context)
qed

lemma sample_no_verified:
  assumes "ims_nodes (es_store s) = []"
  shows "revalidate_all_verified_nodes env lru ac (ims_store env' fuel') fuel cid now_ms en s = Some ([], en, s)"
proof -
  have "(case ns_get_verified_nodes_by_type (ims_store env' fuel') (es_store s) cid ty of Inr nodes \<Rightarrow> nodes | Inl _ \<Rightarrow> []) = []" for ty
    using assms by (simp add: ims_store_def ims_get_verified_nodes_by_type_def fm_values_def)
  then show ?thesis unfolding revalidate_all_verified_nodes_def Let_def by simp
qed

lemma sample_put_base [simp]: "es_store (es_put_hashed s cid h n v) = es_store s"
  by (simp add: es_put_hashed_def Let_def)

lemma sample_concluded:
  assumes "n \<in> {revoke_node, genesis_node}" "mn_hash sample_env n = Some h"
  shows "\<exists>e en' s'. conclude_node sample_env lru_list sample_anc sample_store 5 no_rotation cid 0 n h [] [] True a sample_engine
               (es_put_hashed empty_store cid h n True)
             = Some (Inr (Some (e, True, a)), en', s')
           \<and> same_entries (es_put_hashed empty_store cid h n True) s' \<and> pending_in cid en'"
proof -
  let ?en = "record_node sample_engine cid n h 0 a True" and ?s = "es_put_hashed empty_store cid h n True"
  have self: "en_self_pk ?en = []" by (simp add: sample_engine_def)
  have "nd_parents n = []" using assms(1) by (auto simp: sample_node_fields)
  then have pend: "pending_in cid ?en"
    by (simp add: pending_in_def record_node_def sample_engine_def fm_or_insert_def fm_get_def Let_def)
  from sample_side_effects [OF assms self pend] obtain e en' s' where
    "apply_side_effects sample_env lru_list sample_anc sample_store 5 no_rotation cid 0 n ?en ?s = Some (Inr e, en', s')"
    "same_entries ?s s'" "pending_in cid en'" by blast
  moreover from this(2) have "ims_nodes (es_store s') = []"
    by (simp add: same_entries_def empty_store_def ims_new_def fm_new_def)
  ultimately show ?thesis by (simp add: conclude_node_def sample_no_verified)
qed

lemma sample_revoke_processed:
  "\<exists>e en s. process_node sample_env lru_list sample_anc sample_store 5 no_rotation cid reverify 0 revoke_node sample_engine
       empty_store = Some (Inr (Some (e, True, True)), en, s)
     \<and> same_entries (es_put_hashed empty_store cid (sample_hash 1) revoke_node True) s \<and> pending_in cid en"
proof -
  have "process_node sample_env lru_list sample_anc sample_store 5 no_rotation cid reverify 0 revoke_node sample_engine empty_store
      = admit_node sample_env lru_list sample_anc sample_store 5 no_rotation cid 0 revoke_node (sample_hash 1) True
          (\<lparr>ctx_evaluating_node_hash = sample_hash 1, ctx_admin_ancestor_hashes = {}\<rparr>, True, False) sample_engine empty_store"
    by (rule process_node_admits [OF _ _ _ sample_valid(1) sample_revoke_examined])
      (simp_all add: sample_hashes empty_store_answers)
  also have "\<dots> = conclude_node sample_env lru_list sample_anc sample_store 5 no_rotation cid 0 revoke_node (sample_hash 1)
      [] [] True True sample_engine (es_put_hashed empty_store cid (sample_hash 1) revoke_node True)"
    by (simp add: admit_node_def take_keys_def sample_node_fields settle_authentic)
  finally show ?thesis
    using sample_concluded [of revoke_node "sample_hash 1" cid True] by (simp add: sample_hashes)
qed

text \<open>The node has arrived at an engine that knew nothing.\<close>

lemma sample_arrived:
  "\<exists>en s. engine_run sample_env lru_list sample_anc 5 no_rotation 1 en s
     \<and> es_is_verified (ims_store sample_env 5) s (sample_hash 1)"
proof -
  obtain e en s where run: "process_node sample_env lru_list sample_anc sample_store 5 no_rotation [0] True 0 revoke_node
        sample_engine empty_store = Some (Inr (Some (e, True, True)), en, s)"
      "same_entries (es_put_hashed empty_store [0] (sample_hash 1) revoke_node True) s" "pending_in [0] en"
    using sample_revoke_processed by blast
  have "pc_nodes (es_cache s) = [(sample_hash 1, revoke_node)]" "pc_verified (es_cache s) = [sample_hash 1]" "es_store s = ims_new"
    using run(2) by (simp_all add: same_entries_def es_put_hashed_def empty_store_def pc_new_def fm_new_def hs_insert_def Let_def)
  moreover from this have "es_get_speculative_nodes sample_env sample_store s [0] = Some []"
    by (simp add: es_get_speculative_nodes_def ims_store_def ims_get_speculative_nodes_def ims_new_def
        List.map_filter_simps)
  moreover have "reverify_opaque_nodes sample_env lru_list sample_anc sample_store 5 no_rotation 1 [0] 0 en s = Some ([], en, s)"
    using run(3) by (auto simp: pending_in_def)
  ultimately obtain r where "handle_node_internal_ext sample_env lru_list sample_anc sample_store 5 no_rotation 1 [0] 0 revoke_node
      sample_engine empty_store = Some (r, en, s)"
    using run(1) by (simp add: handle_node_internal_ext_def sample_hashes)
  from engine_run.arrive [OF engine_run.start this [unfolded empty_store_def]]
  have "engine_run sample_env lru_list sample_anc 5 no_rotation 1 en s" .
  moreover have "es_is_verified (ims_store sample_env 5) s (sample_hash 1)"
    using \<open>pc_verified (es_cache s) = [sample_hash 1]\<close> by (simp add: es_is_verified_def)
  ultimately show ?thesis by blast
qed

lemma sample_stranger:
  "is_authorized lru_list (en_identity sample_engine) ctx cid key_a key_b 0 0 = (False, en_identity sample_engine)"
  "\<not> has_authorization_record (en_identity sample_engine) cid key_a"
proof -
  have "is_authorized_recursive (im_new lru_list) ctx cid key_a key_b 0 0 0 = None"
    by (subst is_authorized_recursive.simps) (simp add: key_a_def key_b_def im_new_def fm_new_def fm_get_def)
  moreover have "key_a \<noteq> key_b" by (simp add: key_a_def key_b_def)
  ultimately show "is_authorized lru_list (en_identity sample_engine) ctx cid key_a key_b 0 0 = (False, en_identity sample_engine)"
    by (simp add: is_authorized_def sample_engine_def im_new_def lru_list_def)
  show "\<not> has_authorization_record (en_identity sample_engine) cid key_a"
    by (simp add: has_authorization_record_def sample_engine_def im_new_def fm_new_def fm_contains_key_def fm_get_def)
qed

lemma sample_genesis_processed:
  "\<exists>e en s. process_node sample_env lru_list sample_anc sample_store 5 no_rotation cid reverify 0 genesis_node sample_engine
       empty_store = Some (Inr (Some (e, True, False)), en, s)"
proof -
  let ?ctx = "\<lparr>ctx_evaluating_node_hash = sample_hash 2, ctx_admin_ancestor_hashes = {}\<rparr>"
  have same: "sample_engine\<lparr>en_admin_ancestors := ()\<rparr> = sample_engine" by (simp add: sample_engine_def)
  have "quarantined sample_engine (es_get_node sample_store empty_store) (es_is_verified sample_store empty_store) cid
      genesis_node (sample_hash 2) False 0 = Some False"
    by (simp add: quarantined_def sample_node_fields sample_time)
  then have "examine_node sample_env lru_list sample_anc sample_store 5 cid 0 genesis_node (sample_hash 2) sample_engine
      empty_store = Some (Inr (?ctx, False, False), sample_engine)"
    by (simp add: examine_node_def sample_context sample_hashes sample_node_fields sample_stranger check_target_def same
        Let_def)
  then have "process_node sample_env lru_list sample_anc sample_store 5 no_rotation cid reverify 0 genesis_node sample_engine
      empty_store
      = admit_node sample_env lru_list sample_anc sample_store 5 no_rotation cid 0 genesis_node (sample_hash 2) True
          (?ctx, False, False) sample_engine empty_store"
    by (intro process_node_admits [OF _ _ _ sample_valid(2)]) (simp_all add: sample_hashes empty_store_answers)
  also have "\<dots> = conclude_node sample_env lru_list sample_anc sample_store 5 no_rotation cid 0 genesis_node (sample_hash 2)
      [] [] True False sample_engine (es_put_hashed empty_store cid (sample_hash 2) genesis_node True)"
    by (simp add: admit_node_def sample_node_fields settle_node_def authentic_of_def genesis_authentic_def decide_def
        dedup_soft_anchor_def sample_engine_def)
  finally show ?thesis
    using sample_concluded [of genesis_node "sample_hash 2" cid False] by (auto simp: sample_hashes)
qed

section \<open>A conversation\<close>

definition sample_conv :: established where
  "sample_conv = established_new sample_env (replicate 32 0) 0"

definition sample_seed :: bytes where
  "sample_seed = replicate 32 0"

lemma sample_conv_fields:
  "fm_get (ed_epochs sample_conv) 0 = Some (ck_derive sample_env (replicate 32 0))" "fm_keys (ed_epochs sample_conv) = [0]"
  "ed_sender_keys sample_conv = []" "ed_skipped_keys sample_conv = []" "ed_sender_ratchets sample_conv = []"
  "ed_jit_headers sample_conv = []"
  by (simp_all add: sample_conv_def established_new_def establish_def fm_new_def fm_keys_def)

lemma sample_seeded: "seeded sample_env sample_conv pk 0 sample_seed"
  by (simp add: seeded_def get_keys_def sample_conv_fields chain_seed_def ck_derive_def ratchet_init_sender_def sample_fields
      pad32_def sample_seed_def take_replicate)

lemma sample_after: "after_delivery sample_env sample_conv pk 0 sample_seed 0 {} 0"
  using after_delivery_fresh [OF _ _ sample_seeded]
  by (simp add: sample_conv_fields times_ok_def fm_all_def)

lemma sample_chain: "chain_at sample_env seed (Suc k) = replicate 32 1"
  by (simp add: chain_at_Suc ratchet_step_def sample_fields)

lemma sample_derived:
  "ratchet_message_key sample_env (replicate 32 b) = replicate 32 b"
  "compute_sender_hint sample_env (replicate 32 b) = replicate 4 b"
  by (simp_all add: ratchet_message_key_def compute_sender_hint_def sample_fields pad32_def)

lemma sample_key: "message_key_at sample_env sample_seed 1 = replicate 32 0"
  by (simp add: message_key_at_def seq_counter_def sample_seed_def sample_derived)

lemma sample_hints:
  "compute_sender_hint sample_env (message_key_at sample_env sample_seed 1)
     \<noteq> compute_sender_hint sample_env (ratchet_message_key sample_env (chain_at sample_env sample_seed (Suc k)))"
  by (simp add: sample_key [simplified] sample_chain sample_derived)

text \<open>After the second message of a sender, with the first still to come.\<close>

definition sample_late :: established where
  "sample_late = sample_conv\<lparr>
     ed_skipped_keys := [((key_a, 1), message_key_at sample_env sample_seed 1, 0)],
     ed_sender_ratchets := [(key_a, 2, chain_at sample_env sample_seed 2, None, 0)]\<rparr>"

lemma sample_late_after: "after_delivery sample_env sample_late key_a 0 sample_seed 0 {2} 2"
proof -
  have small: "seq_epoch 2 = 0" "seq_counter 2 = 2" "seq_counter 1 = 1" by (simp_all add: seq_epoch_def seq_counter_def)
  have "s = 1" if "seq_epoch s = 0" "s \<le> 2" "0 < seq_counter s" "s \<noteq> 2" for s
  proof -
    have "s = 0 \<or> s = 1" using that(2,4) by linarith
    with that(3) show ?thesis by (auto simp: seq_counter_def)
  qed
  with sample_seeded [of key_a] small show ?thesis
    by (auto simp: after_delivery_def sample_late_def times_ok_def fm_all_def SKIPPED_KEY_TTL_def ratchet_at_def
        fm_keys_def)
qed

end
