(* ===== verification/Packet_Codecs.thy ===== *)
theory Packet_Codecs
  imports Tox_Derive_Laws Protocol
begin

text \<open>
  The derived codecs of the transport's types (\<^verbatim>\<open>tox-sequenced/src/protocol.rs\<close>): identifiers,
  acknowledgements, packets and the envelope of a message, with the proof that they keep the codec
  contract, and the lengths of what they write in the MessagePack format.
\<close>

section \<open>Codecs\<close>

definition mid_codec :: "rmp \<Rightarrow> message_id codec" where
  "mid_codec r = wrapper_codec of_nat unat (uint_codec r 4)"

definition fragment_codec :: "rmp \<Rightarrow> nat codec" where
  "fragment_codec r = wrapper_codec (\<lambda>n. n) (\<lambda>n. n) (uint_codec r 2)"

definition timestamp_codec :: "rmp \<Rightarrow> timestamp_ms codec" where
  "timestamp_codec r = wrapper_codec (\<lambda>i. i) (\<lambda>i. i) (sint_codec r 8)"

definition u64_codec :: "rmp \<Rightarrow> u64 codec" where
  "u64_codec r = conv_codec of_nat unat (uint_codec r 8)"

definition message_type_codec :: "rmp \<Rightarrow> message_type codec" where
  "message_type_codec r =
     enum_codec r (map (\<lambda>mt. unit_arm (unat (message_type_tag mt)) mt) all_message_types) None"

definition priority_codec :: "rmp \<Rightarrow> priority codec" where
  "priority_codec r =
     enum_codec r (map (\<lambda>p. unit_arm (priority_level p) p) [Critical, High, Standard, Low, Bulk]) None"

definition selective_ack_codec :: "rmp \<Rightarrow> selective_ack codec" where
  "selective_ack_codec r =
     struct_codec r
       (\<lambda>(mid, base, mask, rwnd, _). \<lparr>ack_message_id = mid, ack_base_index = base, ack_bitmask = mask, ack_rwnd = rwnd\<rparr>)
       (\<lambda>a. (ack_message_id a, ack_base_index a, ack_bitmask a, ack_rwnd a, ()))
       (field (mid_codec r) (field (fragment_codec r) (field (u64_codec r) (field (fragment_codec r) no_fields))))"

definition nack_codec :: "rmp \<Rightarrow> nack codec" where
  "nack_codec r =
     struct_codec r
       (\<lambda>(mid, missing, _). \<lparr>nack_message_id = mid, nack_missing_indices = missing\<rparr>)
       (\<lambda>n. (nack_message_id n, nack_missing_indices n, ()))
       (field (mid_codec r) (field (seq_codec r (fragment_codec r)) no_fields))"

definition packet_arms :: "rmp \<Rightarrow> packet arm list" where
  "packet_arms r =
     [multi_arm r 0 (\<lambda>(mid, idx, tot, data, _). Data mid idx tot data)
        (\<lambda>p. case p of Data mid idx tot data \<Rightarrow> Some (mid, idx, tot, data, ()) | _ \<Rightarrow> None)
        (field (mid_codec r) (field (fragment_codec r) (field (fragment_codec r) (field (byte_vec_codec r) no_fields)))),
      single_arm 1 Ack (\<lambda>p. case p of Ack a \<Rightarrow> Some a | _ \<Rightarrow> None) (selective_ack_codec r),
      single_arm 2 Nack (\<lambda>p. case p of Nack n \<Rightarrow> Some n | _ \<Rightarrow> None) (nack_codec r),
      single_arm 3 Ping (\<lambda>p. case p of Ping t1 \<Rightarrow> Some t1 | _ \<Rightarrow> None) (timestamp_codec r),
      multi_arm r 4 (\<lambda>(t1, t2, t3, _). Pong t1 t2 t3)
        (\<lambda>p. case p of Pong t1 t2 t3 \<Rightarrow> Some (t1, t2, t3, ()) | _ \<Rightarrow> None)
        (field (timestamp_codec r) (field (timestamp_codec r) (field (timestamp_codec r) no_fields))),
      multi_arm r 5 (\<lambda>(mt, data, _). Datagram mt data)
        (\<lambda>p. case p of Datagram mt data \<Rightarrow> Some (mt, data, ()) | _ \<Rightarrow> None)
        (field (message_type_codec r) (field (byte_vec_codec r) no_fields))]"

definition packet_codec :: "rmp \<Rightarrow> packet codec" where
  "packet_codec r = enum_codec r (packet_arms r) None"

text \<open>
  \<^verbatim>\<open>InboundEnvelope\<close>; \<^verbatim>\<open>OutboundEnvelope\<close> has the same fields with a borrowed payload. The functions
  the session calls: \<^verbatim>\<open>serialize\<close> on sending, and \<^verbatim>\<open>deserialize\<close> on a complete message, whose
  errors it treats alike; a panic of the decoder is one of the session.
\<close>

definition envelope_codec :: "rmp \<Rightarrow> (message_type \<times> bytes \<times> unit) codec" where
  "envelope_codec r =
     struct_codec r (\<lambda>e. e) (\<lambda>e. e) (field (message_type_codec r) (field (byte_vec_codec r) no_fields))"

definition outbound_ser :: "rmp \<Rightarrow> message_type \<Rightarrow> bytes \<Rightarrow> written" where
  "outbound_ser r mt payload =
     w_seq (w_ok (rp_write_array_len r 2)) (w_seq (cd_ser (message_type_codec r) None mt) (slice_ser r payload))"

definition envelope_serialize :: "rmp \<Rightarrow> message_type \<Rightarrow> bytes \<Rightarrow> string + bytes" where
  "envelope_serialize r mt payload =
     (case outbound_ser r mt payload of Some (Inr bs) \<Rightarrow> Inr bs | _ \<Rightarrow> Inl ''Serialize error'')"

definition envelope_deserialize :: "rmp \<Rightarrow> bytes \<Rightarrow> (message_type \<times> bytes) option panics" where
  "envelope_deserialize r bs =
     (case tox_deserialize (envelope_codec r) bs of
        None \<Rightarrow> None
      | Some (Inr (mt, payload, _)) \<Rightarrow> Some (Some (mt, payload))
      | Some (Inl _) \<Rightarrow> Some None)"

section \<open>The contract\<close>

definition nack_ok :: "nack \<Rightarrow> bool" where
  "nack_ok n \<longleftrightarrow> list_ok (uint_ok 2) (nack_missing_indices n)"

definition ack_ok :: "selective_ack \<Rightarrow> bool" where
  "ack_ok a \<longleftrightarrow> uint_ok 2 (ack_base_index a) \<and> uint_ok 2 (ack_rwnd a)"

fun packet_ok :: "packet \<Rightarrow> bool" where
  "packet_ok (Data mid idx tot data) = (uint_ok 2 idx \<and> uint_ok 2 tot \<and> length data < 2 ^ 32)"
| "packet_ok (Ack a) = ack_ok a"
| "packet_ok (Nack n) = nack_ok n"
| "packet_ok (Ping t1) = sint_ok 8 t1"
| "packet_ok (Pong t1 t2 t3) = (sint_ok 8 t1 \<and> sint_ok 8 t2 \<and> sint_ok 8 t3)"
| "packet_ok (Datagram mt data) = (length data < 2 ^ 32)"

lemma message_type_idx: "map (unat \<circ> message_type_tag) all_message_types = [1..<21]"
  by (simp add: all_message_types_def upt_rec)

lemma all_message_types: "mt \<in> set all_message_types"
  by (cases mt) (simp_all add: all_message_types_def)

lemma message_type_tag_small: "unat (message_type_tag mt) < 128"
  by (cases mt) simp_all

context rmp_lib
begin

lemma mid_codec_ok [codecs]: "codec_ok r (mid_codec r) (\<lambda>_. True)"
  unfolding mid_codec_def
proof (rule wrapper_codec_ok [OF uint_codec_ok])
  fix w :: u32
  show "uint_ok 4 (unat w) \<and> of_nat (unat w) = w"
    using unsigned_less [of w, where ?'a = nat] by (simp add: uint_ok_def)
qed simp_all

lemma u64_codec_ok [codecs]: "codec_ok r (u64_codec r) (\<lambda>_. True)"
  unfolding u64_codec_def
proof (rule conv_codec_ok [OF uint_codec_ok])
  fix w :: u64
  show "uint_ok 8 (unat w) \<and> of_nat (unat w) = w"
    using unsigned_less [of w, where ?'a = nat] by (simp add: uint_ok_def)
qed simp_all

lemma fragment_codec_ok [codecs]: "codec_ok r (fragment_codec r) (uint_ok 2)"
  unfolding fragment_codec_def by (rule wrapper_codec_ok [OF uint_codec_ok]) simp_all

lemma timestamp_codec_ok [codecs]: "codec_ok r (timestamp_codec r) (sint_ok 8)"
  unfolding timestamp_codec_def by (rule wrapper_codec_ok [OF sint_codec_ok]) simp_all

lemma unit_enum_ok:
  assumes "distinct (map f xs)" "\<And>x. f x < 256" "\<And>x. x \<in> set xs"
  shows "codec_ok r (enum_codec r (map (\<lambda>x. unit_arm (f x) x) xs) None) (\<lambda>_. True)"
proof (rule enum_codec_ok)
  show "distinct (map am_idx (map (\<lambda>x. unit_arm (f x) x) xs))"
    using assms(1) by (simp add: unit_arm_def o_def)
  show "covered r (map (\<lambda>x. unit_arm (f x) x) xs) None v" for v
    using assms(3) [of v] by (auto simp: covered_def unit_arm_def)
qed (use assms(2) in \<open>auto simp: list_all_iff intro: unit_arm_ok\<close>)

lemma message_type_codec_ok [codecs]: "codec_ok r (message_type_codec r) (\<lambda>_. True)"
  unfolding message_type_codec_def
proof (rule unit_enum_ok)
  show "distinct (map (\<lambda>mt. unat (message_type_tag mt)) all_message_types)"
    using message_type_idx by (simp add: o_def)
  show "unat (message_type_tag mt) < 256" for mt using message_type_tag_small [of mt] by simp
qed (rule all_message_types)

lemma priority_codec_ok [codecs]: "codec_ok r (priority_codec r) (\<lambda>_. True)"
  unfolding priority_codec_def
proof (rule unit_enum_ok)
  show "priority_level p < 256" for p by (cases p) simp_all
  show "p \<in> set [Critical, High, Standard, Low, Bulk]" for p by (cases p) simp_all
qed simp

lemma selective_ack_codec_ok [codecs]: "codec_ok r (selective_ack_codec r) ack_ok"
  unfolding selective_ack_codec_def
  by (rule struct_codec_ok, (rule codecs)+) (simp_all add: ack_ok_def)

lemma nack_codec_ok [codecs]: "codec_ok r (nack_codec r) nack_ok"
  unfolding nack_codec_def
  by (rule struct_codec_ok, (rule codecs)+) (simp_all add: nack_ok_def)

lemma packet_codec_ok: "codec_ok r (packet_codec r) packet_ok"
  unfolding packet_codec_def
proof (rule enum_codec_ok)
  show "list_all (\<lambda>a. arm_ok r a packet_ok) (packet_arms r)"
    unfolding packet_arms_def
    by (intro arms_intros; rule multi_arm_ok single_arm_ok, (rule codecs)+, auto split: packet.splits)
  show "distinct (map am_idx (packet_arms r))"
    by (simp add: packet_arms_def multi_arm_def single_arm_def)
  show "covered r (packet_arms r) None v" for v
    by (cases v) (simp_all add: covered_def packet_arms_def multi_arm_def single_arm_def)
qed

lemma envelope_codec_ok: "codec_ok r (envelope_codec r) (\<lambda>(mt, payload, _). length payload < 2 ^ 32)"
  unfolding envelope_codec_def
  by (rule struct_codec_ok, (rule codecs)+) auto

text \<open>What is sent with a borrowed payload is what the owned envelope would be.\<close>

lemma outbound_ser_envelope: "outbound_ser r mt payload = tox_serialize (envelope_codec r) (mt, payload, ())"
proof -
  have "w_seq a (w_seq b (Some (Inr []))) = w_seq a b" for a b
    by (auto simp: w_seq_def split: option.splits sum.splits)
  moreover have "w_seq b (w_ok []) = b" for b
    by (auto simp: w_seq_def w_ok_def split: option.splits sum.splits)
  ultimately show ?thesis
    by (simp add: outbound_ser_def tox_serialize_def serialize_with_ctx_def envelope_codec_def struct_codec_def
        conv_codec_def struct_fields_def ser_array_of_def field_def no_fields_def slice_ser_def byte_vec_codec_def
        vec_codec_def u8_codec_def numeral_2_eq_2)
qed

lemma envelope_round_trip:
  assumes "length payload < 2 ^ 32"
  obtains bs where "envelope_serialize r mt payload = Inr bs" "envelope_deserialize r bs = Some (Some (mt, payload))"
    "bs \<noteq> []"
proof -
  obtain bs where bs: "cd_ser (envelope_codec r) None (mt, payload, ()) = Some (Inr bs)"
    "\<And>rest. cd_de (envelope_codec r) None (bs @ rest) = Some (Inr (mt, payload, ()), rest)"
    "one_value r bs"
    using codec_okE [OF envelope_codec_ok, of "(mt, payload, ())" None] assms by auto
  show thesis
    using bs(1) bs(2) [of "[]"] one_value_nonempty [OF bs(3)] outbound_ser_envelope [of mt payload]
    by (intro that [of bs])
      (simp_all add: envelope_serialize_def envelope_deserialize_def tox_serialize_def serialize_with_ctx_def
        tox_deserialize_def deserialize_with_ctx_def)
qed

end

interpretation packets: tox_codec msgpack "packet_codec msgpack" packet_ok
  by unfold_locales (rule mp.packet_codec_ok)

interpretation envelopes: tox_codec msgpack "envelope_codec msgpack" "\<lambda>(mt, payload, _). length payload < 2 ^ 32"
  by unfold_locales (rule mp.envelope_codec_ok)

section \<open>Lengths in the MessagePack format\<close>

lemma mp_uint_length:
  "n < 2 ^ 16 \<Longrightarrow> length (mp_uint n) \<le> 3" "n < 2 ^ 32 \<Longrightarrow> length (mp_uint n) \<le> 5" "length (mp_uint n) \<le> 9"
  by (simp_all add: mp_uint_def)

lemma mp_bin_length: "n < 2 ^ 16 \<Longrightarrow> length (mp_len 0 0 (Some 0xc4) 0xc5 0xc6 n) \<le> 3"
  by (simp add: mp_len_def)

lemma mp_small:
  "n < 16 \<Longrightarrow> mp_len 0x90 16 None 0xdc 0xdd n = [0x90 + of_nat n]" "n < 128 \<Longrightarrow> mp_uint n = [of_nat n]"
  by (simp_all add: mp_len_def mp_uint_def)

lemma ser_bytes: "length data < 2 ^ 32 \<Longrightarrow>
  cd_ser (byte_vec_codec msgpack) ctx data = Some (Inr (mp_len 0 0 (Some 0xc4) 0xc5 0xc6 (length data) @ data))"
  by (simp add: byte_vec_codec_def vec_codec_def u8_codec_def write_bin_def w_ok_def)

lemma ser_numbers:
  "cd_ser (mid_codec msgpack) ctx mid = Some (Inr (mp_uint (unat mid)))"
  "cd_ser (fragment_codec msgpack) ctx idx = Some (Inr (mp_uint idx))"
  by (simp_all add: mid_codec_def fragment_codec_def wrapper_codec_def conv_codec_def uint_codec_def w_ok_def)

lemma ser_message_type: "cd_ser (message_type_codec msgpack) ctx mt = Some (Inr [message_type_tag mt])"
  by (cases mt) (simp_all add: message_type_codec_def enum_codec_def all_message_types_def unit_arm_def ser_arm_def
      u8_codec_def w_ok_def mp_uint_def)

text \<open>A fragment costs at most 17 bytes, within the estimate \<^verbatim>\<open>PACKET_OVERHEAD\<close>.\<close>

lemma data_packet_length:
  assumes "uint_ok 2 idx" "uint_ok 2 tot" "length data < 2 ^ 16"
  obtains bs where "tox_serialize (packet_codec msgpack) (Data mid idx tot data) = Some (Inr bs)"
    "length bs \<le> length data + 17"
proof -
  let ?bs = "[0x92, 0, 0x94] @ mp_uint (unat mid) @ mp_uint idx @ mp_uint tot
      @ mp_len 0 0 (Some 0xc4) 0xc5 0xc6 (length data) @ data"
  have len: "length data < 2 ^ 32" using assms(3) by simp
  have mid: "unat mid < 2 ^ 32" using unsigned_less [of mid, where ?'a = nat] by simp
  have "tox_serialize (packet_codec msgpack) (Data mid idx tot data) = Some (Inr ?bs)"
    by (simp add: tox_serialize_def serialize_with_ctx_def packet_codec_def enum_codec_def packet_arms_def multi_arm_def
        ser_arm_def ser_array_of_def field_def no_fields_def ser_numbers ser_bytes [OF len] u8_codec_def mp_small reading)
  moreover have "length ?bs \<le> length data + 17"
    using mp_uint_length(2) [OF mid] mp_uint_length(1) [of idx] mp_uint_length(1) [of tot] mp_bin_length [OF assms(3)] assms(1,2)
    by (simp add: uint_ok_def)
  ultimately show thesis by (rule that)
qed

lemma datagram_length:
  assumes "length data < 2 ^ 16"
  obtains bs where "tox_serialize (packet_codec msgpack) (Datagram mt data) = Some (Inr bs)" "length bs \<le> length data + 7"
proof -
  let ?bs = "[0x92, 5, 0x92, message_type_tag mt] @ mp_len 0 0 (Some 0xc4) 0xc5 0xc6 (length data) @ data"
  have len: "length data < 2 ^ 32" using assms by simp
  have "tox_serialize (packet_codec msgpack) (Datagram mt data) = Some (Inr ?bs)"
    by (simp add: tox_serialize_def serialize_with_ctx_def packet_codec_def enum_codec_def packet_arms_def multi_arm_def
        single_arm_def ser_arm_def ser_array_of_def field_def no_fields_def ser_message_type ser_bytes [OF len] u8_codec_def
        mp_small reading)
  moreover have "length ?bs \<le> length data + 7" using mp_bin_length [OF assms] by simp
  ultimately show thesis by (rule that)
qed

text \<open>An acknowledgement with a fifth field, and an envelope with a third one, that is a long map.\<close>

lemma ack_long_map:
  assumes "n < 2 ^ 32" "doubling_overflows n"
  shows "tox_deserialize (packet_codec msgpack) ([0x92, 1, 0x95, 0, 0, 0, 0] @ rp_write_map_len msgpack n @ rest) = None"
proof -
  let ?fs = "field (mid_codec msgpack) (field (fragment_codec msgpack) (field (u64_codec msgpack) (field (fragment_codec msgpack) no_fields)))"
  let ?extra = "rp_write_map_len msgpack n @ rest"
  have zero: "mp_uint 0 = [0]" by (simp add: mp_uint_def)
  have ok: "fields_ok msgpack ?fs (\<lambda>(_, base, _, rwnd, _). uint_ok 2 base \<and> uint_ok 2 rwnd)"
    using field_ok [OF mp.mid_codec_ok field_ok [OF mp.fragment_codec_ok field_ok [OF mp.u64_codec_ok
      field_ok [OF mp.fragment_codec_ok no_fields_ok]]]]
    by (rule fields_ok_mono) auto
  have ser: "fl_ser ?fs None (0, 0, 0, 0, ()) = Some (Inr [0, 0, 0, 0])"
    by (simp add: field_def no_fields_def ser_numbers u64_codec_def conv_codec_def uint_codec_def zero reading)
  have hdr: "rp_write_array_len msgpack (Suc (fl_count ?fs)) = [0x95]" by (simp add: mp_small)
  have "de_array_of msgpack ?fs None ([0x95] @ [0, 0, 0, 0] @ ?extra) = None"
    by (rule mp.de_array_of_panics [OF ok _ ser skip_long_map_panics [OF assms], unfolded hdr]) (simp_all add: uint_ok_def)
  then have "cd_de (selective_ack_codec msgpack) None (0x95 # 0 # 0 # 0 # 0 # ?extra) = None"
    by (simp add: selective_ack_codec_def struct_codec_def conv_codec_def struct_fields_def r_bind_def)
  moreover have "read_enum_header msgpack None (0x92 # 1 # bs) = Some (Inr (1, 2), bs)" for bs
    using mp.header_array [of 1 2 None bs] by (simp add: mp_small)
  ultimately show ?thesis
    by (simp add: tox_deserialize_def deserialize_with_ctx_def packet_codec_def enum_codec_def packet_arms_def multi_arm_def
        single_arm_def r_bind_def)
qed

lemma envelope_long_map:
  assumes "n < 2 ^ 32" "doubling_overflows n"
  shows "envelope_deserialize msgpack ([0x93, message_type_tag mt, 0xc4, 0] @ rp_write_map_len msgpack n @ rest) = None"
proof -
  let ?fs = "field (message_type_codec msgpack) (field (byte_vec_codec msgpack) no_fields)"
  have ok: "fields_ok msgpack ?fs (\<lambda>(_, data, _). length data < 2 ^ 32)"
    using field_ok [OF mp.message_type_codec_ok field_ok [OF mp.byte_vec_codec_ok no_fields_ok]]
    by (rule fields_ok_mono) auto
  have ser: "fl_ser ?fs None (mt, [], ()) = Some (Inr [message_type_tag mt, 0xc4, 0])"
    by (simp add: field_def no_fields_def ser_message_type ser_bytes mp_len_def reading)
  have hdr: "rp_write_array_len msgpack (Suc (fl_count ?fs)) = [0x93]" by (simp add: mp_small)
  have "de_array_of msgpack ?fs None ([0x93] @ [message_type_tag mt, 0xc4, 0] @ rp_write_map_len msgpack n @ rest) = None"
    by (rule mp.de_array_of_panics [OF ok _ ser skip_long_map_panics [OF assms], unfolded hdr]) simp_all
  then show ?thesis
    by (simp add: envelope_deserialize_def tox_deserialize_def deserialize_with_ctx_def envelope_codec_def struct_codec_def
        conv_codec_def struct_fields_def r_bind_def)
qed

text \<open>The type of a message can be read off the first two bytes of its envelope.\<close>

lemma envelope_bytes:
  assumes "length payload < 2 ^ 32"
  shows "envelope_serialize msgpack mt payload
    = Inr (0x92 # message_type_tag mt # mp_len 0 0 (Some 0xc4) 0xc5 0xc6 (length payload) @ payload)"
  using assms
  by (simp add: envelope_serialize_def outbound_ser_def ser_message_type slice_ser_def write_bin_def mp_small reading)

lemma peek_envelope:
  assumes "length payload < 2 ^ 32"
  obtains bs where "envelope_serialize msgpack mt payload = Inr bs" "peek_message_type bs = Some mt"
  using envelope_bytes [OF assms, of mt] that by (auto simp: peek_message_type_eq_Some_iff)

end
