(* ===== verification/Bit_Set.thy ===== *)
theory Bit_Set
  imports Prelude
begin

text \<open>
  \<^verbatim>\<open>tox-sequenced/src/bitset.rs\<close>: the fixed-size bitset that records which fragments of a
  message have been received (receiver) or acknowledged (sender). \<^verbatim>\<open>BitSet<N>\<close> is a list of
  \<open>N\<close> 64-bit words; every method is modelled with its word and mask arithmetic, and shown
  equivalent to the plain reading of the set as a predicate on indices.
\<close>

section \<open>The methods\<close>

type_synonym bitset = "u64 list"

definition bs_new :: "nat \<Rightarrow> bitset" where
  "bs_new n = replicate n 0"

definition bs_get :: "bitset \<Rightarrow> nat \<Rightarrow> bool" where
  "bs_get ws index =
     (if index \<ge> length ws * 64 then False
      else (ws ! (index div 64)) AND push_bit (index mod 64) 1 \<noteq> 0)"

definition bs_set :: "bitset \<Rightarrow> nat \<Rightarrow> bool \<times> bitset" where
  "bs_set ws index =
     (if index \<ge> length ws * 64 then (False, ws)
      else
        (let word = index div 64; msk = push_bit (index mod 64) 1 in
         if (ws ! word) AND msk = 0 then (True, ws[word := (ws ! word) OR msk])
         else (False, ws)))"

definition bs_unset :: "bitset \<Rightarrow> nat \<Rightarrow> bool \<times> bitset" where
  "bs_unset ws index =
     (if index \<ge> length ws * 64 then (False, ws)
      else
        (let word = index div 64; msk = push_bit (index mod 64) 1 in
         if (ws ! word) AND msk \<noteq> 0 then (True, ws[word := (ws ! word) AND NOT msk])
         else (False, ws)))"

definition bs_clear :: "bitset \<Rightarrow> bitset" where
  "bs_clear ws = replicate (length ws) 0"

definition bs_fill :: "bitset \<Rightarrow> bitset" where
  "bs_fill ws = replicate (length ws) (NOT 0)"

text \<open>The loop of \<^verbatim>\<open>first_zero\<close>: \<open>base\<close> counts the full words passed so far.\<close>

fun first_zero_loop :: "u64 list \<Rightarrow> nat \<Rightarrow> nat \<Rightarrow> nat" where
  "first_zero_loop [] base limit = min base limit"
| "first_zero_loop (word # ws) base limit =
     (if word = NOT 0 then first_zero_loop ws (base + 64) limit
      else min (base + trailing_ones word) limit)"

definition bs_first_zero :: "bitset \<Rightarrow> nat \<Rightarrow> nat" where
  "bs_first_zero ws limit = first_zero_loop ws 0 limit"

text \<open>The mask of the bits at or above a position: \<^verbatim>\<open>!((1u64 << bit_idx).wrapping_sub(1))\<close>.\<close>

definition from_bit :: "nat \<Rightarrow> u64" where
  "from_bit bit_idx = NOT (push_bit bit_idx 1 - 1)"

function bs_next_zero :: "bitset \<Rightarrow> nat \<Rightarrow> nat \<Rightarrow> nat option" where
  "bs_next_zero ws idx limit =
     (if idx < limit then
        (let word_idx = idx div 64 in
         if word_idx \<ge> length ws then Some idx
         else
           (let masked = NOT (ws ! word_idx) AND from_bit (idx mod 64) in
            if masked \<noteq> 0 then
              (let found = word_idx * 64 + trailing_zeros masked in
               if found < limit then Some found else None)
            else bs_next_zero ws ((word_idx + 1) * 64) limit))
      else None)"
  by pat_completeness auto
termination
  by (relation "measure (\<lambda>(ws, idx, limit). limit - idx)") auto

function bs_next_one :: "bitset \<Rightarrow> nat \<Rightarrow> nat \<Rightarrow> nat option" where
  "bs_next_one ws idx limit =
     (if idx < limit then
        (let word_idx = idx div 64 in
         if word_idx \<ge> length ws then None
         else
           (let masked = (ws ! word_idx) AND from_bit (idx mod 64) in
            if masked \<noteq> 0 then
              (let found = word_idx * 64 + trailing_zeros masked in
               if found < limit then Some found else None)
            else bs_next_one ws ((word_idx + 1) * 64) limit))
      else None)"
  by pat_completeness auto
termination
  by (relation "measure (\<lambda>(ws, idx, limit). limit - idx)") auto

declare bs_next_zero.simps [simp del] bs_next_one.simps [simp del]

text \<open>\<^verbatim>\<open>start as u16\<close> truncates.\<close>

definition bs_next_range :: "bitset \<Rightarrow> nat \<Rightarrow> nat \<Rightarrow> (nat \<times> nat) option" where
  "bs_next_range ws search_start limit =
     (case bs_next_one ws search_start limit of
        None \<Rightarrow> None
      | Some start \<Rightarrow>
          (let end = (case bs_next_zero ws start limit of None \<Rightarrow> limit | Some e \<Rightarrow> e)
           in Some (start mod 65536, end mod 65536)))"

text \<open>The backwards loop of \<^verbatim>\<open>last_one\<close> over full words.\<close>

fun last_one_loop :: "bitset \<Rightarrow> nat \<Rightarrow> nat option" where
  "last_one_loop ws 0 =
     (if ws ! 0 \<noteq> 0 then Some (0 * 64 + (63 - leading_zeros (ws ! 0))) else None)"
| "last_one_loop ws (Suc k) =
     (if ws ! Suc k \<noteq> 0 then Some (Suc k * 64 + (63 - leading_zeros (ws ! Suc k)))
      else last_one_loop ws k)"

definition bs_last_one :: "bitset \<Rightarrow> nat \<Rightarrow> nat option" where
  "bs_last_one ws limit0 =
     (let limit = min limit0 (length ws * 64) in
      if limit = 0 then None
      else
        (let last_idx = limit - 1; word_idx = last_idx div 64; bit_limit = last_idx mod 64 + 1 in
         if bit_limit < 64 then
           (let masked_word = (ws ! word_idx) AND (push_bit bit_limit 1 - 1) in
            if masked_word \<noteq> 0 then Some (word_idx * 64 + (63 - leading_zeros masked_word))
            else if word_idx = 0 then None
            else last_one_loop ws (word_idx - 1))
         else last_one_loop ws word_idx))"

definition bs_sack_mask :: "bitset \<Rightarrow> nat \<Rightarrow> u64" where
  "bs_sack_mask ws base_index =
     (let start = base_index + 1; word_idx = start div 64; bit_idx = start mod 64 in
      if word_idx \<ge> length ws then 0
      else
        (let msk = drop_bit bit_idx (ws ! word_idx) in
         if bit_idx > 0 \<and> word_idx + 1 < length ws
         then msk OR push_bit (64 - bit_idx) (ws ! (word_idx + 1))
         else msk))"

definition bs_count_ones_between :: "bitset \<Rightarrow> nat \<Rightarrow> nat \<Rightarrow> nat" where
  "bs_count_ones_between ws start end0 =
     (let end = min end0 (length ws * 64) in
      if start \<ge> end then 0
      else
        (let start_word = start div 64; end_word = (end - 1) div 64;
             start_mask = push_bit (start mod 64) (NOT 0);
             end_mask = drop_bit (63 - (end - 1) mod 64) (NOT 0) in
         if start_word = end_word
         then count_ones ((ws ! start_word) AND (start_mask AND end_mask))
         else count_ones ((ws ! start_word) AND start_mask)
              + sum_list (map (\<lambda>i. count_ones (ws ! i)) [start_word + 1..<end_word])
              + count_ones ((ws ! end_word) AND end_mask)))"

section \<open>The set reading\<close>

text \<open>The indices a bitset holds.\<close>

definition bs_members :: "bitset \<Rightarrow> nat set" where
  "bs_members ws = {i. bs_get ws i}"

lemma index_word: "i < length ws * 64 \<Longrightarrow> i div 64 < length (ws :: 'a list)"
  by (simp add: less_mult_imp_div_less)

lemma bs_get_iff [bit_facts]:
  "bs_get ws i \<longleftrightarrow> i < length ws * 64 \<and> bit (ws ! (i div 64)) (i mod 64)"
  by (simp add: bs_get_def word_bit_test)

lemma bs_get_word: "k < length ws \<Longrightarrow> j < 64 \<Longrightarrow> bs_get ws (k * 64 + j) \<longleftrightarrow> bit (ws ! k) j"
  by (auto simp: bs_get_iff)

lemma bs_get_at: "j < 64 \<Longrightarrow> i = w * 64 + j \<Longrightarrow> bs_get ws i \<longleftrightarrow> w < length ws \<and> bit (ws ! w) j"
proof (cases "w < length ws")
  case False
  assume "j < 64" and "i = w * 64 + j"
  then have "length ws * 64 \<le> i" using False by simp
  then show ?thesis using False by (simp add: bs_get_iff)
qed (simp add: bs_get_word)

lemma bs_members_subset: "bs_members ws \<subseteq> {..<length ws * 64}"
  by (auto simp: bs_members_def bs_get_iff)

lemma finite_bs_members [simp]: "finite (bs_members ws)"
  using bs_members_subset finite_subset by blast

lemma length_bs_set [simp]: "length (snd (bs_set ws i)) = length ws"
  by (simp add: bs_set_def Let_def)

lemma length_bs_unset [simp]: "length (snd (bs_unset ws i)) = length ws"
  by (simp add: bs_unset_def Let_def)

lemma length_bs_new [simp]: "length (bs_new n) = n"
  by (simp add: bs_new_def)

lemma length_bs_clear [simp]: "length (bs_clear ws) = length ws"
  by (simp add: bs_clear_def)

lemma bs_get_new [simp]: "\<not> bs_get (bs_new n) i"
  by (auto simp: bs_get_iff bs_new_def index_word)

lemma bs_get_clear [simp]: "\<not> bs_get (bs_clear ws) i"
  by (auto simp: bs_get_iff bs_clear_def index_word)

lemma bs_get_fill [simp]: "bs_get (bs_fill ws) i \<longleftrightarrow> i < length ws * 64"
  by (auto simp: bs_get_iff bs_fill_def index_word bit_simps)

lemma same_index_iff: "(i :: nat) div 64 = j div 64 \<and> i mod 64 = j mod 64 \<longleftrightarrow> i = j"
  by (metis div_mult_mod_eq)

lemma bs_get_set [simp]:
  "bs_get (snd (bs_set ws i)) j \<longleftrightarrow> bs_get ws j \<or> (j = i \<and> i < length ws * 64)"
  using same_index_iff [of i j]
  by (auto simp: bs_set_def Let_def bs_get_iff word_bit_test nth_list_update index_word bit_simps)

lemma fst_bs_set [simp]: "fst (bs_set ws i) \<longleftrightarrow> i < length ws * 64 \<and> \<not> bs_get ws i"
  by (auto simp: bs_set_def bs_get_def Let_def)

lemma bs_get_unset [simp]:
  "bs_get (snd (bs_unset ws i)) j \<longleftrightarrow> bs_get ws j \<and> j \<noteq> i"
  using same_index_iff [of i j]
  by (auto simp: bs_unset_def Let_def bs_get_iff word_bit_test nth_list_update index_word bit_simps)

lemma bs_members_set:
  "i < length ws * 64 \<Longrightarrow> bs_members (snd (bs_set ws i)) = insert i (bs_members ws)"
  by (auto simp: bs_members_def)

lemma bs_members_new [simp]: "bs_members (bs_new n) = {}"
  by (simp add: bs_members_def)

section \<open>The searches\<close>

lemma bit_from_bit: "j < 64 \<Longrightarrow> bit (from_bit b) j \<longleftrightarrow> b \<le> j"
  unfolding from_bit_def push_bit_of_1 by (auto simp: bit_simps simp flip: mask_eq_exp_minus_1)

lemma bit_low_mask: "j < 64 \<Longrightarrow> bit (push_bit b 1 - 1 :: u64) j \<longleftrightarrow> j < b"
  unfolding push_bit_of_1 by (auto simp: bit_simps simp flip: mask_eq_exp_minus_1)

text \<open>One word of a forward search: \<open>m\<close> is the word with the bits before the start cleared.\<close>

lemma find_upt_masked:
  assumes m: "\<And>j. j < 64 \<Longrightarrow> bit (m :: u64) j \<longleftrightarrow> P (idx div 64 * 64 + j) \<and> idx mod 64 \<le> j"
  shows "m \<noteq> 0 \<Longrightarrow> find P [idx..<limit] =
      (let found = idx div 64 * 64 + trailing_zeros m in if found < limit then Some found else None)"
    and "m = 0 \<Longrightarrow> find P [idx..<limit] = find P [(idx div 64 + 1) * 64..<limit]"
proof -
  obtain q r where q: "q = idx div 64" "r = idx mod 64" by blast
  have qr: "q * 64 + r = idx" "r < 64" using split_word_index [of idx] by (auto simp: q)
  have off: "j - idx div 64 * 64 < 64 \<and> idx mod 64 \<le> j - idx div 64 * 64
      \<and> idx div 64 * 64 + (j - idx div 64 * 64) = j" if "idx \<le> j" "j < (idx div 64 + 1) * 64" for j
    using that qr unfolding q [symmetric] by auto
  show "find P [idx..<limit] =
      (let found = idx div 64 * 64 + trailing_zeros m in if found < limit then Some found else None)"
    if "m \<noteq> 0"
  proof -
    let ?f = "idx div 64 * 64 + trailing_zeros m"
    have tz: "trailing_zeros m < 64" "bit m (trailing_zeros m)"
      using trailing_zeros_at [OF that] by auto
    have before: "\<not> P j" if "idx \<le> j" "j < ?f" for j
    proof -
      have "j < (idx div 64 + 1) * 64" using that tz(1) by simp
      note o = off [OF that(1) this]
      then have "j - idx div 64 * 64 < trailing_zeros m" using that(2) by linarith
      then have "\<not> bit m (j - idx div 64 * 64)" by (rule trailing_zeros_before)
      with m [of "j - idx div 64 * 64"] o show ?thesis by simp
    qed
    have "P ?f" and "idx mod 64 \<le> trailing_zeros m" using m [OF tz(1)] tz(2) by auto
    then have "idx \<le> ?f" using qr unfolding q [symmetric] by linarith
    show ?thesis
    proof (cases "?f < limit")
      case True
      then have "find P [idx..<limit] = Some ?f"
        using \<open>P ?f\<close> \<open>idx \<le> ?f\<close> before by (simp add: find_upt_eq_Some_iff)
      with True show ?thesis by simp
    next
      case False
      then have "find P [idx..<limit] = None"
        using before by (auto simp: find_upt_eq_None_iff)
      with False show ?thesis by simp
    qed
  qed
  show "find P [idx..<limit] = find P [(idx div 64 + 1) * 64..<limit]" if "m = 0"
  proof (rule find_upt_skip)
    show "\<not> P j" if "idx \<le> j" "j < (idx div 64 + 1) * 64" for j
      using off [OF that] m [of "j - idx div 64 * 64"] \<open>m = 0\<close> by simp
    show "idx \<le> (idx div 64 + 1) * 64" using qr unfolding q [symmetric] by simp
  qed
qed

lemma bs_next_zero_eq_find:
  "bs_next_zero ws idx limit = find (\<lambda>i. \<not> bs_get ws i) [idx..<limit]"
proof (induction ws idx limit rule: bs_next_zero.induct)
  case (1 ws idx limit)
  let ?w = "ws ! (idx div 64)"
  let ?m = "NOT ?w AND from_bit (idx mod 64)"
  show ?case
  proof (cases "idx < limit \<and> idx div 64 < length ws")
    case False
    then show ?thesis
      by (subst bs_next_zero.simps)
        (auto simp: Let_def find_upt_eq_Some_iff bs_get_iff not_less dest: index_word
          intro!: sym [of "find _ _"])
  next
    case True
    have m: "bit ?m j \<longleftrightarrow> \<not> bs_get ws (idx div 64 * 64 + j) \<and> idx mod 64 \<le> j" if "j < 64" for j
      using that True by (simp add: bit_simps bit_from_bit bs_get_word)
    show ?thesis
    proof (cases "?m = 0")
      case True
      with \<open>idx < limit \<and> _\<close> 1 have "bs_next_zero ws idx limit =
          find (\<lambda>i. \<not> bs_get ws i) [(idx div 64 + 1) * 64..<limit]"
        by (subst bs_next_zero.simps) (simp add: Let_def)
      with True find_upt_masked(2) [where P = "\<lambda>i. \<not> bs_get ws i", OF m] show ?thesis by simp
    next
      case False
      with \<open>idx < limit \<and> _\<close> find_upt_masked(1) [where P = "\<lambda>i. \<not> bs_get ws i", OF m]
      show ?thesis by (subst bs_next_zero.simps) (simp add: Let_def)
    qed
  qed
qed

lemma bs_next_one_eq_find:
  "bs_next_one ws idx limit = find (bs_get ws) [idx..<limit]"
proof (induction ws idx limit rule: bs_next_one.induct)
  case (1 ws idx limit)
  let ?w = "ws ! (idx div 64)"
  let ?m = "?w AND from_bit (idx mod 64)"
  show ?case
  proof (cases "idx < limit \<and> idx div 64 < length ws")
    case False
    have "\<not> bs_get ws j" if "length ws \<le> idx div 64" "idx \<le> j" for j
      using that by (auto simp: bs_get_iff dest!: index_word dest: div_le_mono [of idx j 64])
    with False show ?thesis
      by (subst bs_next_one.simps)
        (auto simp: Let_def find_upt_eq_None_iff not_less intro!: sym [of "find _ _"])
  next
    case True
    have m: "bit ?m j \<longleftrightarrow> bs_get ws (idx div 64 * 64 + j) \<and> idx mod 64 \<le> j" if "j < 64" for j
      using that True by (simp add: bit_simps bit_from_bit bs_get_word)
    show ?thesis
    proof (cases "?m = 0")
      case True
      with \<open>idx < limit \<and> _\<close> 1 have "bs_next_one ws idx limit =
          find (bs_get ws) [(idx div 64 + 1) * 64..<limit]"
        by (subst bs_next_one.simps) (simp add: Let_def)
      with True find_upt_masked(2) [where P = "bs_get ws", OF m] show ?thesis by simp
    next
      case False
      with \<open>idx < limit \<and> _\<close> find_upt_masked(1) [where P = "bs_get ws", OF m]
      show ?thesis by (subst bs_next_one.simps) (simp add: Let_def)
    qed
  qed
qed

lemma bs_get_Cons:
  "bs_get (w # ws) i \<longleftrightarrow> (if i < 64 then bit w i else bs_get ws (i - 64))"
proof -
  have "i div 64 = Suc ((i - 64) div 64)" "(i - 64) mod 64 = i mod 64" if "\<not> i < 64"
    using that by (auto simp: le_div_geq le_mod_geq)
  then show ?thesis by (auto simp: bs_get_iff)
qed

lemma first_zero_loop_eq:
  "\<exists>k \<le> length ws * 64. first_zero_loop ws base limit = min (base + k) limit
     \<and> (\<forall>i < k. bs_get ws i) \<and> \<not> bs_get ws k"
proof (induction ws arbitrary: base)
  case Nil
  then show ?case by (auto simp: bs_get_iff)
next
  case (Cons w ws)
  show ?case
  proof (cases "w = NOT 0")
    case True
    obtain k where k: "k \<le> length ws * 64"
      "first_zero_loop ws (base + 64) limit = min (base + 64 + k) limit"
      "\<forall>i < k. bs_get ws i" "\<not> bs_get ws k"
      using Cons.IH by blast
    have "bs_get (w # ws) i" if "i < 64 + k" for i
      using that k(3) word64_eq_ones_iff [of w] True by (auto simp: bs_get_Cons)
    moreover have "\<not> bs_get (w # ws) (64 + k)" using k(4) by (simp add: bs_get_Cons)
    ultimately show ?thesis
      using k(1,2) True by (intro exI [of _ "64 + k"]) (simp add: add.assoc)
  next
    case False
    then show ?thesis
      using trailing_ones_at [OF False] trailing_ones_before [of _ w]
      by (intro exI [of _ "trailing_ones w"]) (auto simp: bs_get_Cons)
  qed
qed

lemma bs_first_zero_eq: "bs_first_zero ws limit = first_idx (\<lambda>i. \<not> bs_get ws i) limit"
proof -
  obtain k where k: "first_zero_loop ws 0 limit = min k limit" "\<forall>i < k. bs_get ws i" "\<not> bs_get ws k"
    using first_zero_loop_eq [of ws 0 limit] by auto
  have "first_idx (\<lambda>i. \<not> bs_get ws i) limit = min k limit"
    using k by (intro first_idx_eqI) auto
  with k(1) show ?thesis by (simp add: bs_first_zero_def)
qed

text \<open>One word of a backward search.\<close>

lemma find_rev_upt_masked:
  assumes m: "\<And>j. j < 64 \<Longrightarrow> bit (m :: u64) j \<longleftrightarrow> P (w * 64 + j) \<and> j < l" and l: "l \<le> 64"
  shows "find P (rev [0..<w * 64 + l]) =
    (if m \<noteq> 0 then Some (w * 64 + (63 - leading_zeros m)) else find P (rev [0..<w * 64]))"
proof (cases "m = 0")
  case True
  have "\<not> P j" if "w * 64 \<le> j" "j < w * 64 + l" for j
  proof -
    have "j - w * 64 < 64" "j - w * 64 < l" "w * 64 + (j - w * 64) = j"
      using that l by linarith+
    with m [of "j - w * 64"] True show ?thesis by simp
  qed
  with True show ?thesis by (auto intro!: find_rev_upt_skip)
next
  case False
  let ?t = "63 - leading_zeros m"
  note lz = leading_zeros_at [OF False]
  have t: "?t < 64" "P (w * 64 + ?t)" "?t < l" using lz(1,2) m [of ?t] by auto
  have "\<not> P j" if "w * 64 + ?t < j" "j < w * 64 + l" for j
  proof -
    have "j - w * 64 < 64" "j - w * 64 < l" "w * 64 + (j - w * 64) = j" "?t < j - w * 64"
      using that l by linarith+
    with m [of "j - w * 64"] lz(3) [of "j - w * 64"] show ?thesis by simp
  qed
  with False t show ?thesis by (simp add: find_rev_upt_eq_Some_iff)
qed

lemma last_one_loop_eq:
  "k < length ws \<Longrightarrow> last_one_loop ws k = find (bs_get ws) (rev [0..<k * 64 + 64])"
proof (induction k)
  case 0
  then show ?case
    using find_rev_upt_masked [of "ws ! 0" "bs_get ws" 0 64] bs_get_word [of 0 ws] by simp
next
  case (Suc k)
  have "Suc k * 64 = k * 64 + 64" by simp
  with Suc show ?case
    using find_rev_upt_masked [of "ws ! Suc k" "bs_get ws" "Suc k" 64] bs_get_word [of "Suc k" ws]
    by (simp del: mult_Suc)
qed

lemma bs_last_one_eq:
  "bs_last_one ws limit = find (bs_get ws) (rev [0..<limit])"
proof -
  define l where "l = min limit (length ws * 64)"
  define w where "w = (l - 1) div 64"
  define b where "b = (l - 1) mod 64 + 1"
  have out: "find (bs_get ws) (rev [0..<limit]) = find (bs_get ws) (rev [0..<l])"
    by (rule find_rev_upt_skip) (auto simp: l_def bs_get_iff)
  show ?thesis
  proof (cases "l = 0")
    case True
    then show ?thesis by (simp add: bs_last_one_def out flip: l_def)
  next
    case False
    then have lw: "l = w * 64 + b" and b: "b \<le> 64"
      using split_word_index [of "l - 1"] unfolding w_def b_def by linarith+
    have w: "w < length ws" using False unfolding w_def l_def by (intro index_word) linarith
    have pre: "find (bs_get ws) (rev [0..<w * 64]) =
        (if w = 0 then None else last_one_loop ws (w - 1))"
      using w last_one_loop_eq [of "w - 1" ws] by (cases w) (auto simp: add.commute)
    have m: "bit ((ws ! w) AND (push_bit b 1 - 1)) j \<longleftrightarrow> bs_get ws (w * 64 + j) \<and> j < b"
      if "j < 64" for j
      using that w bit_low_mask [of j b] by (simp add: bit_and_iff bs_get_word)
    have full: "last_one_loop ws w = find (bs_get ws) (rev [0..<l])" if "\<not> b < 64"
      using last_one_loop_eq [OF w] that b by (simp add: lw)
    have "bs_last_one ws limit =
        (if b < 64 then
           (if (ws ! w) AND (push_bit b 1 - 1) \<noteq> 0
            then Some (w * 64 + (63 - leading_zeros ((ws ! w) AND (push_bit b 1 - 1))))
            else if w = 0 then None else last_one_loop ws (w - 1))
         else last_one_loop ws w)"
      unfolding bs_last_one_def Let_def l_def [symmetric] w_def [symmetric] b_def [symmetric]
      using False by simp
    also have "\<dots> = find (bs_get ws) (rev [0..<l])"
    proof (cases "b < 64")
      case True
      with find_rev_upt_masked [OF m b] show ?thesis unfolding lw pre by simp
    next
      case False
      with full show ?thesis by simp
    qed
    finally show ?thesis by (simp add: out)
  qed
qed

lemma bit_sack_mask:
  assumes "j < 64"
  shows "bit (bs_sack_mask ws base) j \<longleftrightarrow> bs_get ws (base + 1 + j)"
proof -
  define w where "w = (base + 1) div 64"
  define b where "b = (base + 1) mod 64"
  have s: "base + 1 = w * 64 + b" and b: "b < 64"
    using split_word_index [of "base + 1"] unfolding w_def b_def by linarith+
  have eq: "bs_sack_mask ws base =
      (if w \<ge> length ws then 0
       else if b > 0 \<and> w + 1 < length ws
       then drop_bit b (ws ! w) OR push_bit (64 - b) (ws ! (w + 1)) else drop_bit b (ws ! w))"
    unfolding bs_sack_mask_def Let_def w_def [symmetric] b_def [symmetric] by simp
  show ?thesis
  proof (cases "b + j < 64")
    case True
    have "base + 1 + j = w * 64 + (b + j)" using s by linarith
    from bs_get_at [OF True this] have "bs_get ws (base + 1 + j) \<longleftrightarrow>
        w < length ws \<and> bit (ws ! w) (b + j)" .
    with True assms show ?thesis unfolding eq by (auto simp: bit_simps)
  next
    case False
    then have "base + 1 + j = (w + 1) * 64 + (b + j - 64)" using s by arith
    moreover have "b + j - 64 < 64" using b assms by simp
    ultimately have "bs_get ws (base + 1 + j) \<longleftrightarrow>
        w + 1 < length ws \<and> bit (ws ! (w + 1)) (b + j - 64)" using bs_get_at by blast
    moreover have "\<not> bit (ws ! w) (b + j)" using False by (auto dest: bit_imp_le_length)
    ultimately show ?thesis
      using False assms b unfolding eq by (auto simp: bit_simps add.commute)
  qed
qed

section \<open>Counting\<close>

lemma count_ones_word:
  assumes m: "\<And>j. j < 64 \<Longrightarrow> bit m j \<longleftrightarrow> k * 64 + j \<in> S"
  shows "count_ones m = card (S \<inter> {k * 64..<(k + 1) * 64})"
proof -
  have "S \<inter> {k * 64..<(k + 1) * 64} = (\<lambda>j. k * 64 + j) ` {j. j < 64 \<and> bit m j}"
  proof (intro set_eqI iffI)
    fix i assume i: "i \<in> S \<inter> {k * 64..<(k + 1) * 64}"
    then have "i - k * 64 < 64" "k * 64 + (i - k * 64) = i" by auto
    with m [of "i - k * 64"] i show "i \<in> (\<lambda>j. k * 64 + j) ` {j. j < 64 \<and> bit m j}"
      by (intro image_eqI [of _ _ "i - k * 64"]) auto
  qed (use m in auto)
  then show ?thesis by (simp add: count_ones_card card_image)
qed

lemma sum_count_ones:
  "a \<le> b \<Longrightarrow> b \<le> length ws \<Longrightarrow>
   sum_list (map (\<lambda>i. count_ones (ws ! i)) [a..<b]) = card (bs_members ws \<inter> {a * 64..<b * 64})"
proof (induction b)
  case (Suc b)
  show ?case
  proof (cases "a = Suc b")
    case False
    have "count_ones (ws ! b) = card (bs_members ws \<inter> {b * 64..<(b + 1) * 64})"
      using Suc.prems by (intro count_ones_word) (simp add: bs_members_def bs_get_word)
    then show ?thesis
      using False Suc card_Int_ivl_split [of "a * 64" "b * 64" "Suc b * 64" "bs_members ws"]
      by simp
  qed simp
qed simp

lemma bs_count_ones_between_card:
  "bs_count_ones_between ws start end0 = card (bs_members ws \<inter> {start..<end0})"
proof -
  define e where "e = min end0 (length ws * 64)"
  define sw where "sw = start div 64"
  define ew where "ew = (e - 1) div 64"
  define sm where "sm = (push_bit (start mod 64) (NOT 0) :: u64)"
  define em where "em = (drop_bit (63 - (e - 1) mod 64) (NOT 0) :: u64)"
  let ?S = "bs_members ws"
  have cut: "?S \<inter> {start..<end0} = ?S \<inter> {start..<e}"
    using bs_members_subset by (fastforce simp: e_def)
  show ?thesis
  proof (cases "start \<ge> e")
    case True
    then show ?thesis by (simp add: bs_count_ones_between_def cut flip: e_def)
  next
    case False
    have st: "start = sw * 64 + start mod 64" unfolding sw_def by simp
    have "e - 1 = ew * 64 + (e - 1) mod 64" unfolding ew_def by simp
    then have en: "e = ew * 64 + (e - 1) mod 64 + 1" using False by linarith
    have sm: "bit sm j \<longleftrightarrow> start \<le> sw * 64 + j" if "j < 64" for j
    proof -
      have "bit sm j \<longleftrightarrow> start mod 64 \<le> j" using that by (auto simp: sm_def bit_simps)
      with st show ?thesis by linarith
    qed
    have em: "bit em j \<longleftrightarrow> ew * 64 + j < e" if "j < 64" for j
    proof -
      have "bit em j \<longleftrightarrow> j \<le> (e - 1) mod 64"
        using that split_word_index(2) [of "e - 1"] by (auto simp: em_def bit_simps)
      with en show ?thesis by linarith
    qed
    have ew: "ew < length ws"
      using False unfolding ew_def by (intro index_word) (auto simp: e_def)
    have le: "sw \<le> ew" using False unfolding sw_def ew_def by (intro div_le_mono) auto
    have bounds: "sw * 64 \<le> start" "start < (sw + 1) * 64" "ew * 64 < e" "e \<le> (ew + 1) * 64"
    proof -
      obtain a b where "start = sw * 64 + a" "a < 64" "e = ew * 64 + b + 1" "b < 64"
        using st en split_word_index(2) by blast
      then show "sw * 64 \<le> start" "start < (sw + 1) * 64" "ew * 64 < e" "e \<le> (ew + 1) * 64"
        by simp_all
    qed
    have get: "bit (ws ! k) j \<longleftrightarrow> k * 64 + j \<in> ?S" if "j < 64" "k \<le> ew" for k j
      using that ew by (simp add: bs_members_def bs_get_word)
    show ?thesis
    proof (cases "sw = ew")
      case True
      have "count_ones ((ws ! sw) AND (sm AND em)) =
          card (?S \<inter> {start..<e} \<inter> {sw * 64..<(sw + 1) * 64})"
        using le by (intro count_ones_word) (auto simp: bit_and_iff sm em get True)
      also have "?S \<inter> {start..<e} \<inter> {sw * 64..<(sw + 1) * 64} = ?S \<inter> {start..<e}"
        using bounds True by auto
      finally show ?thesis
        using False True unfolding bs_count_ones_between_def Let_def cut
          e_def [symmetric] sw_def [symmetric] ew_def [symmetric] sm_def [symmetric] em_def [symmetric]
        by simp
    next
      case neq: False
      have "count_ones ((ws ! sw) AND sm) = card (?S \<inter> {start..} \<inter> {sw * 64..<(sw + 1) * 64})"
        using le by (intro count_ones_word) (auto simp: bit_and_iff sm get)
      also have "?S \<inter> {start..} \<inter> {sw * 64..<(sw + 1) * 64} = ?S \<inter> {start..<(sw + 1) * 64}"
        using bounds by auto
      finally have c1: "count_ones ((ws ! sw) AND sm) = card (?S \<inter> {start..<(sw + 1) * 64})" .
      have "count_ones ((ws ! ew) AND em) = card (?S \<inter> {..<e} \<inter> {ew * 64..<(ew + 1) * 64})"
        by (intro count_ones_word) (auto simp: bit_and_iff em get)
      also have "?S \<inter> {..<e} \<inter> {ew * 64..<(ew + 1) * 64} = ?S \<inter> {ew * 64..<e}"
        using bounds by auto
      finally have c3: "count_ones ((ws ! ew) AND em) = card (?S \<inter> {ew * 64..<e})" .
      have c2: "sum_list (map (\<lambda>i. count_ones (ws ! i)) [sw + 1..<ew]) =
          card (?S \<inter> {(sw + 1) * 64..<ew * 64})"
        using le neq ew by (intro sum_count_ones) auto
      have mid: "start \<le> (sw + 1) * 64" "(sw + 1) * 64 \<le> ew * 64" "ew * 64 \<le> e"
        using bounds le neq by auto
      have "card (?S \<inter> {start..<e}) =
          card (?S \<inter> {start..<(sw + 1) * 64}) + card (?S \<inter> {(sw + 1) * 64..<ew * 64})
          + card (?S \<inter> {ew * 64..<e})"
        using card_Int_ivl_split [OF mid(1), of e ?S] card_Int_ivl_split [OF mid(2,3), of ?S]
          le_trans [OF mid(2,3)] by linarith
      with False neq c1 c2 c3 show ?thesis
        unfolding bs_count_ones_between_def Let_def cut
          e_def [symmetric] sw_def [symmetric] ew_def [symmetric] sm_def [symmetric] em_def [symmetric]
        by simp
    qed
  qed
qed

section \<open>The interface clients use\<close>

text \<open>
  A bounded set of indices to which elements are added one at a time. The clients that rebuild a
  bitset from a queue rely on nothing else.
\<close>

locale index_set =
  fixes mem :: "'s \<Rightarrow> nat \<Rightarrow> bool"
    and put :: "'s \<Rightarrow> nat \<Rightarrow> 's"
    and cap :: "'s \<Rightarrow> nat"
  assumes mem_put: "mem (put s i) j \<longleftrightarrow> mem s j \<or> (j = i \<and> i < cap s)"
    and cap_put: "cap (put s i) = cap s"
begin

lemma cap_puts: "cap (fold (\<lambda>i s. put s i) js s) = cap s"
  by (induction js arbitrary: s) (simp_all add: cap_put)

lemma mem_puts: "mem (fold (\<lambda>i s. put s i) js s) j \<longleftrightarrow> mem s j \<or> (j \<in> set js \<and> j < cap s)"
  by (induction js arbitrary: s) (auto simp: mem_put cap_put)

end

interpretation bs: index_set bs_get "\<lambda>ws i. snd (bs_set ws i)" "\<lambda>ws. length ws * 64"
  by unfold_locales auto

end
