(* ===== verification/Reassembly.thy ===== *)
theory Reassembly
  imports Bit_Set Protocol
begin

text \<open>
  \<^verbatim>\<open>tox-sequenced/src/reassembly/buffer.rs\<close> and \<^verbatim>\<open>reassembly/mod.rs\<close>: the buffer that collects the
  fragments of one message and the reassembler around it, which answers with selective
  acknowledgements and negative acknowledgements.

  The buffer keeps several derived values (a bitset, a count, a byte total, the first hole, the
  highest index) next to the fragments. \<open>fb_wf\<close> says that all of them are functions of the stored
  fragments; the abstraction \<open>fb_stored\<close> is the partial map from indices to data, and adding a
  fragment refines a write-once update of that map.
\<close>

section \<open>FragmentBuffer\<close>

record fragment_buffer =
  fb_fragments :: "bytes option list"
  fb_total_fragments :: fragment_count
  fb_received_mask :: bitset
  fb_received_count :: fragment_count
  fb_current_size :: nat
  fb_full_fragment_size :: "nat option"
  fb_last_fragment_size :: "nat option"
  fb_base_index :: fragment_index
  fb_highest_index :: fragment_index

definition FRAGMENT_STRUCT_OVERHEAD :: nat where "FRAGMENT_STRUCT_OVERHEAD = 24"
definition HEAP_OVERHEAD_ESTIMATE :: nat where "HEAP_OVERHEAD_ESTIMATE = 32"
definition PER_FRAGMENT_OVERHEAD :: nat where
  "PER_FRAGMENT_OVERHEAD = FRAGMENT_STRUCT_OVERHEAD + HEAP_OVERHEAD_ESTIMATE"

definition fb_new :: "fragment_count \<Rightarrow> fragment_buffer" where
  "fb_new tot =
     \<lparr>fb_fragments = replicate tot None, fb_total_fragments = tot,
      fb_received_mask = bs_new BITSET_WORDS, fb_received_count = 0, fb_current_size = 0,
      fb_full_fragment_size = None, fb_last_fragment_size = None,
      fb_base_index = 0, fb_highest_index = 0\<rparr>"

definition fb_is_complete :: "fragment_buffer \<Rightarrow> bool" where
  "fb_is_complete b \<longleftrightarrow> fb_received_count b = fb_total_fragments b"

text \<open>The \<^verbatim>\<open>while\<close> loop that moves \<^verbatim>\<open>base_index\<close> past the received fragments.\<close>

function advance_base :: "bitset \<Rightarrow> nat \<Rightarrow> nat \<Rightarrow> nat" where
  "advance_base msk tot base =
     (if base < tot \<and> bs_get msk base then advance_base msk tot (base + 1) else base)"
  by pat_completeness auto
termination by (relation "measure (\<lambda>(msk, tot, base). tot - base)") auto

declare advance_base.simps [simp del]

definition fb_note_size :: "nat \<Rightarrow> nat \<Rightarrow> fragment_buffer \<Rightarrow> fragment_buffer" where
  "fb_note_size idx len b =
     (if idx = fb_total_fragments b - 1 then b\<lparr>fb_last_fragment_size := Some len\<rparr>
      else (case fb_full_fragment_size b of
              None \<Rightarrow> b\<lparr>fb_full_fragment_size := Some len\<rparr>
            | Some current \<Rightarrow>
                if len > current then b\<lparr>fb_full_fragment_size := Some len\<rparr> else b))"

definition fb_add_fragment ::
    "fragment_buffer \<Rightarrow> fragment_index \<Rightarrow> bytes \<Rightarrow> ((sequenced_error + bool) \<times> fragment_buffer) panics"
where
  "fb_add_fragment b idx data =
     (if idx \<ge> fb_total_fragments b then Some (Inl InvalidFragmentIndex, b)
      else if bs_get (fb_received_mask b) idx then Some (Inr (fb_is_complete b), b)
      else if idx \<ge> length (fb_fragments b) then None
      else
        (let len = length data;
             b1 = fb_note_size idx len b;
             b2 = b1\<lparr>fb_current_size := fb_current_size b1 + len,
                     fb_fragments := (fb_fragments b1)[idx := Some data],
                     fb_received_mask := snd (bs_set (fb_received_mask b1) idx),
                     fb_received_count := fb_received_count b1 + 1\<rparr>;
             b3 = (if idx = fb_base_index b2
                   then b2\<lparr>fb_base_index := advance_base (fb_received_mask b2)
                             (fb_total_fragments b2) (fb_base_index b2 + 1)\<rparr>
                   else b2);
             b4 = (if idx > fb_highest_index b3 then b3\<lparr>fb_highest_index := idx\<rparr> else b3)
         in Some (Inr (fb_is_complete b4), b4)))"

definition fb_assemble :: "fragment_buffer \<Rightarrow> bytes option" where
  "fb_assemble b =
     (if \<not> fb_is_complete b then None
      else Some (concat (map the (filter (\<lambda>f. f \<noteq> None) (fb_fragments b)))))"

definition fb_total_allocated_size :: "fragment_buffer \<Rightarrow> nat" where
  "fb_total_allocated_size b = fb_current_size b + fb_received_count b * PER_FRAGMENT_OVERHEAD"

definition unwrap_or :: "'a option \<Rightarrow> 'a \<Rightarrow> 'a" where
  "unwrap_or x d = (case x of Some v \<Rightarrow> v | None \<Rightarrow> d)"

definition fb_planned_total_size :: "fragment_buffer \<Rightarrow> nat" where
  "fb_planned_total_size b =
     (if fb_total_fragments b = 0 then 0
      else
        (let full_size = unwrap_or (fb_full_fragment_size b) ESTIMATED_PAYLOAD_SIZE;
             last_size = unwrap_or (fb_last_fragment_size b) full_size;
             estimated_payload =
               (if fb_total_fragments b = 1 then last_size
                else (fb_total_fragments b - 1) * full_size + last_size);
             overhead = fb_total_fragments b * PER_FRAGMENT_OVERHEAD
         in max (estimated_payload + overhead) (fb_total_allocated_size b)))"

section \<open>MessageReassembler\<close>

record message_reassembler =
  mr_message_id :: message_id
  mr_total_fragments :: fragment_count
  mr_priority :: priority
  mr_buffer :: fragment_buffer
  mr_reserved_bytes :: nat
  mr_last_activity :: instant

definition mr_new ::
    "message_id \<Rightarrow> fragment_count \<Rightarrow> priority \<Rightarrow> nat \<Rightarrow> instant \<Rightarrow> sequenced_error + message_reassembler"
where
  "mr_new mid tot prio reserved now =
     (if tot = 0 \<or> tot > MAX_FRAGMENTS_PER_MESSAGE then Inl InvalidTotalFragments
      else Inr \<lparr>mr_message_id = mid, mr_total_fragments = tot, mr_priority = prio,
                mr_buffer = fb_new tot, mr_reserved_bytes = reserved, mr_last_activity = now\<rparr>)"

definition mr_is_received :: "message_reassembler \<Rightarrow> fragment_index \<Rightarrow> bool" where
  "mr_is_received r idx =
     (if idx \<ge> mr_total_fragments r then False else bs_get (fb_received_mask (mr_buffer r)) idx)"

definition mr_add_fragment ::
    "message_reassembler \<Rightarrow> fragment_index \<Rightarrow> bytes \<Rightarrow> instant
       \<Rightarrow> ((sequenced_error + bool) \<times> message_reassembler) panics" where
  "mr_add_fragment r idx data now =
     (let r1 = r\<lparr>mr_last_activity := now\<rparr> in
      if fb_current_size (mr_buffer r1) + length data > MAX_MESSAGE_SIZE
      then Some (Inl MessageTooLarge, r1)
      else do {
        (res, b) \<leftarrow> fb_add_fragment (mr_buffer r1) idx data;
        Some (res, r1\<lparr>mr_buffer := b\<rparr>)
      })"

definition mr_assemble :: "message_reassembler \<Rightarrow> bytes option" where
  "mr_assemble r = fb_assemble (mr_buffer r)"

definition mr_create_ack :: "message_reassembler \<Rightarrow> fragment_count \<Rightarrow> selective_ack" where
  "mr_create_ack r rwnd =
     (let base = fb_base_index (mr_buffer r) in
      \<lparr>ack_message_id = mr_message_id r, ack_base_index = base,
       ack_bitmask = bs_sack_mask (fb_received_mask (mr_buffer r)) base, ack_rwnd = rwnd\<rparr>)"

text \<open>
  The loop of \<^verbatim>\<open>create_nack\<close>: at most 128 holes below the highest received index. \<open>cur\<close> grows
  with every hole, because \<open>bs_next_zero\<close> never answers below its start.
\<close>

lemma bs_next_zero_ge: "bs_next_zero ws cur limit = Some z \<Longrightarrow> cur \<le> z \<and> z < limit"
  unfolding bs_next_zero_eq_find find_upt_eq_Some_iff by blast

function nack_loop :: "bitset \<Rightarrow> nat \<Rightarrow> nat \<Rightarrow> nat list \<Rightarrow> nat list" where
  "nack_loop msk limit cur missing =
     (case bs_next_zero msk cur limit of
        None \<Rightarrow> missing
      | Some zero_idx \<Rightarrow>
          (let missing' = missing @ [zero_idx mod 65536] in
           if length missing' \<ge> 128 then missing'
           else nack_loop msk limit (zero_idx + 1) missing'))"
  by pat_completeness auto
termination
  by (relation "measure (\<lambda>(msk, limit, cur, missing). limit - cur)")
    (auto dest: bs_next_zero_ge)

declare nack_loop.simps [simp del]

definition mr_create_nack :: "message_reassembler \<Rightarrow> fragment_index \<Rightarrow> nack option" where
  "mr_create_nack r base =
     (let missing = nack_loop (fb_received_mask (mr_buffer r)) (fb_highest_index (mr_buffer r)) base []
      in if missing \<noteq> []
         then Some \<lparr>nack_message_id = mr_message_id r, nack_missing_indices = missing\<rparr>
         else None)"

definition mr_planned_total_size :: "message_reassembler \<Rightarrow> nat" where
  "mr_planned_total_size r = fb_planned_total_size (mr_buffer r)"

section \<open>The buffer's invariant\<close>

definition stored :: "fragment_buffer \<Rightarrow> nat set" where
  "stored b = {i. i < length (fb_fragments b) \<and> fb_fragments b ! i \<noteq> None}"

definition frag_len :: "bytes option \<Rightarrow> nat" where
  "frag_len f = (case f of None \<Rightarrow> 0 | Some d \<Rightarrow> length d)"

definition fb_wf :: "fragment_buffer \<Rightarrow> bool" where
  "fb_wf b \<longleftrightarrow>
     0 < fb_total_fragments b \<and> fb_total_fragments b \<le> MAX_FRAGMENTS_PER_MESSAGE \<and>
     length (fb_fragments b) = fb_total_fragments b \<and>
     length (fb_received_mask b) = BITSET_WORDS \<and>
     bs_members (fb_received_mask b) = stored b \<and>
     fb_received_count b = card (stored b) \<and>
     fb_current_size b = sum_list (map frag_len (fb_fragments b)) \<and>
     fb_base_index b = first_idx (\<lambda>i. i \<notin> stored b) (fb_total_fragments b) \<and>
     fb_highest_index b = Max (insert 0 (stored b))"

lemmas fb_wf_facts = fb_wf_def MAX_FRAGMENTS_PER_MESSAGE_def

lemma fb_wf_get: "fb_wf b \<Longrightarrow> bs_get (fb_received_mask b) i \<longleftrightarrow> i \<in> stored b"
  by (auto simp: fb_wf_def bs_members_def)

lemma finite_stored [simp]: "finite (stored b)"
  by (simp add: stored_def)

lemma stored_less: "fb_wf b \<Longrightarrow> i \<in> stored b \<Longrightarrow> i < fb_total_fragments b"
  by (simp add: fb_wf_def stored_def)

lemma advance_base_eq:
  assumes "base \<le> tot"
  shows "(\<forall>i. base \<le> i \<and> i < advance_base msk tot base \<longrightarrow> bs_get msk i) \<and>
    base \<le> advance_base msk tot base \<and> advance_base msk tot base \<le> tot \<and>
    (advance_base msk tot base < tot \<longrightarrow> \<not> bs_get msk (advance_base msk tot base))"
  using assms
proof (induction msk tot base rule: advance_base.induct)
  case (1 msk tot base)
  show ?case
  proof (cases "base < tot \<and> bs_get msk base")
    case True
    with 1 have IH: "(\<forall>i. base + 1 \<le> i \<and> i < advance_base msk tot (base + 1) \<longrightarrow> bs_get msk i) \<and>
      base + 1 \<le> advance_base msk tot (base + 1) \<and> advance_base msk tot (base + 1) \<le> tot \<and>
      (advance_base msk tot (base + 1) < tot \<longrightarrow> \<not> bs_get msk (advance_base msk tot (base + 1)))"
      by simp
    have "advance_base msk tot base = advance_base msk tot (base + 1)"
      using True by (simp add: advance_base.simps [of msk tot base])
    moreover have "bs_get msk i" if "base \<le> i" "i < advance_base msk tot (base + 1)" for i
      using that IH True by (cases "i = base") auto
    ultimately show ?thesis using IH by auto
  next
    case False
    then have "advance_base msk tot base = base" by (subst advance_base.simps) auto
    with False 1(2) show ?thesis by auto
  qed
qed

lemma fb_new_wf [wf_intros]:
  "0 < tot \<Longrightarrow> tot \<le> MAX_FRAGMENTS_PER_MESSAGE \<Longrightarrow> fb_wf (fb_new tot)"
proof -
  assume t: "0 < tot" "tot \<le> MAX_FRAGMENTS_PER_MESSAGE"
  have s: "stored (fb_new tot) = {}" by (auto simp: stored_def fb_new_def)
  have "sum_list (map frag_len (replicate tot None)) = 0" by (simp add: frag_len_def sum_list_replicate)
  moreover have "first_idx (\<lambda>i. True) tot = 0" by (rule first_idx_eqI) auto
  ultimately show ?thesis using t s by (simp add: fb_wf_def fb_new_def)
qed

lemma fb_note_size_frame [frame]:
  "fb_fragments (fb_note_size i l b) = fb_fragments b"
  "fb_total_fragments (fb_note_size i l b) = fb_total_fragments b"
  "fb_received_mask (fb_note_size i l b) = fb_received_mask b"
  "fb_received_count (fb_note_size i l b) = fb_received_count b"
  "fb_current_size (fb_note_size i l b) = fb_current_size b"
  "fb_base_index (fb_note_size i l b) = fb_base_index b"
  "fb_highest_index (fb_note_size i l b) = fb_highest_index b"
  by (simp_all add: fb_note_size_def split: option.splits)

text \<open>The buffer after storing a new fragment, field by field.\<close>

lemma fb_add_fragment_new:
  assumes wf: "fb_wf b" and idx: "idx < fb_total_fragments b" "idx \<notin> stored b"
  obtains b' where
    "fb_add_fragment b idx data = Some (Inr (fb_is_complete b'), b')"
    "fb_fragments b' = (fb_fragments b)[idx := Some data]"
    "fb_total_fragments b' = fb_total_fragments b"
    "fb_received_mask b' = snd (bs_set (fb_received_mask b) idx)"
    "fb_received_count b' = fb_received_count b + 1"
    "fb_current_size b' = fb_current_size b + length data"
    "fb_base_index b' = (if idx = fb_base_index b
       then advance_base (fb_received_mask b') (fb_total_fragments b) (fb_base_index b + 1)
       else fb_base_index b)"
    "fb_highest_index b' = max (fb_highest_index b) idx"
    "fb_full_fragment_size b' = fb_full_fragment_size (fb_note_size idx (length data) b)"
    "fb_last_fragment_size b' = fb_last_fragment_size (fb_note_size idx (length data) b)"
proof -
  have "\<not> bs_get (fb_received_mask b) idx" "idx < length (fb_fragments b)"
    using wf idx by (auto simp: fb_wf_get) (simp add: fb_wf_def)
  with idx show ?thesis
    by (intro that [of "snd (the (fb_add_fragment b idx data))"]; cases "idx = fb_base_index b")
      (simp_all add: fb_add_fragment_def Let_def frame max_def)
qed

lemma fb_add_fragment_old:
  "fb_wf b \<Longrightarrow> idx \<in> stored b \<Longrightarrow>
     fb_add_fragment b idx data = Some (Inr (fb_is_complete b), b)"
  "idx \<ge> fb_total_fragments b \<Longrightarrow>
     fb_add_fragment b idx data = Some (Inl InvalidFragmentIndex, b)"
  by (auto simp: fb_add_fragment_def fb_wf_get dest: stored_less)

lemma stored_update:
  "idx < length (fb_fragments b) \<Longrightarrow> fb_fragments b' = (fb_fragments b)[idx := Some data] \<Longrightarrow>
     stored b' = insert idx (stored b)"
  by (auto simp: stored_def nth_list_update)

lemma frag_len_sum_update:
  "idx < length xs \<Longrightarrow> xs ! idx = None \<Longrightarrow>
     sum_list (map frag_len (xs[idx := Some data])) = sum_list (map frag_len xs) + length data"
  using sum_list_update_nat [of idx "map frag_len xs" "length data"]
  by (simp add: map_update frag_len_def)

lemma base_update:
  assumes "idx < tot" and base: "base = first_idx (\<lambda>i. i \<notin> S) tot"
    and S: "S \<subseteq> {..<tot}" "idx \<notin> S" and get: "\<And>i. bs_get msk i \<longleftrightarrow> i \<in> insert idx S"
  shows "(if idx = base then advance_base msk tot (base + 1) else base) =
    first_idx (\<lambda>i. i \<notin> insert idx S) tot"
proof (cases "idx = base")
  case True
  have le: "base + 1 \<le> tot" using True assms(1) by simp
  note adv = advance_base_eq [OF le, of msk]
  have "first_idx (\<lambda>i. i \<notin> insert idx S) tot = advance_base msk tot (base + 1)"
  proof (rule first_idx_eqI)
    fix i assume i: "i < advance_base msk tot (base + 1)"
    show "\<not> i \<notin> insert idx S"
    proof (cases "i < base")
      case True
      then show ?thesis using first_idx_before [of i "\<lambda>i. i \<notin> S" tot] base by simp
    next
      case False
      then show ?thesis using adv i get \<open>idx = base\<close> by (cases "i = base") auto
    qed
  qed (use adv get in auto)
  with True show ?thesis by simp
next
  case False
  have "first_idx (\<lambda>i. i \<notin> insert idx S) tot = base"
  proof (rule first_idx_eqI)
    show "base \<le> tot" using first_idx_le base by simp
    show "\<not> i \<notin> insert idx S" if "i < base" for i
      using first_idx_before [of i "\<lambda>i. i \<notin> S" tot] base that by simp
    show "base < tot \<longrightarrow> base \<notin> insert idx S"
      using first_idx_at [of "\<lambda>i. i \<notin> S" tot] base False by simp
  qed
  with False show ?thesis by simp
qed

lemma fb_add_fragment_new_wf:
  assumes wf: "fb_wf b" and idx: "idx < fb_total_fragments b" "idx \<notin> stored b"
    and add: "fb_add_fragment b idx data = Some (r, b')"
  shows "fb_wf b'" "stored b' = insert idx (stored b)"
    "fb_fragments b' = (fb_fragments b)[idx := Some data]"
proof -
  have len: "length (fb_fragments b) = fb_total_fragments b"
    "length (fb_received_mask b) = 16" "fb_total_fragments b \<le> 1024"
    using wf by (auto simp: fb_wf_facts)
  obtain "fb_fragments b' = (fb_fragments b)[idx := Some data]"
    "fb_total_fragments b' = fb_total_fragments b"
    "fb_received_mask b' = snd (bs_set (fb_received_mask b) idx)"
    "fb_received_count b' = fb_received_count b + 1"
    "fb_current_size b' = fb_current_size b + length data"
    "fb_base_index b' = (if idx = fb_base_index b
       then advance_base (fb_received_mask b') (fb_total_fragments b) (fb_base_index b + 1)
       else fb_base_index b)"
    "fb_highest_index b' = max (fb_highest_index b) idx"
    using fb_add_fragment_new [OF wf idx, of data] add by auto
  note b' = this
  show st: "stored b' = insert idx (stored b)" "fb_fragments b' = (fb_fragments b)[idx := Some data]"
    using stored_update b'(1) idx len by auto
  have mem: "bs_members (fb_received_mask b') = stored b'"
    using wf idx len b'(3) st(1) by (simp add: bs_members_set fb_wf_def)
  have "fb_base_index b' = first_idx (\<lambda>i. i \<notin> stored b') (fb_total_fragments b)"
    unfolding b'(6) st(1)
  proof (rule base_update)
    show "bs_get (fb_received_mask b') i \<longleftrightarrow> i \<in> insert idx (stored b)" for i
      using mem st(1) by (auto simp: bs_members_def)
  qed (use wf idx stored_less [OF wf] in \<open>auto simp: fb_wf_def\<close>)
  moreover have "fb_current_size b' = sum_list (map frag_len (fb_fragments b'))"
    using wf idx len b' by (simp add: frag_len_sum_update stored_def fb_wf_def)
  moreover have "fb_highest_index b' = Max (insert 0 (stored b'))"
    using wf b'(7) by (simp add: st fb_wf_def Max_insert insert_commute [of 0] max.commute)
  ultimately show "fb_wf b'"
    using wf idx len mem b' st(1) unfolding fb_wf_def by simp
qed

text \<open>Every call returns, keeps the invariant and performs the write-once update.\<close>

lemma fb_add_fragment_wf:
  assumes "fb_wf b"
  obtains r b' where "fb_add_fragment b idx data = Some (r, b')" "fb_wf b'"
    "fb_total_fragments b' = fb_total_fragments b"
proof (cases "idx < fb_total_fragments b \<and> idx \<notin> stored b")
  case True
  then obtain b' where "fb_add_fragment b idx data = Some (Inr (fb_is_complete b'), b')"
    "fb_total_fragments b' = fb_total_fragments b"
    using fb_add_fragment_new [OF assms, of idx data] by blast
  with True fb_add_fragment_new_wf [OF assms, of idx data] that show ?thesis by blast
next
  case False
  then show ?thesis
    using that assms fb_add_fragment_old [of b idx data] by (cases "idx \<in> stored b") auto
qed

definition fb_stored :: "fragment_buffer \<Rightarrow> nat \<rightharpoonup> bytes" where
  "fb_stored b i = (if i < length (fb_fragments b) then fb_fragments b ! i else None)"

definition write_once :: "(nat \<rightharpoonup> bytes) \<Rightarrow> nat \<Rightarrow> nat \<Rightarrow> bytes \<Rightarrow> nat \<rightharpoonup> bytes" where
  "write_once m tot i d = (if i < tot \<and> m i = None then m(i \<mapsto> d) else m)"

lemma stored_dom: "stored b = dom (fb_stored b)"
  by (auto simp: stored_def fb_stored_def split: if_splits)

lemma fb_is_complete_iff: "fb_wf b \<Longrightarrow> fb_is_complete b \<longleftrightarrow> dom (fb_stored b) = {..<fb_total_fragments b}"
proof -
  assume wf: "fb_wf b"
  have sub: "stored b \<subseteq> {..<fb_total_fragments b}" using stored_less [OF wf] by auto
  have "card (stored b) = fb_total_fragments b \<longleftrightarrow> stored b = {..<fb_total_fragments b}"
    by (metis card_lessThan card_subset_eq finite_lessThan sub)
  with wf show ?thesis by (simp add: fb_is_complete_def fb_wf_def stored_dom)
qed

lemma fb_add_fragment_refines:
  assumes "fb_wf b" and "fb_add_fragment b idx data = Some (r, b')"
  shows "fb_stored b' = write_once (fb_stored b) (fb_total_fragments b) idx data"
    and "r = (if idx \<ge> fb_total_fragments b then Inl InvalidFragmentIndex
              else Inr (dom (fb_stored b') = {..<fb_total_fragments b}))"
proof -
  have len: "length (fb_fragments b) = fb_total_fragments b" using assms(1) by (simp add: fb_wf_def)
  have "fb_stored b' = write_once (fb_stored b) (fb_total_fragments b) idx data \<and>
    r = (if idx \<ge> fb_total_fragments b then Inl InvalidFragmentIndex
              else Inr (dom (fb_stored b') = {..<fb_total_fragments b}))"
  proof (cases "idx < fb_total_fragments b \<and> idx \<notin> stored b")
    case True
    then obtain b1 where b1: "fb_add_fragment b idx data = Some (Inr (fb_is_complete b1), b1)"
      "fb_total_fragments b1 = fb_total_fragments b"
      using fb_add_fragment_new [OF assms(1), of idx data] by blast
    note new = fb_add_fragment_new_wf [OF assms(1) conjunct1 [OF True] conjunct2 [OF True] assms(2)]
    have "fb_stored b' = write_once (fb_stored b) (fb_total_fragments b) idx data"
      using True len new(3)
      by (auto simp: fb_stored_def write_once_def stored_def nth_list_update fun_eq_iff)
    with True b1 assms(2) fb_is_complete_iff [OF new(1)] show ?thesis by auto
  next
    case False
    then have "fb_stored b = write_once (fb_stored b) (fb_total_fragments b) idx data"
      by (auto simp: write_once_def stored_dom)
    with False assms fb_is_complete_iff [OF assms(1)] fb_add_fragment_old [of b idx data]
      stored_less [OF assms(1)] show ?thesis by (cases "idx \<in> stored b") auto
  qed
  then show "fb_stored b' = write_once (fb_stored b) (fb_total_fragments b) idx data"
    "r = (if idx \<ge> fb_total_fragments b then Inl InvalidFragmentIndex
              else Inr (dom (fb_stored b') = {..<fb_total_fragments b}))" by blast+
qed

section \<open>Reassembly from any arrival order\<close>

text \<open>A whole sequence of arrivals.\<close>

fun fb_adds :: "fragment_buffer \<Rightarrow> (nat \<times> bytes) list \<Rightarrow> fragment_buffer panics" where
  "fb_adds b [] = Some b"
| "fb_adds b ((i, d) # xs) = do { (_, b') \<leftarrow> fb_add_fragment b i d; fb_adds b' xs }"

lemma fb_adds_stored:
  assumes "fb_wf b" and "\<forall>i \<in> set js. i < fb_total_fragments b"
    and "\<forall>i \<in> dom (fb_stored b). fb_stored b i = Some (frag i)"
  obtains b' where "fb_adds b (map (\<lambda>i. (i, frag i)) js) = Some b'" "fb_wf b'"
    "fb_total_fragments b' = fb_total_fragments b"
    "dom (fb_stored b') = dom (fb_stored b) \<union> set js"
    "\<forall>i \<in> dom (fb_stored b'). fb_stored b' i = Some (frag i)"
  using assms
proof (induction js arbitrary: b thesis)
  case Nil
  then show ?case by simp
next
  case (Cons i js)
  obtain r b1 where b1: "fb_add_fragment b i (frag i) = Some (r, b1)" "fb_wf b1"
    "fb_total_fragments b1 = fb_total_fragments b"
    using fb_add_fragment_wf [OF Cons.prems(2)] by blast
  have st: "fb_stored b1 = write_once (fb_stored b) (fb_total_fragments b) i (frag i)"
    by (rule fb_add_fragment_refines(1) [OF Cons.prems(2) b1(1)])
  have i: "i < fb_total_fragments b" using Cons.prems(3) by simp
  have d: "dom (fb_stored b1) = insert i (dom (fb_stored b))"
    using i by (auto simp: st write_once_def)
  have v: "\<forall>k \<in> dom (fb_stored b1). fb_stored b1 k = Some (frag k)"
    using Cons.prems(4) by (auto simp: st write_once_def dom_def)
  obtain b' where b': "fb_adds b1 (map (\<lambda>i. (i, frag i)) js) = Some b'" "fb_wf b'"
    "fb_total_fragments b' = fb_total_fragments b1"
    "dom (fb_stored b') = dom (fb_stored b1) \<union> set js"
    "\<forall>i \<in> dom (fb_stored b'). fb_stored b' i = Some (frag i)"
    using Cons.IH [of b1] b1 Cons.prems(3) v by auto
  show ?case by (rule Cons.prems(1) [of b']) (use b' b1 d in auto)
qed

lemma fb_assemble_complete:
  assumes "fb_wf b" and "\<forall>i < fb_total_fragments b. fb_stored b i = Some (frag i)"
  shows "fb_assemble b = Some (concat (map frag [0..<fb_total_fragments b]))"
proof -
  have "fb_fragments b = map (\<lambda>i. Some (frag i)) [0..<fb_total_fragments b]"
    using assms by (intro nth_equalityI) (auto simp: fb_wf_def fb_stored_def)
  moreover have "fb_is_complete b"
    using assms fb_is_complete_iff [OF assms(1)] by (auto simp: fb_stored_def fb_wf_def split: if_splits)
  ultimately show ?thesis by (simp add: fb_assemble_def comp_def filter_map)
qed

text \<open>
  Fragments may arrive in any order and any number of times; once all of them have, assembling
  gives the concatenation in index order.
\<close>

lemma fb_adds_assemble:
  assumes "0 < tot" and "tot \<le> MAX_FRAGMENTS_PER_MESSAGE" and "set js = {..<tot}"
  obtains b where "fb_adds (fb_new tot) (map (\<lambda>i. (i, frag i)) js) = Some b"
    "fb_is_complete b" "fb_assemble b = Some (concat (map frag [0..<tot]))"
proof -
  have new: "fb_wf (fb_new tot)" "fb_total_fragments (fb_new tot) = tot" "dom (fb_stored (fb_new tot)) = {}"
    using fb_new_wf [OF assms(1,2)] by (auto simp: fb_new_def fb_stored_def split: if_splits)
  obtain b where b: "fb_adds (fb_new tot) (map (\<lambda>i. (i, frag i)) js) = Some b" "fb_wf b"
    "fb_total_fragments b = tot" "dom (fb_stored b) = {..<tot}"
    "\<forall>i \<in> dom (fb_stored b). fb_stored b i = Some (frag i)"
    using fb_adds_stored [OF new(1), of js frag] new assms(3) by auto
  show ?thesis
    by (rule that [OF b(1)])
      (use b fb_is_complete_iff [OF b(2)] fb_assemble_complete [OF b(2), of frag] in auto)
qed

section \<open>Acknowledgements\<close>

text \<open>The fragment indices an acknowledgement covers.\<close>

definition ack_covers :: "selective_ack \<Rightarrow> nat \<Rightarrow> bool" where
  "ack_covers a i \<longleftrightarrow> i < ack_base_index a \<or>
     (\<exists>j < 64. bit (ack_bitmask a) j \<and> i = ack_base_index a + 1 + j)"

definition mr_wf :: "message_reassembler \<Rightarrow> bool" where
  "mr_wf r \<longleftrightarrow> fb_wf (mr_buffer r) \<and> fb_total_fragments (mr_buffer r) = mr_total_fragments r"

lemma mr_new_wf [wf_intros]: "mr_new mid tot prio reserved now = Inr r \<Longrightarrow> mr_wf r"
  by (auto simp: mr_new_def mr_wf_def fb_new_wf split: if_splits) (simp add: fb_new_def)

lemma mr_add_fragment_wf:
  assumes "mr_wf r"
  obtains res r' where "mr_add_fragment r idx data now = Some (res, r')" "mr_wf r'"
    "mr_total_fragments r' = mr_total_fragments r" "mr_message_id r' = mr_message_id r"
    "mr_reserved_bytes r' = mr_reserved_bytes r" "mr_priority r' = mr_priority r"
    "mr_last_activity r' = now"
proof (cases "fb_current_size (mr_buffer r) + length data > MAX_MESSAGE_SIZE")
  case True
  then show ?thesis
    using assms that [of "Inl MessageTooLarge" "r\<lparr>mr_last_activity := now\<rparr>"]
    by (simp add: mr_add_fragment_def mr_wf_def)
next
  case False
  obtain res b where "fb_add_fragment (mr_buffer r) idx data = Some (res, b)" "fb_wf b"
    "fb_total_fragments b = fb_total_fragments (mr_buffer r)"
    using fb_add_fragment_wf [of "mr_buffer r" idx data] assms by (auto simp: mr_wf_def)
  with False assms that [of res "r\<lparr>mr_last_activity := now, mr_buffer := b\<rparr>"] show ?thesis
    by (simp add: mr_add_fragment_def mr_wf_def)
qed

lemma base_index_facts:
  assumes "fb_wf b"
  shows "fb_base_index b \<le> fb_total_fragments b" "\<And>i. i < fb_base_index b \<Longrightarrow> i \<in> stored b"
    "fb_base_index b \<notin> stored b"
proof -
  let ?P = "\<lambda>i. i \<notin> stored b" and ?t = "fb_total_fragments b"
  have base: "fb_base_index b = first_idx ?P ?t" using assms by (simp add: fb_wf_def)
  show "fb_base_index b \<le> ?t" unfolding base by (rule first_idx_le)
  show "i \<in> stored b" if "i < fb_base_index b" for i
    using first_idx_before [of i ?P ?t] that base by simp
  show "fb_base_index b \<notin> stored b"
    using first_idx_at [of ?P ?t] first_idx_le [of ?P ?t] base stored_less [OF assms]
    by (metis le_neq_implies_less less_irrefl)
qed

text \<open>
  An acknowledgement is exact in its window: it covers a fragment within 64 positions of the base
  if and only if that fragment is stored.
\<close>

lemma mr_create_ack_covers:
  assumes "mr_wf r"
  shows "ack_covers (mr_create_ack r w) i \<longleftrightarrow>
    i \<in> stored (mr_buffer r) \<and> i \<le> fb_base_index (mr_buffer r) + 64"
proof -
  let ?b = "mr_buffer r" and ?base = "fb_base_index (mr_buffer r)"
  have wf: "fb_wf ?b" using assms by (simp add: mr_wf_def)
  note base = base_index_facts [OF wf]
  have "(\<exists>j < 64. bs_get (fb_received_mask ?b) (?base + 1 + j) \<and> i = ?base + 1 + j) \<longleftrightarrow>
      i \<in> stored ?b \<and> ?base < i \<and> i \<le> ?base + 64"
    unfolding fb_wf_get [OF wf]
    by (auto intro!: exI [of _ "i - ?base - 1"])
  moreover have "ack_covers (mr_create_ack r w) i \<longleftrightarrow> i < ?base \<or>
      (\<exists>j < 64. bs_get (fb_received_mask ?b) (?base + 1 + j) \<and> i = ?base + 1 + j)"
    by (auto simp: ack_covers_def mr_create_ack_def Let_def bit_sack_mask)
  ultimately show ?thesis
    using base(2,3) by (metis linorder_neqE_nat order_less_imp_le trans_le_add1)
qed

lemma nack_loop_eq:
  "limit \<le> 65536 \<Longrightarrow> length acc < 128 \<Longrightarrow>
     nack_loop msk limit cur acc =
       acc @ take (128 - length acc) (filter (\<lambda>i. \<not> bs_get msk i) [cur..<limit])"
proof (induction msk limit cur acc rule: nack_loop.induct)
  case (1 msk limit cur acc)
  let ?P = "\<lambda>i. \<not> bs_get msk i"
  show ?case
  proof (cases "bs_next_zero msk cur limit")
    case None
    then have "filter ?P [cur..<limit] = []"
      by (auto simp: bs_next_zero_eq_find find_None_iff filter_empty_conv)
    with None show ?thesis by (subst nack_loop.simps) simp
  next
    case (Some z)
    then have z: "cur \<le> z" "z < limit" "?P z" "\<forall>j. cur \<le> j \<and> j < z \<longrightarrow> \<not> ?P j"
      unfolding bs_next_zero_eq_find find_upt_eq_Some_iff by auto
    have "[cur..<limit] = [cur..<z] @ z # [z + 1..<limit]"
      using z(1,2) upt_add_eq_append [of cur z "limit - z"] by (simp add: upt_conv_Cons)
    then have filt: "filter ?P [cur..<limit] = z # filter ?P [z + 1..<limit]"
      using z(3,4) by simp
    show ?thesis
    proof (cases "length (acc @ [z]) \<ge> 128")
      case True
      then have "128 - length acc = 1" using 1(3) by simp
      with True Some filt z 1(2) show ?thesis by (subst nack_loop.simps) simp
    next
      case False
      then have n: "128 - length acc = Suc (128 - length (acc @ [z]))" by simp
      from 1(1) [OF Some refl] False 1(2) z
      have "nack_loop msk limit (z + 1) (acc @ [z]) =
          (acc @ [z]) @ take (128 - length (acc @ [z])) (filter ?P [z + 1..<limit])" by simp
      with False Some filt z 1(2) show ?thesis
        unfolding n by (subst nack_loop.simps) (simp add: Let_def)
    qed
  qed
qed

text \<open>A negative acknowledgement lists exactly the first 128 holes below the highest fragment.\<close>

lemma highest_index_less:
  assumes "fb_wf b"
  shows "fb_highest_index b < 1024"
proof -
  have "Max (insert 0 (stored b)) < fb_total_fragments b"
    using assms stored_less [OF assms] by (subst Max_less_iff) (auto simp: fb_wf_def)
  moreover have "fb_highest_index b = Max (insert 0 (stored b))" "fb_total_fragments b \<le> 1024"
    using assms by (simp_all add: fb_wf_facts)
  ultimately show ?thesis by linarith
qed

lemma mr_create_nack_eq:
  assumes "mr_wf r"
  shows "mr_create_nack r base =
    (case filter (\<lambda>i. i \<notin> stored (mr_buffer r)) [base..<fb_highest_index (mr_buffer r)] of
       [] \<Rightarrow> None
     | missing \<Rightarrow> Some \<lparr>nack_message_id = mr_message_id r, nack_missing_indices = take 128 missing\<rparr>)"
proof -
  have wf: "fb_wf (mr_buffer r)" using assms by (simp add: mr_wf_def)
  show ?thesis
    using highest_index_less [OF wf]
    by (simp add: mr_create_nack_def nack_loop_eq fb_wf_get [OF wf] Let_def split: list.splits)
qed

section \<open>Memory estimates\<close>

lemma planned_covers_allocated:
  "0 < fb_total_fragments b \<Longrightarrow> fb_total_allocated_size b \<le> fb_planned_total_size b"
  by (simp add: fb_planned_total_size_def Let_def)

section \<open>The planned size stays small\<close>

text \<open>The limit of a message bounds every size the planned size is made of.\<close>

definition mr_sized :: "message_reassembler \<Rightarrow> bool" where
  "mr_sized r \<longleftrightarrow>
     fb_current_size (mr_buffer r) \<le> MAX_MESSAGE_SIZE \<and>
     unwrap_or (fb_full_fragment_size (mr_buffer r)) 0 \<le> MAX_MESSAGE_SIZE \<and>
     unwrap_or (fb_last_fragment_size (mr_buffer r)) 0 \<le> MAX_MESSAGE_SIZE"

lemma mr_new_sized: "mr_new mid tot prio reserved now = Inr r \<Longrightarrow> mr_sized r"
  by (auto simp: mr_new_def mr_sized_def fb_new_def unwrap_or_def split: if_splits)

lemma mr_sized_irrelevant [simp]:
  "mr_sized (r\<lparr>mr_reserved_bytes := n\<rparr>) = mr_sized r" "mr_sized (r\<lparr>mr_priority := p\<rparr>) = mr_sized r"
  "mr_sized (r\<lparr>mr_last_activity := t\<rparr>) = mr_sized r"
  by (simp_all add: mr_sized_def)

lemma fb_note_size_sizes:
  "fb_current_size (fb_note_size idx len b) = fb_current_size b"
  "unwrap_or (fb_full_fragment_size (fb_note_size idx len b)) 0 \<le> max (unwrap_or (fb_full_fragment_size b) 0) len"
  "unwrap_or (fb_last_fragment_size (fb_note_size idx len b)) 0 \<le> max (unwrap_or (fb_last_fragment_size b) 0) len"
  by (simp_all add: fb_note_size_def unwrap_or_def split: option.split)

lemma fb_add_fragment_sizes:
  assumes "fb_add_fragment b idx data = Some (res, b')"
  shows "b' = b \<or> (fb_current_size b' = fb_current_size b + length data \<and>
    unwrap_or (fb_full_fragment_size b') 0 \<le> max (unwrap_or (fb_full_fragment_size b) 0) (length data) \<and>
    unwrap_or (fb_last_fragment_size b') 0 \<le> max (unwrap_or (fb_last_fragment_size b) 0) (length data))"
proof (cases "idx \<ge> fb_total_fragments b \<or> bs_get (fb_received_mask b) idx \<or> idx \<ge> length (fb_fragments b)")
  case True
  then show ?thesis using assms by (auto simp: fb_add_fragment_def split: if_splits)
next
  case False
  let ?b1 = "fb_note_size idx (length data) b"
  have "fb_current_size b' = fb_current_size ?b1 + length data" "fb_full_fragment_size b' = fb_full_fragment_size ?b1"
    "fb_last_fragment_size b' = fb_last_fragment_size ?b1"
    using assms False by (auto simp: fb_add_fragment_def Let_def)
  then show ?thesis using fb_note_size_sizes [of idx "length data" b] by simp
qed

lemma mr_add_fragment_sized:
  assumes "mr_sized r" "mr_add_fragment r idx data now = Some (res, r')"
  shows "mr_sized r'"
proof (cases "fb_current_size (mr_buffer r) + length data > MAX_MESSAGE_SIZE")
  case True
  then show ?thesis using assms by (auto simp: mr_add_fragment_def)
next
  case False
  then obtain b where b: "fb_add_fragment (mr_buffer r) idx data = Some (res, b)" "mr_buffer r' = b"
    using assms(2) by (auto simp: mr_add_fragment_def split: bind_splits)
  then show ?thesis
    using False assms(1) fb_add_fragment_sizes [OF b(1)] by (auto simp: mr_sized_def)
qed

lemma mr_planned_small:
  assumes "mr_wf r" "mr_sized r"
  shows "mr_planned_total_size r \<le> 2 ^ 40"
proof -
  let ?b = "mr_buffer r" and ?M = "MAX_MESSAGE_SIZE"
  have t: "fb_total_fragments ?b \<le> MAX_FRAGMENTS_PER_MESSAGE" and n: "fb_received_count ?b \<le> MAX_FRAGMENTS_PER_MESSAGE"
  proof -
    have wf: "fb_wf ?b" using assms(1) by (simp add: mr_wf_def)
    then show t: "fb_total_fragments ?b \<le> MAX_FRAGMENTS_PER_MESSAGE" by (simp add: fb_wf_def)
    have "stored ?b \<subseteq> {..<fb_total_fragments ?b}" using stored_less [OF wf] by blast
    from card_mono [OF _ this] t wf show "fb_received_count ?b \<le> MAX_FRAGMENTS_PER_MESSAGE" by (simp add: fb_wf_def)
  qed
  have full: "unwrap_or (fb_full_fragment_size ?b) ESTIMATED_PAYLOAD_SIZE \<le> ?M"
    using assms(2) by (simp add: mr_sized_def unwrap_or_def limits split: option.splits)
  then have last: "unwrap_or (fb_last_fragment_size ?b) (unwrap_or (fb_full_fragment_size ?b) ESTIMATED_PAYLOAD_SIZE) \<le> ?M"
    using assms(2) by (cases "fb_last_fragment_size ?b") (simp_all add: mr_sized_def unwrap_or_def)
  let ?P = "PER_FRAGMENT_OVERHEAD" and ?F = "MAX_FRAGMENTS_PER_MESSAGE"
  let ?full = "unwrap_or (fb_full_fragment_size ?b) ESTIMATED_PAYLOAD_SIZE"
  let ?last = "unwrap_or (fb_last_fragment_size ?b) ?full"
  let ?est = "if fb_total_fragments ?b = 1 then ?last else (fb_total_fragments ?b - 1) * ?full + ?last"
  have "(fb_total_fragments ?b - 1) * ?full \<le> ?F * ?M" using t full by (intro mult_le_mono) simp_all
  with last have est: "?est \<le> ?F * ?M + ?M" by simp
  have cur: "fb_current_size ?b \<le> ?M" using assms(2) by (simp add: mr_sized_def)
  have over: "fb_total_fragments ?b * ?P \<le> ?F * ?P" "fb_received_count ?b * ?P \<le> ?F * ?P" using t n by (simp_all add: mult_le_mono1)
  have "mr_planned_total_size r \<le> max (?est + fb_total_fragments ?b * ?P) (fb_current_size ?b + fb_received_count ?b * ?P)"
    by (simp add: mr_planned_total_size_def fb_planned_total_size_def fb_total_allocated_size_def Let_def)
  also have "\<dots> \<le> ?F * ?M + ?M + ?F * ?P" using est cur over by (intro max.boundedI) linarith+
  finally have "mr_planned_total_size r \<le> ?F * ?M + ?M + ?F * ?P" .
  then show ?thesis
    by (simp add: limits PER_FRAGMENT_OVERHEAD_def FRAGMENT_STRUCT_OVERHEAD_def HEAP_OVERHEAD_ESTIMATE_def)
qed

end
