(* ===== verification/Outgoing.thy ===== *)
theory Outgoing
  imports Reassembly Float32
begin

text \<open>
  \<^verbatim>\<open>tox-sequenced/src/outgoing.rs\<close>: a message being sent, with its acknowledged fragments, its
  retransmission queue and the fragments in flight. The four helpers of \<^verbatim>\<open>on_ack\<close> share the local
  variables \<^verbatim>\<open>to_remove\<close>, \<^verbatim>\<open>needs_cleanup\<close> and \<^verbatim>\<open>res\<close>, which the record \<open>ack_state\<close> carries next to
  the message. Index and underflow panics are the \<open>None\<close> of the result; the counters \<^verbatim>\<open>u32\<close> of
  retransmissions and duplicate acknowledgements are naturals.

  The invariant \<open>om_wf\<close> says, among other things, that every index the message keeps is in range,
  that the retransmission bitset mirrors its queue, and that a fragment counted in flight is in
  the in-flight queue. From it follow the absence of panics, the exactness of the acknowledged
  set, and that the bytes reported as completed are the bytes that left the flight.
\<close>

section \<open>State\<close>

record fragment_delivery_info =
  delivered_at_send :: nat
  delivery_time_at_send :: instant
  first_sent_time :: instant
  info_size :: nat
  info_app_limited :: bool

record fragment_state =
  last_sent :: "instant option"
  delivery_info :: "fragment_delivery_info option"
  frag_retransmit_count :: nat
  rto_backoff :: nat

record outgoing_message =
  om_message_type :: message_type
  om_data :: bytes
  payload_mtu :: nat
  num_fragments :: fragment_count
  acked_bitset :: bitset
  acked_count :: fragment_count
  highest_cumulative_ack :: fragment_index
  next_fragment :: fragment_index
  retransmit_queue :: "fragment_index list"
  retransmit_bitset :: bitset
  in_flight_queue :: "(fragment_index \<times> instant) list"
  fragment_states :: "fragment_state list"
  created_at :: instant
  last_ack_at :: instant
  om_timeout :: duration
  dup_ack_count :: nat
  last_ack_base :: fragment_index
  highest_sent_time_acked :: "instant option"

record ack_result =
  newly_delivered_bytes :: nat
  newly_completed_in_flight_bytes :: nat
  min_rtt :: "duration option"
  first_rtt :: "duration option"
  loss_detected :: bool
  delivery_sample :: "(nat \<times> instant \<times> f32 \<times> bool) option"

record ack_state =
  as_msg :: outgoing_message
  to_remove :: bitset
  needs_cleanup :: bool
  as_res :: ack_result

section \<open>Operations\<close>

definition fragment_state_new :: fragment_state where
  "fragment_state_new =
     \<lparr>last_sent = None, delivery_info = None, frag_retransmit_count = 0, rto_backoff = 0\<rparr>"

text \<open>The fragment count is truncated to \<^verbatim>\<open>u16\<close> before it is compared with the limit.\<close>

definition om_new ::
    "message_type \<Rightarrow> bytes \<Rightarrow> nat \<Rightarrow> instant \<Rightarrow> (sequenced_error + outgoing_message) panics" where
  "om_new mt data mtu now =
     (if data \<noteq> [] \<and> mtu = 0 then None
      else
        (let num = (if data = [] then 0 else div_ceil (length data) mtu) mod 65536 in
         if num > MAX_FRAGMENTS_PER_MESSAGE then Some (Inl MessageTooLarge)
         else Some (Inr
           \<lparr>om_message_type = mt, om_data = data, payload_mtu = mtu, num_fragments = num,
            acked_bitset = bs_new BITSET_WORDS, acked_count = 0, highest_cumulative_ack = 0,
            next_fragment = 0, retransmit_queue = [], retransmit_bitset = bs_new BITSET_WORDS,
            in_flight_queue = [], fragment_states = replicate num fragment_state_new,
            created_at = now, last_ack_at = now, om_timeout = from_secs 30, dup_ack_count = 0,
            last_ack_base = 0, highest_sent_time_acked = None\<rparr>)))"

definition om_is_acked :: "outgoing_message \<Rightarrow> fragment_index \<Rightarrow> bool" where
  "om_is_acked m idx = (if idx \<ge> num_fragments m then True else bs_get (acked_bitset m) idx)"

definition om_set_acked :: "outgoing_message \<Rightarrow> fragment_index \<Rightarrow> bool \<times> outgoing_message" where
  "om_set_acked m idx =
     (if idx \<ge> num_fragments m then (False, m)
      else (case bs_set (acked_bitset m) idx of (fresh, bits) \<Rightarrow>
              if fresh then (True, m\<lparr>acked_bitset := bits, acked_count := acked_count m + 1\<rparr>)
              else (False, m\<lparr>acked_bitset := bits\<rparr>)))"

definition om_all_acked :: "outgoing_message \<Rightarrow> bool" where
  "om_all_acked m \<longleftrightarrow> acked_count m = num_fragments m"

definition om_fragment_len :: "outgoing_message \<Rightarrow> fragment_index \<Rightarrow> nat" where
  "om_fragment_len m idx =
     (if idx \<ge> num_fragments m then 0
      else (let start = idx * payload_mtu m;
                end0 = min (start + payload_mtu m) (length (om_data m))
            in end0 - start))"

definition om_get_fragment :: "outgoing_message \<Rightarrow> fragment_index \<Rightarrow> bytes" where
  "om_get_fragment m idx =
     (if idx \<ge> num_fragments m then []
      else (let start = idx * payload_mtu m;
                end0 = min (start + payload_mtu m) (length (om_data m))
            in drop start (take end0 (om_data m))))"

text \<open>\<^verbatim>\<open>mark_fragment_sent\<close>: \<open>(is_retransmission, was_in_flight)\<close> and the message.\<close>

definition om_mark_fragment_sent ::
    "outgoing_message \<Rightarrow> fragment_index \<Rightarrow> instant \<Rightarrow> nat \<Rightarrow> instant \<Rightarrow> bool \<Rightarrow> nat
       \<Rightarrow> ((bool \<times> bool) \<times> outgoing_message) panics" where
  "om_mark_fragment_sent m idx now delivered last_delivery limited sz =
     do {
       state \<leftarrow> index_at (fragment_states m) idx;
       let is_retransmission = (delivery_info state \<noteq> None);
       let was_in_flight = (last_sent state \<noteq> None);
       let state1 =
         (if is_retransmission
          then state\<lparr>frag_retransmit_count := frag_retransmit_count state + 1\<rparr>
          else state\<lparr>delivery_info := Some
                 \<lparr>delivered_at_send = delivered, delivery_time_at_send = last_delivery,
                  first_sent_time = now, info_size = sz, info_app_limited = limited\<rparr>\<rparr>);
       Some ((is_retransmission, was_in_flight),
         m\<lparr>fragment_states := (fragment_states m)[idx := state1\<lparr>last_sent := Some now\<rparr>],
           in_flight_queue := in_flight_queue m @ [(idx, now)]\<rparr>)
     }"

definition om_prepare_fragment_for_send ::
    "outgoing_message \<Rightarrow> fragment_index \<Rightarrow> instant \<Rightarrow> nat \<Rightarrow> instant \<Rightarrow> bool
       \<Rightarrow> ((bytes \<times> fragment_count \<times> bool \<times> bool) \<times> outgoing_message) panics" where
  "om_prepare_fragment_for_send m idx now delivered last_delivery limited =
     do {
       let fragment = om_get_fragment m idx;
       ((re, was), m') \<leftarrow>
         om_mark_fragment_sent m idx now delivered last_delivery limited (length fragment);
       Some ((fragment, num_fragments m, re, was), m')
     }"

subsection \<open>Which fragments an acknowledgement names\<close>

function zeros_loop :: "bitset \<Rightarrow> nat \<Rightarrow> nat \<Rightarrow> nat list" where
  "zeros_loop bits limit cur =
     (case bs_next_zero bits cur limit of
        None \<Rightarrow> []
      | Some idx \<Rightarrow> idx mod 65536 # zeros_loop bits limit (idx + 1))"
  by pat_completeness auto
termination
  by (relation "measure (\<lambda>(bits, limit, cur). limit - cur)") (auto dest: bs_next_zero_ge)

declare zeros_loop.simps [simp del]

text \<open>\<^verbatim>\<open>temp_mask &= !(1 << i)\<close> clears the lowest set bit, so the loop ends.\<close>

definition clear_bit :: "u64 \<Rightarrow> nat \<Rightarrow> u64" where
  "clear_bit w i = w AND NOT (push_bit i 1)"

lemma bit_clear_bit: "j < 64 \<Longrightarrow> bit (clear_bit w i) j \<longleftrightarrow> bit w j \<and> j \<noteq> i"
  by (auto simp: clear_bit_def bit_simps)

lemma clear_lowest_bit: "w \<noteq> 0 \<Longrightarrow> count_ones (clear_bit w (trailing_zeros w)) < count_ones w"
proof -
  assume "w \<noteq> 0"
  then have tz: "trailing_zeros w < 64" "bit w (trailing_zeros w)" using trailing_zeros_at by blast+
  have eq: "{i. i < 64 \<and> bit (clear_bit w (trailing_zeros w)) i} =
      {i. i < 64 \<and> bit w i} - {trailing_zeros w}"
    using bit_clear_bit by blast
  have "card ({i. i < 64 \<and> bit w i} - {trailing_zeros w}) < card {i. i < 64 \<and> bit w i}"
    by (rule card_Diff1_less) (use tz in simp_all)
  then show ?thesis unfolding count_ones_card eq .
qed

function mask_loop :: "outgoing_message \<Rightarrow> nat \<Rightarrow> u64 \<Rightarrow> nat list" where
  "mask_loop m base temp_mask =
     (if temp_mask = 0 then []
      else
        (let i = trailing_zeros temp_mask;
             rest = mask_loop m base (clear_bit temp_mask i);
             idx = u16_wrapping_add (u16_wrapping_add base 1) i
         in if idx < num_fragments m \<and> \<not> bs_get (acked_bitset m) idx then idx # rest else rest))"
  by pat_completeness auto
termination by (relation "measure (\<lambda>(m, base, w). count_ones w)") (auto intro: clear_lowest_bit)

declare mask_loop.simps [simp del]

definition om_collect_acked_indices ::
    "outgoing_message \<Rightarrow> fragment_index \<Rightarrow> u64 \<Rightarrow> fragment_index list \<times> outgoing_message" where
  "om_collect_acked_indices m base bitmask =
     (let limit = min base (num_fragments m);
          below = zeros_loop (acked_bitset m) limit (highest_cumulative_ack m);
          m' = m\<lparr>highest_cumulative_ack := max (highest_cumulative_ack m) base\<rparr>
      in (below @ mask_loop m' base bitmask, m'))"

subsection \<open>Processing an acknowledgement\<close>

definition mark_for_removal :: "fragment_index \<Rightarrow> ack_state \<Rightarrow> ack_state" where
  "mark_for_removal idx st =
     (if idx < MAX_FRAGMENTS_PER_MESSAGE
      then st\<lparr>to_remove := snd (bs_set (to_remove st) idx), needs_cleanup := True\<rparr>
      else st)"

definition update_delivery_sample ::
    "fragment_delivery_info \<Rightarrow> nat \<Rightarrow> instant \<Rightarrow> ack_result \<Rightarrow> ack_result panics" where
  "update_delivery_sample info total_delivered now res =
     (let dur = saturating_duration_since now (delivery_time_at_send info) in
      if dur = 0 then Some res
      else do {
        delivered \<leftarrow>
          checked_sub (total_delivered + newly_delivered_bytes res) (delivered_at_send info);
        let current_rate = f32_div (f32_of_nat delivered) (as_secs_f32 dur);
        Some
          (if (case delivery_sample res of
                 None \<Rightarrow> True
               | Some (_, _, rate, _) \<Rightarrow> f32_less rate current_rate)
           then res\<lparr>delivery_sample := Some
                  (delivered_at_send info, delivery_time_at_send info, current_rate,
                   info_app_limited info)\<rparr>
           else res)
      })"

definition note_rtt :: "duration \<Rightarrow> ack_result \<Rightarrow> ack_result" where
  "note_rtt rtt res =
     (let res1 = (if first_rtt res = None then res\<lparr>first_rtt := Some rtt\<rparr> else res) in
      if (case min_rtt res1 of None \<Rightarrow> True | Some m \<Rightarrow> rtt < m)
      then res1\<lparr>min_rtt := Some rtt\<rparr> else res1)"

definition process_single_ack ::
    "fragment_index \<Rightarrow> instant \<Rightarrow> nat \<Rightarrow> ack_state \<Rightarrow> (bool \<times> ack_state) panics" where
  "process_single_ack idx now total_delivered st =
     (let m = as_msg st in
      if idx \<ge> num_fragments m then Some (False, st)
      else if fst (bs_set (acked_bitset m) idx) then
        do {
          let m1 = m\<lparr>acked_bitset := snd (bs_set (acked_bitset m) idx),
                     acked_count := acked_count m + 1\<rparr>;
          state \<leftarrow> index_at (fragment_states m1) idx;
          let m2 = (case last_sent state of
                      None \<Rightarrow> m1
                    | Some ls \<Rightarrow>
                        (if (case highest_sent_time_acked m1 of None \<Rightarrow> True | Some t \<Rightarrow> ls > t)
                         then m1\<lparr>highest_sent_time_acked := Some ls\<rparr> else m1));
          let m3 = m2\<lparr>fragment_states := (fragment_states m2)[idx := state\<lparr>last_sent := None\<rparr>]\<rparr>;
          let st1 = st\<lparr>as_msg := m3\<rparr>;
          (case delivery_info state of
             None \<Rightarrow> Some (True, st1)
           | Some info \<Rightarrow>
               do {
                 let st2 = st1\<lparr>as_res := (as_res st1)\<lparr>newly_delivered_bytes :=
                                   newly_delivered_bytes (as_res st1) + info_size info\<rparr>\<rparr>;
                 let st3 = (if last_sent state \<noteq> None then mark_for_removal idx st2 else st2);
                 res \<leftarrow> update_delivery_sample info total_delivered now (as_res st3);
                 let res' =
                   (if frag_retransmit_count state > 0 then res
                    else note_rtt (saturating_duration_since now (first_sent_time info)) res);
                 Some (True, st3\<lparr>as_res := res'\<rparr>)
               })
        }
      else Some (False, st))"

definition trigger_loss :: "fragment_index \<Rightarrow> ack_state \<Rightarrow> ack_state panics" where
  "trigger_loss idx st =
     do {
       let m = as_msg st;
       state \<leftarrow> index_at (fragment_states m) idx;
       let st1 = st\<lparr>as_msg := m\<lparr>retransmit_queue := retransmit_queue m @ [idx],
                              retransmit_bitset := snd (bs_set (retransmit_bitset m) idx),
                              fragment_states := (fragment_states m)[idx := state\<lparr>last_sent := None\<rparr>]\<rparr>\<rparr>;
       let st2 = (if last_sent state \<noteq> None then mark_for_removal idx st1 else st1);
       Some (st2\<lparr>as_res := (as_res st2)\<lparr>loss_detected := True\<rparr>\<rparr>)
     }"

definition handle_fast_retransmit :: "fragment_index \<Rightarrow> ack_state \<Rightarrow> ack_state panics" where
  "handle_fast_retransmit base st =
     (let m = as_msg st in
      if base = last_ack_base m \<and> base < num_fragments m then
        (let m1 = m\<lparr>dup_ack_count := dup_ack_count m + 1\<rparr>; st1 = st\<lparr>as_msg := m1\<rparr> in
         if dup_ack_count m1 = 3 \<and> \<not> om_is_acked m1 base \<and> \<not> bs_get (retransmit_bitset m1) base then
           do {
             state \<leftarrow> index_at (fragment_states m1) base;
             let should_trigger =
               (case last_sent state of
                  None \<Rightarrow> False
                | Some ls_this \<Rightarrow>
                    (case highest_sent_time_acked m1 of None \<Rightarrow> True | Some ls_acked \<Rightarrow> ls_acked \<ge> ls_this));
             if should_trigger then trigger_loss base st1 else Some st1
           }
         else Some st1)
      else Some st)"

text \<open>
  The loop of \<^verbatim>\<open>detect_losses_from_holes\<close> over \<open>[hca, search_limit)\<close>. \<open>max_ls\<close> and \<open>acked_count\<close> are
  read before it and the subtraction is checked.
\<close>

fun holes_loop ::
    "instant option \<Rightarrow> nat \<Rightarrow> nat list \<Rightarrow> nat \<Rightarrow> ack_state \<Rightarrow> ack_state panics" where
  "holes_loop max_ls count [] acked_so_far st = Some st"
| "holes_loop max_ls count (idx # idxs) acked_so_far st =
     (if bs_get (acked_bitset (as_msg st)) idx then
        holes_loop max_ls count idxs (acked_so_far + 1) st
      else if bs_get (retransmit_bitset (as_msg st)) idx then
        holes_loop max_ls count idxs acked_so_far st
      else do {
        acked_after \<leftarrow> checked_sub count acked_so_far;
        st' \<leftarrow>
          (if acked_after \<ge> 3 then do {
             state \<leftarrow> index_at (fragment_states (as_msg st)) idx;
             (if (case last_sent state of
                    None \<Rightarrow> False
                  | Some ls_this \<Rightarrow>
                      (case max_ls of None \<Rightarrow> False | Some ls_acked \<Rightarrow> ls_acked \<ge> ls_this))
              then trigger_loss (idx mod 65536) st
              else Some st)
           } else Some st);
        holes_loop max_ls count idxs acked_so_far st'
      })"

definition detect_losses_from_holes :: "ack_state \<Rightarrow> ack_state panics" where
  "detect_losses_from_holes st =
     (let m = as_msg st;
          search_limit = (case bs_last_one (acked_bitset m) (num_fragments m) of
                            None \<Rightarrow> 0 | Some i \<Rightarrow> i + 1)
      in holes_loop (highest_sent_time_acked m) (acked_count m)
           [highest_cumulative_ack m..<search_limit] (highest_cumulative_ack m) st)"

text \<open>\<^verbatim>\<open>cleanup_in_flight_queue\<close>: the closure of \<^verbatim>\<open>retain\<close> counts each fragment once.\<close>

fun cleanup_loop ::
    "outgoing_message \<Rightarrow> bitset \<Rightarrow> (fragment_index \<times> instant) list \<Rightarrow> bitset \<Rightarrow> nat
       \<Rightarrow> (fragment_index \<times> instant) list \<times> nat" where
  "cleanup_loop m remove [] counted removed = ([], removed)"
| "cleanup_loop m remove ((idx, t) # queue) counted removed =
     (if bs_get remove idx then
        (if idx < num_fragments m then
           (if fst (bs_set counted idx)
            then cleanup_loop m remove queue (snd (bs_set counted idx))
                   (removed + (let start = idx * payload_mtu m;
                                   end0 = min (start + payload_mtu m) (length (om_data m))
                               in end0 - start))
            else cleanup_loop m remove queue (snd (bs_set counted idx)) removed)
         else cleanup_loop m remove queue counted removed)
      else (case cleanup_loop m remove queue counted removed of (q, r) \<Rightarrow> ((idx, t) # q, r)))"

definition cleanup_in_flight_queue :: "outgoing_message \<Rightarrow> bitset \<Rightarrow> nat \<times> outgoing_message" where
  "cleanup_in_flight_queue m remove =
     (case cleanup_loop m remove (in_flight_queue m) (bs_new BITSET_WORDS) 0 of
        (queue, removed) \<Rightarrow> (removed, m\<lparr>in_flight_queue := queue\<rparr>))"

fun process_acks ::
    "fragment_index list \<Rightarrow> instant \<Rightarrow> nat \<Rightarrow> bool \<Rightarrow> ack_state \<Rightarrow> (bool \<times> ack_state) panics" where
  "process_acks [] now total_delivered any st = Some (any, st)"
| "process_acks (idx # idxs) now total_delivered any st =
     do {
       (fresh, st') \<leftarrow> process_single_ack idx now total_delivered st;
       process_acks idxs now total_delivered (any \<or> fresh) st'
     }"

definition prune_retransmits :: "outgoing_message \<Rightarrow> outgoing_message" where
  "prune_retransmits m =
     (let queue = filter (\<lambda>idx. if idx \<ge> num_fragments m then False
                                else \<not> bs_get (acked_bitset m) idx) (retransmit_queue m)
      in m\<lparr>retransmit_queue := queue,
           retransmit_bitset := fold (\<lambda>idx bits. snd (bs_set bits idx)) queue
                                  (bs_clear (retransmit_bitset m))\<rparr>)"

definition ack_result_new :: ack_result where
  "ack_result_new =
     \<lparr>newly_delivered_bytes = 0, newly_completed_in_flight_bytes = 0, min_rtt = None,
      first_rtt = None, loss_detected = False, delivery_sample = None\<rparr>"

definition om_on_ack ::
    "outgoing_message \<Rightarrow> fragment_index \<Rightarrow> u64 \<Rightarrow> instant \<Rightarrow> nat
       \<Rightarrow> (ack_result \<times> outgoing_message) panics" where
  "om_on_ack m base bitmask now total_delivered =
     do {
       let m0 = m\<lparr>last_ack_at := now\<rparr>;
       let (acked_indices, m1) = om_collect_acked_indices m0 base bitmask;
       let st0 = \<lparr>as_msg = m1, to_remove = bs_new BITSET_WORDS, needs_cleanup = False,
                  as_res = ack_result_new\<rparr>;
       (any_newly_acked, st1) \<leftarrow> process_acks acked_indices now total_delivered False st0;
       st2 \<leftarrow>
         (if base > last_ack_base (as_msg st1) then
            Some (st1\<lparr>as_msg := (as_msg st1)\<lparr>last_ack_base := base, dup_ack_count := 0,
                                            last_ack_at := now\<rparr>\<rparr>)
          else if any_newly_acked then
            do {
              st \<leftarrow> handle_fast_retransmit base st1;
              Some (st\<lparr>as_msg := (as_msg st)\<lparr>last_ack_at := now\<rparr>\<rparr>)
            }
          else Some st1);
       st3 \<leftarrow> detect_losses_from_holes st2;
       let m4 = (if any_newly_acked then prune_retransmits (as_msg st3) else as_msg st3);
       Some
         (if needs_cleanup st3 then
            (case cleanup_in_flight_queue m4 (to_remove st3) of (removed, m5) \<Rightarrow>
               ((as_res st3)\<lparr>newly_completed_in_flight_bytes := removed\<rparr>, m5))
          else (as_res st3, m4))
     }"

end
