(* ===== verification/Scheduler.thy ===== *)
theory Scheduler
  imports Prelude "HOL-Library.Multiset"
begin

text \<open>
  \<^verbatim>\<open>tox-sequenced/src/scheduler.rs\<close>: deficit round robin over five priority levels. The closure
  \<^verbatim>\<open>is_ready\<close> of \<^verbatim>\<open>next_message\<close> reads session state it does not change, so it is a function
  from message ids to the size of the next fragment.

  Besides the structural invariant, the development shows that the scheduler never loses or
  invents a message, that it picks only ready ones, and that it cannot starve: although a single
  call may return nothing while a message is ready (its level's deficit is too small), among
  33 consecutive calls at least one succeeds.
\<close>

section \<open>State and operations\<close>

definition NUM_PRIORITIES :: nat where "NUM_PRIORITIES = 5"

definition DEFAULT_QUANTUMS :: "int list" where
  "DEFAULT_QUANTUMS = [4096, 2048, 1500, 1024, 512]"

record scheduler =
  deficits :: "int list"
  quantums :: "int list"
  active_queues :: "u32 list list"
  active_levels :: "nat list"
  needs_quantum :: "bool list"

definition sched_new :: scheduler where
  "sched_new =
     \<lparr>deficits = replicate NUM_PRIORITIES 0, quantums = DEFAULT_QUANTUMS,
      active_queues = replicate NUM_PRIORITIES [], active_levels = [],
      needs_quantum = replicate NUM_PRIORITIES True\<rparr>"

definition retain_other :: "u32 \<Rightarrow> u32 list \<Rightarrow> u32 list" where
  "retain_other mid queue = filter (\<lambda>i. i \<noteq> mid) queue"

definition sched_update_message :: "scheduler \<Rightarrow> u32 \<Rightarrow> nat \<Rightarrow> scheduler" where
  "sched_update_message s mid prio =
     (let p = min prio (NUM_PRIORITIES - 1);
          s1 = (if p \<in> set (active_levels s) then s
                else s\<lparr>active_levels := (if p \<le> 1 then p # active_levels s
                                          else active_levels s @ [p]),
                       needs_quantum := (needs_quantum s)[p := True]\<rparr>);
          queues = map (\<lambda>(i, queue). if i \<noteq> p then retain_other mid queue else queue)
                     (enumerate 0 (active_queues s1));
          queues' = (if mid \<in> set (queues ! p) then queues else queues[p := queues ! p @ [mid]])
      in s1\<lparr>active_queues := queues'\<rparr>)"

text \<open>One iteration of the loop of \<^verbatim>\<open>remove_message\<close>, and the loop.\<close>

definition remove_from_level :: "u32 \<Rightarrow> nat \<Rightarrow> scheduler \<Rightarrow> scheduler" where
  "remove_from_level mid p s =
     (let queue = retain_other mid (active_queues s ! p);
          s1 = s\<lparr>active_queues := (active_queues s)[p := queue]\<rparr>
      in if queue = [] then
           s1\<lparr>deficits := (deficits s1)[p := 0],
              active_levels := filter (\<lambda>level. level \<noteq> p) (active_levels s1),
              needs_quantum := (needs_quantum s1)[p := True]\<rparr>
         else s1)"

definition sched_remove_message :: "scheduler \<Rightarrow> u32 \<Rightarrow> scheduler" where
  "sched_remove_message s mid = fold (remove_from_level mid) [0..<length (active_queues s)] s"

text \<open>\<^verbatim>\<open>size as i32\<close>.\<close>

definition as_i32 :: "nat \<Rightarrow> int" where
  "as_i32 n = (int n + 2 ^ 31) mod 2 ^ 32 - 2 ^ 31"

datatype level_result =
    Served u32 nat "u32 list"
  | Exhausted "u32 list"
  | NoneReady "u32 list"

text \<open>The inner loop: rotate the level's queue until a ready message is in front.\<close>

fun serve_level :: "(u32 \<Rightarrow> nat option) \<Rightarrow> int \<Rightarrow> nat \<Rightarrow> u32 list \<Rightarrow> level_result" where
  "serve_level is_ready deficit 0 queue = NoneReady queue"
| "serve_level is_ready deficit (Suc n) queue =
     (case is_ready (hd queue) of
        Some sz \<Rightarrow>
          if deficit \<ge> as_i32 sz then Served (hd queue) sz (rotate1 queue)
          else Exhausted queue
      | None \<Rightarrow> serve_level is_ready deficit n (rotate1 queue))"

definition level_deficit :: "scheduler \<Rightarrow> nat \<Rightarrow> int" where
  "level_deficit s p =
     (if needs_quantum s ! p then min (deficits s ! p + quantums s ! p) 16384 else deficits s ! p)"

fun next_loop :: "(u32 \<Rightarrow> nat option) \<Rightarrow> nat \<Rightarrow> scheduler \<Rightarrow> u32 option \<times> scheduler" where
  "next_loop is_ready 0 s = (None, s)"
| "next_loop is_ready (Suc n) s =
     (case active_levels s of
        [] \<Rightarrow> (None, s)
      | p # levels \<Rightarrow>
          (let queue = active_queues s ! p in
           if queue = [] then
             next_loop is_ready n
               (s\<lparr>active_levels := levels, deficits := (deficits s)[p := 0],
                  needs_quantum := (needs_quantum s)[p := True]\<rparr>)
           else
             (let d = level_deficit s p in
              case serve_level is_ready d (length queue) queue of
                Served mid sz queue' \<Rightarrow>
                  (let d' = d - as_i32 sz in
                   (Some mid,
                    s\<lparr>deficits := (deficits s)[p := d'],
                       active_queues := (active_queues s)[p := queue'],
                       active_levels := (if d' > 0 then p # levels else levels @ [p]),
                       needs_quantum := (needs_quantum s)[p := \<not> d' > 0]\<rparr>))
              | Exhausted queue' \<Rightarrow>
                  next_loop is_ready n
                    (s\<lparr>deficits := (deficits s)[p := d],
                       active_queues := (active_queues s)[p := queue'],
                       active_levels := levels @ [p],
                       needs_quantum := (needs_quantum s)[p := True]\<rparr>)
              | NoneReady queue' \<Rightarrow>
                  next_loop is_ready n
                    (s\<lparr>deficits := (deficits s)[p := d],
                       active_queues := (active_queues s)[p := queue'],
                       active_levels := levels @ [p],
                       needs_quantum := (needs_quantum s)[p := True]\<rparr>))))"

definition sched_next_message ::
    "scheduler \<Rightarrow> (u32 \<Rightarrow> nat option) \<Rightarrow> u32 option \<times> scheduler" where
  "sched_next_message s is_ready = next_loop is_ready (length (active_levels s)) s"

section \<open>The invariant\<close>

definition sched_wf :: "scheduler \<Rightarrow> bool" where
  "sched_wf s \<longleftrightarrow>
     length (deficits s) = NUM_PRIORITIES \<and> quantums s = DEFAULT_QUANTUMS \<and>
     length (active_queues s) = NUM_PRIORITIES \<and> length (needs_quantum s) = NUM_PRIORITIES \<and>
     distinct (active_levels s) \<and> set (active_levels s) \<subseteq> {..<NUM_PRIORITIES} \<and>
     (\<forall>p < NUM_PRIORITIES. distinct (active_queues s ! p)) \<and>
     (\<forall>p < NUM_PRIORITIES. \<forall>q < NUM_PRIORITIES. p \<noteq> q \<longrightarrow>
        set (active_queues s ! p) \<inter> set (active_queues s ! q) = {}) \<and>
     (\<forall>p < NUM_PRIORITIES. active_queues s ! p \<noteq> [] \<longrightarrow> p \<in> set (active_levels s))"

definition deficits_bounded :: "scheduler \<Rightarrow> bool" where
  "deficits_bounded s \<longleftrightarrow> (\<forall>d \<in> set (deficits s). 0 \<le> d \<and> d \<le> 16384)"

definition queued :: "scheduler \<Rightarrow> nat \<Rightarrow> u32 multiset" where
  "queued s p = mset (active_queues s ! p)"

definition scheduled :: "scheduler \<Rightarrow> u32 set" where
  "scheduled s = \<Union> (set ` set (active_queues s))"

section \<open>Preservation\<close>

lemma sched_new_wf [wf_intros]: "sched_wf sched_new"
  by (simp add: sched_wf_def sched_new_def NUM_PRIORITIES_def DEFAULT_QUANTUMS_def)

lemma sched_wf_lengths:
  assumes "sched_wf s"
  shows "length (deficits s) = 5" "length (active_queues s) = 5" "length (needs_quantum s) = 5"
    "quantums s = DEFAULT_QUANTUMS" "\<And>p. p \<in> set (active_levels s) \<Longrightarrow> p < 5"
  using assms by (auto simp: sched_wf_def NUM_PRIORITIES_def)

lemma set_retain_other [simp]: "set (retain_other mid q) = set q - {mid}"
  by (auto simp: retain_other_def)

lemma distinct_retain_other [simp]: "distinct q \<Longrightarrow> distinct (retain_other mid q)"
  by (simp add: retain_other_def)

text \<open>The queues after \<^verbatim>\<open>update_message\<close>.\<close>

lemma update_queues:
  assumes "length (active_queues s) = 5" and "p = min prio 4" and "i < 5"
  shows "active_queues (sched_update_message s mid prio) ! i =
    (if i \<noteq> p then retain_other mid (active_queues s ! i)
     else if mid \<in> set (active_queues s ! p) then active_queues s ! p
     else active_queues s ! p @ [mid])"
  using assms
  by (auto simp: sched_update_message_def NUM_PRIORITIES_def Let_def nth_list_update
      nth_enumerate_eq)

lemma sched_update_message_wf [wf_intros]:
  assumes "sched_wf s"
  shows "sched_wf (sched_update_message s mid prio)"
proof -
  define p where "p = min prio 4"
  have p: "p < 5" by (simp add: p_def)
  let ?s = "sched_update_message s mid prio"
  note len = sched_wf_lengths [OF assms]
  note q = update_queues [OF len(2) p_def]
  have lev: "active_levels ?s = (if p \<in> set (active_levels s) then active_levels s
      else if p \<le> 1 then p # active_levels s else active_levels s @ [p])"
    by (simp add: sched_update_message_def NUM_PRIORITIES_def Let_def flip: p_def)
  have "length (active_queues ?s) = 5" "length (needs_quantum ?s) = 5" "deficits ?s = deficits s"
    "quantums ?s = quantums s"
    using len by (simp_all add: sched_update_message_def Let_def)
  moreover have "distinct (active_levels ?s)" "set (active_levels ?s) \<subseteq> {..<5}"
    "set (active_levels ?s) = insert p (set (active_levels s))"
    using assms p by (auto simp: lev sched_wf_def NUM_PRIORITIES_def)
  moreover have "\<forall>i < 5. distinct (active_queues ?s ! i)"
    using assms p by (auto simp: q sched_wf_def NUM_PRIORITIES_def)
  moreover have "\<forall>i < 5. \<forall>j < 5. i \<noteq> j \<longrightarrow>
      set (active_queues ?s ! i) \<inter> set (active_queues ?s ! j) = {}"
  proof (intro allI impI)
    fix i j :: nat
    assume ij: "i < 5" "j < 5" "i \<noteq> j"
    have sets: "set (active_queues ?s ! k) =
        (if k = p then insert mid (set (active_queues s ! k)) else set (active_queues s ! k) - {mid})"
      if "k < 5" for k using q [OF that] by auto
    have "set (active_queues s ! i) \<inter> set (active_queues s ! j) = {}"
      using assms ij by (simp add: sched_wf_def NUM_PRIORITIES_def)
    with ij show "set (active_queues ?s ! i) \<inter> set (active_queues ?s ! j) = {}"
      by (simp add: sets) blast
  qed
  moreover have "\<forall>i < 5. active_queues ?s ! i \<noteq> [] \<longrightarrow> i \<in> insert p (set (active_levels s))"
    using assms by (auto simp: q sched_wf_def NUM_PRIORITIES_def retain_other_def)
  ultimately show ?thesis
    using len by (simp add: sched_wf_def NUM_PRIORITIES_def)
qed

lemma remove_from_level_queues:
  "active_queues (remove_from_level mid p s) =
     (active_queues s)[p := retain_other mid (active_queues s ! p)]"
  by (simp add: remove_from_level_def Let_def)

lemma remove_from_level_levels:
  "active_levels (remove_from_level mid p s) =
     (if retain_other mid (active_queues s ! p) = []
      then filter (\<lambda>level. level \<noteq> p) (active_levels s) else active_levels s)"
  by (simp add: remove_from_level_def Let_def)

lemma remove_from_level_wf:
  assumes "sched_wf s" and "p < 5"
  shows "sched_wf (remove_from_level mid p s)"
proof -
  let ?s = "remove_from_level mid p s"
  note len = sched_wf_lengths [OF assms(1)]
  have q: "active_queues ?s ! i =
      (if i = p then retain_other mid (active_queues s ! i) else active_queues s ! i)" for i
    using assms len by (simp add: remove_from_level_queues nth_list_update)
  have "length (deficits ?s) = 5" "quantums ?s = DEFAULT_QUANTUMS"
    "length (active_queues ?s) = 5" "length (needs_quantum ?s) = 5"
    using len by (simp_all add: remove_from_level_def Let_def)
  moreover have "distinct (active_levels ?s)" "set (active_levels ?s) \<subseteq> {..<5}"
    using assms by (auto simp: remove_from_level_levels sched_wf_def NUM_PRIORITIES_def)
  moreover have "\<forall>i < 5. distinct (active_queues ?s ! i)"
    using assms by (auto simp: q sched_wf_def NUM_PRIORITIES_def)
  moreover have "\<forall>i < 5. \<forall>j < 5. i \<noteq> j \<longrightarrow>
      set (active_queues ?s ! i) \<inter> set (active_queues ?s ! j) = {}"
  proof (intro allI impI)
    fix i j :: nat
    assume "i < 5" "j < 5" "i \<noteq> j"
    then have "set (active_queues s ! i) \<inter> set (active_queues s ! j) = {}"
      using assms by (simp add: sched_wf_def NUM_PRIORITIES_def)
    then show "set (active_queues ?s ! i) \<inter> set (active_queues ?s ! j) = {}"
      by (simp add: q) blast
  qed
  moreover have "\<forall>i < 5. active_queues ?s ! i \<noteq> [] \<longrightarrow> i \<in> set (active_levels ?s)"
    using assms
    by (auto simp: q remove_from_level_levels sched_wf_def NUM_PRIORITIES_def retain_other_def)
  ultimately show ?thesis by (simp add: sched_wf_def NUM_PRIORITIES_def)
qed

lemma remove_fold:
  "sched_wf s \<Longrightarrow> k \<le> 5 \<Longrightarrow>
     sched_wf (fold (remove_from_level mid) [0..<k] s) \<and>
     (\<forall>i < 5. active_queues (fold (remove_from_level mid) [0..<k] s) ! i =
        (if i < k then retain_other mid (active_queues s ! i) else active_queues s ! i))"
proof (induction k)
  case (Suc k)
  let ?s = "fold (remove_from_level mid) [0..<k] s"
  have IH: "sched_wf ?s" "\<forall>i < 5. active_queues ?s ! i =
      (if i < k then retain_other mid (active_queues s ! i) else active_queues s ! i)"
    using Suc by auto
  have "k < 5" using Suc.prems by simp
  with IH remove_from_level_wf [OF IH(1) \<open>k < 5\<close>, of mid] show ?case
    by (auto simp: nth_list_update sched_wf_lengths remove_from_level_queues less_Suc_eq)
qed simp

lemma sched_remove_message_wf [wf_intros]: "sched_wf s \<Longrightarrow> sched_wf (sched_remove_message s mid)"
  using remove_fold [of s 5 mid] by (simp add: sched_remove_message_def sched_wf_lengths)

lemma remove_queues:
  "sched_wf s \<Longrightarrow> i < 5 \<Longrightarrow>
     active_queues (sched_remove_message s mid) ! i = retain_other mid (active_queues s ! i)"
  using remove_fold [of s 5 mid] by (simp add: sched_remove_message_def sched_wf_lengths)

section \<open>One level\<close>

lemma serve_level_Served:
  "serve_level f d n q = Served m sz q' \<Longrightarrow> n \<le> length q \<Longrightarrow>
     m \<in> set q \<and> f m = Some sz \<and> as_i32 sz \<le> d \<and> mset q' = mset q"
proof (induction n arbitrary: q)
  case (Suc n)
  then obtain x xs where q: "q = x # xs" by (cases q) auto
  show ?case
  proof (cases "f x")
    case None
    with Suc.IH [of "xs @ [x]"] Suc.prems q show ?thesis by auto
  next
    case (Some a)
    with Suc.prems q show ?thesis by (auto split: if_splits)
  qed
qed simp

lemma serve_level_Exhausted:
  "serve_level f d n q = Exhausted q' \<Longrightarrow> n \<le> length q \<Longrightarrow>
     mset q' = mset q \<and> (\<exists>m \<in> set q. \<exists>sz. f m = Some sz \<and> d < as_i32 sz)"
proof (induction n arbitrary: q)
  case (Suc n)
  then obtain x xs where q: "q = x # xs" by (cases q) auto
  show ?case
  proof (cases "f x")
    case None
    with Suc.IH [of "xs @ [x]"] Suc.prems q show ?thesis by auto
  next
    case (Some a)
    with Suc.prems q show ?thesis by (auto split: if_splits)
  qed
qed simp

lemma serve_level_NoneReady:
  "serve_level f d n q = NoneReady q' \<Longrightarrow> n \<le> length q \<Longrightarrow>
     mset q' = mset q \<and> (\<forall>m \<in> set (take n q). f m = None)"
proof (induction n arbitrary: q)
  case (Suc n)
  then obtain x xs where q: "q = x # xs" by (cases q) auto
  with Suc.prems have "f x = None" "serve_level f d n (xs @ [x]) = NoneReady q'"
    by (auto split: option.splits if_splits)
  with Suc.IH [of "xs @ [x]"] Suc.prems q show ?case by auto
qed simp

lemmas serve_level_facts = serve_level_Served serve_level_Exhausted serve_level_NoneReady

lemma mset_eq_facts:
  "mset q' = mset q \<Longrightarrow> set q' = set q" "mset q' = mset q \<Longrightarrow> distinct q' = distinct q"
  "mset q' = mset q \<Longrightarrow> (q' = []) = (q = [])"
  by (auto dest: mset_eq_setD mset_eq_imp_distinct_iff)

lemma queued_update:
  "mset q' = mset (active_queues s ! p) \<Longrightarrow>
     mset ((active_queues s)[p := q'] ! i) = mset (active_queues s ! i)"
  by (cases "p < length (active_queues s)") (auto simp: nth_list_update list_update_beyond)

text \<open>What a visit of one level leaves well-formed.\<close>

lemma visit_wf:
  assumes wf: "sched_wf s" and lev: "active_levels s = p # levels"
    and q: "mset q' = mset (active_queues s ! p)"
    and lev': "levels' = p # levels \<or> levels' = levels @ [p]"
  shows "sched_wf (s\<lparr>deficits := (deficits s)[p := d], active_queues := (active_queues s)[p := q'],
    active_levels := levels', needs_quantum := (needs_quantum s)[p := b]\<rparr>)"
proof -
  have sets: "set ((active_queues s)[p := q'] ! i) = set (active_queues s ! i)"
    "distinct ((active_queues s)[p := q'] ! i) = distinct (active_queues s ! i)"
    "((active_queues s)[p := q'] ! i = []) = (active_queues s ! i = [])" for i
    using mset_eq_facts [OF queued_update [OF q]] by blast+
  have "set levels' = set (active_levels s)" "distinct levels' = distinct (active_levels s)"
    using lev lev' by auto
  with wf show ?thesis by (simp add: sched_wf_def sets)
qed

lemma drop_level_wf:
  assumes "sched_wf s" and "active_levels s = p # levels" and "active_queues s ! p = []"
  shows "sched_wf (s\<lparr>active_levels := levels, deficits := (deficits s)[p := d],
    needs_quantum := (needs_quantum s)[p := b]\<rparr>)"
  using assms by (auto simp: sched_wf_def)

section \<open>A whole call\<close>

lemma next_loop_wf:
  "sched_wf s \<Longrightarrow> next_loop f n s = (r, s') \<Longrightarrow> sched_wf s' \<and> (\<forall>p. queued s' p = queued s p)"
proof (induction n arbitrary: s)
  case (Suc n)
  show ?case
  proof (cases "active_levels s")
    case Nil
    with Suc.prems show ?thesis by simp
  next
    case (Cons p levels)
    let ?q = "active_queues s ! p"
    let ?r = "serve_level f (level_deficit s p) (length ?q) ?q"
    show ?thesis
    proof (cases "?q = []")
      case True
      with Suc.IH [OF drop_level_wf [OF Suc.prems(1) Cons True]] Suc.prems(2) Cons show ?thesis
        by (simp add: Let_def queued_def)
    next
      case False
      show ?thesis
      proof (cases ?r)
        case (Served m sz q')
        with Suc.prems False Cons serve_level_Served [OF Served] visit_wf [OF Suc.prems(1) Cons]
        show ?thesis by (auto simp: Let_def queued_def queued_update)
      next
        case (Exhausted q')
        from serve_level_Exhausted [OF this] have q: "mset q' = mset ?q" by simp
        from Suc.IH [OF visit_wf [OF Suc.prems(1) Cons q disjI2 [OF refl]]]
          Suc.prems(2) False Cons Exhausted q
        show ?thesis by (simp add: Let_def queued_def queued_update)
      next
        case (NoneReady q')
        from serve_level_NoneReady [OF this] have q: "mset q' = mset ?q" by simp
        from Suc.IH [OF visit_wf [OF Suc.prems(1) Cons q disjI2 [OF refl]]]
          Suc.prems(2) False Cons NoneReady q
        show ?thesis by (simp add: Let_def queued_def queued_update)
      qed
    qed
  qed
qed simp

lemma sched_next_message_wf [wf_intros]:
  "sched_wf s \<Longrightarrow> sched_wf (snd (sched_next_message s f))"
  using next_loop_wf [of s f _ "fst (sched_next_message s f)" "snd (sched_next_message s f)"]
  by (simp add: sched_next_message_def)

text \<open>
  The three ways one iteration goes: an empty level is dropped, a message is served, or the
  level is put back and the loop continues.
\<close>

lemma next_loop_Suc_cases:
  assumes "next_loop f (Suc n) s = (r, s')" and "active_levels s = p # levels"
  obtains
    (drop) "active_queues s ! p = []"
      "next_loop f n (s\<lparr>active_levels := levels, deficits := (deficits s)[p := 0],
         needs_quantum := (needs_quantum s)[p := True]\<rparr>) = (r, s')"
  | (served) m sz q' where "m \<in> set (active_queues s ! p)" "f m = Some sz" "r = Some m"
      "as_i32 sz \<le> level_deficit s p" "mset q' = mset (active_queues s ! p)"
      "deficits s' = (deficits s)[p := level_deficit s p - as_i32 sz]"
      "active_queues s' = (active_queues s)[p := q']"
  | (putback) q' where "mset q' = mset (active_queues s ! p)"
      "(\<forall>m \<in> set (active_queues s ! p). f m = None) \<or>
       (\<exists>m \<in> set (active_queues s ! p). \<exists>sz. f m = Some sz \<and> level_deficit s p < as_i32 sz)"
      "next_loop f n (s\<lparr>deficits := (deficits s)[p := level_deficit s p],
         active_queues := (active_queues s)[p := q'], active_levels := levels @ [p],
         needs_quantum := (needs_quantum s)[p := True]\<rparr>) = (r, s')"
proof (cases "active_queues s ! p = []")
  case True
  then show ?thesis using assms by (intro drop) (auto simp: Let_def)
next
  case False
  let ?q = "active_queues s ! p"
  show ?thesis
  proof (cases "serve_level f (level_deficit s p) (length ?q) ?q")
    case (Served m sz q')
    show ?thesis
      using assms False Served serve_level_Served [OF Served]
      by (intro served [of m sz q']) (auto simp: Let_def)
  next
    case (Exhausted q')
    show ?thesis
      using assms False Exhausted serve_level_Exhausted [OF Exhausted]
      by (intro putback [of q']) (auto simp: Let_def)
  next
    case (NoneReady q')
    show ?thesis
      using assms False NoneReady serve_level_NoneReady [OF NoneReady]
      by (intro putback [of q']) (auto simp: Let_def)
  qed
qed

lemma next_loop_picks_ready:
  "sched_wf s \<Longrightarrow> next_loop f n s = (Some m, s') \<Longrightarrow>
     \<exists>p < 5. m \<in> set (active_queues s ! p) \<and> f m \<noteq> None"
proof (induction n arbitrary: s)
  case (Suc n)
  obtain p levels where lev: "active_levels s = p # levels"
    using Suc.prems by (cases "active_levels s") auto
  have "p < 5" using sched_wf_lengths(5) [OF Suc.prems(1)] lev by simp
  from Suc.prems(2) lev show ?case
  proof (cases rule: next_loop_Suc_cases)
    case drop
    from Suc.IH [OF drop_level_wf [OF Suc.prems(1) lev drop(1)] drop(2)] show ?thesis by simp
  next
    case (served m' sz q')
    with \<open>p < 5\<close> show ?thesis by auto
  next
    case (putback q')
    from Suc.IH [OF visit_wf [OF Suc.prems(1) lev putback(1) disjI2 [OF refl]] putback(3)]
    show ?thesis by (simp add: mset_eq_setD [OF queued_update [OF putback(1)]])
  qed
qed simp

text \<open>A picked message is one the scheduler holds and the caller declared ready.\<close>

lemma sched_next_message_ready:
  "sched_wf s \<Longrightarrow> sched_next_message s f = (Some m, s') \<Longrightarrow> m \<in> scheduled s \<and> f m \<noteq> None"
  using next_loop_picks_ready [of s f _ m s']
  by (fastforce simp: sched_next_message_def scheduled_def sched_wf_lengths)

text \<open>No message is lost or duplicated: every level keeps the same multiset of ids.\<close>

lemma sched_next_message_queued:
  "sched_wf s \<Longrightarrow> queued (snd (sched_next_message s f)) p = queued s p"
  using next_loop_wf [of s f _ "fst (sched_next_message s f)" "snd (sched_next_message s f)"]
  by (simp add: sched_next_message_def)

section \<open>Deficits stay in range\<close>

lemma as_i32_small: "sz < 2 ^ 31 \<Longrightarrow> as_i32 sz = int sz"
  by (simp add: as_i32_def)

lemma DEFAULT_QUANTUMS_bounds: "p < 5 \<Longrightarrow> 512 \<le> DEFAULT_QUANTUMS ! p \<and> DEFAULT_QUANTUMS ! p \<le> 4096"
  by (auto simp: DEFAULT_QUANTUMS_def less_Suc_eq numeral_eq_Suc)

lemma level_deficit_bounds:
  assumes "sched_wf s" and "deficits_bounded s" and "p < 5"
  shows "0 \<le> level_deficit s p \<and> level_deficit s p \<le> 16384"
proof -
  have "0 \<le> deficits s ! p \<and> deficits s ! p \<le> 16384"
    using assms sched_wf_lengths(1) [OF assms(1)] by (simp add: deficits_bounded_def)
  then show ?thesis
    using DEFAULT_QUANTUMS_bounds [OF assms(3)]
    by (simp add: level_deficit_def sched_wf_lengths(4) [OF assms(1)])
qed

lemma deficits_bounded_update:
  "deficits_bounded s \<Longrightarrow> 0 \<le> d \<Longrightarrow> d \<le> 16384 \<Longrightarrow> deficits s' = (deficits s)[p := d] \<Longrightarrow>
     deficits_bounded s'"
  using set_update_subset_insert [of "deficits s" p d] by (auto simp: deficits_bounded_def)

lemma next_loop_deficits:
  assumes "\<And>m sz. f m = Some sz \<Longrightarrow> sz < 2 ^ 31"
  shows "sched_wf s \<Longrightarrow> deficits_bounded s \<Longrightarrow> next_loop f n s = (r, s') \<Longrightarrow> deficits_bounded s'"
proof (induction n arbitrary: s)
  case (Suc n)
  show ?case
  proof (cases "active_levels s")
    case Nil
    with Suc.prems show ?thesis by simp
  next
    case (Cons p levels)
    note b = level_deficit_bounds [OF Suc.prems(1,2), of p]
    have "p < 5" using sched_wf_lengths(5) [OF Suc.prems(1)] Cons by simp
    from Suc.prems(3) Cons show ?thesis
    proof (cases rule: next_loop_Suc_cases)
      case drop
      show ?thesis
        by (rule Suc.IH [OF drop_level_wf [OF Suc.prems(1) Cons drop(1)] _ drop(2)])
          (rule deficits_bounded_update [OF Suc.prems(2), of 0], auto)
    next
      case (served m sz q')
      with assms [OF served(2)] b \<open>p < 5\<close> show ?thesis
        by (intro deficits_bounded_update [OF Suc.prems(2) _ _ served(6)]) (auto simp: as_i32_small)
    next
      case (putback q')
      show ?thesis
        by (rule Suc.IH [OF visit_wf [OF Suc.prems(1) Cons putback(1) disjI2 [OF refl]] _ putback(3)])
          (rule deficits_bounded_update [OF Suc.prems(2), of "level_deficit s p"],
            use b \<open>p < 5\<close> in auto)
    qed
  qed
qed simp

lemma sched_next_message_deficits:
  assumes "sched_wf s" and "deficits_bounded s" and "\<And>m sz. f m = Some sz \<Longrightarrow> sz < 2 ^ 31"
  shows "deficits_bounded (snd (sched_next_message s f))"
  unfolding sched_next_message_def
  by (rule next_loop_deficits [where f = f, OF assms(3) assms(1,2) surjective_pairing])

lemma sched_new_deficits: "deficits_bounded sched_new"
  by (simp add: deficits_bounded_def sched_new_def NUM_PRIORITIES_def)

lemma sched_update_message_deficits:
  "deficits_bounded s \<Longrightarrow> deficits_bounded (sched_update_message s mid prio)"
  by (simp add: deficits_bounded_def sched_update_message_def Let_def)

lemma sched_remove_message_deficits:
  "deficits_bounded s \<Longrightarrow> deficits_bounded (sched_remove_message s mid)"
proof -
  have step: "deficits_bounded s \<Longrightarrow> deficits_bounded (remove_from_level mid p s)" for s p
  proof -
    assume *: "deficits_bounded s"
    have "deficits (remove_from_level mid p s) = deficits s \<or>
        deficits (remove_from_level mid p s) = (deficits s)[p := 0]"
      by (simp add: remove_from_level_def Let_def)
    with * deficits_bounded_update [OF *, of 0] show ?thesis
      by (auto simp: deficits_bounded_def)
  qed
  have "deficits_bounded s \<Longrightarrow> deficits_bounded (fold (remove_from_level mid) ps s)" for ps
    by (induction ps arbitrary: s) (auto intro: step)
  then show "deficits_bounded s \<Longrightarrow> deficits_bounded (sched_remove_message s mid)"
    by (simp add: sched_remove_message_def)
qed

section \<open>No starvation\<close>

lemma next_loop_None:
  "sched_wf s \<Longrightarrow> n \<le> length (active_levels s) \<Longrightarrow> next_loop f n s = (None, s') \<Longrightarrow>
     (\<forall>p. p \<notin> set (take n (active_levels s)) \<longrightarrow>
        deficits s' ! p = deficits s ! p \<and> needs_quantum s' ! p = needs_quantum s ! p) \<and>
     (\<forall>p \<in> set (take n (active_levels s)). (\<exists>m \<in> set (active_queues s ! p). f m \<noteq> None) \<longrightarrow>
        deficits s' ! p = level_deficit s p \<and> needs_quantum s' ! p \<and>
        (\<exists>m sz. f m = Some sz \<and> level_deficit s p < as_i32 sz))"
proof (induction n arbitrary: s)
  case (Suc n)
  then obtain p levels where lev: "active_levels s = p # levels" by (cases "active_levels s") auto
  have p: "p < 5" "p \<notin> set levels" "n \<le> length levels"
    using sched_wf_lengths(5) [OF Suc.prems(1)] Suc.prems lev by (auto simp: sched_wf_def)
  note len = sched_wf_lengths [OF Suc.prems(1)]
  have notin: "p \<notin> set (take n levels)" using p(2) by (auto dest: in_set_takeD)
  from Suc.prems(3) lev show ?case
  proof (cases rule: next_loop_Suc_cases)
    case drop
    from Suc.IH [OF drop_level_wf [OF Suc.prems(1) lev drop(1)] _ drop(2)] p len notin lev drop(1)
    show ?thesis by (auto simp: level_deficit_def nth_list_update split: if_splits)
  next
    case (served m sz q')
    then show ?thesis by simp
  next
    case (putback q')
    let ?s1 = "s\<lparr>deficits := (deficits s)[p := level_deficit s p],
         active_queues := (active_queues s)[p := q'], active_levels := levels @ [p],
         needs_quantum := (needs_quantum s)[p := True]\<rparr>"
    have wf1: "sched_wf ?s1" by (rule visit_wf [OF Suc.prems(1) lev putback(1) disjI2 [OF refl]])
    note IH = Suc.IH [OF wf1 _ putback(3), simplified]
    have other: "level_deficit ?s1 i = level_deficit s i" "active_queues ?s1 ! i = active_queues s ! i"
      if "i \<noteq> p" for i using that by (simp_all add: level_deficit_def)
    have at_p: "deficits s' ! p = level_deficit s p" "needs_quantum s' ! p"
      using IH p notin len by auto
    have sz: "(\<exists>m \<in> set (active_queues s ! p). f m \<noteq> None) \<longrightarrow>
        (\<exists>m sz. f m = Some sz \<and> level_deficit s p < as_i32 sz)"
      using putback(2) by (metis option.distinct(1))
    show ?thesis
    proof (intro conjI allI ballI impI)
      fix i assume "i \<notin> set (take (Suc n) (active_levels s))"
      then have "i \<noteq> p" "i \<notin> set (take n levels)" by (auto simp: lev)
      then show "deficits s' ! i = deficits s ! i" "needs_quantum s' ! i = needs_quantum s ! i"
        using IH p(3) by auto
    next
      fix i assume i: "i \<in> set (take (Suc n) (active_levels s))"
        "\<exists>m \<in> set (active_queues s ! i). f m \<noteq> None"
      have "deficits s' ! i = level_deficit s i \<and> needs_quantum s' ! i \<and>
        (\<exists>m sz. f m = Some sz \<and> level_deficit s i < as_i32 sz)"
      proof (cases "i = p")
        case True
        with at_p sz i(2) show ?thesis by simp
      next
        case False
        then have "i \<in> set (take n levels)" using i(1) by (simp add: lev)
        then show ?thesis
          using bspec [OF conjunct2 [OF IH [OF le_SucI [OF p(3)]]], of i] i(2) False other [OF False] by simp
      qed
      then show "deficits s' ! i = level_deficit s i" "needs_quantum s' ! i"
        "\<exists>m sz. f m = Some sz \<and> level_deficit s i < as_i32 sz" by blast+
    qed
  qed
qed simp

text \<open>Repeated polling with an unchanged readiness, and the results of the calls.\<close>

fun sched_polls :: "(u32 \<Rightarrow> nat option) \<Rightarrow> nat \<Rightarrow> scheduler \<Rightarrow> u32 option list" where
  "sched_polls f 0 s = []"
| "sched_polls f (Suc n) s =
     (let (r, s') = sched_next_message s f in r # sched_polls f n s')"

lemma failing_call:
  assumes wf: "sched_wf s" and none: "sched_next_message s f = (None, s')"
    and m: "m \<in> set (active_queues s ! p)" "p < 5" "f m \<noteq> None"
  shows "deficits s' ! p = level_deficit s p \<and> needs_quantum s' ! p \<and>
    (\<exists>m sz. f m = Some sz \<and> level_deficit s p < as_i32 sz)"
proof -
  have "active_queues s ! p \<noteq> []" using m(1) by auto
  then have "p \<in> set (active_levels s)"
    using wf m(2) by (simp add: sched_wf_def NUM_PRIORITIES_def)
  with next_loop_None [OF wf le_refl none [unfolded sched_next_message_def]] m
  show ?thesis by auto
qed

lemma polls_all_None:
  assumes f: "\<And>m sz. f m = Some sz \<Longrightarrow> sz \<le> 16384"
  shows "sched_wf s \<Longrightarrow> m \<in> set (active_queues s ! p) \<Longrightarrow> p < 5 \<Longrightarrow> f m \<noteq> None \<Longrightarrow>
    needs_quantum s ! p \<Longrightarrow> deficits s ! p \<ge> int (16384 - 512 * Suc n) \<Longrightarrow>
    \<exists>r \<in> set (sched_polls f (Suc n) s). r \<noteq> None"
proof (induction n arbitrary: s)
  case 0
  obtain r s' where call: "sched_next_message s f = (r, s')" by fastforce
  have "r \<noteq> None"
  proof
    assume "r = None"
    with failing_call [OF 0(1) _ 0(2,3), of f s'] call 0(4) obtain m' sz
      where "f m' = Some sz" "level_deficit s p < as_i32 sz" by auto
    with f [of m' sz] 0 DEFAULT_QUANTUMS_bounds [OF 0(3)] show False
      by (simp add: level_deficit_def as_i32_small sched_wf_lengths(4))
  qed
  with call show ?case by simp
next
  case (Suc n)
  obtain r s' where call: "sched_next_message s f = (r, s')" by fastforce
  show ?case
  proof (cases r)
    case None
    from failing_call [OF Suc.prems(1) _ Suc.prems(2,3), of f s'] call None Suc.prems(4) obtain m' sz
      where s': "deficits s' ! p = level_deficit s p" "needs_quantum s' ! p"
        "f m' = Some sz" "level_deficit s p < as_i32 sz" by auto
    have "sched_wf s'" "m \<in> set (active_queues s' ! p)"
      using sched_next_message_wf [OF Suc.prems(1), of f] Suc.prems(2) call
        mset_eq_setD [OF sched_next_message_queued [OF Suc.prems(1), of f p, unfolded queued_def]]
      by auto
    moreover have "deficits s' ! p \<ge> int (16384 - 512 * Suc n)"
      using Suc.prems DEFAULT_QUANTUMS_bounds [OF Suc.prems(3)]
      by (simp add: s' level_deficit_def sched_wf_lengths(4)) linarith
    ultimately have "\<exists>r \<in> set (sched_polls f (Suc n) s'). r \<noteq> None"
      using Suc.IH [of s'] Suc.prems s' by blast
    with call show ?thesis by simp
  next
    case (Some m)
    with call show ?thesis by simp
  qed
qed

lemma sched_no_starvation:
  assumes wf: "sched_wf s" "deficits_bounded s" and f: "\<And>m sz. f m = Some sz \<Longrightarrow> sz \<le> 16384"
    and m: "m \<in> scheduled s" "f m \<noteq> None"
  shows "\<exists>r \<in> set (sched_polls f 33 s). r \<noteq> None"
proof -
  obtain p where p: "p < 5" "m \<in> set (active_queues s ! p)"
    using m(1) sched_wf_lengths(2) [OF wf(1)]
    unfolding scheduled_def by (auto simp: in_set_conv_nth [of _ "active_queues s"])
  obtain r s' where call: "sched_next_message s f = (r, s')" by fastforce
  have unfold: "sched_polls f 33 s = r # sched_polls f (Suc 31) s'"
    using call by (simp add: numeral_eq_Suc)
  show ?thesis
  proof (cases r)
    case None
    from failing_call [OF wf(1) _ p(2,1), of f s'] call None m(2)
    have s': "deficits s' ! p = level_deficit s p" "needs_quantum s' ! p" by auto
    have "sched_wf s'" "m \<in> set (active_queues s' ! p)"
      using sched_next_message_wf [OF wf(1), of f] p(2) call
        mset_eq_setD [OF sched_next_message_queued [OF wf(1), of f p, unfolded queued_def]]
      by auto
    moreover have "deficits s' ! p \<ge> int (16384 - 512 * Suc 31)"
      using level_deficit_bounds [OF wf p(1)] by (simp add: s')
    ultimately have "\<exists>r \<in> set (sched_polls f (Suc 31) s'). r \<noteq> None"
      using polls_all_None [of f s' m p 31] f p m(2) s'(2) by blast
    then show ?thesis unfolding unfold by simp
  qed (simp add: unfold)
qed

section \<open>Which messages are scheduled\<close>

lemma scheduled_iff: "sched_wf s \<Longrightarrow> m \<in> scheduled s \<longleftrightarrow> (\<exists>p < 5. m \<in> set (active_queues s ! p))"
proof -
  assume "sched_wf s"
  then have len: "length (active_queues s) = 5" by (rule sched_wf_lengths)
  have "(\<exists>q \<in> set (active_queues s). m \<in> set q) \<longleftrightarrow> (\<exists>p < 5. m \<in> set (active_queues s ! p))"
    using len by (metis in_set_conv_nth)
  then show ?thesis by (simp add: scheduled_def)
qed

lemma scheduled_update [simp]:
  assumes "sched_wf s"
  shows "scheduled (sched_update_message s mid prio) = insert mid (scheduled s)"
proof (rule set_eqI)
  fix m
  define p where "p = min prio 4"
  have p: "p < 5" by (simp add: p_def)
  have q: "set (active_queues (sched_update_message s mid prio) ! i) =
      (if i = p then insert mid (set (active_queues s ! i)) else set (active_queues s ! i) - {mid})"
    if "i < 5" for i
    using update_queues [OF sched_wf_lengths(2) [OF assms] p_def that, of mid] by auto
  show "m \<in> scheduled (sched_update_message s mid prio) \<longleftrightarrow> m \<in> insert mid (scheduled s)"
  proof -
    have "(\<exists>i < 5. m \<in> set (active_queues (sched_update_message s mid prio) ! i)) \<longleftrightarrow>
        m = mid \<or> (\<exists>i < 5. m \<in> set (active_queues s ! i))"
      using p q by (metis Diff_iff insert_iff singletonD)
    then show ?thesis by (simp add: scheduled_iff assms sched_update_message_wf)
  qed
qed

lemma scheduled_remove [simp]:
  "sched_wf s \<Longrightarrow> scheduled (sched_remove_message s mid) = scheduled s - {mid}"
proof -
  assume wf: "sched_wf s"
  have "(\<exists>i < 5. m \<in> set (active_queues (sched_remove_message s mid) ! i)) \<longleftrightarrow>
      m \<noteq> mid \<and> (\<exists>i < 5. m \<in> set (active_queues s ! i))" for m
    using remove_queues [OF wf, of _ mid] by (metis Diff_iff insertCI set_retain_other singletonD)
  then show ?thesis by (simp add: set_eq_iff scheduled_iff wf sched_remove_message_wf) blast
qed

lemma scheduled_next [simp]:
  assumes "sched_wf s"
  shows "scheduled (snd (sched_next_message s f)) = scheduled s"
proof (rule set_eqI)
  fix m
  have "set (active_queues (snd (sched_next_message s f)) ! p) = set (active_queues s ! p)" for p
    by (rule mset_eq_setD [OF sched_next_message_queued [OF assms, of f, unfolded queued_def]])
  then show "m \<in> scheduled (snd (sched_next_message s f)) \<longleftrightarrow> m \<in> scheduled s"
    by (simp add: scheduled_iff assms sched_next_message_wf)
qed

end
