(* ===== verification/Quota.thy ===== *)
theory Quota
  imports Protocol
begin

text \<open>
  \<^verbatim>\<open>tox-sequenced/src/quota.rs\<close>: the reassembly memory budget shared by all sessions. The first
  part models each method as the atomic operation its compare-and-exchange loop implements when
  it runs alone; the second part models the loops themselves, interleaved between any number of
  threads, as a step relation, and shows that every run of them is a run of the atomic
  operations. The sums and products are those of \<^verbatim>\<open>usize\<close>: they wrap around at \<open>2 ^ 64\<close>, as in a build
  without overflow checks.
\<close>

section \<open>The methods\<close>

record quota =
  max_bytes :: nat
  used_bytes :: nat

definition quota_new :: "nat \<Rightarrow> quota" where
  "quota_new n = \<lparr>max_bytes = n, used_bytes = 0\<rparr>"

fun priority_percent :: "priority \<Rightarrow> nat" where
  "priority_percent Bulk = 70"
| "priority_percent Low = 80"
| "priority_percent Standard = 90"
| "priority_percent High = 95"
| "priority_percent Critical = 99"

definition usize_wrap :: "nat \<Rightarrow> nat" where
  "usize_wrap n = n mod 2 ^ 64"

definition quota_threshold :: "nat \<Rightarrow> priority \<Rightarrow> nat" where
  "quota_threshold mx p = usize_wrap (mx * priority_percent p) div 100"

definition quota_reserve :: "quota \<Rightarrow> nat \<Rightarrow> priority \<Rightarrow> bool \<times> quota" where
  "quota_reserve q amount p =
     (let current = used_bytes q in
      if usize_wrap (current + amount) > quota_threshold (max_bytes q) p then (False, q)
      else (True, q\<lparr>used_bytes := usize_wrap (current + amount)\<rparr>))"

definition quota_reserve_guaranteed :: "quota \<Rightarrow> nat \<Rightarrow> bool \<times> quota" where
  "quota_reserve_guaranteed q amount =
     (let current = used_bytes q in
      if usize_wrap (current + amount) > max_bytes q then (False, q)
      else (True, q\<lparr>used_bytes := usize_wrap (current + amount)\<rparr>))"

definition quota_release :: "quota \<Rightarrow> nat \<Rightarrow> quota" where
  "quota_release q amount = q\<lparr>used_bytes := used_bytes q - amount\<rparr>"

definition quota_available :: "quota \<Rightarrow> nat" where
  "quota_available q = max_bytes q - used_bytes q"

definition quota_capacity :: "quota \<Rightarrow> nat" where
  "quota_capacity q = max_bytes q"

definition quota_used :: "quota \<Rightarrow> nat" where
  "quota_used q = used_bytes q"

text \<open>
  The capacity is a size that memory can have: no object of Rust is larger than \<^verbatim>\<open>isize::MAX\<close>. For such a
  capacity a reservation of at most \<open>2 ^ 63\<close> bytes does not wrap around.
\<close>

definition quota_ok :: "quota \<Rightarrow> bool" where
  "quota_ok q \<longleftrightarrow> used_bytes q \<le> max_bytes q \<and> max_bytes q < 2 ^ 63"

section \<open>The atomic operations\<close>

lemma usize_wrap_id [simp]: "n < 2 ^ 64 \<Longrightarrow> usize_wrap n = n"
  by (simp add: usize_wrap_def)

lemma usize_wrap_le: "usize_wrap n \<le> n"
  by (simp add: usize_wrap_def)

lemma usize_wrap_fits: "quota_ok q \<Longrightarrow> a \<le> 2 ^ 63 \<Longrightarrow> usize_wrap (used_bytes q + a) = used_bytes q + a"
  by (rule usize_wrap_id) (simp add: quota_ok_def)

lemma quota_threshold_le: "quota_threshold mx p \<le> mx"
proof -
  have "quota_threshold mx p \<le> mx * priority_percent p div 100"
    unfolding quota_threshold_def by (rule div_le_mono) (rule usize_wrap_le)
  also have "\<dots> \<le> mx" by (cases p) simp_all
  finally show ?thesis .
qed

lemma quota_threshold_mono:
  "priority_level p \<le> priority_level p' \<Longrightarrow> mx * 99 < 2 ^ 64 \<Longrightarrow> quota_threshold mx p' \<le> quota_threshold mx p"
  by (cases p; cases p') (simp_all add: quota_threshold_def div_le_mono)

lemma quota_reserve_ok [wf_intros]: "quota_ok q \<Longrightarrow> quota_ok (snd (quota_reserve q a p))"
  using quota_threshold_le [of "max_bytes q" p]
  by (auto simp: quota_reserve_def quota_ok_def Let_def)

lemma quota_reserve_guaranteed_ok [wf_intros]:
  "quota_ok q \<Longrightarrow> quota_ok (snd (quota_reserve_guaranteed q a))"
  by (auto simp: quota_reserve_guaranteed_def quota_ok_def Let_def)

lemma quota_release_ok [wf_intros]: "quota_ok q \<Longrightarrow> quota_ok (quota_release q a)"
  by (auto simp: quota_release_def quota_ok_def)

text \<open>Beyond these bounds the sum wraps around and the counter loses what it held.\<close>

lemma reservation_wraps:
  "quota_reserve_guaranteed \<lparr>max_bytes = mx, used_bytes = Suc u\<rparr> (2 ^ 64 - 1) = (u mod 2 ^ 64 \<le> mx,
     \<lparr>max_bytes = mx, used_bytes = (if u mod 2 ^ 64 \<le> mx then u mod 2 ^ 64 else Suc u)\<rparr>)"
proof -
  have "Suc u + (2 ^ 64 - 1) = u + 2 ^ 64" by simp
  then have "usize_wrap (Suc u + (2 ^ 64 - 1)) = u mod 2 ^ 64" unfolding usize_wrap_def by (metis mod_add_self2)
  then show ?thesis by (simp add: quota_reserve_guaranteed_def Let_def del: One_nat_def)
qed

section \<open>The loops, interleaved\<close>

text \<open>A call of one of the three methods that write, and what its loop body computes.\<close>

datatype quota_call = CallReserve nat priority | CallReserveGuaranteed nat | CallRelease nat

fun call_rejects :: "nat \<Rightarrow> quota_call \<Rightarrow> nat \<Rightarrow> bool" where
  "call_rejects mx (CallReserve a p) current = (usize_wrap (current + a) > quota_threshold mx p)"
| "call_rejects mx (CallReserveGuaranteed a) current = (usize_wrap (current + a) > mx)"
| "call_rejects mx (CallRelease a) current = False"

fun call_new :: "quota_call \<Rightarrow> nat \<Rightarrow> nat" where
  "call_new (CallReserve a p) current = usize_wrap (current + a)"
| "call_new (CallReserveGuaranteed a) current = usize_wrap (current + a)"
| "call_new (CallRelease a) current = current - a"

fun call_atomic :: "quota_call \<Rightarrow> quota \<Rightarrow> bool \<times> quota" where
  "call_atomic (CallReserve a p) q = quota_reserve q a p"
| "call_atomic (CallReserveGuaranteed a) q = quota_reserve_guaranteed q a"
| "call_atomic (CallRelease a) q = (True, quota_release q a)"

text \<open>
  A thread is outside the methods, about to load the counter, or about to exchange it for the
  value it computed from what it loaded. \<open>held\<close> is what the thread has reserved and not yet
  released: a thread releases only what it holds, as the sessions do.
\<close>

datatype quota_pc = Outside | Loading quota_call | Exchanging quota_call nat

record quota_sys =
  sys_quota :: quota
  sys_pc :: "nat \<Rightarrow> quota_pc"
  sys_held :: "nat \<Rightarrow> nat"

definition quota_sys_init :: "nat \<Rightarrow> quota_sys" where
  "quota_sys_init mx = \<lparr>sys_quota = quota_new mx, sys_pc = (\<lambda>_. Outside), sys_held = (\<lambda>_. 0)\<rparr>"

fun held_after :: "quota_call \<Rightarrow> nat \<Rightarrow> nat" where
  "held_after (CallReserve a p) h = h + a"
| "held_after (CallReserveGuaranteed a) h = h + a"
| "held_after (CallRelease a) h = h - a"

inductive quota_step :: "nat \<Rightarrow> quota_sys \<Rightarrow> quota_sys \<Rightarrow> bool" for n where
  call: "t < n \<Longrightarrow> sys_pc s t = Outside \<Longrightarrow> (\<And>a. c = CallRelease a \<Longrightarrow> a \<le> sys_held s t) \<Longrightarrow>
     quota_step n s (s\<lparr>sys_pc := (sys_pc s)(t := Loading c)\<rparr>)"
| load_reject: "t < n \<Longrightarrow> sys_pc s t = Loading c \<Longrightarrow>
     call_rejects (max_bytes (sys_quota s)) c (used_bytes (sys_quota s)) \<Longrightarrow>
     quota_step n s (s\<lparr>sys_pc := (sys_pc s)(t := Outside)\<rparr>)"
| load: "t < n \<Longrightarrow> sys_pc s t = Loading c \<Longrightarrow>
     \<not> call_rejects (max_bytes (sys_quota s)) c (used_bytes (sys_quota s)) \<Longrightarrow>
     quota_step n s (s\<lparr>sys_pc := (sys_pc s)(t := Exchanging c (used_bytes (sys_quota s)))\<rparr>)"
| exchange: "t < n \<Longrightarrow> sys_pc s t = Exchanging c current \<Longrightarrow>
     used_bytes (sys_quota s) = current \<Longrightarrow>
     quota_step n s (s\<lparr>sys_quota := (sys_quota s)\<lparr>used_bytes := call_new c current\<rparr>,
                        sys_pc := (sys_pc s)(t := Outside),
                        sys_held := (sys_held s)(t := held_after c (sys_held s t))\<rparr>)"
| exchange_fail: "t < n \<Longrightarrow> sys_pc s t = Exchanging c current \<Longrightarrow>
     used_bytes (sys_quota s) \<noteq> current \<Longrightarrow>
     quota_step n s (s\<lparr>sys_pc := (sys_pc s)(t := Loading c)\<rparr>)"

inductive quota_reachable :: "nat \<Rightarrow> nat \<Rightarrow> quota_sys \<Rightarrow> bool" for n mx where
  init: "quota_reachable n mx (quota_sys_init mx)"
| step: "quota_reachable n mx s \<Longrightarrow> quota_step n s s' \<Longrightarrow> quota_reachable n mx s'"

text \<open>Runs in which no call asks for more than \<open>2 ^ 63\<close> bytes.\<close>

fun call_amount :: "quota_call \<Rightarrow> nat" where
  "call_amount (CallReserve a p) = a"
| "call_amount (CallReserveGuaranteed a) = a"
| "call_amount (CallRelease a) = a"

definition small_calls :: "quota_sys \<Rightarrow> bool" where
  "small_calls s \<longleftrightarrow>
     (\<forall>t c. sys_pc s t = Loading c \<or> (\<exists>v. sys_pc s t = Exchanging c v) \<longrightarrow> call_amount c \<le> 2 ^ 63)"

inductive quota_small :: "nat \<Rightarrow> nat \<Rightarrow> quota_sys \<Rightarrow> bool" for n mx where
  init: "quota_small n mx (quota_sys_init mx)"
| step: "quota_small n mx s \<Longrightarrow> quota_step n s s' \<Longrightarrow> small_calls s' \<Longrightarrow> quota_small n mx s'"

definition pending_release_ok :: "quota_sys \<Rightarrow> nat \<Rightarrow> bool" where
  "pending_release_ok s t \<longleftrightarrow>
     (\<forall>a. (sys_pc s t = Loading (CallRelease a) \<longrightarrow> a \<le> sys_held s t) \<and>
          (\<forall>v. sys_pc s t = Exchanging (CallRelease a) v \<longrightarrow> a \<le> sys_held s t))"

text \<open>What a thread loaded passed the admission check of its call.\<close>

definition loaded_ok :: "quota_sys \<Rightarrow> nat \<Rightarrow> bool" where
  "loaded_ok s t \<longleftrightarrow>
     (\<forall>c v. sys_pc s t = Exchanging c v \<longrightarrow> \<not> call_rejects (max_bytes (sys_quota s)) c v)"

definition quota_sys_inv :: "nat \<Rightarrow> nat \<Rightarrow> quota_sys \<Rightarrow> bool" where
  "quota_sys_inv n mx s \<longleftrightarrow>
     max_bytes (sys_quota s) = mx \<and> quota_ok (sys_quota s) \<and>
     used_bytes (sys_quota s) = (\<Sum>t < n. sys_held s t) \<and>
     (\<forall>t. pending_release_ok s t) \<and> (\<forall>t. loaded_ok s t) \<and> small_calls s"

lemma sum_held_update:
  fixes f :: "nat \<Rightarrow> nat"
  assumes "t < n"
  shows "(\<Sum>u < n. (f(t := v)) u) + f t = (\<Sum>u < n. f u) + v"
proof -
  have "(\<Sum>u < n. g u) = g t + (\<Sum>u \<in> {..<n} - {t}. g u)" for g :: "nat \<Rightarrow> nat"
    using assms by (simp add: sum.remove)
  from this [of "f(t := v)"] this [of f] show ?thesis by simp
qed

text \<open>An admitted exchange is the atomic operation, and it keeps the bound.\<close>

lemma exchange_atomic:
  "\<not> call_rejects (max_bytes q) c (used_bytes q) \<Longrightarrow>
     call_atomic c q = (True, q\<lparr>used_bytes := call_new c (used_bytes q)\<rparr>)"
  by (cases c)
    (auto simp: quota_reserve_def quota_reserve_guaranteed_def quota_release_def Let_def)

lemma call_atomic_ok: "quota_ok q \<Longrightarrow> quota_ok (snd (call_atomic c q))"
  by (cases c) (auto intro: wf_intros)

lemma exchange_held:
  assumes inv: "quota_sys_inv n mx s" and t: "t < n" and pc: "sys_pc s t = Exchanging c current"
    and cur: "used_bytes (sys_quota s) = current"
  shows "call_new c current = (\<Sum>u < n. ((sys_held s)(t := held_after c (sys_held s t))) u)"
proof -
  have used: "current = (\<Sum>u < n. sys_held s u)" and ok: "quota_ok (sys_quota s)" and "small_calls s"
    using inv cur by (simp_all add: quota_sys_inv_def)
  then have small: "call_amount c \<le> 2 ^ 63" using pc unfolding small_calls_def by blast
  have rel: "a \<le> sys_held s t" if "c = CallRelease a" for a
    using inv pc that by (auto simp: quota_sys_inv_def pending_release_ok_def)
  have le: "sys_held s t \<le> (\<Sum>u < n. sys_held s u)"
    using t by (intro member_le_sum) auto
  note upd = sum_held_update [OF t, of "sys_held s" "held_after c (sys_held s t)"]
  show ?thesis
  proof (cases c)
    case (CallRelease a)
    with upd rel le used show ?thesis by simp
  qed (use upd used small usize_wrap_fits [OF ok] cur in simp_all)
qed

lemma quota_step_inv:
  "quota_step n s s' \<Longrightarrow> quota_sys_inv n mx s \<Longrightarrow> small_calls s' \<Longrightarrow> quota_sys_inv n mx s'"
proof (induction rule: quota_step.induct)
  case (exchange t s c current)
  note inv = exchange.prems(1)
  have ok: "\<not> call_rejects (max_bytes (sys_quota s)) c (used_bytes (sys_quota s))"
    using inv exchange by (auto simp: quota_sys_inv_def loaded_ok_def)
  have "quota_ok ((sys_quota s)\<lparr>used_bytes := call_new c current\<rparr>)"
    using exchange_atomic [OF ok] call_atomic_ok [of "sys_quota s" c] inv exchange
    by (simp add: quota_sys_inv_def)
  with exchange exchange_held [OF inv exchange.hyps] show ?case
    by (auto simp: quota_sys_inv_def pending_release_ok_def loaded_ok_def)
qed (auto simp: quota_sys_inv_def pending_release_ok_def loaded_ok_def)

lemma quota_small_inv:
  assumes "mx < 2 ^ 63"
  shows "quota_small n mx s \<Longrightarrow> quota_sys_inv n mx s"
proof (induction rule: quota_small.induct)
  case init
  show ?case
    using assms by (simp add: quota_sys_inv_def quota_sys_init_def quota_new_def quota_ok_def
        pending_release_ok_def loaded_ok_def small_calls_def)
next
  case (step s s')
  then show ?case by (blast intro: quota_step_inv)
qed

text \<open>Whatever the amounts, every step of the loops is invisible to the counter or one whole atomic operation.\<close>

lemma quota_reachable_loaded: "quota_reachable n mx s \<Longrightarrow> loaded_ok s t"
proof (induction arbitrary: t rule: quota_reachable.induct)
  case init
  show ?case by (simp add: loaded_ok_def quota_sys_init_def)
next
  case (step s s')
  from step(2) step(3) show ?case by (cases rule: quota_step.cases) (auto simp: loaded_ok_def)
qed

lemma quota_step_refines:
  assumes "\<And>t. loaded_ok s t" and "quota_step n s s'"
  shows "sys_quota s' = sys_quota s \<or>
    (\<exists>t c v. sys_pc s t = Exchanging c v \<and> sys_pc s' t = Outside \<and>
       call_atomic c (sys_quota s) = (True, sys_quota s'))"
  using assms(2)
proof (cases rule: quota_step.cases)
  case (exchange t c current)
  then have "\<not> call_rejects (max_bytes (sys_quota s)) c (used_bytes (sys_quota s))"
    using assms(1) by (auto simp: loaded_ok_def)
  from exchange_atomic [OF this] exchange show ?thesis by auto
qed auto

end
