(* ===== verification/Session.thy ===== *)
theory Session
  imports Outgoing Scheduler Quota Flat_Map Congestion
begin

text \<open>
  \<^verbatim>\<open>tox-sequenced/src/session.rs\<close>: the reliable session with one peer. The state is generic in the
  congestion controller, whose trait dictionary \<open>ops\<close> is an argument of the operations.

  What the session reads from outside is an argument too: the monotonic instant \<open>now\<close>, the
  system clock \<open>sys_ms\<close>, the random jitter of a pong (\<open>-5..=5\<close>), and the two functions \<open>serialize\<close> and
  \<open>deserialize\<close> of the envelope, which the \<^verbatim>\<open>ToxProto\<close> macro derives over the \<^verbatim>\<open>rmp\<close> crate.
  The \<^verbatim>\<open>sender\<close> callback of the flush is a state-passing function. Sizes are naturals; the
  subtractions the code writes with \<open>-\<close> are checked, the saturating ones are truncated.
\<close>

section \<open>State\<close>

definition PING_INTERVAL_IDLE :: duration where "PING_INTERVAL_IDLE = from_secs 60"
definition PING_INTERVAL_ACTIVE :: duration where "PING_INTERVAL_ACTIVE = from_secs 10"
definition CONNECTION_TIMEOUT :: duration where "CONNECTION_TIMEOUT = from_secs 300"
definition FAIR_SHARE_GUARANTEE :: nat where "FAIR_SHARE_GUARANTEE = 16 * 1024"

record 'c session =
  s_next_message_id :: message_id
  s_outgoing :: "(message_id, outgoing_message) flat_map"
  s_incoming :: "(message_id, message_reassembler) flat_map"
  s_quota :: quota
  s_max_per_session :: nat
  s_incoming_buffer_size :: nat
  s_completed_incoming :: "(message_id, selective_ack \<times> instant) flat_map"
  s_pending_acks :: "(message_id, nat \<times> instant) flat_map"
  s_pending_nacks :: "(message_id, instant) flat_map"
  s_datagram_queue :: "packet list"
  s_scheduler :: scheduler
  s_events :: "session_event list"
  s_rtt :: rtt_estimator
  s_congestion_control :: 'c
  s_in_flight :: nat
  s_peer_rwnd :: nat
  s_delivered_bytes :: nat
  s_last_delivery_time :: instant
  s_last_ping :: instant
  s_last_ping_sent :: "instant option"
  s_last_activity :: instant
  s_next_pacing_time :: instant
  s_last_rwnd_probe :: instant
  s_zero_window_probes_sent :: nat
  s_last_emitted_cwnd :: nat
  s_app_limited :: bool
  s_highest_received_id :: "message_id option"
  s_retransmit_count :: nat
  s_clock_offset :: int

definition calculate_priority :: "message_type option \<Rightarrow> fragment_count \<Rightarrow> nat \<Rightarrow> priority" where
  "calculate_priority mt tot size_est =
     (if (case mt of Some t \<Rightarrow> message_priority t = Critical | None \<Rightarrow> False) then Critical
      else if tot = 1 then Standard
      else (case mt of
              Some t \<Rightarrow> message_priority t
            | None \<Rightarrow> if size_est < 32 * 1024 then Standard else Bulk))"

text \<open>\<open>first_id\<close> is the random initial message id.\<close>

definition with_congestion_control_and_quota_at :: "'c \<Rightarrow> quota \<Rightarrow> instant \<Rightarrow> message_id \<Rightarrow> 'c session" where
  "with_congestion_control_and_quota_at cc q now first_id =
     \<lparr>s_next_message_id = first_id, s_outgoing = fm_new, s_incoming = fm_new, s_quota = q,
      s_max_per_session = MAX_TOTAL_REASSEMBLY_BUFFER, s_incoming_buffer_size = 0,
      s_completed_incoming = fm_new, s_pending_acks = fm_new, s_pending_nacks = fm_new,
      s_datagram_queue = [], s_scheduler = sched_new, s_events = [], s_rtt = rtt_new,
      s_congestion_control = cc, s_in_flight = 0, s_peer_rwnd = MAX_TOTAL_REASSEMBLY_BUFFER,
      s_delivered_bytes = 0, s_last_delivery_time = now,
      s_last_ping = inst_sub now CONNECTION_TIMEOUT, s_last_ping_sent = None,
      s_last_activity = now, s_next_pacing_time = now, s_last_rwnd_probe = now,
      s_zero_window_probes_sent = 0, s_last_emitted_cwnd = 0, s_app_limited = True,
      s_highest_received_id = None, s_retransmit_count = 0, s_clock_offset = 0\<rparr>"

definition with_congestion_control_at :: "'c \<Rightarrow> instant \<Rightarrow> message_id \<Rightarrow> 'c session" where
  "with_congestion_control_at cc now first_id =
     with_congestion_control_and_quota_at cc (quota_new MAX_TOTAL_REASSEMBLY_BUFFER) now first_id"

definition set_quota :: "'c session \<Rightarrow> quota \<Rightarrow> 'c session" where
  "set_quota s q =
     (let s1 = s\<lparr>s_quota := q\<rparr> in
      if s_incoming_buffer_size s1 > 0
      then s1\<lparr>s_quota := snd (quota_reserve_guaranteed (s_quota s1) (s_incoming_buffer_size s1))\<rparr>
      else s1)"

section \<open>Sending messages\<close>

text \<open>The loop that looks for an unused id, at most \<^verbatim>\<open>MAX_CONCURRENT_OUTGOING\<close> times.\<close>

fun find_free_id :: "nat \<Rightarrow> (message_id, outgoing_message) flat_map \<Rightarrow> message_id \<Rightarrow> message_id" where
  "find_free_id 0 m i = i"
| "find_free_id (Suc n) m i =
     (if \<not> fm_contains_key m i then i else find_free_id n m (mid_wrapping_add i 1))"

definition send_message_at ::
    "(message_type \<Rightarrow> bytes \<Rightarrow> string + bytes) \<Rightarrow> message_type \<Rightarrow> bytes \<Rightarrow> instant \<Rightarrow> 'c session
       \<Rightarrow> ((sequenced_error + message_id) \<times> 'c session) panics" where
  "send_message_at serialize mt data now s =
     (if fm_len (s_outgoing s) \<ge> MAX_CONCURRENT_OUTGOING then Some (Inl QueueFull, s)
      else
        (let mid = find_free_id MAX_CONCURRENT_OUTGOING (s_outgoing s) (s_next_message_id s) in
         if fm_contains_key (s_outgoing s) mid then Some (Inl QueueFull, s)
         else
           (let s1 = s\<lparr>s_next_message_id := mid_wrapping_add mid 1\<rparr> in
            case serialize mt data of
              Inl e \<Rightarrow> Some (Inl (SerializationError e), s1)
            | Inr full_payload \<Rightarrow>
                if length full_payload > MAX_MESSAGE_SIZE then Some (Inl MessageTooLarge, s1)
                else
                  (let mtu = MAX_TOX_PACKET_SIZE - PACKET_OVERHEAD in
                   if mtu = 0 then Some (Inl MessageTooLarge, s1)
                   else do {
                     r \<leftarrow> om_new mt full_payload mtu now;
                     Some (case r of
                       Inl e \<Rightarrow> (Inl e, s1)
                     | Inr msg \<Rightarrow>
                         (Inr mid,
                          s1\<lparr>s_scheduler := sched_update_message (s_scheduler s1) mid
                                (priority_level (message_priority mt)),
                             s_outgoing := fm_set (s_outgoing s1) mid msg\<rparr>))
                   }))))"

definition set_message_timeout :: "message_id \<Rightarrow> duration \<Rightarrow> 'c session \<Rightarrow> 'c session" where
  "set_message_timeout mid t s =
     (case fm_get (s_outgoing s) mid of
        None \<Rightarrow> s
      | Some msg \<Rightarrow> s\<lparr>s_outgoing := fm_set (s_outgoing s) mid (msg\<lparr>om_timeout := t\<rparr>)\<rparr>)"

definition send_datagram :: "message_type \<Rightarrow> bytes \<Rightarrow> 'c session \<Rightarrow> (sequenced_error + unit) \<times> 'c session" where
  "send_datagram mt data s =
     (if length (s_datagram_queue s) \<ge> MAX_DATAGRAM_QUEUE then (Inl QueueFull, s)
      else if length data + 10 > MAX_TOX_PACKET_SIZE then (Inl MessageTooLarge, s)
      else (Inr (), s\<lparr>s_datagram_queue := s_datagram_queue s @ [Datagram mt data]\<rparr>))"

definition check_cwnd_change :: "'c cc_ops \<Rightarrow> 'c session \<Rightarrow> 'c session" where
  "check_cwnd_change ops s =
     (let cwnd = cc_cwnd ops (s_congestion_control s);
          threshold = f32_to_usize (f32_max (f32_mul (f32_of_nat (s_last_emitted_cwnd s))
                        (round32 (1/10))) (Fin 1))
      in if abs_diff cwnd (s_last_emitted_cwnd s) \<ge> threshold \<or> s_last_emitted_cwnd s = 0
         then s\<lparr>s_events := s_events s @ [CongestionWindowChanged cwnd], s_last_emitted_cwnd := cwnd\<rparr>
         else s)"

section \<open>Receiving data\<close>

definition current_rwnd :: "'c session \<Rightarrow> fragment_count" where
  "current_rwnd s =
     (let planned = sum_list (map mr_planned_total_size (fm_values (s_incoming s)));
          local_avail = s_max_per_session s - planned;
          global_avail = quota_available (s_quota s)
      in min (min local_avail global_avail div ESTIMATED_PAYLOAD_SIZE) 65535)"

definition create_rejection_ack :: "message_id \<Rightarrow> 'c session \<Rightarrow> packet" where
  "create_rejection_ack mid s =
     Ack \<lparr>ack_message_id = mid, ack_base_index = 0, ack_bitmask = 0, ack_rwnd = current_rwnd s\<rparr>"

definition check_completed_message :: "message_id \<Rightarrow> 'c session \<Rightarrow> packet option" where
  "check_completed_message mid s =
     (case fm_get (s_completed_incoming s) mid of
        Some (ack, _) \<Rightarrow> Some (Ack (ack\<lparr>ack_rwnd := current_rwnd s\<rparr>))
      | None \<Rightarrow> None)"

definition is_ancient_message :: "message_id \<Rightarrow> 'c session \<Rightarrow> bool" where
  "is_ancient_message mid s =
     (case s_highest_received_id s of
        None \<Rightarrow> False
      | Some highest \<Rightarrow>
          (let diff = mid_wrapping_sub mid highest;
               unknown = (\<not> fm_contains_key (s_incoming s) mid \<and>
                          \<not> fm_contains_key (s_completed_incoming s) mid)
           in if diff > 0x80000000 then
                (let offset = mid_wrapping_sub highest mid in
                 offset \<ge> of_nat MAX_COMPLETED_INCOMING \<or> (unknown \<and> offset > 32))
              else diff = 0 \<and> unknown))"

text \<open>\<^verbatim>\<open>reserve_guaranteed\<close> within the fair share of a peer, \<^verbatim>\<open>reserve\<close> by priority beyond it.\<close>

definition reserve_bytes :: "nat \<Rightarrow> priority \<Rightarrow> 'c session \<Rightarrow> bool \<times> 'c session" where
  "reserve_bytes amount prio s =
     (let (ok, q) =
        (if s_incoming_buffer_size s + amount \<le> FAIR_SHARE_GUARANTEE
         then quota_reserve_guaranteed (s_quota s) amount
         else quota_reserve (s_quota s) amount prio)
      in (ok, s\<lparr>s_quota := q\<rparr>))"

definition release_bytes :: "nat \<Rightarrow> 'c session \<Rightarrow> 'c session" where
  "release_bytes amount s = s\<lparr>s_quota := quota_release (s_quota s) amount\<rparr>"

definition ensure_reassembler ::
    "message_id \<Rightarrow> message_type option \<Rightarrow> fragment_count \<Rightarrow> nat \<Rightarrow> instant \<Rightarrow> 'c session
       \<Rightarrow> (bool \<times> packet list) \<times> 'c session" where
  "ensure_reassembler mid mt tot data_len now s =
     (case fm_get (s_incoming s) mid of
        Some entry \<Rightarrow>
          ((mr_total_fragments entry = tot, []),
           (case mt of
              None \<Rightarrow> s
            | Some t \<Rightarrow>
                s\<lparr>s_incoming := fm_set (s_incoming s) mid
                    (entry\<lparr>mr_priority := calculate_priority (Some t) tot (mr_reserved_bytes entry)\<rparr>)\<rparr>))
      | None \<Rightarrow>
          if fm_len (s_incoming s) \<ge> MAX_CONCURRENT_INCOMING
          then ((False, [create_rejection_ack mid s]), s)
          else
            (let amount = (if tot > 1 then max data_len ESTIMATED_PAYLOAD_SIZE * tot else data_len);
                 prio = calculate_priority mt tot amount;
                 (reserved, s1) = reserve_bytes amount prio s
             in if \<not> reserved \<or> s_incoming_buffer_size s1 + amount > s_max_per_session s1 then
                  (let s2 = (if reserved then release_bytes amount s1 else s1)
                   in ((False, [create_rejection_ack mid s2]), s2))
                else
                  (case mr_new mid tot prio amount now of
                     Inr re \<Rightarrow>
                       (let s2 = s1\<lparr>s_incoming_buffer_size := s_incoming_buffer_size s1 + amount,
                                    s_incoming := fm_set (s_incoming s1) mid re\<rparr>
                        in ((True, []),
                            if (case s_highest_received_id s2 of
                                  None \<Rightarrow> True
                                | Some h \<Rightarrow> mid_wrapping_sub mid h < 0x80000000)
                            then s2\<lparr>s_highest_received_id := Some mid\<rparr> else s2))
                   | Inl _ \<Rightarrow>
                       (let s2 = release_bytes amount s1
                        in ((False, [create_rejection_ack mid s2]), s2)))))"

text \<open>
  \<^verbatim>\<open>if let Some(r) = self.incoming.remove(&id) { buffer_size -= r.reserved_bytes; quota.release(..) }\<close>,
  which occurs three times; the removed reassembler is returned.
\<close>

definition drop_incoming :: "message_id \<Rightarrow> 'c session \<Rightarrow> (message_reassembler option \<times> 'c session) panics" where
  "drop_incoming mid s =
     (case fm_get (s_incoming s) mid of
        None \<Rightarrow> Some (None, s)
      | Some r \<Rightarrow>
          do {
            sz \<leftarrow> checked_sub (s_incoming_buffer_size s) (mr_reserved_bytes r);
            Some (Some r, release_bytes (mr_reserved_bytes r)
              (s\<lparr>s_incoming := fm_del (s_incoming s) mid, s_incoming_buffer_size := sz\<rparr>))
          })"

text \<open>The \<^verbatim>\<open>completed_incoming\<close> insertion with its bound: the oldest entry leaves.\<close>

definition remember_completed :: "message_id \<Rightarrow> selective_ack \<Rightarrow> instant \<Rightarrow> 'c session \<Rightarrow> 'c session panics" where
  "remember_completed mid ack now s =
     (let m = fm_set (s_completed_incoming s) mid (ack, now) in
      if fm_len m > MAX_COMPLETED_INCOMING then
        (case fm_keys m of
           [] \<Rightarrow> None
         | oldest # _ \<Rightarrow> Some (s\<lparr>s_completed_incoming := fm_del m oldest\<rparr>))
      else Some (s\<lparr>s_completed_incoming := m\<rparr>))"

definition note_gap :: "message_id \<Rightarrow> fragment_index \<Rightarrow> nat \<Rightarrow> instant \<Rightarrow> 'c session \<Rightarrow> 'c session" where
  "note_gap mid idx base now s =
     (if idx > base + 30 then
        s\<lparr>s_pending_nacks := fm_set (s_pending_nacks s) mid (inst_sub now (from_secs 1))\<rparr>
      else if idx > base then s\<lparr>s_pending_nacks := snd (fm_or_insert (s_pending_nacks s) mid now)\<rparr>
      else s)"

text \<open>
  Adjusting the reservation of \<open>entry\<close> to its new planned size: the answer is whether the message
  may stay.
\<close>

definition adjust_reservation ::
    "message_id \<Rightarrow> message_reassembler \<Rightarrow> 'c session \<Rightarrow> (bool \<times> packet list \<times> 'c session) panics" where
  "adjust_reservation mid entry s =
     (let new_planned = mr_planned_total_size entry in
      if new_planned = mr_reserved_bytes entry then Some (True, [], s)
      else if new_planned > mr_reserved_bytes entry then
        (let addition = new_planned - mr_reserved_bytes entry;
             (reserved, s1) = reserve_bytes addition (mr_priority entry) s
         in if \<not> reserved \<or> s_incoming_buffer_size s1 + addition > s_max_per_session s1 then
              do {
                let s2 = (if reserved then release_bytes addition s1 else s1);
                (r, s3) \<leftarrow> drop_incoming mid s2;
                Some (False, (if r = None then [] else [create_rejection_ack mid s3]), s3)
              }
            else
              Some (True, [],
                s1\<lparr>s_incoming_buffer_size := s_incoming_buffer_size s1 + addition,
                   s_incoming := fm_set (s_incoming s1) mid (entry\<lparr>mr_reserved_bytes := new_planned\<rparr>)\<rparr>))
      else
        do {
          let reduction = mr_reserved_bytes entry - new_planned;
          let s1 = release_bytes reduction s;
          sz \<leftarrow> checked_sub (s_incoming_buffer_size s1) reduction;
          Some (True, [],
            s1\<lparr>s_incoming_buffer_size := sz,
               s_incoming := fm_set (s_incoming s1) mid (entry\<lparr>mr_reserved_bytes := new_planned\<rparr>)\<rparr>)
        })"

text \<open>The decoder of the envelope answers with an error, \<open>Some None\<close>, or panics, \<open>None\<close>.\<close>

definition finish_incoming ::
    "(bytes \<Rightarrow> (message_type \<times> bytes) option panics) \<Rightarrow> message_id \<Rightarrow> instant \<Rightarrow> 'c session \<Rightarrow> 'c session panics"
where
  "finish_incoming deserialize mid now s =
     do {
       (removed, s1) \<leftarrow> drop_incoming mid (s\<lparr>s_pending_nacks := fm_del (s_pending_nacks s) mid\<rparr>);
       (case removed of
          None \<Rightarrow> Some s1
        | Some reassembler \<Rightarrow>
            (let ack = mr_create_ack reassembler (current_rwnd s1) in
             case mr_assemble reassembler of
               None \<Rightarrow> Some s1
             | Some assembled \<Rightarrow>
                 do {
                   envelope \<leftarrow> deserialize assembled;
                   let s2 = (case envelope of
                               Some (mt, payload) \<Rightarrow>
                                 s1\<lparr>s_events := s_events s1 @ [MessageCompleted mid mt payload]\<rparr>
                             | None \<Rightarrow> s1);
                   s3 \<leftarrow> remember_completed mid ack now s2;
                   Some (s3\<lparr>s_pending_acks := fm_set (s_pending_acks s3) mid (2, now)\<rparr>)
                 }))
     }"

definition process_fragment ::
    "(bytes \<Rightarrow> (message_type \<times> bytes) option panics) \<Rightarrow> message_id \<Rightarrow> fragment_index \<Rightarrow> bytes \<Rightarrow> instant
       \<Rightarrow> 'c session \<Rightarrow> (packet list \<times> 'c session) panics" where
  "process_fragment deserialize mid idx data now s =
     do {
       entry \<leftarrow> fm_get (s_incoming s) mid;
       (res, entry1) \<leftarrow> mr_add_fragment entry idx data now;
       let s0 = s\<lparr>s_incoming := fm_set (s_incoming s) mid entry1\<rparr>;
       (case res of
          Inl _ \<Rightarrow> do { (_, s1) \<leftarrow> drop_incoming mid s0; Some ([], s1) }
        | Inr all_in \<Rightarrow>
            do {
              let s1 = note_gap mid idx (fb_base_index (mr_buffer entry1)) now s0;
              (stays, responses, s2) \<leftarrow> adjust_reservation mid entry1 s1;
              (if \<not> stays then Some (responses, s2)
               else if all_in then do { s3 \<leftarrow> finish_incoming deserialize mid now s2; Some (responses, s3) }
               else
                 (let ((count, since), m) = fm_or_insert (s_pending_acks s2) mid (0, now)
                  in Some (responses, s2\<lparr>s_pending_acks := fm_set m mid (count + 1, since)\<rparr>)))
            })
     }"

definition handle_data_packet ::
    "(bytes \<Rightarrow> (message_type \<times> bytes) option panics) \<Rightarrow> message_id \<Rightarrow> fragment_index \<Rightarrow> fragment_count \<Rightarrow> bytes
       \<Rightarrow> instant \<Rightarrow> 'c session \<Rightarrow> (packet list \<times> 'c session) panics" where
  "handle_data_packet deserialize mid idx tot data now s =
     (case check_completed_message mid s of
        Some reply \<Rightarrow> Some ([reply], s)
      | None \<Rightarrow>
          if is_ancient_message mid s then Some ([], s)
          else
            (let peeked = (if idx = 0 then peek_message_type data else None);
                 ((ok, responses), s1) = ensure_reassembler mid peeked tot (length data) now s
             in if \<not> ok then Some (responses, s1)
                else do {
                  (more, s2) \<leftarrow> process_fragment deserialize mid idx data now s1;
                  Some (responses @ more, s2)
                }))"

section \<open>Receiving acknowledgements\<close>

definition cc_note :: "('c \<Rightarrow> 'c) \<Rightarrow> 'c session \<Rightarrow> 'c session" where
  "cc_note f s = s\<lparr>s_congestion_control := f (s_congestion_control s)\<rparr>"

text \<open>
  The blocks of \<^verbatim>\<open>handle_ack_packet\<close> in order: the peer's window, the bookkeeping of a message's
  acknowledgement, the delivery sample, and the removal of a finished message.
\<close>

definition note_peer_rwnd :: "selective_ack \<Rightarrow> 'c session \<Rightarrow> 'c session" where
  "note_peer_rwnd ack s =
     (let rwnd_bytes = ack_rwnd ack * ESTIMATED_PAYLOAD_SIZE;
          s1 = (if rwnd_bytes \<ge> ESTIMATED_PAYLOAD_SIZE then s\<lparr>s_zero_window_probes_sent := 0\<rparr> else s)
      in s1\<lparr>s_peer_rwnd := rwnd_bytes\<rparr>)"

definition apply_delivery ::
    "'c cc_ops \<Rightarrow> message_id \<Rightarrow> outgoing_message \<Rightarrow> ack_result \<Rightarrow> instant \<Rightarrow> 'c session \<Rightarrow> 'c session" where
  "apply_delivery ops mid msg res now s =
     (let s1 = s\<lparr>s_outgoing := fm_set (s_outgoing s) mid msg,
                 s_delivered_bytes := s_delivered_bytes s + newly_delivered_bytes res\<rparr>;
          s2 = (if newly_delivered_bytes res > 0 then s1\<lparr>s_last_delivery_time := now\<rparr> else s1);
          s3 = s2\<lparr>s_in_flight := s_in_flight s2 - newly_completed_in_flight_bytes res\<rparr>
      in if loss_detected res then cc_note (\<lambda>c. cc_on_nack ops c now) s3 else s3)"

definition final_delivery_sample :: "ack_result \<Rightarrow> instant \<Rightarrow> 'c session \<Rightarrow> cc_sample option panics" where
  "final_delivery_sample res now s =
     (case delivery_sample res of
        None \<Rightarrow> Some None
      | Some (at_send, time_at_send, _, limited) \<Rightarrow>
          do {
            bytes \<leftarrow> checked_sub (s_delivered_bytes s) at_send;
            Some (Some \<lparr>ds_bytes_delivered = bytes,
                        ds_duration = saturating_duration_since now time_at_send,
                        ds_now = now, ds_app_limited = limited\<rparr>)
          })"

definition finish_outgoing :: "message_id \<Rightarrow> outgoing_message \<Rightarrow> 'c session \<Rightarrow> 'c session" where
  "finish_outgoing mid msg s =
     (if om_all_acked msg then
        s\<lparr>s_events := s_events s @ [MessageAcked mid, ReadyToSend],
          s_scheduler := sched_remove_message (s_scheduler s) mid,
          s_outgoing := fm_del (s_outgoing s) mid\<rparr>
      else s)"

definition handle_ack_packet :: "'c cc_ops \<Rightarrow> selective_ack \<Rightarrow> instant \<Rightarrow> 'c session \<Rightarrow> 'c session panics" where
  "handle_ack_packet ops ack now s =
     (let mid = ack_message_id ack; s1 = note_peer_rwnd ack s in
      case fm_get (s_outgoing s1) mid of
        None \<Rightarrow>
          Some (cc_note (\<lambda>c. cc_on_ack ops c (srtt (s_rtt s1)) None 0 (s_in_flight s1) now) s1)
      | Some msg \<Rightarrow>
          do {
            (res, msg') \<leftarrow> om_on_ack msg (ack_base_index ack) (ack_bitmask ack) now (s_delivered_bytes s1);
            let s2 = apply_delivery ops mid msg' res now s1;
            sample \<leftarrow> final_delivery_sample res now s2;
            est \<leftarrow> (case min_rtt res of None \<Rightarrow> Some (s_rtt s2) | Some r \<Rightarrow> rtt_update (s_rtt s2) r);
            let s3 = s2\<lparr>s_rtt := est\<rparr>;
            let report = (case first_rtt res of Some r \<Rightarrow> r | None \<Rightarrow> srtt (s_rtt s3));
            let s4 = cc_note (\<lambda>c. cc_on_ack ops c report sample (newly_delivered_bytes res)
                                   (s_in_flight s3) now) s3;
            Some (finish_outgoing mid msg' s4)
          })"

text \<open>
  The loop of \<^verbatim>\<open>handle_nack_packet\<close>; the message, the session's flight, the indices to drop from
  the in-flight queue and the two flags are its state.
\<close>

record nack_state =
  ns_msg :: outgoing_message
  ns_in_flight :: nat
  ns_remove :: bitset
  ns_cleanup :: bool
  ns_triggered :: bool

definition nack_index :: "fragment_index \<Rightarrow> nack_state \<Rightarrow> nack_state panics" where
  "nack_index idx ns =
     (let m = ns_msg ns in
      if om_is_acked m idx then Some ns
      else do {
        state \<leftarrow> index_at (fragment_states m) idx;
        let m1 = m\<lparr>fragment_states := (fragment_states m)[idx := state\<lparr>last_sent := None\<rparr>]\<rparr>;
        let ns1 = ns\<lparr>ns_msg := m1\<rparr>;
        let ns2 =
          (if last_sent state \<noteq> None then
             ns1\<lparr>ns_in_flight := ns_in_flight ns1 - om_fragment_len m1 idx,
                 ns_remove := snd (bs_set (ns_remove ns1) idx),
                 ns_cleanup := (ns_cleanup ns1 \<or> fst (bs_set (ns_remove ns1) idx))\<rparr>
           else ns1);
        let m2 = ns_msg ns2;
        let m3 = (if bs_get (retransmit_bitset m2) idx then m2
                  else m2\<lparr>retransmit_queue := retransmit_queue m2 @ [idx],
                          retransmit_bitset := snd (bs_set (retransmit_bitset m2) idx)\<rparr>);
        Some (ns2\<lparr>ns_msg := m3, ns_triggered := True\<rparr>)
      })"

fun nack_indices :: "fragment_index list \<Rightarrow> nack_state \<Rightarrow> nack_state panics" where
  "nack_indices [] ns = Some ns"
| "nack_indices (idx # idxs) ns = do { ns' \<leftarrow> nack_index idx ns; nack_indices idxs ns' }"

definition handle_nack_packet :: "'c cc_ops \<Rightarrow> nack \<Rightarrow> instant \<Rightarrow> 'c session \<Rightarrow> 'c session panics" where
  "handle_nack_packet ops n now s =
     (case fm_get (s_outgoing s) (nack_message_id n) of
        None \<Rightarrow> Some s
      | Some msg \<Rightarrow>
          do {
            ns \<leftarrow> nack_indices (nack_missing_indices n)
                   \<lparr>ns_msg = msg, ns_in_flight = s_in_flight s, ns_remove = bs_new BITSET_WORDS,
                    ns_cleanup = False, ns_triggered = False\<rparr>;
            let msg' = (if ns_cleanup ns
                        then (ns_msg ns)\<lparr>in_flight_queue :=
                               filter (\<lambda>(idx, _). \<not> bs_get (ns_remove ns) idx) (in_flight_queue (ns_msg ns))\<rparr>
                        else ns_msg ns);
            let s1 = s\<lparr>s_outgoing := fm_set (s_outgoing s) (nack_message_id n) msg',
                       s_in_flight := ns_in_flight ns\<rparr>;
            Some (if ns_triggered ns then cc_note (\<lambda>c. cc_on_nack ops c now) s1 else s1)
          })"

section \<open>Packets\<close>

text \<open>Checked \<^verbatim>\<open>i64\<close> arithmetic, and division by two rounding towards zero.\<close>

definition i64 :: "int \<Rightarrow> int panics" where
  "i64 x = (if - (2 ^ 63) \<le> x \<and> x < 2 ^ 63 then Some x else None)"

definition half_i64 :: "int \<Rightarrow> int" where
  "half_i64 x = (if 0 \<le> x then x div 2 else - ((- x) div 2))"

definition pong_offset :: "int \<Rightarrow> int \<Rightarrow> int \<Rightarrow> int \<Rightarrow> int panics" where
  "pong_offset t1 t2 t3 t4 =
     do { a \<leftarrow> i64 (t2 - t1); b \<leftarrow> i64 (t3 - t4); c \<leftarrow> i64 (a + b); Some (half_i64 c) }"

definition handle_pong :: "'c cc_ops \<Rightarrow> int \<Rightarrow> int \<Rightarrow> int \<Rightarrow> int \<Rightarrow> instant \<Rightarrow> 'c session \<Rightarrow> 'c session panics" where
  "handle_pong ops sys_ms t1 t2 t3 now s =
     (case s_last_ping_sent s of
        None \<Rightarrow> Some s
      | Some sent_time \<Rightarrow>
          do {
            let s1 = s\<lparr>s_last_ping_sent := None\<rparr>;
            let sample = saturating_duration_since now sent_time;
            est \<leftarrow> rtt_update (s_rtt s1) sample;
            off \<leftarrow> pong_offset t1 t2 t3 sys_ms;
            let s2 = s1\<lparr>s_rtt := est, s_clock_offset := off\<rparr>;
            Some (cc_note (\<lambda>c. cc_on_ack ops c sample None 0 (s_in_flight s2) now) s2)
          })"

definition handle_packet_internal ::
    "'c cc_ops \<Rightarrow> (bytes \<Rightarrow> (message_type \<times> bytes) option panics) \<Rightarrow> int \<Rightarrow> int \<Rightarrow> packet \<Rightarrow> instant
       \<Rightarrow> 'c session \<Rightarrow> (packet list \<times> 'c session) panics" where
  "handle_packet_internal ops deserialize sys_ms jitter p now s =
     (case p of
        Data mid idx tot data \<Rightarrow> handle_data_packet deserialize mid idx tot data now s
      | Ack ack \<Rightarrow> do { s' \<leftarrow> handle_ack_packet ops ack now s; Some ([], s') }
      | Nack n \<Rightarrow> do { s' \<leftarrow> handle_nack_packet ops n now s; Some ([], s') }
      | Ping t1 \<Rightarrow> do { t2 \<leftarrow> i64 (sys_ms + jitter); t3 \<leftarrow> i64 (sys_ms + jitter); Some ([Pong t1 t2 t3], s) }
      | Pong t1 t2 t3 \<Rightarrow> do { s' \<leftarrow> handle_pong ops sys_ms t1 t2 t3 now s; Some ([], s') }
      | Datagram mt data \<Rightarrow> Some ([], s\<lparr>s_events := s_events s @ [MessageCompleted 0 mt data]\<rparr>))"

definition handle_packet ::
    "'c cc_ops \<Rightarrow> (bytes \<Rightarrow> (message_type \<times> bytes) option panics) \<Rightarrow> int \<Rightarrow> int \<Rightarrow> packet \<Rightarrow> instant
       \<Rightarrow> 'c session \<Rightarrow> (packet list \<times> 'c session) panics" where
  "handle_packet ops deserialize sys_ms jitter p now s =
     do {
       (replies, s1) \<leftarrow> handle_packet_internal ops deserialize sys_ms jitter p now (s\<lparr>s_last_activity := now\<rparr>);
       Some (replies, check_cwnd_change ops s1)
     }"

section \<open>Housekeeping\<close>

definition cleanup_incoming_entry ::
    "instant \<Rightarrow> message_id \<Rightarrow> message_reassembler \<Rightarrow> (nat \<times> quota) panics
       \<Rightarrow> (bool \<times> message_reassembler) \<times> (nat \<times> quota) panics" where
  "cleanup_incoming_entry now mid r st =
     (if saturating_duration_since now (mr_last_activity r) \<ge> from_secs REASSEMBLY_TIMEOUT_SECS
      then ((False, r), do { (sz, q) \<leftarrow> st;
                             sz' \<leftarrow> checked_sub sz (mr_reserved_bytes r);
                             Some (sz', quota_release q (mr_reserved_bytes r)) })
      else ((True, r), st))"

definition release_flight :: "outgoing_message \<Rightarrow> nat \<Rightarrow> nat" where
  "release_flight m in_flight =
     fold (\<lambda>(idx, state) fl. if last_sent state \<noteq> None then fl - om_fragment_len m (idx mod 65536) else fl)
       (enumerate 0 (fragment_states m)) in_flight"

definition cleanup_outgoing_entry ::
    "instant \<Rightarrow> message_id \<Rightarrow> outgoing_message \<Rightarrow> nat \<times> session_event list \<times> scheduler
       \<Rightarrow> (bool \<times> outgoing_message) \<times> (nat \<times> session_event list \<times> scheduler)" where
  "cleanup_outgoing_entry now mid m st =
     (case st of (in_flight, evs, sched) \<Rightarrow>
        let elapsed = saturating_duration_since now (last_ack_at m) in
        if elapsed \<ge> om_timeout m \<or> elapsed \<ge> CONNECTION_TIMEOUT then
          ((False, m\<lparr>in_flight_queue := []\<rparr>),
           (release_flight m in_flight,
            evs @ [MessageFailed mid ''Timed out'', ReadyToSend],
            sched_remove_message sched mid))
        else ((True, m), st))"

definition cleanup :: "instant \<Rightarrow> 'c session \<Rightarrow> 'c session panics" where
  "cleanup now s =
     do {
       let (inc, st) = fm_retain (cleanup_incoming_entry now) (s_incoming s)
                         (Some (s_incoming_buffer_size s, s_quota s));
       (sz, q) \<leftarrow> st;
       let s1 = s\<lparr>s_incoming := inc, s_incoming_buffer_size := sz, s_quota := q\<rparr>;
       let (out, (fl, evs, sched)) = fm_retain (cleanup_outgoing_entry now) (s_outgoing s1)
                         (s_in_flight s1, s_events s1, s_scheduler s1);
       let s2 = s1\<lparr>s_outgoing := out, s_in_flight := fl, s_events := evs, s_scheduler := sched\<rparr>;
       Some (s2\<lparr>s_completed_incoming :=
         filter (\<lambda>(_, (_, time)). saturating_duration_since now time < from_secs 30)
           (s_completed_incoming s2)\<rparr>)
     }"

definition is_dead :: "instant \<Rightarrow> 'c session \<Rightarrow> bool" where
  "is_dead now s \<longleftrightarrow> saturating_duration_since now (s_last_activity s) > CONNECTION_TIMEOUT"

definition retransmit_queue_len :: "'c session \<Rightarrow> nat" where
  "retransmit_queue_len s = sum_list (map (\<lambda>m. length (retransmit_queue m)) (fm_values (s_outgoing s)))"

definition poll_event :: "'c session \<Rightarrow> session_event option \<times> 'c session" where
  "poll_event s =
     (case s_events s of [] \<Rightarrow> (None, s) | e # es \<Rightarrow> (Some e, s\<lparr>s_events := es\<rparr>))"

text \<open>\<^verbatim>\<open>Drop\<close>: the session gives its reservation back.\<close>

definition session_drop :: "'c session \<Rightarrow> quota" where
  "session_drop s = quota_release (s_quota s) (s_incoming_buffer_size s)"

end
