(* ===== verification/Outgoing_Inv.thy ===== *)
theory Outgoing_Inv
  imports Outgoing
begin

text \<open>
  The invariant of \<^verbatim>\<open>OutgoingMessage\<close> and what \<^verbatim>\<open>on_ack\<close> guarantees: it never panics, marks
  exactly the named fragments, counts every delivered byte once and reports exactly the bytes
  that leave the flight.
\<close>

section \<open>The invariant\<close>

text \<open>
  \<open>t0\<close> is a lower bound of the send times and \<open>dlv\<close> the session's count of delivered bytes.
\<close>

abbreviation acked :: "outgoing_message \<Rightarrow> nat set" where
  "acked m \<equiv> bs_members (acked_bitset m)"

abbreviation state_at :: "outgoing_message \<Rightarrow> nat \<Rightarrow> fragment_state" where
  "state_at m i \<equiv> fragment_states m ! i"

definition info_ok :: "instant \<Rightarrow> nat \<Rightarrow> nat \<Rightarrow> fragment_delivery_info \<Rightarrow> bool" where
  "info_ok t0 dlv len info \<longleftrightarrow>
     delivered_at_send info \<le> dlv \<and> info_size info = len \<and> t0 \<le> first_sent_time info"

definition state_ok :: "instant \<Rightarrow> nat \<Rightarrow> nat \<Rightarrow> fragment_state \<Rightarrow> bool" where
  "state_ok t0 dlv len st \<longleftrightarrow>
     (case delivery_info st of None \<Rightarrow> last_sent st = None | Some info \<Rightarrow> info_ok t0 dlv len info)"

definition om_sized :: "outgoing_message \<Rightarrow> bool" where
  "om_sized m \<longleftrightarrow>
     0 < payload_mtu m \<and> div_ceil (length (om_data m)) (payload_mtu m) = num_fragments m \<and>
     num_fragments m \<le> MAX_FRAGMENTS_PER_MESSAGE"

definition retransmits_ok :: "nat \<Rightarrow> nat list \<Rightarrow> bitset \<Rightarrow> bool" where
  "retransmits_ok num queue bits \<longleftrightarrow>
     length bits = BITSET_WORDS \<and> distinct queue \<and> set queue = bs_members bits \<and>
     set queue \<subseteq> {..<num}"

definition om_core :: "instant \<Rightarrow> nat \<Rightarrow> outgoing_message \<Rightarrow> bool" where
  "om_core t0 dlv m \<longleftrightarrow>
     om_sized m \<and> length (fragment_states m) = num_fragments m \<and>
     length (acked_bitset m) = BITSET_WORDS \<and>
     acked m \<subseteq> {..<num_fragments m} \<and> acked_count m = card (acked m) \<and>
     retransmits_ok (num_fragments m) (retransmit_queue m) (retransmit_bitset m) \<and>
     fst ` set (in_flight_queue m) \<subseteq> {..<num_fragments m} \<and>
     next_fragment m \<le> num_fragments m \<and>
     (\<forall>i < num_fragments m. state_ok t0 dlv (om_fragment_len m i) (state_at m i)) \<and>
     (\<forall>i < num_fragments m. last_sent (state_at m i) \<noteq> None \<longrightarrow> i \<in> fst ` set (in_flight_queue m))"

definition hca_ok :: "outgoing_message \<Rightarrow> bool" where
  "hca_ok m \<longleftrightarrow> {..<min (highest_cumulative_ack m) (num_fragments m)} \<subseteq> acked m"

definition om_wf :: "instant \<Rightarrow> nat \<Rightarrow> outgoing_message \<Rightarrow> bool" where
  "om_wf t0 dlv m \<longleftrightarrow> om_core t0 dlv m \<and> hca_ok m"

lemma om_wf_core: "om_wf t0 dlv m \<Longrightarrow> om_core t0 dlv m" by (simp add: om_wf_def)

text \<open>Bytes of the message counted in flight.\<close>

definition om_inflight :: "outgoing_message \<Rightarrow> nat" where
  "om_inflight m =
     (\<Sum>i \<in> {i. i < num_fragments m \<and> last_sent (state_at m i) \<noteq> None}. om_fragment_len m i)"

lemma om_sized_cong:
  "num_fragments m' = num_fragments m \<Longrightarrow> payload_mtu m' = payload_mtu m \<Longrightarrow> om_data m' = om_data m \<Longrightarrow>
     om_sized m' = om_sized m"
  by (simp add: om_sized_def)

lemma om_core_lengths:
  assumes "om_core t0 dlv m"
  shows "num_fragments m \<le> 1024" "length (fragment_states m) = num_fragments m"
    "length (acked_bitset m) = 16" "length (retransmit_bitset m) = 16"
    "\<And>i. i < num_fragments m \<Longrightarrow> i < length (acked_bitset m) * 64"
  using assms by (auto simp: om_core_def om_sized_def retransmits_ok_def MAX_FRAGMENTS_PER_MESSAGE_def)

lemma om_core_state: "om_core t0 dlv m \<Longrightarrow> i < num_fragments m \<Longrightarrow>
    state_ok t0 dlv (om_fragment_len m i) (state_at m i)"
  by (simp add: om_core_def)

lemma om_core_queue: "om_core t0 dlv m \<Longrightarrow> fst ` set (in_flight_queue m) \<subseteq> {..<num_fragments m}"
  by (simp add: om_core_def)

lemma om_core_flight: "om_core t0 dlv m \<Longrightarrow> i < num_fragments m \<Longrightarrow>
    last_sent (state_at m i) \<noteq> None \<Longrightarrow> i \<in> fst ` set (in_flight_queue m)"
  unfolding om_core_def by blast

lemma bs_get_acked: "bs_get (acked_bitset m) i \<longleftrightarrow> i \<in> acked m"
  by (simp add: bs_members_def)

lemma om_is_acked_iff: "om_is_acked m i \<longleftrightarrow> i < num_fragments m \<longrightarrow> i \<in> acked m"
  by (auto simp: om_is_acked_def bs_get_acked)

text \<open>Fragment boundaries: no subtraction in \<^verbatim>\<open>fragment_len\<close> or \<^verbatim>\<open>get_fragment\<close> can underflow.\<close>

lemma fragment_start_less:
  assumes "om_core t0 dlv m" and "i < num_fragments m"
  shows "i * payload_mtu m < length (om_data m)"
proof -
  have mtu: "0 < payload_mtu m" and num: "num_fragments m = div_ceil (length (om_data m)) (payload_mtu m)"
    using assms by (auto simp: om_core_def om_sized_def)
  have "\<not> div_ceil (length (om_data m)) (payload_mtu m) \<le> i" using assms(2) num by simp
  then show ?thesis unfolding div_ceil_le_iff [OF mtu] by simp
qed

lemma om_get_fragment_len:
  "om_core t0 dlv m \<Longrightarrow> length (om_get_fragment m i) = om_fragment_len m i"
  using fragment_start_less [of t0 dlv m i]
  by (auto simp: om_get_fragment_def om_fragment_len_def Let_def)

lemma om_fragment_len_bounds:
  assumes "om_core t0 dlv m" and "i < num_fragments m"
  shows "0 < om_fragment_len m i" "om_fragment_len m i \<le> payload_mtu m"
  using fragment_start_less [OF assms] assms
  by (auto simp: om_fragment_len_def Let_def om_core_def om_sized_def)

text \<open>Splitting and concatenating is the identity.\<close>

lemma concat_chunks:
  "0 < mtu \<Longrightarrow>
     concat (map (\<lambda>i. drop (i * mtu) (take (min (i * mtu + mtu) (length xs)) xs)) [0..<n]) =
     take (n * mtu) xs"
proof (induction n)
  case (Suc n)
  have "take (n * mtu) xs @ drop (n * mtu) (take (min (n * mtu + mtu) (length xs)) xs) =
      take (Suc n * mtu) xs"
  proof (cases "n * mtu \<le> length xs")
    case True
    have "take (min (n * mtu + mtu) (length xs)) xs = take (Suc n * mtu) xs"
      by (cases "n * mtu + mtu \<le> length xs") (simp_all add: add.commute)
    moreover have "take (n * mtu) xs = take (n * mtu) (take (Suc n * mtu) xs)" by (simp add: min_def)
    ultimately show ?thesis by (metis append_take_drop_id)
  qed simp
  with Suc show ?case by simp
qed simp

lemma concat_fragments:
  assumes "om_core t0 dlv m"
  shows "concat (map (om_get_fragment m) [0..<num_fragments m]) = om_data m"
proof -
  have mtu: "0 < payload_mtu m" and num: "num_fragments m = div_ceil (length (om_data m)) (payload_mtu m)"
    using assms by (auto simp: om_core_def om_sized_def)
  have "map (om_get_fragment m) [0..<num_fragments m] =
    map (\<lambda>i. drop (i * payload_mtu m)
      (take (min (i * payload_mtu m + payload_mtu m) (length (om_data m))) (om_data m))) [0..<num_fragments m]"
    by (intro map_cong) (auto simp: om_get_fragment_def Let_def)
  then have "concat (map (om_get_fragment m) [0..<num_fragments m]) = take (num_fragments m * payload_mtu m) (om_data m)"
    by (simp only: concat_chunks [OF mtu])
  then show ?thesis using div_ceil_bounds(1) [OF mtu, of "length (om_data m)"] num by simp
qed

section \<open>Creation and sending\<close>

lemma om_new_wf:
  assumes "om_new mt data mtu now = Some (Inr m)" and "0 < mtu" and "div_ceil (length data) mtu < 65536"
  shows "om_wf t0 dlv m" "om_inflight m = 0" "num_fragments m = div_ceil (length data) mtu"
    "om_data m = data" "om_message_type m = mt"
proof -
  have num: "(if data = [] then 0 else div_ceil (length data) mtu) mod 65536 = div_ceil (length data) mtu"
    using assms(2,3) by (simp add: div_ceil_def)
  have "div_ceil (length data) mtu \<le> MAX_FRAGMENTS_PER_MESSAGE"
    using assms(1,2) num by (auto simp: om_new_def Let_def split: if_splits)
  with assms(1,2) num show "om_wf t0 dlv m" "om_inflight m = 0"
    "num_fragments m = div_ceil (length data) mtu" "om_data m = data" "om_message_type m = mt"
    by (auto simp: om_new_def Let_def om_wf_def om_core_def om_sized_def retransmits_ok_def hca_ok_def state_ok_def om_inflight_def
        fragment_state_new_def MAX_FRAGMENTS_PER_MESSAGE_def split: if_splits)
qed

lemma om_fragment_len_cong:
  "num_fragments m' = num_fragments m \<Longrightarrow> payload_mtu m' = payload_mtu m \<Longrightarrow> om_data m' = om_data m \<Longrightarrow>
     om_fragment_len m' = om_fragment_len m"
  by (simp add: om_fragment_len_def fun_eq_iff)

lemma state_ok_mono: "state_ok t0 dlv l s \<Longrightarrow> dlv \<le> dlv' \<Longrightarrow> state_ok t0 dlv' l s"
  by (auto simp: state_ok_def info_ok_def split: option.splits)

lemma om_wf_mono: "om_wf t0 dlv m \<Longrightarrow> dlv \<le> dlv' \<Longrightarrow> om_wf t0 dlv' m"
  using state_ok_mono by (fastforce simp: om_wf_def om_core_def)

text \<open>Replacing one fragment's state and the in-flight queue.\<close>

lemma om_core_set_state:
  assumes core: "om_core t0 dlv m" and s: "state_ok t0 dlv (om_fragment_len m idx) s'"
    and q: "fst ` set q \<subseteq> {..<num_fragments m}"
    and idx: "last_sent s' \<noteq> None \<Longrightarrow> idx \<in> fst ` set q"
    and other: "\<And>i. i < num_fragments m \<Longrightarrow> i \<noteq> idx \<Longrightarrow> last_sent (state_at m i) \<noteq> None \<Longrightarrow> i \<in> fst ` set q"
  shows "om_core t0 dlv (m\<lparr>fragment_states := (fragment_states m)[idx := s'], in_flight_queue := q\<rparr>)"
    (is "om_core _ _ ?m")
proof -
  have flen: "om_fragment_len ?m = om_fragment_len m" by (rule om_fragment_len_cong) simp_all
  have len: "length (fragment_states m) = num_fragments m" using core by (simp add: om_core_def)
  have "\<forall>i < num_fragments m. state_ok t0 dlv (om_fragment_len m i) (state_at ?m i)"
  proof (intro allI impI)
    fix i assume "i < num_fragments m"
    then show "state_ok t0 dlv (om_fragment_len m i) (state_at ?m i)"
      using om_core_state [OF core] s len by (cases "i = idx") simp_all
  qed
  moreover have "\<forall>i < num_fragments m. last_sent (state_at ?m i) \<noteq> None \<longrightarrow> i \<in> fst ` set q"
  proof (intro allI impI)
    fix i assume i: "i < num_fragments m" "last_sent (state_at ?m i) \<noteq> None"
    show "i \<in> fst ` set q"
    proof (cases "i = idx")
      case True
      then have "last_sent s' \<noteq> None" using i len by (simp del: not_None_eq)
      with True show ?thesis using idx by simp
    next
      case False
      then have "last_sent (state_at m i) \<noteq> None" using i by (simp del: not_None_eq)
      with False show ?thesis using other [OF i(1)] by simp
    qed
  qed
  ultimately show ?thesis
    using core q om_sized_cong [of ?m m] unfolding om_core_def flen by simp
qed

lemma om_mark_fragment_sent_wf:
  assumes wf: "om_wf t0 dlv m" and idx: "idx < num_fragments m" and t: "t0 \<le> now"
    and sz: "sz = om_fragment_len m idx"
  obtains flags m' where
    "om_mark_fragment_sent m idx now dlv last_delivery limited sz = Some (flags, m')"
    "om_wf t0 dlv m'"
    "snd flags \<longleftrightarrow> last_sent (state_at m idx) \<noteq> None"
    "om_inflight m' = om_inflight m + (if snd flags then 0 else sz)"
    "retransmit_queue m' = retransmit_queue m" "retransmit_bitset m' = retransmit_bitset m"
    "next_fragment m' = next_fragment m" "num_fragments m' = num_fragments m"
    "in_flight_queue m' = in_flight_queue m @ [(idx, now)]" "acked_bitset m' = acked_bitset m"
    "last_sent (state_at m' idx) = Some now" "payload_mtu m' = payload_mtu m" "om_data m' = om_data m"
proof -
  have core: "om_core t0 dlv m" using wf by (rule om_wf_core)
  have len: "idx < length (fragment_states m)" using core idx by (simp add: om_core_def)
  define flags where "flags = (delivery_info (state_at m idx) \<noteq> None, last_sent (state_at m idx) \<noteq> None)"
  define s' where "s' = (if delivery_info (state_at m idx) \<noteq> None
      then (state_at m idx)\<lparr>frag_retransmit_count := frag_retransmit_count (state_at m idx) + 1\<rparr>
      else (state_at m idx)\<lparr>delivery_info := Some
             \<lparr>delivered_at_send = dlv, delivery_time_at_send = last_delivery,
              first_sent_time = now, info_size = sz, info_app_limited = limited\<rparr>\<rparr>)\<lparr>last_sent := Some now\<rparr>"
  define m' where "m' = m\<lparr>fragment_states := (fragment_states m)[idx := s'],
           in_flight_queue := in_flight_queue m @ [(idx, now)]\<rparr>"
  have call: "om_mark_fragment_sent m idx now dlv last_delivery limited sz = Some (flags, m')"
    using len by (simp add: om_mark_fragment_sent_def Let_def flags_def m'_def s'_def)
  have flen: "om_fragment_len m' = om_fragment_len m"
    by (rule om_fragment_len_cong) (simp_all add: m'_def)
  have s'_ok: "state_ok t0 dlv (om_fragment_len m idx) s'"
    using om_core_state [OF core idx] t sz by (auto simp: s'_def state_ok_def info_ok_def split: option.splits)
  have "om_core t0 dlv m'"
    unfolding m'_def
  proof (rule om_core_set_state [OF core s'_ok])
    show "fst ` set (in_flight_queue m @ [(idx, now)]) \<subseteq> {..<num_fragments m}"
      using om_core_queue [OF core] idx by simp
    show "i \<in> fst ` set (in_flight_queue m @ [(idx, now)])"
      if "i < num_fragments m" "last_sent (state_at m i) \<noteq> None" for i
      using om_core_flight [OF core that] by simp
  qed simp
  then have wf': "om_wf t0 dlv m'" using wf by (simp add: om_wf_def hca_ok_def m'_def)
  have "{i. i < num_fragments m' \<and> last_sent (state_at m' i) \<noteq> None} =
      insert idx {i. i < num_fragments m \<and> last_sent (state_at m i) \<noteq> None}"
    using idx len by (auto simp: m'_def nth_list_update s'_def)
  then have "om_inflight m' = om_inflight m + (if snd flags then 0 else sz)"
    using idx sz by (simp add: om_inflight_def flen flags_def sum.insert_if insert_absorb)
  with call wf' show ?thesis
    using len by (intro that [of flags m']) (auto simp: m'_def flags_def s'_def)
qed

section \<open>Inside \<^verbatim>\<open>on_ack\<close>\<close>

text \<open>
  \<open>m0\<close> is the message when the acknowledgement arrived, \<open>st\<close> the state while it is processed:
  what changed so far is recorded in \<open>to_remove\<close> and in the result.
\<close>

definition same_shape :: "outgoing_message \<Rightarrow> outgoing_message \<Rightarrow> bool" where
  "same_shape m0 m \<longleftrightarrow>
     num_fragments m = num_fragments m0 \<and> payload_mtu m = payload_mtu m0 \<and> om_data m = om_data m0 \<and>
     in_flight_queue m = in_flight_queue m0 \<and> next_fragment m = next_fragment m0 \<and>
     (\<forall>i < num_fragments m0. delivery_info (state_at m i) = delivery_info (state_at m0 i) \<and>
        (last_sent (state_at m i) = None \<or> last_sent (state_at m i) = last_sent (state_at m0 i)))"

definition left_flight :: "outgoing_message \<Rightarrow> outgoing_message \<Rightarrow> nat set" where
  "left_flight m0 m = {i. i < num_fragments m0 \<and> last_sent (state_at m0 i) \<noteq> None \<and>
     last_sent (state_at m i) = None}"

definition sent_bytes :: "outgoing_message \<Rightarrow> nat \<Rightarrow> nat" where
  "sent_bytes m i = (if delivery_info (state_at m i) = None then 0 else om_fragment_len m i)"

text \<open>The samples an acknowledgement reports stay within the session's life and delivered bytes.\<close>

definition result_ok :: "instant \<Rightarrow> nat \<Rightarrow> instant \<Rightarrow> ack_result \<Rightarrow> bool" where
  "result_ok t0 dlv now res \<longleftrightarrow>
     (\<forall>r. min_rtt res = Some r \<longrightarrow> r \<le> nat (now - t0)) \<and>
     (\<forall>r. first_rtt res = Some r \<longrightarrow> r \<le> nat (now - t0)) \<and>
     (\<forall>d t r l. delivery_sample res = Some (d, t, r, l) \<longrightarrow> d \<le> dlv)"

definition ack_inv :: "instant \<Rightarrow> nat \<Rightarrow> instant \<Rightarrow> outgoing_message \<Rightarrow> ack_state \<Rightarrow> bool" where
  "ack_inv t0 dlv now m0 st \<longleftrightarrow>
     om_core t0 dlv (as_msg st) \<and> same_shape m0 (as_msg st) \<and>
     length (to_remove st) = BITSET_WORDS \<and> bs_members (to_remove st) = left_flight m0 (as_msg st) \<and>
     (needs_cleanup st \<longleftrightarrow> left_flight m0 (as_msg st) \<noteq> {}) \<and>
     acked m0 \<subseteq> acked (as_msg st) \<and>
     newly_delivered_bytes (as_res st) = (\<Sum>i \<in> acked (as_msg st) - acked m0. sent_bytes m0 i) \<and>
     newly_completed_in_flight_bytes (as_res st) = 0 \<and> result_ok t0 dlv now (as_res st)"

lemma ack_invD:
  assumes "ack_inv t0 dlv now m0 st"
  shows "om_core t0 dlv (as_msg st)" "same_shape m0 (as_msg st)"
    "num_fragments (as_msg st) = num_fragments m0" "om_fragment_len (as_msg st) = om_fragment_len m0"
    "length (fragment_states (as_msg st)) = num_fragments m0"
    "num_fragments m0 \<le> 1024" "length (to_remove st) = 16" "length (acked_bitset (as_msg st)) = 16"
proof -
  show core: "om_core t0 dlv (as_msg st)" and sh: "same_shape m0 (as_msg st)"
    using assms by (simp_all add: ack_inv_def)
  from sh show n: "num_fragments (as_msg st) = num_fragments m0" by (simp add: same_shape_def)
  from sh show "om_fragment_len (as_msg st) = om_fragment_len m0"
    by (intro om_fragment_len_cong) (simp_all add: same_shape_def)
  from om_core_lengths [OF core] n
  show "length (fragment_states (as_msg st)) = num_fragments m0" "num_fragments m0 \<le> 1024"
    "length (acked_bitset (as_msg st)) = 16" by simp_all
  from assms show "length (to_remove st) = 16" by (simp add: ack_inv_def)
qed

lemma update_delivery_sample_ok:
  assumes "result_ok t0 dlv now res" and "info_ok t0 dlv len info"
  obtains res' where "update_delivery_sample info dlv now res = Some res'" "result_ok t0 dlv now res'"
    "newly_delivered_bytes res' = newly_delivered_bytes res" "loss_detected res' = loss_detected res"
    "newly_completed_in_flight_bytes res' = newly_completed_in_flight_bytes res"
proof (cases "saturating_duration_since now (delivery_time_at_send info) = 0")
  case True
  then show ?thesis using assms that [of res] by (simp add: update_delivery_sample_def)
next
  case False
  have "delivered_at_send info \<le> dlv + newly_delivered_bytes res"
    using assms(2) by (simp add: info_ok_def)
  with False assms show ?thesis
    by (intro that [of "the (update_delivery_sample info dlv now res)"])
      (auto simp: update_delivery_sample_def Let_def result_ok_def info_ok_def split: option.splits)
qed

lemma note_rtt_ok:
  "result_ok t0 dlv now res \<Longrightarrow> rtt \<le> nat (now - t0) \<Longrightarrow> result_ok t0 dlv now (note_rtt rtt res)"
  by (auto simp: note_rtt_def result_ok_def Let_def split: option.splits)

lemma note_rtt_frame [frame]:
  "newly_delivered_bytes (note_rtt rtt res) = newly_delivered_bytes res"
  "loss_detected (note_rtt rtt res) = loss_detected res"
  "newly_completed_in_flight_bytes (note_rtt rtt res) = newly_completed_in_flight_bytes res"
  by (simp_all add: note_rtt_def Let_def split: option.splits)

text \<open>A fragment that leaves the flight: its state forgets the send time and it is marked.\<close>

lemma left_flight_update:
  assumes "idx < num_fragments m0" and "length (fragment_states m) = num_fragments m0"
    and "last_sent (state_at m idx) = None \<or> last_sent (state_at m idx) = last_sent (state_at m0 idx)"
    and "fragment_states m' = (fragment_states m)[idx := s']" and "last_sent s' = None"
  shows "left_flight m0 m' = left_flight m0 m \<union> (if last_sent (state_at m idx) \<noteq> None then {idx} else {})"
proof (rule set_eqI)
  fix i
  have "last_sent (state_at m' i) = (if i = idx \<and> i < num_fragments m0 then None else last_sent (state_at m i))"
    using assms(1,2,4,5) by (simp add: nth_list_update)
  then show "i \<in> left_flight m0 m' \<longleftrightarrow>
      i \<in> left_flight m0 m \<union> (if last_sent (state_at m idx) \<noteq> None then {idx} else {})"
    using assms(1,3) by (cases "i = idx") (auto simp: left_flight_def)
qed

lemma same_shape_update:
  assumes "same_shape m0 m" and "length (fragment_states m) = num_fragments m0"
    and "fragment_states m' = (fragment_states m)[idx := s']" and "last_sent s' = None"
    and "delivery_info s' = delivery_info (state_at m idx)"
    and "num_fragments m' = num_fragments m" "payload_mtu m' = payload_mtu m" "om_data m' = om_data m"
    "in_flight_queue m' = in_flight_queue m" "next_fragment m' = next_fragment m"
  shows "same_shape m0 m'"
proof -
  have "delivery_info (state_at m' i) = delivery_info (state_at m i) \<and>
      (last_sent (state_at m' i) = None \<or> last_sent (state_at m' i) = last_sent (state_at m i))" if "i < num_fragments m0" for i
    using assms(2-5) that by (cases "i = idx") simp_all
  with assms(1,6-) show ?thesis unfolding same_shape_def by metis
qed

lemma om_core_irrelevant [simp]:
  "om_core t0 dlv (m\<lparr>highest_sent_time_acked := x\<rparr>) = om_core t0 dlv m"
  "om_core t0 dlv (m\<lparr>dup_ack_count := n\<rparr>) = om_core t0 dlv m"
  "om_core t0 dlv (m\<lparr>last_ack_base := b\<rparr>) = om_core t0 dlv m"
  "om_core t0 dlv (m\<lparr>last_ack_at := t\<rparr>) = om_core t0 dlv m"
  "om_core t0 dlv (m\<lparr>highest_cumulative_ack := b\<rparr>) = om_core t0 dlv m"
  "om_core t0 dlv (m\<lparr>om_timeout := d\<rparr>) = om_core t0 dlv m"
  by (simp_all add: om_core_def om_sized_def om_fragment_len_def)

lemma om_core_set_acked:
  assumes "om_core t0 dlv m" and "idx < num_fragments m" and "idx \<notin> acked m"
  shows "om_core t0 dlv (m\<lparr>acked_bitset := snd (bs_set (acked_bitset m) idx),
    acked_count := acked_count m + 1\<rparr>)" (is "om_core _ _ ?m")
proof -
  have a: "acked ?m = insert idx (acked m)"
    using om_core_lengths(5) [OF assms(1,2)] by (simp add: bs_members_set)
  have flen: "om_fragment_len ?m = om_fragment_len m" by (rule om_fragment_len_cong) simp_all
  have "card (insert idx (acked m)) = acked_count m + 1"
    using assms by (simp add: om_core_def)
  then show ?thesis
    using assms a om_sized_cong [of ?m m] unfolding om_core_def flen by simp
qed

lemma mark_for_removal_eq:
  assumes "idx < 1024"
  shows "mark_for_removal idx st = st\<lparr>to_remove := snd (bs_set (to_remove st) idx), needs_cleanup := True\<rparr>"
  using assms by (simp add: mark_for_removal_def MAX_FRAGMENTS_PER_MESSAGE_def)

text \<open>
  The effect of a fresh acknowledgement on the message and on the record of what left the flight.
\<close>

lemma process_single_ack_fresh:
  assumes inv: "ack_inv t0 dlv now m0 st" and idx: "idx < num_fragments m0" "idx \<notin> acked (as_msg st)"
  defines "m \<equiv> as_msg st" and "s \<equiv> state_at (as_msg st) idx"
  obtains st' x where "process_single_ack idx now dlv st = Some (True, st')"
    "as_msg st' = m\<lparr>acked_bitset := snd (bs_set (acked_bitset m) idx), acked_count := acked_count m + 1,
       highest_sent_time_acked := x, fragment_states := (fragment_states m)[idx := s\<lparr>last_sent := None\<rparr>]\<rparr>"
    "to_remove st' = (if last_sent s = None then to_remove st else snd (bs_set (to_remove st) idx))"
    "needs_cleanup st' \<longleftrightarrow> needs_cleanup st \<or> last_sent s \<noteq> None"
    "newly_delivered_bytes (as_res st') = newly_delivered_bytes (as_res st) + sent_bytes m0 idx"
    "result_ok t0 dlv now (as_res st')"
    "newly_completed_in_flight_bytes (as_res st') = newly_completed_in_flight_bytes (as_res st)"
proof -
  note D = ack_invD [OF inv]
  have fresh: "fst (bs_set (acked_bitset m) idx)"
    using idx D by (simp add: m_def bs_get_acked)
  have len: "idx < length (fragment_states m)" "idx < 1024" using idx D by (auto simp: m_def)
  define x where "x = (case last_sent s of None \<Rightarrow> highest_sent_time_acked m
     | Some ls \<Rightarrow> if (case highest_sent_time_acked m of None \<Rightarrow> True | Some t \<Rightarrow> ls > t)
                  then Some ls else highest_sent_time_acked m)"
  define m3 where "m3 = m\<lparr>acked_bitset := snd (bs_set (acked_bitset m) idx), acked_count := acked_count m + 1,
       highest_sent_time_acked := x, fragment_states := (fragment_states m)[idx := s\<lparr>last_sent := None\<rparr>]\<rparr>"
  have res: "result_ok t0 dlv now (as_res st)" using inv by (simp add: ack_inv_def)
  have di: "delivery_info s = delivery_info (state_at m0 idx)"
    using D(2) idx by (simp add: same_shape_def s_def)
  have sok: "state_ok t0 dlv (om_fragment_len m0 idx) s"
    using om_core_state [OF D(1), of idx] D idx by (simp add: s_def)
  let ?st1 = "st\<lparr>as_msg := m3\<rparr>"
  show ?thesis
  proof (cases "delivery_info s")
    case None
    have call: "process_single_ack idx now dlv st = Some (True, ?st1)"
      using idx D fresh len None
      by (cases "last_sent s")
        (auto simp: process_single_ack_def Let_def m_def s_def m3_def x_def)
    show ?thesis
      by (rule that [OF call, of x])
        (use None sok res di in \<open>simp_all add: m3_def state_ok_def sent_bytes_def\<close>)
  next
    case (Some info)
    have info: "info_ok t0 dlv (om_fragment_len m0 idx) info" using sok Some by (simp add: state_ok_def)
    define st3 where "st3 = (if last_sent s = None then ?st1 else mark_for_removal idx ?st1)
      \<lparr>as_res := (as_res st)\<lparr>newly_delivered_bytes := newly_delivered_bytes (as_res st) + info_size info\<rparr>\<rparr>"
    have "result_ok t0 dlv now (as_res st3)" using res by (simp add: st3_def result_ok_def)
    then obtain res' where res': "update_delivery_sample info dlv now (as_res st3) = Some res'"
      "result_ok t0 dlv now res'" "newly_delivered_bytes res' = newly_delivered_bytes (as_res st3)"
      "newly_completed_in_flight_bytes res' = newly_completed_in_flight_bytes (as_res st3)"
      using update_delivery_sample_ok [OF _ info] by metis
    define r where "r = (if frag_retransmit_count s > 0 then res'
      else note_rtt (saturating_duration_since now (first_sent_time info)) res')"
    have call: "process_single_ack idx now dlv st = Some (True, st3\<lparr>as_res := r\<rparr>)"
      using idx D fresh len Some res'(1)
      by (cases "last_sent s")
        (auto simp: process_single_ack_def Let_def m_def s_def m3_def x_def st3_def r_def
          mark_for_removal_eq)
    have "saturating_duration_since now (first_sent_time info) \<le> nat (now - t0)"
      using info by (auto simp: info_ok_def saturating_duration_since_def intro!: nat_mono)
    then have r: "result_ok t0 dlv now r" "newly_delivered_bytes r = newly_delivered_bytes (as_res st3)"
      "newly_completed_in_flight_bytes r = newly_completed_in_flight_bytes (as_res st3)"
      using res' note_rtt_ok by (auto simp: r_def frame)
    show ?thesis
      by (rule that [OF call, of x])
        (use Some r info len di in \<open>simp_all add: m3_def st3_def mark_for_removal_eq info_ok_def sent_bytes_def\<close>)
  qed
qed

text \<open>The part of the message an acknowledgement leaves alone until losses are looked for.\<close>

definition same_losses :: "outgoing_message \<Rightarrow> outgoing_message \<Rightarrow> bool" where
  "same_losses m m' \<longleftrightarrow> retransmit_queue m' = retransmit_queue m \<and>
     retransmit_bitset m' = retransmit_bitset m \<and> highest_cumulative_ack m' = highest_cumulative_ack m"

lemma process_single_ack_inv:
  assumes inv: "ack_inv t0 dlv now m0 st"
  obtains fresh st' where "process_single_ack idx now dlv st = Some (fresh, st')"
    "ack_inv t0 dlv now m0 st'" "same_losses (as_msg st) (as_msg st')"
    "acked (as_msg st') = acked (as_msg st) \<union> ({idx} \<inter> {..<num_fragments m0})"
    "fresh \<longleftrightarrow> idx < num_fragments m0 \<and> idx \<notin> acked (as_msg st)"
proof (cases "idx < num_fragments m0 \<and> idx \<notin> acked (as_msg st)")
  case False
  then have "process_single_ack idx now dlv st = Some (False, st)"
    using ack_invD [OF inv]
    by (auto simp: process_single_ack_def Let_def bs_get_acked)
  with False inv show ?thesis by (intro that [of False st]) (auto simp: same_losses_def)
next
  case True
  note D = ack_invD [OF inv]
  let ?m = "as_msg st" and ?s = "state_at (as_msg st) idx"
  obtain st' x where st': "process_single_ack idx now dlv st = Some (True, st')"
    "as_msg st' = ?m\<lparr>acked_bitset := snd (bs_set (acked_bitset ?m) idx), acked_count := acked_count ?m + 1,
       highest_sent_time_acked := x, fragment_states := (fragment_states ?m)[idx := ?s\<lparr>last_sent := None\<rparr>]\<rparr>"
    "to_remove st' = (if last_sent ?s = None then to_remove st else snd (bs_set (to_remove st) idx))"
    "needs_cleanup st' \<longleftrightarrow> needs_cleanup st \<or> last_sent ?s \<noteq> None"
    "newly_delivered_bytes (as_res st') = newly_delivered_bytes (as_res st) + sent_bytes m0 idx"
    "result_ok t0 dlv now (as_res st')"
    "newly_completed_in_flight_bytes (as_res st') = newly_completed_in_flight_bytes (as_res st)"
    using process_single_ack_fresh [OF inv, of idx] True by blast
  have a: "acked (as_msg st') = insert idx (acked ?m)"
    using D True by (simp add: st'(2) bs_members_set)
  have s_ok: "state_ok t0 dlv (om_fragment_len ?m idx) (?s\<lparr>last_sent := None\<rparr>)"
    using om_core_state [OF D(1), of idx] True D by (auto simp: state_ok_def split: option.splits)
  have "om_core t0 dlv (?m\<lparr>fragment_states := (fragment_states ?m)[idx := ?s\<lparr>last_sent := None\<rparr>],
      in_flight_queue := in_flight_queue ?m\<rparr>)"
    by (rule om_core_set_state [OF D(1) s_ok om_core_queue [OF D(1)]])
      (simp_all add: om_core_flight [OF D(1)] del: not_None_eq)
  from om_core_set_acked [OF this, of idx] True D
  have core1: "om_core t0 dlv (?m\<lparr>fragment_states := (fragment_states ?m)[idx := ?s\<lparr>last_sent := None\<rparr>],
      in_flight_queue := in_flight_queue ?m, acked_bitset := snd (bs_set (acked_bitset ?m) idx),
      acked_count := acked_count ?m + 1\<rparr>)" (is "om_core _ _ ?m1") by simp
  have "as_msg st' = ?m1\<lparr>highest_sent_time_acked := x\<rparr>" by (simp add: st'(2))
  with core1 have core: "om_core t0 dlv (as_msg st')" by (simp only: om_core_irrelevant)
  have lf: "left_flight m0 (as_msg st') = left_flight m0 ?m \<union> (if last_sent ?s \<noteq> None then {idx} else {})"
    using True D by (intro left_flight_update) (auto simp: st'(2) same_shape_def)
  have sh: "same_shape m0 (as_msg st')"
    by (rule same_shape_update [OF D(2,5), of _ idx "?s\<lparr>last_sent := None\<rparr>"]) (simp_all add: st'(2))
  have idx0: "idx \<notin> acked m0" using inv True by (auto simp: ack_inv_def)
  have "acked (as_msg st') - acked m0 = insert idx (acked ?m - acked m0)" using a idx0 by auto
  then have nd: "newly_delivered_bytes (as_res st') = (\<Sum>i \<in> acked (as_msg st') - acked m0. sent_bytes m0 i)"
    using inv True by (simp add: st'(5) ack_inv_def)
  have rem: "bs_members (to_remove st') = left_flight m0 (as_msg st')"
    using inv True D unfolding lf by (simp add: st'(3) ack_inv_def bs_members_set)
  have "needs_cleanup st' \<longleftrightarrow> left_flight m0 (as_msg st') \<noteq> {}" "length (to_remove st') = BITSET_WORDS"
    "acked m0 \<subseteq> acked (as_msg st')" "newly_completed_in_flight_bytes (as_res st') = 0"
    using inv a unfolding lf by (auto simp: st'(3,4,7) ack_inv_def)
  with core sh rem nd st'(6) have "ack_inv t0 dlv now m0 st'" by (simp add: ack_inv_def)
  moreover have "same_losses ?m (as_msg st')" by (simp add: same_losses_def st'(2))
  ultimately show ?thesis using st'(1) a True by (intro that [of True st']) auto
qed

lemma same_losses_trans: "same_losses a b \<Longrightarrow> same_losses b c \<Longrightarrow> same_losses a c"
  by (simp add: same_losses_def)

lemma process_acks_inv:
  assumes "ack_inv t0 dlv now m0 st"
  obtains any st' where "process_acks idxs now dlv any0 st = Some (any, st')"
    "ack_inv t0 dlv now m0 st'" "same_losses (as_msg st) (as_msg st')"
    "acked (as_msg st') = acked (as_msg st) \<union> (set idxs \<inter> {..<num_fragments m0})"
    "any \<longleftrightarrow> any0 \<or> acked (as_msg st') \<noteq> acked (as_msg st)"
  using assms
proof (induction idxs arbitrary: any0 st thesis)
  case Nil
  then show ?case by (simp add: same_losses_def)
next
  case (Cons idx idxs)
  obtain fresh st1 where st1: "process_single_ack idx now dlv st = Some (fresh, st1)"
    "ack_inv t0 dlv now m0 st1" "same_losses (as_msg st) (as_msg st1)"
    "acked (as_msg st1) = acked (as_msg st) \<union> ({idx} \<inter> {..<num_fragments m0})"
    "fresh \<longleftrightarrow> idx < num_fragments m0 \<and> idx \<notin> acked (as_msg st)"
    using process_single_ack_inv [OF Cons.prems(2)] by blast
  obtain any st' where st': "process_acks idxs now dlv (any0 \<or> fresh) st1 = Some (any, st')"
    "ack_inv t0 dlv now m0 st'" "same_losses (as_msg st1) (as_msg st')"
    "acked (as_msg st') = acked (as_msg st1) \<union> (set idxs \<inter> {..<num_fragments m0})"
    "any \<longleftrightarrow> (any0 \<or> fresh) \<or> acked (as_msg st') \<noteq> acked (as_msg st1)"
    using Cons.IH [OF _ st1(2), of "any0 \<or> fresh"] by blast
  show ?case
    by (rule Cons.prems(1) [of any st'])
      (use st1 st' same_losses_trans in auto)
qed

text \<open>Declaring a fragment lost.\<close>

lemma trigger_loss_inv:
  assumes inv: "ack_inv t0 dlv now m0 st" and idx: "idx < num_fragments m0"
    and new: "\<not> bs_get (retransmit_bitset (as_msg st)) idx"
  obtains st' where "trigger_loss idx st = Some st'" "ack_inv t0 dlv now m0 st'"
    "acked_bitset (as_msg st') = acked_bitset (as_msg st)"
    "highest_cumulative_ack (as_msg st') = highest_cumulative_ack (as_msg st)"
    "acked_count (as_msg st') = acked_count (as_msg st)"
proof -
  note D = ack_invD [OF inv]
  let ?m = "as_msg st" and ?s = "state_at (as_msg st) idx"
  define m' where "m' = ?m\<lparr>retransmit_queue := retransmit_queue ?m @ [idx],
      retransmit_bitset := snd (bs_set (retransmit_bitset ?m) idx),
      fragment_states := (fragment_states ?m)[idx := ?s\<lparr>last_sent := None\<rparr>]\<rparr>"
  define st' where "st' = (if last_sent ?s \<noteq> None then mark_for_removal idx (st\<lparr>as_msg := m'\<rparr>) else st\<lparr>as_msg := m'\<rparr>)
      \<lparr>as_res := (as_res st)\<lparr>loss_detected := True\<rparr>\<rparr>"
  have idx': "idx < 1024" "idx < length (fragment_states ?m)" using idx D by auto
  have call: "trigger_loss idx st = Some st'"
    using idx' by (simp add: trigger_loss_def Let_def m'_def st'_def mark_for_removal_eq)
  have msg: "as_msg st' = m'" using idx' by (simp add: st'_def mark_for_removal_eq)
  have s_ok: "state_ok t0 dlv (om_fragment_len ?m idx) (?s\<lparr>last_sent := None\<rparr>)"
    using om_core_state [OF D(1), of idx] idx D by (auto simp: state_ok_def split: option.splits)
  have core1: "om_core t0 dlv (?m\<lparr>fragment_states := (fragment_states ?m)[idx := ?s\<lparr>last_sent := None\<rparr>],
      in_flight_queue := in_flight_queue ?m\<rparr>)" (is "om_core _ _ ?m1")
    by (rule om_core_set_state [OF D(1) s_ok om_core_queue [OF D(1)]])
      (simp_all add: om_core_flight [OF D(1)] del: not_None_eq)
  have re: "retransmits_ok (num_fragments ?m) (retransmit_queue ?m @ [idx]) (snd (bs_set (retransmit_bitset ?m) idx))"
    using D(1) new idx idx'(1) D(3)
    by (auto simp: om_core_def retransmits_ok_def bs_members_set bs_members_def)
  have "om_fragment_len m' = om_fragment_len ?m1" by (rule om_fragment_len_cong) (simp_all add: m'_def)
  then have core: "om_core t0 dlv m'"
    using core1 re om_sized_cong [of m' ?m1] unfolding om_core_def by (simp add: m'_def)
  have lf: "left_flight m0 m' = left_flight m0 ?m \<union> (if last_sent ?s \<noteq> None then {idx} else {})"
    using idx D by (intro left_flight_update) (auto simp: m'_def same_shape_def)
  have sh: "same_shape m0 m'"
    by (rule same_shape_update [OF D(2,5), of _ idx "?s\<lparr>last_sent := None\<rparr>"]) (simp_all add: m'_def)
  have rem: "bs_members (to_remove st') = left_flight m0 m'"
    using inv idx' D unfolding lf by (simp add: st'_def ack_inv_def bs_members_set mark_for_removal_eq)
  have flags: "needs_cleanup st' \<longleftrightarrow> left_flight m0 m' \<noteq> {}" "length (to_remove st') = BITSET_WORDS"
    using inv idx' unfolding lf by (auto simp: st'_def ack_inv_def mark_for_removal_eq)
  have "acked m' = acked ?m" by (simp add: m'_def)
  moreover have "result_ok t0 dlv now (as_res st')" "newly_delivered_bytes (as_res st') = newly_delivered_bytes (as_res st)"
    "newly_completed_in_flight_bytes (as_res st') = 0"
    using inv by (simp_all add: st'_def ack_inv_def result_ok_def)
  ultimately have "ack_inv t0 dlv now m0 st'"
    using inv core sh rem flags by (simp add: ack_inv_def msg)
  then show ?thesis by (intro that [OF call]) (simp_all add: msg m'_def)
qed

end
