(* ===== verification/Outgoing_Ack.thy ===== *)
theory Outgoing_Ack
  imports Outgoing_Inv
begin

text \<open>
  \<^verbatim>\<open>OutgoingMessage::on_ack\<close> as a whole: which fragments an acknowledgement names, loss detection,
  and the summary the session relies on.
\<close>

section \<open>Loss detection\<close>

lemma ack_inv_msg_irrelevant:
  "ack_inv t0 dlv now m0 (st\<lparr>as_msg := (as_msg st)\<lparr>dup_ack_count := n\<rparr>\<rparr>) = ack_inv t0 dlv now m0 st"
  "ack_inv t0 dlv now m0 (st\<lparr>as_msg := (as_msg st)\<lparr>last_ack_at := t\<rparr>\<rparr>) = ack_inv t0 dlv now m0 st"
  "ack_inv t0 dlv now m0 (st\<lparr>as_msg := (as_msg st)\<lparr>last_ack_base := b, dup_ack_count := n, last_ack_at := t\<rparr>\<rparr>)
     = ack_inv t0 dlv now m0 st"
  by (simp_all add: ack_inv_def same_shape_def left_flight_def)

text \<open>What the loss detectors keep.\<close>

definition same_acks :: "outgoing_message \<Rightarrow> outgoing_message \<Rightarrow> bool" where
  "same_acks m m' \<longleftrightarrow> acked_bitset m' = acked_bitset m \<and> acked_count m' = acked_count m \<and>
     highest_cumulative_ack m' = highest_cumulative_ack m"

lemma same_acks_refl [simp]: "same_acks m m" by (simp add: same_acks_def)

lemma same_acks_trans: "same_acks a b \<Longrightarrow> same_acks b c \<Longrightarrow> same_acks a c"
  by (simp add: same_acks_def)

lemma handle_fast_retransmit_inv:
  assumes inv: "ack_inv t0 dlv now m0 st"
  obtains st' where "handle_fast_retransmit base st = Some st'" "ack_inv t0 dlv now m0 st'"
    "same_acks (as_msg st) (as_msg st')"
proof (cases "base = last_ack_base (as_msg st) \<and> base < num_fragments (as_msg st)")
  case False
  then show ?thesis
    using inv by (intro that [of st]) (auto simp: handle_fast_retransmit_def Let_def)
next
  case True
  note D = ack_invD [OF inv] and goal = that
  let ?m1 = "(as_msg st)\<lparr>dup_ack_count := dup_ack_count (as_msg st) + 1\<rparr>"
  let ?st1 = "st\<lparr>as_msg := ?m1\<rparr>"
  have inv1: "ack_inv t0 dlv now m0 ?st1" using inv by (simp only: ack_inv_msg_irrelevant)
  have idx: "base < num_fragments m0" "base < length (fragment_states ?m1)" using True D by auto
  have skip: ?thesis if "handle_fast_retransmit base st = Some ?st1"
    using that inv1 by (rule goal) (simp add: same_acks_def)
  show ?thesis
  proof (cases "handle_fast_retransmit base st = Some ?st1")
    case False
    then have loss: "handle_fast_retransmit base st = trigger_loss base ?st1"
      and new: "\<not> bs_get (retransmit_bitset (as_msg ?st1)) base"
      using True idx(2)
      by (auto simp: handle_fast_retransmit_def Let_def split: if_splits option.splits)
    obtain st' where "trigger_loss base ?st1 = Some st'" "ack_inv t0 dlv now m0 st'"
      "acked_bitset (as_msg st') = acked_bitset (as_msg ?st1)"
      "highest_cumulative_ack (as_msg st') = highest_cumulative_ack (as_msg ?st1)"
      "acked_count (as_msg st') = acked_count (as_msg ?st1)"
      using trigger_loss_inv [OF inv1 idx(1) new] by blast
    then show ?thesis by (intro that [of st']) (simp_all add: loss same_acks_def)
  qed (rule skip)
qed

text \<open>
  The running count of \<^verbatim>\<open>detect_losses_from_holes\<close> never exceeds the number of acknowledged
  fragments, so its subtraction does not underflow.
\<close>

lemma holes_loop_inv:
  assumes "ack_inv t0 dlv now m0 st" and "k \<le> l" and "l \<le> num_fragments m0"
    and "so_far \<le> card (acked (as_msg st) \<inter> {..<k})"
    and "count = card (acked (as_msg st))"
  obtains st' where "holes_loop max_ls count [k..<l] so_far st = Some st'" "ack_inv t0 dlv now m0 st'"
    "same_acks (as_msg st) (as_msg st')"
  using assms
proof (induction "l - k" arbitrary: k so_far st thesis)
  case 0
  then show ?case by simp
next
  case (Suc n)
  note prems = Suc.prems
  have k: "k < l" "[k..<l] = k # [Suc k..<l]" using Suc.hyps(2) by (auto simp: upt_conv_Cons)
  have n: "n = l - Suc k" using Suc.hyps(2) by simp
  note D = ack_invD [OF prems(2)]
  have split: "acked (as_msg st) \<inter> {..<Suc k} =
      (if k \<in> acked (as_msg st) then insert k (acked (as_msg st) \<inter> {..<k}) else acked (as_msg st) \<inter> {..<k})"
    by (auto simp: less_Suc_eq)
  show ?case
  proof (cases "k \<in> acked (as_msg st)")
    case True
    then have "so_far + 1 \<le> card (acked (as_msg st) \<inter> {..<Suc k})"
      using prems(5) unfolding split by simp
    then obtain st' where "holes_loop max_ls count [Suc k..<l] (so_far + 1) st = Some st'"
      "ack_inv t0 dlv now m0 st'" "same_acks (as_msg st) (as_msg st')"
      using Suc.hyps(1) [OF n _ prems(2), of "so_far + 1"] k prems by auto
    then show ?thesis using True k by (intro prems(1) [of st']) (simp_all add: bs_get_acked)
  next
    case False
    have so_far: "so_far \<le> card (acked (as_msg st') \<inter> {..<Suc k})" if "same_acks (as_msg st) (as_msg st')" for st'
      using prems(5) False that unfolding same_acks_def by (simp add: split)
    have "card (acked (as_msg st) \<inter> {..<k}) \<le> card (acked (as_msg st))" by (intro card_mono) auto
    then have sub: "checked_sub count so_far = Some (count - so_far)" using prems(5,6) by simp
    have rest: ?thesis if st1: "ack_inv t0 dlv now m0 st1" "same_acks (as_msg st) (as_msg st1)"
      and eq: "holes_loop max_ls count [k..<l] so_far st = holes_loop max_ls count [Suc k..<l] so_far st1" for st1
    proof -
      have "count = card (acked (as_msg st1))" using prems(6) st1(2) by (simp add: same_acks_def)
      then obtain st' where st': "holes_loop max_ls count [Suc k..<l] so_far st1 = Some st'"
        "ack_inv t0 dlv now m0 st'" "same_acks (as_msg st1) (as_msg st')"
        using Suc.hyps(1) [OF n _ st1(1) Suc_leI [OF k(1)] prems(4) so_far [OF st1(2)]] by blast
      show ?thesis
        using st' eq same_acks_trans [OF st1(2) st'(3)] by (intro prems(1) [of st']) auto
    qed
    have idx: "k < num_fragments m0" "k < length (fragment_states (as_msg st))" "k mod 65536 = k"
      using k prems(4) D by auto
    show ?thesis
    proof (cases "holes_loop max_ls count [k..<l] so_far st = holes_loop max_ls count [Suc k..<l] so_far st")
      case True
      then show ?thesis using rest [OF prems(2)] by simp
    next
      case nontriv: False
      then have new: "\<not> bs_get (retransmit_bitset (as_msg st)) k"
        using False k(2) by (auto simp: bs_get_acked)
      obtain st1 where st1: "trigger_loss k st = Some st1" "ack_inv t0 dlv now m0 st1"
        "acked_bitset (as_msg st1) = acked_bitset (as_msg st)"
        "highest_cumulative_ack (as_msg st1) = highest_cumulative_ack (as_msg st)"
        "acked_count (as_msg st1) = acked_count (as_msg st)"
        using trigger_loss_inv [OF prems(2) idx(1) new] by blast
      have "holes_loop max_ls count [k..<l] so_far st = holes_loop max_ls count [Suc k..<l] so_far st1"
        using nontriv new False sub idx st1(1) k(2)
        by (auto simp: bs_get_acked split: if_splits option.splits)
      then show ?thesis using rest [OF st1(2)] st1 by (simp add: same_acks_def)
    qed
  qed
qed

lemma detect_losses_inv:
  assumes inv: "ack_inv t0 dlv now m0 st" and hca: "hca_ok (as_msg st)"
  obtains st' where "detect_losses_from_holes st = Some st'" "ack_inv t0 dlv now m0 st'"
    "same_acks (as_msg st) (as_msg st')"
proof -
  note D = ack_invD [OF inv]
  let ?m = "as_msg st"
  let ?h = "highest_cumulative_ack ?m"
  define l where "l = (case bs_last_one (acked_bitset ?m) (num_fragments ?m) of None \<Rightarrow> 0 | Some i \<Rightarrow> i + 1)"
  have l: "l \<le> num_fragments m0"
    using D(3) by (auto simp: l_def bs_last_one_eq find_rev_upt_eq_Some_iff split: option.splits)
  have eq: "detect_losses_from_holes st =
      holes_loop (highest_sent_time_acked ?m) (acked_count ?m) [?h..<l] ?h st"
    by (simp add: detect_losses_from_holes_def Let_def l_def)
  show ?thesis
  proof (cases "?h \<le> l")
    case True
    then have "{..<?h} \<subseteq> acked ?m" using hca l D(3) by (simp add: hca_ok_def min_def split: if_splits)
    then have "acked ?m \<inter> {..<?h} = {..<?h}" by auto
    then have "?h \<le> card (acked ?m \<inter> {..<?h})" by simp
    moreover have "acked_count ?m = card (acked ?m)" using D(1) by (simp add: om_core_def)
    ultimately show ?thesis
      using holes_loop_inv [OF inv True l] that unfolding eq by blast
  next
    case False
    then show ?thesis using inv that [of st] by (simp add: eq)
  qed
qed

section \<open>Which fragments are acknowledged\<close>

lemma zeros_loop_eq:
  "limit \<le> 65536 \<Longrightarrow> zeros_loop bits limit cur = filter (\<lambda>i. \<not> bs_get bits i) [cur..<limit]"
proof (induction bits limit cur rule: zeros_loop.induct)
  case (1 bits limit cur)
  let ?P = "\<lambda>i. \<not> bs_get bits i"
  show ?case
  proof (cases "bs_next_zero bits cur limit")
    case None
    then have "filter ?P [cur..<limit] = []"
      by (auto simp: bs_next_zero_eq_find find_None_iff filter_empty_conv)
    with None show ?thesis by (subst zeros_loop.simps) simp
  next
    case (Some z)
    then have z: "cur \<le> z" "z < limit" "?P z" "\<forall>j. cur \<le> j \<and> j < z \<longrightarrow> \<not> ?P j"
      unfolding bs_next_zero_eq_find find_upt_eq_Some_iff by auto
    have "[cur..<limit] = [cur..<z] @ z # [z + 1..<limit]"
      using z(1,2) upt_add_eq_append [of cur z "limit - z"] by (simp add: upt_conv_Cons)
    then have "filter ?P [cur..<limit] = z # filter ?P [z + 1..<limit]" using z(3,4) by simp
    with Some 1 z(2) show ?thesis by (subst zeros_loop.simps) simp
  qed
qed

text \<open>The indices a bitmask names relative to a base, wrapping around like \<^verbatim>\<open>u16\<close>.\<close>

definition mask_names :: "nat \<Rightarrow> u64 \<Rightarrow> nat set" where
  "mask_names base bitmask = {(base + 1 + i) mod 65536 | i. i < 64 \<and> bit bitmask i}"

lemma mask_names_clear:
  assumes "w \<noteq> 0"
  shows "mask_names base w = insert ((base + 1 + trailing_zeros w) mod 65536)
    (mask_names base (clear_bit w (trailing_zeros w)))"
proof -
  have "{i. i < 64 \<and> bit w i} =
      insert (trailing_zeros w) {i. i < 64 \<and> bit (clear_bit w (trailing_zeros w)) i}"
    using trailing_zeros_at [OF assms] bit_clear_bit by auto
  then have "(\<lambda>i. (base + 1 + i) mod 65536) ` {i. i < 64 \<and> bit w i} =
      insert ((base + 1 + trailing_zeros w) mod 65536)
        ((\<lambda>i. (base + 1 + i) mod 65536) ` {i. i < 64 \<and> bit (clear_bit w (trailing_zeros w)) i})"
    by simp
  then show ?thesis unfolding mask_names_def by (simp add: setcompr_eq_image)
qed

lemma set_mask_loop:
  "set (mask_loop m base w) = mask_names base w \<inter> {..<num_fragments m} - acked m"
proof (induction m base w rule: mask_loop.induct)
  case (1 m base w)
  show ?case
  proof (cases "w = 0")
    case True
    then show ?thesis by (subst mask_loop.simps) (simp add: mask_names_def)
  next
    case False
    have idx: "u16_wrapping_add (u16_wrapping_add base 1) i = (base + 1 + i) mod 65536" for i
      by (simp add: u16_wrapping_add_def mod_add_left_eq)
    show ?thesis
      using 1 [OF False refl] False mask_names_clear [OF False, of base]
      by (subst mask_loop.simps) (auto simp: Let_def idx idx [unfolded One_nat_def] bs_get_acked)
  qed
qed

definition ack_names :: "outgoing_message \<Rightarrow> nat \<Rightarrow> u64 \<Rightarrow> nat set" where
  "ack_names m base bitmask =
     ({..<base} \<union> mask_names base bitmask) \<inter> {..<num_fragments m}"

lemma collect_acked_indices:
  assumes "om_wf t0 dlv m"
  obtains idxs where
    "om_collect_acked_indices m base bitmask =
       (idxs, m\<lparr>highest_cumulative_ack := max (highest_cumulative_ack m) base\<rparr>)"
    "set idxs \<inter> {..<num_fragments m} = ack_names m base bitmask - acked m"
proof -
  let ?h = "highest_cumulative_ack m" and ?n = "num_fragments m"
  have core: "om_core t0 dlv m" by (rule om_wf_core [OF assms])
  have hca: "{..<min ?h ?n} \<subseteq> acked m" using assms by (simp add: om_wf_def hca_ok_def)
  have "set (zeros_loop (acked_bitset m) (min base ?n) ?h) = {?h..<min base ?n} - acked m"
    using om_core_lengths(1) [OF core] by (simp add: zeros_loop_eq bs_get_acked) auto
  also have "\<dots> = {..<min base ?n} - acked m"
  proof -
    have "x \<in> acked m" if "x < ?h" "x < ?n" for x using that subsetD [OF hca, of x] by simp
    then show ?thesis by (auto simp: not_less [symmetric])
  qed
  finally have below: "set (zeros_loop (acked_bitset m) (min base ?n) ?h) = {..<min base ?n} - acked m" .
  show ?thesis
    by (rule that [of "fst (om_collect_acked_indices m base bitmask)"])
      (auto simp: om_collect_acked_indices_def Let_def below set_mask_loop ack_names_def)
qed

section \<open>Cleaning up\<close>

lemma cleanup_loop_eq:
  assumes "length counted = 16" and "num_fragments m \<le> 1024"
  shows "cleanup_loop m remove queue counted removed =
    (filter (\<lambda>(i, _). \<not> bs_get remove i) queue,
     removed + (\<Sum>i \<in> fst ` set queue \<inter> bs_members remove \<inter> {..<num_fragments m} - bs_members counted.
       om_fragment_len m i))"
  using assms(1)
proof (induction queue arbitrary: counted removed)
  case (Cons p queue)
  obtain i t where p: "p = (i, t)" by fastforce
  let ?S = "fst ` set queue \<inter> bs_members remove \<inter> {..<num_fragments m}"
  have S: "fst ` set (p # queue) \<inter> bs_members remove \<inter> {..<num_fragments m} =
      (if i \<in> bs_members remove \<and> i < num_fragments m then insert i ?S else ?S)" by (auto simp: p)
  have get: "bs_get remove i \<longleftrightarrow> i \<in> bs_members remove" by (simp add: bs_members_def)
  show ?case
  proof (cases "i \<in> bs_members remove \<and> i < num_fragments m")
    case True
    then have i: "i < length counted * 64" "bs_members (snd (bs_set counted i)) = insert i (bs_members counted)"
      using Cons.prems assms(2) by (auto simp: bs_members_set)
    note IH = Cons.IH [of "snd (bs_set counted i)"]
    show ?thesis
    proof (cases "i \<in> bs_members counted")
      case counted: True
      then have "insert i ?S - bs_members counted = ?S - insert i (bs_members counted)" by auto
      moreover have "bs_get counted i" using counted by (simp add: bs_members_def)
      ultimately show ?thesis using True IH i S get Cons.prems by (simp add: p)
    next
      case False
      then have "insert i ?S - bs_members counted = insert i (?S - insert i (bs_members counted))"
        "i \<notin> ?S - insert i (bs_members counted)" by auto
      then have "(\<Sum>i \<in> insert i ?S - bs_members counted. om_fragment_len m i) =
          om_fragment_len m i + (\<Sum>i \<in> ?S - insert i (bs_members counted). om_fragment_len m i)" by simp
      moreover have "om_fragment_len m i =
          min (i * payload_mtu m + payload_mtu m) (length (om_data m)) - i * payload_mtu m"
        using True by (simp add: om_fragment_len_def Let_def)
      moreover have "\<not> bs_get counted i" using False by (simp add: bs_members_def)
      ultimately show ?thesis
        using True IH i S get Cons.prems by (simp add: p Let_def)
    qed
  next
    case False
    with Cons S get show ?thesis by (auto simp: p)
  qed
qed simp

lemma prune_retransmits_core:
  assumes "om_core t0 dlv m"
  shows "om_core t0 dlv (prune_retransmits m)"
proof -
  let ?m = "prune_retransmits m"
  let ?q = "filter (\<lambda>idx. if idx \<ge> num_fragments m then False else \<not> bs_get (acked_bitset m) idx) (retransmit_queue m)"
  have len: "length (retransmit_bitset m) = 16" "num_fragments m \<le> 1024"
    using om_core_lengths [OF assms] by auto
  have r: "retransmits_ok (num_fragments m) (retransmit_queue m) (retransmit_bitset m)"
    using assms by (simp add: om_core_def)
  have "length (fold (\<lambda>idx bits. snd (bs_set bits idx)) ?q (bs_clear (retransmit_bitset m))) = 16"
    using bs.cap_puts [of ?q "bs_clear (retransmit_bitset m)"] len by simp
  moreover have "bs_members (fold (\<lambda>idx bits. snd (bs_set bits idx)) ?q (bs_clear (retransmit_bitset m))) = set ?q"
    using len by (auto simp: bs_members_def bs.mem_puts)
  ultimately have "retransmits_ok (num_fragments m) (retransmit_queue ?m) (retransmit_bitset ?m)"
    using r by (auto simp: prune_retransmits_def Let_def retransmits_ok_def)
  moreover have "om_fragment_len ?m = om_fragment_len m" "om_sized ?m = om_sized m"
    by (rule om_fragment_len_cong om_sized_cong; simp add: prune_retransmits_def Let_def)+
  ultimately show ?thesis using assms unfolding om_core_def by (simp add: prune_retransmits_def Let_def)
qed

text \<open>The bytes that left the flight are the difference of the two flights.\<close>

lemma inflight_difference:
  assumes "same_shape m0 m"
  shows "om_inflight m + (\<Sum>i \<in> left_flight m0 m. om_fragment_len m0 i) = om_inflight m0"
proof -
  let ?F = "\<lambda>m. {i. i < num_fragments m \<and> last_sent (state_at m i) \<noteq> None}"
  have n: "num_fragments m = num_fragments m0" using assms by (simp add: same_shape_def)
  have flen: "om_fragment_len m = om_fragment_len m0"
    using assms by (intro om_fragment_len_cong) (simp_all add: same_shape_def)
  have "?F m0 = ?F m \<union> left_flight m0 m" "?F m \<inter> left_flight m0 m = {}"
    using assms unfolding same_shape_def left_flight_def by force+
  then have "sum (om_fragment_len m0) (?F m0) = sum (om_fragment_len m0) (?F m) + sum (om_fragment_len m0) (left_flight m0 m)"
    by (simp add: sum.union_disjoint left_flight_def)
  then show ?thesis by (simp add: om_inflight_def flen)
qed

lemma om_core_set_queue:
  assumes "om_core t0 dlv m" and "fst ` set q \<subseteq> {..<num_fragments m}"
    and "\<And>i. i < num_fragments m \<Longrightarrow> last_sent (state_at m i) \<noteq> None \<Longrightarrow> i \<in> fst ` set q"
  shows "om_core t0 dlv (m\<lparr>in_flight_queue := q\<rparr>)" (is "om_core _ _ ?m")
proof -
  have "om_fragment_len ?m = om_fragment_len m" "om_sized ?m = om_sized m"
    by (rule om_fragment_len_cong om_sized_cong; simp)+
  with assms show ?thesis unfolding om_core_def by (simp del: not_None_eq)
qed

lemma cleanup_core:
  assumes inv: "ack_inv t0 dlv now m0 st" and core: "om_core t0 dlv m" and m: "fragment_states m = fragment_states (as_msg st)"
    "in_flight_queue m = in_flight_queue m0" "num_fragments m = num_fragments m0"
    "om_fragment_len m = om_fragment_len m0" and core0: "om_core t0 dlv m0"
  shows "fst (cleanup_in_flight_queue m (to_remove st)) = (\<Sum>i \<in> left_flight m0 (as_msg st). om_fragment_len m0 i)"
    and "om_core t0 dlv (snd (cleanup_in_flight_queue m (to_remove st)))"
proof -
  have lf: "bs_members (to_remove st) = left_flight m0 (as_msg st)" using inv by (simp add: ack_inv_def)
  have rm: "bs_get (to_remove st) i \<longleftrightarrow> i \<in> left_flight m0 (as_msg st)" for i
    using lf by (auto simp: bs_members_def)
  have "left_flight m0 (as_msg st) \<subseteq> fst ` set (in_flight_queue m0) \<inter> {..<num_fragments m0}"
    using om_core_flight [OF core0] by (auto simp: left_flight_def simp del: not_None_eq)
  then have S: "fst ` set (in_flight_queue m) \<inter> left_flight m0 (as_msg st) \<inter> {..<num_fragments m} - {} =
      left_flight m0 (as_msg st)" using m by auto
  have eq: "cleanup_loop m (to_remove st) (in_flight_queue m) (bs_new BITSET_WORDS) 0 =
      (filter (\<lambda>(i, _). i \<notin> left_flight m0 (as_msg st)) (in_flight_queue m),
       \<Sum>i \<in> left_flight m0 (as_msg st). om_fragment_len m0 i)"
    using om_core_lengths(1) [OF core] S m(4) by (subst cleanup_loop_eq) (simp_all add: lf rm)
  then show "fst (cleanup_in_flight_queue m (to_remove st)) = (\<Sum>i \<in> left_flight m0 (as_msg st). om_fragment_len m0 i)"
    by (simp add: cleanup_in_flight_queue_def)
  have "snd (cleanup_in_flight_queue m (to_remove st)) =
      m\<lparr>in_flight_queue := filter (\<lambda>(i, _). i \<notin> left_flight m0 (as_msg st)) (in_flight_queue m)\<rparr>"
    using eq by (simp add: cleanup_in_flight_queue_def)
  also have "om_core t0 dlv \<dots>"
  proof (rule om_core_set_queue [OF core])
    show "fst ` set (filter (\<lambda>(i, _). i \<notin> left_flight m0 (as_msg st)) (in_flight_queue m)) \<subseteq> {..<num_fragments m}"
      using om_core_queue [OF core] by auto
    fix i assume i: "i < num_fragments m" "last_sent (state_at m i) \<noteq> None"
    then have "i \<notin> left_flight m0 (as_msg st)" using m(1) by (simp add: left_flight_def)
    moreover have "i \<in> fst ` set (in_flight_queue m)" using om_core_flight [OF core i] .
    ultimately show "i \<in> fst ` set (filter (\<lambda>(i, _). i \<notin> left_flight m0 (as_msg st)) (in_flight_queue m))"
      by force
  qed
  finally show "om_core t0 dlv (snd (cleanup_in_flight_queue m (to_remove st)))" .
qed

section \<open>The whole operation\<close>

lemma ack_inv_start:
  assumes "om_core t0 dlv m"
  shows "ack_inv t0 dlv now m
    \<lparr>as_msg = m\<lparr>last_ack_at := t, highest_cumulative_ack := h\<rparr>, to_remove = bs_new BITSET_WORDS,
     needs_cleanup = False, as_res = ack_result_new\<rparr>"
  using assms
  by (auto simp: ack_inv_def same_shape_def left_flight_def result_ok_def ack_result_new_def)

lemma hca_ok_raised:
  assumes "hca_ok m" and "num_fragments m' = num_fragments m"
    and "highest_cumulative_ack m' = max (highest_cumulative_ack m) base"
    and "acked m \<union> ({..<base} \<inter> {..<num_fragments m}) \<subseteq> acked m'"
  shows "hca_ok m'"
  using assms unfolding hca_ok_def by (auto simp: subset_iff less_max_iff_disj)

lemma hca_ok_same: "hca_ok m \<Longrightarrow> num_fragments m' = num_fragments m \<Longrightarrow> same_acks m m' \<Longrightarrow> hca_ok m'"
  by (simp add: hca_ok_def same_acks_def)

lemma update_base_inv:
  assumes "ack_inv t0 dlv now m0 st1"
  obtains st2 where
    "(if base > last_ack_base (as_msg st1) then
        Some (st1\<lparr>as_msg := (as_msg st1)\<lparr>last_ack_base := base, dup_ack_count := 0, last_ack_at := now\<rparr>\<rparr>)
      else if any_acked then
        do { st \<leftarrow> handle_fast_retransmit base st1;
             Some (st\<lparr>as_msg := (as_msg st)\<lparr>last_ack_at := now\<rparr>\<rparr>) }
      else Some st1) = Some st2"
    "ack_inv t0 dlv now m0 st2" "same_acks (as_msg st1) (as_msg st2)"
proof (cases "base > last_ack_base (as_msg st1)")
  case True
  show ?thesis
    by (rule that [OF if_P [OF True]])
      (use assms in \<open>simp_all only: ack_inv_msg_irrelevant, simp_all add: same_acks_def\<close>)
next
  case False
  obtain st where st: "handle_fast_retransmit base st1 = Some st" "ack_inv t0 dlv now m0 st"
    "same_acks (as_msg st1) (as_msg st)"
    using handle_fast_retransmit_inv [OF assms] by blast
  have inv: "ack_inv t0 dlv now m0 (st\<lparr>as_msg := (as_msg st)\<lparr>last_ack_at := now\<rparr>\<rparr>)"
    using st(2) by (simp only: ack_inv_msg_irrelevant)
  show ?thesis
    using False st inv assms
    by (cases any_acked) (auto intro!: that simp: same_acks_def)
qed

lemma om_on_ack_ok:
  assumes wf: "om_wf t0 dlv m"
  obtains res m' where "om_on_ack m base bitmask now dlv = Some (res, m')" "om_wf t0 dlv m'"
    "acked m' = acked m \<union> ack_names m base bitmask"
    "newly_delivered_bytes res = (\<Sum>i \<in> ack_names m base bitmask - acked m. sent_bytes m i)"
    "om_inflight m' + newly_completed_in_flight_bytes res = om_inflight m"
    "result_ok t0 dlv now res" "num_fragments m' = num_fragments m" "om_data m' = om_data m"
    "payload_mtu m' = payload_mtu m" "next_fragment m' = next_fragment m"
proof -
  have core: "om_core t0 dlv m" by (rule om_wf_core [OF wf])
  let ?h = "max (highest_cumulative_ack m) base" and ?m0 = "m\<lparr>last_ack_at := now\<rparr>"
  have wf0: "om_wf t0 dlv ?m0" using wf by (simp add: om_wf_def hca_ok_def)
  obtain idxs where idxs: "om_collect_acked_indices ?m0 base bitmask = (idxs, ?m0\<lparr>highest_cumulative_ack := ?h\<rparr>)"
    "set idxs \<inter> {..<num_fragments m} = ack_names m base bitmask - acked m"
    using collect_acked_indices [OF wf0, of base bitmask] by (auto simp: ack_names_def)
  let ?st0 = "\<lparr>as_msg = ?m0\<lparr>highest_cumulative_ack := ?h\<rparr>, to_remove = bs_new BITSET_WORDS,
     needs_cleanup = False, as_res = ack_result_new\<rparr>"
  obtain any st1 where st1: "process_acks idxs now dlv False ?st0 = Some (any, st1)"
    "ack_inv t0 dlv now m st1" "same_losses (as_msg ?st0) (as_msg st1)"
    "acked (as_msg st1) = acked (as_msg ?st0) \<union> (set idxs \<inter> {..<num_fragments m})"
    by (rule process_acks_inv [OF ack_inv_start [OF core]])
  have a1: "acked (as_msg st1) = acked m \<union> ack_names m base bitmask"
    using st1(4) idxs(2) by auto
  have hca1: "hca_ok (as_msg st1)"
    by (rule hca_ok_raised [of m _ base])
      (use wf st1(3) a1 ack_invD(3) [OF st1(2)] in \<open>auto simp: om_wf_def same_losses_def ack_names_def\<close>)
  obtain st2 where st2: "(if base > last_ack_base (as_msg st1) then
        Some (st1\<lparr>as_msg := (as_msg st1)\<lparr>last_ack_base := base, dup_ack_count := 0, last_ack_at := now\<rparr>\<rparr>)
      else if any then
        do { st \<leftarrow> handle_fast_retransmit base st1;
             Some (st\<lparr>as_msg := (as_msg st)\<lparr>last_ack_at := now\<rparr>\<rparr>) }
      else Some st1) = Some st2"
    "ack_inv t0 dlv now m st2" "same_acks (as_msg st1) (as_msg st2)"
    using update_base_inv [OF st1(2)] by blast
  have n: "num_fragments (as_msg st) = num_fragments m" if "ack_inv t0 dlv now m st" for st
    using ack_invD(3) [OF that] .
  obtain st3 where st3: "detect_losses_from_holes st2 = Some st3" "ack_inv t0 dlv now m st3"
    "same_acks (as_msg st2) (as_msg st3)"
    using detect_losses_inv [OF st2(2)] hca_ok_same [OF hca1 _ st2(3)] n [OF st1(2)] n [OF st2(2)] by auto
  have same: "same_acks (as_msg st1) (as_msg st3)" by (rule same_acks_trans [OF st2(3) st3(3)])
  note D = ack_invD [OF st3(2)]
  define m4 where "m4 = (if any then prune_retransmits (as_msg st3) else as_msg st3)"
  have m4: "om_core t0 dlv m4" "fragment_states m4 = fragment_states (as_msg st3)"
    "in_flight_queue m4 = in_flight_queue m" "num_fragments m4 = num_fragments m"
    "om_data m4 = om_data m" "payload_mtu m4 = payload_mtu m" "next_fragment m4 = next_fragment m"
    "acked_bitset m4 = acked_bitset (as_msg st3)" "highest_cumulative_ack m4 = highest_cumulative_ack (as_msg st3)"
    using D(1,2) prune_retransmits_core [OF D(1)]
    by (auto simp: m4_def same_shape_def prune_retransmits_def Let_def)
  have flen: "om_fragment_len m4 = om_fragment_len m" using m4 by (intro om_fragment_len_cong) auto
  have sh4: "same_shape m m4" using D(2) m4 by (auto simp: same_shape_def)
  have hca4: "hca_ok m4"
    using hca_ok_same [OF hca1 _ same] m4 D(3) n [OF st1(2)] by (simp add: hca_ok_def)
  define out where "out = (if needs_cleanup st3
      then ((as_res st3)\<lparr>newly_completed_in_flight_bytes := fst (cleanup_in_flight_queue m4 (to_remove st3))\<rparr>,
            snd (cleanup_in_flight_queue m4 (to_remove st3)))
      else (as_res st3, m4))"
  have call: "om_on_ack m base bitmask now dlv = Some (fst out, snd out)"
    using idxs(1) st1(1) st2(1) st3(1)
    by (simp add: om_on_ack_def Let_def out_def m4_def split: prod.splits)
  have a3: "acked (as_msg st3) = acked m \<union> ack_names m base bitmask"
    using same a1 by (simp add: same_acks_def)
  have cl: "fst (cleanup_in_flight_queue m4 (to_remove st3)) = (\<Sum>i \<in> left_flight m (as_msg st3). om_fragment_len m i)"
    "om_core t0 dlv (snd (cleanup_in_flight_queue m4 (to_remove st3)))"
    using cleanup_core [OF st3(2) m4(1,2,3,4) flen core] by blast+
  have lf: "left_flight m m4 = left_flight m (as_msg st3)" by (simp add: left_flight_def m4(2))
  have fl: "om_inflight (snd (cleanup_in_flight_queue m4 rm)) = om_inflight m4" for rm
    by (simp add: cleanup_in_flight_queue_def om_inflight_def om_fragment_len_def split: prod.splits)
  have frame: "acked_bitset (snd out) = acked_bitset m4" "highest_cumulative_ack (snd out) = highest_cumulative_ack m4"
    "num_fragments (snd out) = num_fragments m4" "om_data (snd out) = om_data m4"
    "payload_mtu (snd out) = payload_mtu m4" "next_fragment (snd out) = next_fragment m4"
    by (simp_all add: out_def cleanup_in_flight_queue_def split: prod.splits)
  show ?thesis
  proof (rule that [OF call])
    show "om_wf t0 dlv (snd out)"
      using cl(2) m4(1) hca4 frame by (auto simp: om_wf_def hca_ok_def out_def)
    show "acked (snd out) = acked m \<union> ack_names m base bitmask" using frame m4(8) a3 by simp
    have "newly_delivered_bytes (fst out) = newly_delivered_bytes (as_res st3)" by (simp add: out_def)
    also have "\<dots> = (\<Sum>i \<in> acked (as_msg st3) - acked m. sent_bytes m i)" using st3(2) by (simp add: ack_inv_def)
    also have "acked (as_msg st3) - acked m = ack_names m base bitmask - acked m" using a3 by auto
    finally show "newly_delivered_bytes (fst out) = (\<Sum>i \<in> ack_names m base bitmask - acked m. sent_bytes m i)" .
    show "om_inflight (snd out) + newly_completed_in_flight_bytes (fst out) = om_inflight m"
      using inflight_difference [OF sh4] st3(2) cl(1) fl lf by (auto simp: out_def ack_inv_def)
    show "result_ok t0 dlv now (fst out)" using st3(2) by (auto simp: out_def ack_inv_def result_ok_def)
  qed (use frame m4 in auto)
qed

end
