(* ===== verification/Session_Receive.thy ===== *)
theory Session_Receive
  imports Session Outgoing_Ack
begin

text \<open>
  The session's invariant, in two halves: \<open>in_ok\<close> for what it receives and \<open>out_ok\<close> for what it
  sends, and the receive path: every packet is handled without a panic and keeps both halves.

  \<open>in_ok\<close> says that the session's byte count is the sum of its reassemblers' reservations, that
  it stays within the session's limit, that the reassemblers' sizes stay within the limit of a message, and that the shared
  quota holds it. \<open>balanced\<close> adds that an
  operation moves the quota by exactly what it moves the session's own count.
\<close>

section \<open>The invariant\<close>

definition in_ok :: "'c session \<Rightarrow> bool" where
  "in_ok s \<longleftrightarrow>
     fm_wf (s_incoming s) \<and> fm_all (\<lambda>mid r. mr_wf r \<and> mr_sized r \<and> mr_message_id r = mid) (s_incoming s) \<and>
     s_incoming_buffer_size s = fm_sum mr_reserved_bytes (s_incoming s) \<and>
     s_incoming_buffer_size s \<le> s_max_per_session s \<and>
     quota_ok (s_quota s) \<and> s_incoming_buffer_size s \<le> used_bytes (s_quota s) \<and>
     length (s_incoming s) \<le> MAX_CONCURRENT_INCOMING \<and>
     length (s_completed_incoming s) \<le> MAX_COMPLETED_INCOMING"

definition msg_ok :: "instant \<Rightarrow> nat \<Rightarrow> outgoing_message \<Rightarrow> bool" where
  "msg_ok t0 dlv m \<longleftrightarrow> om_wf t0 dlv m \<and> payload_mtu m = MAX_TOX_PACKET_SIZE - PACKET_OVERHEAD"

definition out_ok :: "instant \<Rightarrow> 'c session \<Rightarrow> bool" where
  "out_ok t0 s \<longleftrightarrow>
     fm_wf (s_outgoing s) \<and> fm_all (\<lambda>_ m. msg_ok t0 (s_delivered_bytes s) m) (s_outgoing s) \<and>
     fm_sum om_inflight (s_outgoing s) \<le> s_in_flight s \<and> rtt_ok (s_rtt s) \<and>
     sched_wf (s_scheduler s) \<and> deficits_bounded (s_scheduler s) \<and>
     scheduled (s_scheduler s) = fst ` set (s_outgoing s) \<and>
     length (s_outgoing s) \<le> MAX_CONCURRENT_OUTGOING \<and>
     length (s_datagram_queue s) \<le> MAX_DATAGRAM_QUEUE \<and>
     (\<forall>t. s_last_ping_sent s = Some t \<longrightarrow> t0 \<le> t)"

definition sess_ok :: "instant \<Rightarrow> 'c session \<Rightarrow> bool" where
  "sess_ok t0 s \<longleftrightarrow> in_ok s \<and> out_ok t0 s"

text \<open>Times between the creation of the session and the horizon of the estimator.\<close>

definition in_horizon :: "instant \<Rightarrow> instant \<Rightarrow> bool" where
  "in_horizon t0 now \<longleftrightarrow> t0 \<le> now \<and> now - t0 \<le> int rtt_horizon"

definition balanced :: "'c session \<Rightarrow> 'c session \<Rightarrow> bool" where
  "balanced s s' \<longleftrightarrow>
     used_bytes (s_quota s') + s_incoming_buffer_size s = used_bytes (s_quota s) + s_incoming_buffer_size s' \<and>
     max_bytes (s_quota s') = max_bytes (s_quota s) \<and> s_max_per_session s' = s_max_per_session s"

text \<open>Nothing the sending half depends on has changed.\<close>

definition same_out :: "'c session \<Rightarrow> 'c session \<Rightarrow> bool" where
  "same_out s s' \<longleftrightarrow>
     s_outgoing s' = s_outgoing s \<and> s_delivered_bytes s' = s_delivered_bytes s \<and>
     s_in_flight s' = s_in_flight s \<and> s_rtt s' = s_rtt s \<and> s_scheduler s' = s_scheduler s \<and>
     s_last_ping_sent s' = s_last_ping_sent s \<and> s_datagram_queue s' = s_datagram_queue s"

definition same_in :: "'c session \<Rightarrow> 'c session \<Rightarrow> bool" where
  "same_in s s' \<longleftrightarrow>
     s_incoming s' = s_incoming s \<and> s_incoming_buffer_size s' = s_incoming_buffer_size s \<and>
     s_max_per_session s' = s_max_per_session s \<and> s_quota s' = s_quota s \<and>
     s_completed_incoming s' = s_completed_incoming s"

lemma same_out_ok: "same_out s s' \<Longrightarrow> out_ok t0 s' = out_ok t0 s"
  by (simp add: same_out_def out_ok_def)

lemma same_in_ok: "same_in s s' \<Longrightarrow> in_ok s' = in_ok s"
  by (simp add: same_in_def in_ok_def)

lemma balanced_refl [simp]: "balanced s s" and same_out_refl [simp]: "same_out s s"
  by (simp_all add: balanced_def same_out_def)

lemma balanced_trans: "balanced a b \<Longrightarrow> balanced b c \<Longrightarrow> balanced a c"
  by (simp add: balanced_def)

lemma same_out_trans: "same_out a b \<Longrightarrow> same_out b c \<Longrightarrow> same_out a c"
  by (simp add: same_out_def)

lemma session_new_ok:
  assumes "quota_ok q"
  shows "sess_ok t0 (with_congestion_control_and_quota_at cc q now first_id)"
  using assms sched_new_wf sched_new_deficits rtt_new_ok
  by (simp add: sess_ok_def in_ok_def out_ok_def with_congestion_control_and_quota_at_def fm_new_def
      scheduled_def sched_new_def NUM_PRIORITIES_def)

section \<open>Reservations\<close>

lemma reserve_bytes_cases:
  assumes "reserve_bytes amount prio s = (ok, s1)" and "quota_ok (s_quota s)" and "amount \<le> 2 ^ 63"
  obtains
    (granted) q where "ok" "s1 = s\<lparr>s_quota := q\<rparr>" "used_bytes q = used_bytes (s_quota s) + amount"
      "max_bytes q = max_bytes (s_quota s)" "quota_ok q"
  | (refused) "\<not> ok" "s1 = s"
proof -
  let ?q = "(s_quota s)\<lparr>used_bytes := used_bytes (s_quota s) + amount\<rparr>"
  note fits = usize_wrap_fits [OF assms(2,3)]
  have "(ok \<and> s1 = s\<lparr>s_quota := ?q\<rparr> \<and> used_bytes ?q \<le> max_bytes ?q) \<or> (\<not> ok \<and> s1 = s)"
    using assms(1) quota_threshold_le [of "max_bytes (s_quota s)" prio]
    by (auto simp: reserve_bytes_def quota_reserve_def quota_reserve_guaranteed_def Let_def fits split: if_splits)
  then show ?thesis using granted [of ?q] refused assms(2) by (auto simp: quota_ok_def)
qed

lemma release_bytes_frame [simp]:
  "s_incoming (release_bytes n s) = s_incoming s"
  "s_incoming_buffer_size (release_bytes n s) = s_incoming_buffer_size s"
  "s_max_per_session (release_bytes n s) = s_max_per_session s"
  "s_completed_incoming (release_bytes n s) = s_completed_incoming s"
  "same_out s (release_bytes n s)"
  "used_bytes (s_quota (release_bytes n s)) = used_bytes (s_quota s) - n"
  "max_bytes (s_quota (release_bytes n s)) = max_bytes (s_quota s)"
  by (simp_all add: release_bytes_def same_out_def quota_release_def)

lemma drop_incoming_ok:
  assumes ok: "in_ok s"
  obtains s' where "drop_incoming mid s = Some (fm_get (s_incoming s) mid, s')"
    "in_ok s'" "balanced s s'" "same_out s s'" "s_pending_acks s' = s_pending_acks s"
proof (cases "fm_get (s_incoming s) mid")
  case None
  then show ?thesis using ok by (intro that [of s]) (simp_all add: drop_incoming_def)
next
  case (Some r)
  have wf: "fm_wf (s_incoming s)" "fm_all (\<lambda>mid r. mr_wf r \<and> mr_sized r \<and> mr_message_id r = mid) (s_incoming s)"
    and sz: "s_incoming_buffer_size s = fm_sum mr_reserved_bytes (s_incoming s)"
    and rest: "s_incoming_buffer_size s \<le> s_max_per_session s" "quota_ok (s_quota s)"
      "s_incoming_buffer_size s \<le> used_bytes (s_quota s)"
      "length (s_incoming s) \<le> MAX_CONCURRENT_INCOMING"
      "length (s_completed_incoming s) \<le> MAX_COMPLETED_INCOMING"
    using ok by (auto simp: in_ok_def)
  have le: "mr_reserved_bytes r \<le> s_incoming_buffer_size s"
    using fm_sum_get_le [OF Some] sz by simp
  have del: "fm_sum mr_reserved_bytes (fm_del (s_incoming s) mid) + mr_reserved_bytes r = s_incoming_buffer_size s"
    using fm_sum_del [of mr_reserved_bytes "s_incoming s" mid] Some sz by simp
  let ?s = "release_bytes (mr_reserved_bytes r) (s\<lparr>s_incoming := fm_del (s_incoming s) mid,
      s_incoming_buffer_size := s_incoming_buffer_size s - mr_reserved_bytes r\<rparr>)"
  have call: "drop_incoming mid s = Some (Some r, ?s)" using Some le by (simp add: drop_incoming_def)
  have "in_ok ?s"
    using wf rest le del length_fm_del [of "s_incoming s" mid]
    by (auto simp: in_ok_def fm_wf_del fm_all_del quota_ok_def)
  moreover have "balanced s ?s" using rest le by (simp add: balanced_def)
  moreover have "same_out s ?s" by (simp add: release_bytes_def same_out_def)
  ultimately show ?thesis using that [OF _ _ _ _ ] call Some by (simp add: release_bytes_def)
qed

text \<open>Replacing a reassembler by one with the same reservation.\<close>

lemma set_incoming_ok:
  assumes "in_ok s" and "fm_get (s_incoming s) mid = Some r" and "mr_wf r'" and "mr_sized r'" and "mr_message_id r' = mid"
    and "mr_reserved_bytes r' = mr_reserved_bytes r"
  shows "in_ok (s\<lparr>s_incoming := fm_set (s_incoming s) mid r'\<rparr>)"
  using assms fm_sum_set [of mr_reserved_bytes "s_incoming s" mid r']
    length_fm_set [of "s_incoming s" mid r']
  by (auto simp: in_ok_def fm_wf_set fm_all_set)

lemma in_ok_get:
  "in_ok s \<Longrightarrow> fm_get (s_incoming s) mid = Some r \<Longrightarrow> mr_wf r \<and> mr_sized r \<and> mr_message_id r = mid"
  by (auto simp: in_ok_def dest: fm_all_get)

lemma resize_incoming_ok:
  assumes ok: "in_ok s" and r: "fm_get (s_incoming s) mid = Some r" and n: "mr_reserved_bytes r = old"
    and sz: "sz + old = s_incoming_buffer_size s + new" "sz \<le> s_max_per_session s"
    and q: "quota_ok q" "used_bytes q + old = used_bytes (s_quota s) + new"
  shows "in_ok (s\<lparr>s_quota := q, s_incoming_buffer_size := sz,
    s_incoming := fm_set (s_incoming s) mid (r\<lparr>mr_reserved_bytes := new\<rparr>)\<rparr>)"
proof -
  have "mr_wf (r\<lparr>mr_reserved_bytes := new\<rparr>)" "mr_sized (r\<lparr>mr_reserved_bytes := new\<rparr>)" "mr_message_id r = mid"
    using in_ok_get [OF ok r] by (simp_all add: mr_wf_def)
  then show ?thesis
    using ok r n sz q fm_sum_set [of mr_reserved_bytes "s_incoming s" mid "r\<lparr>mr_reserved_bytes := new\<rparr>"]
      length_fm_set [of "s_incoming s" mid "r\<lparr>mr_reserved_bytes := new\<rparr>"]
    by (auto simp: in_ok_def fm_wf_set fm_all_set)
qed

lemma adjust_reservation_ok:
  assumes ok: "in_ok s" and r: "fm_get (s_incoming s) mid = Some r"
  obtains stays rs s' where "adjust_reservation mid r s = Some (stays, rs, s')"
    "in_ok s'" "balanced s s'" "same_out s s'"
    "stays \<longrightarrow> (\<exists>n. fm_get (s_incoming s') mid = Some (r\<lparr>mr_reserved_bytes := n\<rparr>))"
proof -
  let ?n = "mr_planned_total_size r" and ?o = "mr_reserved_bytes r"
  have q: "quota_ok (s_quota s)" using ok by (simp add: in_ok_def)
  have le: "?o \<le> s_incoming_buffer_size s" "s_incoming_buffer_size s \<le> used_bytes (s_quota s)"
    "s_incoming_buffer_size s \<le> s_max_per_session s"
    using fm_sum_get_le [OF r] ok by (auto simp: in_ok_def)
  have "?n - ?o \<le> 2 ^ 40" using mr_planned_small [of r] in_ok_get [OF ok r] by (meson diff_le_self le_trans)
  then have small: "?n - ?o \<le> 2 ^ 63" by (rule le_trans) simp
  consider "?n = ?o" | "?n > ?o" | "?n < ?o" by linarith
  then show ?thesis
  proof cases
    case 1
    show ?thesis
      by (rule that [of True "[]" s])
        (use 1 ok r in \<open>auto simp: adjust_reservation_def intro: exI [of _ ?o]\<close>)
  next
    case 2
    obtain b s1 where res: "reserve_bytes (?n - ?o) (mr_priority r) s = (b, s1)" by fastforce
    from res q small show ?thesis
    proof (cases rule: reserve_bytes_cases)
      case (granted q')
      show ?thesis
      proof (cases "s_incoming_buffer_size s + (?n - ?o) > s_max_per_session s")
        case True
        let ?s2 = "release_bytes (?n - ?o) s1"
        have s2: "?s2 = s" using granted by (simp add: release_bytes_def quota_release_def)
        obtain s3 where s3: "drop_incoming mid s = Some (Some r, s3)" "in_ok s3" "balanced s s3" "same_out s s3"
          using drop_incoming_ok [OF ok, of mid] r by auto
        show ?thesis
          by (rule that [of False "[create_rejection_ack mid s3]" s3])
            (use 2 True granted res s2 s3 in \<open>auto simp: adjust_reservation_def Let_def\<close>)
      next
        case False
        let ?s = "s\<lparr>s_quota := q', s_incoming_buffer_size := s_incoming_buffer_size s + (?n - ?o),
            s_incoming := fm_set (s_incoming s) mid (r\<lparr>mr_reserved_bytes := ?n\<rparr>)\<rparr>"
        have "in_ok ?s"
          by (rule resize_incoming_ok [OF ok r refl]) (use 2 False granted in auto)
        moreover have "balanced s ?s" "same_out s ?s"
          using granted by (simp_all add: balanced_def same_out_def)
        ultimately show ?thesis
          using 2 False granted res
          by (intro that [of True "[]" ?s]) (auto simp: adjust_reservation_def Let_def)
      qed
    next
      case refused
      obtain s3 where s3: "drop_incoming mid s = Some (Some r, s3)" "in_ok s3" "balanced s s3" "same_out s s3"
        using drop_incoming_ok [OF ok, of mid] r by auto
      show ?thesis
        by (rule that [of False "[create_rejection_ack mid s3]" s3])
          (use 2 refused res s3 in \<open>auto simp: adjust_reservation_def Let_def\<close>)
    qed
  next
    case 3
    let ?q = "quota_release (s_quota s) (?o - ?n)"
    let ?s = "s\<lparr>s_quota := ?q, s_incoming_buffer_size := s_incoming_buffer_size s - (?o - ?n),
        s_incoming := fm_set (s_incoming s) mid (r\<lparr>mr_reserved_bytes := ?n\<rparr>)\<rparr>"
    have "in_ok ?s"
      by (rule resize_incoming_ok [OF ok r refl])
        (use 3 le q in \<open>auto simp: quota_release_def quota_ok_def\<close>)
    moreover have "balanced s ?s" "same_out s ?s"
      using 3 le by (simp_all add: balanced_def same_out_def quota_release_def)
    ultimately show ?thesis
      using 3 le by (intro that [of True "[]" ?s]) (auto simp: adjust_reservation_def Let_def release_bytes_def)
  qed
qed

section \<open>Data packets\<close>

lemma remember_completed_ok:
  assumes ok: "in_ok s"
  obtains s' where "remember_completed mid ack now s = Some s'" "in_ok s'" "balanced s s'" "same_out s s'"
    "s_incoming s' = s_incoming s"
proof -
  let ?m = "fm_set (s_completed_incoming s) mid (ack, now)"
  have len: "length ?m \<le> Suc MAX_COMPLETED_INCOMING"
    using ok by (simp add: length_fm_set in_ok_def)
  show ?thesis
  proof (cases "fm_len ?m > MAX_COMPLETED_INCOMING")
    case True
    then obtain k v m where m: "?m = (k, v) # m" by (cases ?m) (auto simp: fm_len_def)
    have "length (fm_del ?m k) \<le> MAX_COMPLETED_INCOMING" using len by (simp add: m)
    then show ?thesis
      using True ok m
      by (intro that [of "s\<lparr>s_completed_incoming := fm_del ?m k\<rparr>"])
        (auto simp: remember_completed_def fm_keys_def in_ok_def balanced_def same_out_def)
  next
    case False
    then show ?thesis
      using ok by (intro that [of "s\<lparr>s_completed_incoming := ?m\<rparr>"])
        (auto simp: remember_completed_def fm_len_def in_ok_def balanced_def same_out_def)
  qed
qed

lemma irrelevant_updates:
  "in_ok (s\<lparr>s_pending_nacks := n\<rparr>) = in_ok s" "in_ok (s\<lparr>s_pending_acks := a\<rparr>) = in_ok s"
  "in_ok (s\<lparr>s_events := e\<rparr>) = in_ok s" "in_ok (s\<lparr>s_highest_received_id := h\<rparr>) = in_ok s"
  "in_ok (s\<lparr>s_last_activity := t\<rparr>) = in_ok s"
  by (simp_all add: in_ok_def)

lemma irrelevant_frames:
  "balanced s (s\<lparr>s_pending_nacks := n\<rparr>)" "same_out s (s\<lparr>s_pending_nacks := n\<rparr>)"
  "balanced s (s\<lparr>s_pending_acks := a\<rparr>)" "same_out s (s\<lparr>s_pending_acks := a\<rparr>)"
  "balanced s (s\<lparr>s_events := e\<rparr>)" "same_out s (s\<lparr>s_events := e\<rparr>)"
  "balanced s (s\<lparr>s_highest_received_id := h\<rparr>)" "same_out s (s\<lparr>s_highest_received_id := h\<rparr>)"
  "balanced s (s\<lparr>s_incoming := i\<rparr>)" "same_out s (s\<lparr>s_incoming := i\<rparr>)"
  by (simp_all add: balanced_def same_out_def)

text \<open>An operation of the receive path: returns, keeps \<open>in_ok\<close>, balances the quota, spares the rest.\<close>

definition recv_ok :: "'c session \<Rightarrow> 'c session \<Rightarrow> bool" where
  "recv_ok s s' \<longleftrightarrow> in_ok s' \<and> balanced s s' \<and> same_out s s'"

lemma recv_ok_trans: "recv_ok a b \<Longrightarrow> recv_ok b c \<Longrightarrow> recv_ok a c"
  by (auto simp: recv_ok_def intro: balanced_trans same_out_trans)

lemma recv_ok_irrelevant:
  "in_ok s \<Longrightarrow> recv_ok s (s\<lparr>s_pending_nacks := n\<rparr>)" "in_ok s \<Longrightarrow> recv_ok s (s\<lparr>s_pending_acks := a\<rparr>)"
  "in_ok s \<Longrightarrow> recv_ok s (s\<lparr>s_events := e\<rparr>)" "in_ok s \<Longrightarrow> recv_ok s (s\<lparr>s_highest_received_id := h\<rparr>)"
  "in_ok s \<Longrightarrow> recv_ok s s"
  by (simp_all add: recv_ok_def irrelevant_updates irrelevant_frames)

lemma note_gap_ok: "in_ok s \<Longrightarrow> recv_ok s (note_gap mid idx base now s)"
  "s_incoming (note_gap mid idx base now s) = s_incoming s"
  by (simp_all add: note_gap_def recv_ok_irrelevant)

lemma finish_incoming_ok:
  assumes ok: "in_ok s"
  obtains (returns) s' where "finish_incoming deserialize mid now s = Some s'" "recv_ok s s'"
  | (panics) r assembled where "finish_incoming deserialize mid now s = None" "fm_get (s_incoming s) mid = Some r"
      "mr_assemble r = Some assembled" "deserialize assembled = None"
proof -
  let ?s0 = "s\<lparr>s_pending_nacks := fm_del (s_pending_nacks s) mid\<rparr>"
  have r0: "recv_ok s ?s0" by (rule recv_ok_irrelevant(1) [OF ok])
  then have "in_ok ?s0" by (simp add: recv_ok_def)
  then obtain s1 where s1: "drop_incoming mid ?s0 = Some (fm_get (s_incoming s) mid, s1)" "recv_ok ?s0 s1"
    using drop_incoming_ok [of ?s0 mid] by (auto simp: recv_ok_def)
  have r1: "recv_ok s s1" by (rule recv_ok_trans [OF r0 s1(2)])
  consider "fm_get (s_incoming s) mid = None" | r where "fm_get (s_incoming s) mid = Some r" "mr_assemble r = None"
    | r assembled where "fm_get (s_incoming s) mid = Some r" "mr_assemble r = Some assembled" by (metis not_None_eq)
  then show ?thesis
  proof cases
    case 1
    then show ?thesis using s1(1) r1 by (intro returns [of s1]) (simp_all add: finish_incoming_def)
  next
    case 2
    then show ?thesis using s1(1) r1 by (intro returns [of s1]) (simp_all add: finish_incoming_def Let_def)
  next
    case (3 r assembled)
    show ?thesis
    proof (cases "deserialize assembled")
      case None
      then show ?thesis using 3 s1(1) by (intro panics [of r assembled]) (simp_all add: finish_incoming_def Let_def)
    next
      case (Some envelope)
      define s2 where "s2 = (case envelope of
          Some (mt, payload) \<Rightarrow> s1\<lparr>s_events := s_events s1 @ [MessageCompleted mid mt payload]\<rparr>
        | None \<Rightarrow> s1)"
      have in1: "in_ok s1" using r1 by (simp add: recv_ok_def)
      have r2: "recv_ok s1 s2"
        unfolding s2_def using in1 by (auto simp: recv_ok_irrelevant split: option.splits)
      then have "in_ok s2" by (simp add: recv_ok_def)
      then obtain s3 where s3: "remember_completed mid (mr_create_ack r (current_rwnd s1)) now s2 = Some s3" "recv_ok s2 s3"
        using remember_completed_ok [of s2] unfolding recv_ok_def by metis
      let ?s4 = "s3\<lparr>s_pending_acks := fm_set (s_pending_acks s3) mid (2, now)\<rparr>"
      have "in_ok s3" using s3(2) by (simp add: recv_ok_def)
      then have "recv_ok s ?s4"
        using recv_ok_trans [OF recv_ok_trans [OF r1 r2] s3(2)] recv_ok_irrelevant(2) recv_ok_trans by blast
      moreover have "finish_incoming deserialize mid now s = Some ?s4"
        using 3 Some s1(1) s3(1) by (simp add: finish_incoming_def Let_def flip: s2_def)
      ultimately show ?thesis using returns by blast
    qed
  qed
qed

lemma process_fragment_ok:
  assumes ok: "in_ok s" and known: "fm_get (s_incoming s) mid = Some entry"
  obtains (returns) rs s' where "process_fragment deserialize mid idx data now s = Some (rs, s')" "recv_ok s s'"
  | (panics) e assembled where "process_fragment deserialize mid idx data now s = None"
      "mr_add_fragment entry idx data now = Some (Inr True, e)" "mr_assemble e = Some assembled" "deserialize assembled = None"
proof -
  have entry: "mr_wf entry" "mr_sized entry" "mr_message_id entry = mid" using in_ok_get [OF ok known] by auto
  obtain res e1 where e1: "mr_add_fragment entry idx data now = Some (res, e1)" "mr_wf e1"
    "mr_message_id e1 = mid" "mr_reserved_bytes e1 = mr_reserved_bytes entry"
    using mr_add_fragment_wf [OF entry(1), of idx data now] entry(3) by metis
  let ?s0 = "s\<lparr>s_incoming := fm_set (s_incoming s) mid e1\<rparr>"
  have ok0: "in_ok ?s0" by (rule set_incoming_ok [OF ok known e1(2) mr_add_fragment_sized [OF entry(2) e1(1)] e1(3,4)])
  then have r0: "recv_ok s ?s0" by (simp add: recv_ok_def irrelevant_frames)
  show ?thesis
  proof (cases res)
    case (Inl e)
    obtain s1 where "drop_incoming mid ?s0 = Some (fm_get (s_incoming ?s0) mid, s1)" "recv_ok ?s0 s1"
      using drop_incoming_ok [OF ok0, of mid] unfolding recv_ok_def by metis
    then show ?thesis
      using Inl known e1(1) recv_ok_trans [OF r0]
      by (intro returns [of "[]" s1]) (simp_all add: process_fragment_def)
  next
    case (Inr done0)
    let ?s1 = "note_gap mid idx (fb_base_index (mr_buffer e1)) now ?s0"
    have r1: "recv_ok ?s0 ?s1" by (rule note_gap_ok(1) [OF ok0])
    have in1: "in_ok ?s1" using r1 by (simp add: recv_ok_def)
    have get1: "fm_get (s_incoming ?s1) mid = Some e1" by (simp add: note_gap_ok(2))
    obtain stays rs s2 where s2: "adjust_reservation mid e1 ?s1 = Some (stays, rs, s2)" "recv_ok ?s1 s2"
      "stays \<longrightarrow> (\<exists>n. fm_get (s_incoming s2) mid = Some (e1\<lparr>mr_reserved_bytes := n\<rparr>))"
      using adjust_reservation_ok [OF in1 get1] unfolding recv_ok_def by metis
    have in2: "in_ok s2" and r2: "recv_ok s s2"
      using s2(2) recv_ok_trans [OF recv_ok_trans [OF r0 r1]] by (auto simp: recv_ok_def)
    consider "\<not> stays" | "stays" "done0" | "stays" "\<not> done0" by blast
    then show ?thesis
    proof cases
      case 1
      then show ?thesis
        using Inr known e1(1) s2(1) r2 by (intro returns [of rs s2]) (simp_all add: process_fragment_def)
    next
      case 2
      from in2 show ?thesis
      proof (cases rule: finish_incoming_ok [of _ deserialize mid now])
        case (returns s3)
        then show ?thesis
          using 2 Inr known e1(1) s2(1) recv_ok_trans [OF r2]
          by (intro that(1) [of rs s3]) (simp_all add: process_fragment_def)
      next
        case (panics r assembled)
        then have "mr_assemble e1 = Some assembled" using 2 s2(3) by (auto simp: mr_assemble_def)
        then show ?thesis
          using 2 Inr known e1(1) s2(1) panics
          by (intro that(2) [of e1 assembled]) (simp_all add: process_fragment_def)
      qed
    next
      case 3
      obtain c t m where m: "fm_or_insert (s_pending_acks s2) mid (0, now) = ((c, t), m)"
        by (metis prod.exhaust)
      show ?thesis
        using 3 Inr known e1(1) s2(1) m recv_ok_trans [OF r2 recv_ok_irrelevant(2) [OF in2]]
        by (intro returns [of rs "s2\<lparr>s_pending_acks := fm_set m mid (c + 1, t)\<rparr>"])
          (simp_all add: process_fragment_def)
    qed
  qed
qed

text \<open>The buffer a data packet goes into, and whether the packet completes a message on which the decoder panics.\<close>

definition incoming_buffer :: "message_id \<Rightarrow> fragment_count \<Rightarrow> 'c session \<Rightarrow> fragment_buffer" where
  "incoming_buffer mid tot s = (case fm_get (s_incoming s) mid of None \<Rightarrow> fb_new tot | Some r \<Rightarrow> mr_buffer r)"

fun decoder_panics :: "(bytes \<Rightarrow> (message_type \<times> bytes) option panics) \<Rightarrow> packet \<Rightarrow> 'c session \<Rightarrow> bool" where
  "decoder_panics deserialize (Data mid idx tot data) s =
     (case fb_add_fragment (incoming_buffer mid tot s) idx data of
        Some (Inr True, b) \<Rightarrow> (case fb_assemble b of Some assembled \<Rightarrow> deserialize assembled = None | None \<Rightarrow> False)
      | _ \<Rightarrow> False)"
| "decoder_panics deserialize p s = False"

lemma ensure_reassembler_ok:
  assumes ok: "in_ok s" and call: "ensure_reassembler mid mt tot len now s = ((b, rs), s')"
    and size: "tot < 2 ^ 16" "len < 2 ^ 47"
  shows "recv_ok s s'" "b \<Longrightarrow> \<exists>e. fm_get (s_incoming s') mid = Some e \<and> mr_buffer e = incoming_buffer mid tot s"
proof -
  have q: "quota_ok (s_quota s)" using ok by (simp add: in_ok_def)
  have "recv_ok s s' \<and> (b \<longrightarrow> (\<exists>e. fm_get (s_incoming s') mid = Some e \<and> mr_buffer e = incoming_buffer mid tot s))"
  proof (cases "fm_get (s_incoming s) mid")
    case (Some entry)
    have "in_ok (s\<lparr>s_incoming := fm_set (s_incoming s) mid (entry\<lparr>mr_priority := p\<rparr>)\<rparr>)" for p
      by (rule set_incoming_ok [OF ok Some]) (use in_ok_get [OF ok Some] in \<open>auto simp: mr_wf_def\<close>)
    then show ?thesis
      using Some call ok
      by (auto simp: ensure_reassembler_def recv_ok_def irrelevant_frames incoming_buffer_def split: option.splits)
  next
    case None
    show ?thesis
    proof (cases "fm_len (s_incoming s) \<ge> MAX_CONCURRENT_INCOMING")
      case True
      then show ?thesis using None call ok by (auto simp: ensure_reassembler_def recv_ok_irrelevant)
    next
      case False
      define amount where "amount = (if tot > 1 then max len ESTIMATED_PAYLOAD_SIZE * tot else len)"
      define prio where "prio = calculate_priority mt tot amount"
      have small: "amount \<le> 2 ^ 63"
      proof -
        have "max len ESTIMATED_PAYLOAD_SIZE * tot \<le> 2 ^ 47 * 2 ^ 16"
          using size by (intro mult_le_mono) (simp_all add: limits)
        then show ?thesis using size by (simp add: amount_def)
      qed
      obtain g s1 where res: "reserve_bytes amount prio s = (g, s1)" by fastforce
      have eq: "((b, rs), s') =
        (if \<not> g \<or> s_incoming_buffer_size s1 + amount > s_max_per_session s1 then
           (let s2 = (if g then release_bytes amount s1 else s1) in ((False, [create_rejection_ack mid s2]), s2))
         else (case mr_new mid tot prio amount now of
             Inr re \<Rightarrow> (let s2 = s1\<lparr>s_incoming_buffer_size := s_incoming_buffer_size s1 + amount,
                                    s_incoming := fm_set (s_incoming s1) mid re\<rparr>
                in ((True, []), if (case s_highest_received_id s2 of None \<Rightarrow> True
                                    | Some h \<Rightarrow> mid_wrapping_sub mid h < 0x80000000)
                    then s2\<lparr>s_highest_received_id := Some mid\<rparr> else s2))
           | Inl _ \<Rightarrow> (let s2 = release_bytes amount s1 in ((False, [create_rejection_ack mid s2]), s2))))"
        by (simp only: call [symmetric] ensure_reassembler_def None option.case False if_False Let_def
            amount_def [symmetric] prio_def [symmetric] res prod.case)
      from res q small show ?thesis
      proof (cases rule: reserve_bytes_cases)
        case (granted q')
        have restored: "release_bytes amount s1 = s" using granted by (simp add: release_bytes_def quota_release_def)
        show ?thesis
        proof (cases "s_incoming_buffer_size s + amount > s_max_per_session s")
          case True
          then show ?thesis
            using eq ok granted restored by (simp add: Let_def recv_ok_irrelevant)
        next
          case fits: False
          show ?thesis
          proof (cases "mr_new mid tot prio amount now")
            case (Inl e)
            then show ?thesis
              using eq ok granted restored fits by (simp add: Let_def recv_ok_irrelevant)
          next
            case (Inr re)
            have re: "mr_wf re" "mr_sized re" "mr_message_id re = mid" "mr_reserved_bytes re = amount"
              "mr_buffer re = incoming_buffer mid tot s"
              using mr_new_wf [OF Inr] mr_new_sized [OF Inr] Inr None by (auto simp: mr_new_def incoming_buffer_def split: if_splits)
            let ?s2 = "s\<lparr>s_quota := q', s_incoming_buffer_size := s_incoming_buffer_size s + amount,
                s_incoming := fm_set (s_incoming s) mid re\<rparr>"
            have "in_ok ?s2"
              using ok None False fits granted re fm_sum_set [of mr_reserved_bytes "s_incoming s" mid re]
                length_fm_set [of "s_incoming s" mid re]
              by (auto simp: in_ok_def fm_wf_set fm_all_set fm_len_def)
            then have r2: "recv_ok s ?s2" "in_ok ?s2"
              using granted by (simp_all add: recv_ok_def balanced_def same_out_def)
            have "s' = ?s2 \<or> s' = ?s2\<lparr>s_highest_received_id := Some mid\<rparr>"
              using eq granted fits Inr by (simp add: Let_def split: if_splits)
            then show ?thesis
              using r2 re(5) recv_ok_trans [OF r2(1) recv_ok_irrelevant(4) [OF r2(2)]] by auto
          qed
        qed
      next
        case refused
        then show ?thesis
          using eq ok by (simp add: Let_def recv_ok_irrelevant)
      qed
    qed
  qed
  then show "recv_ok s s'" "b \<Longrightarrow> \<exists>e. fm_get (s_incoming s') mid = Some e \<and> mr_buffer e = incoming_buffer mid tot s"
    by blast+
qed

text \<open>A data packet, whatever it contains, is handled without a panic, unless the decoder panics on the message it completes.\<close>

lemma mr_add_fragment_buffer:
  "mr_add_fragment r idx data now = Some (Inr True, r') \<Longrightarrow> fb_add_fragment (mr_buffer r) idx data = Some (Inr True, mr_buffer r')"
  by (auto simp: mr_add_fragment_def Let_def split: if_splits bind_splits)

lemma handle_data_packet_ok:
  assumes ok: "in_ok s" and size: "tot < 2 ^ 16" "length data < 2 ^ 47"
  obtains (returns) rs s' where "handle_data_packet deserialize mid idx tot data now s = Some (rs, s')" "recv_ok s s'"
  | (panics) "handle_data_packet deserialize mid idx tot data now s = None" "decoder_panics deserialize (Data mid idx tot data) s"
proof -
  obtain b rs s1 where ens: "ensure_reassembler mid (if idx = 0 then peek_message_type data else None)
      tot (length data) now s = ((b, rs), s1)" by (metis prod.exhaust)
  note r1 = ensure_reassembler_ok [OF ok ens size]
  have in1: "in_ok s1" using r1(1) by (simp add: recv_ok_def)
  consider (done0) reply where "check_completed_message mid s = Some reply"
    | (old) "check_completed_message mid s = None" "is_ancient_message mid s"
    | (rejected) "check_completed_message mid s = None" "\<not> is_ancient_message mid s" "\<not> b"
    | (process) "check_completed_message mid s = None" "\<not> is_ancient_message mid s" "b"
    by fastforce
  then show ?thesis
  proof cases
    case process
    obtain entry where entry: "fm_get (s_incoming s1) mid = Some entry" "mr_buffer entry = incoming_buffer mid tot s"
      using r1(2) process(3) by auto
    from in1 entry(1) show ?thesis
    proof (cases rule: process_fragment_ok [of _ _ _ deserialize idx data now])
      case (returns more s2)
      then show ?thesis
        using process ens recv_ok_trans [OF r1(1)]
        by (intro that(1) [of "rs @ more" s2]) (simp_all add: handle_data_packet_def Let_def)
    next
      case (panics e assembled)
      then have "decoder_panics deserialize (Data mid idx tot data) s"
        using mr_add_fragment_buffer [OF panics(2)] entry(2) by (simp add: mr_assemble_def)
      then show ?thesis
        using process ens panics(1) by (intro that(2)) (simp_all add: handle_data_packet_def Let_def)
    qed
  next
    case done0
    then show ?thesis using ok
      by (intro returns [of "[reply]" s]) (simp_all add: handle_data_packet_def recv_ok_irrelevant)
  next
    case old
    then show ?thesis using ok
      by (intro returns [of "[]" s]) (simp_all add: handle_data_packet_def recv_ok_irrelevant)
  next
    case rejected
    then show ?thesis using ens r1(1)
      by (intro returns [of rs s1]) (simp_all add: handle_data_packet_def Let_def)
  qed
qed

end
