(* ===== verification/Session_Safety.thy ===== *)
theory Session_Safety
  imports Session_Receive
begin

text \<open>
  The remaining packets (acknowledgements, pings, datagrams), the sending of messages and the
  periodic cleanup keep the session's invariant and do not panic, except for one arithmetic overflow a
  peer controls: the clock offset computed from a pong.
\<close>

section \<open>Acknowledgements\<close>

lemma out_ok_get:
  "out_ok t0 s \<Longrightarrow> fm_get (s_outgoing s) mid = Some m \<Longrightarrow> om_wf t0 (s_delivered_bytes s) m"
  by (auto simp: out_ok_def msg_ok_def dest: fm_all_get)

lemma msg_ok_mono: "msg_ok t0 dlv m \<Longrightarrow> dlv \<le> dlv' \<Longrightarrow> msg_ok t0 dlv' m"
  by (auto simp: msg_ok_def intro: om_wf_mono)

lemma fst_set_fm_set_present: "fm_get m k = Some v0 \<Longrightarrow> fst ` set (fm_set m k v) = fst ` set m"
  by (metis fm_get_None_iff fst_set_fm_set insert_absorb option.distinct(1))

lemma fst_set_fm_del: "fm_wf m \<Longrightarrow> fst ` set (fm_del m k) = fst ` set m - {k}"
proof (rule set_eqI)
  fix i assume "fm_wf m"
  then show "i \<in> fst ` set (fm_del m k) \<longleftrightarrow> i \<in> fst ` set m - {k}"
    using fm_get_None_iff [of "fm_del m k" i] fm_get_None_iff [of m i] fm_get_del [of m k i]
    by (cases "i = k") auto
qed

text \<open>Replacing one outgoing message, with the flight and the delivered bytes moving along.\<close>

lemma set_outgoing_ok:
  assumes ok: "out_ok t0 s" and m: "fm_get (s_outgoing s) mid = Some m"
    and m': "om_wf t0 dlv m'" "s_delivered_bytes s \<le> dlv" "payload_mtu m' = payload_mtu m"
    and fl: "fl + om_inflight m \<ge> s_in_flight s + om_inflight m'"
  shows "out_ok t0 (s\<lparr>s_outgoing := fm_set (s_outgoing s) mid m', s_delivered_bytes := dlv, s_in_flight := fl\<rparr>)"
proof -
  let ?o = "fm_set (s_outgoing s) mid m'"
  have "msg_ok t0 dlv m'" using ok m m' by (auto simp: out_ok_def msg_ok_def dest: fm_all_get)
  then have "fm_all (\<lambda>_ m. msg_ok t0 dlv m) ?o"
    using ok m'(2) msg_ok_mono by (auto simp: out_ok_def intro!: fm_all_set elim!: fm_all_mono)
  moreover have "fm_sum om_inflight ?o + om_inflight m = fm_sum om_inflight (s_outgoing s) + om_inflight m'"
    using fm_sum_set [of om_inflight "s_outgoing s" mid m'] m by simp
  moreover have "length ?o = length (s_outgoing s)" using m by (simp add: length_fm_set)
  ultimately show ?thesis
    using ok fl fst_set_fm_set_present [OF m, of m'] by (auto simp: out_ok_def fm_wf_set)
qed

lemma del_outgoing_ok:
  assumes ok: "out_ok t0 s"
  shows "out_ok t0 (s\<lparr>s_outgoing := fm_del (s_outgoing s) mid,
    s_scheduler := sched_remove_message (s_scheduler s) mid\<rparr>)"
proof -
  have "fm_sum om_inflight (fm_del (s_outgoing s) mid) \<le> fm_sum om_inflight (s_outgoing s)"
    using fm_sum_del [of om_inflight "s_outgoing s" mid] by simp
  then show ?thesis
    using ok length_fm_del [of "s_outgoing s" mid]
    by (auto simp: out_ok_def fm_wf_del fm_all_del fst_set_fm_del sched_remove_message_wf
        sched_remove_message_deficits)
qed

lemma cc_note_frame [simp]:
  "out_ok t0 (cc_note f s) = out_ok t0 s" "in_ok (cc_note f s) = in_ok s"
  "same_in s' (cc_note f s) = same_in s' s" "s_outgoing (cc_note f s) = s_outgoing s"
  "s_scheduler (cc_note f s) = s_scheduler s" "s_rtt (cc_note f s) = s_rtt s"
  "s_delivered_bytes (cc_note f s) = s_delivered_bytes s" "s_in_flight (cc_note f s) = s_in_flight s"
  "s_incoming (cc_note f s) = s_incoming s" "s_incoming_buffer_size (cc_note f s) = s_incoming_buffer_size s"
  "s_max_per_session (cc_note f s) = s_max_per_session s" "s_quota (cc_note f s) = s_quota s"
  "s_completed_incoming (cc_note f s) = s_completed_incoming s"
  "s_last_ping_sent (cc_note f s) = s_last_ping_sent s" "s_datagram_queue (cc_note f s) = s_datagram_queue s"
  "s_events (cc_note f s) = s_events s" "s_next_pacing_time (cc_note f s) = s_next_pacing_time s"
  by (simp_all add: cc_note_def out_ok_def in_ok_def same_in_def)

lemma out_ok_irrelevant:
  "out_ok t0 (s\<lparr>s_events := e\<rparr>) = out_ok t0 s" "out_ok t0 (s\<lparr>s_last_activity := t\<rparr>) = out_ok t0 s"
  "out_ok t0 (s\<lparr>s_peer_rwnd := n\<rparr>) = out_ok t0 s" "out_ok t0 (s\<lparr>s_zero_window_probes_sent := n\<rparr>) = out_ok t0 s"
  "out_ok t0 (s\<lparr>s_congestion_control := c'\<rparr>) = out_ok t0 s"
  "out_ok t0 (s\<lparr>s_last_delivery_time := t\<rparr>) = out_ok t0 s" "out_ok t0 (s\<lparr>s_clock_offset := c\<rparr>) = out_ok t0 s"
  by (simp_all add: out_ok_def)

lemma out_ok_rtt: "out_ok t0 s \<Longrightarrow> rtt_ok est \<Longrightarrow> out_ok t0 (s\<lparr>s_rtt := est\<rparr>)"
  by (simp add: out_ok_def)

lemma in_horizon_sample: "in_horizon t0 now \<Longrightarrow> r \<le> nat (now - t0) \<Longrightarrow> r \<le> rtt_horizon"
  using nat_mono [of "now - t0" "int rtt_horizon"] by (simp add: in_horizon_def)

lemma note_peer_rwnd_frame [simp]:
  "out_ok t0 (note_peer_rwnd ack s) = out_ok t0 s" "same_in s (note_peer_rwnd ack s)"
  "s_outgoing (note_peer_rwnd ack s) = s_outgoing s"
  "s_delivered_bytes (note_peer_rwnd ack s) = s_delivered_bytes s"
  by (simp_all add: note_peer_rwnd_def Let_def out_ok_def same_in_def)

lemma apply_delivery_ok:
  assumes ok: "out_ok t0 s" and msg: "fm_get (s_outgoing s) mid = Some msg"
    and ack: "om_wf t0 (s_delivered_bytes s) msg'"
      "om_inflight msg' + newly_completed_in_flight_bytes res = om_inflight msg"
      "payload_mtu msg' = payload_mtu msg"
  shows "out_ok t0 (apply_delivery ops mid msg' res now s)"
    and "same_in s (apply_delivery ops mid msg' res now s)"
    and "s_delivered_bytes (apply_delivery ops mid msg' res now s) = s_delivered_bytes s + newly_delivered_bytes res"
proof -
  have "om_inflight msg \<le> s_in_flight s"
    using fm_sum_get_le [OF msg, of om_inflight] ok by (simp add: out_ok_def)
  then have "out_ok t0 (s\<lparr>s_outgoing := fm_set (s_outgoing s) mid msg',
      s_delivered_bytes := s_delivered_bytes s + newly_delivered_bytes res,
      s_in_flight := s_in_flight s - newly_completed_in_flight_bytes res\<rparr>)"
    by (intro set_outgoing_ok [OF ok msg]) (use ack om_wf_mono in auto)
  then show "out_ok t0 (apply_delivery ops mid msg' res now s)"
    by (simp add: apply_delivery_def Let_def) (auto simp: out_ok_def)
qed (simp_all add: apply_delivery_def Let_def same_in_def cc_note_def)

lemma final_delivery_sample_ok:
  assumes "result_ok t0 dlv now res" and "dlv \<le> s_delivered_bytes s"
  obtains sample where "final_delivery_sample res now s = Some sample"
proof (cases "delivery_sample res")
  case (Some x)
  obtain d t r l where x: "x = (d, t, r, l)" by (metis prod.exhaust)
  have "d \<le> s_delivered_bytes s" using assms Some x by (auto simp: result_ok_def)
  then show ?thesis using that Some x by (simp add: final_delivery_sample_def)
qed (use that in \<open>simp add: final_delivery_sample_def\<close>)

lemma finish_outgoing_ok:
  assumes "out_ok t0 s"
  shows "out_ok t0 (finish_outgoing mid msg s)" "same_in s (finish_outgoing mid msg s)"
  using assms del_outgoing_ok [OF assms, of mid]
  by (auto simp: finish_outgoing_def out_ok_def same_in_def)

lemma same_in_trans: "same_in a b \<Longrightarrow> same_in b c \<Longrightarrow> same_in a c"
  by (simp add: same_in_def)

lemma handle_ack_packet_ok:
  assumes ok: "out_ok t0 s" and now: "in_horizon t0 now"
  obtains s' where "handle_ack_packet ops ack now s = Some s'" "out_ok t0 s'" "same_in s s'"
proof -
  let ?mid = "ack_message_id ack" and ?s1 = "note_peer_rwnd ack s"
  have ok1: "out_ok t0 ?s1" using ok by simp
  show ?thesis
  proof (cases "fm_get (s_outgoing ?s1) ?mid")
    case None
    then show ?thesis
      using ok by (intro that [of "cc_note (\<lambda>c. cc_on_ack ops c (srtt (s_rtt ?s1)) None 0 (s_in_flight ?s1) now) ?s1"])
        (simp_all add: handle_ack_packet_def Let_def)
  next
    case (Some msg)
    obtain res msg' where ack: "om_on_ack msg (ack_base_index ack) (ack_bitmask ack) now (s_delivered_bytes ?s1) = Some (res, msg')"
      "om_wf t0 (s_delivered_bytes ?s1) msg'"
      "om_inflight msg' + newly_completed_in_flight_bytes res = om_inflight msg"
      "result_ok t0 (s_delivered_bytes ?s1) now res" "payload_mtu msg' = payload_mtu msg"
      using om_on_ack_ok [OF out_ok_get [OF ok1 Some]] by blast
    let ?s2 = "apply_delivery ops ?mid msg' res now ?s1"
    note s2 = apply_delivery_ok [OF ok1 Some ack(2,3,5), of ops now]
    obtain sample where sample: "final_delivery_sample res now ?s2 = Some sample"
      using final_delivery_sample_ok [OF ack(4), of ?s2] s2(3) by auto
    obtain est where est: "(case min_rtt res of None \<Rightarrow> Some (s_rtt ?s2) | Some r \<Rightarrow> rtt_update (s_rtt ?s2) r) = Some est"
      "rtt_ok est"
    proof (cases "min_rtt res")
      case None
      then show ?thesis using that [of "s_rtt ?s2"] s2(1) by (simp add: out_ok_def)
    next
      case (Some r)
      have "r \<le> rtt_horizon" using ack(4) Some in_horizon_sample [OF now] by (auto simp: result_ok_def)
      then show ?thesis
        using rtt_update_ok [of "s_rtt ?s2" r] s2(1) Some that by (auto simp: out_ok_def)
    qed
    let ?s3 = "?s2\<lparr>s_rtt := est\<rparr>"
    let ?s4 = "cc_note (\<lambda>c. cc_on_ack ops c (case first_rtt res of Some r \<Rightarrow> r | None \<Rightarrow> srtt (s_rtt ?s3))
        sample (newly_delivered_bytes res) (s_in_flight ?s3) now) ?s3"
    have ok4: "out_ok t0 ?s4" using out_ok_rtt [OF s2(1) est(2)] by simp
    have "same_in ?s1 ?s4" using s2(2) by (simp only: cc_note_frame) (simp add: same_in_def)
    then have "same_in s ?s4" by (rule same_in_trans [OF note_peer_rwnd_frame(2)])
    then have same: "same_in s (finish_outgoing ?mid msg' ?s4)"
      by (rule same_in_trans [OF _ finish_outgoing_ok(2) [OF ok4]])
    show ?thesis
      by (rule that [OF _ finish_outgoing_ok(1) [OF ok4] same])
        (use Some ack(1) sample est(1) in \<open>simp add: handle_ack_packet_def Let_def\<close>)
  qed
qed

section \<open>Negative acknowledgements\<close>

text \<open>
  \<open>rest\<close> is what the other messages have in flight: every fragment taken back is subtracted
  exactly once, and the saturating subtraction never saturates.
\<close>

definition nack_inv :: "instant \<Rightarrow> nat \<Rightarrow> nat \<Rightarrow> nack_state \<Rightarrow> bool" where
  "nack_inv t0 dlv rest ns \<longleftrightarrow>
     payload_mtu (ns_msg ns) = MAX_TOX_PACKET_SIZE - PACKET_OVERHEAD \<and> om_wf t0 dlv (ns_msg ns) \<and> om_inflight (ns_msg ns) + rest \<le> ns_in_flight ns \<and>
     (\<forall>i < num_fragments (ns_msg ns). bs_get (ns_remove ns) i \<longrightarrow> last_sent (state_at (ns_msg ns) i) = None)"

lemma inflight_clear:
  assumes core: "om_core t0 dlv m" and idx: "idx < num_fragments m"
    and m': "fragment_states m' = (fragment_states m)[idx := s']" "last_sent s' = None"
      "num_fragments m' = num_fragments m" "om_fragment_len m' = om_fragment_len m"
  shows "om_inflight m' + (if last_sent (state_at m idx) \<noteq> None then om_fragment_len m idx else 0) = om_inflight m"
proof -
  let ?F = "\<lambda>m. {i. i < num_fragments m \<and> last_sent (state_at m i) \<noteq> None}"
  have len: "length (fragment_states m) = num_fragments m" using om_core_lengths [OF core] by simp
  have F: "?F m' = ?F m - {idx}"
    using m'(1,2,3) len idx by (auto simp: nth_list_update split: if_splits)
  show ?thesis
  proof (cases "last_sent (state_at m idx) = None")
    case True
    then have "?F m' = ?F m" using F by auto
    with True show ?thesis by (simp add: om_inflight_def m'(4))
  next
    case False
    then have "idx \<in> ?F m" using idx by simp
    then have "sum (om_fragment_len m) (?F m) = om_fragment_len m idx + sum (om_fragment_len m) (?F m - {idx})"
      by (intro sum.remove) auto
    with False F show ?thesis by (simp add: om_inflight_def m'(4))
  qed
qed

lemma om_core_set_retransmits:
  assumes "om_core t0 dlv m" and "retransmits_ok (num_fragments m) q b"
  shows "om_core t0 dlv (m\<lparr>retransmit_queue := q, retransmit_bitset := b\<rparr>)" (is "om_core _ _ ?m")
proof -
  have "om_fragment_len ?m = om_fragment_len m" "om_sized ?m = om_sized m"
    by (rule om_fragment_len_cong om_sized_cong; simp)+
  with assms show ?thesis unfolding om_core_def by simp
qed

lemma nack_index_ok:
  assumes inv: "nack_inv t0 dlv rest ns"
  obtains ns' where "nack_index idx ns = Some ns'" "nack_inv t0 dlv rest ns'"
    "num_fragments (ns_msg ns') = num_fragments (ns_msg ns)"
proof (cases "om_is_acked (ns_msg ns) idx")
  case True
  then show ?thesis using inv by (intro that [of ns]) (simp_all add: nack_index_def Let_def)
next
  case False
  let ?m = "ns_msg ns"
  let ?s = "state_at ?m idx"
  have wf: "om_wf t0 dlv ?m" and fl: "om_inflight ?m + rest \<le> ns_in_flight ns"
    and rm: "\<And>i. i < num_fragments ?m \<Longrightarrow> bs_get (ns_remove ns) i \<Longrightarrow> last_sent (state_at ?m i) = None"
    using inv by (auto simp: nack_inv_def)
  have core: "om_core t0 dlv ?m" by (rule om_wf_core [OF wf])
  have idx: "idx < num_fragments ?m" using False by (simp add: om_is_acked_iff)
  have len: "idx < length (fragment_states ?m)" "length (fragment_states ?m) = num_fragments ?m"
    using om_core_lengths [OF core] idx by auto
  define m1 where "m1 = ?m\<lparr>fragment_states := (fragment_states ?m)[idx := ?s\<lparr>last_sent := None\<rparr>]\<rparr>"
  have s_ok: "state_ok t0 dlv (om_fragment_len ?m idx) (?s\<lparr>last_sent := None\<rparr>)"
    using om_core_state [OF core idx] by (auto simp: state_ok_def split: option.splits)
  have "om_core t0 dlv (?m\<lparr>fragment_states := (fragment_states ?m)[idx := ?s\<lparr>last_sent := None\<rparr>],
      in_flight_queue := in_flight_queue ?m\<rparr>)"
    by (rule om_core_set_state [OF core s_ok om_core_queue [OF core]])
      (simp_all add: om_core_flight [OF core] del: not_None_eq)
  then have core1: "om_core t0 dlv m1" by (simp add: m1_def)
  have flen: "om_fragment_len m1 = om_fragment_len ?m" by (rule om_fragment_len_cong) (simp_all add: m1_def)
  have infl: "om_inflight m1 + (if last_sent ?s \<noteq> None then om_fragment_len ?m idx else 0) = om_inflight ?m"
    by (rule inflight_clear [OF core idx, of _ "?s\<lparr>last_sent := None\<rparr>"]) (simp_all add: m1_def flen [unfolded m1_def])
  define m3 where "m3 = (if bs_get (retransmit_bitset m1) idx then m1
      else m1\<lparr>retransmit_queue := retransmit_queue m1 @ [idx],
              retransmit_bitset := snd (bs_set (retransmit_bitset m1) idx)\<rparr>)"
  have "om_core t0 dlv m3"
  proof (cases "bs_get (retransmit_bitset m1) idx")
    case False
    have "retransmits_ok (num_fragments m1) (retransmit_queue m1 @ [idx]) (snd (bs_set (retransmit_bitset m1) idx))"
      using core1 False idx om_core_lengths(1) [OF core1]
      by (auto simp: om_core_def retransmits_ok_def bs_members_set bs_members_def m1_def)
    then show ?thesis using om_core_set_retransmits [OF core1] False by (simp add: m3_def)
  qed (simp add: m3_def core1)
  then have wf3: "om_wf t0 dlv m3" using wf by (simp add: om_wf_def hca_ok_def m3_def m1_def)
  have m3: "fragment_states m3 = fragment_states m1" "num_fragments m3 = num_fragments ?m" "om_inflight m3 = om_inflight m1"
    by (simp_all add: m3_def m1_def om_inflight_def om_fragment_len_def)
  define ns' where "ns' = (if last_sent ?s \<noteq> None
      then ns\<lparr>ns_in_flight := ns_in_flight ns - om_fragment_len ?m idx,
             ns_remove := snd (bs_set (ns_remove ns) idx),
             ns_cleanup := (ns_cleanup ns \<or> fst (bs_set (ns_remove ns) idx))\<rparr>
      else ns)\<lparr>ns_msg := m3, ns_triggered := True\<rparr>"
  have call: "nack_index idx ns = Some ns'"
    using False len(1)
    by (cases "last_sent ?s") (simp_all add: nack_index_def Let_def ns'_def m3_def m1_def om_fragment_len_def)
  have "\<forall>i < num_fragments m3. bs_get (ns_remove ns') i \<longrightarrow> last_sent (state_at m3 i) = None"
    using rm len by (auto simp: m3 ns'_def m1_def nth_list_update split: if_splits)
  moreover have "om_inflight m3 + rest \<le> ns_in_flight ns'"
    using infl fl by (auto simp: m3 ns'_def split: if_splits)
  moreover have "payload_mtu m3 = MAX_TOX_PACKET_SIZE - PACKET_OVERHEAD"
    using inv by (simp add: nack_inv_def m3_def m1_def)
  ultimately have "nack_inv t0 dlv rest ns'" using wf3 by (simp add: nack_inv_def ns'_def)
  with call show ?thesis by (rule that) (simp add: ns'_def m3)
qed

lemma nack_indices_ok:
  assumes "nack_inv t0 dlv rest ns"
  obtains ns' where "nack_indices idxs ns = Some ns'" "nack_inv t0 dlv rest ns'"
  using assms
proof (induction idxs arbitrary: ns thesis)
  case (Cons idx idxs)
  obtain ns1 where ns1: "nack_index idx ns = Some ns1" "nack_inv t0 dlv rest ns1"
    using nack_index_ok [OF Cons.prems(2)] by blast
  then obtain ns' where "nack_indices idxs ns1 = Some ns'" "nack_inv t0 dlv rest ns'"
    using Cons.IH [OF _ ns1(2)] by blast
  with ns1 Cons.prems(1) show ?case by simp
qed simp

lemma handle_nack_packet_ok:
  assumes ok: "out_ok t0 s"
  obtains s' where "handle_nack_packet ops n now s = Some s'" "out_ok t0 s'" "same_in s s'"
proof (cases "fm_get (s_outgoing s) (nack_message_id n)")
  case None
  then show ?thesis using ok by (intro that [of s]) (simp_all add: handle_nack_packet_def same_in_def)
next
  case (Some msg)
  let ?dlv = "s_delivered_bytes s" and ?rest = "s_in_flight s - om_inflight msg"
  have le: "om_inflight msg \<le> s_in_flight s"
    using fm_sum_get_le [OF Some, of om_inflight] ok by (simp add: out_ok_def)
  let ?ns0 = "\<lparr>ns_msg = msg, ns_in_flight = s_in_flight s, ns_remove = bs_new BITSET_WORDS,
    ns_cleanup = False, ns_triggered = False\<rparr>"
  have mtu: "payload_mtu msg = MAX_TOX_PACKET_SIZE - PACKET_OVERHEAD"
    using ok Some by (auto simp: out_ok_def msg_ok_def dest: fm_all_get)
  then have "nack_inv t0 ?dlv ?rest ?ns0"
    using out_ok_get [OF ok Some] le by (simp add: nack_inv_def)
  then obtain ns where ns: "nack_indices (nack_missing_indices n) ?ns0 = Some ns" "nack_inv t0 ?dlv ?rest ns"
    using nack_indices_ok by blast
  define msg' where "msg' = (if ns_cleanup ns
      then (ns_msg ns)\<lparr>in_flight_queue := filter (\<lambda>(idx, _). \<not> bs_get (ns_remove ns) idx) (in_flight_queue (ns_msg ns))\<rparr>
      else ns_msg ns)"
  have wf: "om_wf t0 ?dlv (ns_msg ns)" using ns(2) by (simp add: nack_inv_def)
  have core: "om_core t0 ?dlv (ns_msg ns)" by (rule om_wf_core [OF wf])
  have "om_core t0 ?dlv ((ns_msg ns)\<lparr>in_flight_queue :=
      filter (\<lambda>(idx, _). \<not> bs_get (ns_remove ns) idx) (in_flight_queue (ns_msg ns))\<rparr>)"
  proof (rule om_core_set_queue [OF core])
    show "fst ` set (filter (\<lambda>(idx, _). \<not> bs_get (ns_remove ns) idx) (in_flight_queue (ns_msg ns))) \<subseteq>
        {..<num_fragments (ns_msg ns)}" using om_core_queue [OF core] by auto
    fix i assume i: "i < num_fragments (ns_msg ns)" "last_sent (state_at (ns_msg ns) i) \<noteq> None"
    then have "\<not> bs_get (ns_remove ns) i" using ns(2) by (auto simp: nack_inv_def)
    with om_core_flight [OF core i]
    show "i \<in> fst ` set (filter (\<lambda>(idx, _). \<not> bs_get (ns_remove ns) idx) (in_flight_queue (ns_msg ns)))"
      by force
  qed
  then have wf': "om_wf t0 ?dlv msg'" using wf by (auto simp: msg'_def om_wf_def hca_ok_def)
  have "om_inflight msg' = om_inflight (ns_msg ns)" by (simp add: msg'_def om_inflight_def om_fragment_len_def)
  then have fl: "ns_in_flight ns + om_inflight msg \<ge> s_in_flight s + om_inflight msg'"
    using ns(2) le unfolding nack_inv_def by linarith
  have "out_ok t0 (s\<lparr>s_outgoing := fm_set (s_outgoing s) (nack_message_id n) msg', s_in_flight := ns_in_flight ns\<rparr>)"
    using set_outgoing_ok [OF ok Some wf' le_refl _ fl] ns(2) mtu by (simp add: nack_inv_def msg'_def)
  then show ?thesis
    using Some ns(1)
    by (intro that [of "(let s1 = s\<lparr>s_outgoing := fm_set (s_outgoing s) (nack_message_id n) msg', s_in_flight := ns_in_flight ns\<rparr>
        in if ns_triggered ns then cc_note (\<lambda>c. cc_on_nack ops c now) s1 else s1)"])
      (auto simp: handle_nack_packet_def Let_def msg'_def same_in_def cc_note_def out_ok_irrelevant)
qed

section \<open>Every packet\<close>

lemma handle_pong_ok:
  assumes ok: "out_ok t0 s" and now: "in_horizon t0 now" and off: "pong_offset t1 t2 t3 sys_ms \<noteq> None"
  obtains s' where "handle_pong ops sys_ms t1 t2 t3 now s = Some s'" "out_ok t0 s'" "same_in s s'"
proof (cases "s_last_ping_sent s")
  case None
  then show ?thesis using ok by (intro that [of s]) (simp_all add: handle_pong_def same_in_def)
next
  case (Some t)
  obtain c where c: "pong_offset t1 t2 t3 sys_ms = Some c" using off by blast
  have "t0 \<le> t" using ok Some by (simp add: out_ok_def)
  then have "saturating_duration_since now t \<le> nat (now - t0)"
    by (auto simp: saturating_duration_since_def intro!: nat_mono)
  then have "saturating_duration_since now t \<le> rtt_horizon" by (rule in_horizon_sample [OF now])
  then obtain est where est: "rtt_update (s_rtt s) (saturating_duration_since now t) = Some est" "rtt_ok est"
    using rtt_update_ok [of "s_rtt s"] ok by (auto simp: out_ok_def)
  let ?s2 = "s\<lparr>s_last_ping_sent := None, s_rtt := est, s_clock_offset := c\<rparr>"
  have "out_ok t0 ?s2" using ok est(2) by (simp add: out_ok_def)
  then show ?thesis
    using Some est(1) c
    by (intro that [of "cc_note (\<lambda>c. cc_on_ack ops c (saturating_duration_since now t) None 0 (s_in_flight ?s2) now) ?s2"])
      (simp_all add: handle_pong_def Let_def same_in_def)
qed

text \<open>
  The packets whose clock arithmetic stays within \<^verbatim>\<open>i64\<close> and whose sizes are those of a packet: the number of fragments
  is a \<^verbatim>\<open>u16\<close>, and the data of a fragment (at most 1353 bytes from the transport) is below \<open>2 ^ 47\<close> bytes, so that the
  product of the two fits into \<^verbatim>\<open>usize\<close>.
\<close>

fun input_ok :: "int \<Rightarrow> int \<Rightarrow> packet \<Rightarrow> bool" where
  "input_ok sys_ms jitter (Ping t1) = (i64 (sys_ms + jitter) \<noteq> None)"
| "input_ok sys_ms jitter (Pong t1 t2 t3) = (pong_offset t1 t2 t3 sys_ms \<noteq> None)"
| "input_ok sys_ms jitter (Data mid idx tot data) = (tot < 2 ^ 16 \<and> length data < 2 ^ 47)"
| "input_ok sys_ms jitter _ = True"

lemma same_in_balanced: "same_in s s' \<Longrightarrow> balanced s s'"
  by (simp add: same_in_def balanced_def)

lemma check_cwnd_change_frame [simp]:
  "sess_ok t0 (check_cwnd_change ops s) = sess_ok t0 s" "balanced s' (check_cwnd_change ops s) = balanced s' s"
  by (simp_all add: check_cwnd_change_def Let_def sess_ok_def in_ok_def out_ok_def balanced_def)

lemma handle_packet_internal_ok:
  assumes ok: "sess_ok t0 s" and now: "in_horizon t0 now" and p: "input_ok sys_ms jitter p"
  obtains (returns) rs s' where "handle_packet_internal ops deserialize sys_ms jitter p now s = Some (rs, s')"
      "sess_ok t0 s'" "balanced s s'"
  | (panics) "handle_packet_internal ops deserialize sys_ms jitter p now s = None" "decoder_panics deserialize p s"
proof -
  have inn: "in_ok s" and out: "out_ok t0 s" using ok by (auto simp: sess_ok_def)
  show ?thesis
  proof (cases p)
    case (Data mid idx tot data)
    have "tot < 2 ^ 16" "length data < 2 ^ 47" using p Data by simp_all
    with inn show ?thesis
    proof (cases rule: handle_data_packet_ok [of _ _ _ deserialize mid idx now])
      case (returns rs s')
      with Data out show ?thesis
        by (intro that(1) [of rs s']) (auto simp: handle_packet_internal_def recv_ok_def sess_ok_def same_out_ok)
    next
      case panics
      with Data show ?thesis by (intro that(2)) (simp_all add: handle_packet_internal_def)
    qed
  next
    case (Ack ack)
    obtain s' where "handle_ack_packet ops ack now s = Some s'" "out_ok t0 s'" "same_in s s'"
      using handle_ack_packet_ok [OF out now] by blast
    with Ack inn show ?thesis
      by (intro returns [of "[]" s']) (auto simp: handle_packet_internal_def sess_ok_def same_in_ok same_in_balanced)
  next
    case (Nack n)
    obtain s' where "handle_nack_packet ops n now s = Some s'" "out_ok t0 s'" "same_in s s'"
      using handle_nack_packet_ok [OF out] by blast
    with Nack inn show ?thesis
      by (intro returns [of "[]" s']) (auto simp: handle_packet_internal_def sess_ok_def same_in_ok same_in_balanced)
  next
    case (Ping t1)
    then obtain t where "i64 (sys_ms + jitter) = Some t" using p by auto
    with Ping ok show ?thesis
      by (intro returns [of "[Pong t1 t t]" s]) (auto simp: handle_packet_internal_def)
  next
    case (Pong t1 t2 t3)
    obtain s' where "handle_pong ops sys_ms t1 t2 t3 now s = Some s'" "out_ok t0 s'" "same_in s s'"
      using handle_pong_ok [OF out now, of t1 t2 t3 sys_ms] p Pong by auto
    with Pong inn show ?thesis
      by (intro returns [of "[]" s']) (auto simp: handle_packet_internal_def sess_ok_def same_in_ok same_in_balanced)
  next
    case (Datagram mt data)
    with ok show ?thesis
      by (intro returns [of "[]" "s\<lparr>s_events := s_events s @ [MessageCompleted 0 mt data]\<rparr>"])
        (auto simp: handle_packet_internal_def sess_ok_def irrelevant_updates out_ok_irrelevant irrelevant_frames)
  qed
qed

lemma handle_packet_ok:
  assumes "sess_ok t0 s" and "in_horizon t0 now" and "input_ok sys_ms jitter p"
  obtains (returns) rs s' where "handle_packet ops deserialize sys_ms jitter p now s = Some (rs, s')"
      "sess_ok t0 s'" "balanced s s'"
  | (panics) "handle_packet ops deserialize sys_ms jitter p now s = None" "decoder_panics deserialize p s"
proof -
  let ?s = "s\<lparr>s_last_activity := now\<rparr>"
  have same: "decoder_panics deserialize p ?s = decoder_panics deserialize p s" by (cases p) (simp_all add: incoming_buffer_def)
  have "sess_ok t0 ?s" using assms(1) by (simp add: sess_ok_def irrelevant_updates out_ok_irrelevant)
  from this assms(2,3) show ?thesis
  proof (cases rule: handle_packet_internal_ok [of _ _ _ _ _ _ ops deserialize])
    case (returns rs s1)
    moreover from this have "balanced s s1" by (simp add: balanced_def)
    ultimately show ?thesis
      by (intro that(1) [of rs "check_cwnd_change ops s1"]) (auto simp: handle_packet_def)
  next
    case panics
    then show ?thesis using same by (intro that(2)) (simp_all add: handle_packet_def)
  qed
qed

section \<open>Sending a message\<close>

lemma find_free_id_free:
  assumes "\<exists>k < n. fm_get m (i + of_nat k) = None"
  shows "fm_get m (find_free_id n m i) = None"
  using assms
proof (induction n arbitrary: i)
  case (Suc n)
  show ?case
  proof (cases "fm_get m i = None")
    case False
    obtain k where k: "k < Suc n" "fm_get m (i + of_nat k) = None" using Suc.prems by blast
    then obtain k' where "k = Suc k'" using False by (cases k) auto
    with k have "\<exists>k < n. fm_get m ((i + 1) + of_nat k) = None"
      by (intro exI [of _ k']) (simp add: algebra_simps)
    with Suc.IH [of "i + 1"] False show ?thesis by (simp add: mid_wrapping_add_def)
  qed simp
qed simp

text \<open>Fewer than 32 messages cannot occupy 32 consecutive ids.\<close>

lemma find_free_id_ok:
  assumes "length m < 32"
  shows "fm_get m (find_free_id 32 m i) = None"
proof (rule find_free_id_free, rule ccontr)
  assume "\<not> (\<exists>k < 32. fm_get m (i + of_nat k) = None)"
  then have sub: "(\<lambda>k. i + of_nat k) ` {..<32} \<subseteq> fst ` set m" by (auto simp: fm_get_None_iff)
  have inj: "inj_on (\<lambda>k. i + (of_nat k :: u32)) {..<32}"
  proof (rule inj_onI)
    fix a b :: nat assume ab: "a \<in> {..<32}" "b \<in> {..<32}" "i + of_nat a = i + (of_nat b :: u32)"
    then have "(of_nat a :: u32) = of_nat b" by simp
    moreover have "unat (of_nat k :: u32) = k" if "k < 32" for k
      using that by (simp add: unat_of_nat)
    ultimately show "a = b" using ab(1,2) by (metis lessThan_iff)
  qed
  have "32 = card ((\<lambda>k. i + (of_nat k :: u32)) ` {..<32})" using card_image [OF inj] by simp
  also have "\<dots> \<le> card (fst ` set m)" using sub by (intro card_mono) auto
  also have "\<dots> \<le> length m" using card_image_le [of "set m" fst] card_length [of m] by simp
  finally show False using assms by simp
qed

lemma add_outgoing_ok:
  assumes ok: "out_ok t0 s" and new: "fm_get (s_outgoing s) mid = None" "length (s_outgoing s) < 32"
    and m: "msg_ok t0 (s_delivered_bytes s) msg" "om_inflight msg = 0"
  shows "out_ok t0 (s\<lparr>s_scheduler := sched_update_message (s_scheduler s) mid prio,
    s_outgoing := fm_set (s_outgoing s) mid msg\<rparr>)"
  using assms fm_sum_set [of om_inflight "s_outgoing s" mid msg] length_fm_set [of "s_outgoing s" mid msg]
    fst_set_fm_set [of "s_outgoing s" mid msg]
  by (auto simp: out_ok_def fm_wf_set fm_all_set sched_update_message_wf sched_update_message_deficits
      MAX_CONCURRENT_OUTGOING_def MIN_TRANSPORT_SLOTS_def)

text \<open>
  Sending: the message is accepted, under an id no other outgoing message has, exactly when there
  is a free slot and its envelope can be serialised within the size limit.
\<close>

lemma send_message_at_ok:
  assumes ok: "out_ok t0 s"
  obtains r s' where "send_message_at serialize mt data now s = Some (r, s')" "out_ok t0 s'" "same_in s s'"
    "r = (if length (s_outgoing s) \<ge> 32 then Inl QueueFull
          else case serialize mt data of
            Inl e \<Rightarrow> Inl (SerializationError e)
          | Inr payload \<Rightarrow>
              if length payload > MAX_MESSAGE_SIZE then Inl MessageTooLarge
              else Inr (find_free_id 32 (s_outgoing s) (s_next_message_id s)))"
    "\<And>mid. r = Inr mid \<Longrightarrow> fm_get (s_outgoing s) mid = None \<and>
       (\<exists>payload msg. serialize mt data = Inr payload \<and> fm_get (s_outgoing s') mid = Some msg \<and> om_data msg = payload)"
proof -
  let ?mid = "find_free_id 32 (s_outgoing s) (s_next_message_id s)"
  let ?s1 = "s\<lparr>s_next_message_id := mid_wrapping_add ?mid 1\<rparr>"
  have ok1: "out_ok t0 ?s1" "same_in s ?s1" using ok by (simp_all add: out_ok_def same_in_def)
  have mx: "MAX_CONCURRENT_OUTGOING = 32" by (simp add: limits)
  show ?thesis
  proof (cases "length (s_outgoing s) \<ge> 32")
    case True
    then show ?thesis
      using ok by (intro that [of "Inl QueueFull" s]) (auto simp: send_message_at_def fm_len_def mx same_in_def)
  next
    case False
    then have free: "fm_get (s_outgoing s) ?mid = None" by (intro find_free_id_ok) simp
    show ?thesis
    proof (cases "serialize mt data")
      case (Inl e)
      then show ?thesis
        using False free ok1
        by (intro that [of "Inl (SerializationError e)" ?s1]) (auto simp: send_message_at_def fm_len_def mx Let_def)
    next
      case (Inr payload)
      show ?thesis
      proof (cases "length payload > MAX_MESSAGE_SIZE")
        case True
        then show ?thesis
          using False free Inr ok1
          by (intro that [of "Inl MessageTooLarge" ?s1]) (auto simp: send_message_at_def fm_len_def mx Let_def)
      next
        case small: False
        have n: "div_ceil (length payload) 1353 \<le> 776"
          using small by (simp add: div_ceil_le_iff MAX_MESSAGE_SIZE_def)
        then have "\<exists>msg. om_new mt payload 1353 now = Some (Inr msg)"
          by (auto simp: om_new_def Let_def MAX_FRAGMENTS_PER_MESSAGE_def)
        then obtain msg where msg: "om_new mt payload 1353 now = Some (Inr msg)" ..
        have m: "msg_ok t0 (s_delivered_bytes ?s1) msg" "om_inflight msg = 0" "om_data msg = payload"
          using om_new_wf [OF msg] n msg
          by (auto simp: msg_ok_def om_new_def Let_def MAX_TOX_PACKET_SIZE_def PACKET_OVERHEAD_def split: if_splits)
        let ?s2 = "?s1\<lparr>s_scheduler := sched_update_message (s_scheduler ?s1) ?mid (priority_level (message_priority mt)),
            s_outgoing := fm_set (s_outgoing ?s1) ?mid msg\<rparr>"
        have "out_ok t0 ?s2"
          using add_outgoing_ok [OF ok1(1) _ _ m(1,2), of ?mid] free False by simp
        moreover have "send_message_at serialize mt data now s = Some (Inr ?mid, ?s2)"
          using False free Inr small msg
          by (simp add: send_message_at_def fm_len_def mx Let_def MAX_TOX_PACKET_SIZE_def PACKET_OVERHEAD_def)
        ultimately show ?thesis
          using False small Inr free m(3) by (intro that [of "Inr ?mid" ?s2]) (auto simp: same_in_def)
      qed
    qed
  qed
qed

section \<open>Cleanup\<close>

abbreviation expired_in :: "instant \<Rightarrow> message_reassembler \<Rightarrow> bool" where
  "expired_in now r \<equiv> saturating_duration_since now (mr_last_activity r) \<ge> from_secs REASSEMBLY_TIMEOUT_SECS"

abbreviation expired_out :: "instant \<Rightarrow> outgoing_message \<Rightarrow> bool" where
  "expired_out now m \<equiv> saturating_duration_since now (last_ack_at m) \<ge> om_timeout m \<or>
     saturating_duration_since now (last_ack_at m) \<ge> CONNECTION_TIMEOUT"

lemma fm_sum_filter_split:
  "fm_sum f (filter (\<lambda>(k, v). P v) m) + fm_sum f (filter (\<lambda>(k, v). \<not> P v) m) = fm_sum f m"
  by (induction m) auto

lemma retain_incoming:
  "fm_sum mr_reserved_bytes inc \<le> sz \<Longrightarrow>
     fm_retain (cleanup_incoming_entry now) inc (Some (sz, q)) =
       (filter (\<lambda>(_, r). \<not> expired_in now r) inc,
        Some (sz - fm_sum mr_reserved_bytes (filter (\<lambda>(_, r). expired_in now r) inc),
              q\<lparr>used_bytes := used_bytes q - fm_sum mr_reserved_bytes (filter (\<lambda>(_, r). expired_in now r) inc)\<rparr>))"
proof (induction inc arbitrary: sz q)
  case (Cons p inc)
  obtain k r where p: "p = (k, r)" by fastforce
  show ?case
  proof (cases "expired_in now r")
    case True
    with Cons.prems show ?thesis
      using Cons.IH [of "sz - mr_reserved_bytes r" "quota_release q (mr_reserved_bytes r)"]
      by (simp add: p cleanup_incoming_entry_def quota_release_def)
  next
    case False
    with Cons.prems Cons.IH [of sz q] show ?thesis by (simp add: p cleanup_incoming_entry_def)
  qed
qed simp

lemma release_flight_eq:
  assumes core: "om_core t0 dlv m"
  shows "release_flight m fl = fl - om_inflight m"
proof -
  let ?n = "num_fragments m" and ?L = "\<lambda>i. last_sent (state_at m i) \<noteq> None"
  have len: "length (fragment_states m) = ?n" "?n \<le> 1024" using om_core_lengths [OF core] by auto
  have "fold (\<lambda>(idx, state) fl. if last_sent state \<noteq> None then fl - om_fragment_len m (idx mod 65536) else fl)
      (map (\<lambda>i. (i, state_at m i)) [0..<k]) fl =
      fl - (\<Sum>i \<in> {i. i < k \<and> ?L i}. om_fragment_len m i)" if "k \<le> ?n" for k
    using that
  proof (induction k)
    case (Suc k)
    have split: "{i. i < Suc k \<and> ?L i} = (if ?L k then insert k {i. i < k \<and> ?L i} else {i. i < k \<and> ?L i})"
      by (auto simp: less_Suc_eq)
    have "k mod 65536 = k" using Suc.prems len by simp
    with Suc show ?case unfolding split by (simp add: add.commute)
  qed simp
  moreover have "enumerate 0 (fragment_states m) = map (\<lambda>i. (i, state_at m i)) [0..<?n]"
    using len(1) by (intro nth_equalityI) (auto simp: nth_enumerate_eq)
  ultimately show ?thesis by (simp add: release_flight_def om_inflight_def)
qed

lemma retain_outgoing:
  assumes "fm_all (\<lambda>_ m. msg_ok t0 dlv m) out" and "sched_wf sched" and "deficits_bounded sched"
  obtains evs' sched' where
    "fm_retain (cleanup_outgoing_entry now) out (fl, evs, sched) =
       (filter (\<lambda>(_, m). \<not> expired_out now m) out,
        (fl - fm_sum om_inflight (filter (\<lambda>(_, m). expired_out now m) out), evs', sched'))"
    "sched_wf sched'" "deficits_bounded sched'"
    "scheduled sched' = scheduled sched - fst ` set (filter (\<lambda>(_, m). expired_out now m) out)"
  using assms
proof (induction out arbitrary: fl evs sched thesis)
  case (Cons p out)
  obtain k m where p: "p = (k, m)" by fastforce
  have wf: "om_wf t0 dlv m" and rest: "fm_all (\<lambda>_ m. msg_ok t0 dlv m) out"
    using Cons.prems(2) by (auto simp: p msg_ok_def)
  show ?case
  proof (cases "expired_out now m")
    case True
    obtain evs' sched' where IH:
      "fm_retain (cleanup_outgoing_entry now) out (release_flight m fl, evs @ [MessageFailed k ''Timed out'', ReadyToSend],
          sched_remove_message sched k) =
       (filter (\<lambda>(_, m). \<not> expired_out now m) out,
        (release_flight m fl - fm_sum om_inflight (filter (\<lambda>(_, m). expired_out now m) out), evs', sched'))"
      "sched_wf sched'" "deficits_bounded sched'"
      "scheduled sched' = scheduled (sched_remove_message sched k) - fst ` set (filter (\<lambda>(_, m). expired_out now m) out)"
      using Cons.IH [OF _ rest sched_remove_message_wf [OF Cons.prems(3)] sched_remove_message_deficits [OF Cons.prems(4)]]
      by blast
    have entry: "cleanup_outgoing_entry now k m (fl, evs, sched) = ((False, m\<lparr>in_flight_queue := []\<rparr>),
        (release_flight m fl, evs @ [MessageFailed k ''Timed out'', ReadyToSend], sched_remove_message sched k))"
      using True by (simp add: cleanup_outgoing_entry_def Let_def)
    have fl: "release_flight m fl = fl - om_inflight m" by (rule release_flight_eq [OF om_wf_core [OF wf]])
    show ?thesis
    proof (rule Cons.prems(1) [of evs' sched'])
      show "scheduled sched' = scheduled sched - fst ` set (filter (\<lambda>(_, m). expired_out now m) (p # out))"
        using IH(4) True Cons.prems(3) by (auto simp: p)
      show "fm_retain (cleanup_outgoing_entry now) (p # out) (fl, evs, sched) =
          (filter (\<lambda>(_, m). \<not> expired_out now m) (p # out),
           (fl - fm_sum om_inflight (filter (\<lambda>(_, m). expired_out now m) (p # out)), evs', sched'))"
        using IH(1) True entry fl by (simp add: p)
    qed (use IH in auto)
  next
    case False
    obtain evs' sched' where IH:
      "fm_retain (cleanup_outgoing_entry now) out (fl, evs, sched) =
       (filter (\<lambda>(_, m). \<not> expired_out now m) out,
        (fl - fm_sum om_inflight (filter (\<lambda>(_, m). expired_out now m) out), evs', sched'))"
      "sched_wf sched'" "deficits_bounded sched'"
      "scheduled sched' = scheduled sched - fst ` set (filter (\<lambda>(_, m). expired_out now m) out)"
      using Cons.IH [OF _ rest Cons.prems(3,4)] by blast
    have entry: "cleanup_outgoing_entry now k m (fl, evs, sched) = ((True, m), (fl, evs, sched))"
      using False by (simp add: cleanup_outgoing_entry_def Let_def)
    show ?thesis by (rule Cons.prems(1) [of evs' sched']) (use IH False entry in \<open>simp_all add: p\<close>)
  qed
qed simp

lemma keys_filter_diff:
  "fm_wf m \<Longrightarrow> fst ` set m - fst ` set (filter (\<lambda>(_, v). P v) m) = fst ` set (filter (\<lambda>(_, v). \<not> P v) m)"
  by (induction m) (auto simp: image_iff)

lemma fm_all_filter: "fm_all P m \<Longrightarrow> fm_all P (filter f m)"
  by (auto simp: fm_all_def)

lemma fm_wf_filter: "fm_wf m \<Longrightarrow> fm_wf (filter f m)"
  by (rule distinct_map_filter)

text \<open>
  The periodic cleanup drops exactly the messages that timed out, gives back what they
  had reserved and in flight, and never panics.
\<close>

lemma cleanup_ok:
  assumes ok: "sess_ok t0 s"
  obtains s' where "cleanup now s = Some s'" "sess_ok t0 s'" "balanced s s'"
    "s_incoming s' = filter (\<lambda>(_, r). \<not> expired_in now r) (s_incoming s)"
    "s_outgoing s' = filter (\<lambda>(_, m). \<not> expired_out now m) (s_outgoing s)"
proof -
  let ?inc = "filter (\<lambda>(_, r). \<not> expired_in now r) (s_incoming s)"
  let ?gone = "fm_sum mr_reserved_bytes (filter (\<lambda>(_, r). expired_in now r) (s_incoming s))"
  let ?out = "filter (\<lambda>(_, m). \<not> expired_out now m) (s_outgoing s)"
  let ?lost = "fm_sum om_inflight (filter (\<lambda>(_, m). expired_out now m) (s_outgoing s))"
  let ?q = "(s_quota s)\<lparr>used_bytes := used_bytes (s_quota s) - ?gone\<rparr>"
  have inn: "in_ok s" and out: "out_ok t0 s" using ok by (auto simp: sess_ok_def)
  obtain evs sched where ret: "fm_retain (cleanup_outgoing_entry now) (s_outgoing s) (s_in_flight s, s_events s, s_scheduler s) =
       (?out, (s_in_flight s - ?lost, evs, sched))"
    "sched_wf sched" "deficits_bounded sched"
    "scheduled sched = scheduled (s_scheduler s) - fst ` set (filter (\<lambda>(_, m). expired_out now m) (s_outgoing s))"
    by (rule retain_outgoing [of t0 "s_delivered_bytes s" "s_outgoing s" "s_scheduler s"])
      (use out in \<open>auto simp: out_ok_def\<close>)
  let ?comp = "filter (\<lambda>(_, (_, time)). saturating_duration_since now time < from_secs 30) (s_completed_incoming s)"
  let ?s = "s\<lparr>s_incoming := ?inc, s_incoming_buffer_size := s_incoming_buffer_size s - ?gone, s_quota := ?q,
      s_outgoing := ?out, s_in_flight := s_in_flight s - ?lost, s_events := evs, s_scheduler := sched,
      s_completed_incoming := ?comp\<rparr>"
  have sums: "fm_sum mr_reserved_bytes ?inc + ?gone = s_incoming_buffer_size s"
    "fm_sum om_inflight ?out + ?lost = fm_sum om_inflight (s_outgoing s)"
    using fm_sum_filter_split [of mr_reserved_bytes "expired_in now" "s_incoming s"]
      fm_sum_filter_split [of om_inflight "expired_out now" "s_outgoing s"] inn
    by (auto simp: in_ok_def add.commute)
  have call: "cleanup now s = Some ?s"
    using retain_incoming [of "s_incoming s" "s_incoming_buffer_size s" now "s_quota s"] ret(1) inn
    by (simp add: cleanup_def in_ok_def Let_def)
  have "in_ok ?s"
    using inn sums(1)
    by (auto simp: in_ok_def fm_all_filter fm_wf_filter quota_ok_def intro: le_trans [OF length_filter_le])
  moreover have "out_ok t0 ?s"
    using out sums(2) ret(2-4) keys_filter_diff [of "s_outgoing s" "expired_out now"]
    by (auto simp: out_ok_def fm_all_filter fm_wf_filter intro: le_trans [OF length_filter_le])
  moreover have "balanced s ?s" using inn sums(1) by (simp add: balanced_def in_ok_def)
  ultimately show ?thesis using call by (intro that [of ?s]) (simp_all add: sess_ok_def)
qed

end
