(* ===== verification/Session_Flush.thy ===== *)
theory Session_Flush
  imports Session
begin

text \<open>
  \<^verbatim>\<open>flush_packets\<close> of \<^verbatim>\<open>tox-sequenced/src/session.rs\<close> with its helpers, and the two functions that tell
  the caller when to come back. The callback \<open>sender\<close> passes its own state \<open>'x\<close> along and answers
  whether the transport took the packet.

  The main data loop has no bound of its own in the source. The model runs it with fuel; \<open>None\<close>
  stands for a panic or for fuel that ran out, so a result \<open>Some\<close> excludes both. \<open>data_fuel\<close> counts
  what a message can still send in one flush and is proved to be enough elsewhere.
\<close>

type_synonym 'x sender = "'x \<Rightarrow> packet \<Rightarrow> bool \<times> 'x"

section \<open>Sending one fragment\<close>

definition try_send_fragment ::
    "'c cc_ops \<Rightarrow> 'x sender \<Rightarrow> message_id \<Rightarrow> fragment_index \<Rightarrow> instant \<Rightarrow> 'c session \<Rightarrow> 'x
       \<Rightarrow> (bool \<times> 'c session \<times> 'x) panics" where
  "try_send_fragment ops sender mid idx now s x =
     (case fm_get (s_outgoing s) mid of
        None \<Rightarrow> Some (False, s, x)
      | Some msg \<Rightarrow>
          (let len = om_fragment_len msg idx;
               (accepted, x') = sender x (Data mid idx (num_fragments msg) (om_get_fragment msg idx))
           in if \<not> accepted then Some (False, s, x')
              else do {
                let rate = cc_pacing_rate ops (s_congestion_control s);
                let cwnd = cc_cwnd ops (s_congestion_control s);
                let s1 = (if s_in_flight s + len \<ge> cwnd * ESTIMATED_PAYLOAD_SIZE
                          then s\<lparr>s_app_limited := False\<rparr> else s);
                ((_, was_in_flight), msg') \<leftarrow>
                  om_mark_fragment_sent msg idx now (s_delivered_bytes s1) (s_last_delivery_time s1)
                    (s_app_limited s1) len;
                let s2 = s1\<lparr>s_outgoing := fm_set (s_outgoing s1) mid msg'\<rparr>;
                let s3 = (if was_in_flight
                          then s2\<lparr>s_in_flight := s_in_flight s2 - len,
                                  s_retransmit_count := s_retransmit_count s2 + 1\<rparr>
                          else s2);
                let s4 = cc_note (\<lambda>c. cc_on_fragment_sent ops c len now) s3;
                let s5 = s4\<lparr>s_in_flight := s_in_flight s4 + len, s_last_activity := now\<rparr>;
                gap \<leftarrow> pacing_gap len rate;
                Some (True, s5\<lparr>s_next_pacing_time := inst_add (max (s_next_pacing_time s5) now) gap\<rparr>, x')
              }))"

definition update_outgoing :: "message_id \<Rightarrow> (outgoing_message \<Rightarrow> outgoing_message) \<Rightarrow> 'c session \<Rightarrow> 'c session" where
  "update_outgoing mid f s =
     (case fm_get (s_outgoing s) mid of
        None \<Rightarrow> s
      | Some msg \<Rightarrow> s\<lparr>s_outgoing := fm_set (s_outgoing s) mid (f msg)\<rparr>)"

definition pop_retransmit :: "outgoing_message \<Rightarrow> outgoing_message" where
  "pop_retransmit m =
     (case retransmit_queue m of
        [] \<Rightarrow> m
      | idx # rest \<Rightarrow> m\<lparr>retransmit_queue := rest,
                        retransmit_bitset := snd (bs_unset (retransmit_bitset m) idx)\<rparr>)"

definition note_timeout :: "fragment_index \<Rightarrow> outgoing_message \<Rightarrow> outgoing_message" where
  "note_timeout idx m =
     m\<lparr>fragment_states := (fragment_states m)[idx := (fragment_states m ! idx)
           \<lparr>rto_backoff := rto_backoff (fragment_states m ! idx) + 1\<rparr>],
       in_flight_queue := tl (in_flight_queue m)\<rparr>"

definition advance_next :: "outgoing_message \<Rightarrow> outgoing_message" where
  "advance_next m = m\<lparr>next_fragment := next_fragment m + 1\<rparr>"

text \<open>
  The three sources of a fragment, in order: the retransmission queue, the oldest fragment in
  flight when its timeout has passed, and new data. The queues change only after a successful send.
\<close>

definition send_new_data ::
    "'c cc_ops \<Rightarrow> 'x sender \<Rightarrow> message_id \<Rightarrow> outgoing_message \<Rightarrow> instant \<Rightarrow> 'c session \<Rightarrow> 'x
       \<Rightarrow> (bool \<times> 'c session \<times> 'x) panics" where
  "send_new_data ops sender mid msg now s x =
     (if next_fragment msg < num_fragments msg then
        do {
          (sent, s1, x1) \<leftarrow> try_send_fragment ops sender mid (next_fragment msg) now s x;
          Some (sent, if sent then update_outgoing mid advance_next s1 else s1, x1)
        }
      else Some (False, s, x))"

definition send_next_fragment_for_message ::
    "'c cc_ops \<Rightarrow> 'x sender \<Rightarrow> message_id \<Rightarrow> instant \<Rightarrow> 'c session \<Rightarrow> 'x
       \<Rightarrow> (bool \<times> 'c session \<times> 'x) panics" where
  "send_next_fragment_for_message ops sender mid now s x =
     (case fm_get (s_outgoing s) mid of
        None \<Rightarrow> Some (False, s, x)
      | Some msg \<Rightarrow>
          (case retransmit_queue msg of
             idx # _ \<Rightarrow>
               do {
                 (sent, s1, x1) \<leftarrow> try_send_fragment ops sender mid idx now s x;
                 Some (sent, if sent then update_outgoing mid pop_retransmit s1 else s1, x1)
               }
           | [] \<Rightarrow>
               (case in_flight_queue msg of
                  (idx, sent_at) # _ \<Rightarrow>
                    do {
                      state \<leftarrow> index_at (fragment_states msg) idx;
                      current_rto \<leftarrow> rto_with_backoff (s_rtt s) (rto_backoff state);
                      if saturating_duration_since now sent_at \<ge> current_rto then
                        do {
                          (sent, s1, x1) \<leftarrow> try_send_fragment ops sender mid idx now s x;
                          Some (sent,
                                (if sent then cc_note (\<lambda>c. cc_on_timeout ops c now)
                                                (update_outgoing mid (note_timeout idx) s1)
                                 else s1), x1)
                        }
                      else send_new_data ops sender mid msg now s x
                    }
                | [] \<Rightarrow> send_new_data ops sender mid msg now s x)))"

section \<open>The flush\<close>

text \<open>\<^verbatim>\<open>now_ms as i64\<close>.\<close>

definition u64_as_i64 :: "nat \<Rightarrow> int" where
  "u64_as_i64 n = (int n + 2 ^ 63) mod 2 ^ 64 - 2 ^ 63"

definition ping_interval :: "'c session \<Rightarrow> duration" where
  "ping_interval s =
     (if \<not> fm_is_empty (s_outgoing s) \<or> \<not> fm_is_empty (s_incoming s)
      then PING_INTERVAL_ACTIVE else PING_INTERVAL_IDLE)"

definition flush_ping :: "'x sender \<Rightarrow> instant \<Rightarrow> nat \<Rightarrow> 'c session \<Rightarrow> 'x \<Rightarrow> 'c session \<times> 'x" where
  "flush_ping sender now now_ms s x =
     (if saturating_duration_since now (s_last_ping s) \<ge> ping_interval s then
        (case sender x (Ping (u64_as_i64 now_ms)) of (accepted, x') \<Rightarrow>
           (if accepted
            then s\<lparr>s_last_ping := now, s_last_ping_sent := Some now, s_last_activity := now\<rparr>
            else s, x'))
      else (s, x))"

fun datagram_len :: "packet \<Rightarrow> nat" where
  "datagram_len (Datagram _ data) = length data + 10"
| "datagram_len _ = 0"

fun datagram_loop ::
    "'c cc_ops \<Rightarrow> 'x sender \<Rightarrow> instant \<Rightarrow> packet list \<Rightarrow> 'c session \<Rightarrow> 'x \<Rightarrow> ('c session \<times> 'x) panics" where
  "datagram_loop ops sender now [] s x = Some (s\<lparr>s_datagram_queue := []\<rparr>, x)"
| "datagram_loop ops sender now (dg # queue) s x =
     (if now < s_next_pacing_time s then Some (s\<lparr>s_datagram_queue := dg # queue\<rparr>, x)
      else
        (case sender x dg of (accepted, x') \<Rightarrow>
           if \<not> accepted then Some (s\<lparr>s_datagram_queue := queue\<rparr>, x')
           else do {
             gap \<leftarrow> pacing_gap (datagram_len dg) (cc_pacing_rate ops (s_congestion_control s));
             datagram_loop ops sender now queue
               (s\<lparr>s_last_activity := now,
                  s_next_pacing_time := inst_add (max (s_next_pacing_time s) now) gap\<rparr>) x'
           }))"

text \<open>What a zero-window probe sends: the first message that has anything to send.\<close>

fun probe_target :: "(message_id \<times> outgoing_message) list \<Rightarrow> (message_id \<times> fragment_index \<times> bool) option" where
  "probe_target [] = None"
| "probe_target ((mid, msg) # rest) =
     (case retransmit_queue msg of
        idx # _ \<Rightarrow> Some (mid, idx, False)
      | [] \<Rightarrow>
          if next_fragment msg < num_fragments msg then Some (mid, next_fragment msg, True)
          else (case in_flight_queue msg of
                  (idx, _) # _ \<Rightarrow> Some (mid, idx, False)
                | [] \<Rightarrow> probe_target rest))"

definition zero_window_probe ::
    "'c cc_ops \<Rightarrow> 'x sender \<Rightarrow> instant \<Rightarrow> 'c session \<Rightarrow> 'x \<Rightarrow> ('c session \<times> 'x) panics" where
  "zero_window_probe ops sender now s x =
     (if s_peer_rwnd s < ESTIMATED_PAYLOAD_SIZE \<and> \<not> fm_is_empty (s_outgoing s) then
        do {
          probe_delay \<leftarrow> rto_with_backoff (s_rtt s) (s_zero_window_probes_sent s);
          if now \<ge> s_next_pacing_time s \<and>
             saturating_duration_since now (s_last_rwnd_probe s) \<ge> probe_delay then
            (case probe_target (s_outgoing s) of
               None \<Rightarrow> Some (s, x)
             | Some (mid, idx, is_new) \<Rightarrow>
                 do {
                   (sent, s1, x1) \<leftarrow> try_send_fragment ops sender mid idx now s x;
                   Some (if sent then
                           (let s2 = (if is_new then update_outgoing mid advance_next s1 else s1)
                            in s2\<lparr>s_last_rwnd_probe := now,
                                  s_zero_window_probes_sent := s_zero_window_probes_sent s2 + 1\<rparr>)
                         else s1, x1)
                 })
          else Some (s, x)
        }
      else Some (s, x))"

text \<open>
  The closure \<^verbatim>\<open>is_ready\<close>: the length of the fragment the message would send now, when pacing, the
  congestion window and the peer's window allow it.
\<close>

definition ready_retransmit :: "'c cc_ops \<Rightarrow> bool \<Rightarrow> 'c session \<Rightarrow> outgoing_message \<Rightarrow> nat option" where
  "ready_retransmit ops any_sent s msg =
     (case retransmit_queue msg of
        [] \<Rightarrow> None
      | idx # _ \<Rightarrow>
          if om_is_acked msg idx then None
          else
            (let len = om_fragment_len msg idx;
                 window = (s_in_flight s div ESTIMATED_PAYLOAD_SIZE < cc_cwnd ops (s_congestion_control s))
             in if idx = highest_cumulative_ack msg
                then (if window \<or> \<not> any_sent then Some len else None)
                else (if window \<and> s_in_flight s + len \<le> s_peer_rwnd s then Some len else None)))"

definition ready_timeout ::
    "'c cc_ops \<Rightarrow> bool \<Rightarrow> instant \<Rightarrow> 'c session \<Rightarrow> outgoing_message \<Rightarrow> nat option panics" where
  "ready_timeout ops any_sent now s msg =
     (case in_flight_queue msg of
        [] \<Rightarrow> Some None
      | (idx, sent_at) # _ \<Rightarrow>
          do {
            state \<leftarrow> index_at (fragment_states msg) idx;
            current_rto \<leftarrow> rto_with_backoff (s_rtt s) (rto_backoff state);
            let window = (s_in_flight s div ESTIMATED_PAYLOAD_SIZE < cc_cwnd ops (s_congestion_control s));
            let len = om_fragment_len msg idx;
            Some (if saturating_duration_since now sent_at \<ge> current_rto \<and> \<not> om_is_acked msg idx \<and>
                     (case last_sent state of None \<Rightarrow> True | Some t \<Rightarrow> t \<le> sent_at) \<and>
                     ((window \<and> s_in_flight s + len \<le> s_peer_rwnd s) \<or> \<not> any_sent)
                  then Some len else None)
          })"

definition ready_new :: "'c cc_ops \<Rightarrow> 'c session \<Rightarrow> outgoing_message \<Rightarrow> nat option panics" where
  "ready_new ops s msg =
     (if next_fragment msg < num_fragments msg then
        do {
          let idx = next_fragment msg;
          state \<leftarrow> index_at (fragment_states msg) idx;
          let len = om_fragment_len msg idx;
          Some (if \<not> om_is_acked msg idx \<and> last_sent state = None \<and> delivery_info state = None \<and>
                   s_in_flight s div ESTIMATED_PAYLOAD_SIZE < cc_cwnd ops (s_congestion_control s) \<and>
                   s_in_flight s + len \<le> s_peer_rwnd s
                then Some len else None)
        }
      else Some None)"

definition is_ready :: "'c cc_ops \<Rightarrow> bool \<Rightarrow> instant \<Rightarrow> 'c session \<Rightarrow> message_id \<Rightarrow> nat option panics" where
  "is_ready ops any_sent now s mid =
     (case fm_get (s_outgoing s) mid of
        None \<Rightarrow> Some None
      | Some msg \<Rightarrow>
          if now < s_next_pacing_time s then Some None
          else
            (case ready_retransmit ops any_sent s msg of
               Some len \<Rightarrow> Some (Some len)
             | None \<Rightarrow>
                 do {
                   r \<leftarrow> ready_timeout ops any_sent now s msg;
                   (case r of Some len \<Rightarrow> Some (Some len) | None \<Rightarrow> ready_new ops s msg)
                 }))"

text \<open>
  One round asks the scheduler and sends from the message it picked. The model panics as soon as
  the closure would panic on some message, whether or not the scheduler gets to ask about it.
\<close>

fun data_loop ::
    "'c cc_ops \<Rightarrow> 'x sender \<Rightarrow> instant \<Rightarrow> nat \<Rightarrow> bool \<Rightarrow> 'c session \<Rightarrow> 'x
       \<Rightarrow> (bool \<times> 'c session \<times> 'x) panics" where
  "data_loop ops sender now 0 any_sent s x = None"
| "data_loop ops sender now (Suc fuel) any_sent s x =
     (if list_ex (\<lambda>mid. is_ready ops any_sent now s mid = None) (fm_keys (s_outgoing s)) then None
      else
        (case sched_next_message (s_scheduler s) (\<lambda>mid. the (is_ready ops any_sent now s mid)) of
           (None, sched) \<Rightarrow> Some (any_sent, s\<lparr>s_scheduler := sched\<rparr>, x)
         | (Some mid, sched) \<Rightarrow>
             do {
               (sent, s1, x1) \<leftarrow>
                 send_next_fragment_for_message ops sender mid now (s\<lparr>s_scheduler := sched\<rparr>) x;
               if sent then data_loop ops sender now fuel True s1 x1
               else Some (any_sent, s1, x1)
             }))"

definition om_work :: "instant \<Rightarrow> duration \<Rightarrow> outgoing_message \<Rightarrow> nat" where
  "om_work now r m =
     length (retransmit_queue m) + (num_fragments m - next_fragment m) +
     length (filter (\<lambda>(_, t). saturating_duration_since now t \<ge> r) (in_flight_queue m))"

definition data_fuel :: "instant \<Rightarrow> 'c session \<Rightarrow> nat" where
  "data_fuel now s = Suc (fm_sum (om_work now (rto (s_rtt s))) (s_outgoing s))"

definition tlp_threshold :: "'c session \<Rightarrow> duration panics" where
  "tlp_threshold s = do { d \<leftarrow> mul_f32 (srtt (s_rtt s)) (Fin (3/2)); Some (max d (from_millis 10)) }"

definition tail_loss_probe ::
    "'c cc_ops \<Rightarrow> 'x sender \<Rightarrow> instant \<Rightarrow> bool \<Rightarrow> 'c session \<Rightarrow> 'x \<Rightarrow> ('c session \<times> 'x) panics" where
  "tail_loss_probe ops sender now any_sent s x =
     (if \<not> any_sent \<and> s_in_flight s > 0 then
        do {
          threshold \<leftarrow> tlp_threshold s;
          (case find (\<lambda>(_, msg). in_flight_queue msg \<noteq> [] \<and>
                        saturating_duration_since now (snd (last (in_flight_queue msg))) \<ge> threshold)
                  (s_outgoing s) of
             None \<Rightarrow> Some (s, x)
           | Some (mid, msg) \<Rightarrow>
               do {
                 (_, s1, x1) \<leftarrow> try_send_fragment ops sender mid (fst (last (in_flight_queue msg))) now s x;
                 Some (s1, x1)
               })
        }
      else Some (s, x))"

definition forget_pending :: "message_id \<Rightarrow> 'c session \<Rightarrow> 'c session" where
  "forget_pending mid s =
     s\<lparr>s_pending_acks := fm_del (s_pending_acks s) mid, s_pending_nacks := fm_del (s_pending_nacks s) mid\<rparr>"

definition ack_packet :: "fragment_count \<Rightarrow> message_id \<Rightarrow> 'c session \<Rightarrow> packet option" where
  "ack_packet rwnd mid s =
     (case fm_get (s_incoming s) mid of
        Some r \<Rightarrow> Some (Ack (mr_create_ack r rwnd))
      | None \<Rightarrow>
          (case fm_get (s_completed_incoming s) mid of
             Some (ack, _) \<Rightarrow> Some (Ack (ack\<lparr>ack_rwnd := rwnd\<rparr>))
           | None \<Rightarrow> None))"

fun ack_loop :: "'x sender \<Rightarrow> fragment_count \<Rightarrow> message_id list \<Rightarrow> 'c session \<Rightarrow> 'x \<Rightarrow> 'c session \<times> 'x" where
  "ack_loop sender rwnd [] s x = (s, x)"
| "ack_loop sender rwnd (mid # ids) s x =
     (case ack_packet rwnd mid s of
        None \<Rightarrow> ack_loop sender rwnd ids (forget_pending mid s) x
      | Some p \<Rightarrow>
          (case sender x p of (accepted, x') \<Rightarrow>
             if accepted then ack_loop sender rwnd ids (forget_pending mid s) x' else (s, x')))"

definition flush_pending_acks :: "'x sender \<Rightarrow> instant \<Rightarrow> 'c session \<Rightarrow> 'x \<Rightarrow> 'c session \<times> 'x" where
  "flush_pending_acks sender now s x =
     (let ids = map fst (filter (\<lambda>(_, (count, at_time)). count \<ge> 2 \<or>
                    saturating_duration_since now at_time \<ge> DELAYED_ACK_TIMEOUT) (s_pending_acks s))
      in ack_loop sender (current_rwnd s) ids s x)"

definition nack_delay :: "'c session \<Rightarrow> duration" where
  "nack_delay s = max (srtt (s_rtt s) div 4) (from_millis 10)"

fun nack_send_loop :: "'x sender \<Rightarrow> message_id list \<Rightarrow> 'c session \<Rightarrow> 'x \<Rightarrow> 'c session \<times> 'x" where
  "nack_send_loop sender [] s x = (s, x)"
| "nack_send_loop sender (mid # ids) s x =
     (case Option.bind (fm_get (s_incoming s) mid)
             (\<lambda>r. mr_create_nack r (fb_base_index (mr_buffer r))) of
        None \<Rightarrow> nack_send_loop sender ids (s\<lparr>s_pending_nacks := fm_del (s_pending_nacks s) mid\<rparr>) x
      | Some n \<Rightarrow>
          (case sender x (Nack n) of (accepted, x') \<Rightarrow>
             if accepted
             then nack_send_loop sender ids (s\<lparr>s_pending_nacks := fm_del (s_pending_nacks s) mid\<rparr>) x'
             else (s, x')))"

definition flush_pending_nacks :: "'x sender \<Rightarrow> instant \<Rightarrow> 'c session \<Rightarrow> 'x \<Rightarrow> 'c session \<times> 'x" where
  "flush_pending_nacks sender now s x =
     (let ids = map fst (filter (\<lambda>(_, at_time). saturating_duration_since now at_time \<ge> nack_delay s)
                  (s_pending_nacks s))
      in nack_send_loop sender ids s x)"

definition detect_app_limited :: "'c cc_ops \<Rightarrow> 'c session \<Rightarrow> 'c session" where
  "detect_app_limited ops s =
     (if s_in_flight s < cc_cwnd ops (s_congestion_control s) * ESTIMATED_PAYLOAD_SIZE \<and>
         \<not> list_ex (\<lambda>m. retransmit_queue m \<noteq> [] \<or> next_fragment m < num_fragments m) (fm_values (s_outgoing s))
      then s\<lparr>s_app_limited := True\<rparr> else s)"

definition flush_packets ::
    "'c cc_ops \<Rightarrow> 'x sender \<Rightarrow> instant \<Rightarrow> nat \<Rightarrow> 'c session \<Rightarrow> 'x \<Rightarrow> ('c session \<times> 'x) panics" where
  "flush_packets ops sender now now_ms s x =
     do {
       let (s1, x1) = flush_ping sender now now_ms s x;
       (s2, x2) \<leftarrow> datagram_loop ops sender now (s_datagram_queue s1) s1 x1;
       (s3, x3) \<leftarrow> zero_window_probe ops sender now s2 x2;
       (any_sent, s4, x4) \<leftarrow> data_loop ops sender now (data_fuel now s3) False s3 x3;
       (s5, x5) \<leftarrow> tail_loss_probe ops sender now any_sent s4 x4;
       let (s6, x6) = flush_pending_acks sender now s5 x5;
       let (s7, x7) = flush_pending_nacks sender now s6 x6;
       Some (detect_app_limited ops s7, x7)
     }"

definition get_packets_to_send ::
    "'c cc_ops \<Rightarrow> instant \<Rightarrow> nat \<Rightarrow> 'c session \<Rightarrow> ('c session \<times> packet list) panics" where
  "get_packets_to_send ops now now_ms s = flush_packets ops (\<lambda>ps p. (True, ps @ [p])) now now_ms s []"

section \<open>When to come back\<close>

fun check_outgoing :: "'c session \<Rightarrow> outgoing_message list \<Rightarrow> instant \<Rightarrow> instant panics" where
  "check_outgoing s [] t = Some t"
| "check_outgoing s (m # ms) t =
     do {
       t1 \<leftarrow> (case in_flight_queue m of
                [] \<Rightarrow> Some t
              | (idx, sent_at) # _ \<Rightarrow>
                  do {
                    state \<leftarrow> index_at (fragment_states m) idx;
                    r \<leftarrow> rto_with_backoff (s_rtt s) (rto_backoff state);
                    Some (min t (inst_add sent_at r))
                  });
       check_outgoing s ms
         (if retransmit_queue m \<noteq> [] \<or> next_fragment m < num_fragments m
          then min t1 (s_next_pacing_time s) else t1)
     }"

definition next_check_time :: "'c session \<Rightarrow> instant panics" where
  "next_check_time s =
     do {
       let t0 = min (s_next_pacing_time s) (inst_add (s_last_ping s) PING_INTERVAL_ACTIVE);
       t1 \<leftarrow> (if s_peer_rwnd s < ESTIMATED_PAYLOAD_SIZE then
                do { d \<leftarrow> rto_with_backoff (s_rtt s) (s_zero_window_probes_sent s);
                     Some (min t0 (inst_add (s_last_rwnd_probe s) d)) }
              else Some t0);
       if list_ex (\<lambda>(count, _). count \<ge> 2) (fm_values (s_pending_acks s)) then Some (s_last_activity s)
       else check_outgoing s (fm_values (s_outgoing s))
              (fold (\<lambda>(_, at_time) t. min t (inst_add at_time DELAYED_ACK_TIMEOUT))
                (fm_values (s_pending_acks s)) t1)
     }"

fun wakeup_timeouts :: "'c session \<Rightarrow> outgoing_message list \<Rightarrow> instant \<Rightarrow> instant panics" where
  "wakeup_timeouts s [] t = Some t"
| "wakeup_timeouts s (m # ms) t =
     (case in_flight_queue m of
        [] \<Rightarrow> wakeup_timeouts s ms t
      | (idx, sent_at) # _ \<Rightarrow>
          do {
            state \<leftarrow> index_at (fragment_states m) idx;
            if (case last_sent state of None \<Rightarrow> True | Some l \<Rightarrow> l \<le> sent_at) then
              do {
                r \<leftarrow> rto_with_backoff (s_rtt s) (rto_backoff state);
                wakeup_timeouts s ms (min t (inst_add sent_at r))
              }
            else wakeup_timeouts s ms t
          })"

fun wakeup_tails :: "duration \<Rightarrow> outgoing_message list \<Rightarrow> instant \<Rightarrow> instant panics" where
  "wakeup_tails threshold [] t = Some t"
| "wakeup_tails threshold (m # ms) t =
     (if in_flight_queue m = [] then wakeup_tails threshold ms t
      else
        (case last (in_flight_queue m) of (idx, sent_at) \<Rightarrow>
           do {
             state \<leftarrow> index_at (fragment_states m) idx;
             wakeup_tails threshold ms
               (if (case last_sent state of None \<Rightarrow> True | Some l \<Rightarrow> l \<le> sent_at)
                then min t (inst_add sent_at threshold) else t)
           }))"

text \<open>The work that can be done at once: the early returns at the top of \<^verbatim>\<open>next_wakeup\<close>.\<close>

definition wakeup_now :: "'c cc_ops \<Rightarrow> instant \<Rightarrow> 'c session \<Rightarrow> bool" where
  "wakeup_now ops now s \<longleftrightarrow>
     \<not> s_next_pacing_time s > now \<and>
     (s_datagram_queue s \<noteq> [] \<or>
      (s_in_flight s < cc_cwnd ops (s_congestion_control s) * ESTIMATED_PAYLOAD_SIZE \<and>
       (list_ex (\<lambda>m. retransmit_queue m \<noteq> []) (fm_values (s_outgoing s)) \<or>
        list_ex (\<lambda>m. next_fragment m < num_fragments m \<and>
                      s_in_flight s + om_fragment_len m (next_fragment m) \<le> s_peer_rwnd s)
          (fm_values (s_outgoing s)))))"

definition next_wakeup :: "'c cc_ops \<Rightarrow> instant \<Rightarrow> 'c session \<Rightarrow> instant panics" where
  "next_wakeup ops now s =
     (if wakeup_now ops now s then Some now
      else do {
        let n0 = inst_add now (from_secs 3600);
        let n1 = (if s_next_pacing_time s > now then min n0 (s_next_pacing_time s) else n0);
        n2 \<leftarrow> wakeup_timeouts s (fm_values (s_outgoing s)) n1;
        n3 \<leftarrow> (if s_in_flight s > 0 then
                 do { threshold \<leftarrow> tlp_threshold s; wakeup_tails threshold (fm_values (s_outgoing s)) n2 }
               else Some n2);
        n4 \<leftarrow> (if s_peer_rwnd s < ESTIMATED_PAYLOAD_SIZE \<and> \<not> fm_is_empty (s_outgoing s) then
                 do { d \<leftarrow> rto_with_backoff (s_rtt s) (s_zero_window_probes_sent s);
                      Some (min n3 (max (inst_add (s_last_rwnd_probe s) d) (s_next_pacing_time s))) }
               else Some n3);
        if list_ex (\<lambda>(_, (count, at_time)). count \<ge> 2 \<or> inst_add at_time DELAYED_ACK_TIMEOUT \<le> now)
             (s_pending_acks s) \<or>
           list_ex (\<lambda>(_, at_time). inst_add at_time (nack_delay s) \<le> now) (s_pending_nacks s)
        then Some now
        else
          (let n5 = fold (\<lambda>(_, (_, at_time)) t. min t (inst_add at_time DELAYED_ACK_TIMEOUT)) (s_pending_acks s) n4;
               n6 = fold (\<lambda>(_, at_time) t. min t (inst_add at_time (nack_delay s))) (s_pending_nacks s) n5;
               n7 = min n6 (inst_add (s_last_ping s) (ping_interval s));
               n8 = min n7 (inst_add (s_last_activity s) CONNECTION_TIMEOUT)
           in Some (max n8 now))
      })"

end
