(* ===== verification/Session_Send.thy ===== *)
theory Session_Send
  imports Session_Safety Session_Flush
begin

text \<open>
  The sending half of the session: a flush returns whatever the transport answers, its main loop
  ends within \<open>data_fuel\<close> rounds, the session's invariant is kept and every packet handed to the
  transport is genuine.

  The transport is the callback \<^verbatim>\<open>sender\<close>. The locale \<open>transport\<close> states what an observer of the
  callback may rely on; it is interpreted for any callback at all (the safety results) and for the
  callback of \<^verbatim>\<open>get_packets_to_send\<close>, which collects the packets.
\<close>

section \<open>Genuine packets\<close>

text \<open>What a packet of a flush is made from, in terms of the session when the flush began.\<close>

definition genuine :: "'c session \<Rightarrow> packet \<Rightarrow> bool" where
  "genuine s p \<longleftrightarrow>
     p \<in> set (s_datagram_queue s) \<or>
     (case p of
        Data mid idx num frag \<Rightarrow>
          (\<exists>m. fm_get (s_outgoing s) mid = Some m \<and> idx < num_fragments m \<and> num = num_fragments m \<and>
             frag = om_get_fragment m idx)
      | Ack _ \<Rightarrow> (\<exists>mid. ack_packet (current_rwnd s) mid s = Some p)
      | Nack n \<Rightarrow>
          (\<exists>mid r. fm_get (s_incoming s) mid = Some r \<and>
             mr_create_nack r (fb_base_index (mr_buffer r)) = Some n)
      | Ping _ \<Rightarrow> True
      | Pong _ _ _ \<Rightarrow> False
      | Datagram _ _ \<Rightarrow> False)"

text \<open>What sending leaves alone: the receiving half, the estimator and the contents of messages.\<close>

definition contents :: "outgoing_message \<Rightarrow> bytes \<times> nat \<times> nat" where
  "contents m = (om_data m, payload_mtu m, num_fragments m)"

definition send_frame :: "'c session \<Rightarrow> 'c session \<Rightarrow> bool" where
  "send_frame s s' \<longleftrightarrow>
     same_in s s' \<and> s_rtt s' = s_rtt s \<and> set (s_datagram_queue s') \<subseteq> set (s_datagram_queue s) \<and>
     (\<forall>mid. map_option contents (fm_get (s_outgoing s') mid) =
            map_option contents (fm_get (s_outgoing s) mid))"

lemma send_frame_refl [simp]: "send_frame s s"
  by (simp add: send_frame_def same_in_def)

lemma send_frame_trans: "send_frame a b \<Longrightarrow> send_frame b c \<Longrightarrow> send_frame a c"
  by (auto simp: send_frame_def same_in_def)

lemma current_rwnd_same: "same_in s s' \<Longrightarrow> current_rwnd s' = current_rwnd s"
  by (simp add: same_in_def current_rwnd_def)

lemma ack_packet_same: "same_in s s' \<Longrightarrow> ack_packet rwnd mid s' = ack_packet rwnd mid s"
  by (auto simp: same_in_def ack_packet_def split: option.splits)

lemma om_get_fragment_contents: "contents m' = contents m \<Longrightarrow> om_get_fragment m' = om_get_fragment m"
  by (auto simp: contents_def om_get_fragment_def fun_eq_iff)

lemma genuine_frame:
  assumes "send_frame s s'" and "genuine s' p"
  shows "genuine s p"
proof -
  have same: "same_in s s'" and sub: "set (s_datagram_queue s') \<subseteq> set (s_datagram_queue s)"
    using assms(1) by (simp_all add: send_frame_def)
  have inc: "s_incoming s' = s_incoming s" using same by (simp add: same_in_def)
  note facts = inc current_rwnd_same [OF same] ack_packet_same [OF same]
  show ?thesis
  proof (cases "p \<in> set (s_datagram_queue s)")
    case False
    then have old: "p \<notin> set (s_datagram_queue s')" using sub by blast
    show ?thesis
    proof (cases p)
      case (Data mid idx num frag)
      then obtain m' where m': "fm_get (s_outgoing s') mid = Some m'" "idx < num_fragments m'"
        "num = num_fragments m'" "frag = om_get_fragment m' idx"
        using assms(2) old by (auto simp: genuine_def)
      have "map_option contents (fm_get (s_outgoing s') mid) = map_option contents (fm_get (s_outgoing s) mid)"
        using assms(1) unfolding send_frame_def by blast
      then obtain m where "fm_get (s_outgoing s) mid = Some m" "contents m' = contents m"
        using m'(1) by (cases "fm_get (s_outgoing s) mid") auto
      with m' Data show ?thesis
        using om_get_fragment_contents [of m' m] by (auto simp: genuine_def contents_def)
    qed (use assms(2) old in \<open>auto simp: genuine_def facts\<close>)
  qed (simp add: genuine_def)
qed

text \<open>Any change of one message that keeps its contents.\<close>

lemma send_frame_set:
  assumes "fm_get (s_outgoing s) mid = Some m" and "contents m' = contents m"
    and "s_outgoing s' = fm_set (s_outgoing s) mid m'" and "same_in s s'" and "s_rtt s' = s_rtt s"
    and "s_datagram_queue s' = s_datagram_queue s"
  shows "send_frame s s'"
  using assms by (auto simp: send_frame_def)

section \<open>Steps on one message\<close>

lemma bs_members_unset: "bs_members (snd (bs_unset ws i)) = bs_members ws - {i}"
  by (auto simp: bs_members_def)

definition marked :: "instant \<Rightarrow> nat \<Rightarrow> outgoing_message \<Rightarrow> outgoing_message \<Rightarrow> bool" where
  "marked now idx m m' \<longleftrightarrow>
     retransmit_queue m' = retransmit_queue m \<and> retransmit_bitset m' = retransmit_bitset m \<and>
     next_fragment m' = next_fragment m \<and> contents m' = contents m \<and>
     in_flight_queue m' = in_flight_queue m @ [(idx, now)]"

lemma marked_simps:
  assumes "marked now idx m m'"
  shows "retransmit_queue m' = retransmit_queue m" "retransmit_bitset m' = retransmit_bitset m"
    "next_fragment m' = next_fragment m" "num_fragments m' = num_fragments m" "contents m' = contents m"
    "in_flight_queue m' = in_flight_queue m @ [(idx, now)]"
  using assms by (simp_all add: marked_def contents_def)

text \<open>
  A step of the sender on a message it has just marked as sent: it keeps the invariant and the
  bytes in flight and takes one unit of the message's remaining work.
\<close>

definition send_step :: "instant \<Rightarrow> nat \<Rightarrow> outgoing_message \<Rightarrow> outgoing_message \<Rightarrow> bool" where
  "send_step t0 dlv m m' \<longleftrightarrow>
     (om_wf t0 dlv m \<longrightarrow> om_wf t0 dlv m') \<and> om_inflight m' = om_inflight m \<and> contents m' = contents m"

lemma om_inflight_cong:
  assumes "contents m' = contents m"
    and "\<And>i. i < num_fragments m \<Longrightarrow> last_sent (state_at m' i) = last_sent (state_at m i)"
  shows "om_inflight m' = om_inflight m"
proof -
  have "{i. i < num_fragments m' \<and> last_sent (state_at m' i) \<noteq> None} =
      {i. i < num_fragments m \<and> last_sent (state_at m i) \<noteq> None}"
    using assms by (auto simp: contents_def)
  moreover have "om_fragment_len m' = om_fragment_len m"
    using assms(1) by (auto simp: contents_def om_fragment_len_def fun_eq_iff)
  ultimately show ?thesis by (simp add: om_inflight_def)
qed

lemma pop_retransmit_step: "send_step t0 dlv m (pop_retransmit m)"
proof (cases "retransmit_queue m")
  case (Cons i q)
  let ?b = "snd (bs_unset (retransmit_bitset m) i)"
  have "om_wf t0 dlv (pop_retransmit m)" if wf: "om_wf t0 dlv m"
  proof -
    have core: "om_core t0 dlv m" by (rule om_wf_core [OF wf])
    then have "retransmits_ok (num_fragments m) (retransmit_queue m) (retransmit_bitset m)"
      by (simp add: om_core_def)
    then have "retransmits_ok (num_fragments m) q ?b"
      using Cons by (auto simp: retransmits_ok_def bs_members_unset)
    from om_core_set_retransmits [OF core this] wf show ?thesis
      using Cons by (simp add: om_wf_def hca_ok_def pop_retransmit_def)
  qed
  moreover have "om_inflight (pop_retransmit m) = om_inflight m"
    using Cons by (intro om_inflight_cong) (simp_all add: pop_retransmit_def contents_def)
  ultimately show ?thesis
    using Cons by (simp add: send_step_def pop_retransmit_def contents_def)
qed (simp add: send_step_def pop_retransmit_def)

lemma advance_next_step:
  assumes "next_fragment m < num_fragments m"
  shows "send_step t0 dlv m (advance_next m)"
proof -
  have "om_wf t0 dlv (advance_next m)" if wf: "om_wf t0 dlv m"
  proof -
    have "om_fragment_len (advance_next m) = om_fragment_len m" "om_sized (advance_next m) = om_sized m"
      by (rule om_fragment_len_cong om_sized_cong; simp add: advance_next_def)+
    then show ?thesis using wf assms unfolding om_wf_def om_core_def hca_ok_def
      by (simp add: advance_next_def)
  qed
  moreover have "om_inflight (advance_next m) = om_inflight m"
    by (rule om_inflight_cong) (simp_all add: advance_next_def contents_def)
  ultimately show ?thesis by (simp add: send_step_def advance_next_def contents_def)
qed

lemma note_timeout_step:
  assumes q: "in_flight_queue m = (idx, t) # rest" and again: "idx \<in> fst ` set rest"
    and idx: "idx < length (fragment_states m)"
  shows "send_step t0 dlv m (note_timeout idx m)"
proof -
  let ?s = "(state_at m idx)\<lparr>rto_backoff := rto_backoff (state_at m idx) + 1\<rparr>"
  have ls: "last_sent (state_at (note_timeout idx m) i) = last_sent (state_at m i)" for i
    using idx by (cases "i = idx") (simp_all add: note_timeout_def)
  have "om_wf t0 dlv (note_timeout idx m)" if wf: "om_wf t0 dlv m"
  proof -
    have core: "om_core t0 dlv m" by (rule om_wf_core [OF wf])
    have lt: "idx < num_fragments m" using idx om_core_lengths(2) [OF core] by simp
    have "state_ok t0 dlv (om_fragment_len m idx) ?s"
      using om_core_state [OF core lt] by (simp add: state_ok_def split: option.splits)
    then have "om_core t0 dlv (m\<lparr>fragment_states := (fragment_states m)[idx := ?s], in_flight_queue := rest\<rparr>)"
    proof (rule om_core_set_state [OF core])
      show "fst ` set rest \<subseteq> {..<num_fragments m}" using om_core_queue [OF core] q by simp
      show "i \<in> fst ` set rest" if "i < num_fragments m" "last_sent (state_at m i) \<noteq> None" for i
        using om_core_flight [OF core that] q again by auto
    qed (use again in simp)
    then show ?thesis using wf q by (simp add: om_wf_def hca_ok_def note_timeout_def)
  qed
  moreover have "om_inflight (note_timeout idx m) = om_inflight m"
    using ls by (intro om_inflight_cong) (simp add: note_timeout_def contents_def, blast)
  ultimately show ?thesis by (simp add: send_step_def note_timeout_def contents_def)
qed

section \<open>Remaining work\<close>

lemma om_work_marked:
  assumes "marked now idx m m'" and "0 < r"
  shows "om_work now r m' = om_work now r m"
  using assms by (simp add: om_work_def marked_simps [OF assms(1)] saturating_duration_since_def)

lemma om_work_pop: "retransmit_queue m \<noteq> [] \<Longrightarrow> Suc (om_work now r (pop_retransmit m)) = om_work now r m"
  by (cases "retransmit_queue m") (simp_all add: om_work_def pop_retransmit_def)

lemma om_work_advance:
  "next_fragment m < num_fragments m \<Longrightarrow> Suc (om_work now r (advance_next m)) = om_work now r m"
  by (simp add: om_work_def advance_next_def)

lemma om_work_timeout:
  "in_flight_queue m = (i, t) # q \<Longrightarrow> r \<le> saturating_duration_since now t \<Longrightarrow>
     Suc (om_work now r (note_timeout idx m)) = om_work now r m"
  by (simp add: om_work_def note_timeout_def)

definition work :: "instant \<Rightarrow> 'c session \<Rightarrow> nat" where
  "work now s = fm_sum (om_work now (rto (s_rtt s))) (s_outgoing s)"

lemma work_set:
  assumes "fm_get (s_outgoing s) mid = Some m" and "s_outgoing s' = fm_set (s_outgoing s) mid m'"
    and "s_rtt s' = s_rtt s" and "om_work now (rto (s_rtt s)) m' < om_work now (rto (s_rtt s)) m"
  shows "work now s' < work now s"
  using assms fm_sum_set [of "om_work now (rto (s_rtt s))" "s_outgoing s" mid m'] by (simp add: work_def)

section \<open>Sending one fragment\<close>

lemma fm_set_twice: "fm_set (fm_set m k v) k w = fm_set m k w"
proof (induction m)
  case (Cons p m)
  then show ?case by (cases p) auto
qed simp

text \<open>What a successful send does to the message.\<close>

definition sent_by :: "instant \<Rightarrow> message_id \<Rightarrow> nat \<Rightarrow> 'c session \<Rightarrow> 'c session \<Rightarrow> bool" where
  "sent_by now mid idx s s' \<longleftrightarrow>
     (\<exists>m m'. fm_get (s_outgoing s) mid = Some m \<and> marked now idx m m' \<and>
        s_outgoing s' = fm_set (s_outgoing s) mid m' \<and> length (fragment_states m') = length (fragment_states m))"

lemma update_outgoing_ok:
  assumes ok: "out_ok t0 s" and m: "fm_get (s_outgoing s) mid = Some m"
    and step: "send_step t0 (s_delivered_bytes s) m (f m)"
  shows "out_ok t0 (update_outgoing mid f s)" "send_frame s (update_outgoing mid f s)"
proof -
  have "om_wf t0 (s_delivered_bytes s) (f m)" "payload_mtu (f m) = payload_mtu m" "om_inflight (f m) = om_inflight m"
    using step out_ok_get [OF ok m] by (simp_all add: send_step_def contents_def)
  from set_outgoing_ok [OF ok m this(1) order_refl this(2), of "s_in_flight s"] this(3)
  show "out_ok t0 (update_outgoing mid f s)" using m by (simp add: update_outgoing_def)
  show "send_frame s (update_outgoing mid f s)"
    using m step by (intro send_frame_set [OF m, of "f m"]) (simp_all add: update_outgoing_def send_step_def same_in_def)
qed

lemma send_frame_cc_note [simp]: "send_frame s' (cc_note f s) = send_frame s' s"
  by (simp add: send_frame_def)

lemma out_ok_in_flight:
  "out_ok t0 s \<Longrightarrow> fm_sum om_inflight (s_outgoing s) \<le> n \<Longrightarrow> out_ok t0 (s\<lparr>s_in_flight := n\<rparr>)"
  by (simp add: out_ok_def)

text \<open>The part of \<^verbatim>\<open>try_send_fragment\<close> after the transport took the packet.\<close>

lemma mark_sent_ok:
  assumes ok: "out_ok t0 s" and m: "fm_get (s_outgoing s) mid = Some m" and idx: "idx < num_fragments m"
    and t: "t0 \<le> now"
  obtains flags m' where
    "om_mark_fragment_sent m idx now (s_delivered_bytes s) ld al (om_fragment_len m idx) = Some (flags, m')"
    "marked now idx m m'" "length (fragment_states m') = length (fragment_states m)"
    "out_ok t0 (s\<lparr>s_outgoing := fm_set (s_outgoing s) mid m',
       s_in_flight := (if snd flags then s_in_flight s - om_fragment_len m idx else s_in_flight s) + om_fragment_len m idx\<rparr>)"
proof -
  have wf: "om_wf t0 (s_delivered_bytes s) m" by (rule out_ok_get [OF ok m])
  obtain flags m' where
    call: "om_mark_fragment_sent m idx now (s_delivered_bytes s) ld al (om_fragment_len m idx) = Some (flags, m')"
    and m': "om_wf t0 (s_delivered_bytes s) m'" "payload_mtu m' = payload_mtu m" "num_fragments m' = num_fragments m"
      "om_inflight m' = om_inflight m + (if snd flags then 0 else om_fragment_len m idx)"
    and mk: "marked now idx m m'"
    by (rule om_mark_fragment_sent_wf [OF wf idx t refl, of ld al]) (auto simp: marked_def contents_def)
  have len: "length (fragment_states m') = length (fragment_states m)"
    using om_core_lengths(2) [OF om_wf_core [OF wf]] om_core_lengths(2) [OF om_wf_core [OF m'(1)]] m'(3) by simp
  let ?fl = "(if snd flags then s_in_flight s - om_fragment_len m idx else s_in_flight s) + om_fragment_len m idx"
  have "s_in_flight s + om_inflight m' \<le> ?fl + om_inflight m" using m'(4) by (cases "snd flags") simp_all
  from set_outgoing_ok [OF ok m m'(1) order_refl m'(2) this]
  have "out_ok t0 (s\<lparr>s_outgoing := fm_set (s_outgoing s) mid m', s_in_flight := ?fl\<rparr>)" by simp
  then show ?thesis by (rule that [OF call mk len])
qed

lemma out_ok_bookkeeping [simp]:
  "out_ok t0 (s\<lparr>s_app_limited := b\<rparr>) = out_ok t0 s" "out_ok t0 (s\<lparr>s_retransmit_count := n\<rparr>) = out_ok t0 s"
  "out_ok t0 (s\<lparr>s_last_activity := t\<rparr>) = out_ok t0 s" "out_ok t0 (s\<lparr>s_next_pacing_time := t\<rparr>) = out_ok t0 s"
  by (simp_all add: out_ok_def)

section \<open>The transport\<close>

locale transport =
  fixes sender :: "'x sender" and seen_ok :: "'x \<Rightarrow> bool" and admissible :: "packet \<Rightarrow> bool"
  assumes keeps: "seen_ok x \<Longrightarrow> admissible p \<Longrightarrow> seen_ok (snd (sender x p))"
begin

lemma try_send_fragment_ok:
  assumes ok: "out_ok t0 s" and t: "t0 \<le> now" and x: "seen_ok x"
    and idx: "\<And>m. fm_get (s_outgoing s) mid = Some m \<Longrightarrow> idx < num_fragments m"
    and adm: "\<forall>p. genuine s p \<longrightarrow> admissible p"
  obtains sent s' x' where "try_send_fragment ops sender mid idx now s x = Some (sent, s', x')"
    "out_ok t0 s'" "send_frame s s'" "seen_ok x'" "sent \<longrightarrow> sent_by now mid idx s s'"
    "s_delivered_bytes s' = s_delivered_bytes s"
proof (cases "fm_get (s_outgoing s) mid")
  case None
  then show ?thesis using ok x by (intro that [of False s x]) (simp_all add: try_send_fragment_def)
next
  case (Some m)
  let ?len = "om_fragment_len m idx" and ?p = "Data mid idx (num_fragments m) (om_get_fragment m idx)"
  have lt: "idx < num_fragments m" by (rule idx [OF Some])
  have "genuine s ?p" using Some lt by (simp add: genuine_def)
  then have adm_p: "admissible ?p" using adm by blast
  obtain acc x' where send: "sender x ?p = (acc, x')" by fastforce
  have x': "seen_ok x'" using keeps [OF x adm_p] send by simp
  show ?thesis
  proof (cases acc)
    case False
    then show ?thesis using Some send ok x'
      by (intro that [of False s x']) (simp_all add: try_send_fragment_def)
  next
    case True
    define s1 where "s1 = (if s_in_flight s + ?len \<ge> cc_cwnd ops (s_congestion_control s) * ESTIMATED_PAYLOAD_SIZE
        then s\<lparr>s_app_limited := False\<rparr> else s)"
    have ok1: "out_ok t0 s1" and m1: "fm_get (s_outgoing s1) mid = Some m"
      and o1: "s_outgoing s1 = s_outgoing s"
      and in1: "same_in s s1" "s_rtt s1 = s_rtt s" "s_datagram_queue s1 = s_datagram_queue s" "s_delivered_bytes s1 = s_delivered_bytes s"
      using ok Some by (simp_all add: s1_def same_in_def)
    obtain flags m' where
      call: "om_mark_fragment_sent m idx now (s_delivered_bytes s1) (s_last_delivery_time s1) (s_app_limited s1) ?len = Some (flags, m')"
      and mk: "marked now idx m m'" "length (fragment_states m') = length (fragment_states m)"
      and ok2: "out_ok t0 (s1\<lparr>s_outgoing := fm_set (s_outgoing s1) mid m',
        s_in_flight := (if snd flags then s_in_flight s1 - ?len else s_in_flight s1) + ?len\<rparr>)"
      by (rule mark_sent_ok [OF ok1 m1 lt t])
    obtain gap where gap: "pacing_gap ?len (cc_pacing_rate ops (s_congestion_control s)) = Some gap"
      using pacing_gap_ok by blast
    define s5 where "s5 = (let s2 = s1\<lparr>s_outgoing := fm_set (s_outgoing s1) mid m'\<rparr>;
        s3 = (if snd flags then s2\<lparr>s_in_flight := s_in_flight s2 - ?len, s_retransmit_count := s_retransmit_count s2 + 1\<rparr>
              else s2);
        s4 = cc_note (\<lambda>c. cc_on_fragment_sent ops c ?len now) s3
      in s4\<lparr>s_in_flight := s_in_flight s4 + ?len, s_last_activity := now\<rparr>)"
    define s' where "s' = s5\<lparr>s_next_pacing_time := inst_add (max (s_next_pacing_time s5) now) gap\<rparr>"
    have res: "try_send_fragment ops sender mid idx now s x = Some (True, s', x')"
      using Some send True call gap
      by (cases flags) (simp add: try_send_fragment_def Let_def s1_def [symmetric] s5_def s'_def)
    have out': "s_outgoing s' = fm_set (s_outgoing s) mid m'"
      by (simp add: s'_def s5_def Let_def cc_note_def o1)
    have "out_ok t0 s'" using ok2 by (cases "snd flags") (simp_all add: s'_def s5_def Let_def cc_note_def out_ok_def)
    moreover have "send_frame s s'"
      by (rule send_frame_set [OF Some marked_simps(5) [OF mk(1)] out'])
        (use in1 in \<open>simp_all add: s'_def s5_def Let_def cc_note_def same_in_def\<close>)
    moreover have "sent_by now mid idx s s'" unfolding sent_by_def using Some mk out' by blast
    moreover have "s_delivered_bytes s' = s_delivered_bytes s"
      using in1 by (simp add: s'_def s5_def Let_def cc_note_def)
    ultimately show ?thesis using that [OF res _ _ x'] by blast
  qed
qed

text \<open>A send followed by the update of the message's queues.\<close>

lemma send_and_update:
  assumes ok: "out_ok t0 s" and t: "t0 \<le> now" and x: "seen_ok x"
    and m: "fm_get (s_outgoing s) mid = Some m" and idx: "idx < num_fragments m"
    and adm: "\<forall>p. genuine s p \<longrightarrow> admissible p"
    and step: "\<And>m'. marked now idx m m' \<Longrightarrow> length (fragment_states m') = length (fragment_states m) \<Longrightarrow>
      send_step t0 (s_delivered_bytes s) m' (f m')"
    and less: "\<And>m'. marked now idx m m' \<Longrightarrow> om_work now (rto (s_rtt s)) (f m') < om_work now (rto (s_rtt s)) m"
  obtains sent s1 x' where "try_send_fragment ops sender mid idx now s x = Some (sent, s1, x')"
    "out_ok t0 (if sent then update_outgoing mid f s1 else s1)"
    "send_frame s (if sent then update_outgoing mid f s1 else s1)" "seen_ok x'"
    "sent \<longrightarrow> work now (update_outgoing mid f s1) < work now s"
proof -
  obtain sent s1 x' where call: "try_send_fragment ops sender mid idx now s x = Some (sent, s1, x')"
    and s1: "out_ok t0 s1" "send_frame s s1" "seen_ok x'" "sent \<longrightarrow> sent_by now mid idx s s1"
      "s_delivered_bytes s1 = s_delivered_bytes s"
    by (rule try_send_fragment_ok [OF ok t x _ adm, of mid idx ops]) (use m idx in auto)
  show ?thesis
  proof (cases sent)
    case False
    then show ?thesis using that [OF call] s1 by simp
  next
    case True
    then obtain m' where m': "marked now idx m m'" "length (fragment_states m') = length (fragment_states m)"
      "s_outgoing s1 = fm_set (s_outgoing s) mid m'"
      using s1(4) m by (auto simp: sent_by_def)
    have g1: "fm_get (s_outgoing s1) mid = Some m'" by (simp add: m'(3))
    have st: "send_step t0 (s_delivered_bytes s1) m' (f m')" using step [OF m'(1,2)] s1(5) by simp
    have up: "s_outgoing (update_outgoing mid f s1) = fm_set (s_outgoing s) mid (f m')"
      using g1 by (simp add: update_outgoing_def m'(3) fm_set_twice)
    have "s_rtt (update_outgoing mid f s1) = s_rtt s"
      using s1(2) g1 by (simp add: update_outgoing_def send_frame_def)
    then have "work now (update_outgoing mid f s1) < work now s"
      using work_set [OF m up _ less [OF m'(1)]] by blast
    then show ?thesis
      using that [OF call] True s1(3) update_outgoing_ok [where f = f, OF s1(1) g1 st] send_frame_trans [OF s1(2)] by simp
  qed
qed

end

section \<open>Asking a message\<close>

lemma fragment_len_bound: "msg_ok t0 dlv m \<Longrightarrow> om_fragment_len m idx \<le> 1353"
  by (auto simp: msg_ok_def om_fragment_len_def Let_def limits)

lemma out_ok_msg: "out_ok t0 s \<Longrightarrow> fm_get (s_outgoing s) mid = Some m \<Longrightarrow> msg_ok t0 (s_delivered_bytes s) m"
  by (auto simp: out_ok_def dest: fm_all_get)

text \<open>A readiness answer: the closure returns, and what it approves is the length of a fragment.\<close>

definition answers :: "outgoing_message \<Rightarrow> nat option panics \<Rightarrow> bool" where
  "answers m r \<longleftrightarrow> r = Some None \<or> (\<exists>idx. r = Some (Some (om_fragment_len m idx)))"

lemma ready_timeout_answers:
  assumes "rtt_ok (s_rtt s)" and "msg_ok t0 dlv m"
  shows "answers m (ready_timeout ops any_sent now s m)"
proof (cases "in_flight_queue m")
  case Nil
  then show ?thesis by (simp add: ready_timeout_def answers_def)
next
  case (Cons e q)
  have core: "om_core t0 dlv m" using assms(2) om_wf_core by (auto simp: msg_ok_def)
  have "fst e < length (fragment_states m)"
    using om_core_queue [OF core] om_core_lengths(2) [OF core] Cons by auto
  then show ?thesis
    using Cons rto_with_backoff_ok(1) [OF assms(1)]
    by (cases e) (auto simp: ready_timeout_def answers_def Let_def)
qed

lemma ready_new_answers:
  assumes "msg_ok t0 dlv m"
  shows "answers m (ready_new ops s m)"
proof -
  have core: "om_core t0 dlv m" using assms om_wf_core by (auto simp: msg_ok_def)
  then show ?thesis using om_core_lengths(2) [OF core] by (auto simp: ready_new_def answers_def Let_def)
qed

lemma ready_retransmit_answers: "answers m (Some (ready_retransmit ops any_sent s m))"
  by (auto simp: ready_retransmit_def answers_def Let_def split: list.splits)

lemma is_ready_defined:
  assumes ok: "out_ok t0 s"
  obtains r where "is_ready ops any_sent now s mid = Some r" "\<And>n. r = Some n \<Longrightarrow> n \<le> 1353"
proof (cases "fm_get (s_outgoing s) mid")
  case None
  then show ?thesis by (intro that [of None]) (simp_all add: is_ready_def)
next
  case (Some m)
  have m: "msg_ok t0 (s_delivered_bytes s) m" by (rule out_ok_msg [OF ok Some])
  have rtt: "rtt_ok (s_rtt s)" using ok by (simp add: out_ok_def)
  have "answers m (is_ready ops any_sent now s mid)"
    using Some ready_retransmit_answers [of m ops any_sent s] ready_timeout_answers [OF rtt m, of ops any_sent now]
      ready_new_answers [OF m, of ops s]
    by (auto simp: is_ready_def answers_def split: option.splits)
  then show ?thesis
    using that fragment_len_bound [OF m] by (auto simp: answers_def)
qed

section \<open>The main loop\<close>

lemma out_ok_rto: "out_ok t0 s \<Longrightarrow> 0 < rto (s_rtt s)"
  by (auto simp: out_ok_def rtt_ok_def MIN_RTO_def from_millis_def)

lemma out_ok_scheduler:
  assumes "out_ok t0 s" and "sched_wf sch" and "deficits_bounded sch" and "scheduled sch = scheduled (s_scheduler s)"
  shows "out_ok t0 (s\<lparr>s_scheduler := sch\<rparr>)"
  using assms by (simp add: out_ok_def)

lemma work_scheduler [simp]: "work now (s\<lparr>s_scheduler := sch\<rparr>) = work now s"
  by (simp add: work_def)

lemma send_frame_scheduler [simp]: "send_frame s (s\<lparr>s_scheduler := sch\<rparr>)"
  by (simp add: send_frame_def same_in_def)

context transport
begin

lemma send_new_data_ok:
  assumes ok: "out_ok t0 s" and t: "t0 \<le> now" and x: "seen_ok x"
    and m: "fm_get (s_outgoing s) mid = Some m" and adm: "\<forall>p. genuine s p \<longrightarrow> admissible p"
  obtains sent s' x' where "send_new_data ops sender mid m now s x = Some (sent, s', x')"
    "out_ok t0 s'" "send_frame s s'" "seen_ok x'" "sent \<longrightarrow> work now s' < work now s"
proof (cases "next_fragment m < num_fragments m")
  case True
  obtain sent s1 x' where "try_send_fragment ops sender mid (next_fragment m) now s x = Some (sent, s1, x')"
    "out_ok t0 (if sent then update_outgoing mid advance_next s1 else s1)"
    "send_frame s (if sent then update_outgoing mid advance_next s1 else s1)" "seen_ok x'"
    "sent \<longrightarrow> work now (update_outgoing mid advance_next s1) < work now s"
  proof (rule send_and_update [OF ok t x m True adm, where f = advance_next and ops = ops])
    fix m' assume mk: "marked now (next_fragment m) m m'"
    then have lt: "next_fragment m' < num_fragments m'" using True by (simp add: marked_simps)
    show "send_step t0 (s_delivered_bytes s) m' (advance_next m')" by (rule advance_next_step [OF lt])
    show "om_work now (rto (s_rtt s)) (advance_next m') < om_work now (rto (s_rtt s)) m"
      using om_work_advance [OF lt, of now "rto (s_rtt s)"] om_work_marked [OF mk out_ok_rto [OF ok]] by simp
  qed (rule that)
  then show ?thesis using that True by (auto simp: send_new_data_def)
next
  case False
  then show ?thesis using ok x by (intro that [of False s x]) (simp_all add: send_new_data_def)
qed

lemma resend_ok:
  assumes ok: "out_ok t0 s" and t: "t0 \<le> now" and x: "seen_ok x"
    and m: "fm_get (s_outgoing s) mid = Some m" and q: "retransmit_queue m = idx # q"
    and adm: "\<forall>p. genuine s p \<longrightarrow> admissible p"
  obtains sent s' x' where "send_next_fragment_for_message ops sender mid now s x = Some (sent, s', x')"
    "out_ok t0 s'" "send_frame s s'" "seen_ok x'" "sent \<longrightarrow> work now s' < work now s"
proof -
  have "idx < num_fragments m"
    using om_wf_core [OF out_ok_get [OF ok m]] q by (simp add: om_core_def retransmits_ok_def)
  then obtain sent s1 x' where "try_send_fragment ops sender mid idx now s x = Some (sent, s1, x')"
    "out_ok t0 (if sent then update_outgoing mid pop_retransmit s1 else s1)"
    "send_frame s (if sent then update_outgoing mid pop_retransmit s1 else s1)" "seen_ok x'"
    "sent \<longrightarrow> work now (update_outgoing mid pop_retransmit s1) < work now s"
  proof (rule send_and_update [OF ok t x m _ adm, where f = pop_retransmit and ops = ops])
    fix m' assume mk: "marked now idx m m'"
    then have ne: "retransmit_queue m' \<noteq> []" using q by (simp add: marked_simps)
    show "send_step t0 (s_delivered_bytes s) m' (pop_retransmit m')" by (rule pop_retransmit_step)
    show "om_work now (rto (s_rtt s)) (pop_retransmit m') < om_work now (rto (s_rtt s)) m"
      using om_work_pop [OF ne, of now "rto (s_rtt s)"] om_work_marked [OF mk out_ok_rto [OF ok]] by simp
  qed (rule that)
  then show ?thesis using that m q by (auto simp: send_next_fragment_for_message_def)
qed

lemma timeout_ok:
  assumes ok: "out_ok t0 s" and t: "t0 \<le> now" and x: "seen_ok x"
    and m: "fm_get (s_outgoing s) mid = Some m" and q: "in_flight_queue m = (idx, sent_at) # q"
    and expired: "rto (s_rtt s) \<le> saturating_duration_since now sent_at"
    and adm: "\<forall>p. genuine s p \<longrightarrow> admissible p"
  obtains sent s1 x' where "try_send_fragment ops sender mid idx now s x = Some (sent, s1, x')"
    "out_ok t0 (if sent then update_outgoing mid (note_timeout idx) s1 else s1)"
    "send_frame s (if sent then update_outgoing mid (note_timeout idx) s1 else s1)" "seen_ok x'"
    "sent \<longrightarrow> work now (update_outgoing mid (note_timeout idx) s1) < work now s"
proof -
  have core: "om_core t0 (s_delivered_bytes s) m" by (rule om_wf_core [OF out_ok_get [OF ok m]])
  have lt: "idx < num_fragments m" using om_core_queue [OF core] q by simp
  show ?thesis
  proof (rule send_and_update [OF ok t x m lt adm, where f = "note_timeout idx" and ops = ops])
    fix m' assume mk: "marked now idx m m'"
    have q': "in_flight_queue m' = (idx, sent_at) # (q @ [(idx, now)])" using mk q by (simp add: marked_simps)
    show "om_work now (rto (s_rtt s)) (note_timeout idx m') < om_work now (rto (s_rtt s)) m"
      using om_work_timeout [OF q' expired, of idx] om_work_marked [OF mk out_ok_rto [OF ok]] by simp
    assume "length (fragment_states m') = length (fragment_states m)"
    then have "idx < length (fragment_states m')" using lt om_core_lengths(2) [OF core] by simp
    then show "send_step t0 (s_delivered_bytes s) m' (note_timeout idx m')"
      by (intro note_timeout_step [OF q']) simp_all
  qed (rule that)
qed

lemma send_next_fragment_ok:
  assumes ok: "out_ok t0 s" and t: "t0 \<le> now" and x: "seen_ok x"
    and adm: "\<forall>p. genuine s p \<longrightarrow> admissible p"
  obtains sent s' x' where "send_next_fragment_for_message ops sender mid now s x = Some (sent, s', x')"
    "out_ok t0 s'" "send_frame s s'" "seen_ok x'" "sent \<longrightarrow> work now s' < work now s"
proof (cases "fm_get (s_outgoing s) mid")
  case None
  then show ?thesis using ok x by (intro that [of False s x]) (simp_all add: send_next_fragment_for_message_def)
next
  case (Some m)
  have rtt: "rtt_ok (s_rtt s)" using ok by (simp add: out_ok_def)
  have core: "om_core t0 (s_delivered_bytes s) m" by (rule om_wf_core [OF out_ok_get [OF ok Some]])
  consider (resend) i q where "retransmit_queue m = i # q"
    | (timeout) idx sent_at q where "retransmit_queue m = []" "in_flight_queue m = (idx, sent_at) # q"
        "rto (s_rtt s) * 2 ^ min (rto_backoff (state_at m idx)) 6 \<le> saturating_duration_since now sent_at"
    | (new) "retransmit_queue m = []" "send_next_fragment_for_message ops sender mid now s x = send_new_data ops sender mid m now s x"
  proof (cases "retransmit_queue m")
    case Nil
    show ?thesis
    proof (cases "in_flight_queue m")
      case (Cons e q)
      obtain idx sent_at where e: "e = (idx, sent_at)" by fastforce
      have "idx < length (fragment_states m)"
        using om_core_queue [OF core] om_core_lengths(2) [OF core] Cons e by auto
      then show ?thesis
        using Nil Cons e Some that(2,3) rto_with_backoff_ok(1) [OF rtt]
        by (cases "rto (s_rtt s) * 2 ^ min (rto_backoff (state_at m idx)) 6 \<le> saturating_duration_since now sent_at")
          (auto simp: send_next_fragment_for_message_def)
    qed (use that(3) Nil Some in \<open>simp add: send_next_fragment_for_message_def\<close>)
  qed (rule that(1))
  then show ?thesis
  proof cases
    case resend
    show ?thesis by (rule resend_ok [OF ok t x Some resend adm]) (rule that)
  next
    case timeout
    have lt: "idx < length (fragment_states m)"
      using om_core_queue [OF core] om_core_lengths(2) [OF core] timeout(2) by auto
    have "rto (s_rtt s) * 1 \<le> rto (s_rtt s) * 2 ^ min (rto_backoff (state_at m idx)) 6"
      by (intro mult_le_mono2) simp
    from order_trans [OF this timeout(3)] have "rto (s_rtt s) \<le> saturating_duration_since now sent_at" by simp
    then obtain sent s1 x' where r: "try_send_fragment ops sender mid idx now s x = Some (sent, s1, x')"
      "out_ok t0 (if sent then update_outgoing mid (note_timeout idx) s1 else s1)"
      "send_frame s (if sent then update_outgoing mid (note_timeout idx) s1 else s1)" "seen_ok x'"
      "sent \<longrightarrow> work now (update_outgoing mid (note_timeout idx) s1) < work now s"
      by (rule timeout_ok [OF ok t x Some timeout(2) _ adm])
    let ?s = "if sent then cc_note (\<lambda>c. cc_on_timeout ops c now) (update_outgoing mid (note_timeout idx) s1) else s1"
    have "send_next_fragment_for_message ops sender mid now s x = Some (sent, ?s, x')"
      using Some timeout lt r(1) rto_with_backoff_ok(1) [OF rtt] by (simp add: send_next_fragment_for_message_def)
    moreover have "out_ok t0 ?s" "send_frame s ?s" "sent \<longrightarrow> work now ?s < work now s"
      using r(2,3,5) by (simp_all add: work_def split: if_splits)
    ultimately show ?thesis using that r(4) by blast
  next
    case new
    show ?thesis
      by (rule send_new_data_ok [OF ok t x Some adm, of ops]) (use new(2) that in \<open>simp add: that\<close>)
  qed
qed

text \<open>The loop: with more fuel than work it returns.\<close>

lemma data_loop_ok:
  assumes "out_ok t0 s" and "t0 \<le> now" and "seen_ok x" and "\<forall>p. genuine s p \<longrightarrow> admissible p"
    and "work now s < fuel"
  shows "\<exists>any' s' x'. data_loop ops sender now fuel any_sent s x = Some (any', s', x') \<and>
    out_ok t0 s' \<and> send_frame s s' \<and> seen_ok x'"
  using assms
proof (induction fuel arbitrary: s x any_sent)
  case (Suc fuel)
  let ?f = "\<lambda>mid. the (is_ready ops any_sent now s mid)"
  obtain r sch where call: "sched_next_message (s_scheduler s) ?f = (r, sch)" by fastforce
  have sw: "sched_wf (s_scheduler s)" "deficits_bounded (s_scheduler s)" using Suc.prems(1) by (simp_all add: out_ok_def)
  have small: "sz < 2 ^ 31" if "?f mid = Some sz" for mid sz
    by (rule is_ready_defined [OF Suc.prems(1), of ops any_sent now mid]) (use that in fastforce)
  have def: "deficits_bounded (snd (sched_next_message (s_scheduler s) ?f))"
    by (rule sched_next_message_deficits [OF sw]) (rule small)
  have sch: "sched_wf sch" "deficits_bounded sch" "scheduled sch = scheduled (s_scheduler s)"
    using sched_next_message_wf [OF sw(1), of ?f] def scheduled_next [OF sw(1), of ?f] call by simp_all
  have ok1: "out_ok t0 (s\<lparr>s_scheduler := sch\<rparr>)" by (rule out_ok_scheduler [OF Suc.prems(1) sch])
  have adm1: "\<forall>p. genuine (s\<lparr>s_scheduler := sch\<rparr>) p \<longrightarrow> admissible p"
    using Suc.prems(4) genuine_frame [OF send_frame_scheduler] by blast
  have no_panic: "\<not> list_ex (\<lambda>mid. is_ready ops any_sent now s mid = None) (fm_keys (s_outgoing s))"
    unfolding list_ex_iff using is_ready_defined [OF Suc.prems(1), of ops any_sent now] by (metis option.distinct(1))
  show ?case
  proof (cases r)
    case None
    then show ?thesis using no_panic call ok1 Suc.prems(3) by simp
  next
    case (Some mid)
    obtain sent s1 x1 where sent: "send_next_fragment_for_message ops sender mid now (s\<lparr>s_scheduler := sch\<rparr>) x = Some (sent, s1, x1)"
      "out_ok t0 s1" "send_frame (s\<lparr>s_scheduler := sch\<rparr>) s1" "seen_ok x1" "sent \<longrightarrow> work now s1 < work now (s\<lparr>s_scheduler := sch\<rparr>)"
      by (rule send_next_fragment_ok [OF ok1 Suc.prems(2,3) adm1])
    have fr: "send_frame s s1" by (rule send_frame_trans [OF send_frame_scheduler sent(3)])
    show ?thesis
    proof (cases sent)
      case True
      have "\<exists>any' s' x'. data_loop ops sender now fuel True s1 x1 = Some (any', s', x') \<and>
          out_ok t0 s' \<and> send_frame s1 s' \<and> seen_ok x'"
        using sent True Suc.prems genuine_frame [OF fr] by (intro Suc.IH) auto
      then show ?thesis using no_panic call Some sent(1) True send_frame_trans [OF fr] by auto
    next
      case False
      then show ?thesis using no_panic call Some sent fr by simp
    qed
  qed
qed simp

end

section \<open>The rest of the flush\<close>

lemma out_ok_datagrams: "out_ok t0 s \<Longrightarrow> length (s_datagram_queue s) \<le> MAX_DATAGRAM_QUEUE"
  by (simp add: out_ok_def)

lemma probe_idx_ok:
  assumes "msg_ok t0 dlv m"
  shows "retransmit_queue m = i # q \<Longrightarrow> i < num_fragments m" "e \<in> set (in_flight_queue m) \<Longrightarrow> fst e < num_fragments m"
proof -
  have core: "om_core t0 dlv m" using assms om_wf_core by (auto simp: msg_ok_def)
  show "retransmit_queue m = i # q \<Longrightarrow> i < num_fragments m"
    using core by (simp add: om_core_def retransmits_ok_def)
  show "e \<in> set (in_flight_queue m) \<Longrightarrow> fst e < num_fragments m" using om_core_queue [OF core] by auto
qed

lemma genuine_ack: "ack_packet (current_rwnd s) mid s = Some p \<Longrightarrow> genuine s p"
  by (cases p) (auto simp: genuine_def, auto simp: ack_packet_def split: option.splits)

context transport
begin

lemma flush_ping_ok:
  assumes "out_ok t0 s" and "t0 \<le> now" and "seen_ok x" and adm: "\<forall>p. genuine s p \<longrightarrow> admissible p"
    and call: "flush_ping sender now now_ms s x = (s', x')"
  shows "out_ok t0 s' \<and> send_frame s s' \<and> seen_ok x'"
proof -
  let ?p = "Ping (u64_as_i64 now_ms)"
  let ?s = "s\<lparr>s_last_ping := now, s_last_ping_sent := Some now, s_last_activity := now\<rparr>"
  obtain acc x1 where send: "sender x ?p = (acc, x1)" by fastforce
  have "admissible ?p" using adm by (simp add: genuine_def)
  then have "seen_ok x1" using keeps [OF assms(3)] send by (metis snd_conv)
  moreover have "out_ok t0 ?s" "send_frame s ?s"
    using assms(1,2) by (simp_all add: out_ok_def send_frame_def same_in_def)
  ultimately show ?thesis
    using assms(1,3) call by (cases acc) (auto simp: flush_ping_def send split: if_splits)
qed

lemma datagram_loop_ok:
  assumes "out_ok t0 s" and "seen_ok x" and "\<forall>p. genuine s p \<longrightarrow> admissible p"
    and "set queue \<subseteq> set (s_datagram_queue s)" and "length queue \<le> MAX_DATAGRAM_QUEUE"
  shows "\<exists>s' x'. datagram_loop ops sender now queue s x = Some (s', x') \<and> out_ok t0 s' \<and> send_frame s s' \<and> seen_ok x'"
  using assms
proof (induction queue arbitrary: s x)
  case Nil
  then show ?case by (auto simp: out_ok_def send_frame_def same_in_def)
next
  case (Cons dg queue)
  have adm: "admissible dg" using Cons.prems(3,4) by (simp add: genuine_def)
  obtain acc x' where send: "sender x dg = (acc, x')" by fastforce
  have x': "seen_ok x'" using keeps [OF Cons.prems(2) adm] send by simp
  obtain gap where gap: "pacing_gap (datagram_len dg) (cc_pacing_rate ops (s_congestion_control s)) = Some gap"
    using pacing_gap_ok by blast
  let ?s = "s\<lparr>s_last_activity := now, s_next_pacing_time := inst_add (max (s_next_pacing_time s) now) gap\<rparr>"
  have fr: "send_frame s ?s" by (simp add: send_frame_def same_in_def)
  have "\<exists>s' x''. datagram_loop ops sender now queue ?s x' = Some (s', x'') \<and> out_ok t0 s' \<and> send_frame ?s s' \<and> seen_ok x''"
    using Cons.prems x' genuine_frame [OF fr] by (intro Cons.IH) auto
  then show ?case
    using Cons.prems send x' gap send_frame_trans [OF fr]
    by (auto simp: out_ok_def send_frame_def same_in_def)
qed

lemma probe_target_ok:
  "probe_target ms = Some (mid, idx, is_new) \<Longrightarrow> fm_wf ms \<Longrightarrow> fm_all (\<lambda>_ m. msg_ok t0 dlv m) ms \<Longrightarrow>
     \<exists>m. fm_get ms mid = Some m \<and> idx < num_fragments m \<and> (is_new \<longrightarrow> idx = next_fragment m)"
proof (induction ms)
  case (Cons e rest)
  obtain k m where e: "e = (k, m)" by fastforce
  have m: "msg_ok t0 dlv m" using Cons.prems(3) e by simp
  show ?case
  proof (cases "probe_target ((k, m) # rest) = probe_target rest")
    case True
    then obtain m' where m': "fm_get rest mid = Some m'" "idx < num_fragments m'" "is_new \<longrightarrow> idx = next_fragment m'"
      using Cons e by auto
    then have "mid \<in> fst ` set rest" using fm_get_in_set [of rest mid m'] by force
    then have "k \<noteq> mid" using Cons.prems(2) e by auto
    with m' e show ?thesis by simp
  next
    case False
    then have "mid = k \<and> idx < num_fragments m \<and> (is_new \<longrightarrow> idx = next_fragment m)"
      using Cons.prems(1) e probe_idx_ok(1) [OF m] probe_idx_ok(2) [OF m, of "hd (in_flight_queue m)"]
      by (simp split: list.splits if_splits prod.splits)
    then show ?thesis using e by simp
  qed
qed simp

lemma zero_window_probe_ok:
  assumes ok: "out_ok t0 s" and t: "t0 \<le> now" and x: "seen_ok x" and adm: "\<forall>p. genuine s p \<longrightarrow> admissible p"
  obtains s' x' where "zero_window_probe ops sender now s x = Some (s', x')" "out_ok t0 s'" "send_frame s s'" "seen_ok x'"
proof -
  have rtt: "rtt_ok (s_rtt s)" using ok by (simp add: out_ok_def)
  define go where "go \<longleftrightarrow> s_peer_rwnd s < ESTIMATED_PAYLOAD_SIZE \<and> \<not> fm_is_empty (s_outgoing s) \<and>
    now \<ge> s_next_pacing_time s \<and>
    saturating_duration_since now (s_last_rwnd_probe s) \<ge> rto (s_rtt s) * 2 ^ min (s_zero_window_probes_sent s) 6"
  show ?thesis
  proof (cases "go \<and> probe_target (s_outgoing s) \<noteq> None")
    case False
    then have "zero_window_probe ops sender now s x = Some (s, x)"
      using rto_with_backoff_ok(1) [OF rtt]
      by (cases "probe_target (s_outgoing s)") (auto simp: zero_window_probe_def go_def)
    then show ?thesis using ok x by (intro that [of s x]) simp_all
  next
    case True
    then obtain mid idx is_new where target: "probe_target (s_outgoing s) = Some (mid, idx, is_new)" by auto
    obtain m where m: "fm_get (s_outgoing s) mid = Some m" "idx < num_fragments m" "is_new \<longrightarrow> idx = next_fragment m"
      using probe_target_ok [OF target, of t0 "s_delivered_bytes s"] ok unfolding out_ok_def by blast
    obtain sent s1 x1 where call: "try_send_fragment ops sender mid idx now s x = Some (sent, s1, x1)"
      and s1: "out_ok t0 s1" "send_frame s s1" "seen_ok x1" "sent \<longrightarrow> sent_by now mid idx s s1"
      by (rule try_send_fragment_ok [OF ok t x _ adm, of mid idx ops]) (use m in auto)
    define s2 where "s2 = (if is_new then update_outgoing mid advance_next s1 else s1)"
    define s3 where "s3 = s2\<lparr>s_last_rwnd_probe := now, s_zero_window_probes_sent := s_zero_window_probes_sent s2 + 1\<rparr>"
    have res: "zero_window_probe ops sender now s x = Some (if sent then s3 else s1, x1)"
      using True target call rto_with_backoff_ok(1) [OF rtt] by (simp add: zero_window_probe_def go_def s3_def s2_def Let_def)
    have "out_ok t0 s2 \<and> send_frame s1 s2" if was_sent: sent
    proof (cases is_new)
      case True
      obtain m' where m': "marked now idx m m'" "s_outgoing s1 = fm_set (s_outgoing s) mid m'"
        using s1(4) m(1) was_sent by (auto simp: sent_by_def)
      have g: "fm_get (s_outgoing s1) mid = Some m'" by (simp add: m'(2))
      have "next_fragment m' < num_fragments m'" using m(2,3) True marked_simps [OF m'(1)] by simp
      from update_outgoing_ok [where f = advance_next, OF s1(1) g advance_next_step [OF this]] True
      show ?thesis by (simp add: s2_def)
    qed (simp add: s2_def s1(1))
    then have "out_ok t0 s3 \<and> send_frame s1 s3" if sent
      using that by (auto simp: s3_def out_ok_def send_frame_def same_in_def)
    then have "out_ok t0 (if sent then s3 else s1)" "send_frame s (if sent then s3 else s1)"
      using s1(1,2) send_frame_trans [OF s1(2)] by simp_all
    with res show ?thesis using s1(3) by (rule that)
  qed
qed

end

lemma tlp_threshold_defined:
  assumes "rtt_ok (s_rtt s)"
  obtains d where "tlp_threshold s = Some d"
proof -
  have srtt: "srtt (s_rtt s) \<le> rtt_horizon" using assms by (simp add: rtt_ok_def)
  have rep: "representable (3/2 * 2 ^ 30)" using representable_scaled [of 3 29] by (simp add: power_int_def)
  show ?thesis
  proof (rule mul_f32_bounded [where k = "3/2" and n = 1610612736000000000, OF srtt _ _ rep])
    fix v assume "mul_f32 (srtt (s_rtt s)) (Fin (3/2)) = Some v"
    then show ?thesis using that by (simp add: tlp_threshold_def)
  qed simp_all
qed

context transport
begin

lemma tail_loss_probe_ok:
  assumes ok: "out_ok t0 s" and t: "t0 \<le> now" and x: "seen_ok x" and adm: "\<forall>p. genuine s p \<longrightarrow> admissible p"
  obtains s' x' where "tail_loss_probe ops sender now any_sent s x = Some (s', x')" "out_ok t0 s'" "send_frame s s'" "seen_ok x'"
proof -
  obtain threshold where thr: "tlp_threshold s = Some threshold"
    by (rule tlp_threshold_defined [of s]) (use ok in \<open>simp add: out_ok_def\<close>)
  let ?late = "\<lambda>(_, msg). in_flight_queue msg \<noteq> [] \<and>
      saturating_duration_since now (snd (last (in_flight_queue msg))) \<ge> threshold"
  show ?thesis
  proof (cases "\<not> any_sent \<and> s_in_flight s > 0 \<and> find ?late (s_outgoing s) \<noteq> None")
    case False
    then have "tail_loss_probe ops sender now any_sent s x = Some (s, x)"
      using thr by (cases "find ?late (s_outgoing s)") (auto simp: tail_loss_probe_def)
    then show ?thesis using ok x by (intro that [of s x]) simp_all
  next
    case True
    then obtain mid m where found: "find ?late (s_outgoing s) = Some (mid, m)" by auto
    then have "(mid, m) \<in> set (s_outgoing s)" and late: "in_flight_queue m \<noteq> []"
      by (auto simp: find_Some_iff in_set_conv_nth)
    then have m: "fm_get (s_outgoing s) mid = Some m" using ok by (simp add: out_ok_def fm_get_eq_map_of)
    have "fst (last (in_flight_queue m)) < num_fragments m"
      using probe_idx_ok(2) [OF out_ok_msg [OF ok m] last_in_set [OF late]] .
    with m have lt: "\<And>m'. fm_get (s_outgoing s) mid = Some m' \<Longrightarrow> fst (last (in_flight_queue m)) < num_fragments m'" by simp
    obtain sent s1 x1 where "try_send_fragment ops sender mid (fst (last (in_flight_queue m))) now s x = Some (sent, s1, x1)"
      "out_ok t0 s1" "send_frame s s1" "seen_ok x1"
      by (rule try_send_fragment_ok [OF ok t x lt adm])
    then show ?thesis using True found thr that by (auto simp: tail_loss_probe_def)
  qed
qed

lemma ack_loop_ok:
  assumes "out_ok t0 s" and "seen_ok x" and "\<forall>p. genuine s p \<longrightarrow> admissible p" and "rwnd = current_rwnd s"
    and "ack_loop sender rwnd ids s x = (s', x')"
  shows "out_ok t0 s' \<and> send_frame s s' \<and> seen_ok x'"
  using assms
proof (induction ids arbitrary: s x)
  case (Cons mid ids)
  let ?s = "forget_pending mid s"
  have fr: "send_frame s ?s" by (simp add: forget_pending_def send_frame_def same_in_def)
  have ok: "out_ok t0 ?s" using Cons.prems(1) by (simp add: forget_pending_def out_ok_def)
  have adm: "\<forall>p. genuine ?s p \<longrightarrow> admissible p" using Cons.prems(3) genuine_frame [OF fr] by blast
  have rw: "rwnd = current_rwnd ?s" using Cons.prems(4) by (simp add: forget_pending_def current_rwnd_def)
  show ?case
  proof (cases "ack_packet rwnd mid s")
    case None
    then show ?thesis
      using Cons.IH [OF ok Cons.prems(2) adm rw] Cons.prems(5) send_frame_trans [OF fr] by auto
  next
    case (Some p)
    then have "genuine s p" using Cons.prems(4) by (simp add: genuine_ack)
    then have "admissible p" using Cons.prems(3) by blast
    then have seen: "seen_ok (snd (sender x p))" by (rule keeps [OF Cons.prems(2)])
    obtain acc x1 where "sender x p = (acc, x1)" by fastforce
    then show ?thesis
      using Some seen Cons.IH [OF ok _ adm rw, of x1] Cons.prems(1,5) send_frame_trans [OF fr]
      by (cases acc) auto
  qed
qed simp

lemma nack_send_loop_ok:
  assumes "out_ok t0 s" and "seen_ok x" and "\<forall>p. genuine s p \<longrightarrow> admissible p"
    and "nack_send_loop sender ids s x = (s', x')"
  shows "out_ok t0 s' \<and> send_frame s s' \<and> seen_ok x'"
  using assms
proof (induction ids arbitrary: s x)
  case (Cons mid ids)
  let ?s = "s\<lparr>s_pending_nacks := fm_del (s_pending_nacks s) mid\<rparr>"
  let ?n = "Option.bind (fm_get (s_incoming s) mid) (\<lambda>r. mr_create_nack r (fb_base_index (mr_buffer r)))"
  have fr: "send_frame s ?s" by (simp add: send_frame_def same_in_def)
  have ok: "out_ok t0 ?s" using Cons.prems(1) by (simp add: out_ok_def)
  have adm: "\<forall>p. genuine ?s p \<longrightarrow> admissible p" using Cons.prems(3) genuine_frame [OF fr] by blast
  show ?case
  proof (cases ?n)
    case None
    then show ?thesis
      using Cons.IH [OF ok Cons.prems(2) adm] Cons.prems(4) send_frame_trans [OF fr] by auto
  next
    case (Some n)
    then have "genuine s (Nack n)" by (auto simp: genuine_def bind_eq_Some_conv)
    then have "admissible (Nack n)" using Cons.prems(3) by blast
    then have seen: "seen_ok (snd (sender x (Nack n)))" by (rule keeps [OF Cons.prems(2)])
    obtain acc x1 where "sender x (Nack n) = (acc, x1)" by fastforce
    then show ?thesis
      using Some seen Cons.IH [OF ok _ adm, of x1] Cons.prems(1,4) send_frame_trans [OF fr]
      by (cases acc) auto
  qed
qed simp

lemma detect_app_limited_ok:
  "out_ok t0 s \<Longrightarrow> out_ok t0 (detect_app_limited ops s)" "send_frame s (detect_app_limited ops s)"
  by (simp_all add: detect_app_limited_def send_frame_def same_in_def)

text \<open>The whole flush.\<close>

lemma flush_packets_ok:
  assumes ok: "out_ok t0 s" and t: "t0 \<le> now" and x: "seen_ok x" and adm: "\<forall>p. genuine s p \<longrightarrow> admissible p"
  obtains s' x' where "flush_packets ops sender now now_ms s x = Some (s', x')"
    "out_ok t0 s'" "send_frame s s'" "seen_ok x'"
proof -
  have adm': "\<forall>p. genuine s' p \<longrightarrow> admissible p" if "send_frame s s'" for s'
    using adm genuine_frame [OF that] by blast
  obtain s1 x1 where c1: "flush_ping sender now now_ms s x = (s1, x1)" by fastforce
  have r1: "out_ok t0 s1" "send_frame s s1" "seen_ok x1" using flush_ping_ok [OF ok t x adm c1] by simp_all
  obtain s2 x2 where c2: "datagram_loop ops sender now (s_datagram_queue s1) s1 x1 = Some (s2, x2)"
    and r2: "out_ok t0 s2" "send_frame s1 s2" "seen_ok x2"
    using datagram_loop_ok [OF r1(1,3) adm' [OF r1(2)] order_refl out_ok_datagrams [OF r1(1)]] by blast
  have f2: "send_frame s s2" by (rule send_frame_trans [OF r1(2) r2(2)])
  obtain s3 x3 where c3: "zero_window_probe ops sender now s2 x2 = Some (s3, x3)"
    and r3: "out_ok t0 s3" "send_frame s2 s3" "seen_ok x3"
    by (rule zero_window_probe_ok [OF r2(1) t r2(3) adm' [OF f2]])
  have f3: "send_frame s s3" by (rule send_frame_trans [OF f2 r3(2)])
  have "work now s3 < data_fuel now s3" by (simp add: work_def data_fuel_def)
  from data_loop_ok [OF r3(1) t r3(3) adm' [OF f3] this]
  obtain any s4 x4 where c4: "data_loop ops sender now (data_fuel now s3) False s3 x3 = Some (any, s4, x4)"
    and r4: "out_ok t0 s4" "send_frame s3 s4" "seen_ok x4" by blast
  have f4: "send_frame s s4" by (rule send_frame_trans [OF f3 r4(2)])
  obtain s5 x5 where c5: "tail_loss_probe ops sender now any s4 x4 = Some (s5, x5)"
    and r5: "out_ok t0 s5" "send_frame s4 s5" "seen_ok x5"
    by (rule tail_loss_probe_ok [OF r4(1) t r4(3) adm' [OF f4]])
  have f5: "send_frame s s5" by (rule send_frame_trans [OF f4 r5(2)])
  obtain s6 x6 where c6: "flush_pending_acks sender now s5 x5 = (s6, x6)" by fastforce
  have r6: "out_ok t0 s6" "send_frame s5 s6" "seen_ok x6"
    using ack_loop_ok [OF r5(1,3) adm' [OF f5] refl] c6 by (simp_all add: flush_pending_acks_def Let_def)
  have f6: "send_frame s s6" by (rule send_frame_trans [OF f5 r6(2)])
  obtain s7 x7 where c7: "flush_pending_nacks sender now s6 x6 = (s7, x7)" by fastforce
  have r7: "out_ok t0 s7" "send_frame s6 s7" "seen_ok x7"
    using nack_send_loop_ok [OF r6(1,3) adm' [OF f6]] c7 by (simp_all add: flush_pending_nacks_def Let_def)
  show ?thesis
  proof (rule that)
    show "flush_packets ops sender now now_ms s x = Some (detect_app_limited ops s7, x7)"
      by (simp add: flush_packets_def c1 c2 c3 c4 c5 c6 c7)
    show "send_frame s (detect_app_limited ops s7)"
      by (rule send_frame_trans [OF send_frame_trans [OF f6 r7(2)] detect_app_limited_ok(2)])
  qed (use r7 detect_app_limited_ok in auto)
qed

end

text \<open>Any callback, and the callback that collects.\<close>

interpretation any_sender: transport sender "\<lambda>_. True" "\<lambda>_. True" for sender
  by unfold_locales simp

interpretation collector: transport "\<lambda>ps p. (True, ps @ [p])" "list_all adm" adm for adm
  by unfold_locales simp

lemma send_frame_in_ok: "send_frame s s' \<Longrightarrow> in_ok s' = in_ok s"
  by (simp add: send_frame_def same_in_ok)

section \<open>When to come back\<close>

lemma msg_front:
  assumes "msg_ok t0 dlv m" and "e \<in> set (in_flight_queue m)"
  shows "index_at (fragment_states m) (fst e) = Some (state_at m (fst e))"
proof -
  have "om_core t0 dlv m" using assms(1) om_wf_core by (auto simp: msg_ok_def)
  then show ?thesis using probe_idx_ok(2) [OF assms] om_core_lengths(2) by simp
qed

lemma check_outgoing_defined:
  assumes "rtt_ok (s_rtt s)" and "\<forall>m \<in> set ms. msg_ok t0 dlv m"
  shows "\<exists>t'. check_outgoing s ms t = Some t' \<and> t' \<le> t"
  using assms(2)
proof (induction ms arbitrary: t)
  case (Cons m ms)
  then have m: "msg_ok t0 dlv m" by simp
  obtain t1 where t1: "(case in_flight_queue m of [] \<Rightarrow> Some t | (idx, sent_at) # _ \<Rightarrow>
      do { state \<leftarrow> index_at (fragment_states m) idx;
           r \<leftarrow> rto_with_backoff (s_rtt s) (rto_backoff state);
           Some (min t (inst_add sent_at r)) }) = Some t1" "t1 \<le> t"
    using msg_front [OF m, of "hd (in_flight_queue m)"] rto_with_backoff_ok(1) [OF assms(1)]
    by (cases "in_flight_queue m") (auto split: prod.splits)
  let ?t2 = "if retransmit_queue m \<noteq> [] \<or> next_fragment m < num_fragments m then min t1 (s_next_pacing_time s) else t1"
  obtain t' where "check_outgoing s ms ?t2 = Some t'" "t' \<le> ?t2"
    using Cons.IH [of ?t2] Cons.prems by auto
  then show ?case using t1 by (auto split: if_splits)
qed simp

lemma out_ok_values:
  assumes "out_ok t0 s"
  shows "rtt_ok (s_rtt s)" "\<forall>m \<in> set (fm_values (s_outgoing s)). msg_ok t0 (s_delivered_bytes s) m"
  using assms by (auto simp: out_ok_def fm_all_def fm_values_def)

lemma next_check_time_defined:
  assumes "out_ok t0 s"
  obtains t where "next_check_time s = Some t"
proof -
  note ok = out_ok_values [OF assms]
  obtain t1 where t1: "(if s_peer_rwnd s < ESTIMATED_PAYLOAD_SIZE then
      do { d \<leftarrow> rto_with_backoff (s_rtt s) (s_zero_window_probes_sent s);
           Some (min (min (s_next_pacing_time s) (inst_add (s_last_ping s) PING_INTERVAL_ACTIVE)) (inst_add (s_last_rwnd_probe s) d)) }
      else Some (min (s_next_pacing_time s) (inst_add (s_last_ping s) PING_INTERVAL_ACTIVE))) = Some t1"
    using rto_with_backoff_ok(1) [OF ok(1)] by (cases "s_peer_rwnd s < ESTIMATED_PAYLOAD_SIZE") simp_all
  show ?thesis
    using that check_outgoing_defined [OF ok, of "fold (\<lambda>(_, at_time) t. min t (inst_add at_time DELAYED_ACK_TIMEOUT))
        (fm_values (s_pending_acks s)) t1"]
    by (cases "list_ex (\<lambda>(count, _). count \<ge> 2) (fm_values (s_pending_acks s))") (auto simp: next_check_time_def Let_def t1)
qed

lemma wakeup_timeouts_defined:
  assumes "rtt_ok (s_rtt s)" and "\<forall>m \<in> set ms. msg_ok t0 dlv m"
  shows "\<exists>t'. wakeup_timeouts s ms t = Some t' \<and> t' \<le> t"
  using assms(2)
proof (induction ms arbitrary: t)
  case (Cons m ms)
  then have m: "msg_ok t0 dlv m" by simp
  have IH: "\<exists>t'. wakeup_timeouts s ms u = Some t' \<and> t' \<le> t" if "u \<le> t" for u
    using Cons.IH [of u] Cons.prems that by auto
  show ?case
    using msg_front [OF m, of "hd (in_flight_queue m)"] rto_with_backoff_ok(1) [OF assms(1)] IH
    by (cases "in_flight_queue m") (auto split: prod.splits)
qed simp

lemma wakeup_tails_defined:
  assumes "\<forall>m \<in> set ms. msg_ok t0 dlv m"
  shows "\<exists>t'. wakeup_tails threshold ms t = Some t' \<and> t' \<le> t"
  using assms
proof (induction ms arbitrary: t)
  case (Cons m ms)
  then have m: "msg_ok t0 dlv m" by simp
  have IH: "\<exists>t'. wakeup_tails threshold ms u = Some t' \<and> t' \<le> t" if "u \<le> t" for u
    using Cons.IH [of u] Cons.prems that by auto
  show ?case
    using msg_front [OF m last_in_set] IH by (auto split: prod.splits)
qed simp

lemma fold_min_le: "fold (\<lambda>p t. min t (f p)) xs (t :: instant) \<le> t"
proof (induction xs arbitrary: t)
  case (Cons p xs)
  then show ?case using Cons [of "min t (f p)"] by simp
qed simp

lemma next_wakeup_ok:
  assumes "out_ok t0 s"
  obtains t where "next_wakeup ops now s = Some t" "now \<le> t" "t \<le> inst_add now (from_secs 3600)"
proof (cases "wakeup_now ops now s")
  case True
  then show ?thesis by (intro that [of now]) (simp_all add: next_wakeup_def inst_add_def)
next
  case False
  note ok = out_ok_values [OF assms]
  let ?n0 = "inst_add now (from_secs 3600)"
  define n1 where "n1 = (if s_next_pacing_time s > now then min ?n0 (s_next_pacing_time s) else ?n0)"
  obtain n2 where n2: "wakeup_timeouts s (fm_values (s_outgoing s)) n1 = Some n2" "n2 \<le> n1"
    using wakeup_timeouts_defined [OF ok] by blast
  obtain threshold where thr: "tlp_threshold s = Some threshold" by (rule tlp_threshold_defined [OF ok(1)])
  obtain n3 where n3: "(if s_in_flight s > 0 then
      do { threshold \<leftarrow> tlp_threshold s; wakeup_tails threshold (fm_values (s_outgoing s)) n2 } else Some n2) = Some n3" "n3 \<le> n2"
    using wakeup_tails_defined [OF ok(2), of threshold n2] thr by (cases "s_in_flight s > 0") auto
  obtain n4 where n4: "(if s_peer_rwnd s < ESTIMATED_PAYLOAD_SIZE \<and> \<not> fm_is_empty (s_outgoing s) then
      do { d \<leftarrow> rto_with_backoff (s_rtt s) (s_zero_window_probes_sent s);
           Some (min n3 (max (inst_add (s_last_rwnd_probe s) d) (s_next_pacing_time s))) } else Some n3) = Some n4" "n4 \<le> n3"
    using rto_with_backoff_ok(1) [OF ok(1)]
    by (cases "s_peer_rwnd s < ESTIMATED_PAYLOAD_SIZE \<and> \<not> fm_is_empty (s_outgoing s)") auto
  have le: "n4 \<le> ?n0" using n4(2) n3(2) n2(2) by (auto simp: n1_def split: if_splits)
  have now: "now \<le> ?n0" by (simp add: inst_add_def)
  show ?thesis
  proof (cases "list_ex (\<lambda>(_, (count, at_time)). count \<ge> 2 \<or> inst_add at_time DELAYED_ACK_TIMEOUT \<le> now) (s_pending_acks s) \<or>
           list_ex (\<lambda>(_, at_time). inst_add at_time (nack_delay s) \<le> now) (s_pending_nacks s)")
    case True
    then have "next_wakeup ops now s = Some now"
      using False by (simp add: next_wakeup_def Let_def n1_def [symmetric] n2 n3(1) n4(1))
    then show ?thesis using now by (intro that [of now]) simp_all
  next
    case late: False
    define n5 where "n5 = fold (\<lambda>(_, (_, at_time)) t. min t (inst_add at_time DELAYED_ACK_TIMEOUT)) (s_pending_acks s) n4"
    define n6 where "n6 = fold (\<lambda>(_, at_time) t. min t (inst_add at_time (nack_delay s))) (s_pending_nacks s) n5"
    have "n5 \<le> n4"
      unfolding n5_def using fold_min_le [of "\<lambda>p. inst_add (snd (snd p)) DELAYED_ACK_TIMEOUT" "s_pending_acks s" n4]
      by (simp add: case_prod_unfold)
    moreover have "n6 \<le> n5"
      unfolding n6_def using fold_min_le [of "\<lambda>p. inst_add (snd p) (nack_delay s)" "s_pending_nacks s" n5]
      by (simp add: case_prod_unfold)
    ultimately have "n6 \<le> ?n0" using le by linarith
    moreover have "next_wakeup ops now s = Some (max (min (min n6 (inst_add (s_last_ping s) (ping_interval s)))
        (inst_add (s_last_activity s) CONNECTION_TIMEOUT)) now)"
      using False late by (simp add: next_wakeup_def Let_def n1_def [symmetric] n2 n3(1) n4(1) n5_def n6_def)
    ultimately show ?thesis using now that by (metis max.cobounded2 max.bounded_iff min.coboundedI1)
  qed
qed

end
