(* ===== verification/Session_Run.thy ===== *)
theory Session_Run
  imports Session_Send
begin

text \<open>
  Whole runs of a session: the operations of its interface interleaved in any order, with the
  other sessions that share the quota as the environment. Every state such a run reaches
  satisfies the session's invariant, so no operation of the run panics or fails to return.

  The step relation leaves out \<^verbatim>\<open>set_quota\<close>, which does not keep the accounting (it is treated
  apart), and asks of the clock only that it stays between the creation of the session and the
  estimator's horizon.
\<close>

type_synonym serializer = "message_type \<Rightarrow> bytes \<Rightarrow> string + bytes"
type_synonym deserializer = "bytes \<Rightarrow> (message_type \<times> bytes) option panics"

inductive sess_step :: "'c cc_ops \<Rightarrow> serializer \<Rightarrow> deserializer \<Rightarrow> instant \<Rightarrow> 'c session \<Rightarrow> 'c session \<Rightarrow> bool"
  for ops serialize deserialize t0 where
  packet: "in_horizon t0 now \<Longrightarrow> handle_packet ops deserialize sys_ms jitter p now s = Some (rs, s') \<Longrightarrow>
     input_ok sys_ms jitter p \<Longrightarrow> sess_step ops serialize deserialize t0 s s'"
| message: "send_message_at serialize mt data now s = Some (r, s') \<Longrightarrow>
     sess_step ops serialize deserialize t0 s s'"
| datagram: "send_datagram mt data s = (r, s') \<Longrightarrow> sess_step ops serialize deserialize t0 s s'"
| timeout: "sess_step ops serialize deserialize t0 s (set_message_timeout mid d s)"
| flush: "t0 \<le> now \<Longrightarrow> flush_packets ops sender now now_ms s (x :: nat) = Some (s', x') \<Longrightarrow>
     sess_step ops serialize deserialize t0 s s'"
| expire: "cleanup now s = Some s' \<Longrightarrow> sess_step ops serialize deserialize t0 s s'"
| event: "poll_event s = (e, s') \<Longrightarrow> sess_step ops serialize deserialize t0 s s'"
| other_sessions: "max_bytes q = max_bytes (s_quota s) \<Longrightarrow> quota_ok q \<Longrightarrow> s_incoming_buffer_size s \<le> used_bytes q \<Longrightarrow>
     sess_step ops serialize deserialize t0 s (s\<lparr>s_quota := q\<rparr>)"

inductive sess_reachable :: "'c cc_ops \<Rightarrow> serializer \<Rightarrow> deserializer \<Rightarrow> 'c \<Rightarrow> instant \<Rightarrow> 'c session \<Rightarrow> bool"
  for ops serialize deserialize cc t0 where
  start: "quota_ok q \<Longrightarrow>
     sess_reachable ops serialize deserialize cc t0 (with_congestion_control_and_quota_at cc q t0 first_id)"
| step: "sess_reachable ops serialize deserialize cc t0 s \<Longrightarrow> sess_step ops serialize deserialize t0 s s' \<Longrightarrow>
     sess_reachable ops serialize deserialize cc t0 s'"

inductive_cases sess_stepE: "sess_step ops serialize deserialize t0 s s'"

lemma send_datagram_ok: "sess_ok t0 s \<Longrightarrow> sess_ok t0 (snd (send_datagram mt data s))"
  by (auto simp: send_datagram_def sess_ok_def in_ok_def out_ok_def)

lemma poll_event_ok: "sess_ok t0 s \<Longrightarrow> sess_ok t0 (snd (poll_event s))"
  by (auto simp: poll_event_def sess_ok_def irrelevant_updates out_ok_irrelevant split: list.splits)

lemma om_wf_set_timeout: "om_wf t0 dlv m \<Longrightarrow> om_wf t0 dlv (m\<lparr>om_timeout := d\<rparr>)"
proof -
  let ?m = "m\<lparr>om_timeout := d\<rparr>"
  assume "om_wf t0 dlv m"
  moreover have "om_fragment_len ?m = om_fragment_len m" "om_sized ?m = om_sized m"
    by (rule om_fragment_len_cong om_sized_cong; simp)+
  ultimately show "om_wf t0 dlv ?m" unfolding om_wf_def om_core_def hca_ok_def by simp
qed

lemma set_message_timeout_ok:
  assumes "sess_ok t0 s"
  shows "sess_ok t0 (set_message_timeout mid d s)"
proof (cases "fm_get (s_outgoing s) mid")
  case (Some m)
  have ok: "out_ok t0 s" and inn: "in_ok s" using assms by (simp_all add: sess_ok_def)
  have "om_inflight (m\<lparr>om_timeout := d\<rparr>) = om_inflight m"
    by (rule om_inflight_cong) (simp_all add: contents_def)
  then have "out_ok t0 (s\<lparr>s_outgoing := fm_set (s_outgoing s) mid (m\<lparr>om_timeout := d\<rparr>)\<rparr>)"
    using set_outgoing_ok [OF ok Some om_wf_set_timeout [OF out_ok_get [OF ok Some]] order_refl, of d "s_in_flight s"]
    by simp
  moreover have "in_ok (s\<lparr>s_outgoing := fm_set (s_outgoing s) mid (m\<lparr>om_timeout := d\<rparr>)\<rparr>)"
    using inn by (simp add: in_ok_def)
  ultimately show ?thesis using Some by (simp add: set_message_timeout_def sess_ok_def)
qed (simp add: set_message_timeout_def assms)

lemma flush_sess_ok:
  assumes ok: "sess_ok t0 s" and t: "t0 \<le> now"
  obtains s' x' where "flush_packets ops sender now now_ms s x = Some (s', x')" "sess_ok t0 s'" "send_frame s s'"
proof -
  have out: "out_ok t0 s" using ok by (simp add: sess_ok_def)
  obtain s' x' where s': "flush_packets ops sender now now_ms s x = Some (s', x')" "out_ok t0 s'" "send_frame s s'"
    by (rule any_sender.flush_packets_ok [OF out t, where sender = sender and x = x and ops = ops and now_ms = now_ms]) auto
  show ?thesis
    by (rule that [OF s'(1) _ s'(3)]) (use s' ok in \<open>simp add: sess_ok_def send_frame_in_ok\<close>)
qed

lemma sess_step_ok:
  assumes "sess_step ops serialize deserialize t0 s s'" and ok: "sess_ok t0 s"
  shows "sess_ok t0 s'"
  using assms(1)
proof cases
  case (packet now sys_ms jitter p rs)
  show ?thesis by (rule handle_packet_ok [OF ok packet(1,3), of ops deserialize]) (use packet(2) in simp_all)
next
  case (message mt data now r)
  have out: "out_ok t0 s" using ok by (simp add: sess_ok_def)
  show ?thesis
    by (rule send_message_at_ok [OF out, of serialize mt data now]) (use message ok in \<open>auto simp: sess_ok_def same_in_ok\<close>)
next
  case (flush now sender now_ms x x')
  show ?thesis
    by (rule flush_sess_ok [OF ok flush(1), where ops = ops and sender = sender and now_ms = now_ms and x = x])
      (use flush(2) in simp)
next
  case (expire now)
  show ?thesis by (rule cleanup_ok [OF ok, of now]) (use expire in simp)
next
  case (other_sessions q)
  then show ?thesis using ok by (simp add: sess_ok_def in_ok_def out_ok_def)
qed (use ok send_datagram_ok poll_event_ok set_message_timeout_ok in \<open>metis snd_conv\<close>)+

lemma sess_reachable_ok: "sess_reachable ops serialize deserialize cc t0 s \<Longrightarrow> sess_ok t0 s"
proof (induction rule: sess_reachable.induct)
  case (start q first_id)
  then show ?case by (rule session_new_ok)
next
  case (step s s')
  then show ?case using sess_step_ok by blast
qed

section \<open>A message that the decoder cannot take\<close>

lemma fb_single_fragment:
  obtains b where "fb_add_fragment (fb_new 1) 0 data = Some (Inr True, b)" "fb_assemble b = Some data"
    "fb_planned_total_size b = length data + PER_FRAGMENT_OVERHEAD"
proof -
  have "\<not> bs_get (fb_received_mask (fb_new 1)) 0"
    using fb_wf_get [OF fb_new_wf, of 1 0] by (simp add: limits stored_def fb_new_def)
  then obtain b where b: "fb_add_fragment (fb_new 1) 0 data = Some (Inr (fb_is_complete b), b)" "fb_fragments b = [Some data]"
    "fb_received_count b = 1" "fb_total_fragments b = 1" "fb_last_fragment_size b = Some (length data)" "fb_current_size b = length data"
    by (simp add: fb_add_fragment_def fb_note_size_def fb_new_def Let_def split: if_splits)
  then show thesis
    by (intro that [of b]) (simp_all add: fb_is_complete_def fb_assemble_def fb_planned_total_size_def fb_total_allocated_size_def
        unwrap_or_def Let_def)
qed

text \<open>
  A new session that is sent a message of one fragment decodes it at once; if the decoder panics on it, the packet
  takes the session down.
\<close>

lemma fresh_session_panics:
  assumes "deserialize data = None" "length data \<le> MAX_TOX_PACKET_SIZE"
  shows "handle_packet ops deserialize sys_ms jitter (Data mid 0 1 data) now (with_congestion_control_at cc t0 first_id) = None"
proof -
  obtain b where b: "fb_add_fragment (fb_new 1) 0 data = Some (Inr True, b)" "fb_assemble b = Some data"
    "fb_planned_total_size b = length data + PER_FRAGMENT_OVERHEAD" by (rule fb_single_fragment)
  have "fb_current_size (fb_new (Suc 0)) = 0" by (simp add: fb_new_def)
  then show ?thesis
    using assms b
    by (simp add: handle_packet_def handle_packet_internal_def handle_data_packet_def check_completed_message_def
        with_congestion_control_at_def with_congestion_control_and_quota_at_def fm_new_def is_ancient_message_def
        ensure_reassembler_def fm_len_def reserve_bytes_def quota_reserve_guaranteed_def quota_new_def Let_def FAIR_SHARE_GUARANTEE_def limits
        mr_new_def process_fragment_def mr_add_fragment_def note_gap_def adjust_reservation_def mr_planned_total_size_def
        PER_FRAGMENT_OVERHEAD_def FRAGMENT_STRUCT_OVERHEAD_def HEAP_OVERHEAD_ESTIMATE_def finish_incoming_def drop_incoming_def
        checked_sub_def mr_assemble_def release_bytes_def)
qed

end
