(* ===== verification/Spec2Isabelle.thy ===== *)
theory Spec2Isabelle
  imports Dag_Codecs Algorithm Samples Packet_Codecs Session_Run Iblt
begin

text \<open>
  This is a verification development for the repository \<^verbatim>\<open>rs-toxcore-c\<close>: a model of its transport
  library \<^verbatim>\<open>tox-sequenced\<close>, of its codec \<^verbatim>\<open>tox-proto\<close>, of its set-reconciliation library \<^verbatim>\<open>tox-reconcile\<close>, and of the core of \<^verbatim>\<open>merkle-tox-core\<close>:
  device authorization, blob fetching, the nodes of a conversation's history with their wire format and keys,
  the stores, and the admission of nodes by the engine, with the theorems that make them correct.

  \<^bold>\<open>The program.\<close> A \<^verbatim>\<open>SequenceSession\<close> (\<^verbatim>\<open>session.rs\<close>) carries messages reliably between two peers
  over a lossy, reordering packet transport. The sending half cuts a message into fragments
  (\<^verbatim>\<open>outgoing.rs\<close>), asks a deficit-round-robin scheduler (\<^verbatim>\<open>scheduler.rs\<close>) which message may send next,
  and lets a congestion controller (\<^verbatim>\<open>congestion/\<close>) and a round-trip estimator (\<^verbatim>\<open>rtt.rs\<close>) set the window, the
  pacing and the timeouts. The receiving half collects fragments (\<^verbatim>\<open>reassembly/\<close>), admits them
  against a memory quota shared by all sessions (\<^verbatim>\<open>quota.rs\<close>) and answers with selective
  acknowledgements built from bit sets (\<^verbatim>\<open>bitset.rs\<close>). All tables are \<^verbatim>\<open>FlatMap\<close>s (\<^verbatim>\<open>flat_map.rs\<close>). Packets
  and the envelopes of messages are written in a compact MessagePack form (\<^verbatim>\<open>tox-proto\<close>) that a macro (\<^verbatim>\<open>tox-proto-derive\<close>) derives for
  every struct and enum. An
  \<^verbatim>\<open>IbltSketch\<close> (\<^verbatim>\<open>iblt.rs\<close>) lets two peers find the difference of their sets of node ids. On top of the transport, an
  \<^verbatim>\<open>IdentityManager\<close> (\<^verbatim>\<open>merkle-tox-core/src/identity.rs\<close>) decides which devices may act for which identity, and
  a \<^verbatim>\<open>SwarmSync\<close> (\<^verbatim>\<open>merkle-tox-core/src/cas.rs\<close>) spreads the chunks of a blob over the peers that have it. A conversation is
  a directed acyclic graph of nodes (\<^verbatim>\<open>dag.rs\<close>), sent in a wire form that is encrypted under a ratchet of keys for each sender
  (\<^verbatim>\<open>engine/conversation.rs\<close>, \<^verbatim>\<open>crypto.rs\<close>). The engine (\<^verbatim>\<open>engine/\<close>) unpacks a node, validates it against the nodes it
  has (\<^verbatim>\<open>EngineStore\<close>, a cache in front of a store), asks the identity manager about its sender, decides whether it is
  verified or speculative (\<^verbatim>\<open>processor/verification.rs\<close>), applies its effects (\<^verbatim>\<open>processor/side_effects.rs\<close>) and tries
  waiting nodes again.

  \<^bold>\<open>The theories\<close>, below the directory \<^verbatim>\<open>tox-sequenced/src\<close> unless stated otherwise:
  \<^item> \<^verbatim>\<open>Prelude\<close>: machine types, \<open>'a panics\<close> (an option: \<open>None\<close> is a panic), instants and durations in
    nanoseconds, checked subtraction, indexing, bit counting; the collections of simplification rules.
  \<^item> \<^verbatim>\<open>Float32\<close>: IEEE single precision with rounding to nearest even, infinities and NaN, and the
    conversions of \<^verbatim>\<open>Duration\<close> that panic; used by \<^verbatim>\<open>Rtt\<close>, \<^verbatim>\<open>Congestion\<close> and the session.
  \<^item> \<^verbatim>\<open>Bit_Set\<close> (\<^verbatim>\<open>bitset.rs\<close>), \<^verbatim>\<open>Flat_Map\<close> (\<^verbatim>\<open>flat_map.rs\<close>), \<^verbatim>\<open>Protocol\<close> (\<^verbatim>\<open>protocol.rs\<close>, \<^verbatim>\<open>error.rs\<close>, the events of
    \<^verbatim>\<open>lib.rs\<close> and \<^verbatim>\<open>peek_message_type\<close>), \<^verbatim>\<open>Quota\<close> (\<^verbatim>\<open>quota.rs\<close>), \<^verbatim>\<open>Scheduler\<close> (\<^verbatim>\<open>scheduler.rs\<close>), \<^verbatim>\<open>Rtt\<close> (\<^verbatim>\<open>rtt.rs\<close>),
    \<^verbatim>\<open>Reassembly\<close> (\<^verbatim>\<open>reassembly/buffer.rs\<close> and \<^verbatim>\<open>reassembly/mod.rs\<close>): one record, one definition per
    method, the invariant and its lemmas.
  \<^item> \<^verbatim>\<open>Outgoing\<close> (\<^verbatim>\<open>outgoing.rs\<close>); \<^verbatim>\<open>Outgoing_Inv\<close> and \<^verbatim>\<open>Outgoing_Ack\<close> hold the invariant of a message being
    sent and the analysis of \<^verbatim>\<open>on_ack\<close>.
  \<^item> \<^verbatim>\<open>Congestion\<close> (\<^verbatim>\<open>congestion/mod.rs\<close>, \<^verbatim>\<open>congestion/aimd.rs\<close>): the trait is a record of operations, a
    locale states what a controller promises, and AIMD interprets it. \<^verbatim>\<open>Max_Filter\<close>, \<^verbatim>\<open>Bbrv1\<close> and \<^verbatim>\<open>Bbrv2\<close>
    (\<^verbatim>\<open>congestion/bbrv1.rs\<close>, \<^verbatim>\<open>congestion/bbrv2.rs\<close>) interpret it as well, \<^verbatim>\<open>Cubic\<close> (\<^verbatim>\<open>congestion/cubic.rs\<close>) meets it for power functions
    within bounds, and \<^verbatim>\<open>Algorithm\<close> is the enumeration of the four with its dispatch.
  \<^item> \<^verbatim>\<open>Session\<close> (\<^verbatim>\<open>session.rs\<close>: state, queueing, receiving, expiry) and \<^verbatim>\<open>Session_Flush\<close> (\<^verbatim>\<open>session.rs\<close>: sending,
    timers); \<^verbatim>\<open>Session_Receive\<close> and \<^verbatim>\<open>Session_Safety\<close> prove the operations of the receiving side safe,
    \<^verbatim>\<open>Session_Send\<close> the flush, against a locale for the transport closure, and \<^verbatim>\<open>Session_Run\<close> composes the
    operations into runs.
  \<^item> \<^verbatim>\<open>Rmp\<close>: readers and writers, the crate \<^verbatim>\<open>rmp\<close> as a parameter with its laws (locale \<open>rmp_lib\<close>), interpreted by the MessagePack format.
    \<^verbatim>\<open>Tox_Proto\<close> (\<^verbatim>\<open>tox-proto/src/lib.rs\<close>: a codec is a record with the methods of the three traits, one definition per
    implementation) and \<^verbatim>\<open>Tox_Derive\<close> (\<^verbatim>\<open>tox-proto-derive/src\<close>: what the macro expands to, as functions of fields and variants);
    \<^verbatim>\<open>Tox_Proto_Laws\<close> and \<^verbatim>\<open>Tox_Derive_Laws\<close> prove the contract \<open>codec_ok\<close> for each of them, and the locale \<open>tox_codec\<close> what
    follows from it. \<^verbatim>\<open>Packet_Codecs\<close> and \<^verbatim>\<open>Dag_Codecs\<close> are the derived codecs of the transport and of the history.
  \<^item> \<^verbatim>\<open>Iblt\<close> (\<^verbatim>\<open>tox-reconcile/src/iblt.rs\<close>).
  \<^item> \<^verbatim>\<open>Identity\<close> (\<^verbatim>\<open>merkle-tox-core/src/identity.rs\<close>); \<^verbatim>\<open>Identity_Trust\<close> analyses both recursive searches as one search
    over trust chains, in a locale interpreted for expiry times and for permission bits, and states the
    laws of the cache as a locale; \<^verbatim>\<open>Identity_Run\<close> composes the operations into runs.
  \<^item> \<^verbatim>\<open>Cas\<close> (\<^verbatim>\<open>merkle-tox-core/src/cas.rs\<close>).
  \<^item> \<^verbatim>\<open>Dag\<close> (\<^verbatim>\<open>merkle-tox-core/src/dag.rs\<close>: types, hashing, validation) and \<^verbatim>\<open>Dag_Spec\<close>, the rules as predicates on a
    history; its locale \<open>history_lookup\<close> states what validation asks of a store and proves validation exact.
  \<^item> \<^verbatim>\<open>Node_Store\<close> (\<^verbatim>\<open>testing/store.rs\<close>, \<^verbatim>\<open>EngineStore\<close> and \<^verbatim>\<open>PendingCache\<close> of \<^verbatim>\<open>engine/mod.rs\<close>); \<^verbatim>\<open>Dag_Run\<close> interprets the
    locales \<open>memoised\<close> and \<open>history_store\<close> for both stores.
  \<^item> \<^verbatim>\<open>Sync_Session\<close> (\<^verbatim>\<open>engine/session/\<close>): queues, sketches, shards and puzzles of a session with a peer, over any store of the trait.
  \<^item> \<^verbatim>\<open>Crypto\<close> (\<^verbatim>\<open>crypto.rs\<close>), \<^verbatim>\<open>Dag_Wire\<close> (the wire form in \<^verbatim>\<open>dag.rs\<close>), \<^verbatim>\<open>Conversation\<close> (\<^verbatim>\<open>engine/conversation.rs\<close>) and
    \<^verbatim>\<open>Ratchet\<close>, its analysis.
  \<^item> \<^verbatim>\<open>Key_Intake\<close> (the state and the effects of the engine, and the keys a node brings), \<^verbatim>\<open>Side_Effects\<close>
    (\<^verbatim>\<open>engine/processor/side_effects.rs\<close>) and \<^verbatim>\<open>Admission\<close> (\<^verbatim>\<open>engine/processor/verification.rs\<close>); \<^verbatim>\<open>Admission_Run\<close> composes
    them into runs of the engine and \<^verbatim>\<open>Admission_Checks\<close> states what a node has to pass.
  \<^item> \<^verbatim>\<open>Samples\<close>: concrete instances of the parameters and concrete nodes, for the witnesses.

  \<^bold>\<open>How state and operations correspond.\<close> A struct is a record whose fields carry the names of the code
  (with a prefix where records share a name); \<^verbatim>\<open>&mut self\<close> is a record passed in and returned. A
  method that can panic (index out of range, \<^verbatim>\<open>unwrap\<close>, checked subtraction, \<^verbatim>\<open>Duration\<close> conversion)
  returns an option; a \<^verbatim>\<open>Result\<close> is a sum type. Closures and trait objects are function arguments:
  the transport closure of \<^verbatim>\<open>flush_packets\<close> has a state of its own, the random
  numbers, the clocks, \<^verbatim>\<open>blake3\<close>, the signature scheme, the ciphers, the compression, \<^verbatim>\<open>rmp\<close>, the \<^verbatim>\<open>lru\<close> caches and the \<^verbatim>\<open>bao\<close> decoder are parameters; \<open>crypto_laws\<close> lists what is assumed of the primitives. The session
  and the history are modelled for any codec; the codec theories define the one they use and discharge what is assumed of it
  (C29, C33). A
  \<^verbatim>\<open>HashMap\<close> is a list of entries with distinct keys; where the code iterates over one, the runs may
  reorder it.

  \<^bold>\<open>What is shown.\<close> C1 to C4: in every run the session's
  invariant holds, no packet makes it panic except by a clock overflow (\<open>pong_overflow_panics\<close>) or a panic of the envelope
  decoder (C30), every
  flush ends and sends only genuine packets. C5 and C6: the path
  of a message from fragments to acknowledgements. C7: the scheduler.
  C8 and C9: the quota, under every interleaving of threads, the first
  for a capacity and calls that do not wrap around.
  C10: timing. C11 to C14: who may act
  for whom. C15: fetching blobs. C16 to C18: the rules of the
  history as the code checks them, the stores, and the verified nodes of any run without key rotations. C19: what every verified node
  has passed. C22: effective timestamps. C23: the keys of the wire form. C28,
  C29, C32 and C33: the codec, alone and composed with fragmentation,
  hashing, signing and the wire form. C24: the ratchet. C26 and
  C27: set reconciliation. C34 and C35: the congestion controllers.
  C37 to C40: the sessions that bring two histories into step. C20 and C21,
  C25, C30, C31, C36 and the end of C40 state behaviours a maintainer should know
  about. Between them stand further theorems without a number: fragmentation, padding, the search for a sender, the sizes of packets, structs with more fields, panics and lost messages on hostile input, negative acknowledgements, the accounting of acknowledgements, queueing and expiry of messages,
  the steps of the scheduler, searches in bit sets, packing with any codec, soft anchors on content nodes, the keys after an exception node,
  wakeups, the priorities of the quota, AIMD and pacing, timeouts of BBRv1, votes on difficulty, counts and masks, the map, the message types, and
  the tables of the sketch.

  \<^bold>\<open>Loops, fuel and bounds.\<close> Loops are structural recursion or functions with a measure. The main
  loop of \<^verbatim>\<open>flush_packets\<close> carries fuel: \<open>data_fuel\<close> bounds its rounds by the work queued
  (retransmissions, flights, unsent fragments), and C3 proves that it is enough for every
  reachable session, so the fuel never cuts a run short. The peeling loop of the sketch is a function with a termination proof. Its index loop is a
  \<^verbatim>\<open>partial_function\<close>: the code draws until it has enough different indices, and C27 states exactly when it ends. The recursions over
  ancestors (distance, chain of soft anchors, effective timestamp) carry fuel; C16, C17 and
  \<open>effective_timestamp_exact\<close> prove that a fuel above the ranks of the history is enough. The walk that collects
  administrative ancestors and the retries of waiting nodes carry fuel as well, and running out of it stands for not
  returning: the theorems about admission hold for every call that returns.

  \<^bold>\<open>Abstractions.\<close> \<^verbatim>\<open>usize\<close> values are naturals. The sums and products of the quota, whose amounts a caller chooses, wrap
  around at \<open>2 ^ 64\<close>, as without overflow checks; the runs of the session assume a capacity below \<open>2 ^ 63\<close> and data packets below \<open>2 ^ 47\<close> bytes, for which nothing wraps.
  Other sums are of lengths of data in memory and do not reach \<open>2 ^ 64\<close>; their overflow is not modelled, while every subtraction that could
  underflow is. The \<^verbatim>\<open>u32\<close> counters of probes and retransmissions are naturals. \<^verbatim>\<open>u64\<close> masks are words, \<^verbatim>\<open>i64\<close>
  timestamps and \<^verbatim>\<open>i32\<close> counters are integers with a range check, ids wrap at \<open>2 ^ 32\<close>. Positive and negative
  zero are identified in \<^verbatim>\<open>Float32\<close>. If a closure passed to the scheduler would panic on any scheduled
  message, the model counts the call as a panic, which is pessimistic. The quota is one value in the
  session model, its concurrency is in \<^verbatim>\<open>Quota\<close>; \<^verbatim>\<open>set_quota\<close> is not part of the runs because it breaks
  the accounting (it ignores whether the new quota has room and never releases at the old one).

  A reader of the codec returns its result with the bytes it left, or panics, and the session and the wire form pass such a panic on; error messages, the memory allocated for a
  length a peer claims and the depth of the stack are left out. Floats are bit patterns. A locked value is its content.

  Of the engine's state the fields that processing uses are kept; a \<^verbatim>\<open>Mutex\<close> is its content. The runs of the engine
  assume that hashes do not collide, that the application writes only nodes the engine has, and verified only those that are,
  and that it drops the cache after writing. The rotation of keys that a revocation or a pulse makes this device perform authors nodes: it is a parameter, and the runs
  are those in which none takes place.

  \<^bold>\<open>Not modelled.\<close> The authoring of nodes, the dispatch of
  protocol messages and the scheduling of \<^verbatim>\<open>merkle-tox-core\<close>, and the programs above it: storage engines
  (file system, SQL), the C bindings \<^verbatim>\<open>toxcore\<close>, the user interface \<^verbatim>\<open>toxxi\<close> and the bots.
\<close>

section \<open>A concrete instance of the hash functions\<close>

text \<open>
  The library \<^verbatim>\<open>blake3\<close> is a parameter of the model. The witnesses of the properties that depend on
  it use this instance, whose stream counts upwards.
\<close>

definition sample_blake3 :: blake3 where
  "sample_blake3 = \<lparr>b3_derive_key = (\<lambda>_ k. k), b3_keyed_hash = (\<lambda>_ d. d), b3_keyed_xof = (\<lambda>_ _ n. of_nat (n div 4))\<rparr>"

lemma sample_stream: "b3_keyed_xof sample_blake3 k d = (\<lambda>n. of_nat (n div 4))"
  by (simp add: sample_blake3_def)

lemma sample_draw:
  "draw (\<lambda>n. of_nat (n div 4)) 4 0 = 0" "draw (\<lambda>n. of_nat (n div 4)) 4 1 = 1"
  "draw (\<lambda>n. of_nat (n div 4)) 4 2 = 2" "draw (\<lambda>n. of_nat (n div 4)) 4 3 = 3"
  by (simp_all add: draw_def upt_conv_Cons)

lemma sample_draws: "draws_enough sample_blake3 (sketch_new_keyed 4 None) nid"
proof -
  have "{..<4 :: nat} = {0, 1, 2, 3}" by auto
  then have "draw (\<lambda>n. of_nat (n div 4)) 4 ` {..<4} = {0, 1, 2, 3}"
    by (simp only: image_insert image_empty sample_draw)
  then have "card (draw (\<lambda>n. of_nat (n div 4)) 4 ` {..<4}) = 4" by simp
  then show ?thesis
    unfolding draws_enough_def sample_stream by (intro exI [of _ 4]) (simp add: sketch_new_keyed_cells)
qed

lemma sample_indices: "get_indices sample_blake3 (sketch_new_keyed 4 None) nid = Some [0, 1, 2, 3]"
proof -
  let ?f = "\<lambda>n. of_nat (n div 4) :: u8"
  have "index_loop ?f 4 4 0 [] = index_loop ?f 4 4 1 [0]"
    by (subst index_loop.simps) (simp add: Let_def sample_draw)
  also have "\<dots> = index_loop ?f 4 4 2 [0, 1]"
    by (subst index_loop.simps) (simp add: Let_def sample_draw [unfolded One_nat_def] numeral_2_eq_2)
  also have "\<dots> = index_loop ?f 4 4 3 [0, 1, 2]"
    by (subst index_loop.simps) (simp add: Let_def sample_draw)
  also have "\<dots> = index_loop ?f 4 4 4 [0, 1, 2, 3]"
    by (subst index_loop.simps) (simp add: Let_def sample_draw)
  also have "\<dots> = Some [0, 1, 2, 3]" by (subst index_loop.simps) simp
  finally show ?thesis by (simp add: get_indices_def sample_stream sketch_new_keyed_cells)
qed

lemma sample_add_entry:
  assumes "length cells = 4" and "\<bar>d\<bar> = 1" and "\<forall>c \<in> set cells. \<bar>cell_count c\<bar> \<le> 1"
  shows "sketch_update sample_blake3 ((sketch_new_keyed 4 None)\<lparr>sk_cells := cells\<rparr>) nid d \<noteq> None"
proof -
  let ?sk = "(sketch_new_keyed 4 None)\<lparr>sk_cells := cells\<rparr>"
  have "same_shape_sk (sketch_new_keyed 4 None) ?sk" using assms(1) by (simp add: sketch_new_keyed_cells)
  from same_shape_get(1) [OF this] have g: "get_indices sample_blake3 ?sk nid = Some [0, 1, 2, 3]"
    by (simp add: sample_indices)
  obtain c0 c1 c2 c3 where c: "cells = [c0, c1, c2, c3]"
    using assms(1) by (auto simp: length_Suc_conv eval_nat_numeral)
  have upd: "\<exists>c'. cell_update nid h d c = Some c'" if "c \<in> set cells" for c h
  proof -
    have "\<bar>cell_count c\<bar> \<le> 1" using that assms(3) by blast
    then have "i32 (cell_count c + d) = Some (cell_count c + d)" using assms(2) by (auto simp: i32_def)
    then show ?thesis by (simp add: cell_update_def)
  qed
  show ?thesis
    using upd [of c0 "get_checksum sample_blake3 ?sk nid"] upd [of c1 "get_checksum sample_blake3 ?sk nid"]
      upd [of c2 "get_checksum sample_blake3 ?sk nid"] upd [of c3 "get_checksum sample_blake3 ?sk nid"]
    by (auto simp: sketch_update_def g [unfolded c] c)
qed

text \<open>The table of one id: it is defined, has the expected cells, and can be emptied again.\<close>

lemma sample_insert:
  obtains sk1 where "sketch_insert sample_blake3 (sketch_new_keyed 4 None) (replicate 32 7) = Some sk1"
    "sk1 = (sketch_new_keyed 4 None)\<lparr>sk_cells := sk_cells sk1\<rparr>" "length (sk_cells sk1) = 4"
    "\<forall>c \<in> set (sk_cells sk1). \<bar>cell_count c\<bar> \<le> 1"
proof -
  let ?sk = "sketch_new_keyed 4 None" and ?x = "replicate 32 7 :: bytes"
  have sk: "?sk = ?sk\<lparr>sk_cells := replicate 4 cell_default\<rparr>" by (simp add: sketch_new_keyed_def)
  have "sketch_update sample_blake3 (?sk\<lparr>sk_cells := replicate 4 cell_default\<rparr>) ?x 1 \<noteq> None"
    by (rule sample_add_entry) (simp_all add: cell_default_def)
  then obtain sk1 where sk1: "sketch_insert sample_blake3 ?sk ?x = Some sk1"
    using sk by (auto simp: sketch_insert_def)
  then have eq: "sk1 = ?sk\<lparr>sk_cells := add_entry sample_blake3 ?sk (?x, 1) (sk_cells ?sk)\<rparr>"
    by (simp add: sketch_insert_def sketch_update_eq)
  have "\<forall>c \<in> set (sk_cells sk1). \<bar>cell_count c\<bar> \<le> 1"
    by (auto simp: eq add_entry_def add_at_def cell_add_def sketch_new_keyed_cells cell_default_def)
  then show ?thesis by (intro that [OF sk1]) (simp_all add: eq sketch_new_keyed_cells)
qed

lemma sample_round_trip:
  "\<exists>sk1 sk2. sketch_insert sample_blake3 (sketch_new_keyed 4 None) (replicate 32 7) = Some sk1 \<and>
     sketch_remove sample_blake3 sk1 (replicate 32 7) = Some sk2"
proof -
  obtain sk1 where sk1: "sketch_insert sample_blake3 (sketch_new_keyed 4 None) (replicate 32 7) = Some sk1"
    "sk1 = (sketch_new_keyed 4 None)\<lparr>sk_cells := sk_cells sk1\<rparr>" "length (sk_cells sk1) = 4"
    "\<forall>c \<in> set (sk_cells sk1). \<bar>cell_count c\<bar> \<le> 1" by (rule sample_insert)
  have "sketch_update sample_blake3 sk1 (replicate 32 7) (- 1) \<noteq> None"
    by (subst sk1(2), rule sample_add_entry) (use sk1 in simp_all)
  then show ?thesis using sk1(1) by (auto simp: sketch_remove_def)
qed

lemma sample_difference:
  "\<exists>skA d. insert_all sample_blake3 (sketch_new_keyed 4 None) [replicate 32 7] = Some skA \<and>
     subtract skA (sketch_new_keyed 4 None) = Some (Inr d)"
proof -
  obtain sk1 where sk1: "sketch_insert sample_blake3 (sketch_new_keyed 4 None) (replicate 32 7) = Some sk1"
    "sk1 = (sketch_new_keyed 4 None)\<lparr>sk_cells := sk_cells sk1\<rparr>" "length (sk_cells sk1) = 4"
    "\<forall>c \<in> set (sk_cells sk1). \<bar>cell_count c\<bar> \<le> 1" by (rule sample_insert)
  obtain cs where "subtract_cells (sk_cells sk1) (replicate 4 cell_default) = Some cs"
    using subtract_cells_defined [of "sk_cells sk1" "replicate 4 cell_default"] sk1(4)
    by (force simp: cell_default_def)
  then show ?thesis using sk1(1,3) by (auto simp: subtract_def sketch_new_keyed_cells)
qed

lemma sample_decode:
  "\<exists>d stats sk'. decode sample_blake3 d = Some (Inr ([replicate 32 7], [], stats), sk') \<and> cells_wf (sk_cells d) \<and> cells_small 1 (sk_cells d)"
proof -
  let ?sk = "sketch_new_keyed 4 None" and ?x = "replicate 32 7 :: bytes"
  let ?d = "?sk\<lparr>sk_cells := encode sample_blake3 ?sk [(?x, 1)] (replicate 4 cell_default)\<rparr>"
  have sh: "same_shape_sk ?sk ?d" by (simp add: sketch_new_keyed_cells)
  have "sk_cells ?d = encode sample_blake3 ?d [(?x, 1)] (replicate (length (sk_cells ?d)) cell_default)"
    by (simp add: same_shape_encode [OF sh])
  then have "\<exists>stats sk'. decode sample_blake3 ?d = Some (Inr ([?x], [], stats), sk')"
    using decode_single [of sample_blake3 ?d ?x "[0, 1, 2, 3]" 1] by (simp add: same_shape_get(1) [OF sh] sample_indices)
  moreover have "cells_wf (sk_cells ?d)" using encode_wf [OF zero_wf, of "[(?x, 1)]"] by simp
  moreover have "cells_small 1 (sk_cells ?d)"
    by (auto simp: cells_small_def encode_def add_entry_def add_at_def cell_add_def cell_default_def)
  ultimately show ?thesis by blast
qed

section \<open>Runs of a session\<close>

text \<open>A session at its creation, for the witnesses.\<close>

lemma fresh_reachable:
  "sess_reachable aimd_ops (\<lambda>_ data. Inr data) (\<lambda>_. Some None) aimd_new 0
     (with_congestion_control_and_quota_at aimd_new (quota_new 100000) 0 7)"
  by (rule sess_reachable.start) (simp add: quota_ok_def quota_new_def)

lemma fresh_horizon: "in_horizon 0 5"
  by (simp add: in_horizon_def rtt_horizon_def nanos_per_sec_def)

text \<open>
  C1. In every state a run of the session reaches, whatever packets arrive in whatever order, the
  invariant of both halves holds: the bytes counted as buffered are the sum of the reassemblers'
  reservations, within the session's limit and covered by the shared quota; every message is
  well-formed; the bytes of fragments in flight are covered by \<^verbatim>\<open>in_flight\<close>; the scheduler holds
  exactly the messages of \<^verbatim>\<open>outgoing\<close>; the concurrency limits hold.
\<close>

theorem session_invariant:
  assumes "sess_reachable ops serialize deserialize cc t0 s"
  shows "sess_ok t0 s"
  using assms by (rule sess_reachable_ok)

theorem session_invariant_witness:
  "sess_ok 0 (with_congestion_control_and_quota_at aimd_new (quota_new 100000) 0 7)"
  by (rule session_invariant [OF fresh_reachable])

text \<open>
  C2. A packet makes a reachable session panic in two ways only: the clock arithmetic of a ping or pong overflows, or
  the decoder of envelopes panics on the bytes that the packet completes (the theorem on long maps shows
  that it can). For every other packet of less than \<open>2 ^ 47\<close> bytes \<^verbatim>\<open>handle_packet\<close> returns, keeps the invariant, and moves the shared
  quota by exactly what it moves the session's own byte count.
\<close>

theorem handle_packet_safe:
  assumes "sess_reachable ops serialize deserialize cc t0 s" and "in_horizon t0 now"
    and "input_ok sys_ms jitter p" and "\<not> decoder_panics deserialize p s"
  shows "\<exists>rs s'. handle_packet ops deserialize sys_ms jitter p now s = Some (rs, s') \<and> sess_ok t0 s' \<and> balanced s s'"
  by (rule handle_packet_ok [OF sess_reachable_ok [OF assms(1)] assms(2,3), of ops deserialize]) (use assms(4) in blast)+

theorem handle_packet_safe_witness:
  "\<exists>rs s'. handle_packet aimd_ops (\<lambda>_. Some None) 1000 3 (Data 9 0 2 [1, 2, 3]) 5
     (with_congestion_control_and_quota_at aimd_new (quota_new 100000) 0 7) = Some (rs, s') \<and>
     sess_ok 0 s' \<and> balanced (with_congestion_control_and_quota_at aimd_new (quota_new 100000) 0 7) s'"
proof (rule handle_packet_safe [OF fresh_reachable fresh_horizon])
  show "\<not> decoder_panics (\<lambda>_. Some None) (Data 9 0 2 [1, 2, 3])
      (with_congestion_control_and_quota_at aimd_new (quota_new 100000) 0 7)"
    by (auto split: option.splits sum.splits bool.splits)
qed simp



text \<open>
  C4. Every packet a flush produces is genuine: a data packet carries exactly one fragment of a
  queued message with its index and count, an acknowledgement or negative acknowledgement is the
  one built from the reassembler's current state, a datagram is one of the queue; a flush never
  sends a pong.
\<close>

theorem flush_sends_genuine:
  assumes "sess_reachable ops serialize deserialize cc t0 s" and "t0 \<le> now"
  shows "\<exists>s' ps. get_packets_to_send ops now now_ms s = Some (s', ps) \<and> list_all (genuine s) ps"
proof -
  have out: "out_ok t0 s" using sess_reachable_ok [OF assms(1)] by (simp add: sess_ok_def)
  show ?thesis
    unfolding get_packets_to_send_def
    by (rule collector.flush_packets_ok [OF out assms(2), of "genuine s" "[]" ops now_ms]) auto
qed

theorem flush_sends_genuine_witness:
  "\<exists>s' ps. get_packets_to_send aimd_ops 5 1000
     (with_congestion_control_and_quota_at aimd_new (quota_new 100000) 0 7) = Some (s', ps) \<and>
     list_all (genuine (with_congestion_control_and_quota_at aimd_new (quota_new 100000) 0 7)) ps"
  by (rule flush_sends_genuine [OF fresh_reachable]) simp

section \<open>The path of a message\<close>

lemma reassembled:
  assumes "om_new mt data mtu now = Some (Inr m)" and "0 < mtu" and "data \<noteq> []"
    and "div_ceil (length data) mtu < 65536" and "set js = {..<num_fragments m}"
  shows "\<exists>b. fb_adds (fb_new (num_fragments m)) (map (\<lambda>i. (i, om_get_fragment m i)) js) = Some b \<and>
    fb_is_complete b \<and> fb_assemble b = Some data"
proof -
  have wf: "om_wf 0 0 m" and num: "num_fragments m = div_ceil (length data) mtu" and data: "om_data m = data"
    using om_new_wf [OF assms(1,2,4)] by simp_all
  have core: "om_core 0 0 m" by (rule om_wf_core [OF wf])
  have "0 < num_fragments m" using div_ceil_bounds(1) [OF assms(2), of "length data"] assms(3) by (cases "num_fragments m") (simp_all add: num)
  moreover have "num_fragments m \<le> MAX_FRAGMENTS_PER_MESSAGE"
    using om_core_lengths(1) [OF core] by (simp add: limits)
  ultimately show ?thesis
    by (rule fb_adds_assemble [OF _ _ assms(5), of "om_get_fragment m"])
      (use concat_fragments [OF core] data in auto)
qed

text \<open>
  Fragmentation and reassembly are inverse: whatever the order in which the fragments of a
  message arrive and however often each arrives, as long as each arrives at least once, the
  receiver's buffer is complete and assembles to the sender's bytes.
\<close>

theorem fragments_reassemble:
  assumes "om_new mt data mtu now = Some (Inr m)" and "0 < mtu" and "data \<noteq> []"
    and "div_ceil (length data) mtu < 65536" and "set js = {..<num_fragments m}"
  shows "\<exists>b. fb_adds (fb_new (num_fragments m)) (map (\<lambda>i. (i, om_get_fragment m i)) js) = Some b \<and>
    fb_is_complete b \<and> fb_assemble b = Some data"
  by (rule reassembled [OF assms])

theorem fragments_reassemble_witness:
  "\<exists>m b. om_new message_type.BlobData [1, 2, 3, 4, 5] 2 0 = Some (Inr m) \<and>
     fb_adds (fb_new (num_fragments m)) (map (\<lambda>i. (i, om_get_fragment m i)) [2, 0, 2, 1]) = Some b \<and>
     fb_is_complete b \<and> fb_assemble b = Some [1, 2, 3, 4, 5]"
proof -
  obtain m where m: "om_new message_type.BlobData [1, 2, 3, 4, 5] 2 0 = Some (Inr m)" "num_fragments m = 3"
    by (simp add: om_new_def Let_def div_ceil_def MAX_FRAGMENTS_PER_MESSAGE_def)
  have "set [2, 0, 2, 1] = {..<num_fragments m}" using m(2) by auto
  from fragments_reassemble [OF m(1) _ _ _ this] m(1) show ?thesis by (auto simp: div_ceil_def)
qed

text \<open>An index that a receiver's acknowledgement covers is one the sender reads from it.\<close>

lemma ack_names_covers:
  assumes "num_fragments m \<le> 1024" and "ack_base_index a \<le> 1024"
  shows "ack_names m (ack_base_index a) (ack_bitmask a) = {i. i < num_fragments m \<and> ack_covers a i}"
proof -
  have "(ack_base_index a + 1 + j) mod 65536 = ack_base_index a + 1 + j" if "j < 64" for j
    using assms(2) that by simp
  then have "mask_names (ack_base_index a) (ack_bitmask a) =
      {ack_base_index a + 1 + j | j. j < 64 \<and> bit (ack_bitmask a) j}"
    unfolding mask_names_def by (metis (no_types, lifting))
  then show ?thesis by (auto simp: ack_names_def ack_covers_def)
qed

text \<open>
  C5. Acknowledgements mean the same at both ends: when the sender processes the acknowledgement
  a receiver builds for the same message, it marks as delivered, besides what it knew, exactly the
  fragments the receiver has stored, up to 64 past the receiver's first hole. \<^verbatim>\<open>on_ack\<close> does not
  panic and keeps the message well-formed.
\<close>

theorem ack_end_to_end:
  assumes "om_wf t0 dlv m" and "mr_wf r" and "mr_total_fragments r = num_fragments m"
  shows "\<exists>res m'. om_on_ack m (ack_base_index (mr_create_ack r w)) (ack_bitmask (mr_create_ack r w)) now dlv = Some (res, m') \<and>
    om_wf t0 dlv m' \<and>
    acked m' = acked m \<union> {i \<in> stored (mr_buffer r). i \<le> fb_base_index (mr_buffer r) + 64}"
proof -
  let ?a = "mr_create_ack r w"
  have fb: "fb_wf (mr_buffer r)" "fb_total_fragments (mr_buffer r) = num_fragments m"
    using assms(2,3) by (simp_all add: mr_wf_def)
  have num: "num_fragments m \<le> 1024" by (rule om_core_lengths(1) [OF om_wf_core [OF assms(1)]])
  have "fb_base_index (mr_buffer r) \<le> num_fragments m" using base_index_facts(1) [OF fb(1)] fb(2) by simp
  then have base: "ack_base_index ?a \<le> 1024" using num by (simp add: mr_create_ack_def Let_def)
  have names: "ack_names m (ack_base_index ?a) (ack_bitmask ?a) = {i \<in> stored (mr_buffer r). i \<le> fb_base_index (mr_buffer r) + 64}"
    using ack_names_covers [OF num base] stored_less [OF fb(1)] fb(2)
    by (auto simp: mr_create_ack_covers [OF assms(2)])
  show ?thesis
    by (rule om_on_ack_ok [OF assms(1), of "ack_base_index ?a" "ack_bitmask ?a" now, unfolded names]) blast
qed

lemma small_message: "\<exists>m. om_new message_type.BlobData [1, 2, 3, 4, 5] 2 0 = Some (Inr m) \<and> num_fragments m = 3 \<and> om_wf 0 0 m"
proof -
  obtain m where m: "om_new message_type.BlobData [1, 2, 3, 4, 5] 2 0 = Some (Inr m)" "num_fragments m = 3"
    by (simp add: om_new_def Let_def div_ceil_def MAX_FRAGMENTS_PER_MESSAGE_def)
  then show ?thesis using om_new_wf(1) [OF m(1)] by (auto simp: div_ceil_def)
qed

lemma small_reassembler: "\<exists>r. mr_new 9 3 Bulk 0 0 = Inr r \<and> mr_total_fragments r = 3 \<and> mr_wf r"
  by (auto simp: mr_new_def MAX_FRAGMENTS_PER_MESSAGE_def intro: mr_new_wf [of 9 3 Bulk 0 0])

theorem ack_end_to_end_witness:
  "\<exists>m r res m'. om_wf 0 0 m \<and> mr_wf r \<and>
     om_on_ack m (ack_base_index (mr_create_ack r 1)) (ack_bitmask (mr_create_ack r 1)) 5 0 = Some (res, m') \<and>
     acked m' = acked m \<union> {i \<in> stored (mr_buffer r). i \<le> fb_base_index (mr_buffer r) + 64}"
proof -
  obtain m where m: "num_fragments m = 3" "om_wf 0 0 m" using small_message by blast
  obtain r where r: "mr_total_fragments r = 3" "mr_wf r" using small_reassembler by blast
  show ?thesis using ack_end_to_end [OF m(2) r(2), of 1 5] m r by auto
qed

text \<open>
  What \<^verbatim>\<open>on_ack\<close> reports is exact, for any acknowledgement a peer can send: the delivered bytes
  are those of the fragments that were sent and are named for the first time, each counted once,
  and the bytes reported as having left the flight are exactly the difference of the bytes in
  flight before and after.
\<close>

theorem on_ack_accounting:
  assumes "om_wf t0 dlv m"
  shows "\<exists>res m'. om_on_ack m base bitmask now dlv = Some (res, m') \<and>
    newly_delivered_bytes res = (\<Sum>i \<in> ack_names m base bitmask - acked m. sent_bytes m i) \<and>
    om_inflight m' + newly_completed_in_flight_bytes res = om_inflight m"
  by (rule om_on_ack_ok [OF assms, of base bitmask now]) blast

theorem on_ack_accounting_witness:
  "\<exists>m res m'. om_wf 0 0 m \<and> om_on_ack m 65000 0xFFFF 5 0 = Some (res, m') \<and>
     newly_delivered_bytes res = (\<Sum>i \<in> ack_names m 65000 0xFFFF - acked m. sent_bytes m i) \<and>
     om_inflight m' + newly_completed_in_flight_bytes res = om_inflight m"
proof -
  obtain m where m: "om_wf 0 0 m" using small_message by blast
  from on_ack_accounting [OF m, of 65000 "0xFFFF" 5] m show ?thesis by blast
qed

text \<open>
  C6. \<^verbatim>\<open>FragmentBuffer\<close> refines a write-once map: adding a fragment stores it when its index is in
  range and empty and changes nothing otherwise, an index out of range is refused, and the answer
  says whether every fragment is now present. The call never panics and keeps the invariant
  (received mask, count, sizes, first hole and highest index all agree with the stored fragments).
\<close>

theorem fragment_buffer_refines:
  assumes "fb_wf b"
  shows "\<exists>r b'. fb_add_fragment b idx data = Some (r, b') \<and> fb_wf b' \<and>
    fb_stored b' = write_once (fb_stored b) (fb_total_fragments b) idx data \<and>
    r = (if idx \<ge> fb_total_fragments b then Inl InvalidFragmentIndex
         else Inr (dom (fb_stored b') = {..<fb_total_fragments b}))"
proof -
  obtain r b' where b': "fb_add_fragment b idx data = Some (r, b')" "fb_wf b'"
    by (rule fb_add_fragment_wf [OF assms])
  then show ?thesis using fb_add_fragment_refines [OF assms b'(1)] by blast
qed

theorem fragment_buffer_refines_witness:
  "\<exists>r b'. fb_add_fragment (fb_new 2) 1 [7, 7] = Some (r, b') \<and> fb_wf b' \<and>
    fb_stored b' = write_once (fb_stored (fb_new 2)) (fb_total_fragments (fb_new 2)) 1 [7, 7] \<and>
    r = (if 1 \<ge> fb_total_fragments (fb_new 2) then Inl InvalidFragmentIndex
         else Inr (dom (fb_stored b') = {..<fb_total_fragments (fb_new 2)}))"
  by (rule fragment_buffer_refines [OF fb_new_wf]) (simp_all add: MAX_FRAGMENTS_PER_MESSAGE_def)

text \<open>
  A negative acknowledgement lists exactly the holes: the missing indices from the base up to
  the highest index received, in order, cut after 128; none when there is no hole.
\<close>

theorem nack_lists_holes:
  assumes "mr_wf r"
  shows "mr_create_nack r base =
    (case filter (\<lambda>i. i \<notin> stored (mr_buffer r)) [base..<fb_highest_index (mr_buffer r)] of
       [] \<Rightarrow> None
     | missing \<Rightarrow> Some \<lparr>nack_message_id = mr_message_id r, nack_missing_indices = take 128 missing\<rparr>)"
  using assms by (rule mr_create_nack_eq)

theorem nack_lists_holes_witness:
  "\<exists>r. mr_wf r \<and> mr_create_nack r 0 =
    (case filter (\<lambda>i. i \<notin> stored (mr_buffer r)) [0..<fb_highest_index (mr_buffer r)] of
       [] \<Rightarrow> None
     | missing \<Rightarrow> Some \<lparr>nack_message_id = mr_message_id r, nack_missing_indices = take 128 missing\<rparr>)"
proof -
  obtain r where "mr_wf r" using small_reassembler by blast
  with nack_lists_holes [OF this, of 0] show ?thesis by blast
qed

text \<open>
  \<^verbatim>\<open>send_message_at\<close> never panics and answers by cases: \<^verbatim>\<open>QueueFull\<close> exactly when 32 messages are
  outstanding (a free id is always found otherwise), the serializer's error, \<^verbatim>\<open>MessageTooLarge\<close>
  when the envelope exceeds 1 MiB, and otherwise a fresh id under which the envelope is queued.
\<close>

theorem send_message_result:
  assumes "sess_reachable ops serialize deserialize cc t0 s"
  shows "\<exists>r s'. send_message_at serialize mt data now s = Some (r, s') \<and> sess_ok t0 s' \<and>
    r = (if length (s_outgoing s) \<ge> 32 then Inl QueueFull
         else case serialize mt data of
           Inl e \<Rightarrow> Inl (SerializationError e)
         | Inr payload \<Rightarrow>
             if length payload > MAX_MESSAGE_SIZE then Inl MessageTooLarge
             else Inr (find_free_id 32 (s_outgoing s) (s_next_message_id s))) \<and>
    (\<forall>mid. r = Inr mid \<longrightarrow> fm_get (s_outgoing s) mid = None \<and>
       (\<exists>msg. serialize mt data = Inr (om_data msg) \<and> fm_get (s_outgoing s') mid = Some msg))"
proof -
  have ok: "sess_ok t0 s" by (rule sess_reachable_ok [OF assms])
  then have out: "out_ok t0 s" by (simp add: sess_ok_def)
  show ?thesis
    by (rule send_message_at_ok [OF out, of serialize mt data now])
      (use ok in \<open>fastforce simp: sess_ok_def same_in_ok\<close>)
qed

theorem send_message_result_witness:
  "\<exists>r s'. send_message_at (\<lambda>_ data. Inr data) message_type.BlobData [1, 2] 5
      (with_congestion_control_and_quota_at aimd_new (quota_new 100000) 0 7) = Some (r, s') \<and>
    r = Inr (find_free_id 32 [] 7) \<and> fm_get (s_outgoing s') (find_free_id 32 [] 7) \<noteq> None"
proof -
  from send_message_result [OF fresh_reachable, of message_type.BlobData "[1, 2]" 5]
  show ?thesis
    by (elim exE conjE)
      (simp add: with_congestion_control_and_quota_at_def fm_new_def MAX_MESSAGE_SIZE_def, blast)
qed

text \<open>
  \<^verbatim>\<open>cleanup\<close> drops exactly the expired reassemblers (idle for 30 s) and the expired outgoing
  messages (no acknowledgement for their timeout or for the connection timeout), gives every
  dropped reservation back to the quota and keeps the invariant.
\<close>

theorem cleanup_expires:
  assumes "sess_reachable ops serialize deserialize cc t0 s"
  shows "\<exists>s'. cleanup now s = Some s' \<and> sess_ok t0 s' \<and> balanced s s' \<and>
    s_incoming s' = filter (\<lambda>(_, r). saturating_duration_since now (mr_last_activity r) < from_secs 30) (s_incoming s) \<and>
    s_outgoing s' = filter (\<lambda>(_, m). saturating_duration_since now (last_ack_at m) < om_timeout m \<and>
      saturating_duration_since now (last_ack_at m) < from_secs 300) (s_outgoing s)"
  by (rule cleanup_ok [OF sess_reachable_ok [OF assms], of now])
    (auto simp: REASSEMBLY_TIMEOUT_SECS_def CONNECTION_TIMEOUT_def not_le intro!: filter_cong)

theorem cleanup_expires_witness:
  "\<exists>s'. cleanup 5 (with_congestion_control_and_quota_at aimd_new (quota_new 100000) 0 7) = Some s' \<and> sess_ok 0 s'"
  using cleanup_expires [OF fresh_reachable, of 5] by blast

text \<open>
  The caller can trust \<^verbatim>\<open>next_wakeup\<close>: it returns a time that is not in the past and at most one
  hour ahead.
\<close>

theorem next_wakeup_bounds:
  assumes "sess_reachable ops serialize deserialize cc t0 s"
  shows "\<exists>t. next_wakeup ops now s = Some t \<and> now \<le> t \<and> t \<le> inst_add now (from_secs 3600)"
proof -
  have "out_ok t0 s" using sess_reachable_ok [OF assms] by (simp add: sess_ok_def)
  then show ?thesis by (rule next_wakeup_ok [of t0 s ops now]) blast
qed

theorem next_wakeup_bounds_witness:
  "\<exists>t. next_wakeup aimd_ops 5 (with_congestion_control_and_quota_at aimd_new (quota_new 100000) 0 7) = Some t \<and>
     5 \<le> t \<and> t \<le> inst_add 5 (from_secs 3600)"
  by (rule next_wakeup_bounds [OF fresh_reachable])

section \<open>Scheduling\<close>

lemma two_scheduled:
  "sched_wf (sched_update_message (sched_update_message sched_new 5 4) 6 0)"
  "deficits_bounded (sched_update_message (sched_update_message sched_new 5 4) 6 0)"
  "scheduled (sched_update_message (sched_update_message sched_new 5 4) 6 0) = {5, 6}"
  using sched_new_wf
  by (auto simp: sched_update_message_wf sched_update_message_deficits sched_new_deficits)
    (simp_all add: scheduled_def sched_new_def NUM_PRIORITIES_def)

text \<open>
  C7. The scheduler starves no one: if a scheduled message stays ready and no fragment exceeds
  16384 bytes, then among 33 consecutive calls of \<^verbatim>\<open>next_message\<close> at least one serves a message.
\<close>

theorem scheduler_progress:
  assumes "sched_wf s" and "deficits_bounded s" and "\<And>m sz. f m = Some sz \<Longrightarrow> sz \<le> 16384"
    and "m \<in> scheduled s" and "f m \<noteq> None"
  shows "\<exists>r \<in> set (sched_polls f 33 s). r \<noteq> None"
  by (rule sched_no_starvation [where f = f, OF assms(1,2) _ assms(4,5)]) (rule assms(3))

theorem scheduler_progress_witness:
  "\<exists>r \<in> set (sched_polls (\<lambda>m. if m = 5 then Some 9000 else None) 33
      (sched_update_message (sched_update_message sched_new 5 4) 6 0)). r \<noteq> None"
  by (rule scheduler_progress [OF two_scheduled(1,2), of _ 5]) (auto simp: two_scheduled(3) split: if_splits)

text \<open>
  A call of \<^verbatim>\<open>next_message\<close> picks only a scheduled message whose closure approved, keeps the
  scheduler's invariant, loses and duplicates no message on any level, and keeps every level's
  deficit between 0 and four times its largest quantum.
\<close>

theorem scheduler_step:
  assumes "sched_wf s" and "deficits_bounded s" and "\<And>m sz. f m = Some sz \<Longrightarrow> sz < 2 ^ 31"
  shows "sched_wf (snd (sched_next_message s f)) \<and> deficits_bounded (snd (sched_next_message s f)) \<and>
    (\<forall>p. queued (snd (sched_next_message s f)) p = queued s p) \<and>
    (case fst (sched_next_message s f) of None \<Rightarrow> True | Some m \<Rightarrow> m \<in> scheduled s \<and> f m \<noteq> None)"
proof -
  have "deficits_bounded (snd (sched_next_message s f))"
    by (rule sched_next_message_deficits [OF assms(1,2)]) (rule assms(3))
  then show ?thesis
    using sched_next_message_wf [OF assms(1), of f] sched_next_message_queued [OF assms(1), of f]
      sched_next_message_ready [OF assms(1), of f _ "snd (sched_next_message s f)"]
    by (cases "sched_next_message s f") (auto split: option.splits)
qed

theorem scheduler_step_witness:
  "sched_wf (snd (sched_next_message (sched_update_message (sched_update_message sched_new 5 4) 6 0) (\<lambda>m. Some 100)))"
  using scheduler_step [OF two_scheduled(1,2), of "\<lambda>m. Some 100"] by simp

section \<open>The shared quota\<close>

text \<open>
  C8. However the compare-and-exchange loops of any number of threads interleave, the counter of
  the quota is exactly the sum of what the threads hold and never exceeds the capacity, as long as the capacity is below
  \<open>2 ^ 63\<close> and no call names more than \<open>2 ^ 63\<close> bytes; the second part shows that a bound is needed: with
  anything in use, a guaranteed reservation of \<^verbatim>\<open>usize::MAX\<close> bytes is granted and makes the counter smaller.
\<close>

theorem quota_invariant:
  assumes "mx < 2 ^ 63"
  shows "(\<forall>n s. quota_small n mx s \<longrightarrow>
      used_bytes (sys_quota s) = (\<Sum>t < n. sys_held s t) \<and> used_bytes (sys_quota s) \<le> mx) \<and>
    (\<forall>u < mx. quota_reserve_guaranteed \<lparr>max_bytes = mx, used_bytes = Suc u\<rparr> (2 ^ 64 - 1)
       = (True, \<lparr>max_bytes = mx, used_bytes = u\<rparr>))"
proof (intro conjI allI impI)
  fix n s assume "quota_small n mx s"
  note inv = quota_small_inv [OF assms this]
  show "used_bytes (sys_quota s) = (\<Sum>t < n. sys_held s t)" "used_bytes (sys_quota s) \<le> mx"
    using inv by (auto simp: quota_sys_inv_def quota_ok_def)
next
  fix u assume "u < mx"
  then have "u mod 2 ^ 64 = u" "u \<le> mx" using assms by simp_all
  then show "quota_reserve_guaranteed \<lparr>max_bytes = mx, used_bytes = Suc u\<rparr> (2 ^ 64 - 1) = (True, \<lparr>max_bytes = mx, used_bytes = u\<rparr>)"
    unfolding reservation_wraps by simp
qed

text \<open>Two threads on a quota of 1000 bytes: both load the counter, the first takes 600 bytes, the second has to start again.\<close>

definition held_600 :: quota_sys where
  "held_600 = \<lparr>sys_quota = \<lparr>max_bytes = 1000, used_bytes = 600\<rparr>,
     sys_pc = (\<lambda>_. Outside)(0 := Outside, 1 := Loading (CallReserve 200 High)), sys_held = (\<lambda>_. 0)(0 := 600)\<rparr>"

lemma held_600_run: "quota_small 2 1000 held_600"
proof -
  let ?a = "CallReserve 600 Bulk" and ?b = "CallReserve 200 High"
  define run where "run q p p' h = \<lparr>sys_quota = \<lparr>max_bytes = 1000, used_bytes = q\<rparr>, sys_pc = (\<lambda>_. Outside)(0 := p, 1 := p'),
    sys_held = (\<lambda>_. 0)(0 := h)\<rparr>" for q h :: nat and p p'
  have small: "small_calls (run q p p' h)" if "p \<in> {Outside, Loading ?a, Exchanging ?a 0}" "p' \<in> {Outside, Loading ?b, Exchanging ?b 0}" for q p p' h
    using that by (auto simp: small_calls_def run_def split: if_splits)
  have step: "quota_small 2 1000 (run q1 p1 p1' h1)"
    if "quota_small 2 1000 (run q p p' h)" "quota_step 2 (run q p p' h) (run q1 p1 p1' h1)"
      "p1 \<in> {Outside, Loading ?a, Exchanging ?a 0}" "p1' \<in> {Outside, Loading ?b, Exchanging ?b 0}" for q p p' h q1 p1 p1' h1
    by (rule quota_small.step [OF that(1,2) small [OF that(3,4)]])
  have 0: "quota_small 2 1000 (run 0 Outside Outside 0)"
    using quota_small.init [of 2 1000] by (simp add: run_def quota_sys_init_def quota_new_def fun_upd_idem)
  have 1: "quota_small 2 1000 (run 0 (Loading ?a) Outside 0)"
    by (rule step [OF 0]) (use quota_step.call [of 0 2 "run 0 Outside Outside 0" ?a] in \<open>simp_all add: run_def fun_upd_twist\<close>)
  have 2: "quota_small 2 1000 (run 0 (Loading ?a) (Loading ?b) 0)"
    by (rule step [OF 1]) (use quota_step.call [of 1 2 "run 0 (Loading ?a) Outside 0" ?b] in \<open>simp_all add: run_def\<close>)
  have 3: "quota_small 2 1000 (run 0 (Exchanging ?a 0) (Loading ?b) 0)"
    by (rule step [OF 2]) (use quota_step.load [of 0 2 "run 0 (Loading ?a) (Loading ?b) 0" ?a] in
      \<open>simp_all add: run_def quota_threshold_def fun_upd_twist\<close>)
  have 4: "quota_small 2 1000 (run 0 (Exchanging ?a 0) (Exchanging ?b 0) 0)"
    by (rule step [OF 3]) (use quota_step.load [of 1 2 "run 0 (Exchanging ?a 0) (Loading ?b) 0" ?b] in
      \<open>simp_all add: run_def quota_threshold_def\<close>)
  have 5: "quota_small 2 1000 (run 600 Outside (Exchanging ?b 0) 600)"
    by (rule step [OF 4]) (use quota_step.exchange [of 0 2 "run 0 (Exchanging ?a 0) (Exchanging ?b 0) 0" ?a 0] in
      \<open>simp_all add: run_def fun_upd_twist\<close>)
  have "quota_small 2 1000 (run 600 Outside (Loading ?b) 600)"
    by (rule step [OF 5]) (use quota_step.exchange_fail [of 1 2 "run 600 Outside (Exchanging ?b 0) 600" ?b 0] in
      \<open>simp_all add: run_def\<close>)
  then show ?thesis by (simp add: run_def held_600_def)
qed

theorem quota_invariant_witness:
  "quota_small 2 1000 held_600 \<and> sys_held held_600 0 = 600 \<and>
   used_bytes (sys_quota held_600) = (\<Sum>t < 2. sys_held held_600 t) \<and> used_bytes (sys_quota held_600) \<le> 1000"
proof -
  have "(1000 :: nat) < 2 ^ 63" by simp
  from quota_invariant [OF this] held_600_run show ?thesis by (simp add: held_600_def)
qed

text \<open>
  C9. Every interleaved step refines the atomic specification: it leaves the counter alone or
  performs one whole \<^verbatim>\<open>reserve\<close>, \<^verbatim>\<open>reserve_guaranteed\<close> or \<^verbatim>\<open>release\<close> of one thread.
\<close>

theorem quota_refines_atomic:
  assumes "quota_reachable n mx s" and "quota_step n s s'"
  shows "sys_quota s' = sys_quota s \<or>
    (\<exists>t c v. sys_pc s t = Exchanging c v \<and> sys_pc s' t = Outside \<and>
       call_atomic c (sys_quota s) = (True, sys_quota s'))"
  by (rule quota_step_refines [OF quota_reachable_loaded [OF assms(1)] assms(2)])

theorem quota_refines_atomic_witness:
  "\<exists>s'. quota_step 2 (quota_sys_init 1000) s' \<and>
     (sys_quota s' = sys_quota (quota_sys_init 1000) \<or>
      (\<exists>t c v. sys_pc (quota_sys_init 1000) t = Exchanging c v \<and> sys_pc s' t = Outside \<and>
         call_atomic c (sys_quota (quota_sys_init 1000)) = (True, sys_quota s')))"
proof -
  have "quota_step 2 (quota_sys_init 1000) ((quota_sys_init 1000)\<lparr>sys_pc := (sys_pc (quota_sys_init 1000))(0 := Loading (CallReserve 10 Bulk))\<rparr>)"
    by (rule quota_step.call) (simp_all add: quota_sys_init_def)
  from quota_refines_atomic [OF quota_reachable.init this] this show ?thesis by blast
qed

text \<open>
  Priorities reserve headroom: a reservation that a lower priority is granted is granted to
  every higher priority as well, and no priority gets past the capacity (below \<open>2 ^ 57\<close> bytes).
\<close>

theorem quota_priorities:
  assumes "priority_level p \<le> priority_level p'" and "fst (quota_reserve q amount p')" and "max_bytes q * 99 < 2 ^ 64"
  shows "fst (quota_reserve q amount p) \<and> used_bytes (snd (quota_reserve q amount p)) \<le> max_bytes q"
  using assms quota_threshold_mono [OF assms(1,3)] quota_threshold_le [of "max_bytes q" p]
  by (auto simp: quota_reserve_def Let_def split: if_splits)

theorem quota_priorities_witness:
  "fst (quota_reserve (quota_new 1000) 600 Critical) \<and>
   used_bytes (snd (quota_reserve (quota_new 1000) 600 Critical)) \<le> max_bytes (quota_new 1000)"
  by (rule quota_priorities [of _ Bulk]) (simp_all add: quota_reserve_def quota_new_def quota_threshold_def Let_def)

section \<open>Timing and congestion\<close>

text \<open>
  C10. The round-trip estimator never panics in its single-precision arithmetic on any sequence of
  samples of up to 34 years, and keeps the retransmission timeout between 200 ms and 5 s; with
  exponential backoff it stays at or below 320 s.
\<close>

theorem rtt_bounds:
  assumes "\<forall>x \<in> set samples. x \<le> rtt_horizon"
  shows "\<exists>est. rtt_run rtt_new samples = Some est \<and> from_millis 200 \<le> rto est \<and> rto est \<le> from_millis 5000 \<and>
    rto_with_backoff est retries = Some (rto est * 2 ^ min retries 6) \<and> rto est * 2 ^ min retries 6 \<le> from_secs 320"
proof -
  obtain est where est: "rtt_run rtt_new samples = Some est" "rtt_ok est" using rtt_run_ok [OF rtt_new_ok assms] by blast
  then show ?thesis using rto_with_backoff_ok [OF est(2), of retries] by (auto simp: rtt_ok_def MIN_RTO_def MAX_RTO_def)
qed

theorem rtt_bounds_witness:
  "\<exists>est. rtt_run rtt_new [0, 5000000, 100000000000] = Some est \<and> from_millis 200 \<le> rto est \<and> rto est \<le> from_millis 5000"
  using rtt_bounds [of "[0, 5000000, 100000000000]"] by (auto simp: rtt_horizon_def nanos_per_sec_def)

text \<open>
  AIMD can always send: after any sequence of acknowledgements, losses, timeouts and sends the
  window holds at least one packet and the pacing rate is a positive finite number.
\<close>

theorem aimd_window_open:
  assumes "list_all cc_event_ok evs"
  shows "1 \<le> cc_cwnd aimd_ops (fold (cc_apply aimd_ops) evs aimd_new) \<and>
    (\<exists>r. cc_pacing_rate aimd_ops (fold (cc_apply aimd_ops) evs aimd_new) = Fin r \<and> 0 < r)"
  by (rule aimd.window_open [OF aimd_new_ok assms])

theorem aimd_window_open_witness:
  "1 \<le> cc_cwnd aimd_ops (fold (cc_apply aimd_ops) [CcTimeout 5, CcNack 6, CcAck 7 None 1300 0 8] aimd_new)"
  using aimd_window_open [of "[CcTimeout 5, CcNack 6, CcAck 7 None 1300 0 8]"]
  by (simp add: usize_max_def in_year_def from_secs_def duration_limit_def nanos_per_sec_def)

text \<open>
  The pacing gap is always a duration of at most one second, whatever rate the congestion
  controller reports: zero, infinite and NaN rates included, \<^verbatim>\<open>Duration::from_secs_f32\<close> never panics.
\<close>

theorem pacing_gap_bounded: "\<exists>d. pacing_gap len rate = Some d \<and> d \<le> from_secs 1"
  by (rule pacing_gap_ok)

section \<open>Containers and identifiers\<close>

text \<open>
  The word-wise searches of \<^verbatim>\<open>BitSet\<close> compute what a scan bit by bit computes: the first zero
  and the first one at or after a start and below a limit, and the last one below a limit.
\<close>

theorem bitset_searches:
  "bs_next_zero ws idx limit = find (\<lambda>i. \<not> bs_get ws i) [idx..<limit] \<and>
   bs_next_one ws idx limit = find (bs_get ws) [idx..<limit] \<and>
   bs_last_one ws limit = find (bs_get ws) (rev [0..<limit])"
  by (simp add: bs_next_zero_eq_find bs_next_one_eq_find bs_last_one_eq)

text \<open>
  The word-wise count over a range and the 64-bit selective-acknowledgement mask are exact: the
  count is the number of members in the range, and bit \<open>j\<close> of the mask at a base says whether
  \<open>base + 1 + j\<close> is a member, across word boundaries and past the end of the set.
\<close>

theorem bitset_counts_and_masks:
  "bs_count_ones_between ws start end0 = card (bs_members ws \<inter> {start..<end0}) \<and>
   (\<forall>j < 64. bit (bs_sack_mask ws base) j \<longleftrightarrow> bs_get ws (base + 1 + j))"
  by (simp add: bs_count_ones_between_card bit_sack_mask)

theorem bitset_counts_and_masks_witness:
  "bs_count_ones_between [5, 1] 1 65 = card (bs_members [5, 1] \<inter> {1..<65}) \<and>
   bit (bs_sack_mask [5, 1] 0) 1 = bs_get [5, 1] 2"
  using bitset_counts_and_masks [of "[5, 1]" 1 65 0] by (simp add: numeral_2_eq_2)

text \<open>
  \<^verbatim>\<open>FlatMap\<close> is a finite map: inserting any list of entries into an empty map gives, for each
  key, the entry inserted last, and keys stay distinct, so lookups after any further removal are
  those of a map too.
\<close>

theorem flat_map_is_map:
  "fm_get (fold (\<lambda>(k, v) m. fm_set m k v) xs fm_new) k = map_of (rev xs) k \<and>
   fm_wf (fold (\<lambda>(k, v) m. fm_set m k v) xs fm_new) \<and>
   fm_get (fm_del (fold (\<lambda>(k, v) m. fm_set m k v) xs fm_new) k') k =
     (if k = k' then None else map_of (rev xs) k)"
  using fm.lookup_fold_update [of xs fm_new k] fm.invar_fold_update [of fm_new xs]
  by (auto simp: fm.lookup_empty fm.invar_empty fm.lookup_delete split: option.splits)

text \<open>
  \<^verbatim>\<open>peek_message_type\<close> recognizes exactly the envelopes whose first bytes are the array header and
  a known message type, and reads that type.
\<close>

theorem peek_exact:
  "peek_message_type data = Some mt \<longleftrightarrow> (\<exists>rest. data = 0x92 # message_type_tag mt # rest)"
  by (rule peek_message_type_eq_Some_iff)

section \<open>Identities and their devices\<close>

text \<open>
  C11. The permissions a device is given are exactly those of its trust chains: a permission bit is set
  if and only if some chain of at most 17 usable records (of the identity, unexpired, known at the
  rank, in the causal history, not revoked) leads to the master key and every record of it carries the
  bit. A device is authorized if and only if it has permissions at all.
\<close>

theorem permissions_exact:
  "((\<exists>p. get_permissions im ctx cid d l now rank = Some p \<and> bit p i) \<longleftrightarrow>
    (\<exists>rs. trust_chain im ctx cid l now rank d rs \<and> length rs \<le> Suc MAX_AUTH_DEPTH \<and>
       (if rs = [] then bit PERM_ALL i else list_all (\<lambda>r. bit (ar_permissions r) i) rs))) \<and>
   (is_authorized_recursive im ctx cid d l now rank 0 \<noteq> None \<longleftrightarrow> get_permissions im ctx cid d l now rank \<noteq> None)"
  unfolding list_all_iff get_permissions_bit_iff [symmetric] get_permissions_def authorized_iff_permissions by blast

text \<open>A signature scheme in which every signature verifies, and the manager after one certificate.\<close>

definition sample_crypto :: crypto where
  "sample_crypto = \<lparr>cr_serialize = (\<lambda>_. Some []), cr_sign = (\<lambda>_ _. []), cr_key_valid = (\<lambda>_. True), cr_verify = (\<lambda>_ _ _. True)\<rparr>"

definition sample_cert :: delegation_certificate where
  "sample_cert = \<lparr>sd_version = 1, sd_conversation_id = [0], sd_device_pk = [2], sd_permissions = PERM_MESSAGE,
     sd_expires_at = 100, cert_signature = []\<rparr>"

definition sample_record :: auth_record where
  "sample_record = \<lparr>ar_logical_pk = [1], ar_issuer_pk = [1], ar_permissions = PERM_MESSAGE, ar_expires_at = 100,
     ar_auth_rank = 3, ar_auth_hash = [9]\<rparr>"

lemma sample_authorize:
  "authorize_device sample_crypto lru_list (im_new lru_list) ctx_global [0] [1] sample_cert 10 3 [9] =
     (Inr (), (im_new lru_list)\<lparr>authorized_devices := [(([0], [2]), [sample_record])]\<rparr>)"
  by (simp add: authorize_device_def sample_cert_def sample_crypto_def verify_delegation_def delegation_sign_data.defs
      add_record_def im_new_def fm_new_def sample_record_def lru_list_def Let_def)

lemma sample_permissions:
  "get_permissions ((im_new lru_list)\<lparr>authorized_devices := [(([0], [2]), [sample_record])]\<rparr>) ctx_global [0] [2] [1] 10 3 = Some PERM_MESSAGE"
  unfolding get_permissions_def
  by (subst get_permissions_recursive.simps)
    (simp add: record_usable_def is_revoked_def sample_record_def im_new_def fm_new_def ctx_global_def join_opt_def MAX_AUTH_DEPTH_def)

text \<open>
  C12. The cache never changes an answer: in every state a run of the manager reaches, with the rank
  and the causal context determined by the node that is evaluated, \<^verbatim>\<open>is_authorized\<close> answers what the
  search without the cache answers, at whatever times it was asked before; and the list of active
  devices is sorted and holds, for each member, exactly its authorized devices, or the member's own key
  when there are none.
\<close>

theorem cached_answers_exact:
  assumes "lru_cache lru look" and "\<And>h. ctx_evaluating_node_hash (ctx_of h) = h"
    and "im_steps lru cr ctx_of rank_of (im_new lru) im"
  shows "(fst (is_authorized lru im (ctx_of h) cid d l now (rank_of h)) \<longleftrightarrow>
      is_authorized_recursive im (ctx_of h) cid d l now (rank_of h) 0 \<noteq> None) \<and>
    sorted (fst (list_active_authorized_devices lru im (ctx_of h) cid now (rank_of h))) \<and>
    set (fst (list_active_authorized_devices lru im (ctx_of h) cid now (rank_of h))) =
      (\<Union>l \<in> fst ` set (list_members im cid).
         let ds = {d. (cid, d) \<in> set (fm_keys (authorized_devices im)) \<and>
                      is_authorized_recursive im (ctx_of h) cid d l now (rank_of h) 0 \<noteq> None}
         in if ds = {} then {l} else ds)"
proof -
  have ok: "lru_cache.cache_ok look ctx_of rank_of im"
    by (rule lru_cache.im_steps_cache_ok [OF assms(1,3,2)])
  show ?thesis
    by (intro conjI lru_cache.is_authorized_transparent(1) [OF assms(1) ok assms(2)] lru_cache.list_active_exact [OF assms(1,2) ok])
qed

theorem cached_answers_exact_witness:
  "\<exists>im. authorized_devices im = [(([0], [2]), [sample_record])] \<and>
     (fst (is_authorized lru_list im ctx_global [0] [2] [1] 10 3) \<longleftrightarrow> is_authorized_recursive im ctx_global [0] [2] [1] 10 3 0 \<noteq> None)"
proof -
  let ?ctx = "\<lambda>h. \<lparr>ctx_evaluating_node_hash = h, ctx_admin_ancestor_hashes = {zero_hash}\<rparr>"
  let ?im = "(im_new lru_list)\<lparr>authorized_devices := [(([0], [2]), [sample_record])]\<rparr>"
  have "im_step lru_list sample_crypto ?ctx (\<lambda>_. 3) (im_new lru_list) (?im\<lparr>authorized_devices := authorized_devices ?im\<rparr>)"
    by (rule im_step.authorize [OF sample_authorize]) simp
  then have run: "im_steps lru_list sample_crypto ?ctx (\<lambda>_. 3) (im_new lru_list) ?im"
    using im_steps.step [OF im_steps.refl] by simp
  have "fst (is_authorized lru_list ?im (?ctx zero_hash) [0] [2] [1] 10 3) \<longleftrightarrow>
      is_authorized_recursive ?im (?ctx zero_hash) [0] [2] [1] 10 3 0 \<noteq> None"
    using cached_answers_exact [OF lru_list.lru_cache_axioms _ run, of zero_hash "[0]" "[2]" "[1]" 10] by simp
  then show ?thesis by (intro exI [of _ ?im]) (simp add: ctx_global_def)
qed

text \<open>
  C13. An authorization escalates nothing: whatever permission any device has afterwards, in any context,
  it had before, unless the certificate carries that permission and was signed by the master key or by
  a device that itself effectively had the permission and administrator rights. (The hash of the new
  authorization is one under which nobody has revoked.)
\<close>

theorem authorize_no_escalation:
  assumes "authorize_device cr lru im ctx cid l cert now rank h = (Inr (), im')" and "fresh_hash im h"
    and "get_permissions im' ctx' cid' d l' now' rank' = Some p'" and "bit p' i"
  shows "(\<exists>p. get_permissions im ctx' cid' d l' now' rank' = Some p \<and> bit p i) \<or>
    bit (sd_permissions cert) i \<and>
    (verify_delegation cr cert l now = Inr () \<or>
     (\<exists>issuer q. verify_delegation cr cert issuer now = Inr () \<and>
        get_permissions im ctx cid issuer l now rank = Some q \<and> bit q i \<and> perms_contain q PERM_ADMIN))"
  using assms by (rule no_escalation_aux)

theorem authorize_no_escalation_witness:
  "(\<exists>p. get_permissions (im_new lru_list) ctx_global [0] [2] [1] 10 3 = Some p \<and> bit p 1) \<or>
    bit (sd_permissions sample_cert) 1 \<and>
    (verify_delegation sample_crypto sample_cert [1] 10 = Inr () \<or>
     (\<exists>issuer q. verify_delegation sample_crypto sample_cert issuer 10 = Inr () \<and>
        get_permissions (im_new lru_list) ctx_global [0] issuer [1] 10 3 = Some q \<and> bit q 1 \<and> perms_contain q PERM_ADMIN))"
  by (rule authorize_no_escalation [OF sample_authorize _ sample_permissions])
    (simp_all add: fresh_hash_def revoked_by_def im_new_def fm_new_def PERM_MESSAGE_def bit_simps)

text \<open>
  C14. A revocation by a master key is final: in every later state of the manager, whatever certificates are issued
  afterwards, also by the same master key, the device has no valid path to any identity other than its own key, for nodes at any
  rank from the revocation's on that have the revocation in their causal history. The protocol documents say otherwise: they let a revoked
  device be authorized again, and say that seniority must not override a topological descendant.
\<close>

theorem master_revocation_final:
  assumes "im_steps lru cr ctx_of rank_of (revoke_device lru im cid rpk rpk d rank now h) im'" and "d \<noteq> l" and "rank \<le> rank'"
    and "h = zero_hash \<or> ctx_evaluating_node_hash ctx = zero_hash \<or> h \<in> ctx_admin_ancestor_hashes ctx"
  shows "is_authorized_recursive im' ctx cid d l now' rank' 0 = None"
  using assms by (rule master_revocation_stays)

theorem master_revocation_final_witness:
  "\<exists>im. authorize_device sample_crypto lru_list (revoke_device lru_list (im_new lru_list) [0] [1] [1] [2] 2 10 [8]) ctx_global [0] [1] sample_cert 10 3 [9]
       = (Inr (), im) \<and>
     is_authorized_recursive im \<lparr>ctx_evaluating_node_hash = [7], ctx_admin_ancestor_hashes = {[8], [9]}\<rparr> [0] [2] [1] 20 7 0 = None"
proof -
  let ?im = "revoke_device lru_list (im_new lru_list) [0] [1] [1] [2] 2 10 [8]"
  let ?im' = "snd (authorize_device sample_crypto lru_list ?im ctx_global [0] [1] sample_cert 10 3 [9])"
  let ?ctx = "\<lambda>h. \<lparr>ctx_evaluating_node_hash = h, ctx_admin_ancestor_hashes = {[8], [9]}\<rparr>"
  have again: "authorize_device sample_crypto lru_list ?im ctx_global [0] [1] sample_cert 10 3 [9] = (Inr (), ?im')"
    by (simp add: authorize_device_def sample_cert_def sample_crypto_def verify_delegation_def delegation_sign_data.defs Let_def)
  have "im_step lru_list sample_crypto ?ctx (\<lambda>_. 3) ?im (?im'\<lparr>authorized_devices := authorized_devices ?im'\<rparr>)"
    by (rule im_step.authorize [OF again]) simp
  then have "im_steps lru_list sample_crypto ?ctx (\<lambda>_. 3) ?im ?im'" using im_steps.step [OF im_steps.refl] by simp
  then have "is_authorized_recursive ?im' (?ctx [7]) [0] [2] [1] 20 7 0 = None" by (rule master_revocation_final) simp_all
  with again show ?thesis by blast
qed

section \<open>Fetching blobs\<close>

text \<open>
  C15. The requests for chunks are sound and maximal: at most the allowed number of requests is made,
  each for a different missing chunk that nobody fetches yet, to a peer that has the blob and then has
  at most four requests in flight; and requesting stops short of the limit only when every missing
  chunk is in flight or every such peer has four requests in flight.
\<close>

theorem swarm_requests:
  assumes "sw_ok s" and "next_requests s max_total now = (reqs, s')"
  shows "\<exists>cs. reqs = map (\<lambda>(c, p). (p, chunk_request s c)) cs \<and> s' = with_fetches s now cs \<and> sw_ok s' \<and>
    length cs \<le> max_total \<and> distinct (map fst cs) \<and>
    list_all (\<lambda>(c, p). c \<in> missing_chunks (sw_tracker s) \<and> fm_get (sw_active_fetches s) c = None \<and>
      p \<in> set (sw_seeders s) \<and> peer_fetches s' p \<le> 4) cs \<and>
    (length cs = max_total \<or> (\<forall>c \<in> missing_chunks (sw_tracker s). fm_get (sw_active_fetches s') c \<noteq> None) \<or>
       (\<forall>p \<in> set (sw_seeders s). 4 \<le> peer_fetches s' p))"
proof -
  obtain cs where cs: "reqs = map (\<lambda>(c, p). (p, chunk_request s c)) cs" "s' = with_fetches s now cs"
    "good_requests s now max_total cs" "sw_ok s'"
    "length cs = max_total \<or> (\<forall>c \<in> missing_chunks (sw_tracker s). fm_get (sw_active_fetches s') c \<noteq> None) \<or>
       (\<forall>p \<in> set (sw_seeders s). 4 \<le> peer_fetches s' p)"
    by (rule next_requests_ok [OF assms])
  moreover have "length cs \<le> max_total" "distinct (map fst cs)"
    "list_all (\<lambda>(c, p). c \<in> missing_chunks (sw_tracker s) \<and> fm_get (sw_active_fetches s) c = None \<and>
      p \<in> set (sw_seeders s) \<and> peer_fetches s' p \<le> 4) cs"
    using cs(2,3) by (auto simp: good_requests_def list_all_iff)
  ultimately show ?thesis by blast
qed

definition sample_blob :: blob_info where
  "sample_blob = \<lparr>bi_hash = [5], bi_size = 65536, bi_bao_root = Some [6], bi_status = Pending, bi_received_mask = None,
     bi_decryption_key = None\<rparr>"

theorem swarm_requests_witness:
  "\<exists>reqs s' cs. next_requests (add_seeder (sw_new sample_blob) [1]) 8 0 = (reqs, s') \<and>
     reqs = map (\<lambda>(c, p). (p, chunk_request (add_seeder (sw_new sample_blob) [1]) c)) cs \<and> length cs \<le> 8"
proof -
  let ?s = "add_seeder (sw_new sample_blob) [1]"
  obtain reqs s' where r: "next_requests ?s 8 0 = (reqs, s')" by fastforce
  from swarm_requests [OF add_seeder_ok [OF sw_new_ok] r] r show ?thesis by blast
qed

text \<open>
  \<^verbatim>\<open>on_chunk_received\<close> does not look at the length of the data: any slice that verifies, be it one
  byte, marks the whole chunk as received, so that a blob of one chunk counts as complete.
\<close>

theorem short_slice_completes:
  assumes "0 < bi_size info" and "bi_size info \<le> CHUNK_SIZE" and "bi_bao_root info = Some bao_root"
    and "blob_verify bao d bao_root" and "bd_offset d < CHUNK_SIZE"
  shows "fst (on_chunk_received bao (sw_new info) d) \<and> is_complete (sw_tracker (snd (on_chunk_received bao (sw_new info) d)))"
proof -
  have num: "div_ceil (bi_size info) CHUNK_SIZE = 1"
    using assms(1,2) by (simp add: div_ceil_def CHUNK_SIZE_def)
  have "received_chunks (mark_received (ct_new (bi_hash info) (bi_size info)) 0) = {0}"
    by (simp add: received_mark received_new) (simp add: ct_new_def num div_ceil_def [of "Suc 0" 8])
  then show ?thesis
    using assms(3-5) num
    by (simp add: on_chunk_received_def Let_def sw_new_def is_complete_iff ct_num_chunks_def) (simp add: ct_new_def num lessThan_Suc)
qed

theorem short_slice_completes_witness:
  "is_complete (sw_tracker (snd (on_chunk_received (\<lambda>_ _ _ _. Some [7]) (sw_new sample_blob)
     \<lparr>bd_hash = [5], bd_offset = 0, bd_data = [7], bd_proof = []\<rparr>)))"
  using short_slice_completes [of sample_blob "[6]" "\<lambda>_ _ _ _. Some [7]" "\<lparr>bd_hash = [5], bd_offset = 0, bd_data = [7], bd_proof = []\<rparr>"]
  by (simp add: sample_blob_def CHUNK_SIZE_def blob_verify_def)


section \<open>The history\<close>

text \<open>
  C16. Validation decides exactly the structural rules: on a store whose history is well-formed,
  \<^verbatim>\<open>validate\<close> returns, leaves the history as it is and succeeds exactly when the node respects the size
  limits and the rule on the kind of its authentication, is authenticated, and its parents are
  stored, its rank is one more than the highest of theirs, administrative nodes other than soft anchors stand on administrative
  nodes, soft anchors name their only parent and do not chain, and content lies within the allowed number
  of hops of an administrative node. These are the rules of the code: the protocol documents also forbid a soft anchor whose
  parent is a content node, which the code accepts (\<open>soft_anchor_over_content\<close>).
\<close>

theorem validation_exact:
  assumes "engine_inv fuel s" and "check_authenticity env n \<noteq> None"
  shows "\<exists>r s'. validate env (es_lookup (ims_store env fuel) fuel) s n = Some (r, s')
      \<and> engine_inv fuel s' \<and> engine_view s' = engine_view s
      \<and> (r = Inr () \<longleftrightarrow> check_limits env n = Inr () \<and> check_auth_rule n = Inr ()
           \<and> check_authenticity env n = Some (Inr ()) \<and> node_ok (engine_view s) n)"
  using assms by (rule es.validate_exact)

lemma empty_inv: "engine_inv 5 empty_store"
proof -
  have "ims_view ims_new = Map.empty" "engine_view empty_store = Map.empty"
    by (simp_all add: fun_eq_iff ims_view_def es_view_def empty_store_def ims_new_def pc_new_def fm_new_def map_add_def)
  then show ?thesis
    by (simp add: es_inv_def ims_inv_def well_formed_def ranks_below_def rank_in_def distance_def empty_store_def
        ims_new_def pc_new_def fm_new_def u64_max_def)
qed

theorem validation_exact_witness:
  "\<exists>r s'. validate sample_env (es_lookup (ims_store sample_env 5) 5) empty_store revoke_node = Some (r, s')
     \<and> engine_view s' = engine_view empty_store"
proof -
  have "check_authenticity sample_env revoke_node \<noteq> None"
    by (simp add: check_authenticity_def mn_validate_pow_def sample_node_fields sample_signature)
  from validation_exact [OF empty_inv this] show ?thesis by blast
qed

text \<open>
  A soft anchor on a content node respects the rules that the code checks, against the chain isolation of the protocol documents.
\<close>

theorem soft_anchor_over_content:
  assumes "V b = Some m" "node_type_of m = Content" "\<not> is_soft_anchor (nd_content m)"
    and "nd_content n = Control (SoftAnchor b c)" "nd_parents n = [b]" "nd_topological_rank n = Suc (nd_topological_rank m)"
  shows "node_ok V n"
proof -
  have "soft_chain V b 0" using assms(1,3) by (rule soft_chain.other)
  then show ?thesis
    using assms(1,4-6) by (auto simp: node_ok_def expected_rank_def rank_in_def MAX_PARENTS_def MAX_SOFT_ANCHOR_CHAIN_def node_type_of_def)
qed

text \<open>
  C17. Storing nodes that respect the rules refines the growth of a history: \<^verbatim>\<open>put_node\<close> of the engine's
  store adds exactly this node to the history and keeps the invariant with its memoised distances; the
  history stays acyclic, and every node stays within the allowed number of hops of its nearest anchor.
\<close>

theorem history_grows:
  assumes "engine_inv fuel s" "node_ok (engine_view s) n" "mn_hash env n = Some h" "nd_topological_rank n < fuel"
    and "engine_view s h = None \<or> engine_view s h = Some (node_data.truncate n)"
  shows "\<exists>s'. es_put_node env s cid n v = Some s' \<and> engine_inv fuel s'
      \<and> engine_view s' = (engine_view s)(h \<mapsto> node_data.truncate n)
      \<and> acyclic (parent_rel (engine_view s')) \<and> (\<forall>k \<in> dom (engine_view s'). nearest (engine_view s') k \<le> MAX_ANCESTRY_HOPS)"
proof -
  let ?s = "es_put_hashed s cid h n v"
  have put: "engine_inv fuel ?s \<and> engine_view ?s = (engine_view s)(h \<mapsto> node_data.truncate n)"
    using assms(1,2,5,4) by (rule es.put_exact)
  then have "well_formed (engine_view ?s)" unfolding es_inv_def by blast
  note acyclic_parent_rel [OF this] nearest_bounded [OF this]
  with put assms(3) show ?thesis by (auto simp: es_put_node_def)
qed

theorem history_grows_witness:
  "\<exists>s'. es_put_node sample_env empty_store [0] revoke_node True = Some s' \<and> engine_inv 5 s'
     \<and> engine_view s' (sample_hash 1) = Some (node_data.truncate revoke_node)"
proof -
  have "node_ok (engine_view empty_store) revoke_node"
    by (simp add: node_ok_def sample_node_fields expected_rank_def node_type_of_def MAX_PARENTS_def)
  moreover have "engine_view empty_store (sample_hash 1) = None"
    by (simp add: ims_view_def es_view_def empty_store_def ims_new_def pc_new_def fm_new_def map_add_def)
  ultimately show ?thesis
    using history_grows [OF empty_inv _ sample_hashes(1), of "[0]" True] by (auto simp: sample_node_fields)
qed

text \<open>
  C18. The verified part of the history is sound in every state that a run of the engine reaches in which this device rotates no
  keys, whatever nodes arrive in whatever order, are tried again, written and dropped from the cache: a verified
  node is stored, so are its parents, which are distinct and at most the allowed number; its rank is one more
  than the highest of theirs; administrative nodes other than soft anchors stand on administrative nodes; and there is no cycle
  among verified nodes. Hashes must not collide. A rotation authors nodes itself, which is not modelled.
\<close>

theorem verified_structure:
  assumes "collision_free env" and "engine_run env lru ac fuel no_rotation rounds en s"
  shows "(\<forall>h. es_is_verified (ims_store env fuel) s h \<longrightarrow> (\<exists>n. engine_view s h = Some n \<and> linked (engine_view s) n))
      \<and> acyclic {(p, h). es_is_verified (ims_store env fuel) s h \<and> (p, h) \<in> parent_rel (engine_view s)}"
proof -
  have "verified_linked (engine_view s) (es_is_verified (ims_store env fuel) s)"
    using engine_run_sound [OF assms(1) no_rotation_sound assms(2)] by (simp add: sound_store_def store_answers [of env fuel])
  from this verified_acyclic [OF this] show ?thesis by (simp add: verified_linked_def)
qed

theorem verified_structure_witness:
  "\<exists>en s. engine_run sample_env lru_list sample_anc 5 no_rotation 1 en s
     \<and> es_is_verified (ims_store sample_env 5) s (sample_hash 1)
     \<and> (\<exists>n. engine_view s (sample_hash 1) = Some n \<and> linked (engine_view s) n)"
proof -
  obtain en s where run: "engine_run sample_env lru_list sample_anc 5 no_rotation 1 en s"
      "es_is_verified (ims_store sample_env 5) s (sample_hash 1)" using sample_arrived by blast
  with verified_structure [OF sample_collision_free run(1)] show ?thesis by blast
qed

text \<open>
  C19. No node becomes verified unchecked: a node that is processed and found verified passed validation;
  its parents were verified, unless it is of a kind that starts a conversation; its timestamp lies in the
  allowed window; an authorized sender had the permissions the content requires, and its ephemeral
  signature, other than a genesis's, was verified under the sender's key of the epoch; a node of an
  unauthorized sender starts a conversation or was vouched for, and if it is an anchor its certificate was
  signed by the founder.
\<close>

theorem verified_node_checks:
  assumes "process_node env lru ac ns fuel rot_key cid reverify now_ms n en s
             = Some (Inr (Some (effects, True, authentic)), en', s')"
  shows "\<exists>h s1 ctx q authorized im. mn_hash env n = Some h \<and> validate env (es_lookup ns fuel) s n = Some (Inr (), s1)
    \<and> causal_context_of env ac (es_get_node ns s1) fuel (en_admin_ancestors en) n = Some (ctx, q)
    \<and> is_authorized lru (en_identity en) ctx cid (nd_sender_pk n) (nd_author_pk n) (nd_network_timestamp n)
        (nd_topological_rank n) = (authorized, im)
    \<and> (is_bootstrap (nd_content n) \<or> (\<forall>p \<in> set (nd_parents n). es_is_verified ns s1 p))
    \<and> timestamps_quarantine (min_parent_timestamp (es_get_node ns s1) (nd_parents n)) (nd_network_timestamp n) now_ms = Some False
    \<and> (authorized \<longrightarrow> check_permissions (en\<lparr>en_admin_ancestors := q, en_identity := im\<rparr>) ctx cid n (nd_network_timestamp n) = Inr ())
    \<and> (authorized \<longrightarrow> signature_checked env en n (es_get_wire_node ns s1 h))
    \<and> (\<not> authorized \<longrightarrow> is_bootstrap (nd_content n) \<or> VOUCH_THRESHOLD \<le> vouch_count en cid h)
    \<and> (\<forall>cert perm. \<not> authorized \<longrightarrow> anchor_cert (nd_content n) = Some (cert, perm) \<longrightarrow> founder_certified env en cid n cert perm)"
  using assms by (cases rule: verified_checks) blast

theorem verified_node_checks_witness:
  "\<exists>h s1. mn_hash sample_env revoke_node = Some h
     \<and> validate sample_env (es_lookup (ims_store sample_env 5) 5) empty_store revoke_node = Some (Inr (), s1)"
proof -
  obtain e en s where "process_node sample_env lru_list sample_anc (ims_store sample_env 5) 5 no_rotation [0] False 0 revoke_node
      sample_engine empty_store = Some (Inr (Some (e, True, True)), en, s)"
    using sample_revoke_processed by blast
  from verified_node_checks [OF this] show ?thesis by blast
qed

text \<open>
  C20. A stranger can revoke any device: a revocation whose author is its own sender (which is how a node
  in clear from an unknown sender is unpacked) is taken as that of a master key, without a look at the
  members. If its sequence number is in order, its timestamp in the window and its parents (it needs none)
  verified, it is verified, and the device it names is revoked with the highest seniority.
\<close>

theorem stranger_revokes:
  assumes "nd_sender_pk n = nd_author_pk n" and "nd_content n = Control (RevokeDevice target reason)"
    and "nd_authentication n = Signature sig"
    and "mn_hash env n = Some h" "\<not> es_is_verified ns s h" "\<not> es_has_node ns s h"
    and "validate env (es_lookup ns fuel) s n = Some (Inr (), s1)"
    and "causal_context_of env ac (es_get_node ns s1) fuel (en_admin_ancestors en) n = Some (ctx, q)"
    and "\<forall>p \<in> set (nd_parents n). es_is_verified ns s1 p"
    and "timestamps_quarantine (min_parent_timestamp (es_get_node ns s1) (nd_parents n)) (nd_network_timestamp n) now_ms = Some False"
    and "check_sequence (en\<lparr>en_admin_ancestors := q\<rparr>) cid n h (es_get_last_sequence_number ns s1 cid (nd_sender_pk n))
           = Some (Inr (), checked)"
    and "nd_sender_pk n \<noteq> en_self_pk en"
    and "process_node env lru ac ns fuel rot_key cid reverify now_ms n en s = Some (r, en', s')"
  shows "\<exists>effects. r = Inr (Some (effects, True, True))
           \<and> revoked_by (en_identity en') cid target
               \<lparr>rv_rank = nd_topological_rank n, rv_revoker_seniority = (0, zero_hash), rv_revocation_hash = h\<rparr>"
  using assms by (rule stranger_revokes_aux)

theorem stranger_revokes_witness:
  "\<exists>r en s. process_node sample_env lru_list sample_anc (ims_store sample_env 5) 5 no_rotation [0] False 0 revoke_node
       sample_engine empty_store = Some (r, en, s)
     \<and> (\<exists>rev. revoked_by (en_identity en) [0] key_b rev)"
proof -
  obtain r en s where run: "process_node sample_env lru_list sample_anc (ims_store sample_env 5) 5 no_rotation [0] False 0 revoke_node
      sample_engine empty_store = Some (r, en, s)"
    using sample_revoke_processed by blast
  have other: "key_a \<noteq> en_self_pk sample_engine" by (simp add: sample_engine_def key_a_def)
  have "\<exists>effects. r = Inr (Some (effects, True, True)) \<and> revoked_by (en_identity en) [0] key_b
      \<lparr>rv_rank = nd_topological_rank revoke_node, rv_revoker_seniority = (0, zero_hash), rv_revocation_hash = sample_hash 1\<rparr>"
    by (rule stranger_revokes [OF _ _ _ sample_hashes(1) _ _ sample_valid(1) _ _ _ _ _ run, where q = "()"
          and ctx = "\<lparr>ctx_evaluating_node_hash = sample_hash 1, ctx_admin_ancestor_hashes = {}\<rparr>" and checked = sample_engine])
      (simp_all add: sample_node_fields empty_store_answers sample_context sample_hashes sample_time sample_sequence other)
  with run show ?thesis by blast
qed

text \<open>
  C21. A stranger can make itself the owner: a genesis of an unauthorized sender whose timestamp is in the window
  and which validation accepts (one with an ephemeral signature needs neither a valid signature nor
  work) is verified, also when the conversation has a genesis and its authentication code does not match, and its
  creator becomes a member with the role of the owner.
\<close>

theorem forged_genesis:
  assumes "nd_content n = Control (Genesis title creator perms flags created nonce)"
    and "mn_hash env n = Some h" "\<not> es_is_verified ns s h" "\<not> es_has_node ns s h"
    and "validate env (es_lookup ns fuel) s n = Some (Inr (), s1)"
    and "causal_context_of env ac (es_get_node ns s1) fuel (en_admin_ancestors en) n = Some (ctx, q)"
    and "is_authorized lru (en_identity en) ctx cid (nd_sender_pk n) (nd_author_pk n) (nd_network_timestamp n)
           (nd_topological_rank n) = (False, im)"
    and "\<not> has_authorization_record (en_identity en) cid (nd_sender_pk n)"
    and "timestamps_quarantine (min_parent_timestamp (es_get_node ns s1) (nd_parents n)) (nd_network_timestamp n) now_ms = Some False"
    and "process_node env lru ac ns fuel rot_key cid reverify now_ms n en s = Some (r, en', s')"
  shows "\<exists>effects authentic. r = Inr (Some (effects, True, authentic))
           \<and> fm_get (logical_members (en_identity en')) (cid, creator) = Some (0, created)"
  using assms by (rule forged_genesis_aux)

theorem forged_genesis_witness:
  "\<exists>r en s. process_node sample_env lru_list sample_anc (ims_store sample_env 5) 5 no_rotation [0] False 0 genesis_node
       sample_engine empty_store = Some (r, en, s)
     \<and> fm_get (logical_members (en_identity en)) ([0], key_a) = Some (0, 5)"
proof -
  obtain r en s where run: "process_node sample_env lru_list sample_anc (ims_store sample_env 5) 5 no_rotation [0] False 0 genesis_node
      sample_engine empty_store = Some (r, en, s)"
    using sample_genesis_processed by blast
  have "\<exists>effects authentic. r = Inr (Some (effects, True, authentic))
      \<and> fm_get (logical_members (en_identity en)) ([0], key_a) = Some (0, 5)"
    by (rule forged_genesis [OF _ sample_hashes(2) _ _ sample_valid(2) _ _ _ _ run, where q = "()"
          and ctx = "\<lparr>ctx_evaluating_node_hash = sample_hash 2, ctx_admin_ancestor_hashes = {}\<rparr>"
          and im = "en_identity sample_engine"])
      (simp_all add: sample_node_fields empty_store_answers sample_context sample_hashes sample_time sample_stranger)
  with run show ?thesis by blast
qed

text \<open>
  When learning the signing key of a sender panics (where overflow is checked): exactly when the epoch
  of the node is not the first, its key is known or the node is signed by the device, and the node discloses more
  keys than there were epochs before: the epoch of a disclosed key is computed by a subtraction.
\<close>

theorem disclosed_keys_panic:
  "learn_signing_key cid n pk keys en = None \<longleftrightarrow>
     (has_epoch_key en cid (seq_epoch (nd_sequence_number n)) \<or> \<not> is_ephemeral (nd_authentication n))
     \<and> 0 < seq_epoch (nd_sequence_number n) \<and> seq_epoch (nd_sequence_number n) < length keys"
  by (rule learn_signing_key_panics)

theorem disclosed_keys_panic_witness:
  "learn_signing_key [0] (revoke_node\<lparr>nd_sequence_number := 2 ^ 32\<rparr>) [] [[], []] sample_engine = None"
  using disclosed_keys_panic [of "[0]" "revoke_node\<lparr>nd_sequence_number := 2 ^ 32\<rparr>" "[]" "[[], []]" sample_engine]
  by (simp add: seq_epoch_def is_ephemeral_def sample_node_fields)

section \<open>Wire format and keys\<close>

text \<open>
  Padding is undone exactly and hides the length up to a power of two: the padded length is a power of
  two, at least 128, more than the length of the data and at most twice it (or the smallest bin).
\<close>

theorem padding_exact:
  "remove_padding (apply_padding d) = Inr d
   \<and> (\<exists>j\<ge>7. length (apply_padding d) = 2 ^ j \<and> length d < 2 ^ j \<and> (2 ^ j = MIN_PADDING_BIN \<or> 2 ^ j < 2 * (length d + 1)))"
  using remove_apply_padding length_apply_padding by blast

lemma pack_wire_succeeds: "content_codec env (nd_content n) (nd_metadata n) \<Longrightarrow> \<exists>w. pack_wire env n keys compress = Inr w"
  by (auto simp: content_codec_def pack_wire_def Let_def case_prod_unfold split: pack_keys.split)

text \<open>
  Unpacking undoes packing, compressed or not: an exception node comes back as it was, with its
  sender as the author; a content node packed under a message key and a header key reveals its sequence number
  under the header key, and under the message key comes back with the author the receiver gives. Only the nonce of the
  external work, which is not encoded, is lost.
\<close>

theorem wire_round_trip:
  assumes "crypto_laws env" "node_typed n" "content_codec env (nd_content n) (nd_metadata n)"
    and "length (pk_routing_nonce ck) = 12" "length (pk_payload_nonce ck) = 12"
  shows "(\<exists>w. pack_wire env n PackException compress = Inr w
            \<and> unpack_wire_exception env w = Some (Inr (received n (nd_sender_pk n))))
       \<and> (\<exists>w. pack_wire env n (PackContent ck) compress = Inr w
            \<and> try_decrypt_routing env w (pk_k_header ck) = Some (nd_sequence_number n)
            \<and> unpack_wire_content env w (nd_sender_pk n) author (nd_sequence_number n) (pk_k_msg ck)
                = Some (Inr (received n author)))"
proof -
  obtain w1 w2 where "pack_wire env n PackException compress = Inr w1" "pack_wire env n (PackContent ck) compress = Inr w2"
    using pack_wire_succeeds [OF assms(3)] by metis
  with pack_unpack_exception [OF assms(1-3)] pack_unpack_content [OF assms] show ?thesis by blast
qed

lemma text_node_typed: "node_typed text_node" "content_codec sample_env (nd_content text_node) (nd_metadata text_node)"
  by (simp_all add: node_typed_def text_node_def sample_node_def key_a_def u64_max_def i64_ok_def sample_codec)

theorem wire_round_trip_witness:
  "\<exists>w. pack_wire sample_env text_node PackException True = Inr w
     \<and> unpack_wire_exception sample_env w = Some (Inr (received text_node (nd_sender_pk text_node)))"
  using wire_round_trip [OF sample_laws text_node_typed, of "\<lparr>pk_k_msg = [], pk_k_header = [], pk_routing_nonce = replicate 12 0,
      pk_payload_nonce = replicate 12 0\<rparr>" True] by simp

text \<open>
  C22. The effective timestamp of a node of a well-formed history is defined, and is the latest of its own timestamp and
  those of all its ancestors: it bounds them all and is one of them.
\<close>

theorem effective_timestamp_exact:
  assumes "well_formed V" "serves get_node V" "node_ok V n" "nd_topological_rank n < fuel"
  shows "\<exists>t. effective_timestamp get_node fuel n = Some t \<and> latest V n t"
  using effective_timestamp_latest [OF assms(1,2)] assms(3,4) by blast

theorem effective_timestamp_exact_witness:
  "\<exists>child. nd_parents child = [[1]] \<and> nd_network_timestamp child = - 5 \<and>
     (\<exists>t. effective_timestamp (\<lambda>h. if h = [1] then Some revoke_node else None) 2 child = Some t \<and>
        latest (Map.empty([1] \<mapsto> node_data.truncate revoke_node)) child t)"
proof -
  let ?V = "Map.empty([1 :: u8] \<mapsto> node_data.truncate revoke_node)"
  let ?child = "revoke_node\<lparr>nd_parents := [[1]], nd_topological_rank := 1, nd_network_timestamp := - 5\<rparr>"
  have root: "node_ok ?V (node_data.truncate revoke_node)"
    by (simp add: node_ok_def sample_node_fields expected_rank_def node_type_of_def MAX_PARENTS_def node_data.truncate_def)
  then have "well_formed ?V" by (simp add: well_formed_def)
  moreover have "serves (\<lambda>h. if h = [1] then Some revoke_node else None) ?V" by (simp add: serves_def)
  moreover have "node_ok ?V ?child"
    by (simp add: node_ok_def sample_node_fields expected_rank_def rank_in_def node_type_of_def MAX_PARENTS_def node_data.truncate_def)
  ultimately have "\<exists>t. effective_timestamp (\<lambda>h. if h = [1] then Some revoke_node else None) 2 ?child = Some t \<and> latest ?V ?child t"
    by (rule effective_timestamp_exact) simp
  then show ?thesis by (intro exI [of _ ?child]) simp
qed

text \<open>
  C23. Both ends derive the same keys: what is wrapped for a pre-key, with or without a one-time key and an
  additional secret, is unwrapped with the matching secret keys, and the handshake's secret is defined and the
  same for the initiator and the recipient.
\<close>

theorem key_agreement:
  assumes "crypto_laws env"
  shows "ecies_unwrap env spk_sk (we_x_public env e_sk) opk_sk auth
           (ecies_wrap env e_sk (we_x_public env spk_sk) (map_option (we_x_public env) opk_sk) auth p) = Some p
    \<and> x3dh_derive_secret_initiator env a_sk e_sk (we_ed_public env b_sk) (we_x_public env spk_sk) (map_option (we_x_public env) opk_sk)
        = x3dh_derive_secret_recipient env b_sk spk_sk (we_ed_public env a_sk) (we_x_public env e_sk) opk_sk
    \<and> x3dh_derive_secret_recipient env b_sk spk_sk (we_ed_public env a_sk) (we_x_public env e_sk) opk_sk \<noteq> None"
  using ecies_round_trip [OF assms] x3dh_agreement_secret [OF assms] by blast

theorem key_agreement_witness:
  "ecies_unwrap sample_env [1] [2] None None (ecies_wrap sample_env [2] [1] None None [7]) = Some [7]"
  using key_agreement [OF sample_laws, of "[1]" "[2]" None None "[7]"] by (simp add: sample_fields)

section \<open>The ratchet\<close>

text \<open>
  C24. The ratchet delivers in any order: when messages of an epoch arrive in any order, none of them more than the
  window ahead of the latest, each gets the key at its own position of the sender's chain the first time it arrives,
  and none the second time. The state after each is the one the engine's own step leaves behind.
\<close>

theorem ratchet_any_order:
  assumes "after_delivery env c pk e seed T D lo" "in_window e lo (map fst ds)" "lo < u64_max"
    and "\<forall>(_, now_ms, _) \<in> set ds. time_ok T now_ms"
  shows "(\<exists>c'. advance_all env c pk ds = Some (keys_once env seed D (map fst ds), c'))
    \<and> map_option snd (use_key env cid n h now_ms em)
        = map_option snd (advance_ratchet env em (nd_sender_pk n) (nd_sequence_number n) now_ms h)"
  using advance_all_keys [OF assms] use_key_advances by blast

theorem ratchet_any_order_witness:
  "\<exists>c'. advance_all sample_env sample_conv key_a [(2, 0, []), (1, 0, []), (2, 0, [])]
     = Some ([Some (message_key_at sample_env sample_seed 2), Some (message_key_at sample_env sample_seed 1), None], c')"
proof -
  have win: "in_window 0 0 (map fst [(2, 0 :: int, [] :: node_hash), (1, 0, []), (2, 0, [])])"
    by (simp add: seq_epoch_def seq_counter_def MAX_SKIP_def u64_max_def)
  have time: "\<forall>(_, now_ms, _) \<in> set [(2 :: nat, 0 :: int, [] :: node_hash), (1, 0, []), (2, 0, [])]. time_ok 0 now_ms"
    by (simp add: time_ok_def SKIPPED_KEY_TTL_def)
  show ?thesis
    using ratchet_any_order [OF sample_after [of key_a] win _ time] by (simp add: u64_max_def del: advance_all.simps)
qed

text \<open>
  An exception node takes a sequence number but no position of the chain, so the key of the node after it depends on
  whether the exception node has been seen: with it, the key follows the last one; without it, a position is
  skipped, and the receiver gets the next key.
\<close>

theorem exception_desync:
  assumes "fm_get (ed_sender_ratchets c) pk = Some (lo, key, h, e)" "ed_skipped_keys c = []"
    and "seq_epoch lo = e" "seq_epoch (lo + 2) = e" "lo + 2 \<le> u64_max"
  shows "peek_keys env (track_sender_seq c pk (lo + 1) e) pk (lo + 2) now_ms
           = Some (Some (key_pair env key), track_sender_seq c pk (lo + 1) e)
    \<and> (\<exists>c'. peek_keys env c pk (lo + 2) now_ms = Some (Some (key_pair env (ratchet_step env key)), c'))"
  using peek_after_exception [OF assms] by blast

theorem exception_desync_witness:
  "\<exists>c c' c''. peek_keys sample_env (track_sender_seq c key_a 2 0) key_a 3 0 = Some (Some (key_pair sample_env (replicate 32 0)), c')
     \<and> peek_keys sample_env c key_a 3 0 = Some (Some (key_pair sample_env (replicate 32 1)), c'')
     \<and> key_pair sample_env (replicate 32 0) \<noteq> key_pair sample_env (replicate 32 1)"
proof -
  let ?c = "sample_conv\<lparr>ed_sender_ratchets := [(key_a, 1, replicate 32 0, None, 0)]\<rparr>"
  have step: "ratchet_step sample_env (replicate 32 0) = replicate 32 1" by (simp add: ratchet_step_def sample_fields)
  have "peek_keys sample_env (track_sender_seq ?c key_a (1 + 1) 0) key_a (1 + 2) 0
      = Some (Some (key_pair sample_env (replicate 32 0)), track_sender_seq ?c key_a (1 + 1) 0)
    \<and> (\<exists>c'. peek_keys sample_env ?c key_a (1 + 2) 0 = Some (Some (key_pair sample_env (ratchet_step sample_env (replicate 32 0))), c'))"
    by (rule exception_desync) (simp_all add: sample_conv_fields seq_epoch_def u64_max_def)
  moreover have "(1 :: nat) + 1 = 2" "(1 :: nat) + 2 = 3" by simp_all
  moreover have "key_pair sample_env (replicate 32 0) \<noteq> key_pair sample_env (replicate 32 1)"
    by (simp add: key_pair_def sample_derived)
  ultimately show ?thesis unfolding step by metis
qed

text \<open>
  The receiver finds the sender of a packed node: a node packed under the key of its position, at most 2000 ahead of the
  last one accepted, in the newest epoch, is attributed to its sender and comes back as it was, if the four-byte
  hint of no earlier position collides and no sender tried before claims it.
\<close>

theorem packed_node_identified:
  assumes "crypto_laws env" "node_typed n" "content_codec env (nd_content n) (nd_metadata n)"
    and "length (pk_routing_nonce ck) = 12" "length (pk_payload_nonce ck) = 12"
    and "pack_wire env n (PackContent ck) compress = Inr w"
    and "after_delivery env c (nd_sender_pk n) e seed T D lo" "get_keys c e = Some keys"
    and "rev (sort (fm_keys (ed_epochs c))) = e # older"
    and "seq_epoch (nd_sequence_number n) = e" "lo < nd_sequence_number n" "nd_sequence_number n \<le> lo + MAX_RATCHET_SKIP"
    and "pk_k_msg ck = message_key_at env seed (nd_sequence_number n)"
      "pk_k_header ck = header_key env c (nd_sender_pk n) e (ck_k_conv keys)"
    and "\<forall>s. lo < s \<and> s < nd_sequence_number n \<longrightarrow>
        compute_sender_hint env (message_key_at env seed s) \<noteq> compute_sender_hint env (pk_k_msg ck)"
    and "all_senders = before @ (nd_sender_pk n, author) # after"
      "\<forall>(s, l) \<in> set before. try_sender_for_wire env c w s l (e # older) = Some None"
  shows "identify_sender_and_unpack env c w all_senders = Some (Some (received n author))"
  using assms by (rule identify_packed)

theorem packed_node_identified_witness:
  "\<exists>ck w. pack_wire sample_env text_node (PackContent ck) False = Inr w
     \<and> identify_sender_and_unpack sample_env sample_conv w [(key_a, key_b)] = Some (Some (received text_node key_b))"
proof -
  let ?keys = "ck_derive sample_env (replicate 32 0)"
  let ?ck = "\<lparr>pk_k_msg = message_key_at sample_env sample_seed 1, pk_k_header = header_key sample_env sample_conv key_a 0 (ck_k_conv ?keys),
      pk_routing_nonce = replicate 12 0, pk_payload_nonce = replicate 12 0\<rparr>"
  obtain w where w: "pack_wire sample_env text_node (PackContent ?ck) False = Inr w"
    using pack_wire_succeeds [OF text_node_typed(2)] by metis
  have fields: "nd_sender_pk text_node = key_a" "nd_sequence_number text_node = 1" by (simp_all add: text_node_def sample_node_def)
  have "identify_sender_and_unpack sample_env sample_conv w [(key_a, key_b)] = Some (Some (received text_node key_b))"
    by (rule packed_node_identified [OF sample_laws text_node_typed _ _ w, where before = "[]" and after = "[]" and keys = ?keys
          and T = 0 and D = "{}" and lo = 0 and seed = sample_seed])
      (simp_all add: fields sample_after get_keys_def sample_conv_fields seq_epoch_def MAX_RATCHET_SKIP_def)
  with w show ?thesis by blast
qed

text \<open>
  C25. A content node that arrives after a later one of its sender is not recognized: its key was kept when the later one was
  accepted, but the search tries only positions ahead of the sender's last, so the node stays opaque (unless
  a later position's hint collides).
\<close>

theorem late_node_opaque:
  assumes "after_delivery env c pk e seed T D lo" "get_keys c e = Some keys"
    and "fm_keys (ed_epochs c) = [e]" "fm_keys (ed_sender_ratchets c) = [pk]" "flags_contain (wn_flags w) ENCRYPTED"
    and "wn_sender_hint w = compute_sender_hint env (message_key_at env seed seq)"
    and "\<forall>j < MAX_RATCHET_SKIP. compute_sender_hint env (ratchet_message_key env (chain_at env seed (seq_counter lo + j)))
        \<noteq> compute_sender_hint env (message_key_at env seed seq)"
    and "seq_epoch seq = e" "seq \<le> lo" "0 < seq_counter seq" "seq \<notin> D"
  shows "identify_sender_and_unpack env c w [(pk, l)] = Some None
    \<and> map_option fst (fm_get (ed_skipped_keys c) (pk, seq)) = Some (message_key_at env seed seq)"
  using identify_late [OF assms] by blast

theorem late_node_opaque_witness:
  "\<exists>w. identify_sender_and_unpack sample_env sample_late w [(key_a, key_b)] = Some None
     \<and> wn_sender_hint w = compute_sender_hint sample_env (message_key_at sample_env sample_seed 1)"
proof -
  let ?w = "\<lparr>wn_parents = [], wn_sender_hint = compute_sender_hint sample_env (message_key_at sample_env sample_seed 1),
      wn_encrypted_routing = [], wn_payload_data = [], wn_topological_rank = 0, wn_flags = ENCRYPTED,
      wn_authentication = EphemeralSignature []\<rparr>"
  have later: "seq_counter 2 + j = Suc (Suc j)" for j by (simp add: seq_counter_def)
  have "identify_sender_and_unpack sample_env sample_late ?w [(key_a, key_b)] = Some None \<and>
      map_option fst (fm_get (ed_skipped_keys sample_late) (key_a, 1)) = Some (message_key_at sample_env sample_seed 1)"
    by (rule late_node_opaque [OF sample_late_after, where keys = "ck_derive sample_env (replicate 32 0)"])
      (use sample_hints [symmetric] in \<open>simp_all add: sample_late_def get_keys_def sample_conv_fields
        sample_conv_fields(2) [unfolded fm_keys_def] fm_keys_def later flags_contain_def ENCRYPTED_def seq_epoch_def
        seq_counter_def del: One_nat_def\<close>)
  then show ?thesis by (intro exI [of _ ?w]) simp
qed

section \<open>Set reconciliation\<close>

text \<open>
  C26. What \<^verbatim>\<open>decode\<close> returns adds up to the table it was given: if it succeeds, the table's cells are
  exactly those of a table holding the ids returned for this side and, negatively, the ids returned
  for the other side; no more ids than the tier's cap are returned and the table is left empty.
  This needs no assumption about the hash functions.
\<close>

theorem iblt_decode_sound:
  assumes "decode b sk = Some (Inr (in_self, in_other, stats), sk')" and "cells_wf (sk_cells sk)"
  shows "sk_cells sk = encode b sk (map (\<lambda>i. (i, 1)) in_self @ map (\<lambda>i. (i, - 1)) in_other)
      (replicate (length (sk_cells sk)) cell_default) \<and>
    length in_self + length in_other \<le> d_max (from_cell_count (length (sk_cells sk))) \<and>
    sk_cells sk' = replicate (length (sk_cells sk)) cell_default"
  using decode_sound [OF assms] by blast

theorem iblt_decode_sound_witness:
  "\<exists>sk stats sk'. decode sample_blake3 sk = Some (Inr ([replicate 32 7], [], stats), sk') \<and>
     sk_cells sk = encode sample_blake3 sk [(replicate 32 7, 1)] (replicate (length (sk_cells sk)) cell_default)"
proof -
  let ?n = "sketch_new_keyed 4 None" and ?x = "replicate 32 7 :: bytes"
  obtain d stats sk' where d: "decode sample_blake3 d = Some (Inr ([?x], [], stats), sk')" "cells_wf (sk_cells d)"
    using sample_decode by blast
  from iblt_decode_sound [OF d] d(1) show ?thesis by auto
qed

text \<open>
  C27. On a table of 32-byte ids whose counters are not within 700 of the ends of \<^verbatim>\<open>i32\<close>, also one made up by a hostile peer, \<^verbatim>\<open>decode\<close>
  neither panics nor loops, with one exception: the loop that draws the indices of an id has no bound in the code, and if \<^verbatim>\<open>decode\<close> does not
  return then it runs forever for some 32-byte id. That loop ends exactly when the hash stream of the id has enough
  different values. When \<^verbatim>\<open>decode\<close> returns, it has made at most three
  passes over the cells and \<open>k\<close> further steps for each of the ids the tier allows.
\<close>

theorem iblt_decode_terminates:
  assumes "cells_small (2 ^ 31 - 700) (sk_cells sk)" and "cells_wf (sk_cells sk)"
  shows "(decode b sk = None \<longrightarrow> (\<exists>nid. length nid = 32 \<and> get_indices b sk nid = None)) \<and>
    (\<forall>nid. get_indices b sk nid = None \<longleftrightarrow> \<not> draws_enough b sk nid) \<and>
    (\<forall>r sk'. decode b sk = Some (r, sk') \<longrightarrow>
      (\<exists>stats. (r = Inl (DecodingFailed stats) \<or> (\<exists>in_self in_other. r = Inr (in_self, in_other, stats))) \<and>
        iterations stats \<le> 3 * length (sk_cells sk) +
          min (sk_k sk) (length (sk_cells sk)) * d_max (from_cell_count (length (sk_cells sk)))))"
  using decode_stuck [OF assms(1) _ assms(2), of b] decode_work [of b sk] by (auto simp: get_indices_None)

theorem iblt_decode_terminates_witness:
  "\<exists>d stats sk'. decode sample_blake3 d = Some (Inr ([replicate 32 7], [], stats), sk') \<and>
     iterations stats \<le> 3 * length (sk_cells d) + min (sk_k d) (length (sk_cells d)) * d_max (from_cell_count (length (sk_cells d)))"
proof -
  obtain d stats sk' where d: "decode sample_blake3 d = Some (Inr ([replicate 32 7], [], stats), sk')"
      "cells_wf (sk_cells d)" "cells_small 1 (sk_cells d)"
    using sample_decode by blast
  have "cells_small (2 ^ 31 - 700) (sk_cells d)" using d(3) by (auto simp: cells_small_def)
  from iblt_decode_terminates [OF this d(2), of sample_blake3] d(1) show ?thesis by fastforce
qed

text \<open>
  One difference is always recovered: from the tables of a list of ids and of the same ids, in any order, with
  one more, subtraction and decoding give exactly that id, for every hash function.
\<close>

theorem iblt_reconcile_one:
  assumes "insert_all b (sketch_new_keyed n key) ys = Some skA"
    and "insert_all b (sketch_new_keyed n key) xs = Some skB" and "mset ys = mset xs + {#x#}"
    and "subtract skA skB = Some (Inr d)" and "0 < n" and "\<forall>y \<in> set ys. length y = 32"
    and "draws_enough b (sketch_new_keyed n key) x"
  shows "\<exists>stats sk'. decode b d = Some (Inr ([x], [], stats), sk')"
  by (rule reconcile_single_difference [OF assms])

theorem iblt_reconcile_one_witness:
  "\<exists>skA d stats sk'. insert_all sample_blake3 (sketch_new_keyed 4 None) [replicate 32 7] = Some skA \<and>
     subtract skA (sketch_new_keyed 4 None) = Some (Inr d) \<and>
     decode sample_blake3 d = Some (Inr ([replicate 32 7], [], stats), sk')"
proof -
  obtain skA d where A: "insert_all sample_blake3 (sketch_new_keyed 4 None) [replicate 32 7] = Some skA"
    "subtract skA (sketch_new_keyed 4 None) = Some (Inr d)" using sample_difference by auto
  from iblt_reconcile_one [OF A(1) _ _ A(2), of "[]"] A show ?thesis by (auto simp: sample_draws sketch_new_keyed_cells)
qed

text \<open>
  Subtracting tables subtracts sets: the difference of the tables of two lists of signed ids is
  the table of the first list together with the negated second list.
\<close>

theorem iblt_subtract:
  assumes "subtract (sk\<lparr>sk_cells := encode b sk es z\<rparr>) (sk\<lparr>sk_cells := encode b sk es' z\<rparr>) = Some (Inr d)"
    and "z = replicate (length (sk_cells sk)) cell_default" and "\<forall>e \<in> set es. length (fst e) = 32"
  shows "d = sk\<lparr>sk_cells := encode b sk (es @ map negate es') z\<rparr>"
  using assms by (rule subtract_encodes)

theorem iblt_subtract_witness:
  "\<exists>skA d. insert_all sample_blake3 (sketch_new_keyed 4 None) [replicate 32 7] = Some skA \<and>
     subtract skA (sketch_new_keyed 4 None) = Some (Inr d) \<and>
     d = (sketch_new_keyed 4 None)\<lparr>sk_cells := encode sample_blake3 (sketch_new_keyed 4 None)
       [(replicate 32 7, 1)] (replicate 4 cell_default)\<rparr>"
proof -
  let ?sk = "sketch_new_keyed 4 None" and ?es = "[(replicate 32 7 :: bytes, 1 :: int)]" and ?z = "replicate 4 cell_default"
  obtain skA d where A: "insert_all sample_blake3 ?sk [replicate 32 7] = Some skA" "subtract skA ?sk = Some (Inr d)"
    using sample_difference by blast
  have eqA: "skA = ?sk\<lparr>sk_cells := encode sample_blake3 ?sk ?es ?z\<rparr>"
    using insert_all_eq [OF A(1)] by (simp add: sketch_new_keyed_cells present_def)
  have eqB: "?sk = ?sk\<lparr>sk_cells := encode sample_blake3 ?sk [] ?z\<rparr>" by (simp add: sketch_new_keyed_def)
  have sub: "subtract (?sk\<lparr>sk_cells := encode sample_blake3 ?sk ?es ?z\<rparr>) (?sk\<lparr>sk_cells := encode sample_blake3 ?sk [] ?z\<rparr>) = Some (Inr d)"
    using A(2) unfolding eqA by (subst (asm) (2) eqB)
  have "d = ?sk\<lparr>sk_cells := encode sample_blake3 ?sk (?es @ map negate []) ?z\<rparr>"
    by (rule iblt_subtract [OF sub]) (simp_all add: sketch_new_keyed_cells)
  with A show ?thesis by auto
qed

text \<open>
  Removing an id that was inserted restores the table, cell by cell.
\<close>

theorem iblt_insert_remove:
  assumes "sketch_insert b sk x = Some sk1" and "sketch_remove b sk1 x = Some sk2"
    and "cells_wf (sk_cells sk)" and "length x = 32"
  shows "sk2 = sk"
proof -
  have sk1: "sk1 = sk\<lparr>sk_cells := add_entry b sk (x, 1) (sk_cells sk)\<rparr>"
    using assms(1) by (simp add: sketch_insert_def sketch_update_eq)
  have "same_shape_sk sk sk1" by (simp add: sk1)
  then have "sk2 = sk1\<lparr>sk_cells := add_entry b sk (x, - 1) (sk_cells sk1)\<rparr>"
    using assms(2) sketch_update_eq [of b sk1 x "- 1" sk2] by (simp add: sketch_remove_def same_shape_add_entry)
  then show ?thesis using add_entry_cancel(1) [OF assms(3,4), of b sk 1] by (simp add: sk1)
qed

theorem iblt_insert_remove_witness:
  "\<exists>sk1. sketch_insert sample_blake3 (sketch_new_keyed 4 None) (replicate 32 7) = Some sk1 \<and>
     sketch_remove sample_blake3 sk1 (replicate 32 7) = Some (sketch_new_keyed 4 None)"
proof -
  obtain sk1 sk2 where sk: "sketch_insert sample_blake3 (sketch_new_keyed 4 None) (replicate 32 7) = Some sk1"
    "sketch_remove sample_blake3 sk1 (replicate 32 7) = Some sk2" using sample_round_trip by blast
  from iblt_insert_remove [OF sk] sk show ?thesis by (simp add: sketch_new_keyed_cells)
qed

text \<open>
  The cells of an id are well chosen: as soon as the hash stream has yielded enough different
  indices the loop returns, with as many distinct indices as the table allows (four), in ascending
  order and all within the table.
\<close>

theorem iblt_indices:
  assumes "draws_enough b sk nid"
  shows "\<exists>is. get_indices b sk nid = Some is \<and> sorted is \<and> distinct is \<and>
    set is \<subseteq> {..<length (sk_cells sk)} \<and> length is = min (sk_k sk) (length (sk_cells sk))"
  using get_indices_total [OF assms] get_indices_sound by blast

theorem iblt_indices_witness:
  "\<exists>is. get_indices sample_blake3 (sketch_new_keyed 4 None) [1, 2] = Some is \<and> sorted is \<and> distinct is \<and>
    set is \<subseteq> {..<length (sk_cells (sketch_new_keyed 4 None))} \<and>
    length is = min (sk_k (sketch_new_keyed 4 None)) (length (sk_cells (sketch_new_keyed 4 None)))"
  by (rule iblt_indices [OF sample_draws])

section \<open>Behaviours to know about\<close>

text \<open>
  A peer can make a session panic (where overflow is checked) with one pong: once a ping is
  outstanding, timestamps of opposite extremes overflow the clock arithmetic.
\<close>

theorem pong_overflow_panics:
  assumes "s_last_ping_sent s \<noteq> None"
  shows "handle_packet ops deserialize sys_ms jitter (Pong (- (2 ^ 63)) (2 ^ 63 - 1) 0) now s = None \<and>
    pong_offset (- (2 ^ 63)) (2 ^ 63 - 1) 0 sys_ms = None"
proof -
  have off: "pong_offset (- (2 ^ 63)) (2 ^ 63 - 1) 0 sys_ms = None" by (simp add: pong_offset_def i64_def)
  then show ?thesis using assms
    by (auto simp: handle_packet_def handle_packet_internal_def handle_pong_def Let_def bind_eq_None_conv)
qed

theorem pong_overflow_panics_witness:
  "handle_packet aimd_ops (\<lambda>_. None) 0 0 (Pong (- (2 ^ 63)) (2 ^ 63 - 1) 0) 5
     ((with_congestion_control_and_quota_at aimd_new (quota_new 100000) 0 7)\<lparr>s_last_ping_sent := Some 1\<rparr>) = None"
  using pong_overflow_panics [of "(with_congestion_control_and_quota_at aimd_new (quota_new 100000) 0 7)\<lparr>s_last_ping_sent := Some 1\<rparr>"]
  by simp

text \<open>
  \<^verbatim>\<open>OutgoingMessage::new\<close> truncates the fragment count to 16 bits before it checks the limit: data
  that needs 65536 fragments is accepted as a message of no fragments.
\<close>

theorem om_new_truncates:
  assumes "length data = 65536 * mtu" and "0 < mtu"
  shows "\<exists>m. om_new mt data mtu now = Some (Inr m) \<and> num_fragments m = 0 \<and> om_data m = data"
proof -
  have "div_ceil (65536 * mtu) mtu = 65536"
    using assms(2) div_mult_self1 [of mtu "mtu - 1" 65536] by (simp add: div_ceil_def algebra_simps)
  then show ?thesis using assms by (auto simp: om_new_def Let_def)
qed

theorem om_new_truncates_witness:
  "\<exists>m. om_new message_type.BlobData (replicate 65536 0) 1 0 = Some (Inr m) \<and> num_fragments m = 0 \<and> om_data m = replicate 65536 0"
  by (rule om_new_truncates) simp_all

text \<open>
  A duplicate fragment can destroy a reassembly: the size check counts the arriving bytes even
  when the fragment is already stored, so a duplicate of a fragment larger than the room left below
  the size limit is an error, and the session then drops the reassembler with everything in it.
\<close>

theorem duplicate_drops_message:
  assumes "in_ok s" and "fm_get (s_incoming s) mid = Some r" and "fb_stored (mr_buffer r) idx = Some data"
    and "fb_current_size (mr_buffer r) + length data > MAX_MESSAGE_SIZE"
  shows "\<exists>s'. process_fragment deserialize mid idx data now s = Some ([], s') \<and> fm_get (s_incoming s') mid = None"
proof -
  let ?r = "r\<lparr>mr_last_activity := now\<rparr>"
  let ?s = "s\<lparr>s_incoming := fm_set (s_incoming s) mid ?r\<rparr>"
  have add: "mr_add_fragment r idx data now = Some (Inl MessageTooLarge, ?r)"
    using assms(4) by (simp add: mr_add_fragment_def Let_def)
  have ok: "in_ok ?s"
    using in_ok_get [OF assms(1,2)] by (intro set_incoming_ok [OF assms(1,2)]) (simp_all add: mr_wf_def mr_sized_def)
  then have wf: "fm_wf (s_incoming ?s)" by (simp add: in_ok_def)
  obtain s' where s': "drop_incoming mid ?s = Some (fm_get (s_incoming ?s) mid, s')"
    by (rule drop_incoming_ok [OF ok])
  have "fm_get (s_incoming s') mid = None"
    using s' wf by (auto simp: drop_incoming_def bind_eq_Some_conv release_bytes_def split: option.splits)
  then show ?thesis using assms(2) add s' by (simp add: process_fragment_def Let_def)
qed

lemma half_full_buffer:
  "\<exists>b. fb_wf b \<and> fb_total_fragments b = 2 \<and> fb_stored b 0 = Some (replicate 600000 0) \<and> 600000 \<le> fb_current_size b \<and>
     fb_current_size b \<le> MAX_MESSAGE_SIZE \<and> unwrap_or (fb_full_fragment_size b) 0 \<le> MAX_MESSAGE_SIZE \<and>
     unwrap_or (fb_last_fragment_size b) 0 \<le> MAX_MESSAGE_SIZE"
proof -
  have new: "fb_wf (fb_new 2)" by (rule fb_new_wf) (simp_all add: MAX_FRAGMENTS_PER_MESSAGE_def)
  obtain r b where b: "fb_add_fragment (fb_new 2) 0 (replicate 600000 0) = Some (r, b)" "fb_wf b"
    "fb_total_fragments b = fb_total_fragments (fb_new 2)"
    by (rule fb_add_fragment_wf [OF new])
  have st: "fb_stored b 0 = Some (replicate 600000 0)"
    using fb_add_fragment_refines(1) [OF new b(1)] by (simp add: write_once_def fb_stored_def fb_new_def)
  then obtain rest where "fb_fragments b = Some (replicate 600000 0) # rest"
    by (cases "fb_fragments b") (auto simp: fb_stored_def)
  then have "600000 \<le> fb_current_size b" using b(2) by (simp add: fb_wf_def frag_len_def)
  moreover have "fb_current_size b \<le> MAX_MESSAGE_SIZE" "unwrap_or (fb_full_fragment_size b) 0 \<le> MAX_MESSAGE_SIZE"
    "unwrap_or (fb_last_fragment_size b) 0 \<le> MAX_MESSAGE_SIZE"
    using fb_add_fragment_sizes [OF b(1)] by (auto simp: fb_new_def unwrap_or_def MAX_MESSAGE_SIZE_def)
  ultimately show ?thesis using b(2,3) st by (intro exI [of _ b]) (simp add: fb_new_def)
qed

theorem duplicate_drops_message_witness:
  "\<exists>(s :: aimd session) s'. s_incoming s \<noteq> [] \<and>
     process_fragment (\<lambda>_. Some None) 3 0 (replicate 600000 0) 5 s = Some ([], s') \<and> fm_get (s_incoming s') 3 = None"
proof -
  obtain b where b: "fb_wf b" "fb_total_fragments b = 2" "fb_stored b 0 = Some (replicate 600000 0)" "600000 \<le> fb_current_size b"
    "fb_current_size b \<le> MAX_MESSAGE_SIZE" "unwrap_or (fb_full_fragment_size b) 0 \<le> MAX_MESSAGE_SIZE"
    "unwrap_or (fb_last_fragment_size b) 0 \<le> MAX_MESSAGE_SIZE"
    using half_full_buffer by blast
  let ?r = "\<lparr>mr_message_id = 3, mr_total_fragments = 2, mr_priority = Bulk, mr_buffer = b, mr_reserved_bytes = 0, mr_last_activity = 0\<rparr>"
  let ?s = "(with_congestion_control_and_quota_at aimd_new (quota_new 100000) 0 7)\<lparr>s_incoming := [(3, ?r)]\<rparr>"
  have "in_ok ?s"
    using b by (simp add: in_ok_def with_congestion_control_and_quota_at_def quota_new_def quota_ok_def mr_wf_def
        mr_sized_def fm_new_def limits)
  from duplicate_drops_message [OF this, of 3 ?r 0 "replicate 600000 0" "\<lambda>_. Some None" 5] b
  obtain s' where "process_fragment (\<lambda>_. Some None) 3 0 (replicate 600000 0) 5 ?s = Some ([], s')" "fm_get (s_incoming s') 3 = None"
    by (auto simp: MAX_MESSAGE_SIZE_def)
  moreover have "s_incoming ?s \<noteq> []" by simp
  ultimately show ?thesis by blast
qed

text \<open>
  A table from a peer whose counter is the least \<^verbatim>\<open>i32\<close> makes \<^verbatim>\<open>decode\<close> panic (where overflow is
  checked): \<^verbatim>\<open>is_pure\<close> takes the absolute value.
\<close>

theorem iblt_min_count_panics:
  "decode b (from_cells (\<lparr>cell_count = - (2 ^ 31), cell_id_sum = i, cell_hash_sum = h\<rparr> # cells)) = None"
proof -
  let ?sk = "from_cells (\<lparr>cell_count = - (2 ^ 31), cell_id_sum = i, cell_hash_sum = h\<rparr> # cells)"
  have "is_pure b ?sk 0 = None" by (simp add: is_pure_def from_cells_def i32_abs_def i32_def)
  then have "collect_pure b ?sk [0..<length (sk_cells ?sk)] [] = None"
    by (simp add: from_cells_def upt_conv_Cons del: upt_Suc)
  then show ?thesis by (simp add: decode_def Let_def)
qed


section \<open>The codec\<close>

definition signed_text :: "string \<Rightarrow> merkle_node" where
  "signed_text t = sample_node key_a 1 (Text t) (Signature (replicate 64 0))"

lemma nil_value: "n_values msgpack 1 [0xc0]"
proof -
  have "mp_marker 0xc0 = Null" by (simp add: mp_marker_def)
  then show ?thesis
    by (intro values_single) (simp add: one_value_def skip_value.simps read_item_Cons reading skip_values.simps)
qed

lemma signed_text_content:
  "derived_ser (content_cd msgpack) (Text [c]) = Some [0x92, 5, 0xa1, of_char c]"
  by (simp add: derived_ser_def tox_serialize_def serialize_with_ctx_def content_cd_def enum_codec_def content_arms_def
      single_arm_def multi_arm_def ser_arm_def u8_codec_def mp_small string_codec_def write_str_def string_bytes_def mp_len_def reading)

lemma signed_text_fields: "node_typed (signed_text t)" "content_ok msgpack (nd_content (signed_text ''a''))"
  "nd_sender_pk (signed_text t) = key_a" "node_auth_ok (nd_authentication (signed_text t))"
  by (simp_all add: node_typed_def signed_text_def sample_node_def key_a_def u64_max_def i64_ok_def str_ok_def
      string_bytes_def utf8_following_def)

lemma signed_text_signable: "c \<in> {CHR ''a'', CHR ''b''} \<Longrightarrow> signable msgpack (signed_text [c])"
  by (auto simp: signable_def node_ok_fields_def signed_text_def sample_node_def key_a_def list_ok_def uint_ok_def sint_ok_def
      sint_min_def sint_max_def signed_text_content str_ok_def string_bytes_def utf8_following_def)

lemma signed_text_packed:
  "\<exists>w. pack_wire (with_codecs msgpack sample_env) (signed_text ''a'') PackException False = Inr w \<and> wire_auth_ok w"
  using signed_data_ok [OF signed_text_signable, of "CHR ''a''"] signed_text_content [of "CHR ''a''"]
  by (simp add: pack_wire_def compress_payload_def signed_text_def sample_node_def wire_auth_ok_def signed_data_def)

text \<open>
  C28. The derived codec of the transport's packets keeps its contract for every library that reads what it writes:
  each packet within the ranges of its types is encoded, decoding gives it back and stops at its end whatever follows, and
  a reader that does not know it can step over it.
\<close>

theorem packet_round_trip:
  assumes "rmp_lib r" and "packet_ok p"
  shows "\<exists>bs. tox_serialize (packet_codec r) p = Some (Inr bs)
    \<and> (\<forall>rest. cd_de (packet_codec r) None (bs @ rest) = Some (Inr p, rest)
           \<and> tox_deserialize (packet_codec r) (bs @ rest) = Some (Inr p)
           \<and> skip_value r (bs @ rest) = Some (Inr (), rest))"
proof -
  obtain bs where "cd_ser (packet_codec r) None p = Some (Inr bs)" "one_value r bs"
    "\<And>rest. cd_de (packet_codec r) None (bs @ rest) = Some (Inr p, rest)"
    using codec_okE [OF rmp_lib.packet_codec_ok [OF assms(1)] assms(2)] by metis
  then show ?thesis
    by (intro exI [of _ bs])
      (simp add: tox_serialize_def serialize_with_ctx_def tox_deserialize_def deserialize_with_ctx_def one_value_def)
qed

theorem packet_round_trip_witness:
  "\<exists>bs. tox_serialize (packet_codec msgpack) (Data 7 0 1 [1, 2, 3]) = Some (Inr bs)
     \<and> tox_deserialize (packet_codec msgpack) bs = Some (Inr (Data 7 0 1 [1, 2, 3]))"
proof -
  have "packet_ok (Data 7 0 1 [1, 2, 3])" by (simp add: uint_ok_def)
  then obtain bs where "tox_serialize (packet_codec msgpack) (Data 7 0 1 [1, 2, 3]) = Some (Inr bs)"
    "\<forall>rest. tox_deserialize (packet_codec msgpack) (bs @ rest) = Some (Inr (Data 7 0 1 [1, 2, 3]))"
    using packet_round_trip [OF mp.rmp_lib_axioms] by blast
  from this(1) this(2) [rule_format, of "[]"] show ?thesis by auto
qed

text \<open>
  In the MessagePack format a fragment cut at the session's MTU, and a datagram the session accepts, always fit into
  one packet of the transport: the reserved overheads of 20 and 10 bytes are enough.
\<close>

theorem packets_fit:
  assumes "uint_ok 2 idx" "uint_ok 2 tot"
  shows "(length frag \<le> MAX_TOX_PACKET_SIZE - PACKET_OVERHEAD \<longrightarrow>
      (\<exists>bs. tox_serialize (packet_codec msgpack) (Data mid idx tot frag) = Some (Inr bs) \<and> length bs \<le> MAX_TOX_PACKET_SIZE))
    \<and> (length data + 10 \<le> MAX_TOX_PACKET_SIZE \<longrightarrow>
      (\<exists>bs. tox_serialize (packet_codec msgpack) (Datagram mt data) = Some (Inr bs) \<and> length bs \<le> MAX_TOX_PACKET_SIZE))"
proof (intro conjI impI)
  assume l: "length frag \<le> MAX_TOX_PACKET_SIZE - PACKET_OVERHEAD"
  then have s: "length frag < 2 ^ 16" by (simp add: limits)
  obtain bs where "tox_serialize (packet_codec msgpack) (Data mid idx tot frag) = Some (Inr bs)" "length bs \<le> length frag + 17"
    by (rule data_packet_length [OF assms s])
  then show "\<exists>bs. tox_serialize (packet_codec msgpack) (Data mid idx tot frag) = Some (Inr bs) \<and> length bs \<le> MAX_TOX_PACKET_SIZE"
    using l by (auto simp: limits)
next
  assume l: "length data + 10 \<le> MAX_TOX_PACKET_SIZE"
  then have s: "length data < 2 ^ 16" by (simp add: limits)
  obtain bs where "tox_serialize (packet_codec msgpack) (Datagram mt data) = Some (Inr bs)" "length bs \<le> length data + 7"
    by (rule datagram_length [OF s])
  then show "\<exists>bs. tox_serialize (packet_codec msgpack) (Datagram mt data) = Some (Inr bs) \<and> length bs \<le> MAX_TOX_PACKET_SIZE"
    using l by (auto simp: limits)
qed

theorem packets_fit_witness:
  "\<exists>bs. tox_serialize (packet_codec msgpack) (Data 7 0 1 (replicate 1353 0)) = Some (Inr bs) \<and> length bs \<le> MAX_TOX_PACKET_SIZE"
proof -
  have "uint_ok 2 0" "uint_ok 2 1" by (simp_all add: uint_ok_def)
  from packets_fit [OF this, of "replicate 1353 0" 7] show ?thesis by (simp add: limits)
qed

text \<open>
  C29. A message end to end: the envelope of a payload is encoded, shows its type in its first bytes, and when it has been
  cut into fragments and these arrive in any order, any number of times but each at least once, the receiver
  assembles and decodes the type and the payload that were sent.
\<close>

theorem message_end_to_end:
  assumes "rmp_lib r" and "length payload < 2 ^ 32"
  shows "\<exists>bs. envelope_serialize r mt payload = Inr bs \<and> envelope_deserialize r bs = Some (Some (mt, payload))
    \<and> (\<forall>mtu now m js. om_new mt bs mtu now = Some (Inr m) \<and> 0 < mtu \<and> div_ceil (length bs) mtu < 65536
          \<and> set js = {..<num_fragments m} \<longrightarrow>
        (\<exists>b out. fb_adds (fb_new (num_fragments m)) (map (\<lambda>i. (i, om_get_fragment m i)) js) = Some b \<and> fb_is_complete b
           \<and> fb_assemble b = Some out \<and> envelope_deserialize r out = Some (Some (mt, payload))))"
proof -
  obtain bs where bs: "envelope_serialize r mt payload = Inr bs" "envelope_deserialize r bs = Some (Some (mt, payload))" "bs \<noteq> []"
    by (rule rmp_lib.envelope_round_trip [OF assms])
  show ?thesis
  proof (intro exI [of _ bs] conjI allI impI)
    fix mtu now m js
    assume "om_new mt bs mtu now = Some (Inr m) \<and> 0 < mtu \<and> div_ceil (length bs) mtu < 65536 \<and> set js = {..<num_fragments m}"
    then obtain b where "fb_adds (fb_new (num_fragments m)) (map (\<lambda>i. (i, om_get_fragment m i)) js) = Some b"
      "fb_is_complete b" "fb_assemble b = Some bs" using reassembled [OF _ _ bs(3)] by blast
    then show "\<exists>b out. fb_adds (fb_new (num_fragments m)) (map (\<lambda>i. (i, om_get_fragment m i)) js) = Some b \<and> fb_is_complete b
        \<and> fb_assemble b = Some out \<and> envelope_deserialize r out = Some (Some (mt, payload))" using bs(2) by blast
  qed (fact bs)+
qed

theorem message_end_to_end_witness:
  "\<exists>bs. envelope_serialize msgpack message_type.BlobData [1, 2, 3] = Inr bs \<and> envelope_deserialize msgpack bs = Some (Some (message_type.BlobData, [1, 2, 3]))
     \<and> (\<exists>m b. om_new message_type.BlobData bs 2 0 = Some (Inr m)
          \<and> fb_adds (fb_new (num_fragments m)) (map (\<lambda>i. (i, om_get_fragment m i)) [3, 2, 0, 2, 1]) = Some b \<and> fb_is_complete b)"
proof -
  let ?bs = "[0x92, message_type_tag message_type.BlobData, 0xc4, 3, 1, 2, 3] :: bytes"
  have bs: "envelope_serialize msgpack message_type.BlobData [1, 2, 3] = Inr ?bs"
    by (subst envelope_bytes) (simp_all add: mp_len_def)
  obtain m where m: "om_new message_type.BlobData ?bs 2 0 = Some (Inr m)" "num_fragments m = 4"
    by (simp add: om_new_def Let_def div_ceil_def MAX_FRAGMENTS_PER_MESSAGE_def)
  have js: "set [3, 2, 0, 2, 1] = {..<num_fragments m}" using m(2) by auto
  have ceil: "div_ceil (length ?bs) 2 < 65536" by (simp add: div_ceil_def)
  have len: "length [1, 2, 3 :: u8] < 2 ^ 32" by simp
  have "om_new message_type.BlobData ?bs 2 0 = Some (Inr m) \<and> 0 < (2 :: nat) \<and> div_ceil (length ?bs) 2 < 65536 \<and> set [3, 2, 0, 2, 1] = {..<num_fragments m}"
    using m(1) js ceil by simp
  with message_end_to_end [OF mp.rmp_lib_axioms len, of message_type.BlobData] m(1) show ?thesis
    unfolding bs sum.inject by blast
qed

text \<open>
  A reader accepts what a newer version writes: a struct with more fields at its end is read as the fields the reader
  knows, the others are stepped over, and what follows the struct is read from the right place.
\<close>

theorem newer_structs_read:
  assumes "rmp_lib r" "fields_ok r fs P" "P v" "fl_ser fs ctx v = Some (Inr bs)" "n_values r k extra" "fl_count fs + k < 2 ^ 32"
  shows "cd_de (struct_codec r mk unmk fs) ctx (rp_write_array_len r (fl_count fs + k) @ bs @ extra @ rest) = Some (Inr (mk v), rest)"
  using rmp_lib.de_array_of_longer [OF assms(1-3,5,6,4), of rest]
  by (simp add: struct_codec_def conv_codec_def struct_fields_def reading)

theorem newer_structs_read_witness:
  "cd_de (nack_codec msgpack) None [0x93, 7, 0x91, 2, 0xc0, 5] = Some (Inr \<lparr>nack_message_id = 7, nack_missing_indices = [2]\<rparr>, [5])"
proof -
  let ?fs = "field (mid_codec msgpack) (field (seq_codec msgpack (fragment_codec msgpack)) no_fields)"
  have ser: "fl_ser ?fs None (7, [2], ()) = Some (Inr [7, 0x91, 2])"
    by (simp add: field_def no_fields_def ser_numbers seq_codec_def ser_items_def mp_small mp_uint_def reading)
  have ok: "fields_ok msgpack ?fs (\<lambda>(_, l, _). list_ok (uint_ok 2) l)"
    using field_ok [OF mp.mid_codec_ok field_ok [OF mp.seq_codec_ok [OF mp.fragment_codec_ok] no_fields_ok]]
    by (rule fields_ok_mono) auto
  have "rp_write_array_len msgpack (fl_count ?fs + 1) = [0x93]" by (simp add: mp_small)
  moreover have "cd_de (nack_codec msgpack) None (rp_write_array_len msgpack (fl_count ?fs + 1) @ [7, 0x91, 2] @ [0xc0] @ [5])
      = Some (Inr (case (7, [2], ()) of (mid, missing, _) \<Rightarrow> \<lparr>nack_message_id = mid, nack_missing_indices = missing\<rparr>), [5])"
    unfolding nack_codec_def
    by (rule newer_structs_read [OF mp.rmp_lib_axioms ok _ ser nil_value]) (simp_all add: list_ok_def uint_ok_def)
  ultimately show ?thesis by simp
qed

text \<open>
  C30. Stepping over an unknown field can panic: the number of entries of a map is doubled in the type of its
  length. The header of a map panics the reader exactly when it announces 32768 to 65535 entries (a 16-bit length) or \<open>2 ^ 31\<close> and more
  (a 32-bit length). With one such map as an additional field, ten bytes of an acknowledgement or seven of an envelope panic
  the decoder, and a new session panics on the packet that carries the envelope (where overflow is checked).
\<close>

theorem long_map_panics:
  assumes "n < 2 ^ 32"
  shows "(read_item msgpack (rp_write_map_len msgpack n @ rest) = None \<longleftrightarrow> 2 ^ 15 \<le> n \<and> n < 2 ^ 16 \<or> 2 ^ 31 \<le> n) \<and>
    (2 ^ 15 \<le> n \<and> n < 2 ^ 16 \<or> 2 ^ 31 \<le> n \<longrightarrow>
      tox_deserialize (packet_codec msgpack) ([0x92, 1, 0x95, 0, 0, 0, 0] @ rp_write_map_len msgpack n @ rest) = None \<and>
      (let envelope = [0x93, message_type_tag mt, 0xc4, 0] @ rp_write_map_len msgpack n @ rest
       in envelope_deserialize msgpack envelope = None \<and>
          (length envelope \<le> MAX_TOX_PACKET_SIZE \<longrightarrow>
            handle_packet ops (envelope_deserialize msgpack) sys_ms jitter (Data mid 0 1 envelope) now
              (with_congestion_control_at cc t0 first_id) = None)))"
proof -
  have iff: "doubling_overflows n \<longleftrightarrow> 2 ^ 15 \<le> n \<and> n < 2 ^ 16 \<or> 2 ^ 31 \<le> n" by (rule doubling_overflows_def)
  show ?thesis
    unfolding iff [symmetric] Let_def
  proof (intro conjI impI)
    show "read_item msgpack (rp_write_map_len msgpack n @ rest) = None \<longleftrightarrow> doubling_overflows n"
      using read_map_header [OF assms, of rest] by simp
  next
    assume n: "doubling_overflows n"
    show "tox_deserialize (packet_codec msgpack) ([0x92, 1, 0x95, 0, 0, 0, 0] @ rp_write_map_len msgpack n @ rest) = None"
      by (rule ack_long_map [OF assms n])
    show "envelope_deserialize msgpack ([0x93, message_type_tag mt, 0xc4, 0] @ rp_write_map_len msgpack n @ rest) = None"
      by (rule envelope_long_map [OF assms n])
    then show "handle_packet ops (envelope_deserialize msgpack) sys_ms jitter
        (Data mid 0 1 ([0x93, message_type_tag mt, 0xc4, 0] @ rp_write_map_len msgpack n @ rest)) now
        (with_congestion_control_at cc t0 first_id) = None"
      if "length ([0x93, message_type_tag mt, 0xc4, 0] @ rp_write_map_len msgpack n @ rest) \<le> MAX_TOX_PACKET_SIZE"
      by (rule fresh_session_panics) (rule that)
  qed
qed

theorem long_map_panics_witness:
  "handle_packet aimd_ops (envelope_deserialize msgpack) 1000 3 (Data 9 0 1 ([0x93, message_type_tag message_type.BlobData, 0xc4, 0, 0xde] @ be_bytes 2 32768)) 5
     (with_congestion_control_at aimd_new 0 7) = None \<and>
   read_item msgpack (rp_write_map_len msgpack 65536) \<noteq> None"
proof -
  have "rp_write_map_len msgpack 32768 = 0xde # be_bytes 2 32768" by (simp add: mp_len_def del: be_bytes.simps)
  then show ?thesis
    using long_map_panics [of 32768 "[]" message_type.BlobData aimd_ops 1000 3 9 5 aimd_new 0 7] long_map_panics [of 65536 "[]"]
    by (simp add: Let_def MAX_TOX_PACKET_SIZE_def del: be_bytes.simps)
qed

text \<open>
  C31. A content of an unknown variant is kept and written again as it was read when it has one payload or none,
  but not with two: the payloads are kept in a row under a header that counts one, so the bytes of the node change,
  and whoever reads the result loses the second payload.
\<close>

theorem unknown_content_forwarded:
  assumes "rmp_lib r" "12 \<le> disc" "disc < 256" "one_value r x" "one_value r y"
  shows "(\<exists>bs. derived_ser (content_cd r) (Unknown (of_nat disc) x) = Some bs
        \<and> (\<forall>rest. derived_de (content_cd r) (bs @ rest) = Some (Inr (Unknown (of_nat disc) x, length bs))))
    \<and> (let received = rp_write_array_len r 3 @ rp_write_uint r disc @ x @ y;
            forwarded = rp_write_array_len r 2 @ rp_write_uint r disc @ x @ y
       in derived_de (content_cd r) received = Some (Inr (Unknown (of_nat disc) (x @ y), length received))
        \<and> derived_ser (content_cd r) (Unknown (of_nat disc) (x @ y)) = Some forwarded
        \<and> derived_de (content_cd r) forwarded = Some (Inr (Unknown (of_nat disc) x, length forwarded - length y)))"
  using rmp_lib.unknown_kept [OF assms(1-4)] rmp_lib.unknown_loses [OF assms] by blast

theorem unknown_content_forwarded_witness:
  "derived_de (content_cd msgpack) [0x93, 20, 5, 6] = Some (Inr (Unknown 20 [5, 6], 4))
   \<and> derived_ser (content_cd msgpack) (Unknown 20 [5, 6]) = Some [0x92, 20, 5, 6]"
proof -
  have "one_value msgpack [5]" "one_value msgpack [6]"
    using scalar_one_value [OF mp.uint_format, of 5] scalar_one_value [OF mp.uint_format, of 6] by (simp_all add: mp_small)
  from unknown_content_forwarded [OF mp.rmp_lib_axioms _ _ this, of 20] show ?thesis by (simp add: mp_small Let_def)
qed

text \<open>
  C32. The hash of a node is \<^verbatim>\<open>blake3\<close> of an encoding that determines it: the bytes hashed for two nodes are the same exactly
  when the nodes agree in every encoded field (the external nonce is not one). What a signature covers is exact as well: the signed bytes of two nodes are the same exactly
  when the nodes agree in parents, sender, sequence number, rank, timestamp, content and metadata, and those of two
  encrypted nodes determine the whole wire node. The author of a node is hashed but not signed.
\<close>

theorem signature_covers_node:
  assumes "rmp_lib r" "signable r n" "signable r m"
  shows "(\<exists>x y. derived_ser (merkle_node_cd r) (with_nonce (node_data.truncate n) 0) = Some x
        \<and> derived_ser (merkle_node_cd r) (with_nonce (node_data.truncate m) 0) = Some y
        \<and> mn_hash (with_codecs r env) n = Some (de_blake3 env x) \<and> mn_hash (with_codecs r env) m = Some (de_blake3 env y)
        \<and> (x = y \<longleftrightarrow> node_data.truncate n = node_data.truncate m))
    \<and> (serialize_for_auth (with_codecs r env) n = serialize_for_auth (with_codecs r env) m \<longleftrightarrow> same_signed n m)
    \<and> (\<forall>v w. wire_auth_ok v \<and> wire_auth_ok w
          \<and> wire_serialize_for_auth (with_codecs r env) v = wire_serialize_for_auth (with_codecs r env) w \<longrightarrow>
        wire_auth_data.truncate v = wire_auth_data.truncate w)"
  using rmp_lib.hash_identifies [OF assms, of env] rmp_lib.signature_covers [OF assms] rmp_lib.wire_signature_covers [OF assms(1)]
  by blast

theorem signature_covers_node_witness:
  "serialize_for_auth (with_codecs msgpack sample_env) (signed_text ''a'') \<noteq> serialize_for_auth (with_codecs msgpack sample_env) (signed_text ''b'')"
  using signature_covers_node [OF mp.rmp_lib_axioms signed_text_signable signed_text_signable, where env = sample_env]
  by (simp add: same_signed_def signed_text_def sample_node_def)

text \<open>
  C33. The whole way of a node over the wire, with the derived codecs: a packed exception or content node is encoded to
  bytes, decoded from them, and unpacked to the node that was packed except for two fields the wire form does not carry: the external nonce is 0, and
  the author is the sender of an exception node, and for a content node the one the receiver names. With the right author the node has
  the hash it was packed with. The packed node has to stay below the 4 GiB of an item.
\<close>

theorem node_over_the_wire:
  assumes "rmp_lib r" "crypto_laws env" "node_typed n" "content_ok r (nd_content n)"
    and "length (pk_routing_nonce ck) = 12" "length (pk_payload_nonce ck) = 12"
    and "pack_wire (with_codecs r env) n keys compress = Inr w" "wire_auth_ok w" "node_auth_ok (nd_authentication n)"
  shows "\<exists>bs. tox_serialize (wire_node_cd r) w = Some (Inr bs) \<and> tox_deserialize (wire_node_cd r) bs = Some (Inr w)
    \<and> (keys = PackException \<longrightarrow>
         unpack_wire_exception (with_codecs r env) w = Some (Inr (n\<lparr>nd_author_pk := nd_sender_pk n, mn_pow_nonce := 0\<rparr>)))
    \<and> (keys = PackContent ck \<longrightarrow>
         try_decrypt_routing (with_codecs r env) w (pk_k_header ck) = Some (nd_sequence_number n)
       \<and> unpack_wire_content (with_codecs r env) w (nd_sender_pk n) author (nd_sequence_number n) (pk_k_msg ck)
            = Some (Inr (n\<lparr>nd_author_pk := author, mn_pow_nonce := 0\<rparr>)))
    \<and> mn_hash (with_codecs r env) (n\<lparr>nd_author_pk := nd_author_pk n, mn_pow_nonce := 0\<rparr>) = mn_hash (with_codecs r env) n"
proof -
  have laws: "crypto_laws (with_codecs r env)" using assms(2) by simp
  have codec: "content_codec (with_codecs r env) (nd_content n) (nd_metadata n)"
    by (rule rmp_lib.derived_content_codec [OF assms(1,4)])
  have hash: "mn_hash (with_codecs r env) (n\<lparr>nd_author_pk := nd_author_pk n, mn_pow_nonce := 0\<rparr>) = mn_hash (with_codecs r env) n"
    by (simp add: mn_hash_def node_data.truncate_def)
  have "wn_authentication w = nd_authentication n"
    using assms(7) by (auto simp: pack_wire_def Let_def case_prod_unfold split: option.splits pack_keys.splits)
  then obtain bs where "tox_serialize (wire_node_cd r) w = Some (Inr bs)" "tox_deserialize (wire_node_cd r) bs = Some (Inr w)"
    using rmp_lib.wire_node_bytes [OF assms(1,8)] assms(9) by metis
  then show ?thesis
    using pack_unpack_exception(1) [OF laws assms(3) codec] pack_unpack_content [OF laws assms(3) codec assms(5,6)] assms(7) hash
    unfolding received_def by blast
qed

theorem node_over_the_wire_witness:
  "\<exists>w bs. pack_wire (with_codecs msgpack sample_env) (signed_text ''a'') PackException False = Inr w
     \<and> tox_serialize (wire_node_cd msgpack) w = Some (Inr bs) \<and> tox_deserialize (wire_node_cd msgpack) bs = Some (Inr w)
     \<and> unpack_wire_exception (with_codecs msgpack sample_env) w = Some (Inr ((signed_text ''a'')\<lparr>nd_author_pk := key_a, mn_pow_nonce := 0\<rparr>))"
proof -
  let ?ck = "\<lparr>pk_k_msg = [], pk_k_header = [], pk_routing_nonce = replicate 12 0, pk_payload_nonce = replicate 12 0\<rparr>"
  obtain w where w: "pack_wire (with_codecs msgpack sample_env) (signed_text ''a'') PackException False = Inr w" "wire_auth_ok w"
    using signed_text_packed by blast
  from node_over_the_wire [OF mp.rmp_lib_axioms sample_laws signed_text_fields(1,2), where ck = ?ck and keys = PackException and w = w
      and compress = False] w
  show ?thesis by (auto simp: signed_text_fields)
qed

section \<open>Congestion controllers\<close>

text \<open>
  C34. Whichever controller a session is given (AIMD, CUBIC, BBRv1 or BBRv2), it can always send: after any sequence of
  acknowledgements, losses, timeouts and sends within a year the window holds a fragment, the pacing rate is a positive
  finite number, and the controller is still the one that was chosen. Of the power functions CUBIC calls only bounds are assumed.
\<close>

theorem controllers_keep_sending:
  assumes "pow_laws pw" "list_all cc_event_ok evs"
  shows "1 \<le> cc_cwnd (algorithm_ops rg pw) (fold (cc_apply (algorithm_ops rg pw)) evs (algorithm_new ty g)) \<and>
    (\<exists>r. cc_pacing_rate (algorithm_ops rg pw) (fold (cc_apply (algorithm_ops rg pw)) evs (algorithm_new ty g)) = Fin r \<and> 0 < r) \<and>
    algo_type (fold (cc_apply (algorithm_ops rg pw)) evs (algorithm_new ty g)) = ty"
  using congestion_control.window_open [OF algorithm_contract [OF assms(1)] algorithm_new_ok assms(2)]
  by (simp add: algo_type_run)

theorem controllers_keep_sending_witness:
  "1 \<le> cc_cwnd (algorithm_ops \<lparr>rg_usize = \<lambda>g. (g, g), rg_range = \<lambda>g lo hi. (lo, g)\<rparr> \<lparr>pw_powi = exact_powi, pw_powf = floor_root\<rparr>)
     (fold (cc_apply (algorithm_ops \<lparr>rg_usize = \<lambda>g. (g, g), rg_range = \<lambda>g lo hi. (lo, g)\<rparr> \<lparr>pw_powi = exact_powi, pw_powf = floor_root\<rparr>))
       [CcAck 5000000 None 1300 0 7, CcNack 8, CcTimeout 9] (algorithm_new AtCubic 3))"
  using controllers_keep_sending [OF pow_laws_met, of "[CcAck 5000000 None 1300 0 7, CcNack 8, CcTimeout 9]"
      "\<lparr>rg_usize = \<lambda>g. (g, g), rg_range = \<lambda>g lo hi. (lo, g)\<rparr>" AtCubic 3]
  by (simp add: usize_max_def in_year_def from_secs_def duration_limit_def nanos_per_sec_def)

text \<open>
  C35. The bandwidth filter of both BBR controllers, a queue from which covered and old samples are popped, answers with
  the maximum of the samples of the window, for every history of samples in the order of their times.
\<close>

theorem bandwidth_filter_exact:
  assumes "sorted (map fst hist)" "hist \<noteq> []"
  shows "mf_get (foldl (\<lambda>mf (t, r). mf_add t (Fin r) mf) (mf_new w) hist) =
    Fin (Max (snd ` {x \<in> set hist. saturating_duration_since (fst (last hist)) (fst x) \<le> w}))"
  using mf_get_run [OF assms, of w] by (simp add: mf_run_def recent_sample_def)

theorem bandwidth_filter_exact_witness:
  "mf_get (foldl (\<lambda>mf (t, r). mf_add t (Fin r) mf) (mf_new 10) [(0, 9), (5, 2), (12, 4)]) =
     Fin (Max (snd ` {x \<in> set [(0, 9), (5, 2), (12, 4)]. saturating_duration_since (fst (last [(0 :: int, 9), (5, 2), (12, 4 :: rat)])) (fst x) \<le> 10}))"
  using bandwidth_filter_exact [of "[(0, 9), (5, 2), (12, 4)]" 10] by simp

text \<open>
  C36. BBRv2 does not look at how long a round took. When an acknowledgement ends a round with excessive loss, the code gives the
  round its new start before it computes the duration of the old one, so the bandwidth it caps itself to is that of a round of
  one millisecond: 95 percent of the bytes of the round divided by a thousandth of a second, whatever the times were.
\<close>

theorem lossy_round_ignores_time:
  assumes "b2_delivered b + bytes \<ge> b2_next_round_delivered b"
    "b2_round_start_time b = Some start" "saturating_duration_since now start \<ge> b2_min_rtt b"
    "b2_bytes_delivered_in_round b + bytes \<noteq> 0"
    "f32_less LOSS_THRESH (f32_div (f32_of_nat (b2_bytes_lost_in_round b))
       (f32_of_nat (b2_bytes_delivered_in_round b + bytes + b2_bytes_lost_in_round b)))"
  shows "b2_bw_hi (b2_on_ack rg b rtt sample bytes in_flight now) =
    f32_mul (f32_div (f32_of_nat (b2_bytes_delivered_in_round b + bytes)) (round32 (1/1000))) (round32 (95/100))"
proof -
  let ?b1 = "b\<lparr>b2_last_now := Some now, b2_delivered := b2_delivered b + bytes,
               b2_bytes_delivered_in_round := b2_bytes_delivered_in_round b + bytes\<rparr>"
  obtain b2 where b2: "b2_round in_flight now ?b1 = (True, b2)" "b2_round_start_time b2 = Some now"
    "b2_bytes_delivered_in_round b2 = b2_bytes_delivered_in_round b + bytes" "b2_bytes_lost_in_round b2 = b2_bytes_lost_in_round b"
    using assms(1-3) by (simp add: b2_round_def Let_def)
  have "b2_bw_hi (b2_end_round in_flight now b2) =
      f32_mul (f32_div (f32_of_nat (b2_bytes_delivered_in_round b + bytes)) (round32 (1/1000))) (round32 (95/100))"
    using b2_end_round_cap [of b2 now in_flight] b2 assms(4,5) by (simp add: b2_loss_rate_def)
  then show ?thesis using b2(1) by (cases "in_flight = 0") (simp_all add: b2_on_ack_def Let_def b2_keeps_cap)
qed

theorem lossy_round_ignores_time_witness:
  "\<exists>b. b2_bw_hi (b2_on_ack \<lparr>rg_usize = \<lambda>g. (g, g), rg_range = \<lambda>g lo hi. (lo, g)\<rparr> b 5000000 None 10000 0 60000000000) =
     f32_mul (f32_div (f32_of_nat 10000) (round32 (1/1000))) (round32 (95/100))"
proof -
  let ?b = "(b2_new (0 :: nat))\<lparr>b2_round_start_time := Some 0, b2_bytes_lost_in_round := 10000, b2_min_rtt := 5000000\<rparr>"
  have rep: "representable 10000" "representable 20000" using representable_nat [of 10000] representable_nat [of 20000] by simp_all
  have "representable (1/2)" "representable (1/4)"
    using representable_scaled [of 1 "- 1"] representable_scaled [of 1 "- 2"] by (simp_all add: power_int_def power_divide)
  then have half: "round32 (1/2) = Fin (1/2)" by (simp add: round32_representable)
  obtain t where t: "round32 (2/100) = Fin t" "0 \<le> t" "t \<le> 1/4"
    by (rule round32_bounded [OF _ _ \<open>representable (1/4)\<close>, of "2/100"]) auto
  have n: "f32_of_nat 10000 = Fin 10000" "f32_of_nat 20000 = Fin 20000"
    using rep by (simp_all add: f32_of_nat_def round32_representable)
  have "f32_less LOSS_THRESH (f32_div (f32_of_nat 10000) (f32_of_nat 20000))"
    using t by (simp add: LOSS_THRESH_def n half)
  then show ?thesis
    using lossy_round_ignores_time [of ?b 10000 0 60000000000 "\<lparr>rg_usize = \<lambda>g. (g, g), rg_range = \<lambda>g lo hi. (lo, g)\<rparr>" 5000000 None 0]
    by (intro exI [of _ ?b]) (simp add: b2_new_def b2_enter_startup_def saturating_duration_since_def)
qed

text \<open>
  A persistent timeout of BBRv1, which the comments describe as a reset of the bandwidth to a small value, keeps the bandwidth: the
  largest sample of the window stays in front of the small one that is added; and the gain of the window that was
  just reduced is set to that of the start phase again.
\<close>

theorem timeout_keeps_bandwidth:
  assumes "b1_loss_count_in_round b \<ge> LOSS_EVENT_THRESHOLD" "mf_samples (b1_max_bw b) = (t, Fin r) # rest" "10000 < r"
    "saturating_duration_since now t \<le> mf_window (b1_max_bw b)"
  shows "mf_get (b1_max_bw (b1_on_timeout b now)) = mf_get (b1_max_bw b) \<and> b1_cwnd_gain (b1_on_timeout b now) = STARTUP_PACING_GAIN"
  using b1_timeout_keeps_bandwidth [OF assms] assms(2) by (simp add: mf_get_def)

section \<open>Synchronisation with a peer\<close>

text \<open>
  C37. Every node a session misses is asked for, once, in the order of priority. The batches of a session that is polled \<open>k\<close> times for
  \<open>n\<close> hashes, written one after the other, are the administrative, hot and cold queues without
  the hashes that are in flight already and without repetitions; once they are all asked for, nothing is wanted any more.
\<close>

theorem missing_nodes_requested_once:
  assumes "fetch_run n k ss = (reqs, ss')" "length (session_wants ss) \<le> k * n"
  shows "concat (map fb_hashes reqs) = session_wants ss \<and> distinct (session_wants ss) \<and>
    set (session_wants ss) = set (sc_missing_admin_nodes (ss_common ss) @ sc_missing_nodes_hot (ss_common ss)
        @ sc_missing_nodes_cold (ss_common ss)) - set (sc_in_flight_fetches (ss_common ss)) \<and>
    fst (next_fetch_batch n ss') = None"
proof -
  obtain req ss2 where nx: "next_fetch_batch n ss' = (req, ss2)" by (metis surj_pair)
  have run: "concat (map fb_hashes reqs) = session_wants ss" "session_wants ss' = []"
    using fetch_run_wanted [OF assms(1)] assms(2) by simp_all
  then have "req = None" using next_fetch_batch_wanted(1) [OF nx] next_fetch_batch_drain(2) [OF nx] by simp
  with run nx show ?thesis
    by (simp add: session_wants_def set_wanted distinct_wanted fetch_queue_def Un_ac)
qed

theorem missing_nodes_requested_once_witness:
  "\<exists>ss reqs ss'. fetch_run 2 2 ss = (reqs, ss') \<and> concat (map fb_hashes reqs) = [[1], [2], [3]]"
proof -
  let ?ss = "on_common (\<lambda>c. c\<lparr>sc_missing_admin_nodes := [[1]], sc_missing_nodes_hot := [[2], [1], [4]], sc_missing_nodes_cold := [[3]],
      sc_in_flight_fetches := [[4]]\<rparr>) (hs_new (ims_store sample_env 0) ims_new [] False 0)"
  have w: "session_wants ?ss = [[1], [2], [3]]" by (simp add: session_wants_def fetch_queue_def)
  obtain reqs ss' where r: "fetch_run 2 2 ?ss = (reqs, ss')" by (metis surj_pair)
  show ?thesis using missing_nodes_requested_once [OF r] r unfolding w by (intro exI [of _ ?ss] exI [of _ reqs] exI [of _ ss']) simp
qed

lemma sample_draws_tiny: "draws_enough sample_blake3 (sketch_new_keyed 16 None) nid"
proof -
  let ?f = "draw (\<lambda>n. of_nat (n div 4)) 16"
  have "?f 0 = 0" "?f 1 = 1" "?f 2 = 2" "?f 3 = 3" by (simp_all add: draw_def upt_conv_Cons)
  moreover have "{..<4 :: nat} = {0, 1, 2, 3}" by auto
  ultimately have "?f ` {..<4} = {0, 1, 2, 3}" by (simp only: image_insert image_empty)
  then have "card (?f ` {..<4}) = 4" by simp
  then show ?thesis
    unfolding draws_enough_def sample_stream by (intro exI [of _ 4]) (simp add: sketch_new_keyed_cells)
qed

text \<open>
  C38. A single missing node is found by one exchange. If two peers have the same nodes in a range, listed in any order, except for one node that
  only the sender of the sketch has, then the receiver decodes the sketch to exactly that node; if it neither has the node nor
  has asked for it, the node is among the requests of every sequence of batches that is long enough for what it wants. The
  hash streams of the ids have to yield enough different indices.
\<close>

theorem missing_node_found:
  assumes "ss_conversation_id ss' = ss_conversation_id ss"
    "ns_get_node_hashes_in_range ns' s' (ss_conversation_id ss) rg = Some (Inr ys)"
    "ns_get_node_hashes_in_range ns s (ss_conversation_id ss) rg = Some (Inr xs)" "mset ys = mset xs + {#x#}"
    "\<forall>y \<in> set ys. length y = 32 \<and> draws_enough b (sketch_new_keyed (tier_cell_count t) key) y" "length xs < 2 ^ 29"
    "untracked ns s (ss_common ss) x"
  shows "\<exists>sketch ss1. make_sync_sketch_keyed b ns' s' rg t key ss' = Some (Inr sketch) \<and>
    handle_sync_sketch_keyed b ns s sketch key ss = Some (Inr (DecodeSuccess [x] []), ss1) \<and>
    (\<forall>n k. length (session_wants ss1) \<le> k * n \<longrightarrow> x \<in> set (concat (map fb_hashes (fst (fetch_run n k ss1)))))"
proof -
  let ?ss1 = "on_common (queue_hot ns s [x]) ss"
  obtain sketch where sk: "make_sync_sketch_keyed b ns' s' rg t key ss' = Some (Inr sketch)"
    "handle_sync_sketch_keyed b ns s sketch key ss = Some (Inr (DecodeSuccess [x] []), ?ss1)"
    using one_apart [OF assms(1-6)] by blast
  have x: "x \<in> set (session_wants ?ss1)"
    using queue_hot_single [OF assms(7)] by (simp add: session_wants_def set_wanted fetch_queue_def)
  have "concat (map fb_hashes (fst (fetch_run n k ?ss1))) = session_wants ?ss1" if "length (session_wants ?ss1) \<le> k * n" for n k
    using fetch_run_wanted [of n k ?ss1 "fst (fetch_run n k ?ss1)" "snd (fetch_run n k ?ss1)"] that by simp
  then have "\<forall>n k. length (session_wants ?ss1) \<le> k * n \<longrightarrow> x \<in> set (concat (map fb_hashes (fst (fetch_run n k ?ss1))))"
    using x by simp
  with sk show ?thesis by blast
qed

theorem missing_node_found_witness:
  "\<exists>(ns :: in_memory_store node_store) (ns' :: in_memory_store node_store) sk ss k.
     ns_get_node_hashes_in_range ns ims_new [] \<lparr>sr_min_rank = 0, sr_max_rank = 9\<rparr> = Some (Inr [replicate 32 5, replicate 32 6]) \<and>
     make_sync_sketch_keyed sample_blake3 ns' ims_new \<lparr>sr_min_rank = 0, sr_max_rank = 9\<rparr> Tiny None
       (hs_new (ims_store sample_env 0) ims_new [] False 0) = Some (Inr sk) \<and>
     handle_sync_sketch_keyed sample_blake3 ns ims_new sk None (hs_new (ims_store sample_env 0) ims_new [] False 0)
       = Some (Inr (DecodeSuccess [replicate 32 7] []), ss) \<and>
     replicate 32 7 \<in> set (concat (map fb_hashes (fst (fetch_run 1 k ss))))"
proof -
  let ?l = "ims_store sample_env 0" and ?x = "replicate 32 7 :: node_hash" and ?rg = "\<lparr>sr_min_rank = 0, sr_max_rank = 9\<rparr>"
  let ?xs = "[replicate 32 5, replicate 32 6] :: node_hash list" and ?ys = "[replicate 32 6, ?x, replicate 32 5]"
  let ?ns = "?l\<lparr>ns_get_node_hashes_in_range := \<lambda>_ _ _. Some (Inr ?xs)\<rparr>" and ?ns' = "?l\<lparr>ns_get_node_hashes_in_range := \<lambda>_ _ _. Some (Inr ?ys)\<rparr>"
  let ?ss = "hs_new ?l ims_new [] False 0"
  have store: "ns_get_node_hashes_in_range ?ns ims_new (ss_conversation_id ?ss) ?rg = Some (Inr ?xs)"
    "ns_get_node_hashes_in_range ?ns' ims_new (ss_conversation_id ?ss) ?rg = Some (Inr ?ys)" by simp_all
  have more: "mset ?ys = mset ?xs + {#?x#}" by simp
  have un: "untracked ?ns ims_new (ss_common ?ss) ?x"
    by (simp add: untracked_def hs_new_def ims_store_def ims_has_node_def ims_new_def fm_new_def)
  have ids: "\<forall>y \<in> set ?ys. length y = 32 \<and> draws_enough sample_blake3 (sketch_new_keyed (tier_cell_count Tiny) None) y"
    by (simp add: sample_draws_tiny)
  from missing_node_found [OF HOL.refl store(2,1) more ids _ un] obtain sk ss1
    where r: "make_sync_sketch_keyed sample_blake3 ?ns' ims_new ?rg Tiny None ?ss = Some (Inr sk)"
      "handle_sync_sketch_keyed sample_blake3 ?ns ims_new sk None ?ss = Some (Inr (DecodeSuccess [?x] []), ss1)"
    and b: "\<forall>n k. length (session_wants ss1) \<le> k * n \<longrightarrow> ?x \<in> set (concat (map fb_hashes (fst (fetch_run n k ss1))))" by auto
  have "?x \<in> set (concat (map fb_hashes (fst (fetch_run 1 (length (session_wants ss1)) ss1))))" using b by (metis mult.right_neutral order_refl)
  moreover have "ns_get_node_hashes_in_range ?ns ims_new [] ?rg = Some (Inr ?xs)" by simp
  ultimately show ?thesis using r
    by (intro exI [of _ ?ns] exI [of _ ?ns'] exI [of _ sk] exI [of _ ss1] exI [of _ "length (session_wants ss1)"] conjI)
qed

text \<open>
  C39. The comparison of checksums is exact, as long as hashes do not collide: the ranges a session reports as different are, in the
  order the peer lists them, those it has no shard for itself and those whose nodes are not the same on both sides.
\<close>

theorem shards_differ_exact:
  assumes "make_sync_shard_checksums env ns s ss = Some (Inr shards)"
    "make_sync_shard_checksums env ns' s' ss' = Some (Inr remote)" "ss_conversation_id ss' = ss_conversation_id ss"
    "\<forall>rg. \<forall>h \<in> set (range_hashes ns s (ss_conversation_id ss) rg) \<union> set (range_hashes ns' s' (ss_conversation_id ss) rg). length h = 32"
    "\<forall>rg. de_blake3 env (shard_data ns s (ss_conversation_id ss) rg) = de_blake3 env (shard_data ns' s' (ss_conversation_id ss) rg)
       \<longrightarrow> shard_data ns s (ss_conversation_id ss) rg = shard_data ns' s' (ss_conversation_id ss) rg"
  shows "handle_sync_shard_checksums env ns s remote ss = Some (Inr (filter (\<lambda>rg. rg \<notin> fst ` set shards
      \<or> mset (range_hashes ns s (ss_conversation_id ss) rg) \<noteq> mset (range_hashes ns' s' (ss_conversation_id ss) rg)) (map fst remote)))"
  using assms by (rule shards_differ)

theorem shards_differ_exact_witness:
  "\<exists>ns :: in_memory_store node_store. handle_sync_shard_checksums sample_env (ims_store sample_env 0) ims_new [(shard_range 0, pad32 (replicate 32 7))]
       (hs_new (ims_store sample_env 0) ims_new [] False 0) = Some (Inr [shard_range 0]) \<and>
     make_sync_shard_checksums sample_env ns ims_new (hs_new (ims_store sample_env 0) ims_new [] False 0)
       = Some (Inr [(shard_range 0, pad32 (replicate 32 7))])"
proof -
  let ?l = "ims_store sample_env 0" and ?x = "replicate 32 7 :: node_hash"
  let ?ns = "?l\<lparr>ns_get_node_hashes_in_range := \<lambda>_ _ _. Some (Inr [?x])\<rparr>" and ?ss = "hs_new (ims_store sample_env 0) ims_new [] False 0"
  have heads: "ns_get_heads ?l ims_new c = []" for c by (simp add: ims_store_def ims_get_heads_def ims_new_def fm_new_def)
  have local: "ns_get_node_hashes_in_range ?l ims_new c rg = Some (Inr [])" for c rg
    by (simp add: ims_store_def ims_get_node_hashes_in_range_def ims_new_def fm_values_def fm_new_def)
  have l: "make_sync_shard_checksums sample_env ?l ims_new ?ss = Some (Inr [(shard_range 0, pad32 [])])"
    by (simp add: make_sync_shard_checksums_def max_rank_of_def map_filter_def heads shard_starts_def local add_u64_def u64_max_def
        SHARD_SIZE_def sample_fields)
  have r: "make_sync_shard_checksums sample_env ?ns ims_new ?ss = Some (Inr [(shard_range 0, pad32 ?x)])"
    by (simp add: make_sync_shard_checksums_def max_rank_of_def map_filter_def heads shard_starts_def add_u64_def u64_max_def
        SHARD_SIZE_def sample_fields)
  have rh: "range_hashes ?l ims_new c rg = []" "range_hashes ?ns ims_new c rg = [?x]" for c rg by (simp_all add: range_hashes_def local)
  have "pad32 [] \<noteq> pad32 ?x" by (simp add: pad32_def)
  with shards_differ_exact [OF l r HOL.refl] show ?thesis
    using r by (intro exI [of _ ?ns]) (simp add: rh shard_data_def sample_fields)
qed

text \<open>
  C40. The search for the solution of a puzzle returns the least number whose hash has enough leading zeros, exactly when a
  64-bit number has; otherwise it overflows its counter. The peer accepts the solution once while the challenge is pending. The difficulty of a
  puzzle is chosen by the peer and not checked: above the 256 bits of a hash there is no solution, so the search fails
  on every such puzzle.
\<close>

theorem puzzle_search:
  assumes "\<forall>d. length (de_blake3 env d) = 32"
  shows "(\<forall>k. solve_challenge env nonce difficulty = Some k \<longleftrightarrow>
        k \<le> u64_max \<and> difficulty \<le> solution_zeros env nonce k \<and> (\<forall>j < k. solution_zeros env nonce j < difficulty))
    \<and> (solve_challenge env nonce difficulty = None \<longleftrightarrow> (\<forall>k \<le> u64_max. solution_zeros env nonce k < difficulty))
    \<and> (\<forall>k (c :: session_common) expiry now. solve_challenge env nonce difficulty = Some k \<and> fm_wf (sc_pending_challenges c) \<and>
        fm_get (sc_pending_challenges c) nonce = Some expiry \<and> now \<le> expiry \<and> sc_effective_difficulty c \<le> difficulty \<longrightarrow>
        (\<exists>c'. verify_solution env nonce k now c = (True, c') \<and> (\<forall>k' t. fst (verify_solution env nonce k' t c') = False)))
    \<and> (difficulty > 256 \<longrightarrow> solve_challenge env nonce difficulty = None)"
proof (intro conjI allI impI)
  fix k
  show "solve_challenge env nonce difficulty = Some k \<longleftrightarrow>
      k \<le> u64_max \<and> difficulty \<le> solution_zeros env nonce k \<and> (\<forall>j < k. solution_zeros env nonce j < difficulty)"
    by (rule solve_challenge_first)
next
  show "solve_challenge env nonce difficulty = None \<longleftrightarrow> (\<forall>k \<le> u64_max. solution_zeros env nonce k < difficulty)"
    by (rule solve_challenge_None)
next
  fix k and c :: session_common and expiry now
  assume "solve_challenge env nonce difficulty = Some k \<and> fm_wf (sc_pending_challenges c) \<and>
    fm_get (sc_pending_challenges c) nonce = Some expiry \<and> now \<le> expiry \<and> sc_effective_difficulty c \<le> difficulty"
  then show "\<exists>c'. verify_solution env nonce k now c = (True, c') \<and> (\<forall>k' t. fst (verify_solution env nonce k' t c') = False)"
    by (simp add: solve_challenge_first verify_solution_def)
next
  assume big: "difficulty > 256"
  have "solution_zeros env nonce k < difficulty" for k
    using count_leading_zeros_le [of "de_blake3 env (nonce @ to_le_bytes (of_nat k))"] assms big by (simp add: solution_zeros_def)
  then show "solve_challenge env nonce difficulty = None" by (simp add: solve_challenge_None)
qed

theorem puzzle_search_witness:
  "solve_challenge (sample_env\<lparr>de_blake3 := \<lambda>_. replicate 32 1\<rparr>) [1, 2, 3] 300 = None \<and>
   solve_challenge (sample_env\<lparr>de_blake3 := \<lambda>_. replicate 32 1\<rparr>) [1, 2, 3] 7 = Some 0"
proof -
  have "solution_zeros (sample_env\<lparr>de_blake3 := \<lambda>_. replicate 32 1\<rparr>) [1, 2, 3] 0 = 7"
    by (simp add: solution_zeros_def byte_leading_zeros_def eval_nat_numeral)
  then show ?thesis
    using puzzle_search [of "sample_env\<lparr>de_blake3 := \<lambda>_. replicate 32 1\<rparr>" "[1, 2, 3]" 300]
      puzzle_search [of "sample_env\<lparr>de_blake3 := \<lambda>_. replicate 32 1\<rparr>" "[1, 2, 3]" 7] by simp
qed

text \<open>
  The difficulty a session works with is the median of the votes: what more than half of them lie between, it lies between.
\<close>

theorem difficulty_follows_majority:
  assumes "votes = fm_values (fm_set (sc_difficulty_votes c) v d)"
    "2 * length (filter (\<lambda>x. lo \<le> x \<and> x \<le> hi) votes) > length votes"
  shows "lo \<le> sc_effective_difficulty (update_difficulty_consensus v d c) \<and>
    sc_effective_difficulty (update_difficulty_consensus v d c) \<le> hi"
  using difficulty_median [OF assms] by blast

text \<open>
  A session is never scheduled in the past nor later than an hour from now, and at once while it has something to send.
\<close>

theorem session_wakeup:
  "now \<le> ac_next_wakeup c now \<and> ac_next_wakeup c now \<le> inst_add now (from_secs 3600) \<and>
   (sc_heads_dirty c \<or> sc_recon_dirty c \<or> session_wants \<lparr>ss_conversation_id = cid, ss_common = c\<rparr> \<noteq> [] \<longrightarrow> ac_next_wakeup c now = now)"
  using ac_next_wakeup_bounds ac_next_wakeup_now by blast

end
